(* ===== verification/Prelude.thy ===== *)
theory Prelude
  imports Main "HOL-Library.Word" "HOL-Library.Product_Lexorder"
begin

unbundle bit_operations_syntax

text \<open>
  The vocabulary shared by every component of the model: the machine integers of the
  Rust source as words of their width, the checked, saturating and rounding operations
  of the integer types, the \<^verbatim>\<open>Result\<close> type as a sum, slices of byte vectors, and the
  little- and big-endian byte images. \<^verbatim>\<open>usize\<close> counts and lengths are natural numbers.

  The model follows the release build: a \<^verbatim>\<open>debug_assert!\<close> is not evaluated, and plain
  integer arithmetic wraps at its width. Where an assertion states a property of the
  program, the development proves the property instead.
\<close>

section \<open>Proof collections\<close>

named_theorems arith_ops "definitions of the checked and saturating integer operations"
named_theorems inv_intros "introduction rules for the component invariants"
named_theorems codec_simps "equations of the byte readers and writers"

section \<open>Machine integers\<close>

type_synonym u8 = "8 word"
type_synonym u16 = "16 word"
type_synonym u32 = "32 word"
type_synonym u64 = "64 word"
type_synonym u128 = "128 word"
type_synonym usize = nat
type_synonym bytes = "u8 list"

abbreviation u64_MAX :: u64 where "u64_MAX \<equiv> 0xFFFFFFFFFFFFFFFF"
abbreviation u32_MAX :: u32 where "u32_MAX \<equiv> 0xFFFFFFFF"

definition checked_add :: "'a::len word \<Rightarrow> 'a word \<Rightarrow> 'a word option" where
  "checked_add a b = (if unat a + unat b < 2 ^ LENGTH('a) then Some (a + b) else None)"

definition checked_sub :: "'a::len word \<Rightarrow> 'a word \<Rightarrow> 'a word option" where
  "checked_sub a b = (if b \<le> a then Some (a - b) else None)"

text \<open>\<^verbatim>\<open>usize::saturating_add\<close> on a counter, 64 bits wide.\<close>

definition usize_saturating_add :: "usize \<Rightarrow> usize \<Rightarrow> usize" where
  "usize_saturating_add a b = min (a + b) (2 ^ 64 - 1)"

definition saturating_add :: "'a::len word \<Rightarrow> 'a word \<Rightarrow> 'a word" where
  "saturating_add a b = (if unat a + unat b < 2 ^ LENGTH('a) then a + b else - 1)"

definition saturating_sub :: "'a::len word \<Rightarrow> 'a word \<Rightarrow> 'a word" where
  "saturating_sub a b = (if b \<le> a then a - b else 0)"

definition saturating_mul :: "'a::len word \<Rightarrow> 'a word \<Rightarrow> 'a word" where
  "saturating_mul a b = (if unat a * unat b < 2 ^ LENGTH('a) then a * b else - 1)"

definition div_ceil :: "nat \<Rightarrow> nat \<Rightarrow> nat" where
  "div_ceil n d = n div d + (if n mod d = 0 then 0 else 1)"

lemmas [arith_ops] =
  checked_add_def checked_sub_def saturating_add_def saturating_sub_def saturating_mul_def

lemma unat_lt_2p: "unat (w :: 'a::len word) < 2 ^ LENGTH('a)"
  by (rule unsigned_less)

lemma unat_eqI: "unat a = unat b \<Longrightarrow> a = (b :: 'a::len word)"
  by (rule unsigned_word_eqI)

lemma unat_of_nat_no_wrap:
  "n < 2 ^ LENGTH('a) \<Longrightarrow> unat (of_nat n :: 'a::len word) = n"
  by (simp add: unsigned_of_nat take_bit_nat_eq_self)

lemma unat_plus_no_wrap:
  fixes a b :: "'a::len word"
  shows "unat a + unat b < 2 ^ LENGTH('a) \<Longrightarrow> unat (a + b) = unat a + unat b"
  by (simp add: unat_word_ariths)

lemma unat_minus_no_wrap:
  fixes a b :: "'a::len word"
  shows "b \<le> a \<Longrightarrow> unat (a - b) = unat a - unat b"
  by (rule unat_sub)

lemma unat_ucast_up:
  fixes w :: "'a::len word"
  assumes "LENGTH('a) \<le> LENGTH('b)"
  shows "unat (ucast w :: 'b::len word) = unat w"
proof -
  have "unat w < 2 ^ LENGTH('b)"
    using unat_lt_2p [of w] power_increasing [OF assms, of "2 :: nat"] by linarith
  then show ?thesis by (simp add: unsigned_ucast_eq take_bit_nat_eq_self)
qed

lemma sint_by_uint:
  assumes "LENGTH('a) = Suc n"
  shows "sint (w :: 'a::len word) = (if uint w < 2 ^ n then uint w else uint w - 2 ^ Suc n)"
proof -
  have s: "sint w = (uint w + 2 ^ n) mod 2 ^ Suc n - 2 ^ n"
    by (simp add: sint_uint signed_take_bit_eq_take_bit_shift take_bit_eq_mod assms)
  have r: "0 \<le> uint w" "uint w < 2 ^ Suc n" using uint_lt2p [of w] assms by simp_all
  show ?thesis
  proof (cases "uint w < 2 ^ n")
    case True
    then have "(uint w + 2 ^ n) mod 2 ^ Suc n = uint w + 2 ^ n" using r by (intro mod_pos_pos_trivial) simp_all
    with s True show ?thesis by simp
  next
    case False
    have "(uint w + 2 ^ n) mod 2 ^ Suc n = (uint w + 2 ^ n - 2 ^ Suc n) mod (2 ^ Suc n :: int)"
      by (rule minus_mod_self2 [symmetric])
    also have "\<dots> = uint w + 2 ^ n - 2 ^ Suc n"
      using r False by (intro mod_pos_pos_trivial) simp_all
    finally show ?thesis using s False by simp
  qed
qed

lemma sint_u64: "sint (w :: u64) = (if uint w < 2 ^ 63 then uint w else uint w - 2 ^ 64)"
  using sint_by_uint [of 63 w] by simp

lemma sint_u32: "sint (w :: u32) = (if uint w < 2 ^ 31 then uint w else uint w - 2 ^ 32)"
  using sint_by_uint [of 31 w] by simp

lemma uint_uminus_u64:
  fixes w :: u64
  assumes "w \<noteq> 0"
  shows "uint (- w) = 2 ^ 64 - uint w"
proof -
  have "uint (- w) = (- uint w) mod 2 ^ 64"
    by (simp add: uint_word_ariths)
  also have "\<dots> = 2 ^ 64 - uint w"
    using assms uint_lt2p [of w] uint_ge_0 [of w]
    by (simp add: zmod_zminus1_eq_if mod_pos_pos_trivial uint_0_iff)
  finally show ?thesis .
qed

lemma unat_add_less_uint: "unat a + unat b < n \<longleftrightarrow> uint (a :: 'a::len word) + uint (b :: 'a word) < int n"
  by (metis of_nat_add of_nat_less_iff uint_nat)

lemma unat_max: "unat (max a b) = max (unat a) (unat (b :: 'a::len word))"
  by (simp add: max_def word_le_nat_alt)

lemma unat_min: "unat (min a b) = min (unat a) (unat (b :: 'a::len word))"
  by (simp add: min_def word_le_nat_alt)

lemma checked_add_Some_iff:
  "checked_add a b = Some c \<longleftrightarrow> unat a + unat b < 2 ^ LENGTH('a) \<and> c = (a + b :: 'a::len word)"
  by (auto simp: checked_add_def)

lemma checked_add_None_iff:
  "checked_add a (b :: 'a::len word) = None \<longleftrightarrow> 2 ^ LENGTH('a) \<le> unat a + unat b"
  by (auto simp: checked_add_def)

lemma checked_sub_Some_iff:
  "checked_sub a b = Some c \<longleftrightarrow> b \<le> a \<and> c = (a - b :: 'a::len word)"
  by (auto simp: checked_sub_def)

lemma unat_saturating_add:
  "unat (saturating_add a (b :: 'a::len word)) = min (unat a + unat b) (2 ^ LENGTH('a) - 1)"
  by (auto simp: saturating_add_def unat_plus_no_wrap unsigned_minus_1_eq_mask mask_eq_exp_minus_1)

lemma saturating_add_ge: "a \<le> saturating_add a (b :: 'a::len word)"
proof -
  have "unat a \<le> 2 ^ LENGTH('a) - 1"
    using unat_lt_2p [of a] by linarith
  then show ?thesis
    by (simp add: word_le_nat_alt unat_saturating_add)
qed

lemma saturating_add_mono:
  "a \<le> a' \<Longrightarrow> saturating_add a (b :: 'a::len word) \<le> saturating_add a' b"
  by (simp add: word_le_nat_alt unat_saturating_add min_def)

lemma div_ceil_ge:
  assumes "0 < d"
  shows "n \<le> div_ceil n d * d"
proof -
  have "n = n div d * d + n mod d"
    by simp
  moreover have "n mod d < d"
    using assms by simp
  ultimately have "n \<le> n div d * d + d"
    by linarith
  then show ?thesis
    by (auto simp: div_ceil_def add_mult_distrib)
qed

lemma div_ceil_least:
  assumes "0 < d" and "n \<le> k * d"
  shows "div_ceil n d \<le> k"
proof (cases "n mod d = 0")
  case True
  then show ?thesis
    using assms div_le_mono [of n "k * d" d] by (simp add: div_ceil_def)
next
  case False
  have "n div d < k"
  proof (rule ccontr)
    assume "\<not> n div d < k"
    then have "k * d \<le> n div d * d" by simp
    moreover have "n div d * d < n" using False div_mult_mod_eq [of n d] by linarith
    ultimately show False using assms(2) by linarith
  qed
  with False show ?thesis by (simp add: div_ceil_def)
qed

section \<open>Results\<close>

text \<open>
  \<^verbatim>\<open>Result<T, E>\<close> is \<open>'e + 'a\<close> with \<^const>\<open>Inl\<close> for the error; the \<^verbatim>\<open>?\<close> operator is
  \<open>rbind\<close>.
\<close>

definition rbind :: "'e + 'a \<Rightarrow> ('a \<Rightarrow> 'e + 'b) \<Rightarrow> 'e + 'b" where
  "rbind m f = (case m of Inl e \<Rightarrow> Inl e | Inr a \<Rightarrow> f a)"

lemma rbind_simps [simp]: "rbind (Inl e) f = Inl e" "rbind (Inr a) f = f a"
  by (simp_all add: rbind_def)

lemma rbind_Inr_iff: "rbind m f = Inr b \<longleftrightarrow> (\<exists>a. m = Inr a \<and> f a = Inr b)"
  by (cases m) auto

lemma rbind_Inl_iff: "rbind m f = Inl e \<longleftrightarrow> m = Inl e \<or> (\<exists>a. m = Inr a \<and> f a = Inl e)"
  by (cases m) auto

definition is_ok :: "'e + 'a \<Rightarrow> bool" where
  "is_ok m = (case m of Inl _ \<Rightarrow> False | Inr _ \<Rightarrow> True)"

lemma is_ok_simps [simp]: "\<not> is_ok (Inl e)" "is_ok (Inr a)"
  by (simp_all add: is_ok_def)

lemma is_ok_iff: "is_ok m \<longleftrightarrow> (\<exists>a. m = Inr a)"
  by (cases m) auto

section \<open>Slices\<close>

definition slice :: "nat \<Rightarrow> nat \<Rightarrow> 'a list \<Rightarrow> 'a list" where
  "slice i n xs = take n (drop i xs)"

definition get_slice :: "nat \<Rightarrow> nat \<Rightarrow> 'a list \<Rightarrow> 'a list option" where
  "get_slice i n xs = (if i + n \<le> length xs then Some (slice i n xs) else None)"

definition splice :: "nat \<Rightarrow> 'a list \<Rightarrow> 'a list \<Rightarrow> 'a list" where
  "splice i ys xs = take i xs @ ys @ drop (i + length ys) xs"

text \<open>The index of the first element that satisfies \<open>P\<close>, as \<^verbatim>\<open>Iterator::position\<close>, and \<^verbatim>\<open>Vec::remove\<close>.\<close>

fun list_position :: "('a \<Rightarrow> bool) \<Rightarrow> 'a list \<Rightarrow> nat option" where
  "list_position P [] = None"
| "list_position P (x # xs) = (if P x then Some 0 else map_option Suc (list_position P xs))"

definition remove_at :: "nat \<Rightarrow> 'a list \<Rightarrow> 'a list" where
  "remove_at i xs = take i xs @ drop (Suc i) xs"

lemma length_slice [simp]: "length (slice i n xs) = min n (length xs - i)"
  by (simp add: slice_def)

lemma nth_slice [simp]: "k < n \<Longrightarrow> i + k < length xs \<Longrightarrow> slice i n xs ! k = xs ! (i + k)"
  by (simp add: slice_def)

lemma length_splice [simp]: "i + length ys \<le> length xs \<Longrightarrow> length (splice i ys xs) = length xs"
  by (simp add: splice_def)

lemma nth_splice:
  assumes "i + length ys \<le> length xs" and "k < length xs"
  shows "splice i ys xs ! k = (if i \<le> k \<and> k < i + length ys then ys ! (k - i) else xs ! k)"
  using assms by (auto simp: splice_def nth_append min_def)

lemma slice_append_left: "i + n \<le> length xs \<Longrightarrow> slice i n (xs @ ys) = slice i n xs"
  by (simp add: slice_def)

lemma slice_append_right: "slice (length xs) n (xs @ ys) = take n ys"
  by (simp add: slice_def)

lemma find_SomeD: "find P xs = Some x \<Longrightarrow> P x \<and> x \<in> set xs"
  by (induction xs) (auto split: if_splits)

section \<open>Byte images\<close>

text \<open>
  \<^verbatim>\<open>to_le_bytes\<close> and \<^verbatim>\<open>from_le_bytes\<close> for an \<open>n\<close>-byte integer: byte \<open>i\<close> holds the bits
  \<open>8 * i ..< 8 * i + 8\<close>. The big-endian images are the reversals.
\<close>

definition to_le :: "nat \<Rightarrow> 'a::len word \<Rightarrow> bytes" where
  "to_le n w = map (\<lambda>i. ucast (drop_bit (8 * i) w)) [0..<n]"

fun from_le :: "bytes \<Rightarrow> 'a::len word" where
  "from_le [] = 0"
| "from_le (b # bs) = ucast b OR push_bit 8 (from_le bs)"

definition to_be :: "nat \<Rightarrow> 'a::len word \<Rightarrow> bytes" where
  "to_be n w = rev (to_le n w)"

definition from_be :: "bytes \<Rightarrow> 'a::len word" where
  "from_be bs = from_le (rev bs)"

lemma length_to_le [simp, codec_simps]: "length (to_le n w) = n"
  by (simp add: to_le_def)

lemma length_to_be [simp]: "length (to_be n w) = n"
  by (simp add: to_be_def)

lemma bit_from_le:
  "bit (from_le bs :: 'a::len word) k \<longleftrightarrow>
     k < LENGTH('a) \<and> k div 8 < length bs \<and> bit (bs ! (k div 8)) (k mod 8)"
proof (induction bs arbitrary: k)
  case Nil
  then show ?case by simp
next
  case (Cons b bs)
  show ?case
  proof (cases "k < 8")
    case True
    then show ?thesis
      by (auto simp: bit_or_iff bit_push_bit_iff bit_unsigned_iff dest: bit_imp_le_length)
  next
    case False
    then have d: "k div 8 = Suc ((k - 8) div 8)" and m: "k mod 8 = (k - 8) mod 8"
      by (simp_all add: le_div_geq le_mod_geq)
    have nb: "\<not> bit b k" using False by (auto dest: bit_imp_le_length)
    have "bit (from_le (b # bs) :: 'a word) k \<longleftrightarrow>
        k < LENGTH('a) \<and> bit (from_le bs :: 'a word) (k - 8)"
      using False nb by (auto simp: bit_or_iff bit_push_bit_iff bit_unsigned_iff)
    also have "\<dots> \<longleftrightarrow> k < LENGTH('a) \<and> k div 8 < length (b # bs) \<and> bit ((b # bs) ! (k div 8)) (k mod 8)"
      by (auto simp: Cons.IH d m)
    finally show ?thesis .
  qed
qed

lemma from_le_to_le [simp, codec_simps]:
  assumes "LENGTH('a) \<le> 8 * n"
  shows "from_le (to_le n w) = (w :: 'a::len word)"
proof (rule bit_word_eqI)
  fix k assume k: "k < LENGTH('a)"
  then have "k div 8 < n" using assms by auto
  then show "bit (from_le (to_le n w) :: 'a word) k = bit w k"
    using k by (simp add: bit_from_le to_le_def bit_unsigned_iff bit_drop_bit_eq)
qed

lemma from_be_to_be [simp]:
  "LENGTH('a) \<le> 8 * n \<Longrightarrow> from_be (to_be n w) = (w :: 'a::len word)"
  by (simp add: from_be_def to_be_def)

lemma to_le_from_le:
  assumes "8 * length bs = LENGTH('a)"
  shows "to_le (length bs) (from_le bs :: 'a::len word) = bs"
proof (rule nth_equalityI)
  show "length (to_le (length bs) (from_le bs :: 'a word)) = length bs" by simp
  fix i assume "i < length (to_le (length bs) (from_le bs :: 'a word))"
  then have i: "i < length bs" by simp
  show "to_le (length bs) (from_le bs :: 'a word) ! i = bs ! i"
  proof (rule bit_word_eqI)
    fix j assume "j < LENGTH(8)"
    then have j: "j < 8" by simp
    then have "(8 * i + j) div 8 = i" "(8 * i + j) mod 8 = j" by simp_all
    moreover have "8 * i + j < LENGTH('a)" using i j assms by linarith
    ultimately show "bit (to_le (length bs) (from_le bs :: 'a word) ! i) j = bit (bs ! i) j"
      using i j by (simp add: to_le_def bit_unsigned_iff bit_drop_bit_eq bit_from_le)
  qed
qed

lemma fresh_seq:
  fixes n :: u64
  assumes "n \<noteq> u64_MAX"
  shows "n < n + 1"
proof (rule ccontr)
  assume "\<not> n < n + 1"
  then have "\<not> unat n + 1 < 2 ^ 64" using unat_plus_no_wrap [of n 1] by (auto simp: word_less_nat_alt)
  then have "unat n = unat (u64_MAX :: u64)" using unat_lt_2p [of n] by simp
  then show False using assms unat_eqI by blast
qed

end
