(* ===== verification/Guest_Time.thy ===== *)
theory Guest_Time
  imports Prelude
begin

text \<open>
  The crate \<^verbatim>\<open>cellgov_time\<close>: the three time-like newtypes (guest ticks, commit epochs and
  scheduler budgets with the instruction costs drawn against them) and the conversions
  between guest ticks, the time base, nanoseconds and microseconds. Each newtype is a
  datatype of its own, so no conversion is implicit here either. A panicking operation
  returns \<^const>\<open>None\<close>.
\<close>

section \<open>Guest ticks\<close>

datatype GuestTicks = GuestTicks (GuestTicks_raw: u64)

instantiation GuestTicks :: linorder
begin

definition less_eq_GuestTicks :: "GuestTicks \<Rightarrow> GuestTicks \<Rightarrow> bool" where
  "less_eq_GuestTicks a b \<longleftrightarrow> GuestTicks_raw a \<le> GuestTicks_raw b"

definition less_GuestTicks :: "GuestTicks \<Rightarrow> GuestTicks \<Rightarrow> bool" where
  "less_GuestTicks a b \<longleftrightarrow> GuestTicks_raw a < GuestTicks_raw b"

instance
  by standard (auto simp: less_eq_GuestTicks_def less_GuestTicks_def intro: GuestTicks.expand)

end

definition GuestTicks_ZERO :: GuestTicks where
  "GuestTicks_ZERO = GuestTicks 0"

definition GuestTicks_checked_add :: "GuestTicks \<Rightarrow> GuestTicks \<Rightarrow> GuestTicks option" where
  "GuestTicks_checked_add t d =
     (case checked_add (GuestTicks_raw t) (GuestTicks_raw d) of
        Some v \<Rightarrow> Some (GuestTicks v) | None \<Rightarrow> None)"

definition GuestTicks_saturating_add :: "GuestTicks \<Rightarrow> GuestTicks \<Rightarrow> GuestTicks" where
  "GuestTicks_saturating_add t d = GuestTicks (saturating_add (GuestTicks_raw t) (GuestTicks_raw d))"

definition GuestTicks_checked_duration_since :: "GuestTicks \<Rightarrow> GuestTicks \<Rightarrow> GuestTicks option" where
  "GuestTicks_checked_duration_since t earlier =
     (case checked_sub (GuestTicks_raw t) (GuestTicks_raw earlier) of
        Some v \<Rightarrow> Some (GuestTicks v) | None \<Rightarrow> None)"

lemma GuestTicks_le [simp]: "GuestTicks a \<le> GuestTicks b \<longleftrightarrow> a \<le> b"
  by (simp add: less_eq_GuestTicks_def)

lemma GuestTicks_less [simp]: "GuestTicks a < GuestTicks b \<longleftrightarrow> a < b"
  by (simp add: less_GuestTicks_def)

lemma GuestTicks_ZERO_least [simp]: "GuestTicks_ZERO \<le> t"
  by (cases t) (simp add: GuestTicks_ZERO_def)

lemma GuestTicks_saturating_add_ge: "t \<le> GuestTicks_saturating_add t d"
  by (simp add: less_eq_GuestTicks_def GuestTicks_saturating_add_def saturating_add_ge)

lemma GuestTicks_saturating_add_mono:
  "t \<le> t' \<Longrightarrow> GuestTicks_saturating_add t d \<le> GuestTicks_saturating_add t' d"
  by (simp add: less_eq_GuestTicks_def GuestTicks_saturating_add_def saturating_add_mono)

lemma GuestTicks_checked_add_ge: "GuestTicks_checked_add t d = Some t' \<Longrightarrow> t \<le> t'"
  by (cases t; cases d)
     (auto simp: GuestTicks_checked_add_def checked_add_def word_le_nat_alt unat_plus_no_wrap
           split: if_splits)

section \<open>Epochs\<close>

datatype Epoch = Epoch (Epoch_raw: u64)

definition Epoch_ZERO :: Epoch where
  "Epoch_ZERO = Epoch 0"

definition Epoch_next :: "Epoch \<Rightarrow> Epoch option" where
  "Epoch_next e = (case checked_add (Epoch_raw e) 1 of Some v \<Rightarrow> Some (Epoch v) | None \<Rightarrow> None)"

text \<open>\<^verbatim>\<open>Epoch::advance\<close> panics on overflow, which is \<^const>\<open>None\<close> here.\<close>

definition Epoch_advance :: "Epoch \<Rightarrow> Epoch option" where
  "Epoch_advance e = (case Epoch_next e of Some e' \<Rightarrow> Some e' | None \<Rightarrow> None)"

section \<open>Budgets and instruction costs\<close>

datatype InstructionCost = InstructionCost (InstructionCost_raw: u64)

definition InstructionCost_ZERO :: InstructionCost where
  "InstructionCost_ZERO = InstructionCost 0"

definition InstructionCost_ONE :: InstructionCost where
  "InstructionCost_ONE = InstructionCost 1"

definition GuestTicks_from_cost :: "InstructionCost \<Rightarrow> GuestTicks" where
  "GuestTicks_from_cost c = GuestTicks (InstructionCost_raw c)"

datatype Budget = Budget (Budget_raw: u64)

definition Budget_ZERO :: Budget where
  "Budget_ZERO = Budget 0"

definition Budget_DEFAULT_STEP :: Budget where
  "Budget_DEFAULT_STEP = Budget 256"

definition Budget_is_exhausted :: "Budget \<Rightarrow> bool" where
  "Budget_is_exhausted b \<longleftrightarrow> Budget_raw b = 0"

datatype Consume = Consume_Ok Budget | Consume_Yield (remaining: Budget) (shortfall: u64)

definition Budget_try_consume :: "Budget \<Rightarrow> InstructionCost \<Rightarrow> Consume" where
  "Budget_try_consume b cost =
     (case checked_sub (Budget_raw b) (InstructionCost_raw cost) of
        Some v \<Rightarrow> Consume_Ok (Budget v)
      | None \<Rightarrow> Consume_Yield b (InstructionCost_raw cost - Budget_raw b))"

definition Budget_consumed_since :: "Budget \<Rightarrow> Budget \<Rightarrow> InstructionCost" where
  "Budget_consumed_since b rem = InstructionCost (saturating_sub (Budget_raw b) (Budget_raw rem))"

lemma Budget_try_consume_cases:
  "(Budget_try_consume b c = Consume_Ok b' \<longleftrightarrow>
      unat (Budget_raw b') + unat (InstructionCost_raw c) = unat (Budget_raw b)) \<and>
   (Budget_try_consume b c = Consume_Yield b' s \<longleftrightarrow>
      b' = b \<and> unat (Budget_raw b) < unat (InstructionCost_raw c) \<and>
      unat s = unat (InstructionCost_raw c) - unat (Budget_raw b))"
proof -
  obtain x where b: "b = Budget x" by (cases b)
  obtain y where c: "c = InstructionCost y" by (cases c)
  obtain z where b': "b' = Budget z" by (cases b')
  have 1: "y \<le> x \<Longrightarrow> z = x - y \<longleftrightarrow> unat z + unat y = unat x"
    by (metis add_diff_cancel_right' le_add2 unat_sub word_eq_iff_unsigned word_le_nat_alt
          ordered_cancel_comm_monoid_diff_class.diff_add)
  have 2: "x < y \<Longrightarrow> s = y - x \<longleftrightarrow> unat s = unat y - unat x"
    by (metis unat_sub order_less_imp_le word_eq_iff_unsigned)
  show ?thesis
    using 1 2 unfolding b c b'
    by (auto simp: Budget_try_consume_def checked_sub_def word_le_nat_alt word_less_nat_alt
                   not_le)
qed

lemma Budget_consume_then_consumed:
  assumes "Budget_try_consume b c = Consume_Ok b'"
  shows "Budget_consumed_since b b' = c"
proof (cases c)
  case (InstructionCost y)
  have sum: "unat (Budget_raw b') + unat y = unat (Budget_raw b)"
    using assms Budget_try_consume_cases [of b c b'] InstructionCost by simp
  then have le: "Budget_raw b' \<le> Budget_raw b"
    by (simp add: word_le_nat_alt)
  have "unat (Budget_raw b - Budget_raw b') = unat y"
    using sum le by (simp add: unat_sub)
  then show ?thesis
    using le InstructionCost by (simp add: Budget_consumed_since_def saturating_sub_def unat_eqI)
qed

section \<open>Conversions\<close>

text \<open>
  Constants of \<^verbatim>\<open>cellgov_ps3_abi\<close> and \<^verbatim>\<open>conversion.rs\<close>. A product the source computes in
  \<^verbatim>\<open>u128\<close> cannot overflow there (both factors are below \<open>2 ^ 64\<close>), so the model computes
  it exactly on natural numbers.
\<close>

definition CELL_PPU_TIMEBASE_HZ :: u64 where "CELL_PPU_TIMEBASE_HZ = 79800000"
definition SPU_CYCLES_PER_TB_TICK :: u64 where "SPU_CYCLES_PER_TB_TICK = 40"
definition TICKS_PER_TB_TICK :: u64 where "TICKS_PER_TB_TICK = SPU_CYCLES_PER_TB_TICK"
definition TICKS_PER_SECOND :: u64 where "TICKS_PER_SECOND = TICKS_PER_TB_TICK * CELL_PPU_TIMEBASE_HZ"
definition TICKS_PER_USEC :: u64 where "TICKS_PER_USEC = TICKS_PER_SECOND div 1000000"
definition NSEC_NUM :: u64 where "NSEC_NUM = 125"
definition NSEC_DEN :: u64 where "NSEC_DEN = 399"

lemmas time_consts = CELL_PPU_TIMEBASE_HZ_def SPU_CYCLES_PER_TB_TICK_def TICKS_PER_TB_TICK_def
  TICKS_PER_SECOND_def TICKS_PER_USEC_def NSEC_NUM_def NSEC_DEN_def

text \<open>The compile-time assertions of the source.\<close>

lemma TICKS_PER_SECOND_value: "TICKS_PER_SECOND = 3192000000"
  by (simp add: time_consts)

lemma TICKS_PER_USEC_value: "TICKS_PER_USEC = 3192"
  by (simp add: time_consts)

definition ticks_to_tb :: "u64 \<Rightarrow> u64" where
  "ticks_to_tb ticks = ticks div TICKS_PER_TB_TICK"

definition tb_to_ticks :: "u64 \<Rightarrow> u64 \<Rightarrow> u64" where
  "tb_to_ticks tb_num tb_den =
     (if tb_den = 0 then u64_MAX
      else let ticks = div_ceil (unat tb_num * unat TICKS_PER_TB_TICK) (unat tb_den)
           in if ticks > unat u64_MAX then u64_MAX else of_nat ticks)"

definition spu_cycles_to_ticks :: "u64 \<Rightarrow> u64" where
  "spu_cycles_to_ticks cycles = cycles"

definition nsec_to_ticks :: "u64 \<Rightarrow> u64" where
  "nsec_to_ticks nsec =
     (let ticks = (unat nsec * unat NSEC_DEN) div unat NSEC_NUM
      in if ticks > unat u64_MAX then u64_MAX else of_nat ticks)"

definition usec_to_ticks :: "u64 \<Rightarrow> u64" where
  "usec_to_ticks usec = saturating_mul usec TICKS_PER_USEC"

definition ticks_to_nsec :: "u64 \<Rightarrow> u64" where
  "ticks_to_nsec ticks = of_nat ((unat ticks * unat NSEC_NUM) div unat NSEC_DEN)"

definition ticks_to_sec_nsec :: "u64 \<Rightarrow> u64 \<times> u64" where
  "ticks_to_sec_nsec ticks =
     (let sec = ticks div TICKS_PER_SECOND;
          nsec = ticks_to_nsec (ticks mod TICKS_PER_SECOND)
      in (sec, nsec))"

lemma unat_ticks_to_tb: "unat (ticks_to_tb t) = unat t div 40"
  by (simp add: ticks_to_tb_def time_consts unat_div_distrib)

lemma u64_lt: "unat (t :: u64) < 18446744073709551616"
  using unat_lt_2p [of t] by simp

lemma unat_ticks_to_nsec: "unat (ticks_to_nsec t) = unat t * 125 div 399"
proof -
  have "unat t * 125 div 399 \<le> unat t" by linarith
  then have "unat t * 125 div 399 < 2 ^ 64" using u64_lt [of t] by simp
  then show ?thesis
    by (simp add: ticks_to_nsec_def time_consts unat_of_nat_no_wrap)
qed

lemma unat_tb_to_ticks:
  "d \<noteq> 0 \<Longrightarrow> unat (tb_to_ticks n d) = min (div_ceil (unat n * 40) (unat d)) (unat u64_MAX)"
  by (auto simp: tb_to_ticks_def Let_def time_consts unat_of_nat_no_wrap)

lemma unat_nsec_to_ticks:
  "unat (nsec_to_ticks n) = min (unat n * 399 div 125) (unat u64_MAX)"
  by (auto simp: nsec_to_ticks_def Let_def time_consts unat_of_nat_no_wrap)

text \<open>
  The time-base conversion is adjoint to its inverse: a tick count has reached
  \<open>tb_num / tb_den\<close> time-base ticks exactly when it is at least \<open>tb_to_ticks\<close> of them.
\<close>

lemma tb_to_ticks_adjoint:
  assumes "d \<noteq> 0" and "div_ceil (unat n * 40) (unat d) \<le> unat u64_MAX"
  shows "tb_to_ticks n d \<le> t \<longleftrightarrow> unat n * 40 \<le> unat t * unat d"
proof -
  have d: "0 < unat d" using assms(1) by (simp add: unat_gt_0)
  have "tb_to_ticks n d \<le> t \<longleftrightarrow> div_ceil (unat n * 40) (unat d) \<le> unat t"
    using assms by (simp add: word_le_nat_alt unat_tb_to_ticks)
  also have "\<dots> \<longleftrightarrow> unat n * 40 \<le> unat t * unat d"
  proof
    assume "div_ceil (unat n * 40) (unat d) \<le> unat t"
    then show "unat n * 40 \<le> unat t * unat d"
      using div_ceil_ge [OF d, of "unat n * 40"] by (meson le_trans mult_le_mono1)
  next
    assume "unat n * 40 \<le> unat t * unat d"
    then show "div_ceil (unat n * 40) (unat d) \<le> unat t"
      by (rule div_ceil_least [OF d])
  qed
  finally show ?thesis .
qed

lemma tb_roundtrip:
  assumes "unat n * 40 \<le> unat u64_MAX"
  shows "ticks_to_tb (tb_to_ticks n 1) = n"
proof -
  have "div_ceil (unat n * 40) (unat (1::u64)) = unat n * 40"
    by (simp add: div_ceil_def)
  then have "unat (tb_to_ticks n 1) = unat n * 40"
    using assms unat_tb_to_ticks [of 1 n] by simp
  then have "unat (ticks_to_tb (tb_to_ticks n 1)) = unat n"
    by (simp add: unat_ticks_to_tb)
  then show ?thesis by (rule unat_eqI)
qed

lemma sec_nsec_exact:
  assumes "ticks_to_sec_nsec t = (sec, nsec)"
  shows "unat sec = unat t div 3192000000"
    and "unat nsec = unat t mod 3192000000 * 125 div 399"
    and "unat nsec < 1000000000"
proof -
  have s: "sec = t div TICKS_PER_SECOND" and n: "nsec = ticks_to_nsec (t mod TICKS_PER_SECOND)"
    using assms by (simp_all add: ticks_to_sec_nsec_def Let_def)
  show "unat sec = unat t div 3192000000"
    by (simp add: s TICKS_PER_SECOND_value unat_div_distrib)
  show nsec: "unat nsec = unat t mod 3192000000 * 125 div 399"
    by (simp add: n unat_ticks_to_nsec TICKS_PER_SECOND_value unat_mod_distrib)
  have "unat t mod 3192000000 < (3192000000::nat)" by simp
  then show "unat nsec < 1000000000"
    unfolding nsec by linarith
qed

end
