(* ===== verification/Events.thy ===== *)
theory Events
  imports Guest_Time
begin

text \<open>
  The crate \<^verbatim>\<open>cellgov_event\<close>: the identifier newtypes, the priority classes and the global
  ordering key of guest-visible events. The derived \<^verbatim>\<open>Ord\<close> of each type is its instance
  of \<^verbatim>\<open>linorder\<close>: by raw value for an id, by discriminant for a class, and field by field
  in declaration order for the key.
\<close>

section \<open>Identifiers\<close>

datatype UnitId = UnitId (UnitId_raw: u64)
datatype EventId = EventId (EventId_raw: u64)
datatype SequenceNumber = SequenceNumber (SequenceNumber_raw: u64)

instantiation UnitId :: linorder
begin

definition less_eq_UnitId :: "UnitId \<Rightarrow> UnitId \<Rightarrow> bool" where
  "less_eq_UnitId a b \<longleftrightarrow> UnitId_raw a \<le> UnitId_raw b"

definition less_UnitId :: "UnitId \<Rightarrow> UnitId \<Rightarrow> bool" where
  "less_UnitId a b \<longleftrightarrow> UnitId_raw a < UnitId_raw b"

instance
  by standard (auto simp: less_eq_UnitId_def less_UnitId_def intro: UnitId.expand)

end

instantiation SequenceNumber :: linorder
begin

definition less_eq_SequenceNumber :: "SequenceNumber \<Rightarrow> SequenceNumber \<Rightarrow> bool" where
  "less_eq_SequenceNumber a b \<longleftrightarrow> SequenceNumber_raw a \<le> SequenceNumber_raw b"

definition less_SequenceNumber :: "SequenceNumber \<Rightarrow> SequenceNumber \<Rightarrow> bool" where
  "less_SequenceNumber a b \<longleftrightarrow> SequenceNumber_raw a < SequenceNumber_raw b"

instance
  by standard
     (auto simp: less_eq_SequenceNumber_def less_SequenceNumber_def intro: SequenceNumber.expand)

end

lemma UnitId_le [simp]: "UnitId a \<le> UnitId b \<longleftrightarrow> a \<le> b"
  by (simp add: less_eq_UnitId_def)

lemma UnitId_less [simp]: "UnitId a < UnitId b \<longleftrightarrow> a < b"
  by (simp add: less_UnitId_def)

definition SequenceNumber_ZERO :: SequenceNumber where
  "SequenceNumber_ZERO = SequenceNumber 0"

definition SequenceNumber_next :: "SequenceNumber \<Rightarrow> SequenceNumber option" where
  "SequenceNumber_next s =
     (case checked_add (SequenceNumber_raw s) 1 of
        Some v \<Rightarrow> Some (SequenceNumber v) | None \<Rightarrow> None)"

lemma SequenceNumber_next_greater:
  assumes "SequenceNumber_next s = Some s'"
  shows "s < s'"
proof (cases s)
  case (SequenceNumber x)
  then have "unat x + 1 < 2 ^ LENGTH(64)" and "s' = SequenceNumber (x + 1)"
    using assms by (auto simp: SequenceNumber_next_def checked_add_def split: if_splits)
  then show ?thesis
    using unat_plus_no_wrap [of x 1] SequenceNumber
    by (simp add: less_SequenceNumber_def word_less_nat_alt)
qed

section \<open>Priority classes\<close>

datatype PriorityClass = Critical | High | Normal | Background

primrec PriorityClass_disc :: "PriorityClass \<Rightarrow> u8" where
  "PriorityClass_disc Critical = 0"
| "PriorityClass_disc High = 1"
| "PriorityClass_disc Normal = 2"
| "PriorityClass_disc Background = 3"

lemma PriorityClass_disc_inj: "PriorityClass_disc a = PriorityClass_disc b \<Longrightarrow> a = b"
  by (cases a; cases b) simp_all

instantiation PriorityClass :: linorder
begin

definition less_eq_PriorityClass :: "PriorityClass \<Rightarrow> PriorityClass \<Rightarrow> bool" where
  "less_eq_PriorityClass a b \<longleftrightarrow> PriorityClass_disc a \<le> PriorityClass_disc b"

definition less_PriorityClass :: "PriorityClass \<Rightarrow> PriorityClass \<Rightarrow> bool" where
  "less_PriorityClass a b \<longleftrightarrow> PriorityClass_disc a < PriorityClass_disc b"

instance
  by standard
     (auto simp: less_eq_PriorityClass_def less_PriorityClass_def intro: PriorityClass_disc_inj)

end

section \<open>The ordering key\<close>

datatype OrderingKey =
  OrderingKey (timestamp: GuestTicks) (priority: PriorityClass) (source: UnitId)
    (sequence: SequenceNumber)

definition OrderingKey_tuple ::
    "OrderingKey \<Rightarrow> GuestTicks \<times> PriorityClass \<times> UnitId \<times> SequenceNumber" where
  "OrderingKey_tuple k = (timestamp k, priority k, source k, sequence k)"

lemma OrderingKey_tuple_inj: "OrderingKey_tuple a = OrderingKey_tuple b \<Longrightarrow> a = b"
  by (cases a; cases b) (simp add: OrderingKey_tuple_def)

instantiation OrderingKey :: linorder
begin

definition less_eq_OrderingKey :: "OrderingKey \<Rightarrow> OrderingKey \<Rightarrow> bool" where
  "less_eq_OrderingKey a b \<longleftrightarrow> OrderingKey_tuple a \<le> OrderingKey_tuple b"

definition less_OrderingKey :: "OrderingKey \<Rightarrow> OrderingKey \<Rightarrow> bool" where
  "less_OrderingKey a b \<longleftrightarrow> OrderingKey_tuple a < OrderingKey_tuple b"

instance
  by standard
     (auto simp: less_eq_OrderingKey_def less_OrderingKey_def intro: OrderingKey_tuple_inj)

end

lemma OrderingKey_less_iff:
  "a < b \<longleftrightarrow>
     timestamp a < timestamp b \<or>
     timestamp a = timestamp b \<and>
       (priority a < priority b \<or>
        priority a = priority b \<and>
          (source a < source b \<or> source a = source b \<and> sequence a < sequence b))"
  by (auto simp: less_OrderingKey_def OrderingKey_tuple_def less_prod_def)

end
