(* ===== verification/Trace_Record.thy ===== *)
theory Trace_Record
  imports Events
begin

text \<open>
  \<^verbatim>\<open>cellgov_trace/src/record/\<close>: the records of the binary trace, their tags, levels and lengths, the encoder and
  the decoder. An array field is a list of its length. The conversions between the one-byte
  enums and their wire bytes are derived by the \<^verbatim>\<open>num_enum\<close> package: they are the parameter \<open>ne\<close>, and what
  the package documents of them is the locale \<open>wire_enum\<close>.
\<close>

section \<open>Errors, levels and hashes\<close>

datatype DecodeError =
    Truncated
  | UnknownTag u8
  | UnknownYieldReason u8
  | UnknownHashKind u8
  | InvalidBool u8
  | UnknownEffectKind u8
  | UnknownBlockReason u8
  | UnknownWakeReason u8
  | UnknownInvariantBreakReason u8
  | UnknownSyscallDisposition u8
  | UnknownHostWriter u8
  | UnknownBarrierKind u8
  | UnsupportedFormatVersion u32

datatype TraceLevel = Level_Scheduling | Level_Effects | Level_Commits | Level_Hashes

definition TraceLevel_as_u8 :: "TraceLevel \<Rightarrow> nat" where
  "TraceLevel_as_u8 l =
     (case l of Level_Scheduling \<Rightarrow> 0 | Level_Effects \<Rightarrow> 1 | Level_Commits \<Rightarrow> 2 | Level_Hashes \<Rightarrow> 3)"

datatype StateHash = StateHash (StateHash_raw: u64)

section \<open>One-byte enums\<close>

datatype TracedYieldReason =
    Yield_BudgetExhausted
  | Yield_MailboxAccess
  | Yield_DmaSubmitted
  | Yield_DmaWait
  | Yield_WaitingSync
  | Yield_Syscall
  | Yield_InterruptBoundary
  | Yield_Fault
  | Yield_Finished
  | Yield_Hypercall
  | Yield_ChannelStall

fun TracedYieldReason_disc :: "TracedYieldReason \<Rightarrow> u8" where
  "TracedYieldReason_disc Yield_BudgetExhausted = 0"
| "TracedYieldReason_disc Yield_MailboxAccess = 1"
| "TracedYieldReason_disc Yield_DmaSubmitted = 2"
| "TracedYieldReason_disc Yield_DmaWait = 3"
| "TracedYieldReason_disc Yield_WaitingSync = 4"
| "TracedYieldReason_disc Yield_Syscall = 5"
| "TracedYieldReason_disc Yield_InterruptBoundary = 6"
| "TracedYieldReason_disc Yield_Fault = 7"
| "TracedYieldReason_disc Yield_Finished = 8"
| "TracedYieldReason_disc Yield_Hypercall = 9"
| "TracedYieldReason_disc Yield_ChannelStall = 10"

datatype HashCheckpointKind =
    Checkpoint_CommittedMemory
  | Checkpoint_RunnableQueue
  | Checkpoint_SyncState
  | Checkpoint_UnitStatus

fun HashCheckpointKind_disc :: "HashCheckpointKind \<Rightarrow> u8" where
  "HashCheckpointKind_disc Checkpoint_CommittedMemory = 0"
| "HashCheckpointKind_disc Checkpoint_RunnableQueue = 1"
| "HashCheckpointKind_disc Checkpoint_SyncState = 2"
| "HashCheckpointKind_disc Checkpoint_UnitStatus = 3"

datatype TracedBlockReason =
    Block_WaitOnEvent
  | Block_MailboxEmpty
  | Block_DmaWait
  | Block_OutboundMailboxFull
  | Block_SignalEmpty
  | Block_AtomicStatusEmpty
  | Block_EventWait

fun TracedBlockReason_disc :: "TracedBlockReason \<Rightarrow> u8" where
  "TracedBlockReason_disc Block_WaitOnEvent = 0"
| "TracedBlockReason_disc Block_MailboxEmpty = 1"
| "TracedBlockReason_disc Block_DmaWait = 2"
| "TracedBlockReason_disc Block_OutboundMailboxFull = 3"
| "TracedBlockReason_disc Block_SignalEmpty = 4"
| "TracedBlockReason_disc Block_AtomicStatusEmpty = 5"
| "TracedBlockReason_disc Block_EventWait = 6"

datatype TracedWakeReason =
    Wake_WakeEffect
  | Wake_DmaCompletion
  | Wake_Timer

fun TracedWakeReason_disc :: "TracedWakeReason \<Rightarrow> u8" where
  "TracedWakeReason_disc Wake_WakeEffect = 0"
| "TracedWakeReason_disc Wake_DmaCompletion = 1"
| "TracedWakeReason_disc Wake_Timer = 2"

datatype TracedEffectKind =
    Kind_SharedWriteIntent
  | Kind_MailboxSend
  | Kind_MailboxReceiveAttempt
  | Kind_DmaEnqueue
  | Kind_WaitOnEvent
  | Kind_WakeUnit
  | Kind_SignalUpdate
  | Kind_FaultRaised
  | Kind_TraceMarker
  | Kind_ReservationAcquire
  | Kind_ConditionalStore
  | Kind_RsxLabelWrite
  | Kind_RsxFlipRequest
  | Kind_SharedReadIntent
  | Kind_ClockRead
  | Kind_MailboxPop
  | Kind_MfcInvalidCommand
  | Kind_SpuSignalWrite
  | Kind_SpuLocalStoreWrite
  | Kind_SpuLocalStoreRead

fun TracedEffectKind_disc :: "TracedEffectKind \<Rightarrow> u8" where
  "TracedEffectKind_disc Kind_SharedWriteIntent = 0"
| "TracedEffectKind_disc Kind_MailboxSend = 1"
| "TracedEffectKind_disc Kind_MailboxReceiveAttempt = 2"
| "TracedEffectKind_disc Kind_DmaEnqueue = 3"
| "TracedEffectKind_disc Kind_WaitOnEvent = 4"
| "TracedEffectKind_disc Kind_WakeUnit = 5"
| "TracedEffectKind_disc Kind_SignalUpdate = 6"
| "TracedEffectKind_disc Kind_FaultRaised = 7"
| "TracedEffectKind_disc Kind_TraceMarker = 8"
| "TracedEffectKind_disc Kind_ReservationAcquire = 9"
| "TracedEffectKind_disc Kind_ConditionalStore = 10"
| "TracedEffectKind_disc Kind_RsxLabelWrite = 11"
| "TracedEffectKind_disc Kind_RsxFlipRequest = 12"
| "TracedEffectKind_disc Kind_SharedReadIntent = 13"
| "TracedEffectKind_disc Kind_ClockRead = 14"
| "TracedEffectKind_disc Kind_MailboxPop = 15"
| "TracedEffectKind_disc Kind_MfcInvalidCommand = 16"
| "TracedEffectKind_disc Kind_SpuSignalWrite = 17"
| "TracedEffectKind_disc Kind_SpuLocalStoreWrite = 18"
| "TracedEffectKind_disc Kind_SpuLocalStoreRead = 19"

datatype TracedInvariantBreakReason =
    Break_Unspecified

fun TracedInvariantBreakReason_disc :: "TracedInvariantBreakReason \<Rightarrow> u8" where
  "TracedInvariantBreakReason_disc Break_Unspecified = 0"

datatype HostWriter =
    Writer_Lv2Effect
  | Writer_WakeContinuation
  | Writer_DmaCompletion
  | Writer_RsxMirror
  | Writer_SharedViewFanout
  | Writer_SharedViewSeed
  | Writer_SyscallOutParam
  | Writer_Placement
  | Writer_SpuProblemState

fun HostWriter_disc :: "HostWriter \<Rightarrow> u8" where
  "HostWriter_disc Writer_Lv2Effect = 0"
| "HostWriter_disc Writer_WakeContinuation = 1"
| "HostWriter_disc Writer_DmaCompletion = 2"
| "HostWriter_disc Writer_RsxMirror = 3"
| "HostWriter_disc Writer_SharedViewFanout = 4"
| "HostWriter_disc Writer_SharedViewSeed = 5"
| "HostWriter_disc Writer_SyscallOutParam = 6"
| "HostWriter_disc Writer_Placement = 7"
| "HostWriter_disc Writer_SpuProblemState = 8"

datatype TracedBarrierKind =
    Barrier_Sync
  | Barrier_Lwsync
  | Barrier_Ptesync
  | Barrier_SyncL3
  | Barrier_Eieio
  | Barrier_Isync
  | Barrier_SpuSync
  | Barrier_SpuSyncC
  | Barrier_SpuDsync
  | Barrier_MfcFence
  | Barrier_MfcTagBarrier
  | Barrier_MfcSync
  | Barrier_MfcEieio
  | Barrier_MfcBarrier

fun TracedBarrierKind_disc :: "TracedBarrierKind \<Rightarrow> u8" where
  "TracedBarrierKind_disc Barrier_Sync = 0"
| "TracedBarrierKind_disc Barrier_Lwsync = 1"
| "TracedBarrierKind_disc Barrier_Ptesync = 2"
| "TracedBarrierKind_disc Barrier_SyncL3 = 3"
| "TracedBarrierKind_disc Barrier_Eieio = 4"
| "TracedBarrierKind_disc Barrier_Isync = 5"
| "TracedBarrierKind_disc Barrier_SpuSync = 6"
| "TracedBarrierKind_disc Barrier_SpuSyncC = 7"
| "TracedBarrierKind_disc Barrier_SpuDsync = 8"
| "TracedBarrierKind_disc Barrier_MfcFence = 9"
| "TracedBarrierKind_disc Barrier_MfcTagBarrier = 10"
| "TracedBarrierKind_disc Barrier_MfcSync = 11"
| "TracedBarrierKind_disc Barrier_MfcEieio = 12"
| "TracedBarrierKind_disc Barrier_MfcBarrier = 13"

datatype TracedSyscallDisposition =
    Disposition_Implemented
  | Disposition_Unsupported
  | Disposition_UnresolvedImport
  | Disposition_Malformed
  | Disposition_Hypercall
  | Disposition_TimerFastPath
  | Disposition_NoSuchSyscall

fun TracedSyscallDisposition_disc :: "TracedSyscallDisposition \<Rightarrow> u8" where
  "TracedSyscallDisposition_disc Disposition_Implemented = 0"
| "TracedSyscallDisposition_disc Disposition_Unsupported = 1"
| "TracedSyscallDisposition_disc Disposition_UnresolvedImport = 2"
| "TracedSyscallDisposition_disc Disposition_Malformed = 3"
| "TracedSyscallDisposition_disc Disposition_Hypercall = 4"
| "TracedSyscallDisposition_disc Disposition_TimerFastPath = 5"
| "TracedSyscallDisposition_disc Disposition_NoSuchSyscall = 6"

text \<open>The derived conversions, one pair per enum.\<close>

record NumEnum =
  into_Yield :: "TracedYieldReason \<Rightarrow> u8"
  try_Yield :: "u8 \<Rightarrow> DecodeError + TracedYieldReason"
  into_Checkpoint :: "HashCheckpointKind \<Rightarrow> u8"
  try_Checkpoint :: "u8 \<Rightarrow> DecodeError + HashCheckpointKind"
  into_Block :: "TracedBlockReason \<Rightarrow> u8"
  try_Block :: "u8 \<Rightarrow> DecodeError + TracedBlockReason"
  into_Wake :: "TracedWakeReason \<Rightarrow> u8"
  try_Wake :: "u8 \<Rightarrow> DecodeError + TracedWakeReason"
  into_Kind :: "TracedEffectKind \<Rightarrow> u8"
  try_Kind :: "u8 \<Rightarrow> DecodeError + TracedEffectKind"
  into_Break :: "TracedInvariantBreakReason \<Rightarrow> u8"
  try_Break :: "u8 \<Rightarrow> DecodeError + TracedInvariantBreakReason"
  into_Writer :: "HostWriter \<Rightarrow> u8"
  try_Writer :: "u8 \<Rightarrow> DecodeError + HostWriter"
  into_Barrier :: "TracedBarrierKind \<Rightarrow> u8"
  try_Barrier :: "u8 \<Rightarrow> DecodeError + TracedBarrierKind"
  into_Disposition :: "TracedSyscallDisposition \<Rightarrow> u8"
  try_Disposition :: "u8 \<Rightarrow> DecodeError + TracedSyscallDisposition"

section \<open>Records\<close>

definition TRACE_FORMAT_VERSION :: u32 where
  "TRACE_FORMAT_VERSION = 8"

datatype TraceRecord =
    TR_RunIdentity u32 u64 u64 u64
  | TR_UnitScheduled UnitId Budget GuestTicks Epoch
  | TR_StepCompleted UnitId TracedYieldReason InstructionCost GuestTicks
  | TR_CommitApplied UnitId u32 u32 bool Epoch
  | TR_StateHashCheckpoint HashCheckpointKind StateHash
  | TR_EffectEmitted UnitId u32 TracedEffectKind
  | TR_UnitBlocked UnitId TracedBlockReason
  | TR_UnitWoken UnitId TracedWakeReason
  | TR_PpuStateHash u64 u64 StateHash
  | TR_PpuStateFull u64 u64 "u64 list" u64 u64 u64 u32 "u64 option" u32 u32 "u64 list" "u128 list" u32
  | TR_HostInvariantBreak TracedInvariantBreakReason
  | TR_SyscallEntered UnitId u64 "u64 list" TracedSyscallDisposition
  | TR_ReservedRegionRead UnitId u64 u64 u32 u32
  | TR_SyscallReturned UnitId u64 GuestTicks
  | TR_HostWrite HostWriter u32 u64 u32 u32
  | TR_StateHashScheme u64 u64 u64
  | TR_UnitStopped UnitId u32 u32
  | TR_Barrier UnitId u64 TracedBarrierKind
  | TR_SpuStateHash UnitId u64 u64 StateHash
  | TR_SpuStateFull UnitId u64 u64 u128 u32 bool u32 "u64 option"
  | TR_SpuRegisters UnitId u64 u8 "u128 list"
  | TR_UnsyncedCodeFetch UnitId u64 u32 u64 UnitId u64 u8 bool

definition TAG_UNIT_SCHEDULED :: u8 where "TAG_UNIT_SCHEDULED = 0x00"
definition TAG_STEP_COMPLETED :: u8 where "TAG_STEP_COMPLETED = 0x01"
definition TAG_COMMIT_APPLIED :: u8 where "TAG_COMMIT_APPLIED = 0x02"
definition TAG_STATE_HASH_CHECKPOINT :: u8 where "TAG_STATE_HASH_CHECKPOINT = 0x03"
definition TAG_EFFECT_EMITTED :: u8 where "TAG_EFFECT_EMITTED = 0x04"
definition TAG_UNIT_BLOCKED :: u8 where "TAG_UNIT_BLOCKED = 0x05"
definition TAG_UNIT_WOKEN :: u8 where "TAG_UNIT_WOKEN = 0x06"
definition TAG_PPU_STATE_HASH :: u8 where "TAG_PPU_STATE_HASH = 0x07"
definition TAG_PPU_STATE_FULL :: u8 where "TAG_PPU_STATE_FULL = 0x08"
definition TAG_HOST_INVARIANT_BREAK :: u8 where "TAG_HOST_INVARIANT_BREAK = 0x09"
definition TAG_SYSCALL_ENTERED :: u8 where "TAG_SYSCALL_ENTERED = 0x0a"
definition TAG_RESERVED_REGION_READ :: u8 where "TAG_RESERVED_REGION_READ = 0x0b"
definition TAG_SYSCALL_RETURNED :: u8 where "TAG_SYSCALL_RETURNED = 0x0c"
definition TAG_RUN_IDENTITY :: u8 where "TAG_RUN_IDENTITY = 0x0d"
definition TAG_HOST_WRITE :: u8 where "TAG_HOST_WRITE = 0x0e"
definition TAG_STATE_HASH_SCHEME :: u8 where "TAG_STATE_HASH_SCHEME = 0x0f"
definition TAG_UNIT_STOPPED :: u8 where "TAG_UNIT_STOPPED = 0x10"
definition TAG_BARRIER :: u8 where "TAG_BARRIER = 0x11"
definition TAG_SPU_STATE_HASH :: u8 where "TAG_SPU_STATE_HASH = 0x12"
definition TAG_SPU_STATE_FULL :: u8 where "TAG_SPU_STATE_FULL = 0x13"
definition TAG_SPU_REGISTERS :: u8 where "TAG_SPU_REGISTERS = 0x14"
definition TAG_UNSYNCED_CODE_FETCH :: u8 where "TAG_UNSYNCED_CODE_FETCH = 0x15"

lemmas TAG_defs =
  TAG_RUN_IDENTITY_def
  TAG_UNIT_SCHEDULED_def
  TAG_STEP_COMPLETED_def
  TAG_COMMIT_APPLIED_def
  TAG_STATE_HASH_CHECKPOINT_def
  TAG_EFFECT_EMITTED_def
  TAG_UNIT_BLOCKED_def
  TAG_UNIT_WOKEN_def
  TAG_PPU_STATE_HASH_def
  TAG_PPU_STATE_FULL_def
  TAG_HOST_INVARIANT_BREAK_def
  TAG_SYSCALL_ENTERED_def
  TAG_RESERVED_REGION_READ_def
  TAG_SYSCALL_RETURNED_def
  TAG_HOST_WRITE_def
  TAG_STATE_HASH_SCHEME_def
  TAG_UNIT_STOPPED_def
  TAG_BARRIER_def
  TAG_SPU_STATE_HASH_def
  TAG_SPU_STATE_FULL_def
  TAG_SPU_REGISTERS_def
  TAG_UNSYNCED_CODE_FETCH_def

fun TraceRecord_tag :: "TraceRecord \<Rightarrow> u8" where
  "TraceRecord_tag (TR_RunIdentity _ _ _ _) = TAG_RUN_IDENTITY"
| "TraceRecord_tag (TR_UnitScheduled _ _ _ _) = TAG_UNIT_SCHEDULED"
| "TraceRecord_tag (TR_StepCompleted _ _ _ _) = TAG_STEP_COMPLETED"
| "TraceRecord_tag (TR_CommitApplied _ _ _ _ _) = TAG_COMMIT_APPLIED"
| "TraceRecord_tag (TR_StateHashCheckpoint _ _) = TAG_STATE_HASH_CHECKPOINT"
| "TraceRecord_tag (TR_EffectEmitted _ _ _) = TAG_EFFECT_EMITTED"
| "TraceRecord_tag (TR_UnitBlocked _ _) = TAG_UNIT_BLOCKED"
| "TraceRecord_tag (TR_UnitWoken _ _) = TAG_UNIT_WOKEN"
| "TraceRecord_tag (TR_PpuStateHash _ _ _) = TAG_PPU_STATE_HASH"
| "TraceRecord_tag (TR_PpuStateFull _ _ _ _ _ _ _ _ _ _ _ _ _) = TAG_PPU_STATE_FULL"
| "TraceRecord_tag (TR_HostInvariantBreak _) = TAG_HOST_INVARIANT_BREAK"
| "TraceRecord_tag (TR_SyscallEntered _ _ _ _) = TAG_SYSCALL_ENTERED"
| "TraceRecord_tag (TR_ReservedRegionRead _ _ _ _ _) = TAG_RESERVED_REGION_READ"
| "TraceRecord_tag (TR_SyscallReturned _ _ _) = TAG_SYSCALL_RETURNED"
| "TraceRecord_tag (TR_HostWrite _ _ _ _ _) = TAG_HOST_WRITE"
| "TraceRecord_tag (TR_StateHashScheme _ _ _) = TAG_STATE_HASH_SCHEME"
| "TraceRecord_tag (TR_UnitStopped _ _ _) = TAG_UNIT_STOPPED"
| "TraceRecord_tag (TR_Barrier _ _ _) = TAG_BARRIER"
| "TraceRecord_tag (TR_SpuStateHash _ _ _ _) = TAG_SPU_STATE_HASH"
| "TraceRecord_tag (TR_SpuStateFull _ _ _ _ _ _ _ _) = TAG_SPU_STATE_FULL"
| "TraceRecord_tag (TR_SpuRegisters _ _ _ _) = TAG_SPU_REGISTERS"
| "TraceRecord_tag (TR_UnsyncedCodeFetch _ _ _ _ _ _ _ _) = TAG_UNSYNCED_CODE_FETCH"

definition TraceRecord_encoded_len :: "u8 \<Rightarrow> nat option" where
  "TraceRecord_encoded_len tag =
     (if tag = TAG_UNIT_SCHEDULED then Some (1 + 8 * 4)
      else if tag = TAG_STEP_COMPLETED then Some (1 + 8 + 1 + 8 + 8)
      else if tag = TAG_COMMIT_APPLIED then Some (1 + 8 + 4 + 4 + 1 + 8)
      else if tag = TAG_STATE_HASH_CHECKPOINT then Some (1 + 1 + 8)
      else if tag = TAG_EFFECT_EMITTED then Some (1 + 8 + 4 + 1)
      else if tag = TAG_UNIT_BLOCKED then Some (1 + 8 + 1)
      else if tag = TAG_UNIT_WOKEN then Some (1 + 8 + 1)
      else if tag = TAG_PPU_STATE_HASH then Some (1 + 8 * 3)
      else if tag = TAG_PPU_STATE_FULL then Some (1 + 8 + 8 + 8 * 32 + 8 * 3 + 4 + 1 + 8 + 4 + 4 + 8 * 32 + 16 * 32 + 4)
      else if tag = TAG_HOST_INVARIANT_BREAK then Some (1 + 1)
      else if tag = TAG_SYSCALL_ENTERED then Some (1 + 8 + 8 + 8 * 8 + 1)
      else if tag = TAG_RESERVED_REGION_READ then Some (1 + 8 * 3 + 4 + 4)
      else if tag = TAG_SYSCALL_RETURNED then Some (1 + 8 * 3)
      else if tag = TAG_RUN_IDENTITY then Some (1 + 4 + 8 * 3)
      else if tag = TAG_HOST_WRITE then Some (1 + 1 + 4 + 8 + 4 + 4)
      else if tag = TAG_STATE_HASH_SCHEME then Some (1 + 8 * 3)
      else if tag = TAG_UNIT_STOPPED then Some (1 + 8 + 4 + 4)
      else if tag = TAG_BARRIER then Some (1 + 8 + 8 + 1)
      else if tag = TAG_SPU_STATE_HASH then Some (1 + 8 * 4)
      else if tag = TAG_SPU_STATE_FULL then Some (1 + 8 * 3 + 16 + 4 + 1 + 4 + 1 + 8)
      else if tag = TAG_SPU_REGISTERS then Some (1 + 8 + 8 + 1 + 16 * 16)
      else if tag = TAG_UNSYNCED_CODE_FETCH then Some (1 + 8 + 8 + 4 + 8 + 8 + 8 + 1 + 1)
      else None)"

fun TraceRecord_level :: "TraceRecord \<Rightarrow> TraceLevel" where
  "TraceRecord_level (TR_RunIdentity _ _ _ _) = Level_Scheduling"
| "TraceRecord_level (TR_UnitScheduled _ _ _ _) = Level_Scheduling"
| "TraceRecord_level (TR_StepCompleted _ _ _ _) = Level_Scheduling"
| "TraceRecord_level (TR_CommitApplied _ _ _ _ _) = Level_Commits"
| "TraceRecord_level (TR_StateHashCheckpoint _ _) = Level_Hashes"
| "TraceRecord_level (TR_EffectEmitted _ _ _) = Level_Effects"
| "TraceRecord_level (TR_UnitBlocked _ _) = Level_Scheduling"
| "TraceRecord_level (TR_UnitWoken _ _) = Level_Scheduling"
| "TraceRecord_level (TR_PpuStateHash _ _ _) = Level_Hashes"
| "TraceRecord_level (TR_PpuStateFull _ _ _ _ _ _ _ _ _ _ _ _ _) = Level_Hashes"
| "TraceRecord_level (TR_HostInvariantBreak _) = Level_Scheduling"
| "TraceRecord_level (TR_SyscallEntered _ _ _ _) = Level_Scheduling"
| "TraceRecord_level (TR_ReservedRegionRead _ _ _ _ _) = Level_Hashes"
| "TraceRecord_level (TR_SyscallReturned _ _ _) = Level_Scheduling"
| "TraceRecord_level (TR_HostWrite _ _ _ _ _) = Level_Commits"
| "TraceRecord_level (TR_StateHashScheme _ _ _) = Level_Hashes"
| "TraceRecord_level (TR_UnitStopped _ _ _) = Level_Scheduling"
| "TraceRecord_level (TR_Barrier _ _ _) = Level_Effects"
| "TraceRecord_level (TR_SpuStateHash _ _ _ _) = Level_Hashes"
| "TraceRecord_level (TR_SpuStateFull _ _ _ _ _ _ _ _) = Level_Hashes"
| "TraceRecord_level (TR_SpuRegisters _ _ _ _) = Level_Hashes"
| "TraceRecord_level (TR_UnsyncedCodeFetch _ _ _ _ _ _ _ _) = Level_Effects"

section \<open>Encoding\<close>

definition u8_from :: "bool \<Rightarrow> u8" where
  "u8_from b = (if b then 1 else 0)"

fun encode_payload :: "NumEnum \<Rightarrow> TraceRecord \<Rightarrow> bytes" where
  "encode_payload ne (TR_RunIdentity format_version firmware game overrides) =
     to_le 4 format_version @ to_le 8 firmware @ to_le 8 game @ to_le 8 overrides"
| "encode_payload ne (TR_UnitScheduled unit granted_budget time epoch) =
     to_le 8 (UnitId_raw unit) @ to_le 8 (Budget_raw granted_budget) @ to_le 8 (GuestTicks_raw time) @
     to_le 8 (Epoch_raw epoch)"
| "encode_payload ne (TR_StepCompleted unit yield_reason consumed_cost time_after) =
     to_le 8 (UnitId_raw unit) @ [into_Yield ne yield_reason] @
     to_le 8 (InstructionCost_raw consumed_cost) @ to_le 8 (GuestTicks_raw time_after)"
| "encode_payload ne (TR_CommitApplied unit writes_committed effects_deferred fault_discarded epoch_after) =
     to_le 8 (UnitId_raw unit) @ to_le 4 writes_committed @ to_le 4 effects_deferred @
     [u8_from fault_discarded] @ to_le 8 (Epoch_raw epoch_after)"
| "encode_payload ne (TR_StateHashCheckpoint kind hash) =
     [into_Checkpoint ne kind] @ to_le 8 (StateHash_raw hash)"
| "encode_payload ne (TR_EffectEmitted unit seq kind) =
     to_le 8 (UnitId_raw unit) @ to_le 4 seq @ [into_Kind ne kind]"
| "encode_payload ne (TR_UnitBlocked unit reason) =
     to_le 8 (UnitId_raw unit) @ [into_Block ne reason]"
| "encode_payload ne (TR_UnitWoken unit reason) =
     to_le 8 (UnitId_raw unit) @ [into_Wake ne reason]"
| "encode_payload ne (TR_PpuStateHash step pc hash) =
     to_le 8 step @ to_le 8 pc @ to_le 8 (StateHash_raw hash)"
| "encode_payload ne (TR_PpuStateFull step pc gpr lr ctr xer cr reservation_line fpscr vrsave fpr vr vscr) =
     to_le 8 step @ to_le 8 pc @ concat (map (to_le 8) gpr) @ to_le 8 lr @ to_le 8 ctr @ to_le 8 xer @
     to_le 4 cr @
     (case reservation_line of None \<Rightarrow> 0 # to_le 8 (0 :: u64) | Some addr \<Rightarrow> 1 # to_le 8 addr) @
     to_le 4 fpscr @ to_le 4 vrsave @ concat (map (to_le 8) fpr) @ concat (map (to_le 16) vr) @
     to_le 4 vscr"
| "encode_payload ne (TR_HostInvariantBreak reason) =
     [into_Break ne reason]"
| "encode_payload ne (TR_SyscallEntered unit num args disposition) =
     to_le 8 (UnitId_raw unit) @ to_le 8 num @ concat (map (to_le 8) args) @
     [into_Disposition ne disposition]"
| "encode_payload ne (TR_ReservedRegionRead unit step addr len hits) =
     to_le 8 (UnitId_raw unit) @ to_le 8 step @ to_le 8 addr @ to_le 4 len @ to_le 4 hits"
| "encode_payload ne (TR_SyscallReturned unit code time) =
     to_le 8 (UnitId_raw unit) @ to_le 8 code @ to_le 8 (GuestTicks_raw time)"
| "encode_payload ne (TR_HostWrite writer space addr len reservations_cleared) =
     [into_Writer ne writer] @ to_le 4 space @ to_le 8 addr @ to_le 4 len @ to_le 4 reservations_cleared"
| "encode_payload ne (TR_StateHashScheme ppu checkpoint spu) =
     to_le 8 ppu @ to_le 8 checkpoint @ to_le 8 spu"
| "encode_payload ne (TR_UnitStopped unit status npc) =
     to_le 8 (UnitId_raw unit) @ to_le 4 status @ to_le 4 npc"
| "encode_payload ne (TR_Barrier unit pc kind) =
     to_le 8 (UnitId_raw unit) @ to_le 8 pc @ [into_Barrier ne kind]"
| "encode_payload ne (TR_SpuStateHash unit step pc hash) =
     to_le 8 (UnitId_raw unit) @ to_le 8 step @ to_le 8 pc @ to_le 8 (StateHash_raw hash)"
| "encode_payload ne (TR_SpuStateFull unit step pc fpscr lslr interrupts_enabled srr0 reservation_line) =
     to_le 8 (UnitId_raw unit) @ to_le 8 step @ to_le 8 pc @ to_le 16 fpscr @ to_le 4 lslr @
     [u8_from interrupts_enabled] @ to_le 4 srr0 @
     [u8_from (reservation_line \<noteq> None)] @ to_le 8 (case reservation_line of None \<Rightarrow> 0 | Some addr \<Rightarrow> addr)"
| "encode_payload ne (TR_SpuRegisters unit step first regs) =
     to_le 8 (UnitId_raw unit) @ to_le 8 step @ [first] @ concat (map (to_le 16) regs)"
| "encode_payload ne (TR_UnsyncedCodeFetch unit pc space line writer store_step seq patch_class) =
     to_le 8 (UnitId_raw unit) @ to_le 8 pc @ to_le 4 space @ to_le 8 line @
     to_le 8 (UnitId_raw writer) @ to_le 8 store_step @ [seq] @ [u8_from patch_class]"

definition TraceRecord_encode :: "NumEnum \<Rightarrow> TraceRecord \<Rightarrow> bytes \<Rightarrow> bytes" where
  "TraceRecord_encode ne r buf = buf @ TraceRecord_tag r # encode_payload ne r"

section \<open>Decoding\<close>

definition read_u8 :: "bytes \<Rightarrow> nat \<Rightarrow> DecodeError + u8 \<times> nat" where
  "read_u8 bytes pos = (if pos < length bytes then Inr (bytes ! pos, pos + 1) else Inl Truncated)"

definition read_bool :: "bytes \<Rightarrow> nat \<Rightarrow> DecodeError + bool \<times> nat" where
  "read_bool bytes pos =
     rbind (read_u8 bytes pos)
       (\<lambda>(v, pos). if v = 0 then Inr (False, pos) else if v = 1 then Inr (True, pos) else Inl (InvalidBool v))"

text \<open>\<^verbatim>\<open>bytes.get(*pos..*pos + n)\<close> and \<^verbatim>\<open>from_le_bytes\<close>, for the widths 4, 8 and 16.\<close>

definition read_le :: "nat \<Rightarrow> bytes \<Rightarrow> nat \<Rightarrow> DecodeError + 'a::len word \<times> nat" where
  "read_le n bytes pos =
     (if pos + n \<le> length bytes then Inr (from_le (take n (drop pos bytes)), pos + n) else Inl Truncated)"

definition read_u32 :: "bytes \<Rightarrow> nat \<Rightarrow> DecodeError + u32 \<times> nat" where
  "read_u32 = read_le 4"

definition read_u64 :: "bytes \<Rightarrow> nat \<Rightarrow> DecodeError + u64 \<times> nat" where
  "read_u64 = read_le 8"

definition read_u128 :: "bytes \<Rightarrow> nat \<Rightarrow> DecodeError + u128 \<times> nat" where
  "read_u128 = read_le 16"

text \<open>The loop that fills an array field from consecutive values.\<close>

fun read_each :: "(bytes \<Rightarrow> nat \<Rightarrow> DecodeError + 'a \<times> nat) \<Rightarrow> nat \<Rightarrow> bytes \<Rightarrow> nat \<Rightarrow> DecodeError + 'a list \<times> nat" where
  "read_each rd 0 bytes pos = Inr ([], pos)"
| "read_each rd (Suc k) bytes pos =
     rbind (rd bytes pos) (\<lambda>(v, pos). rbind (read_each rd k bytes pos) (\<lambda>(vs, pos). Inr (v # vs, pos)))"

definition decode_RunIdentity :: "NumEnum \<Rightarrow> bytes \<Rightarrow> nat \<Rightarrow> DecodeError + TraceRecord \<times> nat" where
  "decode_RunIdentity ne bytes pos =
     rbind (read_u32 bytes pos) (\<lambda>(format_version, pos).
     rbind (read_u64 bytes pos) (\<lambda>(firmware, pos).
     rbind (read_u64 bytes pos) (\<lambda>(game, pos).
     rbind (read_u64 bytes pos) (\<lambda>(overrides, pos).
     Inr (TR_RunIdentity format_version firmware game overrides, pos)))))"

definition decode_UnitScheduled :: "NumEnum \<Rightarrow> bytes \<Rightarrow> nat \<Rightarrow> DecodeError + TraceRecord \<times> nat" where
  "decode_UnitScheduled ne bytes pos =
     rbind (read_u64 bytes pos) (\<lambda>(unit, pos).
     rbind (read_u64 bytes pos) (\<lambda>(granted_budget, pos).
     rbind (read_u64 bytes pos) (\<lambda>(time, pos).
     rbind (read_u64 bytes pos) (\<lambda>(epoch, pos).
     Inr (TR_UnitScheduled (UnitId unit) (Budget granted_budget) (GuestTicks time) (Epoch epoch), pos)))))"

definition decode_StepCompleted :: "NumEnum \<Rightarrow> bytes \<Rightarrow> nat \<Rightarrow> DecodeError + TraceRecord \<times> nat" where
  "decode_StepCompleted ne bytes pos =
     rbind (read_u64 bytes pos) (\<lambda>(unit, pos).
     rbind (read_u8 bytes pos) (\<lambda>(yield_reason_byte, pos).
     rbind (try_Yield ne yield_reason_byte) (\<lambda>yield_reason.
     rbind (read_u64 bytes pos) (\<lambda>(consumed_cost, pos).
     rbind (read_u64 bytes pos) (\<lambda>(time_after, pos).
     Inr (TR_StepCompleted (UnitId unit) yield_reason (InstructionCost consumed_cost) (GuestTicks time_after), pos))))))"

definition decode_CommitApplied :: "NumEnum \<Rightarrow> bytes \<Rightarrow> nat \<Rightarrow> DecodeError + TraceRecord \<times> nat" where
  "decode_CommitApplied ne bytes pos =
     rbind (read_u64 bytes pos) (\<lambda>(unit, pos).
     rbind (read_u32 bytes pos) (\<lambda>(writes_committed, pos).
     rbind (read_u32 bytes pos) (\<lambda>(effects_deferred, pos).
     rbind (read_bool bytes pos) (\<lambda>(fault_discarded, pos).
     rbind (read_u64 bytes pos) (\<lambda>(epoch_after, pos).
     Inr (TR_CommitApplied (UnitId unit) writes_committed effects_deferred fault_discarded (Epoch epoch_after), pos))))))"

definition decode_StateHashCheckpoint :: "NumEnum \<Rightarrow> bytes \<Rightarrow> nat \<Rightarrow> DecodeError + TraceRecord \<times> nat" where
  "decode_StateHashCheckpoint ne bytes pos =
     rbind (read_u8 bytes pos) (\<lambda>(kind_byte, pos).
     rbind (try_Checkpoint ne kind_byte) (\<lambda>kind.
     rbind (read_u64 bytes pos) (\<lambda>(hash, pos).
     Inr (TR_StateHashCheckpoint kind (StateHash hash), pos))))"

definition decode_EffectEmitted :: "NumEnum \<Rightarrow> bytes \<Rightarrow> nat \<Rightarrow> DecodeError + TraceRecord \<times> nat" where
  "decode_EffectEmitted ne bytes pos =
     rbind (read_u64 bytes pos) (\<lambda>(unit, pos).
     rbind (read_u32 bytes pos) (\<lambda>(seq, pos).
     rbind (read_u8 bytes pos) (\<lambda>(kind_byte, pos).
     rbind (try_Kind ne kind_byte) (\<lambda>kind.
     Inr (TR_EffectEmitted (UnitId unit) seq kind, pos)))))"

definition decode_UnitBlocked :: "NumEnum \<Rightarrow> bytes \<Rightarrow> nat \<Rightarrow> DecodeError + TraceRecord \<times> nat" where
  "decode_UnitBlocked ne bytes pos =
     rbind (read_u64 bytes pos) (\<lambda>(unit, pos).
     rbind (read_u8 bytes pos) (\<lambda>(reason_byte, pos).
     rbind (try_Block ne reason_byte) (\<lambda>reason.
     Inr (TR_UnitBlocked (UnitId unit) reason, pos))))"

definition decode_UnitWoken :: "NumEnum \<Rightarrow> bytes \<Rightarrow> nat \<Rightarrow> DecodeError + TraceRecord \<times> nat" where
  "decode_UnitWoken ne bytes pos =
     rbind (read_u64 bytes pos) (\<lambda>(unit, pos).
     rbind (read_u8 bytes pos) (\<lambda>(reason_byte, pos).
     rbind (try_Wake ne reason_byte) (\<lambda>reason.
     Inr (TR_UnitWoken (UnitId unit) reason, pos))))"

definition decode_PpuStateHash :: "NumEnum \<Rightarrow> bytes \<Rightarrow> nat \<Rightarrow> DecodeError + TraceRecord \<times> nat" where
  "decode_PpuStateHash ne bytes pos =
     rbind (read_u64 bytes pos) (\<lambda>(step, pos).
     rbind (read_u64 bytes pos) (\<lambda>(pc, pos).
     rbind (read_u64 bytes pos) (\<lambda>(hash, pos).
     Inr (TR_PpuStateHash step pc (StateHash hash), pos))))"

definition decode_PpuStateFull :: "NumEnum \<Rightarrow> bytes \<Rightarrow> nat \<Rightarrow> DecodeError + TraceRecord \<times> nat" where
  "decode_PpuStateFull ne bytes pos =
     rbind (read_u64 bytes pos) (\<lambda>(step, pos).
     rbind (read_u64 bytes pos) (\<lambda>(pc, pos).
     rbind (read_each read_u64 32 bytes pos) (\<lambda>(gpr, pos).
     rbind (read_u64 bytes pos) (\<lambda>(lr, pos).
     rbind (read_u64 bytes pos) (\<lambda>(ctr, pos).
     rbind (read_u64 bytes pos) (\<lambda>(xer, pos).
     rbind (read_u32 bytes pos) (\<lambda>(cr, pos).
     rbind (read_u8 bytes pos) (\<lambda>(resv_tag, pos).
     rbind (read_u64 bytes pos) (\<lambda>(resv_addr, pos).
     rbind (if resv_tag = 0 then Inr None else if resv_tag = 1 then Inr (Some resv_addr) else Inl (InvalidBool resv_tag)) (\<lambda>reservation_line.
     rbind (read_u32 bytes pos) (\<lambda>(fpscr, pos).
     rbind (read_u32 bytes pos) (\<lambda>(vrsave, pos).
     rbind (read_each read_u64 32 bytes pos) (\<lambda>(fpr, pos).
     rbind (read_each read_u128 32 bytes pos) (\<lambda>(vr, pos).
     rbind (read_u32 bytes pos) (\<lambda>(vscr, pos).
     Inr (TR_PpuStateFull step pc gpr lr ctr xer cr reservation_line fpscr vrsave fpr vr vscr, pos))))))))))))))))"

definition decode_HostInvariantBreak :: "NumEnum \<Rightarrow> bytes \<Rightarrow> nat \<Rightarrow> DecodeError + TraceRecord \<times> nat" where
  "decode_HostInvariantBreak ne bytes pos =
     rbind (read_u8 bytes pos) (\<lambda>(reason_byte, pos).
     rbind (try_Break ne reason_byte) (\<lambda>reason.
     Inr (TR_HostInvariantBreak reason, pos)))"

definition decode_SyscallEntered :: "NumEnum \<Rightarrow> bytes \<Rightarrow> nat \<Rightarrow> DecodeError + TraceRecord \<times> nat" where
  "decode_SyscallEntered ne bytes pos =
     rbind (read_u64 bytes pos) (\<lambda>(unit, pos).
     rbind (read_u64 bytes pos) (\<lambda>(num, pos).
     rbind (read_each read_u64 8 bytes pos) (\<lambda>(args, pos).
     rbind (read_u8 bytes pos) (\<lambda>(disposition_byte, pos).
     rbind (try_Disposition ne disposition_byte) (\<lambda>disposition.
     Inr (TR_SyscallEntered (UnitId unit) num args disposition, pos))))))"

definition decode_ReservedRegionRead :: "NumEnum \<Rightarrow> bytes \<Rightarrow> nat \<Rightarrow> DecodeError + TraceRecord \<times> nat" where
  "decode_ReservedRegionRead ne bytes pos =
     rbind (read_u64 bytes pos) (\<lambda>(unit, pos).
     rbind (read_u64 bytes pos) (\<lambda>(step, pos).
     rbind (read_u64 bytes pos) (\<lambda>(addr, pos).
     rbind (read_u32 bytes pos) (\<lambda>(len, pos).
     rbind (read_u32 bytes pos) (\<lambda>(hits, pos).
     Inr (TR_ReservedRegionRead (UnitId unit) step addr len hits, pos))))))"

definition decode_SyscallReturned :: "NumEnum \<Rightarrow> bytes \<Rightarrow> nat \<Rightarrow> DecodeError + TraceRecord \<times> nat" where
  "decode_SyscallReturned ne bytes pos =
     rbind (read_u64 bytes pos) (\<lambda>(unit, pos).
     rbind (read_u64 bytes pos) (\<lambda>(code, pos).
     rbind (read_u64 bytes pos) (\<lambda>(time, pos).
     Inr (TR_SyscallReturned (UnitId unit) code (GuestTicks time), pos))))"

definition decode_HostWrite :: "NumEnum \<Rightarrow> bytes \<Rightarrow> nat \<Rightarrow> DecodeError + TraceRecord \<times> nat" where
  "decode_HostWrite ne bytes pos =
     rbind (read_u8 bytes pos) (\<lambda>(writer_byte, pos).
     rbind (try_Writer ne writer_byte) (\<lambda>writer.
     rbind (read_u32 bytes pos) (\<lambda>(space, pos).
     rbind (read_u64 bytes pos) (\<lambda>(addr, pos).
     rbind (read_u32 bytes pos) (\<lambda>(len, pos).
     rbind (read_u32 bytes pos) (\<lambda>(reservations_cleared, pos).
     Inr (TR_HostWrite writer space addr len reservations_cleared, pos)))))))"

definition decode_StateHashScheme :: "NumEnum \<Rightarrow> bytes \<Rightarrow> nat \<Rightarrow> DecodeError + TraceRecord \<times> nat" where
  "decode_StateHashScheme ne bytes pos =
     rbind (read_u64 bytes pos) (\<lambda>(ppu, pos).
     rbind (read_u64 bytes pos) (\<lambda>(checkpoint, pos).
     rbind (read_u64 bytes pos) (\<lambda>(spu, pos).
     Inr (TR_StateHashScheme ppu checkpoint spu, pos))))"

definition decode_UnitStopped :: "NumEnum \<Rightarrow> bytes \<Rightarrow> nat \<Rightarrow> DecodeError + TraceRecord \<times> nat" where
  "decode_UnitStopped ne bytes pos =
     rbind (read_u64 bytes pos) (\<lambda>(unit, pos).
     rbind (read_u32 bytes pos) (\<lambda>(status, pos).
     rbind (read_u32 bytes pos) (\<lambda>(npc, pos).
     Inr (TR_UnitStopped (UnitId unit) status npc, pos))))"

definition decode_Barrier :: "NumEnum \<Rightarrow> bytes \<Rightarrow> nat \<Rightarrow> DecodeError + TraceRecord \<times> nat" where
  "decode_Barrier ne bytes pos =
     rbind (read_u64 bytes pos) (\<lambda>(unit, pos).
     rbind (read_u64 bytes pos) (\<lambda>(pc, pos).
     rbind (read_u8 bytes pos) (\<lambda>(kind_byte, pos).
     rbind (try_Barrier ne kind_byte) (\<lambda>kind.
     Inr (TR_Barrier (UnitId unit) pc kind, pos)))))"

definition decode_SpuStateHash :: "NumEnum \<Rightarrow> bytes \<Rightarrow> nat \<Rightarrow> DecodeError + TraceRecord \<times> nat" where
  "decode_SpuStateHash ne bytes pos =
     rbind (read_u64 bytes pos) (\<lambda>(unit, pos).
     rbind (read_u64 bytes pos) (\<lambda>(step, pos).
     rbind (read_u64 bytes pos) (\<lambda>(pc, pos).
     rbind (read_u64 bytes pos) (\<lambda>(hash, pos).
     Inr (TR_SpuStateHash (UnitId unit) step pc (StateHash hash), pos)))))"

definition decode_SpuStateFull :: "NumEnum \<Rightarrow> bytes \<Rightarrow> nat \<Rightarrow> DecodeError + TraceRecord \<times> nat" where
  "decode_SpuStateFull ne bytes pos =
     rbind (read_u64 bytes pos) (\<lambda>(unit, pos).
     rbind (read_u64 bytes pos) (\<lambda>(step, pos).
     rbind (read_u64 bytes pos) (\<lambda>(pc, pos).
     rbind (read_u128 bytes pos) (\<lambda>(fpscr, pos).
     rbind (read_u32 bytes pos) (\<lambda>(lslr, pos).
     rbind (read_bool bytes pos) (\<lambda>(interrupts_enabled, pos).
     rbind (read_u32 bytes pos) (\<lambda>(srr0, pos).
     rbind (read_bool bytes pos) (\<lambda>(resv_held, pos).
     rbind (read_u64 bytes pos) (\<lambda>(resv_addr, pos).
     Inr (TR_SpuStateFull (UnitId unit) step pc fpscr lslr interrupts_enabled srr0 (if resv_held then Some resv_addr else None), pos))))))))))"

definition decode_SpuRegisters :: "NumEnum \<Rightarrow> bytes \<Rightarrow> nat \<Rightarrow> DecodeError + TraceRecord \<times> nat" where
  "decode_SpuRegisters ne bytes pos =
     rbind (read_u64 bytes pos) (\<lambda>(unit, pos).
     rbind (read_u64 bytes pos) (\<lambda>(step, pos).
     rbind (read_u8 bytes pos) (\<lambda>(first, pos).
     rbind (read_each read_u128 16 bytes pos) (\<lambda>(regs, pos).
     Inr (TR_SpuRegisters (UnitId unit) step first regs, pos)))))"

definition decode_UnsyncedCodeFetch :: "NumEnum \<Rightarrow> bytes \<Rightarrow> nat \<Rightarrow> DecodeError + TraceRecord \<times> nat" where
  "decode_UnsyncedCodeFetch ne bytes pos =
     rbind (read_u64 bytes pos) (\<lambda>(unit, pos).
     rbind (read_u64 bytes pos) (\<lambda>(pc, pos).
     rbind (read_u32 bytes pos) (\<lambda>(space, pos).
     rbind (read_u64 bytes pos) (\<lambda>(line, pos).
     rbind (read_u64 bytes pos) (\<lambda>(writer, pos).
     rbind (read_u64 bytes pos) (\<lambda>(store_step, pos).
     rbind (read_u8 bytes pos) (\<lambda>(seq, pos).
     rbind (read_bool bytes pos) (\<lambda>(patch_class, pos).
     Inr (TR_UnsyncedCodeFetch (UnitId unit) pc space line (UnitId writer) store_step seq patch_class, pos)))))))))"

definition decode_tag :: "NumEnum \<Rightarrow> u8 \<Rightarrow> bytes \<Rightarrow> nat \<Rightarrow> DecodeError + TraceRecord \<times> nat" where
  "decode_tag ne tag bytes pos =
     (if tag = TAG_RUN_IDENTITY then decode_RunIdentity ne bytes pos
      else if tag = TAG_UNIT_SCHEDULED then decode_UnitScheduled ne bytes pos
      else if tag = TAG_STEP_COMPLETED then decode_StepCompleted ne bytes pos
      else if tag = TAG_COMMIT_APPLIED then decode_CommitApplied ne bytes pos
      else if tag = TAG_STATE_HASH_CHECKPOINT then decode_StateHashCheckpoint ne bytes pos
      else if tag = TAG_EFFECT_EMITTED then decode_EffectEmitted ne bytes pos
      else if tag = TAG_UNIT_BLOCKED then decode_UnitBlocked ne bytes pos
      else if tag = TAG_UNIT_WOKEN then decode_UnitWoken ne bytes pos
      else if tag = TAG_PPU_STATE_HASH then decode_PpuStateHash ne bytes pos
      else if tag = TAG_PPU_STATE_FULL then decode_PpuStateFull ne bytes pos
      else if tag = TAG_HOST_INVARIANT_BREAK then decode_HostInvariantBreak ne bytes pos
      else if tag = TAG_SYSCALL_ENTERED then decode_SyscallEntered ne bytes pos
      else if tag = TAG_RESERVED_REGION_READ then decode_ReservedRegionRead ne bytes pos
      else if tag = TAG_SYSCALL_RETURNED then decode_SyscallReturned ne bytes pos
      else if tag = TAG_HOST_WRITE then decode_HostWrite ne bytes pos
      else if tag = TAG_STATE_HASH_SCHEME then decode_StateHashScheme ne bytes pos
      else if tag = TAG_UNIT_STOPPED then decode_UnitStopped ne bytes pos
      else if tag = TAG_BARRIER then decode_Barrier ne bytes pos
      else if tag = TAG_SPU_STATE_HASH then decode_SpuStateHash ne bytes pos
      else if tag = TAG_SPU_STATE_FULL then decode_SpuStateFull ne bytes pos
      else if tag = TAG_SPU_REGISTERS then decode_SpuRegisters ne bytes pos
      else if tag = TAG_UNSYNCED_CODE_FETCH then decode_UnsyncedCodeFetch ne bytes pos
      else Inl (UnknownTag tag))"

definition TraceRecord_decode :: "NumEnum \<Rightarrow> bytes \<Rightarrow> DecodeError + TraceRecord \<times> nat" where
  "TraceRecord_decode ne bytes =
     rbind (read_u8 bytes 0) (\<lambda>(tag, pos).
       case TraceRecord_encoded_len tag of
         None \<Rightarrow> Inl (UnknownTag tag)
       | Some len \<Rightarrow>
           rbind (if tag = TAG_RUN_IDENTITY
                  then rbind (read_u32 bytes pos)
                         (\<lambda>(found, _). if found \<noteq> TRACE_FORMAT_VERSION then Inl (UnsupportedFormatVersion found) else Inr ())
                  else Inr ())
             (\<lambda>_. if length bytes < len then Inl Truncated else decode_tag ne tag bytes pos))"

end
