(* ===== verification/Trace_Codec.thy ===== *)
theory Trace_Codec
  imports Trace_Record
begin

text \<open>
  The trace codec: what the derived enum conversions promise, that decoding an encoded record
  gives it back and consumes exactly its declared length, and what a successful decode says of
  its input.
\<close>

section \<open>Derived enum conversions\<close>

text \<open>
  What the derive macros document: the byte of a variant is its discriminant, a discriminant
  converts back to its variant, and any other byte is refused with the named error.
\<close>

locale wire_enum =
  fixes disc :: "'k \<Rightarrow> u8" and conv_into :: "'k \<Rightarrow> u8" and conv_try :: "u8 \<Rightarrow> DecodeError + 'k" and err :: "u8 \<Rightarrow> DecodeError"
  assumes into_disc: "conv_into k = disc k"
    and try_disc: "conv_try (disc k) = Inr k"
    and try_other: "(\<And>k. disc k \<noteq> b) \<Longrightarrow> conv_try b = Inl (err b)"
begin

lemma try_into: "conv_try (conv_into k) = Inr k"
  by (simp add: into_disc try_disc)

lemma try_Inr: "conv_try b = Inr k \<Longrightarrow> conv_into k = b"
  using try_other [of b] try_disc by (metis into_disc Inl_Inr_False Inr_inject)

lemma try_Inl: "conv_try b = Inl e \<Longrightarrow> e = err b"
  using try_other [of b] try_disc by (metis Inl_Inr_False Inl_inject)

end

definition derived_try :: "'k list \<Rightarrow> ('k \<Rightarrow> u8) \<Rightarrow> (u8 \<Rightarrow> DecodeError) \<Rightarrow> u8 \<Rightarrow> DecodeError + 'k" where
  "derived_try variants disc err b = (case List.find (\<lambda>k. disc k = b) variants of Some k \<Rightarrow> Inr k | None \<Rightarrow> Inl (err b))"

lemma derived_try_ok:
  assumes "\<And>k. k \<in> set variants" and "\<And>k. List.find (\<lambda>j. disc j = disc k) variants = Some k"
  shows "wire_enum disc disc (derived_try variants disc err) err"
proof
  fix b
  assume "\<And>k. disc k \<noteq> b"
  then have "List.find (\<lambda>k. disc k = b) variants = None" by (simp add: find_None_iff)
  then show "derived_try variants disc err b = Inl (err b)" by (simp add: derived_try_def)
qed (simp_all add: derived_try_def assms(2))

definition TracedYieldReason_variants :: "TracedYieldReason list" where
  "TracedYieldReason_variants =
     [Yield_BudgetExhausted, Yield_MailboxAccess, Yield_DmaSubmitted, Yield_DmaWait, Yield_WaitingSync, Yield_Syscall, Yield_InterruptBoundary, Yield_Fault, Yield_Finished, Yield_Hypercall, Yield_ChannelStall]"

definition HashCheckpointKind_variants :: "HashCheckpointKind list" where
  "HashCheckpointKind_variants =
     [Checkpoint_CommittedMemory, Checkpoint_RunnableQueue, Checkpoint_SyncState, Checkpoint_UnitStatus]"

definition TracedBlockReason_variants :: "TracedBlockReason list" where
  "TracedBlockReason_variants =
     [Block_WaitOnEvent, Block_MailboxEmpty, Block_DmaWait, Block_OutboundMailboxFull, Block_SignalEmpty, Block_AtomicStatusEmpty, Block_EventWait]"

definition TracedWakeReason_variants :: "TracedWakeReason list" where
  "TracedWakeReason_variants =
     [Wake_WakeEffect, Wake_DmaCompletion, Wake_Timer]"

definition TracedEffectKind_variants :: "TracedEffectKind list" where
  "TracedEffectKind_variants =
     [Kind_SharedWriteIntent, Kind_MailboxSend, Kind_MailboxReceiveAttempt, Kind_DmaEnqueue, Kind_WaitOnEvent, Kind_WakeUnit, Kind_SignalUpdate, Kind_FaultRaised, Kind_TraceMarker, Kind_ReservationAcquire, Kind_ConditionalStore, Kind_RsxLabelWrite, Kind_RsxFlipRequest, Kind_SharedReadIntent, Kind_ClockRead, Kind_MailboxPop, Kind_MfcInvalidCommand, Kind_SpuSignalWrite, Kind_SpuLocalStoreWrite, Kind_SpuLocalStoreRead]"

definition TracedInvariantBreakReason_variants :: "TracedInvariantBreakReason list" where
  "TracedInvariantBreakReason_variants =
     [Break_Unspecified]"

definition HostWriter_variants :: "HostWriter list" where
  "HostWriter_variants =
     [Writer_Lv2Effect, Writer_WakeContinuation, Writer_DmaCompletion, Writer_RsxMirror, Writer_SharedViewFanout, Writer_SharedViewSeed, Writer_SyscallOutParam, Writer_Placement, Writer_SpuProblemState]"

definition TracedBarrierKind_variants :: "TracedBarrierKind list" where
  "TracedBarrierKind_variants =
     [Barrier_Sync, Barrier_Lwsync, Barrier_Ptesync, Barrier_SyncL3, Barrier_Eieio, Barrier_Isync, Barrier_SpuSync, Barrier_SpuSyncC, Barrier_SpuDsync, Barrier_MfcFence, Barrier_MfcTagBarrier, Barrier_MfcSync, Barrier_MfcEieio, Barrier_MfcBarrier]"

definition TracedSyscallDisposition_variants :: "TracedSyscallDisposition list" where
  "TracedSyscallDisposition_variants =
     [Disposition_Implemented, Disposition_Unsupported, Disposition_UnresolvedImport, Disposition_Malformed, Disposition_Hypercall, Disposition_TimerFastPath, Disposition_NoSuchSyscall]"

definition derived_conversions :: NumEnum where
  "derived_conversions =
     \<lparr>into_Yield = TracedYieldReason_disc, try_Yield = derived_try TracedYieldReason_variants TracedYieldReason_disc UnknownYieldReason,
      into_Checkpoint = HashCheckpointKind_disc, try_Checkpoint = derived_try HashCheckpointKind_variants HashCheckpointKind_disc UnknownHashKind,
      into_Block = TracedBlockReason_disc, try_Block = derived_try TracedBlockReason_variants TracedBlockReason_disc UnknownBlockReason,
      into_Wake = TracedWakeReason_disc, try_Wake = derived_try TracedWakeReason_variants TracedWakeReason_disc UnknownWakeReason,
      into_Kind = TracedEffectKind_disc, try_Kind = derived_try TracedEffectKind_variants TracedEffectKind_disc UnknownEffectKind,
      into_Break = TracedInvariantBreakReason_disc, try_Break = derived_try TracedInvariantBreakReason_variants TracedInvariantBreakReason_disc UnknownInvariantBreakReason,
      into_Writer = HostWriter_disc, try_Writer = derived_try HostWriter_variants HostWriter_disc UnknownHostWriter,
      into_Barrier = TracedBarrierKind_disc, try_Barrier = derived_try TracedBarrierKind_variants TracedBarrierKind_disc UnknownBarrierKind,
      into_Disposition = TracedSyscallDisposition_disc, try_Disposition = derived_try TracedSyscallDisposition_variants TracedSyscallDisposition_disc UnknownSyscallDisposition\<rparr>"

definition num_enum_ok :: "NumEnum \<Rightarrow> bool" where
  "num_enum_ok ne \<longleftrightarrow>
     wire_enum TracedYieldReason_disc (into_Yield ne) (try_Yield ne) UnknownYieldReason \<and>
     wire_enum HashCheckpointKind_disc (into_Checkpoint ne) (try_Checkpoint ne) UnknownHashKind \<and>
     wire_enum TracedBlockReason_disc (into_Block ne) (try_Block ne) UnknownBlockReason \<and>
     wire_enum TracedWakeReason_disc (into_Wake ne) (try_Wake ne) UnknownWakeReason \<and>
     wire_enum TracedEffectKind_disc (into_Kind ne) (try_Kind ne) UnknownEffectKind \<and>
     wire_enum TracedInvariantBreakReason_disc (into_Break ne) (try_Break ne) UnknownInvariantBreakReason \<and>
     wire_enum HostWriter_disc (into_Writer ne) (try_Writer ne) UnknownHostWriter \<and>
     wire_enum TracedBarrierKind_disc (into_Barrier ne) (try_Barrier ne) UnknownBarrierKind \<and>
     wire_enum TracedSyscallDisposition_disc (into_Disposition ne) (try_Disposition ne) UnknownSyscallDisposition"

interpretation derived_yield: wire_enum TracedYieldReason_disc TracedYieldReason_disc "derived_try TracedYieldReason_variants TracedYieldReason_disc UnknownYieldReason" UnknownYieldReason
proof (rule derived_try_ok)
  fix k :: TracedYieldReason
  show "k \<in> set TracedYieldReason_variants" "List.find (\<lambda>j. TracedYieldReason_disc j = TracedYieldReason_disc k) TracedYieldReason_variants = Some k"
    by (cases k; simp add: TracedYieldReason_variants_def)+
qed

interpretation derived_checkpoint: wire_enum HashCheckpointKind_disc HashCheckpointKind_disc "derived_try HashCheckpointKind_variants HashCheckpointKind_disc UnknownHashKind" UnknownHashKind
proof (rule derived_try_ok)
  fix k :: HashCheckpointKind
  show "k \<in> set HashCheckpointKind_variants" "List.find (\<lambda>j. HashCheckpointKind_disc j = HashCheckpointKind_disc k) HashCheckpointKind_variants = Some k"
    by (cases k; simp add: HashCheckpointKind_variants_def)+
qed

interpretation derived_block: wire_enum TracedBlockReason_disc TracedBlockReason_disc "derived_try TracedBlockReason_variants TracedBlockReason_disc UnknownBlockReason" UnknownBlockReason
proof (rule derived_try_ok)
  fix k :: TracedBlockReason
  show "k \<in> set TracedBlockReason_variants" "List.find (\<lambda>j. TracedBlockReason_disc j = TracedBlockReason_disc k) TracedBlockReason_variants = Some k"
    by (cases k; simp add: TracedBlockReason_variants_def)+
qed

interpretation derived_wake: wire_enum TracedWakeReason_disc TracedWakeReason_disc "derived_try TracedWakeReason_variants TracedWakeReason_disc UnknownWakeReason" UnknownWakeReason
proof (rule derived_try_ok)
  fix k :: TracedWakeReason
  show "k \<in> set TracedWakeReason_variants" "List.find (\<lambda>j. TracedWakeReason_disc j = TracedWakeReason_disc k) TracedWakeReason_variants = Some k"
    by (cases k; simp add: TracedWakeReason_variants_def)+
qed

interpretation derived_kind: wire_enum TracedEffectKind_disc TracedEffectKind_disc "derived_try TracedEffectKind_variants TracedEffectKind_disc UnknownEffectKind" UnknownEffectKind
proof (rule derived_try_ok)
  fix k :: TracedEffectKind
  show "k \<in> set TracedEffectKind_variants" "List.find (\<lambda>j. TracedEffectKind_disc j = TracedEffectKind_disc k) TracedEffectKind_variants = Some k"
    by (cases k; simp add: TracedEffectKind_variants_def)+
qed

interpretation derived_break: wire_enum TracedInvariantBreakReason_disc TracedInvariantBreakReason_disc "derived_try TracedInvariantBreakReason_variants TracedInvariantBreakReason_disc UnknownInvariantBreakReason" UnknownInvariantBreakReason
proof (rule derived_try_ok)
  fix k :: TracedInvariantBreakReason
  show "k \<in> set TracedInvariantBreakReason_variants" "List.find (\<lambda>j. TracedInvariantBreakReason_disc j = TracedInvariantBreakReason_disc k) TracedInvariantBreakReason_variants = Some k"
    by (cases k; simp add: TracedInvariantBreakReason_variants_def)+
qed

interpretation derived_writer: wire_enum HostWriter_disc HostWriter_disc "derived_try HostWriter_variants HostWriter_disc UnknownHostWriter" UnknownHostWriter
proof (rule derived_try_ok)
  fix k :: HostWriter
  show "k \<in> set HostWriter_variants" "List.find (\<lambda>j. HostWriter_disc j = HostWriter_disc k) HostWriter_variants = Some k"
    by (cases k; simp add: HostWriter_variants_def)+
qed

interpretation derived_barrier: wire_enum TracedBarrierKind_disc TracedBarrierKind_disc "derived_try TracedBarrierKind_variants TracedBarrierKind_disc UnknownBarrierKind" UnknownBarrierKind
proof (rule derived_try_ok)
  fix k :: TracedBarrierKind
  show "k \<in> set TracedBarrierKind_variants" "List.find (\<lambda>j. TracedBarrierKind_disc j = TracedBarrierKind_disc k) TracedBarrierKind_variants = Some k"
    by (cases k; simp add: TracedBarrierKind_variants_def)+
qed

interpretation derived_disposition: wire_enum TracedSyscallDisposition_disc TracedSyscallDisposition_disc "derived_try TracedSyscallDisposition_variants TracedSyscallDisposition_disc UnknownSyscallDisposition" UnknownSyscallDisposition
proof (rule derived_try_ok)
  fix k :: TracedSyscallDisposition
  show "k \<in> set TracedSyscallDisposition_variants" "List.find (\<lambda>j. TracedSyscallDisposition_disc j = TracedSyscallDisposition_disc k) TracedSyscallDisposition_variants = Some k"
    by (cases k; simp add: TracedSyscallDisposition_variants_def)+
qed

lemma derived_conversions_ok: "num_enum_ok derived_conversions"
  unfolding num_enum_ok_def derived_conversions_def NumEnum.simps
  by (intro conjI derived_yield.wire_enum_axioms derived_checkpoint.wire_enum_axioms derived_block.wire_enum_axioms derived_wake.wire_enum_axioms derived_kind.wire_enum_axioms derived_break.wire_enum_axioms derived_writer.wire_enum_axioms derived_barrier.wire_enum_axioms derived_disposition.wire_enum_axioms)

lemma try_into_ok:
  assumes "num_enum_ok ne"
  shows "try_Yield ne (into_Yield ne k0) = Inr k0"
    and "try_Checkpoint ne (into_Checkpoint ne k1) = Inr k1"
    and "try_Block ne (into_Block ne k2) = Inr k2"
    and "try_Wake ne (into_Wake ne k3) = Inr k3"
    and "try_Kind ne (into_Kind ne k4) = Inr k4"
    and "try_Break ne (into_Break ne k5) = Inr k5"
    and "try_Writer ne (into_Writer ne k6) = Inr k6"
    and "try_Barrier ne (into_Barrier ne k7) = Inr k7"
    and "try_Disposition ne (into_Disposition ne k8) = Inr k8"
  using assms unfolding num_enum_ok_def by (blast intro: wire_enum.try_into)+

section \<open>Reading what was written\<close>

text \<open>\<open>xs\<close> stands in \<open>bytes\<close> at \<open>pos\<close>.\<close>

definition stands_at :: "bytes \<Rightarrow> nat \<Rightarrow> bytes \<Rightarrow> bool" where
  "stands_at bytes pos xs \<longleftrightarrow> pos + length xs \<le> length bytes \<and> take (length xs) (drop pos bytes) = xs"

lemma stands_at_Nil [simp]: "stands_at bytes pos [] \<longleftrightarrow> pos \<le> length bytes"
  by (simp add: stands_at_def)

lemma stands_at_append [simp]: "stands_at bytes pos (xs @ ys) \<longleftrightarrow> stands_at bytes pos xs \<and> stands_at bytes (pos + length xs) ys"
proof -
  have "take (length xs + length ys) (drop pos bytes) = take (length xs) (drop pos bytes) @ take (length ys) (drop (length xs + pos) bytes)"
    by (simp only: take_add drop_drop)
  then show ?thesis unfolding stands_at_def by (auto simp: add.commute append_eq_append_conv)
qed

definition byte_at :: "bytes \<Rightarrow> nat \<Rightarrow> u8 \<Rightarrow> bool" where
  "byte_at bytes pos x \<longleftrightarrow> pos < length bytes \<and> bytes ! pos = x"

lemma stands_at_Cons [simp]: "stands_at bytes pos (x # ys) \<longleftrightarrow> byte_at bytes pos x \<and> stands_at bytes (pos + 1) ys"
proof (cases "pos < length bytes")
  case True
  then have "drop pos bytes = bytes ! pos # drop (pos + 1) bytes" by (simp add: Cons_nth_drop_Suc)
  with True show ?thesis by (auto simp: stands_at_def byte_at_def)
qed (simp add: stands_at_def byte_at_def)

lemma length_concat_to_le [simp]: "length (concat (map (to_le n) xs)) = n * length xs"
  by (induction xs) simp_all

lemma read_u8_at: "byte_at bytes pos v \<Longrightarrow> read_u8 bytes pos = Inr (v, pos + 1)"
  by (simp add: byte_at_def read_u8_def)

lemma read_bool_at: "byte_at bytes pos (u8_from b) \<Longrightarrow> read_bool bytes pos = Inr (b, pos + 1)"
  by (cases b) (simp_all add: read_bool_def read_u8_at u8_from_def)

lemma read_le_at: "8 * n = LENGTH('a) \<Longrightarrow> stands_at bytes pos (to_le n v) \<Longrightarrow> read_le n bytes pos = Inr (v :: 'a::len word, pos + n)"
  by (simp add: stands_at_def read_le_def)

lemma read_u32_at: "stands_at bytes pos (to_le 4 v) \<Longrightarrow> read_u32 bytes pos = Inr (v, pos + 4)"
  and read_u64_at: "stands_at bytes pos (to_le 8 w) \<Longrightarrow> read_u64 bytes pos = Inr (w, pos + 8)"
  and read_u128_at: "stands_at bytes pos (to_le 16 x) \<Longrightarrow> read_u128 bytes pos = Inr (x, pos + 16)"
  by (simp_all add: read_u32_def read_u64_def read_u128_def read_le_at)

lemma read_each_at:
  assumes "\<And>pos v. stands_at bytes pos (enc v) \<Longrightarrow> rd bytes pos = Inr (v, pos + n)" and "\<And>v. length (enc v) = n"
  shows "stands_at bytes pos (concat (map enc vs)) \<Longrightarrow> read_each rd (length vs) bytes pos = Inr (vs, pos + n * length vs)"
  by (induction vs arbitrary: pos) (auto simp: assms algebra_simps)

lemma read_u64s_at: "stands_at bytes pos (concat (map (to_le 8) vs)) \<Longrightarrow> length vs = k \<Longrightarrow> read_each read_u64 k bytes pos = Inr (vs, pos + 8 * k)"
  and read_u128s_at: "stands_at bytes pos (concat (map (to_le 16) ws)) \<Longrightarrow> length ws = k \<Longrightarrow> read_each read_u128 k bytes pos = Inr (ws, pos + 16 * k)"
  using read_each_at [of bytes "to_le 8" read_u64 8 pos vs] read_each_at [of bytes "to_le 16" read_u128 16 pos ws]
  by (auto simp: read_u64_at read_u128_at)

lemmas reads_at = read_u8_at read_bool_at read_u32_at read_u64_at read_u128_at read_u64s_at read_u128s_at

section \<open>Records\<close>

text \<open>The array lengths of the record type, and a header of this format.\<close>

fun record_wf :: "TraceRecord \<Rightarrow> bool" where
  "record_wf (TR_RunIdentity format_version _ _ _) = (format_version = TRACE_FORMAT_VERSION)"
| "record_wf (TR_PpuStateFull _ _ gpr _ _ _ _ _ _ _ fpr vr _) = (length gpr = 32 \<and> length fpr = 32 \<and> length vr = 32)"
| "record_wf (TR_SyscallEntered _ _ args _) = (length args = 8)"
| "record_wf (TR_SpuRegisters _ _ _ regs) = (length regs = 16)"
| "record_wf _ = True"

lemmas decode_defs =
  decode_RunIdentity_def
  decode_UnitScheduled_def
  decode_StepCompleted_def
  decode_CommitApplied_def
  decode_StateHashCheckpoint_def
  decode_EffectEmitted_def
  decode_UnitBlocked_def
  decode_UnitWoken_def
  decode_PpuStateHash_def
  decode_PpuStateFull_def
  decode_HostInvariantBreak_def
  decode_SyscallEntered_def
  decode_ReservedRegionRead_def
  decode_SyscallReturned_def
  decode_HostWrite_def
  decode_StateHashScheme_def
  decode_UnitStopped_def
  decode_Barrier_def
  decode_SpuStateHash_def
  decode_SpuStateFull_def
  decode_SpuRegisters_def
  decode_UnsyncedCodeFetch_def

lemma encoded_length:
  "record_wf r \<Longrightarrow> TraceRecord_encoded_len (TraceRecord_tag r) = Some (1 + length (encode_payload ne r))"
  by (cases r) (simp_all add: TraceRecord_encoded_len_def TAG_defs split: option.split)

lemma decode_payload:
  assumes "num_enum_ok ne" and "record_wf r" and "stands_at bytes pos (encode_payload ne r)"
  shows "decode_tag ne (TraceRecord_tag r) bytes pos = Inr (r, pos + length (encode_payload ne r))"
  using assms(2,3) try_into_ok [OF assms(1)]
  by (cases r) (auto simp: decode_tag_def TAG_defs decode_defs reads_at split: option.splits)


section \<open>What a successful decode says\<close>

lemma read_Inr:
  "read_u8 bytes pos = Inr (a, p) \<Longrightarrow> p = pos + 1" "read_bool bytes pos = Inr (b, p) \<Longrightarrow> p = pos + 1"
  "read_u32 bytes pos = Inr (c, p) \<Longrightarrow> p = pos + 4" "read_u64 bytes pos = Inr (d, p) \<Longrightarrow> p = pos + 8"
  "read_u128 bytes pos = Inr (e, p) \<Longrightarrow> p = pos + 16"
  by (auto simp: read_u8_def read_bool_def read_u32_def read_u64_def read_u128_def read_le_def rbind_Inr_iff split: if_splits)

lemma read_each_Inr:
  assumes "\<And>pos v p. rd bytes pos = Inr (v, p) \<Longrightarrow> p = pos + n"
  shows "read_each rd k bytes pos = Inr (vs, p) \<Longrightarrow> length vs = k \<and> p = pos + n * k"
proof (induction k arbitrary: pos vs)
  case (Suc k)
  from Suc.prems obtain v q ws where v: "rd bytes pos = Inr (v, q)" and ws: "read_each rd k bytes q = Inr (ws, p)" and vs: "vs = v # ws"
    by (auto simp: rbind_Inr_iff)
  show ?case using Suc.IH [OF ws] assms [OF v] vs by simp
qed simp

lemma read_arrays_Inr:
  "read_each read_u64 k bytes pos = Inr (vs, p) \<Longrightarrow> length vs = k \<and> p = pos + 8 * k"
  "read_each read_u128 k bytes pos = Inr (ws, p) \<Longrightarrow> length ws = k \<and> p = pos + 16 * k"
  by (rule read_each_Inr; simp add: read_Inr)+

text \<open>The record a branch gives has the branch's tag, its arrays their lengths, and the branch reads the declared bytes.\<close>

definition decodes_as :: "u8 \<Rightarrow> nat \<Rightarrow> TraceRecord \<Rightarrow> nat \<Rightarrow> bool" where
  "decodes_as tag pos r n \<longleftrightarrow>
     TraceRecord_tag r = tag \<and> TraceRecord_encoded_len tag = Some (n - pos + 1) \<and> pos \<le> n \<and> (tag = TAG_RUN_IDENTITY \<or> record_wf r)"

lemma decode_RunIdentity_sound: "decode_RunIdentity ne bytes pos = Inr (r, n) \<Longrightarrow> decodes_as TAG_RUN_IDENTITY pos r n"
  by (auto simp: decode_RunIdentity_def decodes_as_def TraceRecord_encoded_len_def TAG_defs rbind_Inr_iff dest!: read_Inr read_arrays_Inr split: if_splits)

lemma decode_UnitScheduled_sound: "decode_UnitScheduled ne bytes pos = Inr (r, n) \<Longrightarrow> decodes_as TAG_UNIT_SCHEDULED pos r n"
  by (auto simp: decode_UnitScheduled_def decodes_as_def TraceRecord_encoded_len_def TAG_defs rbind_Inr_iff dest!: read_Inr read_arrays_Inr split: if_splits)

lemma decode_StepCompleted_sound: "decode_StepCompleted ne bytes pos = Inr (r, n) \<Longrightarrow> decodes_as TAG_STEP_COMPLETED pos r n"
  by (auto simp: decode_StepCompleted_def decodes_as_def TraceRecord_encoded_len_def TAG_defs rbind_Inr_iff dest!: read_Inr read_arrays_Inr split: if_splits)

lemma decode_CommitApplied_sound: "decode_CommitApplied ne bytes pos = Inr (r, n) \<Longrightarrow> decodes_as TAG_COMMIT_APPLIED pos r n"
  by (auto simp: decode_CommitApplied_def decodes_as_def TraceRecord_encoded_len_def TAG_defs rbind_Inr_iff dest!: read_Inr read_arrays_Inr split: if_splits)

lemma decode_StateHashCheckpoint_sound: "decode_StateHashCheckpoint ne bytes pos = Inr (r, n) \<Longrightarrow> decodes_as TAG_STATE_HASH_CHECKPOINT pos r n"
  by (auto simp: decode_StateHashCheckpoint_def decodes_as_def TraceRecord_encoded_len_def TAG_defs rbind_Inr_iff dest!: read_Inr read_arrays_Inr split: if_splits)

lemma decode_EffectEmitted_sound: "decode_EffectEmitted ne bytes pos = Inr (r, n) \<Longrightarrow> decodes_as TAG_EFFECT_EMITTED pos r n"
  by (auto simp: decode_EffectEmitted_def decodes_as_def TraceRecord_encoded_len_def TAG_defs rbind_Inr_iff dest!: read_Inr read_arrays_Inr split: if_splits)

lemma decode_UnitBlocked_sound: "decode_UnitBlocked ne bytes pos = Inr (r, n) \<Longrightarrow> decodes_as TAG_UNIT_BLOCKED pos r n"
  by (auto simp: decode_UnitBlocked_def decodes_as_def TraceRecord_encoded_len_def TAG_defs rbind_Inr_iff dest!: read_Inr read_arrays_Inr split: if_splits)

lemma decode_UnitWoken_sound: "decode_UnitWoken ne bytes pos = Inr (r, n) \<Longrightarrow> decodes_as TAG_UNIT_WOKEN pos r n"
  by (auto simp: decode_UnitWoken_def decodes_as_def TraceRecord_encoded_len_def TAG_defs rbind_Inr_iff dest!: read_Inr read_arrays_Inr split: if_splits)

lemma decode_PpuStateHash_sound: "decode_PpuStateHash ne bytes pos = Inr (r, n) \<Longrightarrow> decodes_as TAG_PPU_STATE_HASH pos r n"
  by (auto simp: decode_PpuStateHash_def decodes_as_def TraceRecord_encoded_len_def TAG_defs rbind_Inr_iff dest!: read_Inr read_arrays_Inr split: if_splits)

lemma decode_PpuStateFull_sound: "decode_PpuStateFull ne bytes pos = Inr (r, n) \<Longrightarrow> decodes_as TAG_PPU_STATE_FULL pos r n"
  by (auto simp: decode_PpuStateFull_def decodes_as_def TraceRecord_encoded_len_def TAG_defs rbind_Inr_iff dest!: read_Inr read_arrays_Inr split: if_splits)

lemma decode_HostInvariantBreak_sound: "decode_HostInvariantBreak ne bytes pos = Inr (r, n) \<Longrightarrow> decodes_as TAG_HOST_INVARIANT_BREAK pos r n"
  by (auto simp: decode_HostInvariantBreak_def decodes_as_def TraceRecord_encoded_len_def TAG_defs rbind_Inr_iff dest!: read_Inr read_arrays_Inr split: if_splits)

lemma decode_SyscallEntered_sound: "decode_SyscallEntered ne bytes pos = Inr (r, n) \<Longrightarrow> decodes_as TAG_SYSCALL_ENTERED pos r n"
  by (auto simp: decode_SyscallEntered_def decodes_as_def TraceRecord_encoded_len_def TAG_defs rbind_Inr_iff dest!: read_Inr read_arrays_Inr split: if_splits)

lemma decode_ReservedRegionRead_sound: "decode_ReservedRegionRead ne bytes pos = Inr (r, n) \<Longrightarrow> decodes_as TAG_RESERVED_REGION_READ pos r n"
  by (auto simp: decode_ReservedRegionRead_def decodes_as_def TraceRecord_encoded_len_def TAG_defs rbind_Inr_iff dest!: read_Inr read_arrays_Inr split: if_splits)

lemma decode_SyscallReturned_sound: "decode_SyscallReturned ne bytes pos = Inr (r, n) \<Longrightarrow> decodes_as TAG_SYSCALL_RETURNED pos r n"
  by (auto simp: decode_SyscallReturned_def decodes_as_def TraceRecord_encoded_len_def TAG_defs rbind_Inr_iff dest!: read_Inr read_arrays_Inr split: if_splits)

lemma decode_HostWrite_sound: "decode_HostWrite ne bytes pos = Inr (r, n) \<Longrightarrow> decodes_as TAG_HOST_WRITE pos r n"
  by (auto simp: decode_HostWrite_def decodes_as_def TraceRecord_encoded_len_def TAG_defs rbind_Inr_iff dest!: read_Inr read_arrays_Inr split: if_splits)

lemma decode_StateHashScheme_sound: "decode_StateHashScheme ne bytes pos = Inr (r, n) \<Longrightarrow> decodes_as TAG_STATE_HASH_SCHEME pos r n"
  by (auto simp: decode_StateHashScheme_def decodes_as_def TraceRecord_encoded_len_def TAG_defs rbind_Inr_iff dest!: read_Inr read_arrays_Inr split: if_splits)

lemma decode_UnitStopped_sound: "decode_UnitStopped ne bytes pos = Inr (r, n) \<Longrightarrow> decodes_as TAG_UNIT_STOPPED pos r n"
  by (auto simp: decode_UnitStopped_def decodes_as_def TraceRecord_encoded_len_def TAG_defs rbind_Inr_iff dest!: read_Inr read_arrays_Inr split: if_splits)

lemma decode_Barrier_sound: "decode_Barrier ne bytes pos = Inr (r, n) \<Longrightarrow> decodes_as TAG_BARRIER pos r n"
  by (auto simp: decode_Barrier_def decodes_as_def TraceRecord_encoded_len_def TAG_defs rbind_Inr_iff dest!: read_Inr read_arrays_Inr split: if_splits)

lemma decode_SpuStateHash_sound: "decode_SpuStateHash ne bytes pos = Inr (r, n) \<Longrightarrow> decodes_as TAG_SPU_STATE_HASH pos r n"
  by (auto simp: decode_SpuStateHash_def decodes_as_def TraceRecord_encoded_len_def TAG_defs rbind_Inr_iff dest!: read_Inr read_arrays_Inr split: if_splits)

lemma decode_SpuStateFull_sound: "decode_SpuStateFull ne bytes pos = Inr (r, n) \<Longrightarrow> decodes_as TAG_SPU_STATE_FULL pos r n"
  by (auto simp: decode_SpuStateFull_def decodes_as_def TraceRecord_encoded_len_def TAG_defs rbind_Inr_iff dest!: read_Inr read_arrays_Inr split: if_splits)

lemma decode_SpuRegisters_sound: "decode_SpuRegisters ne bytes pos = Inr (r, n) \<Longrightarrow> decodes_as TAG_SPU_REGISTERS pos r n"
  by (auto simp: decode_SpuRegisters_def decodes_as_def TraceRecord_encoded_len_def TAG_defs rbind_Inr_iff dest!: read_Inr read_arrays_Inr split: if_splits)

lemma decode_UnsyncedCodeFetch_sound: "decode_UnsyncedCodeFetch ne bytes pos = Inr (r, n) \<Longrightarrow> decodes_as TAG_UNSYNCED_CODE_FETCH pos r n"
  by (auto simp: decode_UnsyncedCodeFetch_def decodes_as_def TraceRecord_encoded_len_def TAG_defs rbind_Inr_iff dest!: read_Inr read_arrays_Inr split: if_splits)

lemmas decode_sounds =
  decode_RunIdentity_sound
  decode_UnitScheduled_sound
  decode_StepCompleted_sound
  decode_CommitApplied_sound
  decode_StateHashCheckpoint_sound
  decode_EffectEmitted_sound
  decode_UnitBlocked_sound
  decode_UnitWoken_sound
  decode_PpuStateHash_sound
  decode_PpuStateFull_sound
  decode_HostInvariantBreak_sound
  decode_SyscallEntered_sound
  decode_ReservedRegionRead_sound
  decode_SyscallReturned_sound
  decode_HostWrite_sound
  decode_StateHashScheme_sound
  decode_UnitStopped_sound
  decode_Barrier_sound
  decode_SpuStateHash_sound
  decode_SpuStateFull_sound
  decode_SpuRegisters_sound
  decode_UnsyncedCodeFetch_sound

lemma decode_tag_sound: "decode_tag ne tag bytes pos = Inr (r, n) \<Longrightarrow> decodes_as tag pos r n"
  unfolding decode_tag_def by (simp only: split: if_splits) (simp_all only: decode_sounds sum.simps simp_thms)

lemma decode_sound:
  assumes "TraceRecord_decode ne bytes = Inr (r, n)"
  shows "bytes \<noteq> [] \<and> TraceRecord_tag r = hd bytes \<and> TraceRecord_encoded_len (hd bytes) = Some n \<and> n \<le> length bytes \<and> 0 < n \<and> record_wf r"
proof -
  have ne: "bytes \<noteq> []" using assms by (auto simp: TraceRecord_decode_def read_u8_def)
  define tag where "tag = hd bytes"
  have u: "read_u8 bytes 0 = Inr (tag, 1)" using ne by (simp add: read_u8_def hd_conv_nth tag_def)
  obtain len where len: "TraceRecord_encoded_len tag = Some len" "len \<le> length bytes" and d: "decode_tag ne tag bytes 1 = Inr (r, n)"
    and v: "tag = TAG_RUN_IDENTITY \<Longrightarrow> \<exists>p. read_u32 bytes 1 = Inr (TRACE_FORMAT_VERSION, p)"
    using assms by (auto simp: TraceRecord_decode_def u rbind_Inr_iff split: option.splits if_splits)
  have as: "decodes_as tag 1 r n" using decode_tag_sound [OF d] .
  then have n: "n = len" using len(1) by (simp add: decodes_as_def)
  have "record_wf r"
  proof (cases "tag = TAG_RUN_IDENTITY")
    case True
    then have "decode_RunIdentity ne bytes 1 = Inr (r, n)" using d by (simp add: decode_tag_def)
    then show ?thesis using v [OF True] by (auto simp: decode_RunIdentity_def rbind_Inr_iff)
  qed (use as in \<open>simp add: decodes_as_def\<close>)
  then show ?thesis using ne as len n by (simp add: decodes_as_def tag_def)
qed

lemma decode_encode:
  assumes "num_enum_ok ne" and "record_wf r"
  shows "TraceRecord_decode ne (TraceRecord_encode ne r [] @ rest) = Inr (r, length (TraceRecord_encode ne r []))"
proof -
  define bytes where "bytes = TraceRecord_encode ne r [] @ rest"
  have l: "length (TraceRecord_encode ne r []) = 1 + length (encode_payload ne r)" by (simp add: TraceRecord_encode_def)
  have u: "read_u8 bytes 0 = Inr (TraceRecord_tag r, 1)" by (simp add: bytes_def TraceRecord_encode_def read_u8_def)
  have at: "stands_at bytes 1 (encode_payload ne r)" by (simp add: stands_at_def bytes_def TraceRecord_encode_def)
  have v: "TraceRecord_tag r = TAG_RUN_IDENTITY \<Longrightarrow> \<exists>p. read_u32 bytes 1 = Inr (TRACE_FORMAT_VERSION, p)"
    using at assms(2) by (cases r) (auto simp: TAG_defs reads_at)
  have "\<not> length bytes < 1 + length (encode_payload ne r)" by (simp add: bytes_def TraceRecord_encode_def)
  then show ?thesis unfolding bytes_def [symmetric] TraceRecord_decode_def l
    using decode_payload [OF assms at] v encoded_length [OF assms(2), of ne] by (auto simp: u)
qed

text \<open>
  C10: A trace record survives its wire format. For every record whose arrays have their
  lengths (and a header of this format), decoding its encoding, whatever bytes follow, gives
  the record back and consumes exactly the length declared for its tag; and whatever bytes are
  decoded with success, the record carries the leading tag byte, is well formed, and the
  consumed length is the one declared for that tag and lies within the input.
\<close>
theorem trace_record_roundtrip:
  assumes "num_enum_ok ne"
  shows "(record_wf r \<longrightarrow>
      TraceRecord_decode ne (TraceRecord_encode ne r [] @ rest) = Inr (r, length (TraceRecord_encode ne r [])) \<and>
      TraceRecord_encoded_len (TraceRecord_tag r) = Some (length (TraceRecord_encode ne r []))) \<and>
    (TraceRecord_decode ne bytes = Inr (s, n) \<longrightarrow>
      TraceRecord_tag s = hd bytes \<and> TraceRecord_encoded_len (hd bytes) = Some n \<and> n \<le> length bytes \<and> record_wf s)"
  using decode_encode [OF assms] decode_sound encoded_length [of r ne] by (auto simp: TraceRecord_encode_def)

theorem trace_record_roundtrip_witness:
  "TraceRecord_decode derived_conversions
     (TraceRecord_encode derived_conversions (TR_UnitBlocked (UnitId 3) Block_DmaWait) [] @ [7]) =
     Inr (TR_UnitBlocked (UnitId 3) Block_DmaWait, 10)"
  using trace_record_roundtrip [OF derived_conversions_ok, of "TR_UnitBlocked (UnitId 3) Block_DmaWait" "[7]"]
  by (simp add: TraceRecord_encode_def)

end
