(* ===== verification/Trace_Stream.thy ===== *)
theory Trace_Stream
  imports Trace_Codec
begin

text \<open>
  \<^verbatim>\<open>cellgov_trace/src/writer.rs\<close> and \<^verbatim>\<open>reader.rs\<close>: the writer with its level filter and header rule, and the
  iterator that decodes a trace. The writer refines a list of accepted records, which the
  reader gives back.
\<close>

section \<open>Writer\<close>

record TraceWriter =
  wr_buf :: bytes
  wr_enabled_mask :: u8
  wr_record_count :: nat

definition TraceWriter_new :: TraceWriter where
  "TraceWriter_new = \<lparr>wr_buf = [], wr_enabled_mask = 0xFF, wr_record_count = 0\<rparr>"

definition TraceWriter_with_levels :: "TraceLevel list \<Rightarrow> TraceWriter" where
  "TraceWriter_with_levels levels =
     \<lparr>wr_buf = [], wr_enabled_mask = foldl (\<lambda>bits l. bits OR push_bit (TraceLevel_as_u8 l) 1) 0 levels, wr_record_count = 0\<rparr>"

definition is_run_identity :: "TraceRecord \<Rightarrow> bool" where
  "is_run_identity r = (case r of TR_RunIdentity _ _ _ _ \<Rightarrow> True | _ \<Rightarrow> False)"

definition TraceWriter_record :: "NumEnum \<Rightarrow> TraceRecord \<Rightarrow> TraceWriter \<Rightarrow> bool \<times> TraceWriter" where
  "TraceWriter_record ne r w =
     (if is_run_identity r then (False, w)
      else
        let level_bit = push_bit (TraceLevel_as_u8 (TraceRecord_level r)) 1
        in if wr_enabled_mask w AND level_bit = 0 then (False, w)
           else (True, w\<lparr>wr_buf := TraceRecord_encode ne r (wr_buf w), wr_record_count := wr_record_count w + 1\<rparr>))"

definition TraceWriter_record_header :: "NumEnum \<Rightarrow> TraceRecord \<Rightarrow> TraceWriter \<Rightarrow> bool \<times> TraceWriter" where
  "TraceWriter_record_header ne r w =
     (if \<not> is_run_identity r \<or> wr_buf w \<noteq> [] then (False, w)
      else (True, w\<lparr>wr_buf := TraceRecord_encode ne r (wr_buf w), wr_record_count := wr_record_count w + 1\<rparr>))"

definition TraceWriter_byte_len :: "TraceWriter \<Rightarrow> nat" where
  "TraceWriter_byte_len w = length (wr_buf w)"

definition TraceWriter_take_bytes :: "TraceWriter \<Rightarrow> bytes \<times> TraceWriter" where
  "TraceWriter_take_bytes w = (wr_buf w, w\<lparr>wr_record_count := 0, wr_buf := []\<rparr>)"

definition TraceWriter_clear :: "TraceWriter \<Rightarrow> TraceWriter" where
  "TraceWriter_clear w = w\<lparr>wr_buf := [], wr_record_count := 0\<rparr>"

section \<open>Reader\<close>

record TraceReader =
  rd_bytes :: bytes
  rd_pos :: nat
  rd_failed :: bool

definition TraceReader_new :: "bytes \<Rightarrow> TraceReader" where
  "TraceReader_new bytes = \<lparr>rd_bytes = bytes, rd_pos = 0, rd_failed = False\<rparr>"

definition TraceReader_next :: "NumEnum \<Rightarrow> TraceReader \<Rightarrow> (DecodeError + TraceRecord) option \<times> TraceReader" where
  "TraceReader_next ne rd =
     (if rd_failed rd then (None, rd)
      else if rd_pos rd \<ge> length (rd_bytes rd) then (None, rd)
      else case TraceRecord_decode ne (drop (rd_pos rd) (rd_bytes rd)) of
             Inr (r, n) \<Rightarrow> (Some (Inr r), rd\<lparr>rd_pos := rd_pos rd + n\<rparr>)
           | Inl e \<Rightarrow> (Some (Inl e), rd\<lparr>rd_failed := True\<rparr>))"

definition reader_left :: "TraceReader \<Rightarrow> nat" where
  "reader_left rd = (if rd_failed rd then 0 else Suc (length (rd_bytes rd)) - rd_pos rd)"

lemma next_decreases: "TraceReader_next ne rd = (Some item, rd') \<Longrightarrow> reader_left rd' < reader_left rd"
  by (auto simp: TraceReader_next_def reader_left_def split: if_splits sum.splits prod.splits dest!: decode_sound)

text \<open>The items a \<^verbatim>\<open>for\<close> loop over the reader sees.\<close>

function TraceReader_collect :: "NumEnum \<Rightarrow> TraceReader \<Rightarrow> (DecodeError + TraceRecord) list" where
  "TraceReader_collect ne rd =
     (case TraceReader_next ne rd of
        (None, _) \<Rightarrow> []
      | (Some item, rd') \<Rightarrow> item # TraceReader_collect ne rd')"
  by pat_completeness auto
termination
  by (relation "measure (\<lambda>(ne, rd). reader_left rd)") (auto dest: next_decreases [OF sym])

declare TraceReader_collect.simps [simp del]

section \<open>The writer refines the list of accepted records\<close>

datatype WriterOp = Write_Record TraceRecord | Write_Header TraceRecord | Write_Clear | Write_Take

definition writer_step :: "NumEnum \<Rightarrow> TraceWriter \<Rightarrow> WriterOp \<Rightarrow> TraceWriter" where
  "writer_step ne w op =
     (case op of
        Write_Record r \<Rightarrow> snd (TraceWriter_record ne r w)
      | Write_Header r \<Rightarrow> snd (TraceWriter_record_header ne r w)
      | Write_Clear \<Rightarrow> TraceWriter_clear w
      | Write_Take \<Rightarrow> snd (TraceWriter_take_bytes w))"

text \<open>The abstract log: a record is kept when its level is enabled, a header only as the first.\<close>

definition log_step :: "TraceLevel set \<Rightarrow> TraceRecord list \<Rightarrow> WriterOp \<Rightarrow> TraceRecord list" where
  "log_step enabled acc op =
     (case op of
        Write_Record r \<Rightarrow> if \<not> is_run_identity r \<and> TraceRecord_level r \<in> enabled then acc @ [r] else acc
      | Write_Header r \<Rightarrow> if is_run_identity r \<and> acc = [] then [r] else acc
      | Write_Clear \<Rightarrow> []
      | Write_Take \<Rightarrow> [])"

fun op_wf :: "WriterOp \<Rightarrow> bool" where
  "op_wf (Write_Record r) = record_wf r"
| "op_wf (Write_Header r) = record_wf r"
| "op_wf _ = True"

definition writes :: "NumEnum \<Rightarrow> TraceLevel set \<Rightarrow> TraceWriter \<Rightarrow> TraceRecord list \<Rightarrow> bool" where
  "writes ne enabled w acc \<longleftrightarrow>
     wr_buf w = concat (map (\<lambda>r. TraceRecord_encode ne r []) acc) \<and> wr_record_count w = length acc \<and> list_all record_wf acc \<and>
     enabled = {l. wr_enabled_mask w AND push_bit (TraceLevel_as_u8 l) 1 \<noteq> 0}"

lemma encode_append: "TraceRecord_encode ne r buf = buf @ TraceRecord_encode ne r []"
  by (simp add: TraceRecord_encode_def)

lemma encode_not_empty [simp]: "TraceRecord_encode ne r [] \<noteq> []"
  by (simp add: TraceRecord_encode_def)

lemma writer_step_refines: "op_wf op \<Longrightarrow> writes ne enabled w acc \<Longrightarrow> writes ne enabled (writer_step ne w op) (log_step enabled acc op)"
  by (cases op)
    (auto simp: writes_def writer_step_def log_step_def TraceWriter_record_def TraceWriter_record_header_def TraceWriter_clear_def
      TraceWriter_take_bytes_def Let_def encode_append [where buf = "concat _"] simp del: encode_append)

lemma writer_run_refines:
  "list_all op_wf ops \<Longrightarrow> writes ne enabled w acc \<Longrightarrow> writes ne enabled (foldl (writer_step ne) w ops) (foldl (log_step enabled) acc ops)"
  by (induction ops arbitrary: w acc) (simp_all add: writer_step_refines)

lemma level_bit: "w AND push_bit (TraceLevel_as_u8 l) 1 \<noteq> 0 \<longleftrightarrow> bit (w :: u8) (TraceLevel_as_u8 l)"
  using and_exp_eq_0_iff_not_bit [of w "TraceLevel_as_u8 l"] by (simp add: push_bit_eq_mult)

lemma level_inj: "TraceLevel_as_u8 l = TraceLevel_as_u8 m \<longleftrightarrow> l = m"
  by (cases l; cases m) (simp_all add: TraceLevel_as_u8_def)

lemma level_lt: "TraceLevel_as_u8 l < 8"
  by (cases l) (simp_all add: TraceLevel_as_u8_def)

lemma bit_levels:
  "bit (foldl (\<lambda>bits l. bits OR push_bit (TraceLevel_as_u8 l) 1) (m :: u8) levels) (TraceLevel_as_u8 l) \<longleftrightarrow>
     bit m (TraceLevel_as_u8 l) \<or> l \<in> set levels"
proof (induction levels arbitrary: m)
  case (Cons k levels)
  have "bit (push_bit (TraceLevel_as_u8 k) 1 :: u8) (TraceLevel_as_u8 l) \<longleftrightarrow> k = l"
    using level_lt [of k] level_lt [of l] level_inj [of k l] by (auto simp: bit_exp_iff)
  then show ?case using Cons by (auto simp: bit_or_iff)
qed simp

lemma writes_with_levels: "writes ne (set levels) (TraceWriter_with_levels levels) []"
  unfolding writes_def TraceWriter_with_levels_def TraceWriter.simps level_bit bit_levels by simp

lemma collect_encoded:
  assumes "num_enum_ok ne" and "list_all record_wf acc"
  shows "TraceReader_collect ne \<lparr>rd_bytes = pre @ concat (map (\<lambda>r. TraceRecord_encode ne r []) acc), rd_pos = length pre, rd_failed = False\<rparr> = map Inr acc"
  using assms(2)
proof (induction acc arbitrary: pre)
  case Nil
  then show ?case by (simp add: TraceReader_collect.simps TraceReader_next_def)
next
  case (Cons r acc)
  let ?e = "TraceRecord_encode ne r []" and ?c = "concat (map (\<lambda>r. TraceRecord_encode ne r []) acc)"
  have "TraceReader_next ne \<lparr>rd_bytes = pre @ ?e @ ?c, rd_pos = length pre, rd_failed = False\<rparr> =
      (Some (Inr r), \<lparr>rd_bytes = (pre @ ?e) @ ?c, rd_pos = length (pre @ ?e), rd_failed = False\<rparr>)"
    using decode_encode [OF assms(1), of r ?c] Cons.prems by (simp add: TraceReader_next_def)
  then show ?case using Cons.IH [of "pre @ ?e"] Cons.prems by (subst TraceReader_collect.simps) simp
qed

text \<open>
  C9: A trace replays the records that were accepted. Whatever the sequence of record, header,
  clear and take calls on a writer of some levels, the reader over its bytes yields, without an
  error, exactly the records of the abstract log in emission order: those of an enabled level,
  and a header only where it came first; and the record count is the length of that log.
\<close>
theorem trace_stream_refines:
  assumes "num_enum_ok ne" and "list_all op_wf ops"
  shows "let w = foldl (writer_step ne) (TraceWriter_with_levels levels) ops; acc = foldl (log_step (set levels)) [] ops
    in wr_record_count w = length acc \<and> TraceReader_collect ne (TraceReader_new (wr_buf w)) = map Inr acc"
proof -
  define w acc where "w = foldl (writer_step ne) (TraceWriter_with_levels levels) ops" and "acc = foldl (log_step (set levels)) [] ops"
  have "writes ne (set levels) w acc" unfolding w_def acc_def by (rule writer_run_refines [OF assms(2) writes_with_levels])
  then have "wr_buf w = concat (map (\<lambda>r. TraceRecord_encode ne r []) acc)" "wr_record_count w = length acc" "list_all record_wf acc"
    by (simp_all add: writes_def)
  then show ?thesis using collect_encoded [OF assms(1), of acc "[]"]
    unfolding w_def [symmetric] acc_def [symmetric] by (simp add: TraceReader_new_def)
qed

theorem trace_stream_refines_witness:
  "TraceReader_collect derived_conversions (TraceReader_new (wr_buf (foldl (writer_step derived_conversions) (TraceWriter_with_levels [Level_Commits])
     [Write_Header (TR_RunIdentity 8 1 2 3), Write_Record (TR_UnitBlocked (UnitId 3) Block_DmaWait),
      Write_Record (TR_CommitApplied (UnitId 3) 1 0 False (Epoch 4))]))) =
   [Inr (TR_RunIdentity 8 1 2 3), Inr (TR_CommitApplied (UnitId 3) 1 0 False (Epoch 4))]"
  using trace_stream_refines [OF derived_conversions_ok,
      of "[Write_Header (TR_RunIdentity 8 1 2 3), Write_Record (TR_UnitBlocked (UnitId 3) Block_DmaWait),
           Write_Record (TR_CommitApplied (UnitId 3) 1 0 False (Epoch 4))]" "[Level_Commits]"]
  by (simp add: TRACE_FORMAT_VERSION_def log_step_def is_run_identity_def Let_def)

end
