(* ===== verification/BTree.thy ===== *)
theory BTree
  imports Prelude
begin

text \<open>
  The standard library's \<^verbatim>\<open>BTreeMap\<close> and \<^verbatim>\<open>BTreeSet\<close>, as far as the source uses them: a
  map is its list of entries in ascending key order, so iteration, \<^verbatim>\<open>first_key_value\<close>,
  \<^verbatim>\<open>pop_first\<close> and \<^verbatim>\<open>retain\<close> are list functions. The locale \<open>ordered_map\<close> is the
  contract the components rely on; the incrementally hashed map of the sync state is a
  second instance of it.
\<close>

section \<open>Entries in ascending key order\<close>

type_synonym ('k, 'v) btree = "('k \<times> 'v) list"

definition btree_wf :: "('k::linorder, 'v) btree \<Rightarrow> bool" where
  "btree_wf m \<longleftrightarrow> sorted_wrt (<) (map fst m)"

fun btree_insert :: "'k::linorder \<Rightarrow> 'v \<Rightarrow> ('k, 'v) btree \<Rightarrow> ('k, 'v) btree" where
  "btree_insert k v [] = [(k, v)]"
| "btree_insert k v ((k', v') # m) =
     (if k < k' then (k, v) # (k', v') # m
      else if k = k' then (k, v) # m
      else (k', v') # btree_insert k v m)"

definition btree_remove :: "'k::linorder \<Rightarrow> ('k, 'v) btree \<Rightarrow> ('k, 'v) btree" where
  "btree_remove k m = filter (\<lambda>(k', _). k' \<noteq> k) m"

definition btree_contains :: "('k::linorder, 'v) btree \<Rightarrow> 'k \<Rightarrow> bool" where
  "btree_contains m k \<longleftrightarrow> map_of m k \<noteq> None"

definition btree_first :: "('k::linorder, 'v) btree \<Rightarrow> ('k \<times> 'v) option" where
  "btree_first m = (case m of [] \<Rightarrow> None | e # _ \<Rightarrow> Some e)"

lemma btree_wf_Nil [simp]: "btree_wf []"
  by (simp add: btree_wf_def)

lemma btree_wf_Cons [simp]:
  "btree_wf ((k, v) # m) \<longleftrightarrow> (\<forall>k' \<in> fst ` set m. k < k') \<and> btree_wf m"
  by (auto simp: btree_wf_def)

lemma btree_wf_distinct: "btree_wf m \<Longrightarrow> distinct (map fst m)"
  by (simp add: btree_wf_def strict_sorted_iff)

lemma btree_wf_filter: "btree_wf m \<Longrightarrow> btree_wf (filter P m)"
  by (induction m) auto

lemma map_of_filter_keys:
  "map_of (filter (\<lambda>(k', _). P k') m) k = (if P k then map_of m k else None)"
  by (induction m) auto

lemma btree_set_insert:
  "fst ` set (btree_insert k v m) = insert k (fst ` set m)"
  by (induction k v m rule: btree_insert.induct) auto

lemma btree_wf_insert [inv_intros]: "btree_wf m \<Longrightarrow> btree_wf (btree_insert k v m)"
  by (induction k v m rule: btree_insert.induct) (auto simp: btree_set_insert)

lemma btree_wf_remove [inv_intros]: "btree_wf m \<Longrightarrow> btree_wf (btree_remove k m)"
  by (simp add: btree_remove_def btree_wf_filter)

lemma btree_get_above: "btree_wf m \<Longrightarrow> \<forall>k' \<in> fst ` set m. k < k' \<Longrightarrow> map_of m k = None"
  by (auto simp: map_of_eq_None_iff)

lemma btree_get_insert: "btree_wf m \<Longrightarrow> map_of (btree_insert k v m) = (map_of m)(k \<mapsto> v)"
  by (induction k v m rule: btree_insert.induct) (auto simp: fun_eq_iff)

lemma btree_get_remove: "map_of (btree_remove k m) = (map_of m)(k := None)"
  unfolding btree_remove_def fun_eq_iff by (auto simp: map_of_filter_keys [where P = "\<lambda>k'. k' \<noteq> k"])

lemma btree_remove_absent: "map_of m k = None \<Longrightarrow> btree_remove k m = m"
  by (force simp: btree_remove_def map_of_eq_None_iff filter_id_conv)

lemma btree_mem_iff: "btree_wf m \<Longrightarrow> (k, v) \<in> set m \<longleftrightarrow> map_of m k = Some v"
  by (simp add: btree_wf_distinct)

lemma btree_set_insert_entries:
  "btree_wf m \<Longrightarrow> set (btree_insert k v m) = insert (k, v) {e \<in> set m. fst e \<noteq> k}"
  by (induction k v m rule: btree_insert.induct) auto

lemma btree_first_least:
  "btree_wf m \<Longrightarrow> btree_first m = Some (k, v) \<Longrightarrow> (k', v') \<in> set m \<Longrightarrow> k \<le> k'"
  by (cases m) (fastforce simp: btree_first_def)+

lemma entries_from_keys:
  assumes "distinct (map fst m)"
  shows "map (\<lambda>k. (k, the (map_of m k))) (map fst m) = m"
  using assms by (auto simp: comp_def intro!: map_idI)

lemma btree_keys_unique:
  assumes "btree_wf m" and "btree_wf m'" and "map_of m = map_of m'"
  shows "m = m'"
proof -
  have d: "distinct (map fst m)" "distinct (map fst m')"
    using assms by (simp_all add: btree_wf_distinct)
  have "set m = set m'"
    using map_of_inject_set [OF d] assms(3) by simp
  then have "map fst m = map fst m'"
    using assms by (intro strict_sorted_equal) (simp_all add: btree_wf_def)
  then show ?thesis
    using entries_from_keys [OF d(1)] entries_from_keys [OF d(2)] assms(3) by metis
qed

section \<open>Sums over the entries\<close>

definition btree_sum :: "('k \<Rightarrow> 'v \<Rightarrow> 'a::ab_group_add) \<Rightarrow> ('k, 'v) btree \<Rightarrow> 'a" where
  "btree_sum f m = (\<Sum>(k, v) \<leftarrow> m. f k v)"

lemma btree_sum_simps [simp]:
  "btree_sum f [] = 0" "btree_sum f ((k, v) # m) = f k v + btree_sum f m"
  by (simp_all add: btree_sum_def)

lemma btree_sum_append [simp]: "btree_sum f (m @ m') = btree_sum f m + btree_sum f m'"
  by (simp add: btree_sum_def)

lemma btree_sum_foldl:
  "foldl (\<lambda>acc (k, v). acc + f k v) z m = z + btree_sum f m"
  by (induction m arbitrary: z) (auto simp: add.assoc)

lemma btree_sum_remove:
  "btree_wf m \<Longrightarrow>
   btree_sum f (btree_remove k m) =
     btree_sum f m - (case map_of m k of None \<Rightarrow> 0 | Some v \<Rightarrow> f k v)"
proof (induction m)
  case Nil
  then show ?case by (simp add: btree_remove_def)
next
  case (Cons e m)
  obtain k' v' where e: "e = (k', v')" by (cases e)
  have wf: "btree_wf m" using Cons.prems e by simp
  show ?case
  proof (cases "k' = k")
    case True
    then have "map_of m k = None"
      using Cons.prems e by (auto intro: btree_get_above)
    then have "btree_remove k (e # m) = m"
      using True e btree_remove_absent [of m k] by (simp add: btree_remove_def)
    then show ?thesis using True e by simp
  next
    case False
    then have "btree_remove k (e # m) = e # btree_remove k m"
      using e by (simp add: btree_remove_def)
    then show ?thesis using Cons.IH [OF wf] False e by simp
  qed
qed

lemma btree_sum_insert:
  "btree_wf m \<Longrightarrow>
   btree_sum f (btree_insert k v m) =
     btree_sum f m + f k v - (case map_of m k of None \<Rightarrow> 0 | Some v' \<Rightarrow> f k v')"
proof (induction k v m rule: btree_insert.induct)
  case (2 k v k' v' m)
  have "k < k' \<Longrightarrow> map_of m k = None"
    using "2.prems" by (intro btree_get_above) auto
  with 2 show ?case by (auto simp: algebra_simps)
qed simp

section \<open>The ordered-map contract\<close>

locale ordered_map =
  fixes inv :: "'m \<Rightarrow> bool"
    and entries :: "'m \<Rightarrow> ('k::linorder, 'v) btree"
    and insert :: "'k \<Rightarrow> 'v \<Rightarrow> 'm \<Rightarrow> 'm"
    and remove :: "'k \<Rightarrow> 'm \<Rightarrow> 'm"
  assumes wf: "inv m \<Longrightarrow> btree_wf (entries m)"
    and inv_insert: "inv m \<Longrightarrow> inv (insert k v m)"
    and inv_remove: "inv m \<Longrightarrow> inv (remove k m)"
    and entries_insert: "inv m \<Longrightarrow> entries (insert k v m) = btree_insert k v (entries m)"
    and entries_remove: "inv m \<Longrightarrow> entries (remove k m) = btree_remove k (entries m)"
begin

lemma get_insert: "inv m \<Longrightarrow> map_of (entries (insert k v m)) = (map_of (entries m))(k \<mapsto> v)"
  by (simp add: entries_insert btree_get_insert wf)

lemma get_remove: "inv m \<Longrightarrow> map_of (entries (remove k m)) = (map_of (entries m))(k := None)"
  by (simp add: entries_remove btree_get_remove)

lemma entries_eqI:
  "inv m \<Longrightarrow> inv m' \<Longrightarrow> map_of (entries m) = map_of (entries m') \<Longrightarrow> entries m = entries m'"
  by (intro btree_keys_unique wf)

text \<open>The iteration order does not remember the order of the insertions.\<close>

lemma insert_commute:
  assumes "inv m" and "k \<noteq> k'"
  shows "entries (insert k v (insert k' v' m)) = entries (insert k' v' (insert k v m))"
proof (rule entries_eqI)
  show "map_of (entries (insert k v (insert k' v' m))) = map_of (entries (insert k' v' (insert k v m)))"
    using assms by (simp add: get_insert inv_insert fun_upd_twist)
qed (use assms in \<open>simp_all add: inv_insert\<close>)

lemma remove_insert_fresh:
  assumes "inv m" and "map_of (entries m) k = None"
  shows "entries (remove k (insert k v m)) = entries m"
proof (rule entries_eqI)
  show "map_of (entries (remove k (insert k v m))) = map_of (entries m)"
    using assms by (simp add: get_insert get_remove inv_insert fun_eq_iff)
qed (use assms in \<open>simp_all add: inv_insert inv_remove\<close>)

end

interpretation bt: ordered_map btree_wf "\<lambda>m. m" btree_insert btree_remove
  by unfold_locales (simp_all add: btree_wf_insert btree_wf_remove)

end
