(* ===== verification/State_Hash.thy ===== *)
theory State_Hash
  imports Prelude
begin

text \<open>
  \<^verbatim>\<open>cellgov_mem/src/hash.rs\<close>: FNV-1a over bytes, one-shot and incremental, the SplitMix64
  finalizer, and the constant-time keys of the Multilinear-128 key stream; and
  \<^verbatim>\<open>be.rs\<close>: big-endian reads from byte slices.
\<close>

section \<open>FNV-1a\<close>

definition FNV_OFFSET :: u64 where "FNV_OFFSET = 0xcbf29ce484222325"
definition FNV_PRIME :: u64 where "FNV_PRIME = 0x00000100000001b3"

definition fnv_step :: "u64 \<Rightarrow> u8 \<Rightarrow> u64" where
  "fnv_step h b = (h XOR ucast b) * FNV_PRIME"

definition fnv1a :: "bytes \<Rightarrow> u64" where
  "fnv1a bs = foldl fnv_step FNV_OFFSET bs"

record Fnv1aHasher =
  fnv_state :: u64

definition Fnv1aHasher_new :: Fnv1aHasher where
  "Fnv1aHasher_new = \<lparr>fnv_state = FNV_OFFSET\<rparr>"

function fnv_write_loop :: "nat \<Rightarrow> bytes \<Rightarrow> u64 \<Rightarrow> u64" where
  "fnv_write_loop i bs st =
     (if i < length bs then fnv_write_loop (Suc i) bs (fnv_step st (bs ! i)) else st)"
  by pat_completeness auto
termination
  by (relation "measure (\<lambda>(i, bs, st). length bs - i)") auto

declare fnv_write_loop.simps [simp del]

definition Fnv1aHasher_write :: "Fnv1aHasher \<Rightarrow> bytes \<Rightarrow> Fnv1aHasher" where
  "Fnv1aHasher_write h bs = h\<lparr>fnv_state := fnv_write_loop 0 bs (fnv_state h)\<rparr>"

definition Fnv1aHasher_finish :: "Fnv1aHasher \<Rightarrow> u64" where
  "Fnv1aHasher_finish h = fnv_state h"

lemma fnv_write_loop_foldl: "fnv_write_loop i bs st = foldl fnv_step st (drop i bs)"
proof (induction i bs st rule: fnv_write_loop.induct)
  case (1 i bs st)
  show ?case
  proof (cases "i < length bs")
    case True
    then have "drop i bs = bs ! i # drop (Suc i) bs"
      by (simp add: Cons_nth_drop_Suc)
    with True 1 show ?thesis by (simp add: fnv_write_loop.simps [of i bs st])
  next
    case False
    then show ?thesis by (simp add: fnv_write_loop.simps [of i bs st])
  qed
qed

lemma Fnv1aHasher_write_append:
  "Fnv1aHasher_write (Fnv1aHasher_write h xs) ys = Fnv1aHasher_write h (xs @ ys)"
  by (simp add: Fnv1aHasher_write_def fnv_write_loop_foldl)

lemma Fnv1aHasher_streams:
  "Fnv1aHasher_finish (foldl Fnv1aHasher_write Fnv1aHasher_new chunks) = fnv1a (concat chunks)"
proof -
  have "foldl Fnv1aHasher_write h chunks = Fnv1aHasher_write h (concat chunks)" for h
    by (induction chunks arbitrary: h)
       (simp_all add: Fnv1aHasher_write_append Fnv1aHasher_write_def fnv_write_loop_foldl)
  then show ?thesis
    by (simp add: Fnv1aHasher_finish_def Fnv1aHasher_write_def Fnv1aHasher_new_def
                  fnv_write_loop_foldl fnv1a_def)
qed

section \<open>SplitMix64 and the indexed key stream\<close>

definition SPLITMIX64_GAMMA :: u64 where "SPLITMIX64_GAMMA = 0x9e3779b97f4a7c15"

definition splitmix64_mix :: "u64 \<Rightarrow> u64" where
  "splitmix64_mix state =
     (let z = (state XOR drop_bit 30 state) * 0xbf58476d1ce4e5b9;
          z' = (z XOR drop_bit 27 z) * 0x94d049bb133111eb
      in z' XOR drop_bit 31 z')"

definition indexed_key :: "u64 \<Rightarrow> u64 \<Rightarrow> u128" where
  "indexed_key seed k =
     (let n = k * 2;
          hi = splitmix64_mix (seed + (n + 1) * SPLITMIX64_GAMMA);
          lo = splitmix64_mix (seed + (n + 2) * SPLITMIX64_GAMMA)
      in push_bit 64 (ucast hi) OR ucast lo)"

text \<open>
  The sequential stream: the state advances by the gamma before each output, and key \<open>k\<close>
  takes two consecutive outputs. A table built by walking the stream holds the same key
  at index \<open>k\<close> as \<open>indexed_key\<close> computes directly.
\<close>

primrec splitmix_walk :: "u64 \<Rightarrow> nat \<Rightarrow> u64" where
  "splitmix_walk seed 0 = seed"
| "splitmix_walk seed (Suc n) = splitmix_walk seed n + SPLITMIX64_GAMMA"

definition stream_key :: "u64 \<Rightarrow> nat \<Rightarrow> u128" where
  "stream_key seed k =
     push_bit 64 (ucast (splitmix64_mix (splitmix_walk seed (2 * k + 1)))) OR
     ucast (splitmix64_mix (splitmix_walk seed (2 * k + 2)))"

lemma splitmix_walk_eq: "splitmix_walk seed n = seed + of_nat n * SPLITMIX64_GAMMA"
  by (induction n) (simp_all add: algebra_simps)

lemma stream_key_indexed: "stream_key seed k = indexed_key seed (of_nat k)"
  by (simp add: stream_key_def indexed_key_def splitmix_walk_eq Let_def algebra_simps)

section \<open>Big-endian reads\<close>

definition read_array :: "nat \<Rightarrow> bytes \<Rightarrow> nat \<Rightarrow> bytes" where
  "read_array n data offset =
     (case get_slice offset n data of Some src \<Rightarrow> src | None \<Rightarrow> replicate n 0)"

definition be_read_u16 :: "bytes \<Rightarrow> nat \<Rightarrow> u16" where
  "be_read_u16 data offset = from_be (read_array 2 data offset)"

definition be_read_u32 :: "bytes \<Rightarrow> nat \<Rightarrow> u32" where
  "be_read_u32 data offset = from_be (read_array 4 data offset)"

definition be_read_u64 :: "bytes \<Rightarrow> nat \<Rightarrow> u64" where
  "be_read_u64 data offset = from_be (read_array 8 data offset)"

lemma length_read_array [simp]: "length (read_array n data offset) = n"
  by (auto simp: read_array_def get_slice_def split: option.splits if_splits)

end
