(* ===== verification/Lanes.thy ===== *)
theory Lanes
  imports BTree State_Hash
begin

text \<open>
  \<^verbatim>\<open>cellgov_mem/src/lanes.rs\<close>: the Multilinear-128 lanes of the sync-state hash and the
  ordered map that keeps its partial sum while it changes. The trait \<^verbatim>\<open>LaneValue\<close> is a
  parameter of the operations: the function that adds the lanes of one value.
\<close>

section \<open>Lane indices\<close>

definition SYNC_KEY_SEED :: u64 where "SYNC_KEY_SEED = 0x73796e6373746174"
definition DIGEST_KEY_SEED :: u64 where "DIGEST_KEY_SEED = 0x73796e6364696773"

definition source_MAILBOX :: u8 where "source_MAILBOX = 1"
definition source_SIGNAL :: u8 where "source_SIGNAL = 2"
definition source_RESERVATION :: u8 where "source_RESERVATION = 3"
definition source_SYSCALL_RESPONSE :: u8 where "source_SYSCALL_RESPONSE = 4"
definition source_TIMER_WAKE :: u8 where "source_TIMER_WAKE = 5"
definition source_RSX_FLIP :: u8 where "source_RSX_FLIP = 7"
definition source_LWMUTEX :: u8 where "source_LWMUTEX = 12"
definition source_MUTEX :: u8 where "source_MUTEX = 13"
definition source_SEMAPHORE :: u8 where "source_SEMAPHORE = 14"
definition source_COND :: u8 where "source_COND = 15"
definition source_EVENT_QUEUE :: u8 where "source_EVENT_QUEUE = 16"
definition source_EVENT_PORT :: u8 where "source_EVENT_PORT = 17"
definition source_EVENT_FLAG :: u8 where "source_EVENT_FLAG = 18"
definition source_PPU_THREAD :: u8 where "source_PPU_THREAD = 25"
definition source_PPU_THREAD_UNIT :: u8 where "source_PPU_THREAD_UNIT = 26"
definition source_PPU_THREAD_IDS :: u8 where "source_PPU_THREAD_IDS = 27"
definition source_DMA_QUEUE :: u8 where "source_DMA_QUEUE = 56"
definition source_LWCOND :: u8 where "source_LWCOND = 65"
definition source_MFC_INVALID_COMMAND :: u8 where "source_MFC_INVALID_COMMAND = 61"

definition OBJECT_BITS :: nat where "OBJECT_BITS = 32"
definition FIELD_BITS :: nat where "FIELD_BITS = 8"
definition SLOT_BITS :: nat where "SLOT_BITS = 15"

definition ALL_ONES :: u64 where
  "ALL_ONES = push_bit (8 + OBJECT_BITS + FIELD_BITS + SLOT_BITS) 1 - 1"

lemmas lane_bits = OBJECT_BITS_def FIELD_BITS_def SLOT_BITS_def ALL_ONES_def

datatype LaneIndex =
  LaneIndex (li_source: u8) (li_object: u64) (li_field: u8) (li_slot: u64)

definition LaneIndex_packed :: "LaneIndex \<Rightarrow> u64 option" where
  "LaneIndex_packed i =
     (if drop_bit OBJECT_BITS (li_object i) \<noteq> 0 \<or> drop_bit SLOT_BITS (li_slot i) \<noteq> 0 then None
      else let index = push_bit (OBJECT_BITS + FIELD_BITS + SLOT_BITS) (ucast (li_source i))
                       OR push_bit (FIELD_BITS + SLOT_BITS) (li_object i)
                       OR push_bit SLOT_BITS (ucast (li_field i))
                       OR li_slot i
           in if index = ALL_ONES then None else Some index)"

section \<open>Terms\<close>

record Digest =
  dg_acc :: u128
  dg_next :: u64

definition Digest_new :: Digest where
  "Digest_new = \<lparr>dg_acc = indexed_key DIGEST_KEY_SEED 0, dg_next = 1\<rparr>"

definition Digest_push :: "Digest \<Rightarrow> u64 \<Rightarrow> Digest" where
  "Digest_push d word =
     \<lparr>dg_acc = dg_acc d + indexed_key DIGEST_KEY_SEED (dg_next d) * ucast word,
      dg_next = dg_next d + 1\<rparr>"

definition Digest_term :: "Digest \<Rightarrow> u128" where
  "Digest_term d = push_bit 64 (ucast (splitmix64_mix (ucast (drop_bit 64 (dg_acc d)))))"

definition mixer_term :: "u64 list \<Rightarrow> u128" where
  "mixer_term words =
     Digest_term (foldl Digest_push (Digest_push Digest_new (of_nat (length words))) words)"

function chunks :: "nat \<Rightarrow> 'a list \<Rightarrow> 'a list list" where
  "chunks n xs = (if n = 0 \<or> xs = [] then [] else take n xs # chunks n (drop n xs))"
  by pat_completeness auto
termination
  by (relation "measure (\<lambda>(n, xs). length xs)") auto

declare chunks.simps [simp del]

definition chunk_word :: "bytes \<Rightarrow> u64" where
  "chunk_word chunk = from_le (splice 0 chunk (replicate 8 0))"

definition bytes_term :: "u8 \<Rightarrow> u64 list \<Rightarrow> bytes \<Rightarrow> u128" where
  "bytes_term tag key bs =
     (let d = Digest_push Digest_new (ucast tag OR push_bit 8 1);
          d = Digest_push d (of_nat (length key));
          d = foldl Digest_push d key;
          d = Digest_push d (of_nat (length bs));
          d = foldl (\<lambda>d chunk. Digest_push d (chunk_word chunk)) d (chunks 8 bs)
      in Digest_term d)"

definition additive_key :: u128 where
  "additive_key = indexed_key SYNC_KEY_SEED 0"

definition contribution :: "LaneIndex \<Rightarrow> u64 \<Rightarrow> u128" where
  "contribution index val =
     (if val = 0 then 0
      else case LaneIndex_packed index of
             Some k \<Rightarrow> indexed_key SYNC_KEY_SEED (k + 1) * ucast val
           | None \<Rightarrow> mixer_term [ucast (li_source index), li_object index,
                                 ucast (li_field index), li_slot index, val])"

definition object_digest :: "bytes \<Rightarrow> u64" where
  "object_digest bs = ucast (drop_bit 64 (bytes_term 0 [] bs))"

section \<open>The lanes of one object\<close>

record ObjectLanes =
  ol_source :: u8
  ol_object :: u64
  ol_slot_base :: u64
  ol_sum :: u128

definition ObjectLanes_lane :: "u8 \<Rightarrow> u64 \<Rightarrow> u64 \<Rightarrow> ObjectLanes \<Rightarrow> ObjectLanes" where
  "ObjectLanes_lane field slot val lanes =
     lanes\<lparr>ol_sum := ol_sum lanes +
       contribution (LaneIndex (ol_source lanes) (ol_object lanes) field (ol_slot_base lanes + slot)) val\<rparr>"

definition ObjectLanes_bytes :: "u8 \<Rightarrow> u64 list \<Rightarrow> bytes \<Rightarrow> ObjectLanes \<Rightarrow> ObjectLanes" where
  "ObjectLanes_bytes field key bs lanes =
     (let words = [ol_object lanes, ucast field, ol_slot_base lanes] @ key
      in lanes\<lparr>ol_sum := ol_sum lanes + bytes_term (ol_source lanes) words bs\<rparr>)"

type_synonym 'v lane_value = "'v \<Rightarrow> ObjectLanes \<Rightarrow> ObjectLanes"

definition unit_lanes :: "unit lane_value" where
  "unit_lanes v lanes = lanes"

definition u64_lanes :: "u64 lane_value" where
  "u64_lanes v lanes = ObjectLanes_lane 1 0 v lanes"

definition u32_lanes :: "u32 lane_value" where
  "u32_lanes v lanes = ObjectLanes_lane 1 0 (ucast v) lanes"

datatype 'k ObjectOf = ObjectOf_Value "'k \<Rightarrow> u64" | ObjectOf_Ref "'k \<Rightarrow> u64"

record 'k Shape =
  sh_source :: u8
  sh_slot_base :: u64
  sh_object_of :: "'k ObjectOf"

definition Shape_term :: "'v lane_value \<Rightarrow> 'k Shape \<Rightarrow> 'k \<Rightarrow> 'v \<Rightarrow> u128" where
  "Shape_term lv sh key val =
     (let object = (case sh_object_of sh of
                      ObjectOf_Value object_of \<Rightarrow> object_of key
                    | ObjectOf_Ref object_of \<Rightarrow> object_of key);
          lanes = \<lparr>ol_source = sh_source sh, ol_object = object, ol_slot_base = sh_slot_base sh,
                   ol_sum = 0\<rparr>;
          lanes = ObjectLanes_lane 0 0 1 lanes
      in ol_sum (lv val lanes))"

definition value_term :: "'v lane_value \<Rightarrow> u8 \<Rightarrow> u64 \<Rightarrow> 'v \<Rightarrow> u128" where
  "value_term lv src object val =
     Shape_term lv \<lparr>sh_source = src, sh_slot_base = 0,
                    sh_object_of = ObjectOf_Value (\<lambda>object. object)\<rparr> object val"

section \<open>The map that keeps its partial\<close>

record ('k, 'v) LaneMap =
  lm_entries :: "('k, 'v) btree"
  lm_shape :: "'k Shape"
  lm_partial :: u128

definition LaneMap_with_object :: "u8 \<Rightarrow> 'k ObjectOf \<Rightarrow> ('k::linorder, 'v) LaneMap" where
  "LaneMap_with_object src object_of =
     \<lparr>lm_entries = [],
      lm_shape = \<lparr>sh_source = src, sh_slot_base = 0, sh_object_of = object_of\<rparr>,
      lm_partial = 0\<rparr>"

definition LaneMap_new :: "u8 \<Rightarrow> ('k \<Rightarrow> u64) \<Rightarrow> ('k::linorder, 'v) LaneMap" where
  "LaneMap_new src object_of = LaneMap_with_object src (ObjectOf_Value object_of)"

definition LaneMap_new_keyed_by_ref :: "u8 \<Rightarrow> ('k \<Rightarrow> u64) \<Rightarrow> ('k::linorder, 'v) LaneMap" where
  "LaneMap_new_keyed_by_ref src object_of = LaneMap_with_object src (ObjectOf_Ref object_of)"

definition LaneMap_partial_from_scratch :: "'v lane_value \<Rightarrow> ('k::linorder, 'v) LaneMap \<Rightarrow> u128" where
  "LaneMap_partial_from_scratch lv m =
     foldl (\<lambda>acc (key, val). acc + Shape_term lv (lm_shape m) key val) 0 (lm_entries m)"

definition LaneMap_with_slot_base ::
    "'v lane_value \<Rightarrow> u64 \<Rightarrow> ('k::linorder, 'v) LaneMap \<Rightarrow> ('k, 'v) LaneMap" where
  "LaneMap_with_slot_base lv slot_base m =
     (let m = m\<lparr>lm_shape := (lm_shape m)\<lparr>sh_slot_base := slot_base\<rparr>\<rparr>
      in m\<lparr>lm_partial := LaneMap_partial_from_scratch lv m\<rparr>)"

definition LaneMap_get :: "('k::linorder, 'v) LaneMap \<Rightarrow> 'k \<Rightarrow> 'v option" where
  "LaneMap_get m key = map_of (lm_entries m) key"

definition LaneMap_contains_key :: "('k::linorder, 'v) LaneMap \<Rightarrow> 'k \<Rightarrow> bool" where
  "LaneMap_contains_key m key = btree_contains (lm_entries m) key"

definition LaneMap_len :: "('k::linorder, 'v) LaneMap \<Rightarrow> usize" where
  "LaneMap_len m = length (lm_entries m)"

definition LaneMap_is_empty :: "('k::linorder, 'v) LaneMap \<Rightarrow> bool" where
  "LaneMap_is_empty m \<longleftrightarrow> lm_entries m = []"

definition LaneMap_first :: "('k::linorder, 'v) LaneMap \<Rightarrow> ('k \<times> 'v) option" where
  "LaneMap_first m = btree_first (lm_entries m)"

definition LaneMap_insert ::
    "'v lane_value \<Rightarrow> 'k \<Rightarrow> 'v \<Rightarrow> ('k::linorder, 'v) LaneMap \<Rightarrow> 'v option \<times> ('k, 'v) LaneMap" where
  "LaneMap_insert lv key val m =
     (let shape = lm_shape m;
          m1 = m\<lparr>lm_partial := lm_partial m + Shape_term lv shape key val\<rparr>;
          removed = map_of (lm_entries m1) key;
          m2 = m1\<lparr>lm_entries := btree_remove key (lm_entries m1)\<rparr>;
          m3 = (case removed of
                  Some old \<Rightarrow> m2\<lparr>lm_partial := lm_partial m2 - Shape_term lv shape key old\<rparr>
                | None \<Rightarrow> m2)
      in (removed, m3\<lparr>lm_entries := btree_insert key val (lm_entries m3)\<rparr>))"

definition LaneMap_remove ::
    "'v lane_value \<Rightarrow> 'k \<Rightarrow> ('k::linorder, 'v) LaneMap \<Rightarrow> 'v option \<times> ('k, 'v) LaneMap" where
  "LaneMap_remove lv key m =
     (case map_of (lm_entries m) key of
        None \<Rightarrow> (None, m)
      | Some removed \<Rightarrow>
          (Some removed,
           m\<lparr>lm_entries := btree_remove key (lm_entries m),
             lm_partial := lm_partial m - Shape_term lv (lm_shape m) key removed\<rparr>))"

definition LaneMap_pop_first ::
    "'v lane_value \<Rightarrow> ('k::linorder, 'v) LaneMap \<Rightarrow> ('k \<times> 'v) option \<times> ('k, 'v) LaneMap" where
  "LaneMap_pop_first lv m =
     (case lm_entries m of
        [] \<Rightarrow> (None, m)
      | (key, val) # rest \<Rightarrow>
          (Some (key, val),
           m\<lparr>lm_entries := rest,
             lm_partial := lm_partial m - Shape_term lv (lm_shape m) key val\<rparr>))"

definition LaneMap_clear :: "('k::linorder, 'v) LaneMap \<Rightarrow> ('k, 'v) LaneMap" where
  "LaneMap_clear m = m\<lparr>lm_entries := [], lm_partial := 0\<rparr>"

text \<open>
  \<^verbatim>\<open>get_mut\<close> returns a guard that borrows the entry; the caller changes the guard's value
  and \<^verbatim>\<open>Drop\<close> writes the term back. The borrow ends with the drop, so the pair of the map
  and the guard is the whole state in between.
\<close>

record ('k, 'v) LaneEntryMut =
  guard_key :: 'k
  guard_value :: 'v

definition LaneMap_get_mut ::
    "'v lane_value \<Rightarrow> 'k \<Rightarrow> ('k::linorder, 'v) LaneMap
      \<Rightarrow> (('k, 'v) LaneMap \<times> ('k, 'v) LaneEntryMut) option" where
  "LaneMap_get_mut lv key m =
     (case map_of (lm_entries m) key of
        None \<Rightarrow> None
      | Some val \<Rightarrow>
          Some (m\<lparr>lm_partial := lm_partial m - Shape_term lv (lm_shape m) key val\<rparr>,
                \<lparr>guard_key = key, guard_value = val\<rparr>))"

definition LaneEntryMut_drop ::
    "'v lane_value \<Rightarrow> ('k::linorder, 'v) LaneMap \<times> ('k, 'v) LaneEntryMut \<Rightarrow> ('k, 'v) LaneMap" where
  "LaneEntryMut_drop lv = (\<lambda>(m, g).
     m\<lparr>lm_entries := btree_insert (guard_key g) (guard_value g) (lm_entries m),
       lm_partial := lm_partial m + Shape_term lv (lm_shape m) (guard_key g) (guard_value g)\<rparr>)"

text \<open>A use of the guard: borrow, change the value with \<open>f\<close>, drop.\<close>

definition LaneMap_modify ::
    "'v lane_value \<Rightarrow> 'k \<Rightarrow> ('v \<Rightarrow> 'v) \<Rightarrow> ('k::linorder, 'v) LaneMap \<Rightarrow> ('k, 'v) LaneMap option" where
  "LaneMap_modify lv key f m =
     (case LaneMap_get_mut lv key m of
        None \<Rightarrow> None
      | Some (m', g) \<Rightarrow> Some (LaneEntryMut_drop lv (m', g\<lparr>guard_value := f (guard_value g)\<rparr>)))"

text \<open>
  \<^verbatim>\<open>retain\<close> visits the entries in key order. The closure is \<^verbatim>\<open>FnMut\<close>: it carries a state of
  its own, may change the value, and says whether the entry stays.
\<close>

fun retain_loop ::
    "'v lane_value \<Rightarrow> 'k Shape \<Rightarrow> ('s \<Rightarrow> 'k \<Rightarrow> 'v \<Rightarrow> bool \<times> 'v \<times> 's)
      \<Rightarrow> ('k, 'v) btree \<Rightarrow> u128 \<Rightarrow> 's \<Rightarrow> ('k, 'v) btree \<times> u128 \<times> 's" where
  "retain_loop lv sh keep [] partial s = ([], partial, s)"
| "retain_loop lv sh keep ((key, val) # es) partial s =
     (let partial = partial - Shape_term lv sh key val;
          (kept, val', s') = keep s key val;
          partial = (if kept then partial + Shape_term lv sh key val' else partial);
          (es', partial, s'') = retain_loop lv sh keep es partial s'
      in (if kept then (key, val') # es' else es', partial, s''))"

definition LaneMap_retain ::
    "'v lane_value \<Rightarrow> ('s \<Rightarrow> 'k \<Rightarrow> 'v \<Rightarrow> bool \<times> 'v \<times> 's)
      \<Rightarrow> ('k::linorder, 'v) LaneMap \<Rightarrow> 's \<Rightarrow> ('k, 'v) LaneMap \<times> 's" where
  "LaneMap_retain lv keep m s =
     (let (es, partial, s') = retain_loop lv (lm_shape m) keep (lm_entries m) (lm_partial m) s
      in (m\<lparr>lm_entries := es, lm_partial := partial\<rparr>, s'))"

definition LaneMap_for_each_mut ::
    "'v lane_value \<Rightarrow> ('s \<Rightarrow> 'k \<Rightarrow> 'v \<Rightarrow> 'v \<times> 's)
      \<Rightarrow> ('k::linorder, 'v) LaneMap \<Rightarrow> 's \<Rightarrow> ('k, 'v) LaneMap \<times> 's" where
  "LaneMap_for_each_mut lv change m s =
     LaneMap_retain lv (\<lambda>s key val. let (val', s') = change s key val in (True, val', s')) m s"

section \<open>Packing\<close>

lemma drop_bit_eq_0_bits:
  fixes w :: u64
  assumes "drop_bit n w = 0" and "n \<le> k"
  shows "\<not> bit w k"
proof
  assume "bit w k"
  then have "bit (drop_bit n w) (k - n)" using assms(2) by (simp add: bit_drop_bit_eq)
  then show False using assms(1) by simp
qed

lemma LaneIndex_packed_bits:
  assumes "LaneIndex_packed i = Some k"
  shows "ucast (drop_bit 55 k) = li_source i" "take_bit 32 (drop_bit 23 k) = li_object i"
    "ucast (drop_bit 15 k) = li_field i" "take_bit 15 k = li_slot i"
    "drop_bit 63 k = 0" "k \<noteq> ALL_ONES"
proof -
  have o: "\<not> bit (li_object i) j" if "32 \<le> j" for j
    using assms drop_bit_eq_0_bits [of 32 "li_object i" j] that
    by (auto simp: LaneIndex_packed_def lane_bits split: if_splits)
  have s: "\<not> bit (li_slot i) j" if "15 \<le> j" for j
    using assms drop_bit_eq_0_bits [of 15 "li_slot i" j] that
    by (auto simp: LaneIndex_packed_def lane_bits split: if_splits)
  have w8: "\<not> bit w j" if "8 \<le> j" for w :: u8 and j
    using that by (auto dest: bit_imp_le_length)
  have k: "k = push_bit 55 (ucast (li_source i)) OR push_bit 23 (li_object i)
                 OR push_bit 15 (ucast (li_field i)) OR li_slot i" and "k \<noteq> ALL_ONES"
    using assms by (auto simp: LaneIndex_packed_def Let_def OBJECT_BITS_def FIELD_BITS_def
                      SLOT_BITS_def split: if_splits)
  have b: "bit k j \<longleftrightarrow> j < 64 \<and> (55 \<le> j \<and> bit (li_source i) (j - 55) \<or>
             23 \<le> j \<and> bit (li_object i) (j - 23) \<or>
             15 \<le> j \<and> bit (li_field i) (j - 15) \<or> bit (li_slot i) j)" for j
    by (auto simp: k bit_or_iff bit_push_bit_iff bit_unsigned_iff dest: bit_imp_le_length)
  show "ucast (drop_bit 55 k) = li_source i"
    by (rule bit_word_eqI) (auto simp: bit_unsigned_iff bit_drop_bit_eq b o s w8)
  show "take_bit 32 (drop_bit 23 k) = li_object i"
  proof (rule bit_word_eqI)
    fix n show "bit (take_bit 32 (drop_bit 23 k)) n = bit (li_object i) n"
      by (cases "n < 32") (simp_all add: bit_take_bit_iff bit_drop_bit_eq b o s w8)
  qed
  show "ucast (drop_bit 15 k) = li_field i"
    by (rule bit_word_eqI) (auto simp: bit_unsigned_iff bit_drop_bit_eq b o s w8)
  show "take_bit 15 k = li_slot i"
  proof (rule bit_word_eqI)
    fix n show "bit (take_bit 15 k) n = bit (li_slot i) n"
      by (cases "n < 15") (auto simp: bit_take_bit_iff b o s w8)
  qed
  show "drop_bit 63 k = 0"
    by (rule bit_word_eqI) (auto simp: bit_drop_bit_eq b o s w8)
  show "k \<noteq> ALL_ONES" by fact
qed

lemma LaneIndex_packed_inj:
  assumes "LaneIndex_packed i = Some k" and "LaneIndex_packed j = Some k"
  shows "i = j"
  using LaneIndex_packed_bits [OF assms(1)] LaneIndex_packed_bits [OF assms(2)]
  by (intro LaneIndex.expand) simp

lemma LaneIndex_packed_bound:
  assumes "LaneIndex_packed i = Some k"
  shows "unat k + 1 < 2 ^ 63"
proof -
  have "unat k div 2 ^ 63 = unat (drop_bit 63 k)"
    by (simp add: drop_bit_eq_div unat_div_distrib)
  also have "\<dots> = 0" using LaneIndex_packed_bits(5) [OF assms] by simp
  finally have le: "unat k < 2 ^ 63" by (simp add: div_eq_0_iff)
  have "unat ALL_ONES = 2 ^ 63 - 1"
    by (simp add: lane_bits)
  then have "unat k \<noteq> 2 ^ 63 - 1"
    using LaneIndex_packed_bits(6) [OF assms] by (metis unat_eqI)
  with le show ?thesis by linarith
qed

section \<open>The partial is the sum over the entries\<close>

definition lm_inv :: "'v lane_value \<Rightarrow> ('k::linorder, 'v) LaneMap \<Rightarrow> bool" where
  "lm_inv lv m \<longleftrightarrow> btree_wf (lm_entries m) \<and> lm_partial m = LaneMap_partial_from_scratch lv m"

lemma LaneMap_from_scratch_sum:
  "LaneMap_partial_from_scratch lv m = btree_sum (Shape_term lv (lm_shape m)) (lm_entries m)"
  by (simp add: LaneMap_partial_from_scratch_def btree_sum_foldl)

lemma lm_inv_iff:
  "lm_inv lv m \<longleftrightarrow>
     btree_wf (lm_entries m) \<and> lm_partial m = btree_sum (Shape_term lv (lm_shape m)) (lm_entries m)"
  by (simp add: lm_inv_def LaneMap_from_scratch_sum)

lemma btree_insert_remove: "btree_wf m \<Longrightarrow> btree_insert k v (btree_remove k m) = btree_insert k v m"
  by (rule btree_keys_unique)
     (simp_all add: btree_wf_insert btree_wf_remove btree_get_insert btree_get_remove)

lemma lm_inv_new [inv_intros]: "lm_inv lv (LaneMap_new src f)"
  by (simp add: lm_inv_iff LaneMap_new_def LaneMap_with_object_def)

lemma lm_inv_new_keyed_by_ref [inv_intros]: "lm_inv lv (LaneMap_new_keyed_by_ref src f)"
  by (simp add: lm_inv_iff LaneMap_new_keyed_by_ref_def LaneMap_with_object_def)

lemma lm_inv_with_slot_base [inv_intros]:
  "btree_wf (lm_entries m) \<Longrightarrow> lm_inv lv (LaneMap_with_slot_base lv b m)"
  by (simp add: lm_inv_iff LaneMap_with_slot_base_def LaneMap_from_scratch_sum Let_def)

lemma LaneMap_insert_eq:
  assumes "lm_inv lv m"
  shows "LaneMap_insert lv k v m =
    (map_of (lm_entries m) k,
     m\<lparr>lm_entries := btree_insert k v (lm_entries m),
       lm_partial := lm_partial m + Shape_term lv (lm_shape m) k v -
         (case map_of (lm_entries m) k of None \<Rightarrow> 0 | Some old \<Rightarrow> Shape_term lv (lm_shape m) k old)\<rparr>)"
  using assms
  by (auto simp: LaneMap_insert_def Let_def lm_inv_def btree_insert_remove split: option.split)

lemma LaneMap_insert_shape [simp]: "lm_shape (snd (LaneMap_insert lv k v m)) = lm_shape m"
  by (simp add: LaneMap_insert_def Let_def split: option.split)

lemma lm_inv_insert [inv_intros]: "lm_inv lv m \<Longrightarrow> lm_inv lv (snd (LaneMap_insert lv k v m))"
  by (simp add: LaneMap_insert_eq lm_inv_iff btree_wf_insert btree_sum_insert)

lemma lm_inv_remove [inv_intros]: "lm_inv lv m \<Longrightarrow> lm_inv lv (snd (LaneMap_remove lv k m))"
  by (auto simp: LaneMap_remove_def lm_inv_iff btree_wf_remove btree_sum_remove split: option.split)

lemma lm_inv_pop_first [inv_intros]: "lm_inv lv m \<Longrightarrow> lm_inv lv (snd (LaneMap_pop_first lv m))"
  by (auto simp: LaneMap_pop_first_def lm_inv_iff split: list.split)

lemma lm_inv_clear [inv_intros]: "lm_inv lv (LaneMap_clear m)"
  by (simp add: LaneMap_clear_def lm_inv_iff)

lemma LaneMap_modify_eq:
  "LaneMap_modify lv k f m =
     (case map_of (lm_entries m) k of None \<Rightarrow> None
      | Some v \<Rightarrow> Some (m\<lparr>lm_entries := btree_insert k (f v) (lm_entries m),
                       lm_partial := lm_partial m - Shape_term lv (lm_shape m) k v
                                     + Shape_term lv (lm_shape m) k (f v)\<rparr>))"
  by (auto simp: LaneMap_modify_def LaneMap_get_mut_def LaneEntryMut_drop_def split: option.split)

lemma lm_inv_modify [inv_intros]:
  "lm_inv lv m \<Longrightarrow> LaneMap_modify lv k f m = Some m' \<Longrightarrow> lm_inv lv m'"
  by (auto simp: LaneMap_modify_eq lm_inv_iff btree_wf_insert btree_sum_insert split: option.splits)

lemma retain_loop_ConsE:
  assumes "retain_loop lv sh keep ((key, val) # es) p s = (es', p', s')"
  obtains kept v' s1 p1 es1 where
    "keep s key val = (kept, v', s1)"
    "p1 = p - Shape_term lv sh key val + (if kept then Shape_term lv sh key v' else 0)"
    "retain_loop lv sh keep es p1 s1 = (es1, p', s')"
    "es' = (if kept then (key, v') # es1 else es1)"
proof -
  obtain kept v' s1 where k: "keep s key val = (kept, v', s1)" by (cases "keep s key val")
  define p1 where "p1 = p - Shape_term lv sh key val + (if kept then Shape_term lv sh key v' else 0)"
  obtain es1 p2 s2 where l: "retain_loop lv sh keep es p1 s1 = (es1, p2, s2)"
    by (cases "retain_loop lv sh keep es p1 s1")
  have "p2 = p'" "s2 = s'" "es' = (if kept then (key, v') # es1 else es1)"
    using assms l by (auto simp: k p1_def Let_def split: if_splits)
  with k l show thesis by (intro that [OF k p1_def]) simp_all
qed

lemma retain_loop_keys:
  "retain_loop lv sh keep es p s = (es', p', s') \<Longrightarrow> fst ` set es' \<subseteq> fst ` set es"
proof (induction es arbitrary: p s es')
  case (Cons e es)
  obtain k v where e: "e = (k, v)" by (cases e)
  show ?case using Cons.prems unfolding e
  proof (elim retain_loop_ConsE)
    fix kept v' s1 p1 es1
    assume l: "retain_loop lv sh keep es p1 s1 = (es1, p', s')"
      and es': "es' = (if kept then (k, v') # es1 else es1)"
    show "fst ` set es' \<subseteq> fst ` set ((k, v) # es)"
      using Cons.IH [OF l] by (auto simp: es')
  qed
qed simp

lemma retain_loop_wf:
  "retain_loop lv sh keep es p s = (es', p', s') \<Longrightarrow> btree_wf es \<Longrightarrow> btree_wf es'"
proof (induction es arbitrary: p s es')
  case (Cons e es)
  obtain k v where e: "e = (k, v)" by (cases e)
  show ?case using Cons.prems(1) unfolding e
  proof (elim retain_loop_ConsE)
    fix kept v' s1 p1 es1
    assume l: "retain_loop lv sh keep es p1 s1 = (es1, p', s')"
      and es': "es' = (if kept then (k, v') # es1 else es1)"
    have "btree_wf es1" using Cons.IH [OF l] Cons.prems(2) e by simp
    moreover have "\<forall>k' \<in> fst ` set es1. k < k'"
      using retain_loop_keys [OF l] Cons.prems(2) e by fastforce
    ultimately show "btree_wf es'" by (simp add: es')
  qed
qed simp

lemma retain_loop_sum:
  "retain_loop lv sh keep es p s = (es', p', s') \<Longrightarrow>
   p' = p - btree_sum (Shape_term lv sh) es + btree_sum (Shape_term lv sh) es'"
proof (induction es arbitrary: p s es')
  case (Cons e es)
  obtain k v where e: "e = (k, v)" by (cases e)
  show ?case using Cons.prems unfolding e
  proof (elim retain_loop_ConsE)
    fix kept v' s1 p1 es1
    assume p1: "p1 = p - Shape_term lv sh k v + (if kept then Shape_term lv sh k v' else 0)"
      and l: "retain_loop lv sh keep es p1 s1 = (es1, p', s')"
      and es': "es' = (if kept then (k, v') # es1 else es1)"
    show "p' = p - btree_sum (Shape_term lv sh) ((k, v) # es) + btree_sum (Shape_term lv sh) es'"
      using Cons.IH [OF l] by (simp add: p1 es' algebra_simps)
  qed
qed simp

text \<open>A closure that keeps no state and changes no value filters the entries.\<close>

lemma retain_loop_filter:
  "fst (retain_loop lv sh (\<lambda>s key val. (P key val, val, s)) es p s) = filter (\<lambda>(key, val). P key val) es"
  by (induction es arbitrary: p) (auto simp: Let_def case_prod_beta)

lemma LaneMap_retain_filter:
  "lm_entries (fst (LaneMap_retain lv (\<lambda>s key val. (P key val, val, s)) m s)) =
     filter (\<lambda>(key, val). P key val) (lm_entries m)"
  using retain_loop_filter [of lv "lm_shape m" P "lm_entries m" "lm_partial m" s]
  by (simp add: LaneMap_retain_def case_prod_beta)

lemma lm_inv_retain [inv_intros]: "lm_inv lv m \<Longrightarrow> lm_inv lv (fst (LaneMap_retain lv keep m s))"
  by (auto simp: LaneMap_retain_def lm_inv_iff split: prod.split
           dest: retain_loop_wf retain_loop_sum)

lemma lm_inv_for_each_mut [inv_intros]:
  "lm_inv lv m \<Longrightarrow> lm_inv lv (fst (LaneMap_for_each_mut lv change m s))"
  by (simp add: LaneMap_for_each_mut_def lm_inv_retain)

interpretation lm: ordered_map "lm_inv lv" lm_entries
    "\<lambda>k v m. snd (LaneMap_insert lv k v m)" "\<lambda>k m. snd (LaneMap_remove lv k m)"
  for lv
proof
  fix m :: "('b, 'a) LaneMap" and k v
  assume m: "lm_inv lv m"
  then show "btree_wf (lm_entries m)" by (simp add: lm_inv_def)
  show "lm_inv lv (snd (LaneMap_insert lv k v m))" using m by (rule lm_inv_insert)
  show "lm_inv lv (snd (LaneMap_remove lv k m))" using m by (rule lm_inv_remove)
  show "lm_entries (snd (LaneMap_insert lv k v m)) = btree_insert k v (lm_entries m)"
    using m by (simp add: LaneMap_insert_eq)
  show "lm_entries (snd (LaneMap_remove lv k m)) = btree_remove k (lm_entries m)"
    by (auto simp: LaneMap_remove_def btree_remove_absent split: option.split)
qed

section \<open>Properties\<close>

text \<open>
  C3: The partial a lane map keeps is never out of date: every operation that changes
  entries (insert, remove, pop_first, clear, a change through the get_mut guard, retain
  and for_each_mut) leaves the stored partial equal to the sum recomputed from every entry,
  which is the assertion \<^verbatim>\<open>LaneMap::partial\<close> makes.
\<close>

theorem LaneMap_partial_up_to_date:
  assumes "lm_inv lv m"
  shows "lm_inv lv (snd (LaneMap_insert lv k v m)) \<and>
    lm_inv lv (snd (LaneMap_remove lv k m)) \<and>
    lm_inv lv (snd (LaneMap_pop_first lv m)) \<and>
    lm_inv lv (LaneMap_clear m) \<and>
    (\<forall>f m'. LaneMap_modify lv k f m = Some m' \<longrightarrow> lm_inv lv m') \<and>
    lm_inv lv (fst (LaneMap_retain lv keep m s)) \<and>
    lm_inv lv (fst (LaneMap_for_each_mut lv change m s'))"
  using assms by (intro conjI allI impI) (auto intro: inv_intros)

theorem LaneMap_partial_up_to_date_witness:
  "lm_inv u64_lanes (snd (LaneMap_insert u64_lanes 7 9 (LaneMap_new 5 (\<lambda>k. k))))"
  by (rule conjunct1 [OF LaneMap_partial_up_to_date]) (rule lm_inv_new)

text \<open>
  A lane map's partial does not depend on the order of the changes that built it: two
  maps of one shape that bind the same keys to the same values carry the same partial.
\<close>

theorem LaneMap_partial_history_independent:
  assumes "lm_inv lv m" and "lm_inv lv m'" and "lm_shape m = lm_shape m'"
    and "\<And>k. LaneMap_get m k = LaneMap_get m' k"
  shows "lm_partial m = lm_partial m'"
proof -
  have "lm_entries m = lm_entries m'"
    using assms by (intro lm.entries_eqI) (auto simp: LaneMap_get_def)
  then show ?thesis
    using assms by (simp add: lm_inv_iff)
qed

theorem LaneMap_partial_history_independent_witness:
  "lm_partial (snd (LaneMap_insert u64_lanes 1 10 (snd (LaneMap_insert u64_lanes 2 20 (LaneMap_new 5 (\<lambda>k. k))))))
   = lm_partial (snd (LaneMap_insert u64_lanes (2 :: u64) 20 (snd (LaneMap_insert u64_lanes 1 10 (LaneMap_new 5 (\<lambda>k. k))))))"
proof (rule LaneMap_partial_history_independent [where lv = u64_lanes])
  fix k :: u64
  show "LaneMap_get (snd (LaneMap_insert u64_lanes 1 10 (snd (LaneMap_insert u64_lanes 2 20 (LaneMap_new 5 (\<lambda>k. k)))))) k
    = LaneMap_get (snd (LaneMap_insert u64_lanes 2 20 (snd (LaneMap_insert u64_lanes 1 10 (LaneMap_new 5 (\<lambda>k. k)))))) k"
    unfolding LaneMap_get_def by (subst lm.insert_commute) (simp_all add: lm_inv_new)
qed (simp_all add: lm_inv_insert lm_inv_new)

text \<open>
  No two lanes share a key: a packed index determines its source, object, field and
  slot, and the key index \<^verbatim>\<open>index + 1\<close> lies strictly between the additive key's index 0 and
  \<open>2 ^ 63\<close>, where the key stream repeats.
\<close>

theorem LaneIndex_keys_distinct:
  assumes "LaneIndex_packed i = Some k"
  shows "(LaneIndex_packed j = Some k \<longleftrightarrow> j = i) \<and> 0 < unat (k + 1) \<and> unat (k + 1) < 2 ^ 63"
proof -
  have "LaneIndex_packed j = Some k \<longleftrightarrow> j = i"
    using assms LaneIndex_packed_inj by auto
  moreover have "unat (k + 1) = unat k + 1"
    using LaneIndex_packed_bound [OF assms] unat_plus_no_wrap [of k 1] by simp
  ultimately show ?thesis
    using LaneIndex_packed_bound [OF assms] by simp
qed

theorem LaneIndex_keys_distinct_witness:
  "LaneIndex_packed (LaneIndex 1 2 3 4) = Some 0x80000001018004 \<and>
   (\<forall>j. LaneIndex_packed j = Some 0x80000001018004 \<longleftrightarrow> j = LaneIndex 1 2 3 4)"
proof -
  have e: "LaneIndex_packed (LaneIndex 1 2 3 4) = Some 0x80000001018004"
    by (simp add: LaneIndex_packed_def lane_bits)
  with LaneIndex_keys_distinct [OF e] show ?thesis by blast
qed

end
