(* ===== verification/Registry.thy ===== *)
theory Registry
  imports Lanes
begin

text \<open>
  \<^verbatim>\<open>cellgov_sync/src/registry.rs\<close>: the id-keyed registry under the mailbox and signal
  registries. Ids are the raw \<^verbatim>\<open>u64\<close> values the \<^verbatim>\<open>RegistryId\<close> newtypes wrap. An exhausted id
  space panics, which is \<^const>\<open>None\<close>.
\<close>

section \<open>Operations\<close>

record 'v Registry =
  reg_next_id :: u64
  reg_values :: "(u64, 'v) LaneMap"

definition Registry_new :: "u8 \<Rightarrow> 'v Registry" where
  "Registry_new src = \<lparr>reg_next_id = 0, reg_values = LaneMap_new src (\<lambda>raw. raw)\<rparr>"

definition Registry_len :: "'v Registry \<Rightarrow> usize" where
  "Registry_len r = LaneMap_len (reg_values r)"

definition Registry_is_empty :: "'v Registry \<Rightarrow> bool" where
  "Registry_is_empty r = LaneMap_is_empty (reg_values r)"

definition Registry_register :: "'v lane_value \<Rightarrow> 'v \<Rightarrow> 'v Registry \<Rightarrow> (u64 \<times> 'v Registry) option" where
  "Registry_register lv val r =
     (let rid = reg_next_id r
      in case checked_add (reg_next_id r) 1 of
           None \<Rightarrow> None
         | Some n \<Rightarrow> Some (rid, r\<lparr>reg_next_id := n,
                                reg_values := snd (LaneMap_insert lv rid val (reg_values r))\<rparr>))"

definition Registry_register_at ::
    "'v lane_value \<Rightarrow> u64 \<Rightarrow> 'v \<Rightarrow> 'v Registry \<Rightarrow> (bool \<times> 'v Registry) option" where
  "Registry_register_at lv rid val r =
     (case (if rid \<ge> reg_next_id r then checked_add rid 1 else Some (reg_next_id r)) of
        None \<Rightarrow> None
      | Some n \<Rightarrow>
          let r1 = r\<lparr>reg_next_id := n\<rparr>
          in if LaneMap_contains_key (reg_values r1) rid then Some (False, r1)
             else Some (True, r1\<lparr>reg_values := snd (LaneMap_insert lv rid val (reg_values r1))\<rparr>))"

definition Registry_get :: "'v Registry \<Rightarrow> u64 \<Rightarrow> 'v option" where
  "Registry_get r rid = LaneMap_get (reg_values r) rid"

text \<open>
  \<^verbatim>\<open>get_mut\<close> lends the lane map's guard; \<open>f\<close> is what the caller does with it, and its
  second component what the caller computes.
\<close>

definition Registry_get_mut ::
    "'v lane_value \<Rightarrow> u64 \<Rightarrow> ('v \<Rightarrow> 'a \<times> 'v) \<Rightarrow> 'v Registry \<Rightarrow> ('a \<times> 'v Registry) option" where
  "Registry_get_mut lv rid f r =
     (case LaneMap_get_mut lv rid (reg_values r) of
        None \<Rightarrow> None
      | Some (m, g) \<Rightarrow>
          let (a, v) = f (guard_value g)
          in Some (a, r\<lparr>reg_values := LaneEntryMut_drop lv (m, g\<lparr>guard_value := v\<rparr>)\<rparr>))"

definition Registry_iter :: "'v Registry \<Rightarrow> (u64 \<times> 'v) list" where
  "Registry_iter r = lm_entries (reg_values r)"

definition Registry_sync_partial :: "'v Registry \<Rightarrow> u128" where
  "Registry_sync_partial r = lm_partial (reg_values r)"

definition Registry_sync_partial_from_scratch :: "'v lane_value \<Rightarrow> 'v Registry \<Rightarrow> u128" where
  "Registry_sync_partial_from_scratch lv r = LaneMap_partial_from_scratch lv (reg_values r)"

section \<open>Invariant\<close>

text \<open>The documented field invariant: the counter is strictly above every registered id.\<close>

definition reg_inv :: "'v lane_value \<Rightarrow> 'v Registry \<Rightarrow> bool" where
  "reg_inv lv r \<longleftrightarrow> lm_inv lv (reg_values r) \<and> (\<forall>(rid, _) \<in> set (lm_entries (reg_values r)). rid < reg_next_id r)"

lemma reg_inv_get: "reg_inv lv r \<Longrightarrow> Registry_get r rid = Some v \<Longrightarrow> rid < reg_next_id r"
  by (auto simp: reg_inv_def Registry_get_def LaneMap_get_def dest!: map_of_SomeD)

lemma reg_invI:
  assumes "lm_inv lv (reg_values r)" and "\<And>rid v. Registry_get r rid = Some v \<Longrightarrow> rid < reg_next_id r"
  shows "reg_inv lv r"
proof -
  have "btree_wf (lm_entries (reg_values r))" using assms(1) by (simp add: lm_inv_def)
  then show ?thesis
    using assms by (auto simp: reg_inv_def Registry_get_def LaneMap_get_def btree_mem_iff)
qed

lemma reg_inv_new [inv_intros]: "reg_inv lv (Registry_new src)"
  by (simp add: reg_inv_def Registry_new_def lm_inv_new)
     (simp add: LaneMap_new_def LaneMap_with_object_def)

lemma word_less_succ: "checked_add n 1 = Some n' \<Longrightarrow> n < (n' :: u64)"
  using unat_plus_no_wrap [of n 1] by (auto simp: checked_add_Some_iff word_less_nat_alt)

lemma Registry_get_insert:
  "lm_inv lv (reg_values r) \<Longrightarrow>
   Registry_get (r\<lparr>reg_next_id := n, reg_values := snd (LaneMap_insert lv rid v (reg_values r))\<rparr>) =
     (Registry_get r)(rid \<mapsto> v)"
  by (simp add: Registry_get_def LaneMap_get_def fun_eq_iff lm.get_insert)

lemma Registry_register_effect:
  assumes "reg_inv lv r" and "Registry_register lv v r = Some (rid, r')"
  shows "reg_inv lv r'" and "Registry_get r rid = None"
    and "Registry_get r' = (Registry_get r)(rid \<mapsto> v)"
proof -
  obtain n where n: "checked_add (reg_next_id r) 1 = Some n" and rid: "rid = reg_next_id r"
    and r': "r' = r\<lparr>reg_next_id := n, reg_values := snd (LaneMap_insert lv rid v (reg_values r))\<rparr>"
    using assms(2) by (auto simp: Registry_register_def Let_def split: option.splits)
  have inv: "lm_inv lv (reg_values r)" using assms(1) by (simp add: reg_inv_def)
  show get': "Registry_get r' = (Registry_get r)(rid \<mapsto> v)"
    using Registry_get_insert [OF inv] by (simp add: r')
  show "Registry_get r rid = None"
    using reg_inv_get [OF assms(1), of rid] rid by fastforce
  show "reg_inv lv r'"
  proof (rule reg_invI)
    show "lm_inv lv (reg_values r')" using inv by (simp add: r' lm_inv_insert)
    fix i w assume "Registry_get r' i = Some w"
    then have "i = rid \<or> Registry_get r i = Some w" by (auto simp: get' split: if_splits)
    then have "i \<le> reg_next_id r"
      using reg_inv_get [OF assms(1), of i w] rid by auto
    then show "i < reg_next_id r'"
      using word_less_succ [OF n] by (simp add: r')
  qed
qed

lemma Registry_register_at_effect:
  assumes "reg_inv lv r" and "Registry_register_at lv rid v r = Some (fresh, r')"
  shows "reg_inv lv r'" and "fresh \<longleftrightarrow> Registry_get r rid = None"
    and "Registry_get r' = (if fresh then (Registry_get r)(rid \<mapsto> v) else Registry_get r)"
proof -
  obtain n where n: "(if rid \<ge> reg_next_id r then checked_add rid 1 else Some (reg_next_id r)) = Some n"
    and r: "(if LaneMap_contains_key (reg_values r) rid then Some (False, r\<lparr>reg_next_id := n\<rparr>)
       else Some (True, r\<lparr>reg_next_id := n, reg_values := snd (LaneMap_insert lv rid v (reg_values r))\<rparr>))
       = Some (fresh, r')"
    using assms(2) unfolding Registry_register_at_def Let_def
    by (cases "if rid \<ge> reg_next_id r then checked_add rid 1 else Some (reg_next_id r)")
       (simp_all split: if_split_asm)
  have le: "reg_next_id r \<le> n" "rid < n"
    using n word_less_succ [of rid n] by (auto split: if_splits)
  have inv: "lm_inv lv (reg_values r)" using assms(1) by (simp add: reg_inv_def)
  show fr: "fresh \<longleftrightarrow> Registry_get r rid = None"
    using r by (auto simp: Registry_get_def LaneMap_get_def LaneMap_contains_key_def
                  btree_contains_def split: if_splits)
  show get': "Registry_get r' = (if fresh then (Registry_get r)(rid \<mapsto> v) else Registry_get r)"
    using r Registry_get_insert [OF inv]
    by (auto split: if_splits simp: Registry_get_def fun_eq_iff)
  have lmi: "lm_inv lv (reg_values r')" and nx: "reg_next_id r' = n"
    using r inv by (auto simp: lm_inv_insert split: if_splits)
  show "reg_inv lv r'"
  proof (rule reg_invI [OF lmi])
    fix i w assume "Registry_get r' i = Some w"
    then have "i = rid \<or> Registry_get r i = Some w" by (auto simp: get' split: if_splits)
    then show "i < reg_next_id r'"
      using reg_inv_get [OF assms(1), of i w] le nx by auto
  qed
qed

lemma Registry_get_mut_effect:
  assumes "reg_inv lv r" and "Registry_get_mut lv rid f r = Some (a, r')"
  shows "\<exists>v. Registry_get r rid = Some v \<and> a = fst (f v) \<and>
    Registry_get r' = (Registry_get r)(rid \<mapsto> snd (f v)) \<and> reg_next_id r' = reg_next_id r"
    and "reg_inv lv r'"
proof -
  obtain v where v: "map_of (lm_entries (reg_values r)) rid = Some v"
    using assms(2) by (auto simp: Registry_get_mut_def LaneMap_get_mut_def split: option.splits)
  have modify: "LaneMap_modify lv rid (\<lambda>v. snd (f v)) (reg_values r) = Some (reg_values r')"
    and nx: "reg_next_id r' = reg_next_id r" and a: "a = fst (f v)"
    using assms(2) v
    by (auto simp: Registry_get_mut_def LaneMap_get_mut_def LaneMap_modify_def Let_def
             split: prod.splits)
  have m: "lm_inv lv (reg_values r')"
    using assms(1) lm_inv_modify [OF _ modify] by (simp add: reg_inv_def)
  have e: "lm_entries (reg_values r') = btree_insert rid (snd (f v)) (lm_entries (reg_values r))"
    using arg_cong [OF modify, of "\<lambda>x. lm_entries (the x)"] v by (simp add: LaneMap_modify_eq)
  have get': "Registry_get r' = (Registry_get r)(rid \<mapsto> snd (f v))"
    using assms(1) by (simp add: Registry_get_def LaneMap_get_def fun_eq_iff e btree_get_insert
        reg_inv_def lm_inv_def)
  then show "\<exists>v. Registry_get r rid = Some v \<and> a = fst (f v) \<and>
    Registry_get r' = (Registry_get r)(rid \<mapsto> snd (f v)) \<and> reg_next_id r' = reg_next_id r"
    using v a nx by (auto simp: Registry_get_def LaneMap_get_def)
  show "reg_inv lv r'"
  proof (rule reg_invI [OF m])
    fix i w assume "Registry_get r' i = Some w"
    then have "\<exists>w. Registry_get r i = Some w"
      using v by (auto simp: get' Registry_get_def LaneMap_get_def split: if_splits)
    then show "i < reg_next_id r'"
      using reg_inv_get [OF assms(1)] nx by auto
  qed
qed

section \<open>Properties\<close>

text \<open>
  Registering a value always gives it an id that no live value has, binds exactly that
  id to the value, and keeps the counter above every registered id and the partial up to
  date; the id space is exhausted exactly when the counter is the largest \<^verbatim>\<open>u64\<close>.
\<close>

theorem Registry_register_fresh:
  assumes "reg_inv lv r"
  shows "case Registry_register lv v r of
      Some (rid, r') \<Rightarrow> reg_inv lv r' \<and> Registry_get r rid = None \<and>
        Registry_get r' = (Registry_get r)(rid \<mapsto> v)
    | None \<Rightarrow> reg_next_id r = u64_MAX"
proof (cases "Registry_register lv v r")
  case None
  then have "2 ^ 64 \<le> unat (reg_next_id r) + 1"
    by (auto simp: Registry_register_def Let_def checked_add_None_iff split: option.splits)
  then have "unat (reg_next_id r) = unat u64_MAX"
    using unat_lt_2p [of "reg_next_id r"] by simp
  then have "reg_next_id r = u64_MAX" by (rule unat_eqI)
  with None show ?thesis by simp
next
  case (Some p)
  then show ?thesis
    using Registry_register_effect [OF assms] by (cases p) simp
qed

theorem Registry_register_fresh_witness:
  "case Registry_register u64_lanes 7 (Registry_new source_MAILBOX) of
      Some (rid, r') \<Rightarrow> reg_inv u64_lanes r' \<and> Registry_get (Registry_new source_MAILBOX :: u64 Registry) rid = None \<and>
        Registry_get r' = (Registry_get (Registry_new source_MAILBOX))(rid \<mapsto> 7)
    | None \<Rightarrow> reg_next_id (Registry_new source_MAILBOX :: u64 Registry) = u64_MAX"
  by (rule Registry_register_fresh) (rule reg_inv_new)

end
