(* ===== verification/Mailbox.thy ===== *)
theory Mailbox
  imports Registry
begin

text \<open>
  \<^verbatim>\<open>cellgov_sync/src/mailbox.rs\<close> and \<^verbatim>\<open>mailbox_registry.rs\<close>: the bounded FIFO of message words
  and the registry of mailboxes. The locale \<open>bounded_fifo\<close> is the queue contract the commit
  pipeline and the SPU channels rely on.
\<close>

section \<open>The bounded FIFO\<close>

datatype MailboxId = MailboxId (MailboxId_raw: u64)

record Mailbox =
  mb_queue :: "u32 list"
  mb_capacity :: usize

definition Mailbox_with_capacity :: "usize \<Rightarrow> Mailbox" where
  "Mailbox_with_capacity cap = \<lparr>mb_queue = [], mb_capacity = cap\<rparr>"

definition Mailbox_try_send :: "u32 \<Rightarrow> Mailbox \<Rightarrow> bool \<times> Mailbox" where
  "Mailbox_try_send message m =
     (if length (mb_queue m) \<ge> mb_capacity m then (False, m)
      else (True, m\<lparr>mb_queue := mb_queue m @ [message]\<rparr>))"

definition Mailbox_force_send :: "u32 \<Rightarrow> Mailbox \<Rightarrow> Mailbox" where
  "Mailbox_force_send message m =
     (let m1 = (if length (mb_queue m) \<ge> mb_capacity m then m\<lparr>mb_queue := butlast (mb_queue m)\<rparr> else m)
      in m1\<lparr>mb_queue := mb_queue m1 @ [message]\<rparr>)"

definition Mailbox_try_receive :: "Mailbox \<Rightarrow> u32 option \<times> Mailbox" where
  "Mailbox_try_receive m =
     (case mb_queue m of [] \<Rightarrow> (None, m) | w # ws \<Rightarrow> (Some w, m\<lparr>mb_queue := ws\<rparr>))"

definition Mailbox_return_front :: "u32 \<Rightarrow> Mailbox \<Rightarrow> bool \<times> Mailbox" where
  "Mailbox_return_front message m =
     (if length (mb_queue m) \<ge> mb_capacity m then (False, m)
      else (True, m\<lparr>mb_queue := message # mb_queue m\<rparr>))"

definition Mailbox_peek :: "Mailbox \<Rightarrow> u32 option" where
  "Mailbox_peek m = (case mb_queue m of [] \<Rightarrow> None | w # _ \<Rightarrow> Some w)"

definition Mailbox_len :: "Mailbox \<Rightarrow> usize" where
  "Mailbox_len m = length (mb_queue m)"

definition Mailbox_is_empty :: "Mailbox \<Rightarrow> bool" where
  "Mailbox_is_empty m \<longleftrightarrow> mb_queue m = []"

definition Mailbox_is_full :: "Mailbox \<Rightarrow> bool" where
  "Mailbox_is_full m \<longleftrightarrow> length (mb_queue m) \<ge> mb_capacity m"

text \<open>The subtraction is on \<^verbatim>\<open>usize\<close> and wraps when the queue is longer than its capacity.\<close>

definition Mailbox_remaining_capacity :: "Mailbox \<Rightarrow> usize" where
  "Mailbox_remaining_capacity m = nat ((int (mb_capacity m) - int (length (mb_queue m))) mod 2 ^ 64)"

definition Mailbox_lanes :: "Mailbox lane_value" where
  "Mailbox_lanes m lanes =
     foldl (\<lambda>lanes (slot, word). ObjectLanes_lane 2 (of_nat slot) (ucast word) lanes)
       (ObjectLanes_lane 1 0 (of_nat (Mailbox_len m)) lanes)
       (enumerate 0 (mb_queue m))"

definition mb_inv :: "Mailbox \<Rightarrow> bool" where
  "mb_inv m \<longleftrightarrow> 0 < mb_capacity m \<and> length (mb_queue m) \<le> mb_capacity m"

text \<open>A run of sends and a run of receives against any queue.\<close>

primrec send_all :: "('a \<Rightarrow> 'q \<Rightarrow> bool \<times> 'q) \<Rightarrow> 'a list \<Rightarrow> 'q \<Rightarrow> bool list \<times> 'q" where
  "send_all send [] q = ([], q)"
| "send_all send (x # xs) q =
     (let (ok, q') = send x q; (oks, q'') = send_all send xs q' in (ok # oks, q''))"

primrec receive_all :: "('q \<Rightarrow> 'a option \<times> 'q) \<Rightarrow> nat \<Rightarrow> 'q \<Rightarrow> 'a option list \<times> 'q" where
  "receive_all receive 0 q = ([], q)"
| "receive_all receive (Suc n) q =
     (let (a, q') = receive q; (as, q'') = receive_all receive n q' in (a # as, q''))"

locale bounded_fifo =
  fixes inv :: "'q \<Rightarrow> bool" and capacity :: "'q \<Rightarrow> nat" and contents :: "'q \<Rightarrow> 'a list"
    and send :: "'a \<Rightarrow> 'q \<Rightarrow> bool \<times> 'q" and receive :: "'q \<Rightarrow> 'a option \<times> 'q"
  assumes bounded: "inv q \<Longrightarrow> length (contents q) \<le> capacity q"
    and send_full: "capacity q \<le> length (contents q) \<Longrightarrow> send x q = (False, q)"
    and send_room: "length (contents q) < capacity q \<Longrightarrow>
      fst (send x q) \<and> contents (snd (send x q)) = contents q @ [x] \<and>
      capacity (snd (send x q)) = capacity q"
    and receive_empty: "contents q = [] \<Longrightarrow> receive q = (None, q)"
    and receive_front: "contents q = x # xs \<Longrightarrow>
      fst (receive q) = Some x \<and> contents (snd (receive q)) = xs \<and>
      capacity (snd (receive q)) = capacity q"
    and inv_send: "inv q \<Longrightarrow> inv (snd (send x q))"
    and inv_receive: "inv q \<Longrightarrow> inv (snd (receive q))"
begin

lemma send_all_contents:
  "inv q \<Longrightarrow>
   contents (snd (send_all send xs q)) = contents q @ take (capacity q - length (contents q)) xs \<and>
   inv (snd (send_all send xs q))"
proof (induction xs arbitrary: q)
  case (Cons x xs)
  show ?case
  proof (cases "length (contents q) < capacity q")
    case True
    then have "capacity q - length (contents q) = Suc (capacity q - Suc (length (contents q)))" by simp
    with True Cons.IH [OF inv_send [OF Cons.prems, of x]] send_room [OF True, of x] show ?thesis
      by (simp add: Let_def case_prod_beta)
  next
    case False
    then show ?thesis
      using Cons.IH [OF Cons.prems] send_full [of q x] by (simp add: Let_def case_prod_beta)
  qed
qed simp

lemma receive_all_contents:
  "contents q = xs \<Longrightarrow> fst (receive_all receive (length xs) q) = map Some xs"
proof (induction xs arbitrary: q)
  case (Cons x xs)
  with receive_front [of q x xs] show ?case by (simp add: Let_def case_prod_beta)
qed simp

end

lemma mb_inv_with_capacity [inv_intros]: "0 < n \<Longrightarrow> mb_inv (Mailbox_with_capacity n)"
  by (simp add: mb_inv_def Mailbox_with_capacity_def)

lemma mb_inv_force_send [inv_intros]: "mb_inv m \<Longrightarrow> mb_inv (Mailbox_force_send w m)"
  by (auto simp: mb_inv_def Mailbox_force_send_def Let_def)

lemma mb_inv_return_front [inv_intros]: "mb_inv m \<Longrightarrow> mb_inv (snd (Mailbox_return_front w m))"
  by (auto simp: mb_inv_def Mailbox_return_front_def)

interpretation mbq: bounded_fifo mb_inv mb_capacity mb_queue Mailbox_try_send Mailbox_try_receive
  by unfold_locales
     (auto simp: mb_inv_def Mailbox_try_send_def Mailbox_try_receive_def split: list.split)

lemma Mailbox_remaining_capacity_inv:
  "mb_inv m \<Longrightarrow> mb_capacity m < 2 ^ 64 \<Longrightarrow>
   Mailbox_remaining_capacity m = mb_capacity m - length (mb_queue m)"
  by (auto simp: Mailbox_remaining_capacity_def mb_inv_def nat_diff_distrib)

section \<open>The mailbox registry\<close>

type_synonym MailboxRegistry = "Mailbox Registry"

definition MailboxRegistry_new :: MailboxRegistry where
  "MailboxRegistry_new = Registry_new source_MAILBOX"

definition MailboxRegistry_register :: "usize \<Rightarrow> MailboxRegistry \<Rightarrow> (MailboxId \<times> MailboxRegistry) option" where
  "MailboxRegistry_register cap r =
     map_option (\<lambda>(raw, r'). (MailboxId raw, r')) (Registry_register Mailbox_lanes (Mailbox_with_capacity cap) r)"

definition MailboxRegistry_register_at ::
    "MailboxId \<Rightarrow> usize \<Rightarrow> MailboxRegistry \<Rightarrow> (bool \<times> MailboxRegistry) option" where
  "MailboxRegistry_register_at mid cap r =
     Registry_register_at Mailbox_lanes (MailboxId_raw mid) (Mailbox_with_capacity cap) r"

definition MailboxRegistry_get :: "MailboxRegistry \<Rightarrow> MailboxId \<Rightarrow> Mailbox option" where
  "MailboxRegistry_get r mid = Registry_get r (MailboxId_raw mid)"

definition MailboxRegistry_get_mut ::
    "MailboxId \<Rightarrow> (Mailbox \<Rightarrow> 'a \<times> Mailbox) \<Rightarrow> MailboxRegistry \<Rightarrow> ('a \<times> MailboxRegistry) option" where
  "MailboxRegistry_get_mut mid f r = Registry_get_mut Mailbox_lanes (MailboxId_raw mid) f r"

definition mailboxes_inv :: "MailboxRegistry \<Rightarrow> bool" where
  "mailboxes_inv r \<longleftrightarrow> reg_inv Mailbox_lanes r \<and> (\<forall>mid m. MailboxRegistry_get r mid = Some m \<longrightarrow> mb_inv m)"

lemma mailboxes_inv_get_mut:
  assumes "mailboxes_inv r" and "MailboxRegistry_get_mut mid f r = Some (a, r')"
    and "\<And>m. mb_inv m \<Longrightarrow> mb_inv (snd (f m))"
  shows "mailboxes_inv r'"
proof -
  have r: "reg_inv Mailbox_lanes r" using assms(1) by (simp add: mailboxes_inv_def)
  have g: "Registry_get_mut Mailbox_lanes (MailboxId_raw mid) f r = Some (a, r')"
    using assms(2) by (simp add: MailboxRegistry_get_mut_def)
  obtain v where v: "Registry_get r (MailboxId_raw mid) = Some v"
    and get': "Registry_get r' = (Registry_get r)(MailboxId_raw mid \<mapsto> snd (f v))"
    using Registry_get_mut_effect(1) [OF r g] by blast
  have "mb_inv (snd (f v))"
    using assms(1,3) v by (auto simp: mailboxes_inv_def MailboxRegistry_get_def)
  then show ?thesis
    using Registry_get_mut_effect(2) [OF r g] assms(1)
    by (auto simp: mailboxes_inv_def MailboxRegistry_get_def get')
qed

section \<open>Properties\<close>

text \<open>
  A mailbox is a first-in first-out queue bounded by its capacity: from any well-formed
  mailbox, a run of sends accepts exactly the messages that fit, in order, and receiving as
  many messages as are then queued returns the old contents followed by the accepted ones.
\<close>

theorem Mailbox_fifo:
  assumes "mb_inv m" and "send_all Mailbox_try_send ws m = (oks, m')"
  shows "mb_inv m' \<and>
    mb_queue m' = mb_queue m @ take (mb_capacity m - length (mb_queue m)) ws \<and>
    fst (receive_all Mailbox_try_receive (length (mb_queue m')) m') = map Some (mb_queue m')"
  using mbq.send_all_contents [OF assms(1), of ws] mbq.receive_all_contents [of m' "mb_queue m'"] assms(2) by simp

theorem Mailbox_fifo_witness:
  "mb_queue (snd (send_all Mailbox_try_send [1, 2, 3] (Mailbox_with_capacity 2))) = [1, 2]"
  using Mailbox_fifo [of "Mailbox_with_capacity 2" "[1, 2, 3]"
      "fst (send_all Mailbox_try_send [1, 2, 3] (Mailbox_with_capacity 2))"
      "snd (send_all Mailbox_try_send [1, 2, 3] (Mailbox_with_capacity 2))"]
  by (simp add: mb_inv_with_capacity Mailbox_with_capacity_def mb_inv_def)

end
