(* ===== verification/Signal.thy ===== *)
theory Signal
  imports Registry
begin

text \<open>
  \<^verbatim>\<open>cellgov_sync/src/signal.rs\<close> and \<^verbatim>\<open>signal_registry.rs\<close>: the 32-bit signal-notification
  register in OR mode and the registry of registers.
\<close>

section \<open>The register\<close>

datatype SignalId = SignalId (SignalId_raw: u64)

record SignalRegister =
  sig_value :: u32

definition SignalRegister_new :: SignalRegister where
  "SignalRegister_new = \<lparr>sig_value = 0\<rparr>"

definition SignalRegister_with_value :: "u32 \<Rightarrow> SignalRegister" where
  "SignalRegister_with_value v = \<lparr>sig_value = v\<rparr>"

definition SignalRegister_or_in :: "u32 \<Rightarrow> SignalRegister \<Rightarrow> u32 \<times> SignalRegister" where
  "SignalRegister_or_in bits s =
     (let s' = s\<lparr>sig_value := sig_value s OR bits\<rparr> in (sig_value s', s'))"

definition SignalRegister_clear :: "SignalRegister \<Rightarrow> SignalRegister" where
  "SignalRegister_clear s = s\<lparr>sig_value := 0\<rparr>"

definition SignalRegister_lanes :: "SignalRegister lane_value" where
  "SignalRegister_lanes s lanes = ObjectLanes_lane 1 0 (ucast (sig_value s)) lanes"

lemma sig_value_or_in [simp]:
  "sig_value (snd (SignalRegister_or_in b s)) = sig_value s OR b"
  "fst (SignalRegister_or_in b s) = sig_value s OR b"
  by (simp_all add: SignalRegister_or_in_def Let_def)

lemma bit_fold_or_in:
  "bit (sig_value (foldl (\<lambda>s b. snd (SignalRegister_or_in b s)) s bs)) n \<longleftrightarrow>
     bit (sig_value s) n \<or> (\<exists>b \<in> set bs. bit b n)"
  by (induction bs arbitrary: s) (auto simp: bit_or_iff)

section \<open>The registry\<close>

type_synonym SignalRegistry = "SignalRegister Registry"

definition SignalRegistry_new :: SignalRegistry where
  "SignalRegistry_new = Registry_new source_SIGNAL"

definition SignalRegistry_register :: "SignalRegistry \<Rightarrow> (SignalId \<times> SignalRegistry) option" where
  "SignalRegistry_register r =
     map_option (\<lambda>(raw, r'). (SignalId raw, r')) (Registry_register SignalRegister_lanes SignalRegister_new r)"

definition SignalRegistry_get :: "SignalRegistry \<Rightarrow> SignalId \<Rightarrow> SignalRegister option" where
  "SignalRegistry_get r sid = Registry_get r (SignalId_raw sid)"

definition SignalRegistry_get_mut ::
    "SignalId \<Rightarrow> (SignalRegister \<Rightarrow> 'a \<times> SignalRegister) \<Rightarrow> SignalRegistry \<Rightarrow> ('a \<times> SignalRegistry) option" where
  "SignalRegistry_get_mut sid f r = Registry_get_mut SignalRegister_lanes (SignalId_raw sid) f r"

section \<open>Properties\<close>

text \<open>
  Signals merge: whatever producers write and in whatever order, with whatever
  repetitions, the register holds a bit exactly when it held it before or some write had
  it set, so two runs with the same set of written values leave the same register.
\<close>

theorem SignalRegister_merge:
  assumes "set bs = set bs'"
  shows "foldl (\<lambda>s b. snd (SignalRegister_or_in b s)) s bs =
         foldl (\<lambda>s b. snd (SignalRegister_or_in b s)) s bs' \<and>
         (\<forall>n. bit (sig_value (foldl (\<lambda>s b. snd (SignalRegister_or_in b s)) s bs)) n \<longleftrightarrow>
              bit (sig_value s) n \<or> (\<exists>b \<in> set bs. bit b n))"
proof -
  have "sig_value (foldl (\<lambda>s b. snd (SignalRegister_or_in b s)) s bs) =
        sig_value (foldl (\<lambda>s b. snd (SignalRegister_or_in b s)) s bs')"
    by (rule bit_eqI) (simp add: bit_fold_or_in assms)
  then show ?thesis by (simp add: bit_fold_or_in assms)
qed

theorem SignalRegister_merge_witness:
  "foldl (\<lambda>s b. snd (SignalRegister_or_in b s)) SignalRegister_new [1, 4, 1] =
   foldl (\<lambda>s b. snd (SignalRegister_or_in b s)) SignalRegister_new [4, 1]"
  using SignalRegister_merge [of "[1, 4, 1]" "[4, 1]" SignalRegister_new] by auto

end
