(* ===== verification/Reservation.thy ===== *)
theory Reservation
  imports Lanes Events
begin

text \<open>
  \<^verbatim>\<open>cellgov_sync/src/reservation.rs\<close>: the atomic-reservation table shared by the PPU and SPU
  atomics. Entries are 128-byte lines keyed by unit.
\<close>

section \<open>Reserved lines\<close>

definition RESERVATION_LINE_BYTES :: u64 where "RESERVATION_LINE_BYTES = 128"

datatype ReservedLine = ReservedLine (rl_addr: u64)

definition ReservedLine_containing :: "u64 \<Rightarrow> ReservedLine" where
  "ReservedLine_containing byte_addr = ReservedLine (byte_addr AND NOT (RESERVATION_LINE_BYTES - 1))"

definition ReservedLine_end_inclusive :: "ReservedLine \<Rightarrow> u64" where
  "ReservedLine_end_inclusive l = saturating_add (rl_addr l) (RESERVATION_LINE_BYTES - 1)"

definition ReservedLine_overlaps_range :: "ReservedLine \<Rightarrow> u64 \<Rightarrow> u64 \<Rightarrow> bool" where
  "ReservedLine_overlaps_range l start len =
     (if len = 0 then False
      else let write_end = saturating_add start (len - 1);
               line_end = ReservedLine_end_inclusive l
           in start \<le> line_end \<and> rl_addr l \<le> write_end)"

definition ReservedLine_lanes :: "ReservedLine lane_value" where
  "ReservedLine_lanes l lanes = ObjectLanes_lane 1 0 (rl_addr l) lanes"

section \<open>The table\<close>

record ReservationTable =
  rt_entries :: "(UnitId, ReservedLine) LaneMap"

definition ReservationTable_in_space :: "u32 \<Rightarrow> ReservationTable" where
  "ReservationTable_in_space space =
     \<lparr>rt_entries = LaneMap_with_slot_base ReservedLine_lanes (ucast space)
                     (LaneMap_new source_RESERVATION UnitId_raw)\<rparr>"

definition ReservationTable_new :: ReservationTable where
  "ReservationTable_new = ReservationTable_in_space 0"

definition ReservationTable_len :: "ReservationTable \<Rightarrow> usize" where
  "ReservationTable_len t = LaneMap_len (rt_entries t)"

definition ReservationTable_insert_or_replace ::
    "UnitId \<Rightarrow> ReservedLine \<Rightarrow> ReservationTable \<Rightarrow> ReservedLine option \<times> ReservationTable" where
  "ReservationTable_insert_or_replace u l t =
     (let (prior, es) = LaneMap_insert ReservedLine_lanes u l (rt_entries t)
      in (prior, t\<lparr>rt_entries := es\<rparr>))"

definition ReservationTable_remove_if_present ::
    "UnitId \<Rightarrow> ReservationTable \<Rightarrow> ReservedLine option \<times> ReservationTable" where
  "ReservationTable_remove_if_present u t =
     (let (prior, es) = LaneMap_remove ReservedLine_lanes u (rt_entries t)
      in (prior, t\<lparr>rt_entries := es\<rparr>))"

definition ReservationTable_get :: "ReservationTable \<Rightarrow> UnitId \<Rightarrow> ReservedLine option" where
  "ReservationTable_get t u = LaneMap_get (rt_entries t) u"

definition ReservationTable_is_held_by :: "ReservationTable \<Rightarrow> UnitId \<Rightarrow> bool" where
  "ReservationTable_is_held_by t u = LaneMap_contains_key (rt_entries t) u"

definition ReservationTable_clear_covering ::
    "u64 \<Rightarrow> u64 \<Rightarrow> UnitId option \<Rightarrow> ReservationTable \<Rightarrow> usize \<times> ReservationTable" where
  "ReservationTable_clear_covering addr len except t =
     (if LaneMap_is_empty (rt_entries t) \<or> len = 0 then (0, t)
      else let before = LaneMap_len (rt_entries t);
               (es, _) = LaneMap_retain ReservedLine_lanes
                 (\<lambda>s u l. (Some u = except \<or> \<not> ReservedLine_overlaps_range l addr len, l, s))
                 (rt_entries t) ()
           in (before - LaneMap_len es, t\<lparr>rt_entries := es\<rparr>))"

section \<open>Lines and bytes\<close>

lemma unat_containing: "unat (rl_addr (ReservedLine_containing a)) = unat a div 128 * 128"
proof -
  have "rl_addr (ReservedLine_containing a) = push_bit 7 (drop_bit 7 a)"
  proof (rule bit_word_eqI)
    fix n :: nat assume "n < LENGTH(64)"
    moreover have "RESERVATION_LINE_BYTES - 1 = mask 7"
      by (simp add: RESERVATION_LINE_BYTES_def mask_eq_exp_minus_1)
    ultimately show "bit (rl_addr (ReservedLine_containing a)) n = bit (push_bit 7 (drop_bit 7 a)) n"
      by (auto simp: ReservedLine_containing_def bit_and_iff bit_not_iff bit_mask_iff
          bit_push_bit_iff bit_drop_bit_eq)
  qed
  then have "rl_addr (ReservedLine_containing a) = (a div 128) * 128"
    by (simp add: push_bit_eq_mult drop_bit_eq_div)
  moreover have "unat (a div 128) * 128 \<le> unat a"
    by (simp add: unat_div_distrib)
  ultimately show ?thesis
    using unat_lt_2p [of a] by (simp add: unat_word_ariths unat_div_distrib)
qed

lemma line_end:
  assumes "l = ReservedLine_containing a"
  shows "unat (ReservedLine_end_inclusive l) = unat (rl_addr l) + 127"
proof -
  have "unat (rl_addr l) + 127 < 2 ^ 64"
    using unat_lt_2p [of a] less_mult_imp_div_less [of "unat a" "2 ^ 57" 128]
    by (simp add: assms unat_containing)
  then show ?thesis
    by (simp add: ReservedLine_end_inclusive_def RESERVATION_LINE_BYTES_def unat_saturating_add)
qed

definition line_bytes :: "ReservedLine \<Rightarrow> u64 set" where
  "line_bytes l = {b. unat (rl_addr l) \<le> unat b \<and> unat b < unat (rl_addr l) + 128}"

definition store_bytes :: "u64 \<Rightarrow> u64 \<Rightarrow> u64 set" where
  "store_bytes start len = {b. unat start \<le> unat b \<and> unat b < unat start + unat len}"

lemma overlaps_range_bytes:
  assumes l: "l = ReservedLine_containing a"
  shows "ReservedLine_overlaps_range l start len \<longleftrightarrow> line_bytes l \<inter> store_bytes start len \<noteq> {}"
proof (cases "len = 0")
  case True
  then show ?thesis by (auto simp: ReservedLine_overlaps_range_def store_bytes_def)
next
  case False
  then have len: "unat (len - 1) = unat len - 1" "0 < unat len"
    by (simp_all add: unat_minus_one unat_gt_0)
  define L where "L = unat (rl_addr l)"
  have ov: "ReservedLine_overlaps_range l start len \<longleftrightarrow>
      unat start \<le> L + 127 \<and> L \<le> unat start + unat len - 1"
    using False len unat_lt_2p [of "rl_addr l"]
    by (auto simp: ReservedLine_overlaps_range_def Let_def word_le_nat_alt line_end [OF l]
                   unat_saturating_add L_def)
  show ?thesis
  proof
    assume "ReservedLine_overlaps_range l start len"
    then have "max start (rl_addr l) \<in> line_bytes l \<inter> store_bytes start len"
      using len ov by (auto simp: line_bytes_def store_bytes_def L_def max_def word_le_nat_alt)
    then show "line_bytes l \<inter> store_bytes start len \<noteq> {}" by blast
  next
    assume "line_bytes l \<inter> store_bytes start len \<noteq> {}"
    then show "ReservedLine_overlaps_range l start len"
      unfolding ov using len by (auto simp: line_bytes_def store_bytes_def L_def)
  qed
qed

lemma own_byte_in_line: "a \<in> line_bytes (ReservedLine_containing a)"
  by (auto simp: line_bytes_def unat_containing)

section \<open>Invariant\<close>

definition rt_inv :: "ReservationTable \<Rightarrow> bool" where
  "rt_inv t \<longleftrightarrow> lm_inv ReservedLine_lanes (rt_entries t) \<and>
     (\<forall>(_, l) \<in> set (lm_entries (rt_entries t)). \<exists>a. l = ReservedLine_containing a)"

lemma rt_inv_lm: "rt_inv t \<Longrightarrow> lm_inv ReservedLine_lanes (rt_entries t)"
  by (simp add: rt_inv_def)

lemma rt_inv_canonical: "rt_inv t \<Longrightarrow> ReservationTable_get t u = Some l \<Longrightarrow> \<exists>a. l = ReservedLine_containing a"
  by (auto simp: rt_inv_def ReservationTable_get_def LaneMap_get_def dest!: map_of_SomeD)

lemma rt_inv_in_space [inv_intros]: "rt_inv (ReservationTable_in_space s)"
  by (simp add: rt_inv_def ReservationTable_in_space_def LaneMap_new_def LaneMap_with_object_def
                lm_inv_with_slot_base)
     (simp add: LaneMap_with_slot_base_def Let_def)

lemma rt_get_insert:
  "rt_inv t \<Longrightarrow> ReservationTable_get (snd (ReservationTable_insert_or_replace u l t)) =
     (ReservationTable_get t)(u \<mapsto> l)"
  by (simp add: ReservationTable_get_def ReservationTable_insert_or_replace_def LaneMap_get_def
        fun_eq_iff case_prod_beta lm.get_insert rt_inv_lm)

lemma rt_get_remove:
  "rt_inv t \<Longrightarrow> ReservationTable_get (snd (ReservationTable_remove_if_present u t)) =
     (ReservationTable_get t)(u := None)"
  by (simp add: ReservationTable_get_def ReservationTable_remove_if_present_def LaneMap_get_def
        fun_eq_iff case_prod_beta lm.get_remove rt_inv_lm)

lemma rt_inv_insert [inv_intros]:
  "rt_inv t \<Longrightarrow> rt_inv (snd (ReservationTable_insert_or_replace u (ReservedLine_containing a) t))"
  by (fastforce simp: rt_inv_def ReservationTable_insert_or_replace_def case_prod_beta lm_inv_insert
        lm.entries_insert btree_set_insert_entries lm.wf)

lemma rt_inv_remove [inv_intros]:
  "rt_inv t \<Longrightarrow> rt_inv (snd (ReservationTable_remove_if_present u t))"
  by (auto simp: rt_inv_def ReservationTable_remove_if_present_def case_prod_beta lm_inv_remove
        lm.entries_remove btree_remove_def)

lemma clear_covering_entries:
  "lm_entries (rt_entries (snd (ReservationTable_clear_covering addr len except t))) =
     filter (\<lambda>(u, l). Some u = except \<or> \<not> ReservedLine_overlaps_range l addr len)
       (lm_entries (rt_entries t))"
proof (cases "LaneMap_is_empty (rt_entries t) \<or> len = 0")
  case True
  then show ?thesis
    by (auto simp: ReservationTable_clear_covering_def LaneMap_is_empty_def
          ReservedLine_overlaps_range_def intro!: filter_True [symmetric])
next
  case False
  then show ?thesis
    using LaneMap_retain_filter [of ReservedLine_lanes
      "\<lambda>u l. Some u = except \<or> \<not> ReservedLine_overlaps_range l addr len" "rt_entries t" "()"]
    by (simp add: ReservationTable_clear_covering_def Let_def case_prod_beta)
qed

lemma rt_inv_clear_covering [inv_intros]:
  assumes "rt_inv t"
  shows "rt_inv (snd (ReservationTable_clear_covering addr len except t))"
proof -
  have "lm_inv ReservedLine_lanes (rt_entries (snd (ReservationTable_clear_covering addr len except t)))"
    using rt_inv_lm [OF assms]
    by (simp add: ReservationTable_clear_covering_def Let_def case_prod_beta lm_inv_retain)
  then show ?thesis
    using assms by (auto simp: rt_inv_def clear_covering_entries)
qed

lemma map_of_filter_entries:
  "distinct (map fst m) \<Longrightarrow>
   map_of (filter P m) k = (case map_of m k of None \<Rightarrow> None | Some v \<Rightarrow> if P (k, v) then Some v else None)"
proof (induction m)
  case (Cons e m)
  have "map_of m (fst e) = None" using Cons.prems by (simp add: map_of_eq_None_iff)
  with Cons show ?case by (cases e) (auto split: option.split)
qed simp

lemma rt_get_clear_covering:
  assumes "rt_inv t"
  shows "ReservationTable_get (snd (ReservationTable_clear_covering addr len except t)) u =
    (case ReservationTable_get t u of None \<Rightarrow> None
     | Some l \<Rightarrow> if Some u = except \<or> \<not> ReservedLine_overlaps_range l addr len then Some l else None)"
  using lm.wf [OF rt_inv_lm [OF assms]]
  by (simp add: ReservationTable_get_def LaneMap_get_def clear_covering_entries
        map_of_filter_entries btree_wf_distinct split: option.split)

section \<open>Properties\<close>

text \<open>
  C23: A committed store clears exactly the reservations it must: after \<^verbatim>\<open>clear_covering\<close> a
  unit still holds its line if and only if it held it before and either the unit is the
  writer itself or the line and the stored range share no byte of the address space. The
  returned count is the number of entries dropped. The saturating bounds of the
  overlap test never change the answer, whatever the range.
\<close>

theorem clear_covering_exact:
  assumes "rt_inv t"
    and "ReservationTable_clear_covering addr len except t = (n, t')"
  shows "rt_inv t' \<and>
    (ReservationTable_get t' u = Some l \<longleftrightarrow>
       ReservationTable_get t u = Some l \<and>
       (except = Some u \<or> line_bytes l \<inter> store_bytes addr len = {})) \<and>
    ReservationTable_len t' + n = ReservationTable_len t"
proof -
  have t': "t' = snd (ReservationTable_clear_covering addr len except t)" using assms(2) by simp
  have "ReservationTable_get t' u = Some l \<longleftrightarrow> ReservationTable_get t u = Some l \<and>
       (except = Some u \<or> line_bytes l \<inter> store_bytes addr len = {})"
    using rt_get_clear_covering [OF assms(1), of addr len except u] overlaps_range_bytes
      rt_inv_canonical [OF assms(1), of u]
    by (auto simp: t' split: option.splits if_splits)
  moreover have "ReservationTable_len t' + n = ReservationTable_len t"
  proof (cases "LaneMap_is_empty (rt_entries t) \<or> len = 0")
    case False
    then have "n = ReservationTable_len t - ReservationTable_len t'"
      using assms(2)
      by (auto simp: ReservationTable_clear_covering_def Let_def ReservationTable_len_def split: prod.splits)
    moreover have "ReservationTable_len t' \<le> ReservationTable_len t"
      by (simp add: t' ReservationTable_len_def LaneMap_len_def clear_covering_entries)
    ultimately show ?thesis by simp
  qed (use assms(2) in \<open>auto simp: ReservationTable_clear_covering_def\<close>)
  ultimately show ?thesis
    using rt_inv_clear_covering [OF assms(1)] t' by blast
qed

theorem clear_covering_exact_witness:
  "\<not> ReservationTable_is_held_by
     (snd (ReservationTable_clear_covering 0x1040 4 (Some (UnitId 2))
        (snd (ReservationTable_insert_or_replace (UnitId 1) (ReservedLine_containing 0x1010)
           ReservationTable_new)))) (UnitId 1)"
proof -
  define t where "t = snd (ReservationTable_insert_or_replace (UnitId 1) (ReservedLine_containing 0x1010)
           ReservationTable_new)"
  define c where "c = ReservationTable_clear_covering 0x1040 4 (Some (UnitId 2)) t"
  have inv: "rt_inv t"
    unfolding t_def ReservationTable_new_def by (intro rt_inv_insert rt_inv_in_space)
  have g: "ReservationTable_get t (UnitId 1) = Some (ReservedLine_containing 0x1010)"
    using rt_get_insert [OF rt_inv_in_space [of 0]] by (simp add: t_def ReservationTable_new_def)
  have "0x1040 \<in> line_bytes (ReservedLine_containing 0x1010) \<inter> store_bytes 0x1040 4"
    by (simp add: line_bytes_def store_bytes_def unat_containing)
  then have "ReservationTable_get (snd c) (UnitId 1) \<noteq> Some l" for l
    using clear_covering_exact [OF inv, where addr = "0x1040" and len = 4 and
        except = "Some (UnitId 2)" and n = "fst c" and t' = "snd c"] g
    by (auto simp: c_def)
  then show ?thesis
    by (auto simp: ReservationTable_is_held_by_def LaneMap_contains_key_def btree_contains_def
          ReservationTable_get_def LaneMap_get_def c_def t_def)
qed

end
