(* ===== verification/Dirty_Pages.thy ===== *)
theory Dirty_Pages
  imports State_Hash Lanes
begin

text \<open>
  The page machinery of \<^verbatim>\<open>cellgov_mem/src/guest.rs\<close>: the bitmap of touched pages, the
  Multilinear digest and the mixed term of one page. An index out of range panics in the
  source, which is \<^const>\<open>None\<close>.
\<close>

section \<open>The bitmap\<close>

definition RESET_PAGE_BITS :: nat where "RESET_PAGE_BITS = 12"
definition RESET_PAGE_SIZE :: nat where "RESET_PAGE_SIZE = 2 ^ RESET_PAGE_BITS"

record DirtyPages =
  dp_bits :: "u64 list"

definition DirtyPages_new :: "nat \<Rightarrow> DirtyPages" where
  "DirtyPages_new num_pages = \<lparr>dp_bits = replicate (div_ceil num_pages 64) 0\<rparr>"

text \<open>The word \<^verbatim>\<open>bits[p >> 6]\<close> gains bit \<^verbatim>\<open>p & 63\<close>.\<close>

definition mark_page :: "nat \<Rightarrow> DirtyPages \<Rightarrow> DirtyPages option" where
  "mark_page p d =
     (if p div 64 < length (dp_bits d)
      then Some (d\<lparr>dp_bits := (dp_bits d)[p div 64 := dp_bits d ! (p div 64) OR push_bit (p mod 64) 1]\<rparr>)
      else None)"

function DirtyPages_mark_range :: "nat \<Rightarrow> nat \<Rightarrow> DirtyPages \<Rightarrow> DirtyPages option" where
  "DirtyPages_mark_range p last_page_incl d =
     (if p \<le> last_page_incl
      then (case mark_page p d of None \<Rightarrow> None | Some d' \<Rightarrow> DirtyPages_mark_range (Suc p) last_page_incl d')
      else Some d)"
  by pat_completeness auto
termination
  by (relation "measure (\<lambda>(p, l, d). Suc l - p)") auto

declare DirtyPages_mark_range.simps [simp del]

definition trailing_zeros :: "u64 \<Rightarrow> nat" where
  "trailing_zeros w = length (takeWhile (\<lambda>i. \<not> bit w i) [0..<64])"

lemma and_pred_less: "w \<noteq> 0 \<Longrightarrow> unat (w AND (w - 1)) < unat (w :: u64)"
proof -
  assume w: "w \<noteq> 0"
  have "w AND (w - 1) \<le> w - 1" by (rule word_and_le1)
  then have "unat (w AND (w - 1)) \<le> unat w - 1"
    using unat_minus_one [OF w] by (simp add: word_le_nat_alt)
  moreover have "0 < unat w" using w by (simp add: unat_gt_0)
  ultimately show ?thesis by linarith
qed

function word_pages :: "nat \<Rightarrow> u64 \<Rightarrow> nat list" where
  "word_pages word_idx w =
     (if w = 0 then [] else (word_idx * 64 + trailing_zeros w) # word_pages word_idx (w AND (w - 1)))"
  by pat_completeness auto
termination
  by (relation "measure (\<lambda>(i, w). unat w)") (auto simp: and_pred_less)

declare word_pages.simps [simp del]

text \<open>The pages \<^verbatim>\<open>for_each_set\<close> visits, in the order it visits them.\<close>

definition DirtyPages_for_each_set :: "DirtyPages \<Rightarrow> nat list" where
  "DirtyPages_for_each_set d = concat (map (\<lambda>(word_idx, word). word_pages word_idx word) (enumerate 0 (dp_bits d)))"

definition DirtyPages_clear :: "DirtyPages \<Rightarrow> DirtyPages" where
  "DirtyPages_clear d = d\<lparr>dp_bits := replicate (length (dp_bits d)) 0\<rparr>"

definition page_set :: "DirtyPages \<Rightarrow> nat set" where
  "page_set d = {p. p div 64 < length (dp_bits d) \<and> bit (dp_bits d ! (p div 64)) (p mod 64)}"

section \<open>Marking\<close>

lemma page_set_new [simp]: "page_set (DirtyPages_new n) = {}"
  by (auto simp: page_set_def DirtyPages_new_def)

lemma page_set_clear [simp]: "page_set (DirtyPages_clear d) = {}"
  by (auto simp: page_set_def DirtyPages_clear_def)

lemma mark_page_effect:
  assumes "p div 64 < length (dp_bits d)"
  obtains d' where "mark_page p d = Some d'" "length (dp_bits d') = length (dp_bits d)"
    "page_set d' = insert p (page_set d)"
proof -
  let ?d = "d\<lparr>dp_bits := (dp_bits d)[p div 64 := dp_bits d ! (p div 64) OR push_bit (p mod 64) 1]\<rparr>"
  have "q \<in> page_set ?d \<longleftrightarrow> q = p \<or> q \<in> page_set d" for q
  proof (cases "q div 64 = p div 64")
    case True
    then have "q mod 64 = p mod 64 \<longleftrightarrow> q = p" by (metis div_mod_decomp)
    moreover have "(bit (push_bit (p mod 64) 1 :: u64) (q mod 64)) \<longleftrightarrow> q mod 64 = p mod 64"
      by (auto simp: bit_exp_iff)
    ultimately show ?thesis
      using True assms by (auto simp: page_set_def bit_or_iff)
  next
    case False
    then show ?thesis by (auto simp: page_set_def)
  qed
  then have "page_set ?d = insert p (page_set d)" by blast
  moreover have "mark_page p d = Some ?d" using assms by (simp add: mark_page_def)
  ultimately show thesis by (intro that [of ?d]) simp_all
qed

lemma mark_range_effect:
  assumes "l div 64 < length (dp_bits d)"
  shows "\<exists>d'. DirtyPages_mark_range p l d = Some d' \<and> length (dp_bits d') = length (dp_bits d) \<and>
    page_set d' = page_set d \<union> {p..l}"
  using assms
proof (induction p l d rule: DirtyPages_mark_range.induct)
  case (1 p l d)
  show ?case
  proof (cases "p \<le> l")
    case True
    then have "p div 64 < length (dp_bits d)" using "1.prems" div_le_mono [of p l 64] by simp
    then obtain d1 where d1: "mark_page p d = Some d1" "length (dp_bits d1) = length (dp_bits d)"
      "page_set d1 = insert p (page_set d)" by (rule mark_page_effect)
    obtain d' where "DirtyPages_mark_range (Suc p) l d1 = Some d'"
      "length (dp_bits d') = length (dp_bits d)" "page_set d' = insert p (page_set d) \<union> {Suc p..l}"
      using "1.IH" [OF True d1(1)] "1.prems" d1 by auto
    moreover have "insert p (page_set d) \<union> {Suc p..l} = page_set d \<union> {p..l}"
      using True by auto
    ultimately show ?thesis
      using True d1(1) by (simp add: DirtyPages_mark_range.simps [of p])
  next
    case False
    then show ?thesis by (simp add: DirtyPages_mark_range.simps [of p])
  qed
qed

section \<open>Visiting\<close>

lemma trailing_zeros_least:
  assumes "w \<noteq> 0"
  shows "bit w (trailing_zeros w)" and "n < trailing_zeros w \<Longrightarrow> \<not> bit w n" and "trailing_zeros w < 64"
proof -
  obtain k where k: "bit w k" using assms by (metis bit_eqI bit_0_eq bot_apply bot_bool_def)
  then have "k < 64" using bit_imp_le_length [of w k] by simp
  then have "\<not> (\<forall>x \<in> set [0..<64]. \<not> bit w x)" using k by auto
  then have "takeWhile (\<lambda>i. \<not> bit w i) [0..<64] \<noteq> [0..<64]" by (metis takeWhile_eq_all_conv)
  then have "length (takeWhile (\<lambda>i. \<not> bit w i) [0..<64]) \<noteq> length [0..<64]"
    by (metis takeWhile_eq_take take_all order_refl)
  then show lt: "trailing_zeros w < 64"
    using length_takeWhile_le [of "\<lambda>i. \<not> bit w i" "[0..<64]"] by (simp add: trailing_zeros_def)
  show "bit w (trailing_zeros w)"
    using nth_length_takeWhile [of "\<lambda>i. \<not> bit w i" "[0..<64]"] lt by (simp add: trailing_zeros_def)
  show "\<not> bit w n" if "n < trailing_zeros w"
  proof -
    have "takeWhile (\<lambda>i. \<not> bit w i) [0..<64] ! n = n"
      using that lt takeWhile_nth [of n "\<lambda>i. \<not> bit w i" "[0..<64]"] by (simp add: trailing_zeros_def)
    then have "n \<in> set (takeWhile (\<lambda>i. \<not> bit w i) [0..<64])"
      using that nth_mem [of n "takeWhile (\<lambda>i. \<not> bit w i) [0..<64]"] by (simp add: trailing_zeros_def)
    then show ?thesis by (auto dest: set_takeWhileD)
  qed
qed

text \<open>\<^verbatim>\<open>w &= w - 1\<close> clears the lowest set bit and no other.\<close>

lemma bit_and_pred:
  assumes "w \<noteq> 0"
  shows "bit (w AND (w - 1)) n \<longleftrightarrow> bit w n \<and> n \<noteq> trailing_zeros w"
proof -
  define k where "k = trailing_zeros w"
  have k: "bit w k" "\<And>n. n < k \<Longrightarrow> \<not> bit w n" "k < 64"
    using trailing_zeros_least [OF assms] by (auto simp: k_def)
  define v where "v = unset_bit k w"
  have v: "bit v n \<longleftrightarrow> bit w n \<and> n \<noteq> k" for n by (auto simp: v_def bit_unset_bit_iff)
  have "w = v OR push_bit k 1"
    by (rule bit_eqI) (use k v in \<open>auto simp: bit_or_iff bit_exp_iff\<close>)
  also have "\<dots> = v + push_bit k 1"
    by (rule disjunctive_add_eq_or [symmetric], rule bit_eqI)
       (auto simp: bit_and_iff v bit_exp_iff)
  finally have "w - 1 = v + mask k" by (simp add: mask_eq_exp_minus_1 push_bit_eq_mult)
  also have "\<dots> = v OR mask k"
    by (rule disjunctive_add_eq_or, rule bit_eqI) (use k v in \<open>auto simp: bit_and_iff bit_mask_iff\<close>)
  finally have "bit (w AND (w - 1)) n \<longleftrightarrow> bit w n \<and> (bit v n \<or> n < k \<and> n < 64)" for n
    by (auto simp: bit_and_iff bit_or_iff bit_mask_iff)
  then show ?thesis using k(2) v by (auto simp: k_def [symmetric])
qed

lemma word_pages_spec:
  "set (word_pages i w) = {i * 64 + n | n. bit w n} \<and> distinct (word_pages i w)"
proof (induction i w rule: word_pages.induct)
  case (1 i w)
  show ?case
  proof (cases "w = 0")
    case True
    then show ?thesis by (simp add: word_pages.simps)
  next
    case False
    note IH = "1.IH" [OF False]
    have "word_pages i w = (i * 64 + trailing_zeros w) # word_pages i (w AND (w - 1))"
      using False by (simp add: word_pages.simps [of i w])
    with IH bit_and_pred [OF False] trailing_zeros_least(1) [OF False] show ?thesis by auto
  qed
qed

lemma for_each_set_spec:
  "set (DirtyPages_for_each_set d) = page_set d" "distinct (DirtyPages_for_each_set d)"
proof -
  have m: "n < 64" if "bit (w :: u64) n" for w n using bit_imp_le_length [OF that] by simp
  show "set (DirtyPages_for_each_set d) = page_set d"
  proof (intro set_eqI iffI)
    fix p assume "p \<in> set (DirtyPages_for_each_set d)"
    then obtain i n where "i < length (dp_bits d)" "p = i * 64 + n" "bit (dp_bits d ! i) n"
      by (auto simp: DirtyPages_for_each_set_def word_pages_spec in_set_enumerate_eq)
    then show "p \<in> page_set d" using m [of "dp_bits d ! i" n] by (simp add: page_set_def)
  next
    fix p assume "p \<in> page_set d"
    then have "(p div 64, dp_bits d ! (p div 64)) \<in> set (enumerate 0 (dp_bits d))"
      "bit (dp_bits d ! (p div 64)) (p mod 64)" "p = p div 64 * 64 + p mod 64"
      by (simp_all add: page_set_def in_set_enumerate_eq)
    then show "p \<in> set (DirtyPages_for_each_set d)"
      unfolding DirtyPages_for_each_set_def set_concat set_map
      by (intro UN_I [where a = "word_pages (p div 64) (dp_bits d ! (p div 64))"])
         (force simp: word_pages_spec)+
  qed
  have "distinct (concat (map (\<lambda>(i, w). word_pages i w) (enumerate k ws)))" for k ws
  proof (induction ws arbitrary: k)
    case (Cons w ws)
    have "set (word_pages k w) \<inter> set (concat (map (\<lambda>(i, w). word_pages i w) (enumerate (Suc k) ws))) = {}"
    proof -
      { fix n i n' and w' :: u64
        assume "bit w n" "bit w' n'" "k * 64 + n = i * 64 + n'" "Suc k \<le> i"
        with m [of w n] have False by linarith }
      then show ?thesis by (fastforce simp: word_pages_spec in_set_enumerate_eq)
    qed
    with Cons word_pages_spec [of k w] show ?case by simp
  qed simp
  then show "distinct (DirtyPages_for_each_set d)" by (simp add: DirtyPages_for_each_set_def)
qed

section \<open>Page digests and terms\<close>

definition PAGE_WORDS :: nat where "PAGE_WORDS = RESET_PAGE_SIZE div 8"
definition PAGE_KEY_SEED :: u64 where "PAGE_KEY_SEED = 0x63656c6c6d656d31"

text \<open>
  The table is built by walking the SplitMix64 stream: each key takes the next two outputs
  and leaves the state behind them.
\<close>

primrec page_keys_walk :: "u64 \<Rightarrow> nat \<Rightarrow> u128 list" where
  "page_keys_walk state 0 = []"
| "page_keys_walk state (Suc n) =
     (let s1 = state + SPLITMIX64_GAMMA; s2 = s1 + SPLITMIX64_GAMMA
      in (push_bit 64 (ucast (splitmix64_mix s1)) OR ucast (splitmix64_mix s2)) # page_keys_walk s2 n)"

definition PAGE_KEYS :: "u128 list" where
  "PAGE_KEYS = page_keys_walk PAGE_KEY_SEED (PAGE_WORDS + 1)"

definition page_digest :: "bytes \<Rightarrow> u64" where
  "page_digest bs =
     ucast (drop_bit 64
       (foldl (\<lambda>acc (key, chunk). acc + key * ucast (chunk_word chunk)) (hd PAGE_KEYS)
          (zip (tl PAGE_KEYS) (chunks 8 bs))))"

definition page_term :: "u64 \<Rightarrow> nat \<Rightarrow> bytes \<Rightarrow> u64" where
  "page_term region_base page bs =
     (if list_all (\<lambda>b. b = 0) bs then 0
      else let h = Fnv1aHasher_new;
               h = Fnv1aHasher_write h (to_le 8 region_base);
               h = Fnv1aHasher_write h (to_le 8 (of_nat page :: u64));
               h = Fnv1aHasher_write h (to_le 8 (page_digest bs));
               z = Fnv1aHasher_finish h;
               z = (z XOR drop_bit 30 z) * 0xbf58476d1ce4e5b9;
               z = (z XOR drop_bit 27 z) * 0x94d049bb133111eb
           in z XOR drop_bit 31 z)"

lemma page_term_zero: "page_term base p (replicate n 0) = 0"
  by (simp add: page_term_def list_all_iff)

lemma page_keys_walk_length [simp]: "length (page_keys_walk s n) = n"
  by (induction n arbitrary: s) (simp_all add: Let_def)

lemma page_keys_walk_nth:
  "k < n \<Longrightarrow> page_keys_walk (splitmix_walk seed (2 * j)) n ! k = stream_key seed (j + k)"
proof (induction n arbitrary: j k)
  case (Suc n)
  define s2 where "s2 = splitmix_walk seed (2 * Suc j)"
  have walk: "page_keys_walk (splitmix_walk seed (2 * j)) (Suc n) = stream_key seed j # page_keys_walk s2 n"
    by (simp add: Let_def stream_key_def s2_def)
  show ?case
  proof (cases k)
    case 0
    then show ?thesis by (simp only: walk nth_Cons_0 add_0_right)
  next
    case (Suc k')
    then have "page_keys_walk s2 n ! k' = stream_key seed (Suc j + k')"
      unfolding s2_def using Suc.prems by (intro Suc.IH) simp
    with Suc show ?thesis by (simp only: walk nth_Cons_Suc add_Suc add_Suc_right)
  qed
qed simp

text \<open>The page keys are the indexed key stream of the page seed.\<close>

lemma PAGE_KEYS_indexed: "i \<le> PAGE_WORDS \<Longrightarrow> PAGE_KEYS ! i = indexed_key PAGE_KEY_SEED (of_nat i)"
  using page_keys_walk_nth [of i "PAGE_WORDS + 1" PAGE_KEY_SEED 0]
  by (simp add: PAGE_KEYS_def stream_key_indexed)

section \<open>Properties\<close>

text \<open>
  The bit-scan over the touched-page bitmap, which clears the lowest set bit each
  turn, visits every marked page exactly once and no other page, and marking a range of
  pages adds exactly those pages without indexing outside the bitmap.
\<close>

theorem DirtyPages_scan_exact:
  assumes "l div 64 < length (dp_bits d)"
  shows "\<exists>d'. DirtyPages_mark_range p l d = Some d' \<and>
    set (DirtyPages_for_each_set d') = set (DirtyPages_for_each_set d) \<union> {p..l} \<and>
    distinct (DirtyPages_for_each_set d')"
  using mark_range_effect [OF assms, of p] for_each_set_spec by metis

theorem DirtyPages_scan_exact_witness:
  "\<exists>d'. DirtyPages_mark_range 60 66 (DirtyPages_new 128) = Some d' \<and>
    set (DirtyPages_for_each_set d') = {60..66}"
  using DirtyPages_scan_exact [of 66 "DirtyPages_new 128" 60]
  by (auto simp: for_each_set_spec) (simp add: DirtyPages_new_def div_ceil_def)

text \<open>
  The page-key table the compiler builds by stepping the SplitMix64 state holds at
  every position the key the constant-time indexed key function computes for it.
\<close>

theorem PAGE_KEYS_match_indexed_keys:
  "PAGE_KEYS = map (\<lambda>i. indexed_key PAGE_KEY_SEED (of_nat i)) [0..<PAGE_WORDS + 1]"
proof (rule nth_equalityI)
  show len: "length PAGE_KEYS = length (map (\<lambda>i. indexed_key PAGE_KEY_SEED (of_nat i)) [0..<PAGE_WORDS + 1])"
    unfolding PAGE_KEYS_def page_keys_walk_length by simp
  fix i assume "i < length PAGE_KEYS"
  then have "i < PAGE_WORDS + 1" using len by simp
  then show "PAGE_KEYS ! i = map (\<lambda>i. indexed_key PAGE_KEY_SEED (of_nat i)) [0..<PAGE_WORDS + 1] ! i"
    by (simp add: PAGE_KEYS_indexed del: upt_Suc)
qed

end
