(* ===== verification/Guest_Range.thy ===== *)
theory Guest_Range
  imports Prelude
begin

text \<open>
  \<^verbatim>\<open>cellgov_mem/src/addr.rs\<close> and \<^verbatim>\<open>range.rs\<close>: guest addresses with checked displacement
  arithmetic, and half-open byte ranges that cannot wrap.
\<close>

section \<open>Addresses\<close>

datatype GuestAddr = GuestAddr (GuestAddr_raw: u64)

definition GuestAddr_ZERO :: GuestAddr where
  "GuestAddr_ZERO = GuestAddr 0"

text \<open>An \<^verbatim>\<open>i64\<close> displacement is a word read as two's complement; \<^verbatim>\<open>unsigned_abs\<close> negates it.\<close>

definition GuestAddr_checked_offset :: "GuestAddr \<Rightarrow> 64 word \<Rightarrow> GuestAddr option" where
  "GuestAddr_checked_offset a displacement =
     (if sint displacement \<ge> 0
      then (case checked_add (GuestAddr_raw a) displacement of Some v \<Rightarrow> Some (GuestAddr v) | None \<Rightarrow> None)
      else (case checked_sub (GuestAddr_raw a) (- displacement) of Some v \<Rightarrow> Some (GuestAddr v) | None \<Rightarrow> None))"

definition GuestAddr_checked_distance_from :: "GuestAddr \<Rightarrow> GuestAddr \<Rightarrow> u64 option" where
  "GuestAddr_checked_distance_from a earlier = checked_sub (GuestAddr_raw a) (GuestAddr_raw earlier)"

section \<open>Byte ranges\<close>

text \<open>
  A \<^verbatim>\<open>ByteRange\<close> can only be built by its two constructors, so the model's operations are
  about values with \<open>range_ok\<close>.
\<close>

datatype ByteRange = ByteRange (br_start: GuestAddr) (br_length: u64)

definition ByteRange_new :: "GuestAddr \<Rightarrow> u64 \<Rightarrow> ByteRange option" where
  "ByteRange_new start len =
     (case checked_add (GuestAddr_raw start) len of Some _ \<Rightarrow> Some (ByteRange start len) | None \<Rightarrow> None)"

definition ByteRange_contiguous_u32 :: "u32 \<Rightarrow> u32 \<Rightarrow> ByteRange" where
  "ByteRange_contiguous_u32 addr len = ByteRange (GuestAddr (ucast addr)) (ucast len)"

definition ByteRange_end_raw :: "ByteRange \<Rightarrow> u64" where
  "ByteRange_end_raw r = GuestAddr_raw (br_start r) + br_length r"

definition ByteRange_end :: "ByteRange \<Rightarrow> GuestAddr" where
  "ByteRange_end r = GuestAddr (ByteRange_end_raw r)"

definition ByteRange_is_empty :: "ByteRange \<Rightarrow> bool" where
  "ByteRange_is_empty r \<longleftrightarrow> br_length r = 0"

definition ByteRange_contains_addr :: "ByteRange \<Rightarrow> GuestAddr \<Rightarrow> bool" where
  "ByteRange_contains_addr r addr =
     (if br_length r = 0 then False
      else let raw = GuestAddr_raw addr
           in raw \<ge> GuestAddr_raw (br_start r) \<and> raw < ByteRange_end_raw r)"

definition ByteRange_overlaps :: "ByteRange \<Rightarrow> ByteRange \<Rightarrow> bool" where
  "ByteRange_overlaps r other =
     (if br_length r = 0 \<or> br_length other = 0 then False
      else GuestAddr_raw (br_start r) < ByteRange_end_raw other \<and>
           GuestAddr_raw (br_start other) < ByteRange_end_raw r)"

definition range_ok :: "ByteRange \<Rightarrow> bool" where
  "range_ok r \<longleftrightarrow> unat (GuestAddr_raw (br_start r)) + unat (br_length r) < 2 ^ 64"

definition range_bytes :: "ByteRange \<Rightarrow> u64 set" where
  "range_bytes r = {a. unat (GuestAddr_raw (br_start r)) \<le> unat a \<and>
                       unat a < unat (GuestAddr_raw (br_start r)) + unat (br_length r)}"

lemma ByteRange_new_iff:
  "ByteRange_new s n = Some r \<longleftrightarrow> r = ByteRange s n \<and> range_ok r"
  by (auto simp: ByteRange_new_def range_ok_def checked_add_def)

lemma range_ok_contiguous_u32: "range_ok (ByteRange_contiguous_u32 a n)"
  using unat_lt_2p [of a] unat_lt_2p [of n]
  by (simp add: range_ok_def ByteRange_contiguous_u32_def unat_ucast_up)

lemma unat_end_raw: "range_ok r \<Longrightarrow> unat (ByteRange_end_raw r) = unat (GuestAddr_raw (br_start r)) + unat (br_length r)"
  by (simp add: range_ok_def ByteRange_end_raw_def unat_plus_no_wrap)

lemma contains_addr_iff:
  "range_ok r \<Longrightarrow> ByteRange_contains_addr r a \<longleftrightarrow> GuestAddr_raw a \<in> range_bytes r"
  by (auto simp: ByteRange_contains_addr_def Let_def range_bytes_def word_le_nat_alt
                 word_less_nat_alt unat_end_raw)

lemma range_bytes_empty: "br_length r = 0 \<Longrightarrow> range_bytes r = {}"
  by (auto simp: range_bytes_def)

section \<open>Properties\<close>

text \<open>
  Two byte ranges overlap exactly when they share an address, membership and the
  exclusive end agree with the set of addresses of the range, and neither test can be
  confused by wrap-around.
\<close>

theorem ByteRange_overlaps_iff:
  assumes "range_ok r" and "range_ok s"
  shows "(ByteRange_overlaps r s \<longleftrightarrow> range_bytes r \<inter> range_bytes s \<noteq> {}) \<and>
    (ByteRange_contains_addr r a \<longleftrightarrow> GuestAddr_raw a \<in> range_bytes r)"
proof -
  have "ByteRange_overlaps r s \<longleftrightarrow> range_bytes r \<inter> range_bytes s \<noteq> {}"
  proof (cases "br_length r = 0 \<or> br_length s = 0")
    case True
    then show ?thesis using range_bytes_empty by (auto simp: ByteRange_overlaps_def)
  next
    case False
    then have pos: "0 < unat (br_length r)" "0 < unat (br_length s)" by (simp_all add: unat_gt_0)
    let ?m = "max (GuestAddr_raw (br_start r)) (GuestAddr_raw (br_start s))"
    show ?thesis
    proof
      assume "ByteRange_overlaps r s"
      then have "?m \<in> range_bytes r \<inter> range_bytes s"
        using False pos assms
        by (auto simp: ByteRange_overlaps_def range_bytes_def word_less_nat_alt word_le_nat_alt
                       unat_end_raw max_def)
      then show "range_bytes r \<inter> range_bytes s \<noteq> {}" by blast
    next
      assume "range_bytes r \<inter> range_bytes s \<noteq> {}"
      then show "ByteRange_overlaps r s"
        using False assms
        by (auto simp: ByteRange_overlaps_def range_bytes_def word_less_nat_alt unat_end_raw)
    qed
  qed
  then show ?thesis using contains_addr_iff [OF assms(1)] by blast
qed

theorem ByteRange_overlaps_iff_witness:
  "ByteRange_overlaps (ByteRange (GuestAddr 0x100) 16) (ByteRange (GuestAddr 0x10F) 4) \<and>
   range_bytes (ByteRange (GuestAddr 0x100) 16) \<inter> range_bytes (ByteRange (GuestAddr 0x10F) 4) \<noteq> {}"
  using ByteRange_overlaps_iff [of "ByteRange (GuestAddr 0x100) 16" "ByteRange (GuestAddr 0x10F) 4"]
  by (simp add: range_ok_def ByteRange_overlaps_def ByteRange_end_raw_def)

text \<open>
  A signed displacement is applied exactly or refused: the checked offset returns the
  address that lies \<^verbatim>\<open>displacement\<close> bytes away when that address is in the 64-bit space,
  and \<^verbatim>\<open>None\<close> otherwise, the most negative displacement included.
\<close>

theorem GuestAddr_checked_offset_exact:
  "GuestAddr_checked_offset a d =
     (let t = uint (GuestAddr_raw a) + sint d
      in if 0 \<le> t \<and> t < 2 ^ 64 then Some (GuestAddr (of_int t)) else None)"
proof -
  obtain x where a: "a = GuestAddr x" by (cases a)
  have xl: "uint x < 2 ^ 64" "uint d < 2 ^ 64" using uint_lt2p [of x] uint_lt2p [of d] by simp_all
  have oi: "(of_int (uint x + sint d) :: u64) = x + d" by simp
  show ?thesis
  proof (cases "uint d < 2 ^ 63")
    case True
    then show ?thesis
      using oi by (auto simp: GuestAddr_checked_offset_def a checked_add_def Let_def sint_u64
                         unat_add_less_uint)
  next
    case False
    then have "d \<noteq> 0" by auto
    then have neg: "uint (- d) = 2 ^ 64 - uint d" by (rule uint_uminus_u64)
    have s: "sint d = uint d - 2 ^ 64" using False by (simp add: sint_u64)
    have "- d \<le> x \<longleftrightarrow> 0 \<le> uint x + sint d"
      by (auto simp: word_le_def neg s)
    moreover have "\<not> 0 \<le> sint d" "uint x + sint d < 2 ^ 64"
      using xl by (simp_all add: s)
    ultimately show ?thesis
      using oi by (simp add: GuestAddr_checked_offset_def a checked_sub_def Let_def)
  qed
qed

end
