(* ===== verification/Guest_Memory.thy ===== *)
theory Guest_Memory
  imports Dirty_Pages Guest_Range BTree
begin

text \<open>
  \<^verbatim>\<open>cellgov_mem/src/guest.rs\<close>: committed guest memory as a sorted vector of disjoint regions,
  with the checked read and write paths, the region map changes and the log of provisional
  reads. \<^verbatim>\<open>Cell\<close> and \<^verbatim>\<open>RefCell\<close> fields are plain fields, and a method that changes one through
  a shared borrow returns the changed memory. \<^verbatim>\<open>Arc\<close> sharing is invisible: a value of the
  model is its own copy. A panic (an index or slice out of range) is \<^const>\<open>None\<close>.
\<close>

section \<open>Regions\<close>

datatype PageSize = Page4K | Page64K | Page1M
datatype RegionAccess = ReadWrite | ReservedZeroReadable | ReservedStrict

record Region =
  rg_base :: u64
  rg_bytes :: bytes
  rg_label :: string
  rg_page_size :: PageSize
  rg_access :: RegionAccess
  rg_caching_inhibited :: bool
  rg_dirty_pages :: DirtyPages
  rg_window :: "(string \<times> RegionAccess) option"

definition Region_with_access ::
    "u64 \<Rightarrow> usize \<Rightarrow> string \<Rightarrow> PageSize \<Rightarrow> RegionAccess \<Rightarrow> Region" where
  "Region_with_access base sz label page_size access =
     (let num_pages = div_ceil sz RESET_PAGE_SIZE
      in \<lparr>rg_base = base, rg_bytes = replicate sz 0, rg_label = label, rg_page_size = page_size,
          rg_access = access, rg_caching_inhibited = False,
          rg_dirty_pages = DirtyPages_new num_pages, rg_window = None\<rparr>)"

definition Region_new :: "u64 \<Rightarrow> usize \<Rightarrow> string \<Rightarrow> PageSize \<Rightarrow> Region" where
  "Region_new base sz label page_size = Region_with_access base sz label page_size ReadWrite"

definition Region_with_caching_inhibited :: "Region \<Rightarrow> Region" where
  "Region_with_caching_inhibited r = r\<lparr>rg_caching_inhibited := True\<rparr>"

definition Region_size :: "Region \<Rightarrow> u64" where
  "Region_size r = of_nat (length (rg_bytes r))"

definition Region_end :: "Region \<Rightarrow> u64" where
  "Region_end r = saturating_add (rg_base r) (Region_size r)"

definition Region_contains :: "Region \<Rightarrow> u64 \<Rightarrow> u64 \<Rightarrow> bool" where
  "Region_contains r addr len =
     (case checked_add addr len of
        Some e \<Rightarrow> addr \<ge> rg_base r \<and> e \<le> Region_end r
      | None \<Rightarrow> False)"

text \<open>The page's bytes \<^verbatim>\<open>[off..end]\<close>, with the last page cut at the region's end.\<close>

definition page_bounds :: "nat \<Rightarrow> nat \<Rightarrow> nat \<times> nat" where
  "page_bounds len p =
     (let off = p * RESET_PAGE_SIZE in (off, min (off + RESET_PAGE_SIZE) len))"

definition page_slice :: "nat \<Rightarrow> bytes \<Rightarrow> bytes option" where
  "page_slice p bs =
     (let (off, e) = page_bounds (length bs) p in if off \<le> e then Some (slice off (e - off) bs) else None)"

fun zero_pages :: "nat list \<Rightarrow> bytes \<Rightarrow> bytes option" where
  "zero_pages [] bs = Some bs"
| "zero_pages (p # ps) bs =
     (let (off, e) = page_bounds (length bs) p
      in if off \<le> e then zero_pages ps (splice off (replicate (e - off) 0) bs) else None)"

definition Region_reset_for_reuse :: "Region \<Rightarrow> Region option" where
  "Region_reset_for_reuse r =
     (case zero_pages (DirtyPages_for_each_set (rg_dirty_pages r)) (rg_bytes r) of
        None \<Rightarrow> None
      | Some bs \<Rightarrow> Some (r\<lparr>rg_bytes := bs, rg_dirty_pages := DirtyPages_clear (rg_dirty_pages r)\<rparr>))"

section \<open>The memory\<close>

record PageHashes =
  ph_terms :: "u64 list"
  ph_acc :: u64
  ph_stale :: DirtyPages

definition PageHashes_new :: "nat \<Rightarrow> PageHashes" where
  "PageHashes_new num_pages =
     \<lparr>ph_terms = replicate num_pages 0, ph_acc = 0, ph_stale = DirtyPages_new num_pages\<rparr>"

record GuestMemory =
  gm_regions :: "Region list"
  gm_page_hashes :: "PageHashes list"
  gm_cached_hash :: "u64 option"
  gm_provisional_read_count :: u64
  gm_provisional_reads :: "(u64 \<times> u32, u32) btree"
  gm_provisional_journal :: "(u64 \<times> u32) list"
  gm_reads_unlogged :: bool
  gm_unmapped_below :: u64
  gm_code_spans :: "(u64 \<times> u64) list"
  gm_fetch_restricted :: bool

datatype FaultContext =
  FaultContext (fc_addr: u64) (fc_nearest_below: "string option") (fc_nearest_above: "string option")

datatype MemError =
    LengthMismatch
  | OverlappingRegions
  | RegionOverflow u64 u64
  | NoSuchRegion u64 u64
  | Unmapped FaultContext
  | ReservedWrite u64 string
  | ReservedStrictRead u64 string

text \<open>\<^verbatim>\<open>partition_point\<close> on a vector that the predicate partitions.\<close>

definition partition_point :: "('a \<Rightarrow> bool) \<Rightarrow> 'a list \<Rightarrow> nat" where
  "partition_point P xs = length (takeWhile P xs)"

fun windows_ok :: "Region list \<Rightarrow> bool" where
  "windows_ok (r # s # rs) = (if Region_end r > rg_base s then False else windows_ok (s # rs))"
| "windows_ok _ = True"

definition GuestMemory_from_regions :: "Region list \<Rightarrow> MemError + GuestMemory" where
  "GuestMemory_from_regions rs0 =
     (let rs = sort_key rg_base rs0
      in case find (\<lambda>r. checked_add (rg_base r) (Region_size r) = None) rs of
           Some r \<Rightarrow> Inl (RegionOverflow (rg_base r) (Region_size r))
         | None \<Rightarrow>
             if \<not> windows_ok rs then Inl OverlappingRegions
             else Inr \<lparr>gm_regions = rs,
                       gm_page_hashes =
                         map (\<lambda>r. (PageHashes_new (div_ceil (length (rg_bytes r)) RESET_PAGE_SIZE))
                                    \<lparr>ph_stale := rg_dirty_pages r\<rparr>) rs,
                       gm_cached_hash = None, gm_provisional_read_count = 0,
                       gm_provisional_reads = [], gm_provisional_journal = [],
                       gm_reads_unlogged = False, gm_unmapped_below = 0, gm_code_spans = [],
                       gm_fetch_restricted = False\<rparr>)"

text \<open>\<^verbatim>\<open>GuestMemory::new\<close> expects the single flat region to be admitted.\<close>

definition GuestMemory_new :: "usize \<Rightarrow> GuestMemory option" where
  "GuestMemory_new sz =
     (case GuestMemory_from_regions [Region_new 0 sz ''flat'' Page64K] of Inr m \<Rightarrow> Some m | Inl _ \<Rightarrow> None)"

definition insert_at :: "nat \<Rightarrow> 'a \<Rightarrow> 'a list \<Rightarrow> 'a list" where
  "insert_at i x xs = take i xs @ x # drop i xs"

definition GuestMemory_install_region_with_access ::
    "u64 \<Rightarrow> usize \<Rightarrow> string \<Rightarrow> PageSize \<Rightarrow> RegionAccess \<Rightarrow> GuestMemory \<Rightarrow> MemError + GuestMemory" where
  "GuestMemory_install_region_with_access base sz label page_size access m =
     (let new_end = unat base + sz
      in if new_end > unat u64_MAX then Inl (RegionOverflow base (of_nat sz))
         else let insertion = partition_point (\<lambda>r. rg_base r \<le> base) (gm_regions m)
              in if insertion > 0 \<and> Region_end (gm_regions m ! (insertion - 1)) > base
                 then Inl OverlappingRegions
                 else if insertion < length (gm_regions m) \<and>
                         new_end > unat (rg_base (gm_regions m ! insertion))
                 then Inl OverlappingRegions
                 else Inr (m\<lparr>gm_regions := insert_at insertion
                               (Region_with_access base sz label page_size access) (gm_regions m),
                             gm_page_hashes := insert_at insertion
                               (PageHashes_new (div_ceil sz RESET_PAGE_SIZE)) (gm_page_hashes m),
                             gm_cached_hash := None\<rparr>))"

definition GuestMemory_install_region ::
    "u64 \<Rightarrow> usize \<Rightarrow> string \<Rightarrow> PageSize \<Rightarrow> GuestMemory \<Rightarrow> MemError + GuestMemory" where
  "GuestMemory_install_region base sz label page_size m =
     GuestMemory_install_region_with_access base sz label page_size ReadWrite m"

definition GuestMemory_remove_region :: "u64 \<Rightarrow> usize \<Rightarrow> GuestMemory \<Rightarrow> MemError + GuestMemory" where
  "GuestMemory_remove_region base sz m =
     (case list_position (\<lambda>r. rg_base r = base \<and> Region_size r = of_nat sz) (gm_regions m) of
        None \<Rightarrow> Inl (NoSuchRegion base (of_nat sz))
      | Some idx \<Rightarrow> Inr (m\<lparr>gm_regions := remove_at idx (gm_regions m),
                          gm_page_hashes := remove_at idx (gm_page_hashes m),
                          gm_cached_hash := None\<rparr>))"

section \<open>Resolving ranges\<close>

definition GuestMemory_containing_region_index :: "u64 \<Rightarrow> u64 \<Rightarrow> GuestMemory \<Rightarrow> nat option" where
  "GuestMemory_containing_region_index addr len m =
     (let idx = partition_point (\<lambda>r. rg_base r \<le> addr) (gm_regions m)
      in if idx = 0 \<or> addr < gm_unmapped_below m then None
         else if Region_contains (gm_regions m ! (idx - 1)) addr len then Some (idx - 1) else None)"

definition GuestMemory_containing_region :: "u64 \<Rightarrow> u64 \<Rightarrow> GuestMemory \<Rightarrow> Region option" where
  "GuestMemory_containing_region addr len m =
     map_option (\<lambda>idx. gm_regions m ! idx) (GuestMemory_containing_region_index addr len m)"

text \<open>
  The walk of \<^verbatim>\<open>region_span\<close> over the regions from \<^verbatim>\<open>first\<close> on: \<^const>\<open>Inl\<close> is the first address
  no region holds, \<^const>\<open>Inr\<close> the index one past the last region used.
\<close>

fun span_loop :: "Region list \<Rightarrow> nat \<Rightarrow> u64 \<Rightarrow> u64 \<Rightarrow> u64 + nat" where
  "span_loop [] idx at e = (if at < e then Inl at else Inr idx)"
| "span_loop (r # rs) idx at e =
     (if at < e
      then if rg_base r \<le> at \<and> at < Region_end r then span_loop rs (Suc idx) (Region_end r) e else Inl at
      else Inr idx)"

definition GuestMemory_region_span :: "u64 \<Rightarrow> u64 \<Rightarrow> GuestMemory \<Rightarrow> u64 + nat \<times> nat" where
  "GuestMemory_region_span addr len m =
     (case GuestMemory_containing_region_index addr len m of
        Some idx \<Rightarrow> Inr (idx, idx + 1)
      | None \<Rightarrow>
          (case checked_add addr len of
             None \<Rightarrow> Inl addr
           | Some e \<Rightarrow>
               let after = partition_point (\<lambda>r. rg_base r \<le> addr) (gm_regions m)
               in if len = 0 \<or> after = 0 \<or> addr < gm_unmapped_below m then Inl addr
                  else let first = after - 1
                       in rbind (span_loop (drop first (gm_regions m)) first addr e)
                            (\<lambda>idx. Inr (first, idx))))"

definition GuestMemory_holds :: "u64 \<Rightarrow> u64 \<Rightarrow> GuestMemory \<Rightarrow> bool" where
  "GuestMemory_holds addr len m = is_ok (GuestMemory_region_span addr len m)"

definition GuestMemory_fault_context :: "u64 \<Rightarrow> GuestMemory \<Rightarrow> FaultContext" where
  "GuestMemory_fault_context addr m =
     (let idx = partition_point (\<lambda>r. rg_base r \<le> addr) (gm_regions m);
          below = (if idx > 0 then Some (rg_label (gm_regions m ! (idx - 1))) else None);
          above = (if idx < length (gm_regions m) then Some (rg_label (gm_regions m ! idx)) else None)
      in FaultContext addr below above)"

section \<open>Reads\<close>

definition GuestMemory_note_provisional_read :: "u64 \<Rightarrow> u64 \<Rightarrow> GuestMemory \<Rightarrow> GuestMemory" where
  "GuestMemory_note_provisional_read addr len m =
     (if gm_reads_unlogged m then m
      else let len32 = (if unat len \<le> unat u32_MAX then ucast len else u32_MAX);
               log = gm_provisional_reads m;
               hits = (case map_of log (addr, len32) of Some h \<Rightarrow> h | None \<Rightarrow> 0)
           in m\<lparr>gm_provisional_read_count := saturating_add (gm_provisional_read_count m) 1,
                gm_provisional_reads := btree_insert (addr, len32) (saturating_add hits 1) log,
                gm_provisional_journal := gm_provisional_journal m @ [(addr, len32)]\<rparr>)"

text \<open>One turn of the rewind loop, for the newest journal entry \<^verbatim>\<open>key\<close>.\<close>

definition rewind_one :: "u64 \<times> u32 \<Rightarrow> GuestMemory \<Rightarrow> GuestMemory" where
  "rewind_one key m =
     (let log = gm_provisional_reads m;
          log' = (case map_of log key of
                    None \<Rightarrow> log
                  | Some hits \<Rightarrow> if hits - 1 = 0 then btree_remove key log else btree_insert key (hits - 1) log)
      in m\<lparr>gm_provisional_reads := log',
           gm_provisional_read_count := gm_provisional_read_count m - 1\<rparr>)"

function GuestMemory_rewind_provisional_reads :: "u64 \<Rightarrow> GuestMemory \<Rightarrow> GuestMemory" where
  "GuestMemory_rewind_provisional_reads count m =
     (if gm_provisional_read_count m > count then
        if gm_provisional_journal m = [] then m
        else GuestMemory_rewind_provisional_reads count
               (rewind_one (last (gm_provisional_journal m))
                  (m\<lparr>gm_provisional_journal := butlast (gm_provisional_journal m)\<rparr>))
      else m)"
  by pat_completeness auto
termination
  by (relation "measure (\<lambda>(c, m). length (gm_provisional_journal m))")
     (auto simp: rewind_one_def Let_def)

declare GuestMemory_rewind_provisional_reads.simps [simp del]

datatype ProvisionalRead = ProvisionalRead (pr_addr: u64) (pr_len: u32) (pr_hits: u32)

definition GuestMemory_drain_provisional_reads :: "GuestMemory \<Rightarrow> ProvisionalRead list \<times> GuestMemory" where
  "GuestMemory_drain_provisional_reads m =
     (let log = gm_provisional_reads m
      in if log = [] then ([], m)
         else (map (\<lambda>((addr, len), hits). ProvisionalRead addr len hits) log,
               m\<lparr>gm_provisional_journal := [], gm_provisional_reads := []\<rparr>))"

definition GuestMemory_with_reads_unlogged ::
    "(GuestMemory \<Rightarrow> 'r \<times> GuestMemory) \<Rightarrow> GuestMemory \<Rightarrow> 'r \<times> GuestMemory" where
  "GuestMemory_with_reads_unlogged f m =
     (let restore = gm_reads_unlogged m;
          (r, m') = f (m\<lparr>gm_reads_unlogged := True\<rparr>)
      in (r, m'\<lparr>gm_reads_unlogged := restore\<rparr>))"

text \<open>The pieces of a read, region by region; each provisional piece is noted.\<close>

fun read_pieces :: "u64 \<Rightarrow> u64 \<Rightarrow> Region list \<Rightarrow> GuestMemory \<Rightarrow> (bytes \<times> GuestMemory) option" where
  "read_pieces start e [] m = Some ([], m)"
| "read_pieces start e (r # rs) m =
     (let at = max start (rg_base r);
          piece_end = min e (Region_end r);
          m1 = (if rg_access r = ReservedZeroReadable
                then GuestMemory_note_provisional_read at (piece_end - at) m else m);
          offset = unat (at - rg_base r)
      in case get_slice offset (unat (piece_end - at)) (rg_bytes r) of
           None \<Rightarrow> None
         | Some piece \<Rightarrow>
             (case read_pieces start e rs m1 of
                None \<Rightarrow> None | Some (rest, m2) \<Rightarrow> Some (piece @ rest, m2)))"

definition GuestMemory_resolve_read ::
    "ByteRange \<Rightarrow> GuestMemory \<Rightarrow> ((MemError + bytes) \<times> GuestMemory) option" where
  "GuestMemory_resolve_read rng m =
     (let start = GuestAddr_raw (br_start rng); len = br_length rng
      in case GuestMemory_region_span start len m of
           Inl _ \<Rightarrow> Some (Inl (Unmapped (GuestMemory_fault_context start m)), m)
         | Inr (i, j) \<Rightarrow>
             let regions = slice i (j - i) (gm_regions m)
             in case find (\<lambda>r. rg_access r = ReservedStrict) regions of
                  Some r \<Rightarrow> Some (Inl (ReservedStrictRead (max start (rg_base r)) (rg_label r)), m)
                | None \<Rightarrow> map_option (\<lambda>(bs, m'). (Inr bs, m')) (read_pieces start (start + len) regions m))"

definition GuestMemory_read_checked ::
    "ByteRange \<Rightarrow> GuestMemory \<Rightarrow> ((MemError + bytes) \<times> GuestMemory) option" where
  "GuestMemory_read_checked rng m = GuestMemory_resolve_read rng m"

definition GuestMemory_read :: "ByteRange \<Rightarrow> GuestMemory \<Rightarrow> (bytes option \<times> GuestMemory) option" where
  "GuestMemory_read rng m =
     map_option (\<lambda>(r, m'). (case r of Inr bs \<Rightarrow> Some bs | Inl _ \<Rightarrow> None, m')) (GuestMemory_resolve_read rng m)"

section \<open>Writes\<close>

definition GuestMemory_write_span :: "ByteRange \<Rightarrow> usize \<Rightarrow> GuestMemory \<Rightarrow> MemError + nat \<times> nat" where
  "GuestMemory_write_span rng byte_len m =
     (if (of_nat byte_len :: u64) \<noteq> br_length rng then Inl LengthMismatch
      else let start = GuestAddr_raw (br_start rng)
           in case GuestMemory_region_span start (br_length rng) m of
                Inl _ \<Rightarrow> Inl (Unmapped (GuestMemory_fault_context start m))
              | Inr (i, j) \<Rightarrow>
                  (case find (\<lambda>r. rg_access r \<noteq> ReadWrite) (slice i (j - i) (gm_regions m)) of
                     Some r \<Rightarrow> Inl (ReservedWrite (max start (rg_base r)) (rg_label r))
                   | None \<Rightarrow> Inr (i, j)))"

definition GuestMemory_validate_write :: "ByteRange \<Rightarrow> usize \<Rightarrow> GuestMemory \<Rightarrow> MemError + unit" where
  "GuestMemory_validate_write rng byte_len m =
     rbind (GuestMemory_write_span rng byte_len m) (\<lambda>_. Inr ())"

text \<open>
  One region of the copy loop: it takes \<^verbatim>\<open>n\<close> bytes from the buffer and marks the pages it
  touches dirty in the region and stale in the region's page hashes.
\<close>

definition commit_region ::
    "bytes \<Rightarrow> u64 \<Rightarrow> nat \<Rightarrow> nat \<Rightarrow> GuestMemory \<Rightarrow> (nat \<times> GuestMemory) option" where
  "commit_region bs at taken idx m =
     (if \<not> idx < length (gm_regions m) then None
      else let region = gm_regions m ! idx;
               offset = unat (at - rg_base region)
           in if offset > length (rg_bytes region) then None
              else let n = min (length (rg_bytes region) - offset) (length bs - taken);
                       e = offset + n;
                       region1 = region\<lparr>rg_bytes := splice offset (slice taken n bs) (rg_bytes region)\<rparr>
                   in if n = 0 then Some (n, m\<lparr>gm_regions := (gm_regions m)[idx := region1]\<rparr>)
                      else if \<not> idx < length (gm_page_hashes m) then None
                      else let first_page = offset div RESET_PAGE_SIZE;
                               last_page = (e - 1) div RESET_PAGE_SIZE;
                               hashes = gm_page_hashes m ! idx
                           in case (DirtyPages_mark_range first_page last_page (rg_dirty_pages region1),
                                    DirtyPages_mark_range first_page last_page (ph_stale hashes)) of
                                (Some d, Some s) \<Rightarrow>
                                  Some (n, m\<lparr>gm_regions := (gm_regions m)[idx := region1\<lparr>rg_dirty_pages := d\<rparr>],
                                             gm_page_hashes := (gm_page_hashes m)[idx := hashes\<lparr>ph_stale := s\<rparr>]\<rparr>)
                              | _ \<Rightarrow> None)"

fun commit_loop :: "bytes \<Rightarrow> u64 \<Rightarrow> nat \<Rightarrow> nat list \<Rightarrow> GuestMemory \<Rightarrow> GuestMemory option" where
  "commit_loop bs at taken [] m = Some m"
| "commit_loop bs at taken (idx # idxs) m =
     (case commit_region bs at taken idx m of
        None \<Rightarrow> None
      | Some (n, m') \<Rightarrow> commit_loop bs (at + of_nat n) (taken + n) idxs m')"

definition GuestMemory_apply_commit ::
    "ByteRange \<Rightarrow> bytes \<Rightarrow> GuestMemory \<Rightarrow> (MemError + GuestMemory) option" where
  "GuestMemory_apply_commit rng bs m =
     (case GuestMemory_write_span rng (length bs) m of
        Inl e \<Rightarrow> Some (Inl e)
      | Inr (i, j) \<Rightarrow>
          (case commit_loop bs (GuestAddr_raw (br_start rng)) 0 [i..<j] m of
             None \<Rightarrow> None
           | Some m' \<Rightarrow> Some (Inr (m'\<lparr>gm_cached_hash := None\<rparr>))))"

section \<open>Reset and summaries\<close>

definition stale_or_dirty :: "Region \<Rightarrow> PageHashes \<Rightarrow> PageHashes" where
  "stale_or_dirty r h =
     (let bits = dp_bits (ph_stale h); dirty = dp_bits (rg_dirty_pages r)
      in h\<lparr>ph_stale := (ph_stale h)
            \<lparr>dp_bits := map2 (\<lambda>s d. s OR d) bits dirty @ drop (length dirty) bits\<rparr>\<rparr>)"

fun reset_regions :: "Region list \<Rightarrow> PageHashes list \<Rightarrow> (Region list \<times> PageHashes list) option" where
  "reset_regions (r # rs) (h # hs) =
     (case Region_reset_for_reuse r of
        None \<Rightarrow> None
      | Some r' \<Rightarrow> map_option (\<lambda>(rs', hs'). (r' # rs', stale_or_dirty r h # hs')) (reset_regions rs hs))"
| "reset_regions rs hs = Some (rs, hs)"

definition GuestMemory_reset_for_reuse :: "GuestMemory \<Rightarrow> GuestMemory option" where
  "GuestMemory_reset_for_reuse m =
     map_option (\<lambda>(rs, hs). m\<lparr>gm_regions := rs, gm_page_hashes := hs, gm_cached_hash := None,
                              gm_provisional_read_count := 0, gm_provisional_reads := [],
                              gm_provisional_journal := []\<rparr>)
       (reset_regions (gm_regions m) (gm_page_hashes m))"

record RegionView =
  rv_base :: u64
  rv_bytes :: bytes
  rv_provisional :: bool
  rv_write_refused_by :: "string option"
  rv_caching_inhibited :: bool

definition region_view :: "u64 \<Rightarrow> Region \<Rightarrow> RegionView option" where
  "region_view floor r =
     (let skip = unat (saturating_sub floor (rg_base r))
      in if skip \<le> length (rg_bytes r) \<and> drop skip (rg_bytes r) \<noteq> []
         then Some \<lparr>rv_base = max (rg_base r) floor, rv_bytes = drop skip (rg_bytes r),
                    rv_provisional = (rg_access r = ReservedZeroReadable),
                    rv_write_refused_by = (if rg_access r \<noteq> ReadWrite then Some (rg_label r) else None),
                    rv_caching_inhibited = rg_caching_inhibited r\<rparr>
         else None)"

definition GuestMemory_region_views :: "GuestMemory \<Rightarrow> RegionView list" where
  "GuestMemory_region_views m = List.map_filter (region_view (gm_unmapped_below m)) (gm_regions m)"

definition GuestMemory_window_ranges :: "GuestMemory \<Rightarrow> (u64 \<times> u64) list" where
  "GuestMemory_window_ranges m =
     map (\<lambda>r. (rg_base r, Region_end r)) (filter (\<lambda>r. rg_window r \<noteq> None) (gm_regions m))"

definition GuestMemory_window_span :: "GuestMemory \<Rightarrow> (u64 \<times> u64) option" where
  "GuestMemory_window_span m =
     (case filter (\<lambda>r. rg_window r \<noteq> None) (gm_regions m) of
        [] \<Rightarrow> None
      | first # rest \<Rightarrow>
          Some (rg_base first, Region_end (if rest = [] then first else last rest)))"

definition GuestMemory_size :: "GuestMemory \<Rightarrow> u64" where
  "GuestMemory_size m = sum_list (map Region_size (gm_regions m))"

definition GuestMemory_as_bytes :: "GuestMemory \<Rightarrow> bytes" where
  "GuestMemory_as_bytes m =
     (case gm_regions m of r # _ \<Rightarrow> if rg_base r = 0 then rg_bytes r else [] | [] \<Rightarrow> [])"

section \<open>Well-formed region maps\<close>

definition rbase :: "Region \<Rightarrow> nat" where "rbase r = unat (rg_base r)"
definition rend :: "Region \<Rightarrow> nat" where "rend r = rbase r + length (rg_bytes r)"
definition rpages :: "Region \<Rightarrow> nat" where "rpages r = div_ceil (length (rg_bytes r)) RESET_PAGE_SIZE"

definition region_ok :: "Region \<Rightarrow> bool" where
  "region_ok r \<longleftrightarrow> rend r < 2 ^ 64 \<and> length (dp_bits (rg_dirty_pages r)) = div_ceil (rpages r) 64"

definition regions_ok :: "Region list \<Rightarrow> bool" where
  "regions_ok rs \<longleftrightarrow> (\<forall>r \<in> set rs. region_ok r) \<and> sorted_wrt (\<lambda>r s. rend r \<le> rbase s) rs"

definition hashes_fit :: "Region \<Rightarrow> PageHashes \<Rightarrow> bool" where
  "hashes_fit r h \<longleftrightarrow> length (dp_bits (ph_stale h)) = div_ceil (rpages r) 64 \<and> length (ph_terms h) = rpages r"

definition gm_wf :: "GuestMemory \<Rightarrow> bool" where
  "gm_wf m \<longleftrightarrow> regions_ok (gm_regions m) \<and> list_all2 hashes_fit (gm_regions m) (gm_page_hashes m)"

fun byte_at :: "Region list \<Rightarrow> nat \<Rightarrow> u8 option" where
  "byte_at [] a = None"
| "byte_at (r # rs) a =
     (if rbase r \<le> a \<and> a < rend r then Some (rg_bytes r ! (a - rbase r)) else byte_at rs a)"

definition mem_byte :: "GuestMemory \<Rightarrow> nat \<Rightarrow> u8 option" where
  "mem_byte m a = byte_at (gm_regions m) a"

lemma rbase_le_rend [simp]: "rbase r \<le> rend r"
  by (simp add: rend_def)

lemma unat_Region_size: "region_ok r \<Longrightarrow> unat (Region_size r) = length (rg_bytes r)"
  by (simp add: region_ok_def rend_def Region_size_def unat_of_nat_no_wrap)

lemma unat_Region_end: "region_ok r \<Longrightarrow> unat (Region_end r) = rend r"
  by (simp add: Region_end_def unat_saturating_add unat_Region_size)
     (simp add: region_ok_def rend_def rbase_def)

lemma regions_ok_Cons [simp]:
  "regions_ok (r # rs) \<longleftrightarrow> region_ok r \<and> (\<forall>s \<in> set rs. rend r \<le> rbase s) \<and> regions_ok rs"
  by (auto simp: regions_ok_def)

lemma regions_ok_Nil [simp]: "regions_ok []"
  by (simp add: regions_ok_def)

lemma regions_ok_append [simp]:
  "regions_ok (rs @ ss) \<longleftrightarrow>
     regions_ok rs \<and> regions_ok ss \<and> (\<forall>r \<in> set rs. \<forall>s \<in> set ss. rend r \<le> rbase s)"
  by (auto simp: regions_ok_def sorted_wrt_append)

lemma byte_at_None_iff: "byte_at rs a = None \<longleftrightarrow> (\<forall>r \<in> set rs. \<not> (rbase r \<le> a \<and> a < rend r))"
  by (induction rs) auto

lemma byte_at_append:
  "byte_at (rs @ ss) a = (case byte_at rs a of None \<Rightarrow> byte_at ss a | Some b \<Rightarrow> Some b)"
  by (induction rs) auto

lemma byte_at_before: "\<forall>r \<in> set rs. e \<le> rbase r \<Longrightarrow> a < e \<Longrightarrow> byte_at rs a = None"
  by (force simp: byte_at_None_iff)

lemma byte_at_after: "\<forall>r \<in> set rs. rend r \<le> b \<Longrightarrow> b \<le> a \<Longrightarrow> byte_at rs a = None"
  by (force simp: byte_at_None_iff)

lemma byte_at_region:
  "regions_ok rs \<Longrightarrow> r \<in> set rs \<Longrightarrow> rbase r \<le> a \<Longrightarrow> a < rend r \<Longrightarrow>
   byte_at rs a = Some (rg_bytes r ! (a - rbase r))"
proof (induction rs)
  case (Cons s rs)
  then show ?case by (cases "r = s") force+
qed simp

section \<open>Spans\<close>

text \<open>
  \<open>chain rs at e\<close>: the regions sit end to end, the first holds \<open>at\<close>, and together they hold
  every address from \<open>at\<close> up to \<open>e\<close>.
\<close>

fun chain :: "Region list \<Rightarrow> nat \<Rightarrow> nat \<Rightarrow> bool" where
  "chain [] at e \<longleftrightarrow> e \<le> at"
| "chain (r # rs) at e \<longleftrightarrow> at < e \<and> rbase r \<le> at \<and> at < rend r \<and> chain rs (rend r) e"

lemma chain_nonempty: "chain rs at e \<Longrightarrow> r \<in> set rs \<Longrightarrow> rbase r < rend r"
  by (induction rs arbitrary: at) auto

lemma chain_mapped: "chain rs at e \<Longrightarrow> at \<le> a \<Longrightarrow> a < e \<Longrightarrow> \<exists>r \<in> set rs. rbase r \<le> a \<and> a < rend r"
proof (induction rs arbitrary: at)
  case (Cons r rs)
  then show ?case by (cases "a < rend r") force+
qed simp

lemma span_loop_chain:
  assumes "\<forall>r \<in> set rs. region_ok r" and "span_loop rs idx at e = Inr j"
  shows "idx \<le> j \<and> j - idx \<le> length rs \<and> chain (take (j - idx) rs) (unat at) (unat e)"
  using assms
proof (induction rs arbitrary: idx at)
  case Nil
  then show ?case by (auto simp: word_less_nat_alt not_less split: if_splits)
next
  case (Cons r rs)
  show ?case
  proof (cases "at < e")
    case True
    then have r: "rg_base r \<le> at" "at < Region_end r" "span_loop rs (Suc idx) (Region_end r) e = Inr j"
      using Cons.prems(2) by (auto split: if_splits)
    have IH: "Suc idx \<le> j \<and> j - Suc idx \<le> length rs \<and> chain (take (j - Suc idx) rs) (rend r) (unat e)"
      using Cons.IH [OF _ r(3)] Cons.prems(1) by (simp add: unat_Region_end)
    then have "take (j - idx) (r # rs) = r # take (j - Suc idx) rs"
      by (simp add: Suc_diff_Suc Suc_le_eq flip: take_Suc_Cons)
    then show ?thesis
      using IH r True Cons.prems(1) by (auto simp: word_less_nat_alt word_le_nat_alt rbase_def unat_Region_end)
  next
    case False
    then show ?thesis using Cons.prems(2) by (auto simp: word_less_nat_alt not_less)
  qed
qed

lemma span_loop_holds:
  assumes "regions_ok rs" and "\<forall>r \<in> set rs. unat at < rbase r \<and> rbase r < unat e \<longrightarrow> rbase r < rend r"
    and "\<forall>a. unat at \<le> a \<and> a < unat e \<longrightarrow> (\<exists>r \<in> set rs. rbase r \<le> a \<and> a < rend r)"
    and "rs \<noteq> [] \<Longrightarrow> unat at < unat e \<Longrightarrow> unat at < rend (hd rs)"
  shows "\<exists>j. span_loop rs idx at e = Inr j"
  using assms
proof (induction rs arbitrary: idx at)
  case Nil
  then have "\<not> at < e" by (force simp: word_less_nat_alt)
  then show ?case by simp
next
  case (Cons r rs)
  show ?case
  proof (cases "at < e")
    case True
    then have lt: "unat at < unat e" by (simp add: word_less_nat_alt)
    then have ar: "unat at < rend r" using Cons.prems(4) by simp
    obtain s where s: "s \<in> set (r # rs)" "rbase s \<le> unat at" using Cons.prems(3) lt by blast
    have br: "rbase r \<le> unat at"
      using s Cons.prems(1) ar rbase_le_rend [of r] by (auto dest!: bspec)
    have ok: "region_ok r" using Cons.prems(1) by simp
    have "\<exists>j. span_loop rs (Suc idx) (Region_end r) e = Inr j"
    proof (rule Cons.IH)
      show "regions_ok rs" using Cons.prems by simp
      show "\<forall>s \<in> set rs. unat (Region_end r) < rbase s \<and> rbase s < unat e \<longrightarrow> rbase s < rend s"
        using Cons.prems(2) ar ok by (auto simp: unat_Region_end)
      show "\<forall>a. unat (Region_end r) \<le> a \<and> a < unat e \<longrightarrow> (\<exists>r \<in> set rs. rbase r \<le> a \<and> a < rend r)"
      proof (intro allI impI)
        fix a assume "unat (Region_end r) \<le> a \<and> a < unat e"
        then have "rend r \<le> a" "unat at \<le> a \<and> a < unat e" using ar ok by (auto simp: unat_Region_end)
        then show "\<exists>r \<in> set rs. rbase r \<le> a \<and> a < rend r" using Cons.prems(3) by auto
      qed
      show "unat (Region_end r) < rend (hd rs)" if "rs \<noteq> []" "unat (Region_end r) < unat e"
      proof -
        have h: "hd rs \<in> set rs" "unat (Region_end r) = rend r" using that ok by (simp_all add: unat_Region_end)
        then have "rend r \<le> rbase (hd rs)" using Cons.prems(1) by simp
        moreover have "rbase (hd rs) < rend (hd rs)" if "rbase (hd rs) = rend r"
          using bspec [OF Cons.prems(2), of "hd rs"] h ar that \<open>unat (Region_end r) < unat e\<close> by simp
        ultimately show ?thesis using h(2) rbase_le_rend [of "hd rs"] by linarith
      qed
    qed
    then show ?thesis
      using True ar br ok by (simp add: word_le_nat_alt word_less_nat_alt rbase_def unat_Region_end)
  qed simp
qed

lemma partition_point_bases:
  assumes "regions_ok rs" and "i = partition_point (\<lambda>r. rg_base r \<le> addr) rs"
  shows "\<forall>r \<in> set (take i rs). rbase r \<le> unat addr" "\<forall>r \<in> set (drop i rs). unat addr < rbase r"
    "i \<le> length rs"
proof -
  let ?P = "\<lambda>r. rg_base r \<le> addr"
  have tk: "take i rs = takeWhile ?P rs" and dr: "drop i rs = dropWhile ?P rs"
    unfolding assms(2) partition_point_def
    by (rule takeWhile_eq_take [symmetric], rule dropWhile_eq_drop [symmetric])
  show "\<forall>r \<in> set (take i rs). rbase r \<le> unat addr"
    unfolding tk by (auto simp: rbase_def word_le_nat_alt dest: set_takeWhileD)
  show "i \<le> length rs" by (simp add: assms(2) partition_point_def length_takeWhile_le)
  show "\<forall>r \<in> set (drop i rs). unat addr < rbase r"
  proof (cases "drop i rs")
    case (Cons r ss)
    then have "\<not> ?P r" using dr hd_dropWhile [of ?P rs] by simp
    then have "unat addr < rbase r" by (simp add: rbase_def word_le_nat_alt not_le)
    moreover have "regions_ok (drop i rs)"
      using assms(1) regions_ok_append [of "take i rs" "drop i rs"] by simp
    then have "\<forall>s \<in> set ss. rbase r \<le> rbase s"
      using Cons by (auto intro: order_trans [OF rbase_le_rend])
    ultimately show ?thesis using Cons by fastforce
  qed simp
qed

lemma containing_index:
  assumes "gm_wf m" and "GuestMemory_containing_region_index addr len m = Some i"
  shows "i < length (gm_regions m)" "rbase (gm_regions m ! i) \<le> unat addr"
    "unat addr + unat len \<le> rend (gm_regions m ! i)" "gm_unmapped_below m \<le> addr"
    "unat addr + unat len < 2 ^ 64"
proof -
  define k where "k = partition_point (\<lambda>r. rg_base r \<le> addr) (gm_regions m)"
  have k: "k \<noteq> 0" "\<not> addr < gm_unmapped_below m" "i = k - 1" "Region_contains (gm_regions m ! i) addr len"
    using assms(2)
    by (auto simp: GuestMemory_containing_region_index_def Let_def k_def [symmetric] split: if_splits)
  have "regions_ok (gm_regions m)" using assms(1) by (simp add: gm_wf_def)
  note pp = partition_point_bases [OF this k_def]
  show i: "i < length (gm_regions m)" using k pp(3) by simp
  have ok: "region_ok (gm_regions m ! i)" using assms(1) i by (simp add: gm_wf_def regions_ok_def)
  show "rbase (gm_regions m ! i) \<le> unat addr" "unat addr + unat len \<le> rend (gm_regions m ! i)"
    "unat addr + unat len < 2 ^ 64"
    using k(4) ok
    by (auto simp: Region_contains_def checked_add_def rbase_def word_le_nat_alt unat_Region_end
          unat_plus_no_wrap split: if_splits option.splits)
  show "gm_unmapped_below m \<le> addr" using k(2) by simp
qed

lemma region_span_chain:
  assumes "gm_wf m" and "GuestMemory_region_span addr len m = Inr (i, j)" and "len \<noteq> 0"
  shows "i < j" "j \<le> length (gm_regions m)"
    "chain (slice i (j - i) (gm_regions m)) (unat addr) (unat addr + unat len)"
    "unat addr + unat len < 2 ^ 64" "gm_unmapped_below m \<le> addr"
proof -
  have "i < j \<and> j \<le> length (gm_regions m) \<and>
    chain (slice i (j - i) (gm_regions m)) (unat addr) (unat addr + unat len) \<and>
    unat addr + unat len < 2 ^ 64 \<and> gm_unmapped_below m \<le> addr"
  proof (cases "GuestMemory_containing_region_index addr len m")
    case (Some idx)
    then have ij: "i = idx" "j = idx + 1" using assms(2) by (simp_all add: GuestMemory_region_span_def)
    note ci = containing_index [OF assms(1) Some]
    have "slice i (j - i) (gm_regions m) = [gm_regions m ! idx]"
      using ci(1) ij by (simp add: slice_def take_Suc_conv_app_nth)
    moreover have "0 < unat len" using assms(3) by (simp add: unat_gt_0)
    ultimately show ?thesis using ci ij by auto
  next
    case None
    define k where "k = partition_point (\<lambda>r. rg_base r \<le> addr) (gm_regions m)"
    obtain e where e: "checked_add addr len = Some e"
      using assms(2) None by (cases "checked_add addr len") (simp_all add: GuestMemory_region_span_def)
    have "(if len = 0 \<or> k = 0 \<or> addr < gm_unmapped_below m then Inl addr
      else rbind (span_loop (drop (k - 1) (gm_regions m)) (k - 1) addr e) (\<lambda>idx. Inr (k - 1, idx))) = Inr (i, j)"
      using assms(2) None e unfolding GuestMemory_region_span_def Let_def k_def by simp
    then have k0: "k \<noteq> 0" "gm_unmapped_below m \<le> addr"
      and sp: "span_loop (drop (k - 1) (gm_regions m)) (k - 1) addr e = Inr j" and i: "i = k - 1"
      by (auto simp: rbind_Inr_iff split: if_splits)
    have ee: "unat e = unat addr + unat len" "unat addr + unat len < 2 ^ 64"
      using e by (auto simp: checked_add_Some_iff unat_plus_no_wrap)
    have "\<forall>r \<in> set (drop i (gm_regions m)). region_ok r"
      using assms(1) by (auto simp: gm_wf_def regions_ok_def dest: in_set_dropD)
    note sl = span_loop_chain [OF this sp [folded i]]
    have "i \<noteq> j" using sl ee assms(3) unat_gt_0 [of len] by auto
    then show ?thesis using sl ee k0 by (auto simp: slice_def)
  qed
  then show "i < j" "j \<le> length (gm_regions m)"
    "chain (slice i (j - i) (gm_regions m)) (unat addr) (unat addr + unat len)"
    "unat addr + unat len < 2 ^ 64" "gm_unmapped_below m \<le> addr" by blast+
qed

lemma region_span_zero:
  assumes "gm_wf m" and "GuestMemory_region_span addr 0 m = Inr (i, j)"
  shows "j = i + 1" "i < length (gm_regions m)" "rbase (gm_regions m ! i) \<le> unat addr"
    "unat addr \<le> rend (gm_regions m ! i)"
proof -
  have c: "GuestMemory_containing_region_index addr 0 m = Some i" and j: "j = i + 1"
    using assms(2) by (auto simp: GuestMemory_region_span_def Let_def split: option.splits if_splits)
  show "j = i + 1" by fact
  show "i < length (gm_regions m)" "rbase (gm_regions m ! i) \<le> unat addr"
    "unat addr \<le> rend (gm_regions m ! i)"
    using containing_index [OF assms(1) c] by simp_all
qed

lemma slice_subset: "set (slice i n xs) \<subseteq> set xs"
  unfolding slice_def by (meson order_trans set_drop_subset set_take_subset)

lemma holds_if_mapped:
  assumes "gm_wf m"
    and "\<forall>r \<in> set (gm_regions m). unat addr < rbase r \<and> rbase r < unat addr + unat len \<longrightarrow> rbase r < rend r"
    and "len \<noteq> 0" and "unat addr + unat len < 2 ^ 64" and "gm_unmapped_below m \<le> addr"
    and mapped: "\<And>a. unat addr \<le> a \<Longrightarrow> a < unat addr + unat len \<Longrightarrow> mem_byte m a \<noteq> None"
  shows "GuestMemory_holds addr len m"
proof (cases "GuestMemory_containing_region_index addr len m")
  case None
  let ?rs = "gm_regions m"
  define k where "k = partition_point (\<lambda>r. rg_base r \<le> addr) ?rs"
  have ok: "regions_ok ?rs" using assms(1) by (simp add: gm_wf_def)
  note pp = partition_point_bases [OF ok k_def]
  have in_reg: "\<exists>r \<in> set ?rs. rbase r \<le> a \<and> a < rend r" if "unat addr \<le> a" "a < unat addr + unat len" for a
    using mapped [OF that] by (auto simp: mem_byte_def byte_at_None_iff)
  have "0 < unat len" using assms(3) by (simp add: unat_gt_0)
  then obtain r where r: "r \<in> set ?rs" "rbase r \<le> unat addr" "unat addr < rend r"
    using in_reg [of "unat addr"] by auto
  have "r \<in> set (take k ?rs)"
    using r pp(2) by (metis append_take_drop_id in_set_conv_decomp_first not_less set_append Un_iff)
  then have k0: "k \<noteq> 0" by (cases k) simp_all
  define i where "i = k - 1"
  have take_k: "take k ?rs = take i ?rs @ [?rs ! i]" and drop_i: "drop i ?rs = ?rs ! i # drop k ?rs"
    using k0 pp(3) by (simp_all add: i_def take_Suc_conv_app_nth [symmetric] Cons_nth_drop_Suc [symmetric])
  have ok2: "regions_ok (take i ?rs @ drop i ?rs)" using ok by simp
  have "?rs ! i = r"
  proof (rule ccontr)
    assume "?rs ! i \<noteq> r"
    then have "r \<in> set (take i ?rs)" using \<open>r \<in> set (take k ?rs)\<close> take_k by auto
    then have "rend r \<le> rbase (?rs ! i)" using ok2 drop_i unfolding regions_ok_append by auto
    moreover have "rbase (?rs ! i) \<le> unat addr" using pp(1) take_k by auto
    ultimately show False using r(3) by simp
  qed
  have before: "\<forall>s \<in> set (take i ?rs). rend s \<le> unat addr"
    using ok2 drop_i \<open>?rs ! i = r\<close> r(2) unfolding regions_ok_append by fastforce
  obtain e where e: "checked_add addr len = Some e" "unat e = unat addr + unat len"
    using assms(4) by (simp add: checked_add_def unat_plus_no_wrap)
  have "\<exists>j. span_loop (drop i ?rs) i addr e = Inr j"
  proof (rule span_loop_holds)
    show "regions_ok (drop i ?rs)" using ok2 unfolding regions_ok_append by blast
    show "\<forall>r \<in> set (drop i ?rs). unat addr < rbase r \<and> rbase r < unat e \<longrightarrow> rbase r < rend r"
      using assms(2) e(2) by (auto dest: in_set_dropD)
    show "\<forall>a. unat addr \<le> a \<and> a < unat e \<longrightarrow> (\<exists>r \<in> set (drop i ?rs). rbase r \<le> a \<and> a < rend r)"
    proof (intro allI impI)
      fix a assume a: "unat addr \<le> a \<and> a < unat e"
      then obtain s where s: "s \<in> set ?rs" "rbase s \<le> a" "a < rend s" using in_reg e(2) by auto
      then have "s \<notin> set (take i ?rs)" using before a by fastforce
      then have "s \<in> set (drop i ?rs)" using s(1) by (metis append_take_drop_id set_append Un_iff)
      then show "\<exists>r \<in> set (drop i ?rs). rbase r \<le> a \<and> a < rend r" using s by blast
    qed
    show "unat addr < rend (hd (drop i ?rs))" using drop_i \<open>?rs ! i = r\<close> r(3) by simp
  qed
  then show ?thesis
    using None e k0 assms(3,5)
    by (auto simp: GuestMemory_holds_def GuestMemory_region_span_def Let_def k_def [symmetric] i_def)
qed (simp add: GuestMemory_holds_def GuestMemory_region_span_def)

end
