(* ===== verification/Guest_Access.thy ===== *)
theory Guest_Access
  imports Guest_Memory
begin

text \<open>
  The read and write paths of the guest memory against its byte map: what \<^verbatim>\<open>read_checked\<close>
  returns, what \<^verbatim>\<open>apply_commit\<close> changes, which errors they give, and that neither panics on a
  well-formed memory.
\<close>

section \<open>What an operation leaves alone\<close>

definition same_shape :: "Region \<Rightarrow> Region \<Rightarrow> bool" where
  "same_shape r s \<longleftrightarrow> rg_base s = rg_base r \<and> length (rg_bytes s) = length (rg_bytes r) \<and>
     rg_label s = rg_label r \<and> rg_page_size s = rg_page_size r \<and> rg_access s = rg_access r \<and>
     rg_caching_inhibited s = rg_caching_inhibited r \<and> rg_window s = rg_window r"

definition same_content :: "GuestMemory \<Rightarrow> GuestMemory \<Rightarrow> bool" where
  "same_content m m' \<longleftrightarrow> gm_regions m' = gm_regions m \<and> gm_page_hashes m' = gm_page_hashes m \<and>
     gm_cached_hash m' = gm_cached_hash m \<and> gm_unmapped_below m' = gm_unmapped_below m \<and>
     gm_code_spans m' = gm_code_spans m \<and> gm_fetch_restricted m' = gm_fetch_restricted m \<and>
     gm_reads_unlogged m' = gm_reads_unlogged m"

lemma same_content_refl [simp]: "same_content m m"
  by (simp add: same_content_def)

lemma same_content_trans: "same_content m m' \<Longrightarrow> same_content m' m'' \<Longrightarrow> same_content m m''"
  by (simp add: same_content_def)

lemma same_content_note [simp]: "same_content m (GuestMemory_note_provisional_read a n m)"
  by (simp add: same_content_def GuestMemory_note_provisional_read_def Let_def)

lemma same_shape_refl [simp]: "same_shape r r"
  by (simp add: same_shape_def)

lemma same_shape_bounds: "same_shape r s \<Longrightarrow> rbase s = rbase r \<and> rend s = rend r \<and> rpages s = rpages r"
  by (simp add: same_shape_def rbase_def rend_def rpages_def)

section \<open>Reads\<close>

lemma read_piece_bytes:
  assumes "region_ok r" and "rbase r \<le> at" and "at \<le> e" and "e \<le> rend r"
  shows "get_slice (at - rbase r) (e - at) (rg_bytes r) = Some (map (\<lambda>a. rg_bytes r ! (a - rbase r)) [at..<e])"
proof -
  have "at - rbase r + (e - at) \<le> length (rg_bytes r)" using assms by (simp add: rend_def)
  moreover have "slice (at - rbase r) (e - at) (rg_bytes r) = map (\<lambda>a. rg_bytes r ! (a - rbase r)) [at..<e]"
    using assms by (intro nth_equalityI) (auto simp: rend_def)
  ultimately show ?thesis by (simp add: get_slice_def)
qed

lemma read_pieces_chain:
  assumes "regions_ok rs" and "chain rs at (unat e)"
    and "rs \<noteq> [] \<Longrightarrow> max (unat start) (rbase (hd rs)) = at"
  shows "\<exists>m'. read_pieces start e rs m = Some (map (\<lambda>a. the (byte_at rs a)) [at..<unat e], m') \<and>
    same_content m m'"
  using assms
proof (induction rs arbitrary: at m)
  case (Cons r rs)
  have r: "region_ok r" "rbase r \<le> at" "at < rend r" "at < unat e" "chain rs (rend r) (unat e)"
    using Cons.prems by simp_all
  define x where "x = min (unat e) (rend r)"
  have a: "unat (max start (rg_base r)) = at"
    using Cons.prems(3) by (simp add: unat_max rbase_def)
  have x: "unat (min e (Region_end r)) = x"
    using r(1) by (simp add: x_def unat_min unat_Region_end)
  have le: "max start (rg_base r) \<le> min e (Region_end r)" "rg_base r \<le> max start (rg_base r)"
    using a x r by (simp_all add: word_le_nat_alt x_def rbase_def)
  have len: "unat (min e (Region_end r) - max start (rg_base r)) = x - at"
    "unat (max start (rg_base r) - rg_base r) = at - rbase r"
    using le a x by (simp_all add: unat_sub rbase_def)
  define m1 where "m1 = (if rg_access r = ReservedZeroReadable
    then GuestMemory_note_provisional_read (max start (rg_base r)) (min e (Region_end r) - max start (rg_base r)) m else m)"
  have m1: "same_content m m1" by (simp add: m1_def)
  have nx: "max (unat start) (rbase (hd rs)) = rend r" if ne: "rs \<noteq> []"
  proof -
    obtain s ss where "rs = s # ss" using ne by (cases rs) auto
    then have "rbase s = rend r" using Cons.prems(1) r(5) by auto
    moreover have "unat start \<le> at" using Cons.prems(3) by simp
    ultimately show ?thesis using \<open>rs = s # ss\<close> r(3) by simp
  qed
  obtain m2 where m2: "read_pieces start e rs m1 = Some (map (\<lambda>a. the (byte_at rs a)) [rend r..<unat e], m2)"
    "same_content m1 m2"
    using Cons.IH [OF _ r(5) nx] Cons.prems(1) by auto
  have piece: "get_slice (at - rbase r) (x - at) (rg_bytes r) = Some (map (\<lambda>a. rg_bytes r ! (a - rbase r)) [at..<x])"
    by (rule read_piece_bytes) (use r in \<open>simp_all add: x_def\<close>)
  have "map (\<lambda>a. rg_bytes r ! (a - rbase r)) [at..<x] @ map (\<lambda>a. the (byte_at rs a)) [rend r..<unat e] =
        map (\<lambda>a. the (byte_at (r # rs) a)) [at..<unat e]"
  proof -
    have "[at..<unat e] = [at..<x] @ [rend r..<unat e]"
      using r upt_add_eq_append [of at "rend r" "unat e - rend r"] by (auto simp: x_def min_def)
    then show ?thesis using r by (auto simp: x_def)
  qed
  then show ?case
    using piece m2 m1 len by (auto simp: Let_def m1_def [symmetric] intro: same_content_trans)
qed simp

lemma regions_ok_slice: "regions_ok rs \<Longrightarrow> regions_ok (slice i n rs)"
  unfolding slice_def regions_ok_def
  by (auto intro: sorted_wrt_take sorted_wrt_drop dest: in_set_takeD in_set_dropD)

lemma byte_at_slice:
  assumes "regions_ok rs" and "chain (slice i n rs) at e" and "at \<le> a" and "a < e"
  shows "byte_at (slice i n rs) a = byte_at rs a"
proof -
  obtain r where r: "r \<in> set (slice i n rs)" "rbase r \<le> a" "a < rend r"
    using chain_mapped [OF assms(2-4)] by blast
  then have "r \<in> set rs" using slice_subset [of i n rs] by blast
  then show ?thesis
    using byte_at_region [OF assms(1)] byte_at_region [OF regions_ok_slice [OF assms(1)]] r by metis
qed

definition mem_bytes :: "GuestMemory \<Rightarrow> nat \<Rightarrow> nat \<Rightarrow> bytes" where
  "mem_bytes m at n = map (\<lambda>a. the (mem_byte m a)) [at..<at + n]"

lemma resolve_read_Inr:
  assumes wf: "gm_wf m" and sp: "GuestMemory_region_span start len m = Inr (i, j)"
  shows "\<exists>m'. read_pieces start (start + len) (slice i (j - i) (gm_regions m)) m =
      Some (mem_bytes m (unat start) (unat len), m') \<and> same_content m m'"
proof (cases "len = 0")
  case True
  note z = region_span_zero [OF wf sp [unfolded True]]
  let ?r = "gm_regions m ! i"
  have sl: "slice i (j - i) (gm_regions m) = [?r]" using z by (simp add: slice_def take_Suc_conv_app_nth)
  have ok: "region_ok ?r" using wf z by (simp add: gm_wf_def regions_ok_def)
  have mx: "max start (rg_base ?r) = start" using z by (intro unat_eqI) (simp add: unat_max rbase_def)
  have mn: "min start (Region_end ?r) = start"
    using z ok by (intro unat_eqI) (simp add: unat_min unat_Region_end)
  have "get_slice (unat (start - rg_base ?r)) 0 (rg_bytes ?r) = Some []"
    using z by (simp add: get_slice_def slice_def unat_sub word_le_nat_alt rbase_def rend_def)
  then show ?thesis
    by (simp add: sl True mx mn mem_bytes_def Let_def)
next
  case False
  note c = region_span_chain [OF wf sp False]
  let ?rs = "slice i (j - i) (gm_regions m)"
  have ok: "regions_ok (gm_regions m)" using wf by (simp add: gm_wf_def)
  have e: "unat (start + len) = unat start + unat len" using c(4) by (simp add: unat_plus_no_wrap)
  have hd: "max (unat start) (rbase (hd ?rs)) = unat start" if "?rs \<noteq> []"
    using that c(3) by (cases ?rs) auto
  obtain m' where "read_pieces start (start + len) ?rs m =
      Some (map (\<lambda>a. the (byte_at ?rs a)) [unat start..<unat (start + len)], m')" "same_content m m'"
    using read_pieces_chain [OF regions_ok_slice [OF ok], of i "j - i" "unat start" "start + len" start m] c(3) e hd
    by auto
  moreover have "map (\<lambda>a. the (byte_at ?rs a)) [unat start..<unat (start + len)] =
      mem_bytes m (unat start) (unat len)"
    unfolding mem_bytes_def mem_byte_def e using byte_at_slice [OF ok c(3)] by simp
  ultimately show ?thesis by auto
qed

section \<open>Writes\<close>

lemma byte_at_update:
  assumes "regions_ok rs" and "i < length rs" and "same_shape (rs ! i) r'"
  shows "byte_at (rs[i := r']) a =
    (if rbase (rs ! i) \<le> a \<and> a < rend (rs ! i) then Some (rg_bytes r' ! (a - rbase (rs ! i)))
     else byte_at rs a)"
  using assms
proof (induction rs arbitrary: i)
  case (Cons r rs)
  show ?case
  proof (cases i)
    case 0
    then show ?thesis using Cons.prems(3) same_shape_bounds by auto
  next
    case (Suc k)
    have "rend r \<le> rbase (rs ! k)" using Cons.prems(1,2) Suc by (auto simp: nth_mem)
    then have "\<not> (rbase (rs ! k) \<le> a \<and> a < rend r)" by linarith
    then show ?thesis
      using Cons.IH [of k] Cons.prems Suc by auto
  qed
qed simp

lemma regions_ok_update:
  assumes "regions_ok rs" and "i < length rs" and "same_shape (rs ! i) r'"
    and "length (dp_bits (rg_dirty_pages r')) = length (dp_bits (rg_dirty_pages (rs ! i)))"
  shows "regions_ok (rs[i := r'])"
proof -
  note sb = same_shape_bounds [OF assms(3)]
  have "region_ok r'" using assms sb by (auto simp: regions_ok_def region_ok_def)
  then have "\<forall>r \<in> set (rs[i := r']). region_ok r"
    using assms(1) by (auto simp: regions_ok_def dest!: set_update_subset_insert [THEN subsetD])
  moreover have "sorted_wrt (\<lambda>r s. rend r \<le> rbase s) (rs[i := r'])"
    using assms(1,2) sb by (auto simp: regions_ok_def sorted_wrt_iff_nth_less nth_list_update)
  ultimately show ?thesis by (simp add: regions_ok_def)
qed

lemma page_in_bitmap:
  assumes "off < e" and "e \<le> len"
  shows "(e - 1) div RESET_PAGE_SIZE < div_ceil len RESET_PAGE_SIZE"
    "(e - 1) div RESET_PAGE_SIZE div 64 < div_ceil (div_ceil len RESET_PAGE_SIZE) 64"
proof -
  have P: "0 < RESET_PAGE_SIZE" by (simp add: RESET_PAGE_SIZE_def)
  have gen: "(k :: nat) < n \<Longrightarrow> 0 < d \<Longrightarrow> k div d < div_ceil n d" for k n d
    using div_ceil_ge [of d n] by (metis div_less_iff_less_mult less_le_trans)
  show p: "(e - 1) div RESET_PAGE_SIZE < div_ceil len RESET_PAGE_SIZE"
    using assms P by (intro gen) auto
  show "(e - 1) div RESET_PAGE_SIZE div 64 < div_ceil (div_ceil len RESET_PAGE_SIZE) 64"
    by (rule gen [OF p]) simp
qed

text \<open>The one region of the copy loop, on a well-formed memory.\<close>

definition committed ::
    "GuestMemory \<Rightarrow> nat \<Rightarrow> nat \<Rightarrow> bytes \<Rightarrow> GuestMemory \<Rightarrow> bool" where
  "committed m idx off ys m' \<longleftrightarrow>
     (\<exists>r' h'. m' = m\<lparr>gm_regions := (gm_regions m)[idx := r'], gm_page_hashes := (gm_page_hashes m)[idx := h']\<rparr> \<and>
        same_shape (gm_regions m ! idx) r' \<and> rg_bytes r' = splice off ys (rg_bytes (gm_regions m ! idx)) \<and>
        length (dp_bits (rg_dirty_pages r')) = length (dp_bits (rg_dirty_pages (gm_regions m ! idx))) \<and>
        page_set (rg_dirty_pages r') = page_set (rg_dirty_pages (gm_regions m ! idx)) \<union>
          {p. ys \<noteq> [] \<and> off div RESET_PAGE_SIZE \<le> p \<and> p \<le> (off + length ys - 1) div RESET_PAGE_SIZE} \<and>
        ph_terms h' = ph_terms (gm_page_hashes m ! idx) \<and> ph_acc h' = ph_acc (gm_page_hashes m ! idx) \<and>
        length (dp_bits (ph_stale h')) = length (dp_bits (ph_stale (gm_page_hashes m ! idx))) \<and>
        page_set (ph_stale h') = page_set (ph_stale (gm_page_hashes m ! idx)) \<union>
          {p. ys \<noteq> [] \<and> off div RESET_PAGE_SIZE \<le> p \<and> p \<le> (off + length ys - 1) div RESET_PAGE_SIZE})"

lemma commit_region_effect:
  assumes wf: "gm_wf m" and idx: "idx < length (gm_regions m)"
    and at: "rbase (gm_regions m ! idx) \<le> unat at" "unat at \<le> rend (gm_regions m ! idx)"
    and n: "n = min (rend (gm_regions m ! idx) - unat at) (length bs - taken)"
  shows "\<exists>m'. commit_region bs at taken idx m = Some (n, m') \<and>
    committed m idx (unat at - rbase (gm_regions m ! idx)) (slice taken n bs) m'"
proof -
  let ?r = "gm_regions m ! idx" and ?h = "gm_page_hashes m ! idx"
  define off where "off = unat at - rbase ?r"
  define ys where "ys = slice taken n bs"
  have l2: "length (gm_page_hashes m) = length (gm_regions m)" and hf: "hashes_fit ?r ?h"
    using wf idx by (auto simp: gm_wf_def list_all2_conv_all_nth)
  have ok: "region_ok ?r" using wf idx by (simp add: gm_wf_def regions_ok_def)
  have o: "unat (at - rg_base ?r) = off" using at by (simp add: off_def unat_sub word_le_nat_alt rbase_def)
  have ol: "off \<le> length (rg_bytes ?r)" using at by (simp add: off_def rend_def)
  have nn: "min (length (rg_bytes ?r) - off) (length bs - taken) = n"
    using n at by (simp add: off_def rend_def)
  have ly: "length ys = n" using nn by (simp add: ys_def)
  have le: "off + n \<le> length (rg_bytes ?r)" using nn ol by linarith
  have unfold: "commit_region bs at taken idx m =
     (let region1 = ?r\<lparr>rg_bytes := splice off ys (rg_bytes ?r)\<rparr> in
      if n = 0 then Some (n, m\<lparr>gm_regions := (gm_regions m)[idx := region1]\<rparr>)
      else case (DirtyPages_mark_range (off div RESET_PAGE_SIZE) ((off + n - 1) div RESET_PAGE_SIZE) (rg_dirty_pages ?r),
                 DirtyPages_mark_range (off div RESET_PAGE_SIZE) ((off + n - 1) div RESET_PAGE_SIZE) (ph_stale ?h)) of
             (Some d, Some s) \<Rightarrow> Some (n, m\<lparr>gm_regions := (gm_regions m)[idx := region1\<lparr>rg_dirty_pages := d\<rparr>],
                                       gm_page_hashes := (gm_page_hashes m)[idx := ?h\<lparr>ph_stale := s\<rparr>]\<rparr>)
           | _ \<Rightarrow> None)"
    using idx l2 ol unfolding commit_region_def Let_def o nn
    by (simp add: ys_def split: option.split)
  show ?thesis
  proof (cases "n = 0")
    case True
    then have "ys = []" using ly by simp
    then show ?thesis
      using True idx l2 unfold unfolding committed_def off_def [symmetric] ys_def [symmetric]
      by (intro exI [of _ "m\<lparr>gm_regions := (gm_regions m)[idx := ?r]\<rparr>"] conjI exI [of _ ?r] exI [of _ ?h])
         (simp_all add: splice_def)
  next
    case False
    have pg: "(off + n - 1) div RESET_PAGE_SIZE div 64 < div_ceil (rpages ?r) 64"
      using page_in_bitmap(2) [of off "off + n" "length (rg_bytes ?r)"] le False by (simp add: rpages_def)
    obtain d where d: "DirtyPages_mark_range (off div RESET_PAGE_SIZE) ((off + n - 1) div RESET_PAGE_SIZE) (rg_dirty_pages ?r) = Some d"
      "length (dp_bits d) = length (dp_bits (rg_dirty_pages ?r))"
      "page_set d = page_set (rg_dirty_pages ?r) \<union> {off div RESET_PAGE_SIZE..(off + n - 1) div RESET_PAGE_SIZE}"
      using mark_range_effect [of "(off + n - 1) div RESET_PAGE_SIZE" "rg_dirty_pages ?r"] pg ok
      by (auto simp: region_ok_def)
    obtain s where s: "DirtyPages_mark_range (off div RESET_PAGE_SIZE) ((off + n - 1) div RESET_PAGE_SIZE) (ph_stale ?h) = Some s"
      "length (dp_bits s) = length (dp_bits (ph_stale ?h))"
      "page_set s = page_set (ph_stale ?h) \<union> {off div RESET_PAGE_SIZE..(off + n - 1) div RESET_PAGE_SIZE}"
      using mark_range_effect [of "(off + n - 1) div RESET_PAGE_SIZE" "ph_stale ?h"] pg hf
      by (auto simp: hashes_fit_def)
    have ne: "ys \<noteq> []" using ly False by auto
    let ?r' = "?r\<lparr>rg_bytes := splice off ys (rg_bytes ?r), rg_dirty_pages := d\<rparr>"
    let ?h' = "?h\<lparr>ph_stale := s\<rparr>"
    have "commit_region bs at taken idx m =
        Some (n, m\<lparr>gm_regions := (gm_regions m)[idx := ?r'], gm_page_hashes := (gm_page_hashes m)[idx := ?h']\<rparr>)"
      using False d(1) s(1) unfold by simp
    then show ?thesis
      using d s ly le ne unfolding committed_def off_def [symmetric] ys_def [symmetric]
      by (intro exI [of _ "m\<lparr>gm_regions := (gm_regions m)[idx := ?r'], gm_page_hashes := (gm_page_hashes m)[idx := ?h']\<rparr>"]
             conjI exI [of _ ?r'] exI [of _ ?h'])
         (simp_all add: same_shape_def atLeastAtMost_def atLeast_def atMost_def Collect_conj_eq)
  qed
qed

text \<open>A run of region copies.\<close>

inductive commits :: "GuestMemory \<Rightarrow> GuestMemory \<Rightarrow> bool" where
  commits_refl: "commits m m"
| commits_step: "commits m m' \<Longrightarrow> gm_wf m' \<Longrightarrow> idx < length (gm_regions m') \<Longrightarrow>
    off + length ys \<le> length (rg_bytes (gm_regions m' ! idx)) \<Longrightarrow> rg_access (gm_regions m' ! idx) = ReadWrite \<Longrightarrow>
    committed m' idx off ys m'' \<Longrightarrow> commits m m''"

lemma committed_effect:
  assumes "gm_wf m" and "idx < length (gm_regions m)"
    and "off + length ys \<le> length (rg_bytes (gm_regions m ! idx))" and "committed m idx off ys m'"
  shows "gm_wf m'" "list_all2 same_shape (gm_regions m) (gm_regions m')"
    "mem_byte m' a = (let s = rbase (gm_regions m ! idx) + off in
       if s \<le> a \<and> a < s + length ys then Some (ys ! (a - s)) else mem_byte m a)"
proof -
  let ?r = "gm_regions m ! idx" and ?h = "gm_page_hashes m ! idx"
  obtain r' h' where m': "m' = m\<lparr>gm_regions := (gm_regions m)[idx := r'], gm_page_hashes := (gm_page_hashes m)[idx := h']\<rparr>"
    and sh: "same_shape ?r r'" and bs: "rg_bytes r' = splice off ys (rg_bytes ?r)"
    and d: "length (dp_bits (rg_dirty_pages r')) = length (dp_bits (rg_dirty_pages ?r))"
    and h: "ph_terms h' = ph_terms ?h" "length (dp_bits (ph_stale h')) = length (dp_bits (ph_stale ?h))"
    using assms(4) unfolding committed_def by blast
  have ok: "regions_ok (gm_regions m)" and la: "list_all2 hashes_fit (gm_regions m) (gm_page_hashes m)"
    using assms(1) by (simp_all add: gm_wf_def)
  note sb = same_shape_bounds [OF sh]
  have "hashes_fit r' h'"
    using la assms(2) h sb by (auto simp: list_all2_conv_all_nth hashes_fit_def)
  then show "gm_wf m'"
    using regions_ok_update [OF ok assms(2) sh d] la
    by (simp add: gm_wf_def m' list_all2_update_cong)
  show "list_all2 same_shape (gm_regions m) (gm_regions m')"
    using sh assms(2) by (auto simp: m' list_all2_conv_all_nth nth_list_update)
  have mem: "mem_byte m' a = (if rbase ?r \<le> a \<and> a < rend ?r then Some (rg_bytes r' ! (a - rbase ?r)) else mem_byte m a)"
    using byte_at_update [OF ok assms(2) sh] by (simp add: mem_byte_def m')
  show "mem_byte m' a = (let s = rbase ?r + off in
       if s \<le> a \<and> a < s + length ys then Some (ys ! (a - s)) else mem_byte m a)"
  proof (cases "rbase ?r \<le> a \<and> a < rend ?r")
    case True
    then have "mem_byte m a = Some (rg_bytes ?r ! (a - rbase ?r))"
      using byte_at_region [OF ok nth_mem [OF assms(2)]] by (simp add: mem_byte_def)
    moreover have "a - rbase ?r < length (rg_bytes ?r)" using True by (auto simp: rend_def)
    ultimately show ?thesis
      using True mem assms(3) by (auto simp: bs nth_splice Let_def diff_diff_left)
  next
    case False
    then show ?thesis using mem assms(3) by (auto simp: Let_def rend_def)
  qed
qed

lemma list_all2_same_shape_trans:
  "list_all2 same_shape rs ss \<Longrightarrow> list_all2 same_shape ss ts \<Longrightarrow> list_all2 same_shape rs ts"
  by (rule list_all2_trans [where ?P1.0 = same_shape]) (auto simp: same_shape_def)

lemma commits_effect:
  assumes "commits m m'" and "gm_wf m"
  shows "gm_wf m'" "list_all2 same_shape (gm_regions m) (gm_regions m')"
    "m' = m\<lparr>gm_regions := gm_regions m', gm_page_hashes := gm_page_hashes m'\<rparr>"
  using assms
proof (induction rule: commits.induct)
  case (commits_step m m' idx off ys m'')
  { case 1 show ?case by (rule committed_effect(1) [OF commits_step.hyps(2-4,6)]) }
  { case 2 show ?case
      using commits_step.IH(2) [OF 2] committed_effect(2) [OF commits_step.hyps(2-4,6)]
      by (rule list_all2_same_shape_trans) }
  { case 3
    obtain r' h' where "m'' = m'\<lparr>gm_regions := (gm_regions m')[idx := r'], gm_page_hashes := (gm_page_hashes m')[idx := h']\<rparr>"
      using commits_step.hyps(6) unfolding committed_def by blast
    then show ?case using commits_step.IH(3) [OF 3] by (cases m; cases m'; cases m'') simp }
qed (auto simp: list_all2_refl)

lemma chain_same_shape: "list_all2 same_shape rs ss \<Longrightarrow> chain ss x y = chain rs x y"
  by (induction arbitrary: x rule: list_all2_induct) (simp_all add: same_shape_bounds)

lemma access_same_shape:
  "list_all2 same_shape rs ss \<Longrightarrow> \<forall>r \<in> set rs. rg_access r = ReadWrite \<Longrightarrow> \<forall>r \<in> set ss. rg_access r = ReadWrite"
  by (induction rule: list_all2_induct) (simp_all add: same_shape_def)

lemma chain_after_piece:
  assumes "at < e" and "rbase r \<le> at" and "at < rend r" and "chain rs (rend r) e"
    and "n = min (rend r - at) (e - at)"
  shows "chain rs (at + n) e"
proof (cases "rend r < e")
  case True
  then have "at + n = rend r" using assms by simp
  then show ?thesis using assms(4) by simp
next
  case False
  then have "rs = []" using assms(4) by (cases rs) auto
  moreover have "at + n = e" using False assms by simp
  ultimately show ?thesis by simp
qed

lemma commit_loop_effect:
  assumes "gm_wf m" and "j \<le> length (gm_regions m)" and "i \<le> j"
    and "chain (slice i (j - i) (gm_regions m)) (unat at) (unat at + (length bs - taken))"
    and "taken \<le> length bs" and "unat at + (length bs - taken) < 2 ^ 64"
    and "\<forall>r \<in> set (slice i (j - i) (gm_regions m)). rg_access r = ReadWrite"
    and "commits m0 m"
  shows "\<exists>m'. commit_loop bs at taken [i..<j] m = Some m' \<and> commits m0 m' \<and>
    (\<forall>a. mem_byte m' a = (if unat at \<le> a \<and> a < unat at + (length bs - taken)
                          then Some (bs ! (taken + (a - unat at))) else mem_byte m a))"
  using assms
proof (induction "j - i" arbitrary: i at taken m)
  case 0
  then show ?case by (auto simp: slice_def)
next
  case (Suc k)
  let ?rs = "gm_regions m"
  define e where "e = unat at + (length bs - taken)"
  have ij: "i < j" "i < length ?rs" using Suc.hyps(2) Suc.prems(2) by simp_all
  have sl: "slice i (j - i) ?rs = ?rs ! i # slice (Suc i) (j - Suc i) ?rs"
    using ij by (simp add: slice_def Cons_nth_drop_Suc [symmetric] Suc_diff_Suc [symmetric])
  have ch: "unat at < e" "rbase (?rs ! i) \<le> unat at" "unat at < rend (?rs ! i)"
      "chain (slice (Suc i) (j - Suc i) ?rs) (rend (?rs ! i)) e"
    using Suc.prems(4) unfolding sl e_def [symmetric] by simp_all
  define n where "n = min (rend (?rs ! i) - unat at) (length bs - taken)"
  obtain m1 where m1: "commit_region bs at taken i m = Some (n, m1)"
      and cm: "committed m i (unat at - rbase (?rs ! i)) (slice taken n bs) m1"
    using commit_region_effect [OF Suc.prems(1) ij(2) ch(2) _ n_def] ch(3) by auto
  have ln: "length (slice taken n bs) = n" using Suc.prems(5) by (simp add: n_def)
  have fit: "unat at - rbase (?rs ! i) + length (slice taken n bs) \<le> length (rg_bytes (?rs ! i))"
    using ch by (simp add: ln n_def rend_def)
  have rw: "rg_access (?rs ! i) = ReadWrite" using Suc.prems(7) sl by simp
  note ce = committed_effect [OF Suc.prems(1) ij(2) fit cm]
  have commits1: "commits m0 m1"
    by (rule commits_step [OF Suc.prems(8,1) ij(2) fit rw cm])
  have at': "unat (at + of_nat n) = unat at + n"
  proof -
    have "unat (of_nat n :: u64) = n" "unat at + n < 2 ^ 64"
      using Suc.prems(6) by (auto simp: n_def intro!: unat_of_nat_no_wrap)
    then show ?thesis by (simp add: unat_plus_no_wrap)
  qed
  have shape: "list_all2 same_shape (slice (Suc i) (j - Suc i) ?rs) (slice (Suc i) (j - Suc i) (gm_regions m1))"
    using ce(2) by (simp add: slice_def list_all2_takeI list_all2_dropI)
  have rest: "chain (slice (Suc i) (j - Suc i) (gm_regions m1)) (unat (at + of_nat n))
      (unat (at + of_nat n) + (length bs - (taken + n)))"
  proof -
    have "unat at + n + (length bs - (taken + n)) = e" using Suc.prems(5) by (auto simp: n_def e_def)
    moreover have "chain (slice (Suc i) (j - Suc i) ?rs) (unat at + n) e"
      by (rule chain_after_piece [OF ch]) (simp add: n_def e_def)
    ultimately show ?thesis using at' chain_same_shape [OF shape] by simp
  qed
  have acc: "\<forall>r \<in> set (slice (Suc i) (j - Suc i) (gm_regions m1)). rg_access r = ReadWrite"
    using access_same_shape [OF shape] Suc.prems(7) unfolding sl by simp
  have len1: "length (gm_regions m1) = length ?rs" using ce(2) by (simp add: list_all2_lengthD)
  have tn: "taken + n \<le> length bs" "unat at + n + (length bs - (taken + n)) = e"
    using Suc.prems(5) by (simp_all add: n_def e_def)
  have "\<exists>m'. commit_loop bs (at + of_nat n) (taken + n) [Suc i..<j] m1 = Some m' \<and> commits m0 m' \<and>
    (\<forall>a. mem_byte m' a = (if unat (at + of_nat n) \<le> a \<and> a < unat (at + of_nat n) + (length bs - (taken + n))
                          then Some (bs ! (taken + n + (a - unat (at + of_nat n)))) else mem_byte m1 a))"
    by (rule Suc.hyps(1) [OF _ ce(1) _ _ rest _ _ acc commits1])
       (use Suc.hyps(2) Suc.prems(2,6) ij len1 tn at' in \<open>simp_all add: e_def\<close>)
  then obtain m' where m': "commit_loop bs (at + of_nat n) (taken + n) [Suc i..<j] m1 = Some m'" "commits m0 m'"
    "\<And>a. mem_byte m' a = (if unat at + n \<le> a \<and> a < e then Some (bs ! (taken + n + (a - (unat at + n)))) else mem_byte m1 a)"
    unfolding at' tn(2) by blast
  have "[i..<j] = i # [Suc i..<j]" using ij by (simp add: upt_conv_Cons)
  then have "commit_loop bs at taken [i..<j] m = Some m'" using m1 m'(1) by simp
  moreover have "mem_byte m' a = (if unat at \<le> a \<and> a < e then Some (bs ! (taken + (a - unat at))) else mem_byte m a)" for a
  proof (cases "unat at + n \<le> a \<and> a < e")
    case True
    then have "taken + n + (a - (unat at + n)) = taken + (a - unat at)" by linarith
    with True show ?thesis by (simp only: m'(3)) simp
  next
    case False
    have "unat at + n \<le> e" using tn(2) by simp
    have "mem_byte m' a = mem_byte m1 a" using False by (simp only: m'(3)) simp
    also have "\<dots> = (if unat at \<le> a \<and> a < unat at + n then Some (slice taken n bs ! (a - unat at)) else mem_byte m a)"
      using ce(3) [of a] ch(2) by (simp only: ln Let_def le_add_diff_inverse)
    finally show ?thesis using False tn(1) \<open>unat at + n \<le> e\<close> by auto
  qed
  ultimately show ?case using m'(2) unfolding e_def by blast
qed

lemma write_span_Inr:
  assumes "GuestMemory_write_span rng n m = Inr (i, j)"
  shows "of_nat n = br_length rng" "GuestMemory_region_span (GuestAddr_raw (br_start rng)) (br_length rng) m = Inr (i, j)"
    "\<forall>r \<in> set (slice i (j - i) (gm_regions m)). rg_access r = ReadWrite"
  using assms
  by (auto simp: GuestMemory_write_span_def Let_def find_None_iff split: if_splits sum.splits option.splits prod.splits)

lemma apply_commit_Inr:
  assumes wf: "gm_wf m" and len: "length bs < 2 ^ 64"
    and ws: "GuestMemory_write_span rng (length bs) m = Inr (i, j)"
  shows "\<exists>m'. GuestMemory_apply_commit rng bs m = Some (Inr (m'\<lparr>gm_cached_hash := None\<rparr>)) \<and> commits m m' \<and>
    (\<forall>a. mem_byte m' a =
       (let s = unat (GuestAddr_raw (br_start rng))
        in if s \<le> a \<and> a < s + length bs then Some (bs ! (a - s)) else mem_byte m a))"
proof -
  let ?at = "GuestAddr_raw (br_start rng)"
  note w = write_span_Inr [OF ws]
  have bl: "unat (br_length rng) = length bs" using w(1) len by (simp flip: w(1) add: unat_of_nat_no_wrap)
  have "\<exists>m'. commit_loop bs ?at 0 [i..<j] m = Some m' \<and> commits m m' \<and>
    (\<forall>a. mem_byte m' a = (if unat ?at \<le> a \<and> a < unat ?at + (length bs - 0)
                          then Some (bs ! (0 + (a - unat ?at))) else mem_byte m a))"
  proof (cases "br_length rng = 0")
    case False
    note c = region_span_chain [OF wf w(2) False]
    show ?thesis
      by (rule commit_loop_effect [OF wf])
         (use c bl w(3) in \<open>simp_all add: commits_refl\<close>)
  next
    case True
    then have bs: "bs = []" using bl by simp
    note z = region_span_zero [OF wf w(2) [unfolded True]]
    obtain m' where m': "commit_region bs ?at 0 i m = Some (0, m')"
      "committed m i (unat ?at - rbase (gm_regions m ! i)) (slice 0 0 bs) m'"
      using commit_region_effect [OF wf z(2,3,4), of 0 bs 0] bs by auto
    have fit: "unat ?at - rbase (gm_regions m ! i) + length (slice 0 0 bs) \<le> length (rg_bytes (gm_regions m ! i))"
      using z by (simp add: rend_def)
    have "gm_regions m ! i \<in> set (slice i (j - i) (gm_regions m))"
      using z by (simp add: slice_def take_Suc_conv_app_nth)
    then have rw: "rg_access (gm_regions m ! i) = ReadWrite" using w(3) by blast
    have "commits m m'" by (rule commits_step [OF commits_refl wf z(2) fit rw m'(2)])
    moreover have "mem_byte m' a = mem_byte m a" for a
      using committed_effect(3) [OF wf z(2) fit m'(2), of a] by (auto simp: Let_def split: if_splits)
    ultimately show ?thesis using m'(1) z(1) bs by auto
  qed
  then show ?thesis by (auto simp: GuestMemory_apply_commit_def ws Let_def)
qed

section \<open>The span depends on bases and sizes only\<close>

lemma partition_point_shape:
  "list_all2 same_shape rs ss \<Longrightarrow>
   partition_point (\<lambda>r. rg_base r \<le> a) ss = partition_point (\<lambda>r. rg_base r \<le> a) rs"
  by (induction rule: list_all2_induct) (simp_all add: partition_point_def same_shape_def)

lemma Region_end_shape: "same_shape r s \<Longrightarrow> Region_end s = Region_end r"
  by (simp add: Region_end_def Region_size_def same_shape_def)

lemma Region_contains_shape: "same_shape r s \<Longrightarrow> Region_contains s a n = Region_contains r a n"
  using Region_end_shape [of r s] by (auto simp: Region_contains_def same_shape_def split: option.split)

lemma span_loop_shape:
  "list_all2 same_shape rs ss \<Longrightarrow> span_loop ss idx at e = span_loop rs idx at e"
proof (induction arbitrary: idx at rule: list_all2_induct)
  case (Cons r rs s ss)
  have "rg_base s = rg_base r" "Region_end s = Region_end r"
    using Cons.hyps(1) by (simp_all add: same_shape_def Region_end_shape [OF Cons.hyps(1)])
  then show ?case by (simp add: Cons.IH)
qed simp

lemma containing_index_shape:
  assumes "list_all2 same_shape (gm_regions m) (gm_regions m')" and "gm_unmapped_below m' = gm_unmapped_below m"
  shows "GuestMemory_containing_region_index a n m' = GuestMemory_containing_region_index a n m"
proof -
  let ?k = "partition_point (\<lambda>r. rg_base r \<le> a) (gm_regions m)"
  have "?k \<le> length (gm_regions m)" by (simp add: partition_point_def length_takeWhile_le)
  then have sh: "?k \<noteq> 0 \<Longrightarrow> same_shape (gm_regions m ! (?k - 1)) (gm_regions m' ! (?k - 1))"
    using assms(1) by (auto simp: list_all2_conv_all_nth)
  have "?k \<noteq> 0 \<Longrightarrow> Region_contains (gm_regions m' ! (?k - 1)) a n = Region_contains (gm_regions m ! (?k - 1)) a n"
    by (rule Region_contains_shape [OF sh])
  then show ?thesis
    unfolding GuestMemory_containing_region_index_def Let_def partition_point_shape [OF assms(1)] assms(2)
    by simp
qed

lemma region_span_shape:
  assumes "list_all2 same_shape (gm_regions m) (gm_regions m')" and "gm_unmapped_below m' = gm_unmapped_below m"
  shows "GuestMemory_region_span a n m' = GuestMemory_region_span a n m"
proof -
  have "span_loop (drop k (gm_regions m')) idx at e = span_loop (drop k (gm_regions m)) idx at e" for k idx at e
    by (rule span_loop_shape [OF list_all2_dropI [OF assms(1)]])
  then show ?thesis
    using assms containing_index_shape [OF assms, of a n]
    by (auto simp: GuestMemory_region_span_def Let_def partition_point_shape split: option.split)
qed

section \<open>Properties\<close>

lemma resolve_read_cases:
  assumes "gm_wf m"
  obtains (unmapped) a where "GuestMemory_region_span (GuestAddr_raw (br_start rng)) (br_length rng) m = Inl a"
      "GuestMemory_resolve_read rng m = Some (Inl (Unmapped (GuestMemory_fault_context (GuestAddr_raw (br_start rng)) m)), m)"
    | (strict) i j r where "GuestMemory_region_span (GuestAddr_raw (br_start rng)) (br_length rng) m = Inr (i, j)"
      "r \<in> set (slice i (j - i) (gm_regions m))" "rg_access r = ReservedStrict"
      "GuestMemory_resolve_read rng m =
         Some (Inl (ReservedStrictRead (max (GuestAddr_raw (br_start rng)) (rg_base r)) (rg_label r)), m)"
    | (bytes) i j m' where "GuestMemory_region_span (GuestAddr_raw (br_start rng)) (br_length rng) m = Inr (i, j)"
      "\<forall>r \<in> set (slice i (j - i) (gm_regions m)). rg_access r \<noteq> ReservedStrict" "same_content m m'"
      "GuestMemory_resolve_read rng m =
         Some (Inr (mem_bytes m (unat (GuestAddr_raw (br_start rng))) (unat (br_length rng))), m')"
proof (cases "GuestMemory_region_span (GuestAddr_raw (br_start rng)) (br_length rng) m")
  case (Inl a)
  then show thesis by (intro unmapped) (simp_all add: GuestMemory_resolve_read_def Let_def)
next
  case (Inr ij)
  obtain i j where ij: "ij = (i, j)" by (cases ij)
  note sp = Inr [unfolded ij]
  show thesis
  proof (cases "find (\<lambda>r. rg_access r = ReservedStrict) (slice i (j - i) (gm_regions m))")
    case None
    obtain m' where "read_pieces (GuestAddr_raw (br_start rng)) (GuestAddr_raw (br_start rng) + br_length rng)
        (slice i (j - i) (gm_regions m)) m =
        Some (mem_bytes m (unat (GuestAddr_raw (br_start rng))) (unat (br_length rng)), m')" "same_content m m'"
      using resolve_read_Inr [OF assms sp] by blast
    moreover have "\<forall>r \<in> set (slice i (j - i) (gm_regions m)). rg_access r \<noteq> ReservedStrict"
      using None by (auto simp: find_None_iff)
    ultimately show thesis
      using None sp by (intro bytes) (simp_all add: GuestMemory_resolve_read_def Let_def)
  next
    case (Some r)
    then have "r \<in> set (slice i (j - i) (gm_regions m))" "rg_access r = ReservedStrict"
      using find_SomeD by fastforce+
    then show thesis using Some sp by (intro strict) (simp_all add: GuestMemory_resolve_read_def Let_def)
  qed
qed

text \<open>
  C22: A committed write changes exactly the bytes it names. On a well-formed memory
  \<^verbatim>\<open>apply_commit\<close> never panics; it succeeds exactly when \<^verbatim>\<open>validate_write\<close> accepts the range,
  gives the same error otherwise, and after a success every address of the range holds the
  corresponding byte of the buffer, every other address holds what it held, and each
  region keeps its base, size, label and access.
\<close>

theorem apply_commit_exact:
  assumes "gm_wf m" and "length bs < 2 ^ 64"
  shows "case GuestMemory_apply_commit rng bs m of
      None \<Rightarrow> False
    | Some (Inl e) \<Rightarrow> GuestMemory_validate_write rng (length bs) m = Inl e
    | Some (Inr m') \<Rightarrow>
        GuestMemory_validate_write rng (length bs) m = Inr () \<and> gm_wf m' \<and>
        list_all2 same_shape (gm_regions m) (gm_regions m') \<and>
        (\<forall>a. mem_byte m' a =
           (let s = unat (GuestAddr_raw (br_start rng))
            in if s \<le> a \<and> a < s + length bs then Some (bs ! (a - s)) else mem_byte m a))"
proof (cases "GuestMemory_write_span rng (length bs) m")
  case (Inl e)
  then show ?thesis by (simp add: GuestMemory_apply_commit_def GuestMemory_validate_write_def)
next
  case (Inr ij)
  obtain i j where ij: "ij = (i, j)" by (cases ij)
  obtain m1 where m1: "GuestMemory_apply_commit rng bs m = Some (Inr (m1\<lparr>gm_cached_hash := None\<rparr>))"
    "commits m m1" and mem: "\<And>a. mem_byte m1 a =
       (let s = unat (GuestAddr_raw (br_start rng))
        in if s \<le> a \<and> a < s + length bs then Some (bs ! (a - s)) else mem_byte m a)"
    using apply_commit_Inr [OF assms Inr [unfolded ij]] by blast
  have "gm_wf (m1\<lparr>gm_cached_hash := None\<rparr>)" "list_all2 same_shape (gm_regions m) (gm_regions m1)"
    using commits_effect [OF m1(2) assms(1)] by (simp_all add: gm_wf_def)
  then show ?thesis
    using m1(1) mem Inr by (simp add: GuestMemory_validate_write_def mem_byte_def)
qed

text \<open>
  A read returns what memory holds. On a well-formed memory \<^verbatim>\<open>read_checked\<close> never panics
  and changes nothing but the provisional-read log; it succeeds exactly when the
  regions hold the whole range and none of them refuses reads, and then returns, byte by
  byte, the contents of the range, also when the range runs across adjacent regions.
\<close>

theorem read_checked_exact:
  assumes "gm_wf m"
  shows "\<exists>r m'. GuestMemory_read_checked rng m = Some (r, m') \<and> same_content m m' \<and>
    (case r of
       Inr bs \<Rightarrow> GuestMemory_holds (GuestAddr_raw (br_start rng)) (br_length rng) m \<and>
         length bs = unat (br_length rng) \<and>
         (\<forall>k < unat (br_length rng). mem_byte m (unat (GuestAddr_raw (br_start rng)) + k) = Some (bs ! k))
     | Inl (Unmapped c) \<Rightarrow> \<not> GuestMemory_holds (GuestAddr_raw (br_start rng)) (br_length rng) m
     | Inl (ReservedStrictRead a l) \<Rightarrow>
         \<exists>r \<in> set (gm_regions m). rg_access r = ReservedStrict \<and> rg_label r = l \<and>
           a = max (GuestAddr_raw (br_start rng)) (rg_base r)
     | Inl _ \<Rightarrow> False)"
  using assms
proof (cases rule: resolve_read_cases [of m rng])
  case (unmapped a)
  then show ?thesis by (simp add: GuestMemory_read_checked_def GuestMemory_holds_def)
next
  case (strict i j r)
  then have "r \<in> set (gm_regions m)" using slice_subset [of i "j - i" "gm_regions m"] by blast
  with strict show ?thesis by (auto simp: GuestMemory_read_checked_def)
next
  case (bytes i j m')
  let ?s = "GuestAddr_raw (br_start rng)" and ?n = "br_length rng"
  have "mem_byte m (unat ?s + k) = Some (mem_bytes m (unat ?s) (unat ?n) ! k)" if k: "k < unat ?n" for k
  proof -
    have "?n \<noteq> 0" using k by auto
    note c = region_span_chain [OF assms bytes(1) this]
    obtain r where r: "r \<in> set (slice i (j - i) (gm_regions m))" "rbase r \<le> unat ?s + k" "unat ?s + k < rend r"
      using chain_mapped [OF c(3), of "unat ?s + k"] k by auto
    then have "r \<in> set (gm_regions m)" using slice_subset [of i "j - i" "gm_regions m"] by blast
    then have "mem_byte m (unat ?s + k) \<noteq> None"
      using r byte_at_None_iff [of "gm_regions m"] by (auto simp: mem_byte_def)
    then show ?thesis using k by (auto simp: mem_bytes_def)
  qed
  with bytes show ?thesis
    by (auto simp: GuestMemory_read_checked_def GuestMemory_holds_def mem_bytes_def)
qed

text \<open>
  Reading back a committed range returns the committed bytes: after a successful
  \<^verbatim>\<open>apply_commit\<close>, \<^verbatim>\<open>read_checked\<close> of the same range returns the buffer that was written.
\<close>

theorem read_after_commit:
  assumes "gm_wf m" and "length bs < 2 ^ 64" and "GuestMemory_apply_commit rng bs m = Some (Inr m')"
  shows "\<exists>m''. GuestMemory_read_checked rng m' = Some (Inr bs, m'')"
proof -
  obtain i j where ws: "GuestMemory_write_span rng (length bs) m = Inr (i, j)"
    using assms(3) by (auto simp: GuestMemory_apply_commit_def split: sum.splits)
  obtain m1 where m1: "GuestMemory_apply_commit rng bs m = Some (Inr (m1\<lparr>gm_cached_hash := None\<rparr>))"
    "commits m m1" and mem: "\<And>a. mem_byte m1 a =
       (let s = unat (GuestAddr_raw (br_start rng))
        in if s \<le> a \<and> a < s + length bs then Some (bs ! (a - s)) else mem_byte m a)"
    using apply_commit_Inr [OF assms(1,2) ws] by blast
  have m': "m' = m1\<lparr>gm_cached_hash := None\<rparr>" using m1(1) assms(3) by simp
  note ce = commits_effect [OF m1(2) assms(1)] and w = write_span_Inr [OF ws]
  have fl: "gm_unmapped_below m' = gm_unmapped_below m"
    using arg_cong [OF ce(3), of gm_unmapped_below] m' by simp
  have shape: "list_all2 same_shape (gm_regions m) (gm_regions m')" using ce(2) m' by simp
  have sp: "GuestMemory_region_span (GuestAddr_raw (br_start rng)) (br_length rng) m' = Inr (i, j)"
    using region_span_shape [OF shape fl] w(2) by simp
  have rw: "\<forall>r \<in> set (slice i (j - i) (gm_regions m')). rg_access r = ReadWrite"
    by (rule access_same_shape [OF _ w(3)]) (simp add: shape slice_def list_all2_takeI list_all2_dropI)
  have bl: "unat (br_length rng) = length bs" using assms(2) by (simp flip: w(1) add: unat_of_nat_no_wrap)
  have wf': "gm_wf m'" using ce(1) by (simp add: m' gm_wf_def)
  have bytes': "mem_bytes m' (unat (GuestAddr_raw (br_start rng))) (length bs) = bs"
    using mem by (intro nth_equalityI) (auto simp: mem_bytes_def m' mem_byte_def Let_def)
  from wf' show ?thesis
  proof (cases rule: resolve_read_cases [of m' rng])
    case (strict i' j' r)
    with rw sp show ?thesis by auto
  next
    case (bytes i' j' m'')
    then show ?thesis using bytes' bl by (auto simp: GuestMemory_read_checked_def)
  qed (use sp in simp)
qed



end
