(* ===== verification/Guest_Layout.thy ===== *)
theory Guest_Layout
  imports Guest_Access
begin

text \<open>
  Building and changing the region map: \<^verbatim>\<open>from_regions\<close>, \<^verbatim>\<open>install_region\<close> and \<^verbatim>\<open>remove_region\<close>
  of \<^verbatim>\<open>guest.rs\<close> keep the map well formed; and the concrete memories the witnesses use.
\<close>

section \<open>Fresh regions\<close>

lemma with_access_simps [simp]:
  "rg_base (Region_with_access b n l p a) = b" "rg_bytes (Region_with_access b n l p a) = replicate n 0"
  "rg_access (Region_with_access b n l p a) = a" "rg_label (Region_with_access b n l p a) = l"
  "rg_page_size (Region_with_access b n l p a) = p" "rg_window (Region_with_access b n l p a) = None"
  "rg_dirty_pages (Region_with_access b n l p a) = DirtyPages_new (div_ceil n RESET_PAGE_SIZE)"
  "rbase (Region_with_access b n l p a) = unat b" "rend (Region_with_access b n l p a) = unat b + n"
  "rpages (Region_with_access b n l p a) = div_ceil n RESET_PAGE_SIZE"
  by (simp_all add: Region_with_access_def rbase_def rend_def rpages_def Let_def)

lemma length_DirtyPages_new [simp]: "length (dp_bits (DirtyPages_new n)) = div_ceil n 64"
  by (simp add: DirtyPages_new_def)

lemma region_ok_with_access: "unat b + n < 2 ^ 64 \<Longrightarrow> region_ok (Region_with_access b n l p a)"
  by (simp add: region_ok_def)

lemma hashes_fit_new: "rpages r = n \<Longrightarrow> hashes_fit r (PageHashes_new n)"
  by (simp add: hashes_fit_def PageHashes_new_def)

section \<open>Construction\<close>

text \<open>What the constructors of \<^verbatim>\<open>Region\<close> guarantee about its bitmap.\<close>

definition bitmap_ok :: "Region \<Rightarrow> bool" where
  "bitmap_ok r \<longleftrightarrow> length (rg_bytes r) < 2 ^ 64 \<and> length (dp_bits (rg_dirty_pages r)) = div_ceil (rpages r) 64"

lemma windows_ok_sorted:
  "windows_ok rs \<Longrightarrow> \<forall>r \<in> set rs. region_ok r \<Longrightarrow> sorted_wrt (\<lambda>r s. rend r \<le> rbase s) rs"
proof (induction rs rule: windows_ok.induct)
  case (1 r s rs)
  have rs: "rend r \<le> rbase s"
    using 1 by (auto simp: word_less_nat_alt not_less unat_Region_end rbase_def split: if_splits)
  have IH: "sorted_wrt (\<lambda>r s. rend r \<le> rbase s) (s # rs)" using 1 by (auto split: if_splits)
  then have "\<forall>t \<in> set rs. rend r \<le> rbase t"
    using rs by (auto intro: order_trans [OF rs] order_trans [OF rbase_le_rend])
  with rs IH show ?case by simp
qed simp_all

lemma from_regions_wf:
  assumes "GuestMemory_from_regions rs = Inr m" and "\<forall>r \<in> set rs. bitmap_ok r"
  shows "gm_wf m"
proof -
  let ?rs = "sort_key rg_base rs"
  have nf: "find (\<lambda>r. checked_add (rg_base r) (Region_size r) = None) ?rs = None" and w: "windows_ok ?rs"
    and m: "gm_regions m = ?rs" "gm_page_hashes m = map (\<lambda>r. (PageHashes_new (div_ceil (length (rg_bytes r)) RESET_PAGE_SIZE))\<lparr>ph_stale := rg_dirty_pages r\<rparr>) ?rs"
    using assms(1) by (auto simp: GuestMemory_from_regions_def Let_def split: option.splits if_splits)
  have ok: "\<forall>r \<in> set ?rs. region_ok r"
  proof
    fix r assume r: "r \<in> set ?rs"
    then have b: "bitmap_ok r" using assms(2) by simp
    then have "unat (Region_size r) = length (rg_bytes r)"
      by (simp add: bitmap_ok_def Region_size_def unat_of_nat_no_wrap)
    moreover have "checked_add (rg_base r) (Region_size r) \<noteq> None"
      using nf r by (auto simp: find_None_iff)
    ultimately show "region_ok r"
      using b by (auto simp: region_ok_def bitmap_ok_def rend_def rbase_def checked_add_def split: if_splits)
  qed
  moreover have "list_all2 hashes_fit ?rs (gm_page_hashes m)"
    using ok by (auto simp: m list_all2_conv_all_nth hashes_fit_def PageHashes_new_def region_ok_def rpages_def)
       (metis nth_mem rpages_def set_sort length_sort)+
  ultimately show ?thesis
    using windows_ok_sorted [OF w] by (simp add: gm_wf_def m regions_ok_def)
qed

section \<open>Installing and removing\<close>

lemma list_all2_insert_at:
  "list_all2 P xs ys \<Longrightarrow> P x y \<Longrightarrow> list_all2 P (insert_at i x xs) (insert_at i y ys)"
  by (simp add: insert_at_def list_all2_appendI list_all2_takeI list_all2_dropI)

lemma list_all2_remove_at: "list_all2 P xs ys \<Longrightarrow> list_all2 P (remove_at i xs) (remove_at i ys)"
  by (simp add: remove_at_def list_all2_appendI list_all2_takeI list_all2_dropI)

lemma list_position_Some: "list_position P xs = Some i \<Longrightarrow> i < length xs \<and> P (xs ! i)"
  by (induction xs arbitrary: i) (auto split: if_splits)

lemma regions_ok_before:
  assumes "regions_ok rs" and "i \<le> length rs" and "i > 0 \<Longrightarrow> rend (rs ! (i - 1)) \<le> b" and "r \<in> set (take i rs)"
  shows "rend r \<le> b"
proof -
  have i: "i > 0" using assms(4) by (cases i) auto
  then have tk: "take i rs = take (i - 1) rs @ [rs ! (i - 1)]"
    using assms(2) by (cases i) (simp_all add: take_Suc_conv_app_nth)
  have "regions_ok (take i rs @ drop i rs)" using assms(1) by simp
  then have "\<forall>s \<in> set (take (i - 1) rs). rend s \<le> rbase (rs ! (i - 1))"
    unfolding regions_ok_append tk by simp
  then show ?thesis
    using assms(3,4) i unfolding tk by (auto intro: order_trans [OF _ order_trans [OF rbase_le_rend]])
qed

lemma regions_ok_after:
  assumes "regions_ok rs" and "i < length rs \<Longrightarrow> e \<le> rbase (rs ! i)" and "r \<in> set (drop i rs)"
  shows "e \<le> rbase r"
proof -
  have i: "i < length rs" using assms(3) by (cases "i < length rs") auto
  then have dr: "drop i rs = rs ! i # drop (Suc i) rs" by (simp add: Cons_nth_drop_Suc)
  have "regions_ok (take i rs @ drop i rs)" using assms(1) by simp
  then have "\<forall>s \<in> set (drop (Suc i) rs). rend (rs ! i) \<le> rbase s" unfolding regions_ok_append dr by simp
  then show ?thesis
    using assms(2,3) i unfolding dr by (auto intro: order_trans [OF order_trans [OF _ rbase_le_rend]])
qed

lemma byte_at_insert:
  assumes "regions_ok (xs @ r # ys)"
  shows "byte_at (xs @ r # ys) a =
    (if rbase r \<le> a \<and> a < rend r then Some (rg_bytes r ! (a - rbase r)) else byte_at (xs @ ys) a)"
proof (cases "rbase r \<le> a \<and> a < rend r")
  case True
  then show ?thesis using byte_at_region [OF assms, of r a] by simp
next
  case False
  then show ?thesis by (auto simp: byte_at_append split: option.split)
qed

lemma insert_region_ok:
  assumes "gm_wf m" and "i = partition_point (\<lambda>r. rg_base r \<le> base) (gm_regions m)" and "unat base + sz < 2 ^ 64"
    and "i > 0 \<Longrightarrow> rend (gm_regions m ! (i - 1)) \<le> unat base"
    and "i < length (gm_regions m) \<Longrightarrow> unat base + sz \<le> rbase (gm_regions m ! i)"
  shows "regions_ok (take i (gm_regions m) @ Region_with_access base sz label page_size access # drop i (gm_regions m))"
proof -
  let ?rs = "gm_regions m"
  have ok: "regions_ok ?rs" using assms(1) by (simp add: gm_wf_def)
  have i: "i \<le> length ?rs" by (rule partition_point_bases(3) [OF ok assms(2)])
  have before: "rend r \<le> unat base" if "r \<in> set (take i ?rs)" for r
    by (rule regions_ok_before [OF ok i assms(4) that])
  have after: "unat base + sz \<le> rbase r" if "r \<in> set (drop i ?rs)" for r
    by (rule regions_ok_after [OF ok assms(5) that])
  have "regions_ok (take i ?rs @ drop i ?rs)" using ok by simp
  then show ?thesis
    unfolding regions_ok_append using before after region_ok_with_access [OF assms(3)]
    by (auto intro: order_trans [OF before])
qed

text \<open>
  Installing a region adds exactly its own addresses, zero-filled: on success the map
  stays well formed, the new range was wholly unmapped and now reads zero, and no other
  address changes; a refusal for overflow means that the range does not fit below the end
  of the address space, and a refusal for overlap that (with no empty region involved) some
  address of the range is already mapped.
\<close>

theorem install_region_exact:
  assumes "gm_wf m" and "0 < sz" and "\<forall>r \<in> set (gm_regions m). rg_bytes r \<noteq> []"
  shows "case GuestMemory_install_region_with_access base sz label page_size access m of
      Inr m' \<Rightarrow> gm_wf m' \<and>
        (\<forall>a. mem_byte m' a = (if unat base \<le> a \<and> a < unat base + sz then Some 0 else mem_byte m a)) \<and>
        (\<forall>a. unat base \<le> a \<and> a < unat base + sz \<longrightarrow> mem_byte m a = None)
    | Inl (RegionOverflow b n) \<Rightarrow> 2 ^ 64 \<le> unat base + sz
    | Inl OverlappingRegions \<Rightarrow> \<exists>a. unat base \<le> a \<and> a < unat base + sz \<and> mem_byte m a \<noteq> None
    | Inl _ \<Rightarrow> False"
proof -
  let ?rs = "gm_regions m"
  let ?new = "Region_with_access base sz label page_size access"
  define i where "i = partition_point (\<lambda>r. rg_base r \<le> base) ?rs"
  have ok: "regions_ok ?rs" using assms(1) by (simp add: gm_wf_def)
  note pp = partition_point_bases [OF ok i_def]
  have pos: "rbase r < rend r" if "r \<in> set ?rs" for r using assms(3) that by (simp add: rend_def)
  have ends: "unat (Region_end r) = rend r" if "r \<in> set ?rs" for r
    using ok that by (simp add: regions_ok_def unat_Region_end)
  have prev: "?rs ! (i - 1) \<in> set ?rs" "rbase (?rs ! (i - 1)) \<le> unat base" if "i > 0"
    using that pp(1,3) by (auto simp: in_set_conv_nth intro!: bspec [OF pp(1)] exI [of _ "i - 1"])
  have nxt: "unat base < rbase (?rs ! i)" "?rs ! i \<in> set ?rs" if "i < length ?rs"
    using that pp(2) by (auto simp: Cons_nth_drop_Suc [symmetric])
  consider (over) "unat base + sz \<ge> 2 ^ 64"
    | (prev) "unat base + sz < 2 ^ 64" "i > 0" "unat base < rend (?rs ! (i - 1))"
    | (nxt) "unat base + sz < 2 ^ 64" "i > 0 \<Longrightarrow> rend (?rs ! (i - 1)) \<le> unat base" "i < length ?rs" "rbase (?rs ! i) < unat base + sz"
    | (ok) "unat base + sz < 2 ^ 64" "i > 0 \<Longrightarrow> rend (?rs ! (i - 1)) \<le> unat base"
      "i < length ?rs \<Longrightarrow> unat base + sz \<le> rbase (?rs ! i)"
    by (meson leI)
  then show ?thesis
  proof cases
    case over
    then show ?thesis by (simp add: GuestMemory_install_region_with_access_def Let_def)
  next
    case prev
    then have "mem_byte m (unat base) \<noteq> None"
      using \<open>i > 0 \<Longrightarrow> ?rs ! (i - 1) \<in> set ?rs\<close> \<open>i > 0 \<Longrightarrow> rbase (?rs ! (i - 1)) \<le> unat base\<close>
      by (auto simp: mem_byte_def byte_at_None_iff)
    then show ?thesis
      using prev assms(2) ends [of "?rs ! (i - 1)"] \<open>i > 0 \<Longrightarrow> ?rs ! (i - 1) \<in> set ?rs\<close>
      by (auto simp: GuestMemory_install_region_with_access_def Let_def i_def [symmetric] word_less_nat_alt)
  next
    case nxt
    have "mem_byte m (rbase (?rs ! i)) \<noteq> None"
      using nxt pos \<open>i < length ?rs \<Longrightarrow> ?rs ! i \<in> set ?rs\<close> by (auto simp: mem_byte_def byte_at_None_iff)
    then have "\<exists>a. unat base \<le> a \<and> a < unat base + sz \<and> mem_byte m a \<noteq> None"
      using nxt \<open>i < length ?rs \<Longrightarrow> unat base < rbase (?rs ! i)\<close> less_imp_le by blast
    moreover have "GuestMemory_install_region_with_access base sz label page_size access m = Inl OverlappingRegions"
      using nxt unfolding GuestMemory_install_region_with_access_def Let_def i_def [symmetric]
      by (simp add: rbase_def)
    ultimately show ?thesis by simp
  next
    case ok
    have rok: "regions_ok (take i ?rs @ ?new # drop i ?rs)"
      by (rule insert_region_ok [OF assms(1) i_def ok])
    have "\<not> (i > 0 \<and> Region_end (?rs ! (i - 1)) > base)" "\<not> (i < length ?rs \<and> unat base + sz > unat (rg_base (?rs ! i)))"
      using ok ends [of "?rs ! (i - 1)"] \<open>i > 0 \<Longrightarrow> ?rs ! (i - 1) \<in> set ?rs\<close>
      by (auto simp: word_less_nat_alt rbase_def)
    then have r: "GuestMemory_install_region_with_access base sz label page_size access m =
      Inr (m\<lparr>gm_regions := insert_at i ?new ?rs,
             gm_page_hashes := insert_at i (PageHashes_new (div_ceil sz RESET_PAGE_SIZE)) (gm_page_hashes m),
             gm_cached_hash := None\<rparr>)"
      using ok(1) unfolding GuestMemory_install_region_with_access_def Let_def i_def [symmetric] by simp
    have none: "mem_byte m a = None" if "unat base \<le> a" "a < unat base + sz" for a
    proof -
      have "byte_at (take i ?rs) a = None"
        by (rule byte_at_after [of _ "unat base"]) (use rok that in \<open>auto\<close>)
      moreover have "byte_at (drop i ?rs) a = None"
        by (rule byte_at_before [of _ "unat base + sz"]) (use rok that in \<open>auto\<close>)
      ultimately show ?thesis
        using byte_at_append [of "take i ?rs" "drop i ?rs" a] by (simp add: mem_byte_def)
    qed
    have "list_all2 hashes_fit (insert_at i ?new ?rs) (insert_at i (PageHashes_new (div_ceil sz RESET_PAGE_SIZE)) (gm_page_hashes m))"
      using assms(1) by (intro list_all2_insert_at) (simp_all add: gm_wf_def hashes_fit_new)
    then show ?thesis
      using r rok none byte_at_insert [OF rok] by (auto simp: gm_wf_def mem_byte_def insert_at_def)
  qed
qed

section \<open>Concrete memories\<close>

definition small_memory :: GuestMemory where
  "small_memory = the (GuestMemory_new 16)"

lemma small_memory_regions: "gm_regions small_memory = [Region_new 0 16 ''flat'' Page64K]"
  and small_memory_from: "GuestMemory_from_regions [Region_new 0 16 ''flat'' Page64K] = Inr small_memory"
  and small_memory_floor: "gm_unmapped_below small_memory = 0"
proof -
  obtain m where m: "GuestMemory_from_regions [Region_new 0 16 ''flat'' Page64K] = Inr m"
    "gm_regions m = [Region_new 0 16 ''flat'' Page64K]" "gm_unmapped_below m = 0"
    by (auto simp: GuestMemory_from_regions_def Let_def checked_add_def Region_new_def Region_size_def)
  then have "small_memory = m" by (simp add: small_memory_def GuestMemory_new_def)
  with m show "gm_regions small_memory = [Region_new 0 16 ''flat'' Page64K]"
    "GuestMemory_from_regions [Region_new 0 16 ''flat'' Page64K] = Inr small_memory"
    "gm_unmapped_below small_memory = 0" by simp_all
qed

lemma small_memory_wf: "gm_wf small_memory"
  by (rule from_regions_wf [OF small_memory_from]) (simp add: bitmap_ok_def Region_new_def)

theorem install_region_exact_witness:
  "case GuestMemory_install_region_with_access 32 8 ''rw'' Page4K ReadWrite small_memory of
      Inr m' \<Rightarrow> mem_byte m' 32 = Some 0 \<and> gm_wf m' | Inl _ \<Rightarrow> False"
proof -
  have "GuestMemory_install_region_with_access 32 8 ''rw'' Page4K ReadWrite small_memory \<noteq> Inl e" for e
    by (simp add: GuestMemory_install_region_with_access_def Let_def small_memory_regions
        partition_point_def Region_new_def Region_end_def Region_size_def saturating_add_def)
  then show ?thesis
    using install_region_exact [of small_memory 8 32 "''rw''" Page4K ReadWrite]
    by (simp add: small_memory_wf small_memory_regions Region_new_def split: sum.splits)
qed

text \<open>The witnesses of the access properties.\<close>

lemma small_memory_span:
  "unat a + unat n \<le> 16 \<Longrightarrow> GuestMemory_region_span a n small_memory = Inr (0, 1)"
proof -
  assume le: "unat a + unat n \<le> 16"
  have "a + n \<le> 16" using le by (simp add: word_le_nat_alt unat_plus_no_wrap)
  then show ?thesis
    using le by (simp add: GuestMemory_region_span_def GuestMemory_containing_region_index_def Let_def
        small_memory_regions partition_point_def Region_new_def Region_contains_def checked_add_def
        Region_end_def Region_size_def saturating_add_def small_memory_floor)
qed

lemma small_memory_write:
  "GuestMemory_write_span (ByteRange (GuestAddr 4) 2) (Suc (Suc 0)) small_memory = Inr (0, 1)"
  using small_memory_span [of 4 2]
  by (simp add: GuestMemory_write_span_def Let_def slice_def small_memory_regions Region_new_def)

theorem apply_commit_exact_witness:
  "\<exists>m'. GuestMemory_apply_commit (ByteRange (GuestAddr 4) 2) [7, 8] small_memory = Some (Inr m') \<and>
     mem_byte m' 5 = Some 8 \<and> mem_byte m' 6 = Some 0"
proof -
  have v: "GuestMemory_validate_write (ByteRange (GuestAddr 4) 2) (Suc (Suc 0)) small_memory = Inr ()"
    by (simp add: GuestMemory_validate_write_def small_memory_write)
  have b: "mem_byte small_memory 6 = Some 0"
    by (simp add: mem_byte_def small_memory_regions Region_new_def)
  show ?thesis
    using apply_commit_exact [OF small_memory_wf, of "[7, 8]" "ByteRange (GuestAddr 4) 2"] v b
    by (auto split: option.splits sum.splits)
qed

theorem read_checked_exact_witness:
  "\<exists>r m'. GuestMemory_read_checked (ByteRange (GuestAddr 4) 2) small_memory = Some (r, m') \<and>
     same_content small_memory m'"
  using read_checked_exact [OF small_memory_wf, of "ByteRange (GuestAddr 4) 2"] by blast

theorem read_after_commit_witness:
  "\<exists>m' m''. GuestMemory_apply_commit (ByteRange (GuestAddr 4) 2) [7, 8] small_memory = Some (Inr m') \<and>
     GuestMemory_read_checked (ByteRange (GuestAddr 4) 2) m' = Some (Inr [7, 8], m'')"
proof -
  obtain m' where m': "GuestMemory_apply_commit (ByteRange (GuestAddr 4) 2) [7, 8] small_memory = Some (Inr m')"
    using apply_commit_Inr [OF small_memory_wf, of "[7, 8]" "ByteRange (GuestAddr 4) 2" 0 1] small_memory_write
    by auto
  then show ?thesis
    using read_after_commit [OF small_memory_wf _ m'] by auto
qed



end
