(* ===== verification/Guest_Hash.thy ===== *)
theory Guest_Hash
  imports Guest_Layout
begin

text \<open>
  The incremental content hash of \<^verbatim>\<open>guest.rs\<close>: \<^verbatim>\<open>PageHashes::refresh\<close> brings the stale pages'
  terms up to date, \<^verbatim>\<open>content_hash\<close> folds the regions' sums, and \<^verbatim>\<open>content_hash_from_scratch\<close>
  recomputes the same digest from the written pages.
\<close>

section \<open>Operations\<close>

fun refresh_pages :: "Region \<Rightarrow> nat list \<Rightarrow> u64 list \<Rightarrow> u64 \<Rightarrow> (u64 list \<times> u64) option" where
  "refresh_pages r [] terms acc = Some (terms, acc)"
| "refresh_pages r (p # ps) terms acc =
     (case page_slice p (rg_bytes r) of
        None \<Rightarrow> None
      | Some bs \<Rightarrow>
          if p < length terms
          then let new = page_term (rg_base r) p bs
               in refresh_pages r ps (terms[p := new]) (acc - terms ! p + new)
          else None)"

definition PageHashes_refresh :: "Region \<Rightarrow> PageHashes \<Rightarrow> PageHashes option" where
  "PageHashes_refresh r h =
     (let pages = DirtyPages_for_each_set (ph_stale h)
      in if pages = [] then Some h
         else map_option (\<lambda>(terms, acc). h\<lparr>ph_terms := terms, ph_acc := acc, ph_stale := DirtyPages_clear (ph_stale h)\<rparr>)
                (refresh_pages r pages (ph_terms h) (ph_acc h)))"

definition hash_region :: "Region \<Rightarrow> u64 \<Rightarrow> Fnv1aHasher \<Rightarrow> Fnv1aHasher" where
  "hash_region r acc hasher =
     Fnv1aHasher_write
       (Fnv1aHasher_write
         (Fnv1aHasher_write hasher (to_le 8 (rg_base r)))
         (to_le 8 (of_nat (length (rg_bytes r)) :: u64)))
       (to_le 8 acc)"

fun hash_regions :: "Region list \<Rightarrow> PageHashes list \<Rightarrow> Fnv1aHasher \<Rightarrow> (PageHashes list \<times> Fnv1aHasher) option" where
  "hash_regions (r # rs) (h # hs) hasher =
     (case PageHashes_refresh r h of
        None \<Rightarrow> None
      | Some h' \<Rightarrow> map_option (\<lambda>(hs', x). (h' # hs', x)) (hash_regions rs hs (hash_region r (ph_acc h') hasher)))"
| "hash_regions rs hs hasher = Some (hs, hasher)"

definition GuestMemory_content_hash :: "GuestMemory \<Rightarrow> (u64 \<times> GuestMemory) option" where
  "GuestMemory_content_hash m =
     (case gm_cached_hash m of
        Some h \<Rightarrow> Some (h, m)
      | None \<Rightarrow>
          map_option (\<lambda>(hs, hasher).
              let h = Fnv1aHasher_finish hasher in (h, m\<lparr>gm_page_hashes := hs, gm_cached_hash := Some h\<rparr>))
            (hash_regions (gm_regions m) (gm_page_hashes m) Fnv1aHasher_new))"

fun scratch_acc :: "Region \<Rightarrow> nat list \<Rightarrow> u64 \<Rightarrow> u64 option" where
  "scratch_acc r [] acc = Some acc"
| "scratch_acc r (p # ps) acc =
     (case page_slice p (rg_bytes r) of
        None \<Rightarrow> None
      | Some bs \<Rightarrow> scratch_acc r ps (acc + page_term (rg_base r) p bs))"

fun scratch_regions :: "Region list \<Rightarrow> Fnv1aHasher \<Rightarrow> Fnv1aHasher option" where
  "scratch_regions [] hasher = Some hasher"
| "scratch_regions (r # rs) hasher =
     (case scratch_acc r (DirtyPages_for_each_set (rg_dirty_pages r)) 0 of
        None \<Rightarrow> None
      | Some acc \<Rightarrow> scratch_regions rs (hash_region r acc hasher))"

definition GuestMemory_content_hash_from_scratch :: "GuestMemory \<Rightarrow> u64 option" where
  "GuestMemory_content_hash_from_scratch m =
     map_option Fnv1aHasher_finish (scratch_regions (gm_regions m) Fnv1aHasher_new)"

definition GuestMemory_invalidate_content_hash :: "GuestMemory \<Rightarrow> GuestMemory" where
  "GuestMemory_invalidate_content_hash m = m\<lparr>gm_cached_hash := None\<rparr>"

section \<open>Invariant\<close>

text \<open>The bytes of page \<open>p\<close>, and its term.\<close>

definition page_of :: "Region \<Rightarrow> nat \<Rightarrow> bytes" where
  "page_of r p = the (page_slice p (rg_bytes r))"

definition term_of :: "Region \<Rightarrow> nat \<Rightarrow> u64" where
  "term_of r p = page_term (rg_base r) p (page_of r p)"

text \<open>
  A page that was never marked dirty is all zero, and a page that is not stale has its
  current term in the table; the sum is the sum of the table.
\<close>

definition zero_unless_dirty :: "Region \<Rightarrow> bool" where
  "zero_unless_dirty r \<longleftrightarrow> page_set (rg_dirty_pages r) \<subseteq> {..<rpages r} \<and>
     (\<forall>k < length (rg_bytes r). k div RESET_PAGE_SIZE \<notin> page_set (rg_dirty_pages r) \<longrightarrow> rg_bytes r ! k = 0)"

definition terms_fresh :: "Region \<Rightarrow> PageHashes \<Rightarrow> bool" where
  "terms_fresh r h \<longleftrightarrow> ph_acc h = sum_list (ph_terms h) \<and> page_set (ph_stale h) \<subseteq> {..<rpages r} \<and>
     (\<forall>p < rpages r. p \<notin> page_set (ph_stale h) \<longrightarrow> ph_terms h ! p = term_of r p)"

definition hash_inv :: "GuestMemory \<Rightarrow> bool" where
  "hash_inv m \<longleftrightarrow> gm_wf m \<and> (\<forall>r \<in> set (gm_regions m). zero_unless_dirty r) \<and>
     list_all2 terms_fresh (gm_regions m) (gm_page_hashes m) \<and>
     (\<forall>h. gm_cached_hash m = Some h \<longrightarrow> GuestMemory_content_hash_from_scratch m = Some h)"

lemma page_size_pos: "0 < RESET_PAGE_SIZE"
  by (simp add: RESET_PAGE_SIZE_def)

lemma page_slice_Some:
  assumes "p < rpages r"
  shows "page_slice p (rg_bytes r) = Some (page_of r p)"
    and "page_of r p = slice (p * RESET_PAGE_SIZE) (min RESET_PAGE_SIZE (length (rg_bytes r) - p * RESET_PAGE_SIZE)) (rg_bytes r)"
proof -
  have "p * RESET_PAGE_SIZE < length (rg_bytes r)"
  proof (rule ccontr)
    assume "\<not> p * RESET_PAGE_SIZE < length (rg_bytes r)"
    then have "div_ceil (length (rg_bytes r)) RESET_PAGE_SIZE \<le> p"
      by (intro div_ceil_least page_size_pos) simp
    then show False using assms by (simp add: rpages_def)
  qed
  moreover have "min (p * RESET_PAGE_SIZE + RESET_PAGE_SIZE) (length (rg_bytes r)) - p * RESET_PAGE_SIZE =
      min RESET_PAGE_SIZE (length (rg_bytes r) - p * RESET_PAGE_SIZE)"
    by linarith
  ultimately have "page_slice p (rg_bytes r) =
      Some (slice (p * RESET_PAGE_SIZE) (min RESET_PAGE_SIZE (length (rg_bytes r) - p * RESET_PAGE_SIZE)) (rg_bytes r))"
    by (simp add: page_slice_def page_bounds_def Let_def)
  then show "page_slice p (rg_bytes r) = Some (page_of r p)"
    "page_of r p = slice (p * RESET_PAGE_SIZE) (min RESET_PAGE_SIZE (length (rg_bytes r) - p * RESET_PAGE_SIZE)) (rg_bytes r)"
    by (simp_all add: page_of_def)
qed

lemma page_of_nth:
  assumes "p < rpages r" and "k < length (page_of r p)"
  shows "page_of r p ! k = rg_bytes r ! (p * RESET_PAGE_SIZE + k)" "p * RESET_PAGE_SIZE + k < length (rg_bytes r)"
    "(p * RESET_PAGE_SIZE + k) div RESET_PAGE_SIZE = p"
proof -
  have k: "k < RESET_PAGE_SIZE" "k < length (rg_bytes r) - p * RESET_PAGE_SIZE"
    using assms(2) unfolding page_slice_Some(2) [OF assms(1)] by simp_all
  show "p * RESET_PAGE_SIZE + k < length (rg_bytes r)" using k(2) by linarith
  show "page_of r p ! k = rg_bytes r ! (p * RESET_PAGE_SIZE + k)"
    unfolding page_slice_Some(2) [OF assms(1)] using k by simp
  show "(p * RESET_PAGE_SIZE + k) div RESET_PAGE_SIZE = p" using k(1) by simp
qed

lemma term_of_clean:
  assumes "zero_unless_dirty r" and "p < rpages r" and "p \<notin> page_set (rg_dirty_pages r)"
  shows "term_of r p = 0"
proof -
  have "\<forall>b \<in> set (page_of r p). b = 0"
    using assms page_of_nth [OF assms(2)] by (auto simp: in_set_conv_nth zero_unless_dirty_def)
  then show ?thesis by (simp add: term_of_def page_term_def list_all_iff)
qed

section \<open>Refreshing\<close>

lemma sum_list_update_word:
  "p < length ts \<Longrightarrow> sum_list (ts[p := x]) = sum_list ts + x - (ts ! p :: u64)"
  by (induction ts arbitrary: p) (auto simp: algebra_simps split: nat.split)

lemma refresh_pages_effect:
  assumes "set ps \<subseteq> {..<rpages r}" and "length ts = rpages r"
  shows "\<exists>ts' acc'. refresh_pages r ps ts acc = Some (ts', acc') \<and> length ts' = rpages r \<and>
    (\<forall>q < rpages r. ts' ! q = (if q \<in> set ps then term_of r q else ts ! q)) \<and>
    acc' - sum_list ts' = acc - sum_list ts"
  using assms
proof (induction ps arbitrary: ts acc)
  case (Cons p ps)
  have p: "p < rpages r" "p < length ts" using Cons.prems by simp_all
  obtain ts' acc' where IH: "refresh_pages r ps (ts[p := term_of r p]) (acc - ts ! p + term_of r p) = Some (ts', acc')"
    "length ts' = rpages r" "\<forall>q < rpages r. ts' ! q = (if q \<in> set ps then term_of r q else ts[p := term_of r p] ! q)"
    "acc' - sum_list ts' = acc - ts ! p + term_of r p - sum_list (ts[p := term_of r p])"
    using Cons.IH [of "ts[p := term_of r p]" "acc - ts ! p + term_of r p"] Cons.prems by auto
  have "sum_list (ts[p := term_of r p]) = sum_list ts + term_of r p - ts ! p"
    using p(2) by (rule sum_list_update_word)
  then have "acc' - sum_list ts' = acc - sum_list ts" using IH(4) by (simp add: algebra_simps)
  moreover have "refresh_pages r (p # ps) ts acc = Some (ts', acc')"
    using IH(1) p by (simp add: page_slice_Some term_of_def Let_def)
  ultimately show ?case using IH(2,3) p by (auto simp: nth_list_update)
qed simp

definition region_sum :: "Region \<Rightarrow> u64" where
  "region_sum r = sum_list (map (term_of r) [0..<rpages r])"

lemma refresh_effect:
  assumes "hashes_fit r h" and "terms_fresh r h"
  shows "\<exists>h'. PageHashes_refresh r h = Some h' \<and> hashes_fit r h' \<and> terms_fresh r h' \<and>
    page_set (ph_stale h') = {} \<and> ph_acc h' = region_sum r"
proof -
  have fresh_sum: "terms_fresh r h' \<Longrightarrow> hashes_fit r h' \<Longrightarrow> page_set (ph_stale h') = {} \<Longrightarrow> ph_acc h' = region_sum r" for h'
  proof -
    assume f: "terms_fresh r h'" "hashes_fit r h'" "page_set (ph_stale h') = {}"
    then have "ph_terms h' = map (term_of r) [0..<rpages r]"
      by (intro nth_equalityI) (auto simp: terms_fresh_def hashes_fit_def)
    then show "ph_acc h' = region_sum r" using f(1) by (simp add: terms_fresh_def region_sum_def)
  qed
  show ?thesis
  proof (cases "DirtyPages_for_each_set (ph_stale h) = []")
    case True
    then have "page_set (ph_stale h) = {}" using for_each_set_spec(1) [of "ph_stale h"] by simp
    then show ?thesis
      using True assms fresh_sum [OF assms(2,1)] by (simp add: PageHashes_refresh_def Let_def)
  next
    case False
    have sub: "set (DirtyPages_for_each_set (ph_stale h)) \<subseteq> {..<rpages r}"
      using assms(2) by (simp add: for_each_set_spec terms_fresh_def)
    obtain ts' acc' where ts: "refresh_pages r (DirtyPages_for_each_set (ph_stale h)) (ph_terms h) (ph_acc h) = Some (ts', acc')"
      "length ts' = rpages r" "\<forall>q < rpages r. ts' ! q = (if q \<in> page_set (ph_stale h) then term_of r q else ph_terms h ! q)"
      "acc' - sum_list ts' = ph_acc h - sum_list (ph_terms h)"
      using refresh_pages_effect [OF sub, of "ph_terms h" "ph_acc h"] assms(1)
      by (auto simp: hashes_fit_def for_each_set_spec)
    define h' where "h' = h\<lparr>ph_terms := ts', ph_acc := acc', ph_stale := DirtyPages_clear (ph_stale h)\<rparr>"
    have r: "PageHashes_refresh r h = Some h'"
      using False ts(1) by (simp add: PageHashes_refresh_def Let_def h'_def)
    have s: "page_set (ph_stale h') = {}" by (simp add: h'_def)
    have f: "hashes_fit r h'" using assms(1) ts(2) by (simp add: hashes_fit_def h'_def DirtyPages_clear_def)
    have "terms_fresh r h'"
      using assms(2) ts(3,4) by (auto simp: terms_fresh_def h'_def)
    then show ?thesis using r s f fresh_sum by blast
  qed
qed

lemma scratch_acc_effect:
  "set ps \<subseteq> {..<rpages r} \<Longrightarrow> scratch_acc r ps acc = Some (acc + sum_list (map (term_of r) ps))"
  by (induction ps arbitrary: acc) (auto simp: page_slice_Some term_of_def add.assoc)

lemma scratch_acc_region:
  assumes "zero_unless_dirty r"
  shows "scratch_acc r (DirtyPages_for_each_set (rg_dirty_pages r)) 0 = Some (region_sum r)"
proof -
  let ?d = "page_set (rg_dirty_pages r)"
  have sub: "?d \<subseteq> {..<rpages r}" using assms by (simp add: zero_unless_dirty_def)
  have "sum_list (map (term_of r) (DirtyPages_for_each_set (rg_dirty_pages r))) = sum (term_of r) ?d"
    using for_each_set_spec [of "rg_dirty_pages r"] by (simp add: sum_list_distinct_conv_sum_set)
  also have "\<dots> = sum (term_of r) {..<rpages r}"
    using sub term_of_clean [OF assms] by (intro sum.mono_neutral_left) auto
  also have "\<dots> = region_sum r"
    by (simp add: region_sum_def interv_sum_list_conv_sum_set_nat atLeast0LessThan)
  finally show ?thesis
    using scratch_acc_effect [of "DirtyPages_for_each_set (rg_dirty_pages r)" r 0] sub
    by (simp add: for_each_set_spec)
qed

text \<open>
  The digest as a function of what the memory holds: each region adds its base, its size and the
  sum of the terms of all its pages, written or not.
\<close>

definition pages_sum :: "u64 \<Rightarrow> bytes \<Rightarrow> u64" where
  "pages_sum base bs =
     sum_list (map (\<lambda>p. page_term base p (slice (p * RESET_PAGE_SIZE) RESET_PAGE_SIZE bs)) [0..<div_ceil (length bs) RESET_PAGE_SIZE])"

definition digest_region :: "u64 \<times> bytes \<Rightarrow> Fnv1aHasher \<Rightarrow> Fnv1aHasher" where
  "digest_region = (\<lambda>(base, bs) hasher.
     fold (\<lambda>word h. Fnv1aHasher_write h (to_le 8 word)) [base, of_nat (length bs), pages_sum base bs] hasher)"

definition content_digest :: "(u64 \<times> bytes) list \<Rightarrow> u64" where
  "content_digest rs = Fnv1aHasher_finish (fold digest_region rs Fnv1aHasher_new)"

definition region_contents :: "Region list \<Rightarrow> (u64 \<times> bytes) list" where
  "region_contents rs = map (\<lambda>r. (rg_base r, rg_bytes r)) rs"

lemma region_sum_pages: "region_sum r = pages_sum (rg_base r) (rg_bytes r)"
proof -
  have "page_of r p = slice (p * RESET_PAGE_SIZE) RESET_PAGE_SIZE (rg_bytes r)" if "p < rpages r" for p
    using page_slice_Some(2) [OF that] by (simp add: slice_def min_def)
  then have "map (term_of r) [0..<rpages r] =
      map (\<lambda>p. page_term (rg_base r) p (slice (p * RESET_PAGE_SIZE) RESET_PAGE_SIZE (rg_bytes r))) [0..<rpages r]"
    by (simp add: term_of_def)
  then show ?thesis by (simp only: region_sum_def pages_sum_def rpages_def)
qed

lemma hash_region_digest: "hash_region r (region_sum r) = digest_region (rg_base r, rg_bytes r)"
  by (simp add: hash_region_def digest_region_def region_sum_pages fun_eq_iff)

lemma scratch_regions_digest:
  "\<forall>r \<in> set rs. zero_unless_dirty r \<Longrightarrow> scratch_regions rs hasher = Some (fold digest_region (region_contents rs) hasher)"
  by (induction rs arbitrary: hasher) (simp_all add: scratch_acc_region hash_region_digest region_contents_def)

lemma hash_regions_effect:
  assumes "list_all2 hashes_fit rs hs" and "list_all2 terms_fresh rs hs"
  shows "\<exists>hs'. hash_regions rs hs hasher = Some (hs', fold digest_region (region_contents rs) hasher) \<and>
    list_all2 hashes_fit rs hs' \<and> list_all2 terms_fresh rs hs'"
  using assms
proof (induction rs hs arbitrary: hasher rule: list_all2_induct)
  case (Cons r rs h hs)
  obtain h' where h': "PageHashes_refresh r h = Some h'" "hashes_fit r h'" "terms_fresh r h'" "ph_acc h' = region_sum r"
    using refresh_effect [of r h] Cons by auto
  obtain hs' where "hash_regions rs hs (hash_region r (region_sum r) hasher) =
      Some (hs', fold digest_region (region_contents rs) (hash_region r (region_sum r) hasher))"
    "list_all2 hashes_fit rs hs'" "list_all2 terms_fresh rs hs'"
    using Cons.IH [of "hash_region r (region_sum r) hasher"] Cons.prems by auto
  then show ?case using h' by (auto simp: region_contents_def hash_region_digest)
qed (simp add: region_contents_def)

section \<open>Preservation\<close>

definition pages_inv :: "GuestMemory \<Rightarrow> bool" where
  "pages_inv m \<longleftrightarrow> (\<forall>r \<in> set (gm_regions m). zero_unless_dirty r) \<and>
     list_all2 terms_fresh (gm_regions m) (gm_page_hashes m)"

lemma page_of_splice_outside:
  assumes "p < rpages r" and "off + length ys \<le> length (rg_bytes r)" and "rg_bytes r' = splice off ys (rg_bytes r)"
    and out: "ys = [] \<or> p < off div RESET_PAGE_SIZE \<or> (off + length ys - 1) div RESET_PAGE_SIZE < p"
  shows "page_of r' p = page_of r p"
proof -
  have len: "length (rg_bytes r') = length (rg_bytes r)" using assms(2,3) by simp
  then have p': "p < rpages r'" using assms(1) by (simp add: rpages_def)
  have eq_len: "length (page_of r' p) = length (page_of r p)"
    by (simp add: page_slice_Some(2) [OF assms(1)] page_slice_Some(2) [OF p'] len)
  show ?thesis
  proof (rule nth_equalityI [OF eq_len])
    fix k assume k: "k < length (page_of r' p)"
    let ?a = "p * RESET_PAGE_SIZE + k"
    note n = page_of_nth [OF p' k] page_of_nth [OF assms(1) k [unfolded eq_len]]
    have "\<not> (off \<le> ?a \<and> ?a < off + length ys)"
    proof
      assume a: "off \<le> ?a \<and> ?a < off + length ys"
      then have "off div RESET_PAGE_SIZE \<le> ?a div RESET_PAGE_SIZE" "?a div RESET_PAGE_SIZE \<le> (off + length ys - 1) div RESET_PAGE_SIZE"
        by (intro div_le_mono; linarith)+
      then show False using out a n(3) by auto
    qed
    then show "page_of r' p ! k = page_of r p ! k"
      using n assms(2,3) by (auto simp: nth_splice)
  qed
qed

lemma committed_pages_inv:
  assumes wf: "gm_wf m" and idx: "idx < length (gm_regions m)"
    and fit: "off + length ys \<le> length (rg_bytes (gm_regions m ! idx))" and cm: "committed m idx off ys m'"
    and inv: "pages_inv m"
  shows "pages_inv m'"
proof -
  let ?r = "gm_regions m ! idx" and ?h = "gm_page_hashes m ! idx"
  let ?P = "{p. ys \<noteq> [] \<and> off div RESET_PAGE_SIZE \<le> p \<and> p \<le> (off + length ys - 1) div RESET_PAGE_SIZE}"
  obtain r' h' where m': "m' = m\<lparr>gm_regions := (gm_regions m)[idx := r'], gm_page_hashes := (gm_page_hashes m)[idx := h']\<rparr>"
    and sh: "same_shape ?r r'" and bs: "rg_bytes r' = splice off ys (rg_bytes ?r)"
    and d: "page_set (rg_dirty_pages r') = page_set (rg_dirty_pages ?r) \<union> ?P"
    and h: "ph_terms h' = ph_terms ?h" "ph_acc h' = ph_acc ?h" "page_set (ph_stale h') = page_set (ph_stale ?h) \<union> ?P"
    using cm unfolding committed_def by blast
  note sb = same_shape_bounds [OF sh]
  have z: "zero_unless_dirty ?r" and f: "terms_fresh ?r ?h"
    using inv idx by (auto simp: pages_inv_def list_all2_conv_all_nth)
  have P: "?P \<subseteq> {..<rpages ?r}"
  proof
    fix p assume p: "p \<in> ?P"
    then have "off < off + length ys" by auto
    from page_in_bitmap(1) [OF this fit] p show "p \<in> {..<rpages ?r}" by (auto simp: rpages_def)
  qed
  have "zero_unless_dirty r'"
    unfolding zero_unless_dirty_def
  proof (intro conjI allI impI)
    show "page_set (rg_dirty_pages r') \<subseteq> {..<rpages r'}"
      using z P sb d by (simp add: zero_unless_dirty_def)
    fix k assume k: "k < length (rg_bytes r')" "k div RESET_PAGE_SIZE \<notin> page_set (rg_dirty_pages r')"
    have "\<not> (off \<le> k \<and> k < off + length ys)"
    proof
      assume a: "off \<le> k \<and> k < off + length ys"
      then have "off div RESET_PAGE_SIZE \<le> k div RESET_PAGE_SIZE" "k div RESET_PAGE_SIZE \<le> (off + length ys - 1) div RESET_PAGE_SIZE"
        by (intro div_le_mono; linarith)+
      then show False using a k(2) d by auto
    qed
    then show "rg_bytes r' ! k = 0"
      using k z d fit by (auto simp: bs nth_splice zero_unless_dirty_def)
  qed
  moreover have "terms_fresh r' h'"
    unfolding terms_fresh_def
  proof (intro conjI allI impI)
    show "ph_acc h' = sum_list (ph_terms h')" "page_set (ph_stale h') \<subseteq> {..<rpages r'}"
      using f P sb h by (simp_all add: terms_fresh_def)
    fix p assume p: "p < rpages r'" "p \<notin> page_set (ph_stale h')"
    then have "page_of r' p = page_of ?r p"
      using h(3) sb by (intro page_of_splice_outside [OF _ fit bs]) (auto simp: not_le)
    then show "ph_terms h' ! p = term_of r' p"
      using f p h sb sh by (auto simp: terms_fresh_def term_of_def same_shape_def)
  qed
  ultimately show ?thesis
    using inv by (auto simp: pages_inv_def m' list_all2_update_cong dest!: set_update_subset_insert [THEN subsetD])
qed

lemma commits_pages_inv: "commits m m' \<Longrightarrow> pages_inv m \<Longrightarrow> pages_inv m'"
  by (induction rule: commits.induct) (auto intro: committed_pages_inv)

lemma hash_inv_iff:
  "hash_inv m \<longleftrightarrow> gm_wf m \<and> pages_inv m \<and>
     (\<forall>h. gm_cached_hash m = Some h \<longrightarrow> GuestMemory_content_hash_from_scratch m = Some h)"
  by (auto simp: hash_inv_def pages_inv_def)

lemma hash_inv_apply_commit [inv_intros]:
  assumes "hash_inv m" and "length bs < 2 ^ 64" and "GuestMemory_apply_commit rng bs m = Some (Inr m')"
  shows "hash_inv m'"
proof -
  have wf: "gm_wf m" "pages_inv m" using assms(1) by (simp_all add: hash_inv_iff)
  obtain i j where ws: "GuestMemory_write_span rng (length bs) m = Inr (i, j)"
    using assms(3) by (auto simp: GuestMemory_apply_commit_def split: sum.splits)
  obtain m1 where m1: "m' = m1\<lparr>gm_cached_hash := None\<rparr>" "commits m m1"
    using apply_commit_Inr [OF wf(1) assms(2) ws] assms(3) by auto
  show ?thesis
    using commits_effect(1) [OF m1(2) wf(1)] commits_pages_inv [OF m1(2) wf(2)]
    by (simp add: hash_inv_iff m1(1) gm_wf_def pages_inv_def)
qed

lemma content_hash_effect:
  assumes "hash_inv m"
  shows "GuestMemory_content_hash_from_scratch m = Some (content_digest (region_contents (gm_regions m)))"
    and "\<exists>m'. GuestMemory_content_hash m = Some (content_digest (region_contents (gm_regions m)), m') \<and>
      hash_inv m' \<and> gm_regions m' = gm_regions m"
proof -
  have inv: "list_all2 hashes_fit (gm_regions m) (gm_page_hashes m)" "list_all2 terms_fresh (gm_regions m) (gm_page_hashes m)"
    "\<forall>r \<in> set (gm_regions m). zero_unless_dirty r"
    using assms by (simp_all add: hash_inv_def gm_wf_def)
  show scratch: "GuestMemory_content_hash_from_scratch m = Some (content_digest (region_contents (gm_regions m)))"
    by (simp add: GuestMemory_content_hash_from_scratch_def scratch_regions_digest [OF inv(3)] content_digest_def)
  show "\<exists>m'. GuestMemory_content_hash m = Some (content_digest (region_contents (gm_regions m)), m') \<and>
      hash_inv m' \<and> gm_regions m' = gm_regions m"
  proof (cases "gm_cached_hash m")
    case (Some h)
    then show ?thesis using assms scratch by (auto simp: GuestMemory_content_hash_def hash_inv_def)
  next
    case None
    obtain hs' where "hash_regions (gm_regions m) (gm_page_hashes m) Fnv1aHasher_new =
        Some (hs', fold digest_region (region_contents (gm_regions m)) Fnv1aHasher_new)"
      "list_all2 hashes_fit (gm_regions m) hs'" "list_all2 terms_fresh (gm_regions m) hs'"
      using hash_regions_effect [OF inv(1,2)] by blast
    then show ?thesis
      using None assms scratch
      by (auto simp: GuestMemory_content_hash_def GuestMemory_content_hash_from_scratch_def hash_inv_def gm_wf_def Let_def content_digest_def)
  qed
qed

lemma hash_inv_from_regions:
  assumes "GuestMemory_from_regions rs = Inr m" and "\<forall>r \<in> set rs. bitmap_ok r \<and> zero_unless_dirty r"
  shows "hash_inv m"
proof -
  let ?rs = "sort_key rg_base rs"
  have m: "gm_regions m = ?rs" "gm_cached_hash m = None"
    "gm_page_hashes m = map (\<lambda>r. (PageHashes_new (div_ceil (length (rg_bytes r)) RESET_PAGE_SIZE))\<lparr>ph_stale := rg_dirty_pages r\<rparr>) ?rs"
    using assms(1) by (auto simp: GuestMemory_from_regions_def Let_def split: option.splits if_splits)
  have "terms_fresh r ((PageHashes_new (div_ceil (length (rg_bytes r)) RESET_PAGE_SIZE))\<lparr>ph_stale := rg_dirty_pages r\<rparr>)"
    if "zero_unless_dirty r" for r
    using that term_of_clean [OF that]
    by (auto simp: terms_fresh_def PageHashes_new_def zero_unless_dirty_def rpages_def sum_list_replicate)
  then show ?thesis
    using from_regions_wf [OF assms(1)] assms(2) m
    by (auto simp: hash_inv_def list_all2_conv_all_nth) (metis length_sort nth_mem set_sort)
qed

end
