(* ===== verification/Staging.thy ===== *)
theory Staging
  imports Guest_Hash
begin

text \<open>
  \<^verbatim>\<open>cellgov_mem/src/staging.rs\<close>: the batch of staged writes and its atomic drain. The locale
  \<open>checked_target\<close> is what the drain relies on: a write the target validates can be
  applied, and applying it changes no later verdict.
\<close>

section \<open>Staged writes\<close>

definition INLINE_BYTES :: nat where "INLINE_BYTES = 16"

datatype StagedBytes = Inline bytes u8 | Heap bytes

definition StagedBytes_from_slice :: "bytes \<Rightarrow> StagedBytes" where
  "StagedBytes_from_slice bs =
     (if length bs \<le> INLINE_BYTES
      then Inline (splice 0 bs (replicate INLINE_BYTES 0)) (of_nat (length bs))
      else Heap bs)"

definition StagedBytes_as_slice :: "StagedBytes \<Rightarrow> bytes" where
  "StagedBytes_as_slice s = (case s of Inline buf len \<Rightarrow> take (unat len) buf | Heap bs \<Rightarrow> bs)"

definition StagedBytes_len :: "StagedBytes \<Rightarrow> usize" where
  "StagedBytes_len s = length (StagedBytes_as_slice s)"

record StagedWrite =
  sw_range :: ByteRange
  sw_bytes :: StagedBytes

definition StagedWrite_new :: "ByteRange \<Rightarrow> bytes \<Rightarrow> StagedWrite" where
  "StagedWrite_new rng bs = \<lparr>sw_range = rng, sw_bytes = StagedBytes_from_slice bs\<rparr>"

record StagingMemory =
  st_pending :: "StagedWrite list"

definition StagingMemory_new :: StagingMemory where
  "StagingMemory_new = \<lparr>st_pending = []\<rparr>"

definition StagingMemory_stage :: "StagedWrite \<Rightarrow> StagingMemory \<Rightarrow> StagingMemory" where
  "StagingMemory_stage w s = s\<lparr>st_pending := st_pending s @ [w]\<rparr>"

definition StagingMemory_len :: "StagingMemory \<Rightarrow> usize" where
  "StagingMemory_len s = length (st_pending s)"

definition StagingMemory_is_empty :: "StagingMemory \<Rightarrow> bool" where
  "StagingMemory_is_empty s \<longleftrightarrow> st_pending s = []"

definition StagingMemory_clear :: "StagingMemory \<Rightarrow> StagingMemory" where
  "StagingMemory_clear s = s\<lparr>st_pending := []\<rparr>"

section \<open>The drain, over any checked target\<close>

fun validate_all :: "('w \<Rightarrow> 'm \<Rightarrow> 'e + unit) \<Rightarrow> 'w list \<Rightarrow> 'm \<Rightarrow> 'e + unit" where
  "validate_all v [] m = Inr ()"
| "validate_all v (w # ws) m = rbind (v w m) (\<lambda>_. validate_all v ws m)"

fun apply_all :: "('w \<Rightarrow> 'm \<Rightarrow> ('e + 'm) option) \<Rightarrow> ('w \<Rightarrow> 'o \<Rightarrow> 'o) \<Rightarrow> 'w list \<Rightarrow> 'o \<Rightarrow> 'm \<Rightarrow> ('o \<times> 'm) option" where
  "apply_all ap obs [] ob m = Some (ob, m)"
| "apply_all ap obs (w # ws) ob m =
     (case ap w m of Some (Inr m') \<Rightarrow> apply_all ap obs ws (obs w ob) m' | _ \<Rightarrow> None)"

definition StagingMemory_validate_pending :: "StagingMemory \<Rightarrow> GuestMemory \<Rightarrow> MemError + unit" where
  "StagingMemory_validate_pending s target =
     validate_all (\<lambda>w m. GuestMemory_validate_write (sw_range w) (StagedBytes_len (sw_bytes w)) m)
       (st_pending s) target"

text \<open>
  The drain hands each applied write to \<^verbatim>\<open>observe\<close>, whose captured state is \<open>ob\<close>. The
  \<^verbatim>\<open>expect\<close> on \<^verbatim>\<open>apply_commit\<close> panics on an error.
\<close>

definition StagingMemory_drain_into_observed ::
    "(ByteRange \<Rightarrow> bytes \<Rightarrow> 'o \<Rightarrow> 'o) \<Rightarrow> 'o \<Rightarrow> StagingMemory \<Rightarrow> GuestMemory
      \<Rightarrow> ((MemError + usize) \<times> StagingMemory \<times> GuestMemory \<times> 'o) option" where
  "StagingMemory_drain_into_observed observe ob s target =
     (case StagingMemory_validate_pending s target of
        Inl e \<Rightarrow> Some (Inl e, s, target, ob)
      | Inr _ \<Rightarrow>
          (let count = length (st_pending s)
           in case apply_all (\<lambda>w m. GuestMemory_apply_commit (sw_range w) (StagedBytes_as_slice (sw_bytes w)) m)
                     (\<lambda>w. observe (sw_range w) (StagedBytes_as_slice (sw_bytes w))) (st_pending s) ob target of
                None \<Rightarrow> None
              | Some (o2, target') \<Rightarrow> Some (Inr count, s\<lparr>st_pending := []\<rparr>, target', o2)))"

definition StagingMemory_drain_into ::
    "StagingMemory \<Rightarrow> GuestMemory \<Rightarrow> ((MemError + usize) \<times> StagingMemory \<times> GuestMemory \<times> unit) option" where
  "StagingMemory_drain_into s target = StagingMemory_drain_into_observed (\<lambda>_ _ _. ()) () s target"

locale checked_target =
  fixes inv :: "'m \<Rightarrow> bool" and admissible :: "'w \<Rightarrow> bool"
    and validate :: "'w \<Rightarrow> 'm \<Rightarrow> 'e + unit" and apply1 :: "'w \<Rightarrow> 'm \<Rightarrow> ('e + 'm) option"
    and content :: "'m \<Rightarrow> 'c" and effect :: "'w \<Rightarrow> 'c \<Rightarrow> 'c"
  assumes validated: "inv m \<Longrightarrow> admissible w \<Longrightarrow> validate w m = Inr () \<Longrightarrow> \<exists>m'. apply1 w m = Some (Inr m')"
    and applied: "inv m \<Longrightarrow> admissible w \<Longrightarrow> apply1 w m = Some (Inr m') \<Longrightarrow>
      inv m' \<and> content m' = effect w (content m) \<and> (\<forall>w'. validate w' m' = validate w' m)"
begin

lemma apply_all_total:
  assumes "inv m" and "\<forall>w \<in> set ws. admissible w" and "validate_all validate ws m = Inr ()"
  shows "\<exists>m'. apply_all apply1 obs ws ob m = Some (fold obs ws ob, m') \<and> inv m' \<and>
    content m' = fold effect ws (content m)"
  using assms
proof (induction ws arbitrary: m ob)
  case (Cons w ws)
  have v: "validate w m = Inr ()" "validate_all validate ws m = Inr ()"
    using Cons.prems(3) by (auto simp: rbind_Inr_iff)
  obtain m1 where m1: "apply1 w m = Some (Inr m1)" using validated [OF Cons.prems(1) _ v(1)] Cons.prems(2) by auto
  note a = applied [OF Cons.prems(1) _ m1]
  have "validate_all validate ws m1 = validate_all validate ws m"
    using a Cons.prems(2) by (induction ws) auto
  then show ?case
    using Cons.IH [of m1 "obs w ob"] a Cons.prems(2) v(2) m1 by auto
qed simp

end

section \<open>Guest memory as a checked target\<close>

lemma write_span_shape:
  assumes "list_all2 same_shape (gm_regions m) (gm_regions m')" and "gm_unmapped_below m' = gm_unmapped_below m"
  shows "GuestMemory_write_span rng n m' = GuestMemory_write_span rng n m"
proof -
  have fc: "GuestMemory_fault_context a m' = GuestMemory_fault_context a m" for a
  proof -
    have "k < length (gm_regions m) \<Longrightarrow> rg_label (gm_regions m' ! k) = rg_label (gm_regions m ! k)" for k
      using assms(1) by (auto simp: list_all2_conv_all_nth same_shape_def)
    moreover have "partition_point (\<lambda>r. rg_base r \<le> a) (gm_regions m) \<le> length (gm_regions m)"
      by (simp add: partition_point_def length_takeWhile_le)
    ultimately show ?thesis
      using assms(1) by (auto simp: GuestMemory_fault_context_def Let_def partition_point_shape list_all2_lengthD)
  qed
  have fd: "map_option (\<lambda>r. (rg_base r, rg_label r)) (find (\<lambda>r. rg_access r \<noteq> ReadWrite) ss) =
            map_option (\<lambda>r. (rg_base r, rg_label r)) (find (\<lambda>r. rg_access r \<noteq> ReadWrite) rs)"
    if "list_all2 same_shape rs ss" for rs ss
    using that by (induction rule: list_all2_induct) (auto simp: same_shape_def)
  have sl: "list_all2 same_shape (slice i k (gm_regions m)) (slice i k (gm_regions m'))" for i k
    using assms(1) by (simp add: slice_def list_all2_takeI list_all2_dropI)
  show ?thesis
  proof (cases "GuestMemory_region_span (GuestAddr_raw (br_start rng)) (br_length rng) m")
    case (Inl a)
    then show ?thesis by (simp add: GuestMemory_write_span_def Let_def region_span_shape [OF assms] fc)
  next
    case (Inr ij)
    then show ?thesis
      using fd [OF sl [of "fst ij" "snd ij - fst ij"]]
      by (auto simp: GuestMemory_write_span_def Let_def region_span_shape [OF assms] case_prod_beta split: option.splits)
  qed
qed

lemma validate_write_shape:
  assumes "list_all2 same_shape (gm_regions m) (gm_regions m')" and "gm_unmapped_below m' = gm_unmapped_below m"
  shows "GuestMemory_validate_write rng n m' = GuestMemory_validate_write rng n m"
  by (simp add: GuestMemory_validate_write_def write_span_shape [OF assms])

text \<open>The bytes one staged write leaves behind.\<close>

definition overlay :: "StagedWrite \<Rightarrow> (nat \<Rightarrow> u8 option) \<Rightarrow> nat \<Rightarrow> u8 option" where
  "overlay w f a =
     (let s = unat (GuestAddr_raw (br_start (sw_range w))); bs = StagedBytes_as_slice (sw_bytes w)
      in if s \<le> a \<and> a < s + length bs then Some (bs ! (a - s)) else f a)"

definition sw_ok :: "StagedWrite \<Rightarrow> bool" where
  "sw_ok w \<longleftrightarrow> StagedBytes_len (sw_bytes w) < 2 ^ 64"

interpretation gm: checked_target hash_inv sw_ok
  "\<lambda>w m. GuestMemory_validate_write (sw_range w) (StagedBytes_len (sw_bytes w)) m"
  "\<lambda>w m. GuestMemory_apply_commit (sw_range w) (StagedBytes_as_slice (sw_bytes w)) m"
  mem_byte overlay
proof
  fix m w assume m: "hash_inv m" and w: "sw_ok w"
  have wf: "gm_wf m" using m by (simp add: hash_inv_def)
  let ?bs = "StagedBytes_as_slice (sw_bytes w)"
  have len: "length ?bs < 2 ^ 64" using w by (simp add: sw_ok_def StagedBytes_len_def)
  show "\<exists>m'. GuestMemory_apply_commit (sw_range w) ?bs m = Some (Inr m')"
    if v: "GuestMemory_validate_write (sw_range w) (StagedBytes_len (sw_bytes w)) m = Inr ()"
  proof -
    obtain i j where "GuestMemory_write_span (sw_range w) (length ?bs) m = Inr (i, j)"
      using v by (auto simp: GuestMemory_validate_write_def StagedBytes_len_def rbind_Inr_iff)
    from apply_commit_Inr [OF wf len this] show ?thesis by blast
  qed
  fix m' assume ap: "GuestMemory_apply_commit (sw_range w) ?bs m = Some (Inr m')"
  obtain i j where ws: "GuestMemory_write_span (sw_range w) (length ?bs) m = Inr (i, j)"
    using ap by (auto simp: GuestMemory_apply_commit_def split: sum.splits)
  obtain m1 where m': "m' = m1\<lparr>gm_cached_hash := None\<rparr>" and c: "commits m m1"
    and mem: "\<And>a. mem_byte m1 a = (let s = unat (GuestAddr_raw (br_start (sw_range w)))
        in if s \<le> a \<and> a < s + length ?bs then Some (?bs ! (a - s)) else mem_byte m a)"
    using apply_commit_Inr [OF wf len ws] ap by auto
  note ce = commits_effect [OF c wf]
  have fl: "gm_unmapped_below m' = gm_unmapped_below m"
    using arg_cong [OF ce(3), of gm_unmapped_below] m' by simp
  have sh: "list_all2 same_shape (gm_regions m) (gm_regions m')" using ce(2) m' by simp
  have "mem_byte m' = overlay w (mem_byte m)"
    using mem by (simp add: fun_eq_iff overlay_def m' mem_byte_def Let_def)
  then show "hash_inv m' \<and> mem_byte m' = overlay w (mem_byte m) \<and>
    (\<forall>w'. GuestMemory_validate_write (sw_range w') (StagedBytes_len (sw_bytes w')) m' =
          GuestMemory_validate_write (sw_range w') (StagedBytes_len (sw_bytes w')) m)"
    using hash_inv_apply_commit [OF m len ap] validate_write_shape [OF sh fl] by simp
qed

lemma StagedBytes_roundtrip: "StagedBytes_as_slice (StagedBytes_from_slice bs) = bs"
  by (auto simp: StagedBytes_from_slice_def StagedBytes_as_slice_def INLINE_BYTES_def splice_def
        unat_of_nat_no_wrap)

section \<open>Properties\<close>

lemma drain_into_effect:
  assumes "hash_inv m" and "\<forall>w \<in> set (st_pending s). sw_ok w"
  shows "case StagingMemory_drain_into_observed obs ob s m of
      None \<Rightarrow> False
    | Some (Inl e, s', m', o2) \<Rightarrow> s' = s \<and> m' = m \<and> o2 = ob \<and> StagingMemory_validate_pending s m = Inl e
    | Some (Inr n, s', m', o2) \<Rightarrow>
        n = StagingMemory_len s \<and> StagingMemory_is_empty s' \<and> hash_inv m' \<and>
        StagingMemory_validate_pending s m = Inr () \<and>
        o2 = fold (\<lambda>w. obs (sw_range w) (StagedBytes_as_slice (sw_bytes w))) (st_pending s) ob \<and>
        mem_byte m' = fold overlay (st_pending s) (mem_byte m)"
proof (cases "StagingMemory_validate_pending s m")
  case (Inl e)
  then show ?thesis by (simp add: StagingMemory_drain_into_observed_def)
next
  case (Inr u)
  then have "validate_all (\<lambda>w m. GuestMemory_validate_write (sw_range w) (StagedBytes_len (sw_bytes w)) m)
      (st_pending s) m = Inr ()"
    by (simp add: StagingMemory_validate_pending_def)
  from gm.apply_all_total [OF assms this, of "\<lambda>w. obs (sw_range w) (StagedBytes_as_slice (sw_bytes w))" ob]
  show ?thesis
    using Inr by (auto simp: StagingMemory_drain_into_observed_def Let_def StagingMemory_len_def
                         StagingMemory_is_empty_def)
qed

text \<open>
  Draining a batch is atomic and in order: either some write is refused, and then the
  memory, the staged batch and the observer are untouched, or every write is applied, the
  buffer is empty, the observer has seen each write once in stage order, and memory is the
  old memory overlaid with the writes in that order (so the last staged write wins where
  they overlap). The panic the drain guards against is unreachable.
\<close>

theorem drain_into_atomic:
  assumes "hash_inv m" and "\<forall>w \<in> set (st_pending s). sw_ok w"
  shows "case StagingMemory_drain_into_observed obs ob s m of
      None \<Rightarrow> False
    | Some (Inl e, s', m', o2) \<Rightarrow> s' = s \<and> m' = m \<and> o2 = ob \<and> StagingMemory_validate_pending s m = Inl e
    | Some (Inr n, s', m', o2) \<Rightarrow>
        n = StagingMemory_len s \<and> StagingMemory_is_empty s' \<and> hash_inv m' \<and>
        StagingMemory_validate_pending s m = Inr () \<and>
        o2 = fold (\<lambda>w. obs (sw_range w) (StagedBytes_as_slice (sw_bytes w))) (st_pending s) ob \<and>
        mem_byte m' = fold overlay (st_pending s) (mem_byte m)"
  using assms by (rule drain_into_effect)

theorem drain_into_atomic_witness:
  "case StagingMemory_drain_into_observed (\<lambda>_ _ n. Suc n) 0
      (StagingMemory_stage (StagedWrite_new (ByteRange (GuestAddr 4) 2) [7, 8]) StagingMemory_new) small_memory of
      None \<Rightarrow> False
    | Some (Inl e, s', m', o2) \<Rightarrow> m' = small_memory
    | Some (Inr n, s', m', o2) \<Rightarrow> hash_inv m'"
proof -
  have h: "hash_inv small_memory"
    by (rule hash_inv_from_regions [OF small_memory_from])
       (simp add: bitmap_ok_def Region_new_def zero_unless_dirty_def)
  show ?thesis
    using drain_into_atomic [OF h, where s = "StagingMemory_stage (StagedWrite_new (ByteRange (GuestAddr 4) 2) [7, 8]) StagingMemory_new"
        and obs = "\<lambda>_ _ n. Suc n" and ob = 0]
    by (auto simp: StagingMemory_stage_def StagingMemory_new_def StagedWrite_new_def sw_ok_def StagedBytes_len_def
          StagedBytes_roundtrip split: option.splits sum.splits prod.splits)
qed

end
