(* ===== verification/Guest_Window.thy ===== *)
theory Guest_Window
  imports Guest_Layout
begin

text \<open>
  \<^verbatim>\<open>cellgov_mem/src/guest_window.rs\<close>: windows carved from a reserved region and returned to it;
  and \<^verbatim>\<open>guest_fetch.rs\<close>: the unmapped floor and the code spans a restricted memory fetches.
\<close>

section \<open>Windows\<close>

definition splice_range :: "nat \<Rightarrow> nat \<Rightarrow> 'a list \<Rightarrow> 'a list \<Rightarrow> 'a list" where
  "splice_range i j ys xs = take i xs @ ys @ drop j xs"

definition GuestMemory_replace_regions :: "nat \<Rightarrow> nat \<Rightarrow> Region list \<Rightarrow> GuestMemory \<Rightarrow> GuestMemory" where
  "GuestMemory_replace_regions i j pieces m =
     (let hashes = map (\<lambda>r. PageHashes_new (div_ceil (length (rg_bytes r)) RESET_PAGE_SIZE)) pieces
      in m\<lparr>gm_page_hashes := splice_range i j hashes (gm_page_hashes m),
           gm_regions := splice_range i j pieces (gm_regions m),
           gm_cached_hash := None\<rparr>)"

definition window_pieces :: "Region \<Rightarrow> u64 \<Rightarrow> usize \<Rightarrow> string \<Rightarrow> Region list" where
  "window_pieces host base sz label =
     (let e = base + of_nat sz;
          left = (if rg_base host < base
                  then [Region_with_access (rg_base host) (unat (base - rg_base host)) (rg_label host)
                          (rg_page_size host) (rg_access host)] else []);
          window = (Region_with_access base sz label (rg_page_size host) ReadWrite)
                     \<lparr>rg_window := Some (rg_label host, rg_access host)\<rparr>;
          right = (if e < Region_end host
                   then [Region_with_access e (unat (Region_end host - e)) (rg_label host)
                           (rg_page_size host) (rg_access host)] else [])
      in map (\<lambda>p. p\<lparr>rg_caching_inhibited := rg_caching_inhibited host\<rparr>) (left @ [window] @ right))"

definition GuestMemory_map_window :: "u64 \<Rightarrow> usize \<Rightarrow> string \<Rightarrow> GuestMemory \<Rightarrow> MemError + GuestMemory" where
  "GuestMemory_map_window base sz label m =
     (case GuestMemory_containing_region_index base (of_nat sz) m of
        None \<Rightarrow> Inl (Unmapped (GuestMemory_fault_context base m))
      | Some idx \<Rightarrow>
          let host = gm_regions m ! idx
          in if rg_access host = ReadWrite then Inl OverlappingRegions
             else Inr (GuestMemory_replace_regions idx (idx + 1) (window_pieces host base sz label) m))"

definition window_joins :: "string \<Rightarrow> RegionAccess \<Rightarrow> PageSize \<Rightarrow> Region \<Rightarrow> bool" where
  "window_joins label access page_size other \<longleftrightarrow>
     rg_window other = None \<and> rg_label other = label \<and> rg_access other = access \<and>
     rg_page_size other = page_size"

definition GuestMemory_unmap_window :: "u64 \<Rightarrow> GuestMemory \<Rightarrow> MemError + GuestMemory" where
  "GuestMemory_unmap_window base m =
     (case find (\<lambda>(i, r). rg_window r \<noteq> None \<and> rg_base r = base) (enumerate 0 (gm_regions m)) of
        None \<Rightarrow> Inl (Unmapped (GuestMemory_fault_context base m))
      | Some (idx, window) \<Rightarrow>
          let rs = gm_regions m;
              (label, access) = the (rg_window window);
              joins = window_joins label access (rg_page_size window);
              first = (if idx > 0 \<and> Region_end (rs ! (idx - 1)) = rg_base window \<and> joins (rs ! (idx - 1))
                       then idx - 1 else idx);
              last = (if idx + 1 < length rs \<and> rg_base (rs ! (idx + 1)) = Region_end window \<and> joins (rs ! (idx + 1))
                      then idx + 1 else idx);
              joined_base = rg_base (rs ! first);
              joined_end = Region_end (rs ! last);
              joined = (Region_with_access joined_base (unat (joined_end - joined_base)) label
                          (rg_page_size window) access)
                         \<lparr>rg_caching_inhibited := rg_caching_inhibited window\<rparr>
          in Inr (GuestMemory_replace_regions first (last + 1) [joined] m))"

section \<open>Carving and returning\<close>

text \<open>A region no write has reached.\<close>

definition pristine :: "Region \<Rightarrow> bool" where
  "pristine r \<longleftrightarrow> r = (Region_with_access (rg_base r) (length (rg_bytes r)) (rg_label r) (rg_page_size r) (rg_access r))
                    \<lparr>rg_caching_inhibited := rg_caching_inhibited r\<rparr>"

lemma find_enumerate_at:
  assumes "\<not> (\<exists>x \<in> set xs. P x)" and "P y"
  shows "find (\<lambda>(i, r). P r) (enumerate k (xs @ y # ys)) = Some (k + length xs, y)"
  using assms by (induction xs arbitrary: k) auto

lemma region_ok_split:
  assumes ok: "region_ok h" and b: "rbase h < unat base" and e: "unat base + sz < rend h"
  shows "unat (base - rg_base h) = unat base - rbase h" "unat (base + of_nat sz) = unat base + sz"
    "unat (Region_end h - (base + of_nat sz)) = rend h - (unat base + sz)"
    "rg_base h < base" "base + of_nat sz < Region_end h" "unat (Region_end h) = rend h"
proof -
  have lt: "rend h < 2 ^ 64" using ok by (simp add: region_ok_def)
  show eh: "unat (Region_end h) = rend h" by (rule unat_Region_end [OF ok])
  have "unat (of_nat sz :: u64) = sz" using e lt by (intro unat_of_nat_no_wrap) simp
  then show be: "unat (base + of_nat sz) = unat base + sz" using e lt by (simp add: unat_plus_no_wrap)
  show lb: "rg_base h < base" using b by (simp add: word_less_nat_alt rbase_def)
  show le: "base + of_nat sz < Region_end h" using be eh e by (simp add: word_less_nat_alt)
  show "unat (base - rg_base h) = unat base - rbase h"
    using lb by (simp add: unat_sub rbase_def)
  show "unat (Region_end h - (base + of_nat sz)) = rend h - (unat base + sz)"
    using le be eh by (simp add: unat_sub)
qed

lemma Region_end_with_access:
  "unat b + n < 2 ^ 64 \<Longrightarrow> Region_end (Region_with_access b n l p a) = b + of_nat n"
  by (simp add: Region_end_def Region_size_def saturating_add_def unat_of_nat_no_wrap)

lemma Region_end_update [simp]:
  "Region_end (r\<lparr>rg_caching_inhibited := c\<rparr>) = Region_end r" "Region_end (r\<lparr>rg_window := w\<rparr>) = Region_end r"
  by (simp_all add: Region_end_def Region_size_def)

lemma window_pieces_inside:
  assumes "region_ok h" and "rbase h < unat base" and "unat base + sz < rend h"
  shows "\<exists>L W R. window_pieces h base sz label = [L, W, R] \<and> rg_window L = None \<and> rg_window R = None \<and>
    rg_window W = Some (rg_label h, rg_access h) \<and> rg_base W = base \<and> Region_end L = base \<and>
    rg_base R = Region_end W \<and> Region_end R = Region_end h \<and> rg_base L = rg_base h \<and>
    window_joins (rg_label h) (rg_access h) (rg_page_size h) L \<and>
    window_joins (rg_label h) (rg_access h) (rg_page_size h) R \<and>
    rg_page_size W = rg_page_size h \<and> rg_caching_inhibited W = rg_caching_inhibited h \<and>
    rg_access W = ReadWrite \<and> rg_bytes W = replicate sz 0"
proof -
  note s = region_ok_split [OF assms]
  have lt: "rend h < 2 ^ 64" using assms(1) by (simp add: region_ok_def)
  have L: "Region_end (Region_with_access (rg_base h) (unat (base - rg_base h)) l p a) = base" for l p a
    using s(1) assms(2,3) lt by (subst Region_end_with_access) (simp_all add: rbase_def)
  have W: "Region_end (Region_with_access base sz l p a) = base + of_nat sz" for l p a
    using assms(3) lt by (intro Region_end_with_access) simp
  have R: "Region_end (Region_with_access (base + of_nat sz) (unat (Region_end h - (base + of_nat sz))) l p a) = Region_end h" for l p a
  proof -
    have "unat (base + of_nat sz) + unat (Region_end h - (base + of_nat sz)) < 2 ^ 64"
      using s(2,3) lt assms(3) by simp
    from Region_end_with_access [OF this] show ?thesis by simp
  qed
  show ?thesis
    using s(4,5) by (simp add: window_pieces_def Let_def L W R window_joins_def)
qed

section \<open>Properties\<close>

text \<open>
  Mapping a window inside a reserved region and unmapping it again restores the region
  map exactly: while mapped, the window is a zero-filled writable region of its own at the
  requested address; afterwards the list of regions is the one before, when the reserved
  region was as created (no write reaches it).
\<close>

theorem window_roundtrip:
  assumes "gm_wf m" and "GuestMemory_containing_region_index base (of_nat sz) m = Some idx"
    and "rg_access (gm_regions m ! idx) \<noteq> ReadWrite" and "pristine (gm_regions m ! idx)"
    and "rbase (gm_regions m ! idx) < unat base" and "unat base + sz < rend (gm_regions m ! idx)"
  shows "\<exists>m1 m2. GuestMemory_map_window base sz label m = Inr m1 \<and>
    (\<exists>w \<in> set (gm_regions m1). rg_base w = base \<and> rg_bytes w = replicate sz 0 \<and> rg_access w = ReadWrite) \<and>
    GuestMemory_unmap_window base m1 = Inr m2 \<and> gm_regions m2 = gm_regions m"
proof -
  let ?rs = "gm_regions m"
  define h where "h = gm_regions m ! idx"
  note hyps = assms(3-6) [folded h_def]
  have idx: "idx < length ?rs" by (rule containing_index(1) [OF assms(1,2)])
  have ok: "regions_ok ?rs" using assms(1) by (simp add: gm_wf_def)
  have hok: "region_ok h" using ok idx by (simp add: regions_ok_def h_def)
  define xs ys where "xs = take idx ?rs" and "ys = drop (Suc idx) ?rs"
  have rs: "?rs = xs @ h # ys" and lx: "length xs = idx"
    using idx by (simp_all add: xs_def ys_def h_def id_take_nth_drop)
  obtain L W R where p: "window_pieces h base sz label = [L, W, R]"
    and L: "rg_window L = None" "Region_end L = base" "rg_base L = rg_base h"
      "window_joins (rg_label h) (rg_access h) (rg_page_size h) L"
    and R: "rg_base R = Region_end W" "Region_end R = Region_end h"
      "window_joins (rg_label h) (rg_access h) (rg_page_size h) R"
    and W: "rg_window W = Some (rg_label h, rg_access h)" "rg_base W = base" "rg_page_size W = rg_page_size h"
      "rg_caching_inhibited W = rg_caching_inhibited h" "rg_access W = ReadWrite" "rg_bytes W = replicate sz 0"
    using window_pieces_inside [OF hok hyps(3,4), of label] by blast
  define m1 where "m1 = GuestMemory_replace_regions idx (idx + 1) [L, W, R] m"
  have m1: "GuestMemory_map_window base sz label m = Inr m1"
    using assms(2) hyps(1) p by (simp add: GuestMemory_map_window_def Let_def m1_def h_def [symmetric])
  have rs1: "gm_regions m1 = (xs @ [L]) @ W # R # ys"
    by (simp add: m1_def GuestMemory_replace_regions_def splice_range_def Let_def xs_def ys_def)
  have none: "\<not> (\<exists>x \<in> set (xs @ [L]). rg_window x \<noteq> None \<and> rg_base x = base)"
  proof -
    have "rg_base x \<noteq> base" if "x \<in> set xs" for x
    proof -
      have "rend x \<le> rbase h" using ok that unfolding rs by simp
      then have "rbase x < unat base" using hyps(3) rbase_le_rend [of x] by linarith
      then show ?thesis by (auto simp: rbase_def)
    qed
    then show ?thesis using L(1) by auto
  qed
  have f: "find (\<lambda>(i, r). rg_window r \<noteq> None \<and> rg_base r = base) (enumerate 0 (gm_regions m1)) = Some (idx + 1, W)"
    using find_enumerate_at [OF none, of W 0 "R # ys"] W lx by (simp add: rs1)
  have n: "gm_regions m1 ! idx = L" "gm_regions m1 ! (idx + 1) = W" "gm_regions m1 ! (idx + 2) = R"
    "idx + 2 < length (gm_regions m1)"
    using lx by (simp_all add: rs1 nth_append)
  have joined: "(Region_with_access (rg_base h) (unat (Region_end h - rg_base h)) (rg_label h) (rg_page_size h) (rg_access h))
      \<lparr>rg_caching_inhibited := rg_caching_inhibited h\<rparr> = h"
  proof -
    have "unat (Region_end h - rg_base h) = length (rg_bytes h)"
      using hok by (simp add: unat_sub word_le_nat_alt unat_Region_end rend_def rbase_def)
    then show ?thesis using hyps(2) by (simp add: pristine_def)
  qed
  have "GuestMemory_unmap_window base m1 = Inr (GuestMemory_replace_regions idx (idx + 3) [h] m1)"
    unfolding GuestMemory_unmap_window_def f using n L R W joined
    by (simp add: Let_def numeral_2_eq_2 numeral_3_eq_3)
  moreover have "gm_regions (GuestMemory_replace_regions idx (idx + 3) [h] m1) = ?rs"
    unfolding rs using lx by (simp add: GuestMemory_replace_regions_def splice_range_def Let_def rs1)
  moreover have "W \<in> set (gm_regions m1)" by (simp add: rs1)
  ultimately show ?thesis using m1 W by blast
qed

definition reserved_memory :: GuestMemory where
  "reserved_memory = projr (GuestMemory_from_regions [Region_with_access 0x1000 64 ''rsv'' Page4K ReservedZeroReadable])"

lemma reserved_memory_facts:
  "GuestMemory_from_regions [Region_with_access 0x1000 64 ''rsv'' Page4K ReservedZeroReadable] = Inr reserved_memory"
  "gm_regions reserved_memory = [Region_with_access 0x1000 64 ''rsv'' Page4K ReservedZeroReadable]"
  "gm_unmapped_below reserved_memory = 0"
  by (simp_all add: reserved_memory_def GuestMemory_from_regions_def Let_def checked_add_def Region_size_def)

theorem window_roundtrip_witness:
  "\<exists>m1 m2. GuestMemory_map_window 0x1010 16 ''win'' reserved_memory = Inr m1 \<and>
     GuestMemory_unmap_window 0x1010 m1 = Inr m2 \<and> gm_regions m2 = gm_regions reserved_memory"
proof -
  have wf: "gm_wf reserved_memory"
    by (rule from_regions_wf [OF reserved_memory_facts(1)]) (simp add: bitmap_ok_def)
  have "GuestMemory_containing_region_index 0x1010 (of_nat 16) reserved_memory = Some 0"
    by (simp add: GuestMemory_containing_region_index_def reserved_memory_facts Let_def partition_point_def
        Region_contains_def checked_add_def Region_end_def Region_size_def saturating_add_def)
  from window_roundtrip [OF wf this, of "''win''"] show ?thesis
    by (simp add: reserved_memory_facts pristine_def) (auto simp: Region_with_access_def Let_def)
qed

section \<open>Code spans and fetches\<close>

datatype FetchRefusal = FetchRefusal_Unmapped | NoExecute

definition GuestMemory_unmap_below :: "u64 \<Rightarrow> GuestMemory \<Rightarrow> GuestMemory" where
  "GuestMemory_unmap_below floor m = m\<lparr>gm_unmapped_below := floor\<rparr>"

definition GuestMemory_declare_code :: "u64 \<Rightarrow> u64 \<Rightarrow> GuestMemory \<Rightarrow> GuestMemory" where
  "GuestMemory_declare_code base len m =
     (let e = saturating_add base len
      in if e \<le> base then m
         else let spans = gm_code_spans m;
                  first = partition_point (\<lambda>(_, se). se < base) spans;
                  last = partition_point (\<lambda>(b, _). b \<le> e) spans;
                  (lo, hi) = foldl (\<lambda>(lo, hi) (b, se). (min lo b, max hi se)) (base, e)
                               (slice first (last - first) spans)
              in m\<lparr>gm_code_spans := splice_range first last [(lo, hi)] spans\<rparr>)"

definition GuestMemory_restrict_fetch :: "GuestMemory \<Rightarrow> GuestMemory" where
  "GuestMemory_restrict_fetch m = m\<lparr>gm_fetch_restricted := True\<rparr>"

record FetchCode =
  fetch_span :: "u64 \<times> u64"
  fetch_base :: u64
  fetch_bytes :: bytes

definition GuestMemory_fetch_code :: "u64 \<Rightarrow> GuestMemory \<Rightarrow> FetchRefusal + FetchCode" where
  "GuestMemory_fetch_code pc m =
     (case GuestMemory_containing_region pc 1 m of
        None \<Rightarrow> Inl FetchRefusal_Unmapped
      | Some region \<Rightarrow>
          if rg_access region = ReadWrite \<and> rg_window region = None then
            let fetchable = (max (rg_base region) (gm_unmapped_below m), Region_end region);
                found =
                  (if gm_fetch_restricted m then
                     let idx = partition_point (\<lambda>(b, _). b \<le> pc) (gm_code_spans m)
                     in if idx > 0 \<and> pc < snd (gm_code_spans m ! (idx - 1))
                        then let (start, e) = gm_code_spans m ! (idx - 1)
                             in Inr (max start (fst fetchable), min e (snd fetchable))
                        else Inl NoExecute
                   else Inr fetchable)
            in rbind found (\<lambda>span. Inr \<lparr>fetch_span = span, fetch_base = rg_base region, fetch_bytes = rg_bytes region\<rparr>)
          else if rg_access region = ReservedStrict then Inl FetchRefusal_Unmapped
          else Inl NoExecute)"

definition GuestMemory_fetch_span :: "u64 \<Rightarrow> GuestMemory \<Rightarrow> FetchRefusal + u64 \<times> u64" where
  "GuestMemory_fetch_span pc m = rbind (GuestMemory_fetch_code pc m) (\<lambda>code. Inr (fetch_span code))"

definition spans_ok :: "(u64 \<times> u64) list \<Rightarrow> bool" where
  "spans_ok ss \<longleftrightarrow> sorted_wrt (\<lambda>s t. snd s < fst t) ss \<and> (\<forall>s \<in> set ss. fst s < snd s)"

definition in_spans :: "(u64 \<times> u64) list \<Rightarrow> u64 \<Rightarrow> bool" where
  "in_spans ss a \<longleftrightarrow> (\<exists>(b, e) \<in> set ss. b \<le> a \<and> a < e)"

lemma fold_span:
  assumes "foldl (\<lambda>(lo, hi) (b, se). (min lo b, max hi se)) (b0, e0) ss = (lo, hi)"
  shows "lo \<le> b0" "e0 \<le> hi" "\<forall>s \<in> set ss. lo \<le> fst s \<and> snd s \<le> hi"
    "lo = b0 \<or> lo \<in> fst ` set ss" "hi = e0 \<or> hi \<in> snd ` set (ss :: (u64 \<times> u64) list)"
proof -
  have "lo \<le> b0 \<and> e0 \<le> hi \<and> (\<forall>s \<in> set ss. lo \<le> fst s \<and> snd s \<le> hi) \<and>
    (lo = b0 \<or> lo \<in> fst ` set ss) \<and> (hi = e0 \<or> hi \<in> snd ` set ss)"
    using assms
  proof (induction ss arbitrary: b0 e0)
    case (Cons s ss)
    obtain b e where s: "s = (b, e)" by (cases s)
    have "foldl (\<lambda>(lo, hi) (b, se). (min lo b, max hi se)) (min b0 b, max e0 e) ss = (lo, hi)"
      using Cons.prems s by simp
    from Cons.IH [OF this] show ?case unfolding s by (auto simp: min_def max_def split: if_splits)
  qed simp
  then show "lo \<le> b0" "e0 \<le> hi" "\<forall>s \<in> set ss. lo \<le> fst s \<and> snd s \<le> hi"
    "lo = b0 \<or> lo \<in> fst ` set ss" "hi = e0 \<or> hi \<in> snd ` set ss" by blast+
qed

lemma spans_partition:
  assumes ok: "spans_ok ss" and be: "base \<le> e"
  obtains A B C where "ss = A @ B @ C"
    "length A = partition_point (\<lambda>(_, se). se < base) ss" "length (A @ B) = partition_point (\<lambda>(b, _). b \<le> e) ss"
    "\<forall>s \<in> set A. snd s < base" "\<forall>s \<in> set B. base \<le> snd s \<and> fst s \<le> e" "\<forall>s \<in> set C. e < fst s"
proof -
  let ?P = "\<lambda>(_, se). se < base" and ?Q = "\<lambda>(b, _). b \<le> e"
  define A where "A = takeWhile ?P ss"
  define D where "D = dropWhile ?P ss"
  define B where "B = takeWhile ?Q D"
  define C where "C = dropWhile ?Q D"
  have ss: "ss = A @ B @ C" "D = B @ C" by (simp_all add: A_def B_def C_def D_def)
  have okD: "spans_ok D" and okC: "spans_ok C" using ok ss by (auto simp: spans_ok_def sorted_wrt_append)
  have A: "\<forall>s \<in> set A. snd s < base" by (auto simp: A_def dest: set_takeWhileD)
  have AQ: "\<forall>s \<in> set A. ?Q s"
  proof
    fix s assume "s \<in> set A"
    then have "snd s < base" "fst s < snd s" using A ok ss by (auto simp: spans_ok_def)
    then show "?Q s" using be by (cases s) simp
  qed
  have D: "\<forall>s \<in> set D. base \<le> snd s"
  proof (cases D)
    case (Cons d ds)
    then have "\<not> ?P d" using hd_dropWhile [of ?P ss] by (simp add: D_def)
    then have "base \<le> snd d" by (cases d) simp
    then show ?thesis using Cons okD by (fastforce simp: spans_ok_def)
  qed simp
  have B: "\<forall>s \<in> set B. fst s \<le> e" by (auto simp: B_def dest: set_takeWhileD)
  have C: "\<forall>s \<in> set C. e < fst s"
  proof (cases C)
    case (Cons c cs)
    then have "\<not> ?Q c" using hd_dropWhile [of ?Q D] by (simp add: C_def)
    then have "e < fst c" by (cases c) simp
    then show ?thesis using Cons okC by (fastforce simp: spans_ok_def)
  qed simp
  have "takeWhile ?Q ss = A @ B"
  proof -
    have "ss = A @ D" using ss by simp
    then show ?thesis using AQ by (simp add: takeWhile_append2 B_def)
  qed
  then have "length (A @ B) = partition_point ?Q ss" by (simp only: partition_point_def)
  moreover have "length A = partition_point ?P ss" by (simp only: partition_point_def A_def)
  moreover have "\<forall>s \<in> set B. base \<le> snd s \<and> fst s \<le> e" using B D ss(2) by simp
  ultimately show thesis using ss(1) A C by (intro that [of A B C])
qed

lemma declare_code_spans:
  assumes ok: "spans_ok (gm_code_spans m)" and lt: "base < saturating_add base len"
  obtains A B C lo hi where "gm_code_spans m = A @ B @ C"
    "gm_code_spans (GuestMemory_declare_code base len m) = A @ (lo, hi) # C"
    "foldl (\<lambda>(lo, hi) (b, se). (min lo b, max hi se)) (base, saturating_add base len) B = (lo, hi)"
    "\<forall>s \<in> set A. snd s < base" "\<forall>s \<in> set B. base \<le> snd s \<and> fst s \<le> saturating_add base len"
    "\<forall>s \<in> set C. saturating_add base len < fst s"
proof -
  let ?e = "saturating_add base len" and ?ss = "gm_code_spans m"
  obtain A B C where ss: "?ss = A @ B @ C" and lA: "length A = partition_point (\<lambda>(_, se). se < base) ?ss"
    and lB: "length (A @ B) = partition_point (\<lambda>(b, _). b \<le> ?e) ?ss"
    and ABC: "\<forall>s \<in> set A. snd s < base" "\<forall>s \<in> set B. base \<le> snd s \<and> fst s \<le> ?e" "\<forall>s \<in> set C. ?e < fst s"
    by (rule spans_partition [OF ok less_imp_le [OF lt]])
  obtain lo hi where f: "foldl (\<lambda>(lo, hi) (b, se). (min lo b, max hi se)) (base, ?e) B = (lo, hi)"
    by (cases "foldl (\<lambda>(lo, hi) (b, se). (min lo b, max hi se)) (base, ?e) B")
  have sl: "slice (length A) (length (A @ B) - length A) ?ss = B" by (simp add: ss slice_def)
  have "gm_code_spans (GuestMemory_declare_code base len m) = A @ (lo, hi) # C"
    unfolding GuestMemory_declare_code_def Let_def lA [symmetric] lB [symmetric] sl f
    using lt by (simp add: splice_range_def ss not_le [symmetric])
  with ss f ABC show thesis by (intro that)
qed

text \<open>
  Declaring code records exactly the declared addresses: the span list stays sorted with
  no span touching another, and an address is in a recorded span afterwards if and only if
  it was before or lies in the declared range (cut at the end of the address space).
\<close>

theorem declare_code_exact:
  assumes "spans_ok (gm_code_spans m)"
  shows "spans_ok (gm_code_spans (GuestMemory_declare_code base len m)) \<and>
    (in_spans (gm_code_spans (GuestMemory_declare_code base len m)) a \<longleftrightarrow>
       in_spans (gm_code_spans m) a \<or> base \<le> a \<and> a < saturating_add base len)"
proof (cases "base < saturating_add base len")
  case False
  then show ?thesis using assms by (auto simp: GuestMemory_declare_code_def Let_def)
next
  case True
  let ?e = "saturating_add base len"
  obtain A B C lo hi where ss: "gm_code_spans m = A @ B @ C"
    and ss': "gm_code_spans (GuestMemory_declare_code base len m) = A @ (lo, hi) # C"
    and f: "foldl (\<lambda>(lo, hi) (b, se). (min lo b, max hi se)) (base, ?e) B = (lo, hi)"
    and A: "\<forall>s \<in> set A. snd s < base" and B: "\<forall>s \<in> set B. base \<le> snd s \<and> fst s \<le> ?e"
    and C: "\<forall>s \<in> set C. ?e < fst s"
    by (rule declare_code_spans [OF assms True])
  note fs = fold_span [OF f]
  have srt: "\<forall>s \<in> set A. \<forall>t \<in> set B. snd s < fst t" "\<forall>s \<in> set B. \<forall>t \<in> set C. snd s < fst t"
    "\<forall>s \<in> set A. \<forall>t \<in> set C. snd s < fst t" "spans_ok A" "spans_ok C"
    using assms by (auto simp: ss spans_ok_def sorted_wrt_append)
  have "\<forall>s \<in> set A. snd s < lo" using fs(4) A srt(1) by auto
  moreover have "\<forall>t \<in> set C. hi < fst t" using fs(5) C srt(2) by auto
  moreover have "lo < hi" using fs(1,2) True by auto
  ultimately have "spans_ok (A @ (lo, hi) # C)"
    using srt by (auto simp: spans_ok_def sorted_wrt_append)
  moreover have "lo \<le> a \<and> a < hi \<longleftrightarrow> (\<exists>(b, e) \<in> set B. b \<le> a \<and> a < e) \<or> base \<le> a \<and> a < ?e"
  proof
    assume a: "lo \<le> a \<and> a < hi"
    consider "a < base" | "?e \<le> a" | "base \<le> a \<and> a < ?e" by fastforce
    then show "(\<exists>(b, e) \<in> set B. b \<le> a \<and> a < e) \<or> base \<le> a \<and> a < ?e"
    proof cases
      case 1
      then obtain s where s: "s \<in> set B" "fst s = lo" using a fs(4) by auto
      then have "fst s \<le> a" "a < snd s" using B a 1 by (auto intro: less_le_trans)
      then show ?thesis using s(1) by (cases s) auto
    next
      case 2
      then obtain s where s: "s \<in> set B" "snd s = hi" using a fs(5) by auto
      then have "fst s \<le> a" "a < snd s" using B a 2 by (auto intro: order_trans)
      then show ?thesis using s(1) by (cases s) auto
    qed simp
  next
    assume "(\<exists>(b, e) \<in> set B. b \<le> a \<and> a < e) \<or> base \<le> a \<and> a < ?e"
    then show "lo \<le> a \<and> a < hi" using fs(1-3) by (auto intro: order_trans less_le_trans)
  qed
  ultimately show ?thesis
    unfolding ss' by (auto simp: ss in_spans_def)
qed

theorem declare_code_exact_witness:
  "spans_ok (gm_code_spans (GuestMemory_declare_code 0x100 0x10 (small_memory\<lparr>gm_code_spans := [(0x110, 0x120)]\<rparr>)))"
  using declare_code_exact [of "small_memory\<lparr>gm_code_spans := [(0x110, 0x120)]\<rparr>" "0x100" "0x10"]
  by (simp add: spans_ok_def)

end
