(* ===== verification/Guest_Run.thy ===== *)
theory Guest_Run
  imports Guest_Hash Guest_Window
begin

text \<open>
  The histories of a guest memory: every way \<^verbatim>\<open>guest.rs\<close>, \<^verbatim>\<open>guest_window.rs\<close> and \<^verbatim>\<open>guest_fetch.rs\<close>
  build a region or a memory and change it. The page invariant of \<open>Guest_Hash\<close> holds along each
  of them, so the cached and the incremental digest are those of the bytes held now.
\<close>

section \<open>Histories\<close>

text \<open>
  A region is made by a constructor, copied out of a memory, marked or reset; a memory is built
  from such regions. A length is a \<^verbatim>\<open>usize\<close>, so it is below $2^{64}$. Logging is switched off
  around a closure by \<^verbatim>\<open>with_reads_unlogged\<close> and restored behind it.
\<close>

inductive region_run :: "Region \<Rightarrow> bool" and memory_run :: "GuestMemory \<Rightarrow> bool" where
  with_access: "n < 2 ^ 64 \<Longrightarrow> region_run (Region_with_access b n l p a)"
| caching_inhibited: "region_run r \<Longrightarrow> region_run (Region_with_caching_inhibited r)"
| region_reset: "region_run r \<Longrightarrow> Region_reset_for_reuse r = Some r' \<Longrightarrow> region_run r'"
| copied: "memory_run m \<Longrightarrow> r \<in> set (gm_regions m) \<Longrightarrow> region_run r"
| from_regions: "\<forall>r \<in> set rs. region_run r \<Longrightarrow> GuestMemory_from_regions rs = Inr m \<Longrightarrow> memory_run m"
| install_region: "memory_run m \<Longrightarrow> GuestMemory_install_region_with_access b n l p a m = Inr m' \<Longrightarrow> memory_run m'"
| remove_region: "memory_run m \<Longrightarrow> GuestMemory_remove_region b n m = Inr m' \<Longrightarrow> memory_run m'"
| map_window: "memory_run m \<Longrightarrow> n < 2 ^ 64 \<Longrightarrow> GuestMemory_map_window b n l m = Inr m' \<Longrightarrow> memory_run m'"
| unmap_window: "memory_run m \<Longrightarrow> GuestMemory_unmap_window b m = Inr m' \<Longrightarrow> memory_run m'"
| apply_commit: "memory_run m \<Longrightarrow> length bs < 2 ^ 64 \<Longrightarrow> GuestMemory_apply_commit rng bs m = Some (Inr m') \<Longrightarrow> memory_run m'"
| reset: "memory_run m \<Longrightarrow> GuestMemory_reset_for_reuse m = Some m' \<Longrightarrow> memory_run m'"
| content_hash: "memory_run m \<Longrightarrow> GuestMemory_content_hash m = Some (h, m') \<Longrightarrow> memory_run m'"
| invalidate: "memory_run m \<Longrightarrow> memory_run (GuestMemory_invalidate_content_hash m)"
| read: "memory_run m \<Longrightarrow> GuestMemory_read_checked rng m = Some (r, m') \<Longrightarrow> memory_run m'"
| note_read: "memory_run m \<Longrightarrow> memory_run (GuestMemory_note_provisional_read a n64 m)"
| rewind_reads: "memory_run m \<Longrightarrow> memory_run (GuestMemory_rewind_provisional_reads c m)"
| drain_reads: "memory_run m \<Longrightarrow> memory_run (snd (GuestMemory_drain_provisional_reads m))"
| log_reads: "memory_run m \<Longrightarrow> memory_run (m\<lparr>gm_reads_unlogged := off\<rparr>)"
| unmap_below: "memory_run m \<Longrightarrow> memory_run (GuestMemory_unmap_below floor m)"
| declare_code: "memory_run m \<Longrightarrow> memory_run (GuestMemory_declare_code b n64 m)"
| restrict_fetch: "memory_run m \<Longrightarrow> memory_run (GuestMemory_restrict_fetch m)"

section \<open>Fresh pieces\<close>

lemma fresh_region:
  "zero_unless_dirty (Region_with_access b n l p a)" "n < 2 ^ 64 \<Longrightarrow> bitmap_ok (Region_with_access b n l p a)"
  by (simp_all add: zero_unless_dirty_def bitmap_ok_def)

lemma region_flags [simp]:
  "zero_unless_dirty (r\<lparr>rg_caching_inhibited := c\<rparr>) = zero_unless_dirty r"
  "zero_unless_dirty (r\<lparr>rg_window := w\<rparr>) = zero_unless_dirty r"
  "bitmap_ok (r\<lparr>rg_caching_inhibited := c\<rparr>) = bitmap_ok r"
  "region_ok (r\<lparr>rg_caching_inhibited := c\<rparr>) = region_ok r" "region_ok (r\<lparr>rg_window := w\<rparr>) = region_ok r"
  "rbase (r\<lparr>rg_caching_inhibited := c\<rparr>) = rbase r" "rend (r\<lparr>rg_caching_inhibited := c\<rparr>) = rend r"
  "rbase (r\<lparr>rg_window := w\<rparr>) = rbase r" "rend (r\<lparr>rg_window := w\<rparr>) = rend r"
  by (simp_all add: zero_unless_dirty_def bitmap_ok_def region_ok_def rpages_def rbase_def rend_def)

text \<open>A piece with no written page and the page hashes made for it.\<close>

lemma fresh_hashes:
  assumes "zero_unless_dirty r" and "page_set (rg_dirty_pages r) = {}"
  shows "terms_fresh r (PageHashes_new (div_ceil (length (rg_bytes r)) RESET_PAGE_SIZE))"
    and "hashes_fit r (PageHashes_new (div_ceil (length (rg_bytes r)) RESET_PAGE_SIZE))"
  using term_of_clean [OF assms(1)] assms(2)
  by (auto simp: terms_fresh_def PageHashes_new_def rpages_def sum_list_replicate intro!: hashes_fit_new [unfolded PageHashes_new_def])

section \<open>Changing the region map\<close>

lemma list_all2_splice_range:
  "list_all2 P xs ys \<Longrightarrow> list_all2 P us vs \<Longrightarrow> list_all2 P (splice_range i j us xs) (splice_range i j vs ys)"
  by (simp add: splice_range_def list_all2_appendI list_all2_takeI list_all2_dropI)

definition fresh_piece :: "Region \<Rightarrow> bool" where
  "fresh_piece r \<longleftrightarrow> zero_unless_dirty r \<and> page_set (rg_dirty_pages r) = {} \<and> region_ok r"

lemma replace_regions_hash_inv:
  assumes "hash_inv m" and "\<forall>r \<in> set pieces. fresh_piece r" and "regions_ok (splice_range i j pieces (gm_regions m))"
  shows "hash_inv (GuestMemory_replace_regions i j pieces m)"
proof -
  let ?hs = "map (\<lambda>r. PageHashes_new (div_ceil (length (rg_bytes r)) RESET_PAGE_SIZE)) pieces"
  have "list_all2 hashes_fit pieces ?hs" "list_all2 terms_fresh pieces ?hs"
    using assms(2) fresh_hashes by (simp_all add: list_all2_conv_all_nth fresh_piece_def)
  then have "list_all2 hashes_fit (splice_range i j pieces (gm_regions m)) (splice_range i j ?hs (gm_page_hashes m))"
    "list_all2 terms_fresh (splice_range i j pieces (gm_regions m)) (splice_range i j ?hs (gm_page_hashes m))"
    using assms(1) by (simp_all add: hash_inv_def gm_wf_def list_all2_splice_range)
  moreover have "\<forall>r \<in> set (splice_range i j pieces (gm_regions m)). zero_unless_dirty r"
    using assms(1,2) by (auto simp: splice_range_def hash_inv_def fresh_piece_def dest: in_set_takeD in_set_dropD)
  ultimately show ?thesis
    using assms(3) by (simp add: hash_inv_def gm_wf_def GuestMemory_replace_regions_def Let_def)
qed

text \<open>A run of regions may be replaced by pieces that stay inside the addresses it spans.\<close>

lemma regions_ok_splice:
  assumes "regions_ok rs" and "i < j" and "j \<le> length rs" and "regions_ok pieces"
    and "\<forall>p \<in> set pieces. rbase (rs ! i) \<le> rbase p \<and> rend p \<le> rend (rs ! (j - 1))"
  shows "regions_ok (splice_range i j pieces rs)"
proof -
  have split: "rs = take i rs @ slice i (j - i) rs @ drop j rs"
    using assms(2,3) by (simp add: slice_def) (metis append_take_drop_id drop_drop le_add_diff_inverse2 less_imp_le)
  have ends: "rs ! i \<in> set (slice i (j - i) rs)" "rs ! (j - 1) \<in> set (slice i (j - i) rs)"
    using assms(2,3) by (auto simp: slice_def in_set_conv_nth intro: exI [of _ 0] exI [of _ "j - 1 - i"])
  have ok: "regions_ok (take i rs @ slice i (j - i) rs @ drop j rs)" using assms(1) split by simp
  have left: "rend x \<le> rbase (rs ! i)" if "x \<in> set (take i rs)" for x
    using ok that ends(1) unfolding regions_ok_append by auto
  have right: "rend (rs ! (j - 1)) \<le> rbase y" if "y \<in> set (drop j rs)" for y
    using ok that ends(2) unfolding regions_ok_append by auto
  have lr: "rend x \<le> rbase y" if "x \<in> set (take i rs)" "y \<in> set (drop j rs)" for x y
    using ok that unfolding regions_ok_append by auto
  show ?thesis
    unfolding splice_range_def regions_ok_append
    using ok assms(4,5) left right lr unfolding regions_ok_append by (fastforce intro: order_trans)
qed

lemma set_insert_at: "set (insert_at i x xs) = insert x (set xs)"
  using set_append [of "take i xs" "drop i xs"] by (simp add: insert_at_def)

lemma hash_inv_install:
  assumes "hash_inv m" and "GuestMemory_install_region_with_access base n l p a m = Inr m'"
  shows "hash_inv m'"
proof -
  define i where "i = partition_point (\<lambda>r. rg_base r \<le> base) (gm_regions m)"
  let ?r = "Region_with_access base n l p a"
  have wf: "gm_wf m" using assms(1) by (simp add: hash_inv_def)
  have fit: "unat base + n < 2 ^ 64"
    and prev: "\<not> (i > 0 \<and> Region_end (gm_regions m ! (i - 1)) > base)"
    and nxt: "\<not> (i < length (gm_regions m) \<and> unat base + n > unat (rg_base (gm_regions m ! i)))"
    and m': "m' = m\<lparr>gm_regions := insert_at i ?r (gm_regions m),
        gm_page_hashes := insert_at i (PageHashes_new (div_ceil n RESET_PAGE_SIZE)) (gm_page_hashes m), gm_cached_hash := None\<rparr>"
    using assms(2) by (auto simp: GuestMemory_install_region_with_access_def Let_def i_def [symmetric] split: if_splits)
  have i: "i \<le> length (gm_regions m)"
    using partition_point_bases(3) [OF _ i_def] wf by (simp add: gm_wf_def)
  have "rend (gm_regions m ! (i - 1)) \<le> unat base" if "i > 0"
  proof -
    have "region_ok (gm_regions m ! (i - 1))" using wf i that by (simp add: gm_wf_def regions_ok_def)
    then show ?thesis using prev that by (simp add: word_less_nat_alt unat_Region_end)
  qed
  moreover have "unat base + n \<le> rbase (gm_regions m ! i)" if "i < length (gm_regions m)"
    using nxt that by (simp add: rbase_def)
  ultimately have ok: "regions_ok (insert_at i ?r (gm_regions m))"
    unfolding insert_at_def by (rule insert_region_ok [OF wf i_def fit])
  have "terms_fresh ?r (PageHashes_new (div_ceil n RESET_PAGE_SIZE))" "hashes_fit ?r (PageHashes_new (div_ceil n RESET_PAGE_SIZE))"
    using fresh_hashes [OF fresh_region(1), of base n l p a] by simp_all
  then show ?thesis
    using assms(1) ok fresh_region(1) [of base n l p a]
    by (simp add: hash_inv_def gm_wf_def m' list_all2_insert_at set_insert_at)
qed

lemma set_remove_at: "set (remove_at i xs) \<subseteq> set xs"
  by (auto simp: remove_at_def dest: in_set_takeD in_set_dropD)

lemma hash_inv_remove:
  assumes "hash_inv m" and "GuestMemory_remove_region base n m = Inr m'"
  shows "hash_inv m'"
proof -
  obtain i where i: "i < length (gm_regions m)" and m': "m' = m\<lparr>gm_regions := remove_at i (gm_regions m),
      gm_page_hashes := remove_at i (gm_page_hashes m), gm_cached_hash := None\<rparr>"
    using assms(2) by (auto simp: GuestMemory_remove_region_def split: option.splits dest!: list_position_Some)
  have "regions_ok (take i (gm_regions m) @ gm_regions m ! i # drop (Suc i) (gm_regions m))"
    using assms(1) id_take_nth_drop [OF i] by (simp add: hash_inv_def gm_wf_def)
  then have "regions_ok (remove_at i (gm_regions m))" unfolding remove_at_def by simp
  then show ?thesis
    using assms(1) set_remove_at [of i "gm_regions m"] by (auto simp: hash_inv_def gm_wf_def m' list_all2_remove_at)
qed

lemma window_pieces_ok:
  assumes "region_ok h" and "rbase h \<le> unat base" and "unat base + n \<le> rend h"
  shows "regions_ok (window_pieces h base n label)"
    and "\<forall>r \<in> set (window_pieces h base n label). fresh_piece r \<and> rbase h \<le> rbase r \<and> rend r \<le> rend h"
proof -
  have lt: "rend h < 2 ^ 64" and eh: "unat (Region_end h) = rend h"
    using assms(1) unat_Region_end by (simp_all add: region_ok_def)
  have e: "unat (base + of_nat n) = unat base + n"
    using assms(3) lt by (simp add: unat_plus_no_wrap unat_of_nat_no_wrap)
  have left: "unat (base - rg_base h) = unat base - rbase h" if "rg_base h < base"
    using that by (simp add: unat_sub rbase_def)
  have right: "unat (Region_end h - (base + of_nat n)) = rend h - (unat base + n)" if "base + of_nat n < Region_end h"
    using that e eh by (simp add: unat_sub)
  have rb: "unat (rg_base h) = rbase h" by (simp add: rbase_def)
  show "regions_ok (window_pieces h base n label)"
    using assms lt left right e
    by (auto simp: window_pieces_def Let_def region_ok_with_access rb)
  show "\<forall>r \<in> set (window_pieces h base n label). fresh_piece r \<and> rbase h \<le> rbase r \<and> rend r \<le> rend h"
    using assms lt left right e
    by (auto simp: window_pieces_def Let_def region_ok_with_access rb fresh_piece_def fresh_region)
qed

lemma hash_inv_map_window:
  assumes "hash_inv m" and "n < 2 ^ 64" and "GuestMemory_map_window base n label m = Inr m'"
  shows "hash_inv m'"
proof -
  have wf: "gm_wf m" using assms(1) by (simp add: hash_inv_def)
  obtain idx where idx: "GuestMemory_containing_region_index base (of_nat n) m = Some idx"
    and m': "m' = GuestMemory_replace_regions idx (idx + 1) (window_pieces (gm_regions m ! idx) base n label) m"
    using assms(3) by (auto simp: GuestMemory_map_window_def Let_def split: option.splits if_splits)
  note c = containing_index [OF wf idx]
  have n: "unat (of_nat n :: u64) = n" using assms(2) by (simp add: unat_of_nat_no_wrap)
  have "region_ok (gm_regions m ! idx)" using wf c(1) by (simp add: gm_wf_def regions_ok_def)
  note p = window_pieces_ok [OF this c(2), of n label] and rok = this
  have "regions_ok (splice_range idx (idx + 1) (window_pieces (gm_regions m ! idx) base n label) (gm_regions m))"
    using p c n wf by (intro regions_ok_splice) (simp_all add: gm_wf_def)
  then show ?thesis unfolding m' using p(2) c(3) n by (intro replace_regions_hash_inv assms(1)) auto
qed

lemma find_enumerate_Some:
  "find (\<lambda>(i, r). P r) (enumerate 0 xs) = Some (j, x) \<Longrightarrow> j < length xs \<and> x = xs ! j \<and> P x"
  using find_SomeD by (fastforce simp: in_set_enumerate_eq)

text \<open>The window and the pieces it joins are one run of regions, and the joined piece spans exactly it.\<close>

lemma hash_inv_unmap_window:
  assumes "hash_inv m" and "GuestMemory_unmap_window base m = Inr m'"
  shows "hash_inv m'"
proof -
  let ?rs = "gm_regions m"
  have ok: "regions_ok ?rs" using assms(1) by (simp add: hash_inv_def gm_wf_def)
  obtain idx window where f: "find (\<lambda>(i, r). rg_window r \<noteq> None \<and> rg_base r = base) (enumerate 0 ?rs) = Some (idx, window)"
    using assms(2) by (auto simp: GuestMemory_unmap_window_def split: option.splits)
  from find_enumerate_Some [OF f] have idx: "idx < length ?rs" "window = ?rs ! idx" by simp_all
  obtain label access where w: "rg_window window = Some (label, access)" using find_enumerate_Some [OF f] by auto
  define first where "first = (if idx > 0 \<and> Region_end (?rs ! (idx - 1)) = rg_base window \<and>
      window_joins label access (rg_page_size window) (?rs ! (idx - 1)) then idx - 1 else idx)"
  define last where "last = (if idx + 1 < length ?rs \<and> rg_base (?rs ! (idx + 1)) = Region_end window \<and>
      window_joins label access (rg_page_size window) (?rs ! (idx + 1)) then idx + 1 else idx)"
  define joined where "joined = (Region_with_access (rg_base (?rs ! first)) (unat (Region_end (?rs ! last) - rg_base (?rs ! first)))
      label (rg_page_size window) access)\<lparr>rg_caching_inhibited := rg_caching_inhibited window\<rparr>"
  have m': "m' = GuestMemory_replace_regions first (last + 1) [joined] m"
    using assms(2)
    by (simp only: GuestMemory_unmap_window_def f w option.case prod.case option.sel Let_def sum.inject first_def last_def joined_def)
  have fl: "first \<le> last" "last < length ?rs" using idx by (auto simp: first_def last_def)
  have r: "region_ok (?rs ! first)" "region_ok (?rs ! last)" using ok fl by (simp_all add: regions_ok_def)
  have le: "rbase (?rs ! first) \<le> rend (?rs ! last)"
  proof (cases "first = last")
    case False
    then have "rend (?rs ! first) \<le> rbase (?rs ! last)"
      using ok fl by (simp add: regions_ok_def sorted_wrt_iff_nth_less)
    then show ?thesis using rbase_le_rend [of "?rs ! first"] rbase_le_rend [of "?rs ! last"] by linarith
  qed simp
  have "unat (Region_end (?rs ! last) - rg_base (?rs ! first)) = rend (?rs ! last) - rbase (?rs ! first)"
    using le unat_Region_end [OF r(2)] by (simp add: unat_sub word_le_nat_alt rbase_def)
  then have j: "rbase joined = rbase (?rs ! first)" "rend joined = rend (?rs ! last)" "region_ok joined"
    using le r(2) region_ok_def [of "?rs ! last"] by (simp_all add: joined_def rbase_def region_ok_with_access)
  have "fresh_piece joined" using j(3) by (simp add: fresh_piece_def joined_def fresh_region)
  moreover have "regions_ok (splice_range first (last + 1) [joined] ?rs)"
    using fl j by (intro regions_ok_splice [OF ok]) simp_all
  ultimately show ?thesis unfolding m' by (intro replace_regions_hash_inv assms(1)) simp_all
qed

section \<open>Resetting\<close>

lemma zero_pages_effect:
  assumes "set ps \<subseteq> {..<div_ceil (length bs) RESET_PAGE_SIZE}"
  shows "\<exists>bs'. zero_pages ps bs = Some bs' \<and> length bs' = length bs \<and>
    (\<forall>k < length bs. bs' ! k = (if k div RESET_PAGE_SIZE \<in> set ps then 0 else bs ! k))"
  using assms
proof (induction ps arbitrary: bs)
  case (Cons p ps)
  let ?off = "p * RESET_PAGE_SIZE" and ?e = "min (p * RESET_PAGE_SIZE + RESET_PAGE_SIZE) (length bs)"
  have "?off \<le> length bs"
  proof (rule ccontr)
    assume "\<not> ?off \<le> length bs"
    then have "div_ceil (length bs) RESET_PAGE_SIZE \<le> p" by (intro div_ceil_least page_size_pos) simp
    then show False using Cons.prems by simp
  qed
  then have oe: "?off \<le> ?e" by simp
  let ?bs = "splice ?off (replicate (?e - ?off) 0) bs"
  have len: "length ?bs = length bs" using oe by simp
  have nth: "?bs ! k = (if k div RESET_PAGE_SIZE = p then 0 else bs ! k)" if "k < length bs" for k
  proof -
    have "?off \<le> k \<and> k < ?e \<longleftrightarrow> k div RESET_PAGE_SIZE = p"
      using that page_size_pos div_nat_eqI [of RESET_PAGE_SIZE p k] dividend_less_times_div [of RESET_PAGE_SIZE k]
        div_times_less_eq_dividend [of k RESET_PAGE_SIZE]
      by (auto simp: mult.commute)
    moreover have "replicate (?e - ?off) (0 :: u8) ! (k - ?off) = 0" if "?off \<le> k \<and> k < ?e"
      by (rule nth_replicate) (use that in linarith)
    ultimately show ?thesis using that oe by (simp add: nth_splice)
  qed
  obtain bs' where "zero_pages ps ?bs = Some bs'" "length bs' = length bs"
    "\<forall>k < length bs. bs' ! k = (if k div RESET_PAGE_SIZE \<in> set ps then 0 else ?bs ! k)"
    using Cons.IH [of ?bs] Cons.prems len by auto
  then show ?case using oe nth by (auto simp: page_bounds_def Let_def)
qed simp

lemma length_clear [simp]: "length (dp_bits (DirtyPages_clear d)) = length (dp_bits d)"
  by (simp add: DirtyPages_clear_def)

lemma region_reset_effect:
  assumes "zero_unless_dirty r"
  shows "\<exists>r'. Region_reset_for_reuse r = Some r' \<and> same_shape r r' \<and> (\<forall>k < length (rg_bytes r'). rg_bytes r' ! k = 0) \<and>
    page_set (rg_dirty_pages r') = {} \<and> length (dp_bits (rg_dirty_pages r')) = length (dp_bits (rg_dirty_pages r))"
proof -
  have "set (DirtyPages_for_each_set (rg_dirty_pages r)) \<subseteq> {..<div_ceil (length (rg_bytes r)) RESET_PAGE_SIZE}"
    using assms by (simp add: zero_unless_dirty_def for_each_set_spec rpages_def)
  from zero_pages_effect [OF this] obtain bs where
    "zero_pages (DirtyPages_for_each_set (rg_dirty_pages r)) (rg_bytes r) = Some bs" "length bs = length (rg_bytes r)"
    "\<forall>k < length (rg_bytes r). bs ! k = (if k div RESET_PAGE_SIZE \<in> page_set (rg_dirty_pages r) then 0 else rg_bytes r ! k)"
    by (auto simp: for_each_set_spec)
  then show ?thesis
    using assms by (auto simp: Region_reset_for_reuse_def same_shape_def zero_unless_dirty_def)
qed

lemma page_set_or:
  assumes "length (dp_bits s) = length (dp_bits d)"
  shows "page_set (s\<lparr>dp_bits := map2 (\<lambda>x y. x OR y) (dp_bits s) (dp_bits d) @ drop (length (dp_bits d)) (dp_bits s)\<rparr>) =
    page_set s \<union> page_set d"
  using assms by (auto simp: page_set_def bit_or_iff)

lemma reset_hashes:
  assumes z: "zero_unless_dirty r" and ok: "region_ok r" and h: "hashes_fit r h" "terms_fresh r h"
    and r': "Region_reset_for_reuse r = Some r'"
  shows "region_ok r' \<and> rbase r' = rbase r \<and> rend r' = rend r \<and> zero_unless_dirty r' \<and>
    hashes_fit r' (stale_or_dirty r h) \<and> terms_fresh r' (stale_or_dirty r h)"
proof -
  obtain sh: "same_shape r r'" and zero: "\<forall>k < length (rg_bytes r'). rg_bytes r' ! k = 0"
    and d: "page_set (rg_dirty_pages r') = {}" "length (dp_bits (rg_dirty_pages r')) = length (dp_bits (rg_dirty_pages r))"
    using region_reset_effect [OF z] r' by auto
  note b = same_shape_bounds [OF sh]
  have z': "zero_unless_dirty r'" using zero d by (simp add: zero_unless_dirty_def)
  have len: "length (dp_bits (ph_stale h)) = length (dp_bits (rg_dirty_pages r))"
    using h(1) ok by (simp add: hashes_fit_def region_ok_def)
  have st: "page_set (ph_stale (stale_or_dirty r h)) = page_set (ph_stale h) \<union> page_set (rg_dirty_pages r)"
    "ph_terms (stale_or_dirty r h) = ph_terms h" "ph_acc (stale_or_dirty r h) = ph_acc h"
    "length (dp_bits (ph_stale (stale_or_dirty r h))) = length (dp_bits (ph_stale h))"
    using page_set_or [OF len] len by (simp_all add: stale_or_dirty_def Let_def)
  have "ph_terms h ! p = term_of r' p" if "p < rpages r" "p \<notin> page_set (ph_stale h)" "p \<notin> page_set (rg_dirty_pages r)" for p
    using that h(2) term_of_clean [OF z] term_of_clean [OF z'] d(1) b by (simp add: terms_fresh_def)
  then have "terms_fresh r' (stale_or_dirty r h)"
    using h(2) z b st by (auto simp: terms_fresh_def zero_unless_dirty_def)
  then show ?thesis
    using z' b st h(1) ok d(2) by (auto simp: hashes_fit_def region_ok_def)
qed

lemma reset_regions_inv:
  assumes "regions_ok rs" and "list_all2 hashes_fit rs hs" and "list_all2 terms_fresh rs hs" and "\<forall>r \<in> set rs. zero_unless_dirty r"
    and "reset_regions rs hs = Some (rs', hs')"
  shows "regions_ok rs' \<and> list_all2 hashes_fit rs' hs' \<and> list_all2 terms_fresh rs' hs' \<and> (\<forall>r \<in> set rs'. zero_unless_dirty r) \<and>
    list_all2 (\<lambda>r r'. rbase r' = rbase r \<and> rend r' = rend r) rs rs'"
  using assms
proof (induction rs hs arbitrary: rs' hs' rule: reset_regions.induct)
  case (1 r rs h hs)
  obtain r' rs1 hs1 where r': "Region_reset_for_reuse r = Some r'" and rest: "reset_regions rs hs = Some (rs1, hs1)"
    and out: "rs' = r' # rs1" "hs' = stale_or_dirty r h # hs1"
    using "1.prems"(5) by (auto split: option.splits)
  have one: "region_ok r' \<and> rbase r' = rbase r \<and> rend r' = rend r \<and> zero_unless_dirty r' \<and>
      hashes_fit r' (stale_or_dirty r h) \<and> terms_fresh r' (stale_or_dirty r h)"
    using "1.prems" r' by (intro reset_hashes) simp_all
  have IH: "regions_ok rs1 \<and> list_all2 hashes_fit rs1 hs1 \<and> list_all2 terms_fresh rs1 hs1 \<and> (\<forall>r \<in> set rs1. zero_unless_dirty r) \<and>
      list_all2 (\<lambda>r r'. rbase r' = rbase r \<and> rend r' = rend r) rs rs1"
    using "1.IH" [OF r' _ _ _ _ rest] "1.prems" by simp
  have "\<forall>s \<in> set rs1. rend r' \<le> rbase s"
  proof
    fix s assume "s \<in> set rs1"
    then obtain i where "i < length rs1" "s = rs1 ! i" by (auto simp: in_set_conv_nth)
    then have "rbase s = rbase (rs ! i)" "rs ! i \<in> set rs" using IH by (auto simp: list_all2_conv_all_nth)
    then show "rend r' \<le> rbase s" using one "1.prems"(1) by simp
  qed
  then show ?case using one IH by (simp add: out)
qed simp_all

lemma hash_inv_reset:
  assumes "hash_inv m" and "GuestMemory_reset_for_reuse m = Some m'"
  shows "hash_inv m'"
proof -
  obtain rs hs where r: "reset_regions (gm_regions m) (gm_page_hashes m) = Some (rs, hs)"
    and m': "gm_regions m' = rs" "gm_page_hashes m' = hs" "gm_cached_hash m' = None"
    using assms(2) by (auto simp: GuestMemory_reset_for_reuse_def)
  from reset_regions_inv [OF _ _ _ _ r] assms(1) show ?thesis by (simp add: hash_inv_def gm_wf_def m')
qed

section \<open>Every history keeps the invariant\<close>

definition same_pages :: "GuestMemory \<Rightarrow> GuestMemory \<Rightarrow> bool" where
  "same_pages m m' \<longleftrightarrow> gm_regions m' = gm_regions m \<and> gm_page_hashes m' = gm_page_hashes m \<and> gm_cached_hash m' = gm_cached_hash m"

lemma hash_inv_same_pages: "same_pages m m' \<Longrightarrow> hash_inv m \<Longrightarrow> hash_inv m'"
  by (simp add: same_pages_def hash_inv_def gm_wf_def GuestMemory_content_hash_from_scratch_def)

lemma same_pages_rewind: "same_pages m (GuestMemory_rewind_provisional_reads c m)"
proof (induction c m rule: GuestMemory_rewind_provisional_reads.induct)
  case (1 c m)
  then show ?case
    by (subst GuestMemory_rewind_provisional_reads.simps) (auto simp: same_pages_def rewind_one_def Let_def)
qed

lemma same_pages_logs:
  "same_pages m (GuestMemory_note_provisional_read a n m)" "same_pages m (snd (GuestMemory_drain_provisional_reads m))"
  "same_pages m (m\<lparr>gm_reads_unlogged := off\<rparr>)" "same_pages m (GuestMemory_unmap_below floor m)"
  "same_pages m (GuestMemory_declare_code b n m)" "same_pages m (GuestMemory_restrict_fetch m)"
  by (simp_all add: same_pages_def GuestMemory_note_provisional_read_def GuestMemory_drain_provisional_reads_def Let_def
      GuestMemory_unmap_below_def GuestMemory_declare_code_def GuestMemory_restrict_fetch_def split: prod.splits)

lemma same_pages_read:
  assumes "gm_wf m" and "GuestMemory_read_checked rng m = Some (r, m')"
  shows "same_pages m m'"
  using assms(2) unfolding GuestMemory_read_checked_def
  by (rule_tac resolve_read_cases [OF assms(1), of rng]) (auto simp: same_pages_def same_content_def)

lemma hash_inv_regions:
  assumes "hash_inv m" and "r \<in> set (gm_regions m)"
  shows "bitmap_ok r \<and> zero_unless_dirty r"
proof -
  have "region_ok r" "zero_unless_dirty r" using assms by (simp_all add: hash_inv_def gm_wf_def regions_ok_def)
  then show ?thesis by (auto simp: region_ok_def bitmap_ok_def rend_def)
qed

lemma region_reset_ok:
  assumes "bitmap_ok r \<and> zero_unless_dirty r" and "Region_reset_for_reuse r = Some r'"
  shows "bitmap_ok r' \<and> zero_unless_dirty r'"
  using region_reset_effect [of r] assms by (auto simp: bitmap_ok_def zero_unless_dirty_def same_shape_def rpages_def)

lemma runs_keep_hash_inv:
  "region_run r \<Longrightarrow> bitmap_ok r \<and> zero_unless_dirty r" "memory_run m \<Longrightarrow> hash_inv m"
proof (induction rule: region_run_memory_run.inducts)
  case (with_access n b l p a)
  then show ?case by (simp add: fresh_region)
next
  case (caching_inhibited r)
  then show ?case by (simp add: Region_with_caching_inhibited_def)
next
  case (region_reset r r')
  show ?case by (rule region_reset_ok) fact+
next
  case (copied m r)
  show ?case by (rule hash_inv_regions) fact+
next
  case (from_regions rs m)
  then show ?case by (intro hash_inv_from_regions) auto
next
  case (content_hash m h m')
  then show ?case using content_hash_effect(2) [of m] by auto
next
  case (read m rng r m')
  have "gm_wf m" using read(3) by (simp add: hash_inv_def)
  then show ?case by (rule hash_inv_same_pages [OF same_pages_read]) fact+
next
  case (invalidate m)
  then show ?case by (simp add: GuestMemory_invalidate_content_hash_def hash_inv_def gm_wf_def)
qed (blast intro: hash_inv_install hash_inv_remove hash_inv_map_window hash_inv_unmap_window hash_inv_apply_commit hash_inv_reset
    hash_inv_same_pages same_pages_logs same_pages_rewind)+

section \<open>Properties\<close>

text \<open>
  C13: The memory hash is never out of date. After any history of a memory (regions installed and
  removed, windows mapped and unmapped, writes committed, hashes taken and cached, reads, resets,
  regions copied into another memory), \<^verbatim>\<open>content_hash\<close>, from its cache or by refreshing only the
  stale pages, and \<^verbatim>\<open>content_hash_from_scratch\<close>, from the written pages, both return the digest of
  every page the memory holds now, without an index out of range, and taking the hash changes no
  byte. So the hash depends on the regions' bases and bytes and on nothing else of the history.
\<close>

theorem content_hash_up_to_date:
  assumes "memory_run m"
  shows "GuestMemory_content_hash_from_scratch m = Some (content_digest (region_contents (gm_regions m))) \<and>
    (\<exists>m'. GuestMemory_content_hash m = Some (content_digest (region_contents (gm_regions m)), m') \<and>
       gm_regions m' = gm_regions m)"
  using content_hash_effect [OF runs_keep_hash_inv(2) [OF assms]] by blast

lemma small_memory_run: "memory_run small_memory"
  by (rule from_regions [OF _ small_memory_from]) (simp add: Region_new_def with_access)

theorem content_hash_up_to_date_witness:
  "\<exists>h m1 m2 m3. GuestMemory_content_hash small_memory = Some (h, m1) \<and>
     GuestMemory_install_region_with_access 32 8 ''rw'' Page4K ReadWrite m1 = Inr m2 \<and>
     GuestMemory_content_hash m2 = Some (content_digest [(0, replicate 16 0), (32, replicate 8 0)], m3)"
proof -
  obtain h m1 where h: "GuestMemory_content_hash small_memory = Some (h, m1)" and m1: "gm_regions m1 = gm_regions small_memory"
    using content_hash_up_to_date [OF small_memory_run] by blast
  have rs: "gm_regions m1 = [Region_with_access 0 16 ''flat'' Page64K ReadWrite]" by (simp add: m1 small_memory_regions Region_new_def)
  have pp: "partition_point (\<lambda>r. rg_base r \<le> 32) (gm_regions m1) = 1" by (simp add: rs partition_point_def)
  define m2 where "m2 = m1\<lparr>gm_regions := insert_at 1 (Region_with_access 32 8 ''rw'' Page4K ReadWrite) (gm_regions m1),
      gm_page_hashes := insert_at 1 (PageHashes_new (div_ceil 8 RESET_PAGE_SIZE)) (gm_page_hashes m1), gm_cached_hash := None\<rparr>"
  have i: "GuestMemory_install_region_with_access 32 8 ''rw'' Page4K ReadWrite m1 = Inr m2"
    unfolding GuestMemory_install_region_with_access_def pp Let_def m2_def
    by (simp add: rs Region_end_def Region_size_def saturating_add_def)
  have m2: "region_contents (gm_regions m2) = [(0, replicate 16 0), (32, replicate 8 0)]"
    unfolding m2_def by (simp add: rs insert_at_def region_contents_def)
  have "memory_run m2" by (rule install_region [OF content_hash [OF small_memory_run h] i])
  from content_hash_up_to_date [OF this] h i m2 show ?thesis by auto
qed

end
