(* ===== verification/Provisional.thy ===== *)
theory Provisional
  imports Guest_Memory
begin

text \<open>
  The log of provisional reads of \<^verbatim>\<open>guest.rs\<close>: noting, rewinding and draining.
\<close>

definition log_ok :: "nat \<Rightarrow> GuestMemory \<Rightarrow> bool" where
  "log_ok n m \<longleftrightarrow> btree_wf (gm_provisional_reads m) \<and> \<not> gm_reads_unlogged m \<and>
     unat (gm_provisional_read_count m) + n < 2 ^ 64 \<and> n < 2 ^ 32 \<and>
     (\<forall>(k, h) \<in> set (gm_provisional_reads m). h \<noteq> 0 \<and> unat h + n < 2 ^ 32)"

lemma unat_succ_u64: "unat a + 1 < 2 ^ 64 \<Longrightarrow> saturating_add a (1 :: u64) = a + 1 \<and> unat (a + 1) = unat a + 1"
  by (simp add: saturating_add_def unat_plus_no_wrap)

lemma succ_u32: "unat a + 1 < 2 ^ 32 \<Longrightarrow> saturating_add a (1 :: u32) = a + 1 \<and> unat (a + 1) = unat a + 1"
  by (simp add: saturating_add_def unat_plus_no_wrap)

lemma btree_reinsert: "btree_wf m \<Longrightarrow> map_of m k = Some v \<Longrightarrow> btree_insert k v (btree_insert k w m) = m"
  by (rule btree_keys_unique) (auto simp: btree_wf_insert btree_get_insert)

lemma btree_insert_remove_fresh: "btree_wf m \<Longrightarrow> map_of m k = None \<Longrightarrow> btree_remove k (btree_insert k v m) = m"
  by (rule btree_keys_unique) (auto simp: btree_wf_insert btree_wf_remove btree_get_insert btree_get_remove)

text \<open>Taking back the newest entry undoes the note that wrote it.\<close>

lemma rewind_one_note:
  assumes "log_ok (Suc n) m"
  shows "\<exists>key. gm_provisional_journal (GuestMemory_note_provisional_read a len m) = gm_provisional_journal m @ [key] \<and>
    gm_provisional_read_count (GuestMemory_note_provisional_read a len m) = gm_provisional_read_count m + 1 \<and>
    rewind_one key ((GuestMemory_note_provisional_read a len m)\<lparr>gm_provisional_journal := gm_provisional_journal m\<rparr>) = m"
proof -
  let ?log = "gm_provisional_reads m" and ?c = "gm_provisional_read_count m"
  define key where "key = (a, if unat len \<le> unat u32_MAX then ucast len else u32_MAX)"
  define hits where "hits = (case map_of ?log key of Some h \<Rightarrow> h | None \<Rightarrow> 0)"
  have wf: "btree_wf ?log" and ul: "\<not> gm_reads_unlogged m" and c: "unat ?c + 1 < 2 ^ 64"
    using assms by (auto simp: log_ok_def)
  have hb: "unat hits + 1 < 2 ^ 32"
    using assms by (auto simp: log_ok_def hits_def split: option.splits dest!: map_of_SomeD)
  note s = unat_succ_u64 [OF c] succ_u32 [OF hb]
  define m1 where "m1 = m\<lparr>gm_provisional_read_count := ?c + 1, gm_provisional_reads := btree_insert key (hits + 1) ?log,
    gm_provisional_journal := gm_provisional_journal m @ [key]\<rparr>"
  have note1: "GuestMemory_note_provisional_read a len m = m1"
    using ul s unfolding m1_def key_def hits_def GuestMemory_note_provisional_read_def Let_def by simp
  have "(case map_of (btree_insert key (hits + 1) ?log) key of None \<Rightarrow> btree_insert key (hits + 1) ?log
      | Some h \<Rightarrow> if h - 1 = 0 then btree_remove key (btree_insert key (hits + 1) ?log)
                  else btree_insert key (h - 1) (btree_insert key (hits + 1) ?log)) = ?log"
  proof (cases "map_of ?log key")
    case None
    then show ?thesis using wf by (simp add: hits_def btree_get_insert btree_insert_remove_fresh)
  next
    case (Some h)
    then have "h \<noteq> 0" using assms by (auto simp: log_ok_def dest!: map_of_SomeD)
    then show ?thesis using Some wf by (simp add: hits_def btree_get_insert btree_reinsert)
  qed
  then have "rewind_one key (m1\<lparr>gm_provisional_journal := gm_provisional_journal m\<rparr>) = m"
    by (simp add: rewind_one_def Let_def m1_def)
  then show ?thesis by (intro exI [of _ key]) (simp add: note1, simp add: m1_def)
qed

lemma log_ok_note:
  assumes "log_ok (Suc n) m"
  shows "log_ok n (GuestMemory_note_provisional_read a len m)"
proof -
  define key where "key = (a, if unat len \<le> unat u32_MAX then ucast len else u32_MAX)"
  define hits where "hits = (case map_of (gm_provisional_reads m) key of Some h \<Rightarrow> h | None \<Rightarrow> 0)"
  have hb: "unat hits + Suc n < 2 ^ 32"
    using assms by (auto simp: log_ok_def hits_def split: option.splits dest!: map_of_SomeD)
  have c: "unat (gm_provisional_read_count m) + 1 < 2 ^ 64" using assms by (simp add: log_ok_def)
  have h1: "unat (hits + 1) = unat hits + 1" "saturating_add hits 1 = hits + 1"
    using succ_u32 [of hits] hb by simp_all
  have wf: "btree_wf (gm_provisional_reads m)" using assms by (simp add: log_ok_def)
  have "hits + 1 \<noteq> 0" using h1(1) by auto
  then have "h \<noteq> 0 \<and> unat h + n < 2 ^ 32"
    if "(k, h) \<in> set (btree_insert key (hits + 1) (gm_provisional_reads m))" for k h
    using that assms hb h1(1) by (fastforce simp: btree_set_insert_entries [OF wf] log_ok_def)
  moreover have "gm_provisional_reads (GuestMemory_note_provisional_read a len m) = btree_insert key (hits + 1) (gm_provisional_reads m)"
    "gm_provisional_read_count (GuestMemory_note_provisional_read a len m) = gm_provisional_read_count m + 1"
    using assms h1 unat_succ_u64 [OF c]
    by (auto simp: GuestMemory_note_provisional_read_def Let_def key_def hits_def log_ok_def)
  moreover have "gm_reads_unlogged (GuestMemory_note_provisional_read a len m) = gm_reads_unlogged m"
    by (simp add: GuestMemory_note_provisional_read_def Let_def)
  ultimately show ?thesis
    using assms wf unat_succ_u64 [OF c] by (auto simp: log_ok_def btree_wf_insert)
qed

lemma rewind_notes:
  assumes "log_ok (length ks) m" and "count = gm_provisional_read_count m"
  shows "GuestMemory_rewind_provisional_reads count (fold (\<lambda>(a, n). GuestMemory_note_provisional_read a n) ks m) = m"
proof -
  have step: "GuestMemory_rewind_provisional_reads count (fold (\<lambda>(a, n). GuestMemory_note_provisional_read a n) ks m') =
      GuestMemory_rewind_provisional_reads count m'"
    if "log_ok (length ks) m'" "count \<le> gm_provisional_read_count m'" for ks m'
    using that
  proof (induction ks arbitrary: m')
    case (Cons x ks)
    obtain a n where x: "x = (a, n)" by (cases x)
    let ?m1 = "GuestMemory_note_provisional_read a n m'"
    have c: "unat (gm_provisional_read_count m') + 1 < 2 ^ 64" using Cons.prems(1) by (simp add: log_ok_def)
    obtain key where k: "gm_provisional_journal ?m1 = gm_provisional_journal m' @ [key]"
      "gm_provisional_read_count ?m1 = gm_provisional_read_count m' + 1"
      "rewind_one key (?m1\<lparr>gm_provisional_journal := gm_provisional_journal m'\<rparr>) = m'"
      using rewind_one_note [of "length ks" m' a n] Cons.prems(1) by auto
    have gt: "count < gm_provisional_read_count ?m1"
      using Cons.prems(2) unat_succ_u64 [OF c] k(2) by (simp add: word_less_nat_alt word_le_nat_alt)
    have "GuestMemory_rewind_provisional_reads count (fold (\<lambda>(a, n). GuestMemory_note_provisional_read a n) ks ?m1) =
        GuestMemory_rewind_provisional_reads count ?m1"
      using Cons.prems(1) gt by (intro Cons.IH log_ok_note) simp_all
    also have "\<dots> = GuestMemory_rewind_provisional_reads count m'"
      using gt k by (subst GuestMemory_rewind_provisional_reads.simps) simp
    finally show ?case by (simp add: x)
  qed simp
  have "GuestMemory_rewind_provisional_reads count m = m"
    by (subst GuestMemory_rewind_provisional_reads.simps) (simp add: assms(2))
  then show ?thesis using step [OF assms(1)] assms(2) by simp
qed

text \<open>
  Rewinding takes back exactly the reads noted since the given count: for any run of
  noted reads that stays within the counters' widths, rewinding to the count before the run
  restores the whole memory record, log, hit counts, journal and counter included, whether
  the reads hit old keys or new ones.
\<close>

theorem rewind_restores:
  assumes "log_ok (length ks) m"
  shows "GuestMemory_rewind_provisional_reads (gm_provisional_read_count m)
    (fold (\<lambda>(a, n). GuestMemory_note_provisional_read a n) ks m) = m"
  by (rule rewind_notes [OF assms refl])

theorem rewind_restores_witness:
  "GuestMemory_rewind_provisional_reads 1
    (fold (\<lambda>(a, n). GuestMemory_note_provisional_read a n) [(8, 4), (16, 4), (8, 4)]
      \<lparr>gm_regions = [], gm_page_hashes = [], gm_cached_hash = None, gm_provisional_read_count = 1,
       gm_provisional_reads = [((8, 4), 1)], gm_provisional_journal = [(8, 4)], gm_reads_unlogged = False,
       gm_unmapped_below = 0, gm_code_spans = [], gm_fetch_restricted = False\<rparr>) =
      \<lparr>gm_regions = [], gm_page_hashes = [], gm_cached_hash = None, gm_provisional_read_count = 1,
       gm_provisional_reads = [((8, 4), 1)], gm_provisional_journal = [(8, 4)], gm_reads_unlogged = False,
       gm_unmapped_below = 0, gm_code_spans = [], gm_fetch_restricted = False\<rparr>"
  using rewind_restores [of "[(8, 4), (16, 4), (8, 4)]"
      "\<lparr>gm_regions = [], gm_page_hashes = [], gm_cached_hash = None, gm_provisional_read_count = 1,
       gm_provisional_reads = [((8, 4), 1)], gm_provisional_journal = [(8, 4)], gm_reads_unlogged = False,
       gm_unmapped_below = 0, gm_code_spans = [], gm_fetch_restricted = False\<rparr>"]
  by (simp add: log_ok_def)

end
