(* ===== verification/Dma_Command.thy ===== *)
theory Dma_Command
  imports Guest_Range
begin

unbundle bit_operations_syntax

text \<open>
  \<^verbatim>\<open>cellgov_dma/src/command.rs\<close> with the MFC constants of \<^verbatim>\<open>cellgov_ps3_abi/src/hw/spu.rs\<close>: the
  parameters an MFC command latches, the checks the MFC makes on them, and the interrupt
  each refusal raises. \<open>Table_7_6\<close> states the accepted parameters arithmetically; the bit
  tests of \<^verbatim>\<open>validate\<close> are shown to decide exactly that.
\<close>

section \<open>Constants\<close>

definition MFC_MAX_TAG_ID :: u32 where "MFC_MAX_TAG_ID = 31"
definition MFC_PUT :: u32 where "MFC_PUT = 0x20"
definition MFC_GET :: u32 where "MFC_GET = 0x40"
definition MFC_LIST_ELEMENT_BYTES :: u32 where "MFC_LIST_ELEMENT_BYTES = 8"
definition MFC_TRANSFER_SIZE_MAX :: u32 where "MFC_TRANSFER_SIZE_MAX = 0x4000"
definition MFC_SIZE_RESERVED_MASK :: u32 where "MFC_SIZE_RESERVED_MASK = 0xFFFF8000"
definition MFC_TAG_ID_RESERVED_MASK :: u32 where "MFC_TAG_ID_RESERVED_MASK = 0xFFFFFFE0"
definition MFC_ADDRESS_LOW_BITS :: u32 where "MFC_ADDRESS_LOW_BITS = 0xF"
definition MFC_LIST_ADDRESS_LOW_BITS :: u32 where "MFC_LIST_ADDRESS_LOW_BITS = 0x7"
definition MFC_SNDSIG_SIZE :: u32 where "MFC_SNDSIG_SIZE = 4"
definition MFC_CLASS0_ALIGNMENT :: u64 where "MFC_CLASS0_ALIGNMENT = 1"
definition MFC_CLASS0_INVALID_COMMAND :: u64 where "MFC_CLASS0_INVALID_COMMAND = push_bit 1 1"

lemmas mfc_consts = MFC_MAX_TAG_ID_def MFC_LIST_ELEMENT_BYTES_def MFC_TRANSFER_SIZE_MAX_def
  MFC_SIZE_RESERVED_MASK_def MFC_TAG_ID_RESERVED_MASK_def MFC_ADDRESS_LOW_BITS_def
  MFC_LIST_ADDRESS_LOW_BITS_def MFC_SNDSIG_SIZE_def

datatype MfcTagId = MfcTagId (MfcTagId_raw: u8)

definition MfcTagId_new :: "u8 \<Rightarrow> MfcTagId option" where
  "MfcTagId_new raw = (if ucast raw > MFC_MAX_TAG_ID then None else Some (MfcTagId raw))"

text \<open>A shift amount is taken modulo the width of the shifted value.\<close>

definition MfcTagId_status_bit :: "MfcTagId \<Rightarrow> u32" where
  "MfcTagId_status_bit t = push_bit (unat (MfcTagId_raw t) mod 32) 1"

section \<open>Parameters and refusals\<close>

record MfcParameters =
  mp_lsa :: u32
  mp_eah :: u32
  mp_eal :: u32
  mp_size :: u32
  mp_tag :: u32

definition MfcParameters_ea :: "MfcParameters \<Rightarrow> u64" where
  "MfcParameters_ea p = push_bit 32 (ucast (mp_eah p)) OR ucast (mp_eal p)"

datatype MfcCommandClass =
  Transfer | SendSignal | ListCommand | Atomic | Synchronization | StorageControl

datatype MfcExceptionClass =
  Exc_Alignment | Exc_InvalidCommand | Exc_DataSegment | Exc_DataStorage

definition MfcExceptionClass_class0_status_bit :: "MfcExceptionClass \<Rightarrow> u64 option" where
  "MfcExceptionClass_class0_status_bit c =
     (case c of
        Exc_Alignment \<Rightarrow> Some MFC_CLASS0_ALIGNMENT
      | Exc_InvalidCommand \<Rightarrow> Some MFC_CLASS0_INVALID_COMMAND
      | Exc_DataSegment \<Rightarrow> None
      | Exc_DataStorage \<Rightarrow> None)"

datatype MfcCommandError =
    ReservedTagBits u32
  | ReservedSizeBits u32
  | SizeTooLarge u32
  | SizeUnaligned u32
  | SendSignalSize u32
  | LocalStoreUnaligned u32 u32
  | AddressLowBitsDiffer u32 u64
  | ListAddressUnaligned u32
  | ListSizeUnaligned u32
  | ListElementCrosses4Gb u64 u32
  | IllegalOpcode u32
  | ReservedOpcode u32
  | ProxyOnlyCommand u32
  | DataSegment u64
  | DataStorage u64

definition MfcCommandError_class :: "MfcCommandError \<Rightarrow> MfcExceptionClass" where
  "MfcCommandError_class e =
     (case e of
        ReservedTagBits _ \<Rightarrow> Exc_InvalidCommand
      | IllegalOpcode _ \<Rightarrow> Exc_InvalidCommand
      | ReservedOpcode _ \<Rightarrow> Exc_InvalidCommand
      | ProxyOnlyCommand _ \<Rightarrow> Exc_InvalidCommand
      | ReservedSizeBits _ \<Rightarrow> Exc_Alignment
      | SizeTooLarge _ \<Rightarrow> Exc_Alignment
      | SizeUnaligned _ \<Rightarrow> Exc_Alignment
      | SendSignalSize _ \<Rightarrow> Exc_Alignment
      | LocalStoreUnaligned _ _ \<Rightarrow> Exc_Alignment
      | AddressLowBitsDiffer _ _ \<Rightarrow> Exc_Alignment
      | ListAddressUnaligned _ \<Rightarrow> Exc_Alignment
      | ListSizeUnaligned _ \<Rightarrow> Exc_Alignment
      | DataSegment _ \<Rightarrow> Exc_DataSegment
      | ListElementCrosses4Gb _ _ \<Rightarrow> Exc_DataSegment
      | DataStorage _ \<Rightarrow> Exc_DataStorage)"

definition MfcCommandError_code :: "MfcCommandError \<Rightarrow> u8" where
  "MfcCommandError_code e =
     (case e of
        ReservedTagBits _ \<Rightarrow> 1
      | ReservedSizeBits _ \<Rightarrow> 2
      | SizeTooLarge _ \<Rightarrow> 3
      | SizeUnaligned _ \<Rightarrow> 4
      | SendSignalSize _ \<Rightarrow> 5
      | LocalStoreUnaligned _ _ \<Rightarrow> 6
      | AddressLowBitsDiffer _ _ \<Rightarrow> 7
      | ListAddressUnaligned _ \<Rightarrow> 8
      | IllegalOpcode _ \<Rightarrow> 9
      | ReservedOpcode _ \<Rightarrow> 10
      | ProxyOnlyCommand _ \<Rightarrow> 11
      | DataSegment _ \<Rightarrow> 12
      | DataStorage _ \<Rightarrow> 13
      | ListSizeUnaligned _ \<Rightarrow> 14
      | ListElementCrosses4Gb _ _ \<Rightarrow> 15)"

record InvalidMfcCommand =
  imc_word :: u32
  imc_params :: MfcParameters
  imc_error :: MfcCommandError

section \<open>The checks\<close>

definition is_multiple_of :: "'a::len word \<Rightarrow> 'a word \<Rightarrow> bool" where
  "is_multiple_of w n \<longleftrightarrow> w mod n = 0"

text \<open>The alignment a transfer size asks of the local-store address.\<close>

definition transfer_alignment :: "u32 \<Rightarrow> u32 option" where
  "transfer_alignment sz =
     (if sz = 0 \<or> sz = 1 then Some 1
      else if sz = 2 \<or> sz = 4 \<or> sz = 8 then Some sz
      else if is_multiple_of sz 16 then Some 16 else None)"

definition validate :: "MfcCommandClass \<Rightarrow> MfcParameters \<Rightarrow> MfcCommandError + unit" where
  "validate class params =
     (if class = Atomic \<or> class = Synchronization then Inr ()
      else if mp_tag params AND MFC_TAG_ID_RESERVED_MASK \<noteq> 0 then Inl (ReservedTagBits (mp_tag params))
      else if mp_size params AND MFC_SIZE_RESERVED_MASK \<noteq> 0 then Inl (ReservedSizeBits (mp_size params))
      else if mp_size params > MFC_TRANSFER_SIZE_MAX then Inl (SizeTooLarge (mp_size params))
      else if class = ListCommand then
        (if mp_lsa params AND MFC_LIST_ADDRESS_LOW_BITS \<noteq> 0
           then Inl (LocalStoreUnaligned (mp_lsa params) (mp_size params))
         else if mp_eal params AND MFC_LIST_ADDRESS_LOW_BITS \<noteq> 0
           then Inl (ListAddressUnaligned (mp_eal params))
         else if \<not> is_multiple_of (mp_size params) MFC_LIST_ELEMENT_BYTES
           then Inl (ListSizeUnaligned (mp_size params))
         else Inr ())
      else if class = SendSignal \<and> mp_size params \<noteq> MFC_SNDSIG_SIZE then Inl (SendSignalSize (mp_size params))
      else if class = Transfer \<or> class = SendSignal then
        (case transfer_alignment (mp_size params) of
           None \<Rightarrow> Inl (SizeUnaligned (mp_size params))
         | Some alignment \<Rightarrow>
             (if \<not> is_multiple_of (mp_lsa params) alignment
                then Inl (LocalStoreUnaligned (mp_lsa params) (mp_size params))
              else let low = ucast MFC_ADDRESS_LOW_BITS
                   in if MfcParameters_ea params AND low \<noteq> ucast (mp_lsa params) AND low
                        then Inl (AddressLowBitsDiffer (mp_lsa params) (MfcParameters_ea params))
                      else Inr ()))
      else Inr ())"

section \<open>The table, arithmetically\<close>

definition transfer_fits :: "nat \<Rightarrow> nat \<Rightarrow> bool" where
  "transfer_fits sz lsa \<longleftrightarrow> sz = 0 \<or> sz \<in> {1, 2, 4, 8} \<and> sz dvd lsa \<or> 16 dvd sz \<and> 16 dvd lsa"

definition Table_7_6 :: "MfcCommandClass \<Rightarrow> MfcParameters \<Rightarrow> bool" where
  "Table_7_6 class p \<longleftrightarrow>
     (let lsa = unat (mp_lsa p); ea = unat (mp_eah p) * 2 ^ 32 + unat (mp_eal p);
          sz = unat (mp_size p); tag = unat (mp_tag p);
          sized = (tag < 32 \<and> sz \<le> 16384)
      in case class of
           Atomic \<Rightarrow> True
         | Synchronization \<Rightarrow> True
         | StorageControl \<Rightarrow> sized
         | ListCommand \<Rightarrow> sized \<and> 8 dvd lsa \<and> 8 dvd unat (mp_eal p) \<and> 8 dvd sz
         | SendSignal \<Rightarrow> sized \<and> sz = 4 \<and> 4 dvd lsa \<and> ea mod 16 = lsa mod 16
         | Transfer \<Rightarrow> sized \<and> transfer_fits sz lsa \<and> ea mod 16 = lsa mod 16)"

lemma and_high_mask_eq_0:
  fixes w :: "'a::len word"
  shows "w AND NOT (mask n) = 0 \<longleftrightarrow> unat w < 2 ^ n"
proof -
  have u: "unat (drop_bit n w) = unat w div 2 ^ n"
    by (metis drop_bit_eq_div take_bit_nat_eq_self unat_lt_2p unsigned_drop_bit_eq)
  have "w AND NOT (mask n) = 0 \<longleftrightarrow> drop_bit n w = 0"
  proof
    assume z: "w AND NOT (mask n) = 0"
    show "drop_bit n w = 0"
    proof (rule bit_eqI)
      fix k
      have "\<not> bit (w AND NOT (mask n)) (n + k)" using z by simp
      then show "bit (drop_bit n w) k \<longleftrightarrow> bit (0 :: 'a word) k"
        by (auto simp: bit_and_iff bit_not_iff bit_mask_iff bit_drop_bit_eq dest: bit_imp_le_length)
    qed
  next
    assume "drop_bit n w = 0"
    then have "\<not> bit w (n + k)" for k by (metis bit_0_eq bit_drop_bit_eq bot_apply comp_apply bot_bool_def)
    then have "\<not> bit w k" if "n \<le> k" for k using that by (metis le_add_diff_inverse)
    then show "w AND NOT (mask n) = 0"
      by (intro bit_eqI) (auto simp: bit_and_iff bit_not_iff bit_mask_iff intro: ccontr)
  qed
  also have "\<dots> \<longleftrightarrow> unat w div 2 ^ n = 0"
    using u by (metis unat_0 unat_eqI)
  also have "\<dots> \<longleftrightarrow> unat w < 2 ^ n"
    by (simp add: div_eq_0_iff)
  finally show ?thesis .
qed

lemma and_low_mask: "unat (w AND mask n) = unat (w :: 'a::len word) mod 2 ^ n"
  by (simp only: take_bit_eq_mask [symmetric] unsigned_take_bit_eq) (simp add: take_bit_eq_mod)

lemma is_multiple_of_iff: "is_multiple_of w n \<longleftrightarrow> unat n dvd unat (w :: 'a::len word)"
  by (metis dvd_eq_mod_eq_0 is_multiple_of_def unat_0 unat_eqI unat_mod_distrib)

lemma low_bits_zero: "w AND mask n = 0 \<longleftrightarrow> 2 ^ n dvd unat (w :: 'a::len word)"
  by (metis and_low_mask dvd_eq_mod_eq_0 unat_0 unat_eqI)

lemma unat_ea: "unat (MfcParameters_ea p) = unat (mp_eah p) * 2 ^ 32 + unat (mp_eal p)"
proof -
  have l: "unat (mp_eah p) < 2 ^ 32" "unat (mp_eal p) < 2 ^ 32"
    using unat_lt_2p [of "mp_eah p"] unat_lt_2p [of "mp_eal p"] by auto
  have e: "MfcParameters_ea p = push_bit 32 (ucast (mp_eah p)) + ucast (mp_eal p)"
    unfolding MfcParameters_ea_def
    by (rule disjunctive_add [symmetric]) (auto simp: bit_push_bit_iff bit_unsigned_iff dest: bit_imp_le_length)
  have h: "unat (push_bit 32 (ucast (mp_eah p)) :: u64) = unat (mp_eah p) * 2 ^ 32"
    using l by (simp add: push_bit_eq_mult unat_word_ariths unat_ucast_up)
  have u: "unat (ucast (mp_eal p) :: u64) = unat (mp_eal p)" by (simp add: unat_ucast_up)
  have "unat (push_bit 32 (ucast (mp_eah p)) :: u64) + unat (ucast (mp_eal p) :: u64) < 2 ^ LENGTH(64)"
    unfolding h u using l by simp
  then show ?thesis
    unfolding e by (subst unat_plus_no_wrap) (simp_all only: h u)
qed

lemma mfc_masks:
  "MFC_TAG_ID_RESERVED_MASK = NOT (mask 5)" "MFC_SIZE_RESERVED_MASK = NOT (mask 15)"
  "MFC_ADDRESS_LOW_BITS = mask 4" "MFC_LIST_ADDRESS_LOW_BITS = mask 3"
  by (auto simp: mfc_consts mask_eq_exp_minus_1 not_eq_complement)

lemma low_bits_agree:
  "MfcParameters_ea p AND ucast MFC_ADDRESS_LOW_BITS = ucast (mp_lsa p) AND ucast MFC_ADDRESS_LOW_BITS \<longleftrightarrow>
   (unat (mp_eah p) * 2 ^ 32 + unat (mp_eal p)) mod 16 = unat (mp_lsa p) mod 16"
proof -
  have m: "ucast MFC_ADDRESS_LOW_BITS = (mask 4 :: u64)"
    by (simp add: mfc_consts mask_eq_exp_minus_1)
  have "MfcParameters_ea p AND mask 4 = ucast (mp_lsa p) AND mask 4 \<longleftrightarrow>
        unat (MfcParameters_ea p AND mask 4) = unat (ucast (mp_lsa p) AND mask 4 :: u64)"
    by (metis unat_eqI)
  then show ?thesis
    by (simp only: m and_low_mask unat_ea) (simp add: unat_ucast_up)
qed

lemma transfer_alignment_iff:
  "(case transfer_alignment s of None \<Rightarrow> False | Some a \<Rightarrow> is_multiple_of l a) \<longleftrightarrow>
   transfer_fits (unat s) (unat l)"
proof -
  have c: "s = 0 \<longleftrightarrow> unat s = 0" "s = 1 \<longleftrightarrow> unat s = 1" "s = 2 \<longleftrightarrow> unat s = 2" "s = 4 \<longleftrightarrow> unat s = 4"
      "s = 8 \<longleftrightarrow> unat s = 8"
    by (auto intro: unat_eqI)
  show ?thesis
    unfolding transfer_alignment_def c transfer_fits_def by (auto simp: is_multiple_of_iff)
qed

section \<open>Properties\<close>

text \<open>
  The MFC accepts a command's parameters exactly when they satisfy the arithmetic
  form of the architecture's table: the tag names one of 32 groups, the size is at most
  16 KB, a transfer size is 0, 1, 2, 4, 8 or a multiple of 16 with the local-store address
  aligned to it (to 16 from 16 bytes on), both addresses agree in their low four bits, a
  list's addresses and size are multiples of 8, and a signal is 4 bytes. A refusal never
  raises a class 1 (segment or storage) interrupt, and a bad tag is reported before any
  alignment error.
\<close>

theorem validate_decides_table:
  "(validate cls p = Inr () \<longleftrightarrow> Table_7_6 cls p) \<and>
   (case validate cls p of
      Inr _ \<Rightarrow> True
    | Inl e \<Rightarrow> MfcExceptionClass_class0_status_bit (MfcCommandError_class e) \<noteq> None \<and>
        (MfcCommandError_class e = Exc_InvalidCommand \<longleftrightarrow> 32 \<le> unat (mp_tag p)))"
proof -
  have tag: "mp_tag p AND MFC_TAG_ID_RESERVED_MASK = 0 \<longleftrightarrow> unat (mp_tag p) < 32"
    by (simp add: mfc_masks and_high_mask_eq_0)
  have res: "mp_size p AND MFC_SIZE_RESERVED_MASK = 0 \<longleftrightarrow> unat (mp_size p) < 32768"
    by (simp add: mfc_masks and_high_mask_eq_0)
  have big: "mp_size p > MFC_TRANSFER_SIZE_MAX \<longleftrightarrow> 16384 < unat (mp_size p)"
    by (simp add: mfc_consts word_less_nat_alt)
  have low: "w AND MFC_LIST_ADDRESS_LOW_BITS = 0 \<longleftrightarrow> 8 dvd unat w" for w :: u32
    using low_bits_zero [of w 3] by (simp add: mfc_masks)
  note rules = tag res big low low_bits_agree
  show ?thesis
  proof (cases cls)
    case Transfer
    then show ?thesis
      using transfer_alignment_iff [where s = "mp_size p" and l = "mp_lsa p"]
      by (cases "transfer_alignment (mp_size p)")
         (auto simp: validate_def Table_7_6_def Let_def rules
            MfcCommandError_class_def MfcExceptionClass_class0_status_bit_def)
  next
    case SendSignal
    have "mp_size p = 4 \<longleftrightarrow> unat (mp_size p) = 4" by (auto intro: unat_eqI)
    with SendSignal show ?thesis
      by (auto simp: validate_def Table_7_6_def Let_def rules is_multiple_of_iff transfer_alignment_def MFC_SNDSIG_SIZE_def
            MfcCommandError_class_def MfcExceptionClass_class0_status_bit_def split: option.splits)
  next
    case ListCommand
    then show ?thesis
      by (auto simp: validate_def Table_7_6_def Let_def rules is_multiple_of_iff MFC_LIST_ELEMENT_BYTES_def
            MfcCommandError_class_def MfcExceptionClass_class0_status_bit_def)
  next
    case StorageControl
    then show ?thesis
      by (auto simp: validate_def Table_7_6_def Let_def rules 
            MfcCommandError_class_def MfcExceptionClass_class0_status_bit_def)
  qed (simp_all add: validate_def Table_7_6_def)
qed

end
