(* ===== verification/Dma_Request.thy ===== *)
theory Dma_Request
  imports Dma_Command Events
begin

text \<open>
  \<^verbatim>\<open>cellgov_dma/src/request.rs\<close> and \<^verbatim>\<open>completion.rs\<close>: the immutable request packet with its
  builders, the storage ranges a transfer touches, its split into bus requests, and the
  completion event that pairs it with a time.
\<close>

section \<open>The packet\<close>

datatype DmaDirection = Put | Get

definition DmaDirection_as_u64 :: "DmaDirection \<Rightarrow> u64" where
  "DmaDirection_as_u64 d = (case d of Put \<Rightarrow> 0 | Get \<Rightarrow> 1)"

datatype MfcOrdering = Ordering_None | Fence | TagBarrier | QueueBarrier

definition MfcOrdering_as_u64 :: "MfcOrdering \<Rightarrow> u64" where
  "MfcOrdering_as_u64 d = (case d of Ordering_None \<Rightarrow> 0 | Fence \<Rightarrow> 1 | TagBarrier \<Rightarrow> 2 | QueueBarrier \<Rightarrow> 3)"

record DmaRequest =
  dr_direction :: DmaDirection
  dr_source :: ByteRange
  dr_destination :: ByteRange
  dr_issuer :: UnitId
  dr_tag_id :: "MfcTagId option"
  dr_ordering :: MfcOrdering
  dr_stall_notify :: bool
  dr_holds_slot :: bool
  dr_local_store_source :: bool
  dr_command_word :: "u32 option"

definition DmaRequest_new :: "DmaDirection \<Rightarrow> ByteRange \<Rightarrow> ByteRange \<Rightarrow> UnitId \<Rightarrow> DmaRequest option" where
  "DmaRequest_new direction src destination issuer =
     (if br_length src \<noteq> br_length destination then None
      else Some \<lparr>dr_direction = direction, dr_source = src, dr_destination = destination,
                 dr_issuer = issuer, dr_tag_id = None, dr_ordering = Ordering_None,
                 dr_stall_notify = False, dr_holds_slot = True, dr_local_store_source = False,
                 dr_command_word = None\<rparr>)"

definition DmaRequest_with_tag_id :: "MfcTagId \<Rightarrow> DmaRequest \<Rightarrow> DmaRequest" where
  "DmaRequest_with_tag_id tag r = r\<lparr>dr_tag_id := Some tag\<rparr>"

definition DmaRequest_with_ordering :: "MfcOrdering \<Rightarrow> DmaRequest \<Rightarrow> DmaRequest" where
  "DmaRequest_with_ordering form r = r\<lparr>dr_ordering := form\<rparr>"

definition DmaRequest_with_stall_notify :: "DmaRequest \<Rightarrow> DmaRequest" where
  "DmaRequest_with_stall_notify r = r\<lparr>dr_stall_notify := True\<rparr>"

definition DmaRequest_without_slot :: "DmaRequest \<Rightarrow> DmaRequest" where
  "DmaRequest_without_slot r = r\<lparr>dr_holds_slot := False\<rparr>"

definition DmaRequest_with_local_store_source :: "DmaRequest \<Rightarrow> DmaRequest" where
  "DmaRequest_with_local_store_source r = r\<lparr>dr_local_store_source := True\<rparr>"

definition DmaRequest_with_command_word :: "u32 \<Rightarrow> DmaRequest \<Rightarrow> DmaRequest" where
  "DmaRequest_with_command_word word r = r\<lparr>dr_command_word := Some word\<rparr>"

definition DmaRequest_local_store_range :: "DmaRequest \<Rightarrow> ByteRange option" where
  "DmaRequest_local_store_range r =
     (case dr_direction r of
        Get \<Rightarrow> Some (dr_destination r)
      | Put \<Rightarrow> (if dr_local_store_source r then Some (dr_source r) else None))"

definition DmaRequest_main_storage_write :: "DmaRequest \<Rightarrow> ByteRange option" where
  "DmaRequest_main_storage_write r = (case dr_direction r of Put \<Rightarrow> Some (dr_destination r) | Get \<Rightarrow> None)"

definition DmaRequest_main_storage_read :: "bool \<Rightarrow> DmaRequest \<Rightarrow> ByteRange option" where
  "DmaRequest_main_storage_read payloaded r =
     (case dr_direction r of
        Get \<Rightarrow> Some (dr_source r)
      | Put \<Rightarrow> (if payloaded \<or> dr_local_store_source r then None else Some (dr_source r)))"

definition DmaRequest_length :: "DmaRequest \<Rightarrow> u64" where
  "DmaRequest_length r = br_length (dr_source r)"

section \<open>Bus requests\<close>

text \<open>
  One call of the iterator: the part that starts at \<open>at\<close>, with the count of bytes through
  its end. The addresses and the count wrap at 64 bits.
\<close>

definition bus_request_at :: "DmaRequest \<Rightarrow> u64 \<Rightarrow> u64 \<Rightarrow> (u64 \<times> DmaRequest) option" where
  "bus_request_at r line at =
     (let len = DmaRequest_length r;
          src = GuestAddr_raw (br_start (dr_source r));
          dst = GuestAddr_raw (br_start (dr_destination r))
      in if len \<le> at \<or> line = 0 then None
         else let n = min (line - (dst + at) mod line) (len - at);
                  end_at = at + n;
                  is_last = (end_at = len)
              in case ByteRange_new (GuestAddr (src + at)) n of
                   None \<Rightarrow> None
                 | Some s \<Rightarrow>
                     (case ByteRange_new (GuestAddr (dst + at)) n of
                        None \<Rightarrow> None
                      | Some d \<Rightarrow>
                          Some (end_at,
                                r\<lparr>dr_source := s, dr_destination := d,
                                  dr_ordering := (if at > 0 then Ordering_None else dr_ordering r),
                                  dr_holds_slot := dr_holds_slot r \<and> is_last,
                                  dr_stall_notify := dr_stall_notify r \<and> is_last\<rparr>)))"

lemma bus_request_at_progress:
  assumes "bus_request_at r line at = Some (e, part)"
  shows "at < e" "e \<le> DmaRequest_length r"
proof -
  let ?m = "(GuestAddr_raw (br_start (dr_destination r)) + at) mod line"
  have a: "at < DmaRequest_length r" "line \<noteq> 0" and
    e: "e = at + min (line - ?m) (DmaRequest_length r - at)"
    using assms by (auto simp: bus_request_at_def Let_def not_le split: if_splits option.splits)
  have m: "?m < line" using a(2) by (simp add: word_mod_less_divisor word_gt_0)
  have d: "unat (DmaRequest_length r - at) = unat (DmaRequest_length r) - unat at"
    using a(1) by (simp add: unat_minus_no_wrap)
  have n0: "0 < unat (min (line - ?m) (DmaRequest_length r - at))"
    using a(1) m by (simp add: unat_min d word_less_nat_alt unat_minus_no_wrap less_imp_le)
  have n1: "unat (min (line - ?m) (DmaRequest_length r - at)) \<le> unat (DmaRequest_length r) - unat at"
    by (simp add: unat_min d)
  have al: "unat at < unat (DmaRequest_length r)" using a(1) by (simp add: word_less_nat_alt)
  have "unat e = unat at + unat (min (line - ?m) (DmaRequest_length r - at))"
    unfolding e using n1 al unat_lt_2p [of "DmaRequest_length r"] by (intro unat_plus_no_wrap) linarith
  then show "at < e" "e \<le> DmaRequest_length r"
    using n0 n1 al by (auto simp: word_less_nat_alt word_le_nat_alt)
qed

function bus_requests_from :: "DmaRequest \<Rightarrow> u64 \<Rightarrow> u64 \<Rightarrow> (u64 \<times> DmaRequest) list" where
  "bus_requests_from r line at =
     (case bus_request_at r line at of
        None \<Rightarrow> []
      | Some (e, part) \<Rightarrow> (e, part) # bus_requests_from r line e)"
  by pat_completeness auto
termination
proof (relation "measure (\<lambda>(r, line, at). unat (DmaRequest_length r) - unat at)", goal_cases)
  case (2 r line at x e part)
  then show ?case
    using bus_request_at_progress [of r line at e part]
    by (simp add: word_less_nat_alt word_le_nat_alt)
qed simp

declare bus_requests_from.simps [simp del]

definition DmaRequest_bus_requests :: "u64 \<Rightarrow> DmaRequest \<Rightarrow> (u64 \<times> DmaRequest) list" where
  "DmaRequest_bus_requests line r = bus_requests_from r line 0"

section \<open>Completions\<close>

record DmaCompletion =
  dc_request :: DmaRequest
  dc_completion_time :: GuestTicks

definition DmaCompletion_new :: "DmaRequest \<Rightarrow> GuestTicks \<Rightarrow> DmaCompletion" where
  "DmaCompletion_new request time = \<lparr>dc_request = request, dc_completion_time = time\<rparr>"

definition DmaCompletion_issuer :: "DmaCompletion \<Rightarrow> UnitId" where
  "DmaCompletion_issuer c = dr_issuer (dc_request c)"

definition DmaCompletion_direction :: "DmaCompletion \<Rightarrow> DmaDirection" where
  "DmaCompletion_direction c = dr_direction (dc_request c)"

definition DmaCompletion_source :: "DmaCompletion \<Rightarrow> ByteRange" where
  "DmaCompletion_source c = dr_source (dc_request c)"

definition DmaCompletion_destination :: "DmaCompletion \<Rightarrow> ByteRange" where
  "DmaCompletion_destination c = dr_destination (dc_request c)"

definition DmaCompletion_length :: "DmaCompletion \<Rightarrow> u64" where
  "DmaCompletion_length c = DmaRequest_length (dc_request c)"

lemmas DmaCompletion_simps = DmaCompletion_new_def DmaCompletion_issuer_def DmaCompletion_direction_def
  DmaCompletion_source_def DmaCompletion_destination_def DmaCompletion_length_def

section \<open>The split is a partition\<close>

definition dr_ok :: "DmaRequest \<Rightarrow> bool" where
  "dr_ok r \<longleftrightarrow> range_ok (dr_source r) \<and> range_ok (dr_destination r) \<and>
     br_length (dr_source r) = br_length (dr_destination r)"

lemma DmaRequest_new_ok:
  "DmaRequest_new d s t u = Some r \<Longrightarrow> range_ok s \<Longrightarrow> range_ok t \<Longrightarrow> dr_ok r"
  by (auto simp: DmaRequest_new_def dr_ok_def split: if_splits)

definition addrs :: "ByteRange \<Rightarrow> nat list" where
  "addrs rng = [unat (GuestAddr_raw (br_start rng)) ..< unat (GuestAddr_raw (br_start rng)) + unat (br_length rng)]"

text \<open>The addresses of a range from an offset on.\<close>

definition addrs_from :: "nat \<Rightarrow> ByteRange \<Rightarrow> nat list" where
  "addrs_from k rng =
     [unat (GuestAddr_raw (br_start rng)) + k ..< unat (GuestAddr_raw (br_start rng)) + unat (br_length rng)]"

definition part_ok :: "DmaRequest \<Rightarrow> u64 \<Rightarrow> bool \<Rightarrow> bool \<Rightarrow> u64 \<times> DmaRequest \<Rightarrow> bool" where
  "part_ok r line is_first is_last = (\<lambda>(e, part).
     dr_ok part \<and> 0 < DmaRequest_length part \<and> DmaRequest_length part \<le> line \<and>
     (is_last \<or> is_multiple_of (ByteRange_end_raw (dr_destination part)) line) \<and>
     part = r\<lparr>dr_source := dr_source part, dr_destination := dr_destination part,
              dr_ordering := (if is_first then dr_ordering r else Ordering_None),
              dr_holds_slot := dr_holds_slot r \<and> is_last,
              dr_stall_notify := dr_stall_notify r \<and> is_last\<rparr>)"

lemma round_up_dvd:
  fixes a d :: nat
  assumes "0 < d"
  shows "d dvd a + (d - a mod d)"
proof -
  have "a + (d - a mod d) = (a - a mod d) + d"
    using assms mod_less_divisor [of d a] mod_less_eq_dividend [of a d] by linarith
  then show ?thesis by (metis dvd_add dvd_minus_mod dvd_refl)
qed

lemma upt_split: "i \<le> j \<Longrightarrow> j \<le> k \<Longrightarrow> [i..<j] @ [j..<k] = [i..<k]"
  by (metis le_add_diff_inverse upt_add_eq_append)

lemma is_multiple_of_round_up:
  fixes line :: u64
  assumes "line \<noteq> 0" and "n = line - x mod line" and "unat x + unat n < 2 ^ 64"
  shows "is_multiple_of (x + n) line"
proof -
  have "x mod line < line" using assms(1) by (simp add: word_mod_less_divisor word_gt_0)
  then have "unat n = unat line - unat x mod unat line"
    using assms(2) by (simp add: unat_minus_no_wrap less_imp_le unat_mod_distrib)
  moreover have "unat (x + n) = unat x + unat n" using assms(3) by (intro unat_plus_no_wrap) simp
  ultimately show ?thesis
    using assms(1) round_up_dvd [of "unat line" "unat x"] by (metis is_multiple_of_iff unat_gt_0)
qed

lemma addrs_split:
  assumes "unat (GuestAddr_raw (br_start rng) + at) = unat (GuestAddr_raw (br_start rng)) + unat at"
    and "unat (at + n) = unat at + unat n" and "unat at + unat n \<le> unat (br_length rng)"
  shows "addrs (ByteRange (GuestAddr (GuestAddr_raw (br_start rng) + at)) n) @ addrs_from (unat (at + n)) rng =
    addrs_from (unat at) rng"
  using assms unfolding addrs_def addrs_from_def by (simp add: upt_split add.assoc)

lemma bus_request_at_eq:
  assumes "dr_ok r" and "at < DmaRequest_length r" and "line \<noteq> 0"
  shows "\<exists>e part. bus_request_at r line at = Some (e, part) \<and> part_ok r line (at = 0) (e = DmaRequest_length r) (e, part) \<and>
    addrs (dr_source part) @ addrs_from (unat e) (dr_source r) = addrs_from (unat at) (dr_source r) \<and>
    addrs (dr_destination part) @ addrs_from (unat e) (dr_destination r) = addrs_from (unat at) (dr_destination r)"
proof -
  let ?len = "DmaRequest_length r"
  let ?src = "GuestAddr_raw (br_start (dr_source r))" and ?dst = "GuestAddr_raw (br_start (dr_destination r))"
  let ?m = "(?dst + at) mod line"
  let ?n = "min (line - ?m) (?len - at)"
  have al: "unat at < unat ?len" using assms(2) by (simp add: word_less_nat_alt)
  have bounds: "unat ?src + unat ?len < 2 ^ 64" "unat ?dst + unat ?len < 2 ^ 64"
    using assms(1) by (auto simp: dr_ok_def range_ok_def DmaRequest_length_def)
  have m: "?m < line" using assms(3) by (simp add: word_mod_less_divisor word_gt_0)
  have n: "unat ?n = min (unat line - unat ?m) (unat ?len - unat at)"
    using assms(2) m by (simp add: unat_min unat_minus_no_wrap less_imp_le)
  have n0: "0 < unat ?n" using n m al by (simp add: word_less_nat_alt)
  have us: "unat (?src + at) = unat ?src + unat at" "unat (?dst + at) = unat ?dst + unat at"
    using bounds al by (auto intro!: unat_plus_no_wrap)
  have ue: "unat (at + ?n) = unat at + unat ?n"
    using bounds al n by (intro unat_plus_no_wrap) simp
  have oks: "range_ok (ByteRange (GuestAddr (?src + at)) ?n)" "range_ok (ByteRange (GuestAddr (?dst + at)) ?n)"
    using bounds al n by (auto simp: range_ok_def us simp del: unat_min)
  define part where "part = r\<lparr>dr_source := ByteRange (GuestAddr (?src + at)) ?n,
      dr_destination := ByteRange (GuestAddr (?dst + at)) ?n,
      dr_ordering := (if at > 0 then Ordering_None else dr_ordering r),
      dr_holds_slot := dr_holds_slot r \<and> at + ?n = ?len,
      dr_stall_notify := dr_stall_notify r \<and> at + ?n = ?len\<rparr>"
  have b: "bus_request_at r line at = Some (at + ?n, part)"
    using assms oks by (simp add: bus_request_at_def Let_def ByteRange_new_iff [THEN iffD2] part_def)
  have boundary: "is_multiple_of (?dst + at + ?n) line" if "at + ?n \<noteq> ?len"
  proof -
    have "unat ?n \<noteq> unat ?len - unat at" using that ue al by (metis le_add_diff_inverse less_imp_le unat_eqI)
    then have "?n = line - ?m" using n m by (metis less_imp_le min_def unat_eqI unat_minus_no_wrap)
    with bounds al n us show ?thesis by (intro is_multiple_of_round_up [OF assms(3)]) simp_all
  qed
  have pk: "part_ok r line (at = 0) (at + ?n = ?len) (at + ?n, part)"
    using oks n0 n m boundary
    by (auto simp: part_ok_def part_def dr_ok_def DmaRequest_length_def ByteRange_end_raw_def word_gt_0 unat_gt_0
          word_le_nat_alt)
  have le: "unat at + unat ?n \<le> unat ?len" using n al by simp
  show ?thesis
    using b pk addrs_split [OF us(1) ue] addrs_split [OF us(2) ue] assms(1) le
    by (auto simp: part_def DmaRequest_length_def dr_ok_def)
qed

lemma bus_requests_from_Nil:
  assumes "dr_ok r" and "line \<noteq> 0" and "at \<le> DmaRequest_length r"
  shows "bus_requests_from r line at = [] \<longleftrightarrow> at = DmaRequest_length r"
proof (cases "at = DmaRequest_length r")
  case True
  then show ?thesis by (simp add: bus_requests_from.simps bus_request_at_def)
next
  case False
  then have "at < DmaRequest_length r" using assms(3) by simp
  with False show ?thesis
    using bus_request_at_eq [OF assms(1) _ assms(2), of at]
    by (auto simp: bus_requests_from.simps)
qed

lemma bus_requests_from_partition:
  assumes "dr_ok r" and "line \<noteq> 0" and "at \<le> DmaRequest_length r"
  shows "concat (map (addrs \<circ> dr_source \<circ> snd) (bus_requests_from r line at)) = addrs_from (unat at) (dr_source r) \<and>
    concat (map (addrs \<circ> dr_destination \<circ> snd) (bus_requests_from r line at)) = addrs_from (unat at) (dr_destination r) \<and>
    (\<forall>k < length (bus_requests_from r line at).
       part_ok r line (k = 0 \<and> at = 0) (Suc k = length (bus_requests_from r line at)) (bus_requests_from r line at ! k))"
  using assms
proof (induction r line at rule: bus_requests_from.induct)
  case (1 r line at)
  show ?case
  proof (cases "at = DmaRequest_length r")
    case True
    then have "bus_requests_from r line at = []" using 1 by (simp add: bus_requests_from_Nil)
    with True 1(2) show ?thesis by (simp add: addrs_from_def DmaRequest_length_def dr_ok_def)
  next
    case False
    then have "at < DmaRequest_length r" using 1(4) by simp
    then obtain e part where ep: "bus_request_at r line at = Some (e, part)"
      "part_ok r line (at = 0) (e = DmaRequest_length r) (e, part)"
      "addrs (dr_source part) @ addrs_from (unat e) (dr_source r) = addrs_from (unat at) (dr_source r)"
      "addrs (dr_destination part) @ addrs_from (unat e) (dr_destination r) = addrs_from (unat at) (dr_destination r)"
      using bus_request_at_eq [OF 1(2) _ 1(3)] by blast
    note e = bus_request_at_progress [OF ep(1)]
    have cons: "bus_requests_from r line at = (e, part) # bus_requests_from r line e"
      by (simp add: bus_requests_from.simps [of r line at] ep(1))
    have "e \<noteq> 0" using e(1) by auto
    then show ?thesis
      using 1(1) [OF ep(1) refl 1(2,3) e(2)] ep(2-4) bus_requests_from_Nil [OF 1(2,3) e(2)]
      by (auto simp: cons nth_Cons split: nat.splits)
  qed
qed

section \<open>Properties\<close>

text \<open>
  The bus requests of a transfer are a partition of it: their source and destination
  addresses, concatenated, are exactly the transfer's, in order. Every part moves at least
  one and at most \<open>line\<close> bytes, every part but the last ends on a line boundary of the
  destination, only the first keeps the ordering and only the last keeps the command-queue
  slot and the stall-and-notify flag.
\<close>

theorem bus_requests_partition:
  assumes "dr_ok r" and "line \<noteq> 0"
  shows "let ps = DmaRequest_bus_requests line r
    in concat (map (addrs \<circ> dr_source \<circ> snd) ps) = addrs (dr_source r) \<and>
       concat (map (addrs \<circ> dr_destination \<circ> snd) ps) = addrs (dr_destination r) \<and>
       (\<forall>k < length ps. part_ok r line (k = 0) (Suc k = length ps) (ps ! k))"
  using bus_requests_from_partition [OF assms, of 0]
  by (simp add: DmaRequest_bus_requests_def Let_def addrs_def addrs_from_def)

theorem bus_requests_partition_witness:
  "length (DmaRequest_bus_requests 16
     \<lparr>dr_direction = Put, dr_source = ByteRange (GuestAddr 8) 40, dr_destination = ByteRange (GuestAddr 8) 40,
      dr_issuer = UnitId 0, dr_tag_id = None, dr_ordering = Fence, dr_stall_notify = False,
      dr_holds_slot = True, dr_local_store_source = True, dr_command_word = None\<rparr>) \<noteq> 0"
  (is "length (DmaRequest_bus_requests 16 ?r) \<noteq> 0")
proof
  assume "length (DmaRequest_bus_requests 16 ?r) = 0"
  then show False
    using bus_requests_partition [of ?r 16] by (simp add: dr_ok_def range_ok_def addrs_def)
qed

end
