(* ===== verification/Dma_Queue.thy ===== *)
theory Dma_Queue
  imports Dma_Request Lanes
begin

unbundle bit_operations_syntax

text \<open>
  \<^verbatim>\<open>cellgov_dma/src/queue.rs\<close>: the priority queue of transfers and refused commands, keyed by
  completion time and sequence number. The translation callback is \<^verbatim>\<open>FnMut\<close>: a parameter
  that carries a state of its own. The processing loop is a \<^verbatim>\<open>partial_function\<close>; that it
  returns on every well-formed queue is proved.
\<close>

section \<open>Entries\<close>

record QueueEntry =
  qe_completion :: DmaCompletion
  qe_payload :: "bytes option"

abbreviation qe_request :: "QueueEntry \<Rightarrow> DmaRequest" where
  "qe_request e \<equiv> dc_request (qe_completion e)"

abbreviation qe_issuer :: "QueueEntry \<Rightarrow> UnitId" where
  "qe_issuer e \<equiv> DmaCompletion_issuer (qe_completion e)"

definition tag_status_bit :: "MfcTagId option \<Rightarrow> u32" where
  "tag_status_bit t = (case t of None \<Rightarrow> 0 | Some tag \<Rightarrow> MfcTagId_status_bit tag)"

definition lane_if :: "bool \<Rightarrow> u8 \<Rightarrow> u64 \<Rightarrow> ObjectLanes \<Rightarrow> ObjectLanes" where
  "lane_if c field val lanes = (if c then ObjectLanes_lane field 0 val lanes else lanes)"

definition QueueEntry_lanes :: "QueueEntry lane_value" where
  "QueueEntry_lanes e lanes =
     (let c = qe_completion e; r = dc_request c;
          lanes = ObjectLanes_lane 1 0 (GuestTicks_raw (dc_completion_time c)) lanes;
          lanes = ObjectLanes_lane 2 0 (DmaDirection_as_u64 (DmaCompletion_direction c) + 1) lanes;
          lanes = ObjectLanes_lane 3 0 (GuestAddr_raw (br_start (DmaCompletion_source c))) lanes;
          lanes = ObjectLanes_lane 4 0 (GuestAddr_raw (br_start (DmaCompletion_destination c))) lanes;
          lanes = ObjectLanes_lane 5 0 (DmaCompletion_length c) lanes;
          lanes = ObjectLanes_lane 6 0 (UnitId_raw (DmaCompletion_issuer c)) lanes;
          lanes = ObjectLanes_lane 7 0 (ucast (tag_status_bit (dr_tag_id r))) lanes;
          lanes = (case qe_payload e of
                     None \<Rightarrow> lanes
                   | Some payload \<Rightarrow> ObjectLanes_bytes 9 [] payload (ObjectLanes_lane 8 0 1 lanes));
          lanes = lane_if (dr_ordering r \<noteq> Ordering_None) 10 (MfcOrdering_as_u64 (dr_ordering r)) lanes;
          lanes = lane_if (dr_stall_notify r) 11 1 lanes;
          lanes = lane_if (\<not> dr_holds_slot r) 12 1 lanes;
          lanes = lane_if (dr_local_store_source r) 13 1 lanes
      in case dr_command_word r of None \<Rightarrow> lanes | Some word \<Rightarrow> ObjectLanes_lane 14 0 (ucast word) lanes)"

record InvalidEntry =
  ie_issuer :: UnitId
  ie_command :: InvalidMfcCommand
  ie_time :: GuestTicks
  ie_raised :: bool
  ie_holds_slot :: bool
  ie_stall_notify :: bool

definition InvalidEntry_tag_bit :: "InvalidEntry \<Rightarrow> u32" where
  "InvalidEntry_tag_bit e =
     (let tag = mp_tag (imc_params (ie_command e))
      in if tag > 255 then 0 else tag_status_bit (MfcTagId_new (ucast tag)))"

definition InvalidEntry_lanes :: "InvalidEntry lane_value" where
  "InvalidEntry_lanes e lanes =
     (let params = imc_params (ie_command e);
          lanes = ObjectLanes_lane 1 0 (UnitId_raw (ie_issuer e)) lanes;
          lanes = ObjectLanes_lane 2 0 (ucast (InvalidEntry_tag_bit e)) lanes;
          lanes = ObjectLanes_lane 3 0 (ucast (MfcCommandError_code (imc_error (ie_command e)))) lanes;
          lanes = ObjectLanes_lane 4 0 (if ie_raised e then 1 else 0) lanes;
          lanes = ObjectLanes_lane 5 0 (ucast (imc_word (ie_command e))) lanes;
          lanes = ObjectLanes_lane 6 0 (GuestTicks_raw (ie_time e)) lanes;
          lanes = ObjectLanes_lane 7 0 (ucast (mp_lsa params)) lanes;
          lanes = ObjectLanes_lane 8 0 (MfcParameters_ea params) lanes;
          lanes = ObjectLanes_lane 9 0 (ucast (mp_size params)) lanes;
          lanes = ObjectLanes_lane 10 0 (ucast (mp_tag params)) lanes;
          lanes = lane_if (ie_stall_notify e) 11 1 lanes
      in lane_if (\<not> ie_holds_slot e) 12 1 lanes)"

definition refused_transfer :: "DmaCompletion \<Rightarrow> bool \<Rightarrow> MfcCommandError \<Rightarrow> InvalidMfcCommand" where
  "refused_transfer c payloaded error =
     (let (word, ls, main) =
            (case DmaCompletion_direction c of
               Put \<Rightarrow> (MFC_PUT,
                       if payloaded \<or> dr_local_store_source (dc_request c) then Some (DmaCompletion_source c) else None,
                       DmaCompletion_destination c)
             | Get \<Rightarrow> (MFC_GET, Some (DmaCompletion_destination c), DmaCompletion_source c));
          ea = GuestAddr_raw (br_start main)
      in \<lparr>imc_word = (case dr_command_word (dc_request c) of None \<Rightarrow> word | Some w \<Rightarrow> w),
          imc_params = \<lparr>mp_lsa = (case ls of None \<Rightarrow> 0 | Some r \<Rightarrow> ucast (GuestAddr_raw (br_start r))),
                        mp_eah = ucast (drop_bit 32 ea),
                        mp_eal = ucast ea,
                        mp_size = ucast (DmaCompletion_length c),
                        mp_tag = (case dr_tag_id (dc_request c) of None \<Rightarrow> 0 | Some t \<Rightarrow> ucast (MfcTagId_raw t))\<rparr>,
          imc_error = error\<rparr>)"

record RaisedMfcCommand =
  rm_issuer :: UnitId
  rm_command :: InvalidMfcCommand

record DueCommands =
  due_completions :: "(DmaCompletion \<times> bytes option) list"
  due_raised :: "RaisedMfcCommand list"

section \<open>The queue\<close>

type_synonym dma_key = "GuestTicks \<times> u64"

record DmaQueue =
  dq_entries :: "(dma_key, QueueEntry) LaneMap"
  dq_invalid :: "(dma_key, InvalidEntry) LaneMap"
  dq_next_seq :: u64

definition DmaQueue_new :: DmaQueue where
  "DmaQueue_new = \<lparr>dq_entries = LaneMap_new source_DMA_QUEUE snd,
                   dq_invalid = LaneMap_new source_MFC_INVALID_COMMAND snd, dq_next_seq = 0\<rparr>"

definition DmaQueue_len :: "DmaQueue \<Rightarrow> usize" where
  "DmaQueue_len q = LaneMap_len (dq_entries q) + LaneMap_len (dq_invalid q)"

definition DmaQueue_is_empty :: "DmaQueue \<Rightarrow> bool" where
  "DmaQueue_is_empty q \<longleftrightarrow> LaneMap_is_empty (dq_entries q) \<and> LaneMap_is_empty (dq_invalid q)"

definition DmaQueue_enqueue_invalid ::
    "GuestTicks \<Rightarrow> UnitId \<Rightarrow> InvalidMfcCommand \<Rightarrow> DmaQueue \<Rightarrow> u64 \<times> DmaQueue" where
  "DmaQueue_enqueue_invalid time issuer command q =
     (let seq = dq_next_seq q;
          q = q\<lparr>dq_next_seq := dq_next_seq q + 1\<rparr>
      in (seq, q\<lparr>dq_invalid := snd (LaneMap_insert InvalidEntry_lanes (time, seq)
            \<lparr>ie_issuer = issuer, ie_command = command, ie_time = time, ie_raised = False,
             ie_holds_slot = True, ie_stall_notify = False\<rparr> (dq_invalid q))\<rparr>))"

definition DmaQueue_suspended :: "DmaQueue \<Rightarrow> UnitId \<Rightarrow> bool" where
  "DmaQueue_suspended q issuer \<longleftrightarrow>
     list_ex (\<lambda>(_, entry). ie_raised entry \<and> ie_issuer entry = issuer) (lm_entries (dq_invalid q))"

definition DmaQueue_next_event_time :: "DmaQueue \<Rightarrow> GuestTicks option" where
  "DmaQueue_next_event_time q =
     (let transfer = map_option (fst \<circ> fst)
            (find (\<lambda>(_, e). \<not> DmaQueue_suspended q (qe_issuer e)) (lm_entries (dq_entries q)));
          invalid = map_option (fst \<circ> fst)
            (find (\<lambda>(_, e). \<not> ie_raised e \<and> \<not> DmaQueue_suspended q (ie_issuer e)) (lm_entries (dq_invalid q)))
      in case (transfer, invalid) of
           (Some a, Some b) \<Rightarrow> Some (min a b)
         | (Some a, None) \<Rightarrow> Some a
         | (None, b) \<Rightarrow> b)"

definition DmaQueue_enqueue :: "DmaCompletion \<Rightarrow> bytes option \<Rightarrow> DmaQueue \<Rightarrow> u64 \<times> DmaQueue" where
  "DmaQueue_enqueue completion payload q =
     (let seq = dq_next_seq q;
          q = q\<lparr>dq_next_seq := dq_next_seq q + 1\<rparr>
      in (seq, q\<lparr>dq_entries := snd (LaneMap_insert QueueEntry_lanes (dc_completion_time completion, seq)
            \<lparr>qe_completion = completion, qe_payload = payload\<rparr> (dq_entries q))\<rparr>))"

text \<open>The latest of a list of times, zero when there is none.\<close>

definition latest_time :: "GuestTicks list \<Rightarrow> GuestTicks" where
  "latest_time ts = fold max ts GuestTicks_ZERO"

definition DmaQueue_ordering_floor :: "DmaRequest \<Rightarrow> DmaQueue \<Rightarrow> GuestTicks" where
  "DmaQueue_ordering_floor request q =
     (let issuer = dr_issuer request;
          tag = dr_tag_id request;
          mine = filter (\<lambda>(_, e). qe_issuer e = issuer) (lm_entries (dq_entries q));
          latest = (\<lambda>upto same_tag.
            latest_time (map (fst \<circ> fst)
              (filter (\<lambda>((_, seq), e). (case upto of None \<Rightarrow> True | Some limit \<Rightarrow> seq < limit)
                   \<and> (\<not> same_tag \<or> dr_tag_id (qe_request e) = tag)) mine)));
          own = (case dr_ordering request of
                   Ordering_None \<Rightarrow> GuestTicks_ZERO
                 | Fence \<Rightarrow> latest None True
                 | TagBarrier \<Rightarrow> latest None True
                 | QueueBarrier \<Rightarrow> latest None False)
      in fold max
           (List.map_filter
             (\<lambda>((_, seq), e).
                if dr_ordering (qe_request e) = TagBarrier \<and> dr_tag_id (qe_request e) = tag
                  then Some (latest (Some seq) True)
                else if dr_ordering (qe_request e) = QueueBarrier then Some (latest (Some (seq + 1)) False)
                else None)
             mine)
           own)"

definition DmaQueue_issuer_latest_completion :: "UnitId \<Rightarrow> DmaQueue \<Rightarrow> GuestTicks" where
  "DmaQueue_issuer_latest_completion issuer q =
     latest_time (map (fst \<circ> fst) (filter (\<lambda>(_, e). qe_issuer e = issuer) (lm_entries (dq_entries q))))"

definition DmaQueue_issuer_view :: "UnitId \<Rightarrow> DmaQueue \<Rightarrow> u32 \<times> u32" where
  "DmaQueue_issuer_view issuer q =
     (let transfers = map (\<lambda>(_, e). (if dr_holds_slot (qe_request e) then 1 else 0,
                                     tag_status_bit (dr_tag_id (qe_request e))))
            (filter (\<lambda>(_, e). qe_issuer e = issuer) (lm_entries (dq_entries q)));
          invalid = map (\<lambda>(_, e). (if ie_holds_slot e then 1 else 0, InvalidEntry_tag_bit e))
            (filter (\<lambda>(_, e). ie_issuer e = issuer) (lm_entries (dq_invalid q)))
      in foldl (\<lambda>(count, tags) (slot, tag). (count + slot, tags OR tag)) (0, 0) (transfers @ invalid))"

definition DmaQueue_issuer_barriers :: "UnitId \<Rightarrow> DmaQueue \<Rightarrow> u32 \<times> bool" where
  "DmaQueue_issuer_barriers issuer q =
     foldl (\<lambda>(tags, queue) r.
              case dr_ordering r of
                TagBarrier \<Rightarrow> (tags OR tag_status_bit (dr_tag_id r), queue)
              | QueueBarrier \<Rightarrow> (tags, True)
              | Ordering_None \<Rightarrow> (tags, queue)
              | Fence \<Rightarrow> (tags, queue))
       (0, False)
       (filter (\<lambda>r. dr_issuer r = issuer) (map (\<lambda>(_, e). qe_request e) (lm_entries (dq_entries q))))"

definition DmaQueue_stall_notify_tags :: "UnitId \<Rightarrow> DmaQueue \<Rightarrow> u32" where
  "DmaQueue_stall_notify_tags issuer q =
     (let queued = foldl (\<lambda>tags r. tags OR tag_status_bit (dr_tag_id r)) 0
            (filter (\<lambda>r. dr_issuer r = issuer \<and> dr_stall_notify r)
              (map (\<lambda>(_, e). qe_request e) (lm_entries (dq_entries q))));
          refused = foldl (\<lambda>tags (_, e). tags OR InvalidEntry_tag_bit e) 0
            (filter (\<lambda>(_, e). ie_issuer e = issuer \<and> ie_stall_notify e) (lm_entries (dq_invalid q)))
      in queued OR refused)"

definition DmaQueue_peek :: "DmaQueue \<Rightarrow> DmaCompletion option" where
  "DmaQueue_peek q = map_option (qe_completion \<circ> snd) (LaneMap_first (dq_entries q))"

definition DmaQueue_pending :: "DmaQueue \<Rightarrow> (DmaCompletion \<times> bool) list" where
  "DmaQueue_pending q = map (\<lambda>(_, e). (qe_completion e, qe_payload e \<noteq> None)) (lm_entries (dq_entries q))"

definition DmaQueue_pending_sequenced :: "DmaQueue \<Rightarrow> (u64 \<times> DmaCompletion) list" where
  "DmaQueue_pending_sequenced q = map (\<lambda>((_, seq), e). (seq, qe_completion e)) (lm_entries (dq_entries q))"

definition DmaQueue_pop_next :: "DmaQueue \<Rightarrow> (DmaCompletion \<times> bytes option) option \<times> DmaQueue" where
  "DmaQueue_pop_next q =
     (case LaneMap_pop_first QueueEntry_lanes (dq_entries q) of
        (r, es) \<Rightarrow> (map_option (\<lambda>(_, e). (qe_completion e, qe_payload e)) r, q\<lparr>dq_entries := es\<rparr>))"

definition DmaQueue_sync_partial :: "DmaQueue \<Rightarrow> u128" where
  "DmaQueue_sync_partial q = lm_partial (dq_entries q) + lm_partial (dq_invalid q)"

definition DmaQueue_sync_partial_from_scratch :: "DmaQueue \<Rightarrow> u128" where
  "DmaQueue_sync_partial_from_scratch q =
     LaneMap_partial_from_scratch QueueEntry_lanes (dq_entries q) +
     LaneMap_partial_from_scratch InvalidEntry_lanes (dq_invalid q)"

section \<open>Processing\<close>

type_synonym 's translate = "'s \<Rightarrow> DmaCompletion \<Rightarrow> bool \<Rightarrow> MfcCommandError option \<times> 's"

definition DmaQueue_complete ::
    "'s translate \<Rightarrow> dma_key \<Rightarrow> 's \<times> DueCommands \<times> DmaQueue \<Rightarrow> 's \<times> DueCommands \<times> DmaQueue" where
  "DmaQueue_complete translate key = (\<lambda>(s, due, q).
     case LaneMap_remove QueueEntry_lanes key (dq_entries q) of
       (None, _) \<Rightarrow> (s, due, q)
     | (Some e, es) \<Rightarrow>
         (let q = q\<lparr>dq_entries := es\<rparr>; (verdict, s) = translate s (qe_completion e) (qe_payload e \<noteq> None)
          in case verdict of
               None \<Rightarrow>
                 (s, due\<lparr>due_completions := due_completions due @ [(qe_completion e, qe_payload e)]\<rparr>, q)
             | Some error \<Rightarrow>
                 (let command = refused_transfer (qe_completion e) (qe_payload e \<noteq> None) error;
                      issuer = qe_issuer e; request = qe_request e
                  in (s, due\<lparr>due_raised := due_raised due @ [\<lparr>rm_issuer = issuer, rm_command = command\<rparr>]\<rparr>,
                      q\<lparr>dq_invalid := snd (LaneMap_insert InvalidEntry_lanes key
                          \<lparr>ie_issuer = issuer, ie_command = command, ie_time = fst key, ie_raised = True,
                           ie_holds_slot = dr_holds_slot request, ie_stall_notify = dr_stall_notify request\<rparr>
                          (dq_invalid q))\<rparr>))))"

definition DmaQueue_raise :: "dma_key \<Rightarrow> DueCommands \<times> DmaQueue \<Rightarrow> DueCommands \<times> DmaQueue" where
  "DmaQueue_raise key = (\<lambda>(due, q).
     case LaneMap_get (dq_invalid q) key of
       None \<Rightarrow> (due, q)
     | Some entry \<Rightarrow>
         (due\<lparr>due_raised := due_raised due @ [\<lparr>rm_issuer = ie_issuer entry, rm_command = ie_command entry\<rparr>]\<rparr>,
          q\<lparr>dq_invalid := (case LaneMap_modify InvalidEntry_lanes key (\<lambda>e. e\<lparr>ie_raised := True\<rparr>) (dq_invalid q) of
                            None \<Rightarrow> dq_invalid q | Some m \<Rightarrow> m)\<rparr>))"

definition in_scope :: "UnitId option \<Rightarrow> UnitId \<Rightarrow> bool" where
  "in_scope only issuer \<longleftrightarrow> (case only of None \<Rightarrow> True | Some u \<Rightarrow> u = issuer)"

definition due_transfer :: "GuestTicks \<Rightarrow> UnitId option \<Rightarrow> DmaQueue \<Rightarrow> dma_key option" where
  "due_transfer now only q =
     (case find (\<lambda>(_, e). in_scope only (qe_issuer e) \<and> \<not> DmaQueue_suspended q (qe_issuer e))
             (lm_entries (dq_entries q)) of
        None \<Rightarrow> None
      | Some (key, _) \<Rightarrow> (if fst key \<le> now then Some key else None))"

definition due_invalid :: "GuestTicks \<Rightarrow> UnitId option \<Rightarrow> DmaQueue \<Rightarrow> dma_key option" where
  "due_invalid now only q =
     (case find (\<lambda>(_, e). in_scope only (ie_issuer e) \<and> \<not> ie_raised e \<and> \<not> DmaQueue_suspended q (ie_issuer e))
             (lm_entries (dq_invalid q)) of
        None \<Rightarrow> None
      | Some (key, _) \<Rightarrow> (if fst key \<le> now then Some key else None))"

text \<open>The body of the loop: \<^const>\<open>None\<close> when it returns.\<close>

definition process_body ::
    "GuestTicks \<Rightarrow> UnitId option \<Rightarrow> 's translate \<Rightarrow> 's \<times> DueCommands \<times> DmaQueue \<Rightarrow>
     ('s \<times> DueCommands \<times> DmaQueue) option" where
  "process_body now only translate st =
     (case st of (s, due, q) \<Rightarrow>
       (case (due_transfer now only q, due_invalid now only q) of
          (None, None) \<Rightarrow> None
        | (Some t, None) \<Rightarrow> Some (DmaQueue_complete translate t (s, due, q))
        | (None, Some i) \<Rightarrow> Some (s, DmaQueue_raise i (due, q))
        | (Some t, Some i) \<Rightarrow>
            (if t < i then Some (DmaQueue_complete translate t (s, due, q))
             else Some (s, DmaQueue_raise i (due, q)))))"

partial_function (option) process_loop ::
    "GuestTicks \<Rightarrow> UnitId option \<Rightarrow> 's translate \<Rightarrow> 's \<times> DueCommands \<times> DmaQueue \<Rightarrow>
     ('s \<times> DueCommands \<times> DmaQueue) option" where
  "process_loop now only translate st =
     (case process_body now only translate st of
        None \<Rightarrow> Some st
      | Some st' \<Rightarrow> process_loop now only translate st')"

definition DmaQueue_process_translating ::
    "GuestTicks \<Rightarrow> UnitId option \<Rightarrow> 's translate \<Rightarrow> 's \<Rightarrow> DmaQueue \<Rightarrow> ('s \<times> DueCommands \<times> DmaQueue) option" where
  "DmaQueue_process_translating now only translate s q =
     process_loop now only translate (s, \<lparr>due_completions = [], due_raised = []\<rparr>, q)"

definition DmaQueue_process_due_translating ::
    "GuestTicks \<Rightarrow> 's translate \<Rightarrow> 's \<Rightarrow> DmaQueue \<Rightarrow> ('s \<times> DueCommands \<times> DmaQueue) option" where
  "DmaQueue_process_due_translating now translate s q = DmaQueue_process_translating now None translate s q"

definition DmaQueue_process_issuer_translating ::
    "UnitId \<Rightarrow> 's translate \<Rightarrow> 's \<Rightarrow> DmaQueue \<Rightarrow> ('s \<times> DueCommands \<times> DmaQueue) option" where
  "DmaQueue_process_issuer_translating issuer translate s q =
     DmaQueue_process_translating (GuestTicks u64_MAX) (Some issuer) translate s q"

definition DmaQueue_process_due :: "GuestTicks \<Rightarrow> DmaQueue \<Rightarrow> (DueCommands \<times> DmaQueue) option" where
  "DmaQueue_process_due now q =
     map_option snd (DmaQueue_process_due_translating now (\<lambda>s _ _. (None, s)) () q)"

definition DmaQueue_pop_due ::
    "GuestTicks \<Rightarrow> DmaQueue \<Rightarrow> ((DmaCompletion \<times> bytes option) list \<times> DmaQueue) option" where
  "DmaQueue_pop_due now q = map_option (\<lambda>(due, q). (due_completions due, q)) (DmaQueue_process_due now q)"

end
