(* ===== verification/Dma_Processing.thy ===== *)
theory Dma_Processing
  imports Dma_Queue
begin

text \<open>
  Correctness of the DMA queue: its invariant, the processing loop as a step relation on
  the two ordered maps, and the fence and barrier floor.
\<close>

section \<open>The invariant\<close>

abbreviation dq_E :: "DmaQueue \<Rightarrow> dma_key \<rightharpoonup> QueueEntry" where
  "dq_E q \<equiv> map_of (lm_entries (dq_entries q))"

abbreviation dq_I :: "DmaQueue \<Rightarrow> dma_key \<rightharpoonup> InvalidEntry" where
  "dq_I q \<equiv> map_of (lm_entries (dq_invalid q))"

definition dq_inv :: "DmaQueue \<Rightarrow> bool" where
  "dq_inv q \<longleftrightarrow>
     lm_inv QueueEntry_lanes (dq_entries q) \<and> lm_inv InvalidEntry_lanes (dq_invalid q) \<and>
     dom (dq_E q) \<inter> dom (dq_I q) = {} \<and> inj_on snd (dom (dq_E q) \<union> dom (dq_I q)) \<and>
     (\<forall>k \<in> dom (dq_E q) \<union> dom (dq_I q). snd k < dq_next_seq q) \<and>
     (\<forall>k e. dq_E q k = Some e \<longrightarrow> fst k = dc_completion_time (qe_completion e)) \<and>
     (\<forall>k e. dq_I q k = Some e \<longrightarrow> fst k = ie_time e)"

lemma dq_inv_wf: "dq_inv q \<Longrightarrow> btree_wf (lm_entries (dq_entries q))" "dq_inv q \<Longrightarrow> btree_wf (lm_entries (dq_invalid q))"
  by (simp_all add: dq_inv_def lm_inv_def)

lemma dq_inv_new [inv_intros]: "dq_inv DmaQueue_new"
  by (simp add: dq_inv_def DmaQueue_new_def lm_inv_new) (simp add: LaneMap_new_def LaneMap_with_object_def)

lemma dq_suspended_iff:
  "dq_inv q \<Longrightarrow> DmaQueue_suspended q u \<longleftrightarrow> (\<exists>k i. dq_I q k = Some i \<and> ie_raised i \<and> ie_issuer i = u)"
  by (force simp: DmaQueue_suspended_def list_ex_iff btree_mem_iff [OF dq_inv_wf(2)])

lemma LaneMap_insert_lookup:
  "lm_inv lv m \<Longrightarrow> map_of (lm_entries (snd (LaneMap_insert lv k v m))) = (map_of (lm_entries m))(k \<mapsto> v)"
  by (simp add: LaneMap_insert_eq btree_get_insert lm_inv_def)

lemma inj_on_insert_fresh:
  assumes "inj_on snd A" and "\<And>a. a \<in> A \<Longrightarrow> snd a < (n :: u64)"
  shows "inj_on snd (insert (t, n) A)"
  using assms by (force simp: inj_on_insert)

lemma dq_key_less: "dq_inv q \<Longrightarrow> k \<in> dom (dq_E q) \<union> dom (dq_I q) \<Longrightarrow> snd k < dq_next_seq q"
  unfolding dq_inv_def by blast

lemma DmaQueue_enqueue_effect:
  assumes "dq_inv q" and "dq_next_seq q \<noteq> u64_MAX"
  shows "dq_inv (snd (DmaQueue_enqueue c p q))"
    and "fst (DmaQueue_enqueue c p q) = dq_next_seq q"
    and "dq_E (snd (DmaQueue_enqueue c p q)) =
      (dq_E q)((dc_completion_time c, dq_next_seq q) \<mapsto> \<lparr>qe_completion = c, qe_payload = p\<rparr>)"
    and "dq_invalid (snd (DmaQueue_enqueue c p q)) = dq_invalid q"
proof -
  let ?q = "snd (DmaQueue_enqueue c p q)" and ?k = "(dc_completion_time c, dq_next_seq q)"
  have l: "lm_inv QueueEntry_lanes (dq_entries q)" using assms(1) by (simp add: dq_inv_def)
  show e: "dq_E ?q = (dq_E q)(?k \<mapsto> \<lparr>qe_completion = c, qe_payload = p\<rparr>)"
    using l by (simp add: DmaQueue_enqueue_def Let_def LaneMap_insert_lookup)
  show f: "fst (DmaQueue_enqueue c p q) = dq_next_seq q" "dq_invalid ?q = dq_invalid q"
    by (simp_all add: DmaQueue_enqueue_def Let_def)
  have n: "dq_next_seq ?q = dq_next_seq q + 1" by (simp add: DmaQueue_enqueue_def Let_def)
  have less: "snd k < dq_next_seq q" if "k \<in> dom (dq_E q) \<union> dom (dq_I q)" for k
    using dq_key_less [OF assms(1) that] .
  have lt: "\<forall>k \<in> insert ?k (dom (dq_E q) \<union> dom (dq_I q)). snd k < dq_next_seq q + 1"
    using less_trans [OF less fresh_seq [OF assms(2)]] fresh_seq [OF assms(2)] by simp
  have "lm_inv QueueEntry_lanes (dq_entries ?q)"
    using l by (simp add: DmaQueue_enqueue_def Let_def lm_inv_insert)
  moreover have "?k \<notin> dom (dq_I q)" using less [of ?k] by auto
  moreover have "inj_on snd (insert ?k (dom (dq_E q) \<union> dom (dq_I q)))"
    using assms(1) less by (intro inj_on_insert_fresh) (auto simp: dq_inv_def)
  ultimately show "dq_inv ?q"
    using assms(1) lt unfolding dq_inv_def e f n by (auto simp del: split_paired_All)
qed

lemma DmaQueue_enqueue_invalid_effect:
  assumes "dq_inv q" and "dq_next_seq q \<noteq> u64_MAX"
  shows "dq_inv (snd (DmaQueue_enqueue_invalid t u c q))"
    and "dq_entries (snd (DmaQueue_enqueue_invalid t u c q)) = dq_entries q"
proof -
  let ?q = "snd (DmaQueue_enqueue_invalid t u c q)" and ?k = "(t, dq_next_seq q)"
  have l: "lm_inv InvalidEntry_lanes (dq_invalid q)" using assms(1) by (simp add: dq_inv_def)
  have e: "dq_I ?q = (dq_I q)(?k \<mapsto> \<lparr>ie_issuer = u, ie_command = c, ie_time = t, ie_raised = False,
             ie_holds_slot = True, ie_stall_notify = False\<rparr>)"
    using l by (simp add: DmaQueue_enqueue_invalid_def Let_def LaneMap_insert_lookup)
  show f: "dq_entries ?q = dq_entries q"
    by (simp add: DmaQueue_enqueue_invalid_def Let_def)
  have n: "dq_next_seq ?q = dq_next_seq q + 1" by (simp add: DmaQueue_enqueue_invalid_def Let_def)
  have less: "snd k < dq_next_seq q" if "k \<in> dom (dq_E q) \<union> dom (dq_I q)" for k
    using dq_key_less [OF assms(1) that] .
  have lt: "\<forall>k \<in> insert ?k (dom (dq_E q) \<union> dom (dq_I q)). snd k < dq_next_seq q + 1"
    using less_trans [OF less fresh_seq [OF assms(2)]] fresh_seq [OF assms(2)] by simp
  have "lm_inv InvalidEntry_lanes (dq_invalid ?q)"
    using l by (simp add: DmaQueue_enqueue_invalid_def Let_def lm_inv_insert)
  moreover have "?k \<notin> dom (dq_E q)" using less [of ?k] by auto
  moreover have "inj_on snd (insert ?k (dom (dq_E q) \<union> dom (dq_I q)))"
    using assms(1) less by (intro inj_on_insert_fresh) (auto simp: dq_inv_def)
  ultimately show "dq_inv ?q"
    using assms(1) lt unfolding dq_inv_def e f n by (auto simp del: split_paired_All)
qed

section \<open>The architecture's view of processing\<close>

text \<open>
  A queue is seen as two finite maps. One step takes the earliest command that is due, in
  scope and not held behind a raised command of its issuer, and completes it, refuses it or
  raises it; processing runs until no such command is left.
\<close>

type_synonym 's dma_view = "'s \<times> DueCommands \<times> (dma_key \<rightharpoonup> QueueEntry) \<times> (dma_key \<rightharpoonup> InvalidEntry)"

definition view_suspended :: "(dma_key \<rightharpoonup> InvalidEntry) \<Rightarrow> UnitId \<Rightarrow> bool" where
  "view_suspended I u \<longleftrightarrow> (\<exists>i \<in> ran I. ie_raised i \<and> ie_issuer i = u)"

definition eligible ::
    "GuestTicks \<Rightarrow> UnitId option \<Rightarrow> (dma_key \<rightharpoonup> QueueEntry) \<Rightarrow> (dma_key \<rightharpoonup> InvalidEntry) \<Rightarrow> dma_key \<Rightarrow> bool" where
  "eligible now only E I k \<longleftrightarrow> fst k \<le> now \<and>
     ((\<exists>e. E k = Some e \<and> in_scope only (qe_issuer e) \<and> \<not> view_suspended I (qe_issuer e)) \<or>
      (\<exists>i. I k = Some i \<and> in_scope only (ie_issuer i) \<and> \<not> ie_raised i \<and> \<not> view_suspended I (ie_issuer i)))"

definition refusal :: "dma_key \<Rightarrow> QueueEntry \<Rightarrow> MfcCommandError \<Rightarrow> InvalidEntry" where
  "refusal k e error =
     \<lparr>ie_issuer = qe_issuer e, ie_command = refused_transfer (qe_completion e) (qe_payload e \<noteq> None) error,
      ie_time = fst k, ie_raised = True, ie_holds_slot = dr_holds_slot (qe_request e),
      ie_stall_notify = dr_stall_notify (qe_request e)\<rparr>"

inductive dma_step :: "'s translate \<Rightarrow> dma_key \<Rightarrow> 's dma_view \<Rightarrow> 's dma_view \<Rightarrow> bool" for tr where
  completed: "E k = Some e \<Longrightarrow> tr s (qe_completion e) (qe_payload e \<noteq> None) = (None, s') \<Longrightarrow>
    dma_step tr k (s, due, E, I)
      (s', due\<lparr>due_completions := due_completions due @ [(qe_completion e, qe_payload e)]\<rparr>, E(k := None), I)"
| refused: "E k = Some e \<Longrightarrow> tr s (qe_completion e) (qe_payload e \<noteq> None) = (Some error, s') \<Longrightarrow>
    dma_step tr k (s, due, E, I)
      (s', due\<lparr>due_raised := due_raised due @ [\<lparr>rm_issuer = qe_issuer e, rm_command = ie_command (refusal k e error)\<rparr>]\<rparr>,
       E(k := None), I(k \<mapsto> refusal k e error))"
| raised: "I k = Some i \<Longrightarrow> \<not> ie_raised i \<Longrightarrow>
    dma_step tr k (s, due, E, I)
      (s, due\<lparr>due_raised := due_raised due @ [\<lparr>rm_issuer = ie_issuer i, rm_command = ie_command i\<rparr>]\<rparr>,
       E, I(k \<mapsto> i\<lparr>ie_raised := True\<rparr>))"

inductive dma_run :: "GuestTicks \<Rightarrow> UnitId option \<Rightarrow> 's translate \<Rightarrow> 's dma_view \<Rightarrow> dma_key list \<Rightarrow> 's dma_view \<Rightarrow> bool"
  for now only tr where
  idle: "(\<And>k. \<not> eligible now only E I k) \<Longrightarrow> dma_run now only tr (s, due, E, I) [] (s, due, E, I)"
| take: "eligible now only E I k \<Longrightarrow> (\<And>k'. eligible now only E I k' \<Longrightarrow> k \<le> k') \<Longrightarrow>
    dma_step tr k (s, due, E, I) v \<Longrightarrow> dma_run now only tr v ks v' \<Longrightarrow>
    dma_run now only tr (s, due, E, I) (k # ks) v'"

inductive_cases dma_stepE: "dma_step tr k (s, due, E, I) v"

fun view :: "'s \<times> DueCommands \<times> DmaQueue \<Rightarrow> 's dma_view" where
  "view (s, due, q) = (s, due, dq_E q, dq_I q)"

section \<open>The loop implements the runs\<close>

definition first_due :: "('v \<Rightarrow> bool) \<Rightarrow> ('k \<Rightarrow> bool) \<Rightarrow> ('k::linorder, 'v) btree \<Rightarrow> 'k option" where
  "first_due P due m =
     (case find (\<lambda>(_, e). P e) m of None \<Rightarrow> None | Some (key, _) \<Rightarrow> (if due key then Some key else None))"

lemma find_sorted:
  assumes "btree_wf m" and "find (\<lambda>(_, e). P e) m = Some (k, e)"
  shows "map_of m k = Some e \<and> P e \<and> (\<forall>k' e'. map_of m k' = Some e' \<and> P e' \<longrightarrow> k \<le> k')"
  using assms
proof (induction m)
  case (Cons a m)
  obtain k0 e0 where a: "a = (k0, e0)" by (cases a)
  have above: "k0 < k'" if "map_of m k' = Some e'" for k' e'
    using Cons.prems(1) map_of_SomeD [OF that] by (force simp: a)
  show ?case
  proof (cases "P e0")
    case True
    then show ?thesis using Cons.prems above by (auto simp: a less_imp_le split: if_splits)
  next
    case False
    then have IH: "map_of m k = Some e \<and> P e \<and> (\<forall>k' e'. map_of m k' = Some e' \<and> P e' \<longrightarrow> k \<le> k')"
      using Cons by (simp add: a)
    then have "k0 < k" using above by blast
    then show ?thesis using IH False by (auto simp: a split: if_splits)
  qed
qed simp

lemma first_due_Some:
  assumes "btree_wf m" and "first_due P due m = Some k"
  shows "\<exists>e. map_of m k = Some e \<and> P e" and "due k"
    and "map_of m k' = Some e' \<Longrightarrow> P e' \<Longrightarrow> k \<le> k'"
proof -
  obtain e where "find (\<lambda>(_, e). P e) m = Some (k, e)" and d: "due k"
    using assms(2) by (auto simp: first_due_def split: option.splits if_splits)
  note f = find_sorted [OF assms(1) this(1)]
  show "\<exists>e. map_of m k = Some e \<and> P e" "due k" using f d by blast+
  show "map_of m k' = Some e' \<Longrightarrow> P e' \<Longrightarrow> k \<le> k'" using f by blast
qed

lemma first_due_None:
  assumes "btree_wf m" and "first_due P due m = None" and "map_of m k = Some e" and "P e"
    and "\<And>k k'. k \<le> k' \<Longrightarrow> due k' \<Longrightarrow> due k"
  shows "\<not> due k"
proof (cases "find (\<lambda>(_, e). P e) m")
  case None
  then have "(k, e) \<notin> set m" using assms(4) by (auto simp: find_None_iff)
  then show ?thesis using assms(3) by (blast dest: map_of_SomeD)
next
  case (Some ke)
  obtain k0 e0 where ke: "ke = (k0, e0)" by (cases ke)
  have "\<not> due k0" using assms(2) Some by (auto simp: first_due_def ke split: if_splits)
  moreover have "k0 \<le> k" using find_sorted [OF assms(1) Some [unfolded ke]] assms(3,4) by blast
  ultimately show ?thesis using assms(5) by blast
qed

lemma view_suspended_iff: "dq_inv q \<Longrightarrow> view_suspended (dq_I q) u \<longleftrightarrow> DmaQueue_suspended q u"
  unfolding view_suspended_def ran_def by (subst dq_suspended_iff) auto

lemma due_transfer_first:
  "due_transfer now only q =
     first_due (\<lambda>e. in_scope only (qe_issuer e) \<and> \<not> DmaQueue_suspended q (qe_issuer e)) (\<lambda>k. fst k \<le> now)
       (lm_entries (dq_entries q))"
  by (simp add: due_transfer_def first_due_def)

lemma due_invalid_first:
  "due_invalid now only q =
     first_due (\<lambda>e. in_scope only (ie_issuer e) \<and> \<not> ie_raised e \<and> \<not> DmaQueue_suspended q (ie_issuer e))
       (\<lambda>k. fst k \<le> now) (lm_entries (dq_invalid q))"
  by (simp add: due_invalid_def first_due_def)

lemma due_antimono: "k \<le> k' \<Longrightarrow> fst k' \<le> now \<Longrightarrow> fst k \<le> (now :: GuestTicks)"
  for k :: dma_key
  by (cases k; cases k') auto

lemma eligible_iff:
  assumes "dq_inv q"
  shows "eligible now only (dq_E q) (dq_I q) k \<longleftrightarrow> fst k \<le> now \<and>
     ((\<exists>e. dq_E q k = Some e \<and> in_scope only (qe_issuer e) \<and> \<not> DmaQueue_suspended q (qe_issuer e)) \<or>
      (\<exists>i. dq_I q k = Some i \<and> in_scope only (ie_issuer i) \<and> \<not> ie_raised i \<and> \<not> DmaQueue_suspended q (ie_issuer i)))"
  by (simp add: eligible_def view_suspended_iff [OF assms])

lemma due_None_idle:
  assumes "dq_inv q" and "due_transfer now only q = None" and "due_invalid now only q = None"
  shows "\<not> eligible now only (dq_E q) (dq_I q) k"
  using first_due_None [OF dq_inv_wf(1) [OF assms(1)] assms(2) [unfolded due_transfer_first], of k]
    first_due_None [OF dq_inv_wf(2) [OF assms(1)] assms(3) [unfolded due_invalid_first], of k] due_antimono
  unfolding eligible_iff [OF assms(1)] by blast

lemma due_transfer_least:
  assumes "dq_inv q" and "due_transfer now only q = Some t"
    and "\<And>i. due_invalid now only q = Some i \<Longrightarrow> t < i"
  shows "eligible now only (dq_E q) (dq_I q) t \<and> t \<in> dom (dq_E q) \<and>
    (\<forall>k. eligible now only (dq_E q) (dq_I q) k \<longrightarrow> t \<le> k)"
proof -
  note T = first_due_Some [OF dq_inv_wf(1) [OF assms(1)] assms(2) [unfolded due_transfer_first]]
  have "t \<le> k" if k: "eligible now only (dq_E q) (dq_I q) k" "dq_E q k = None" for k
  proof (cases "due_invalid now only q")
    case None
    then show ?thesis
      using first_due_None [OF dq_inv_wf(2) [OF assms(1)] None [unfolded due_invalid_first], of k] due_antimono k
      unfolding eligible_iff [OF assms(1)] by fastforce
  next
    case (Some i)
    from first_due_Some [OF dq_inv_wf(2) [OF assms(1)] Some [unfolded due_invalid_first]] k
    have "i \<le> k" unfolding eligible_iff [OF assms(1)] by fastforce
    with assms(3) [OF Some] show ?thesis by simp
  qed
  moreover have "t \<le> k" if "eligible now only (dq_E q) (dq_I q) k" "dq_E q k = Some e" for k e
  proof -
    have "dq_I q k = None" using assms(1) that(2) unfolding dq_inv_def by blast
    then show ?thesis using that T(3) [of k] unfolding eligible_iff [OF assms(1)] by auto
  qed
  ultimately have "\<forall>k. eligible now only (dq_E q) (dq_I q) k \<longrightarrow> t \<le> k" using option.exhaust by metis
  moreover have "eligible now only (dq_E q) (dq_I q) t" using T(1,2) unfolding eligible_iff [OF assms(1)] by blast
  ultimately show ?thesis using T(1) by blast
qed

lemma due_invalid_least:
  assumes "dq_inv q" and "due_invalid now only q = Some i"
    and "\<And>t. due_transfer now only q = Some t \<Longrightarrow> i \<le> t"
  shows "eligible now only (dq_E q) (dq_I q) i \<and> (\<exists>e. dq_I q i = Some e \<and> \<not> ie_raised e) \<and>
    (\<forall>k. eligible now only (dq_E q) (dq_I q) k \<longrightarrow> i \<le> k)"
proof -
  note I = first_due_Some [OF dq_inv_wf(2) [OF assms(1)] assms(2) [unfolded due_invalid_first]]
  have "i \<le> k" if k: "eligible now only (dq_E q) (dq_I q) k" "dq_I q k = None" for k
  proof (cases "due_transfer now only q")
    case None
    then show ?thesis
      using first_due_None [OF dq_inv_wf(1) [OF assms(1)] None [unfolded due_transfer_first], of k] due_antimono k
      unfolding eligible_iff [OF assms(1)] by fastforce
  next
    case (Some t)
    from first_due_Some [OF dq_inv_wf(1) [OF assms(1)] Some [unfolded due_transfer_first]] k
    have "t \<le> k" unfolding eligible_iff [OF assms(1)] by fastforce
    with assms(3) [OF Some] show ?thesis by simp
  qed
  moreover have "i \<le> k" if "eligible now only (dq_E q) (dq_I q) k" "dq_I q k = Some e" for k e
  proof -
    have "dq_E q k = None" using assms(1) that(2) unfolding dq_inv_def by blast
    then show ?thesis using that I(3) [of k] unfolding eligible_iff [OF assms(1)] by auto
  qed
  ultimately have "\<forall>k. eligible now only (dq_E q) (dq_I q) k \<longrightarrow> i \<le> k" using option.exhaust by metis
  moreover have "eligible now only (dq_E q) (dq_I q) i" using I(1,2) unfolding eligible_iff [OF assms(1)] by blast
  ultimately show ?thesis using I(1) by blast
qed

definition dq_work :: "DmaQueue \<Rightarrow> nat" where
  "dq_work q = card (dom (dq_E q)) + card {k. \<exists>i. dq_I q k = Some i \<and> \<not> ie_raised i}"

lemma finite_unraised: "finite {k. \<exists>i. dq_I q k = Some i \<and> \<not> ie_raised i}"
  by (rule finite_subset [OF _ finite_dom_map_of [of "lm_entries (dq_invalid q)"]]) auto

lemma LaneMap_remove_lookup:
  "map_of (lm_entries (snd (LaneMap_remove lv k m))) = (map_of (lm_entries m))(k := None)"
  by (auto simp: LaneMap_remove_def btree_get_remove fun_upd_idem_iff split: option.splits)

lemma DmaQueue_complete_step:
  assumes "dq_inv q" and "k \<in> dom (dq_E q)" and st: "DmaQueue_complete tr k (s, due, q) = (s', due', q')"
  shows "dma_step tr k (view (s, due, q)) (view (s', due', q')) \<and> dq_inv q' \<and> dq_work q' < dq_work q"
proof -
  obtain e where e: "dq_E q k = Some e" using assms(2) by auto
  have kI: "dq_I q k = None" using assms(1,2) unfolding dq_inv_def by blast
  have l: "lm_inv QueueEntry_lanes (dq_entries q)" "lm_inv InvalidEntry_lanes (dq_invalid q)"
    using assms(1) by (simp_all add: dq_inv_def)
  obtain es where rm: "LaneMap_remove QueueEntry_lanes k (dq_entries q) = (Some e, es)"
    by (simp add: LaneMap_remove_def e)
  have es: "map_of (lm_entries es) = (dq_E q)(k := None)" "lm_inv QueueEntry_lanes es"
    using LaneMap_remove_lookup [of QueueEntry_lanes k "dq_entries q"] lm_inv_remove [OF l(1), of k] by (simp_all add: rm)
  have card: "card (dom (dq_E q) - {k}) < card (dom (dq_E q))"
    using assms(2) by (intro card_Diff1_less) (simp_all add: finite_dom_map_of)
  obtain v s1 where v: "tr s (qe_completion e) (qe_payload e \<noteq> None) = (v, s1)" by (meson surj_pair)
  show ?thesis
  proof (cases v)
    case None
    have q': "q' = q\<lparr>dq_entries := es\<rparr>" "s' = s1"
        "due' = due\<lparr>due_completions := due_completions due @ [(qe_completion e, qe_payload e)]\<rparr>"
      using st by (auto simp: DmaQueue_complete_def rm v None Let_def simp del: not_None_eq)
    have E: "dq_E q' = (dq_E q)(k := None)" "dq_I q' = dq_I q"
      by (simp_all add: q' es)
    have "dq_inv q'"
      using assms(1) es(2) inj_on_subset [of snd "dom (dq_E q) \<union> dom (dq_I q)" "dom (dq_E q) - {k} \<union> dom (dq_I q)"]
      unfolding dq_inv_def E by (auto simp: q' simp del: split_paired_All)
    then show ?thesis
      using completed [where E = "dq_E q" and I = "dq_I q" and due = due and tr = tr, OF e v [unfolded None]] card E
      by (simp add: q' dq_work_def del: not_None_eq)
  next
    case (Some err)
    have q': "q' = q\<lparr>dq_entries := es, dq_invalid := snd (LaneMap_insert InvalidEntry_lanes k (refusal k e err) (dq_invalid q))\<rparr>"
        "s' = s1" "due' = due\<lparr>due_raised := due_raised due @ [\<lparr>rm_issuer = qe_issuer e, rm_command = ie_command (refusal k e err)\<rparr>]\<rparr>"
      using st by (auto simp: DmaQueue_complete_def rm v Some Let_def refusal_def simp del: not_None_eq)
    have E: "dq_E q' = (dq_E q)(k := None)" "dq_I q' = (dq_I q)(k \<mapsto> refusal k e err)"
      using l by (simp_all add: q' es LaneMap_insert_lookup)
    have dom: "dom ((dq_E q)(k := None)) \<union> dom ((dq_I q)(k \<mapsto> refusal k e err)) = dom (dq_E q) \<union> dom (dq_I q)"
      using assms(2) by auto
    have "dq_inv q'"
      using assms(1) es(2) lm_inv_insert [OF l(2)] unfolding dq_inv_def E dom
      by (auto simp: q' refusal_def simp del: split_paired_All)
    moreover have "{j. \<exists>i. dq_I q' j = Some i \<and> \<not> ie_raised i} = {j. \<exists>i. dq_I q j = Some i \<and> \<not> ie_raised i}"
      using kI by (auto simp: E refusal_def split: if_splits)
    ultimately show ?thesis
      using refused [where E = "dq_E q" and I = "dq_I q" and due = due and tr = tr, OF e v [unfolded Some]] card E
      by (simp add: q' dq_work_def del: not_None_eq)
  qed
qed

lemma DmaQueue_raise_step:
  assumes "dq_inv q" and i: "dq_I q k = Some i" "\<not> ie_raised i" and st: "DmaQueue_raise k (due, q) = (due', q')"
  shows "dma_step tr k (view (s, due, q)) (view (s, due', q')) \<and> dq_inv q' \<and> dq_work q' < dq_work q"
proof -
  have l: "lm_inv InvalidEntry_lanes (dq_invalid q)" using assms(1) by (simp add: dq_inv_def)
  obtain m where m: "LaneMap_modify InvalidEntry_lanes k (\<lambda>e. e\<lparr>ie_raised := True\<rparr>) (dq_invalid q) = Some m"
    by (simp add: LaneMap_modify_eq i)
  have m': "lm_inv InvalidEntry_lanes m" "map_of (lm_entries m) = (dq_I q)(k \<mapsto> i\<lparr>ie_raised := True\<rparr>)"
    using lm_inv_modify [OF l m] m l by (auto simp: LaneMap_modify_eq i btree_get_insert lm_inv_def)
  have q': "q' = q\<lparr>dq_invalid := m\<rparr>"
      "due' = due\<lparr>due_raised := due_raised due @ [\<lparr>rm_issuer = ie_issuer i, rm_command = ie_command i\<rparr>]\<rparr>"
    using st by (auto simp: DmaQueue_raise_def LaneMap_get_def i m)
  have E: "dq_E q' = dq_E q" "dq_I q' = (dq_I q)(k \<mapsto> i\<lparr>ie_raised := True\<rparr>)" by (simp_all add: q' m')
  have dom: "dom ((dq_I q)(k \<mapsto> i\<lparr>ie_raised := True\<rparr>)) = dom (dq_I q)" using i by auto
  have "dq_inv q'"
    using assms(1) m'(1) i unfolding dq_inv_def E dom by (auto simp: q' simp del: split_paired_All)
  moreover have "{j. \<exists>x. dq_I q' j = Some x \<and> \<not> ie_raised x} = {j. \<exists>x. dq_I q j = Some x \<and> \<not> ie_raised x} - {k}"
    by (auto simp: E split: if_splits)
  then have "card {j. \<exists>x. dq_I q' j = Some x \<and> \<not> ie_raised x} < card {j. \<exists>x. dq_I q j = Some x \<and> \<not> ie_raised x}"
    using i by (simp only:) (intro card_Diff1_less finite_unraised, blast)
  ultimately show ?thesis
    using raised [where I = "dq_I q" and E = "dq_E q" and due = due and s = s and tr = tr, OF i]
    by (simp add: q' m' dq_work_def)
qed

lemma process_body_step:
  assumes "dq_inv q" and "process_body now only tr (s, due, q) = Some (s', due', q')"
  obtains k where "eligible now only (dq_E q) (dq_I q) k" "\<And>k'. eligible now only (dq_E q) (dq_I q) k' \<Longrightarrow> k \<le> k'"
    "dma_step tr k (view (s, due, q)) (view (s', due', q'))" "dq_inv q'" "dq_work q' < dq_work q"
proof -
  consider t where "due_transfer now only q = Some t" "\<And>i. due_invalid now only q = Some i \<Longrightarrow> t < i"
      "DmaQueue_complete tr t (s, due, q) = (s', due', q')"
    | i where "due_invalid now only q = Some i" "\<And>t. due_transfer now only q = Some t \<Longrightarrow> i \<le> t"
      "s' = s" "DmaQueue_raise i (due, q) = (due', q')"
    using assms(2) unfolding process_body_def by (fastforce split: option.splits if_splits)
  then show thesis
  proof cases
    case 1
    note T = due_transfer_least [OF assms(1) 1(1,2)]
    show ?thesis using T DmaQueue_complete_step [OF assms(1) _ 1(3)] by (intro that [of t]) blast+
  next
    case 2
    note I = due_invalid_least [OF assms(1) 2(1,2)]
    then obtain e where e: "dq_I q i = Some e" "\<not> ie_raised e" by blast
    show ?thesis
      using I DmaQueue_raise_step [OF assms(1) e 2(4), of tr s] by (intro that [of i]) (simp_all add: 2(3) del: split_paired_All)
  qed
qed

lemma process_loop_refines:
  assumes "dq_inv q"
  shows "\<exists>s' due' q' ks. process_loop now only tr (s, due, q) = Some (s', due', q') \<and> dq_inv q' \<and>
    dma_run now only tr (view (s, due, q)) ks (view (s', due', q'))"
  using assms
proof (induction "dq_work q" arbitrary: s due q rule: less_induct)
  case less
  show ?case
  proof (cases "process_body now only tr (s, due, q)")
    case None
    then have "due_transfer now only q = None" "due_invalid now only q = None"
      by (auto simp: process_body_def split: option.splits if_splits)
    from dma_run.idle [of now only "dq_E q" "dq_I q", OF due_None_idle [OF less(2) this]] less(2) None show ?thesis
      by (auto simp: process_loop.simps intro!: exI [of _ "[]"])
  next
    case (Some st)
    obtain s1 d1 q1 where st: "st = (s1, d1, q1)" by (cases st) auto
    obtain k where k: "eligible now only (dq_E q) (dq_I q) k"
      "\<And>k'. eligible now only (dq_E q) (dq_I q) k' \<Longrightarrow> k \<le> k'"
      "dma_step tr k (view (s, due, q)) (view (s1, d1, q1))" "dq_inv q1" "dq_work q1 < dq_work q"
      using process_body_step [OF less(2) Some [unfolded st]] by metis
    from less(1) [OF k(5,4)] obtain s' due' q' ks where
      r: "process_loop now only tr (s1, d1, q1) = Some (s', due', q')" "dq_inv q'"
         "dma_run now only tr (view (s1, d1, q1)) ks (view (s', due', q'))" by blast
    have "process_loop now only tr (s, due, q) = Some (s', due', q')"
      using r(1) by (simp add: process_loop.simps [of now only tr "(s, due, q)"] Some st)
    with r dma_run.take [OF k(1,2), of tr s due] k(3) show ?thesis by fastforce
  qed
qed

section \<open>What a run does\<close>

definition key_issuer :: "(dma_key \<rightharpoonup> QueueEntry) \<Rightarrow> (dma_key \<rightharpoonup> InvalidEntry) \<Rightarrow> dma_key \<Rightarrow> UnitId" where
  "key_issuer E I k = (case E k of Some e \<Rightarrow> qe_issuer e | None \<Rightarrow> ie_issuer (the (I k)))"

definition completed_at :: "(dma_key \<rightharpoonup> QueueEntry) \<Rightarrow> dma_key \<Rightarrow> DmaCompletion \<times> bytes option" where
  "completed_at E k = (qe_completion (the (E k)), qe_payload (the (E k)))"

definition raised_at :: "(dma_key \<rightharpoonup> InvalidEntry) \<Rightarrow> dma_key \<Rightarrow> RaisedMfcCommand" where
  "raised_at I k = \<lparr>rm_issuer = ie_issuer (the (I k)), rm_command = ie_command (the (I k))\<rparr>"

lemma refusal_simps [simp]: "ie_raised (refusal k e error)" "ie_issuer (refusal k e error) = qe_issuer e"
  by (simp_all add: refusal_def)

lemma view_suspendedI: "I j = Some i \<Longrightarrow> ie_raised i \<Longrightarrow> ie_issuer i = u \<Longrightarrow> view_suspended I u"
  unfolding view_suspended_def ran_def by blast

lemma view_suspendedE:
  assumes "view_suspended I u"
  obtains j i where "I j = Some i" "ie_raised i" "ie_issuer i = u"
  using assms unfolding view_suspended_def ran_def by blast

lemma suspended_mono:
  assumes "dma_step tr k (s, due, E, I) (s1, due1, E1, I1)" and "dom E \<inter> dom I = {}" and "view_suspended I u"
  shows "view_suspended I1 u"
proof -
  obtain j i where j: "I j = Some i" "ie_raised i" "ie_issuer i = u"
    using assms(3) by (rule view_suspendedE)
  have "I1 j = Some i"
    using assms(1)
  proof cases
    case (refused e error)
    then have "j \<noteq> k" using assms(2) j(1) by blast
    then show ?thesis using refused j by simp
  qed (use j in auto)
  then show ?thesis using j by (auto intro: view_suspendedI)
qed

lemma dma_step_disjoint:
  "dma_step tr k (s, due, E, I) (s1, due1, E1, I1) \<Longrightarrow> dom E \<inter> dom I = {} \<Longrightarrow> dom E1 \<inter> dom I1 = {}"
  by (erule dma_stepE) auto

lemma dma_step_suspends:
  assumes "dma_step tr k (s, due, E, I) (s1, due1, E1, I1)" and "dom E \<inter> dom I = {}" and "I1 k \<noteq> None"
  shows "view_suspended I1 (key_issuer E I k)"
  using assms(1)
proof cases
  case (completed e)
  then show ?thesis using assms(2,3) by blast
next
  case (refused e error)
  then show ?thesis by (intro view_suspendedI [of I1 k "refusal k e error"]) (simp_all add: key_issuer_def)
next
  case (raised i)
  then have "E k = None" using assms(2) by blast
  with raised show ?thesis by (intro view_suspendedI [of I1 k "i\<lparr>ie_raised := True\<rparr>"]) (simp_all add: key_issuer_def)
qed

lemma eligible_issuer:
  assumes "dom E \<inter> dom I = {}"
  shows "eligible now only E I k \<longleftrightarrow> fst k \<le> now \<and> in_scope only (key_issuer E I k) \<and>
    \<not> view_suspended I (key_issuer E I k) \<and> (k \<in> dom E \<or> (\<exists>i. I k = Some i \<and> \<not> ie_raised i))"
proof (cases "E k")
  case (Some e)
  then have "I k = None" using assms by blast
  with Some show ?thesis by (auto simp: eligible_def key_issuer_def)
qed (auto simp: eligible_def key_issuer_def)

lemma dma_step_issuer:
  assumes "dma_step tr k0 (s, due, E, I) (s1, due1, E1, I1)" and "dom E \<inter> dom I = {}"
    and "k \<in> dom E1 \<or> (\<exists>i. I1 k = Some i \<and> \<not> ie_raised i)"
  shows "key_issuer E1 I1 k = key_issuer E I k \<and> k \<noteq> k0 \<and> (k \<in> dom E \<or> (\<exists>i. I k = Some i \<and> \<not> ie_raised i))"
  using assms(1)
proof cases
  case (completed e)
  then have "I k0 = None" using assms(2) by blast
  with completed assms(3) show ?thesis by (auto simp: key_issuer_def)
next
  case (refused e error)
  then show ?thesis using assms(3) by (auto simp: key_issuer_def split: if_splits option.splits)
next
  case (raised i)
  then have "E k0 = None" using assms(2) by blast
  with raised assms(3) show ?thesis by (auto simp: key_issuer_def split: if_splits option.splits)
qed

lemma eligible_mono:
  assumes "dma_step tr k0 (s, due, E, I) (s1, due1, E1, I1)" and "dom E \<inter> dom I = {}"
    and "eligible now only E1 I1 k"
  shows "eligible now only E I k \<and> k \<noteq> k0 \<and> key_issuer E1 I1 k = key_issuer E I k \<and>
    \<not> view_suspended I1 (key_issuer E I k)"
proof -
  have e: "fst k \<le> now" "in_scope only (key_issuer E1 I1 k)" "\<not> view_suspended I1 (key_issuer E1 I1 k)"
      "k \<in> dom E1 \<or> (\<exists>i. I1 k = Some i \<and> \<not> ie_raised i)"
    using assms(3) eligible_issuer [OF dma_step_disjoint [OF assms(1,2)]] by blast+
  note d = dma_step_issuer [OF assms(1,2) e(4)]
  show ?thesis
    using e d suspended_mono [OF assms(1,2)] by (auto simp: eligible_issuer [OF assms(2)])
qed

text \<open>The effect of a run that takes the commands \<open>ks\<close>.\<close>

definition run_effect ::
    "(dma_key \<rightharpoonup> QueueEntry) \<Rightarrow> (dma_key \<rightharpoonup> InvalidEntry) \<Rightarrow> dma_key list \<Rightarrow>
     (dma_key \<rightharpoonup> QueueEntry) \<Rightarrow> (dma_key \<rightharpoonup> InvalidEntry) \<Rightarrow> bool" where
  "run_effect E I ks E' I' \<longleftrightarrow>
     sorted_wrt (<) ks \<and>
     (\<forall>k. E' k = (if k \<in> set ks then None else E k)) \<and>
     (\<forall>k. k \<notin> set ks \<longrightarrow> I' k = I k) \<and>
     (\<forall>k \<in> set ks. (\<forall>i. I k = Some i \<longrightarrow> I' k = Some (i\<lparr>ie_raised := True\<rparr>)) \<and>
        (\<forall>i. I' k = Some i \<longrightarrow> ie_raised i \<and> ie_issuer i = key_issuer E I k)) \<and>
     (\<forall>k \<in> set ks. \<forall>k' \<in> set ks. key_issuer E I k = key_issuer E I k' \<longrightarrow> I' k' \<noteq> None \<longrightarrow> k \<le> k')"

lemma dma_step_key:
  assumes "dma_step tr k (s, due, E, I) (s1, due1, E1, I1)" and "dom E \<inter> dom I = {}"
  shows "E1 = E(k := None)" and "j \<noteq> k \<Longrightarrow> I1 j = I j" and "\<exists>x. k \<in> dom E \<or> I k = Some x \<and> \<not> ie_raised x"
    and "I k = Some i \<Longrightarrow> I1 k = Some (i\<lparr>ie_raised := True\<rparr>)"
    and "I1 k = Some i \<Longrightarrow> ie_raised i \<and> ie_issuer i = key_issuer E I k"
    and "due_completions due1 = due_completions due @ (if I1 k = None then [completed_at E k] else [])"
    and "due_raised due1 = due_raised due @ (if I1 k = None then [] else [raised_at I1 k])"
proof -
  have "E k \<noteq> None \<Longrightarrow> I k = None" "I k \<noteq> None \<Longrightarrow> E k = None" using assms(2) by blast+
  with assms(1)
  show "E1 = E(k := None)" "j \<noteq> k \<Longrightarrow> I1 j = I j" "\<exists>x. k \<in> dom E \<or> I k = Some x \<and> \<not> ie_raised x"
    "I k = Some i \<Longrightarrow> I1 k = Some (i\<lparr>ie_raised := True\<rparr>)"
    "I1 k = Some i \<Longrightarrow> ie_raised i \<and> ie_issuer i = key_issuer E I k"
    "due_completions due1 = due_completions due @ (if I1 k = None then [completed_at E k] else [])"
    "due_raised due1 = due_raised due @ (if I1 k = None then [] else [raised_at I1 k])"
    by (elim dma_stepE; auto simp: key_issuer_def completed_at_def raised_at_def)+
qed

lemma run_effect_Cons:
  assumes st: "dma_step tr k (s, due, E, I) (s1, due1, E1, I1)" and dj: "dom E \<inter> dom I = {}"
    and least: "\<And>k'. eligible now only E I k' \<Longrightarrow> k \<le> k'"
    and run: "run_effect E1 I1 ks E' I'" and el: "\<forall>j \<in> set ks. eligible now only E1 I1 j"
  shows "run_effect E I (k # ks) E' I'"
proof -
  note key = dma_step_key [OF st dj]
  note mono = eligible_mono [OF st dj]
  have fresh: "k < j" if "j \<in> set ks" for j
    using mono [of now only j] el least [of j] that by (auto simp: le_less)
  then have kn: "k \<notin> set ks" by blast
  have I'k: "I' k = I1 k" using run kn unfolding run_effect_def by blast
  have iss: "key_issuer E1 I1 j = key_issuer E I j" if "j \<in> set ks" for j using mono el that by blast
  have Ij: "I1 j = I j" if "j \<in> set ks" for j using key(2) fresh [OF that] by simp
  have stop: "key_issuer E I j \<noteq> key_issuer E I k" if "j \<in> set ks" "I' k \<noteq> None" for j
    using mono [of now only j] el that dma_step_suspends [OF st dj] I'k by metis
  have R: "I1 j = Some i \<Longrightarrow> I' j = Some (i\<lparr>ie_raised := True\<rparr>)" "I' j = Some i \<Longrightarrow> ie_raised i \<and> ie_issuer i = key_issuer E1 I1 j"
    if "j \<in> set ks" for j i using run that unfolding run_effect_def by blast+
  have R5: "j \<le> j'" if "j \<in> set ks" "j' \<in> set ks" "key_issuer E1 I1 j = key_issuer E1 I1 j'" "I' j' \<noteq> None" for j j'
    using run that unfolding run_effect_def by blast
  show ?thesis
    unfolding run_effect_def
  proof (intro conjI allI ballI impI)
    show "sorted_wrt (<) (k # ks)" using run fresh by (simp add: run_effect_def)
    show "E' j = (if j \<in> set (k # ks) then None else E j)" for j
      using run by (simp add: run_effect_def key(1) del: split_paired_All)
    show "I' j = I j" if "j \<notin> set (k # ks)" for j
      using run that key(2) by (simp add: run_effect_def del: split_paired_All)
    show "I' j = Some (i\<lparr>ie_raised := True\<rparr>)" if "j \<in> set (k # ks)" "I j = Some i" for j i
      using that I'k key(4) Ij R(1) [of j i] by (cases "j = k") simp_all
    show "ie_raised i" "ie_issuer i = key_issuer E I j" if "j \<in> set (k # ks)" "I' j = Some i" for j i
      using that I'k key(5) iss R(2) [of j i] by (cases "j = k"; simp)+
    show "j \<le> j'" if "j \<in> set (k # ks)" "j' \<in> set (k # ks)" "key_issuer E I j = key_issuer E I j'" "I' j' \<noteq> None" for j j'
      using that fresh [THEN less_imp_le] stop iss R5 [of j j'] by (cases "j = k"; cases "j' = k") simp_all
  qed
qed

lemma dma_run_effect:
  assumes "dma_run now only tr v ks v'" and "v = (s, due, E, I)" and "v' = (s', due', E', I')" and "dom E \<inter> dom I = {}"
  shows "run_effect E I ks E' I' \<and> (\<forall>k \<in> set ks. eligible now only E I k) \<and> (\<forall>k. \<not> eligible now only E' I' k) \<and>
    due_completions due' = due_completions due @ map (completed_at E) (filter (\<lambda>k. I' k = None) ks) \<and>
    due_raised due' = due_raised due @ map (raised_at I') (filter (\<lambda>k. I' k \<noteq> None) ks)"
  using assms
proof (induction arbitrary: s due E I rule: dma_run.induct)
  case (idle E I s due)
  then show ?case by (auto simp: run_effect_def)
next
  case (take E0 I0 k s0 due0 v ks v')
  then have eqs: "E0 = E" "I0 = I" "s0 = s" "due0 = due" by auto
  obtain s1 due1 E1 I1 where v: "v = (s1, due1, E1, I1)" by (metis prod_cases4)
  have st: "dma_step tr k (s, due, E, I) (s1, due1, E1, I1)" using take.hyps(3) by (simp add: eqs v)
  note dj = take.prems(3)
  note key = dma_step_key [OF st dj]
  have IH: "run_effect E1 I1 ks E' I'" "\<forall>k \<in> set ks. eligible now only E1 I1 k" "\<forall>k. \<not> eligible now only E' I' k"
    "due_completions due' = due_completions due1 @ map (completed_at E1) (filter (\<lambda>k. I' k = None) ks)"
    "due_raised due' = due_raised due1 @ map (raised_at I') (filter (\<lambda>k. I' k \<noteq> None) ks)"
    using take.IH [OF v take.prems(2) dma_step_disjoint [OF st dj]] by blast+
  have run: "run_effect E I (k # ks) E' I'"
    using run_effect_Cons [OF st dj _ IH(1,2)] take.hyps(2) by (simp add: eqs)
  have el: "\<forall>j \<in> set (k # ks). eligible now only E I j"
    using eligible_mono [OF st dj] IH(2) take.hyps(1) by (auto simp: eqs)
  have kn: "k \<notin> set ks" using eligible_mono [OF st dj] IH(2) by blast
  then have "I' k = I1 k" using IH(1) unfolding run_effect_def by blast
  moreover have "map (completed_at E1) (filter (\<lambda>k. I' k = None) ks) = map (completed_at E) (filter (\<lambda>k. I' k = None) ks)"
    using kn by (auto simp: completed_at_def key(1))
  ultimately show ?case
    using run el IH(3-5) key(6,7) by (auto simp: raised_at_def)
qed

section \<open>Fences and barriers\<close>

text \<open>
  The queued commands the architecture makes \<open>r\<close> wait for: its tag group for a fence or a tag
  barrier, everything for a barrier command, the commands of its group before a queued tag
  barrier, and a queued barrier command with everything before it.
\<close>

definition must_follow :: "DmaRequest \<Rightarrow> DmaQueue \<Rightarrow> dma_key \<Rightarrow> bool" where
  "must_follow r q k \<longleftrightarrow> (\<exists>e. dq_E q k = Some e \<and> qe_issuer e = dr_issuer r \<and>
     (dr_ordering r \<in> {Fence, TagBarrier} \<and> dr_tag_id (qe_request e) = dr_tag_id r \<or>
      dr_ordering r = QueueBarrier \<or>
      (\<exists>kb b. dq_E q kb = Some b \<and> qe_issuer b = dr_issuer r \<and>
         (dr_ordering (qe_request b) = TagBarrier \<and> dr_tag_id (qe_request b) = dr_tag_id r \<and>
            dr_tag_id (qe_request e) = dr_tag_id r \<and> snd k < snd kb \<or>
          dr_ordering (qe_request b) = QueueBarrier \<and> snd k \<le> snd kb))))"

lemma fold_max_le: "fold max ts t \<le> u \<longleftrightarrow> t \<le> u \<and> (\<forall>x \<in> set ts. x \<le> u)" for t :: "'a::linorder"
  by (induction ts arbitrary: t) auto

lemma latest_time_le: "latest_time ts \<le> t \<longleftrightarrow> (\<forall>x \<in> set ts. x \<le> t)"
  by (simp add: latest_time_def fold_max_le)

lemma u64_less_Suc:
  fixes n m :: u64
  assumes "m < u"
  shows "n < m + 1 \<longleftrightarrow> n \<le> m"
proof -
  have "unat m + 1 < 2 ^ 64" using assms unat_lt_2p [of u] by (simp add: word_less_nat_alt)
  then have "unat (m + 1) = unat m + 1" by (subst unat_plus_no_wrap) simp_all
  then show ?thesis by (auto simp: word_less_nat_alt word_le_nat_alt)
qed

lemma ball_entries:
  assumes "btree_wf m"
  shows "(\<forall>x \<in> set (map (f \<circ> fst) (filter (\<lambda>x. P (fst x) (snd x)) m)). R x) \<longleftrightarrow>
    (\<forall>k e. map_of m k = Some e \<longrightarrow> P k e \<longrightarrow> R (f k))"
  using btree_mem_iff [OF assms] by force

lemma ball_map_filter_entries:
  assumes "btree_wf m"
  shows "(\<forall>x \<in> set (List.map_filter (\<lambda>x. g (fst x) (snd x)) (filter (\<lambda>x. P (snd x)) m)). R x) \<longleftrightarrow>
    (\<forall>k e. map_of m k = Some e \<longrightarrow> P e \<longrightarrow> (\<forall>y. g k e = Some y \<longrightarrow> R y))"
  using btree_mem_iff [OF assms] by (force simp: List.map_filter_def)

text \<open>The latest time among the issuer's commands with a sequence below a limit.\<close>

definition latest_of :: "DmaRequest \<Rightarrow> DmaQueue \<Rightarrow> u64 option \<Rightarrow> bool \<Rightarrow> GuestTicks" where
  "latest_of r q lim same_tag = latest_time (map (fst \<circ> fst)
      (filter (\<lambda>x. qe_issuer (snd x) = dr_issuer r \<and> (case lim of None \<Rightarrow> True | Some limit \<Rightarrow> snd (fst x) < limit)
          \<and> (\<not> same_tag \<or> dr_tag_id (qe_request (snd x)) = dr_tag_id r)) (lm_entries (dq_entries q))))"

lemma latest_of_le:
  assumes "dq_inv q"
  shows "latest_of r q lim same_tag \<le> t \<longleftrightarrow> (\<forall>k e. dq_E q k = Some e \<longrightarrow>
      qe_issuer e = dr_issuer r \<and> (case lim of None \<Rightarrow> True | Some limit \<Rightarrow> snd k < limit) \<and>
      (\<not> same_tag \<or> dr_tag_id (qe_request e) = dr_tag_id r) \<longrightarrow> fst k \<le> t)"
  unfolding latest_of_def latest_time_le
  using ball_entries [OF dq_inv_wf(1) [OF assms], of fst "\<lambda>k e. qe_issuer e = dr_issuer r \<and>
      (case lim of None \<Rightarrow> True | Some limit \<Rightarrow> snd k < limit) \<and> (\<not> same_tag \<or> dr_tag_id (qe_request e) = dr_tag_id r)"] .

definition barrier_floor :: "DmaRequest \<Rightarrow> DmaQueue \<Rightarrow> dma_key \<Rightarrow> QueueEntry \<Rightarrow> GuestTicks option" where
  "barrier_floor r q k e =
     (if dr_ordering (qe_request e) = TagBarrier \<and> dr_tag_id (qe_request e) = dr_tag_id r
        then Some (latest_of r q (Some (snd k)) True)
      else if dr_ordering (qe_request e) = QueueBarrier then Some (latest_of r q (Some (snd k + 1)) False) else None)"

lemma ordering_floor_eq:
  "DmaQueue_ordering_floor r q = fold max
      (List.map_filter (\<lambda>x. barrier_floor r q (fst x) (snd x))
         (filter (\<lambda>x. qe_issuer (snd x) = dr_issuer r) (lm_entries (dq_entries q))))
      (case dr_ordering r of Ordering_None \<Rightarrow> GuestTicks_ZERO | Fence \<Rightarrow> latest_of r q None True
         | TagBarrier \<Rightarrow> latest_of r q None True | QueueBarrier \<Rightarrow> latest_of r q None False)"
  unfolding DmaQueue_ordering_floor_def Let_def latest_of_def barrier_floor_def case_prod_unfold filter_filter
  by (simp add: conj_commute cong: conj_cong)

lemma ordering_floor_le:
  assumes "dq_inv q"
  shows "DmaQueue_ordering_floor r q \<le> t \<longleftrightarrow> (\<forall>k. must_follow r q k \<longrightarrow> fst k \<le> t)"
proof -
  have seq: "snd k < snd kb + 1 \<longleftrightarrow> snd k \<le> snd kb" if "dq_E q kb = Some b" for k kb :: dma_key and b
    using u64_less_Suc [of "snd kb"] dq_key_less [OF assms, of kb] that by blast
  note l = latest_of_le [OF assms]
  have own: "(case dr_ordering r of Ordering_None \<Rightarrow> GuestTicks_ZERO | Fence \<Rightarrow> latest_of r q None True
         | TagBarrier \<Rightarrow> latest_of r q None True | QueueBarrier \<Rightarrow> latest_of r q None False) \<le> t \<longleftrightarrow>
      (\<forall>k e. dq_E q k = Some e \<longrightarrow> qe_issuer e = dr_issuer r \<longrightarrow>
         dr_ordering r \<in> {Fence, TagBarrier} \<and> dr_tag_id (qe_request e) = dr_tag_id r \<or> dr_ordering r = QueueBarrier \<longrightarrow> fst k \<le> t)"
    by (cases "dr_ordering r") (simp_all add: l imp_conjL del: split_paired_All)
  define waits where "waits kb b k e \<longleftrightarrow>
      dr_ordering (qe_request b) = TagBarrier \<and> dr_tag_id (qe_request b) = dr_tag_id r \<and>
         dr_tag_id (qe_request e) = dr_tag_id r \<and> snd k < snd kb \<or>
      dr_ordering (qe_request b) = QueueBarrier \<and> snd k \<le> snd kb" for kb k :: dma_key and b e
  have bar: "(\<forall>y. barrier_floor r q kb b = Some y \<longrightarrow> y \<le> t) \<longleftrightarrow>
      (\<forall>k e. dq_E q k = Some e \<longrightarrow> qe_issuer e = dr_issuer r \<longrightarrow> waits kb b k e \<longrightarrow> fst k \<le> t)"
    if "dq_E q kb = Some b" for kb b
    unfolding barrier_floor_def waits_def using seq [OF that] by (auto simp: l simp del: split_paired_All)
  have bars: "(\<forall>kb b. dq_E q kb = Some b \<longrightarrow> qe_issuer b = dr_issuer r \<longrightarrow> (\<forall>y. barrier_floor r q kb b = Some y \<longrightarrow> y \<le> t)) \<longleftrightarrow>
      (\<forall>kb b. dq_E q kb = Some b \<longrightarrow> qe_issuer b = dr_issuer r \<longrightarrow>
         (\<forall>k e. dq_E q k = Some e \<longrightarrow> qe_issuer e = dr_issuer r \<longrightarrow> waits kb b k e \<longrightarrow> fst k \<le> t))"
    by (intro iff_allI imp_cong refl bar)
  show ?thesis
    unfolding ordering_floor_eq fold_max_le own ball_map_filter_entries [OF dq_inv_wf(1) [OF assms], of "barrier_floor r q" "\<lambda>e. qe_issuer e = dr_issuer r" "\<lambda>x. x \<le> t"]
      must_follow_def waits_def [symmetric] bars
    by blast
qed

definition sample_request :: DmaRequest where
  "sample_request = \<lparr>dr_direction = Get, dr_source = ByteRange (GuestAddr 0) 16, dr_destination = ByteRange (GuestAddr 0) 16,
     dr_issuer = UnitId 1, dr_tag_id = Some (MfcTagId 3), dr_ordering = Ordering_None, dr_stall_notify = False,
     dr_holds_slot = True, dr_local_store_source = False, dr_command_word = None\<rparr>"

definition sample_queue :: DmaQueue where
  "sample_queue = snd (DmaQueue_enqueue (DmaCompletion_new sample_request (GuestTicks 5)) None DmaQueue_new)"

lemma sample_queue_inv: "dq_inv sample_queue"
  unfolding sample_queue_def by (rule DmaQueue_enqueue_effect(1) [OF dq_inv_new]) (simp add: DmaQueue_new_def)

section \<open>Properties\<close>

text \<open>
  C2: Processing the queue always returns, and what it does is a run of the architecture's
  step relation: as long as some command is due, in scope and not held behind a raised
  command of its issuer, the earliest such command by completion time and sequence is taken
  next, and nothing else changes.
\<close>

theorem process_translating_refines:
  assumes "dq_inv q"
  shows "\<exists>s' due q' ks. DmaQueue_process_translating now only tr s q = Some (s', due, q') \<and> dq_inv q' \<and>
    dma_run now only tr (view (s, \<lparr>due_completions = [], due_raised = []\<rparr>, q)) ks (view (s', due, q'))"
  unfolding DmaQueue_process_translating_def by (rule process_loop_refines [OF assms])

theorem process_translating_refines_witness:
  "\<exists>s' due q' ks. DmaQueue_process_translating (GuestTicks 9) None (\<lambda>s _ _. (None, s)) () sample_queue = Some (s', due, q') \<and> dq_inv q' \<and>
    dma_run (GuestTicks 9) None (\<lambda>s _ _. (None, s)) (view ((), \<lparr>due_completions = [], due_raised = []\<rparr>, sample_queue)) ks (view (s', due, q'))"
  by (rule process_translating_refines [OF sample_queue_inv])

text \<open>
  C25: Processing conserves commands and keeps their order. The commands taken are exactly
  the eligible ones until none is left, in strictly ascending (time, sequence) order; every
  one of them either completes, and is reported once with its payload, or is raised, and
  stays in the queue; every other command is untouched. Nothing of an issuer is taken after
  a command of that issuer was raised.
\<close>

theorem process_translating_exact:
  assumes "dq_inv q" and "DmaQueue_process_translating now only tr s q = Some (s', due, q')"
  shows "dq_inv q' \<and> (\<forall>k. \<not> eligible now only (dq_E q') (dq_I q') k) \<and>
    (\<exists>ks. (\<forall>k \<in> set ks. eligible now only (dq_E q) (dq_I q) k) \<and> run_effect (dq_E q) (dq_I q) ks (dq_E q') (dq_I q') \<and>
       due_completions due = map (completed_at (dq_E q)) (filter (\<lambda>k. dq_I q' k = None) ks) \<and>
       due_raised due = map (raised_at (dq_I q')) (filter (\<lambda>k. dq_I q' k \<noteq> None) ks))"
proof -
  obtain ks where "dq_inv q'" "dma_run now only tr (view (s, \<lparr>due_completions = [], due_raised = []\<rparr>, q)) ks (view (s', due, q'))"
    using process_loop_refines [OF assms(1), of now only tr s "\<lparr>due_completions = [], due_raised = []\<rparr>"] assms(2)
    by (auto simp: DmaQueue_process_translating_def)
  moreover have "dom (dq_E q) \<inter> dom (dq_I q) = {}" using assms(1) by (simp add: dq_inv_def)
  ultimately show ?thesis
    using dma_run_effect [of now only tr _ ks _ s "\<lparr>due_completions = [], due_raised = []\<rparr>" "dq_E q" "dq_I q" s' due "dq_E q'" "dq_I q'"]
    by fastforce
qed

theorem process_translating_exact_witness:
  "\<exists>s' due q'. DmaQueue_process_translating (GuestTicks 9) None (\<lambda>s _ _. (None, s)) () sample_queue = Some (s', due, q') \<and>
    dq_inv q' \<and> (\<forall>k. \<not> eligible (GuestTicks 9) None (dq_E q') (dq_I q') k)"
proof -
  obtain s' due q' where p: "DmaQueue_process_translating (GuestTicks 9) None (\<lambda>s _ _. (None, s)) () sample_queue = Some (s', due, q')"
    using process_loop_refines [OF sample_queue_inv, of "GuestTicks 9" None "\<lambda>s _ _. (None, s)" "()"]
    unfolding DmaQueue_process_translating_def by meson
  with process_translating_exact [OF sample_queue_inv p] show ?thesis by blast
qed

text \<open>
  C26: The ordering floor is the least time that respects every fence and barrier: it is at
  most \<open>t\<close> exactly when every queued command the request must follow is due by \<open>t\<close>. So a request
  queued at or after its floor gets a key above every command it must follow, and the queue,
  which drains in key order, completes it after them.
\<close>

theorem ordering_floor_exact:
  assumes "dq_inv q" and "dq_next_seq q \<noteq> u64_MAX"
  shows "(DmaQueue_ordering_floor r q \<le> t \<longleftrightarrow> (\<forall>k. must_follow r q k \<longrightarrow> fst k \<le> t)) \<and>
    (DmaQueue_ordering_floor r q \<le> t \<longrightarrow>
       (case DmaQueue_enqueue (DmaCompletion_new r t) payload q of (seq, q') \<Rightarrow>
          dq_inv q' \<and> (t, seq) \<in> dom (dq_E q') \<and> (\<forall>k. must_follow r q k \<longrightarrow> k < (t, seq) \<and> dq_E q' k = dq_E q k)))"
proof -
  note en = DmaQueue_enqueue_effect [OF assms, of "DmaCompletion_new r t" payload]
  obtain seq q' where e: "DmaQueue_enqueue (DmaCompletion_new r t) payload q = (seq, q')" by fastforce
  have "k < (t, dq_next_seq q) \<and> k \<noteq> (t, dq_next_seq q)" if "fst k \<le> t" "must_follow r q k" for k
  proof -
    have "snd k < dq_next_seq q" using that(2) dq_key_less [OF assms(1), of k] unfolding must_follow_def by blast
    with that(1) show ?thesis by (cases k) auto
  qed
  moreover have "\<not> must_follow r q (t, dq_next_seq q)"
    using dq_key_less [OF assms(1), of "(t, dq_next_seq q)"] unfolding must_follow_def by auto
  ultimately show ?thesis
    using ordering_floor_le [OF assms(1)] en by (auto simp: e DmaCompletion_new_def simp del: split_paired_All)
qed

theorem ordering_floor_exact_witness:
  "DmaQueue_ordering_floor (DmaRequest_with_ordering QueueBarrier sample_request) sample_queue \<le> GuestTicks 7 \<longleftrightarrow>
    (\<forall>k. must_follow (DmaRequest_with_ordering QueueBarrier sample_request) sample_queue k \<longrightarrow> fst k \<le> GuestTicks 7)"
  using ordering_floor_exact [OF sample_queue_inv, of "DmaRequest_with_ordering QueueBarrier sample_request" "GuestTicks 7"]
  by (simp add: sample_queue_def DmaQueue_enqueue_def DmaQueue_new_def Let_def)

end
