(* ===== verification/Dma_Latency.thy ===== *)
theory Dma_Latency
  imports Dma_Processing
begin

text \<open>
  \<^verbatim>\<open>cellgov_dma/src/latency.rs\<close> and \<^verbatim>\<open>measured.rs\<close> with the tables of
  \<^verbatim>\<open>cellgov_ps3_abi/src/hw/mfc_timing.rs\<close>: the trait \<^verbatim>\<open>DmaLatencyModel\<close> is the locale
  \<open>dma_latency_model\<close>, interpreted on the fixed and on the measured model. A panic is
  \<^const>\<open>None\<close>.
\<close>

section \<open>The measured tables\<close>

definition MFC_TIMING_RUNS :: u32 where "MFC_TIMING_RUNS = 32"
definition MFC_TIMING_SIZES :: "u32 list" where
  "MFC_TIMING_SIZES = [16, 32, 64, 128, 256, 512, 1024, 2048, 4096, 8192, 16384]"
definition MFC_TAG_WAIT_TB_SUM :: u32 where "MFC_TAG_WAIT_TB_SUM = 64"
definition MFC_TIMING_LINE_BYTES :: u64 where "MFC_TIMING_LINE_BYTES = 128"
definition MFC_GET_LINE_TB_SUM :: "u32 list" where
  "MFC_GET_LINE_TB_SUM = [450, 444, 443, 436, 447, 492, 526, 626, 1037, 1784, 3264]"
definition MFC_GET_OFF_LINE_TB_SUM :: "u32 list" where
  "MFC_GET_OFF_LINE_TB_SUM = [441, 431, 433, 449, 469, 490, 557, 783, 1136, 1825, 3309]"
definition MFC_PUT_LINE_TB_SUM :: "u32 list" where
  "MFC_PUT_LINE_TB_SUM = [282, 277, 277, 278, 310, 327, 382, 476, 704, 1160, 2075]"
definition MFC_PUT_OFF_LINE_TB_SUM :: "u32 list" where
  "MFC_PUT_OFF_LINE_TB_SUM = [277, 280, 282, 305, 319, 342, 387, 491, 727, 1182, 2094]"
definition MFC_SHARED_BYTES_PER_TB :: u64 where "MFC_SHARED_BYTES_PER_TB = 327"
definition MFC_TRANSFER_MIN_TB_SUM :: u64 where "MFC_TRANSFER_MIN_TB_SUM = 46"

lemmas timing_tables = MFC_GET_LINE_TB_SUM_def MFC_GET_OFF_LINE_TB_SUM_def MFC_PUT_LINE_TB_SUM_def
  MFC_PUT_OFF_LINE_TB_SUM_def

section \<open>The models\<close>

datatype FixedLatency = FixedLatency (fl_ticks: u64)

definition FixedLatency_completion_time ::
    "FixedLatency \<Rightarrow> DmaRequest \<Rightarrow> GuestTicks \<Rightarrow> DmaQueue \<Rightarrow> GuestTicks option" where
  "FixedLatency_completion_time l req now queued = GuestTicks_checked_add now (GuestTicks (fl_ticks l))"

definition FixedLatency_invalid_command_time :: "FixedLatency \<Rightarrow> GuestTicks \<Rightarrow> DmaQueue \<Rightarrow> GuestTicks" where
  "FixedLatency_invalid_command_time l now queued = GuestTicks_saturating_add now (GuestTicks (fl_ticks l))"

datatype MeasuredMfcLatency = MeasuredMfcLatency (mml_fallback: FixedLatency)

definition MeasuredMfcLatency_new :: "u64 \<Rightarrow> MeasuredMfcLatency" where
  "MeasuredMfcLatency_new fallback_ticks = MeasuredMfcLatency (FixedLatency fallback_ticks)"

definition u64_div_ceil :: "u64 \<Rightarrow> u64 \<Rightarrow> u64" where
  "u64_div_ceil a b = (if a mod b = 0 then a div b else a div b + 1)"

definition rposition :: "('a \<Rightarrow> bool) \<Rightarrow> 'a list \<Rightarrow> nat option" where
  "rposition P xs = find (\<lambda>i. P (xs ! i)) (rev [0..<length xs])"

definition transfer_table :: "DmaDirection \<Rightarrow> bool \<Rightarrow> u32 list" where
  "transfer_table direction off_line =
     (case (direction, off_line) of
        (Get, False) \<Rightarrow> MFC_GET_LINE_TB_SUM
      | (Get, True) \<Rightarrow> MFC_GET_OFF_LINE_TB_SUM
      | (Put, False) \<Rightarrow> MFC_PUT_LINE_TB_SUM
      | (Put, True) \<Rightarrow> MFC_PUT_OFF_LINE_TB_SUM)"

definition own_tb :: "u32 list \<Rightarrow> nat \<Rightarrow> u64" where
  "own_tb table i = ucast (saturating_sub (table ! i) MFC_TAG_WAIT_TB_SUM)"

definition transfer_tb_sum :: "DmaDirection \<Rightarrow> bool \<Rightarrow> u64 \<Rightarrow> u64" where
  "transfer_tb_sum direction off_line sz =
     (let own = own_tb (transfer_table direction off_line);
          sizes = map ucast MFC_TIMING_SIZES;
          l = length sizes - 1
      in if sz \<le> sizes ! 0 then own 0
         else if sz \<ge> sizes ! l then own l
         else let i = (case rposition (\<lambda>s. s \<le> sz) sizes of Some i \<Rightarrow> i | None \<Rightarrow> 0);
                  lo = sizes ! i; hi = sizes ! (i + 1);
                  t_lo = own i; t_hi = own (i + 1);
                  span = hi - lo; into = sz - lo
              in if t_hi \<ge> t_lo then t_lo + u64_div_ceil ((t_hi - t_lo) * into) span
                 else t_lo - ((t_lo - t_hi) * into) div span)"

definition measured_transfer_ticks :: "DmaDirection \<Rightarrow> bool \<Rightarrow> u64 \<Rightarrow> u64" where
  "measured_transfer_ticks direction off_line sz =
     max (tb_to_ticks (transfer_tb_sum direction off_line sz) (ucast MFC_TIMING_RUNS)) 1"

definition own_bytes_tb_sum :: "DmaDirection \<Rightarrow> u64 \<Rightarrow> u64" where
  "own_bytes_tb_sum direction sz =
     (let table = (case direction of Get \<Rightarrow> MFC_GET_LINE_TB_SUM | Put \<Rightarrow> MFC_PUT_LINE_TB_SUM);
          l = length MFC_TIMING_SIZES - 1;
          span = ucast (MFC_TIMING_SIZES ! l - MFC_TIMING_SIZES ! (l - 1));
          rise = ucast (table ! l - table ! (l - 1))
      in u64_div_ceil (sz * rise) span)"

definition bytes_tb_sum :: "DmaDirection \<Rightarrow> u64 \<Rightarrow> u64 \<Rightarrow> u64" where
  "bytes_tb_sum direction sz sharers =
     (let shared = u64_div_ceil (sz * sharers * ucast MFC_TIMING_RUNS) MFC_SHARED_BYTES_PER_TB
      in max (own_bytes_tb_sum direction sz) shared)"

text \<open>The sorted and deduplicated list of the other issuers has one entry per issuer.\<close>

definition sharers :: "DmaQueue \<Rightarrow> UnitId \<Rightarrow> GuestTicks \<Rightarrow> u64" where
  "sharers queued issuer now =
     (let others = map DmaCompletion_issuer
            (filter (\<lambda>c. DmaRequest_length (dc_request c) > 0 \<and> dr_command_word (dc_request c) \<noteq> None)
              (filter (\<lambda>c. DmaCompletion_issuer c \<noteq> issuer \<and> dc_completion_time c > now)
                (map fst (DmaQueue_pending queued))))
      in 1 + of_nat (length (remdups_adj (sort others))))"

definition MeasuredMfcLatency_completion_time ::
    "MeasuredMfcLatency \<Rightarrow> DmaRequest \<Rightarrow> GuestTicks \<Rightarrow> DmaQueue \<Rightarrow> GuestTicks option" where
  "MeasuredMfcLatency_completion_time m req now queued =
     (if dr_command_word req = None then FixedLatency_completion_time (mml_fallback m) req now queued
      else
        let off_line = (\<not> is_multiple_of (GuestAddr_raw (br_start (dr_source req))) MFC_TIMING_LINE_BYTES \<or>
                        \<not> is_multiple_of (GuestAddr_raw (br_start (dr_destination req))) MFC_TIMING_LINE_BYTES);
            direction = dr_direction req; sz = DmaRequest_length req;
            runs = ucast MFC_TIMING_RUNS;
            alone = transfer_tb_sum direction off_line sz;
            latency = saturating_sub alone (own_bytes_tb_sum direction sz);
            bs = bytes_tb_sum direction sz (sharers queued (dr_issuer req) now);
            start = GuestTicks_saturating_add now (GuestTicks (max (tb_to_ticks (latency + bs) runs) 1))
        in if sz = 0 then Some start
           else let queued_bytes = max bs MFC_TRANSFER_MIN_TB_SUM;
                    behind = GuestTicks_saturating_add (DmaQueue_issuer_latest_completion (dr_issuer req) queued)
                               (GuestTicks (max (tb_to_ticks queued_bytes runs) 1))
                in Some (max start behind))"

definition MeasuredMfcLatency_invalid_command_time :: "MeasuredMfcLatency \<Rightarrow> GuestTicks \<Rightarrow> DmaQueue \<Rightarrow> GuestTicks" where
  "MeasuredMfcLatency_invalid_command_time m now queued =
     FixedLatency_invalid_command_time (mml_fallback m) now queued"

section \<open>The contract\<close>

locale dma_latency_model =
  fixes completion_time :: "DmaRequest \<Rightarrow> GuestTicks \<Rightarrow> DmaQueue \<Rightarrow> GuestTicks option"
    and invalid_command_time :: "GuestTicks \<Rightarrow> DmaQueue \<Rightarrow> GuestTicks"
  assumes completion_ge: "completion_time r now q = Some t \<Longrightarrow> now \<le> t"
    and invalid_ge: "now \<le> invalid_command_time now q"
begin

text \<open>
  A request queued at the model's time, raised to its ordering floor, completes no earlier
  than now and after every queued command it must follow.
\<close>

lemma scheduled_in_order:
  assumes "dq_inv q" and "completion_time r now q = Some t" and "must_follow r q k"
    and "seq = dq_next_seq q"
  shows "now \<le> max t (DmaQueue_ordering_floor r q) \<and> k < (max t (DmaQueue_ordering_floor r q), seq)"
proof -
  have "fst k \<le> DmaQueue_ordering_floor r q" using ordering_floor_le [OF assms(1)] assms(3) by blast
  moreover have "snd k < seq" using dq_key_less [OF assms(1), of k] assms(3,4) unfolding must_follow_def by blast
  ultimately show ?thesis
    using completion_ge [OF assms(2)] by (cases k) (auto simp: le_max_iff_disj max_def split: if_splits)
qed

end

interpretation fixed: dma_latency_model "FixedLatency_completion_time l" "FixedLatency_invalid_command_time l"
  by unfold_locales
     (simp_all add: FixedLatency_completion_time_def FixedLatency_invalid_command_time_def
        GuestTicks_checked_add_ge GuestTicks_saturating_add_ge)

interpretation measured: dma_latency_model "MeasuredMfcLatency_completion_time m" "MeasuredMfcLatency_invalid_command_time m"
proof
  show "now \<le> t" if "MeasuredMfcLatency_completion_time m r now q = Some t" for r now q t
    using that fixed.completion_ge GuestTicks_saturating_add_ge [of now]
    by (auto simp: MeasuredMfcLatency_completion_time_def Let_def le_max_iff_disj split: if_splits)
qed (simp add: MeasuredMfcLatency_invalid_command_time_def fixed.invalid_ge)

section \<open>Interpolation\<close>

lemma unat_u64_div_ceil: "unat (u64_div_ceil a b) = div_ceil (unat a) (unat b)" if "b \<noteq> 0"
proof -
  have m: "a mod b = 0 \<longleftrightarrow> unat a mod unat b = 0"
    by (metis unat_0 unat_eqI unat_mod_distrib)
  show ?thesis
  proof (cases "a mod b = 0")
    case True
    then show ?thesis using m by (simp add: u64_div_ceil_def div_ceil_def unat_div_distrib)
  next
    case False
    have b1: "unat b \<noteq> 1"
      using False m by auto
    then have "2 \<le> unat b" using that by (metis One_nat_def Suc_1 Suc_leI less_one linorder_neqE_nat not_less unat_eq_zero)
    then have "unat a div unat b * 2 \<le> unat a"
      by (metis dual_order.trans mult_le_mono2 div_times_less_eq_dividend)
    then have "unat a div unat b + 1 < 2 ^ 64" using unat_lt_2p [of a] by simp
    then have "unat (a div b + 1) = unat a div unat b + 1"
      by (subst unat_plus_no_wrap) (simp_all add: unat_div_distrib)
    then show ?thesis using False m by (simp add: u64_div_ceil_def div_ceil_def)
  qed
qed

lemma interpolate_between:
  fixes t_lo t_hi into span :: u64
  assumes "unat t_lo < 2 ^ 32" "unat t_hi < 2 ^ 32" "span \<noteq> 0" "into \<le> span" "unat span < 2 ^ 31"
  shows "t_lo \<le> t_hi \<Longrightarrow> t_lo \<le> t_lo + u64_div_ceil ((t_hi - t_lo) * into) span \<and>
           t_lo + u64_div_ceil ((t_hi - t_lo) * into) span \<le> t_hi"
    and "t_hi \<le> t_lo \<Longrightarrow> t_hi \<le> t_lo - ((t_lo - t_hi) * into) div span \<and> t_lo - ((t_lo - t_hi) * into) div span \<le> t_lo"
proof -
  have into: "unat into \<le> unat span" using assms(4) by (simp add: word_le_nat_alt)
  have s0: "0 < unat span" using assms(3) by (simp add: unat_gt_0)
  have prod: "unat (d * into) = unat d * unat into" if "unat d < 2 ^ 32" for d :: u64
  proof -
    have "unat d * unat into < 2 ^ 32 * 2 ^ 31"
      using that into assms(5) by (intro mult_strict_mono) auto
    then show ?thesis by (simp add: unat_word_ariths)
  qed
  {
    assume le: "t_lo \<le> t_hi"
    let ?d = "t_hi - t_lo"
    have ud: "unat ?d = unat t_hi - unat t_lo" using le by (simp add: unat_minus_no_wrap)
    have "div_ceil (unat (?d * into)) (unat span) \<le> unat ?d"
      using prod [of ?d] ud assms(2) into s0 by (intro div_ceil_least) (auto intro: mult_le_mono2)
    then have c: "unat (u64_div_ceil (?d * into) span) \<le> unat ?d" using unat_u64_div_ceil [OF assms(3)] by simp
    then have "unat (t_lo + u64_div_ceil (?d * into) span) = unat t_lo + unat (u64_div_ceil (?d * into) span)"
      using ud assms(1,2) by (intro unat_plus_no_wrap) simp
    then show "t_lo \<le> t_lo + u64_div_ceil (?d * into) span \<and> t_lo + u64_div_ceil (?d * into) span \<le> t_hi"
      using c ud le by (simp add: word_le_nat_alt)
  next
    assume le: "t_hi \<le> t_lo"
    let ?d = "t_lo - t_hi"
    have ud: "unat ?d = unat t_lo - unat t_hi" using le by (simp add: unat_minus_no_wrap)
    have "unat ?d * unat into \<le> unat ?d * unat span" using into by simp
    then have "unat (?d * into) div unat span \<le> unat ?d"
      using prod [of ?d] ud assms(1) s0 div_le_mono [of "unat ?d * unat into" "unat ?d * unat span" "unat span"] by simp
    then have c: "unat ((?d * into) div span) \<le> unat ?d" by (simp add: unat_div_distrib)
    then have "(?d * into) div span \<le> t_lo" using ud by (simp add: word_le_nat_alt)
    then have "unat (t_lo - (?d * into) div span) = unat t_lo - unat ((?d * into) div span)" by (rule unat_minus_no_wrap)
    then show "t_hi \<le> t_lo - (?d * into) div span \<and> t_lo - (?d * into) div span \<le> t_lo"
      using c ud le by (simp add: word_le_nat_alt)
  }
qed

lemma rposition_Some:
  assumes "i < length xs" and "P (xs ! i)" and "\<And>j. i < j \<Longrightarrow> j < length xs \<Longrightarrow> \<not> P (xs ! j)"
  shows "rposition P xs = Some i"
proof -
  have "[0..<length xs] = [0..<i] @ i # [Suc i..<length xs]"
    using assms(1) upt_split [of 0 i "length xs"] by (simp add: upt_conv_Cons)
  moreover have "find (\<lambda>i. P (xs ! i)) (rev [Suc i..<length xs]) = None"
    using assms(3) by (auto simp: find_None_iff)
  moreover have "find Q (ys @ zs) = (case find Q ys of None \<Rightarrow> find Q zs | Some y \<Rightarrow> Some y)" for Q and ys zs :: "nat list"
    by (induction ys) auto
  ultimately show ?thesis using assms(2) by (simp add: rposition_def)
qed

abbreviation timing_sizes :: "u64 list" where
  "timing_sizes \<equiv> map ucast MFC_TIMING_SIZES"

lemma timing_sizes_value: "timing_sizes = [16, 32, 64, 128, 256, 512, 1024, 2048, 4096, 8192, 16384]"
  by (simp add: MFC_TIMING_SIZES_def)

lemma timing_sizes_sorted: "i < j \<Longrightarrow> j < 11 \<Longrightarrow> timing_sizes ! i < timing_sizes ! j"
proof -
  have "sorted_wrt (<) timing_sizes" unfolding timing_sizes_value by simp
  moreover have "length timing_sizes = 11" by (simp add: timing_sizes_value)
  ultimately show "i < j \<Longrightarrow> j < 11 \<Longrightarrow> ?thesis" using sorted_wrt_nth_less by metis
qed

lemma own_tb_bound: "unat (own_tb table i) < 2 ^ 32"
  using unat_lt_2p [of "saturating_sub (table ! i) MFC_TAG_WAIT_TB_SUM"] by (simp add: own_tb_def unat_ucast_up)

lemma transfer_tb_sum_inside:
  assumes "i < 10" and "timing_sizes ! i \<le> sz" and "sz < timing_sizes ! Suc i"
  shows "transfer_tb_sum d off_line sz =
    (let own = own_tb (transfer_table d off_line); t_lo = own i; t_hi = own (Suc i);
         span = timing_sizes ! Suc i - timing_sizes ! i; into = sz - timing_sizes ! i
     in if t_lo \<le> t_hi then t_lo + u64_div_ceil ((t_hi - t_lo) * into) span
        else t_lo - ((t_lo - t_hi) * into) div span)"
proof -
  have len: "length timing_sizes = 11" by (simp add: timing_sizes_value)
  have not_above: "\<not> timing_sizes ! j \<le> sz" if "i < j" "j < 11" for j
    using assms(3) timing_sizes_sorted [of "Suc i" j] that by (cases "j = Suc i") auto
  have rp: "rposition (\<lambda>s. s \<le> sz) timing_sizes = Some i"
    using assms(1,2) not_above len by (intro rposition_Some) auto
  have below: "\<not> timing_sizes ! 10 \<le> sz" using not_above assms(1) by simp
  show ?thesis
  proof (cases "sz \<le> timing_sizes ! 0")
    case True
    have "i = 0" "sz = timing_sizes ! 0"
      using True assms(1,2) timing_sizes_sorted [of 0 i] by (cases "i = 0"; auto)+
    then show ?thesis
      by (simp add: transfer_tb_sum_def Let_def u64_div_ceil_def timing_sizes_value)
  next
    case False
    then show ?thesis
      using rp below by (simp add: transfer_tb_sum_def Let_def len del: length_map)
  qed
qed

section \<open>Properties\<close>

text \<open>
  The measured transfer times are those of the capture: at each measured size the time is
  the table entry less the tag wait, below the least and above the greatest measured size it
  is the first and the last entry, and between two neighbouring sizes it lies between their
  entries, whichever of the two is larger.
\<close>

theorem transfer_tb_sum_interpolates:
  "(\<forall>i < 11. transfer_tb_sum d off_line (timing_sizes ! i) = own_tb (transfer_table d off_line) i) \<and>
   (\<forall>i < 10. \<forall>sz. timing_sizes ! i \<le> sz \<longrightarrow> sz < timing_sizes ! Suc i \<longrightarrow>
      (let own = own_tb (transfer_table d off_line)
       in min (own i) (own (Suc i)) \<le> transfer_tb_sum d off_line sz \<and>
          transfer_tb_sum d off_line sz \<le> max (own i) (own (Suc i)))) \<and>
   (\<forall>sz \<le> 16. transfer_tb_sum d off_line sz = own_tb (transfer_table d off_line) 0) \<and>
   (\<forall>sz \<ge> 16384. transfer_tb_sum d off_line sz = own_tb (transfer_table d off_line) 10)"
proof (intro conjI allI impI)
  have last_size: "transfer_tb_sum d off_line sz = own_tb (transfer_table d off_line) 10" if "16384 \<le> sz" for sz
  proof -
    have "\<not> sz \<le> 16" using that by (auto simp: word_le_nat_alt)
    moreover have "length MFC_TIMING_SIZES = 11" "MFC_TIMING_SIZES ! 10 = 16384" "MFC_TIMING_SIZES ! 0 = 16"
      by (simp_all add: MFC_TIMING_SIZES_def)
    ultimately show ?thesis using that by (simp add: transfer_tb_sum_def Let_def)
  qed
  then show "transfer_tb_sum d off_line sz = own_tb (transfer_table d off_line) 10" if "16384 \<le> sz" for sz using that .
  show "transfer_tb_sum d off_line sz = own_tb (transfer_table d off_line) 0" if "sz \<le> 16" for sz
    using that by (simp add: transfer_tb_sum_def Let_def timing_sizes_value)
  show "transfer_tb_sum d off_line (timing_sizes ! i) = own_tb (transfer_table d off_line) i" if "i < 11" for i
  proof (cases "i = 10")
    case True
    then show ?thesis using last_size [of 16384] by (simp add: timing_sizes_value)
  next
    case False
    then show ?thesis
      using transfer_tb_sum_inside [of i "timing_sizes ! i"] timing_sizes_sorted [of i "Suc i"] that
      by (simp add: Let_def u64_div_ceil_def)
  qed
  show "let own = own_tb (transfer_table d off_line)
       in min (own i) (own (Suc i)) \<le> transfer_tb_sum d off_line sz \<and>
          transfer_tb_sum d off_line sz \<le> max (own i) (own (Suc i))"
    if i: "i < 10" "timing_sizes ! i \<le> sz" "sz < timing_sizes ! Suc i" for i sz
  proof -
    have le: "timing_sizes ! i < timing_sizes ! Suc i" using timing_sizes_sorted [of i "Suc i"] i(1) by simp
    then have s0: "timing_sizes ! Suc i - timing_sizes ! i \<noteq> 0" by simp
    have into: "sz - timing_sizes ! i \<le> timing_sizes ! Suc i - timing_sizes ! i"
      using i(2,3) by (simp add: word_le_nat_alt word_less_nat_alt unat_minus_no_wrap)
    have "timing_sizes ! Suc i \<le> timing_sizes ! 10" using timing_sizes_sorted [of "Suc i" 10] i(1) by (cases "i = 9") auto
    then have "unat (timing_sizes ! Suc i) \<le> 16384" by (simp add: word_le_nat_alt timing_sizes_value)
    then have span: "unat (timing_sizes ! Suc i - timing_sizes ! i) < 2 ^ 31"
      using le by (simp add: unat_minus_no_wrap)
    note between = interpolate_between [OF own_tb_bound own_tb_bound s0 into span]
    show ?thesis
      unfolding transfer_tb_sum_inside [OF i] Let_def
      using between(1) [of "transfer_table d off_line" i "transfer_table d off_line" "Suc i"]
        between(2) [of "transfer_table d off_line" "Suc i" "transfer_table d off_line" i]
      by (auto simp: min_def max_def)
  qed
qed

theorem transfer_tb_sum_interpolates_witness:
  "transfer_tb_sum Get False 256 = 383 \<and> 383 \<le> transfer_tb_sum Get False 300 \<and> transfer_tb_sum Get False 300 \<le> 428"
proof -
  note ex = transfer_tb_sum_interpolates [of Get False]
  have "transfer_tb_sum Get False 256 = 383"
    using ex [THEN conjunct1, rule_format, of 4]
    by (simp add: timing_sizes_value own_tb_def transfer_table_def timing_tables saturating_sub_def MFC_TAG_WAIT_TB_SUM_def)
  moreover have "383 \<le> transfer_tb_sum Get False 300 \<and> transfer_tb_sum Get False 300 \<le> 428"
    using ex [THEN conjunct2, THEN conjunct1, rule_format, of 4 300]
    by (simp add: timing_sizes_value own_tb_def transfer_table_def timing_tables saturating_sub_def MFC_TAG_WAIT_TB_SUM_def Let_def)
  ultimately show ?thesis by blast
qed

lemma saturating_add_pos:
  assumes "d \<noteq> 0"
  shows "t < GuestTicks_saturating_add t (GuestTicks d) \<or> GuestTicks_saturating_add t (GuestTicks d) = GuestTicks u64_MAX"
proof (cases "unat (GuestTicks_raw t) + unat d < 2 ^ 64")
  case True
  then show ?thesis
    using assms by (cases t) (simp add: GuestTicks_saturating_add_def saturating_add_def word_less_nat_alt unat_plus_no_wrap unat_gt_0)
qed (simp add: GuestTicks_saturating_add_def saturating_add_def)

lemma GuestTicks_le_max: "t \<le> GuestTicks u64_MAX"
proof (cases t)
  case (GuestTicks x)
  have "unat x \<le> unat (u64_MAX :: u64)" using unat_lt_2p [of x] by simp
  then show ?thesis by (simp add: GuestTicks word_le_nat_alt)
qed

lemma saturating_add_after:
  "a \<le> t \<Longrightarrow> d \<noteq> 0 \<Longrightarrow> GuestTicks_saturating_add t (GuestTicks d) \<le> t' \<Longrightarrow> a < t' \<or> t' = GuestTicks u64_MAX"
  using saturating_add_pos [of d t] GuestTicks_le_max [of t'] by (auto intro: antisym)

lemma issuer_latest_le:
  assumes "dq_inv q" and "dq_E q k = Some e" and "qe_issuer e = u"
  shows "fst k \<le> DmaQueue_issuer_latest_completion u q"
proof -
  have "(k, e) \<in> set (lm_entries (dq_entries q))" using assms btree_mem_iff [OF dq_inv_wf(1)] by blast
  then have "fst k \<in> set (map (fst \<circ> fst) (filter (\<lambda>(_, e). qe_issuer e = u) (lm_entries (dq_entries q))))"
    using assms(3) by force
  then show ?thesis
    using latest_time_le [of _ "DmaQueue_issuer_latest_completion u q"]
    unfolding DmaQueue_issuer_latest_completion_def by blast
qed

lemma max_1_neq_0: "max x 1 \<noteq> (0 :: u64)"
  by (auto simp: max_def)

lemma measured_shape:
  assumes "dr_command_word r \<noteq> None"
  shows "\<exists>d d'. d \<noteq> 0 \<and> d' \<noteq> 0 \<and> MeasuredMfcLatency_completion_time m r now q =
    Some (if DmaRequest_length r = 0 then GuestTicks_saturating_add now (GuestTicks d)
          else max (GuestTicks_saturating_add now (GuestTicks d))
                 (GuestTicks_saturating_add (DmaQueue_issuer_latest_completion (dr_issuer r) q) (GuestTicks d')))"
  unfolding MeasuredMfcLatency_completion_time_def Let_def if_not_P [OF assms]
  by (cases "DmaRequest_length r = 0") (simp_all only: if_True if_False refl, (metis max_1_neq_0)+)

text \<open>
  C36: A transfer an MFC command issued always gets a completion time from the measured model
  (the fallback's overflow panic is unreachable for it): after now, and, when it moves bytes,
  after every transfer its issuer has queued, unless guest time is at its end. Raised to the
  ordering floor, it also completes after every command a fence or barrier puts before it.
\<close>

theorem measured_completion_ordered:
  assumes "dq_inv q" and "dr_command_word r \<noteq> None"
  shows "\<exists>t. MeasuredMfcLatency_completion_time m r now q = Some t \<and> (now < t \<or> t = GuestTicks u64_MAX) \<and>
    (DmaRequest_length r \<noteq> 0 \<longrightarrow>
       (\<forall>k e. dq_E q k = Some e \<and> qe_issuer e = dr_issuer r \<longrightarrow> fst k < t \<or> t = GuestTicks u64_MAX)) \<and>
    (\<forall>k. must_follow r q k \<longrightarrow> k < (max t (DmaQueue_ordering_floor r q), dq_next_seq q))"
proof -
  obtain d d' where d: "d \<noteq> 0" "d' \<noteq> 0" and c: "MeasuredMfcLatency_completion_time m r now q =
      Some (if DmaRequest_length r = 0 then GuestTicks_saturating_add now (GuestTicks d)
            else max (GuestTicks_saturating_add now (GuestTicks d))
                   (GuestTicks_saturating_add (DmaQueue_issuer_latest_completion (dr_issuer r) q) (GuestTicks d')))"
    (is "_ = Some ?t")
    using measured_shape [OF assms(2), of m now q] by blast
  define t where "t = ?t"
  have t: "MeasuredMfcLatency_completion_time m r now q = Some t" using c by (simp add: t_def)
  have le: "GuestTicks_saturating_add now (GuestTicks d) \<le> t" "DmaRequest_length r \<noteq> 0 \<Longrightarrow>
      GuestTicks_saturating_add (DmaQueue_issuer_latest_completion (dr_issuer r) q) (GuestTicks d') \<le> t"
    by (simp_all add: t_def)
  have "now < t \<or> t = GuestTicks u64_MAX" using saturating_add_after [OF order_refl d(1) le(1)] .
  moreover have "DmaRequest_length r \<noteq> 0 \<longrightarrow>
       (\<forall>k e. dq_E q k = Some e \<and> qe_issuer e = dr_issuer r \<longrightarrow> fst k < t \<or> t = GuestTicks u64_MAX)"
    using saturating_add_after [OF issuer_latest_le [OF assms(1)] d(2) le(2)] by blast
  moreover have "\<forall>k. must_follow r q k \<longrightarrow> k < (max t (DmaQueue_ordering_floor r q), dq_next_seq q)"
    using measured.scheduled_in_order [OF assms(1) t _ refl] by blast
  ultimately show ?thesis using t by blast
qed

theorem measured_completion_ordered_witness:
  "\<exists>t. MeasuredMfcLatency_completion_time (MeasuredMfcLatency_new 10) (DmaRequest_with_command_word MFC_GET sample_request)
      (GuestTicks 3) sample_queue = Some t \<and> (GuestTicks 3 < t \<or> t = GuestTicks u64_MAX)"
  using measured_completion_ordered [OF sample_queue_inv, of "DmaRequest_with_command_word MFC_GET sample_request"
      "MeasuredMfcLatency_new 10" "GuestTicks 3"]
  by (auto simp: DmaRequest_with_command_word_def simp del: split_paired_All)

end
