(* ===== verification/Rsx_Flip.thy ===== *)
theory Rsx_Flip
  imports Lanes
begin

text \<open>
  \<^verbatim>\<open>cellgov_core/src/rsx/flip.rs\<close>: the flip-status state machine driven at commit boundaries.
\<close>

definition CELL_GCM_DISPLAY_FLIP_STATUS_DONE :: u8 where "CELL_GCM_DISPLAY_FLIP_STATUS_DONE = 0"
definition CELL_GCM_DISPLAY_FLIP_STATUS_WAITING :: u8 where "CELL_GCM_DISPLAY_FLIP_STATUS_WAITING = 1"
definition RSX_FLIP_STATUS_MIRROR_ADDR :: u32 where "RSX_FLIP_STATUS_MIRROR_ADDR = 0xC0000050"

record RsxFlipState =
  rf_status :: u8
  rf_handler :: u32
  rf_pending :: bool
  rf_buffer_index :: u8

definition RsxFlipState_new :: RsxFlipState where
  "RsxFlipState_new = \<lparr>rf_status = CELL_GCM_DISPLAY_FLIP_STATUS_DONE, rf_handler = 0, rf_pending = False, rf_buffer_index = 0\<rparr>"

definition RsxFlipState_restore :: "u8 \<Rightarrow> u32 \<Rightarrow> bool \<Rightarrow> u8 \<Rightarrow> RsxFlipState \<Rightarrow> RsxFlipState" where
  "RsxFlipState_restore status handler pending buffer_index s =
     s\<lparr>rf_status := status, rf_handler := handler, rf_pending := pending, rf_buffer_index := buffer_index\<rparr>"

definition RsxFlipState_set_handler :: "u32 \<Rightarrow> RsxFlipState \<Rightarrow> RsxFlipState" where
  "RsxFlipState_set_handler addr s = s\<lparr>rf_handler := addr\<rparr>"

definition RsxFlipState_request_flip :: "u8 \<Rightarrow> RsxFlipState \<Rightarrow> RsxFlipState" where
  "RsxFlipState_request_flip buffer_index s =
     s\<lparr>rf_status := CELL_GCM_DISPLAY_FLIP_STATUS_WAITING, rf_pending := True, rf_buffer_index := buffer_index\<rparr>"

definition RsxFlipState_complete_pending_flip :: "RsxFlipState \<Rightarrow> bool \<times> RsxFlipState" where
  "RsxFlipState_complete_pending_flip s =
     (if rf_pending s then (True, s\<lparr>rf_status := CELL_GCM_DISPLAY_FLIP_STATUS_DONE, rf_pending := False\<rparr>)
      else (False, s))"

definition RsxFlipState_lanes :: "RsxFlipState lane_value" where
  "RsxFlipState_lanes s lanes =
     (let lanes = ObjectLanes_lane 1 0 (ucast (rf_status s)) lanes;
          lanes = ObjectLanes_lane 2 0 (ucast (rf_handler s)) lanes;
          lanes = ObjectLanes_lane 3 0 (if rf_pending s then 1 else 0) lanes
      in ObjectLanes_lane 4 0 (ucast (rf_buffer_index s)) lanes)"

definition RsxFlipState_sync_term :: "RsxFlipState \<Rightarrow> u128" where
  "RsxFlipState_sync_term s = value_term RsxFlipState_lanes source_RSX_FLIP 0 s"

text \<open>The machine's invariant: a flip is pending exactly while the status is WAITING.\<close>

definition flip_inv :: "RsxFlipState \<Rightarrow> bool" where
  "flip_inv s \<longleftrightarrow> rf_status s = (if rf_pending s then CELL_GCM_DISPLAY_FLIP_STATUS_WAITING else CELL_GCM_DISPLAY_FLIP_STATUS_DONE)"

lemma flip_inv_ops [inv_intros]:
  "flip_inv RsxFlipState_new" "flip_inv s \<Longrightarrow> flip_inv (RsxFlipState_set_handler addr s)"
  "flip_inv (RsxFlipState_request_flip b s)" "flip_inv s \<Longrightarrow> flip_inv (snd (RsxFlipState_complete_pending_flip s))"
  by (simp_all add: flip_inv_def RsxFlipState_new_def RsxFlipState_set_handler_def RsxFlipState_request_flip_def
        RsxFlipState_complete_pending_flip_def)

end
