(* ===== verification/Effects.thy ===== *)
theory Effects
  imports Dma_Latency Mailbox Signal
begin

text \<open>
  \<^verbatim>\<open>cellgov_effects\<close> and the step-result vocabulary of \<^verbatim>\<open>cellgov_exec\<close>: the write payload with
  its inline and heap storage, the effect packets a unit emits, and why a unit yielded.
\<close>

section \<open>Payloads\<close>

definition INLINE_CAP :: nat where "INLINE_CAP = 16"

datatype PayloadStorage = Payload_Inline bytes u8 | Payload_Heap bytes

datatype WritePayload = WritePayload (wp_storage: PayloadStorage)

definition WritePayload_new :: "bytes \<Rightarrow> WritePayload" where
  "WritePayload_new bs =
     (if length bs \<le> INLINE_CAP
      then WritePayload (Payload_Inline (splice 0 bs (replicate INLINE_CAP 0)) (of_nat (length bs)))
      else WritePayload (Payload_Heap bs))"

definition WritePayload_from_slice :: "bytes \<Rightarrow> WritePayload" where
  "WritePayload_from_slice src =
     (if length src \<le> INLINE_CAP
      then WritePayload (Payload_Inline (splice 0 src (replicate INLINE_CAP 0)) (of_nat (length src)))
      else WritePayload (Payload_Heap src))"

definition WritePayload_bytes :: "WritePayload \<Rightarrow> bytes" where
  "WritePayload_bytes p =
     (case wp_storage p of Payload_Inline buf len \<Rightarrow> take (unat len) buf | Payload_Heap v \<Rightarrow> v)"

definition WritePayload_len :: "WritePayload \<Rightarrow> usize" where
  "WritePayload_len p =
     (case wp_storage p of Payload_Inline _ len \<Rightarrow> unat len | Payload_Heap v \<Rightarrow> length v)"

definition WritePayload_is_empty :: "WritePayload \<Rightarrow> bool" where
  "WritePayload_is_empty p \<longleftrightarrow> WritePayload_len p = 0"

lemma WritePayload_roundtrip [simp]:
  "WritePayload_bytes (WritePayload_new bs) = bs" "WritePayload_len (WritePayload_new bs) = length bs"
  "WritePayload_from_slice = WritePayload_new"
  by (auto simp: WritePayload_new_def WritePayload_from_slice_def WritePayload_bytes_def WritePayload_len_def
        INLINE_CAP_def splice_def unat_of_nat_no_wrap fun_eq_iff)

text \<open>The values the constructors build: the inline length never exceeds the buffer.\<close>

definition payload_ok :: "WritePayload \<Rightarrow> bool" where
  "payload_ok p \<longleftrightarrow> WritePayload_len p = length (WritePayload_bytes p)"

lemma payload_ok_new [simp]: "payload_ok (WritePayload_new bs)"
  by (simp add: payload_ok_def)

datatype MailboxMessage = MailboxMessage (MailboxMessage_raw: u32)

datatype BarrierId = BarrierId (BarrierId_raw: u64)

datatype WaitTarget = Wait_Mailbox MailboxId | Wait_Signal SignalId | Wait_Barrier BarrierId

datatype FaultKind = Fault_Validation | Fault_Guest u32

section \<open>Effects\<close>

datatype Effect =
    SharedWriteIntent (ef_range: ByteRange) (ef_payload: WritePayload) (ef_source: UnitId) (ef_time: GuestTicks)
  | MailboxSend (ef_mailbox: MailboxId) (ef_message: MailboxMessage) (ef_source: UnitId)
  | MailboxReceiveAttempt (ef_mailbox: MailboxId) (ef_source: UnitId)
  | DmaEnqueue (ef_request: DmaRequest) (ef_bytes: "bytes option")
  | WaitOnEvent (ef_target: WaitTarget) (ef_source: UnitId)
  | WakeUnit (ef_unit: UnitId) (ef_source: UnitId)
  | SignalUpdate (ef_signal: SignalId) (ef_value: u32) (ef_source: UnitId)
  | FaultRaised (ef_kind: FaultKind) (ef_source: UnitId)
  | TraceMarker (ef_marker: u32) (ef_source: UnitId)
  | ReservationAcquire (ef_line_addr: u64) (ef_source: UnitId)
  | ConditionalStore (ef_range: ByteRange) (ef_payload: WritePayload) (ef_source: UnitId) (ef_time: GuestTicks)
  | RsxLabelWrite (ef_offset: u32) (ef_value: u32)
  | RsxFlipRequest (ef_buffer_index: u8)
  | SharedReadIntent (ef_range: ByteRange) (ef_source: UnitId)
  | ClockRead (ef_source: UnitId)
  | MailboxPop (ef_mailbox: MailboxId) (ef_message: MailboxMessage) (ef_source: UnitId)
  | MfcInvalidCommand (ef_issuer: UnitId) (ef_command: InvalidMfcCommand)
  | SpuSignalWrite (ef_unit: UnitId) (ef_register: u8) (ef_value: u32) (ef_source: UnitId)
  | SpuLocalStoreWrite (ef_unit: UnitId) (ef_lsa: u32) (ef_ls_bytes: bytes) (ef_source: UnitId)
  | SpuLocalStoreRead (ef_unit: UnitId) (ef_lsa: u32) (ef_len: u32) (ef_source: UnitId)

datatype EffectKind =
    EK_SharedWriteIntent | EK_MailboxSend | EK_MailboxReceiveAttempt | EK_DmaEnqueue | EK_WaitOnEvent
  | EK_WakeUnit | EK_SignalUpdate | EK_FaultRaised | EK_TraceMarker | EK_ReservationAcquire
  | EK_ConditionalStore | EK_RsxLabelWrite | EK_RsxFlipRequest | EK_SharedReadIntent | EK_ClockRead
  | EK_MailboxPop | EK_MfcInvalidCommand | EK_SpuSignalWrite | EK_SpuLocalStoreWrite | EK_SpuLocalStoreRead

definition Effect_kind :: "Effect \<Rightarrow> EffectKind" where
  "Effect_kind e =
     (case e of
        SharedWriteIntent _ _ _ _ \<Rightarrow> EK_SharedWriteIntent
      | MailboxSend _ _ _ \<Rightarrow> EK_MailboxSend
      | MailboxReceiveAttempt _ _ \<Rightarrow> EK_MailboxReceiveAttempt
      | DmaEnqueue _ _ \<Rightarrow> EK_DmaEnqueue
      | WaitOnEvent _ _ \<Rightarrow> EK_WaitOnEvent
      | WakeUnit _ _ \<Rightarrow> EK_WakeUnit
      | SignalUpdate _ _ _ \<Rightarrow> EK_SignalUpdate
      | FaultRaised _ _ \<Rightarrow> EK_FaultRaised
      | TraceMarker _ _ \<Rightarrow> EK_TraceMarker
      | ReservationAcquire _ _ \<Rightarrow> EK_ReservationAcquire
      | ConditionalStore _ _ _ _ \<Rightarrow> EK_ConditionalStore
      | RsxLabelWrite _ _ \<Rightarrow> EK_RsxLabelWrite
      | RsxFlipRequest _ \<Rightarrow> EK_RsxFlipRequest
      | SharedReadIntent _ _ \<Rightarrow> EK_SharedReadIntent
      | ClockRead _ \<Rightarrow> EK_ClockRead
      | MailboxPop _ _ _ \<Rightarrow> EK_MailboxPop
      | MfcInvalidCommand _ _ \<Rightarrow> EK_MfcInvalidCommand
      | SpuSignalWrite _ _ _ _ \<Rightarrow> EK_SpuSignalWrite
      | SpuLocalStoreWrite _ _ _ _ \<Rightarrow> EK_SpuLocalStoreWrite
      | SpuLocalStoreRead _ _ _ _ \<Rightarrow> EK_SpuLocalStoreRead)"

definition Effect_shared_write :: "ByteRange \<Rightarrow> WritePayload \<Rightarrow> UnitId \<Rightarrow> GuestTicks \<Rightarrow> Effect" where
  "Effect_shared_write rng payload src time = SharedWriteIntent rng payload src time"

section \<open>Step results\<close>

datatype YieldReason =
    BudgetExhausted | MailboxAccess | DmaSubmitted | DmaWait | WaitingSync | Syscall
  | InterruptBoundary | Fault | Finished | ChannelStall

definition YieldReason_breaks_critical_section :: "YieldReason \<Rightarrow> bool" where
  "YieldReason_breaks_critical_section r =
     (case r of
        WaitingSync \<Rightarrow> True | DmaWait \<Rightarrow> True | ChannelStall \<Rightarrow> True | Finished \<Rightarrow> True | Fault \<Rightarrow> True
      | BudgetExhausted \<Rightarrow> False | MailboxAccess \<Rightarrow> False | DmaSubmitted \<Rightarrow> False | Syscall \<Rightarrow> False
      | InterruptBoundary \<Rightarrow> False)"

definition YieldReason_parks_without_an_effect :: "YieldReason \<Rightarrow> bool" where
  "YieldReason_parks_without_an_effect r =
     (case r of
        DmaWait \<Rightarrow> True | ChannelStall \<Rightarrow> True
      | WaitingSync \<Rightarrow> False | MailboxAccess \<Rightarrow> False | BudgetExhausted \<Rightarrow> False | DmaSubmitted \<Rightarrow> False
      | Syscall \<Rightarrow> False | InterruptBoundary \<Rightarrow> False | Fault \<Rightarrow> False | Finished \<Rightarrow> False)"

definition YieldReason_allows_trivial_fast_path :: "YieldReason \<Rightarrow> bool" where
  "YieldReason_allows_trivial_fast_path r =
     (case r of
        Syscall \<Rightarrow> False | Finished \<Rightarrow> False | ChannelStall \<Rightarrow> False
      | BudgetExhausted \<Rightarrow> True | MailboxAccess \<Rightarrow> True | DmaSubmitted \<Rightarrow> True | DmaWait \<Rightarrow> True
      | WaitingSync \<Rightarrow> True | InterruptBoundary \<Rightarrow> True | Fault \<Rightarrow> True)"

datatype UnitStatus = Runnable | Blocked | Faulted | Status_Finished | Suspended

record FaultRegisterDump =
  frd_gprs :: "u64 list"
  frd_lr :: u64
  frd_ctr :: u64
  frd_xer :: u64
  frd_cr :: u32

record DataAccessFault =
  daf_store :: bool
  daf_refused_by :: "string option"

record InterruptRecord =
  ir_vector :: u64
  ir_srr0 :: u64
  ir_srr1 :: u64
  ir_dsisr :: "u32 option"
  ir_dar :: "u64 option"

record LocalDiagnostics =
  ld_pc :: "u64 option"
  ld_lr :: "u64 option"
  ld_syscall_lev :: "u8 option"
  ld_faulting_ea :: "u64 option"
  ld_fault_regs :: "FaultRegisterDump option"
  ld_data_access :: "DataAccessFault option"
  ld_interrupt :: "InterruptRecord option"

definition LocalDiagnostics_empty :: LocalDiagnostics where
  "LocalDiagnostics_empty = \<lparr>ld_pc = None, ld_lr = None, ld_syscall_lev = None, ld_faulting_ea = None,
     ld_fault_regs = None, ld_data_access = None, ld_interrupt = None\<rparr>"

definition LocalDiagnostics_with_pc :: "u64 \<Rightarrow> LocalDiagnostics" where
  "LocalDiagnostics_with_pc pc = \<lparr>ld_pc = Some pc, ld_lr = None, ld_syscall_lev = None, ld_faulting_ea = None,
     ld_fault_regs = None, ld_data_access = None, ld_interrupt = None\<rparr>"

definition LocalDiagnostics_with_pc_ea :: "u64 \<Rightarrow> u64 \<Rightarrow> LocalDiagnostics" where
  "LocalDiagnostics_with_pc_ea pc ea = \<lparr>ld_pc = Some pc, ld_lr = None, ld_syscall_lev = None, ld_faulting_ea = Some ea,
     ld_fault_regs = None, ld_data_access = None, ld_interrupt = None\<rparr>"

definition LocalDiagnostics_with_pc_lr :: "u64 \<Rightarrow> u64 \<Rightarrow> LocalDiagnostics" where
  "LocalDiagnostics_with_pc_lr pc lr = \<lparr>ld_pc = Some pc, ld_lr = Some lr, ld_syscall_lev = None, ld_faulting_ea = None,
     ld_fault_regs = None, ld_data_access = None, ld_interrupt = None\<rparr>"

definition LocalDiagnostics_with_pc_lr_syscall_lev :: "u64 \<Rightarrow> u64 \<Rightarrow> u8 \<Rightarrow> LocalDiagnostics" where
  "LocalDiagnostics_with_pc_lr_syscall_lev pc lr lev = \<lparr>ld_pc = Some pc, ld_lr = Some lr, ld_syscall_lev = Some lev,
     ld_faulting_ea = None, ld_fault_regs = None, ld_data_access = None, ld_interrupt = None\<rparr>"

definition LocalDiagnostics_with_fault :: "u64 \<Rightarrow> u64 \<Rightarrow> FaultRegisterDump \<Rightarrow> LocalDiagnostics" where
  "LocalDiagnostics_with_fault pc ea regs = \<lparr>ld_pc = Some pc, ld_lr = None, ld_syscall_lev = None,
     ld_faulting_ea = Some ea, ld_fault_regs = Some regs, ld_data_access = None, ld_interrupt = None\<rparr>"

record ExecutionStepResult =
  sr_yield_reason :: YieldReason
  sr_consumed_cost :: InstructionCost
  sr_local_diagnostics :: LocalDiagnostics
  sr_fault :: "FaultKind option"
  sr_syscall_args :: "u64 list option"

definition ExecutionStepResult_is_well_formed :: "ExecutionStepResult \<Rightarrow> bool" where
  "ExecutionStepResult_is_well_formed r =
     (let fault_ok = (case (sr_yield_reason r, sr_fault r) of
                        (Fault, Some _) \<Rightarrow> True | (Fault, None) \<Rightarrow> False | (_, Some _) \<Rightarrow> False | (_, None) \<Rightarrow> True);
          syscall_ok = (case (sr_yield_reason r, sr_syscall_args r) of
                        (Syscall, Some _) \<Rightarrow> True | (Syscall, None) \<Rightarrow> False | (_, Some _) \<Rightarrow> False | (_, None) \<Rightarrow> True)
      in fault_ok \<and> syscall_ok)"

lemma step_result_well_formed_iff:
  "ExecutionStepResult_is_well_formed r \<longleftrightarrow>
     (sr_fault r \<noteq> None \<longleftrightarrow> sr_yield_reason r = Fault) \<and> (sr_syscall_args r \<noteq> None \<longleftrightarrow> sr_yield_reason r = Syscall)"
  by (cases "sr_yield_reason r"; cases "sr_fault r"; cases "sr_syscall_args r")
     (simp_all add: ExecutionStepResult_is_well_formed_def)

end
