(* ===== verification/Units.thy ===== *)
theory Units
  imports Effects
begin

text \<open>
  \<^verbatim>\<open>cellgov_core/src/registry\<close>: the unit registry with its status overrides and holds, the
  per-unit inboxes, the incremental unit-status hash and the per-unit clocks. A unit is a
  value of a type \<open>'u\<close>; the two methods of the trait \<^verbatim>\<open>RegisteredUnit\<close> the registry calls
  are parameters, \<open>st\<close> for \<^verbatim>\<open>status\<close> and \<open>uid\<close> for \<^verbatim>\<open>unit_id\<close>. A \<^verbatim>\<open>BTreeSet\<close> is a set,
  iterated in ascending order.
\<close>

section \<open>Status lanes\<close>

definition STATUS_KEY_SEED :: u64 where "STATUS_KEY_SEED = 0x756e697473746174"
definition RUNNABLE_KEY_SEED :: u64 where "RUNNABLE_KEY_SEED = 0x72756e6e61626c65"
definition RUNNABLE_LANE :: u64 where "RUNNABLE_LANE = 1"

definition status_key :: "u64 \<Rightarrow> u128" where
  "status_key k = indexed_key STATUS_KEY_SEED k"

definition runnable_key :: "u64 \<Rightarrow> u128" where
  "runnable_key k = indexed_key RUNNABLE_KEY_SEED k"

definition status_byte :: "UnitStatus \<Rightarrow> u8" where
  "status_byte s = (case s of Runnable \<Rightarrow> 0 | Blocked \<Rightarrow> 1 | Faulted \<Rightarrow> 2 | Status_Finished \<Rightarrow> 3 | Suspended \<Rightarrow> 4)"

definition status_lane :: "UnitStatus option \<Rightarrow> u64" where
  "status_lane s = (case s of None \<Rightarrow> 0 | Some s \<Rightarrow> ucast (status_byte s) + 1)"

record LaneSums =
  ls_status :: u128
  ls_runnable :: u128

record StatusLanes =
  sl_sums :: LaneSums
  sl_lanes :: "u64 list"
  sl_stale :: "bool list"
  sl_stale_ids :: "UnitId list"

definition StatusLanes_default :: StatusLanes where
  "StatusLanes_default = \<lparr>sl_sums = \<lparr>ls_status = status_key 0, ls_runnable = runnable_key 0\<rparr>,
     sl_lanes = [], sl_stale = [], sl_stale_ids = []\<rparr>"

definition vec_resize :: "nat \<Rightarrow> 'a \<Rightarrow> 'a list \<Rightarrow> 'a list" where
  "vec_resize n x xs = take n xs @ replicate (n - length xs) x"

definition StatusLanes_mark :: "UnitId \<Rightarrow> StatusLanes \<Rightarrow> StatusLanes" where
  "StatusLanes_mark uid s =
     (let i = unat (UnitId_raw uid);
          s = (if i \<ge> length (sl_stale s)
               then s\<lparr>sl_stale := vec_resize (i + 1) False (sl_stale s), sl_lanes := vec_resize (i + 1) 0 (sl_lanes s)\<rparr>
               else s)
      in if \<not> sl_stale s ! i
         then s\<lparr>sl_stale := (sl_stale s)[i := True], sl_stale_ids := sl_stale_ids s @ [uid]\<rparr>
         else s)"

text \<open>One turn of the refresh loop, for the stale id \<open>uid\<close>.\<close>

definition refresh_id :: "(UnitId \<Rightarrow> u64) \<Rightarrow> UnitId \<Rightarrow> StatusLanes \<Rightarrow> StatusLanes" where
  "refresh_id lane_of uid s =
     (let i = unat (UnitId_raw uid);
          new = lane_of uid;
          old = sl_lanes s ! i;
          s = (if new \<noteq> old
               then let k = UnitId_raw uid + 1;
                        delta = ucast new - ucast old;
                        sums = sl_sums s;
                        sums = sums\<lparr>ls_status := ls_status sums + status_key k * delta\<rparr>;
                        sums = (if old = RUNNABLE_LANE then sums\<lparr>ls_runnable := ls_runnable sums - runnable_key k\<rparr>
                                else if new = RUNNABLE_LANE then sums\<lparr>ls_runnable := ls_runnable sums + runnable_key k\<rparr>
                                else sums)
                    in s\<lparr>sl_sums := sums, sl_lanes := (sl_lanes s)[i := new]\<rparr>
               else s)
      in s\<lparr>sl_stale := (sl_stale s)[i := False]\<rparr>)"

definition StatusLanes_refresh :: "(UnitId \<Rightarrow> u64) \<Rightarrow> StatusLanes \<Rightarrow> LaneSums \<times> StatusLanes" where
  "StatusLanes_refresh lane_of s =
     (let s' = fold (refresh_id lane_of) (sl_stale_ids s) (s\<lparr>sl_stale_ids := []\<rparr>)
      in (sl_sums s', s'))"

section \<open>The registry\<close>

record 'u UnitRegistry =
  ur_next_id :: u64
  ur_units :: "(UnitId, 'u) btree"
  ur_status_overrides :: "(UnitId, UnitStatus) btree"
  ur_suspended :: "UnitId set"
  ur_off_core :: "UnitId set"
  ur_pending_receives :: "(UnitId, u32 list) btree"
  ur_pending_syscall_returns :: "(UnitId, u64) btree"
  ur_pending_register_writes :: "(UnitId, (u8 \<times> u64) list) btree"
  ur_status_lanes :: StatusLanes
  ur_clocks :: "(UnitId, GuestTicks) btree"
  ur_parked :: "UnitId set"
  ur_clock_watch :: "UnitId list"
  ur_runnable_clocks :: "(GuestTicks \<times> UnitId) list"

definition UnitRegistry_new :: "'u UnitRegistry" where
  "UnitRegistry_new = \<lparr>ur_next_id = 0, ur_units = [], ur_status_overrides = [], ur_suspended = {}, ur_off_core = {},
     ur_pending_receives = [], ur_pending_syscall_returns = [], ur_pending_register_writes = [],
     ur_status_lanes = StatusLanes_default, ur_clocks = [], ur_parked = {}, ur_clock_watch = [], ur_runnable_clocks = []\<rparr>"

definition UnitRegistry_len :: "'u UnitRegistry \<Rightarrow> usize" where
  "UnitRegistry_len r = length (ur_units r)"

definition UnitRegistry_is_empty :: "'u UnitRegistry \<Rightarrow> bool" where
  "UnitRegistry_is_empty r \<longleftrightarrow> ur_units r = []"

definition watch_clock :: "UnitId \<Rightarrow> UnitId list \<Rightarrow> UnitId list" where
  "watch_clock uid watch = (if uid \<in> set watch then watch else watch @ [uid])"

definition UnitRegistry_mark_status :: "UnitId \<Rightarrow> 'u UnitRegistry \<Rightarrow> 'u UnitRegistry" where
  "UnitRegistry_mark_status uid r =
     r\<lparr>ur_status_lanes := StatusLanes_mark uid (ur_status_lanes r),
       ur_clock_watch := watch_clock uid (ur_clock_watch r)\<rparr>"

text \<open>Registration with a fallible factory; \<^const>\<open>None\<close> is the panic on a unit with another id.\<close>

definition UnitRegistry_try_register_dynamic ::
    "('u \<Rightarrow> UnitId) \<Rightarrow> (UnitId \<Rightarrow> 'e + 'u) \<Rightarrow> 'u UnitRegistry \<Rightarrow> ('e + UnitId \<times> 'u UnitRegistry) option" where
  "UnitRegistry_try_register_dynamic uid factory r =
     (let nid = UnitId (ur_next_id r)
      in case factory nid of
           Inl e \<Rightarrow> Some (Inl e)
         | Inr u \<Rightarrow>
             (if uid u \<noteq> nid then None
              else let r = r\<lparr>ur_next_id := ur_next_id r + 1\<rparr>;
                       r = r\<lparr>ur_units := btree_insert nid u (ur_units r)\<rparr>
                   in Some (Inr (nid, UnitRegistry_mark_status nid r))))"

definition UnitRegistry_register_dynamic ::
    "('u \<Rightarrow> UnitId) \<Rightarrow> (UnitId \<Rightarrow> 'u) \<Rightarrow> 'u UnitRegistry \<Rightarrow> (UnitId \<times> 'u UnitRegistry) option" where
  "UnitRegistry_register_dynamic uid factory r =
     (let nid = UnitId (ur_next_id r); u = factory nid
      in if uid u \<noteq> nid then None
         else let r = r\<lparr>ur_next_id := ur_next_id r + 1\<rparr>;
                  r = r\<lparr>ur_units := btree_insert nid u (ur_units r)\<rparr>
              in Some (nid, UnitRegistry_mark_status nid r))"

text \<open>\<^verbatim>\<open>register_with\<close> boxes the unit of a typed factory.\<close>

definition UnitRegistry_register_with ::
    "('u \<Rightarrow> UnitId) \<Rightarrow> (UnitId \<Rightarrow> 'u) \<Rightarrow> 'u UnitRegistry \<Rightarrow> (UnitId \<times> 'u UnitRegistry) option" where
  "UnitRegistry_register_with uid factory r =
     (let nid = UnitId (ur_next_id r); u = factory nid
      in if uid u \<noteq> nid then None
         else let r = r\<lparr>ur_next_id := ur_next_id r + 1\<rparr>;
                  r = r\<lparr>ur_units := btree_insert nid u (ur_units r)\<rparr>
              in Some (nid, UnitRegistry_mark_status nid r))"

section \<open>Access\<close>

definition UnitRegistry_get :: "'u UnitRegistry \<Rightarrow> UnitId \<Rightarrow> 'u option" where
  "UnitRegistry_get r uid = map_of (ur_units r) uid"

text \<open>\<^verbatim>\<open>get_mut\<close>: the caller changes the borrowed unit with \<open>f\<close>.\<close>

definition UnitRegistry_get_mut :: "UnitId \<Rightarrow> ('u \<Rightarrow> 'a \<times> 'u) \<Rightarrow> 'u UnitRegistry \<Rightarrow> ('a \<times> 'u UnitRegistry) option" where
  "UnitRegistry_get_mut uid f r =
     (case map_of (ur_units r) uid of
        None \<Rightarrow> None
      | Some u \<Rightarrow>
          (let r = r\<lparr>ur_status_lanes := StatusLanes_mark uid (ur_status_lanes r)\<rparr>;
               r = r\<lparr>ur_clock_watch := watch_clock uid (ur_clock_watch r)\<rparr>;
               (a, u') = f u
           in Some (a, r\<lparr>ur_units := btree_insert uid u' (ur_units r)\<rparr>)))"

definition UnitRegistry_iter :: "'u UnitRegistry \<Rightarrow> (UnitId \<times> 'u) list" where
  "UnitRegistry_iter r = ur_units r"

text \<open>
  A full pass of \<^verbatim>\<open>iter_mut\<close>: each unit is marked as it is handed out, and the caller
  changes it with \<open>f\<close>. The units with a code cache are handed out unmarked.
\<close>

definition UnitRegistry_iter_mut :: "(UnitId \<Rightarrow> 'u \<Rightarrow> 'u) \<Rightarrow> 'u UnitRegistry \<Rightarrow> 'u UnitRegistry" where
  "UnitRegistry_iter_mut f r =
     foldl (\<lambda>r (uid, u).
         let r = r\<lparr>ur_status_lanes := StatusLanes_mark uid (ur_status_lanes r)\<rparr>;
             r = r\<lparr>ur_clock_watch := watch_clock uid (ur_clock_watch r)\<rparr>
         in r\<lparr>ur_units := btree_insert uid (f uid u) (ur_units r)\<rparr>) r (ur_units r)"

definition UnitRegistry_code_caches_mut :: "('u \<Rightarrow> bool) \<Rightarrow> ('u \<Rightarrow> 'u) \<Rightarrow> 'u UnitRegistry \<Rightarrow> 'u UnitRegistry" where
  "UnitRegistry_code_caches_mut caches_code f r =
     r\<lparr>ur_units := map (\<lambda>(uid, u). (uid, if caches_code u then f u else u)) (ur_units r)\<rparr>"

definition UnitRegistry_ids :: "'u UnitRegistry \<Rightarrow> UnitId list" where
  "UnitRegistry_ids r = map fst (ur_units r)"

section \<open>Statuses\<close>

definition UnitRegistry_status_beneath_hold :: "('u \<Rightarrow> UnitStatus) \<Rightarrow> 'u UnitRegistry \<Rightarrow> UnitId \<Rightarrow> UnitStatus option" where
  "UnitRegistry_status_beneath_hold st r uid =
     (case map_of (ur_units r) uid of
        None \<Rightarrow> None
      | Some u \<Rightarrow> Some (case map_of (ur_status_overrides r) uid of Some s \<Rightarrow> s | None \<Rightarrow> st u))"

definition UnitRegistry_effective_status :: "('u \<Rightarrow> UnitStatus) \<Rightarrow> 'u UnitRegistry \<Rightarrow> UnitId \<Rightarrow> UnitStatus option" where
  "UnitRegistry_effective_status st r uid =
     (case UnitRegistry_status_beneath_hold st r uid of
        None \<Rightarrow> None
      | Some status \<Rightarrow>
          (let held = (ur_suspended r \<noteq> {} \<and> (status = Runnable \<or> status = Blocked) \<and> uid \<in> ur_suspended r) \<or>
                      (status = Runnable \<and> uid \<in> ur_off_core r)
           in Some (if held then Suspended else status)))"

definition UnitRegistry_runnable_ids :: "('u \<Rightarrow> UnitStatus) \<Rightarrow> 'u UnitRegistry \<Rightarrow> UnitId list" where
  "UnitRegistry_runnable_ids st r =
     filter (\<lambda>uid. UnitRegistry_effective_status st r uid = Some Runnable) (UnitRegistry_ids r)"

definition UnitRegistry_is_suspended :: "'u UnitRegistry \<Rightarrow> UnitId \<Rightarrow> bool" where
  "UnitRegistry_is_suspended r uid \<longleftrightarrow> uid \<in> ur_suspended r"

definition UnitRegistry_set_off_core :: "UnitId set \<Rightarrow> 'u UnitRegistry \<Rightarrow> 'u UnitRegistry" where
  "UnitRegistry_set_off_core off_core r =
     (if ur_off_core r = off_core then r
      else let changed = sorted_list_of_set ((ur_off_core r - off_core) \<union> (off_core - ur_off_core r));
               r = r\<lparr>ur_off_core := off_core\<rparr>
           in fold (\<lambda>uid r. if btree_contains (ur_units r) uid then UnitRegistry_mark_status uid r else r) changed r)"

definition UnitRegistry_is_off_core :: "('u \<Rightarrow> UnitStatus) \<Rightarrow> 'u UnitRegistry \<Rightarrow> UnitId \<Rightarrow> bool" where
  "UnitRegistry_is_off_core st r uid \<longleftrightarrow>
     uid \<in> ur_off_core r \<and> UnitRegistry_status_beneath_hold st r uid = Some Runnable"

definition UnitRegistry_any_off_core :: "('u \<Rightarrow> UnitStatus) \<Rightarrow> 'u UnitRegistry \<Rightarrow> bool" where
  "UnitRegistry_any_off_core st r \<longleftrightarrow>
     (\<exists>uid \<in> ur_off_core r. UnitRegistry_status_beneath_hold st r uid = Some Runnable)"

definition UnitRegistry_set_suspended :: "UnitId \<Rightarrow> bool \<Rightarrow> 'u UnitRegistry \<Rightarrow> 'u UnitRegistry" where
  "UnitRegistry_set_suspended uid suspended r =
     (if \<not> btree_contains (ur_units r) uid then r
      else let changed = (if suspended then uid \<notin> ur_suspended r else uid \<in> ur_suspended r);
               r = r\<lparr>ur_suspended := (if suspended then insert uid (ur_suspended r) else ur_suspended r - {uid})\<rparr>
           in if changed then UnitRegistry_mark_status uid r else r)"

definition UnitRegistry_status_override :: "'u UnitRegistry \<Rightarrow> UnitId \<Rightarrow> UnitStatus option" where
  "UnitRegistry_status_override r uid = map_of (ur_status_overrides r) uid"

definition UnitRegistry_set_status_override :: "UnitId \<Rightarrow> UnitStatus \<Rightarrow> 'u UnitRegistry \<Rightarrow> 'u UnitRegistry" where
  "UnitRegistry_set_status_override uid status r =
     (if btree_contains (ur_units r) uid
      then UnitRegistry_mark_status uid (r\<lparr>ur_status_overrides := btree_insert uid status (ur_status_overrides r)\<rparr>)
      else r)"

definition UnitRegistry_clear_status_override :: "UnitId \<Rightarrow> 'u UnitRegistry \<Rightarrow> 'u UnitRegistry" where
  "UnitRegistry_clear_status_override uid r =
     (if ur_status_overrides r = [] then r
      else let removed = map_of (ur_status_overrides r) uid;
               r = r\<lparr>ur_status_overrides := btree_remove uid (ur_status_overrides r)\<rparr>
           in if removed \<noteq> None then UnitRegistry_mark_status uid r else r)"

section \<open>Pending deliveries\<close>

definition or_default_push :: "UnitId \<Rightarrow> 'a \<Rightarrow> (UnitId, 'a list) btree \<Rightarrow> (UnitId, 'a list) btree" where
  "or_default_push uid x m =
     btree_insert uid ((case map_of m uid of None \<Rightarrow> [] | Some xs \<Rightarrow> xs) @ [x]) m"

definition UnitRegistry_push_receive :: "UnitId \<Rightarrow> u32 \<Rightarrow> 'u UnitRegistry \<Rightarrow> 'u UnitRegistry" where
  "UnitRegistry_push_receive uid message r =
     (if \<not> btree_contains (ur_units r) uid then r
      else r\<lparr>ur_pending_receives := or_default_push uid message (ur_pending_receives r)\<rparr>)"

definition UnitRegistry_drain_receives :: "UnitId \<Rightarrow> 'u UnitRegistry \<Rightarrow> u32 list \<times> 'u UnitRegistry" where
  "UnitRegistry_drain_receives uid r =
     (if ur_pending_receives r = [] then ([], r)
      else ((case map_of (ur_pending_receives r) uid of None \<Rightarrow> [] | Some xs \<Rightarrow> xs),
            r\<lparr>ur_pending_receives := btree_remove uid (ur_pending_receives r)\<rparr>))"

definition UnitRegistry_set_syscall_return :: "UnitId \<Rightarrow> u64 \<Rightarrow> 'u UnitRegistry \<Rightarrow> 'u UnitRegistry" where
  "UnitRegistry_set_syscall_return uid code r =
     (if \<not> btree_contains (ur_units r) uid then r
      else r\<lparr>ur_pending_syscall_returns := btree_insert uid code (ur_pending_syscall_returns r)\<rparr>)"

definition UnitRegistry_drain_syscall_return :: "UnitId \<Rightarrow> 'u UnitRegistry \<Rightarrow> u64 option \<times> 'u UnitRegistry" where
  "UnitRegistry_drain_syscall_return uid r =
     (if ur_pending_syscall_returns r = [] then (None, r)
      else (map_of (ur_pending_syscall_returns r) uid,
            r\<lparr>ur_pending_syscall_returns := btree_remove uid (ur_pending_syscall_returns r)\<rparr>))"

definition UnitRegistry_push_register_write :: "UnitId \<Rightarrow> u8 \<Rightarrow> u64 \<Rightarrow> 'u UnitRegistry \<Rightarrow> 'u UnitRegistry" where
  "UnitRegistry_push_register_write uid reg val r =
     (if \<not> btree_contains (ur_units r) uid then r
      else r\<lparr>ur_pending_register_writes := or_default_push uid (reg, val) (ur_pending_register_writes r)\<rparr>)"

definition UnitRegistry_drain_register_writes :: "UnitId \<Rightarrow> 'u UnitRegistry \<Rightarrow> (u8 \<times> u64) list \<times> 'u UnitRegistry" where
  "UnitRegistry_drain_register_writes uid r =
     (if ur_pending_register_writes r = [] then ([], r)
      else ((case map_of (ur_pending_register_writes r) uid of None \<Rightarrow> [] | Some xs \<Rightarrow> xs),
            r\<lparr>ur_pending_register_writes := btree_remove uid (ur_pending_register_writes r)\<rparr>))"

section \<open>Clocks\<close>

definition UnitRegistry_clock :: "'u UnitRegistry \<Rightarrow> UnitId \<Rightarrow> GuestTicks" where
  "UnitRegistry_clock r uid = (case map_of (ur_clocks r) uid of None \<Rightarrow> GuestTicks_ZERO | Some t \<Rightarrow> t)"

definition list_min :: "'a::linorder list \<Rightarrow> 'a option" where
  "list_min xs = (case xs of [] \<Rightarrow> None | x # xs \<Rightarrow> Some (fold min xs x))"

definition UnitRegistry_lowest_runnable :: "('u \<Rightarrow> UnitStatus) \<Rightarrow> 'u UnitRegistry \<Rightarrow> (GuestTicks \<times> UnitId) option" where
  "UnitRegistry_lowest_runnable st r =
     (if ur_clock_watch r = []
      then (case ur_runnable_clocks r of [] \<Rightarrow> None | e # _ \<Rightarrow> Some e)
      else list_min (map (\<lambda>uid. (UnitRegistry_clock r uid, uid)) (UnitRegistry_runnable_ids st r)))"

definition UnitRegistry_lowest_runnable_clock :: "('u \<Rightarrow> UnitStatus) \<Rightarrow> 'u UnitRegistry \<Rightarrow> GuestTicks option" where
  "UnitRegistry_lowest_runnable_clock st r = map_option fst (UnitRegistry_lowest_runnable st r)"

fun remove_first :: "('a \<Rightarrow> bool) \<Rightarrow> 'a list \<Rightarrow> 'a list" where
  "remove_first P [] = []"
| "remove_first P (x # xs) = (if P x then xs else x # remove_first P xs)"

definition UnitRegistry_unindex_runnable :: "UnitId \<Rightarrow> 'u UnitRegistry \<Rightarrow> bool \<times> 'u UnitRegistry" where
  "UnitRegistry_unindex_runnable uid r =
     (if \<exists>e \<in> set (ur_runnable_clocks r). snd e = uid
      then (True, r\<lparr>ur_runnable_clocks := remove_first (\<lambda>e. snd e = uid) (ur_runnable_clocks r)\<rparr>)
      else (False, r))"

definition UnitRegistry_index_runnable :: "GuestTicks \<Rightarrow> UnitId \<Rightarrow> 'u UnitRegistry \<Rightarrow> 'u UnitRegistry" where
  "UnitRegistry_index_runnable clock uid r =
     (let key = (clock, uid); es = ur_runnable_clocks r
      in r\<lparr>ur_runnable_clocks := takeWhile (\<lambda>e. e < key) es @ key # dropWhile (\<lambda>e. e < key) es\<rparr>)"

definition UnitRegistry_set_clock :: "UnitId \<Rightarrow> GuestTicks \<Rightarrow> 'u UnitRegistry \<Rightarrow> 'u UnitRegistry" where
  "UnitRegistry_set_clock uid tick r =
     (if btree_contains (ur_units r) uid
      then let r = r\<lparr>ur_clocks := btree_insert uid tick (ur_clocks r)\<rparr>;
               (was, r) = UnitRegistry_unindex_runnable uid r
           in if was then UnitRegistry_index_runnable tick uid r else r
      else r)"

text \<open>One turn of the clock sync, for the marked unit \<open>uid\<close>.\<close>

definition sync_clock :: "('u \<Rightarrow> UnitStatus) \<Rightarrow> GuestTicks \<Rightarrow> UnitId \<Rightarrow> 'u UnitRegistry \<Rightarrow> 'u UnitRegistry" where
  "sync_clock st now uid r =
     (let status = UnitRegistry_effective_status st r uid;
          clock = (case map_of (ur_clocks r) uid of None \<Rightarrow> now | Some t \<Rightarrow> t);
          clock = (if status = Some Runnable \<and> uid \<in> ur_parked r \<and> clock < now then now else clock);
          r = r\<lparr>ur_clocks := btree_insert uid clock (ur_clocks r)\<rparr>;
          r = r\<lparr>ur_parked := (case status of
                                 Some s \<Rightarrow> (if s \<noteq> Runnable then insert uid (ur_parked r) else ur_parked r - {uid})
                               | None \<Rightarrow> ur_parked r - {uid})\<rparr>;
          r = snd (UnitRegistry_unindex_runnable uid r)
      in if status = Some Runnable then UnitRegistry_index_runnable clock uid r else r)"

definition UnitRegistry_sync_clocks :: "('u \<Rightarrow> UnitStatus) \<Rightarrow> GuestTicks \<Rightarrow> 'u UnitRegistry \<Rightarrow> 'u UnitRegistry" where
  "UnitRegistry_sync_clocks st now r =
     (let watch = ur_clock_watch r;
          r = r\<lparr>ur_clock_watch := []\<rparr>;
          r = fold (sync_clock st now) watch r
      in r\<lparr>ur_clock_watch := []\<rparr>)"

section \<open>Hashes\<close>

definition UnitRegistry_refresh_lanes :: "('u \<Rightarrow> UnitStatus) \<Rightarrow> 'u UnitRegistry \<Rightarrow> LaneSums \<times> 'u UnitRegistry" where
  "UnitRegistry_refresh_lanes st r =
     (let (sums, lanes) = StatusLanes_refresh (\<lambda>uid. status_lane (UnitRegistry_effective_status st r uid)) (ur_status_lanes r)
      in (sums, r\<lparr>ur_status_lanes := lanes\<rparr>))"

definition UnitRegistry_runnable_queue_hash :: "('u \<Rightarrow> UnitStatus) \<Rightarrow> 'u UnitRegistry \<Rightarrow> u64 \<times> 'u UnitRegistry" where
  "UnitRegistry_runnable_queue_hash st r =
     (let (sums, r) = UnitRegistry_refresh_lanes st r in (ucast (drop_bit 64 (ls_runnable sums)), r))"

definition UnitRegistry_runnable_queue_hash_from_scratch :: "('u \<Rightarrow> UnitStatus) \<Rightarrow> 'u UnitRegistry \<Rightarrow> u64" where
  "UnitRegistry_runnable_queue_hash_from_scratch st r =
     ucast (drop_bit 64 (foldl (\<lambda>acc uid.
         if UnitRegistry_effective_status st r uid = Some Runnable then acc + runnable_key (UnitId_raw uid + 1) else acc)
       (runnable_key 0) (UnitRegistry_ids r)))"

definition UnitRegistry_status_hash :: "('u \<Rightarrow> UnitStatus) \<Rightarrow> 'u UnitRegistry \<Rightarrow> u64 \<times> 'u UnitRegistry" where
  "UnitRegistry_status_hash st r =
     (let (sums, r) = UnitRegistry_refresh_lanes st r in (ucast (drop_bit 64 (ls_status sums)), r))"

definition UnitRegistry_status_hash_from_scratch :: "('u \<Rightarrow> UnitStatus) \<Rightarrow> 'u UnitRegistry \<Rightarrow> u64" where
  "UnitRegistry_status_hash_from_scratch st r =
     ucast (drop_bit 64 (foldl (\<lambda>acc uid.
         acc + status_key (UnitId_raw uid + 1) * ucast (status_lane (UnitRegistry_effective_status st r uid)))
       (status_key 0) (UnitRegistry_ids r)))"

end
