(* ===== verification/Unit_Views.thy ===== *)
theory Unit_Views
  imports Units
begin

text \<open>
  The two caches of the unit registry, the status lanes and the clock index, are told which
  units may have changed and are brought up to date from the units on the next read. The
  locale \<open>marked_cache\<close> is the contract of such a cache; both caches and the registry as a
  whole are instances of it, and every operation of the registry keeps them consistent.
\<close>

section \<open>A cache that is told what changed\<close>

locale marked_cache =
  fixes inv :: "('k \<Rightarrow> 'v) \<Rightarrow> 's \<Rightarrow> bool"
    and mark :: "'k \<Rightarrow> 's \<Rightarrow> 's"
  assumes inv_mark: "inv vw s \<Longrightarrow> inv (vw(k := v)) (mark k s)"
begin

lemma inv_changed_at: "inv vw s \<Longrightarrow> (\<And>j. j \<noteq> k \<Longrightarrow> vw' j = vw j) \<Longrightarrow> inv vw' (mark k s)"
  using inv_mark [of vw s k "vw' k"] by (metis fun_upd_idem_iff fun_upd_other ext fun_upd_apply)

lemma inv_mark_same: "inv vw s \<Longrightarrow> inv vw (mark k s)"
  using inv_mark [of vw s k "vw k"] by simp

lemma inv_changed_on:
  "inv vw s \<Longrightarrow> (\<And>j. j \<notin> set ks \<Longrightarrow> vw' j = vw j) \<Longrightarrow> inv vw' (fold mark ks s)"
proof (induction ks arbitrary: vw s)
  case Nil
  then have "vw' = vw" by auto
  with Nil show ?case by simp
next
  case (Cons k ks)
  have "inv (vw(k := vw' k)) (mark k s)" by (rule inv_mark) (rule Cons.prems(1))
  from Cons.IH [OF this] Cons.prems(2) show ?case by simp
qed

end

section \<open>The status lanes\<close>

definition lane_at :: "StatusLanes \<Rightarrow> UnitId \<Rightarrow> u64" where
  "lane_at s u = (if unat (UnitId_raw u) < length (sl_lanes s) then sl_lanes s ! unat (UnitId_raw u) else 0)"

definition unit_at :: "nat \<Rightarrow> UnitId" where "unit_at i = UnitId (of_nat i)"

definition lanes_status :: "u64 list \<Rightarrow> u128" where
  "lanes_status ls = status_key 0 + (\<Sum>i < length ls. status_key (of_nat i + 1) * ucast (ls ! i))"

definition lanes_runnable :: "u64 list \<Rightarrow> u128" where
  "lanes_runnable ls =
     runnable_key 0 + (\<Sum>i < length ls. if ls ! i = RUNNABLE_LANE then runnable_key (of_nat i + 1) else 0)"

definition sums_ok :: "StatusLanes \<Rightarrow> bool" where
  "sums_ok s \<longleftrightarrow> ls_status (sl_sums s) = lanes_status (sl_lanes s) \<and> ls_runnable (sl_sums s) = lanes_runnable (sl_lanes s)"

definition sl_inv :: "(UnitId \<Rightarrow> u64) \<Rightarrow> StatusLanes \<Rightarrow> bool" where
  "sl_inv lane_of s \<longleftrightarrow>
     length (sl_stale s) = length (sl_lanes s) \<and> length (sl_lanes s) \<le> 2 ^ 64 \<and> sums_ok s \<and>
     distinct (sl_stale_ids s) \<and>
     (\<forall>u \<in> set (sl_stale_ids s). unat (UnitId_raw u) < length (sl_stale s)) \<and>
     (\<forall>u. unat (UnitId_raw u) < length (sl_stale s) \<longrightarrow> (sl_stale s ! unat (UnitId_raw u) \<longleftrightarrow> u \<in> set (sl_stale_ids s))) \<and>
     (\<forall>u. u \<notin> set (sl_stale_ids s) \<longrightarrow> lane_at s u = lane_of u)"

lemma unit_raw_eqI: "unat (UnitId_raw u) = unat (UnitId_raw v) \<Longrightarrow> u = v"
  by (metis UnitId.expand unat_eqI)

lemma sl_inv_default: "sl_inv (\<lambda>_. 0) StatusLanes_default"
  by (simp add: sl_inv_def StatusLanes_default_def sums_ok_def lanes_status_def lanes_runnable_def lane_at_def)

lemma sum_list_update:
  fixes f :: "nat \<Rightarrow> 'a \<Rightarrow> 'b::ab_group_add"
  assumes "i < length ls"
  shows "(\<Sum>j < length ls. f j (ls[i := x] ! j)) = (\<Sum>j < length ls. f j (ls ! j)) - f i (ls ! i) + f i x"
proof -
  have "(\<Sum>j < length ls. f j (ls[i := x] ! j)) = f i x + (\<Sum>j \<in> {..<length ls} - {i}. f j (ls ! j))"
    using assms by (subst sum.remove [of _ i]) (auto intro!: sum.cong)
  moreover have "(\<Sum>j < length ls. f j (ls ! j)) = f i (ls ! i) + (\<Sum>j \<in> {..<length ls} - {i}. f j (ls ! j))"
    using assms by (subst sum.remove [of _ i]) auto
  ultimately show ?thesis by simp
qed

lemma sum_append_zeros:
  fixes f :: "nat \<Rightarrow> 'a \<Rightarrow> 'b::comm_monoid_add"
  assumes "\<And>i. f i z = 0"
  shows "(\<Sum>i < length ls + n. f i ((ls @ replicate n z) ! i)) = (\<Sum>i < length ls. f i (ls ! i))"
proof -
  have "(\<Sum>i < length ls + n. f i ((ls @ replicate n z) ! i)) = (\<Sum>i < length ls. f i ((ls @ replicate n z) ! i))"
    by (rule sum.mono_neutral_right) (auto simp: nth_append assms)
  then show ?thesis by (simp add: nth_append)
qed

lemma lanes_append_zeros [simp]:
  "lanes_status (ls @ replicate n 0) = lanes_status ls" "lanes_runnable (ls @ replicate n 0) = lanes_runnable ls"
  by (simp_all add: lanes_status_def lanes_runnable_def RUNNABLE_LANE_def
        sum_append_zeros [where f = "\<lambda>i l. status_key (of_nat i + 1) * ucast l"]
        sum_append_zeros [where f = "\<lambda>i l. if l = 1 then runnable_key (of_nat i + 1) else 0"])

subsection \<open>Marking\<close>

text \<open>Growing the vectors to reach an index changes no lane.\<close>

definition sl_grow :: "nat \<Rightarrow> StatusLanes \<Rightarrow> StatusLanes" where
  "sl_grow n s = s\<lparr>sl_stale := sl_stale s @ replicate n False, sl_lanes := sl_lanes s @ replicate n 0\<rparr>"

lemma sl_inv_grow:
  assumes "sl_inv lane_of s" and "length (sl_lanes s) + n \<le> 2 ^ 64"
  shows "sl_inv lane_of (sl_grow n s)"
proof -
  have "lane_at (sl_grow n s) u = lane_at s u" for u
    by (auto simp: lane_at_def sl_grow_def nth_append)
  then show ?thesis using assms
    by (auto simp: sl_inv_def sl_grow_def sums_ok_def nth_append)
qed

lemma vec_resize_grow: "length xs \<le> n \<Longrightarrow> vec_resize n x xs = xs @ replicate (n - length xs) x"
  by (simp add: vec_resize_def)

lemma StatusLanes_mark_grow:
  assumes "sl_inv lane_of s"
  obtains s' where "sl_inv lane_of s'" and "unat (UnitId_raw u) < length (sl_stale s')"
    and "StatusLanes_mark u s =
       (if \<not> sl_stale s' ! unat (UnitId_raw u)
        then s'\<lparr>sl_stale := (sl_stale s')[unat (UnitId_raw u) := True], sl_stale_ids := sl_stale_ids s' @ [u]\<rparr> else s')"
proof (cases "unat (UnitId_raw u) < length (sl_stale s)")
  case True
  with assms show ?thesis by (intro that [of s]) (simp_all add: StatusLanes_mark_def Let_def)
next
  case False
  let ?n = "unat (UnitId_raw u) + 1 - length (sl_lanes s)"
  have len: "length (sl_stale s) = length (sl_lanes s)" using assms by (simp add: sl_inv_def)
  have "unat (UnitId_raw u) < 2 ^ 64" using unat_lt_2p [of "UnitId_raw u"] by simp
  then have "sl_inv lane_of (sl_grow ?n s)"
    using assms False len by (intro sl_inv_grow) (auto simp: sl_inv_def)
  with False len show ?thesis
    by (intro that [of "sl_grow ?n s"]) (simp_all add: StatusLanes_mark_def Let_def sl_grow_def vec_resize_grow)
qed

interpretation status_cache: marked_cache sl_inv StatusLanes_mark
proof
  fix lane_of s u l
  assume "sl_inv lane_of s"
  then obtain s' where inv: "sl_inv lane_of s'" and lt: "unat (UnitId_raw u) < length (sl_stale s')"
    and eq: "StatusLanes_mark u s =
       (if \<not> sl_stale s' ! unat (UnitId_raw u)
        then s'\<lparr>sl_stale := (sl_stale s')[unat (UnitId_raw u) := True], sl_stale_ids := sl_stale_ids s' @ [u]\<rparr> else s')"
    by (rule StatusLanes_mark_grow)
  show "sl_inv (lane_of(u := l)) (StatusLanes_mark u s)"
  proof (cases "sl_stale s' ! unat (UnitId_raw u)")
    case True
    with inv lt eq show ?thesis by (auto simp: sl_inv_def)
  next
    case False
    with inv lt have "u \<notin> set (sl_stale_ids s')" by (simp add: sl_inv_def)
    with False inv lt eq show ?thesis
      by (auto simp: sl_inv_def sums_ok_def lane_at_def nth_list_update dest: unit_raw_eqI)
  qed
qed

subsection \<open>Refreshing\<close>

lemma lanes_status_update:
  "i < length ls \<Longrightarrow>
   lanes_status (ls[i := l]) = lanes_status ls + status_key (of_nat i + 1) * (ucast l - ucast (ls ! i))"
  using sum_list_update [where f = "\<lambda>i l. status_key (of_nat i + 1) * ucast l" and ls = ls and x = l]
  by (simp add: lanes_status_def algebra_simps)

lemma lanes_runnable_update:
  "i < length ls \<Longrightarrow>
   lanes_runnable (ls[i := l]) = lanes_runnable ls
     - (if ls ! i = RUNNABLE_LANE then runnable_key (of_nat i + 1) else 0)
     + (if l = RUNNABLE_LANE then runnable_key (of_nat i + 1) else 0)"
  using sum_list_update [where f = "\<lambda>i l. if l = RUNNABLE_LANE then runnable_key (of_nat i + 1) else 0" and ls = ls and x = l]
  by (simp add: lanes_runnable_def)

lemma refresh_id_effect:
  assumes "sums_ok s" and "unat (UnitId_raw u) < length (sl_lanes s)"
  shows "sums_ok (refresh_id lane_of u s) \<and>
    sl_lanes (refresh_id lane_of u s) = (sl_lanes s)[unat (UnitId_raw u) := lane_of u] \<and>
    sl_stale (refresh_id lane_of u s) = (sl_stale s)[unat (UnitId_raw u) := False] \<and>
    sl_stale_ids (refresh_id lane_of u s) = sl_stale_ids s"
  using assms lanes_status_update [OF assms(2), of "lane_of u"] lanes_runnable_update [OF assms(2), of "lane_of u"]
  by (auto simp: refresh_id_def Let_def sums_ok_def)

lemma refresh_fold:
  assumes "sums_ok s" and "length (sl_stale s) = length (sl_lanes s)"
    and "\<forall>u \<in> set ids. unat (UnitId_raw u) < length (sl_lanes s)"
  shows "sums_ok (fold (refresh_id lane_of) ids s) \<and>
    length (sl_lanes (fold (refresh_id lane_of) ids s)) = length (sl_lanes s) \<and>
    length (sl_stale (fold (refresh_id lane_of) ids s)) = length (sl_lanes s) \<and>
    sl_stale_ids (fold (refresh_id lane_of) ids s) = sl_stale_ids s \<and>
    (\<forall>u. unat (UnitId_raw u) < length (sl_lanes s) \<longrightarrow>
       sl_lanes (fold (refresh_id lane_of) ids s) ! unat (UnitId_raw u) =
         (if u \<in> set ids then lane_of u else sl_lanes s ! unat (UnitId_raw u)) \<and>
       sl_stale (fold (refresh_id lane_of) ids s) ! unat (UnitId_raw u) =
         (u \<notin> set ids \<and> sl_stale s ! unat (UnitId_raw u)))"
  using assms
proof (induction ids arbitrary: s)
  case (Cons v ids)
  note e = refresh_id_effect [OF Cons.prems(1), of v lane_of]
  have "unat (UnitId_raw v) < length (sl_lanes s)" using Cons.prems by simp
  note e = e [OF this]
  show ?case
    using Cons.IH [of "refresh_id lane_of v s"] Cons.prems e
    by (auto simp: nth_list_update dest: unit_raw_eqI)
qed simp

text \<open>A refresh empties the stale list and leaves every lane at its unit's current value.\<close>

lemma StatusLanes_refresh_inv:
  assumes "sl_inv lane_of s" and "StatusLanes_refresh lane_of s = (sums, s')"
  shows "sl_inv lane_of s' \<and> sl_stale_ids s' = [] \<and> sums = sl_sums s' \<and> (\<forall>u. lane_at s' u = lane_of u)"
proof -
  let ?s = "s\<lparr>sl_stale_ids := []\<rparr>"
  let ?f = "fold (refresh_id lane_of) (sl_stale_ids s) ?s"
  have eqs: "s' = ?f" "sums = sl_sums ?f"
    using assms(2) by (auto simp: StatusLanes_refresh_def Let_def)
  have pre: "sums_ok ?s" "length (sl_stale ?s) = length (sl_lanes ?s)"
      "\<forall>u \<in> set (sl_stale_ids s). unat (UnitId_raw u) < length (sl_lanes ?s)"
    using assms(1) by (auto simp: sl_inv_def sums_ok_def)
  from refresh_fold [OF pre, of lane_of]
  have f: "sums_ok ?f" "length (sl_lanes ?f) = length (sl_lanes s)" "length (sl_stale ?f) = length (sl_lanes s)"
      "sl_stale_ids ?f = []"
    and lanes: "\<And>u. unat (UnitId_raw u) < length (sl_lanes s) \<Longrightarrow>
       sl_lanes ?f ! unat (UnitId_raw u) = (if u \<in> set (sl_stale_ids s) then lane_of u else sl_lanes s ! unat (UnitId_raw u))"
    and stale: "\<And>u. unat (UnitId_raw u) < length (sl_lanes s) \<Longrightarrow>
       sl_stale ?f ! unat (UnitId_raw u) = (u \<notin> set (sl_stale_ids s) \<and> sl_stale s ! unat (UnitId_raw u))"
    by simp_all
  have cur: "lane_at ?f u = lane_of u" for u
    using lanes [of u] f(2) assms(1) by (force simp: sl_inv_def lane_at_def)
  show ?thesis unfolding eqs
    using f cur stale assms(1) by (auto simp: sl_inv_def)
qed

subsection \<open>The sums over the registered units\<close>

lemma unit_at_surj: "unit_at (unat (UnitId_raw u)) = u"
  by (simp add: unit_at_def)

lemma unit_at_raw: "i < 2 ^ 64 \<Longrightarrow> unat (UnitId_raw (unit_at i)) = i"
  by (simp add: unit_at_def unat_of_nat_no_wrap)

lemma not_unit_at: "u \<notin> unit_at ` {..<n} \<Longrightarrow> \<not> unat (UnitId_raw u) < n"
  using imageI [of "unat (UnitId_raw u)" "{..<n}" unit_at] by (auto simp: unit_at_surj)

text \<open>A sum over the lane vector is the sum over any set of units that has every non-zero lane.\<close>

lemma lane_sum_over_units:
  fixes f :: "u64 \<Rightarrow> u64 \<Rightarrow> u128"
  assumes len: "length (sl_lanes s) \<le> 2 ^ 64" and fin: "finite A"
    and cover: "\<And>u. u \<notin> A \<Longrightarrow> lane_at s u = 0" and zero: "\<And>k. f k 0 = 0"
  shows "(\<Sum>i < length (sl_lanes s). f (of_nat i + 1) (sl_lanes s ! i)) = (\<Sum>u \<in> A. f (UnitId_raw u + 1) (lane_at s u))"
proof -
  let ?n = "length (sl_lanes s)"
  have inj: "inj_on unit_at {..<?n}"
    using len by (intro inj_onI) (metis lessThan_iff order_less_le_trans unit_at_raw)
  have "(\<Sum>i < ?n. f (of_nat i + 1) (sl_lanes s ! i)) = (\<Sum>i < ?n. f (UnitId_raw (unit_at i) + 1) (lane_at s (unit_at i)))"
    using len by (intro sum.cong refl) (simp add: lane_at_def unit_at_raw, simp add: unit_at_def)
  also have "\<dots> = (\<Sum>u \<in> unit_at ` {..<?n}. f (UnitId_raw u + 1) (lane_at s u))"
    by (simp add: sum.reindex [OF inj])
  also have "\<dots> = (\<Sum>u \<in> A \<union> unit_at ` {..<?n}. f (UnitId_raw u + 1) (lane_at s u))"
  proof (rule sum.mono_neutral_left)
    show "\<forall>u \<in> A \<union> unit_at ` {..<?n} - unit_at ` {..<?n}. f (UnitId_raw u + 1) (lane_at s u) = 0"
      by (simp add: lane_at_def zero not_unit_at)
  qed (use fin in auto)
  also have "\<dots> = (\<Sum>u \<in> A. f (UnitId_raw u + 1) (lane_at s u))"
    by (rule sum.mono_neutral_right) (use fin in \<open>auto simp: cover zero\<close>)
  finally show ?thesis .
qed

lemma foldl_sum_distinct:
  fixes g :: "'a \<Rightarrow> 'b::comm_monoid_add"
  shows "distinct xs \<Longrightarrow> foldl (\<lambda>acc x. acc + g x) z xs = z + sum g (set xs)"
  by (induction xs arbitrary: z) (simp_all add: add.assoc)

section \<open>The clock index\<close>

definition clk_inv :: "(UnitId \<Rightarrow> UnitStatus option) \<Rightarrow> 'u UnitRegistry \<Rightarrow> bool" where
  "clk_inv vw r \<longleftrightarrow> distinct (ur_clock_watch r) \<and>
     sorted_wrt (<) (ur_runnable_clocks r) \<and> distinct (map snd (ur_runnable_clocks r)) \<and> btree_wf (ur_clocks r) \<and>
     (\<forall>e \<in> set (ur_runnable_clocks r). map_of (ur_clocks r) (snd e) = Some (fst e)) \<and>
     (\<forall>u. u \<notin> set (ur_clock_watch r) \<longrightarrow> (u \<in> snd ` set (ur_runnable_clocks r) \<longleftrightarrow> vw u = Some Runnable))"

lemma watch_clock_set [simp]: "set (watch_clock u ws) = insert u (set ws)" "distinct (watch_clock u ws) \<longleftrightarrow> distinct ws"
  by (auto simp: watch_clock_def)

interpretation clock_cache: marked_cache clk_inv "\<lambda>u r. r\<lparr>ur_clock_watch := watch_clock u (ur_clock_watch r)\<rparr>"
  by unfold_locales (auto simp: clk_inv_def)


lemma set_remove_first: "distinct (map g es) \<Longrightarrow> set (remove_first (\<lambda>e. g e = u) es) = {e \<in> set es. g e \<noteq> u}"
  by (induction es) (auto simp: image_iff)

lemma remove_first_subset: "set (remove_first P es) \<subseteq> set es"
  by (induction es) auto

lemma remove_first_sorted: "sorted_wrt R es \<Longrightarrow> sorted_wrt R (remove_first P es)"
  using remove_first_subset [of P] by (induction es) fastforce+

lemma remove_first_distinct: "distinct (map g es) \<Longrightarrow> distinct (map g (remove_first P es))"
  using remove_first_subset [of P] by (induction es) fastforce+

lemma remove_first_absent: "(\<And>e. e \<in> set es \<Longrightarrow> \<not> P e) \<Longrightarrow> remove_first P es = es"
  by (induction es) auto

lemma unindex_runnable_eq:
  "snd (UnitRegistry_unindex_runnable u r) = r\<lparr>ur_runnable_clocks := remove_first (\<lambda>e. snd e = u) (ur_runnable_clocks r)\<rparr>"
  "fst (UnitRegistry_unindex_runnable u r) \<longleftrightarrow> u \<in> snd ` set (ur_runnable_clocks r)"
  by (auto simp: UnitRegistry_unindex_runnable_def remove_first_absent)

text \<open>Inserting at the partition point keeps a strictly sorted list strictly sorted.\<close>

lemma partition_insert_sorted:
  fixes key :: "'a::linorder"
  assumes "sorted_wrt (<) es" and "key \<notin> set es"
  shows "sorted_wrt (<) (takeWhile (\<lambda>e. e < key) es @ key # dropWhile (\<lambda>e. e < key) es)"
  using assms
proof (induction es)
  case (Cons e es)
  show ?case
  proof (cases "e < key")
    case True
    with Cons show ?thesis by (auto dest: set_takeWhileD set_dropWhileD)
  next
    case False
    with Cons.prems show ?thesis by fastforce
  qed
qed simp

lemma partition_insert_set: "set (takeWhile P es @ key # dropWhile P es) = insert key (set es)"
  by (metis Un_insert_right list.simps(15) set_append takeWhile_dropWhile_id)

lemma partition_insert_distinct:
  assumes "distinct (map g es)" and "g key \<notin> g ` set es"
  shows "distinct (map g (takeWhile P es @ key # dropWhile P es))"
proof -
  have "distinct (map g (takeWhile P es @ dropWhile P es))" using assms(1) by simp
  moreover have "g key \<notin> g ` set (takeWhile P es @ dropWhile P es)" using assms(2) by simp
  ultimately show ?thesis unfolding map_append set_append distinct_append by auto
qed

text \<open>The index consistency with the set \<open>W\<close> of units still to be read.\<close>

definition clk_ok :: "(UnitId \<Rightarrow> UnitStatus option) \<Rightarrow> UnitId set \<Rightarrow> (GuestTicks \<times> UnitId) list \<Rightarrow> (UnitId, GuestTicks) btree \<Rightarrow> bool" where
  "clk_ok vw W es cs \<longleftrightarrow>
     sorted_wrt (<) es \<and> distinct (map snd es) \<and> btree_wf cs \<and>
     (\<forall>e \<in> set es. map_of cs (snd e) = Some (fst e)) \<and>
     (\<forall>u. u \<notin> W \<longrightarrow> (u \<in> snd ` set es \<longleftrightarrow> vw u = Some Runnable))"

lemma clk_inv_ok: "clk_inv vw r \<longleftrightarrow> distinct (ur_clock_watch r) \<and> clk_ok vw (set (ur_clock_watch r)) (ur_runnable_clocks r) (ur_clocks r)"
  by (simp add: clk_inv_def clk_ok_def)

lemma clk_ok_unindex:
  assumes "clk_ok vw W es cs"
  shows "clk_ok (vw(u := None)) (W - {u}) (remove_first (\<lambda>e. snd e = u) es) (btree_insert u c cs)"
proof -
  have d: "distinct (map snd es)" and wf: "btree_wf cs" using assms by (simp_all add: clk_ok_def)
  have "snd ` {e \<in> set es. snd e \<noteq> u} = snd ` set es - {u}" by auto
  then show ?thesis unfolding clk_ok_def set_remove_first [OF d]
    using assms by (simp add: clk_ok_def btree_get_insert [OF wf] remove_first_sorted remove_first_distinct btree_wf_insert)
qed

lemma clk_ok_index:
  assumes "clk_ok vw W es cs" and "map_of cs u = Some c" and "u \<notin> snd ` set es"
  shows "clk_ok (vw(u := Some Runnable)) W (takeWhile (\<lambda>e. e < (c, u)) es @ (c, u) # dropWhile (\<lambda>e. e < (c, u)) es) cs"
proof -
  have "(c, u) \<notin> set es" using assms(3) by force
  then have "sorted_wrt (<) (takeWhile (\<lambda>e. e < (c, u)) es @ (c, u) # dropWhile (\<lambda>e. e < (c, u)) es)"
    using assms(1) by (intro partition_insert_sorted) (simp_all add: clk_ok_def)
  moreover have "distinct (map snd (takeWhile (\<lambda>e. e < (c, u)) es @ (c, u) # dropWhile (\<lambda>e. e < (c, u)) es))"
    using assms by (intro partition_insert_distinct) (simp_all add: clk_ok_def)
  ultimately show ?thesis
    using assms unfolding clk_ok_def partition_insert_set by auto
qed

lemma clk_ok_weaken: "clk_ok vw W es cs \<Longrightarrow> W \<subseteq> W' \<Longrightarrow> (\<And>u. u \<notin> W' \<Longrightarrow> vw' u = vw u) \<Longrightarrow> clk_ok vw' W' es cs"
  by (auto simp: clk_ok_def subset_iff)

subsection \<open>Setting and syncing a clock\<close>

lemma set_clock_inv:
  assumes "clk_inv vw r"
  shows "clk_inv vw (UnitRegistry_set_clock u c r)"
proof (cases "btree_contains (ur_units r) u")
  case True
  let ?es = "ur_runnable_clocks r" and ?W = "set (ur_clock_watch r)"
  have ok: "clk_ok vw ?W ?es (ur_clocks r)" and dw: "distinct (ur_clock_watch r)"
    using assms by (simp_all add: clk_inv_ok)
  note un = clk_ok_unindex [OF ok, of u c]
  have d: "distinct (map snd ?es)" and wf: "btree_wf (ur_clocks r)" using ok by (simp_all add: clk_ok_def)
  have gone: "u \<notin> snd ` set (remove_first (\<lambda>e. snd e = u) ?es)" by (auto simp: set_remove_first [OF d])
  show ?thesis
  proof (cases "u \<in> snd ` set ?es")
    case True
    have vw: "v \<notin> ?W \<Longrightarrow> vw v = ((vw(u := None))(u := Some Runnable)) v" for v
      using True ok by (cases "v = u") (auto simp: clk_ok_def)
    have "clk_ok vw ?W (takeWhile (\<lambda>e. e < (c, u)) (remove_first (\<lambda>e. snd e = u) ?es) @ (c, u)
        # dropWhile (\<lambda>e. e < (c, u)) (remove_first (\<lambda>e. snd e = u) ?es)) (btree_insert u c (ur_clocks r))"
      by (rule clk_ok_weaken [OF clk_ok_index [OF un _ gone] Diff_subset vw]) (simp add: btree_get_insert [OF wf])
    with True \<open>btree_contains (ur_units r) u\<close> show ?thesis
      by (simp add: clk_inv_ok dw UnitRegistry_set_clock_def Let_def split_beta unindex_runnable_eq UnitRegistry_index_runnable_def)
  next
    case False
    have "clk_ok vw ?W ?es (btree_insert u c (ur_clocks r))"
      using ok False by (auto simp: clk_ok_def btree_get_insert btree_wf_insert)
    moreover have "remove_first (\<lambda>e. snd e = u) ?es = ?es"
      using False by (intro remove_first_absent) auto
    ultimately show ?thesis using False \<open>btree_contains (ur_units r) u\<close>
      by (simp add: clk_inv_ok dw UnitRegistry_set_clock_def Let_def split_beta unindex_runnable_eq)
  qed
qed (use assms in \<open>simp add: UnitRegistry_set_clock_def\<close>)

text \<open>The clock a sync leaves on a unit it reads.\<close>

definition synced_clock :: "('u \<Rightarrow> UnitStatus) \<Rightarrow> GuestTicks \<Rightarrow> 'u UnitRegistry \<Rightarrow> UnitId \<Rightarrow> GuestTicks" where
  "synced_clock st now r u =
     (case map_of (ur_clocks r) u of
        None \<Rightarrow> now
      | Some t \<Rightarrow> if UnitRegistry_effective_status st r u = Some Runnable \<and> u \<in> ur_parked r then max t now else t)"

lemma sync_clock_fields:
  fixes st :: "'u \<Rightarrow> UnitStatus" and r :: "'u UnitRegistry" and u :: UnitId and now :: GuestTicks
  defines "es \<equiv> remove_first (\<lambda>e. snd e = u) (ur_runnable_clocks r)" and "key \<equiv> (synced_clock st now r u, u)"
  shows "sync_clock st now u r = r\<lparr>ur_clocks := btree_insert u (synced_clock st now r u) (ur_clocks r),
     ur_parked := (if UnitRegistry_effective_status st r u \<in> {None, Some Runnable} then ur_parked r - {u} else insert u (ur_parked r)),
     ur_runnable_clocks := (if UnitRegistry_effective_status st r u = Some Runnable
        then takeWhile (\<lambda>e. e < key) es @ key # dropWhile (\<lambda>e. e < key) es else es)\<rparr>"
  unfolding es_def key_def
  by (auto simp: sync_clock_def Let_def synced_clock_def unindex_runnable_eq UnitRegistry_index_runnable_def max_def
        split: option.splits)

definition held_status :: "UnitStatus option \<Rightarrow> bool \<Rightarrow> bool \<Rightarrow> UnitStatus \<Rightarrow> UnitStatus" where
  "held_status ov susp off s0 =
     (let s = (case ov of Some s \<Rightarrow> s | None \<Rightarrow> s0)
      in if susp \<and> (s = Runnable \<or> s = Blocked) \<or> off \<and> s = Runnable then Suspended else s)"

lemma effective_status_eq:
  "UnitRegistry_effective_status st r u =
     map_option (held_status (map_of (ur_status_overrides r) u) (u \<in> ur_suspended r) (u \<in> ur_off_core r))
       (map_option st (map_of (ur_units r) u))"
  by (auto simp: UnitRegistry_effective_status_def UnitRegistry_status_beneath_hold_def held_status_def Let_def
        split: option.splits)

lemma effective_status_at:
  "map_option st (map_of (ur_units r') u) = map_option st (map_of (ur_units r) u) \<Longrightarrow>
   map_of (ur_status_overrides r') u = map_of (ur_status_overrides r) u \<Longrightarrow>
   u \<in> ur_suspended r' \<longleftrightarrow> u \<in> ur_suspended r \<Longrightarrow> u \<in> ur_off_core r' \<longleftrightarrow> u \<in> ur_off_core r \<Longrightarrow>
   UnitRegistry_effective_status st r' u = UnitRegistry_effective_status st r u"
  unfolding effective_status_eq by simp

lemma effective_status_cong:
  "ur_units r' = ur_units r \<Longrightarrow> ur_status_overrides r' = ur_status_overrides r \<Longrightarrow> ur_suspended r' = ur_suspended r \<Longrightarrow>
   ur_off_core r' = ur_off_core r \<Longrightarrow> UnitRegistry_effective_status st r' = UnitRegistry_effective_status st r"
  by (intro ext effective_status_at) simp_all

lemma sync_clock_effective [simp]:
  "UnitRegistry_effective_status st (sync_clock st now u r) = UnitRegistry_effective_status st r"
  by (rule effective_status_cong) (simp_all add: sync_clock_fields)

lemma sync_clock_ok:
  assumes "clk_ok (UnitRegistry_effective_status st r) (insert u W) (ur_runnable_clocks r) (ur_clocks r)"
  shows "clk_ok (UnitRegistry_effective_status st r) W (ur_runnable_clocks (sync_clock st now u r)) (ur_clocks (sync_clock st now u r))"
proof -
  let ?vw = "UnitRegistry_effective_status st r" and ?c = "synced_clock st now r u"
  note un = clk_ok_unindex [OF assms, of u ?c]
  have d: "distinct (map snd (ur_runnable_clocks r))" and wf: "btree_wf (ur_clocks r)" using assms by (simp_all add: clk_ok_def)
  have gone: "u \<notin> snd ` set (remove_first (\<lambda>e. snd e = u) (ur_runnable_clocks r))" by (auto simp: set_remove_first [OF d])
  show ?thesis
  proof (cases "?vw u = Some Runnable")
    case True
    then have "((?vw)(u := None))(u := Some Runnable) = ?vw" by auto
    with clk_ok_index [OF un _ gone, of ?c] True show ?thesis
      by (auto simp: sync_clock_fields btree_get_insert [OF wf] intro: clk_ok_weaken)
  next
    case False
    with un gone show ?thesis by (auto simp: sync_clock_fields clk_ok_def)
  qed
qed

end
