(* ===== verification/Unit_Reach.thy ===== *)
theory Unit_Reach
  imports Unit_Views
begin

text \<open>
  Every operation of the unit registry keeps the status lanes and the clock index consistent
  with the units. The reachable registries are those built from the empty one by any
  sequence of operations; on them the incremental hashes equal the ones computed from
  scratch, and the clock index answers the minimum over the runnable units.
\<close>

section \<open>The registry invariant\<close>

definition views_inv :: "(UnitId \<Rightarrow> UnitStatus option) \<Rightarrow> 'u UnitRegistry \<Rightarrow> bool" where
  "views_inv vw r \<longleftrightarrow> sl_inv (\<lambda>u. status_lane (vw u)) (ur_status_lanes r) \<and> clk_inv vw r"

lemma clk_inv_lanes [simp]: "clk_inv vw (r\<lparr>ur_status_lanes := s\<rparr>) \<longleftrightarrow> clk_inv vw r"
  by (simp add: clk_inv_def)

interpretation unit_views: marked_cache views_inv UnitRegistry_mark_status
proof
  fix vw :: "UnitId \<Rightarrow> UnitStatus option" and r :: "'u UnitRegistry" and u s
  assume "views_inv vw r"
  then have sl: "sl_inv (\<lambda>u. status_lane (vw u)) (ur_status_lanes r)" and clk: "clk_inv vw r"
    by (simp_all add: views_inv_def)
  from sl have "sl_inv (\<lambda>v. status_lane ((vw(u := s)) v)) (StatusLanes_mark u (ur_status_lanes r))"
    by (rule status_cache.inv_changed_at) simp
  moreover from clk have "clk_inv (vw(u := s)) (r\<lparr>ur_clock_watch := watch_clock u (ur_clock_watch r)\<rparr>)"
    by (rule clock_cache.inv_changed_at) simp
  ultimately show "views_inv (vw(u := s)) (UnitRegistry_mark_status u r)"
    by (simp add: views_inv_def UnitRegistry_mark_status_def clk_inv_def)
qed

definition units_inv :: "('u \<Rightarrow> UnitStatus) \<Rightarrow> 'u UnitRegistry \<Rightarrow> bool" where
  "units_inv st r \<longleftrightarrow> btree_wf (ur_units r) \<and> btree_wf (ur_status_overrides r) \<and> finite (ur_off_core r) \<and>
     dom (map_of (ur_status_overrides r)) \<subseteq> dom (map_of (ur_units r)) \<and>
     views_inv (UnitRegistry_effective_status st r) r"

lemma units_inv_new: "units_inv st UnitRegistry_new"
  using sl_inv_default
  by (simp add: units_inv_def UnitRegistry_new_def views_inv_def clk_inv_def effective_status_eq status_lane_def)

text \<open>What the two caches read of the registry, apart from the units.\<close>

lemma views_inv_cong:
  "views_inv vw r \<Longrightarrow> ur_status_lanes r' = ur_status_lanes r \<Longrightarrow> ur_clock_watch r' = ur_clock_watch r \<Longrightarrow>
   ur_runnable_clocks r' = ur_runnable_clocks r \<Longrightarrow> ur_clocks r' = ur_clocks r \<Longrightarrow> views_inv vw r'"
  by (simp add: views_inv_def clk_inv_def)

lemma mark_status_fields [simp]:
  "ur_units (UnitRegistry_mark_status u r) = ur_units r"
  "ur_status_overrides (UnitRegistry_mark_status u r) = ur_status_overrides r"
  "ur_suspended (UnitRegistry_mark_status u r) = ur_suspended r"
  "ur_off_core (UnitRegistry_mark_status u r) = ur_off_core r"
  "UnitRegistry_effective_status st (UnitRegistry_mark_status u r) = UnitRegistry_effective_status st r"
  by (simp_all add: UnitRegistry_mark_status_def, rule effective_status_cong, simp_all)

text \<open>
  The one lemma behind every operation: a change of the registry that leaves the caches
  alone and touches the status of one unit is safe once that unit is marked.
\<close>

lemma units_inv_marked:
  assumes inv: "units_inv st r"
    and same: "ur_status_lanes r' = ur_status_lanes r" "ur_clock_watch r' = ur_clock_watch r"
      "ur_runnable_clocks r' = ur_runnable_clocks r" "ur_clocks r' = ur_clocks r"
    and wf: "btree_wf (ur_units r')" "btree_wf (ur_status_overrides r')" "finite (ur_off_core r')"
      "dom (map_of (ur_status_overrides r')) \<subseteq> dom (map_of (ur_units r'))"
    and eff: "\<And>v. v \<noteq> u \<Longrightarrow> UnitRegistry_effective_status st r' v = UnitRegistry_effective_status st r v"
  shows "units_inv st (UnitRegistry_mark_status u r')"
proof -
  have "views_inv (UnitRegistry_effective_status st r) r'"
    using inv same by (auto simp: units_inv_def intro: views_inv_cong)
  from unit_views.inv_changed_at [OF this, of u "UnitRegistry_effective_status st r'"] eff
  have "views_inv (UnitRegistry_effective_status st r') (UnitRegistry_mark_status u r')" by blast
  with wf show ?thesis by (simp add: units_inv_def)
qed

lemma units_inv_frame:
  assumes "units_inv st r"
    and "ur_status_lanes r' = ur_status_lanes r" "ur_clock_watch r' = ur_clock_watch r"
      "ur_runnable_clocks r' = ur_runnable_clocks r" "ur_clocks r' = ur_clocks r"
      "ur_units r' = ur_units r" "ur_status_overrides r' = ur_status_overrides r"
      "ur_suspended r' = ur_suspended r" "ur_off_core r' = ur_off_core r"
  shows "units_inv st r'"
  using assms effective_status_cong [of r' r st] by (auto simp: units_inv_def intro: views_inv_cong)

lemma units_inv_mark: "units_inv st r \<Longrightarrow> units_inv st (UnitRegistry_mark_status u r)"
  by (rule units_inv_marked) (simp_all add: units_inv_def)

section \<open>Every operation keeps it\<close>

lemma units_inv_insert_unit:
  assumes "units_inv st r"
  shows "units_inv st (UnitRegistry_mark_status v (r\<lparr>ur_next_id := n, ur_units := btree_insert v x (ur_units r)\<rparr>))"
proof (rule units_inv_marked [OF assms])
  have wf: "btree_wf (ur_units r)" using assms by (simp add: units_inv_def)
  show "UnitRegistry_effective_status st (r\<lparr>ur_next_id := n, ur_units := btree_insert v x (ur_units r)\<rparr>) w =
      UnitRegistry_effective_status st r w" if "w \<noteq> v" for w
    using that by (intro effective_status_at) (simp_all add: btree_get_insert [OF wf])
  show "dom (map_of (ur_status_overrides (r\<lparr>ur_next_id := n, ur_units := btree_insert v x (ur_units r)\<rparr>)))
      \<subseteq> dom (map_of (ur_units (r\<lparr>ur_next_id := n, ur_units := btree_insert v x (ur_units r)\<rparr>)))"
    using assms by (auto simp: btree_get_insert [OF wf] units_inv_def)
qed (use assms in \<open>simp_all add: units_inv_def btree_wf_insert\<close>)

lemma units_inv_try_register:
  "units_inv st r \<Longrightarrow> UnitRegistry_try_register_dynamic uid factory r = Some (Inr (v, r')) \<Longrightarrow> units_inv st r'"
  using units_inv_insert_unit [of st r]
  by (auto simp: UnitRegistry_try_register_dynamic_def Let_def split: sum.splits if_splits)

lemma units_inv_register:
  "units_inv st r \<Longrightarrow> UnitRegistry_register_dynamic uid factory r = Some (v, r') \<Longrightarrow> units_inv st r'"
  using units_inv_insert_unit [of st r]
  by (auto simp: UnitRegistry_register_dynamic_def Let_def split: if_splits)

lemma register_with_dynamic: "UnitRegistry_register_with = UnitRegistry_register_dynamic"
  by (simp add: UnitRegistry_register_with_def UnitRegistry_register_dynamic_def fun_eq_iff)

lemma borrow_as_insert:
  "r\<lparr>ur_status_lanes := StatusLanes_mark u (ur_status_lanes r), ur_clock_watch := watch_clock u (ur_clock_watch r),
     ur_units := btree_insert u x (ur_units r)\<rparr> =
   UnitRegistry_mark_status u (r\<lparr>ur_next_id := ur_next_id r, ur_units := btree_insert u x (ur_units r)\<rparr>)"
  by (simp add: UnitRegistry_mark_status_def)

lemma units_inv_borrow:
  "units_inv st r \<Longrightarrow>
   units_inv st (r\<lparr>ur_status_lanes := StatusLanes_mark u (ur_status_lanes r), ur_clock_watch := watch_clock u (ur_clock_watch r),
     ur_units := btree_insert u x (ur_units r)\<rparr>)"
  unfolding borrow_as_insert by (rule units_inv_insert_unit)

lemma units_inv_get_mut:
  "units_inv st r \<Longrightarrow> UnitRegistry_get_mut u f r = Some (a, r') \<Longrightarrow> units_inv st r'"
  by (auto simp: UnitRegistry_get_mut_def Let_def split_beta units_inv_borrow split: option.splits)

lemma units_inv_iter_mut: "units_inv st r \<Longrightarrow> units_inv st (UnitRegistry_iter_mut f r)"
proof -
  have "units_inv st r \<Longrightarrow> units_inv st (foldl (\<lambda>r (uid, u).
      let r = r\<lparr>ur_status_lanes := StatusLanes_mark uid (ur_status_lanes r)\<rparr>;
          r = r\<lparr>ur_clock_watch := watch_clock uid (ur_clock_watch r)\<rparr>
      in r\<lparr>ur_units := btree_insert uid (f uid u) (ur_units r)\<rparr>) r us)" for us
    by (induction us arbitrary: r) (auto simp: Let_def units_inv_borrow)
  then show "units_inv st r \<Longrightarrow> units_inv st (UnitRegistry_iter_mut f r)"
    by (simp add: UnitRegistry_iter_mut_def)
qed

lemma map_of_map_snd: "map_of (map (\<lambda>(k, v). (k, g v)) m) k = map_option g (map_of m k)"
  by (induction m) auto

lemma units_inv_code_caches:
  assumes "units_inv st r" and "\<And>u. st (f u) = st u"
  shows "units_inv st (UnitRegistry_code_caches_mut caches f r)"
proof -
  let ?r = "UnitRegistry_code_caches_mut caches f r"
  have units: "map_of (ur_units ?r) u = map_option (\<lambda>x. if caches x then f x else x) (map_of (ur_units r) u)" for u
    by (simp add: UnitRegistry_code_caches_mut_def map_of_map_snd)
  have eff: "UnitRegistry_effective_status st ?r = UnitRegistry_effective_status st r"
    by (rule ext, rule effective_status_at) (simp_all add: units option.map_comp comp_def if_distrib assms(2) cong: if_cong,
      simp_all add: UnitRegistry_code_caches_mut_def)
  have keys: "map fst (ur_units ?r) = map fst (ur_units r)"
    by (auto simp: UnitRegistry_code_caches_mut_def)
  have dom: "dom (map_of (ur_units ?r)) = dom (map_of (ur_units r))"
    using units by (auto simp: dom_def)
  have views: "views_inv (UnitRegistry_effective_status st r) ?r"
    using assms(1) by (auto simp: units_inv_def UnitRegistry_code_caches_mut_def intro: views_inv_cong)
  show ?thesis using assms(1) unfolding units_inv_def eff btree_wf_def keys dom
    using views by (simp add: UnitRegistry_code_caches_mut_def)
qed

lemma units_inv_set_off_core:
  assumes inv: "units_inv st r" and fin: "finite off"
  shows "units_inv st (UnitRegistry_set_off_core off r)"
proof (cases "ur_off_core r = off")
  case False
  let ?ch = "sorted_list_of_set ((ur_off_core r - off) \<union> (off - ur_off_core r))"
  let ?r = "r\<lparr>ur_off_core := off\<rparr>"
  let ?vw = "UnitRegistry_effective_status st r"
  have finr: "finite (ur_off_core r)" using inv by (simp add: units_inv_def)
  have step: "fold (\<lambda>u r. if btree_contains (ur_units r) u then UnitRegistry_mark_status u r else r) us s =
      fold UnitRegistry_mark_status (filter (btree_contains (ur_units s)) us) s" for us and s :: "'a UnitRegistry"
    by (induction us arbitrary: s) auto
  have marks: "ur_units (fold UnitRegistry_mark_status us s) = ur_units s \<and>
      ur_status_overrides (fold UnitRegistry_mark_status us s) = ur_status_overrides s \<and>
      ur_off_core (fold UnitRegistry_mark_status us s) = ur_off_core s \<and>
      UnitRegistry_effective_status st (fold UnitRegistry_mark_status us s) = UnitRegistry_effective_status st s"
    for us and s :: "'a UnitRegistry"
    by (induction us arbitrary: s) auto
  let ?us = "filter (btree_contains (ur_units r)) ?ch"
  have eff: "UnitRegistry_effective_status st ?r u = ?vw u" if "u \<notin> set ?us" for u
  proof (cases "btree_contains (ur_units r) u")
    case True
    then have "u \<in> ur_off_core r \<longleftrightarrow> u \<in> off" using that fin finr by auto
    then show ?thesis by (intro effective_status_at) simp_all
  next
    case False
    then show ?thesis by (simp add: effective_status_eq btree_contains_def)
  qed
  have "views_inv ?vw ?r" using inv by (auto simp: units_inv_def intro: views_inv_cong)
  from unit_views.inv_changed_on [OF this eff]
  have "views_inv (UnitRegistry_effective_status st ?r) (fold UnitRegistry_mark_status ?us ?r)" .
  then show ?thesis
    using False inv fin marks [of ?us ?r]
    by (simp add: UnitRegistry_set_off_core_def Let_def step units_inv_def)
qed (use inv in \<open>simp add: UnitRegistry_set_off_core_def\<close>)

lemma units_inv_set_suspended:
  assumes "units_inv st r" shows "units_inv st (UnitRegistry_set_suspended u b r)"
proof -
  let ?r = "r\<lparr>ur_suspended := (if b then insert u (ur_suspended r) else ur_suspended r - {u})\<rparr>"
  have "units_inv st (UnitRegistry_mark_status u ?r)"
    by (rule units_inv_marked [OF assms]) (use assms in \<open>simp_all add: units_inv_def effective_status_eq\<close>)
  moreover have "\<not> (if b then u \<notin> ur_suspended r else u \<in> ur_suspended r) \<Longrightarrow> ?r = r"
    by (cases b) (auto simp: insert_absorb)
  ultimately show ?thesis
    using assms by (auto simp: UnitRegistry_set_suspended_def Let_def)
qed

lemma units_inv_set_status_override:
  assumes "units_inv st r" shows "units_inv st (UnitRegistry_set_status_override u s r)"
proof (cases "btree_contains (ur_units r) u")
  case True
  have wf: "btree_wf (ur_status_overrides r)" using assms by (simp add: units_inv_def)
  have "units_inv st (UnitRegistry_mark_status u (r\<lparr>ur_status_overrides := btree_insert u s (ur_status_overrides r)\<rparr>))"
    by (rule units_inv_marked [OF assms])
       (use assms True in \<open>auto simp: units_inv_def effective_status_eq btree_get_insert [OF wf] btree_wf_insert btree_contains_def\<close>)
  with True show ?thesis by (simp add: UnitRegistry_set_status_override_def)
qed (use assms in \<open>simp add: UnitRegistry_set_status_override_def\<close>)

lemma units_inv_clear_status_override:
  assumes "units_inv st r" shows "units_inv st (UnitRegistry_clear_status_override u r)"
proof -
  let ?r = "r\<lparr>ur_status_overrides := btree_remove u (ur_status_overrides r)\<rparr>"
  have "units_inv st (UnitRegistry_mark_status u ?r)"
    by (rule units_inv_marked [OF assms])
       (use assms in \<open>auto simp: units_inv_def effective_status_eq btree_get_remove btree_wf_remove\<close>)
  moreover have "map_of (ur_status_overrides r) u = None \<Longrightarrow> ?r = r"
    by (simp add: btree_remove_absent)
  ultimately show ?thesis
    using assms by (auto simp: UnitRegistry_clear_status_override_def Let_def)
qed

lemma units_inv_set_clock:
  assumes "units_inv st r" shows "units_inv st (UnitRegistry_set_clock u c r)"
proof -
  let ?r = "UnitRegistry_set_clock u c r"
  have f: "ur_units ?r = ur_units r" "ur_status_overrides ?r = ur_status_overrides r" "ur_suspended ?r = ur_suspended r"
      "ur_off_core ?r = ur_off_core r" "ur_status_lanes ?r = ur_status_lanes r"
    by (simp_all add: UnitRegistry_set_clock_def Let_def split_beta unindex_runnable_eq UnitRegistry_index_runnable_def)
  with assms set_clock_inv [of _ r u c] effective_status_cong [OF f(1-4), of st] show ?thesis
    by (simp add: units_inv_def views_inv_def)
qed

lemma sync_clock_frame [simp]:
  "ur_units (sync_clock st now u r) = ur_units r" "ur_status_overrides (sync_clock st now u r) = ur_status_overrides r"
  "ur_off_core (sync_clock st now u r) = ur_off_core r" "ur_status_lanes (sync_clock st now u r) = ur_status_lanes r"
  by (simp_all add: sync_clock_fields)

lemma sync_fold:
  assumes "clk_ok (UnitRegistry_effective_status st r) (set us) (ur_runnable_clocks r) (ur_clocks r)"
  shows "clk_ok (UnitRegistry_effective_status st r) {} (ur_runnable_clocks (fold (sync_clock st now) us r))
      (ur_clocks (fold (sync_clock st now) us r)) \<and>
    UnitRegistry_effective_status st (fold (sync_clock st now) us r) = UnitRegistry_effective_status st r \<and>
    ur_units (fold (sync_clock st now) us r) = ur_units r \<and>
    ur_status_overrides (fold (sync_clock st now) us r) = ur_status_overrides r \<and>
    ur_off_core (fold (sync_clock st now) us r) = ur_off_core r \<and>
    ur_status_lanes (fold (sync_clock st now) us r) = ur_status_lanes r"
  using assms
proof (induction us arbitrary: r)
  case (Cons u us)
  from sync_clock_ok [of st r u "set us" now] Cons.prems
  have "clk_ok (UnitRegistry_effective_status st (sync_clock st now u r)) (set us)
      (ur_runnable_clocks (sync_clock st now u r)) (ur_clocks (sync_clock st now u r))" by simp
  from Cons.IH [OF this] show ?case by simp
qed simp

lemma effective_status_watch [simp]:
  "UnitRegistry_effective_status st (r\<lparr>ur_clock_watch := w\<rparr>) = UnitRegistry_effective_status st r"
  by (rule effective_status_cong) simp_all

lemma units_inv_sync_clocks:
  assumes "units_inv st r" shows "units_inv st (UnitRegistry_sync_clocks st now r)"
proof -
  have "clk_ok (UnitRegistry_effective_status st (r\<lparr>ur_clock_watch := []\<rparr>)) (set (ur_clock_watch r))
      (ur_runnable_clocks (r\<lparr>ur_clock_watch := []\<rparr>)) (ur_clocks (r\<lparr>ur_clock_watch := []\<rparr>))"
    using assms by (simp add: units_inv_def views_inv_def clk_inv_ok)
  from sync_fold [OF this, of now] assms show ?thesis
    by (simp add: UnitRegistry_sync_clocks_def Let_def units_inv_def views_inv_def clk_inv_ok)
qed

lemma refresh_lanes_effect:
  assumes "units_inv st r" and "UnitRegistry_refresh_lanes st r = (sums, r')"
  shows "units_inv st r' \<and> sums = sl_sums (ur_status_lanes r') \<and>
    (\<forall>u. lane_at (ur_status_lanes r') u = status_lane (UnitRegistry_effective_status st r u))"
proof -
  obtain s where s: "StatusLanes_refresh (\<lambda>u. status_lane (UnitRegistry_effective_status st r u)) (ur_status_lanes r) = (sums, s)"
    and r': "r' = r\<lparr>ur_status_lanes := s\<rparr>"
    using assms(2) by (auto simp: UnitRegistry_refresh_lanes_def split: prod.splits)
  have "UnitRegistry_effective_status st r' = UnitRegistry_effective_status st r"
    unfolding r' by (rule effective_status_cong) simp_all
  with StatusLanes_refresh_inv [OF _ s] assms(1) show ?thesis
    by (simp add: units_inv_def views_inv_def r')
qed

section \<open>Reachable registries\<close>

inductive registry_reachable :: "('u \<Rightarrow> UnitStatus) \<Rightarrow> ('u \<Rightarrow> UnitId) \<Rightarrow> 'u UnitRegistry \<Rightarrow> bool"
  for st :: "'u \<Rightarrow> UnitStatus" and uid :: "'u \<Rightarrow> UnitId" where
  rr_new: "registry_reachable st uid UnitRegistry_new"
| rr_register_with: "registry_reachable st uid r \<Longrightarrow> UnitRegistry_register_with uid factory r = Some (u, r') \<Longrightarrow>
    registry_reachable st uid r'"
| rr_register: "registry_reachable st uid r \<Longrightarrow> UnitRegistry_register_dynamic uid factory r = Some (u, r') \<Longrightarrow>
    registry_reachable st uid r'"
| rr_try_register: "registry_reachable st uid r \<Longrightarrow> UnitRegistry_try_register_dynamic uid (tfactory :: UnitId \<Rightarrow> string + 'u) r = Some (Inr (u, r')) \<Longrightarrow>
    registry_reachable st uid r'"
| rr_get_mut: "registry_reachable st uid r \<Longrightarrow> UnitRegistry_get_mut u (\<lambda>x. ((), f x)) r = Some ((), r') \<Longrightarrow> registry_reachable st uid r'"
| rr_iter_mut: "registry_reachable st uid r \<Longrightarrow> registry_reachable st uid (UnitRegistry_iter_mut g r)"
| rr_code_caches: "registry_reachable st uid r \<Longrightarrow> (\<And>u. st (h u) = st u) \<Longrightarrow>
    registry_reachable st uid (UnitRegistry_code_caches_mut caches h r)"
| rr_set_off_core: "registry_reachable st uid r \<Longrightarrow> finite off \<Longrightarrow> registry_reachable st uid (UnitRegistry_set_off_core off r)"
| rr_set_suspended: "registry_reachable st uid r \<Longrightarrow> registry_reachable st uid (UnitRegistry_set_suspended u b r)"
| rr_set_override: "registry_reachable st uid r \<Longrightarrow> registry_reachable st uid (UnitRegistry_set_status_override u s r)"
| rr_clear_override: "registry_reachable st uid r \<Longrightarrow> registry_reachable st uid (UnitRegistry_clear_status_override u r)"
| rr_push_receive: "registry_reachable st uid r \<Longrightarrow> registry_reachable st uid (UnitRegistry_push_receive u m r)"
| rr_drain_receives: "registry_reachable st uid r \<Longrightarrow> registry_reachable st uid (snd (UnitRegistry_drain_receives u r))"
| rr_set_return: "registry_reachable st uid r \<Longrightarrow> registry_reachable st uid (UnitRegistry_set_syscall_return u code r)"
| rr_drain_return: "registry_reachable st uid r \<Longrightarrow> registry_reachable st uid (snd (UnitRegistry_drain_syscall_return u r))"
| rr_push_write: "registry_reachable st uid r \<Longrightarrow> registry_reachable st uid (UnitRegistry_push_register_write u reg v r)"
| rr_drain_writes: "registry_reachable st uid r \<Longrightarrow> registry_reachable st uid (snd (UnitRegistry_drain_register_writes u r))"
| rr_set_clock: "registry_reachable st uid r \<Longrightarrow> registry_reachable st uid (UnitRegistry_set_clock u tick r)"
| rr_sync_clocks: "registry_reachable st uid r \<Longrightarrow> registry_reachable st uid (UnitRegistry_sync_clocks st now r)"
| rr_refresh: "registry_reachable st uid r \<Longrightarrow> registry_reachable st uid (snd (UnitRegistry_refresh_lanes st r))"

lemma units_inv_pending:
  assumes "units_inv st r"
  shows "units_inv st (UnitRegistry_push_receive u m r)" "units_inv st (snd (UnitRegistry_drain_receives u r))"
    "units_inv st (UnitRegistry_set_syscall_return u c r)" "units_inv st (snd (UnitRegistry_drain_syscall_return u r))"
    "units_inv st (UnitRegistry_push_register_write u g v r)" "units_inv st (snd (UnitRegistry_drain_register_writes u r))"
  using assms by (auto simp: UnitRegistry_push_receive_def UnitRegistry_drain_receives_def
      UnitRegistry_set_syscall_return_def UnitRegistry_drain_syscall_return_def UnitRegistry_push_register_write_def
      UnitRegistry_drain_register_writes_def intro!: units_inv_frame [OF assms])

lemma registry_reachable_inv: "registry_reachable st uid r \<Longrightarrow> units_inv st r"
proof (induction rule: registry_reachable.induct)
  case (rr_register_with r factory u r')
  then show ?case by (auto simp: register_with_dynamic intro: units_inv_register)
next
  case (rr_refresh r)
  then show ?case using refresh_lanes_effect by (metis prod.collapse)
qed (auto intro: units_inv_new units_inv_register units_inv_try_register units_inv_get_mut units_inv_iter_mut units_inv_code_caches
  units_inv_set_off_core units_inv_set_suspended units_inv_set_status_override units_inv_clear_status_override
  units_inv_pending units_inv_set_clock units_inv_sync_clocks)

section \<open>Hashes and the lowest clock\<close>

lemma refreshed_sums:
  assumes "units_inv st r" and "UnitRegistry_refresh_lanes st r = (sums, r')"
  shows "ls_status sums = status_key 0 +
      (\<Sum>u \<in> set (UnitRegistry_ids r). status_key (UnitId_raw u + 1) * ucast (status_lane (UnitRegistry_effective_status st r u)))"
    and "ls_runnable sums = runnable_key 0 +
      (\<Sum>u \<in> set (UnitRegistry_ids r). if UnitRegistry_effective_status st r u = Some Runnable then runnable_key (UnitId_raw u + 1) else 0)"
proof -
  let ?s = "ur_status_lanes r'"
  from refresh_lanes_effect [OF assms]
  have inv: "sl_inv (\<lambda>u. status_lane (UnitRegistry_effective_status st r' u)) ?s" and sums: "sums = sl_sums ?s"
    and lane: "\<And>u. lane_at ?s u = status_lane (UnitRegistry_effective_status st r u)"
    by (simp_all add: units_inv_def views_inv_def)
  have len: "length (sl_lanes ?s) \<le> 2 ^ 64" using inv by (simp add: sl_inv_def)
  have cover: "u \<notin> set (UnitRegistry_ids r) \<Longrightarrow> lane_at ?s u = 0" for u
  proof -
    assume "u \<notin> set (UnitRegistry_ids r)"
    then have "map_of (ur_units r) u = None" by (simp add: UnitRegistry_ids_def map_of_eq_None_iff)
    then show "lane_at ?s u = 0" by (simp add: lane effective_status_eq status_lane_def)
  qed
  have one: "status_lane x = RUNNABLE_LANE \<longleftrightarrow> x = Some Runnable" for x
    by (auto simp: status_lane_def RUNNABLE_LANE_def status_byte_def split: option.splits UnitStatus.splits)
  show "ls_status sums = status_key 0 +
      (\<Sum>u \<in> set (UnitRegistry_ids r). status_key (UnitId_raw u + 1) * ucast (status_lane (UnitRegistry_effective_status st r u)))"
    using inv lane_sum_over_units [OF len _ cover, of "set (UnitRegistry_ids r)" "\<lambda>k l. status_key k * ucast l"]
    by (simp add: sl_inv_def sums_ok_def sums lanes_status_def lane)
  show "ls_runnable sums = runnable_key 0 +
      (\<Sum>u \<in> set (UnitRegistry_ids r). if UnitRegistry_effective_status st r u = Some Runnable then runnable_key (UnitId_raw u + 1) else 0)"
    using inv lane_sum_over_units [OF len _ cover, of "set (UnitRegistry_ids r)" "\<lambda>k l. if l = RUNNABLE_LANE then runnable_key k else 0"]
    by (simp add: sl_inv_def sums_ok_def sums lanes_runnable_def lane one) (simp add: RUNNABLE_LANE_def)
qed

lemma registry_ids_distinct: "units_inv st r \<Longrightarrow> distinct (UnitRegistry_ids r)"
  by (simp add: UnitRegistry_ids_def units_inv_def btree_wf_distinct)

lemma hashes_from_scratch:
  assumes "units_inv st r"
  shows "fst (UnitRegistry_status_hash st r) = UnitRegistry_status_hash_from_scratch st r"
    and "fst (UnitRegistry_runnable_queue_hash st r) = UnitRegistry_runnable_queue_hash_from_scratch st r"
proof -
  obtain sums r' where ref: "UnitRegistry_refresh_lanes st r = (sums, r')" by (cases "UnitRegistry_refresh_lanes st r")
  note d = registry_ids_distinct [OF assms]
  show "fst (UnitRegistry_status_hash st r) = UnitRegistry_status_hash_from_scratch st r"
    by (simp add: UnitRegistry_status_hash_def UnitRegistry_status_hash_from_scratch_def ref refreshed_sums [OF assms ref]
        foldl_sum_distinct [OF d])
  have "(\<lambda>acc uid. if UnitRegistry_effective_status st r uid = Some Runnable then acc + runnable_key (UnitId_raw uid + 1) else acc) =
      (\<lambda>acc uid. acc + (if UnitRegistry_effective_status st r uid = Some Runnable then runnable_key (UnitId_raw uid + 1) else 0))"
    by (simp add: fun_eq_iff)
  then show "fst (UnitRegistry_runnable_queue_hash st r) = UnitRegistry_runnable_queue_hash_from_scratch st r"
    by (simp add: UnitRegistry_runnable_queue_hash_def UnitRegistry_runnable_queue_hash_from_scratch_def ref
        refreshed_sums [OF assms ref] foldl_sum_distinct [OF d])
qed

lemma list_min_Min: "xs \<noteq> [] \<Longrightarrow> list_min xs = Some (Min (set xs))"
  by (cases xs) (simp_all add: list_min_def Min.set_eq_fold [symmetric])

lemma sorted_head_Min: "sorted_wrt (<) (x # xs) \<Longrightarrow> Min (set (x # xs)) = (x :: 'a::linorder)"
  by (rule Min_eqI) auto

lemma runnable_ids_iff:
  "u \<in> set (UnitRegistry_runnable_ids st r) \<longleftrightarrow> UnitRegistry_effective_status st r u = Some Runnable"
  by (auto simp: UnitRegistry_runnable_ids_def UnitRegistry_ids_def effective_status_eq
      dest: map_of_SomeD intro!: rev_image_eqI)

lemma lowest_runnable_list_min:
  assumes "units_inv st r"
  shows "UnitRegistry_lowest_runnable st r = list_min (map (\<lambda>u. (UnitRegistry_clock r u, u)) (UnitRegistry_runnable_ids st r))"
proof (cases "ur_clock_watch r = []")
  case True
  let ?es = "ur_runnable_clocks r" and ?l = "map (\<lambda>u. (UnitRegistry_clock r u, u)) (UnitRegistry_runnable_ids st r)"
  have clk: "sorted_wrt (<) ?es" "\<And>e. e \<in> set ?es \<Longrightarrow> map_of (ur_clocks r) (snd e) = Some (fst e)"
      "\<And>u. u \<in> snd ` set ?es \<longleftrightarrow> UnitRegistry_effective_status st r u = Some Runnable"
    using assms True by (simp_all add: units_inv_def views_inv_def clk_inv_def)
  have "(\<lambda>e. (UnitRegistry_clock r (snd e), snd e)) ` set ?es = (\<lambda>e. e) ` set ?es"
    by (rule image_cong) (simp_all add: UnitRegistry_clock_def clk(2))
  then have "set ?es = (\<lambda>u. (UnitRegistry_clock r u, u)) ` snd ` set ?es" by (simp add: image_image)
  moreover have "snd ` set ?es = set (UnitRegistry_runnable_ids st r)" using clk(3) runnable_ids_iff by blast
  ultimately have eq: "set ?es = set ?l" by simp
  show ?thesis
  proof (cases ?es)
    case Nil
    with eq have "?l = []" by (metis set_empty)
    with Nil True show ?thesis by (simp add: UnitRegistry_lowest_runnable_def list_min_def)
  next
    case (Cons e es)
    with eq have "?l \<noteq> []" by (metis list.distinct(1) set_empty)
    from list_min_Min [OF this] sorted_head_Min [of e es] clk(1) Cons eq True show ?thesis
      by (simp add: UnitRegistry_lowest_runnable_def)
  qed
qed (simp add: UnitRegistry_lowest_runnable_def)

lemma lowest_runnable_spec:
  assumes "units_inv st r"
  shows "UnitRegistry_lowest_runnable st r = None \<longleftrightarrow> (\<forall>u. UnitRegistry_effective_status st r u \<noteq> Some Runnable)"
    and "UnitRegistry_lowest_runnable st r = Some (c, u) \<longleftrightarrow>
      UnitRegistry_effective_status st r u = Some Runnable \<and> c = UnitRegistry_clock r u \<and>
      (\<forall>v. UnitRegistry_effective_status st r v = Some Runnable \<longrightarrow> (c, u) \<le> (UnitRegistry_clock r v, v))"
proof -
  let ?ids = "UnitRegistry_runnable_ids st r"
  let ?l = "map (\<lambda>u. (UnitRegistry_clock r u, u)) ?ids"
  note lm = lowest_runnable_list_min [OF assms]
  show none: "UnitRegistry_lowest_runnable st r = None \<longleftrightarrow> (\<forall>u. UnitRegistry_effective_status st r u \<noteq> Some Runnable)"
    unfolding lm by (cases "?ids = []") (auto simp: list_min_Min runnable_ids_iff [symmetric], simp add: list_min_def)
  show "UnitRegistry_lowest_runnable st r = Some (c, u) \<longleftrightarrow>
      UnitRegistry_effective_status st r u = Some Runnable \<and> c = UnitRegistry_clock r u \<and>
      (\<forall>v. UnitRegistry_effective_status st r v = Some Runnable \<longrightarrow> (c, u) \<le> (UnitRegistry_clock r v, v))"
  proof (cases "?ids = []")
    case False
    have "Min (set ?l) = (c, u) \<longleftrightarrow> (c, u) \<in> set ?l \<and> (\<forall>e \<in> set ?l. (c, u) \<le> e)"
      using False by (intro Min_eq_iff) auto
    then show ?thesis unfolding lm using False by (auto simp: list_min_Min runnable_ids_iff [symmetric])
  next
    case True
    then have "UnitRegistry_effective_status st r u \<noteq> Some Runnable" by (metis empty_iff runnable_ids_iff set_empty)
    with True show ?thesis unfolding lm by (simp add: list_min_def)
  qed
qed

lemma sync_clock_clock:
  "btree_wf (ur_clocks r) \<Longrightarrow>
   UnitRegistry_clock (sync_clock st now u r) v = (if v = u then synced_clock st now r u else UnitRegistry_clock r v)"
  by (simp add: UnitRegistry_clock_def sync_clock_fields btree_get_insert)

lemma synced_clock_cong:
  "map_of (ur_clocks r') u = map_of (ur_clocks r) u \<Longrightarrow>
   UnitRegistry_effective_status st r' u = UnitRegistry_effective_status st r u \<Longrightarrow>
   u \<in> ur_parked r' \<longleftrightarrow> u \<in> ur_parked r \<Longrightarrow> synced_clock st now r' u = synced_clock st now r u"
  unfolding synced_clock_def by (simp split: option.split)

lemma synced_clock_other:
  "btree_wf (ur_clocks r) \<Longrightarrow> v \<noteq> u \<Longrightarrow> synced_clock st now (sync_clock st now u r) v = synced_clock st now r v"
  by (rule synced_clock_cong [OF _ fun_cong [OF sync_clock_effective]])
     (simp_all add: sync_clock_fields btree_get_insert)

lemma sync_fold_clock:
  "btree_wf (ur_clocks r) \<Longrightarrow> distinct us \<Longrightarrow>
   UnitRegistry_clock (fold (sync_clock st now) us r) v = (if v \<in> set us then synced_clock st now r v else UnitRegistry_clock r v)"
proof (induction us arbitrary: r)
  case (Cons u us)
  have "btree_wf (ur_clocks (sync_clock st now u r))"
    using Cons.prems by (simp add: sync_clock_fields btree_wf_insert)
  from Cons.IH [OF this] Cons.prems show ?case
    using synced_clock_other [of r v u st now] by (auto simp: sync_clock_clock)
qed simp

lemma sync_clocks_clock:
  assumes "units_inv st r"
  shows "UnitRegistry_clock (UnitRegistry_sync_clocks st now r) v =
    (if v \<in> set (ur_clock_watch r) then synced_clock st now r v else UnitRegistry_clock r v)"
proof -
  let ?r = "r\<lparr>ur_clock_watch := []\<rparr>"
  have wf: "btree_wf (ur_clocks ?r)" and d: "distinct (ur_clock_watch r)"
    using assms by (simp_all add: units_inv_def views_inv_def clk_inv_def)
  have "UnitRegistry_clock (UnitRegistry_sync_clocks st now r) v = UnitRegistry_clock (fold (sync_clock st now) (ur_clock_watch r) ?r) v"
    by (simp add: UnitRegistry_sync_clocks_def Let_def UnitRegistry_clock_def)
  moreover have "synced_clock st now ?r v = synced_clock st now r v" "UnitRegistry_clock ?r v = UnitRegistry_clock r v"
    by (rule synced_clock_cong, simp_all add: UnitRegistry_clock_def)
  ultimately show ?thesis using sync_fold_clock [OF wf d, of st now v] by simp
qed

lemma synced_clock_ge: "UnitRegistry_clock r u \<le> synced_clock st now r u"
  by (cases "map_of (ur_clocks r) u")
     (simp_all add: UnitRegistry_clock_def synced_clock_def GuestTicks_ZERO_def less_eq_GuestTicks_def [of "GuestTicks 0"])

lemma sync_clocks_effective:
  assumes "units_inv st r"
  shows "UnitRegistry_effective_status st (UnitRegistry_sync_clocks st now r) = UnitRegistry_effective_status st r"
proof -
  have "clk_ok (UnitRegistry_effective_status st (r\<lparr>ur_clock_watch := []\<rparr>)) (set (ur_clock_watch r))
      (ur_runnable_clocks (r\<lparr>ur_clock_watch := []\<rparr>)) (ur_clocks (r\<lparr>ur_clock_watch := []\<rparr>))"
    using assms by (simp add: units_inv_def views_inv_def clk_inv_ok)
  from sync_fold [OF this, of now] show ?thesis by (simp add: UnitRegistry_sync_clocks_def Let_def)
qed

section \<open>The properties\<close>

text \<open>
  C12: on every registry built by any sequence of registrations, mutable borrows, overrides,
  holds, deliveries, clock updates and hash reads, the unit-status hash and the runnable-set
  hash read from the incremental accumulators equal the hashes computed from scratch over
  the registered units.
\<close>

theorem status_hash_up_to_date:
  assumes "registry_reachable st uid r"
  shows "fst (UnitRegistry_status_hash st r) = UnitRegistry_status_hash_from_scratch st r \<and>
    fst (UnitRegistry_runnable_queue_hash st r) = UnitRegistry_runnable_queue_hash_from_scratch st r"
  using hashes_from_scratch [OF registry_reachable_inv [OF assms]] by blast

text \<open>
  C28: on every reachable registry \<^verbatim>\<open>lowest_runnable\<close> answers \<^verbatim>\<open>None\<close> exactly when no unit is
  runnable, and otherwise the runnable unit with the least clock, the lower id on a tie,
  whether it reads the sorted index or scans the units.
\<close>

theorem lowest_runnable_exact:
  assumes "registry_reachable st uid r"
  shows "(UnitRegistry_lowest_runnable st r = None \<longleftrightarrow> (\<forall>u. UnitRegistry_effective_status st r u \<noteq> Some Runnable)) \<and>
    (\<forall>c u. UnitRegistry_lowest_runnable st r = Some (c, u) \<longleftrightarrow>
      UnitRegistry_effective_status st r u = Some Runnable \<and> c = UnitRegistry_clock r u \<and>
      (\<forall>v. UnitRegistry_effective_status st r v = Some Runnable \<longrightarrow> (c, u) \<le> (UnitRegistry_clock r v, v)))"
  using lowest_runnable_spec [OF registry_reachable_inv [OF assms]] by blast

text \<open>
  C27: a clock sync changes no status and leaves no unit marked. It sets the clock of each
  marked unit without one to the sync tick, raises the clock of a marked unit that was
  parked and is runnable to the sync tick, leaves every other clock alone, and runs no clock
  backwards.
\<close>

theorem sync_clocks_exact:
  assumes "registry_reachable st uid r"
  shows "UnitRegistry_effective_status st (UnitRegistry_sync_clocks st now r) = UnitRegistry_effective_status st r \<and>
    ur_clock_watch (UnitRegistry_sync_clocks st now r) = [] \<and>
    (\<forall>u. UnitRegistry_clock (UnitRegistry_sync_clocks st now r) u =
      (if u \<notin> set (ur_clock_watch r) then UnitRegistry_clock r u
       else if map_of (ur_clocks r) u = None then now
       else if UnitRegistry_effective_status st r u = Some Runnable \<and> u \<in> ur_parked r then max (UnitRegistry_clock r u) now
       else UnitRegistry_clock r u)) \<and>
    (\<forall>u. UnitRegistry_clock r u \<le> UnitRegistry_clock (UnitRegistry_sync_clocks st now r) u)"
proof -
  note inv = registry_reachable_inv [OF assms]
  have watch: "ur_clock_watch (UnitRegistry_sync_clocks st now r) = []"
    by (simp add: UnitRegistry_sync_clocks_def Let_def)
  show ?thesis
    using sync_clocks_effective [OF inv] watch sync_clocks_clock [OF inv] synced_clock_ge [of r _ st now]
    by (auto simp: synced_clock_def UnitRegistry_clock_def split: option.splits)
qed

section \<open>Witnesses\<close>

text \<open>Two units, a pair of a status and an id each; the second is blocked, then woken by an override.\<close>

definition two_units :: "(UnitStatus \<times> UnitId) UnitRegistry" where
  "two_units =
     (let r = snd (the (UnitRegistry_register_with snd (\<lambda>i. (Runnable, i)) UnitRegistry_new));
          r = snd (the (UnitRegistry_register_with snd (\<lambda>i. (Blocked, i)) r));
          r = UnitRegistry_sync_clocks fst (GuestTicks 5) r
      in UnitRegistry_set_status_override (UnitId 1) Runnable r)"

lemma register_with_defined:
  assumes "uid (factory (UnitId (ur_next_id r))) = UnitId (ur_next_id r)" and "registry_reachable st uid r"
  shows "registry_reachable st uid (snd (the (UnitRegistry_register_with uid factory r)))"
proof -
  obtain r' where "UnitRegistry_register_with uid factory r = Some (UnitId (ur_next_id r), r')"
    using assms(1) unfolding UnitRegistry_register_with_def Let_def by auto
  with rr_register_with [OF assms(2) this] show ?thesis by simp
qed

lemma two_units_reachable: "registry_reachable fst snd two_units"
  unfolding two_units_def Let_def
  by (intro rr_set_override rr_sync_clocks register_with_defined rr_new) simp_all

theorem status_hash_up_to_date_witness:
  "fst (UnitRegistry_status_hash fst two_units) = UnitRegistry_status_hash_from_scratch fst two_units \<and>
   fst (UnitRegistry_runnable_queue_hash fst two_units) = UnitRegistry_runnable_queue_hash_from_scratch fst two_units"
  using status_hash_up_to_date [OF two_units_reachable] by blast

lemma two_units_status:
  "UnitRegistry_effective_status fst two_units (UnitId 0) = Some Runnable"
  "UnitRegistry_effective_status fst two_units (UnitId 1) = Some Runnable"
  "UnitRegistry_clock two_units (UnitId 1) = GuestTicks 5" "UnitId 1 \<in> set (ur_clock_watch two_units)"
  "UnitId 1 \<in> ur_parked two_units" "map_of (ur_clocks two_units) (UnitId 1) \<noteq> None"
  by code_simp+

theorem lowest_runnable_exact_witness: "UnitRegistry_lowest_runnable fst two_units \<noteq> None"
  using lowest_runnable_exact [OF two_units_reachable] two_units_status(1) by blast

theorem sync_clocks_exact_witness:
  "UnitRegistry_clock (UnitRegistry_sync_clocks fst (GuestTicks 9) two_units) (UnitId 1) = GuestTicks 9"
  using sync_clocks_exact [OF two_units_reachable, of "GuestTicks 9"] two_units_status
  by (simp add: max_def less_eq_GuestTicks_def)

end
