(* ===== verification/Scheduler.thy ===== *)
theory Scheduler
  imports Unit_Reach
begin

text \<open>
  \<^verbatim>\<open>cellgov_core/src/scheduler.rs\<close>: the round-robin scheduler with its critical-section and
  syscall stickiness, and the lowest-clock scheduler. The trait \<^verbatim>\<open>Scheduler\<close> is the locale
  \<open>scheduler\<close>, and both policies are instances of it.
\<close>

section \<open>The contract\<close>

locale scheduler =
  fixes st :: "'u \<Rightarrow> UnitStatus"
    and sched_inv :: "'s \<Rightarrow> bool"
    and select_next :: "'u UnitRegistry \<Rightarrow> 's \<Rightarrow> UnitId option \<times> 's"
    and notify_yielded :: "YieldReason \<Rightarrow> bool \<Rightarrow> bool \<Rightarrow> 's \<Rightarrow> 's"
  assumes inv_select: "sched_inv s \<Longrightarrow> sched_inv (snd (select_next r s))"
    and inv_notify: "sched_inv s \<Longrightarrow> sched_inv (notify_yielded y w h s)"
    and select_runnable: "units_inv st r \<Longrightarrow> fst (select_next r s) = Some u \<Longrightarrow>
      UnitRegistry_effective_status st r u = Some Runnable"
    and select_some: "units_inv st r \<Longrightarrow> UnitRegistry_effective_status st r v = Some Runnable \<Longrightarrow>
      fst (select_next r s) \<noteq> None"
begin

lemma select_none_iff:
  "units_inv st r \<Longrightarrow> fst (select_next r s) = None \<longleftrightarrow> (\<forall>u. UnitRegistry_effective_status st r u \<noteq> Some Runnable)"
  using select_runnable select_some by (metis not_None_eq)

end

section \<open>Round robin\<close>

record RoundRobinScheduler =
  rr_last_scheduled :: "UnitId option"
  rr_sticky :: bool
  rr_sticky_streak :: u32

definition STICKY_STREAK_LIMIT :: u32 where "STICKY_STREAK_LIMIT = 64"

definition RoundRobinScheduler_new :: RoundRobinScheduler where
  "RoundRobinScheduler_new = \<lparr>rr_last_scheduled = None, rr_sticky = False, rr_sticky_streak = 0\<rparr>"

definition RoundRobinScheduler_last_scheduled :: "RoundRobinScheduler \<Rightarrow> UnitId option" where
  "RoundRobinScheduler_last_scheduled s = rr_last_scheduled s"

definition RoundRobinScheduler_note_selected :: "UnitId \<Rightarrow> RoundRobinScheduler \<Rightarrow> RoundRobinScheduler" where
  "RoundRobinScheduler_note_selected u s = s\<lparr>rr_last_scheduled := Some u\<rparr>"

text \<open>The accumulators of the scan over the registry.\<close>

record RrScan =
  sc_first :: "UnitId option"
  sc_after_cursor :: "UnitId option"
  sc_cursor_runnable :: bool

definition rr_scan_step :: "('u \<Rightarrow> UnitStatus) \<Rightarrow> 'u UnitRegistry \<Rightarrow> UnitId option \<Rightarrow> UnitId \<Rightarrow> RrScan \<Rightarrow> RrScan" where
  "rr_scan_step st r cursor u a =
     (if UnitRegistry_effective_status st r u \<noteq> Some Runnable then a
      else let a = (case sc_first a of None \<Rightarrow> a\<lparr>sc_first := Some u\<rparr> | Some _ \<Rightarrow> a);
               a = (if Some u = cursor then a\<lparr>sc_cursor_runnable := True\<rparr> else a)
           in if (case cursor of Some c \<Rightarrow> c < u | None \<Rightarrow> False) \<and> sc_after_cursor a = None
              then a\<lparr>sc_after_cursor := Some u\<rparr> else a)"

definition RoundRobinScheduler_select_next ::
    "('u \<Rightarrow> UnitStatus) \<Rightarrow> 'u UnitRegistry \<Rightarrow> RoundRobinScheduler \<Rightarrow> UnitId option \<times> RoundRobinScheduler" where
  "RoundRobinScheduler_select_next st r s =
     (if UnitRegistry_is_empty r then (None, s)
      else let cursor = rr_last_scheduled s;
               a = fold (rr_scan_step st r cursor) (map fst (UnitRegistry_iter r))
                     \<lparr>sc_first = None, sc_after_cursor = None, sc_cursor_runnable = False\<rparr>;
               chosen = (case sc_first a of
                   None \<Rightarrow> None
                 | Some first \<Rightarrow>
                     (if cursor \<noteq> None \<and> rr_sticky s \<and> sc_cursor_runnable a then cursor
                      else case sc_after_cursor a of Some u \<Rightarrow> Some u | None \<Rightarrow> Some first))
           in (chosen, case chosen of Some u \<Rightarrow> s\<lparr>rr_last_scheduled := Some u\<rparr> | None \<Rightarrow> s))"

definition RoundRobinScheduler_notify_yielded :: "YieldReason \<Rightarrow> bool \<Rightarrow> bool \<Rightarrow> RoundRobinScheduler \<Rightarrow> RoundRobinScheduler" where
  "RoundRobinScheduler_notify_yielded yield_reason woke_others holds_critical_section s =
     (let in_critical = holds_critical_section \<and> \<not> YieldReason_breaks_critical_section yield_reason;
          non_waking_syscall = yield_reason = Syscall \<and> \<not> woke_others;
          want_sticky = in_critical \<or> non_waking_syscall
      in if want_sticky
         then let s = s\<lparr>rr_sticky_streak := saturating_add (rr_sticky_streak s) 1\<rparr>
              in s\<lparr>rr_sticky := rr_sticky_streak s < STICKY_STREAK_LIMIT\<rparr>
         else s\<lparr>rr_sticky_streak := 0, rr_sticky := False\<rparr>)"

section \<open>Lowest clock\<close>

definition LowestClockScheduler_select_next ::
    "('u \<Rightarrow> UnitStatus) \<Rightarrow> 'u UnitRegistry \<Rightarrow> unit \<Rightarrow> UnitId option \<times> unit" where
  "LowestClockScheduler_select_next st r s = (map_option snd (UnitRegistry_lowest_runnable st r), s)"

section \<open>What the round-robin scan finds\<close>

definition next_after :: "UnitId option \<Rightarrow> UnitId list \<Rightarrow> UnitId option" where
  "next_after cursor us =
     (case cursor of None \<Rightarrow> None | Some c \<Rightarrow> (case filter (\<lambda>u. c < u) us of [] \<Rightarrow> None | u # _ \<Rightarrow> Some u))"

definition list_head :: "'a list \<Rightarrow> 'a option" where
  "list_head xs = (case xs of [] \<Rightarrow> None | x # _ \<Rightarrow> Some x)"

lemma list_head_simps [simp]: "list_head [] = None" "list_head (x # xs) = Some x"
  by (simp_all add: list_head_def)

lemma list_head_append: "list_head (xs @ ys) = (case list_head xs of None \<Rightarrow> list_head ys | Some x \<Rightarrow> Some x)"
  by (cases xs) (simp_all add: list_head_def)

lemma next_after_head: "next_after (Some c) us = list_head (filter (\<lambda>u. c < u) us)" "next_after None us = None"
  by (simp_all add: next_after_def list_head_def)

lemma rr_scan_result:
  "fold (rr_scan_step st r cursor) us \<lparr>sc_first = None, sc_after_cursor = None, sc_cursor_runnable = False\<rparr> =
   (let run = filter (\<lambda>u. UnitRegistry_effective_status st r u = Some Runnable) us
    in \<lparr>sc_first = list_head run, sc_after_cursor = next_after cursor run,
        sc_cursor_runnable = (\<exists>u \<in> set run. Some u = cursor)\<rparr>)"
proof (induction us rule: rev_induct)
  case Nil
  then show ?case by (cases cursor) (simp_all add: list_head_def next_after_def)
next
  case (snoc u us)
  then show ?case
    by (cases cursor) (auto simp: Let_def rr_scan_step_def next_after_head list_head_append split: option.splits)
qed

lemma select_next_eq:
  "RoundRobinScheduler_select_next st r s =
     (let run = UnitRegistry_runnable_ids st r; cursor = rr_last_scheduled s;
          chosen = (if rr_sticky s \<and> (\<exists>u \<in> set run. Some u = cursor) then cursor
                    else case next_after cursor run of Some u \<Rightarrow> Some u | None \<Rightarrow> list_head run)
      in (chosen, case chosen of Some u \<Rightarrow> s\<lparr>rr_last_scheduled := Some u\<rparr> | None \<Rightarrow> s))"
proof -
  have ids: "map fst (UnitRegistry_iter r) = UnitRegistry_ids r" by (simp add: UnitRegistry_iter_def UnitRegistry_ids_def)
  have empty: "UnitRegistry_is_empty r \<Longrightarrow> UnitRegistry_runnable_ids st r = []"
    by (simp add: UnitRegistry_is_empty_def UnitRegistry_runnable_ids_def UnitRegistry_ids_def)
  have nil: "list_head xs = None \<longleftrightarrow> xs = []" for xs :: "UnitId list" by (cases xs) (simp_all add: list_head_def)
  show ?thesis
    by (cases "UnitRegistry_is_empty r")
       (auto simp: RoundRobinScheduler_select_next_def ids rr_scan_result Let_def empty nil next_after_def
         UnitRegistry_runnable_ids_def [symmetric] split: option.splits)
qed

lemma list_head_None [simp]: "list_head xs = None \<longleftrightarrow> xs = []"
  by (cases xs) simp_all

lemma list_head_in: "list_head xs = Some x \<Longrightarrow> x \<in> set xs"
  by (cases xs) auto

lemma next_after_in: "next_after cursor us = Some u \<Longrightarrow> u \<in> set us"
  by (cases cursor) (auto simp: next_after_head dest: list_head_in)

lemma list_head_least: "sorted_wrt (<) us \<Longrightarrow> list_head us = Some u \<Longrightarrow> v \<in> set us \<Longrightarrow> u \<le> (v :: UnitId)"
  by (cases us) auto

lemma next_after_least:
  assumes "sorted_wrt (<) us" and "next_after (Some c) us = Some u"
  shows "c < u" and "v \<in> set us \<Longrightarrow> c < v \<Longrightarrow> u \<le> v"
proof -
  have h: "list_head (filter (\<lambda>u. c < u) us) = Some u" using assms(2) by (simp add: next_after_head)
  from list_head_in [OF h] show "c < u" by simp
  show "v \<in> set us \<Longrightarrow> c < v \<Longrightarrow> u \<le> v"
    by (rule list_head_least [OF sorted_wrt_filter [OF assms(1)] h]) simp
qed

lemma runnable_ids_sorted: "units_inv st r \<Longrightarrow> sorted_wrt (<) (UnitRegistry_runnable_ids st r)"
  by (simp add: UnitRegistry_runnable_ids_def UnitRegistry_ids_def units_inv_def btree_wf_def sorted_wrt_filter)

section \<open>Both policies meet the contract\<close>

text \<open>A sticky scheduler is within its streak.\<close>

definition rr_inv :: "RoundRobinScheduler \<Rightarrow> bool" where
  "rr_inv s \<longleftrightarrow> (rr_sticky s \<longrightarrow> 1 \<le> unat (rr_sticky_streak s) \<and> unat (rr_sticky_streak s) < 64)"

lemma rr_inv_select: "rr_inv s \<Longrightarrow> rr_inv (snd (RoundRobinScheduler_select_next st r s))"
  by (auto simp: rr_inv_def select_next_eq Let_def split: option.splits)

lemma streak_bound: "n < STICKY_STREAK_LIMIT \<longleftrightarrow> unat n < 64"
  by (simp add: STICKY_STREAK_LIMIT_def word_less_nat_alt)

lemma streak_next: "unat (saturating_add n (1 :: u32)) = min (unat n + 1) (2 ^ 32 - 1)"
proof (cases "unat n + 1 < 2 ^ 32")
  case True
  then show ?thesis using unat_plus_no_wrap [of n 1] by (simp add: saturating_add_def)
next
  case False
  then show ?thesis using unat_lt_2p [of n]
    by (simp add: saturating_add_def unsigned_minus_1_eq_mask mask_eq_exp_minus_1)
qed

lemma notify_effect:
  fixes y w h s
  defines "s' \<equiv> RoundRobinScheduler_notify_yielded y w h s"
  shows "rr_last_scheduled s' = rr_last_scheduled s \<and>
    (rr_sticky s' \<longrightarrow> unat (rr_sticky_streak s') = unat (rr_sticky_streak s) + 1 \<and> unat (rr_sticky_streak s') < 64)"
  unfolding s'_def using streak_next [of "rr_sticky_streak s"]
  by (auto simp: RoundRobinScheduler_notify_yielded_def Let_def streak_bound)

lemma rr_inv_notify: "rr_inv (RoundRobinScheduler_notify_yielded y w h s)"
  using notify_effect [of y w h s] by (auto simp: rr_inv_def)

lemma select_in_runnable:
  "fst (RoundRobinScheduler_select_next st r s) = Some u \<Longrightarrow> u \<in> set (UnitRegistry_runnable_ids st r)"
  by (auto simp: select_next_eq Let_def split: if_splits option.splits dest: next_after_in list_head_in)

interpretation round_robin: scheduler st rr_inv "RoundRobinScheduler_select_next st" RoundRobinScheduler_notify_yielded
proof
  fix r :: "'a UnitRegistry" and s u v
  show "fst (RoundRobinScheduler_select_next st r s) = Some u \<Longrightarrow> UnitRegistry_effective_status st r u = Some Runnable"
    using select_in_runnable [of st r s u] by (simp add: runnable_ids_iff)
  show "UnitRegistry_effective_status st r v = Some Runnable \<Longrightarrow> fst (RoundRobinScheduler_select_next st r s) \<noteq> None"
    by (auto simp: select_next_eq Let_def runnable_ids_iff [symmetric] simp del: not_None_eq split: option.splits)
       (metis option.distinct(1))+
qed (simp_all add: rr_inv_select rr_inv_notify)

interpretation lowest_clock: scheduler st "\<lambda>_. True" "LowestClockScheduler_select_next st" "\<lambda>_ _ _ s. s"
proof
  fix r :: "'a UnitRegistry" and s u v
  assume inv: "units_inv st r"
  show "fst (LowestClockScheduler_select_next st r s) = Some u \<Longrightarrow> UnitRegistry_effective_status st r u = Some Runnable"
    using lowest_runnable_spec(2) [OF inv] by (auto simp: LowestClockScheduler_select_next_def)
  show "UnitRegistry_effective_status st r v = Some Runnable \<Longrightarrow> fst (LowestClockScheduler_select_next st r s) \<noteq> None"
    using lowest_runnable_spec(1) [OF inv] by (auto simp: LowestClockScheduler_select_next_def)
qed simp_all

section \<open>Fairness\<close>

text \<open>The units the rotation visits after \<open>cursor\<close> up to and including \<open>u\<close>.\<close>

definition ahead :: "UnitId set \<Rightarrow> UnitId \<Rightarrow> UnitId option \<Rightarrow> UnitId set" where
  "ahead ids u cursor =
     (case cursor of
        None \<Rightarrow> {v \<in> ids. v \<le> u}
      | Some c \<Rightarrow> (if c < u then {v \<in> ids. c < v \<and> v \<le> u} else {v \<in> ids. c < v \<or> v \<le> u}))"

lemma ahead_rotates:
  assumes "v \<in> ahead ids u cursor" and "v \<noteq> u" and "finite ids"
  shows "card (ahead ids u (Some v)) < card (ahead ids u cursor)"
proof (rule psubset_card_mono)
  show "finite (ahead ids u cursor)" using assms(3) by (auto simp: ahead_def split: option.splits)
  have mem: "w \<in> ahead ids u (Some c) \<longleftrightarrow> w \<in> ids \<and> (if c < u then c < w \<and> w \<le> u else c < w \<or> w \<le> u)" for c w
    by (simp add: ahead_def)
  have out: "v \<notin> ahead ids u (Some v)" using assms(2) by (simp add: mem)
  have sub: "w \<in> ahead ids u cursor" if "w \<in> ahead ids u (Some v)" for w
  proof (cases cursor)
    case None
    then have "v < u" using assms(1,2) by (simp add: ahead_def order.strict_iff_order)
    with that None show ?thesis by (simp add: mem, simp add: ahead_def)
  next
    case (Some c)
    with assms(1,2) that show ?thesis unfolding Some mem by (simp split: if_split_asm) (metis le_less_trans less_trans not_less)+
  qed
  from sub out assms(1) show "ahead ids u (Some v) \<subset> ahead ids u cursor" by blast
qed

text \<open>A selection that is not sticky advances the cursor to a unit ahead of it, never past a runnable one.\<close>

lemma rotation_ahead:
  assumes inv: "units_inv st r" and u: "u \<in> set (UnitRegistry_runnable_ids st r)"
    and sel: "(case next_after cursor (UnitRegistry_runnable_ids st r) of
        Some v \<Rightarrow> Some v | None \<Rightarrow> list_head (UnitRegistry_runnable_ids st r)) = Some v"
    and ids: "set (UnitRegistry_ids r) = ids"
  shows "v \<in> ahead ids u cursor"
proof -
  let ?run = "UnitRegistry_runnable_ids st r"
  have so: "sorted_wrt (<) ?run" by (rule runnable_ids_sorted [OF inv])
  have sub: "set ?run \<subseteq> ids" using ids by (auto simp: UnitRegistry_runnable_ids_def)
  show ?thesis
  proof (cases cursor)
    case None
    then have "list_head ?run = Some v" using sel by (simp add: next_after_head)
    from list_head_least [OF so this u] list_head_in [OF this] sub None show ?thesis by (auto simp: ahead_def)
  next
    case (Some c)
    show ?thesis
    proof (cases "next_after (Some c) ?run")
      case None
      then have "list_head ?run = Some v" using sel Some by simp
      note h = list_head_least [OF so this u] list_head_in [OF this]
      have "\<not> c < u" using None u by (auto simp: next_after_head filter_empty_conv)
      with h sub Some show ?thesis by (auto simp: ahead_def)
    next
      case (Some w)
      then have w: "w = v" using sel \<open>cursor = Some c\<close> by simp
      from next_after_least [OF so Some] u next_after_in [OF Some] sub w \<open>cursor = Some c\<close> show ?thesis
        by (auto simp: ahead_def)
    qed
  qed
qed

text \<open>
  A run of the scheduler: at turn \<open>n\<close> the runtime selects from the registry \<open>R n\<close> and reports
  how the step ended.
\<close>

fun rr_state :: "('u \<Rightarrow> UnitStatus) \<Rightarrow> (nat \<Rightarrow> 'u UnitRegistry) \<Rightarrow> (nat \<Rightarrow> YieldReason \<times> bool \<times> bool) \<Rightarrow>
    RoundRobinScheduler \<Rightarrow> nat \<Rightarrow> RoundRobinScheduler" where
  "rr_state st R Y s 0 = s"
| "rr_state st R Y s (Suc n) =
     (let (y, w, h) = Y n
      in RoundRobinScheduler_notify_yielded y w h (snd (RoundRobinScheduler_select_next st (R n) (rr_state st R Y s n))))"

definition rr_choice :: "('u \<Rightarrow> UnitStatus) \<Rightarrow> (nat \<Rightarrow> 'u UnitRegistry) \<Rightarrow> (nat \<Rightarrow> YieldReason \<times> bool \<times> bool) \<Rightarrow>
    RoundRobinScheduler \<Rightarrow> nat \<Rightarrow> UnitId option" where
  "rr_choice st R Y s n = fst (RoundRobinScheduler_select_next st (R n) (rr_state st R Y s n))"

text \<open>How many turns the scheduler can still pass over \<open>u\<close>.\<close>

definition rr_rank :: "UnitId set \<Rightarrow> UnitId \<Rightarrow> RoundRobinScheduler \<Rightarrow> nat" where
  "rr_rank ids u s = 64 * card (ahead ids u (rr_last_scheduled s)) + (if rr_sticky s then 64 - unat (rr_sticky_streak s) else 0)"

lemma rr_rank_decreases:
  assumes inv: "units_inv st r" "rr_inv s" and u: "UnitRegistry_effective_status st r u = Some Runnable"
    and ids: "set (UnitRegistry_ids r) = ids" and other: "fst (RoundRobinScheduler_select_next st r s) \<noteq> Some u"
  shows "rr_rank ids u (RoundRobinScheduler_notify_yielded y w h (snd (RoundRobinScheduler_select_next st r s))) < rr_rank ids u s"
proof -
  let ?run = "UnitRegistry_runnable_ids st r" and ?c = "rr_last_scheduled s"
  let ?s = "snd (RoundRobinScheduler_select_next st r s)"
  let ?n = "RoundRobinScheduler_notify_yielded y w h ?s"
  have ur: "u \<in> set ?run" using u by (simp add: runnable_ids_iff)
  have fin: "finite ids" using ids by auto
  obtain v where v: "fst (RoundRobinScheduler_select_next st r s) = Some v"
    using round_robin.select_some [OF inv(1) u, of s] by blast
  have s: "?s = s\<lparr>rr_last_scheduled := Some v\<rparr>"
    using v by (simp add: select_next_eq Let_def split: option.splits)
  from notify_effect [of y w h ?s]
  have n: "rr_last_scheduled ?n = Some v" "rr_sticky ?n \<Longrightarrow> unat (rr_sticky_streak ?n) = unat (rr_sticky_streak s) + 1"
      "rr_sticky ?n \<Longrightarrow> unat (rr_sticky_streak ?n) < 64"
    by (simp_all add: s)
  show ?thesis
  proof (cases "rr_sticky s \<and> (\<exists>w \<in> set ?run. Some w = ?c)")
    case True
    then have "?c = Some v" using v by (simp add: select_next_eq Let_def)
    with True n inv(2) show ?thesis by (auto simp: rr_rank_def rr_inv_def)
  next
    case False
    then have "(case next_after ?c ?run of Some v \<Rightarrow> Some v | None \<Rightarrow> list_head ?run) = Some v"
      using v by (simp add: select_next_eq Let_def split: if_split_asm)
    from rotation_ahead [OF inv(1) ur this ids]
    have "card (ahead ids u (Some v)) < card (ahead ids u ?c)"
      by (rule ahead_rotates) (use v other fin in auto)
    then show ?thesis using n by (auto simp: rr_rank_def)
  qed
qed

lemma rr_state_inv: "rr_inv s \<Longrightarrow> rr_inv (rr_state st R Y s n)"
  by (cases n) (simp_all add: Let_def split_beta rr_inv_notify)

lemma rr_rank_bound: "finite ids \<Longrightarrow> rr_rank ids u s < 64 * (card ids + 1) + 1"
proof -
  assume "finite ids"
  then have "card (ahead ids u (rr_last_scheduled s)) \<le> card ids"
    by (intro card_mono) (auto simp: ahead_def split: option.splits)
  then show ?thesis by (auto simp: rr_rank_def)
qed

text \<open>
  C14: the round-robin scheduler starves no unit. Whatever the steps report, while the
  registry keeps its set of \<open>n\<close> units, a unit that stays runnable is selected within
  \<open>64 * (n + 1) + 1\<close> turns: a critical section or a silent syscall keeps the cursor for at
  most 64 turns, and every other turn brings the rotation nearer.
\<close>

theorem round_robin_fair:
  assumes "\<And>n. units_inv st (R n)" and "\<And>n. set (UnitRegistry_ids (R n)) = ids"
    and "\<And>n. UnitRegistry_effective_status st (R n) u = Some Runnable" and "rr_inv s"
  shows "\<exists>n \<le> 64 * (card ids + 1). rr_choice st R Y s n = Some u"
proof (rule ccontr)
  let ?b = "64 * (card ids + 1)"
  assume no: "\<not> (\<exists>n \<le> ?b. rr_choice st R Y s n = Some u)"
  have fin: "finite ids" using assms(2) [of 0] by auto
  have "n \<le> ?b + 1 \<Longrightarrow> rr_rank ids u (rr_state st R Y s n) + n \<le> rr_rank ids u s" for n
  proof (induction n)
    case (Suc n)
    obtain y w h where y: "Y n = (y, w, h)" by (cases "Y n") auto
    have "rr_rank ids u (rr_state st R Y s (Suc n)) < rr_rank ids u (rr_state st R Y s n)"
      using rr_rank_decreases [OF assms(1) rr_state_inv [OF assms(4)] assms(3) assms(2), of n st R Y n y w h] no Suc.prems
      by (simp add: y rr_choice_def)
    with Suc show ?case by simp
  qed simp
  from this [of "?b + 1"] rr_rank_bound [OF fin, of u s] show False by simp
qed

theorem round_robin_fair_witness:
  "\<exists>n \<le> 192. rr_choice fst (\<lambda>_. two_units) (\<lambda>_. (Syscall, False, True)) RoundRobinScheduler_new n = Some (UnitId 1)"
proof -
  have "set (UnitRegistry_ids two_units) = {UnitId 0, UnitId 1}" by code_simp
  moreover have "rr_inv RoundRobinScheduler_new" by (simp add: rr_inv_def RoundRobinScheduler_new_def)
  ultimately show ?thesis
    using round_robin_fair [of fst "\<lambda>_. two_units" "{UnitId 0, UnitId 1}" "UnitId 1" RoundRobinScheduler_new
        "\<lambda>_. (Syscall, False, True)"] registry_reachable_inv [OF two_units_reachable] two_units_status(2)
    by simp
qed

end
