(* ===== verification/Dispatch_Lanes.thy ===== *)
theory Dispatch_Lanes
  imports Lanes Events
begin

text \<open>
  The block reasons and pending responses of \<^verbatim>\<open>cellgov_lv2/src/dispatch.rs\<close>, their lanes
  (\<^verbatim>\<open>dispatch_lanes.rs\<close>), and the table of pending syscall responses
  (\<^verbatim>\<open>cellgov_core/src/syscall_table.rs\<close>).
\<close>

section \<open>Why a caller blocks, and what its wake does\<close>

datatype CondMutexKind = CondMutex_LwMutex | CondMutex_Mutex

definition CondMutexKind_as_u64 :: "CondMutexKind \<Rightarrow> u64" where
  "CondMutexKind_as_u64 k = (case k of CondMutex_LwMutex \<Rightarrow> 0 | CondMutex_Mutex \<Rightarrow> 1)"

datatype Lv2BlockReason =
    Block_ThreadGroupJoin u32
  | Block_PpuThreadJoin u64
  | Block_LwMutex u32
  | Block_Mutex u32
  | Block_Semaphore u32
  | Block_EventQueue u32
  | Block_EventFlag u32
  | Block_Uart
  | Block_UsbdEvent u32
  | Block_Cond u32 u32 CondMutexKind
  | Block_LwCond u32 u32

record EventPayload =
  ep_source :: u64
  ep_data1 :: u64
  ep_data2 :: u64
  ep_data3 :: u64

datatype PendingResponse =
    ReturnCode u64
  | Resp_ThreadGroupJoin (tg_group: u32) (tg_code: u64) (tg_cause_ptr: u32) (tg_status_ptr: u32) (tg_cause: u32) (tg_status: u32)
  | Resp_PpuThreadJoin u64 u32
  | Resp_EventQueueReceive u32 "EventPayload option"
  | EventFlagWake u32 u64
  | EventFlagCancelWake u32 u64
  | CondWakeReacquire u32 CondMutexKind
  | LwMutexWake u32 u32

definition PendingResponse_variant_tag :: "PendingResponse \<Rightarrow> u8" where
  "PendingResponse_variant_tag p =
     (case p of
        ReturnCode _ \<Rightarrow> 0
      | Resp_ThreadGroupJoin _ _ _ _ _ _ \<Rightarrow> 1
      | Resp_PpuThreadJoin _ _ \<Rightarrow> 2
      | Resp_EventQueueReceive _ _ \<Rightarrow> 3
      | EventFlagWake _ _ \<Rightarrow> 4
      | CondWakeReacquire _ _ \<Rightarrow> 5
      | LwMutexWake _ _ \<Rightarrow> 6
      | EventFlagCancelWake _ _ \<Rightarrow> 7)"

text \<open>The loops over a payload array: value \<open>i\<close> goes to field \<open>field + i\<close>.\<close>

fun push_values :: "u8 \<Rightarrow> u64 list \<Rightarrow> ObjectLanes \<Rightarrow> ObjectLanes" where
  "push_values field [] lanes = lanes"
| "push_values field (v # vs) lanes = push_values (field + 1) vs (ObjectLanes_lane field 0 v lanes)"

definition reason_payload :: "Lv2BlockReason \<Rightarrow> u64 \<times> u64 list" where
  "reason_payload r =
     (case r of
        Block_ThreadGroupJoin group_id \<Rightarrow> (0, [ucast group_id, 0, 0])
      | Block_PpuThreadJoin target \<Rightarrow> (1, [target, 0, 0])
      | Block_LwMutex i \<Rightarrow> (2, [ucast i, 0, 0])
      | Block_Mutex i \<Rightarrow> (3, [ucast i, 0, 0])
      | Block_Semaphore i \<Rightarrow> (4, [ucast i, 0, 0])
      | Block_EventQueue i \<Rightarrow> (5, [ucast i, 0, 0])
      | Block_EventFlag i \<Rightarrow> (6, [ucast i, 0, 0])
      | Block_Cond i mutex_id mutex_kind \<Rightarrow> (7, [ucast i, ucast mutex_id, CondMutexKind_as_u64 mutex_kind + 1])
      | Block_Uart \<Rightarrow> (8, [0, 0, 0])
      | Block_UsbdEvent handle \<Rightarrow> (9, [ucast handle, 0, 0])
      | Block_LwCond i lwmutex_id \<Rightarrow> (10, [ucast i, ucast lwmutex_id, 0]))"

definition Lv2BlockReason_push_lanes :: "Lv2BlockReason \<Rightarrow> u8 \<Rightarrow> ObjectLanes \<Rightarrow> u8 \<times> ObjectLanes" where
  "Lv2BlockReason_push_lanes r field lanes =
     (let (tag, payload) = reason_payload r;
          lanes = ObjectLanes_lane field 0 (tag + 1) lanes
      in (field + 4, push_values (field + 1) payload lanes))"

definition response_payload :: "PendingResponse \<Rightarrow> u64 list" where
  "response_payload p =
     (case p of
        ReturnCode code \<Rightarrow> [code, 0, 0, 0, 0, 0]
      | Resp_ThreadGroupJoin group_id code cause_ptr status_ptr cause status \<Rightarrow>
          [ucast group_id, code, ucast cause_ptr, ucast status_ptr, ucast cause, ucast status]
      | Resp_PpuThreadJoin target status_out_ptr \<Rightarrow> [target, ucast status_out_ptr, 0, 0, 0, 0]
      | Resp_EventQueueReceive out_ptr payload \<Rightarrow>
          (case payload of
             None \<Rightarrow> [ucast out_ptr, 0, 0, 0, 0, 0]
           | Some e \<Rightarrow> [ucast out_ptr, 1, ep_source e, ep_data1 e, ep_data2 e, ep_data3 e])
      | CondWakeReacquire mutex_id mutex_kind \<Rightarrow> [ucast mutex_id, CondMutexKind_as_u64 mutex_kind + 1, 0, 0, 0, 0]
      | EventFlagWake result_ptr observed \<Rightarrow> [ucast result_ptr, observed, 0, 0, 0, 0]
      | LwMutexWake mutex_ptr caller \<Rightarrow> [ucast mutex_ptr, ucast caller, 0, 0, 0, 0]
      | EventFlagCancelWake result_ptr observed \<Rightarrow> [ucast result_ptr, observed, 0, 0, 0, 0])"

definition PendingResponse_lanes :: "PendingResponse lane_value" where
  "PendingResponse_lanes p lanes =
     (let payload = response_payload p;
          lanes = ObjectLanes_lane 1 0 (ucast (PendingResponse_variant_tag p) + 1) lanes
      in push_values 2 payload lanes)"

section \<open>The table of pending responses\<close>

record SyscallResponseTable =
  srt_pending :: "(UnitId, PendingResponse) LaneMap"
  srt_displacement_count :: usize

definition SyscallResponseTable_new :: SyscallResponseTable where
  "SyscallResponseTable_new = \<lparr>srt_pending = LaneMap_new source_SYSCALL_RESPONSE UnitId_raw, srt_displacement_count = 0\<rparr>"

definition SyscallResponseTable_insert ::
    "UnitId \<Rightarrow> PendingResponse \<Rightarrow> SyscallResponseTable \<Rightarrow> PendingResponse option \<times> SyscallResponseTable" where
  "SyscallResponseTable_insert u response t =
     (let (displaced, m) = LaneMap_insert PendingResponse_lanes u response (srt_pending t);
          t = t\<lparr>srt_pending := m\<rparr>
      in (displaced, if displaced \<noteq> None then t\<lparr>srt_displacement_count := usize_saturating_add (srt_displacement_count t) 1\<rparr> else t))"

definition SyscallResponseTable_try_take ::
    "UnitId \<Rightarrow> SyscallResponseTable \<Rightarrow> PendingResponse option \<times> SyscallResponseTable" where
  "SyscallResponseTable_try_take u t =
     (let (p, m) = LaneMap_remove PendingResponse_lanes u (srt_pending t) in (p, t\<lparr>srt_pending := m\<rparr>))"

text \<open>\<^const>\<open>None\<close> is the panic on a unit with no response.\<close>

definition SyscallResponseTable_take_expected ::
    "UnitId \<Rightarrow> SyscallResponseTable \<Rightarrow> (PendingResponse \<times> SyscallResponseTable) option" where
  "SyscallResponseTable_take_expected u t =
     (let (p, m) = LaneMap_remove PendingResponse_lanes u (srt_pending t)
      in case p of None \<Rightarrow> None | Some p \<Rightarrow> Some (p, t\<lparr>srt_pending := m\<rparr>))"

definition SyscallResponseTable_peek :: "SyscallResponseTable \<Rightarrow> UnitId \<Rightarrow> PendingResponse option" where
  "SyscallResponseTable_peek t u = LaneMap_get (srt_pending t) u"

definition SyscallResponseTable_contains :: "SyscallResponseTable \<Rightarrow> UnitId \<Rightarrow> bool" where
  "SyscallResponseTable_contains t u = LaneMap_contains_key (srt_pending t) u"

definition SyscallResponseTable_len :: "SyscallResponseTable \<Rightarrow> usize" where
  "SyscallResponseTable_len t = LaneMap_len (srt_pending t)"

definition SyscallResponseTable_is_empty :: "SyscallResponseTable \<Rightarrow> bool" where
  "SyscallResponseTable_is_empty t = LaneMap_is_empty (srt_pending t)"

definition SyscallResponseTable_pending_ids :: "SyscallResponseTable \<Rightarrow> UnitId list" where
  "SyscallResponseTable_pending_ids t = map fst (lm_entries (srt_pending t))"

definition SyscallResponseTable_sync_partial :: "SyscallResponseTable \<Rightarrow> u128" where
  "SyscallResponseTable_sync_partial t = lm_partial (srt_pending t)"

definition SyscallResponseTable_sync_partial_from_scratch :: "SyscallResponseTable \<Rightarrow> u128" where
  "SyscallResponseTable_sync_partial_from_scratch t = LaneMap_partial_from_scratch PendingResponse_lanes (srt_pending t)"

section \<open>What the table promises\<close>

abbreviation srt_inv :: "SyscallResponseTable \<Rightarrow> bool" where
  "srt_inv t \<equiv> lm_inv PendingResponse_lanes (srt_pending t)"

lemma srt_inv_new: "srt_inv SyscallResponseTable_new"
  by (simp add: SyscallResponseTable_new_def lm_inv_new)

lemma SyscallResponseTable_insert_effect:
  assumes "srt_inv t" and "SyscallResponseTable_insert u p t = (displaced, t')"
  shows "srt_inv t'" and "displaced = SyscallResponseTable_peek t u"
    and "SyscallResponseTable_peek t' = (SyscallResponseTable_peek t)(u \<mapsto> p)"
    and "srt_displacement_count t' = (if displaced = None then srt_displacement_count t else usize_saturating_add (srt_displacement_count t) 1)"
proof -
  let ?m = "snd (LaneMap_insert PendingResponse_lanes u p (srt_pending t))"
  have d: "fst (LaneMap_insert PendingResponse_lanes u p (srt_pending t)) = map_of (lm_entries (srt_pending t)) u"
    by (simp add: LaneMap_insert_def Let_def split: option.split)
  have t': "srt_pending t' = ?m" and disp: "displaced = map_of (lm_entries (srt_pending t)) u"
    using assms(2) d by (auto simp: SyscallResponseTable_insert_def Let_def split_beta)
  show "srt_inv t'" using assms(1) by (simp add: t' lm_inv_insert)
  show "displaced = SyscallResponseTable_peek t u"
    by (simp add: disp SyscallResponseTable_peek_def LaneMap_get_def)
  show "SyscallResponseTable_peek t' = (SyscallResponseTable_peek t)(u \<mapsto> p)"
    using assms(1) by (simp add: fun_eq_iff SyscallResponseTable_peek_def LaneMap_get_def t' lm.get_insert)
  show "srt_displacement_count t' = (if displaced = None then srt_displacement_count t else usize_saturating_add (srt_displacement_count t) 1)"
    using assms(2) by (auto simp: SyscallResponseTable_insert_def Let_def split_beta)
qed

lemma SyscallResponseTable_try_take_effect:
  assumes "srt_inv t" and "SyscallResponseTable_try_take u t = (taken, t')"
  shows "srt_inv t'" and "taken = SyscallResponseTable_peek t u"
    and "SyscallResponseTable_peek t' = (SyscallResponseTable_peek t)(u := None)"
proof -
  let ?m = "snd (LaneMap_remove PendingResponse_lanes u (srt_pending t))"
  have t': "srt_pending t' = ?m" and taken: "taken = fst (LaneMap_remove PendingResponse_lanes u (srt_pending t))"
    using assms(2) by (auto simp: SyscallResponseTable_try_take_def Let_def split_beta)
  show "srt_inv t'" using assms(1) by (simp add: t' lm_inv_remove)
  show "taken = SyscallResponseTable_peek t u"
    by (simp add: taken SyscallResponseTable_peek_def LaneMap_get_def LaneMap_remove_def split: option.split)
  show "SyscallResponseTable_peek t' = (SyscallResponseTable_peek t)(u := None)"
    using assms(1) by (simp add: fun_eq_iff SyscallResponseTable_peek_def LaneMap_get_def t' lm.get_remove)
qed

lemma SyscallResponseTable_take_expected_eq:
  "SyscallResponseTable_take_expected u t =
     (case SyscallResponseTable_try_take u t of (None, _) \<Rightarrow> None | (Some p, t') \<Rightarrow> Some (p, t'))"
  by (simp add: SyscallResponseTable_take_expected_def SyscallResponseTable_try_take_def Let_def split_beta split: option.split)

end
