(* ===== verification/Timer_Queue.thy ===== *)
theory Timer_Queue
  imports Dispatch_Lanes
begin

text \<open>
  \<^verbatim>\<open>cellgov_core/src/timer_queue.rs\<close>: the queue of wake deadlines with its per-unit reverse
  index. The abstract queue is the list of wakes in deadline order, first come first served
  among equal deadlines, with at most one wake per unit; every operation refines it.
\<close>

section \<open>Operations\<close>

datatype TimerWakeKind = Sleep | SyncWait Lv2BlockReason | UnitEvent

record TimerWake =
  tw_unit :: UnitId
  tw_kind :: TimerWakeKind

record Queued =
  q_deadline :: GuestTicks
  q_wake :: TimerWake

definition Queued_lanes :: "Queued lane_value" where
  "Queued_lanes q lanes =
     (let lanes = ObjectLanes_lane 1 0 (GuestTicks_raw (q_deadline q)) lanes;
          lanes = ObjectLanes_lane 2 0 (UnitId_raw (tw_unit (q_wake q))) lanes
      in case tw_kind (q_wake q) of
           Sleep \<Rightarrow> ObjectLanes_lane 3 0 1 lanes
         | SyncWait reason \<Rightarrow> snd (Lv2BlockReason_push_lanes reason 4 (ObjectLanes_lane 3 0 2 lanes))
         | UnitEvent \<Rightarrow> ObjectLanes_lane 3 0 3 lanes)"

record TimerWakeQueue =
  tq_entries :: "(GuestTicks \<times> u64, Queued) LaneMap"
  tq_by_unit :: "(UnitId, GuestTicks \<times> u64) btree"
  tq_next_seq :: u64
  tq_displacement_count :: usize

definition TimerWakeQueue_new :: TimerWakeQueue where
  "TimerWakeQueue_new = \<lparr>tq_entries = LaneMap_new source_TIMER_WAKE (\<lambda>(_, seq). seq), tq_by_unit = [],
     tq_next_seq = 0, tq_displacement_count = 0\<rparr>"

definition TimerWakeQueue_len :: "TimerWakeQueue \<Rightarrow> usize" where
  "TimerWakeQueue_len q = LaneMap_len (tq_entries q)"

definition TimerWakeQueue_is_empty :: "TimerWakeQueue \<Rightarrow> bool" where
  "TimerWakeQueue_is_empty q = LaneMap_is_empty (tq_entries q)"

definition TimerWakeQueue_contains :: "TimerWakeQueue \<Rightarrow> UnitId \<Rightarrow> bool" where
  "TimerWakeQueue_contains q u = btree_contains (tq_by_unit q) u"

definition TimerWakeQueue_insert ::
    "GuestTicks \<Rightarrow> UnitId \<Rightarrow> TimerWakeKind \<Rightarrow> TimerWakeQueue \<Rightarrow> TimerWake option \<times> TimerWakeQueue" where
  "TimerWakeQueue_insert deadline u kind q =
     (let (displaced, q) =
            (case map_of (tq_by_unit q) u of
               None \<Rightarrow> (None, q)
             | Some prior_key \<Rightarrow>
                 (let (removed, es) = LaneMap_remove Queued_lanes prior_key (tq_entries q)
                  in (map_option q_wake removed,
                      q\<lparr>tq_by_unit := btree_remove u (tq_by_unit q), tq_entries := es,
                        tq_displacement_count := usize_saturating_add (tq_displacement_count q) 1\<rparr>)));
          seq = tq_next_seq q;
          q = q\<lparr>tq_next_seq := tq_next_seq q + 1\<rparr>;
          q = q\<lparr>tq_entries := snd (LaneMap_insert Queued_lanes (deadline, seq)
                  \<lparr>q_deadline = deadline, q_wake = \<lparr>tw_unit = u, tw_kind = kind\<rparr>\<rparr> (tq_entries q))\<rparr>
      in (displaced, q\<lparr>tq_by_unit := btree_insert u (deadline, seq) (tq_by_unit q)\<rparr>))"

definition TimerWakeQueue_displacement_count :: "TimerWakeQueue \<Rightarrow> usize" where
  "TimerWakeQueue_displacement_count q = tq_displacement_count q"

definition TimerWakeQueue_cancel :: "UnitId \<Rightarrow> TimerWakeQueue \<Rightarrow> bool \<times> TimerWakeQueue" where
  "TimerWakeQueue_cancel u q =
     (case map_of (tq_by_unit q) u of
        None \<Rightarrow> (False, q)
      | Some key \<Rightarrow> (True, q\<lparr>tq_by_unit := btree_remove u (tq_by_unit q),
                            tq_entries := snd (LaneMap_remove Queued_lanes key (tq_entries q))\<rparr>))"

definition TimerWakeQueue_cancel_unit_event :: "UnitId \<Rightarrow> TimerWakeQueue \<Rightarrow> bool \<times> TimerWakeQueue" where
  "TimerWakeQueue_cancel_unit_event u q =
     (let is_unit_event =
            (case map_of (tq_by_unit q) u of
               None \<Rightarrow> False
             | Some key \<Rightarrow>
                 (case LaneMap_get (tq_entries q) key of
                    None \<Rightarrow> False | Some queued \<Rightarrow> tw_kind (q_wake queued) = UnitEvent))
      in if is_unit_event then TimerWakeQueue_cancel u q else (False, q))"

definition TimerWakeQueue_peek_deadline :: "TimerWakeQueue \<Rightarrow> GuestTicks option" where
  "TimerWakeQueue_peek_deadline q = map_option (\<lambda>((deadline, _), _). deadline) (LaneMap_first (tq_entries q))"

text \<open>The drain loop: each turn removes the first entry, so the entry count bounds it.\<close>

function pop_due_loop ::
    "GuestTicks \<Rightarrow> (GuestTicks \<times> u64, Queued) LaneMap \<Rightarrow> TimerWake list \<Rightarrow> TimerWake list \<times> (GuestTicks \<times> u64, Queued) LaneMap" where
  "pop_due_loop now es due =
     (if (case LaneMap_first es of None \<Rightarrow> False | Some ((deadline, _), _) \<Rightarrow> deadline \<le> now)
      then let (popped, es') = LaneMap_pop_first Queued_lanes es
           in pop_due_loop now es' (case popped of Some (_, queued) \<Rightarrow> due @ [q_wake queued] | None \<Rightarrow> due)
      else (due, es))"
  by pat_completeness auto
termination
  by (relation "measure (\<lambda>(_, es, _). length (lm_entries es))")
     (auto simp: LaneMap_first_def btree_first_def LaneMap_pop_first_def split: list.splits)

declare pop_due_loop.simps [simp del]

definition TimerWakeQueue_pop_due :: "GuestTicks \<Rightarrow> TimerWakeQueue \<Rightarrow> TimerWake list \<times> TimerWakeQueue" where
  "TimerWakeQueue_pop_due now q =
     (let (due, es) = pop_due_loop now (tq_entries q) [];
          q = q\<lparr>tq_entries := es\<rparr>
      in (due, fold (\<lambda>wake q. q\<lparr>tq_by_unit := btree_remove (tw_unit wake) (tq_by_unit q)\<rparr>) due q))"

definition TimerWakeQueue_sync_partial :: "TimerWakeQueue \<Rightarrow> u128" where
  "TimerWakeQueue_sync_partial q = lm_partial (tq_entries q)"

definition TimerWakeQueue_sync_partial_from_scratch :: "TimerWakeQueue \<Rightarrow> u128" where
  "TimerWakeQueue_sync_partial_from_scratch q = LaneMap_partial_from_scratch Queued_lanes (tq_entries q)"

section \<open>The abstract queue\<close>

type_synonym wake_list = "(GuestTicks \<times> TimerWake) list"

definition wakes :: "TimerWakeQueue \<Rightarrow> wake_list" where
  "wakes q = map (\<lambda>(k, e). (fst k, q_wake e)) (lm_entries (tq_entries q))"

definition without_unit :: "UnitId \<Rightarrow> wake_list \<Rightarrow> wake_list" where
  "without_unit u ws = filter (\<lambda>w. tw_unit (snd w) \<noteq> u) ws"

text \<open>Insertion behind every wake that is not later.\<close>

definition schedule :: "GuestTicks \<Rightarrow> TimerWake \<Rightarrow> wake_list \<Rightarrow> wake_list" where
  "schedule d w ws = filter (\<lambda>x. fst x \<le> d) ws @ (d, w) # filter (\<lambda>x. d < fst x) ws"

definition wake_of :: "UnitId \<Rightarrow> wake_list \<Rightarrow> TimerWake option" where
  "wake_of u ws = map_option snd (find (\<lambda>x. tw_unit (snd x) = u) ws)"

text \<open>The reverse index names exactly the key of each unit's entry.\<close>

definition indexes :: "(UnitId, 'k) btree \<Rightarrow> ('k, Queued) btree \<Rightarrow> bool" where
  "indexes ix es \<longleftrightarrow> (\<forall>u k. map_of ix u = Some k \<longleftrightarrow> (\<exists>e. (k, e) \<in> set es \<and> tw_unit (q_wake e) = u))"

definition tq_inv :: "TimerWakeQueue \<Rightarrow> bool" where
  "tq_inv q \<longleftrightarrow> lm_inv Queued_lanes (tq_entries q) \<and> btree_wf (tq_by_unit q) \<and>
     (\<forall>e \<in> set (lm_entries (tq_entries q)). q_deadline (snd e) = fst (fst e) \<and> snd (fst e) < tq_next_seq q) \<and>
     indexes (tq_by_unit q) (lm_entries (tq_entries q))"

section \<open>The reverse index\<close>

abbreviation entry_unit :: "'k \<times> Queued \<Rightarrow> UnitId" where
  "entry_unit e \<equiv> tw_unit (q_wake (snd e))"

lemma indexesD: "indexes ix es \<Longrightarrow> map_of ix u = Some k \<longleftrightarrow> (\<exists>e. (k, e) \<in> set es \<and> tw_unit (q_wake e) = u)"
  by (simp add: indexes_def)

lemma indexes_None:
  assumes "indexes ix es"
  shows "map_of ix u = None \<longleftrightarrow> (\<forall>e \<in> set es. entry_unit e \<noteq> u)"
proof
  show "map_of ix u = None \<Longrightarrow> \<forall>e \<in> set es. entry_unit e \<noteq> u"
    using indexesD [OF assms, of u] by fastforce
  assume no: "\<forall>e \<in> set es. entry_unit e \<noteq> u"
  show "map_of ix u = None"
  proof (cases "map_of ix u")
    case (Some k)
    then obtain e where "(k, e) \<in> set es" "tw_unit (q_wake e) = u" using indexesD [OF assms, of u k] by blast
    with no show ?thesis by fastforce
  qed
qed

lemma indexes_remove_entry:
  assumes ix: "indexes ix es" and wf: "btree_wf es" and k: "map_of ix u = Some k"
  shows "btree_remove k es = filter (\<lambda>e. entry_unit e \<noteq> u) es"
proof -
  obtain e0 where e0: "(k, e0) \<in> set es" "tw_unit (q_wake e0) = u" using indexesD [OF ix, of u k] k by blast
  have "k' = k \<longleftrightarrow> tw_unit (q_wake e) = u" if "(k', e) \<in> set es" for k' e
    using that e0 k indexesD [OF ix, of u k'] wf by (auto simp: btree_mem_iff)
  then have "\<And>x. x \<in> set es \<Longrightarrow> (case x of (k', _) \<Rightarrow> k' \<noteq> k) \<longleftrightarrow> entry_unit x \<noteq> u" by (auto split: prod.split)
  then show ?thesis unfolding btree_remove_def by (rule filter_cong [OF refl])
qed

lemma indexes_remove:
  "indexes ix es \<Longrightarrow> indexes (btree_remove u ix) (filter (\<lambda>e. entry_unit e \<noteq> u) es)"
  by (auto simp: indexes_def btree_get_remove)

lemma indexes_insert:
  assumes "indexes ix es" and "btree_wf ix" and "map_of ix u = None" and "tw_unit (q_wake e) = u"
    and "set es' = insert (k, e) (set es)"
  shows "indexes (btree_insert u k ix) es'"
  using assms indexes_None [OF assms(1), of u] by (auto simp: indexes_def btree_get_insert)

lemma wakes_filter_unit:
  "map (\<lambda>(k, e). (fst k, q_wake e)) (filter (\<lambda>e. entry_unit e \<noteq> u) es) =
   without_unit u (map (\<lambda>(k, e). (fst k, q_wake e)) es)"
  by (induction es) (auto simp: without_unit_def)

lemma tq_inv_new: "tq_inv TimerWakeQueue_new"
  by (simp add: tq_inv_def TimerWakeQueue_new_def lm_inv_new)
     (simp add: LaneMap_new_def LaneMap_with_object_def indexes_def)

section \<open>Leaving and entering the queue\<close>

lemma tq_drop:
  fixes n :: usize
  assumes inv: "tq_inv q" and k: "map_of (tq_by_unit q) u = Some k"
  defines "q' \<equiv> q\<lparr>tq_by_unit := btree_remove u (tq_by_unit q),
    tq_entries := snd (LaneMap_remove Queued_lanes k (tq_entries q)), tq_displacement_count := n\<rparr>"
  shows "tq_inv q'" and "wakes q' = without_unit u (wakes q)" and "map_of (tq_by_unit q') u = None"
proof -
  have lm: "lm_inv Queued_lanes (tq_entries q)" and ix: "indexes (tq_by_unit q) (lm_entries (tq_entries q))"
    using inv by (simp_all add: tq_inv_def)
  have es: "lm_entries (tq_entries q') = filter (\<lambda>e. entry_unit e \<noteq> u) (lm_entries (tq_entries q))"
    using lm by (simp add: q'_def lm.entries_remove indexes_remove_entry [OF ix _ k] lm_inv_def)
  show "map_of (tq_by_unit q') u = None" by (simp add: q'_def btree_get_remove)
  show "wakes q' = without_unit u (wakes q)" by (simp add: wakes_def es wakes_filter_unit)
  have "indexes (tq_by_unit q') (lm_entries (tq_entries q'))"
    unfolding es using indexes_remove [OF ix] by (simp add: q'_def)
  then show "tq_inv q'"
    using inv lm unfolding tq_inv_def es by (simp add: q'_def btree_wf_remove lm_inv_remove)
qed

lemma btree_insert_deadline:
  fixes d :: "'d::linorder" and seq :: "'s::linorder"
  assumes "btree_wf es" and "\<forall>e \<in> set es. snd (fst e) < seq"
  shows "btree_insert (d, seq) x es = filter (\<lambda>e. fst (fst e) \<le> d) es @ ((d, seq), x) # filter (\<lambda>e. d < fst (fst e)) es"
  using assms
proof (induction es)
  case (Cons e es)
  obtain d' s' y where e: "e = ((d', s'), y)" by (metis surj_pair)
  have IH: "btree_insert (d, seq) x es = filter (\<lambda>e. fst (fst e) \<le> d) es @ ((d, seq), x) # filter (\<lambda>e. d < fst (fst e)) es"
    using Cons e by simp
  have later: "d' \<le> fst (fst e')" if "e' \<in> set es" for e'
    using Cons.prems(1) that e by (fastforce simp: less_prod_def')
  show ?case
  proof (cases "d < d'")
    case True
    then have "filter (\<lambda>e. fst (fst e) \<le> d) es = []" "filter (\<lambda>e. d < fst (fst e)) es = es"
      using later by (fastforce simp: filter_empty_conv filter_id_conv)+
    with True e show ?thesis by (simp add: less_prod_def')
  next
    case False
    then have "\<not> (d, seq) < (d', s')" "(d, seq) \<noteq> (d', s')" "d' \<le> d" using Cons.prems(2) e by (auto simp: less_prod_def')
    with IH e show ?thesis by (simp del: less_prod_simp prod.inject)
  qed
qed simp

lemma tq_add:
  fixes d :: GuestTicks and kind :: TimerWakeKind
  assumes inv: "tq_inv q" and fresh: "map_of (tq_by_unit q) u = None" and seq: "tq_next_seq q \<noteq> u64_MAX"
  defines "key \<equiv> (d, tq_next_seq q)"
  defines "e \<equiv> \<lparr>q_deadline = d, q_wake = \<lparr>tw_unit = u, tw_kind = kind\<rparr>\<rparr>"
  defines "q' \<equiv> q\<lparr>tq_next_seq := tq_next_seq q + 1, tq_entries := snd (LaneMap_insert Queued_lanes key e (tq_entries q)),
    tq_by_unit := btree_insert u key (tq_by_unit q)\<rparr>"
  shows "tq_inv q'" and "wakes q' = schedule d \<lparr>tw_unit = u, tw_kind = kind\<rparr> (wakes q)"
proof -
  let ?es = "lm_entries (tq_entries q)"
  have lm: "lm_inv Queued_lanes (tq_entries q)" and wf: "btree_wf ?es" "btree_wf (tq_by_unit q)"
    and ix: "indexes (tq_by_unit q) ?es" and less: "\<forall>e \<in> set ?es. snd (fst e) < tq_next_seq q"
    using inv by (simp_all add: tq_inv_def lm_inv_def)
  have es: "lm_entries (tq_entries q') = filter (\<lambda>e. fst (fst e) \<le> d) ?es @ (key, e) # filter (\<lambda>e. d < fst (fst e)) ?es"
    using lm btree_insert_deadline [OF wf(1) less, of d e] by (simp add: q'_def key_def lm.entries_insert)
  have set: "set (lm_entries (tq_entries q')) = insert (key, e) (set ?es)" unfolding es by auto
  show "wakes q' = schedule d \<lparr>tw_unit = u, tw_kind = kind\<rparr> (wakes q)"
    unfolding wakes_def es schedule_def by (simp add: filter_map comp_def split_beta key_def e_def)
  have "indexes (tq_by_unit q') (lm_entries (tq_entries q'))"
    using indexes_insert [OF ix wf(2) fresh _ set] by (simp add: q'_def e_def)
  moreover have "tq_next_seq q < tq_next_seq q + 1" using seq by (rule fresh_seq)
  then have "\<forall>x \<in> set (lm_entries (tq_entries q')). q_deadline (snd x) = fst (fst x) \<and> snd (fst x) < tq_next_seq q + 1"
    unfolding set using inv by (auto simp: tq_inv_def key_def e_def)
  ultimately show "tq_inv q'"
    using lm wf unfolding tq_inv_def by (simp add: q'_def lm_inv_insert btree_wf_insert)
qed

section \<open>Each operation against the abstract queue\<close>

lemma find_unique:
  assumes "x \<in> set xs" and "P x" and "\<And>y. y \<in> set xs \<Longrightarrow> P y \<Longrightarrow> f y = f x"
  shows "map_option f (find P xs) = Some (f x)"
proof (cases "find P xs")
  case None
  with assms(1,2) show ?thesis by (auto simp: find_None_iff)
next
  case (Some y)
  then have "y \<in> set xs" "P y" by (auto simp: find_Some_iff)
  with assms(3) Some show ?thesis by simp
qed

lemma find_map_wakes:
  "map_option snd (find (\<lambda>x. tw_unit (snd x) = u) (map (\<lambda>(k, e). (fst k, q_wake e)) es)) =
   map_option (\<lambda>e. q_wake (snd e)) (find (\<lambda>e. entry_unit e = u) es)"
  by (induction es) auto

lemma wake_of_index:
  assumes inv: "tq_inv q"
  shows "wake_of u (wakes q) =
    (case map_of (tq_by_unit q) u of None \<Rightarrow> None | Some k \<Rightarrow> map_option q_wake (map_of (lm_entries (tq_entries q)) k))"
proof -
  let ?es = "lm_entries (tq_entries q)"
  have wf: "btree_wf ?es" and ix: "indexes (tq_by_unit q) ?es" using inv by (simp_all add: tq_inv_def lm_inv_def)
  have w: "wake_of u (wakes q) = map_option (\<lambda>e. q_wake (snd e)) (find (\<lambda>e. entry_unit e = u) ?es)"
    unfolding wake_of_def wakes_def by (rule find_map_wakes)
  show ?thesis
  proof (cases "map_of (tq_by_unit q) u")
    case None
    then have "find (\<lambda>e. entry_unit e = u) ?es = None"
      using indexes_None [OF ix, of u] by (auto simp: find_None_iff)
    with None w show ?thesis by simp
  next
    case (Some k)
    then obtain e where e: "(k, e) \<in> set ?es" "tw_unit (q_wake e) = u" using indexesD [OF ix, of u k] by blast
    have uniq: "q_wake (snd y) = q_wake (snd (k, e))" if "y \<in> set ?es" "entry_unit y = u" for y
    proof -
      have "map_of (tq_by_unit q) u = Some (fst y)" using that indexesD [OF ix, of u "fst y"] by (metis prod.collapse)
      then have "(k, snd y) \<in> set ?es" using Some that by (metis option.inject prod.collapse)
      then show ?thesis using e(1) wf by (simp add: btree_mem_iff)
    qed
    from find_unique [OF e(1), of "\<lambda>e. entry_unit e = u" "\<lambda>e. q_wake (snd e)"] uniq e(2)
    have "map_option (\<lambda>e. q_wake (snd e)) (find (\<lambda>e. entry_unit e = u) ?es) = Some (q_wake e)" by simp
    with Some w e(1) wf show ?thesis by (simp add: btree_mem_iff)
  qed
qed

lemma wake_of_None: "wake_of u ws = None \<longleftrightarrow> without_unit u ws = ws"
  unfolding wake_of_def without_unit_def by (simp add: find_None_iff filter_id_conv) fastforce

lemma index_contains:
  assumes "tq_inv q"
  shows "map_of (tq_by_unit q) u = None \<longleftrightarrow> wake_of u (wakes q) = None"
proof (cases "map_of (tq_by_unit q) u")
  case (Some k)
  have ix: "indexes (tq_by_unit q) (lm_entries (tq_entries q))" and wf: "btree_wf (lm_entries (tq_entries q))"
    using assms by (simp_all add: tq_inv_def lm_inv_def)
  obtain e where "(k, e) \<in> set (lm_entries (tq_entries q))" using Some indexesD [OF ix, of u k] by blast
  with Some wf show ?thesis by (simp add: wake_of_index [OF assms] btree_mem_iff)
qed (simp add: wake_of_index [OF assms])

lemma insert_refines:
  assumes inv: "tq_inv q" and seq: "tq_next_seq q \<noteq> u64_MAX"
  shows "fst (TimerWakeQueue_insert d u kind q) = wake_of u (wakes q)"
    and "wakes (snd (TimerWakeQueue_insert d u kind q)) = schedule d \<lparr>tw_unit = u, tw_kind = kind\<rparr> (without_unit u (wakes q))"
    and "tq_inv (snd (TimerWakeQueue_insert d u kind q))"
proof -
  have "fst (TimerWakeQueue_insert d u kind q) = wake_of u (wakes q) \<and>
    wakes (snd (TimerWakeQueue_insert d u kind q)) = schedule d \<lparr>tw_unit = u, tw_kind = kind\<rparr> (without_unit u (wakes q)) \<and>
    tq_inv (snd (TimerWakeQueue_insert d u kind q))"
  proof (cases "map_of (tq_by_unit q) u")
    case None
    then have "without_unit u (wakes q) = wakes q" "wake_of u (wakes q) = None"
      using index_contains [OF inv, of u] by (simp_all add: wake_of_None)
    with None tq_add [OF inv None seq, of d kind] show ?thesis
      by (simp add: TimerWakeQueue_insert_def Let_def)
  next
    case (Some k)
    let ?q = "q\<lparr>tq_by_unit := btree_remove u (tq_by_unit q), tq_entries := snd (LaneMap_remove Queued_lanes k (tq_entries q)),
      tq_displacement_count := usize_saturating_add (tq_displacement_count q) 1\<rparr>"
    note dr = tq_drop [OF inv Some, of "usize_saturating_add (tq_displacement_count q) 1"]
    have removed: "fst (LaneMap_remove Queued_lanes k (tq_entries q)) = map_of (lm_entries (tq_entries q)) k"
      by (simp add: LaneMap_remove_def split: option.split)
    from tq_add [OF dr(1) dr(3), of d kind] seq Some dr(2) removed show ?thesis
      by (simp add: TimerWakeQueue_insert_def Let_def split_beta wake_of_index [OF inv])
  qed
  then show "fst (TimerWakeQueue_insert d u kind q) = wake_of u (wakes q)"
    and "wakes (snd (TimerWakeQueue_insert d u kind q)) = schedule d \<lparr>tw_unit = u, tw_kind = kind\<rparr> (without_unit u (wakes q))"
    and "tq_inv (snd (TimerWakeQueue_insert d u kind q))" by simp_all
qed

lemma cancel_refines:
  assumes inv: "tq_inv q"
  shows "fst (TimerWakeQueue_cancel u q) \<longleftrightarrow> wake_of u (wakes q) \<noteq> None"
    and "wakes (snd (TimerWakeQueue_cancel u q)) = without_unit u (wakes q)"
    and "tq_inv (snd (TimerWakeQueue_cancel u q))"
proof -
  have "(fst (TimerWakeQueue_cancel u q) \<longleftrightarrow> wake_of u (wakes q) \<noteq> None) \<and>
    wakes (snd (TimerWakeQueue_cancel u q)) = without_unit u (wakes q) \<and> tq_inv (snd (TimerWakeQueue_cancel u q))"
  proof (cases "map_of (tq_by_unit q) u")
    case None
    then have "without_unit u (wakes q) = wakes q" "wake_of u (wakes q) = None"
      using index_contains [OF inv, of u] by (simp_all add: wake_of_None)
    with None inv show ?thesis by (simp add: TimerWakeQueue_cancel_def)
  next
    case (Some k)
    then have "wake_of u (wakes q) \<noteq> None" using index_contains [OF inv, of u] by simp
    with Some tq_drop [OF inv Some, of "tq_displacement_count q"] show ?thesis
      by (simp add: TimerWakeQueue_cancel_def)
  qed
  then show "fst (TimerWakeQueue_cancel u q) \<longleftrightarrow> wake_of u (wakes q) \<noteq> None"
    and "wakes (snd (TimerWakeQueue_cancel u q)) = without_unit u (wakes q)"
    and "tq_inv (snd (TimerWakeQueue_cancel u q))" by blast+
qed

lemma cancel_unit_event_eq:
  assumes "tq_inv q"
  shows "TimerWakeQueue_cancel_unit_event u q =
    (if map_option tw_kind (wake_of u (wakes q)) = Some UnitEvent then TimerWakeQueue_cancel u q else (False, q))"
  by (simp add: TimerWakeQueue_cancel_unit_event_def wake_of_index [OF assms] LaneMap_get_def split: option.split)

lemma pop_due_loop_effect:
  assumes "lm_inv Queued_lanes es"
  shows "fst (pop_due_loop now es due) = due @ map (\<lambda>e. q_wake (snd e)) (takeWhile (\<lambda>e. fst (fst e) \<le> now) (lm_entries es)) \<and>
    lm_entries (snd (pop_due_loop now es due)) = dropWhile (\<lambda>e. fst (fst e) \<le> now) (lm_entries es) \<and>
    lm_inv Queued_lanes (snd (pop_due_loop now es due))"
  using assms
proof (induction now es due rule: pop_due_loop.induct)
  case (1 now es due)
  show ?case
  proof (cases "lm_entries es")
    case Nil
    with "1.prems" show ?thesis by (simp add: pop_due_loop.simps [of now es due] LaneMap_first_def btree_first_def)
  next
    case (Cons e rest)
    obtain d s x where e: "e = ((d, s), x)" by (metis surj_pair)
    have first: "LaneMap_first es = Some ((d, s), x)" by (simp add: LaneMap_first_def btree_first_def Cons e)
    let ?p = "LaneMap_pop_first Queued_lanes es"
    have p: "fst ?p = Some ((d, s), x)" "lm_entries (snd ?p) = rest" "(Some ((d, s), x), snd ?p) = ?p" by (simp_all add: LaneMap_pop_first_def Cons e)
    have inv: "lm_inv Queued_lanes (snd ?p)" using "1.prems" by (rule lm_inv_pop_first)
    show ?thesis
    proof (cases "d \<le> now")
      case True
      have eq: "pop_due_loop now es due = pop_due_loop now (snd ?p) (due @ [q_wake x])"
        using True first p(1) by (subst pop_due_loop.simps) (simp add: split_beta)
      have "fst (pop_due_loop now (snd ?p) (due @ [q_wake x])) =
          (due @ [q_wake x]) @ map (\<lambda>e. q_wake (snd e)) (takeWhile (\<lambda>e. fst (fst e) \<le> now) (lm_entries (snd ?p))) \<and>
        lm_entries (snd (pop_due_loop now (snd ?p) (due @ [q_wake x]))) = dropWhile (\<lambda>e. fst (fst e) \<le> now) (lm_entries (snd ?p)) \<and>
        lm_inv Queued_lanes (snd (pop_due_loop now (snd ?p) (due @ [q_wake x])))"
        using "1.IH" [of ?p "fst ?p" "snd ?p"] first True p(1,3) inv by simp
      then show ?thesis unfolding eq using True Cons e p(2) by simp
    next
      case False
      with first Cons e "1.prems" show ?thesis by (simp add: pop_due_loop.simps [of now es due])
    qed
  qed
qed

lemma sorted_deadline_split:
  fixes es :: "(('d::linorder \<times> 's::linorder) \<times> 'v) list"
  assumes "btree_wf es"
  shows "takeWhile (\<lambda>e. fst (fst e) \<le> now) es = filter (\<lambda>e. fst (fst e) \<le> now) es"
    and "dropWhile (\<lambda>e. fst (fst e) \<le> now) es = filter (\<lambda>e. now < fst (fst e)) es"
proof -
  have so: "sorted (map (\<lambda>e. fst (fst e)) es)"
    using assms by (induction es) (fastforce simp: less_prod_def')+
  show "takeWhile (\<lambda>e. fst (fst e) \<le> now) es = filter (\<lambda>e. fst (fst e) \<le> now) es"
    using so
  proof (induction es)
    case (Cons e es)
    show ?case
    proof (cases "fst (fst e) \<le> now")
      case False
      then have "\<forall>e' \<in> set es. \<not> fst (fst e') \<le> now" using Cons.prems by (auto dest: order.trans)
      then have "filter (\<lambda>e. fst (fst e) \<le> now) es = []" by (simp add: filter_empty_conv)
      with False show ?thesis by simp
    qed (use Cons in simp)
  qed simp
  show "dropWhile (\<lambda>e. fst (fst e) \<le> now) es = filter (\<lambda>e. now < fst (fst e)) es"
    using so
  proof (induction es)
    case (Cons e es)
    show ?case
    proof (cases "fst (fst e) \<le> now")
      case False
      then have "\<forall>e' \<in> set es. now < fst (fst e')" using Cons.prems by (auto simp: not_le intro: order.strict_trans2)
      then have "filter (\<lambda>e. now < fst (fst e)) es = es" by (simp add: filter_id_conv)
      with False show ?thesis by simp
    qed (use Cons in simp)
  qed simp
qed

lemma fold_index_remove:
  "fold (\<lambda>wake q. q\<lparr>tq_by_unit := btree_remove (tw_unit wake) (tq_by_unit q)\<rparr>) ws q =
   q\<lparr>tq_by_unit := filter (\<lambda>(u, _). u \<notin> tw_unit ` set ws) (tq_by_unit q)\<rparr>"
proof (induction ws arbitrary: q)
  case (Cons w ws)
  show ?case
    by (simp add: Cons.IH) (simp add: btree_remove_def split_def conj_commute)
qed simp

lemma indexes_restrict:
  assumes "indexes ix es" and "btree_wf es"
  shows "indexes (filter (\<lambda>(u, _). u \<notin> entry_unit ` {e \<in> set es. \<not> P e}) ix) (filter P es)"
proof -
  have same: "e = e'" if "e \<in> set es" "e' \<in> set es" "entry_unit e = entry_unit e'" for e e'
  proof -
    have "map_of ix (entry_unit e) = Some (fst e)" using indexesD [OF assms(1), of "entry_unit e" "fst e"] that(1) by (metis prod.collapse)
    moreover have "map_of ix (entry_unit e) = Some (fst e')" using indexesD [OF assms(1), of "entry_unit e" "fst e'"] that by (metis prod.collapse)
    ultimately have k: "fst e = fst e'" by simp
    have "map_of es (fst e) = Some (snd e)" "map_of es (fst e') = Some (snd e')"
      using that(1,2) assms(2) by (simp_all add: btree_mem_iff [symmetric])
    then show ?thesis using k by (simp add: prod_eq_iff)
  qed
  show ?thesis unfolding indexes_def
  proof (intro allI iffI)
    fix u k
    let ?late = "entry_unit ` {e \<in> set es. \<not> P e}"
    have get: "map_of (filter (\<lambda>(u, _). u \<notin> ?late) ix) u = (if u \<notin> ?late then map_of ix u else None)"
      by (rule map_of_filter_keys)
    {
      assume "map_of (filter (\<lambda>(u, _). u \<notin> ?late) ix) u = Some k"
      then have u: "u \<notin> ?late" "map_of ix u = Some k" unfolding get by (auto split: if_splits)
      then obtain e where "(k, e) \<in> set es" "tw_unit (q_wake e) = u" using indexesD [OF assms(1)] by blast
      with u(1) show "\<exists>e. (k, e) \<in> set (filter P es) \<and> tw_unit (q_wake e) = u" by force
    }
    {
      assume "\<exists>e. (k, e) \<in> set (filter P es) \<and> tw_unit (q_wake e) = u"
      then obtain e where e: "(k, e) \<in> set es" "P (k, e)" "tw_unit (q_wake e) = u" by auto
      then have "map_of ix u = Some k" using indexesD [OF assms(1)] by blast
      moreover have "u \<notin> ?late" using same [OF e(1)] e(2,3) by fastforce
      ultimately show "map_of (filter (\<lambda>(u, _). u \<notin> ?late) ix) u = Some k" unfolding get by simp
    }
  qed
qed

lemma pop_due_refines:
  assumes inv: "tq_inv q"
  shows "fst (TimerWakeQueue_pop_due now q) = map snd (filter (\<lambda>x. fst x \<le> now) (wakes q))"
    and "wakes (snd (TimerWakeQueue_pop_due now q)) = filter (\<lambda>x. now < fst x) (wakes q)"
    and "tq_inv (snd (TimerWakeQueue_pop_due now q))"
proof -
  let ?es = "lm_entries (tq_entries q)" and ?P = "\<lambda>e :: (GuestTicks \<times> u64) \<times> Queued. now < fst (fst e)"
  have lm: "lm_inv Queued_lanes (tq_entries q)" and wf: "btree_wf ?es" and ix: "indexes (tq_by_unit q) ?es"
    using inv by (simp_all add: tq_inv_def lm_inv_def)
  let ?due = "map (\<lambda>e. q_wake (snd e)) (filter (\<lambda>e. fst (fst e) \<le> now) ?es)"
  let ?q = "snd (TimerWakeQueue_pop_due now q)"
  note l = pop_due_loop_effect [OF lm, of now "[]"]
  have due: "fst (pop_due_loop now (tq_entries q) []) = ?due" using l sorted_deadline_split [OF wf, of now] by simp
  have rest: "lm_entries (snd (pop_due_loop now (tq_entries q) [])) = filter ?P ?es"
    using l sorted_deadline_split [OF wf, of now] by simp
  have fst: "fst (TimerWakeQueue_pop_due now q) = ?due"
    by (simp add: TimerWakeQueue_pop_due_def Let_def split_beta due)
  have units: "tw_unit ` set ?due = entry_unit ` {e \<in> set ?es. \<not> ?P e}" by (auto simp: not_less image_image)
  have q: "?q = q\<lparr>tq_entries := snd (pop_due_loop now (tq_entries q) []),
      tq_by_unit := filter (\<lambda>(u, _). u \<notin> entry_unit ` {e \<in> set ?es. \<not> ?P e}) (tq_by_unit q)\<rparr>"
    unfolding TimerWakeQueue_pop_due_def Let_def split_beta due units [symmetric] by (simp add: fold_index_remove split_def)
  show "fst (TimerWakeQueue_pop_due now q) = map snd (filter (\<lambda>x. fst x \<le> now) (wakes q))"
    unfolding fst wakes_def by (simp add: filter_map comp_def split_beta)
  show "wakes ?q = filter (\<lambda>x. now < fst x) (wakes q)"
    unfolding wakes_def q by (simp add: rest filter_map comp_def split_beta)
  have "indexes (tq_by_unit ?q) (lm_entries (tq_entries ?q))"
    unfolding q using indexes_restrict [OF ix wf, of ?P] by (simp add: rest)
  moreover have "\<forall>e \<in> set (lm_entries (tq_entries ?q)). q_deadline (snd e) = fst (fst e) \<and> snd (fst e) < tq_next_seq ?q"
    using inv by (simp add: q rest tq_inv_def)
  ultimately show "tq_inv ?q"
    using inv l unfolding tq_inv_def by (simp add: q btree_wf_filter)
qed

lemma peek_refines: "TimerWakeQueue_peek_deadline q = (case wakes q of [] \<Rightarrow> None | w # _ \<Rightarrow> Some (fst w))"
  by (auto simp: TimerWakeQueue_peek_deadline_def LaneMap_first_def btree_first_def wakes_def split: list.split)

section \<open>The property\<close>

text \<open>
  C8: the timer queue refines a list of wakes in deadline order, served first come first
  among equal deadlines and holding at most one wake per unit. An insert replaces the unit's
  wake, returns the one it displaced and places the new one behind every wake that is not
  later; a cancel removes exactly the unit's wake and reports whether there was one, a
  unit-event cancel only a wake of that kind; the drain returns exactly the wakes due at the
  given tick, in order, and keeps the rest. Every operation keeps the reverse index and the
  incremental partial consistent.
\<close>

theorem timer_queue_refines:
  assumes "tq_inv q" and "tq_next_seq q \<noteq> u64_MAX"
  shows "(fst (TimerWakeQueue_insert d u kind q) = wake_of u (wakes q) \<and>
      wakes (snd (TimerWakeQueue_insert d u kind q)) = schedule d \<lparr>tw_unit = u, tw_kind = kind\<rparr> (without_unit u (wakes q)) \<and>
      tq_inv (snd (TimerWakeQueue_insert d u kind q))) \<and>
    ((fst (TimerWakeQueue_cancel u q) \<longleftrightarrow> wake_of u (wakes q) \<noteq> None) \<and>
      wakes (snd (TimerWakeQueue_cancel u q)) = without_unit u (wakes q) \<and> tq_inv (snd (TimerWakeQueue_cancel u q))) \<and>
    TimerWakeQueue_cancel_unit_event u q =
      (if map_option tw_kind (wake_of u (wakes q)) = Some UnitEvent then TimerWakeQueue_cancel u q else (False, q)) \<and>
    (fst (TimerWakeQueue_pop_due now q) = map snd (filter (\<lambda>x. fst x \<le> now) (wakes q)) \<and>
      wakes (snd (TimerWakeQueue_pop_due now q)) = filter (\<lambda>x. now < fst x) (wakes q) \<and>
      tq_inv (snd (TimerWakeQueue_pop_due now q))) \<and>
    TimerWakeQueue_peek_deadline q = (case wakes q of [] \<Rightarrow> None | w # _ \<Rightarrow> Some (fst w)) \<and>
    TimerWakeQueue_sync_partial q = TimerWakeQueue_sync_partial_from_scratch q"
  using insert_refines [OF assms] cancel_refines [OF assms(1)] cancel_unit_event_eq [OF assms(1)]
    pop_due_refines [OF assms(1)] peek_refines assms(1)
  by (simp add: tq_inv_def lm_inv_def TimerWakeQueue_sync_partial_def TimerWakeQueue_sync_partial_from_scratch_def)

theorem timer_queue_refines_witness:
  "wakes (snd (TimerWakeQueue_insert (GuestTicks 4) (UnitId 1) Sleep TimerWakeQueue_new)) =
     [(GuestTicks 4, \<lparr>tw_unit = UnitId 1, tw_kind = Sleep\<rparr>)]"
  using timer_queue_refines [OF tq_inv_new, of "GuestTicks 4" "UnitId 1" Sleep "GuestTicks 0"]
  by (simp add: TimerWakeQueue_new_def wakes_def LaneMap_new_def LaneMap_with_object_def without_unit_def schedule_def)

end
