(* ===== verification/Commit.thy ===== *)
theory Commit
  imports Staging Reservation Rsx_Flip Scheduler Timer_Queue
begin

text \<open>
  \<^verbatim>\<open>cellgov_core/src/commit.rs\<close>: the commit pipeline. A batch of effects is validated in
  order, its memory writes are staged and drained as one operation, and only then the other
  subsystems are changed. The latency model is a trait object, a record of its two
  functions; the debug observer is a state with a function that records a write. A panic is
  \<^const>\<open>None\<close>.
\<close>

section \<open>Queueing a transfer\<close>

definition MFC_BUS_REQUEST_BYTES :: u64 where "MFC_BUS_REQUEST_BYTES = 128"

record DmaLatencyModel =
  lat_completion_time :: "DmaRequest \<Rightarrow> GuestTicks \<Rightarrow> DmaQueue \<Rightarrow> GuestTicks option"
  lat_invalid_command_time :: "GuestTicks \<Rightarrow> DmaQueue \<Rightarrow> GuestTicks"

text \<open>The completion time of the bus request that ends after \<open>end\<close> of \<open>len\<close> bytes.\<close>

definition bus_request_time :: "GuestTicks \<Rightarrow> GuestTicks \<Rightarrow> GuestTicks \<Rightarrow> u64 \<Rightarrow> u64 \<Rightarrow> GuestTicks" where
  "bus_request_time now completion_time floor len e =
     (let span = saturating_sub (GuestTicks_raw completion_time) (GuestTicks_raw now)
      in if e = len then completion_time
         else max (GuestTicks (GuestTicks_raw now + of_nat (div_ceil (unat (span * e)) (unat len)))) floor)"

definition queue_transfer ::
    "DmaLatencyModel \<Rightarrow> GuestTicks \<Rightarrow> DmaRequest \<Rightarrow> bytes option \<Rightarrow> DmaQueue \<Rightarrow> DmaQueue option" where
  "queue_transfer latency now request payload q =
     (let floor = DmaQueue_ordering_floor request q
      in case lat_completion_time latency request now q of
           None \<Rightarrow> None
         | Some t \<Rightarrow>
             (let completion_time = max t floor; len = DmaRequest_length request
              in if payload \<noteq> None \<or> \<not> dr_local_store_source request \<or> len \<le> MFC_BUS_REQUEST_BYTES
                 then Some (snd (DmaQueue_enqueue (DmaCompletion_new request completion_time) payload q))
                 else Some (foldl (\<lambda>q (e, part).
                        snd (DmaQueue_enqueue (DmaCompletion_new part (bus_request_time now completion_time floor len e)) None q))
                      q (DmaRequest_bus_requests MFC_BUS_REQUEST_BYTES request))))"

definition queue_refused ::
    "DmaLatencyModel \<Rightarrow> GuestTicks \<Rightarrow> UnitId \<Rightarrow> InvalidMfcCommand \<Rightarrow> DmaQueue \<Rightarrow> DmaQueue" where
  "queue_refused latency now issuer command q =
     (let time = max (lat_invalid_command_time latency now q) (DmaQueue_issuer_latest_completion issuer q)
      in snd (DmaQueue_enqueue_invalid time issuer command q))"

section \<open>Errors, outcome and context\<close>

datatype CommitError =
    PayloadLengthMismatch usize
  | CE_OutOfRange usize
  | UnknownMailbox usize MailboxId
  | MailboxPopMismatch usize MailboxId
  | UnknownSignal usize SignalId
  | UnknownWakeTarget usize UnitId
  | UnknownSourceUnit usize UnitId
  | DmaPayloadLengthMismatch usize
  | DmaGetWithPayload usize
  | CE_Memory MemError
  | StaleStep
  | NoStep

datatype BlockReason =
    MailboxEmpty | BR_WaitOnEvent | BR_DmaWait | OutboundMailboxFull | SignalEmpty | AtomicStatusEmpty | EventWait

record CommitOutcome =
  co_writes_committed :: usize
  co_mailbox_sends_committed :: usize
  co_signal_updates_committed :: usize
  co_mailbox_receives_committed :: usize
  co_mailbox_receives_blocked :: usize
  co_dma_enqueued :: usize
  co_wakes_committed :: usize
  co_waits_committed :: usize
  co_dma_completions_fired :: usize
  co_reservation_acquires_committed :: usize
  co_conditional_stores_committed :: usize
  co_conditional_stores_without_prior_reservation :: usize
  co_reservations_cleared :: usize
  co_effects_deferred :: usize
  co_fault_discarded :: bool
  co_effects_discarded_on_fault :: usize
  co_blocked_units :: "(UnitId \<times> BlockReason) list"
  co_woken_units :: "UnitId list"

definition CommitOutcome_default :: CommitOutcome where
  "CommitOutcome_default = \<lparr>co_writes_committed = 0, co_mailbox_sends_committed = 0, co_signal_updates_committed = 0,
     co_mailbox_receives_committed = 0, co_mailbox_receives_blocked = 0, co_dma_enqueued = 0, co_wakes_committed = 0,
     co_waits_committed = 0, co_dma_completions_fired = 0, co_reservation_acquires_committed = 0,
     co_conditional_stores_committed = 0, co_conditional_stores_without_prior_reservation = 0,
     co_reservations_cleared = 0, co_effects_deferred = 0, co_fault_discarded = False,
     co_effects_discarded_on_fault = 0, co_blocked_units = [], co_woken_units = []\<rparr>"

record ('u, 'o) CommitContext =
  cx_space :: u32
  cx_memory :: GuestMemory
  cx_units :: "'u UnitRegistry"
  cx_mailboxes :: MailboxRegistry
  cx_signals :: SignalRegistry
  cx_dma_queue :: DmaQueue
  cx_dma_latency :: DmaLatencyModel
  cx_now :: GuestTicks
  cx_reservations :: ReservationTable
  cx_rsx_label_base :: u32
  cx_rsx_flip :: RsxFlipState
  cx_rsx_label_writes_committed :: u64
  cx_tap :: "'o option"

section \<open>The checks\<close>

definition require_unit :: "'u UnitRegistry \<Rightarrow> UnitId \<Rightarrow> usize \<Rightarrow> CommitError + unit" where
  "require_unit units src idx =
     (if UnitRegistry_get units src = None then Inl (UnknownSourceUnit idx src) else Inr ())"

definition require_mailbox :: "MailboxRegistry \<Rightarrow> MailboxId \<Rightarrow> usize \<Rightarrow> CommitError + unit" where
  "require_mailbox mailboxes mailbox idx =
     (if MailboxRegistry_get mailboxes mailbox = None then Inl (UnknownMailbox idx mailbox) else Inr ())"

definition check_write_target :: "GuestMemory \<Rightarrow> ByteRange \<Rightarrow> usize \<Rightarrow> usize \<Rightarrow> CommitError + unit" where
  "check_write_target memory rng len idx =
     (if (of_nat len :: u64) \<noteq> br_length rng then Inl (PayloadLengthMismatch idx)
      else let start = GuestAddr_raw (br_start rng); length = br_length rng
           in case checked_add start length of
                None \<Rightarrow> Inl (CE_OutOfRange idx)
              | Some _ \<Rightarrow> (if \<not> GuestMemory_holds start length memory then Inl (CE_OutOfRange idx) else Inr ()))"

text \<open>
  The borrowed slot is its index in the pop list; the entry is made on first use.
  \<open>slot_bump\<close> is \<^verbatim>\<open>+= 1\<close> through the borrow.
\<close>

definition pop_slot :: "MailboxId \<Rightarrow> (MailboxId \<times> usize) list \<Rightarrow> nat \<times> (MailboxId \<times> usize) list" where
  "pop_slot mailbox pops =
     (case list_position (\<lambda>(i, _). i = mailbox) pops of
        Some at \<Rightarrow> (at, pops)
      | None \<Rightarrow> (let pops = pops @ [(mailbox, 0)] in (length pops - 1, pops)))"

definition slot_bump :: "nat \<times> (MailboxId \<times> usize) list \<Rightarrow> (MailboxId \<times> usize) list" where
  "slot_bump = (\<lambda>(at, pops). pops[at := (fst (pops ! at), snd (pops ! at) + 1)])"

definition validate_dma_enqueue ::
    "'u UnitRegistry \<Rightarrow> DmaRequest \<Rightarrow> bytes option \<Rightarrow> usize \<Rightarrow> (CommitError + unit) \<times> 'u UnitRegistry" where
  "validate_dma_enqueue units request payload idx =
     (case (if DmaRequest_local_store_range request \<noteq> None then require_unit units (dr_issuer request) idx else Inr ()) of
        Inl e \<Rightarrow> (Inl e, units)
      | Inr _ \<Rightarrow>
          (if dr_direction request = Get \<and> payload \<noteq> None
           then (Inl (DmaGetWithPayload idx), UnitRegistry_set_status_override (dr_issuer request) Faulted units)
           else if (case payload of None \<Rightarrow> False | Some bs \<Rightarrow> (of_nat (length bs) :: u64) \<noteq> br_length (dr_destination request))
           then (Inl (DmaPayloadLengthMismatch idx), UnitRegistry_set_status_override (dr_issuer request) Faulted units)
           else (Inr (), units)))"

definition validate_rsx_label_write ::
    "('u, 'o) CommitContext \<Rightarrow> u32 \<Rightarrow> usize \<Rightarrow> (CommitError + ByteRange) \<times> ('u, 'o) CommitContext" where
  "validate_rsx_label_write ctx offset idx =
     (let ctx = ctx\<lparr>cx_rsx_label_writes_committed := cx_rsx_label_writes_committed ctx + 1\<rparr>;
          start = (ucast (cx_rsx_label_base ctx) :: u64) + ucast offset
      in (case checked_add start 4 of
            None \<Rightarrow> Inl (CE_OutOfRange idx)
          | Some _ \<Rightarrow>
              (if GuestMemory_containing_region start 4 (cx_memory ctx) = None then Inl (CE_OutOfRange idx)
               else case ByteRange_new (GuestAddr start) 4 of None \<Rightarrow> Inl (CE_OutOfRange idx) | Some r \<Rightarrow> Inr r),
          ctx))"

section \<open>The validation pass\<close>

text \<open>The state the pass changes: the context, the staged writes, the outcome and the pop counts.\<close>

record ('u, 'o) Validation =
  va_ctx :: "('u, 'o) CommitContext"
  va_staging :: StagingMemory
  va_outcome :: CommitOutcome
  va_pops :: "(MailboxId \<times> usize) list"

definition va_stage :: "ByteRange \<Rightarrow> bytes \<Rightarrow> ('u, 'o) Validation \<Rightarrow> ('u, 'o) Validation" where
  "va_stage rng bs v = v\<lparr>va_staging := StagingMemory_stage (StagedWrite_new rng bs) (va_staging v)\<rparr>"

definition count_write :: "CommitOutcome \<Rightarrow> CommitOutcome" where
  "count_write o1 = o1\<lparr>co_writes_committed := co_writes_committed o1 + 1\<rparr>"

definition count_deferred :: "CommitOutcome \<Rightarrow> CommitOutcome" where
  "count_deferred o1 = o1\<lparr>co_effects_deferred := co_effects_deferred o1 + 1\<rparr>"

definition validate_effect :: "usize \<Rightarrow> Effect \<Rightarrow> ('u, 'o) Validation \<Rightarrow> (CommitError + unit) \<times> ('u, 'o) Validation" where
  "validate_effect idx effect v =
     (let ctx = va_ctx v; outcome = va_outcome v in
      case effect of
        SharedWriteIntent rng payload _ _ \<Rightarrow>
          (case check_write_target (cx_memory ctx) rng (WritePayload_len payload) idx of
             Inl e \<Rightarrow> (Inl e, v)
           | Inr _ \<Rightarrow> (Inr (), (va_stage rng (WritePayload_bytes payload) v)\<lparr>va_outcome := count_write outcome\<rparr>))
      | MailboxSend mailbox _ _ \<Rightarrow>
          (case require_mailbox (cx_mailboxes ctx) mailbox idx of
             Inl e \<Rightarrow> (Inl e, v)
           | Inr _ \<Rightarrow> (Inr (), v\<lparr>va_outcome := outcome\<lparr>co_mailbox_sends_committed := co_mailbox_sends_committed outcome + 1\<rparr>\<rparr>))
      | MailboxReceiveAttempt mailbox src \<Rightarrow>
          (case rbind (require_mailbox (cx_mailboxes ctx) mailbox idx) (\<lambda>_. require_unit (cx_units ctx) src idx) of
             Inl e \<Rightarrow> (Inl e, v)
           | Inr _ \<Rightarrow> (Inr (), v\<lparr>va_pops := slot_bump (pop_slot mailbox (va_pops v))\<rparr>))
      | MailboxPop mailbox message src \<Rightarrow>
          (case MailboxRegistry_get (cx_mailboxes ctx) mailbox of
             None \<Rightarrow> (Inl (UnknownMailbox idx mailbox), v)
           | Some queue \<Rightarrow>
               (case require_unit (cx_units ctx) src idx of
                  Inl e \<Rightarrow> (Inl e, v)
                | Inr _ \<Rightarrow>
                    (let (at, pops) = pop_slot mailbox (va_pops v); taken = snd (pops ! at)
                     in if taken < length (mb_queue queue) \<and> mb_queue queue ! taken = MailboxMessage_raw message
                        then (Inr (), v\<lparr>va_pops := slot_bump (at, pops)\<rparr>)
                        else (Inl (MailboxPopMismatch idx mailbox), v\<lparr>va_pops := pops\<rparr>))))
      | SignalUpdate signal _ _ \<Rightarrow>
          (if SignalRegistry_get (cx_signals ctx) signal = None then (Inl (UnknownSignal idx signal), v)
           else (Inr (), v\<lparr>va_outcome := outcome\<lparr>co_signal_updates_committed := co_signal_updates_committed outcome + 1\<rparr>\<rparr>))
      | DmaEnqueue request payload \<Rightarrow>
          (case validate_dma_enqueue (cx_units ctx) request payload idx of
             (Inl e, units) \<Rightarrow> (Inl e, v\<lparr>va_ctx := ctx\<lparr>cx_units := units\<rparr>\<rparr>)
           | (Inr _, units) \<Rightarrow>
               (Inr (), v\<lparr>va_ctx := ctx\<lparr>cx_units := units\<rparr>, va_outcome := outcome\<lparr>co_dma_enqueued := co_dma_enqueued outcome + 1\<rparr>\<rparr>))
      | MfcInvalidCommand issuer _ \<Rightarrow>
          (case require_unit (cx_units ctx) issuer idx of
             Inl e \<Rightarrow> (Inl e, v)
           | Inr _ \<Rightarrow> (Inr (), v\<lparr>va_outcome := outcome\<lparr>co_dma_enqueued := co_dma_enqueued outcome + 1\<rparr>\<rparr>))
      | WakeUnit target _ \<Rightarrow>
          (if UnitRegistry_get (cx_units ctx) target = None then (Inl (UnknownWakeTarget idx target), v)
           else (Inr (), v\<lparr>va_outcome := outcome\<lparr>co_wakes_committed := co_wakes_committed outcome + 1\<rparr>\<rparr>))
      | WaitOnEvent _ src \<Rightarrow>
          (case require_unit (cx_units ctx) src idx of
             Inl e \<Rightarrow> (Inl e, v)
           | Inr _ \<Rightarrow> (Inr (), v\<lparr>va_outcome := outcome\<lparr>co_waits_committed := co_waits_committed outcome + 1\<rparr>\<rparr>))
      | ConditionalStore rng payload src _ \<Rightarrow>
          (case rbind (check_write_target (cx_memory ctx) rng (WritePayload_len payload) idx)
                 (\<lambda>_. require_unit (cx_units ctx) src idx) of
             Inl e \<Rightarrow> (Inl e, v)
           | Inr _ \<Rightarrow> (Inr (), (va_stage rng (WritePayload_bytes payload) v)
               \<lparr>va_outcome := outcome\<lparr>co_conditional_stores_committed := co_conditional_stores_committed outcome + 1\<rparr>\<rparr>))
      | ReservationAcquire _ src \<Rightarrow>
          (case require_unit (cx_units ctx) src idx of Inl e \<Rightarrow> (Inl e, v) | Inr _ \<Rightarrow> (Inr (), v))
      | RsxLabelWrite offset val \<Rightarrow>
          (case validate_rsx_label_write ctx offset idx of
             (Inl e, ctx) \<Rightarrow> (Inl e, v\<lparr>va_ctx := ctx\<rparr>)
           | (Inr rng, ctx) \<Rightarrow> (Inr (), (va_stage rng (to_be 4 val) v)\<lparr>va_ctx := ctx, va_outcome := count_write outcome\<rparr>))
      | _ \<Rightarrow> (Inr (), v\<lparr>va_outcome := count_deferred outcome\<rparr>))"

fun validate_from :: "usize \<Rightarrow> Effect list \<Rightarrow> ('u, 'o) Validation \<Rightarrow> (CommitError + unit) \<times> ('u, 'o) Validation" where
  "validate_from idx [] v = (Inr (), v)"
| "validate_from idx (e # es) v =
     (case validate_effect idx e v of
        (Inl err, v') \<Rightarrow> (Inl err, v')
      | (Inr _, v') \<Rightarrow> validate_from (idx + 1) es v')"

definition validate_batch ::
    "Effect list \<Rightarrow> ('u, 'o) CommitContext \<Rightarrow> StagingMemory \<Rightarrow> CommitOutcome \<Rightarrow> (CommitError + unit) \<times> ('u, 'o) Validation" where
  "validate_batch effects ctx staging outcome =
     validate_from 0 effects \<lparr>va_ctx = ctx, va_staging = staging, va_outcome = outcome, va_pops = []\<rparr>"

section \<open>The apply pass\<close>

definition apply_effect ::
    "Effect \<Rightarrow> ('u, 'o) CommitContext \<times> CommitOutcome \<Rightarrow> (('u, 'o) CommitContext \<times> CommitOutcome) option" where
  "apply_effect effect = (\<lambda>(ctx, outcome).
      case effect of
        MailboxSend mailbox message _ \<Rightarrow>
          (case MailboxRegistry_get_mut mailbox (\<lambda>m. ((), Mailbox_force_send (MailboxMessage_raw message) m)) (cx_mailboxes ctx) of
             None \<Rightarrow> None
           | Some (_, mailboxes) \<Rightarrow> Some (ctx\<lparr>cx_mailboxes := mailboxes\<rparr>, outcome))
      | SignalUpdate signal val _ \<Rightarrow>
          (case SignalRegistry_get_mut signal (SignalRegister_or_in val) (cx_signals ctx) of
             None \<Rightarrow> None
           | Some (_, signals) \<Rightarrow> Some (ctx\<lparr>cx_signals := signals\<rparr>, outcome))
      | DmaEnqueue request payload \<Rightarrow>
          (case queue_transfer (cx_dma_latency ctx) (cx_now ctx) request payload (cx_dma_queue ctx) of
             None \<Rightarrow> None
           | Some queue \<Rightarrow> Some (ctx\<lparr>cx_dma_queue := queue\<rparr>, outcome))
      | MailboxReceiveAttempt mailbox src \<Rightarrow>
          (case MailboxRegistry_get_mut mailbox Mailbox_try_receive (cx_mailboxes ctx) of
             None \<Rightarrow> None
           | Some (Some msg, mailboxes) \<Rightarrow>
               Some (ctx\<lparr>cx_mailboxes := mailboxes, cx_units := UnitRegistry_push_receive src msg (cx_units ctx)\<rparr>,
                     outcome\<lparr>co_mailbox_receives_committed := co_mailbox_receives_committed outcome + 1\<rparr>)
           | Some (None, mailboxes) \<Rightarrow>
               Some (ctx\<lparr>cx_mailboxes := mailboxes, cx_units := UnitRegistry_set_status_override src Blocked (cx_units ctx)\<rparr>,
                     outcome\<lparr>co_blocked_units := co_blocked_units outcome @ [(src, MailboxEmpty)],
                             co_mailbox_receives_blocked := co_mailbox_receives_blocked outcome + 1\<rparr>))
      | MfcInvalidCommand issuer command \<Rightarrow>
          Some (ctx\<lparr>cx_dma_queue := queue_refused (cx_dma_latency ctx) (cx_now ctx) issuer command (cx_dma_queue ctx)\<rparr>, outcome)
      | MailboxPop mailbox _ _ \<Rightarrow>
          (case MailboxRegistry_get_mut mailbox Mailbox_try_receive (cx_mailboxes ctx) of
             None \<Rightarrow> None
           | Some (_, mailboxes) \<Rightarrow>
               Some (ctx\<lparr>cx_mailboxes := mailboxes\<rparr>,
                     outcome\<lparr>co_mailbox_receives_committed := co_mailbox_receives_committed outcome + 1\<rparr>))
      | WakeUnit target _ \<Rightarrow>
          Some (ctx\<lparr>cx_units := UnitRegistry_set_status_override target Runnable (cx_units ctx)\<rparr>,
                outcome\<lparr>co_woken_units := co_woken_units outcome @ [target]\<rparr>)
      | WaitOnEvent _ src \<Rightarrow>
          Some (ctx\<lparr>cx_units := UnitRegistry_set_status_override src Blocked (cx_units ctx)\<rparr>,
                outcome\<lparr>co_blocked_units := co_blocked_units outcome @ [(src, BR_WaitOnEvent)]\<rparr>)
      | SharedWriteIntent rng _ src _ \<Rightarrow>
          (let (n, t) = ReservationTable_clear_covering (GuestAddr_raw (br_start rng)) (br_length rng) (Some src) (cx_reservations ctx)
           in Some (ctx\<lparr>cx_reservations := t\<rparr>, outcome\<lparr>co_reservations_cleared := co_reservations_cleared outcome + n\<rparr>))
      | ReservationAcquire line_addr src \<Rightarrow>
          (let (prior, t) = ReservationTable_insert_or_replace src (ReservedLine_containing line_addr) (cx_reservations ctx);
               outcome = (if prior \<noteq> None then outcome\<lparr>co_reservations_cleared := co_reservations_cleared outcome + 1\<rparr> else outcome)
           in Some (ctx\<lparr>cx_reservations := t\<rparr>,
                    outcome\<lparr>co_reservation_acquires_committed := co_reservation_acquires_committed outcome + 1\<rparr>))
      | ConditionalStore rng _ src _ \<Rightarrow>
          (let (prior, t) = ReservationTable_remove_if_present src (cx_reservations ctx);
               outcome = (if prior \<noteq> None then outcome\<lparr>co_reservations_cleared := co_reservations_cleared outcome + 1\<rparr>
                          else outcome\<lparr>co_conditional_stores_without_prior_reservation :=
                                 co_conditional_stores_without_prior_reservation outcome + 1\<rparr>);
               (n, t) = ReservationTable_clear_covering (GuestAddr_raw (br_start rng)) (br_length rng) None t
           in Some (ctx\<lparr>cx_reservations := t\<rparr>, outcome\<lparr>co_reservations_cleared := co_reservations_cleared outcome + n\<rparr>))
      | RsxLabelWrite offset _ \<Rightarrow>
          (let start = (ucast (cx_rsx_label_base ctx) :: u64) + ucast offset;
               (n, t) = ReservationTable_clear_covering start 4 None (cx_reservations ctx)
           in Some (ctx\<lparr>cx_reservations := t\<rparr>, outcome\<lparr>co_reservations_cleared := co_reservations_cleared outcome + n\<rparr>))
      | RsxFlipRequest buffer_index \<Rightarrow>
          Some (ctx\<lparr>cx_rsx_flip := RsxFlipState_request_flip buffer_index (cx_rsx_flip ctx)\<rparr>, outcome)
      | _ \<Rightarrow> Some (ctx, outcome))"

fun apply_batch ::
    "Effect list \<Rightarrow> ('u, 'o) CommitContext \<times> CommitOutcome \<Rightarrow> (('u, 'o) CommitContext \<times> CommitOutcome) option" where
  "apply_batch [] s = Some s"
| "apply_batch (e # es) s = (case apply_effect e s of None \<Rightarrow> None | Some s' \<Rightarrow> apply_batch es s')"

section \<open>The pipeline\<close>

definition CommitPipeline_process ::
    "(u32 \<Rightarrow> u64 \<Rightarrow> bytes \<Rightarrow> 'o \<Rightarrow> 'o) \<Rightarrow> ExecutionStepResult \<Rightarrow> Effect list \<Rightarrow> ('u, 'o) CommitContext \<Rightarrow>
      ((CommitError + CommitOutcome) \<times> ('u, 'o) CommitContext) option" where
  "CommitPipeline_process tap_write result effects ctx =
     (if sr_yield_reason result = Fault
      then Some (Inr (CommitOutcome_default\<lparr>co_fault_discarded := True, co_effects_discarded_on_fault := length effects\<rparr>), ctx)
      else if effects = [] then Some (Inr CommitOutcome_default, ctx)
      else case validate_batch effects ctx StagingMemory_new CommitOutcome_default of
             (Inl e, v) \<Rightarrow> Some (Inl e, va_ctx v)
           | (Inr _, v) \<Rightarrow>
               (let ctx = va_ctx v
                in case StagingMemory_drain_into_observed
                          (\<lambda>rng bs. map_option (tap_write (cx_space ctx) (GuestAddr_raw (br_start rng)) bs))
                          (cx_tap ctx) (va_staging v) (cx_memory ctx) of
                     None \<Rightarrow> None
                   | Some (Inl e, _, memory, tap) \<Rightarrow> Some (Inl (CE_Memory e), ctx\<lparr>cx_memory := memory, cx_tap := tap\<rparr>)
                   | Some (Inr _, _, memory, tap) \<Rightarrow>
                       map_option (\<lambda>(ctx, outcome). (Inr outcome, ctx))
                         (apply_batch effects (ctx\<lparr>cx_memory := memory, cx_tap := tap\<rparr>, va_outcome v))))"

end
