(* ===== verification/Commit_Proofs.thy ===== *)
theory Commit_Proofs
  imports Commit
begin

text \<open>
  The commit pipeline on each outcome: what exactly a refused batch leaves behind, that an
  accepted one applies every effect in order, and that the assertions of the apply pass cannot
  fail.
\<close>

section \<open>What a batch asks for\<close>

definition effect_writes :: "u32 \<Rightarrow> Effect \<Rightarrow> StagedWrite list" where
  "effect_writes base e =
     (case e of
        SharedWriteIntent rng payload _ _ \<Rightarrow> [StagedWrite_new rng (WritePayload_bytes payload)]
      | ConditionalStore rng payload _ _ \<Rightarrow> [StagedWrite_new rng (WritePayload_bytes payload)]
      | RsxLabelWrite offset val \<Rightarrow> [StagedWrite_new (ByteRange (GuestAddr (ucast base + ucast offset)) 4) (to_be 4 val)]
      | _ \<Rightarrow> [])"

definition batch_writes :: "u32 \<Rightarrow> Effect list \<Rightarrow> StagedWrite list" where
  "batch_writes base es = concat (map (effect_writes base) es)"

text \<open>The objects the apply pass expects to find.\<close>

definition targets_exist :: "MailboxRegistry \<Rightarrow> SignalRegistry \<Rightarrow> Effect \<Rightarrow> bool" where
  "targets_exist mailboxes signals e =
     (case e of
        MailboxSend mailbox _ _ \<Rightarrow> MailboxRegistry_get mailboxes mailbox \<noteq> None
      | MailboxReceiveAttempt mailbox _ \<Rightarrow> MailboxRegistry_get mailboxes mailbox \<noteq> None
      | MailboxPop mailbox _ _ \<Rightarrow> MailboxRegistry_get mailboxes mailbox \<noteq> None
      | SignalUpdate signal _ _ \<Rightarrow> SignalRegistry_get signals signal \<noteq> None
      | _ \<Rightarrow> True)"

section \<open>The validation pass\<close>

text \<open>
  What a refused batch leaves behind. The index of the refused effect is in the error (the memory
  drain refuses the batch as a whole); a payload refusal marks the issuer of that transfer
  faulted; and the label-write counter has counted the label writes that were looked at.
\<close>

definition refused_at :: "CommitError \<Rightarrow> usize option" where
  "refused_at e =
     (case e of
        PayloadLengthMismatch i \<Rightarrow> Some i | CE_OutOfRange i \<Rightarrow> Some i | UnknownMailbox i _ \<Rightarrow> Some i
      | MailboxPopMismatch i _ \<Rightarrow> Some i | UnknownSignal i _ \<Rightarrow> Some i | UnknownWakeTarget i _ \<Rightarrow> Some i
      | UnknownSourceUnit i _ \<Rightarrow> Some i | DmaPayloadLengthMismatch i \<Rightarrow> Some i | DmaGetWithPayload i \<Rightarrow> Some i
      | _ \<Rightarrow> None)"

definition marked_unit :: "CommitError \<Rightarrow> Effect \<Rightarrow> UnitId option" where
  "marked_unit err e =
     (case e of
        DmaEnqueue request _ \<Rightarrow>
          (case err of DmaGetWithPayload _ \<Rightarrow> Some (dr_issuer request) | DmaPayloadLengthMismatch _ \<Rightarrow> Some (dr_issuer request) | _ \<Rightarrow> None)
      | _ \<Rightarrow> None)"

definition label_writes :: "Effect list \<Rightarrow> nat" where
  "label_writes es = length (filter (\<lambda>e. case e of RsxLabelWrite _ _ \<Rightarrow> True | _ \<Rightarrow> False) es)"

definition looked_at :: "UnitId option \<Rightarrow> Effect list \<Rightarrow> ('u, 'o) CommitContext \<Rightarrow> ('u, 'o) CommitContext" where
  "looked_at mark es ctx =
     ctx\<lparr>cx_units := (case mark of None \<Rightarrow> cx_units ctx | Some u \<Rightarrow> UnitRegistry_set_status_override u Faulted (cx_units ctx)),
         cx_rsx_label_writes_committed := cx_rsx_label_writes_committed ctx + of_nat (label_writes es)\<rparr>"

definition refused_context :: "CommitError \<Rightarrow> Effect list \<Rightarrow> ('u, 'o) CommitContext \<Rightarrow> ('u, 'o) CommitContext" where
  "refused_context err es ctx =
     (case refused_at err of
        Some i \<Rightarrow> looked_at (marked_unit err (es ! i)) (take (Suc i) es) ctx
      | None \<Rightarrow> looked_at None es ctx)"

lemma looked_at_fields [simp]:
  "cx_space (looked_at k es ctx) = cx_space ctx" "cx_memory (looked_at k es ctx) = cx_memory ctx"
  "cx_mailboxes (looked_at k es ctx) = cx_mailboxes ctx" "cx_signals (looked_at k es ctx) = cx_signals ctx"
  "cx_dma_queue (looked_at k es ctx) = cx_dma_queue ctx" "cx_dma_latency (looked_at k es ctx) = cx_dma_latency ctx"
  "cx_now (looked_at k es ctx) = cx_now ctx" "cx_reservations (looked_at k es ctx) = cx_reservations ctx"
  "cx_rsx_label_base (looked_at k es ctx) = cx_rsx_label_base ctx" "cx_rsx_flip (looked_at k es ctx) = cx_rsx_flip ctx"
  "cx_tap (looked_at k es ctx) = cx_tap ctx" "cx_units (looked_at None es ctx) = cx_units ctx"
  by (simp_all add: looked_at_def)

lemma looked_at_Nil [simp]: "looked_at None [] ctx = ctx"
  by (simp add: looked_at_def label_writes_def)

lemma looked_at_looked_at: "looked_at k ds (looked_at None es ctx) = looked_at k (es @ ds) ctx"
  by (cases k) (simp_all add: looked_at_def label_writes_def add.assoc)

lemma validate_dma_enqueue_units:
  "validate_dma_enqueue units request payload idx = (res, units') \<Longrightarrow>
   units' = (case res of
      Inl err \<Rightarrow> (case marked_unit err (DmaEnqueue request payload) of
                   None \<Rightarrow> units | Some u \<Rightarrow> UnitRegistry_set_status_override u Faulted units)
    | Inr _ \<Rightarrow> units) \<and> (\<forall>err. res = Inl err \<longrightarrow> refused_at err = Some idx)"
  by (auto simp: validate_dma_enqueue_def require_unit_def marked_unit_def refused_at_def split: sum.splits if_splits)

lemma validate_rsx_label_write_effect:
  "validate_rsx_label_write ctx offset idx = (res, ctx') \<Longrightarrow>
   ctx' = ctx\<lparr>cx_rsx_label_writes_committed := cx_rsx_label_writes_committed ctx + 1\<rparr> \<and>
   (\<forall>rng. res = Inr rng \<longrightarrow> rng = ByteRange (GuestAddr (ucast (cx_rsx_label_base ctx) + ucast offset)) 4) \<and>
   (\<forall>err. res = Inl err \<longrightarrow> refused_at err = Some idx)"
  by (auto simp: validate_rsx_label_write_def Let_def ByteRange_new_def refused_at_def split: option.splits if_splits)

lemma va_stage_fields [simp]:
  "va_ctx (va_stage rng bs v) = va_ctx v"
  "st_pending (va_staging (va_stage rng bs v)) = st_pending (va_staging v) @ [StagedWrite_new rng bs]"
  by (simp_all add: va_stage_def StagingMemory_stage_def)

lemma validate_effect_frame:
  assumes "validate_effect idx e v = (res, v')"
  shows "va_ctx v' = looked_at (case res of Inl err \<Rightarrow> marked_unit err e | Inr _ \<Rightarrow> None) [e] (va_ctx v) \<and>
    (\<forall>err. res = Inl err \<longrightarrow> refused_at err = Some idx)"
proof -
  have "va_ctx v' = looked_at (case res of Inl err \<Rightarrow> marked_unit err e | Inr _ \<Rightarrow> None) [e] (va_ctx v)"
    using assms
    by (cases e)
       (auto simp: validate_effect_def Let_def looked_at_def label_writes_def
         split: sum.splits option.splits if_splits prod.splits
         dest!: validate_rsx_label_write_effect dest!: validate_dma_enqueue_units, auto simp: marked_unit_def split: option.splits)
  moreover have "\<forall>err. res = Inl err \<longrightarrow> refused_at err = Some idx"
    using assms
    by (cases e)
       (auto simp: validate_effect_def Let_def check_write_target_def require_unit_def require_mailbox_def rbind_def refused_at_def
         split: sum.splits option.splits if_splits prod.splits
         dest: validate_rsx_label_write_effect [unfolded refused_at_def] validate_dma_enqueue_units [unfolded refused_at_def])
  ultimately show ?thesis by blast
qed

lemma validate_effect_accepts:
  assumes "validate_effect idx e v = (Inr u, v')"
  shows "st_pending (va_staging v') = st_pending (va_staging v) @ effect_writes (cx_rsx_label_base (va_ctx v)) e \<and>
    targets_exist (cx_mailboxes (va_ctx v)) (cx_signals (va_ctx v)) e"
  using assms
  by (cases e)
     (auto simp: validate_effect_def Let_def effect_writes_def targets_exist_def require_mailbox_def rbind_def
       split: sum.splits option.splits if_splits prod.splits dest!: validate_rsx_label_write_effect)

lemma validate_from_effect:
  assumes "validate_from idx es v = (res, v')"
  shows "case res of
      Inl err \<Rightarrow> (\<exists>k < length es. refused_at err = Some (idx + k) \<and>
        va_ctx v' = looked_at (marked_unit err (es ! k)) (take (Suc k) es) (va_ctx v))
    | Inr _ \<Rightarrow> va_ctx v' = looked_at None es (va_ctx v) \<and>
        st_pending (va_staging v') = st_pending (va_staging v) @ batch_writes (cx_rsx_label_base (va_ctx v)) es \<and>
        (\<forall>e \<in> set es. targets_exist (cx_mailboxes (va_ctx v)) (cx_signals (va_ctx v)) e)"
  using assms
proof (induction es arbitrary: idx v)
  case (Cons e es)
  obtain r1 v1 where one: "validate_effect idx e v = (r1, v1)" by (cases "validate_effect idx e v")
  note frame = validate_effect_frame [OF one]
  show ?case
  proof (cases r1)
    case (Inl err)
    with Cons.prems one frame show ?thesis by (auto intro!: exI [of _ 0])
  next
    case (Inr u)
    then have rest: "validate_from (idx + 1) es v1 = (res, v')" using Cons.prems one by simp
    have f: "va_ctx v1 = looked_at None [e] (va_ctx v)" using frame Inr by simp
    note acc = validate_effect_accepts [OF one [unfolded Inr]]
    show ?thesis
    proof (cases res)
      case (Inl err)
      with Cons.IH [OF rest] obtain k where "k < length es" "refused_at err = Some (idx + 1 + k)"
        "va_ctx v' = looked_at (marked_unit err (es ! k)) (take (Suc k) es) (looked_at None [e] (va_ctx v))"
        by (auto simp: f)
      then show ?thesis using Inl by (auto simp: looked_at_looked_at intro!: exI [of _ "Suc k"])
    next
      case (Inr u')
      with Cons.IH [OF rest] acc show ?thesis by (simp add: f looked_at_looked_at batch_writes_def)
    qed
  qed
qed (auto simp: batch_writes_def)

section \<open>The apply pass\<close>

lemma get_mut_registered:
  "Registry_get r rid \<noteq> None \<Longrightarrow> Registry_get_mut lv rid f r \<noteq> None"
  by (auto simp: Registry_get_mut_def Registry_get_def LaneMap_get_def LaneMap_get_mut_def Let_def split: prod.splits)

text \<open>A change through the guard keeps the registered ids.\<close>

lemma get_mut_keeps_ids:
  assumes "reg_inv lv r" and "Registry_get_mut lv rid f r = Some (a, r')"
  shows "Registry_get r' k = None \<longleftrightarrow> Registry_get r k = None"
  using Registry_get_mut_effect(1) [OF assms] by (auto split: if_splits)

lemma queue_transfer_None:
  "queue_transfer l now request payload q = None \<longleftrightarrow> lat_completion_time l request now q = None"
  by (auto simp: queue_transfer_def Let_def split: option.splits)

text \<open>
  The invariants that keep the objects the apply pass looks up registered; and, for the batches
  that must not panic, that the latency model does not.
\<close>

definition registries_ready :: "('u, 'o) CommitContext \<Rightarrow> bool" where
  "registries_ready ctx \<longleftrightarrow> reg_inv Mailbox_lanes (cx_mailboxes ctx) \<and> reg_inv SignalRegister_lanes (cx_signals ctx)"

definition apply_ready :: "('u, 'o) CommitContext \<Rightarrow> bool" where
  "apply_ready ctx \<longleftrightarrow> reg_inv Mailbox_lanes (cx_mailboxes ctx) \<and> reg_inv SignalRegister_lanes (cx_signals ctx) \<and>
     (\<forall>req q. lat_completion_time (cx_dma_latency ctx) req (cx_now ctx) q \<noteq> None)"

text \<open>The latency model gives no completion time to a transfer of the batch.\<close>

definition latency_panics :: "Effect list \<Rightarrow> ('u, 'o) CommitContext \<Rightarrow> bool" where
  "latency_panics es ctx \<longleftrightarrow>
     (\<exists>request payload q. DmaEnqueue request payload \<in> set es \<and> lat_completion_time (cx_dma_latency ctx) request (cx_now ctx) q = None)"

lemma mailbox_get_mut_total:
  "MailboxRegistry_get r mid \<noteq> None \<Longrightarrow> \<exists>a r'. MailboxRegistry_get_mut mid f r = Some (a, r')"
  using get_mut_registered [of r "MailboxId_raw mid" Mailbox_lanes f] by (auto simp: MailboxRegistry_get_def MailboxRegistry_get_mut_def)

lemma signal_get_mut_total:
  "SignalRegistry_get r sid \<noteq> None \<Longrightarrow> \<exists>a r'. SignalRegistry_get_mut sid f r = Some (a, r')"
  using get_mut_registered [of r "SignalId_raw sid" SignalRegister_lanes f] by (auto simp: SignalRegistry_get_def SignalRegistry_get_mut_def)

definition apply_frame :: "('u, 'o) CommitContext \<Rightarrow> ('u, 'o) CommitContext \<Rightarrow> bool" where
  "apply_frame ctx ctx' \<longleftrightarrow> cx_memory ctx' = cx_memory ctx \<and> cx_tap ctx' = cx_tap ctx \<and> cx_dma_latency ctx' = cx_dma_latency ctx \<and>
     cx_now ctx' = cx_now ctx \<and> cx_rsx_label_base ctx' = cx_rsx_label_base ctx \<and> cx_space ctx' = cx_space ctx \<and>
     (\<forall>mid. MailboxRegistry_get (cx_mailboxes ctx') mid = None \<longleftrightarrow> MailboxRegistry_get (cx_mailboxes ctx) mid = None) \<and>
     (\<forall>sid. SignalRegistry_get (cx_signals ctx') sid = None \<longleftrightarrow> SignalRegistry_get (cx_signals ctx) sid = None)"

lemma mailbox_get_mut_keeps:
  assumes "reg_inv Mailbox_lanes r" and "MailboxRegistry_get_mut mid f r = Some (a, r')"
  shows "reg_inv Mailbox_lanes r'" and "MailboxRegistry_get r' k = None \<longleftrightarrow> MailboxRegistry_get r k = None"
  using Registry_get_mut_effect(2) [OF assms(1) assms(2) [unfolded MailboxRegistry_get_mut_def]]
    get_mut_keeps_ids [OF assms(1) assms(2) [unfolded MailboxRegistry_get_mut_def], of "MailboxId_raw k"]
  by (simp_all add: MailboxRegistry_get_def)

lemma signal_get_mut_keeps:
  assumes "reg_inv SignalRegister_lanes r" and "SignalRegistry_get_mut sid f r = Some (a, r')"
  shows "reg_inv SignalRegister_lanes r'" and "SignalRegistry_get r' k = None \<longleftrightarrow> SignalRegistry_get r k = None"
  using Registry_get_mut_effect(2) [OF assms(1) assms(2) [unfolded SignalRegistry_get_mut_def]]
    get_mut_keeps_ids [OF assms(1) assms(2) [unfolded SignalRegistry_get_mut_def], of "SignalId_raw k"]
  by (simp_all add: SignalRegistry_get_def)

lemma apply_effect_keeps_registries:
  assumes "registries_ready ctx" and "apply_effect e (ctx, o1) = Some (ctx', o2)"
  shows "registries_ready ctx' \<and> apply_frame ctx ctx'"
  using assms
  by (cases e)
     (auto simp: apply_effect_def registries_ready_def apply_frame_def Let_def split: option.splits prod.splits
       dest: mailbox_get_mut_keeps signal_get_mut_keeps)

lemma apply_ready_iff:
  "apply_ready ctx \<longleftrightarrow> registries_ready ctx \<and> (\<forall>req q. lat_completion_time (cx_dma_latency ctx) req (cx_now ctx) q \<noteq> None)"
  by (simp add: apply_ready_def registries_ready_def)

lemma apply_effect_keeps:
  assumes "apply_ready ctx" and "apply_effect e (ctx, o1) = Some (ctx', o2)"
  shows "apply_ready ctx' \<and> apply_frame ctx ctx'"
  using apply_effect_keeps_registries [OF _ assms(2)] assms(1) by (auto simp: apply_ready_iff apply_frame_def)

lemma apply_effect_total:
  assumes "\<not> latency_panics [e] ctx" and "targets_exist (cx_mailboxes ctx) (cx_signals ctx) e"
  shows "apply_effect e (ctx, o1) \<noteq> None"
proof (cases e)
  case (MailboxSend mid msg src)
  with assms(2) have "MailboxRegistry_get (cx_mailboxes ctx) mid \<noteq> None" by (simp add: targets_exist_def)
  from mailbox_get_mut_total [OF this, of "\<lambda>m. ((), Mailbox_force_send (MailboxMessage_raw msg) m)"] MailboxSend
  show ?thesis by (auto simp: apply_effect_def)
next
  case (MailboxReceiveAttempt mid src)
  with assms(2) have "MailboxRegistry_get (cx_mailboxes ctx) mid \<noteq> None" by (simp add: targets_exist_def)
  from mailbox_get_mut_total [OF this, of Mailbox_try_receive] MailboxReceiveAttempt
  show ?thesis by (auto simp: apply_effect_def split: option.split)
next
  case (MailboxPop mid msg src)
  with assms(2) have "MailboxRegistry_get (cx_mailboxes ctx) mid \<noteq> None" by (simp add: targets_exist_def)
  from mailbox_get_mut_total [OF this, of Mailbox_try_receive] MailboxPop
  show ?thesis by (auto simp: apply_effect_def)
next
  case (SignalUpdate sid val src)
  with assms(2) have "SignalRegistry_get (cx_signals ctx) sid \<noteq> None" by (simp add: targets_exist_def)
  from signal_get_mut_total [OF this, of "SignalRegister_or_in val"] SignalUpdate
  show ?thesis by (auto simp: apply_effect_def)
next
  case (DmaEnqueue request payload)
  with assms(1) have "queue_transfer (cx_dma_latency ctx) (cx_now ctx) request payload (cx_dma_queue ctx) \<noteq> None"
    unfolding queue_transfer_None latency_panics_def by auto
  with DmaEnqueue show ?thesis by (auto simp: apply_effect_def)
qed (simp_all add: apply_effect_def Let_def split_beta)

lemma targets_exist_frame:
  "apply_frame ctx ctx' \<Longrightarrow> targets_exist (cx_mailboxes ctx') (cx_signals ctx') e = targets_exist (cx_mailboxes ctx) (cx_signals ctx) e"
  by (cases e) (simp_all add: targets_exist_def apply_frame_def)

lemma apply_frame_trans: "apply_frame a b \<Longrightarrow> apply_frame b c \<Longrightarrow> apply_frame a c"
  by (simp add: apply_frame_def)

lemma latency_panics_frame: "apply_frame ctx ctx' \<Longrightarrow> latency_panics es ctx' \<longleftrightarrow> latency_panics es ctx"
  by (simp add: latency_panics_def apply_frame_def)

lemma latency_panics_Cons: "latency_panics (e # es) ctx \<longleftrightarrow> latency_panics [e] ctx \<or> latency_panics es ctx"
  by (auto simp: latency_panics_def)

lemma apply_batch_total:
  assumes "registries_ready ctx" and "\<not> latency_panics es ctx"
    and "\<forall>e \<in> set es. targets_exist (cx_mailboxes ctx) (cx_signals ctx) e"
  shows "\<exists>ctx' o2. apply_batch es (ctx, o1) = Some (ctx', o2) \<and> registries_ready ctx' \<and> apply_frame ctx ctx'"
  using assms
proof (induction es arbitrary: ctx o1)
  case (Cons e es)
  have lat: "\<not> latency_panics [e] ctx" "\<not> latency_panics es ctx" using Cons.prems(2) latency_panics_Cons [of e es ctx] by simp_all
  obtain c1 oc1 where one: "apply_effect e (ctx, o1) = Some (c1, oc1)"
    using apply_effect_total [OF lat(1), of o1] Cons.prems(3) by fastforce
  from apply_effect_keeps_registries [OF Cons.prems(1) one] have k: "registries_ready c1" "apply_frame ctx c1" by simp_all
  from Cons.IH [OF k(1), of oc1] lat(2) latency_panics_frame [OF k(2)] Cons.prems(3) targets_exist_frame [OF k(2)]
  obtain c2 o2 where "apply_batch es (c1, oc1) = Some (c2, o2)" "registries_ready c2" "apply_frame c1 c2" by auto
  with one apply_frame_trans [OF k(2)] show ?case by auto
qed (simp add: apply_frame_def)

lemma apply_batch_frame:
  assumes "registries_ready ctx" and "apply_batch es (ctx, o1) = Some (ctx', o2)"
  shows "apply_frame ctx ctx'"
  using assms
proof (induction es arbitrary: ctx o1)
  case (Cons e es)
  obtain c oc where one: "apply_effect e (ctx, o1) = Some (c, oc)" and rest: "apply_batch es (c, oc) = Some (ctx', o2)"
    using Cons.prems(2) by (auto split: option.splits)
  from apply_effect_keeps_registries [OF Cons.prems(1) one] Cons.IH [OF _ rest] show ?case by (blast intro: apply_frame_trans)
qed (simp add: apply_frame_def)

section \<open>All or nothing\<close>

lemma process_outcomes:
  assumes "hash_inv (cx_memory ctx)" and "registries_ready ctx"
    and "\<forall>w \<in> set (batch_writes (cx_rsx_label_base ctx) effects). sw_ok w"
    and "sr_yield_reason result \<noteq> Fault" and "effects \<noteq> []"
  obtains (refused) e where "CommitPipeline_process tap_write result effects ctx = Some (Inl e, refused_context e effects ctx)"
      "\<forall>i. refused_at e = Some i \<longrightarrow> i < length effects"
  | (panicked) "CommitPipeline_process tap_write result effects ctx = None" "latency_panics effects ctx"
  | (accepted) m' tap' ctx' oa ob where "CommitPipeline_process tap_write result effects ctx = Some (Inr ob, ctx')"
      "apply_batch effects ((looked_at None effects ctx)\<lparr>cx_memory := m', cx_tap := tap'\<rparr>, oa) = Some (ctx', ob)"
      "apply_frame ((looked_at None effects ctx)\<lparr>cx_memory := m', cx_tap := tap'\<rparr>) ctx'" "hash_inv m'"
      "mem_byte m' = fold overlay (batch_writes (cx_rsx_label_base ctx) effects) (mem_byte (cx_memory ctx))"
proof -
  obtain res v where val: "validate_batch effects ctx StagingMemory_new CommitOutcome_default = (res, v)" by fastforce
  note eff = validate_from_effect [OF val [unfolded validate_batch_def]]
  show thesis
  proof (cases res)
    case (Inl e)
    with eff obtain k where "k < length effects" "refused_at e = Some k"
      "va_ctx v = looked_at (marked_unit e (effects ! k)) (take (Suc k) effects) ctx" by auto
    with val Inl assms(4,5) show thesis by (intro refused) (auto simp: CommitPipeline_process_def refused_context_def)
  next
    case (Inr u)
    with eff have ctx: "va_ctx v = looked_at None effects ctx"
      and ok: "st_pending (va_staging v) = batch_writes (cx_rsx_label_base ctx) effects"
        "\<forall>e \<in> set effects. targets_exist (cx_mailboxes ctx) (cx_signals ctx) e"
      by (simp_all add: StagingMemory_new_def)
    let ?obs = "\<lambda>rng bs. map_option (tap_write (cx_space ctx) (GuestAddr_raw (br_start rng)) bs)"
    let ?d = "StagingMemory_drain_into_observed ?obs (cx_tap ctx) (va_staging v) (cx_memory ctx)"
    have p: "\<forall>w \<in> set (st_pending (va_staging v)). sw_ok w" using assms(3) ok by simp
    note dr = drain_into_effect [OF assms(1) p, where obs = ?obs and ob = "cx_tap ctx"]
    then obtain r2 s2 m2 t2 where d: "?d = Some (r2, s2, m2, t2)" by (cases ?d) auto
    show thesis
    proof (cases r2)
      case (Inl e)
      have "m2 = cx_memory ctx" "t2 = cx_tap ctx" using dr d Inl by simp_all
      then have "(looked_at None effects ctx)\<lparr>cx_memory := m2, cx_tap := t2\<rparr> = refused_context (CE_Memory e) effects ctx"
        by (simp add: refused_context_def refused_at_def looked_at_def)
      with val \<open>res = Inr u\<close> d Inl assms(4,5) ctx show thesis
        by (intro refused [of "CE_Memory e"]) (simp_all add: CommitPipeline_process_def refused_at_def)
    next
      case (Inr n)
      let ?c = "(looked_at None effects ctx)\<lparr>cx_memory := m2, cx_tap := t2\<rparr>"
      have run: "CommitPipeline_process tap_write result effects ctx =
          map_option (\<lambda>(ctx, outcome). (Inr outcome, ctx)) (apply_batch effects (?c, va_outcome v))"
        using val \<open>res = Inr u\<close> d Inr assms(4,5) ctx by (simp add: CommitPipeline_process_def)
      have ready: "registries_ready ?c" using assms(2) by (simp add: registries_ready_def)
      have lat: "latency_panics effects ?c \<longleftrightarrow> latency_panics effects ctx" by (simp add: latency_panics_def)
      show thesis
      proof (cases "apply_batch effects (?c, va_outcome v)")
        case None
        with run ready ok(2) lat apply_batch_total [of ?c effects "va_outcome v"] show thesis by (intro panicked) auto
      next
        case (Some x)
        obtain ctx' o2 where x: "x = (ctx', o2)" by fastforce
        show thesis
        proof (rule accepted)
          show "CommitPipeline_process tap_write result effects ctx = Some (Inr o2, ctx')"
            "apply_batch effects (?c, va_outcome v) = Some (ctx', o2)" using run Some x by simp_all
          then show "apply_frame ?c ctx'" using apply_batch_frame [OF ready] by blast
          show "hash_inv m2" "mem_byte m2 = fold overlay (batch_writes (cx_rsx_label_base ctx) effects) (mem_byte (cx_memory ctx))"
            using dr d Inr ok by simp_all
        qed
      qed
    qed
  qed
qed

text \<open>The same, for the batches that do not panic.\<close>

lemma process_cases:
  assumes "hash_inv (cx_memory ctx)" and "apply_ready ctx"
    and "\<forall>w \<in> set (batch_writes (cx_rsx_label_base ctx) effects). sw_ok w"
    and "sr_yield_reason result \<noteq> Fault" and "effects \<noteq> []"
  obtains (refused) e ctx' where "CommitPipeline_process tap_write result effects ctx = Some (Inl e, ctx')"
  | (accepted) c ctx' oa ob where "CommitPipeline_process tap_write result effects ctx = Some (Inr ob, ctx')"
      "apply_batch effects (c, oa) = Some (ctx', ob)" "apply_frame c ctx'" "apply_ready c" "hash_inv (cx_memory c)"
      "mem_byte (cx_memory c) = fold overlay (batch_writes (cx_rsx_label_base ctx) effects) (mem_byte (cx_memory ctx))"
      "cx_units c = cx_units ctx" "cx_mailboxes c = cx_mailboxes ctx" "cx_signals c = cx_signals ctx"
      "cx_dma_queue c = cx_dma_queue ctx" "cx_reservations c = cx_reservations ctx" "cx_rsx_flip c = cx_rsx_flip ctx"
      "cx_rsx_label_base c = cx_rsx_label_base ctx"
proof -
  have reg: "registries_ready ctx" and lat: "\<not> latency_panics effects ctx"
    using assms(2) by (auto simp: apply_ready_iff latency_panics_def)
  show thesis
  proof (rule process_outcomes [OF assms(1) reg assms(3-5), where tap_write = tap_write])
    fix m' tap' ctx' oa ob
    assume a: "CommitPipeline_process tap_write result effects ctx = Some (Inr ob, ctx')"
      "apply_batch effects ((looked_at None effects ctx)\<lparr>cx_memory := m', cx_tap := tap'\<rparr>, oa) = Some (ctx', ob)"
      "apply_frame ((looked_at None effects ctx)\<lparr>cx_memory := m', cx_tap := tap'\<rparr>) ctx'" "hash_inv m'"
      "mem_byte m' = fold overlay (batch_writes (cx_rsx_label_base ctx) effects) (mem_byte (cx_memory ctx))"
    have "apply_ready ((looked_at None effects ctx)\<lparr>cx_memory := m', cx_tap := tap'\<rparr>)"
      using assms(2) by (simp add: apply_ready_def)
    with a show thesis
      by (intro accepted [where c = "(looked_at None effects ctx)\<lparr>cx_memory := m', cx_tap := tap'\<rparr>"]) simp_all
  qed (use lat refused in auto)
qed

text \<open>
  C1: a commit is all or nothing. When the step faulted, the whole batch is discarded and nothing
  changes. When an effect is refused or the memory drain fails, the context is the one before the
  batch, except for two traces the code leaves on purpose: the issuer of a transfer whose inline
  payload was refused carries a fault override, and the label-write counter has counted the label
  writes up to the refused effect. Memory, mailboxes, signals, the DMA queue, reservations, the
  flip state and the debug observer are as they were. When the batch is accepted, memory holds
  exactly the batch's writes laid over it in emission order. The pipeline panics only where the
  latency model itself gives no completion time to a transfer of the batch: its own lookups in
  the apply pass always succeed.
\<close>

theorem commit_atomic:
  assumes "hash_inv (cx_memory ctx)" and "registries_ready ctx"
    and "\<forall>w \<in> set (batch_writes (cx_rsx_label_base ctx) effects). sw_ok w"
  shows "case CommitPipeline_process tap_write result effects ctx of
      None \<Rightarrow> sr_yield_reason result \<noteq> Fault \<and>
        (\<exists>request payload q. DmaEnqueue request payload \<in> set effects \<and>
           lat_completion_time (cx_dma_latency ctx) request (cx_now ctx) q = None)
    | Some (Inl e, ctx') \<Rightarrow> sr_yield_reason result \<noteq> Fault \<and> ctx' = refused_context e effects ctx \<and>
        (\<forall>i. refused_at e = Some i \<longrightarrow> i < length effects)
    | Some (Inr outcome, ctx') \<Rightarrow>
        (if sr_yield_reason result = Fault then ctx' = ctx \<and> co_effects_discarded_on_fault outcome = length effects
         else hash_inv (cx_memory ctx') \<and>
           mem_byte (cx_memory ctx') = fold overlay (batch_writes (cx_rsx_label_base ctx) effects) (mem_byte (cx_memory ctx)))"
proof (cases "sr_yield_reason result = Fault \<or> effects = []")
  case True
  then show ?thesis using assms(1) by (auto simp: CommitPipeline_process_def batch_writes_def)
next
  case False
  then have nf: "sr_yield_reason result \<noteq> Fault" "effects \<noteq> []" by simp_all
  show ?thesis
    by (rule process_outcomes [OF assms nf, where tap_write = tap_write])
       (use nf in \<open>auto simp: latency_panics_def apply_frame_def\<close>)
qed

section \<open>Each subsystem sees its own effects in order\<close>

definition mailbox_action :: "MailboxId \<Rightarrow> Effect \<Rightarrow> Mailbox \<Rightarrow> Mailbox" where
  "mailbox_action mid e m =
     (case e of
        MailboxSend i message _ \<Rightarrow> if i = mid then Mailbox_force_send (MailboxMessage_raw message) m else m
      | MailboxReceiveAttempt i _ \<Rightarrow> if i = mid then snd (Mailbox_try_receive m) else m
      | MailboxPop i _ _ \<Rightarrow> if i = mid then snd (Mailbox_try_receive m) else m
      | _ \<Rightarrow> m)"

definition signal_action :: "SignalId \<Rightarrow> Effect \<Rightarrow> SignalRegister \<Rightarrow> SignalRegister" where
  "signal_action sid e s =
     (case e of SignalUpdate i val _ \<Rightarrow> if i = sid then snd (SignalRegister_or_in val s) else s | _ \<Rightarrow> s)"

definition reservation_action :: "u32 \<Rightarrow> Effect \<Rightarrow> ReservationTable \<Rightarrow> ReservationTable" where
  "reservation_action base e t =
     (case e of
        SharedWriteIntent rng _ src _ \<Rightarrow>
          snd (ReservationTable_clear_covering (GuestAddr_raw (br_start rng)) (br_length rng) (Some src) t)
      | ReservationAcquire line src \<Rightarrow> snd (ReservationTable_insert_or_replace src (ReservedLine_containing line) t)
      | ConditionalStore rng _ src _ \<Rightarrow>
          snd (ReservationTable_clear_covering (GuestAddr_raw (br_start rng)) (br_length rng) None
            (snd (ReservationTable_remove_if_present src t)))
      | RsxLabelWrite offset _ \<Rightarrow> snd (ReservationTable_clear_covering (ucast base + ucast offset) 4 None t)
      | _ \<Rightarrow> t)"

definition flip_action :: "Effect \<Rightarrow> RsxFlipState \<Rightarrow> RsxFlipState" where
  "flip_action e s = (case e of RsxFlipRequest b \<Rightarrow> RsxFlipState_request_flip b s | _ \<Rightarrow> s)"

definition woken_by :: "Effect \<Rightarrow> UnitId list" where
  "woken_by e = (case e of WakeUnit target _ \<Rightarrow> [target] | _ \<Rightarrow> [])"

lemma mailbox_get_mut_get:
  assumes "reg_inv Mailbox_lanes r" and "MailboxRegistry_get_mut mid f r = Some (a, r')"
  shows "MailboxRegistry_get r' k = map_option (\<lambda>m. if mid = k then snd (f m) else m) (MailboxRegistry_get r k)"
  using Registry_get_mut_effect(1) [OF assms(1) assms(2) [unfolded MailboxRegistry_get_mut_def]]
  by (cases k; cases mid) (auto simp: MailboxRegistry_get_def option.map_ident)

lemma signal_get_mut_get:
  assumes "reg_inv SignalRegister_lanes r" and "SignalRegistry_get_mut sid f r = Some (a, r')"
  shows "SignalRegistry_get r' k = map_option (\<lambda>s. if sid = k then snd (f s) else s) (SignalRegistry_get r k)"
  using Registry_get_mut_effect(1) [OF assms(1) assms(2) [unfolded SignalRegistry_get_mut_def]]
  by (cases k; cases sid) (auto simp: SignalRegistry_get_def option.map_ident)

lemma apply_effect_mailboxes:
  assumes "apply_ready ctx" and "apply_effect e (ctx, o1) = Some (ctx', o2)"
  shows "MailboxRegistry_get (cx_mailboxes ctx') mid = map_option (mailbox_action mid e) (MailboxRegistry_get (cx_mailboxes ctx) mid)"
proof -
  have r: "reg_inv Mailbox_lanes (cx_mailboxes ctx)" using assms(1) by (simp add: apply_ready_def)
  have id: "map_option (\<lambda>m. m) x = x" for x :: "Mailbox option" by (rule option.map_ident)
  show ?thesis
    using assms(2)
    by (cases e) (auto simp: apply_effect_def mailbox_action_def [abs_def] Let_def id split: option.splits prod.splits
      dest!: mailbox_get_mut_get [OF r, where k = mid] cong: if_cong)
qed

lemma apply_effect_signals:
  assumes "apply_ready ctx" and "apply_effect e (ctx, o1) = Some (ctx', o2)"
  shows "SignalRegistry_get (cx_signals ctx') sid = map_option (signal_action sid e) (SignalRegistry_get (cx_signals ctx) sid)"
proof -
  have r: "reg_inv SignalRegister_lanes (cx_signals ctx)" using assms(1) by (simp add: apply_ready_def)
  have id: "map_option (\<lambda>m. m) x = x" for x :: "SignalRegister option" by (rule option.map_ident)
  show ?thesis
    using assms(2)
    by (cases e) (auto simp: apply_effect_def signal_action_def [abs_def] Let_def id split: option.splits prod.splits
      dest!: signal_get_mut_get [OF r, where k = sid])
qed

lemma apply_effect_others:
  assumes "apply_effect e (ctx, o1) = Some (ctx', o2)"
  shows "cx_reservations ctx' = reservation_action (cx_rsx_label_base ctx) e (cx_reservations ctx) \<and>
    cx_rsx_flip ctx' = flip_action e (cx_rsx_flip ctx) \<and> co_woken_units o2 = co_woken_units o1 @ woken_by e"
  using assms
  by (cases e) (auto simp: apply_effect_def reservation_action_def flip_action_def woken_by_def Let_def
      split: option.splits prod.splits)

lemma apply_batch_in_order:
  assumes "apply_ready ctx" and "apply_batch es (ctx, o1) = Some (ctx', o2)"
  shows "MailboxRegistry_get (cx_mailboxes ctx') mid = map_option (fold (mailbox_action mid) es) (MailboxRegistry_get (cx_mailboxes ctx) mid) \<and>
    SignalRegistry_get (cx_signals ctx') sid = map_option (fold (signal_action sid) es) (SignalRegistry_get (cx_signals ctx) sid) \<and>
    cx_reservations ctx' = fold (reservation_action (cx_rsx_label_base ctx)) es (cx_reservations ctx) \<and>
    cx_rsx_flip ctx' = fold flip_action es (cx_rsx_flip ctx) \<and>
    co_woken_units o2 = co_woken_units o1 @ concat (map woken_by es)"
  using assms
proof (induction es arbitrary: ctx o1)
  case (Cons e es)
  obtain c oc where one: "apply_effect e (ctx, o1) = Some (c, oc)" and rest: "apply_batch es (c, oc) = Some (ctx', o2)"
    using Cons.prems(2) by (auto split: option.splits)
  from apply_effect_keeps [OF Cons.prems(1) one] have k: "apply_ready c" "cx_rsx_label_base c = cx_rsx_label_base ctx"
    by (simp_all add: apply_frame_def)
  from Cons.IH [OF k(1) rest] k(2) apply_effect_mailboxes [OF Cons.prems(1) one, of mid]
    apply_effect_signals [OF Cons.prems(1) one, of sid] apply_effect_others [OF one]
  show ?case by (simp add: option.map_comp comp_def)
qed (simp add: option.map_ident fun_eq_iff [symmetric] id_def)

text \<open>
  C11: an accepted batch acts on each subsystem by its own effects, in emission order and by
  nothing else: every mailbox by the sends, receive attempts and pops that name it, every
  signal by its updates, the reservation table by the stores, acquires and label writes, the
  flip state by the flip requests.
\<close>

theorem commit_in_order:
  assumes "hash_inv (cx_memory ctx)" and "apply_ready ctx"
    and "\<forall>w \<in> set (batch_writes (cx_rsx_label_base ctx) effects). sw_ok w"
    and "sr_yield_reason result \<noteq> Fault"
    and "CommitPipeline_process tap_write result effects ctx = Some (Inr outcome, ctx')"
  shows "(\<forall>mid. MailboxRegistry_get (cx_mailboxes ctx') mid =
      map_option (fold (mailbox_action mid) effects) (MailboxRegistry_get (cx_mailboxes ctx) mid)) \<and>
    (\<forall>sid. SignalRegistry_get (cx_signals ctx') sid =
      map_option (fold (signal_action sid) effects) (SignalRegistry_get (cx_signals ctx) sid)) \<and>
    cx_reservations ctx' = fold (reservation_action (cx_rsx_label_base ctx)) effects (cx_reservations ctx) \<and>
    cx_rsx_flip ctx' = fold flip_action effects (cx_rsx_flip ctx)"
proof (cases "effects = []")
  case True
  with assms(4,5) show ?thesis by (simp add: CommitPipeline_process_def option.map_ident id_def)
next
  case False
  show ?thesis
  proof (rule process_cases [OF assms(1-4) False, where tap_write = tap_write])
    fix e c
    assume "CommitPipeline_process tap_write result effects ctx = Some (Inl e, c)"
    with assms(5) show ?thesis by simp
  next
    fix c d oa ob
    assume p: "CommitPipeline_process tap_write result effects ctx = Some (Inr ob, d)" "apply_batch effects (c, oa) = Some (d, ob)"
      "apply_ready c" and same: "cx_mailboxes c = cx_mailboxes ctx" "cx_signals c = cx_signals ctx"
      "cx_reservations c = cx_reservations ctx" "cx_rsx_flip c = cx_rsx_flip ctx" "cx_rsx_label_base c = cx_rsx_label_base ctx"
    from apply_batch_in_order [OF p(3,2)] p(1) assms(5) same show ?thesis by simp
  qed
qed

text \<open>
  C37: a refusal is not always without trace. A get that carries an inline payload is
  refused, and the refused batch leaves its issuer with a fault override.
\<close>

theorem refused_get_marks_issuer:
  assumes "units_inv st (cx_units ctx)" and "UnitRegistry_get (cx_units ctx) (dr_issuer request) \<noteq> None"
    and "dr_direction request = Get" and "sr_yield_reason result \<noteq> Fault"
  shows "\<exists>ctx'. CommitPipeline_process tap_write result [DmaEnqueue request (Some bs)] ctx = Some (Inl (DmaGetWithPayload 0), ctx') \<and>
    UnitRegistry_status_override (cx_units ctx') (dr_issuer request) = Some Faulted"
proof -
  have wf: "btree_wf (ur_status_overrides (cx_units ctx))" using assms(1) by (simp add: units_inv_def)
  have "validate_dma_enqueue (cx_units ctx) request (Some bs) 0 =
      (Inl (DmaGetWithPayload 0), UnitRegistry_set_status_override (dr_issuer request) Faulted (cx_units ctx))"
    using assms(2,3) by (simp add: validate_dma_enqueue_def require_unit_def DmaRequest_local_store_range_def)
  then have "CommitPipeline_process tap_write result [DmaEnqueue request (Some bs)] ctx =
      Some (Inl (DmaGetWithPayload 0), ctx\<lparr>cx_units := UnitRegistry_set_status_override (dr_issuer request) Faulted (cx_units ctx)\<rparr>)"
    using assms(4) by (simp add: CommitPipeline_process_def validate_batch_def validate_effect_def Let_def)
  moreover have "UnitRegistry_status_override (UnitRegistry_set_status_override (dr_issuer request) Faulted (cx_units ctx)) (dr_issuer request) = Some Faulted"
    using assms(2) wf
    by (simp add: UnitRegistry_status_override_def UnitRegistry_set_status_override_def btree_contains_def UnitRegistry_get_def btree_get_insert)
  ultimately show ?thesis by simp
qed

section \<open>Witnesses\<close>

definition sample_latency :: DmaLatencyModel where
  "sample_latency = \<lparr>lat_completion_time = \<lambda>_ now _. Some now, lat_invalid_command_time = \<lambda>now _. now\<rparr>"

definition sample_context :: "(UnitStatus \<times> UnitId, unit) CommitContext" where
  "sample_context = \<lparr>cx_space = 0, cx_memory = small_memory, cx_units = two_units, cx_mailboxes = MailboxRegistry_new,
     cx_signals = SignalRegistry_new, cx_dma_queue = DmaQueue_new, cx_dma_latency = sample_latency, cx_now = GuestTicks 1,
     cx_reservations = ReservationTable_new, cx_rsx_label_base = 0, cx_rsx_flip = RsxFlipState_new,
     cx_rsx_label_writes_committed = 0, cx_tap = None\<rparr>"

definition sample_result :: ExecutionStepResult where
  "sample_result = \<lparr>sr_yield_reason = BudgetExhausted, sr_consumed_cost = InstructionCost 1,
     sr_local_diagnostics = LocalDiagnostics_empty, sr_fault = None, sr_syscall_args = None\<rparr>"

lemma sample_context_ready: "hash_inv (cx_memory sample_context)" "apply_ready sample_context"
proof -
  show "hash_inv (cx_memory sample_context)"
    unfolding sample_context_def
    by (simp, rule hash_inv_from_regions [OF small_memory_from])
       (simp add: bitmap_ok_def Region_new_def zero_unless_dirty_def)
  show "apply_ready sample_context"
    by (simp add: apply_ready_def sample_context_def sample_latency_def MailboxRegistry_new_def SignalRegistry_new_def reg_inv_new)
qed

lemma sample_registries: "registries_ready sample_context"
  using sample_context_ready(2) by (simp add: apply_ready_iff)

abbreviation sample_write :: Effect where
  "sample_write \<equiv> SharedWriteIntent (ByteRange (GuestAddr 4) 2) (WritePayload_new [7, 8]) (UnitId 0) (GuestTicks 1)"

theorem commit_atomic_witness:
  "\<exists>e ctx'. CommitPipeline_process (\<lambda>_ _ _ x. x) sample_result [sample_write, SignalUpdate (SignalId 5) 1 (UnitId 0)] sample_context =
       Some (Inl e, ctx') \<and> ctx' = sample_context"
proof -
  let ?es = "[sample_write, SignalUpdate (SignalId 5) 1 (UnitId 0)]"
  have h: "GuestMemory_holds 4 2 small_memory" by (simp add: GuestMemory_holds_def small_memory_span is_ok_def)
  have u: "SignalRegistry_get SignalRegistry_new (SignalId 5) = None"
    by (simp add: SignalRegistry_get_def SignalRegistry_new_def Registry_get_def Registry_new_def LaneMap_get_def LaneMap_new_def
        LaneMap_with_object_def)
  have p: "\<exists>ctx'. CommitPipeline_process (\<lambda>_ _ _ x. x) sample_result ?es sample_context = Some (Inl (UnknownSignal 1 (SignalId 5)), ctx')"
    using h u by (simp add: CommitPipeline_process_def sample_result_def sample_context_def validate_batch_def validate_effect_def
        check_write_target_def WritePayload_len_def WritePayload_new_def checked_add_def Let_def va_stage_def)
  moreover have "refused_context (UnknownSignal 1 (SignalId 5)) ?es sample_context = sample_context"
    by (simp add: refused_context_def refused_at_def marked_unit_def looked_at_def label_writes_def)
  moreover have "\<forall>w \<in> set (batch_writes 0 ?es). sw_ok w"
    by (simp add: batch_writes_def effect_writes_def sw_ok_def StagedWrite_new_def StagedBytes_len_def StagedBytes_roundtrip)
  ultimately show ?thesis
    using commit_atomic [OF sample_context_ready(1) sample_registries, where tap_write = "\<lambda>_ _ _ x. x" and result = sample_result and effects = ?es]
    by (auto simp: sample_context_def)
qed

lemma sample_flip_commit:
  "\<exists>outcome ctx'. CommitPipeline_process (\<lambda>_ _ _ x. x) sample_result [RsxFlipRequest 3] sample_context = Some (Inr outcome, ctx')"
  by (simp add: CommitPipeline_process_def sample_result_def validate_batch_def validate_effect_def Let_def
      StagingMemory_drain_into_observed_def StagingMemory_validate_pending_def StagingMemory_new_def apply_effect_def)

theorem commit_in_order_witness:
  "\<exists>outcome ctx'. CommitPipeline_process (\<lambda>_ _ _ x. x) sample_result [RsxFlipRequest 3] sample_context = Some (Inr outcome, ctx') \<and>
     rf_pending (cx_rsx_flip ctx')"
proof -
  obtain outcome ctx' where p: "CommitPipeline_process (\<lambda>_ _ _ x. x) sample_result [RsxFlipRequest 3] sample_context = Some (Inr outcome, ctx')"
    using sample_flip_commit by blast
  have "cx_rsx_flip ctx' = fold flip_action [RsxFlipRequest 3] (cx_rsx_flip sample_context)"
    using commit_in_order [OF sample_context_ready _ _ p] by (simp add: batch_writes_def effect_writes_def sample_result_def)
  with p show ?thesis by (simp add: flip_action_def RsxFlipState_request_flip_def)
qed

theorem refused_get_marks_issuer_witness:
  "\<exists>ctx'. CommitPipeline_process (\<lambda>_ _ _ x. x) sample_result [DmaEnqueue sample_request (Some [1])] sample_context =
       Some (Inl (DmaGetWithPayload 0), ctx') \<and>
     UnitRegistry_status_override (cx_units ctx') (UnitId 1) = Some Faulted"
proof -
  have "units_inv fst (cx_units sample_context)"
    using registry_reachable_inv [OF two_units_reachable] by (simp add: sample_context_def)
  moreover have "UnitRegistry_get two_units (UnitId 1) \<noteq> None"
    using two_units_status(2) by (auto simp: effective_status_eq UnitRegistry_get_def)
  ultimately show ?thesis
    using refused_get_marks_issuer [of fst sample_context sample_request sample_result "\<lambda>_ _ _ x. x" "[1]"]
    by (simp add: sample_request_def sample_result_def) (simp add: sample_context_def)
qed

end
