(* ===== verification/Block_Reason.thy ===== *)
theory Block_Reason
  imports Lanes Events
begin

text \<open>
  \<^verbatim>\<open>cellgov_lv2/src/ppu_thread/id.rs\<close> and \<^verbatim>\<open>block_reason.rs\<close>: PPU thread ids and their monotonic
  allocator, the reasons a guest thread is parked and the fixed-width encoding of a reason.
\<close>

section \<open>Thread ids\<close>

datatype PpuThreadId = PpuThreadId (PpuThreadId_raw: u64)

instantiation PpuThreadId :: linorder
begin

definition less_eq_PpuThreadId :: "PpuThreadId \<Rightarrow> PpuThreadId \<Rightarrow> bool" where
  "less_eq_PpuThreadId a b \<longleftrightarrow> PpuThreadId_raw a \<le> PpuThreadId_raw b"

definition less_PpuThreadId :: "PpuThreadId \<Rightarrow> PpuThreadId \<Rightarrow> bool" where
  "less_PpuThreadId a b \<longleftrightarrow> PpuThreadId_raw a < PpuThreadId_raw b"

instance
  by standard (auto simp: less_eq_PpuThreadId_def less_PpuThreadId_def intro: PpuThreadId.expand)

end

lemma PpuThreadId_le [simp]: "PpuThreadId a \<le> PpuThreadId b \<longleftrightarrow> a \<le> b"
  by (simp add: less_eq_PpuThreadId_def)

lemma PpuThreadId_less [simp]: "PpuThreadId a < PpuThreadId b \<longleftrightarrow> a < b"
  by (simp add: less_PpuThreadId_def)

definition PpuThreadId_PRIMARY :: PpuThreadId where
  "PpuThreadId_PRIMARY = PpuThreadId 0x01000000"

record PpuThreadIdAllocator =
  ia_next :: "u64 option"

definition PpuThreadIdAllocator_lanes :: "PpuThreadIdAllocator lane_value" where
  "PpuThreadIdAllocator_lanes a lanes =
     ObjectLanes_lane 2 0 (case ia_next a of Some n \<Rightarrow> n | None \<Rightarrow> 0)
       (ObjectLanes_lane 1 0 (of_bool (ia_next a \<noteq> None)) lanes)"

definition PpuThreadIdAllocator_new :: PpuThreadIdAllocator where
  "PpuThreadIdAllocator_new = \<lparr>ia_next = Some (PpuThreadId_raw PpuThreadId_PRIMARY + 1)\<rparr>"

definition PpuThreadIdAllocator_allocate :: "PpuThreadIdAllocator \<Rightarrow> PpuThreadId option \<times> PpuThreadIdAllocator" where
  "PpuThreadIdAllocator_allocate a =
     (case ia_next a of
        None \<Rightarrow> (None, a)
      | Some cur \<Rightarrow> (Some (PpuThreadId cur), a\<lparr>ia_next := checked_add cur 1\<rparr>))"

definition PpuThreadIdAllocator_peek :: "PpuThreadIdAllocator \<Rightarrow> PpuThreadId option" where
  "PpuThreadIdAllocator_peek a = map_option PpuThreadId (ia_next a)"

text \<open>An allocator is above every id it has handed out.\<close>

definition ia_above :: "PpuThreadIdAllocator \<Rightarrow> PpuThreadId \<Rightarrow> bool" where
  "ia_above a i \<longleftrightarrow> (case ia_next a of None \<Rightarrow> True | Some n \<Rightarrow> PpuThreadId_raw i < n)"

lemma allocate_fresh:
  assumes "PpuThreadIdAllocator_allocate a = (Some i, a')"
  shows "\<not> ia_above a i" and "ia_above a' i" and "ia_above a j \<Longrightarrow> ia_above a' j"
  using assms
  by (auto simp: PpuThreadIdAllocator_allocate_def ia_above_def checked_add_def word_less_nat_alt
                 unat_plus_no_wrap split: option.splits if_splits)

section \<open>Block reasons\<close>

datatype EventFlagWaitMode = AndNoClear | AndClear | OrNoClear | OrClear | AndClearAll | OrClearAll

definition EventFlagWaitMode_stable_tag :: "EventFlagWaitMode \<Rightarrow> u8" where
  "EventFlagWaitMode_stable_tag m =
     (case m of AndNoClear \<Rightarrow> 0 | AndClear \<Rightarrow> 1 | OrNoClear \<Rightarrow> 2 | OrClear \<Rightarrow> 3
      | AndClearAll \<Rightarrow> 4 | OrClearAll \<Rightarrow> 5)"

datatype GuestBlockReason =
    WaitingOnJoin PpuThreadId
  | WaitingOnLwMutex u32
  | WaitingOnMutex u32
  | WaitingOnSemaphore u32
  | WaitingOnEventQueue u32
  | WaitingOnEventFlag u32 u64 EventFlagWaitMode
  | WaitingOnCond u32 u32

definition GuestBlockReason_stable_tag :: "GuestBlockReason \<Rightarrow> u8" where
  "GuestBlockReason_stable_tag r =
     (case r of
        WaitingOnJoin _ \<Rightarrow> 1
      | WaitingOnLwMutex _ \<Rightarrow> 2
      | WaitingOnMutex _ \<Rightarrow> 3
      | WaitingOnSemaphore _ \<Rightarrow> 4
      | WaitingOnEventQueue _ \<Rightarrow> 5
      | WaitingOnEventFlag _ _ _ \<Rightarrow> 6
      | WaitingOnCond _ _ \<Rightarrow> 7)"

definition BLOCK_REASON_PAYLOAD_WIDTH :: nat where "BLOCK_REASON_PAYLOAD_WIDTH = 24"

definition block_reason_payload :: "GuestBlockReason \<Rightarrow> bytes" where
  "block_reason_payload r =
     (let p = replicate BLOCK_REASON_PAYLOAD_WIDTH 0 in
      case r of
        WaitingOnJoin target \<Rightarrow> splice 0 (to_le 8 (PpuThreadId_raw target)) p
      | WaitingOnLwMutex i \<Rightarrow> splice 0 (to_le 4 i) p
      | WaitingOnMutex i \<Rightarrow> splice 0 (to_le 4 i) p
      | WaitingOnSemaphore i \<Rightarrow> splice 0 (to_le 4 i) p
      | WaitingOnEventQueue i \<Rightarrow> splice 0 (to_le 4 i) p
      | WaitingOnEventFlag i msk mode \<Rightarrow>
          (splice 4 (to_le 8 msk) (splice 0 (to_le 4 i) p))[12 := EventFlagWaitMode_stable_tag mode]
      | WaitingOnCond cond_id mutex_id \<Rightarrow> splice 4 (to_le 4 mutex_id) (splice 0 (to_le 4 cond_id) p))"

text \<open>The tag and the payload determine the reason.\<close>

lemma slice_block_reason_payload:
  "slice 0 8 (block_reason_payload (WaitingOnJoin t)) = to_le 8 (PpuThreadId_raw t)"
  "slice 0 4 (block_reason_payload (WaitingOnLwMutex i)) = to_le 4 i"
  "slice 0 4 (block_reason_payload (WaitingOnMutex i)) = to_le 4 i"
  "slice 0 4 (block_reason_payload (WaitingOnSemaphore i)) = to_le 4 i"
  "slice 0 4 (block_reason_payload (WaitingOnEventQueue i)) = to_le 4 i"
  "slice 0 4 (block_reason_payload (WaitingOnEventFlag i m mode)) = to_le 4 i"
  "slice 4 8 (block_reason_payload (WaitingOnEventFlag i m mode)) = to_le 8 m"
  "block_reason_payload (WaitingOnEventFlag i m mode) ! 12 = EventFlagWaitMode_stable_tag mode"
  "slice 0 4 (block_reason_payload (WaitingOnCond i j)) = to_le 4 i"
  "slice 4 4 (block_reason_payload (WaitingOnCond i j)) = to_le 4 j"
  by (auto simp: block_reason_payload_def BLOCK_REASON_PAYLOAD_WIDTH_def Let_def nth_splice
           intro!: nth_equalityI)

lemma EventFlagWaitMode_stable_tag_inj:
  "EventFlagWaitMode_stable_tag m = EventFlagWaitMode_stable_tag n \<Longrightarrow> m = n"
  by (cases m; cases n) (simp_all add: EventFlagWaitMode_stable_tag_def)

lemma to_le_inj: "LENGTH('a) \<le> 8 * n \<Longrightarrow> to_le n v = to_le n (w :: 'a::len word) \<Longrightarrow> v = w"
  by (metis from_le_to_le)

lemma block_reason_payload_inj:
  assumes "GuestBlockReason_stable_tag r = GuestBlockReason_stable_tag s"
    and p: "block_reason_payload r = block_reason_payload s"
  shows "r = s"
proof -
  have s: "slice i n (block_reason_payload r) = slice i n (block_reason_payload s)"
      "block_reason_payload r ! i = block_reason_payload s ! i" for i n
    by (simp_all add: p)
  show ?thesis
    using assms(1) s(1) [of 0 4] s(1) [of 0 8] s(1) [of 4 8] s(1) [of 4 4] s(2) [of 12]
    by (cases r; cases s)
       (auto simp: GuestBlockReason_stable_tag_def slice_block_reason_payload PpuThreadId.expand
             dest!: to_le_inj [rotated] EventFlagWaitMode_stable_tag_inj)
qed

end
