(* ===== verification/Waiters.thy ===== *)
theory Waiters
  imports Block_Reason
begin

text \<open>
  What the tables of LV2 synchronisation objects share: \<^verbatim>\<open>sync_primitives/waiter_list.rs\<close>, the error
  values of \<^verbatim>\<open>errors.rs\<close>, a use of the guard that \<^verbatim>\<open>get_mut\<close> returns, and the contract of a
  table whose entries park threads, with what it gives for every such table.
\<close>

section \<open>The waiter list\<close>

datatype DuplicateEnqueue = DuplicateEnqueue PpuThreadId

datatype IdCollision = IdCollision u32

type_synonym WaiterList = "PpuThreadId list"

definition WaiterList_new :: WaiterList where
  "WaiterList_new = []"

definition WaiterList_enqueue :: "PpuThreadId \<Rightarrow> WaiterList \<Rightarrow> (DuplicateEnqueue + unit) \<times> WaiterList" where
  "WaiterList_enqueue i w =
     (if list_ex (\<lambda>existing. existing = i) w then (Inl (DuplicateEnqueue i), w)
      else (Inr (), w @ [i]))"

definition WaiterList_dequeue_one :: "WaiterList \<Rightarrow> PpuThreadId option \<times> WaiterList" where
  "WaiterList_dequeue_one w = (case w of [] \<Rightarrow> (None, []) | i # rest \<Rightarrow> (Some i, rest))"

definition WaiterList_drain_all :: "WaiterList \<Rightarrow> PpuThreadId list \<times> WaiterList" where
  "WaiterList_drain_all w = (w, [])"

definition WaiterList_contains :: "WaiterList \<Rightarrow> PpuThreadId \<Rightarrow> bool" where
  "WaiterList_contains w i = list_ex (\<lambda>existing. existing = i) w"

text \<open>\<^verbatim>\<open>retain\<close> with a closure that pushes each dropped id.\<close>

fun remove_set_loop :: "PpuThreadId set \<Rightarrow> PpuThreadId list \<Rightarrow> WaiterList \<Rightarrow> PpuThreadId list \<times> WaiterList" where
  "remove_set_loop threads removed [] = (removed, [])"
| "remove_set_loop threads removed (i # w) =
     (if i \<in> threads then remove_set_loop threads (removed @ [i]) w
      else let (removed, w') = remove_set_loop threads removed w in (removed, i # w'))"

definition WaiterList_remove_set :: "PpuThreadId set \<Rightarrow> WaiterList \<Rightarrow> PpuThreadId list \<times> WaiterList" where
  "WaiterList_remove_set threads w = remove_set_loop threads [] w"

definition WaiterList_remove :: "PpuThreadId \<Rightarrow> WaiterList \<Rightarrow> bool \<times> WaiterList" where
  "WaiterList_remove i w =
     (case list_position (\<lambda>existing. existing = i) w of
        Some pos \<Rightarrow> (True, remove_at pos w)
      | None \<Rightarrow> (False, w))"

definition WaiterList_len :: "WaiterList \<Rightarrow> usize" where
  "WaiterList_len w = length w"

definition WaiterList_is_empty :: "WaiterList \<Rightarrow> bool" where
  "WaiterList_is_empty w \<longleftrightarrow> w = []"

definition WaiterList_iter :: "WaiterList \<Rightarrow> PpuThreadId list" where
  "WaiterList_iter w = w"

fun slot_lanes :: "u8 \<Rightarrow> u64 \<Rightarrow> u64 list \<Rightarrow> ObjectLanes \<Rightarrow> ObjectLanes" where
  "slot_lanes field slot [] lanes = lanes"
| "slot_lanes field slot (v # vs) lanes = slot_lanes field (slot + 1) vs (ObjectLanes_lane field slot v lanes)"

definition WaiterList_push_lanes :: "WaiterList \<Rightarrow> u8 \<Rightarrow> ObjectLanes \<Rightarrow> u8 \<times> ObjectLanes" where
  "WaiterList_push_lanes w field lanes =
     (field + 2,
      slot_lanes (field + 1) 0 (map PpuThreadId_raw w) (ObjectLanes_lane field 0 (of_nat (length w)) lanes))"

lemma remove_set_loop_eq:
  "remove_set_loop T r w = (r @ filter (\<lambda>i. i \<in> T) w, filter (\<lambda>i. i \<notin> T) w)"
  by (induction T r w rule: remove_set_loop.induct) auto

lemma WaiterList_remove_set_eq:
  "WaiterList_remove_set T w = (filter (\<lambda>i. i \<in> T) w, filter (\<lambda>i. i \<notin> T) w)"
  by (simp add: WaiterList_remove_set_def remove_set_loop_eq)

lemma WaiterList_contains_iff [simp]: "WaiterList_contains w i \<longleftrightarrow> i \<in> set w"
  by (auto simp: WaiterList_contains_def list_ex_iff)

lemma WaiterList_enqueue_eq:
  "WaiterList_enqueue i w = (if i \<in> set w then (Inl (DuplicateEnqueue i), w) else (Inr (), w @ [i]))"
  by (auto simp: WaiterList_enqueue_def list_ex_iff)

lemma position_None_iff: "list_position P xs = None \<longleftrightarrow> (\<forall>x \<in> set xs. \<not> P x)"
  by (induction xs) auto

lemma position_SomeD:
  "list_position P xs = Some i \<Longrightarrow> i < length xs \<and> P (xs ! i) \<and> (\<forall>j < i. \<not> P (xs ! j))"
proof (induction xs arbitrary: i)
  case (Cons x xs)
  show ?case
  proof (cases "P x")
    case False
    then obtain j where "i = Suc j" "list_position P xs = Some j" using Cons.prems by auto
    with Cons.IH False show ?thesis by (auto simp: nth_Cons split: nat.splits)
  qed (use Cons.prems in auto)
qed simp

text \<open>Where the keys are distinct, removing at the first hit filters it out.\<close>

lemma remove_at_position:
  assumes "distinct (map f xs)" and "list_position (\<lambda>x. f x = k) xs = Some i"
  shows "remove_at i xs = filter (\<lambda>x. f x \<noteq> k) xs" and "f (xs ! i) = k" and "i < length xs"
proof -
  have "distinct (map f xs) \<Longrightarrow> list_position (\<lambda>x. f x = k) xs = Some i \<Longrightarrow>
      remove_at i xs = filter (\<lambda>x. f x \<noteq> k) xs"
  proof (induction xs arbitrary: i)
    case (Cons x xs)
    show ?case
    proof (cases "f x = k")
      case True
      then have "\<forall>y \<in> set xs. f y \<noteq> k" using Cons.prems(1) by (auto simp: image_iff)
      with True Cons.prems(2) show ?thesis by (auto simp: remove_at_def)
    qed (use Cons in \<open>auto simp: remove_at_def\<close>)
  qed simp
  then show "remove_at i xs = filter (\<lambda>x. f x \<noteq> k) xs" using assms by simp
  show "f (xs ! i) = k" "i < length xs" using position_SomeD [OF assms(2)] by simp_all
qed

lemma WaiterList_remove_eq:
  assumes "distinct w"
  shows "WaiterList_remove i w = (i \<in> set w, filter (\<lambda>j. j \<noteq> i) w)"
proof (cases "list_position (\<lambda>j. j = i) w")
  case None
  then have "i \<notin> set w" by (auto simp: position_None_iff)
  then have "filter (\<lambda>j. j \<noteq> i) w = w" by (intro filter_True) auto
  then show ?thesis using None \<open>i \<notin> set w\<close> by (simp add: WaiterList_remove_def)
next
  case (Some p)
  then show ?thesis
    using remove_at_position [where f = "\<lambda>j. j" and xs = w and k = i and i = p] assms
    by (auto simp: WaiterList_remove_def)
qed

section \<open>A use of the guard\<close>

text \<open>
  The body of an operation on one entry: \<^verbatim>\<open>get_mut\<close>, an early return with \<open>unknown\<close> when the
  id has no entry, the changes of \<open>body\<close> through the guard, and the guard's drop.
\<close>

definition LaneMap_with ::
    "'v lane_value \<Rightarrow> 'k \<Rightarrow> 'r \<Rightarrow> ('v \<Rightarrow> 'r \<times> 'v) \<Rightarrow> ('k::linorder, 'v) LaneMap \<Rightarrow> 'r \<times> ('k, 'v) LaneMap" where
  "LaneMap_with lv key unknown body m =
     (case LaneMap_get_mut lv key m of
        None \<Rightarrow> (unknown, m)
      | Some (m', g) \<Rightarrow>
          (let (r, v) = body (guard_value g)
           in (r, LaneEntryMut_drop lv (m', g\<lparr>guard_value := v\<rparr>))))"

lemma LaneMap_with_modify:
  "LaneMap_with lv k unknown body m =
     (case LaneMap_get m k of
        None \<Rightarrow> (unknown, m)
      | Some v \<Rightarrow> (fst (body v), the (LaneMap_modify lv k (snd \<circ> body) m)))"
  by (auto simp: LaneMap_with_def LaneMap_get_def LaneMap_modify_def LaneMap_get_mut_def Let_def
           split: option.split prod.split)

lemma LaneMap_with_result:
  "fst (LaneMap_with lv k unknown body m) = (case LaneMap_get m k of None \<Rightarrow> unknown | Some v \<Rightarrow> fst (body v))"
  by (simp add: LaneMap_with_modify split: option.split)

lemma LaneMap_modify_Some: "LaneMap_get m k = Some v \<Longrightarrow> \<exists>m'. LaneMap_modify lv k f m = Some m'"
  by (simp add: LaneMap_modify_eq LaneMap_get_def)

lemma lm_inv_with [inv_intros]:
  assumes "lm_inv lv m"
  shows "lm_inv lv (snd (LaneMap_with lv k unknown body m))"
proof (cases "LaneMap_get m k")
  case (Some v)
  obtain m' where "LaneMap_modify lv k (snd \<circ> body) m = Some m'" using LaneMap_modify_Some [OF Some] by blast
  with assms Some show ?thesis by (simp add: LaneMap_with_modify lm_inv_modify)
qed (use assms in \<open>simp add: LaneMap_with_modify\<close>)

lemma lm_inv_wf: "lm_inv lv m \<Longrightarrow> btree_wf (lm_entries m)"
  by (simp add: lm_inv_def)

text \<open>The lookups after each operation, as updates of the lookup function.\<close>

lemma LaneMap_get_with:
  assumes "lm_inv lv m"
  shows "LaneMap_get (snd (LaneMap_with lv k unknown body m)) =
    (LaneMap_get m)(k := map_option (snd \<circ> body) (LaneMap_get m k))"
  using lm_inv_wf [OF assms]
  by (auto simp: LaneMap_with_modify LaneMap_modify_eq LaneMap_get_def [abs_def] btree_get_insert fun_eq_iff
           split: option.split)

lemma LaneMap_get_insert:
  "lm_inv lv m \<Longrightarrow> LaneMap_get (snd (LaneMap_insert lv k v m)) = (LaneMap_get m)(k \<mapsto> v)"
  by (simp add: LaneMap_get_def [abs_def] lm.get_insert)

lemma LaneMap_get_remove:
  "lm_inv lv m \<Longrightarrow> LaneMap_get (snd (LaneMap_remove lv k m)) = (LaneMap_get m)(k := None)"
  by (simp add: LaneMap_get_def [abs_def] lm.get_remove)

lemma LaneMap_remove_result: "fst (LaneMap_remove lv k m) = LaneMap_get m k"
  by (auto simp: LaneMap_remove_def LaneMap_get_def split: option.split)

lemma LaneMap_get_new [simp]: "LaneMap_get (LaneMap_new src f) = Map.empty"
  by (simp add: fun_eq_iff LaneMap_get_def LaneMap_new_def LaneMap_with_object_def)

lemma LaneMap_contains_key_get: "LaneMap_contains_key m k \<longleftrightarrow> LaneMap_get m k \<noteq> None"
  by (simp add: LaneMap_contains_key_def LaneMap_get_def btree_contains_def)

text \<open>A loop over every entry, whose closure also appends to a list.\<close>

lemma retain_loop_collect:
  fixes lv sh f g p acc es
  defines "L \<equiv> retain_loop lv sh (\<lambda>acc k v. (True, f k v, acc @ g k v)) es p acc"
  shows "fst L = map (\<lambda>(k, v). (k, f k v)) es" and "snd (snd L) = acc @ concat (map (\<lambda>(k, v). g k v) es)"
  unfolding L_def by (induction es arbitrary: p acc) (auto simp: Let_def case_prod_beta)

lemma map_of_map_values: "map_of (map (\<lambda>(k, v). (k, f k v)) es) = (\<lambda>k. map_option (f k) (map_of es k))"
  by (induction es) (auto simp: fun_eq_iff)

lemma LaneMap_for_each_collect:
  assumes "LaneMap_for_each_mut lv (\<lambda>acc k v. (f k v, acc @ g k v)) m [] = (m', out)"
  shows "lm_entries m' = map (\<lambda>(k, v). (k, f k v)) (lm_entries m)"
    and "out = concat (map (\<lambda>(k, v). g k v) (lm_entries m))"
    and "LaneMap_get m' = (\<lambda>k. map_option (f k) (LaneMap_get m k))"
proof -
  show *: "lm_entries m' = map (\<lambda>(k, v). (k, f k v)) (lm_entries m)"
    and "out = concat (map (\<lambda>(k, v). g k v) (lm_entries m))"
    using assms retain_loop_collect [of lv "lm_shape m" f g "lm_entries m" "lm_partial m" "[]"]
    by (auto simp: LaneMap_for_each_mut_def LaneMap_retain_def split: prod.splits)
  then show "LaneMap_get m' = (\<lambda>k. map_option (f k) (LaneMap_get m k))"
    by (simp add: LaneMap_get_def [abs_def] map_of_map_values)
qed

section \<open>Tables whose entries park threads\<close>

text \<open>The map is consistent with its partial and every entry satisfies \<open>P\<close>.\<close>

definition entries_ok :: "'e lane_value \<Rightarrow> ('e \<Rightarrow> bool) \<Rightarrow> ('k::linorder, 'e) LaneMap \<Rightarrow> bool" where
  "entries_ok lv P m \<longleftrightarrow> lm_inv lv m \<and> (\<forall>k e. LaneMap_get m k = Some e \<longrightarrow> P e)"

lemma entries_ok_new: "entries_ok lv P (LaneMap_new src f)"
  by (simp add: entries_ok_def inv_intros)

lemma entries_ok_get: "entries_ok lv P m \<Longrightarrow> LaneMap_get m k = Some e \<Longrightarrow> P e"
  by (simp add: entries_ok_def)

lemma entries_ok_insert:
  "entries_ok lv P m \<Longrightarrow> P e \<Longrightarrow> entries_ok lv P (snd (LaneMap_insert lv k e m))"
  by (auto simp: entries_ok_def inv_intros LaneMap_get_insert split: if_splits)

lemma entries_ok_remove: "entries_ok lv P m \<Longrightarrow> entries_ok lv P (snd (LaneMap_remove lv k m))"
  by (auto simp: entries_ok_def inv_intros LaneMap_get_remove split: if_splits)

lemma entries_ok_with:
  assumes "entries_ok lv P m"
    and "\<And>e. LaneMap_get m k = Some e \<Longrightarrow> P e \<Longrightarrow> P (snd (body e))"
  shows "entries_ok lv P (snd (LaneMap_with lv k unknown body m))"
  using assms by (auto simp: entries_ok_def inv_intros LaneMap_get_with split: if_splits)

lemma entries_ok_for_each:
  assumes "entries_ok lv P m" and "\<And>k e. P e \<Longrightarrow> P (f k e)"
  shows "entries_ok lv P (fst (LaneMap_for_each_mut lv (\<lambda>acc k v. (f k v, acc @ g k v)) m []))"
proof -
  obtain m' out where L: "LaneMap_for_each_mut lv (\<lambda>acc k v. (f k v, acc @ g k v)) m [] = (m', out)"
    by (cases "LaneMap_for_each_mut lv (\<lambda>acc k v. (f k v, acc @ g k v)) m []")
  have "lm_inv lv m'"
    using assms(1) lm_inv_for_each_mut [of lv m "\<lambda>acc k v. (f k v, acc @ g k v)" "[]"]
    by (simp add: entries_ok_def L)
  with assms LaneMap_for_each_collect(3) [OF L] show ?thesis
    by (auto simp: entries_ok_def L)
qed

text \<open>
  \<open>parks_distinct\<close>: no entry parks a thread twice. It is over the way an entry stores its
  waiters, which is what a table provides: a list of records, each naming a thread, that the
  operations replace.
\<close>

abbreviation parks_distinct ::
    "'e lane_value \<Rightarrow> ('e \<Rightarrow> 'w list) \<Rightarrow> ('w \<Rightarrow> PpuThreadId) \<Rightarrow> ('k::linorder, 'e) LaneMap \<Rightarrow> bool" where
  "parks_distinct lv parked thread m \<equiv> entries_ok lv (\<lambda>e. distinct (map thread (parked e))) m"

text \<open>The process-exit purge, as every table writes it.\<close>

definition purge_closure ::
    "('e \<Rightarrow> 'w list) \<Rightarrow> ('w list \<Rightarrow> 'e \<Rightarrow> 'e) \<Rightarrow> ('w \<Rightarrow> PpuThreadId) \<Rightarrow> PpuThreadId set \<Rightarrow>
      ('k \<times> PpuThreadId) list \<Rightarrow> 'k \<Rightarrow> 'e \<Rightarrow> 'e \<times> ('k \<times> PpuThreadId) list" where
  "purge_closure parked with_parked thread threads removed k e =
     (with_parked (filter (\<lambda>w. thread w \<notin> threads) (parked e)) e,
      removed @ map (\<lambda>w. (k, thread w)) (filter (\<lambda>w. thread w \<in> threads) (parked e)))"

text \<open>\<^verbatim>\<open>retain\<close> over the waiters of one entry, pushing the pairs it drops.\<close>

fun purge_waiters :: "('w \<Rightarrow> PpuThreadId) \<Rightarrow> PpuThreadId set \<Rightarrow> 'k \<Rightarrow> ('k \<times> PpuThreadId) list \<Rightarrow> 'w list \<Rightarrow>
    ('k \<times> PpuThreadId) list \<times> 'w list" where
  "purge_waiters thread threads i removed [] = (removed, [])"
| "purge_waiters thread threads i removed (w # ws) =
     (if thread w \<in> threads then purge_waiters thread threads i (removed @ [(i, thread w)]) ws
      else let (removed, ws) = purge_waiters thread threads i removed ws in (removed, w # ws))"

lemma purge_waiters_eq:
  "purge_waiters thread T i removed ws =
     (removed @ map (\<lambda>w. (i, thread w)) (filter (\<lambda>w. thread w \<in> T) ws), filter (\<lambda>w. thread w \<notin> T) ws)"
  by (induction thread T i removed ws rule: purge_waiters.induct) auto

lemma purge_waiters_closure:
  "(\<lambda>removed i e. let (removed, ws) = purge_waiters thread threads i removed (waiters e) in (put ws e, removed)) =
   purge_closure waiters put thread threads"
  by (simp add: fun_eq_iff purge_closure_def purge_waiters_eq)

lemma remove_set_closure:
  "(\<lambda>removed i e. let (gone, ws) = WaiterList_remove_set threads (waiters e)
                  in (put ws e, removed @ map (Pair i) gone)) =
   purge_closure waiters put (\<lambda>t. t) threads"
  by (simp add: fun_eq_iff purge_closure_def WaiterList_remove_set_eq)

locale parking =
  fixes lv :: "'e lane_value"
    and parked :: "'e \<Rightarrow> 'w list"
    and with_parked :: "'w list \<Rightarrow> 'e \<Rightarrow> 'e"
    and thread :: "'w \<Rightarrow> PpuThreadId"
  assumes parked_with: "parked (with_parked ws e) = ws"
begin

text \<open>
  A purge takes exactly the purged threads out of every entry, keeps the order of the
  others and changes nothing else; it returns each removed waiter once, in table order.
\<close>

lemma purge_get:
  assumes "LaneMap_for_each_mut lv (purge_closure parked with_parked thread T) m [] = (m', out)"
  shows "LaneMap_get m' k = map_option (\<lambda>e. with_parked (filter (\<lambda>w. thread w \<notin> T) (parked e)) e) (LaneMap_get m k)"
    and "out = concat (map (\<lambda>(k, e). map (\<lambda>w. (k, thread w)) (filter (\<lambda>w. thread w \<in> T) (parked e))) (lm_entries m))"
  using LaneMap_for_each_collect
    [OF assms [unfolded purge_closure_def [abs_def]]] by simp_all

lemma purge_ok:
  assumes "entries_ok lv P m" and "\<And>e. P e \<Longrightarrow> P (with_parked (filter (\<lambda>w. thread w \<notin> T) (parked e)) e)"
  shows "entries_ok lv P (fst (LaneMap_for_each_mut lv (purge_closure parked with_parked thread T) m []))"
  unfolding purge_closure_def [abs_def] using assms by (rule entries_ok_for_each)

lemma purge_inv:
  assumes "parks_distinct lv parked thread m"
  shows "parks_distinct lv parked thread (fst (LaneMap_for_each_mut lv (purge_closure parked with_parked thread T) m []))"
  using assms by (rule purge_ok) (simp add: parked_with distinct_map_filter)

lemma purge_none_left:
  assumes "LaneMap_for_each_mut lv (purge_closure parked with_parked thread T) m [] = (m', out)"
    and "LaneMap_get m' k = Some e" and "w \<in> set (parked e)"
  shows "thread w \<notin> T"
  using assms(2,3) by (auto simp: purge_get [OF assms(1)] parked_with)

lemma purge_reported:
  assumes "LaneMap_for_each_mut lv (purge_closure parked with_parked thread T) m [] = (m', out)"
    and "lm_inv lv m"
  shows "(k, t) \<in> set out \<longleftrightarrow> t \<in> T \<and> (\<exists>e. LaneMap_get m k = Some e \<and> t \<in> thread ` set (parked e))"
  using lm_inv_wf [OF assms(2)]
  by (auto simp: purge_get [OF assms(1)] LaneMap_get_def btree_mem_iff [symmetric] split: prod.splits)

end

end
