(* ===== verification/Lv2_Mutex.thy ===== *)
theory Lv2_Mutex
  imports Waiters
begin

text \<open>
  \<^verbatim>\<open>sync_primitives/mutex.rs\<close> and \<^verbatim>\<open>lwmutex.rs\<close>: the table of heavy mutexes, with ownership,
  recursion and hand-off to the head waiter, and the table of lightweight mutexes, the kernel
  side of which is a flag and a sleep queue.
\<close>

section \<open>Heavy mutexes\<close>

datatype MutexAcquire = Acquired | Contended

datatype MutexAcquireOrEnqueue =
  MAE_Acquired | MAE_Enqueued | MAE_Recursed | MAE_CountSaturated | MAE_WouldDeadlock | MAE_Unknown

datatype MutexRelease = Freed | Transferred PpuThreadId | NotOwner | MR_Unknown

datatype MutexCreateError = MutexCreateError_IdCollision IdCollision

datatype MutexEnqueueError = MEE_UnknownId | MEE_DuplicateWaiter | MEE_WaiterIsOwner

record MutexAttrs =
  ma_priority_policy :: u32
  ma_recursive :: bool
  ma_protocol :: u32
  ma_process_shared :: bool

record MutexEntry =
  me_owner :: "PpuThreadId option"
  me_waiters :: WaiterList
  me_attrs :: MutexAttrs
  me_lock_count :: u32
  me_live_conds :: u32
  me_retains_cond_binding :: bool

definition MutexEntry_new :: "MutexAttrs \<Rightarrow> MutexEntry" where
  "MutexEntry_new attrs = \<lparr>me_owner = None, me_waiters = WaiterList_new, me_attrs = attrs,
     me_lock_count = 0, me_live_conds = 0, me_retains_cond_binding = False\<rparr>"

definition MutexEntry_has_cond_binding :: "MutexEntry \<Rightarrow> bool" where
  "MutexEntry_has_cond_binding e \<longleftrightarrow> me_live_conds e > 0 \<or> me_retains_cond_binding e"

record MutexTable =
  mt_entries :: "(u32, MutexEntry) LaneMap"
  mt_recursion_discards_count :: u64

definition MutexTable_new :: MutexTable where
  "MutexTable_new = \<lparr>mt_entries = LaneMap_new source_MUTEX ucast, mt_recursion_discards_count = 0\<rparr>"

definition MutexEntry_lanes :: "MutexEntry lane_value" where
  "MutexEntry_lanes e lanes =
     (let lanes = ObjectLanes_lane 1 0 (of_bool (me_owner e \<noteq> None)) lanes;
          lanes = ObjectLanes_lane 2 0 (case me_owner e of None \<Rightarrow> 0 | Some owner \<Rightarrow> PpuThreadId_raw owner) lanes;
          lanes = ObjectLanes_lane 3 0 (ucast (me_lock_count e)) lanes;
          lanes = ObjectLanes_lane 4 0 (ucast (ma_priority_policy (me_attrs e))) lanes;
          lanes = ObjectLanes_lane 5 0 (of_bool (ma_recursive (me_attrs e))) lanes;
          lanes = ObjectLanes_lane 6 0 (ucast (ma_protocol (me_attrs e))) lanes;
          (next_field, lanes) = WaiterList_push_lanes (me_waiters e) 7 lanes;
          lanes = ObjectLanes_lane next_field 0 (of_bool (ma_process_shared (me_attrs e))) lanes;
          lanes = ObjectLanes_lane (next_field + 1) 0 (ucast (me_live_conds e)) lanes
      in ObjectLanes_lane (next_field + 2) 0 (of_bool (me_retains_cond_binding e)) lanes)"

definition MutexTable_create_with_id ::
    "u32 \<Rightarrow> MutexAttrs \<Rightarrow> MutexTable \<Rightarrow> (MutexCreateError + unit) \<times> MutexTable" where
  "MutexTable_create_with_id i attrs t =
     (if LaneMap_get (mt_entries t) i \<noteq> None then (Inl (MutexCreateError_IdCollision (IdCollision i)), t)
      else (Inr (), t\<lparr>mt_entries := snd (LaneMap_insert MutexEntry_lanes i (MutexEntry_new attrs) (mt_entries t))\<rparr>))"

definition MutexTable_destroy :: "u32 \<Rightarrow> MutexTable \<Rightarrow> MutexEntry option \<times> MutexTable" where
  "MutexTable_destroy i t =
     (let (removed, es) = LaneMap_remove MutexEntry_lanes i (mt_entries t)
      in (removed, t\<lparr>mt_entries := es\<rparr>))"

definition MutexTable_destroy_abandoned :: "u32 \<Rightarrow> MutexTable \<Rightarrow> MutexEntry option \<times> MutexTable" where
  "MutexTable_destroy_abandoned i t =
     (let (removed, es) = LaneMap_remove MutexEntry_lanes i (mt_entries t)
      in (removed, t\<lparr>mt_entries := es\<rparr>))"

text \<open>Every operation on one entry goes through the guard.\<close>

definition on_mutex :: "u32 \<Rightarrow> 'r \<Rightarrow> (MutexEntry \<Rightarrow> 'r \<times> MutexEntry) \<Rightarrow> MutexTable \<Rightarrow> 'r \<times> MutexTable" where
  "on_mutex i unknown body t =
     (let (r, es) = LaneMap_with MutexEntry_lanes i unknown body (mt_entries t)
      in (r, t\<lparr>mt_entries := es\<rparr>))"

definition MutexTable_bind_cond :: "u32 \<Rightarrow> bool \<Rightarrow> MutexTable \<Rightarrow> bool \<times> MutexTable" where
  "MutexTable_bind_cond i cond_process_shared =
     on_mutex i False (\<lambda>e.
       let e = e\<lparr>me_live_conds := saturating_add (me_live_conds e) 1\<rparr>
       in (True, if ma_process_shared (me_attrs e) \<and> \<not> cond_process_shared
                 then e\<lparr>me_retains_cond_binding := True\<rparr> else e))"

definition MutexTable_unbind_cond :: "u32 \<Rightarrow> MutexTable \<Rightarrow> bool \<times> MutexTable" where
  "MutexTable_unbind_cond i =
     on_mutex i False (\<lambda>e.
       case checked_sub (me_live_conds e) 1 of
         None \<Rightarrow> (False, e)
       | Some live \<Rightarrow> (True, e\<lparr>me_live_conds := live\<rparr>))"

definition MutexTable_lookup :: "MutexTable \<Rightarrow> u32 \<Rightarrow> MutexEntry option" where
  "MutexTable_lookup t i = LaneMap_get (mt_entries t) i"

definition MutexTable_len :: "MutexTable \<Rightarrow> usize" where
  "MutexTable_len t = LaneMap_len (mt_entries t)"

definition MutexTable_is_empty :: "MutexTable \<Rightarrow> bool" where
  "MutexTable_is_empty t = LaneMap_is_empty (mt_entries t)"

definition MutexTable_try_acquire :: "u32 \<Rightarrow> PpuThreadId \<Rightarrow> MutexTable \<Rightarrow> MutexAcquire option \<times> MutexTable" where
  "MutexTable_try_acquire i caller =
     on_mutex i None (\<lambda>e.
       if me_owner e = None then (Some Acquired, e\<lparr>me_owner := Some caller\<rparr>) else (Some Contended, e))"

definition MutexTable_acquire_or_enqueue ::
    "u32 \<Rightarrow> PpuThreadId \<Rightarrow> MutexTable \<Rightarrow> MutexAcquireOrEnqueue \<times> MutexTable" where
  "MutexTable_acquire_or_enqueue i caller =
     on_mutex i MAE_Unknown (\<lambda>e.
       case me_owner e of
         None \<Rightarrow> (MAE_Acquired, e\<lparr>me_owner := Some caller\<rparr>)
       | Some owner \<Rightarrow>
           if owner = caller
           then if ma_recursive (me_attrs e)
                then case checked_add (me_lock_count e) 1 of
                       Some next_count \<Rightarrow> (MAE_Recursed, e\<lparr>me_lock_count := next_count\<rparr>)
                     | None \<Rightarrow> (MAE_CountSaturated, e)
                else (MAE_WouldDeadlock, e)
           else if WaiterList_contains (me_waiters e) caller then (MAE_WouldDeadlock, e)
           else (MAE_Enqueued, e\<lparr>me_waiters := snd (WaiterList_enqueue caller (me_waiters e))\<rparr>))"

definition MutexTable_enqueue_waiter ::
    "u32 \<Rightarrow> PpuThreadId \<Rightarrow> MutexTable \<Rightarrow> (MutexEnqueueError + unit) \<times> MutexTable" where
  "MutexTable_enqueue_waiter i waiter =
     on_mutex i (Inl MEE_UnknownId) (\<lambda>e.
       if me_owner e = Some waiter then (Inl MEE_WaiterIsOwner, e)
       else case WaiterList_enqueue waiter (me_waiters e) of
              (Inl _, ws) \<Rightarrow> (Inl MEE_DuplicateWaiter, e\<lparr>me_waiters := ws\<rparr>)
            | (Inr _, ws) \<Rightarrow> (Inr (), e\<lparr>me_waiters := ws\<rparr>))"

definition MutexTable_remove_waiter :: "u32 \<Rightarrow> PpuThreadId \<Rightarrow> MutexTable \<Rightarrow> bool \<times> MutexTable" where
  "MutexTable_remove_waiter i waiter =
     on_mutex i False (\<lambda>e.
       let (found, ws) = WaiterList_remove waiter (me_waiters e) in (found, e\<lparr>me_waiters := ws\<rparr>))"

definition MutexTable_purge_waiters_of ::
    "PpuThreadId set \<Rightarrow> MutexTable \<Rightarrow> (u32 \<times> PpuThreadId) list \<times> MutexTable" where
  "MutexTable_purge_waiters_of threads t =
     (let (es, removed) = LaneMap_for_each_mut MutexEntry_lanes
            (\<lambda>removed i e. let (gone, ws) = WaiterList_remove_set threads (me_waiters e)
                           in (e\<lparr>me_waiters := ws\<rparr>, removed @ map (Pair i) gone))
            (mt_entries t) []
      in (removed, t\<lparr>mt_entries := es\<rparr>))"

definition MutexTable_ids_owned_by :: "MutexTable \<Rightarrow> PpuThreadId set \<Rightarrow> u32 list" where
  "MutexTable_ids_owned_by t threads =
     map fst (filter (\<lambda>(_, e). case me_owner e of None \<Rightarrow> False | Some o' \<Rightarrow> o' \<in> threads)
       (lm_entries (mt_entries t)))"

definition MutexTable_unlock_decrement :: "u32 \<Rightarrow> PpuThreadId \<Rightarrow> MutexTable \<Rightarrow> bool \<times> MutexTable" where
  "MutexTable_unlock_decrement i caller =
     on_mutex i False (\<lambda>e.
       if me_owner e \<noteq> Some caller \<or> me_lock_count e = 0 then (False, e)
       else (True, e\<lparr>me_lock_count := me_lock_count e - 1\<rparr>))"

text \<open>The release also counts, outside the entry, the holds it drops.\<close>

definition release_entry :: "PpuThreadId \<Rightarrow> MutexEntry \<Rightarrow> (MutexRelease \<times> bool) \<times> MutexEntry" where
  "release_entry caller e =
     (if me_owner e \<noteq> Some caller then ((NotOwner, False), e)
      else let discards = me_lock_count e \<noteq> 0;
               e = e\<lparr>me_lock_count := 0\<rparr>
           in case WaiterList_dequeue_one (me_waiters e) of
                (Some new_owner, ws) \<Rightarrow>
                  ((Transferred new_owner, discards), e\<lparr>me_waiters := ws, me_owner := Some new_owner\<rparr>)
              | (None, ws) \<Rightarrow> ((Freed, discards), e\<lparr>me_waiters := ws, me_owner := None\<rparr>))"

definition MutexTable_release_and_wake_next :: "u32 \<Rightarrow> PpuThreadId \<Rightarrow> MutexTable \<Rightarrow> MutexRelease \<times> MutexTable" where
  "MutexTable_release_and_wake_next i caller t =
     (let ((release, discards), t) = on_mutex i (MR_Unknown, False) (release_entry caller) t
      in (release, if discards then t\<lparr>mt_recursion_discards_count := mt_recursion_discards_count t + 1\<rparr> else t))"

definition MutexTable_sync_partial :: "MutexTable \<Rightarrow> u128" where
  "MutexTable_sync_partial t = lm_partial (mt_entries t)"

definition MutexTable_sync_partial_from_scratch :: "MutexTable \<Rightarrow> u128" where
  "MutexTable_sync_partial_from_scratch t = LaneMap_partial_from_scratch MutexEntry_lanes (mt_entries t)"

section \<open>Ownership\<close>

text \<open>
  A free mutex has no waiter and no recursive hold; an owned one does not park its owner;
  nobody is parked twice; only a recursive mutex counts holds.
\<close>

definition mutex_ok :: "MutexEntry \<Rightarrow> bool" where
  "mutex_ok e \<longleftrightarrow>
     distinct (me_waiters e) \<and>
     (case me_owner e of
        None \<Rightarrow> me_waiters e = [] \<and> me_lock_count e = 0
      | Some owner \<Rightarrow> owner \<notin> set (me_waiters e)) \<and>
     (me_lock_count e \<noteq> 0 \<longrightarrow> ma_recursive (me_attrs e))"

abbreviation mutexes_ok :: "MutexTable \<Rightarrow> bool" where
  "mutexes_ok t \<equiv> entries_ok MutexEntry_lanes mutex_ok (mt_entries t)"

text \<open>
  The states a table reaches. The low-level \<^verbatim>\<open>enqueue_waiter\<close> is called on the contended path
  of a cond wake, so on an owned mutex; the other operations are unrestricted.
\<close>

inductive mutex_reachable :: "MutexTable \<Rightarrow> bool" where
  "mutex_reachable MutexTable_new"
| "mutex_reachable t \<Longrightarrow> mutex_reachable (snd (MutexTable_create_with_id i attrs t))"
| "mutex_reachable t \<Longrightarrow> mutex_reachable (snd (MutexTable_destroy i t))"
| "mutex_reachable t \<Longrightarrow> mutex_reachable (snd (MutexTable_destroy_abandoned i t))"
| "mutex_reachable t \<Longrightarrow> mutex_reachable (snd (MutexTable_bind_cond i shared t))"
| "mutex_reachable t \<Longrightarrow> mutex_reachable (snd (MutexTable_unbind_cond i t))"
| "mutex_reachable t \<Longrightarrow> mutex_reachable (snd (MutexTable_try_acquire i c t))"
| "mutex_reachable t \<Longrightarrow> mutex_reachable (snd (MutexTable_acquire_or_enqueue i c t))"
| "mutex_reachable t \<Longrightarrow> MutexTable_lookup t i = Some e \<Longrightarrow> me_owner e \<noteq> None \<Longrightarrow>
     mutex_reachable (snd (MutexTable_enqueue_waiter i c t))"
| "mutex_reachable t \<Longrightarrow> mutex_reachable (snd (MutexTable_remove_waiter i c t))"
| "mutex_reachable t \<Longrightarrow> mutex_reachable (snd (MutexTable_purge_waiters_of threads t))"
| "mutex_reachable t \<Longrightarrow> mutex_reachable (snd (MutexTable_unlock_decrement i c t))"
| "mutex_reachable t \<Longrightarrow> mutex_reachable (snd (MutexTable_release_and_wake_next i c t))"

lemma on_mutex_entries: "mt_entries (snd (on_mutex i u b t)) = snd (LaneMap_with MutexEntry_lanes i u b (mt_entries t))"
  by (simp add: on_mutex_def case_prod_beta)

lemma on_mutex_result:
  "fst (on_mutex i u b t) = (case MutexTable_lookup t i of None \<Rightarrow> u | Some e \<Rightarrow> fst (b e))"
  by (simp add: on_mutex_def MutexTable_lookup_def LaneMap_with_result case_prod_beta)

lemma on_mutex_inv:
  "lm_inv MutexEntry_lanes (mt_entries t) \<Longrightarrow> lm_inv MutexEntry_lanes (mt_entries (snd (on_mutex i u b t)))"
  by (simp add: on_mutex_entries lm_inv_with)

lemma on_mutex_lookup:
  "lm_inv MutexEntry_lanes (mt_entries t) \<Longrightarrow>
   MutexTable_lookup (snd (on_mutex i u b t)) = (MutexTable_lookup t)(i := map_option (snd \<circ> b) (MutexTable_lookup t i))"
  by (simp add: MutexTable_lookup_def [abs_def] on_mutex_entries LaneMap_get_with)

lemma create_with_id_lookup:
  "lm_inv MutexEntry_lanes (mt_entries t) \<Longrightarrow> MutexTable_lookup t i = None \<Longrightarrow>
   MutexTable_lookup (snd (MutexTable_create_with_id i attrs t)) = (MutexTable_lookup t)(i \<mapsto> MutexEntry_new attrs)"
  "lm_inv MutexEntry_lanes (mt_entries t) \<Longrightarrow>
   lm_inv MutexEntry_lanes (mt_entries (snd (MutexTable_create_with_id i attrs t)))"
  by (simp_all add: MutexTable_lookup_def [abs_def] MutexTable_create_with_id_def LaneMap_get_insert lm_inv_insert)

lemma MutexTable_new_facts:
  "MutexTable_lookup MutexTable_new = Map.empty" "lm_inv MutexEntry_lanes (mt_entries MutexTable_new)"
  by (simp_all add: MutexTable_lookup_def [abs_def] MutexTable_new_def lm_inv_new)

lemmas mutex_lookups = on_mutex_inv on_mutex_lookup create_with_id_lookup MutexTable_new_facts

lemma mutexes_ok_on:
  assumes "mutexes_ok t" and "\<And>e. MutexTable_lookup t i = Some e \<Longrightarrow> mutex_ok e \<Longrightarrow> mutex_ok (snd (b e))"
  shows "mutexes_ok (snd (on_mutex i u b t))"
  unfolding on_mutex_entries using assms by (intro entries_ok_with) (auto simp: MutexTable_lookup_def)

lemma MutexTable_release_and_wake_next_entries:
  "mt_entries (snd (MutexTable_release_and_wake_next i c t)) =
     snd (LaneMap_with MutexEntry_lanes i (MR_Unknown, False) (release_entry c) (mt_entries t))"
  by (simp add: MutexTable_release_and_wake_next_def on_mutex_entries [symmetric] Let_def case_prod_beta)

lemma MutexTable_purge_eq:
  "MutexTable_purge_waiters_of threads t =
     (let (es, removed) = LaneMap_for_each_mut MutexEntry_lanes
            (purge_closure me_waiters (\<lambda>ws e. e\<lparr>me_waiters := ws\<rparr>) (\<lambda>t. t) threads) (mt_entries t) []
      in (removed, t\<lparr>mt_entries := es\<rparr>))"
  unfolding MutexTable_purge_waiters_of_def remove_set_closure ..

interpretation mutex_parking: parking MutexEntry_lanes me_waiters "\<lambda>ws e. e\<lparr>me_waiters := ws\<rparr>" "\<lambda>t. t"
  by unfold_locales simp

lemma mutex_ok_release: "mutex_ok e \<Longrightarrow> mutex_ok (snd (release_entry c e))"
  by (auto simp: mutex_ok_def release_entry_def WaiterList_dequeue_one_def Let_def
           split: list.splits option.splits)

lemma mutex_ok_ops:
  "mutex_ok (MutexEntry_new attrs)"
  "mutex_ok e \<Longrightarrow> me_owner e = None \<Longrightarrow> mutex_ok (e\<lparr>me_owner := Some c\<rparr>)"
  "mutex_ok e \<Longrightarrow> mutex_ok (e\<lparr>me_live_conds := n\<rparr>)"
  "mutex_ok e \<Longrightarrow> mutex_ok (e\<lparr>me_retains_cond_binding := b\<rparr>)"
  "mutex_ok e \<Longrightarrow> me_owner e = Some c \<Longrightarrow> ma_recursive (me_attrs e) \<Longrightarrow> mutex_ok (e\<lparr>me_lock_count := n\<rparr>)"
  "mutex_ok e \<Longrightarrow> me_lock_count e \<noteq> 0 \<Longrightarrow> mutex_ok (e\<lparr>me_lock_count := n\<rparr>)"
  "mutex_ok e \<Longrightarrow> me_owner e = Some owner \<Longrightarrow> owner \<noteq> c \<Longrightarrow> c \<notin> set (me_waiters e) \<Longrightarrow>
     mutex_ok (e\<lparr>me_waiters := me_waiters e @ [c]\<rparr>)"
  "mutex_ok e \<Longrightarrow> mutex_ok (e\<lparr>me_waiters := filter P (me_waiters e)\<rparr>)"
  by (auto simp: mutex_ok_def MutexEntry_new_def WaiterList_new_def split: option.splits)

lemma mutex_ok_distinct: "mutex_ok e \<Longrightarrow> distinct (me_waiters e)"
  by (simp add: mutex_ok_def)

lemma mutexes_ok_reachable: "mutex_reachable t \<Longrightarrow> mutexes_ok t"
proof (induction rule: mutex_reachable.induct)
  case 1
  show ?case by (simp add: MutexTable_new_def entries_ok_new)
next
  case (2 t i attrs)
  then show ?case by (simp add: MutexTable_create_with_id_def entries_ok_insert mutex_ok_ops)
next
  case (3 t i)
  then show ?case by (simp add: MutexTable_destroy_def entries_ok_remove case_prod_beta)
next
  case (4 t i)
  then show ?case by (simp add: MutexTable_destroy_abandoned_def entries_ok_remove case_prod_beta)
next
  case (5 t i shared)
  then show ?case unfolding MutexTable_bind_cond_def
    by (intro mutexes_ok_on) (auto simp: Let_def mutex_ok_ops)
next
  case (6 t i)
  then show ?case unfolding MutexTable_unbind_cond_def
    by (intro mutexes_ok_on) (auto simp: mutex_ok_ops split: option.split)
next
  case (7 t i c)
  then show ?case unfolding MutexTable_try_acquire_def
    by (intro mutexes_ok_on) (auto simp: mutex_ok_ops)
next
  case (8 t i c)
  then show ?case unfolding MutexTable_acquire_or_enqueue_def
    by (intro mutexes_ok_on) (auto simp: mutex_ok_ops WaiterList_enqueue_eq split: option.split)
next
  case (9 t i e c)
  then show ?case unfolding MutexTable_enqueue_waiter_def
    by (intro mutexes_ok_on) (auto simp: mutex_ok_ops WaiterList_enqueue_eq)
next
  case (10 t i c)
  then show ?case unfolding MutexTable_remove_waiter_def
    by (intro mutexes_ok_on) (auto simp: mutex_ok_ops WaiterList_remove_eq mutex_ok_distinct)
next
  case (11 t threads)
  then show ?case by (simp add: MutexTable_purge_eq mutex_parking.purge_ok
                                    mutex_ok_ops case_prod_beta)
next
  case (12 t i c)
  then show ?case unfolding MutexTable_unlock_decrement_def
    by (intro mutexes_ok_on) (auto simp: mutex_ok_ops)
next
  case (13 t i c)
  then show ?case unfolding MutexTable_release_and_wake_next_entries
    by (intro entries_ok_with) (simp_all add: mutex_ok_release)
qed

section \<open>Hand-off order\<close>

text \<open>One full release by whoever owns mutex \<open>i\<close>.\<close>

definition pass_on :: "u32 \<Rightarrow> MutexTable \<Rightarrow> MutexTable" where
  "pass_on i t =
     (case MutexTable_lookup t i of
        None \<Rightarrow> t
      | Some e \<Rightarrow> (case me_owner e of None \<Rightarrow> t | Some owner \<Rightarrow> snd (MutexTable_release_and_wake_next i owner t)))"

lemma mutex_reachable_pass_on: "mutex_reachable t \<Longrightarrow> mutex_reachable (pass_on i t)"
  by (auto simp: pass_on_def split: option.split intro: mutex_reachable.intros)

lemma pass_on_lookup:
  assumes "mutexes_ok t" and "MutexTable_lookup t i = Some e" and "me_waiters e = w # ws"
  shows "\<exists>e'. MutexTable_lookup (pass_on i t) i = Some e' \<and> me_owner e' = Some w \<and> me_waiters e' = ws"
proof -
  have "mutex_ok e" using assms entries_ok_get [of MutexEntry_lanes mutex_ok "mt_entries t" i e]
    by (simp add: MutexTable_lookup_def)
  then obtain owner where o: "me_owner e = Some owner" using assms(3) by (cases "me_owner e") (auto simp: mutex_ok_def)
  have "lm_inv MutexEntry_lanes (mt_entries t)" using assms(1) by (simp add: entries_ok_def)
  with o assms show ?thesis
    by (simp add: pass_on_def MutexTable_lookup_def MutexTable_release_and_wake_next_entries LaneMap_get_with
                  release_entry_def WaiterList_dequeue_one_def Let_def)
qed

lemma pass_on_order:
  "mutex_reachable t \<Longrightarrow> MutexTable_lookup t i = Some e \<Longrightarrow> k < length (me_waiters e) \<Longrightarrow>
   \<exists>e'. MutexTable_lookup ((pass_on i ^^ Suc k) t) i = Some e' \<and> me_owner e' = Some (me_waiters e ! k)"
proof (induction k arbitrary: t e)
  case (Suc k)
  then obtain w ws where w: "me_waiters e = w # ws" by (cases "me_waiters e") auto
  obtain e' where e': "MutexTable_lookup (pass_on i t) i = Some e'" "me_waiters e' = ws"
    using pass_on_lookup [OF mutexes_ok_reachable [OF Suc.prems(1)] Suc.prems(2) w] by blast
  have "\<exists>e''. MutexTable_lookup ((pass_on i ^^ Suc k) (pass_on i t)) i = Some e'' \<and>
      me_owner e'' = Some (me_waiters e' ! k)"
    using Suc.prems(3) w e'(2) by (intro Suc.IH [OF mutex_reachable_pass_on [OF Suc.prems(1)] e'(1)]) simp
  then show ?case by (simp add: funpow_swap1 w e'(2))
next
  case 0
  then obtain w ws where "me_waiters e = w # ws" by (cases "me_waiters e") auto
  with pass_on_lookup [OF mutexes_ok_reachable [OF 0(1)] 0(2) this] show ?case by auto
qed

section \<open>Lightweight mutexes\<close>

datatype LwMutexAcquire = LwAcquired | LwContended

datatype LwMutexAcquireOrEnqueue = LAE_Acquired | LAE_Enqueued | LAE_WouldDeadlock | LAE_Unknown

datatype LwMutexRelease = LR_Signaled | LR_Transferred PpuThreadId | LR_Unknown

datatype LwMutexEnqueueError = LEE_UnknownId | LEE_DuplicateWaiter

record LwMutexEntry =
  lme_signaled :: bool
  lme_waiters :: WaiterList

definition LwMutexEntry_new :: LwMutexEntry where
  "LwMutexEntry_new = \<lparr>lme_signaled = False, lme_waiters = WaiterList_new\<rparr>"

definition LwMutexEntry_lanes :: "LwMutexEntry lane_value" where
  "LwMutexEntry_lanes e lanes =
     snd (WaiterList_push_lanes (lme_waiters e) 2 (ObjectLanes_lane 1 0 (of_bool (lme_signaled e)) lanes))"

record LwMutexTable =
  lt_entries :: "(u32, LwMutexEntry) LaneMap"
  lt_acquires_count :: u64
  lt_releases_count :: u64

definition LwMutexTable_new :: LwMutexTable where
  "LwMutexTable_new = \<lparr>lt_entries = LaneMap_new source_LWMUTEX ucast, lt_acquires_count = 0, lt_releases_count = 0\<rparr>"

definition LwMutexTable_create_with_id :: "u32 \<Rightarrow> LwMutexTable \<Rightarrow> bool \<times> LwMutexTable" where
  "LwMutexTable_create_with_id i t =
     (if LaneMap_contains_key (lt_entries t) i then (False, t)
      else (True, t\<lparr>lt_entries := snd (LaneMap_insert LwMutexEntry_lanes i LwMutexEntry_new (lt_entries t))\<rparr>))"

definition LwMutexTable_destroy :: "u32 \<Rightarrow> LwMutexTable \<Rightarrow> LwMutexEntry option \<times> LwMutexTable" where
  "LwMutexTable_destroy i t =
     (let (removed, es) = LaneMap_remove LwMutexEntry_lanes i (lt_entries t)
      in (removed, t\<lparr>lt_entries := es\<rparr>))"

definition LwMutexTable_lookup :: "LwMutexTable \<Rightarrow> u32 \<Rightarrow> LwMutexEntry option" where
  "LwMutexTable_lookup t i = LaneMap_get (lt_entries t) i"

definition LwMutexTable_len :: "LwMutexTable \<Rightarrow> usize" where
  "LwMutexTable_len t = LaneMap_len (lt_entries t)"

definition LwMutexTable_is_empty :: "LwMutexTable \<Rightarrow> bool" where
  "LwMutexTable_is_empty t = LaneMap_is_empty (lt_entries t)"

definition LwMutexTable_iter_ids :: "LwMutexTable \<Rightarrow> u32 list" where
  "LwMutexTable_iter_ids t = map fst (lm_entries (lt_entries t))"

definition on_lwmutex :: "u32 \<Rightarrow> 'r \<Rightarrow> (LwMutexEntry \<Rightarrow> 'r \<times> LwMutexEntry) \<Rightarrow> LwMutexTable \<Rightarrow> 'r \<times> LwMutexTable" where
  "on_lwmutex i unknown body t =
     (let (r, es) = LaneMap_with LwMutexEntry_lanes i unknown body (lt_entries t)
      in (r, t\<lparr>lt_entries := es\<rparr>))"

definition LwMutexTable_try_acquire :: "u32 \<Rightarrow> PpuThreadId \<Rightarrow> LwMutexTable \<Rightarrow> LwMutexAcquire option \<times> LwMutexTable" where
  "LwMutexTable_try_acquire i caller =
     on_lwmutex i None (\<lambda>e.
       if lme_signaled e then (Some LwAcquired, e\<lparr>lme_signaled := False\<rparr>) else (Some LwContended, e))"

definition LwMutexTable_acquire_or_enqueue ::
    "u32 \<Rightarrow> PpuThreadId \<Rightarrow> LwMutexTable \<Rightarrow> LwMutexAcquireOrEnqueue \<times> LwMutexTable" where
  "LwMutexTable_acquire_or_enqueue i caller t =
     on_lwmutex i LAE_Unknown (\<lambda>e.
       if lme_signaled e then (LAE_Acquired, e\<lparr>lme_signaled := False\<rparr>)
       else if WaiterList_contains (lme_waiters e) caller then (LAE_WouldDeadlock, e)
       else (LAE_Enqueued, e\<lparr>lme_waiters := snd (WaiterList_enqueue caller (lme_waiters e))\<rparr>))
       (t\<lparr>lt_acquires_count := lt_acquires_count t + 1\<rparr>)"

definition LwMutexTable_enqueue_waiter ::
    "u32 \<Rightarrow> PpuThreadId \<Rightarrow> LwMutexTable \<Rightarrow> (LwMutexEnqueueError + unit) \<times> LwMutexTable" where
  "LwMutexTable_enqueue_waiter i waiter t =
     on_lwmutex i (Inl LEE_UnknownId) (\<lambda>e.
       case WaiterList_enqueue waiter (lme_waiters e) of
         (Inl _, ws) \<Rightarrow> (Inl LEE_DuplicateWaiter, e\<lparr>lme_waiters := ws\<rparr>)
       | (Inr _, ws) \<Rightarrow> (Inr (), e\<lparr>lme_waiters := ws\<rparr>))
       (t\<lparr>lt_acquires_count := lt_acquires_count t + 1\<rparr>)"

definition LwMutexTable_purge_waiters_of ::
    "PpuThreadId set \<Rightarrow> LwMutexTable \<Rightarrow> (u32 \<times> PpuThreadId) list \<times> LwMutexTable" where
  "LwMutexTable_purge_waiters_of threads t =
     (let (es, removed) = LaneMap_for_each_mut LwMutexEntry_lanes
            (\<lambda>removed i e. let (gone, ws) = WaiterList_remove_set threads (lme_waiters e)
                           in (e\<lparr>lme_waiters := ws\<rparr>, removed @ map (Pair i) gone))
            (lt_entries t) []
      in (removed, t\<lparr>lt_entries := es\<rparr>))"

definition LwMutexTable_remove_waiter :: "u32 \<Rightarrow> PpuThreadId \<Rightarrow> LwMutexTable \<Rightarrow> bool \<times> LwMutexTable" where
  "LwMutexTable_remove_waiter i waiter =
     on_lwmutex i False (\<lambda>e.
       let (found, ws) = WaiterList_remove waiter (lme_waiters e) in (found, e\<lparr>lme_waiters := ws\<rparr>))"

definition LwMutexTable_release_and_wake_next :: "u32 \<Rightarrow> PpuThreadId \<Rightarrow> LwMutexTable \<Rightarrow> LwMutexRelease \<times> LwMutexTable" where
  "LwMutexTable_release_and_wake_next i caller t =
     on_lwmutex i LR_Unknown (\<lambda>e.
       case WaiterList_dequeue_one (lme_waiters e) of
         (Some new_owner, ws) \<Rightarrow> (LR_Transferred new_owner, e\<lparr>lme_waiters := ws\<rparr>)
       | (None, ws) \<Rightarrow> (LR_Signaled, e\<lparr>lme_waiters := ws, lme_signaled := True\<rparr>))
       (t\<lparr>lt_releases_count := lt_releases_count t + 1\<rparr>)"

definition LwMutexTable_sync_partial :: "LwMutexTable \<Rightarrow> u128" where
  "LwMutexTable_sync_partial t = lm_partial (lt_entries t)"

definition LwMutexTable_sync_partial_from_scratch :: "LwMutexTable \<Rightarrow> u128" where
  "LwMutexTable_sync_partial_from_scratch t = LaneMap_partial_from_scratch LwMutexEntry_lanes (lt_entries t)"

section \<open>Properties\<close>

text \<open>
  C18: On every reachable table a mutex has one owner and a consistent queue: the owner is
  never parked on its own mutex, no thread is parked twice, a free mutex has no waiter and
  no recursive hold, and only a recursive mutex counts holds. The table's partial of the
  sync-state sum is the sum over its entries.
\<close>

theorem mutex_ownership:
  assumes "mutex_reachable t"
  shows "(\<forall>i e. MutexTable_lookup t i = Some e \<longrightarrow> mutex_ok e) \<and>
    MutexTable_sync_partial t = MutexTable_sync_partial_from_scratch t"
  using mutexes_ok_reachable [OF assms]
  by (auto simp: entries_ok_def MutexTable_lookup_def MutexTable_sync_partial_def
                 MutexTable_sync_partial_from_scratch_def lm_inv_def)

definition three_lockers :: MutexTable where
  "three_lockers = snd (MutexTable_acquire_or_enqueue 7 (PpuThreadId 3) (snd (MutexTable_acquire_or_enqueue 7 (PpuThreadId 2)
     (snd (MutexTable_acquire_or_enqueue 7 (PpuThreadId 1) (snd (MutexTable_create_with_id 7
       \<lparr>ma_priority_policy = 1, ma_recursive = True, ma_protocol = 1, ma_process_shared = False\<rparr> MutexTable_new)))))))"

lemma three_lockers_reachable: "mutex_reachable three_lockers"
  unfolding three_lockers_def by (intro mutex_reachable.intros)

lemma three_lockers_lookup:
  "map_option (\<lambda>e. (me_owner e, me_waiters e)) (MutexTable_lookup three_lockers 7) =
     Some (Some (PpuThreadId 1), [PpuThreadId 2, PpuThreadId 3])"
  by (simp add: three_lockers_def MutexTable_acquire_or_enqueue_def mutex_lookups MutexEntry_new_def
                WaiterList_new_def WaiterList_enqueue_eq)

theorem mutex_ownership_witness:
  "map_option mutex_ok (MutexTable_lookup three_lockers 7) = Some True \<and>
    MutexTable_sync_partial three_lockers = MutexTable_sync_partial_from_scratch three_lockers"
proof -
  obtain e where "MutexTable_lookup three_lockers 7 = Some e"
    using three_lockers_lookup by (auto simp: map_option_eq_Some)
  then show ?thesis using mutex_ownership [OF three_lockers_reachable] by simp
qed

text \<open>
  C34: Hand-off is first in, first out: when \<open>k + 1\<close> successive owners of a mutex release it
  in full, the waiter that stood at position \<open>k\<close> of the queue owns it.
\<close>

theorem mutex_handoff_fifo:
  assumes "mutex_reachable t" and "MutexTable_lookup t i = Some e" and "k < length (me_waiters e)"
  shows "\<exists>e'. MutexTable_lookup ((pass_on i ^^ Suc k) t) i = Some e' \<and> me_owner e' = Some (me_waiters e ! k)"
  using assms by (rule pass_on_order)

theorem mutex_handoff_fifo_witness:
  "\<exists>e'. MutexTable_lookup ((pass_on 7 ^^ Suc 1) three_lockers) 7 = Some e' \<and> me_owner e' = Some (PpuThreadId 3)"
proof -
  obtain e where e: "MutexTable_lookup three_lockers 7 = Some e" "me_waiters e = [PpuThreadId 2, PpuThreadId 3]"
    using three_lockers_lookup by (auto simp: map_option_eq_Some)
  then show ?thesis using mutex_handoff_fifo [OF three_lockers_reachable e(1), of 1] by simp
qed

end
