(* ===== verification/Lv2_Semaphore.thy ===== *)
theory Lv2_Semaphore
  imports Waiters
begin

text \<open>
  \<^verbatim>\<open>sync_primitives/semaphore.rs\<close>: counting semaphores, where a post hands its slots to parked
  waiters before it raises the count. The table is the struct's one field. A count is an
  \<^verbatim>\<open>i32\<close>: a 32-bit word whose comparisons are signed.
\<close>

section \<open>Operations\<close>

type_synonym i32 = "32 word"

datatype SemaphoreWait = SW_Acquired | SW_Empty

datatype SemaphorePostN = Posted (sp_woken: "PpuThreadId list") (sp_incremented: u32) | OverMax | SP_Unknown

datatype SemaphoreCreateError = SCE_IdCollision IdCollision | InvalidBounds

datatype SemaphoreEnqueueError = SEE_UnknownId | SEE_DuplicateWaiter

record SemaphoreEntry =
  se_count :: i32
  se_max :: i32
  se_waiters :: WaiterList

definition SemaphoreEntry_new :: "i32 \<Rightarrow> i32 \<Rightarrow> SemaphoreEntry" where
  "SemaphoreEntry_new initial max_count = \<lparr>se_count = initial, se_max = max_count, se_waiters = WaiterList_new\<rparr>"

definition SemaphoreEntry_lanes :: "SemaphoreEntry lane_value" where
  "SemaphoreEntry_lanes e lanes =
     (let lanes = ObjectLanes_lane 1 0 (ucast (se_count e)) lanes;
          lanes = ObjectLanes_lane 2 0 (ucast (se_max e)) lanes
      in snd (WaiterList_push_lanes (se_waiters e) 3 lanes))"

type_synonym SemaphoreTable = "(u32, SemaphoreEntry) LaneMap"

definition SemaphoreTable_new :: SemaphoreTable where
  "SemaphoreTable_new = LaneMap_new source_SEMAPHORE ucast"

definition SemaphoreTable_create_with_id ::
    "u32 \<Rightarrow> i32 \<Rightarrow> i32 \<Rightarrow> SemaphoreTable \<Rightarrow> (SemaphoreCreateError + unit) \<times> SemaphoreTable" where
  "SemaphoreTable_create_with_id i initial max_count t =
     (if LaneMap_contains_key t i then (Inl (SCE_IdCollision (IdCollision i)), t)
      else if sint max_count < sint initial \<or> sint initial < 0 \<or> sint max_count < 0 then (Inl InvalidBounds, t)
      else (Inr (), snd (LaneMap_insert SemaphoreEntry_lanes i (SemaphoreEntry_new initial max_count) t)))"

definition SemaphoreTable_destroy :: "u32 \<Rightarrow> SemaphoreTable \<Rightarrow> SemaphoreEntry option \<times> SemaphoreTable" where
  "SemaphoreTable_destroy i t = LaneMap_remove SemaphoreEntry_lanes i t"

definition SemaphoreTable_lookup :: "SemaphoreTable \<Rightarrow> u32 \<Rightarrow> SemaphoreEntry option" where
  "SemaphoreTable_lookup t i = LaneMap_get t i"

definition SemaphoreTable_len :: "SemaphoreTable \<Rightarrow> usize" where
  "SemaphoreTable_len t = LaneMap_len t"

definition SemaphoreTable_is_empty :: "SemaphoreTable \<Rightarrow> bool" where
  "SemaphoreTable_is_empty t = LaneMap_is_empty t"

definition SemaphoreTable_try_wait :: "u32 \<Rightarrow> SemaphoreTable \<Rightarrow> SemaphoreWait option \<times> SemaphoreTable" where
  "SemaphoreTable_try_wait i =
     LaneMap_with SemaphoreEntry_lanes i None (\<lambda>e.
       if sint (se_count e) > 0 then (Some SW_Acquired, e\<lparr>se_count := se_count e - 1\<rparr>)
       else (Some SW_Empty, e))"

definition SemaphoreTable_enqueue_waiter ::
    "u32 \<Rightarrow> PpuThreadId \<Rightarrow> SemaphoreTable \<Rightarrow> (SemaphoreEnqueueError + unit) \<times> SemaphoreTable" where
  "SemaphoreTable_enqueue_waiter i waiter =
     LaneMap_with SemaphoreEntry_lanes i (Inl SEE_UnknownId) (\<lambda>e.
       case WaiterList_enqueue waiter (se_waiters e) of
         (Inl _, ws) \<Rightarrow> (Inl SEE_DuplicateWaiter, e\<lparr>se_waiters := ws\<rparr>)
       | (Inr _, ws) \<Rightarrow> (Inr (), e\<lparr>se_waiters := ws\<rparr>))"

definition SemaphoreTable_purge_waiters_of ::
    "PpuThreadId set \<Rightarrow> SemaphoreTable \<Rightarrow> (u32 \<times> PpuThreadId) list \<times> SemaphoreTable" where
  "SemaphoreTable_purge_waiters_of threads t =
     prod.swap (LaneMap_for_each_mut SemaphoreEntry_lanes
       (\<lambda>removed i e. let (gone, ws) = WaiterList_remove_set threads (se_waiters e)
                      in (e\<lparr>se_waiters := ws\<rparr>, removed @ map (Pair i) gone))
       t [])"

definition SemaphoreTable_remove_waiter :: "u32 \<Rightarrow> PpuThreadId \<Rightarrow> SemaphoreTable \<Rightarrow> bool \<times> SemaphoreTable" where
  "SemaphoreTable_remove_waiter i waiter =
     LaneMap_with SemaphoreEntry_lanes i False (\<lambda>e.
       let (found, ws) = WaiterList_remove waiter (se_waiters e) in (found, e\<lparr>se_waiters := ws\<rparr>))"

text \<open>The \<^verbatim>\<open>for _ in 0..waiters_to_wake\<close> loop.\<close>

fun wake_loop :: "nat \<Rightarrow> PpuThreadId list \<Rightarrow> WaiterList \<Rightarrow> PpuThreadId list \<times> WaiterList" where
  "wake_loop 0 woken ws = (woken, ws)"
| "wake_loop (Suc n) woken ws =
     (case WaiterList_dequeue_one ws of
        (Some t, ws) \<Rightarrow> wake_loop n (woken @ [t]) ws
      | (None, ws) \<Rightarrow> wake_loop n woken ws)"

definition SemaphoreTable_post_and_wake_n :: "u32 \<Rightarrow> u32 \<Rightarrow> SemaphoreTable \<Rightarrow> SemaphorePostN \<times> SemaphoreTable" where
  "SemaphoreTable_post_and_wake_n i count =
     LaneMap_with SemaphoreEntry_lanes i SP_Unknown (\<lambda>e.
       let waiters_to_wake = min (of_nat (length (se_waiters e))) count;
           leftover = count - waiters_to_wake;
           new_count = saturating_add (se_count e) leftover
       in if new_count > se_max e then (OverMax, e)
          else let (woken, ws) = wake_loop (unat waiters_to_wake) [] (se_waiters e)
               in (Posted woken leftover, e\<lparr>se_waiters := ws, se_count := new_count\<rparr>))"

definition SemaphoreTable_sync_partial :: "SemaphoreTable \<Rightarrow> u128" where
  "SemaphoreTable_sync_partial t = lm_partial t"

definition SemaphoreTable_sync_partial_from_scratch :: "SemaphoreTable \<Rightarrow> u128" where
  "SemaphoreTable_sync_partial_from_scratch t = LaneMap_partial_from_scratch SemaphoreEntry_lanes t"

section \<open>Counts and waiters\<close>

text \<open>
  The count stays within its bounds, no thread is parked twice, and nobody waits while a
  slot is free.
\<close>

definition sem_ok :: "SemaphoreEntry \<Rightarrow> bool" where
  "sem_ok e \<longleftrightarrow>
     0 \<le> sint (se_count e) \<and> sint (se_count e) \<le> sint (se_max e) \<and> distinct (se_waiters e) \<and>
     (se_waiters e \<noteq> [] \<longrightarrow> se_count e = 0)"

text \<open>
  The states a table reaches. A waiter is parked after a \<^verbatim>\<open>try_wait\<close> that found no slot, and a
  post reads the number of waiters as a \<^verbatim>\<open>u32\<close>, which is exact below \<open>2 ^ 32\<close> threads.
\<close>

inductive sem_reachable :: "SemaphoreTable \<Rightarrow> bool" where
  "sem_reachable SemaphoreTable_new"
| "sem_reachable t \<Longrightarrow> sem_reachable (snd (SemaphoreTable_create_with_id i initial max_count t))"
| "sem_reachable t \<Longrightarrow> sem_reachable (snd (SemaphoreTable_destroy i t))"
| "sem_reachable t \<Longrightarrow> sem_reachable (snd (SemaphoreTable_try_wait i t))"
| "sem_reachable t \<Longrightarrow> fst (SemaphoreTable_try_wait i t) = Some SW_Empty \<Longrightarrow>
     sem_reachable (snd (SemaphoreTable_enqueue_waiter i c t))"
| "sem_reachable t \<Longrightarrow> sem_reachable (snd (SemaphoreTable_purge_waiters_of threads t))"
| "sem_reachable t \<Longrightarrow> sem_reachable (snd (SemaphoreTable_remove_waiter i c t))"
| "sem_reachable t \<Longrightarrow> (\<And>e. SemaphoreTable_lookup t i = Some e \<Longrightarrow> length (se_waiters e) < 2 ^ 32) \<Longrightarrow>
     sem_reachable (snd (SemaphoreTable_post_and_wake_n i n t))"

lemma uint_u32_nat: "uint (w :: u32) = int (unat w)"
  by simp

lemma sint_nonneg_iff: "0 \<le> sint (w :: i32) \<longleftrightarrow> unat w < 2 ^ 31"
  using unat_lt_2p [of w] unfolding sint_u32 uint_u32_nat by (simp del: of_nat_unat)

lemma sint_of_small: "unat (w :: i32) < 2 ^ 31 \<Longrightarrow> sint w = int (unat w)"
  unfolding sint_u32 uint_u32_nat by (simp del: of_nat_unat)

lemma sem_ok_iff:
  "sem_ok e \<longleftrightarrow>
     unat (se_count e) \<le> unat (se_max e) \<and> unat (se_max e) < 2 ^ 31 \<and> distinct (se_waiters e) \<and>
     (se_waiters e \<noteq> [] \<longrightarrow> se_count e = 0)"
proof (cases "unat (se_count e) < 2 ^ 31 \<and> unat (se_max e) < 2 ^ 31")
  case True
  then have "sint (se_count e) = int (unat (se_count e))" "sint (se_max e) = int (unat (se_max e))"
    using sint_of_small by blast+
  with True show ?thesis unfolding sem_ok_def by (simp del: of_nat_unat)
next
  case False
  then have "\<not> (0 \<le> sint (se_count e) \<and> 0 \<le> sint (se_max e))" unfolding sint_nonneg_iff by blast
  then have "\<not> (0 \<le> sint (se_count e) \<and> sint (se_count e) \<le> sint (se_max e))" by linarith
  moreover have "\<not> (unat (se_count e) \<le> unat (se_max e) \<and> unat (se_max e) < 2 ^ 31)" using False by linarith
  ultimately show ?thesis unfolding sem_ok_def by blast
qed

lemmas sem_ok_unat = sem_ok_iff [THEN iffD1, THEN conjunct1] sem_ok_iff [THEN iffD1, THEN conjunct2, THEN conjunct1]

lemma wake_loop_eq: "wake_loop n woken ws = (woken @ take n ws, drop n ws)"
  by (induction n woken ws rule: wake_loop.induct) (auto simp: WaiterList_dequeue_one_def split: list.split)

text \<open>A post: what it wakes, what it adds, and when it refuses.\<close>

definition posted :: "u32 \<Rightarrow> SemaphoreEntry \<Rightarrow> SemaphorePostN \<times> SemaphoreEntry" where
  "posted n e =
     (let extra = unat n - length (se_waiters e) in
      if unat (se_count e) + extra > unat (se_max e) then (OverMax, e)
      else (Posted (take (unat n) (se_waiters e)) (of_nat extra),
            e\<lparr>se_waiters := drop (unat n) (se_waiters e), se_count := of_nat (unat (se_count e) + extra)\<rparr>))"

lemma post_leftover:
  assumes "length (ws :: 'a list) < 2 ^ 32"
  shows "unat ((n :: u32) - min (of_nat (length ws)) n) = unat n - length ws"
    and "unat (min (of_nat (length ws)) n) = min (length ws) (unat n)"
proof -
  show m: "unat (min (of_nat (length ws)) n) = min (length ws) (unat n)"
    using assms by (simp add: unat_min unat_of_nat_no_wrap)
  show "unat (n - min (of_nat (length ws)) n) = unat n - length ws"
    by (subst unat_minus_no_wrap) (simp_all add: m word_le_nat_alt)
qed

lemma post_body_eq:
  assumes ok: "sem_ok e" and len: "length (se_waiters e) < 2 ^ 32"
  shows "(let waiters_to_wake = min (of_nat (length (se_waiters e))) n;
              leftover = n - waiters_to_wake;
              new_count = saturating_add (se_count e) leftover
          in if new_count > se_max e then (OverMax, e)
             else let (woken, ws) = wake_loop (unat waiters_to_wake) [] (se_waiters e)
                  in (Posted woken leftover, e\<lparr>se_waiters := ws, se_count := new_count\<rparr>)) = posted n e"
proof -
  define x where "x = unat n - length (se_waiters e)"
  have x: "unat (of_nat x :: u32) = x" by (rule unat_of_nat_no_wrap) (use unat_lt_2p [of n] in \<open>simp add: x_def\<close>)
  have left: "n - min (of_nat (length (se_waiters e))) n = of_nat x"
    using post_leftover(1) [OF len, of n] x by (intro unat_eqI) (simp add: x_def)
  have take: "take (min (length (se_waiters e)) (unat n)) (se_waiters e) = take (unat n) (se_waiters e)"
    "drop (min (length (se_waiters e)) (unat n)) (se_waiters e) = drop (unat n) (se_waiters e)"
    by (simp_all add: min_def)
  have sat: "unat (saturating_add (se_count e) (of_nat x)) = min (unat (se_count e) + x) (2 ^ 32 - 1)"
    using x by (simp add: unat_saturating_add)
  have "se_max e < saturating_add (se_count e) (of_nat x) \<longleftrightarrow> unat (se_max e) < unat (se_count e) + x"
    using sem_ok_unat [OF ok] by (auto simp: word_less_nat_alt sat)
  moreover have "saturating_add (se_count e) (of_nat x) = of_nat (unat (se_count e) + x)"
    if "\<not> unat (se_max e) < unat (se_count e) + x"
    using that sem_ok_unat [OF ok] by (intro unat_eqI) (simp add: sat unat_of_nat_no_wrap del: of_nat_add)
  ultimately show ?thesis
    by (simp add: posted_def left x_def [symmetric] post_leftover(2) [OF len] wake_loop_eq take Let_def)
qed

lemma sem_ok_posted: "sem_ok e \<Longrightarrow> sem_ok (snd (posted n e))"
proof -
  assume ok: "sem_ok e"
  show ?thesis
  proof (cases "unat (se_count e) + (unat n - length (se_waiters e)) > unat (se_max e)")
    case False
    have c: "unat (of_nat (unat (se_count e) + (unat n - length (se_waiters e))) :: i32) =
        unat (se_count e) + (unat n - length (se_waiters e))"
      by (rule unat_of_nat_no_wrap) (use False sem_ok_unat [OF ok] in simp)
    have "drop (unat n) (se_waiters e) \<noteq> [] \<Longrightarrow> unat n - length (se_waiters e) = 0 \<and> se_count e = 0"
      using ok by (auto simp: sem_ok_iff)
    with False ok sem_ok_unat [OF ok] c show ?thesis
      by (auto simp: posted_def Let_def sem_ok_iff)
  qed (use ok in \<open>simp add: posted_def\<close>)
qed

interpretation sem_parking: parking SemaphoreEntry_lanes se_waiters "\<lambda>ws e. e\<lparr>se_waiters := ws\<rparr>" "\<lambda>t. t"
  by unfold_locales simp

lemma SemaphoreTable_purge_eq:
  "SemaphoreTable_purge_waiters_of threads t =
     prod.swap (LaneMap_for_each_mut SemaphoreEntry_lanes
       (purge_closure se_waiters (\<lambda>ws e. e\<lparr>se_waiters := ws\<rparr>) (\<lambda>t. t) threads) t [])"
  unfolding SemaphoreTable_purge_waiters_of_def remove_set_closure ..

lemma sem_ok_ops:
  "\<not> (sint m < sint n \<or> sint n < 0 \<or> sint m < 0) \<Longrightarrow> sem_ok (SemaphoreEntry_new n m)"
  "sem_ok e \<Longrightarrow> sem_ok (e\<lparr>se_waiters := filter P (se_waiters e)\<rparr>)"
  "sem_ok e \<Longrightarrow> se_count e = 0 \<Longrightarrow> c \<notin> set (se_waiters e) \<Longrightarrow> sem_ok (e\<lparr>se_waiters := se_waiters e @ [c]\<rparr>)"
  by (auto simp: sem_ok_def SemaphoreEntry_new_def WaiterList_new_def)

lemma sem_ok_take:
  assumes "sem_ok e" and "sint (se_count e) > 0"
  shows "sem_ok (e\<lparr>se_count := se_count e - 1\<rparr>)"
proof -
  have "se_count e \<noteq> 0" using assms(2) by auto
  then have "unat (se_count e - 1) = unat (se_count e) - 1"
    by (subst unat_minus_no_wrap) (simp_all add: word_le_nat_alt unat_gt_0 Suc_le_eq)
  with assms \<open>se_count e \<noteq> 0\<close> show ?thesis by (auto simp: sem_ok_iff)
qed

lemma sem_ok_zero: "sem_ok e \<Longrightarrow> \<not> sint (se_count e) > 0 \<Longrightarrow> se_count e = 0"
  using sem_ok_unat [of e] sint_of_small [of "se_count e"] by (simp add: unat_eq_0 del: of_nat_unat)

lemma sems_ok_reachable: "sem_reachable t \<Longrightarrow> entries_ok SemaphoreEntry_lanes sem_ok t"
proof (induction rule: sem_reachable.induct)
  case 1
  show ?case by (simp add: SemaphoreTable_new_def entries_ok_new)
next
  case (2 t i initial max_count)
  then show ?case by (simp add: SemaphoreTable_create_with_id_def entries_ok_insert sem_ok_ops)
next
  case (3 t i)
  then show ?case by (simp add: SemaphoreTable_destroy_def entries_ok_remove)
next
  case (4 t i)
  then show ?case unfolding SemaphoreTable_try_wait_def by (intro entries_ok_with) (auto simp: sem_ok_take)
next
  case (5 t i c)
  have "\<not> sint (se_count e) > 0" if "LaneMap_get t i = Some e" for e
    using 5(2) that by (simp add: SemaphoreTable_try_wait_def LaneMap_with_result split: if_splits)
  with 5 show ?case unfolding SemaphoreTable_enqueue_waiter_def
    by (intro entries_ok_with) (auto simp: WaiterList_enqueue_eq sem_ok_ops sem_ok_zero)
next
  case (6 t threads)
  then show ?case by (simp add: SemaphoreTable_purge_eq sem_parking.purge_ok sem_ok_ops)
next
  case (7 t i c)
  then show ?case unfolding SemaphoreTable_remove_waiter_def
    by (intro entries_ok_with) (auto simp: WaiterList_remove_eq sem_ok_ops sem_ok_def)
next
  case (8 t i n)
  then show ?case unfolding SemaphoreTable_post_and_wake_n_def
    by (intro entries_ok_with) (simp_all add: post_body_eq SemaphoreTable_lookup_def sem_ok_posted)
qed

section \<open>Properties\<close>

text \<open>
  C21: On every reachable table each semaphore keeps its count between zero and its maximum
  and parks nobody while a slot is free, and a post on it is exact: it fails, waking nobody,
  when the slots left after the waiters would exceed the maximum, and otherwise wakes the
  first waiters in order and adds precisely the slots that no waiter took.
\<close>

theorem semaphore_counts:
  assumes "sem_reachable t" and "SemaphoreTable_lookup t i = Some e" and "length (se_waiters e) < 2 ^ 32"
  shows "sem_ok e \<and> fst (SemaphoreTable_post_and_wake_n i n t) = fst (posted n e) \<and>
    SemaphoreTable_lookup (snd (SemaphoreTable_post_and_wake_n i n t)) = (SemaphoreTable_lookup t)(i \<mapsto> snd (posted n e))"
proof -
  have ok: "entries_ok SemaphoreEntry_lanes sem_ok t" using assms(1) by (rule sems_ok_reachable)
  then have e: "sem_ok e" using assms(2) by (simp add: SemaphoreTable_lookup_def entries_ok_get)
  have "lm_inv SemaphoreEntry_lanes t" using ok by (simp add: entries_ok_def)
  with e assms(2) show ?thesis
    unfolding SemaphoreTable_post_and_wake_n_def SemaphoreTable_lookup_def [abs_def]
    by (simp add: LaneMap_with_result LaneMap_get_with post_body_eq [OF e assms(3)] fun_eq_iff)
qed

definition two_slots :: SemaphoreTable where
  "two_slots = snd (SemaphoreTable_enqueue_waiter 5 (PpuThreadId 9) (snd (SemaphoreTable_create_with_id 5 0 2 SemaphoreTable_new)))"

lemma two_slots_facts:
  "sem_reachable two_slots"
  "SemaphoreTable_lookup two_slots 5 = Some \<lparr>se_count = 0, se_max = 2, se_waiters = [PpuThreadId 9]\<rparr>"
proof -
  define s where "s = snd (SemaphoreTable_create_with_id 5 0 2 SemaphoreTable_new)"
  have n: "lm_inv SemaphoreEntry_lanes SemaphoreTable_new" "LaneMap_get SemaphoreTable_new = Map.empty"
    "\<not> LaneMap_contains_key SemaphoreTable_new 5"
    by (simp_all add: SemaphoreTable_new_def lm_inv_new LaneMap_contains_key_get)
  then have s: "lm_inv SemaphoreEntry_lanes s" "LaneMap_get s = [5 \<mapsto> SemaphoreEntry_new 0 2]"
    by (simp_all add: s_def SemaphoreTable_create_with_id_def LaneMap_get_insert lm_inv_insert)
  have "fst (SemaphoreTable_try_wait 5 s) = Some SW_Empty"
    by (simp add: SemaphoreTable_try_wait_def LaneMap_with_result s SemaphoreEntry_new_def)
  then show "sem_reachable two_slots" unfolding two_slots_def s_def [symmetric]
    by (intro sem_reachable.intros(5)) (simp_all add: s_def sem_reachable.intros)
  show "SemaphoreTable_lookup two_slots 5 = Some \<lparr>se_count = 0, se_max = 2, se_waiters = [PpuThreadId 9]\<rparr>"
    by (simp add: two_slots_def s_def [symmetric] SemaphoreTable_lookup_def SemaphoreTable_enqueue_waiter_def
                  LaneMap_get_with s SemaphoreEntry_new_def WaiterList_new_def WaiterList_enqueue_eq)
qed

theorem semaphore_counts_witness:
  "fst (SemaphoreTable_post_and_wake_n 5 30 two_slots) = OverMax \<and>
   fst (SemaphoreTable_post_and_wake_n 5 3 two_slots) = Posted [PpuThreadId 9] 2"
  using semaphore_counts [OF two_slots_facts, of 30] semaphore_counts [OF two_slots_facts, of 3]
  by (simp add: posted_def Let_def)

end
