(* ===== verification/Lv2_Event_Flag.thy ===== *)
theory Lv2_Event_Flag
  imports Waiters "HOL-Library.Sublist" "HOL-Library.Multiset"
begin

text \<open>
  \<^verbatim>\<open>sync_primitives/event_flag.rs\<close>: event flags, whose set operation walks the parked waiters
  while the clearing modes change the bits under the walk.
\<close>

unbundle bit_operations_syntax

section \<open>Operations\<close>

record EventFlagWaiter =
  fw_thread :: PpuThreadId
  fw_mask :: u64
  fw_mode :: EventFlagWaitMode
  fw_result_ptr :: u32

record EventFlagWake =
  wk_thread :: PpuThreadId
  wk_observed :: u64
  wk_result_ptr :: u32

datatype EventFlagWait = Matched u64 | NoMatch

datatype EventFlagCreateError = FCE_IdCollision IdCollision

datatype EventFlagEnqueueError = FEE_UnknownId | FEE_DuplicateWaiter

record EventFlagEntry =
  ef_bits :: u64
  ef_init :: u64
  ef_waiters :: "EventFlagWaiter list"

definition EventFlagEntry_new :: "u64 \<Rightarrow> EventFlagEntry" where
  "EventFlagEntry_new init = \<lparr>ef_bits = init, ef_init = init, ef_waiters = []\<rparr>"

definition mask_matches :: "u64 \<Rightarrow> u64 \<Rightarrow> EventFlagWaitMode \<Rightarrow> bool" where
  "mask_matches bits msk mode =
     (case mode of
        AndClear \<Rightarrow> (bits AND msk) = msk
      | AndNoClear \<Rightarrow> (bits AND msk) = msk
      | AndClearAll \<Rightarrow> (bits AND msk) = msk
      | OrClear \<Rightarrow> (bits AND msk) \<noteq> 0
      | OrNoClear \<Rightarrow> (bits AND msk) \<noteq> 0
      | OrClearAll \<Rightarrow> (bits AND msk) \<noteq> 0)"

definition cleared_bits :: "u64 \<Rightarrow> EventFlagWaitMode \<Rightarrow> u64" where
  "cleared_bits msk mode =
     (case mode of
        AndNoClear \<Rightarrow> 0
      | OrNoClear \<Rightarrow> 0
      | AndClear \<Rightarrow> msk
      | OrClear \<Rightarrow> msk
      | AndClearAll \<Rightarrow> u64_MAX
      | OrClearAll \<Rightarrow> u64_MAX)"

fun waiter_lanes :: "u64 \<Rightarrow> EventFlagWaiter list \<Rightarrow> ObjectLanes \<Rightarrow> ObjectLanes" where
  "waiter_lanes slot [] lanes = lanes"
| "waiter_lanes slot (w # ws) lanes =
     (let lanes = ObjectLanes_lane 4 slot (PpuThreadId_raw (fw_thread w)) lanes;
          lanes = ObjectLanes_lane 5 slot (fw_mask w) lanes;
          lanes = ObjectLanes_lane 6 slot (ucast (EventFlagWaitMode_stable_tag (fw_mode w)) + 1) lanes;
          lanes = ObjectLanes_lane 7 slot (ucast (fw_result_ptr w)) lanes
      in waiter_lanes (slot + 1) ws lanes)"

definition EventFlagEntry_lanes :: "EventFlagEntry lane_value" where
  "EventFlagEntry_lanes e lanes =
     (let lanes = ObjectLanes_lane 1 0 (ef_bits e) lanes;
          lanes = ObjectLanes_lane 2 0 (ef_init e) lanes;
          lanes = ObjectLanes_lane 3 0 (of_nat (length (ef_waiters e))) lanes
      in waiter_lanes 0 (ef_waiters e) lanes)"

type_synonym EventFlagTable = "(u32, EventFlagEntry) LaneMap"

definition EventFlagTable_new :: EventFlagTable where
  "EventFlagTable_new = LaneMap_new source_EVENT_FLAG ucast"

definition EventFlagTable_create_with_id ::
    "u32 \<Rightarrow> u64 \<Rightarrow> EventFlagTable \<Rightarrow> (EventFlagCreateError + unit) \<times> EventFlagTable" where
  "EventFlagTable_create_with_id i init t =
     (if LaneMap_get t i \<noteq> None then (Inl (FCE_IdCollision (IdCollision i)), t)
      else (Inr (), snd (LaneMap_insert EventFlagEntry_lanes i (EventFlagEntry_new init) t)))"

definition EventFlagTable_destroy :: "u32 \<Rightarrow> EventFlagTable \<Rightarrow> EventFlagEntry option \<times> EventFlagTable" where
  "EventFlagTable_destroy i t = LaneMap_remove EventFlagEntry_lanes i t"

definition EventFlagTable_lookup :: "EventFlagTable \<Rightarrow> u32 \<Rightarrow> EventFlagEntry option" where
  "EventFlagTable_lookup t i = LaneMap_get t i"

definition EventFlagTable_len :: "EventFlagTable \<Rightarrow> usize" where
  "EventFlagTable_len t = LaneMap_len t"

definition EventFlagTable_is_empty :: "EventFlagTable \<Rightarrow> bool" where
  "EventFlagTable_is_empty t = LaneMap_is_empty t"

definition EventFlagTable_try_wait ::
    "u32 \<Rightarrow> u64 \<Rightarrow> EventFlagWaitMode \<Rightarrow> EventFlagTable \<Rightarrow> EventFlagWait option \<times> EventFlagTable" where
  "EventFlagTable_try_wait i msk mode =
     LaneMap_with EventFlagEntry_lanes i None (\<lambda>e.
       if mask_matches (ef_bits e) msk mode
       then let observed = ef_bits e
            in (Some (Matched observed), e\<lparr>ef_bits := ef_bits e AND NOT (cleared_bits msk mode)\<rparr>)
       else (Some NoMatch, e))"

definition EventFlagTable_enqueue_waiter ::
    "u32 \<Rightarrow> PpuThreadId \<Rightarrow> u64 \<Rightarrow> EventFlagWaitMode \<Rightarrow> u32 \<Rightarrow> EventFlagTable \<Rightarrow>
      (EventFlagEnqueueError + unit) \<times> EventFlagTable" where
  "EventFlagTable_enqueue_waiter i thread msk mode result_ptr =
     LaneMap_with EventFlagEntry_lanes i (Inl FEE_UnknownId) (\<lambda>e.
       if list_ex (\<lambda>w. fw_thread w = thread) (ef_waiters e) then (Inl FEE_DuplicateWaiter, e)
       else (Inr (), e\<lparr>ef_waiters := ef_waiters e @
              [\<lparr>fw_thread = thread, fw_mask = msk, fw_mode = mode, fw_result_ptr = result_ptr\<rparr>]\<rparr>))"

text \<open>
  The walk of \<^verbatim>\<open>set_and_wake\<close>: a matched waiter is removed in place, so the index stays, and
  any other moves it on.
\<close>

function wake_walk :: "u64 \<Rightarrow> EventFlagWaiter list \<Rightarrow> nat \<Rightarrow> EventFlagWake list \<Rightarrow>
    u64 \<times> EventFlagWaiter list \<times> EventFlagWake list" where
  "wake_walk bits waiters i woken =
     (if i < length waiters
      then let w = waiters ! i
           in if mask_matches bits (fw_mask w) (fw_mode w)
              then wake_walk (bits AND NOT (cleared_bits (fw_mask w) (fw_mode w))) (remove_at i waiters) i
                     (woken @ [\<lparr>wk_thread = fw_thread w, wk_observed = bits, wk_result_ptr = fw_result_ptr w\<rparr>])
              else wake_walk bits waiters (i + 1) woken
      else (bits, waiters, woken))"
  by pat_completeness auto

termination
  by (relation "measure (\<lambda>(_, waiters, i, _). length waiters - i)") (auto simp: remove_at_def)

declare wake_walk.simps [simp del]

definition EventFlagTable_set_and_wake ::
    "u32 \<Rightarrow> u64 \<Rightarrow> EventFlagTable \<Rightarrow> EventFlagWake list option \<times> EventFlagTable" where
  "EventFlagTable_set_and_wake i bits_to_set =
     LaneMap_with EventFlagEntry_lanes i None (\<lambda>e.
       let (bits, waiters, woken) = wake_walk (ef_bits e OR bits_to_set) (ef_waiters e) 0 []
       in (Some woken, e\<lparr>ef_bits := bits, ef_waiters := waiters\<rparr>))"

definition EventFlagTable_remove_waiter ::
    "u32 \<Rightarrow> PpuThreadId \<Rightarrow> EventFlagTable \<Rightarrow> EventFlagWaiter option \<times> EventFlagTable" where
  "EventFlagTable_remove_waiter i thread =
     LaneMap_with EventFlagEntry_lanes i None (\<lambda>e.
       case list_position (\<lambda>w. fw_thread w = thread) (ef_waiters e) of
         None \<Rightarrow> (None, e)
       | Some pos \<Rightarrow> (Some (ef_waiters e ! pos), e\<lparr>ef_waiters := remove_at pos (ef_waiters e)\<rparr>))"

definition EventFlagTable_purge_waiters_of ::
    "PpuThreadId set \<Rightarrow> EventFlagTable \<Rightarrow> (u32 \<times> PpuThreadId) list \<times> EventFlagTable" where
  "EventFlagTable_purge_waiters_of threads t =
     prod.swap (LaneMap_for_each_mut EventFlagEntry_lanes
       (\<lambda>removed i e. let (removed, ws) = purge_waiters fw_thread threads i removed (ef_waiters e)
                      in (e\<lparr>ef_waiters := ws\<rparr>, removed))
       t [])"

definition EventFlagTable_cancel_waiters :: "u32 \<Rightarrow> EventFlagTable \<Rightarrow> EventFlagWaiter list option \<times> EventFlagTable" where
  "EventFlagTable_cancel_waiters i =
     LaneMap_with EventFlagEntry_lanes i None (\<lambda>e. (Some (ef_waiters e), e\<lparr>ef_waiters := []\<rparr>))"

definition EventFlagTable_clear_bits :: "u32 \<Rightarrow> u64 \<Rightarrow> EventFlagTable \<Rightarrow> bool \<times> EventFlagTable" where
  "EventFlagTable_clear_bits i msk =
     LaneMap_with EventFlagEntry_lanes i False (\<lambda>e. (True, e\<lparr>ef_bits := ef_bits e AND msk\<rparr>))"

definition EventFlagTable_sync_partial :: "EventFlagTable \<Rightarrow> u128" where
  "EventFlagTable_sync_partial t = lm_partial t"

definition EventFlagTable_sync_partial_from_scratch :: "EventFlagTable \<Rightarrow> u128" where
  "EventFlagTable_sync_partial_from_scratch t = LaneMap_partial_from_scratch EventFlagEntry_lanes t"

section \<open>The walk as one pass\<close>

text \<open>The reference: one pass over the waiters in order, with the bits as they stand at each.\<close>

fun one_pass :: "u64 \<Rightarrow> EventFlagWaiter list \<Rightarrow> u64 \<times> EventFlagWaiter list \<times> EventFlagWake list" where
  "one_pass bits [] = (bits, [], [])"
| "one_pass bits (w # ws) =
     (if mask_matches bits (fw_mask w) (fw_mode w)
      then let (b, left, woken) = one_pass (bits AND NOT (cleared_bits (fw_mask w) (fw_mode w))) ws
           in (b, left, \<lparr>wk_thread = fw_thread w, wk_observed = bits, wk_result_ptr = fw_result_ptr w\<rparr> # woken)
      else let (b, left, woken) = one_pass bits ws in (b, w # left, woken))"

lemma remove_at_append: "remove_at (length xs) (xs @ y # ys) = xs @ ys"
  by (simp add: remove_at_def)

lemma wake_walk_one_pass:
  "wake_walk bits (done @ ws) (length done) woken =
     (let (b, left, new) = one_pass bits ws in (b, done @ left, woken @ new))"
proof (induction ws arbitrary: bits "done" woken)
  case Nil
  show ?case by (subst wake_walk.simps) simp
next
  case (Cons w ws)
  show ?case
  proof (cases "mask_matches bits (fw_mask w) (fw_mode w)")
    case True
    then show ?thesis
      by (subst wake_walk.simps) (simp add: nth_append remove_at_append Cons.IH Let_def split: prod.split)
  next
    case False
    then have "wake_walk bits (done @ w # ws) (length done) woken =
        wake_walk bits ((done @ [w]) @ ws) (length (done @ [w])) woken"
      by (subst wake_walk.simps) (simp add: nth_append Let_def)
    also have "\<dots> = (let (b, left, new) = one_pass bits ws in (b, (done @ [w]) @ left, woken @ new))"
      by (rule Cons.IH)
    finally show ?thesis using False by (simp split: prod.split)
  qed
qed

text \<open>Fewer bits satisfy fewer masks, and the pass only takes bits away.\<close>

definition submask :: "u64 \<Rightarrow> u64 \<Rightarrow> bool" where
  "submask a b \<longleftrightarrow> a AND b = a"

lemma submask_bit: "submask a b \<longleftrightarrow> (\<forall>n. bit a n \<longrightarrow> bit b n)"
proof
  assume "submask a b"
  then show "\<forall>n. bit a n \<longrightarrow> bit b n" unfolding submask_def by (metis bit_and_iff)
next
  assume "\<forall>n. bit a n \<longrightarrow> bit b n"
  then show "submask a b" unfolding submask_def by (intro bit_word_eqI) (auto simp: bit_and_iff)
qed

lemma submask_trans: "submask a b \<Longrightarrow> submask b c \<Longrightarrow> submask a c"
  by (simp add: submask_bit)

lemma submask_and [simp]: "submask (a AND b) a" "submask a a"
  by (simp_all add: submask_bit bit_and_iff)

lemma mask_matches_mono:
  assumes "submask a b" and "mask_matches a m mode"
  shows "mask_matches b m mode"
proof -
  have "b AND m = m" if "a AND m = m"
    using assms(1) that by (auto simp: submask_bit bit_eq_iff bit_and_iff)
  moreover have "b AND m \<noteq> 0" if "a AND m \<noteq> 0"
    using assms(1) that by (auto simp: submask_bit bit_eq_iff bit_and_iff)
  ultimately show ?thesis using assms(2) by (auto simp: mask_matches_def split: EventFlagWaitMode.splits)
qed

lemma one_pass_submask: "one_pass bits ws = (b, left, woken) \<Longrightarrow> submask b bits"
proof (induction bits ws arbitrary: b left woken rule: one_pass.induct)
  case (2 bits w ws)
  then show ?case by (auto simp: Let_def split: if_splits prod.splits intro: submask_trans)
qed simp

lemma one_pass_unmatched:
  "one_pass bits ws = (b, left, woken) \<Longrightarrow> w \<in> set left \<Longrightarrow> \<not> mask_matches b (fw_mask w) (fw_mode w)"
proof (induction bits ws arbitrary: b left woken rule: one_pass.induct)
  case (2 bits v ws)
  show ?case
  proof (cases "mask_matches bits (fw_mask v) (fw_mode v)")
    case True
    with 2 show ?thesis by (auto simp: Let_def split: prod.splits)
  next
    case False
    then obtain left' woken' where p: "one_pass bits ws = (b, left', woken')" "left = v # left'"
      using "2.prems"(1) by (auto split: prod.splits)
    then show ?thesis
      using "2.IH"(2) [OF False p(1)] "2.prems"(2) False one_pass_submask [OF p(1)] mask_matches_mono by auto
  qed
qed simp

lemma one_pass_split:
  "one_pass bits ws = (b, left, woken) \<Longrightarrow>
   subseq left ws \<and> mset (map fw_thread left @ map wk_thread woken) = mset (map fw_thread ws)"
proof (induction bits ws arbitrary: b left woken rule: one_pass.induct)
  case (2 bits w ws)
  then show ?case by (auto simp: Let_def split: if_splits prod.splits)
qed simp

section \<open>No waiter is stranded\<close>

definition flag_ok :: "EventFlagEntry \<Rightarrow> bool" where
  "flag_ok e \<longleftrightarrow>
     distinct (map fw_thread (ef_waiters e)) \<and>
     (\<forall>w \<in> set (ef_waiters e). \<not> mask_matches (ef_bits e) (fw_mask w) (fw_mode w))"

text \<open>The states a table reaches: a thread is parked after a \<^verbatim>\<open>try_wait\<close> that did not match.\<close>

inductive flag_reachable :: "EventFlagTable \<Rightarrow> bool" where
  "flag_reachable EventFlagTable_new"
| "flag_reachable t \<Longrightarrow> flag_reachable (snd (EventFlagTable_create_with_id i init t))"
| "flag_reachable t \<Longrightarrow> flag_reachable (snd (EventFlagTable_destroy i t))"
| "flag_reachable t \<Longrightarrow> flag_reachable (snd (EventFlagTable_try_wait i m mode t))"
| "flag_reachable t \<Longrightarrow> fst (EventFlagTable_try_wait i m mode t) = Some NoMatch \<Longrightarrow>
     flag_reachable (snd (EventFlagTable_enqueue_waiter i c m mode ptr t))"
| "flag_reachable t \<Longrightarrow> flag_reachable (snd (EventFlagTable_set_and_wake i bits t))"
| "flag_reachable t \<Longrightarrow> flag_reachable (snd (EventFlagTable_remove_waiter i c t))"
| "flag_reachable t \<Longrightarrow> flag_reachable (snd (EventFlagTable_purge_waiters_of threads t))"
| "flag_reachable t \<Longrightarrow> flag_reachable (snd (EventFlagTable_cancel_waiters i t))"
| "flag_reachable t \<Longrightarrow> flag_reachable (snd (EventFlagTable_clear_bits i m t))"

interpretation flag_parking: parking EventFlagEntry_lanes ef_waiters "\<lambda>ws e. e\<lparr>ef_waiters := ws\<rparr>" fw_thread
  by unfold_locales simp

lemma EventFlagTable_purge_eq:
  "EventFlagTable_purge_waiters_of threads t =
     prod.swap (LaneMap_for_each_mut EventFlagEntry_lanes
       (purge_closure ef_waiters (\<lambda>ws e. e\<lparr>ef_waiters := ws\<rparr>) fw_thread threads) t [])"
  unfolding EventFlagTable_purge_waiters_of_def purge_waiters_closure ..

lemma flag_ok_ops:
  "flag_ok (EventFlagEntry_new b)"
  "flag_ok e \<Longrightarrow> flag_ok (e\<lparr>ef_waiters := filter P (ef_waiters e)\<rparr>)"
  "flag_ok e \<Longrightarrow> flag_ok (e\<lparr>ef_waiters := []\<rparr>)"
  by (auto simp: flag_ok_def EventFlagEntry_new_def distinct_map_filter)

lemma flag_ok_fewer_bits: "flag_ok e \<Longrightarrow> submask b (ef_bits e) \<Longrightarrow> flag_ok (e\<lparr>ef_bits := b\<rparr>)"
  by (auto simp: flag_ok_def dest: mask_matches_mono)

lemma flag_ok_remove_at:
  "flag_ok e \<Longrightarrow> list_position (\<lambda>w. fw_thread w = c) (ef_waiters e) = Some p \<Longrightarrow>
   flag_ok (e\<lparr>ef_waiters := remove_at p (ef_waiters e)\<rparr>)"
  using remove_at_position(1) [of fw_thread "ef_waiters e" c p] flag_ok_ops(2) [of e]
  by (simp add: flag_ok_def)

lemma wake_walk_eq: "wake_walk bits ws 0 [] = one_pass bits ws"
  using wake_walk_one_pass [of bits "[]" ws "[]"] by simp

lemma flag_ok_one_pass:
  assumes "flag_ok e" and p: "one_pass bits (ef_waiters e) = (b, left, woken)"
  shows "flag_ok (e\<lparr>ef_bits := b, ef_waiters := left\<rparr>)"
proof -
  have "distinct (map fw_thread left @ map wk_thread woken)"
    using assms one_pass_split [OF p] unfolding flag_ok_def
    by (metis mset_eq_imp_distinct_iff)
  then show ?thesis using one_pass_unmatched [OF p] by (simp add: flag_ok_def)
qed

lemma flags_ok_reachable: "flag_reachable t \<Longrightarrow> entries_ok EventFlagEntry_lanes flag_ok t"
proof (induction rule: flag_reachable.induct)
  case 1
  show ?case by (simp add: EventFlagTable_new_def entries_ok_new)
next
  case (2 t i init)
  then show ?case by (simp add: EventFlagTable_create_with_id_def entries_ok_insert flag_ok_ops)
next
  case (3 t i)
  then show ?case by (simp add: EventFlagTable_destroy_def entries_ok_remove)
next
  case (4 t i m mode)
  then show ?case unfolding EventFlagTable_try_wait_def
    by (intro entries_ok_with) (auto simp: flag_ok_fewer_bits)
next
  case (5 t i m mode c ptr)
  have "\<not> mask_matches (ef_bits e) m mode" if "LaneMap_get t i = Some e" for e
    using 5(2) that by (simp add: EventFlagTable_try_wait_def LaneMap_with_result split: if_splits)
  with 5 show ?case unfolding EventFlagTable_enqueue_waiter_def
    by (intro entries_ok_with) (auto simp: flag_ok_def list_ex_iff)
next
  case (6 t i bits)
  then show ?case unfolding EventFlagTable_set_and_wake_def wake_walk_eq
    by (intro entries_ok_with) (auto simp: flag_ok_one_pass split: prod.split)
next
  case (7 t i c)
  then show ?case unfolding EventFlagTable_remove_waiter_def
    by (intro entries_ok_with) (auto simp: flag_ok_remove_at split: option.split)
next
  case (8 t threads)
  then show ?case by (simp add: EventFlagTable_purge_eq flag_parking.purge_ok flag_ok_ops)
next
  case (9 t i)
  then show ?case unfolding EventFlagTable_cancel_waiters_def by (intro entries_ok_with) (auto simp: flag_ok_ops)
next
  case (10 t i m)
  then show ?case unfolding EventFlagTable_clear_bits_def
    by (intro entries_ok_with) (auto simp: flag_ok_fewer_bits)
qed

section \<open>Properties\<close>

text \<open>
  C20: No event-flag wake is lost: on every reachable table no parked waiter's mask matches the
  bits of its flag, although the clearing modes change the bits during the walk of a set, and no
  thread is parked twice on a flag.
\<close>

theorem event_flag_no_lost_wake:
  assumes "flag_reachable t" and "EventFlagTable_lookup t i = Some e"
  shows "flag_ok e"
  using flags_ok_reachable [OF assms(1)] assms(2) by (simp add: EventFlagTable_lookup_def entries_ok_get)

text \<open>
  C38: Setting bits terminates and is one pass over the waiters in the order they were parked:
  the in-place walk with its moving index wakes exactly the waiters the pass wakes, each with
  the bits as they stand at its turn, and leaves the others in order.
\<close>

theorem set_and_wake_one_pass:
  assumes "flag_reachable t" and "EventFlagTable_lookup t i = Some e"
    and "one_pass (ef_bits e OR bits) (ef_waiters e) = (b, left, woken)"
  shows "fst (EventFlagTable_set_and_wake i bits t) = Some woken \<and>
    EventFlagTable_lookup (snd (EventFlagTable_set_and_wake i bits t)) =
      (EventFlagTable_lookup t)(i \<mapsto> e\<lparr>ef_bits := b, ef_waiters := left\<rparr>) \<and>
    subseq left (ef_waiters e) \<and>
    mset (map fw_thread left @ map wk_thread woken) = mset (map fw_thread (ef_waiters e))"
proof -
  have "lm_inv EventFlagEntry_lanes t" using flags_ok_reachable [OF assms(1)] by (simp add: entries_ok_def)
  with assms one_pass_split [OF assms(3)] show ?thesis
    unfolding EventFlagTable_lookup_def [abs_def] EventFlagTable_set_and_wake_def wake_walk_eq
    by (simp add: LaneMap_with_result LaneMap_get_with fun_eq_iff)
qed

definition flag_waiter :: "u64 \<Rightarrow> EventFlagWaitMode \<Rightarrow> u64 \<Rightarrow> EventFlagWaiter" where
  "flag_waiter c mode m = \<lparr>fw_thread = PpuThreadId c, fw_mask = m, fw_mode = mode, fw_result_ptr = 0\<rparr>"

definition two_flag_waiters :: EventFlagTable where
  "two_flag_waiters =
     snd (EventFlagTable_enqueue_waiter 4 (PpuThreadId 2) 1 OrNoClear 0
       (snd (EventFlagTable_enqueue_waiter 4 (PpuThreadId 1) 1 OrClear 0
         (snd (EventFlagTable_create_with_id 4 0 EventFlagTable_new)))))"

lemma two_flag_waiters_facts:
  "flag_reachable two_flag_waiters"
  "EventFlagTable_lookup two_flag_waiters 4 =
     Some \<lparr>ef_bits = 0, ef_init = 0, ef_waiters = [flag_waiter 1 OrClear 1, flag_waiter 2 OrNoClear 1]\<rparr>"
proof -
  define s where "s = snd (EventFlagTable_create_with_id 4 0 EventFlagTable_new)"
  define u where "u = snd (EventFlagTable_enqueue_waiter 4 (PpuThreadId 1) 1 OrClear 0 s)"
  have s: "lm_inv EventFlagEntry_lanes s" "LaneMap_get s = [4 \<mapsto> EventFlagEntry_new 0]"
    by (simp_all add: s_def EventFlagTable_create_with_id_def EventFlagTable_new_def LaneMap_get_insert lm_inv_insert lm_inv_new)
  have u: "lm_inv EventFlagEntry_lanes u"
    "LaneMap_get u = [4 \<mapsto> \<lparr>ef_bits = 0, ef_init = 0, ef_waiters = [flag_waiter 1 OrClear 1]\<rparr>]"
    by (simp_all add: u_def EventFlagTable_enqueue_waiter_def LaneMap_get_with lm_inv_with s EventFlagEntry_new_def flag_waiter_def)
  have "fst (EventFlagTable_try_wait 4 1 OrClear s) = Some NoMatch" "fst (EventFlagTable_try_wait 4 1 OrNoClear u) = Some NoMatch"
    by (simp_all add: EventFlagTable_try_wait_def LaneMap_with_result s u EventFlagEntry_new_def mask_matches_def)
  then show "flag_reachable two_flag_waiters"
    unfolding two_flag_waiters_def s_def [symmetric] u_def [symmetric]
    by (intro flag_reachable.intros(5)) (simp_all add: u_def s_def flag_reachable.intros)
  show "EventFlagTable_lookup two_flag_waiters 4 =
     Some \<lparr>ef_bits = 0, ef_init = 0, ef_waiters = [flag_waiter 1 OrClear 1, flag_waiter 2 OrNoClear 1]\<rparr>"
    unfolding two_flag_waiters_def s_def [symmetric] u_def [symmetric]
    by (simp add: EventFlagTable_lookup_def EventFlagTable_enqueue_waiter_def LaneMap_get_with u flag_waiter_def)
qed

theorem event_flag_no_lost_wake_witness:
  "flag_ok \<lparr>ef_bits = 0, ef_init = 0, ef_waiters = [flag_waiter 1 OrClear 1, flag_waiter 2 OrNoClear 1]\<rparr>"
  using event_flag_no_lost_wake [OF two_flag_waiters_facts] .

theorem set_and_wake_one_pass_witness:
  "fst (EventFlagTable_set_and_wake 4 3 two_flag_waiters) =
     Some [\<lparr>wk_thread = PpuThreadId 1, wk_observed = 3, wk_result_ptr = 0\<rparr>]"
  using set_and_wake_one_pass [OF two_flag_waiters_facts, of 3 2 "[flag_waiter 2 OrNoClear 1]"
      "[\<lparr>wk_thread = PpuThreadId 1, wk_observed = 3, wk_result_ptr = 0\<rparr>]"]
  by (simp add: flag_waiter_def mask_matches_def cleared_bits_def)

end
