(* ===== verification/Lv2_Event_Queue.thy ===== *)
theory Lv2_Event_Queue
  imports Waiters Dispatch_Lanes
begin

text \<open>
  \<^verbatim>\<open>sync_primitives/event_queue.rs\<close> and \<^verbatim>\<open>event_port.rs\<close>: bounded event queues that hand a payload
  to a parked receiver or buffer it, and the ports that send into them.
\<close>

section \<open>Event queues\<close>

datatype EventQueueReceive = Delivered EventPayload | QR_Empty

datatype EventQueueSend =
    Woke (qs_new_owner: PpuThreadId) (qs_out_ptr: u32) (qs_payload: EventPayload)
  | QS_Enqueued
  | QS_Full
  | QS_Unknown

datatype EventQueueEnqueueError = QEE_UnknownId | QEE_DuplicateWaiter

record EventQueueWaiter =
  qw_thread :: PpuThreadId
  qw_out_ptr :: u32

record EventQueueEntry =
  eq_payloads :: "EventPayload list"
  eq_waiters :: "EventQueueWaiter list"
  eq_size :: u32

definition EventQueueEntry_new :: "u32 \<Rightarrow> EventQueueEntry" where
  "EventQueueEntry_new sz = \<lparr>eq_payloads = [], eq_waiters = [], eq_size = sz\<rparr>"

definition EventQueueEntry_len :: "EventQueueEntry \<Rightarrow> usize" where
  "EventQueueEntry_len e = length (eq_payloads e)"

definition EventQueueEntry_is_empty :: "EventQueueEntry \<Rightarrow> bool" where
  "EventQueueEntry_is_empty e \<longleftrightarrow> eq_payloads e = []"

definition EventQueueEntry_has_no_waiters :: "EventQueueEntry \<Rightarrow> bool" where
  "EventQueueEntry_has_no_waiters e \<longleftrightarrow> eq_waiters e = []"

definition EventQueueEntry_is_inert :: "EventQueueEntry \<Rightarrow> bool" where
  "EventQueueEntry_is_inert e \<longleftrightarrow> eq_payloads e = [] \<and> eq_waiters e = []"

fun payload_lanes :: "u64 \<Rightarrow> EventPayload list \<Rightarrow> ObjectLanes \<Rightarrow> ObjectLanes" where
  "payload_lanes slot [] lanes = lanes"
| "payload_lanes slot (p # ps) lanes =
     (let lanes = ObjectLanes_lane 3 slot (ep_source p) lanes;
          lanes = ObjectLanes_lane 4 slot (ep_data1 p) lanes;
          lanes = ObjectLanes_lane 5 slot (ep_data2 p) lanes;
          lanes = ObjectLanes_lane 6 slot (ep_data3 p) lanes
      in payload_lanes (slot + 1) ps lanes)"

fun receiver_lanes :: "u64 \<Rightarrow> EventQueueWaiter list \<Rightarrow> ObjectLanes \<Rightarrow> ObjectLanes" where
  "receiver_lanes slot [] lanes = lanes"
| "receiver_lanes slot (w # ws) lanes =
     (let lanes = ObjectLanes_lane 8 slot (PpuThreadId_raw (qw_thread w)) lanes;
          lanes = ObjectLanes_lane 9 slot (ucast (qw_out_ptr w)) lanes
      in receiver_lanes (slot + 1) ws lanes)"

definition EventQueueEntry_lanes :: "EventQueueEntry lane_value" where
  "EventQueueEntry_lanes e lanes =
     (let lanes = ObjectLanes_lane 1 0 (ucast (eq_size e)) lanes;
          lanes = ObjectLanes_lane 2 0 (of_nat (length (eq_payloads e))) lanes;
          lanes = payload_lanes 0 (eq_payloads e) lanes;
          lanes = ObjectLanes_lane 7 0 (of_nat (length (eq_waiters e))) lanes
      in receiver_lanes 0 (eq_waiters e) lanes)"

type_synonym EventQueueTable = "(u32, EventQueueEntry) LaneMap"

definition EventQueueTable_new :: EventQueueTable where
  "EventQueueTable_new = LaneMap_new source_EVENT_QUEUE ucast"

definition EventQueueTable_create_with_id :: "u32 \<Rightarrow> u32 \<Rightarrow> EventQueueTable \<Rightarrow> bool \<times> EventQueueTable" where
  "EventQueueTable_create_with_id i sz t =
     (if LaneMap_contains_key t i \<or> sz = 0 then (False, t)
      else (True, snd (LaneMap_insert EventQueueEntry_lanes i (EventQueueEntry_new sz) t)))"

definition EventQueueTable_destroy :: "u32 \<Rightarrow> EventQueueTable \<Rightarrow> EventQueueEntry option \<times> EventQueueTable" where
  "EventQueueTable_destroy i t = LaneMap_remove EventQueueEntry_lanes i t"

definition EventQueueTable_destroy_with_waiters ::
    "u32 \<Rightarrow> EventQueueTable \<Rightarrow> EventQueueWaiter list option \<times> EventQueueTable" where
  "EventQueueTable_destroy_with_waiters i t =
     (let (removed, t) = LaneMap_remove EventQueueEntry_lanes i t in (map_option eq_waiters removed, t))"

definition EventQueueTable_lookup :: "EventQueueTable \<Rightarrow> u32 \<Rightarrow> EventQueueEntry option" where
  "EventQueueTable_lookup t i = LaneMap_get t i"

definition EventQueueTable_len :: "EventQueueTable \<Rightarrow> usize" where
  "EventQueueTable_len t = LaneMap_len t"

definition EventQueueTable_is_empty :: "EventQueueTable \<Rightarrow> bool" where
  "EventQueueTable_is_empty t = LaneMap_is_empty t"

definition EventQueueTable_mutual_exclusion_break :: "EventQueueTable \<Rightarrow> u32 \<Rightarrow> (usize \<times> usize) option" where
  "EventQueueTable_mutual_exclusion_break t i =
     (case LaneMap_get t i of
        None \<Rightarrow> None
      | Some e \<Rightarrow> (if eq_waiters e \<noteq> [] \<and> eq_payloads e \<noteq> [] then Some (length (eq_payloads e), length (eq_waiters e))
                  else None))"

definition EventQueueTable_try_receive :: "u32 \<Rightarrow> EventQueueTable \<Rightarrow> EventQueueReceive option \<times> EventQueueTable" where
  "EventQueueTable_try_receive i =
     LaneMap_with EventQueueEntry_lanes i None (\<lambda>e.
       case eq_payloads e of
         p # ps \<Rightarrow> (Some (Delivered p), e\<lparr>eq_payloads := ps\<rparr>)
       | [] \<Rightarrow> (Some QR_Empty, e))"

text \<open>The batch pops \<open>min\<close> of what is buffered and what is asked for, so no pop finds the queue empty.\<close>

definition EventQueueTable_try_receive_batch ::
    "u32 \<Rightarrow> usize \<Rightarrow> EventQueueTable \<Rightarrow> EventPayload list option \<times> EventQueueTable" where
  "EventQueueTable_try_receive_batch i max_count =
     LaneMap_with EventQueueEntry_lanes i None (\<lambda>e.
       let n = min (length (eq_payloads e)) max_count
       in (Some (take n (eq_payloads e)), e\<lparr>eq_payloads := drop n (eq_payloads e)\<rparr>))"

definition EventQueueTable_enqueue_waiter ::
    "u32 \<Rightarrow> PpuThreadId \<Rightarrow> u32 \<Rightarrow> EventQueueTable \<Rightarrow> (EventQueueEnqueueError + unit) \<times> EventQueueTable" where
  "EventQueueTable_enqueue_waiter i thread out_ptr =
     LaneMap_with EventQueueEntry_lanes i (Inl QEE_UnknownId) (\<lambda>e.
       if list_ex (\<lambda>w. qw_thread w = thread) (eq_waiters e) then (Inl QEE_DuplicateWaiter, e)
       else (Inr (), e\<lparr>eq_waiters := eq_waiters e @ [\<lparr>qw_thread = thread, qw_out_ptr = out_ptr\<rparr>]\<rparr>))"

definition EventQueueTable_remove_waiter ::
    "u32 \<Rightarrow> PpuThreadId \<Rightarrow> EventQueueTable \<Rightarrow> EventQueueWaiter option \<times> EventQueueTable" where
  "EventQueueTable_remove_waiter i thread =
     LaneMap_with EventQueueEntry_lanes i None (\<lambda>e.
       case list_position (\<lambda>w. qw_thread w = thread) (eq_waiters e) of
         None \<Rightarrow> (None, e)
       | Some pos \<Rightarrow> (Some (eq_waiters e ! pos), e\<lparr>eq_waiters := remove_at pos (eq_waiters e)\<rparr>))"

definition EventQueueTable_purge_waiters_of ::
    "PpuThreadId set \<Rightarrow> EventQueueTable \<Rightarrow> (u32 \<times> PpuThreadId) list \<times> EventQueueTable" where
  "EventQueueTable_purge_waiters_of threads t =
     prod.swap (LaneMap_for_each_mut EventQueueEntry_lanes
       (\<lambda>removed i e. let (removed, ws) = purge_waiters qw_thread threads i removed (eq_waiters e)
                      in (e\<lparr>eq_waiters := ws\<rparr>, removed))
       t [])"

definition EventQueueTable_send_and_wake_or_enqueue ::
    "u32 \<Rightarrow> EventPayload \<Rightarrow> EventQueueTable \<Rightarrow> EventQueueSend \<times> EventQueueTable" where
  "EventQueueTable_send_and_wake_or_enqueue i payload =
     LaneMap_with EventQueueEntry_lanes i QS_Unknown (\<lambda>e.
       case eq_waiters e of
         w # ws \<Rightarrow> (Woke (qw_thread w) (qw_out_ptr w) payload, e\<lparr>eq_waiters := ws\<rparr>)
       | [] \<Rightarrow>
           (if length (eq_payloads e) \<ge> unat (eq_size e) then (QS_Full, e)
            else (QS_Enqueued, e\<lparr>eq_payloads := eq_payloads e @ [payload]\<rparr>)))"

definition EventQueueTable_sync_partial :: "EventQueueTable \<Rightarrow> u128" where
  "EventQueueTable_sync_partial t = lm_partial t"

definition EventQueueTable_sync_partial_from_scratch :: "EventQueueTable \<Rightarrow> u128" where
  "EventQueueTable_sync_partial_from_scratch t = LaneMap_partial_from_scratch EventQueueEntry_lanes t"

section \<open>Event ports\<close>

record EventPortEntry =
  po_port_type :: u64
  po_name :: u64
  po_queue :: "u32 option"

datatype EventPortConnectError = PCE_UnknownPort | WrongType | AlreadyConnected

datatype EventPortDisconnectError = PDE_UnknownPort | NotConnected

datatype EventPortDestroyError = PXE_UnknownPort | PXE_Connected

definition EventPortEntry_lanes :: "EventPortEntry lane_value" where
  "EventPortEntry_lanes e lanes =
     (let lanes = ObjectLanes_lane 1 0 (po_port_type e) lanes;
          lanes = ObjectLanes_lane 2 0 (po_name e) lanes;
          lanes = ObjectLanes_lane 3 0 (of_bool (po_queue e \<noteq> None)) lanes
      in ObjectLanes_lane 4 0 (case po_queue e of None \<Rightarrow> 0 | Some q \<Rightarrow> ucast q) lanes)"

type_synonym EventPortTable = "(u32, EventPortEntry) LaneMap"

definition EventPortTable_new :: EventPortTable where
  "EventPortTable_new = LaneMap_new source_EVENT_PORT ucast"

definition EventPortTable_create_with_id :: "u32 \<Rightarrow> u64 \<Rightarrow> u64 \<Rightarrow> EventPortTable \<Rightarrow> EventPortTable" where
  "EventPortTable_create_with_id i port_type name t =
     snd (LaneMap_insert EventPortEntry_lanes i \<lparr>po_port_type = port_type, po_name = name, po_queue = None\<rparr> t)"

definition EventPortTable_lookup :: "EventPortTable \<Rightarrow> u32 \<Rightarrow> EventPortEntry option" where
  "EventPortTable_lookup t i = LaneMap_get t i"

definition EventPortTable_is_empty :: "EventPortTable \<Rightarrow> bool" where
  "EventPortTable_is_empty t = LaneMap_is_empty t"

definition EventPortTable_sync_partial :: "EventPortTable \<Rightarrow> u128" where
  "EventPortTable_sync_partial t = lm_partial t"

definition EventPortTable_sync_partial_from_scratch :: "EventPortTable \<Rightarrow> u128" where
  "EventPortTable_sync_partial_from_scratch t = LaneMap_partial_from_scratch EventPortEntry_lanes t"

definition EventPortTable_connect ::
    "u32 \<Rightarrow> u32 \<Rightarrow> u64 \<Rightarrow> EventPortTable \<Rightarrow> (EventPortConnectError + unit) \<times> EventPortTable" where
  "EventPortTable_connect i queue_id required_type =
     LaneMap_with EventPortEntry_lanes i (Inl PCE_UnknownPort) (\<lambda>port.
       if po_port_type port \<noteq> required_type then (Inl WrongType, port)
       else if po_queue port \<noteq> None then (Inl AlreadyConnected, port)
       else (Inr (), port\<lparr>po_queue := Some queue_id\<rparr>))"

definition EventPortTable_disconnect :: "u32 \<Rightarrow> EventPortTable \<Rightarrow> (EventPortDisconnectError + unit) \<times> EventPortTable" where
  "EventPortTable_disconnect i =
     LaneMap_with EventPortEntry_lanes i (Inl PDE_UnknownPort) (\<lambda>port.
       let taken = po_queue port; port = port\<lparr>po_queue := None\<rparr>
       in if taken = None then (Inl NotConnected, port) else (Inr (), port))"

definition EventPortTable_destroy :: "u32 \<Rightarrow> EventPortTable \<Rightarrow> (EventPortDestroyError + unit) \<times> EventPortTable" where
  "EventPortTable_destroy i t =
     (case LaneMap_get t i of
        None \<Rightarrow> (Inl PXE_UnknownPort, t)
      | Some port \<Rightarrow>
          (if po_queue port \<noteq> None then (Inl PXE_Connected, t)
           else (Inr (), snd (LaneMap_remove EventPortEntry_lanes i t))))"

definition EventPortTable_unbind_queue :: "u32 \<Rightarrow> EventPortTable \<Rightarrow> EventPortTable" where
  "EventPortTable_unbind_queue queue_id t =
     fst (LaneMap_for_each_mut EventPortEntry_lanes
       (\<lambda>_ _ port. (if po_queue port = Some queue_id then port\<lparr>po_queue := None\<rparr> else port, ())) t ())"

section \<open>The history of one queue\<close>

text \<open>
  What an observer of queue \<open>i\<close> writes down, from the results of the calls alone: the payloads
  the queue accepted, the payloads it delivered (those inside a \<^const>\<open>Woke\<close>, and those a receive
  returned), the receivers in line, and whether every hand-off so far named the receiver at the
  head of that line with the address it waits at.
\<close>

record QueueLog =
  ql_sent :: "EventPayload list"
  ql_got :: "EventPayload list"
  ql_line :: "EventQueueWaiter list"
  ql_in_turn :: bool

definition empty_log :: QueueLog where
  "empty_log = \<lparr>ql_sent = [], ql_got = [], ql_line = [], ql_in_turn = True\<rparr>"

fun log_send :: "EventPayload \<Rightarrow> EventQueueSend \<Rightarrow> QueueLog \<Rightarrow> QueueLog" where
  "log_send p (Woke c ptr q) l =
     l\<lparr>ql_sent := ql_sent l @ [p], ql_got := ql_got l @ [q], ql_line := tl (ql_line l),
       ql_in_turn := (ql_in_turn l \<and> ql_line l \<noteq> [] \<and> hd (ql_line l) = \<lparr>qw_thread = c, qw_out_ptr = ptr\<rparr>)\<rparr>"
| "log_send p QS_Enqueued l = l\<lparr>ql_sent := ql_sent l @ [p]\<rparr>"
| "log_send p _ l = l"

definition log_got :: "EventPayload list \<Rightarrow> QueueLog \<Rightarrow> QueueLog" where
  "log_got ps l = l\<lparr>ql_got := ql_got l @ ps\<rparr>"

definition log_park :: "PpuThreadId \<Rightarrow> u32 \<Rightarrow> EventQueueEnqueueError + unit \<Rightarrow> QueueLog \<Rightarrow> QueueLog" where
  "log_park c ptr r l =
     (case r of Inl _ \<Rightarrow> l | Inr _ \<Rightarrow> l\<lparr>ql_line := ql_line l @ [\<lparr>qw_thread = c, qw_out_ptr = ptr\<rparr>]\<rparr>)"

definition log_leave :: "PpuThreadId set \<Rightarrow> QueueLog \<Rightarrow> QueueLog" where
  "log_leave threads l = l\<lparr>ql_line := filter (\<lambda>w. qw_thread w \<notin> threads) (ql_line l)\<rparr>"

text \<open>
  A run of the table from the creation of queue \<open>i\<close> to the present, with its log. A receiver is
  parked after a receive that found nothing; the other operations are unrestricted, on any queue.
\<close>

inductive queue_run :: "u32 \<Rightarrow> EventQueueTable \<Rightarrow> QueueLog \<Rightarrow> bool" for i where
  created: "lm_inv EventQueueEntry_lanes t \<Longrightarrow> EventQueueTable_create_with_id i sz t = (True, t') \<Longrightarrow> queue_run i t' empty_log"
| send: "queue_run i t l \<Longrightarrow> EventQueueTable_send_and_wake_or_enqueue j p t = (r, t') \<Longrightarrow>
    queue_run i t' (if j = i then log_send p r l else l)"
| receive: "queue_run i t l \<Longrightarrow> EventQueueTable_try_receive j t = (r, t') \<Longrightarrow>
    queue_run i t' (case r of Some (Delivered p) \<Rightarrow> (if j = i then log_got [p] l else l) | _ \<Rightarrow> l)"
| batch: "queue_run i t l \<Longrightarrow> EventQueueTable_try_receive_batch j n t = (r, t') \<Longrightarrow>
    queue_run i t' (case r of Some ps \<Rightarrow> (if j = i then log_got ps l else l) | _ \<Rightarrow> l)"
| park: "queue_run i t l \<Longrightarrow> fst (EventQueueTable_try_receive j t) = Some QR_Empty \<Longrightarrow>
    EventQueueTable_enqueue_waiter j c ptr t = (r, t') \<Longrightarrow> queue_run i t' (if j = i then log_park c ptr r l else l)"
| unpark: "queue_run i t l \<Longrightarrow>
    queue_run i (snd (EventQueueTable_remove_waiter j c t)) (if j = i then log_leave {c} l else l)"
| purge: "queue_run i t l \<Longrightarrow> queue_run i (snd (EventQueueTable_purge_waiters_of threads t)) (log_leave threads l)"
| create_other: "queue_run i t l \<Longrightarrow> queue_run i (snd (EventQueueTable_create_with_id j sz t)) l"
| destroy_other: "queue_run i t l \<Longrightarrow> j \<noteq> i \<Longrightarrow> queue_run i (snd (EventQueueTable_destroy j t)) l"
| destroy_waking_other: "queue_run i t l \<Longrightarrow> j \<noteq> i \<Longrightarrow>
    queue_run i (snd (EventQueueTable_destroy_with_waiters j t)) l"

definition queue_ok :: "EventQueueEntry \<Rightarrow> bool" where
  "queue_ok e \<longleftrightarrow>
     (eq_payloads e = [] \<or> eq_waiters e = []) \<and> length (eq_payloads e) \<le> unat (eq_size e) \<and>
     distinct (map qw_thread (eq_waiters e))"

text \<open>
  The log of a run and the state: what was accepted is what was delivered followed by what is
  buffered, and the line is the list of parked receivers.
\<close>

definition log_fits :: "QueueLog \<Rightarrow> EventQueueEntry \<Rightarrow> bool" where
  "log_fits l e \<longleftrightarrow> ql_sent l = ql_got l @ eq_payloads e \<and> ql_line l = eq_waiters e \<and> ql_in_turn l"

definition queue_state :: "u32 \<Rightarrow> EventQueueTable \<Rightarrow> QueueLog \<Rightarrow> bool" where
  "queue_state i t l \<longleftrightarrow>
     lm_inv EventQueueEntry_lanes t \<and> (\<exists>e. LaneMap_get t i = Some e \<and> queue_ok e \<and> log_fits l e)"

interpretation queue_parking: parking EventQueueEntry_lanes eq_waiters "\<lambda>ws e. e\<lparr>eq_waiters := ws\<rparr>" qw_thread
  by unfold_locales simp

lemma EventQueueTable_purge_eq:
  "EventQueueTable_purge_waiters_of threads t =
     prod.swap (LaneMap_for_each_mut EventQueueEntry_lanes
       (purge_closure eq_waiters (\<lambda>ws e. e\<lparr>eq_waiters := ws\<rparr>) qw_thread threads) t [])"
  unfolding EventQueueTable_purge_waiters_of_def purge_waiters_closure ..

lemma queue_ok_ops:
  "queue_ok (EventQueueEntry_new sz)"
  "queue_ok e \<Longrightarrow> queue_ok (e\<lparr>eq_waiters := filter P (eq_waiters e)\<rparr>)"
  "queue_ok e \<Longrightarrow> eq_waiters e = w # ws \<Longrightarrow> queue_ok (e\<lparr>eq_waiters := ws\<rparr>)"
  "queue_ok e \<Longrightarrow> queue_ok (e\<lparr>eq_payloads := drop n (eq_payloads e)\<rparr>)"
  "queue_ok e \<Longrightarrow> eq_waiters e = [] \<Longrightarrow> length (eq_payloads e) < unat (eq_size e) \<Longrightarrow>
     queue_ok (e\<lparr>eq_payloads := eq_payloads e @ [p]\<rparr>)"
  by (auto simp: queue_ok_def EventQueueEntry_new_def distinct_map_filter)

lemma queue_ok_waiting: "queue_ok e \<Longrightarrow> eq_waiters e = w # ws \<Longrightarrow> eq_payloads e = []"
  by (simp add: queue_ok_def)

lemma queue_ok_remove_at_eq:
  "queue_ok e \<Longrightarrow> list_position (\<lambda>w. qw_thread w = c) (eq_waiters e) = Some p \<Longrightarrow>
   remove_at p (eq_waiters e) = filter (\<lambda>w. qw_thread w \<noteq> c) (eq_waiters e)"
  using remove_at_position(1) [of qw_thread "eq_waiters e" c p] by (simp add: queue_ok_def)

lemma no_position: "list_position (\<lambda>w. qw_thread w = c) ws = None \<Longrightarrow> filter (\<lambda>w. qw_thread w \<noteq> c) ws = ws"
  by (induction ws) (auto split: if_splits)

text \<open>An operation on queue \<open>j\<close> through the guard, seen from queue \<open>i\<close>.\<close>

lemma queue_state_with:
  assumes "queue_state i t l"
    and "\<And>e. LaneMap_get t i = Some e \<Longrightarrow> queue_ok e \<Longrightarrow> log_fits l e \<Longrightarrow> j = i \<Longrightarrow>
           queue_ok (snd (body e)) \<and> log_fits l' (snd (body e))"
    and "j \<noteq> i \<Longrightarrow> l' = l"
  shows "queue_state i (snd (LaneMap_with EventQueueEntry_lanes j u body t)) l'"
  using assms by (auto simp: queue_state_def lm_inv_with LaneMap_get_with)

lemma queue_state_send:
  assumes st: "queue_state i t l" and r: "EventQueueTable_send_and_wake_or_enqueue j p t = (r, t')"
  shows "queue_state i t' (if j = i then log_send p r l else l)"
proof -
  have t': "t' = snd (EventQueueTable_send_and_wake_or_enqueue j p t)" and r': "r = fst (EventQueueTable_send_and_wake_or_enqueue j p t)"
    using r by simp_all
  show ?thesis
    unfolding t' unfolding EventQueueTable_send_and_wake_or_enqueue_def
    by (rule queue_state_with [OF st])
       (auto simp: r' EventQueueTable_send_and_wake_or_enqueue_def LaneMap_with_result queue_ok_ops queue_ok_waiting log_fits_def
             split: list.splits)
qed

lemma queue_state_receive:
  assumes st: "queue_state i t l" and r: "EventQueueTable_try_receive j t = (r, t')"
  shows "queue_state i t' (case r of Some (Delivered p) \<Rightarrow> (if j = i then log_got [p] l else l) | _ \<Rightarrow> l)"
proof -
  have t': "t' = snd (EventQueueTable_try_receive j t)" and r': "r = fst (EventQueueTable_try_receive j t)"
    using r by simp_all
  have tl: "queue_ok e \<Longrightarrow> eq_payloads e = p # ps \<Longrightarrow> queue_ok (e\<lparr>eq_payloads := ps\<rparr>)" for e p ps
    using queue_ok_ops(4) [of e 1] by simp
  show ?thesis
    unfolding t' unfolding EventQueueTable_try_receive_def
    by (rule queue_state_with [OF st])
       (auto simp: r' EventQueueTable_try_receive_def LaneMap_with_result tl log_got_def log_fits_def
             split: list.splits option.splits EventQueueReceive.splits)
qed

lemma queue_state_batch:
  assumes st: "queue_state i t l" and r: "EventQueueTable_try_receive_batch j n t = (r, t')"
  shows "queue_state i t' (case r of Some ps \<Rightarrow> (if j = i then log_got ps l else l) | _ \<Rightarrow> l)"
proof -
  have t': "t' = snd (EventQueueTable_try_receive_batch j n t)" and r': "r = fst (EventQueueTable_try_receive_batch j n t)"
    using r by simp_all
  show ?thesis
    unfolding t' unfolding EventQueueTable_try_receive_batch_def
    by (rule queue_state_with [OF st])
       (auto simp: r' EventQueueTable_try_receive_batch_def LaneMap_with_result queue_ok_ops Let_def log_got_def log_fits_def
             split: option.splits)
qed

lemma queue_state_park:
  assumes st: "queue_state i t l" and empty: "fst (EventQueueTable_try_receive j t) = Some QR_Empty"
    and r: "EventQueueTable_enqueue_waiter j c ptr t = (r, t')"
  shows "queue_state i t' (if j = i then log_park c ptr r l else l)"
proof -
  have t': "t' = snd (EventQueueTable_enqueue_waiter j c ptr t)" and r': "r = fst (EventQueueTable_enqueue_waiter j c ptr t)"
    using r by simp_all
  have "eq_payloads e = []" if "LaneMap_get t j = Some e" for e
    using empty that by (simp add: EventQueueTable_try_receive_def LaneMap_with_result split: list.splits)
  then show ?thesis
    unfolding t' unfolding EventQueueTable_enqueue_waiter_def
    by (intro queue_state_with [OF st])
       (auto simp: r' EventQueueTable_enqueue_waiter_def LaneMap_with_result queue_ok_def list_ex_iff log_park_def log_fits_def)
qed

lemma queue_state_unpark:
  assumes "queue_state i t l"
  shows "queue_state i (snd (EventQueueTable_remove_waiter j c t)) (if j = i then log_leave {c} l else l)"
  unfolding EventQueueTable_remove_waiter_def
  by (rule queue_state_with [OF assms])
     (auto simp: queue_ok_ops log_leave_def log_fits_def no_position queue_ok_remove_at_eq split: option.split)

lemma queue_state_purge:
  assumes "queue_state i t l"
  shows "queue_state i (snd (EventQueueTable_purge_waiters_of threads t)) (log_leave threads l)"
proof -
  obtain t' out where L: "LaneMap_for_each_mut EventQueueEntry_lanes
      (purge_closure eq_waiters (\<lambda>ws e. e\<lparr>eq_waiters := ws\<rparr>) qw_thread threads) t [] = (t', out)"
    by (cases "LaneMap_for_each_mut EventQueueEntry_lanes
      (purge_closure eq_waiters (\<lambda>ws e. e\<lparr>eq_waiters := ws\<rparr>) qw_thread threads) t []")
  have "lm_inv EventQueueEntry_lanes t'"
    using assms lm_inv_for_each_mut [of EventQueueEntry_lanes t _ "[]"] L by (metis fst_conv queue_state_def)
  then show ?thesis
    using assms
    by (auto simp: EventQueueTable_purge_eq L queue_state_def queue_parking.purge_get(1) [OF L] queue_ok_ops log_leave_def log_fits_def)
qed

lemma queue_run_state: "queue_run i t l \<Longrightarrow> queue_state i t l"
proof (induction rule: queue_run.induct)
  case (created t sz t')
  then have "t' = snd (LaneMap_insert EventQueueEntry_lanes i (EventQueueEntry_new sz) t)"
    by (auto simp: EventQueueTable_create_with_id_def split: if_splits)
  moreover have "log_fits empty_log (EventQueueEntry_new sz)"
    by (simp add: log_fits_def empty_log_def EventQueueEntry_new_def)
  ultimately show ?case using created(1)
    by (simp add: queue_state_def lm_inv_insert LaneMap_get_insert queue_ok_ops)
next
  case send
  then show ?case by (intro queue_state_send)
next
  case receive
  then show ?case by (intro queue_state_receive)
next
  case batch
  then show ?case by (intro queue_state_batch)
next
  case (park t l j c ptr r t')
  then show ?case by (intro queue_state_park)
next
  case unpark
  then show ?case by (intro queue_state_unpark)
next
  case purge
  then show ?case by (intro queue_state_purge)
next
  case (create_other t l j sz)
  then show ?case
    by (auto simp: queue_state_def EventQueueTable_create_with_id_def LaneMap_contains_key_get lm_inv_insert LaneMap_get_insert)
next
  case (destroy_other t l j)
  then show ?case by (auto simp: queue_state_def EventQueueTable_destroy_def lm_inv_remove LaneMap_get_remove)
next
  case (destroy_waking_other t l j)
  then show ?case
    by (auto simp: queue_state_def EventQueueTable_destroy_with_waiters_def lm_inv_remove LaneMap_get_remove case_prod_beta)
qed

section \<open>Properties\<close>

text \<open>
  C19: An event queue delivers exactly once and in order. Over any run of the table since its
  creation, the payloads it accepted are those it delivered, as the receives and the hand-offs
  reported them, followed by those it buffers. Every hand-off named the receiver that had been in
  line longest and the address that receiver waits at. The queue never buffers payloads while
  receivers are parked, never holds more than its size, and parks nobody twice.
\<close>

theorem event_queue_exactly_once:
  assumes "queue_run i t l"
  shows "\<exists>e. EventQueueTable_lookup t i = Some e \<and> ql_sent l = ql_got l @ eq_payloads e \<and>
    ql_in_turn l \<and> ql_line l = eq_waiters e \<and>
    (eq_payloads e = [] \<or> eq_waiters e = []) \<and> length (eq_payloads e) \<le> unat (eq_size e) \<and>
    distinct (map qw_thread (eq_waiters e)) \<and> EventQueueTable_mutual_exclusion_break t i = None"
  using queue_run_state [OF assms]
  by (auto simp: queue_state_def EventQueueTable_lookup_def EventQueueTable_mutual_exclusion_break_def queue_ok_def log_fits_def)

definition event :: "u64 \<Rightarrow> EventPayload" where
  "event n = \<lparr>ep_source = n, ep_data1 = 0, ep_data2 = 0, ep_data3 = 0\<rparr>"

definition fresh_queue :: EventQueueTable where
  "fresh_queue = snd (EventQueueTable_create_with_id 6 1 EventQueueTable_new)"

lemma fresh_queue_facts:
  "queue_run 6 fresh_queue empty_log" "LaneMap_get fresh_queue 6 = Some (EventQueueEntry_new 1)" "lm_inv EventQueueEntry_lanes fresh_queue"
proof -
  have c: "EventQueueTable_create_with_id 6 1 EventQueueTable_new = (True, fresh_queue)"
    and f: "fresh_queue = snd (LaneMap_insert EventQueueEntry_lanes 6 (EventQueueEntry_new 1) EventQueueTable_new)"
    by (simp_all add: fresh_queue_def EventQueueTable_create_with_id_def LaneMap_contains_key_get EventQueueTable_new_def)
  show "queue_run 6 fresh_queue empty_log" using _ c by (rule queue_run.created) (simp add: EventQueueTable_new_def lm_inv_new)
  show "LaneMap_get fresh_queue 6 = Some (EventQueueEntry_new 1)" "lm_inv EventQueueEntry_lanes fresh_queue"
    unfolding f by (simp_all add: LaneMap_get_insert lm_inv_insert lm_inv_new EventQueueTable_new_def)
qed

definition parked_queue :: EventQueueTable where
  "parked_queue = snd (EventQueueTable_enqueue_waiter 6 (PpuThreadId 9) 0x100 fresh_queue)"

lemma parked_queue_facts:
  "queue_run 6 parked_queue (empty_log\<lparr>ql_line := [\<lparr>qw_thread = PpuThreadId 9, qw_out_ptr = 0x100\<rparr>]\<rparr>)"
  "LaneMap_get parked_queue 6 = Some ((EventQueueEntry_new 1)\<lparr>eq_waiters := [\<lparr>qw_thread = PpuThreadId 9, qw_out_ptr = 0x100\<rparr>]\<rparr>)"
proof -
  have e: "EventQueueTable_enqueue_waiter 6 (PpuThreadId 9) 0x100 fresh_queue = (Inr (), parked_queue)"
    by (intro prod_eqI) (simp_all add: parked_queue_def EventQueueTable_enqueue_waiter_def LaneMap_with_result
        fresh_queue_facts EventQueueEntry_new_def)
  have "fst (EventQueueTable_try_receive 6 fresh_queue) = Some QR_Empty"
    by (simp add: EventQueueTable_try_receive_def LaneMap_with_result fresh_queue_facts EventQueueEntry_new_def)
  from queue_run.park [OF fresh_queue_facts(1) this e]
  show "queue_run 6 parked_queue (empty_log\<lparr>ql_line := [\<lparr>qw_thread = PpuThreadId 9, qw_out_ptr = 0x100\<rparr>]\<rparr>)"
    by (simp add: log_park_def empty_log_def)
  show "LaneMap_get parked_queue 6 = Some ((EventQueueEntry_new 1)\<lparr>eq_waiters := [\<lparr>qw_thread = PpuThreadId 9, qw_out_ptr = 0x100\<rparr>]\<rparr>)"
    by (simp add: parked_queue_def EventQueueTable_enqueue_waiter_def LaneMap_get_with fresh_queue_facts EventQueueEntry_new_def)
qed

theorem event_queue_exactly_once_witness:
  "\<exists>q t e. EventQueueTable_send_and_wake_or_enqueue 6 (event 2) parked_queue = (Woke (PpuThreadId 9) 0x100 q, t) \<and>
     q = event 2 \<and> EventQueueTable_lookup t 6 = Some e \<and> eq_payloads e = [] \<and> eq_waiters e = []"
proof -
  obtain q t where s: "EventQueueTable_send_and_wake_or_enqueue 6 (event 2) parked_queue = (Woke (PpuThreadId 9) 0x100 q, t)"
    by (cases "EventQueueTable_send_and_wake_or_enqueue 6 (event 2) parked_queue")
       (auto simp: EventQueueTable_send_and_wake_or_enqueue_def LaneMap_with_result parked_queue_facts dest!: arg_cong [where f = fst])
  from event_queue_exactly_once [OF queue_run.send [OF parked_queue_facts(1) s]]
  obtain e where "EventQueueTable_lookup t 6 = Some e" "[event 2] = q # eq_payloads e" "[] = eq_waiters e"
    by (auto simp: empty_log_def)
  then show ?thesis using s by auto
qed

text \<open>
  A port that connected keeps its queue until a disconnect or the queue's destruction:
  a second connect is refused, a connected port is not destroyed, and after \<^verbatim>\<open>unbind_queue\<close>
  no port names the queue.
\<close>

lemma EventPortTable_unbind_queue_lookup:
  "EventPortTable_lookup (EventPortTable_unbind_queue q t) i =
     map_option (\<lambda>port. if po_queue port = Some q then port\<lparr>po_queue := None\<rparr> else port) (EventPortTable_lookup t i)"
proof -
  have "map_of (fst (retain_loop lv sh (\<lambda>s k v. (True, f v, ())) es p s)) k = map_option f (map_of es k)"
    for lv sh f es p s and k :: u32
    by (induction es arbitrary: p s) (auto simp: Let_def case_prod_beta)
  then show ?thesis
    by (simp add: EventPortTable_unbind_queue_def EventPortTable_lookup_def LaneMap_get_def LaneMap_for_each_mut_def
                  LaneMap_retain_def case_prod_beta)
qed

lemma EventPortTable_connect_keeps:
  assumes "lm_inv EventPortEntry_lanes t" and "EventPortTable_lookup t i = Some port" and "po_queue port = Some q"
  shows "EventPortTable_lookup (snd (EventPortTable_connect j q' ty t)) i = Some port"
    and "fst (EventPortTable_destroy i t) = Inl PXE_Connected"
proof -
  show "EventPortTable_lookup (snd (EventPortTable_connect j q' ty t)) i = Some port"
    using assms unfolding EventPortTable_lookup_def EventPortTable_connect_def LaneMap_get_with [OF assms(1)]
    by (cases "j = i") simp_all
  show "fst (EventPortTable_destroy i t) = Inl PXE_Connected"
    using assms(2,3) by (simp add: EventPortTable_lookup_def EventPortTable_destroy_def)
qed

end
