(* ===== verification/Lv2_Cond.thy ===== *)
theory Lv2_Cond
  imports Waiters Dispatch_Lanes
begin

text \<open>
  \<^verbatim>\<open>sync_primitives/cond.rs\<close> and \<^verbatim>\<open>lwcond.rs\<close>: condition variables, which park threads and hand
  them out in order. The release and the re-acquire of the mutex are the dispatcher's.
\<close>

section \<open>Condition variables\<close>

record CondEntry =
  ce_mutex_id :: u32
  ce_mutex_kind :: CondMutexKind
  ce_waiters :: WaiterList

definition CondEntry_new :: "u32 \<Rightarrow> CondMutexKind \<Rightarrow> CondEntry" where
  "CondEntry_new mutex_id mutex_kind = \<lparr>ce_mutex_id = mutex_id, ce_mutex_kind = mutex_kind, ce_waiters = WaiterList_new\<rparr>"

datatype CondCreateError = RedundantRegistration | CCE_IdCollision IdCollision u32 CondMutexKind

datatype CondEnqueueError = CEE_UnknownId | CEE_DuplicateWaiter

datatype CondSignalToError = CSE_UnknownId | TargetNotWaiting

definition CondEntry_lanes :: "CondEntry lane_value" where
  "CondEntry_lanes e lanes =
     (let lanes = ObjectLanes_lane 1 0 (ucast (ce_mutex_id e)) lanes;
          lanes = ObjectLanes_lane 2 0 (CondMutexKind_as_u64 (ce_mutex_kind e) + 1) lanes
      in snd (WaiterList_push_lanes (ce_waiters e) 3 lanes))"

type_synonym CondTable = "(u32, CondEntry) LaneMap"

definition CondTable_new :: CondTable where
  "CondTable_new = LaneMap_new source_COND ucast"

definition CondTable_create_with_id ::
    "u32 \<Rightarrow> u32 \<Rightarrow> CondMutexKind \<Rightarrow> CondTable \<Rightarrow> (CondCreateError + unit) \<times> CondTable" where
  "CondTable_create_with_id i mutex_id mutex_kind t =
     (case LaneMap_get t i of
        Some existing \<Rightarrow>
          (if ce_mutex_id existing = mutex_id \<and> ce_mutex_kind existing = mutex_kind then (Inl RedundantRegistration, t)
           else (Inl (CCE_IdCollision (IdCollision i) (ce_mutex_id existing) (ce_mutex_kind existing)), t))
      | None \<Rightarrow> (Inr (), snd (LaneMap_insert CondEntry_lanes i (CondEntry_new mutex_id mutex_kind) t)))"

definition CondTable_destroy :: "u32 \<Rightarrow> CondTable \<Rightarrow> CondEntry option \<times> CondTable" where
  "CondTable_destroy i t = LaneMap_remove CondEntry_lanes i t"

definition CondTable_lookup :: "CondTable \<Rightarrow> u32 \<Rightarrow> CondEntry option" where
  "CondTable_lookup t i = LaneMap_get t i"

definition CondTable_len :: "CondTable \<Rightarrow> usize" where
  "CondTable_len t = LaneMap_len t"

definition CondTable_is_empty :: "CondTable \<Rightarrow> bool" where
  "CondTable_is_empty t = LaneMap_is_empty t"

definition CondTable_enqueue_waiter :: "u32 \<Rightarrow> PpuThreadId \<Rightarrow> CondTable \<Rightarrow> (CondEnqueueError + unit) \<times> CondTable" where
  "CondTable_enqueue_waiter i waiter =
     LaneMap_with CondEntry_lanes i (Inl CEE_UnknownId) (\<lambda>e.
       case WaiterList_enqueue waiter (ce_waiters e) of
         (Inl _, ws) \<Rightarrow> (Inl CEE_DuplicateWaiter, e\<lparr>ce_waiters := ws\<rparr>)
       | (Inr _, ws) \<Rightarrow> (Inr (), e\<lparr>ce_waiters := ws\<rparr>))"

definition CondTable_signal_one :: "u32 \<Rightarrow> CondTable \<Rightarrow> PpuThreadId option \<times> CondTable" where
  "CondTable_signal_one i =
     LaneMap_with CondEntry_lanes i None (\<lambda>e.
       let (woken, ws) = WaiterList_dequeue_one (ce_waiters e) in (woken, e\<lparr>ce_waiters := ws\<rparr>))"

definition CondTable_signal_all :: "u32 \<Rightarrow> CondTable \<Rightarrow> PpuThreadId list option \<times> CondTable" where
  "CondTable_signal_all i =
     LaneMap_with CondEntry_lanes i None (\<lambda>e.
       let (woken, ws) = WaiterList_drain_all (ce_waiters e) in (Some woken, e\<lparr>ce_waiters := ws\<rparr>))"

definition CondTable_purge_waiters_of :: "PpuThreadId set \<Rightarrow> CondTable \<Rightarrow> (u32 \<times> PpuThreadId) list \<times> CondTable" where
  "CondTable_purge_waiters_of threads t =
     prod.swap (LaneMap_for_each_mut CondEntry_lanes
       (\<lambda>removed i e. let (gone, ws) = WaiterList_remove_set threads (ce_waiters e)
                      in (e\<lparr>ce_waiters := ws\<rparr>, removed @ map (Pair i) gone))
       t [])"

definition CondTable_signal_to :: "u32 \<Rightarrow> PpuThreadId \<Rightarrow> CondTable \<Rightarrow> (CondSignalToError + unit) \<times> CondTable" where
  "CondTable_signal_to i target =
     LaneMap_with CondEntry_lanes i (Inl CSE_UnknownId) (\<lambda>e.
       let (found, ws) = WaiterList_remove target (ce_waiters e)
       in (if found then Inr () else Inl TargetNotWaiting, e\<lparr>ce_waiters := ws\<rparr>))"

definition CondTable_sync_partial :: "CondTable \<Rightarrow> u128" where
  "CondTable_sync_partial t = lm_partial t"

definition CondTable_sync_partial_from_scratch :: "CondTable \<Rightarrow> u128" where
  "CondTable_sync_partial_from_scratch t = LaneMap_partial_from_scratch CondEntry_lanes t"

section \<open>Lightweight condition variables\<close>

record LwCondEntry =
  lc_lwmutex_id :: u32
  lc_waiters :: WaiterList

definition LwCondEntry_lanes :: "LwCondEntry lane_value" where
  "LwCondEntry_lanes e lanes =
     snd (WaiterList_push_lanes (lc_waiters e) 2 (ObjectLanes_lane 1 0 (ucast (lc_lwmutex_id e)) lanes))"

type_synonym LwCondTable = "(u32, LwCondEntry) LaneMap"

definition LwCondTable_new :: LwCondTable where
  "LwCondTable_new = LaneMap_new source_LWCOND ucast"

definition LwCondTable_create_with_id :: "u32 \<Rightarrow> u32 \<Rightarrow> LwCondTable \<Rightarrow> LwCondTable" where
  "LwCondTable_create_with_id i lwmutex_id t =
     snd (LaneMap_insert LwCondEntry_lanes i \<lparr>lc_lwmutex_id = lwmutex_id, lc_waiters = WaiterList_new\<rparr> t)"

definition LwCondTable_destroy :: "u32 \<Rightarrow> LwCondTable \<Rightarrow> LwCondEntry option \<times> LwCondTable" where
  "LwCondTable_destroy i t = LaneMap_remove LwCondEntry_lanes i t"

definition LwCondTable_lookup :: "LwCondTable \<Rightarrow> u32 \<Rightarrow> LwCondEntry option" where
  "LwCondTable_lookup t i = LaneMap_get t i"

definition LwCondTable_len :: "LwCondTable \<Rightarrow> usize" where
  "LwCondTable_len t = LaneMap_len t"

definition LwCondTable_is_empty :: "LwCondTable \<Rightarrow> bool" where
  "LwCondTable_is_empty t = LaneMap_is_empty t"

definition LwCondTable_enqueue_waiter :: "u32 \<Rightarrow> PpuThreadId \<Rightarrow> LwCondTable \<Rightarrow> bool \<times> LwCondTable" where
  "LwCondTable_enqueue_waiter i waiter =
     LaneMap_with LwCondEntry_lanes i False (\<lambda>e.
       let (r, ws) = WaiterList_enqueue waiter (lc_waiters e) in (is_ok r, e\<lparr>lc_waiters := ws\<rparr>))"

definition LwCondTable_dequeue_one :: "u32 \<Rightarrow> LwCondTable \<Rightarrow> PpuThreadId option \<times> LwCondTable" where
  "LwCondTable_dequeue_one i =
     LaneMap_with LwCondEntry_lanes i None (\<lambda>e.
       let (woken, ws) = WaiterList_dequeue_one (lc_waiters e) in (woken, e\<lparr>lc_waiters := ws\<rparr>))"

definition LwCondTable_drain_all :: "u32 \<Rightarrow> LwCondTable \<Rightarrow> PpuThreadId list option \<times> LwCondTable" where
  "LwCondTable_drain_all i =
     LaneMap_with LwCondEntry_lanes i None (\<lambda>e.
       let (woken, ws) = WaiterList_drain_all (lc_waiters e) in (Some woken, e\<lparr>lc_waiters := ws\<rparr>))"

definition LwCondTable_remove_waiter :: "u32 \<Rightarrow> PpuThreadId \<Rightarrow> LwCondTable \<Rightarrow> bool \<times> LwCondTable" where
  "LwCondTable_remove_waiter i waiter =
     LaneMap_with LwCondEntry_lanes i False (\<lambda>e.
       let (found, ws) = WaiterList_remove waiter (lc_waiters e) in (found, e\<lparr>lc_waiters := ws\<rparr>))"

definition LwCondTable_purge_waiters_of :: "PpuThreadId set \<Rightarrow> LwCondTable \<Rightarrow> (u32 \<times> PpuThreadId) list \<times> LwCondTable" where
  "LwCondTable_purge_waiters_of threads t =
     prod.swap (LaneMap_for_each_mut LwCondEntry_lanes
       (\<lambda>removed i e. let (gone, ws) = WaiterList_remove_set threads (lc_waiters e)
                      in (e\<lparr>lc_waiters := ws\<rparr>, removed @ map (Pair i) gone))
       t [])"

definition LwCondTable_sync_partial :: "LwCondTable \<Rightarrow> u128" where
  "LwCondTable_sync_partial t = lm_partial t"

definition LwCondTable_sync_partial_from_scratch :: "LwCondTable \<Rightarrow> u128" where
  "LwCondTable_sync_partial_from_scratch t = LaneMap_partial_from_scratch LwCondEntry_lanes t"

section \<open>Parking\<close>

interpretation cond_parking: parking CondEntry_lanes ce_waiters "\<lambda>ws e. e\<lparr>ce_waiters := ws\<rparr>" "\<lambda>t. t"
  by unfold_locales simp

interpretation lwcond_parking: parking LwCondEntry_lanes lc_waiters "\<lambda>ws e. e\<lparr>lc_waiters := ws\<rparr>" "\<lambda>t. t"
  by unfold_locales simp

lemma CondTable_purge_eq:
  "CondTable_purge_waiters_of threads t =
     prod.swap (LaneMap_for_each_mut CondEntry_lanes
       (purge_closure ce_waiters (\<lambda>ws e. e\<lparr>ce_waiters := ws\<rparr>) (\<lambda>t. t) threads) t [])"
  unfolding CondTable_purge_waiters_of_def remove_set_closure ..

lemma LwCondTable_purge_eq:
  "LwCondTable_purge_waiters_of threads t =
     prod.swap (LaneMap_for_each_mut LwCondEntry_lanes
       (purge_closure lc_waiters (\<lambda>ws e. e\<lparr>lc_waiters := ws\<rparr>) (\<lambda>t. t) threads) t [])"
  unfolding LwCondTable_purge_waiters_of_def remove_set_closure ..

abbreviation conds_ok :: "CondTable \<Rightarrow> bool" where
  "conds_ok t \<equiv> parks_distinct CondEntry_lanes ce_waiters (\<lambda>t. t) t"

lemma conds_ok_ops:
  "conds_ok CondTable_new"
  "conds_ok t \<Longrightarrow> conds_ok (snd (CondTable_create_with_id i m k t))"
  "conds_ok t \<Longrightarrow> conds_ok (snd (CondTable_destroy i t))"
  "conds_ok t \<Longrightarrow> conds_ok (snd (CondTable_enqueue_waiter i c t))"
  "conds_ok t \<Longrightarrow> conds_ok (snd (CondTable_signal_one i t))"
  "conds_ok t \<Longrightarrow> conds_ok (snd (CondTable_signal_all i t))"
  "conds_ok t \<Longrightarrow> conds_ok (snd (CondTable_signal_to i c t))"
  "conds_ok t \<Longrightarrow> conds_ok (snd (CondTable_purge_waiters_of threads t))"
proof -
  show "conds_ok CondTable_new" by (simp add: CondTable_new_def entries_ok_new)
  assume ok: "conds_ok t"
  show "conds_ok (snd (CondTable_create_with_id i m k t))"
    using ok by (simp add: CondTable_create_with_id_def entries_ok_insert CondEntry_new_def WaiterList_new_def split: option.split)
  show "conds_ok (snd (CondTable_destroy i t))"
    using ok by (simp add: CondTable_destroy_def entries_ok_remove)
  show "conds_ok (snd (CondTable_enqueue_waiter i c t))" unfolding CondTable_enqueue_waiter_def
    using ok by (intro entries_ok_with) (auto simp: WaiterList_enqueue_eq)
  show "conds_ok (snd (CondTable_signal_one i t))" unfolding CondTable_signal_one_def
    using ok by (intro entries_ok_with) (auto simp: WaiterList_dequeue_one_def split: list.splits)
  show "conds_ok (snd (CondTable_signal_all i t))" unfolding CondTable_signal_all_def
    using ok by (intro entries_ok_with) (auto simp: WaiterList_drain_all_def)
  show "conds_ok (snd (CondTable_signal_to i c t))" unfolding CondTable_signal_to_def
    using ok by (intro entries_ok_with) (auto simp: WaiterList_remove_eq)
  show "conds_ok (snd (CondTable_purge_waiters_of threads t))"
    using cond_parking.purge_inv [OF ok, of threads] by (simp add: CondTable_purge_eq)
qed

text \<open>
  Signalling one waiter at a time, as often as there are waiters, hands out the queue a
  broadcast drains.
\<close>

fun signal_n :: "nat \<Rightarrow> u32 \<Rightarrow> CondTable \<Rightarrow> PpuThreadId list \<times> CondTable" where
  "signal_n 0 i t = ([], t)"
| "signal_n (Suc n) i t =
     (case CondTable_signal_one i t of
        (None, t) \<Rightarrow> ([], t)
      | (Some w, t) \<Rightarrow> let (ws, t) = signal_n n i t in (w # ws, t))"

lemma signal_n_take:
  "conds_ok t \<Longrightarrow> CondTable_lookup t i = Some e \<Longrightarrow> fst (signal_n n i t) = take n (ce_waiters e)"
proof (induction n arbitrary: t e)
  case (Suc n)
  have inv: "lm_inv CondEntry_lanes t" using Suc.prems(1) by (simp add: entries_ok_def)
  define t' where "t' = snd (CondTable_signal_one i t)"
  have s: "fst (CondTable_signal_one i t) = fst (WaiterList_dequeue_one (ce_waiters e))"
    using Suc.prems(2) by (simp add: CondTable_signal_one_def CondTable_lookup_def LaneMap_with_result case_prod_beta)
  show ?case
  proof (cases "ce_waiters e")
    case Nil
    then show ?thesis using s by (cases "CondTable_signal_one i t") (simp add: WaiterList_dequeue_one_def)
  next
    case (Cons w ws)
    have "CondTable_lookup t' i = Some (e\<lparr>ce_waiters := ws\<rparr>)"
      using inv Suc.prems(2) Cons
      by (simp add: t'_def CondTable_signal_one_def CondTable_lookup_def LaneMap_get_with WaiterList_dequeue_one_def)
    then have "fst (signal_n n i t') = take n ws"
      using Suc.IH [of t'] conds_ok_ops(5) [OF Suc.prems(1)] by (simp add: t'_def)
    moreover have "CondTable_signal_one i t = (Some w, t')"
      using s Cons by (intro prod_eqI) (simp_all add: t'_def WaiterList_dequeue_one_def)
    ultimately show ?thesis using Cons by (simp add: case_prod_beta)
  qed
qed simp

end
