(* ===== verification/Ppu_Stack.thy ===== *)
theory Ppu_Stack
  imports Waiters "HOL-Library.Product_Lexorder"
begin

text \<open>
  \<^verbatim>\<open>cellgov_lv2/src/ppu_thread/stack.rs\<close>: a child thread's stack block and its placement at the
  lowest free address of the child-stack arena.
\<close>

unbundle bit_operations_syntax

section \<open>Operations\<close>

definition ABI_MIN_STACK_FRAME :: u64 where "ABI_MIN_STACK_FRAME = 0x70"
definition PS3_CHILD_STACKS_BASE :: u64 where "PS3_CHILD_STACKS_BASE = 0xD0101000"
definition PS3_CHILD_STACKS_SIZE :: u64 where "PS3_CHILD_STACKS_SIZE = 0x0FEFF000"
definition CHILD_STACK_BASE :: u64 where "CHILD_STACK_BASE = PS3_CHILD_STACKS_BASE"
definition CHILD_STACK_END :: u64 where "CHILD_STACK_END = CHILD_STACK_BASE + PS3_CHILD_STACKS_SIZE"

record ThreadStack =
  ts_base :: u64
  ts_size :: u64

definition ThreadStack_new :: "u64 \<Rightarrow> u64 \<Rightarrow> ThreadStack option" where
  "ThreadStack_new base sz = (if sz \<ge> ABI_MIN_STACK_FRAME then Some \<lparr>ts_base = base, ts_size = sz\<rparr> else None)"

definition ThreadStack_initial_sp :: "ThreadStack \<Rightarrow> u64" where
  "ThreadStack_initial_sp s = ts_base s + ts_size s - ABI_MIN_STACK_FRAME"

definition ThreadStack_end :: "ThreadStack \<Rightarrow> u64" where
  "ThreadStack_end s = ts_base s + ts_size s"

text \<open>The loop over the held ranges; both \<^verbatim>\<open>checked_add\<close>s return early.\<close>

fun place_loop :: "u64 \<Rightarrow> u64 \<Rightarrow> u64 \<Rightarrow> (u64 \<times> u64) list \<Rightarrow> ThreadStack option" where
  "place_loop msk sz cursor [] = None"
| "place_loop msk sz cursor ((start, stop) # rest) =
     (case checked_add cursor msk of
        None \<Rightarrow> None
      | Some c \<Rightarrow>
          (let base = c AND NOT msk
           in case checked_add base sz of
                None \<Rightarrow> None
              | Some limit \<Rightarrow>
                  (if limit \<le> start then Some \<lparr>ts_base = base, ts_size = sz\<rparr>
                   else place_loop msk sz (max cursor stop) rest)))"

definition place_child_stack :: "(u64 \<times> u64) list \<Rightarrow> u64 \<Rightarrow> u64 \<Rightarrow> ThreadStack option" where
  "place_child_stack live sz align =
     (if sz < ABI_MIN_STACK_FRAME then None
      else let msk = max align 0x10 - 1;
               held = filter (\<lambda>(base, len). len > 0 \<and> base < CHILD_STACK_END) live;
               held = map (\<lambda>(base, len). (base, saturating_add base len)) held;
               held = filter (\<lambda>(_, stop). stop > CHILD_STACK_BASE) held
           in place_loop msk sz CHILD_STACK_BASE (sort held @ [(CHILD_STACK_END, CHILD_STACK_END)]))"

section \<open>Rounding up\<close>

definition round_up :: "nat \<Rightarrow> nat \<Rightarrow> nat" where
  "round_up k c = (c + 2 ^ k - 1) div 2 ^ k * 2 ^ k"

lemma round_up_ge: "c \<le> round_up k c"
proof -
  define n :: nat where "n = 2 ^ k"
  have n: "0 < n" by (simp add: n_def)
  have "c + n - 1 < (c + n - 1) div n * n + n"
    using div_mod_decomp [of "c + n - 1" n] mod_less_divisor [OF n, of "c + n - 1"] by linarith
  then show ?thesis unfolding round_up_def n_def [symmetric] using n by linarith
qed

lemma round_up_multiple: "2 ^ k dvd round_up k c"
  by (simp add: round_up_def)

lemma round_up_least:
  assumes "2 ^ k dvd a" and "c \<le> a"
  shows "round_up k c \<le> a"
proof -
  define n :: nat where "n = 2 ^ k"
  have n: "0 < n" by (simp add: n_def)
  obtain q where q: "a = q * n" using assms(1) by (metis dvd_def mult.commute n_def)
  have "c + n - 1 < (q + 1) * n" using assms(2) q n by simp
  then have "(c + n - 1) div n < q + 1" by (rule less_mult_imp_div_less)
  then show ?thesis by (simp add: round_up_def n_def [symmetric] q)
qed

lemma unat_and_not_mask:
  assumes "k < 64"
  shows "unat ((c :: u64) AND NOT (2 ^ k - 1)) = unat c div 2 ^ k * 2 ^ k"
proof -
  have "c AND NOT (mask k) = push_bit k (drop_bit k c)"
    by (rule bit_word_eqI) (auto simp: bit_and_iff bit_not_iff bit_mask_iff bit_push_bit_iff bit_drop_bit_eq)
  moreover have "unat (push_bit k (drop_bit k c)) = unat c div 2 ^ k * 2 ^ k"
  proof -
    have "unat c div 2 ^ k * 2 ^ k < 2 ^ 64"
      using unat_lt_2p [of c] by (intro le_less_trans [OF div_times_less_eq_dividend]) simp
    moreover have "take_bit 64 (unat c) = unat c"
      by (rule take_bit_nat_eq_self) (use unat_lt_2p [of c] in simp)
    ultimately show ?thesis
      unfolding unsigned_push_bit_eq unsigned_drop_bit_eq
      by (simp add: push_bit_eq_mult drop_bit_eq_div take_bit_nat_eq_self)
  qed
  ultimately show ?thesis by (simp add: mask_eq_decr_exp)
qed

lemma unat_low_mask: "k < 64 \<Longrightarrow> unat (2 ^ k - 1 :: u64) = 2 ^ k - 1"
proof -
  assume k: "k < 64"
  have "unat (of_nat (2 ^ k) :: u64) = 2 ^ k"
    using power_strict_increasing [OF k, of "2 :: nat"] by (intro unat_of_nat_no_wrap) simp
  then have p: "unat (2 ^ k :: u64) = 2 ^ k" by simp
  then show ?thesis by (subst unat_minus_no_wrap) (simp_all add: word_le_nat_alt)
qed

lemma round_up_word:
  assumes "k < 64" and "checked_add c (2 ^ k - 1) = Some (s :: u64)"
  shows "unat (s AND NOT (2 ^ k - 1)) = round_up k (unat c)"
proof -
  have "unat s = unat c + (2 ^ k - 1)"
    using assms(2) by (auto simp: checked_add_Some_iff unat_plus_no_wrap unat_low_mask [OF assms(1)])
  then show ?thesis using assms(1) by (simp add: unat_and_not_mask round_up_def)
qed

lemma round_up_overflow:
  assumes "k < 64" and "checked_add c (2 ^ k - 1 :: u64) = None"
  shows "2 ^ 64 \<le> round_up k (unat c)"
proof -
  have "2 ^ 64 \<le> unat c + 2 ^ k - 1" using assms(2) by (simp add: checked_add_None_iff unat_low_mask [OF assms(1)])
  then have "2 ^ 64 div 2 ^ k \<le> (unat c + 2 ^ k - 1) div 2 ^ k" by (rule div_le_mono)
  then have "2 ^ 64 div 2 ^ k * 2 ^ k \<le> round_up k (unat c)" unfolding round_up_def by (rule mult_le_mono1)
  moreover have "(2 ^ k :: nat) dvd 2 ^ 64" using assms(1) by (intro le_imp_power_dvd) simp
  ultimately show ?thesis by simp
qed

section \<open>First fit\<close>

text \<open>
  Block \<open>a\<close> of \<open>n\<close> bytes, on a multiple of \<open>2 ^ k\<close> at or above the cursor, ends within the arena
  and meets none of the held ranges.
\<close>

definition candidate :: "nat \<Rightarrow> nat \<Rightarrow> nat \<Rightarrow> (u64 \<times> u64) list \<Rightarrow> nat \<Rightarrow> bool" where
  "candidate k n cursor held a \<longleftrightarrow>
     2 ^ k dvd a \<and> cursor \<le> a \<and> a + n \<le> unat CHILD_STACK_END \<and>
     (\<forall>(start, stop) \<in> set held. a + n \<le> unat start \<or> unat stop \<le> a)"

definition least_fit :: "nat \<Rightarrow> u64 \<Rightarrow> nat \<Rightarrow> (u64 \<times> u64) list \<Rightarrow> ThreadStack option \<Rightarrow> bool" where
  "least_fit k sz cursor held r \<longleftrightarrow>
     (case r of
        None \<Rightarrow> (\<forall>a. \<not> candidate k (unat sz) cursor held a)
      | Some s \<Rightarrow> ts_size s = sz \<and> candidate k (unat sz) cursor held (unat (ts_base s)) \<and>
                  (\<forall>a. candidate k (unat sz) cursor held a \<longrightarrow> unat (ts_base s) \<le> a))"

lemma candidate_round_up: "candidate k n c held a \<Longrightarrow> round_up k c \<le> a"
  by (simp add: candidate_def round_up_least)

lemma candidate_bound: "candidate k n c held a \<Longrightarrow> a + n < 2 ^ 64"
  using unat_lt_2p [of CHILD_STACK_END] by (simp add: candidate_def)

lemma no_candidate: "2 ^ 64 \<le> round_up k c + n \<Longrightarrow> \<not> candidate k n c held a"
  using candidate_round_up [of k n c held a] candidate_bound [of k n c held a] by linarith

text \<open>One turn of the loop: the early returns, the hit, and the move of the cursor.\<close>

lemma place_loop_turn [consumes 1, case_names none hit miss]:
  assumes k: "k < 64"
  obtains (none) "place_loop (2 ^ k - 1) sz c ((start, stop) # rest) = None" "2 ^ 64 \<le> round_up k (unat c) + unat sz"
    | (hit) b where "place_loop (2 ^ k - 1) sz c ((start, stop) # rest) = Some \<lparr>ts_base = b, ts_size = sz\<rparr>"
        "unat b = round_up k (unat c)" "round_up k (unat c) + unat sz \<le> unat start"
    | (miss) "place_loop (2 ^ k - 1) sz c ((start, stop) # rest) = place_loop (2 ^ k - 1) sz (max c stop) rest"
        "unat start < round_up k (unat c) + unat sz"
proof (cases "checked_add c (2 ^ k - 1)")
  case None
  then show ?thesis using none round_up_overflow [OF k None] by simp
next
  case (Some s)
  define b where "b = s AND NOT (2 ^ k - 1)"
  have b: "unat b = round_up k (unat c)" unfolding b_def by (rule round_up_word [OF k Some])
  show ?thesis
  proof (cases "checked_add b sz")
    case None
    have "2 ^ 64 \<le> round_up k (unat c) + unat sz" using None b by (simp add: checked_add_None_iff)
    then show ?thesis using none Some None by (simp add: b_def [symmetric])
  next
    case (Some limit)
    then have l: "unat limit = round_up k (unat c) + unat sz"
      using b by (auto simp: checked_add_Some_iff unat_plus_no_wrap)
    show ?thesis
    proof (cases "limit \<le> start")
      case True
      then show ?thesis using hit [of b] \<open>checked_add c (2 ^ k - 1) = Some s\<close> Some b l
        by (simp add: b_def [symmetric] word_le_nat_alt)
    next
      case False
      then show ?thesis using miss \<open>checked_add c (2 ^ k - 1) = Some s\<close> Some l
        by (simp add: b_def [symmetric] word_le_nat_alt)
    qed
  qed
qed

lemma place_loop_least:
  assumes k: "k < 64"
  shows "sorted (map fst held) \<Longrightarrow> \<forall>(start, stop) \<in> set held. start \<le> CHILD_STACK_END \<Longrightarrow>
    least_fit k sz (unat c) held (place_loop (2 ^ k - 1) sz c (held @ [(CHILD_STACK_END, CHILD_STACK_END)]))"
proof (induction held arbitrary: c)
  case Nil
  show ?case using k
  proof (cases rule: place_loop_turn [where sz = sz and c = c and start = CHILD_STACK_END and stop = CHILD_STACK_END and rest = "[]"])
    case none
    then show ?thesis by (simp add: least_fit_def no_candidate)
  next
    case (hit b)
    then show ?thesis
      by (simp add: least_fit_def candidate_round_up) (simp add: candidate_def round_up_ge round_up_multiple)
  next
    case miss
    then have "\<not> candidate k (unat sz) (unat c) [] a" for a
      using candidate_round_up [of k "unat sz" "unat c" "[]" a] by (auto simp: candidate_def)
    then show ?thesis using miss by (simp add: least_fit_def)
  qed
next
  case (Cons h held)
  obtain start stop where h: "h = (start, stop)" by (cases h)
  let ?rest = "held @ [(CHILD_STACK_END, CHILD_STACK_END)]"
  show ?case using k
  proof (cases rule: place_loop_turn [where sz = sz and c = c and start = start and stop = stop and rest = ?rest])
    case none
    then show ?thesis by (simp add: h least_fit_def no_candidate)
  next
    case (hit b)
    have "candidate k (unat sz) (unat c) (h # held) (round_up k (unat c))"
      using Cons.prems hit(3) by (fastforce simp: candidate_def h round_up_ge round_up_multiple word_le_nat_alt)
    then show ?thesis using hit by (simp add: h least_fit_def candidate_round_up)
  next
    case miss
    have "candidate k (unat sz) (unat c) (h # held) a = candidate k (unat sz) (unat (max c stop)) held a" for a
      using candidate_round_up [of k "unat sz" "unat c" "h # held" a]
        round_up_least [of k a "unat c"] miss(2)
      by (auto simp: candidate_def h unat_max)
    then have "candidate k (unat sz) (unat c) (h # held) = candidate k (unat sz) (unat (max c stop)) held" by (rule ext)
    moreover have "least_fit k sz (unat (max c stop)) held (place_loop (2 ^ k - 1) sz (max c stop) ?rest)"
      using Cons.prems by (intro Cons.IH) (auto simp: h)
    ultimately show ?thesis using miss(1) by (simp add: h least_fit_def del: place_loop.simps cong: option.case_cong)
  qed
qed

section \<open>Properties\<close>

text \<open>Block \<open>a\<close> is aligned, lies in the arena and overlaps no live stack.\<close>

definition free_block :: "(u64 \<times> u64) list \<Rightarrow> nat \<Rightarrow> nat \<Rightarrow> nat \<Rightarrow> bool" where
  "free_block live n align a \<longleftrightarrow>
     align dvd a \<and> unat CHILD_STACK_BASE \<le> a \<and> a + n \<le> unat CHILD_STACK_END \<and>
     (\<forall>(base, len) \<in> set live. len > 0 \<longrightarrow> a + n \<le> unat base \<or> unat base + unat len \<le> a)"

text \<open>The ranges the placement keeps are the ones that can meet a block of the arena.\<close>

lemma held_range:
  assumes "unat CHILD_STACK_BASE \<le> a" and "a + n \<le> unat CHILD_STACK_END"
  shows "(len > 0 \<longrightarrow> a + n \<le> unat base \<or> unat base + unat len \<le> a) \<longleftrightarrow>
    (len > 0 \<and> base < CHILD_STACK_END \<and> saturating_add base len > CHILD_STACK_BASE \<longrightarrow>
       a + n \<le> unat base \<or> unat (saturating_add base len) \<le> a)"
  using assms unat_lt_2p [of CHILD_STACK_END] unat_lt_2p [of CHILD_STACK_BASE]
  by (auto simp: word_less_nat_alt unat_saturating_add min_def CHILD_STACK_END_def CHILD_STACK_BASE_def
      PS3_CHILD_STACKS_BASE_def PS3_CHILD_STACKS_SIZE_def split: if_splits)

lemma candidate_free_block:
  "candidate k n (unat CHILD_STACK_BASE)
     (sort (filter (\<lambda>(_, stop). stop > CHILD_STACK_BASE)
       (map (\<lambda>(base, len). (base, saturating_add base len))
         (filter (\<lambda>(base, len). len > 0 \<and> base < CHILD_STACK_END) live)))) a \<longleftrightarrow>
   free_block live n (2 ^ k) a"
proof (cases "unat CHILD_STACK_BASE \<le> a \<and> a + n \<le> unat CHILD_STACK_END")
  case True
  have "free_block live n (2 ^ k) a \<longleftrightarrow> 2 ^ k dvd a \<and>
      (\<forall>(base, len) \<in> set live. len > 0 \<and> base < CHILD_STACK_END \<and> saturating_add base len > CHILD_STACK_BASE \<longrightarrow>
         a + n \<le> unat base \<or> unat (saturating_add base len) \<le> a)"
    using True held_range [of a n] by (simp add: free_block_def)
  then show ?thesis using True by (fastforce simp: candidate_def)
qed (auto simp: candidate_def free_block_def)

text \<open>
  C33: A child thread's stack is placed first fit: for a power-of-two alignment and a size of at
  least the smallest frame the block is the lowest aligned one in the child-stack arena that overlaps no live stack, and placement fails
  only when the arena has no such block.
\<close>

theorem place_child_stack_first_fit:
  assumes "max align 0x10 = 2 ^ k" and "k < 64" and "ABI_MIN_STACK_FRAME \<le> sz"
  shows "case place_child_stack live sz align of
      None \<Rightarrow> \<forall>a. \<not> free_block live (unat sz) (2 ^ k) a
    | Some s \<Rightarrow> ts_size s = sz \<and> free_block live (unat sz) (2 ^ k) (unat (ts_base s)) \<and>
        (\<forall>a. free_block live (unat sz) (2 ^ k) a \<longrightarrow> unat (ts_base s) \<le> a)"
proof -
  define held where "held = sort (filter (\<lambda>(_, stop). stop > CHILD_STACK_BASE)
      (map (\<lambda>(base, len). (base, saturating_add base len))
        (filter (\<lambda>(base, len). len > 0 \<and> base < CHILD_STACK_END) live)))"
  have "sorted held" by (simp add: held_def)
  then have s: "sorted (map fst held)"
    by (induction held) (auto simp: less_eq_prod_def less_imp_le)
  have "\<forall>(start, stop) \<in> set held. start \<le> CHILD_STACK_END" by (auto simp: held_def)
  then have "least_fit k sz (unat CHILD_STACK_BASE) held (place_child_stack live sz align)"
    using place_loop_least [OF assms(2) s, of sz CHILD_STACK_BASE] assms(1,3)
    by (simp add: place_child_stack_def held_def [symmetric] Let_def not_less [symmetric] del: place_loop.simps)
  moreover have "candidate k n (unat CHILD_STACK_BASE) held = free_block live n (2 ^ k)" for n
    unfolding held_def by (rule ext) (rule candidate_free_block)
  ultimately show ?thesis by (simp only: least_fit_def)
qed

theorem place_child_stack_first_fit_witness:
  "free_block [(0xD0101000, 0x1000)] 0x1000 (2 ^ 12) 0xD0102000 \<and>
   place_child_stack [(0xD0101000, 0x1000)] 0x1000 0x1000 = Some \<lparr>ts_base = 0xD0102000, ts_size = 0x1000\<rparr>"
proof -
  have p: "place_child_stack [(0xD0101000, 0x1000)] 0x1000 0x1000 = Some \<lparr>ts_base = 0xD0102000, ts_size = 0x1000\<rparr>"
    by (simp add: place_child_stack_def ABI_MIN_STACK_FRAME_def CHILD_STACK_END_def CHILD_STACK_BASE_def
                  PS3_CHILD_STACKS_BASE_def PS3_CHILD_STACKS_SIZE_def saturating_add_def checked_add_def Let_def)
  have "max 0x1000 0x10 = (2 ^ 12 :: u64)" "(12 :: nat) < 64" "ABI_MIN_STACK_FRAME \<le> 0x1000"
    by (simp_all add: ABI_MIN_STACK_FRAME_def)
  from place_child_stack_first_fit [OF this, of "[(0xD0101000, 0x1000)]"] show ?thesis by (simp add: p)
qed

end
