(* ===== verification/Ppu_Threads.thy ===== *)
theory Ppu_Threads
  imports Waiters
begin

text \<open>
  \<^verbatim>\<open>cellgov_lv2/src/ppu_thread/thread.rs\<close> and \<^verbatim>\<open>table.rs\<close>: the PPU threads of the LV2 host, their
  lifecycle, their unit bindings and the joiners parked on them.
\<close>

section \<open>Threads\<close>

datatype PpuThreadState = PT_Runnable | PT_Blocked GuestBlockReason | PT_Finished

definition PpuThreadState_is_alive :: "PpuThreadState \<Rightarrow> bool" where
  "PpuThreadState_is_alive s = (case s of PT_Runnable \<Rightarrow> True | PT_Blocked _ \<Rightarrow> True | PT_Finished \<Rightarrow> False)"

definition PpuThreadState_is_finished :: "PpuThreadState \<Rightarrow> bool" where
  "PpuThreadState_is_finished s = (case s of PT_Finished \<Rightarrow> True | PT_Runnable \<Rightarrow> False | PT_Blocked _ \<Rightarrow> False)"

record PpuThreadAttrs =
  pa_entry :: u64
  pa_arg :: u64
  pa_stack_base :: u32
  pa_stack_size :: u32
  pa_priority :: u32
  pa_tls_base :: u32

datatype AddJoinWaiter = Parked | UnknownTarget | SelfJoin | TargetAlreadyFinished | TargetNotJoinable

record PpuThread =
  pt_id :: PpuThreadId
  pt_unit_id :: UnitId
  pt_state :: PpuThreadState
  pt_attrs :: PpuThreadAttrs
  pt_exit_value :: "u64 option"
  pt_join_waiters :: "PpuThreadId list"
  pt_started :: bool
  pt_joinable :: bool

datatype StartThread = Started UnitId | ST_UnknownTarget | AlreadyStarted

text \<open>The payload lanes of a blocked thread: its 24 bytes as three little-endian words.\<close>

definition payload_words :: "bytes \<Rightarrow> u64 list" where
  "payload_words p = map (\<lambda>i. from_le (slice (8 * i) 8 p)) [0..<length p div 8]"

definition PpuThread_lanes :: "PpuThread lane_value" where
  "PpuThread_lanes t lanes =
     (let lanes = ObjectLanes_lane 1 0 (UnitId_raw (pt_unit_id t)) lanes;
          (state, reason) = (case pt_state t of
             PT_Runnable \<Rightarrow> (1, None) | PT_Blocked reason \<Rightarrow> (2, Some reason) | PT_Finished \<Rightarrow> (3, None));
          lanes = ObjectLanes_lane 2 0 state lanes;
          lanes = (case reason of
                     None \<Rightarrow> lanes
                   | Some reason \<Rightarrow>
                       slot_lanes 4 0 (payload_words (block_reason_payload reason))
                         (ObjectLanes_lane 3 0 (ucast (GuestBlockReason_stable_tag reason)) lanes));
          a = pt_attrs t;
          lanes = ObjectLanes_lane 5 0 (pa_entry a) lanes;
          lanes = ObjectLanes_lane 6 0 (pa_arg a) lanes;
          lanes = ObjectLanes_lane 7 0 (ucast (pa_stack_base a)) lanes;
          lanes = ObjectLanes_lane 8 0 (ucast (pa_stack_size a)) lanes;
          lanes = ObjectLanes_lane 9 0 (ucast (pa_priority a)) lanes;
          lanes = ObjectLanes_lane 10 0 (ucast (pa_tls_base a)) lanes;
          lanes = ObjectLanes_lane 11 0 (of_bool (pt_exit_value t \<noteq> None)) lanes;
          lanes = ObjectLanes_lane 12 0 (case pt_exit_value t of None \<Rightarrow> 0 | Some v \<Rightarrow> v) lanes;
          lanes = ObjectLanes_lane 13 0 (of_nat (length (pt_join_waiters t))) lanes;
          lanes = slot_lanes 14 0 (map PpuThreadId_raw (pt_join_waiters t)) lanes;
          lanes = (if \<not> pt_started t then ObjectLanes_lane 15 0 1 lanes else lanes)
      in if \<not> pt_joinable t then ObjectLanes_lane 16 0 1 lanes else lanes)"

definition PpuThreadId_lanes :: "PpuThreadId lane_value" where
  "PpuThreadId_lanes i lanes = ObjectLanes_lane 1 0 (PpuThreadId_raw i) lanes"

section \<open>The table\<close>

record PpuThreadTable =
  th_allocator :: PpuThreadIdAllocator
  th_threads :: "(PpuThreadId, PpuThread) LaneMap"
  th_unit_to_thread :: "(UnitId, PpuThreadId) LaneMap"

definition PpuThreadTable_new :: PpuThreadTable where
  "PpuThreadTable_new = \<lparr>th_allocator = PpuThreadIdAllocator_new,
     th_threads = LaneMap_new source_PPU_THREAD PpuThreadId_raw,
     th_unit_to_thread = LaneMap_new source_PPU_THREAD_UNIT UnitId_raw\<rparr>"

definition new_thread :: "PpuThreadId \<Rightarrow> UnitId \<Rightarrow> PpuThreadAttrs \<Rightarrow> bool \<Rightarrow> bool \<Rightarrow> PpuThread" where
  "new_thread i u attrs started joinable =
     \<lparr>pt_id = i, pt_unit_id = u, pt_state = PT_Runnable, pt_attrs = attrs, pt_exit_value = None,
      pt_join_waiters = [], pt_started = started, pt_joinable = joinable\<rparr>"

definition bind_thread :: "PpuThreadId \<Rightarrow> PpuThread \<Rightarrow> UnitId \<Rightarrow> PpuThreadTable \<Rightarrow> PpuThreadTable" where
  "bind_thread i thread u t =
     t\<lparr>th_threads := snd (LaneMap_insert PpuThread_lanes i thread (th_threads t)),
       th_unit_to_thread := snd (LaneMap_insert PpuThreadId_lanes u i (th_unit_to_thread t))\<rparr>"

text \<open>The two \<^verbatim>\<open>assert!\<close>s of \<^verbatim>\<open>insert_primary\<close> panic.\<close>

definition PpuThreadTable_insert_primary :: "UnitId \<Rightarrow> PpuThreadAttrs \<Rightarrow> PpuThreadTable \<Rightarrow> PpuThreadTable option" where
  "PpuThreadTable_insert_primary u attrs t =
     (if LaneMap_contains_key (th_threads t) PpuThreadId_PRIMARY then None
      else if \<not> LaneMap_is_empty (th_threads t) then None
      else Some (bind_thread PpuThreadId_PRIMARY (new_thread PpuThreadId_PRIMARY u attrs True True) u t))"

definition PpuThreadTable_insert_child ::
    "UnitId \<Rightarrow> PpuThreadAttrs \<Rightarrow> bool \<Rightarrow> bool \<Rightarrow> PpuThreadTable \<Rightarrow> PpuThreadId option \<times> PpuThreadTable" where
  "PpuThreadTable_insert_child u attrs started joinable t =
     (let (r, a) = PpuThreadIdAllocator_allocate (th_allocator t);
          t = t\<lparr>th_allocator := a\<rparr>
      in case r of
           None \<Rightarrow> (None, t)
         | Some i \<Rightarrow> (Some i, bind_thread i (new_thread i u attrs started joinable) u t))"

definition PpuThreadTable_create :: "UnitId \<Rightarrow> PpuThreadAttrs \<Rightarrow> PpuThreadTable \<Rightarrow> PpuThreadId option \<times> PpuThreadTable" where
  "PpuThreadTable_create u attrs t = PpuThreadTable_insert_child u attrs True True t"

definition PpuThreadTable_create_unstarted ::
    "UnitId \<Rightarrow> PpuThreadAttrs \<Rightarrow> bool \<Rightarrow> PpuThreadTable \<Rightarrow> PpuThreadId option \<times> PpuThreadTable" where
  "PpuThreadTable_create_unstarted u attrs joinable t = PpuThreadTable_insert_child u attrs False joinable t"

definition on_thread :: "PpuThreadId \<Rightarrow> 'r \<Rightarrow> (PpuThread \<Rightarrow> 'r \<times> PpuThread) \<Rightarrow> PpuThreadTable \<Rightarrow> 'r \<times> PpuThreadTable" where
  "on_thread i unknown body t =
     (let (r, ts) = LaneMap_with PpuThread_lanes i unknown body (th_threads t) in (r, t\<lparr>th_threads := ts\<rparr>))"

definition PpuThreadTable_start :: "PpuThreadId \<Rightarrow> PpuThreadTable \<Rightarrow> StartThread \<times> PpuThreadTable" where
  "PpuThreadTable_start i =
     on_thread i ST_UnknownTarget (\<lambda>thread.
       if pt_started thread then (AlreadyStarted, thread)
       else (Started (pt_unit_id thread), thread\<lparr>pt_started := True\<rparr>))"

definition PpuThreadTable_alias_unit :: "UnitId \<Rightarrow> PpuThreadId \<Rightarrow> PpuThreadTable \<Rightarrow> bool \<times> PpuThreadTable" where
  "PpuThreadTable_alias_unit u existing t =
     (if \<not> LaneMap_contains_key (th_threads t) existing then (False, t)
      else if LaneMap_contains_key (th_unit_to_thread t) u then (False, t)
      else (True, t\<lparr>th_unit_to_thread := snd (LaneMap_insert PpuThreadId_lanes u existing (th_unit_to_thread t))\<rparr>))"

definition PpuThreadTable_drop_alias :: "UnitId \<Rightarrow> PpuThreadTable \<Rightarrow> bool \<times> PpuThreadTable" where
  "PpuThreadTable_drop_alias u t =
     (let (removed, us) = LaneMap_remove PpuThreadId_lanes u (th_unit_to_thread t)
      in (removed \<noteq> None, t\<lparr>th_unit_to_thread := us\<rparr>))"

definition PpuThreadTable_get :: "PpuThreadTable \<Rightarrow> PpuThreadId \<Rightarrow> PpuThread option" where
  "PpuThreadTable_get t i = LaneMap_get (th_threads t) i"

text \<open>\<^verbatim>\<open>get_mut\<close> hands out the guard; the caller's change is \<open>f\<close>.\<close>

definition PpuThreadTable_get_mut :: "PpuThreadId \<Rightarrow> (PpuThread \<Rightarrow> PpuThread) \<Rightarrow> PpuThreadTable \<Rightarrow> bool \<times> PpuThreadTable" where
  "PpuThreadTable_get_mut i f = on_thread i False (\<lambda>thread. (True, f thread))"

definition PpuThreadTable_get_by_unit :: "PpuThreadTable \<Rightarrow> UnitId \<Rightarrow> PpuThread option" where
  "PpuThreadTable_get_by_unit t u =
     (case LaneMap_get (th_unit_to_thread t) u of None \<Rightarrow> None | Some i \<Rightarrow> LaneMap_get (th_threads t) i)"

definition PpuThreadTable_get_by_unit_mut :: "UnitId \<Rightarrow> (PpuThread \<Rightarrow> PpuThread) \<Rightarrow> PpuThreadTable \<Rightarrow> bool \<times> PpuThreadTable" where
  "PpuThreadTable_get_by_unit_mut u f t =
     (case LaneMap_get (th_unit_to_thread t) u of None \<Rightarrow> (False, t) | Some i \<Rightarrow> PpuThreadTable_get_mut i f t)"

definition PpuThreadTable_running_unit :: "PpuThreadTable \<Rightarrow> PpuThreadId \<Rightarrow> UnitId option" where
  "PpuThreadTable_running_unit t i =
     (case LaneMap_get (th_threads t) i of
        None \<Rightarrow> None
      | Some thread \<Rightarrow>
          (let aliases = map fst (filter (\<lambda>(u, aliased). aliased = i \<and> u \<noteq> pt_unit_id thread)
                 (lm_entries (th_unit_to_thread t)))
           in Some (if aliases = [] then pt_unit_id thread else List.last aliases)))"

definition PpuThreadTable_thread_id_for_unit :: "PpuThreadTable \<Rightarrow> UnitId \<Rightarrow> PpuThreadId option" where
  "PpuThreadTable_thread_id_for_unit t u = LaneMap_get (th_unit_to_thread t) u"

definition PpuThreadTable_purge_join_waiters_of ::
    "PpuThreadId set \<Rightarrow> PpuThreadTable \<Rightarrow> (PpuThreadId \<times> PpuThreadId) list \<times> PpuThreadTable" where
  "PpuThreadTable_purge_join_waiters_of threads t =
     (let (ts, removed) = LaneMap_for_each_mut PpuThread_lanes
            (\<lambda>removed target thread.
               let (removed, ws) = purge_waiters (\<lambda>w. w) threads target removed (pt_join_waiters thread)
               in (thread\<lparr>pt_join_waiters := ws\<rparr>, removed))
            (th_threads t) []
      in (removed, t\<lparr>th_threads := ts\<rparr>))"

text \<open>The guard is dropped before the removal of a thread that is not joinable.\<close>

definition finish_thread :: "u64 \<Rightarrow> PpuThread \<Rightarrow> (PpuThreadId list \<times> bool) \<times> PpuThread" where
  "finish_thread exit_value thread =
     (if \<not> PpuThreadState_is_alive (pt_state thread) then (([], False), thread)
      else ((pt_join_waiters thread, \<not> pt_joinable thread),
            thread\<lparr>pt_state := PT_Finished, pt_exit_value := Some exit_value, pt_join_waiters := []\<rparr>))"

definition PpuThreadTable_mark_finished :: "PpuThreadId \<Rightarrow> u64 \<Rightarrow> PpuThreadTable \<Rightarrow> PpuThreadId list \<times> PpuThreadTable" where
  "PpuThreadTable_mark_finished i exit_value t =
     (let ((waiters, collected), t) = on_thread i ([], False) (finish_thread exit_value) t
      in (waiters,
          if collected then t\<lparr>th_threads := snd (LaneMap_remove PpuThread_lanes i (th_threads t))\<rparr> else t))"

definition PpuThreadTable_reap :: "PpuThreadId \<Rightarrow> PpuThreadTable \<Rightarrow> bool \<times> PpuThreadTable" where
  "PpuThreadTable_reap i t =
     (if \<not> (case LaneMap_get (th_threads t) i of None \<Rightarrow> False | Some th \<Rightarrow> PpuThreadState_is_finished (pt_state th))
      then (False, t)
      else let (removed, ts) = LaneMap_remove PpuThread_lanes i (th_threads t)
           in (removed \<noteq> None, t\<lparr>th_threads := ts\<rparr>))"

definition PpuThreadTable_take_join_waiters :: "PpuThreadId \<Rightarrow> PpuThreadTable \<Rightarrow> PpuThreadId list \<times> PpuThreadTable" where
  "PpuThreadTable_take_join_waiters i =
     on_thread i [] (\<lambda>thread. (pt_join_waiters thread, thread\<lparr>pt_join_waiters := []\<rparr>))"

definition PpuThreadTable_add_join_waiter :: "PpuThreadId \<Rightarrow> PpuThreadId \<Rightarrow> PpuThreadTable \<Rightarrow> AddJoinWaiter \<times> PpuThreadTable" where
  "PpuThreadTable_add_join_waiter target waiter t =
     (if target = waiter then (SelfJoin, t)
      else on_thread target UnknownTarget (\<lambda>thread.
             case pt_state thread of
               PT_Finished \<Rightarrow> (TargetAlreadyFinished, thread)
             | _ \<Rightarrow> (if \<not> pt_joinable thread then (TargetNotJoinable, thread)
                     else (Parked, thread\<lparr>pt_join_waiters := pt_join_waiters thread @ [waiter]\<rparr>))) t)"

definition PpuThreadTable_detach :: "PpuThreadId \<Rightarrow> PpuThreadTable \<Rightarrow> bool \<times> PpuThreadTable" where
  "PpuThreadTable_detach i = on_thread i False (\<lambda>thread. (True, thread\<lparr>pt_joinable := False\<rparr>))"

definition PpuThreadTable_len :: "PpuThreadTable \<Rightarrow> usize" where
  "PpuThreadTable_len t = LaneMap_len (th_threads t)"

definition PpuThreadTable_is_empty :: "PpuThreadTable \<Rightarrow> bool" where
  "PpuThreadTable_is_empty t = LaneMap_is_empty (th_threads t)"

definition PpuThreadTable_iter_ids :: "PpuThreadTable \<Rightarrow> PpuThreadId list" where
  "PpuThreadTable_iter_ids t = map fst (lm_entries (th_threads t))"

definition PpuThreadTable_stacks :: "PpuThreadTable \<Rightarrow> (u64 \<times> u64) list" where
  "PpuThreadTable_stacks t =
     map (\<lambda>(_, thread). (ucast (pa_stack_base (pt_attrs thread)), ucast (pa_stack_size (pt_attrs thread))))
       (lm_entries (th_threads t))"

definition PpuThreadTable_is_owner_alive :: "PpuThreadTable \<Rightarrow> u32 \<Rightarrow> bool" where
  "PpuThreadTable_is_owner_alive t raw_low32 =
     (case find (\<lambda>(i, _). ucast (PpuThreadId_raw i) = raw_low32) (lm_entries (th_threads t)) of
        None \<Rightarrow> True
      | Some (_, thread) \<Rightarrow> PpuThreadState_is_alive (pt_state thread))"

definition PpuThreadTable_allocator_term :: "PpuThreadTable \<Rightarrow> u128" where
  "PpuThreadTable_allocator_term t = value_term PpuThreadIdAllocator_lanes source_PPU_THREAD_IDS 0 (th_allocator t)"

definition PpuThreadTable_sync_partial :: "PpuThreadTable \<Rightarrow> u128" where
  "PpuThreadTable_sync_partial t =
     lm_partial (th_threads t) + lm_partial (th_unit_to_thread t) + PpuThreadTable_allocator_term t"

definition PpuThreadTable_sync_partial_from_scratch :: "PpuThreadTable \<Rightarrow> u128" where
  "PpuThreadTable_sync_partial_from_scratch t =
     LaneMap_partial_from_scratch PpuThread_lanes (th_threads t) +
     LaneMap_partial_from_scratch PpuThreadId_lanes (th_unit_to_thread t) + PpuThreadTable_allocator_term t"

section \<open>Lifecycle\<close>

text \<open>
  A thread is filed under its own id, has an exit value exactly when it is finished, keeps no
  joiner past its exit and is never parked on itself.
\<close>

definition thread_ok :: "PpuThreadId \<Rightarrow> PpuThread \<Rightarrow> bool" where
  "thread_ok i th \<longleftrightarrow>
     pt_id th = i \<and> (pt_state th = PT_Finished \<longleftrightarrow> pt_exit_value th \<noteq> None) \<and>
     (pt_state th = PT_Finished \<longrightarrow> pt_join_waiters th = []) \<and> i \<notin> set (pt_join_waiters th)"

text \<open>Every id in the table, and the primary's, is below the allocator's cursor.\<close>

definition threads_inv :: "PpuThreadTable \<Rightarrow> bool" where
  "threads_inv t \<longleftrightarrow>
     lm_inv PpuThread_lanes (th_threads t) \<and> lm_inv PpuThreadId_lanes (th_unit_to_thread t) \<and>
     ia_above (th_allocator t) PpuThreadId_PRIMARY \<and>
     (\<forall>i th. PpuThreadTable_get t i = Some th \<longrightarrow> thread_ok i th \<and> ia_above (th_allocator t) i)"

text \<open>The states a table reaches; the host changes a thread through \<^verbatim>\<open>get_mut\<close> to set its priority.\<close>

inductive threads_reachable :: "PpuThreadTable \<Rightarrow> bool" where
  "threads_reachable PpuThreadTable_new"
| "threads_reachable t \<Longrightarrow> PpuThreadTable_insert_primary u attrs t = Some t' \<Longrightarrow> threads_reachable t'"
| "threads_reachable t \<Longrightarrow> threads_reachable (snd (PpuThreadTable_create u attrs t))"
| "threads_reachable t \<Longrightarrow> threads_reachable (snd (PpuThreadTable_create_unstarted u attrs joinable t))"
| "threads_reachable t \<Longrightarrow> threads_reachable (snd (PpuThreadTable_start i t))"
| "threads_reachable t \<Longrightarrow> threads_reachable (snd (PpuThreadTable_alias_unit u i t))"
| "threads_reachable t \<Longrightarrow> threads_reachable (snd (PpuThreadTable_drop_alias u t))"
| "threads_reachable t \<Longrightarrow>
     threads_reachable (snd (PpuThreadTable_get_mut i (\<lambda>th. th\<lparr>pt_attrs := (pt_attrs th)\<lparr>pa_priority := p\<rparr>\<rparr>) t))"
| "threads_reachable t \<Longrightarrow> threads_reachable (snd (PpuThreadTable_purge_join_waiters_of threads t))"
| "threads_reachable t \<Longrightarrow> threads_reachable (snd (PpuThreadTable_mark_finished i v t))"
| "threads_reachable t \<Longrightarrow> threads_reachable (snd (PpuThreadTable_reap i t))"
| "threads_reachable t \<Longrightarrow> threads_reachable (snd (PpuThreadTable_take_join_waiters i t))"
| "threads_reachable t \<Longrightarrow> threads_reachable (snd (PpuThreadTable_add_join_waiter i w t))"
| "threads_reachable t \<Longrightarrow> threads_reachable (snd (PpuThreadTable_detach i t))"

lemma on_thread_fields:
  "th_threads (snd (on_thread i u b t)) = snd (LaneMap_with PpuThread_lanes i u b (th_threads t))"
  "th_allocator (snd (on_thread i u b t)) = th_allocator t"
  "th_unit_to_thread (snd (on_thread i u b t)) = th_unit_to_thread t"
  "fst (on_thread i u b t) = (case PpuThreadTable_get t i of None \<Rightarrow> u | Some th \<Rightarrow> fst (b th))"
  by (simp_all add: on_thread_def case_prod_beta LaneMap_with_result PpuThreadTable_get_def)

lemma on_thread_get:
  "threads_inv t \<Longrightarrow> PpuThreadTable_get (snd (on_thread i u b t)) =
     (PpuThreadTable_get t)(i := map_option (snd \<circ> b) (PpuThreadTable_get t i))"
  by (simp add: PpuThreadTable_get_def [abs_def] on_thread_fields LaneMap_get_with threads_inv_def)

lemma threads_inv_on:
  assumes "threads_inv t" and "\<And>th. thread_ok i th \<Longrightarrow> thread_ok i (snd (b th))"
  shows "threads_inv (snd (on_thread i u b t))"
  using assms on_thread_get [OF assms(1), of i u b]
  by (auto simp: threads_inv_def on_thread_fields lm_inv_with split: if_splits)

lemma threads_inv_remove:
  assumes "threads_inv t"
  shows "threads_inv (t\<lparr>th_threads := snd (LaneMap_remove PpuThread_lanes i (th_threads t))\<rparr>)"
  using assms
  by (auto simp: threads_inv_def PpuThreadTable_get_def LaneMap_get_remove lm_inv_remove split: if_splits)

lemma thread_ok_new: "thread_ok i (new_thread i u attrs s j)"
  by (simp add: thread_ok_def new_thread_def)

lemma bind_thread_get:
  "threads_inv t \<Longrightarrow> PpuThreadTable_get (bind_thread i th u t) = (PpuThreadTable_get t)(i \<mapsto> th)"
  by (simp add: PpuThreadTable_get_def [abs_def] bind_thread_def LaneMap_get_insert threads_inv_def)

lemma threads_inv_bind:
  "threads_inv t \<Longrightarrow> thread_ok i th \<Longrightarrow> ia_above (th_allocator t) i \<Longrightarrow> threads_inv (bind_thread i th u t)"
  using bind_thread_get [of t i th u]
  by (auto simp: threads_inv_def bind_thread_def lm_inv_insert split: if_splits)

lemma threads_inv_child:
  assumes "threads_inv t"
  shows "threads_inv (snd (PpuThreadTable_insert_child u attrs s j t))"
proof -
  obtain r a where a: "PpuThreadIdAllocator_allocate (th_allocator t) = (r, a)"
    by (cases "PpuThreadIdAllocator_allocate (th_allocator t)")
  show ?thesis
  proof (cases r)
    case None
    then have "a = th_allocator t"
      using a by (auto simp: PpuThreadIdAllocator_allocate_def split: option.splits)
    with None a assms show ?thesis by (simp add: PpuThreadTable_insert_child_def)
  next
    case (Some i)
    have "threads_inv (t\<lparr>th_allocator := a\<rparr>)"
      using assms allocate_fresh(3) [OF a [unfolded Some]] by (auto simp: threads_inv_def PpuThreadTable_get_def)
    then show ?thesis
      using Some a allocate_fresh(2) [OF a [unfolded Some]]
      by (simp add: PpuThreadTable_insert_child_def threads_inv_bind thread_ok_new)
  qed
qed

interpretation join_parking: parking PpuThread_lanes pt_join_waiters "\<lambda>ws th. th\<lparr>pt_join_waiters := ws\<rparr>" "\<lambda>t. t"
  by unfold_locales simp

lemma PpuThreadTable_purge_eq:
  "PpuThreadTable_purge_join_waiters_of threads t =
     (let (ts, removed) = LaneMap_for_each_mut PpuThread_lanes
            (purge_closure pt_join_waiters (\<lambda>ws th. th\<lparr>pt_join_waiters := ws\<rparr>) (\<lambda>t. t) threads) (th_threads t) []
      in (removed, t\<lparr>th_threads := ts\<rparr>))"
  unfolding PpuThreadTable_purge_join_waiters_of_def purge_waiters_closure ..

lemma threads_inv_purge:
  assumes "threads_inv t"
  shows "threads_inv (snd (PpuThreadTable_purge_join_waiters_of threads t))"
proof -
  obtain ts out where L: "LaneMap_for_each_mut PpuThread_lanes
      (purge_closure pt_join_waiters (\<lambda>ws th. th\<lparr>pt_join_waiters := ws\<rparr>) (\<lambda>t. t) threads) (th_threads t) [] = (ts, out)"
    by (cases "LaneMap_for_each_mut PpuThread_lanes
      (purge_closure pt_join_waiters (\<lambda>ws th. th\<lparr>pt_join_waiters := ws\<rparr>) (\<lambda>t. t) threads) (th_threads t) []")
  have "lm_inv PpuThread_lanes ts"
    using assms lm_inv_for_each_mut [of PpuThread_lanes "th_threads t" _ "[]"] L by (metis fst_conv threads_inv_def)
  then show ?thesis
    using assms join_parking.purge_get(1) [OF L]
    by (auto simp: PpuThreadTable_purge_eq L threads_inv_def PpuThreadTable_get_def thread_ok_def)
qed

lemma threads_inv_finish:
  assumes "threads_inv t"
  shows "threads_inv (snd (PpuThreadTable_mark_finished i v t))"
proof -
  have "threads_inv (snd (on_thread i ([], False) (finish_thread v) t))"
    using assms by (rule threads_inv_on) (auto simp: finish_thread_def thread_ok_def)
  then show ?thesis by (simp add: PpuThreadTable_mark_finished_def Let_def case_prod_beta threads_inv_remove)
qed

lemma threads_inv_reachable: "threads_reachable t \<Longrightarrow> threads_inv t"
proof (induction rule: threads_reachable.induct)
  case 1
  have "ia_above PpuThreadIdAllocator_new PpuThreadId_PRIMARY"
    by (simp add: ia_above_def PpuThreadIdAllocator_new_def PpuThreadId_PRIMARY_def)
  then show ?case by (simp add: threads_inv_def PpuThreadTable_new_def lm_inv_new PpuThreadTable_get_def)
next
  case (2 t u attrs t')
  then have "ia_above (th_allocator t) PpuThreadId_PRIMARY" by (simp add: threads_inv_def)
  with 2 show ?case
    by (auto simp: PpuThreadTable_insert_primary_def thread_ok_new split: if_splits intro: threads_inv_bind)
next
  case 3
  then show ?case by (simp add: PpuThreadTable_create_def threads_inv_child)
next
  case 4
  then show ?case by (simp add: PpuThreadTable_create_unstarted_def threads_inv_child)
next
  case 5
  then show ?case unfolding PpuThreadTable_start_def by (intro threads_inv_on) (auto simp: thread_ok_def)
next
  case 6
  then show ?case by (auto simp: PpuThreadTable_alias_unit_def threads_inv_def lm_inv_insert PpuThreadTable_get_def)
next
  case 7
  then show ?case
    by (auto simp: PpuThreadTable_drop_alias_def threads_inv_def lm_inv_remove PpuThreadTable_get_def case_prod_beta)
next
  case 8
  then show ?case unfolding PpuThreadTable_get_mut_def by (intro threads_inv_on) (auto simp: thread_ok_def)
next
  case 9
  then show ?case by (simp add: threads_inv_purge)
next
  case 10
  then show ?case by (simp add: threads_inv_finish)
next
  case 11
  then show ?case by (simp add: PpuThreadTable_reap_def threads_inv_remove case_prod_beta)
next
  case 12
  then show ?case unfolding PpuThreadTable_take_join_waiters_def by (intro threads_inv_on) (auto simp: thread_ok_def)
next
  case (13 t i w)
  then show ?case unfolding PpuThreadTable_add_join_waiter_def
    by (auto intro!: threads_inv_on simp: thread_ok_def split: PpuThreadState.split)
next
  case 14
  then show ?case unfolding PpuThreadTable_detach_def by (intro threads_inv_on) (auto simp: thread_ok_def)
qed

lemma mark_finished_fields:
  "fst (PpuThreadTable_mark_finished i v t) =
     (case PpuThreadTable_get t i of None \<Rightarrow> [] | Some th \<Rightarrow> fst (fst (finish_thread v th)))"
  by (simp add: PpuThreadTable_mark_finished_def Let_def case_prod_beta on_thread_fields split: option.split)

lemma mark_finished_get:
  assumes "threads_inv t" and "PpuThreadTable_get t i = Some th"
  shows "PpuThreadTable_get (snd (PpuThreadTable_mark_finished i v t)) =
    (PpuThreadTable_get t)(i := if snd (fst (finish_thread v th)) then None else Some (snd (finish_thread v th)))"
proof -
  have "lm_inv PpuThread_lanes (th_threads (snd (on_thread i ([], False) (finish_thread v) t)))"
    using assms(1) by (simp add: on_thread_fields lm_inv_with threads_inv_def)
  then show ?thesis
    using on_thread_get [OF assms(1), of i "([], False)" "finish_thread v"] assms(2)
    by (simp add: PpuThreadTable_mark_finished_def Let_def case_prod_beta on_thread_fields PpuThreadTable_get_def [abs_def]
                  LaneMap_get_remove)
qed

section \<open>Properties\<close>

text \<open>
  C32: On every reachable table each thread is filed under its own id below the allocator's
  cursor, so no create reuses a live id; it has an exit value exactly when it is finished, and a
  finished thread keeps no joiner. The partial of the sync-state sum is up to date.
\<close>

theorem ppu_thread_lifecycle:
  assumes "threads_reachable t"
  shows "(\<forall>i th. PpuThreadTable_get t i = Some th \<longrightarrow> thread_ok i th) \<and>
    (\<forall>u attrs i t'. PpuThreadTable_create u attrs t = (Some i, t') \<longrightarrow> PpuThreadTable_get t i = None) \<and>
    PpuThreadTable_sync_partial t = PpuThreadTable_sync_partial_from_scratch t"
proof -
  have inv: "threads_inv t" using assms by (rule threads_inv_reachable)
  have "PpuThreadTable_get t i = None" if c: "PpuThreadTable_create u attrs t = (Some i, t')" for u attrs i t'
  proof -
    obtain a where "PpuThreadIdAllocator_allocate (th_allocator t) = (Some i, a)"
      using c by (auto simp: PpuThreadTable_create_def PpuThreadTable_insert_child_def Let_def split: prod.splits option.splits)
    from allocate_fresh(1) [OF this] show ?thesis
      using inv by (cases "PpuThreadTable_get t i") (auto simp: threads_inv_def)
  qed
  with inv show ?thesis
    by (auto simp: threads_inv_def PpuThreadTable_sync_partial_def PpuThreadTable_sync_partial_from_scratch_def lm_inv_def)
qed

definition two_threads :: PpuThreadTable where
  "two_threads = snd (PpuThreadTable_create (UnitId 1) \<lparr>pa_entry = 0, pa_arg = 0, pa_stack_base = 0, pa_stack_size = 0,
     pa_priority = 0, pa_tls_base = 0\<rparr> PpuThreadTable_new)"

lemma two_threads_facts:
  "threads_reachable two_threads"
  "PpuThreadTable_get two_threads (PpuThreadId 0x01000001) = Some (new_thread (PpuThreadId 0x01000001) (UnitId 1)
     \<lparr>pa_entry = 0, pa_arg = 0, pa_stack_base = 0, pa_stack_size = 0, pa_priority = 0, pa_tls_base = 0\<rparr> True True)"
proof -
  have r: "threads_reachable PpuThreadTable_new" by (rule threads_reachable.intros(1))
  show "threads_reachable two_threads" unfolding two_threads_def using r by (rule threads_reachable.intros(3))
  have "threads_inv (PpuThreadTable_new\<lparr>th_allocator := a\<rparr>)" if "ia_above a PpuThreadId_PRIMARY" for a
    using threads_inv_reachable [OF r] that
    by (simp add: threads_inv_def PpuThreadTable_get_def PpuThreadTable_new_def)
  then show "PpuThreadTable_get two_threads (PpuThreadId 0x01000001) = Some (new_thread (PpuThreadId 0x01000001) (UnitId 1)
     \<lparr>pa_entry = 0, pa_arg = 0, pa_stack_base = 0, pa_stack_size = 0, pa_priority = 0, pa_tls_base = 0\<rparr> True True)"
    by (simp add: two_threads_def PpuThreadTable_create_def PpuThreadTable_insert_child_def PpuThreadIdAllocator_allocate_def
                  PpuThreadTable_new_def PpuThreadIdAllocator_new_def PpuThreadId_PRIMARY_def checked_add_def bind_thread_get
                  ia_above_def Let_def)
qed

theorem ppu_thread_lifecycle_witness:
  "map_option (thread_ok (PpuThreadId 0x01000001)) (PpuThreadTable_get two_threads (PpuThreadId 0x01000001)) = Some True"
  using ppu_thread_lifecycle [OF two_threads_facts(1)] two_threads_facts(2) by simp

text \<open>
  A thread finishes once: its exit hands out exactly the joiners parked on it, in the order
  they parked, records the exit value and collects a thread that is not joinable; a second exit
  wakes nobody and leaves the first exit value.
\<close>

theorem ppu_thread_finishes_once:
  assumes "threads_reachable t" and "PpuThreadTable_get t i = Some th" and "PpuThreadState_is_alive (pt_state th)"
    and "PpuThreadTable_mark_finished i v t = (ws, t')"
  shows "ws = pt_join_waiters th \<and>
    PpuThreadTable_get t' = (PpuThreadTable_get t)(i :=
      (if pt_joinable th then Some (th\<lparr>pt_state := PT_Finished, pt_exit_value := Some v, pt_join_waiters := []\<rparr>) else None)) \<and>
    fst (PpuThreadTable_mark_finished i w t') = [] \<and>
    PpuThreadTable_get (snd (PpuThreadTable_mark_finished i w t')) i = PpuThreadTable_get t' i"
proof -
  have inv: "threads_inv t" using assms(1) by (rule threads_inv_reachable)
  then have inv': "threads_inv t'" using threads_inv_finish [of t i v] assms(4) by simp
  have t': "PpuThreadTable_get t' = (PpuThreadTable_get t)(i :=
      (if pt_joinable th then Some (th\<lparr>pt_state := PT_Finished, pt_exit_value := Some v, pt_join_waiters := []\<rparr>) else None))"
    using mark_finished_get [OF inv assms(2), of v] assms(3,4) by (simp add: finish_thread_def fun_eq_iff)
  moreover have "ws = pt_join_waiters th"
    using mark_finished_fields [of i v t] assms(2,3,4) by (simp add: finish_thread_def)
  moreover have "fst (PpuThreadTable_mark_finished i w t') = []"
    by (simp add: mark_finished_fields t' finish_thread_def PpuThreadState_is_alive_def)
  moreover have "PpuThreadTable_get (snd (PpuThreadTable_mark_finished i w t')) i = PpuThreadTable_get t' i"
  proof (cases "PpuThreadTable_get t' i")
    case None
    then have "PpuThreadTable_get (snd (on_thread i ([], False) (finish_thread w) t')) i = None"
      using on_thread_get [OF inv', of i "([], False)" "finish_thread w"] by simp
    then show ?thesis using None
      by (simp add: PpuThreadTable_mark_finished_def Let_def case_prod_beta on_thread_fields)
  next
    case (Some th')
    then have "pt_state th' = PT_Finished" using t' by (auto split: if_splits)
    then show ?thesis using mark_finished_get [OF inv' Some, of w] Some
      by (simp add: finish_thread_def PpuThreadState_is_alive_def)
  qed
  ultimately show ?thesis by blast
qed

theorem ppu_thread_finishes_once_witness:
  "fst (PpuThreadTable_mark_finished (PpuThreadId 0x01000001) 7 two_threads) = [] \<and>
   map_option pt_exit_value (PpuThreadTable_get (snd (PpuThreadTable_mark_finished (PpuThreadId 0x01000001) 7 two_threads))
     (PpuThreadId 0x01000001)) = Some (Some 7)"
  using ppu_thread_finishes_once [OF two_threads_facts _ surjective_pairing, of 7 0]
  by (simp add: new_thread_def PpuThreadState_is_alive_def)

end
