(* ===== verification/Float_Format.thy ===== *)
theory Float_Format
  imports Complex_Main Prelude
begin

text \<open>
  \<^verbatim>\<open>cellgov_float/src/format.rs\<close>, the data types of \<^verbatim>\<open>round.rs\<close> and \<^verbatim>\<open>operand.rs\<close>: binary formats by
  their field widths, exact values, policies and flags, and the decoding of an encoded
  operand. The second half gives the encodings their real values.

  A \<^verbatim>\<open>u32\<close> count is a natural number, an \<^verbatim>\<open>i32\<close> an integer that \<open>wrap_i32\<close> brings back to its range
  after every operation, and a shift amount is taken modulo the width of the shifted value.
\<close>

section \<open>Integer operations of the standard library\<close>

definition wrap_i32 :: "int \<Rightarrow> int" where
  "wrap_i32 x = (x + 2 ^ 31) mod 2 ^ 32 - 2 ^ 31"

definition as_u32 :: "int \<Rightarrow> nat" where
  "as_u32 x = nat (x mod 2 ^ 32)"

definition shl :: "'a::len word \<Rightarrow> nat \<Rightarrow> 'a word" where
  "shl x k = push_bit (k mod LENGTH('a)) x"

definition shr :: "'a::len word \<Rightarrow> nat \<Rightarrow> 'a word" where
  "shr x k = drop_bit (k mod LENGTH('a)) x"

fun bit_length :: "nat \<Rightarrow> nat" where
  "bit_length n = (if n = 0 then 0 else Suc (bit_length (n div 2)))"

declare bit_length.simps [simp del]

definition leading_zeros :: "'a::len word \<Rightarrow> nat" where
  "leading_zeros x = LENGTH('a) - bit_length (unat x)"

section \<open>Formats\<close>

record Format =
  EXP_BITS :: nat
  FRAC_BITS :: nat

definition BIAS :: "Format \<Rightarrow> int" where
  "BIAS F = 2 ^ (EXP_BITS F - 1) - 1"

definition EXP_MAX :: "Format \<Rightarrow> u32" where
  "EXP_MAX F = shl 1 (EXP_BITS F) - 1"

definition SIGN_SHIFT :: "Format \<Rightarrow> nat" where
  "SIGN_SHIFT F = EXP_BITS F + FRAC_BITS F"

definition FRAC_MASK :: "Format \<Rightarrow> u64" where
  "FRAC_MASK F = shl 1 (FRAC_BITS F) - 1"

definition Binary32 :: Format where
  "Binary32 = \<lparr>EXP_BITS = 8, FRAC_BITS = 23\<rparr>"

definition Binary64 :: Format where
  "Binary64 = \<lparr>EXP_BITS = 11, FRAC_BITS = 52\<rparr>"

section \<open>Exact values, rounding modes and flags\<close>

record Exact =
  ex_negative :: bool
  ex_significand :: u128
  ex_exponent :: int
  ex_sticky :: bool

definition MAX_SIGNIFICAND_BITS :: nat where
  "MAX_SIGNIFICAND_BITS = 125"

definition Exact_from_parts :: "bool \<Rightarrow> u128 \<Rightarrow> int \<Rightarrow> bool \<Rightarrow> Exact" where
  "Exact_from_parts negative significand exponent sticky =
     \<lparr>ex_negative = negative, ex_significand = significand, ex_exponent = exponent, ex_sticky = sticky\<rparr>"

definition Exact_new :: "bool \<Rightarrow> u128 \<Rightarrow> int \<Rightarrow> Exact option" where
  "Exact_new negative significand exponent =
     (if 128 - leading_zeros significand \<le> MAX_SIGNIFICAND_BITS
      then Some (Exact_from_parts negative significand exponent False) else None)"

definition Exact_negated :: "Exact \<Rightarrow> Exact" where
  "Exact_negated x = x\<lparr>ex_negative := \<not> ex_negative x\<rparr>"

datatype Rounding = NearestEven | TowardZero | TowardPositive | TowardNegative

datatype Policy = SpuExtended | Ieee754Cbe | PowerPc

record Flags =
  fl_overflow :: bool
  fl_underflow :: bool
  fl_inexact :: bool
  fl_invalid :: bool
  fl_nan :: bool
  fl_denormal :: bool
  fl_diff :: bool

definition Flags_default :: Flags where
  "Flags_default =
     \<lparr>fl_overflow = False, fl_underflow = False, fl_inexact = False, fl_invalid = False,
      fl_nan = False, fl_denormal = False, fl_diff = False\<rparr>"

definition Flags_or :: "Flags \<Rightarrow> Flags \<Rightarrow> Flags" where
  "Flags_or a b =
     \<lparr>fl_overflow = fl_overflow a \<or> fl_overflow b, fl_underflow = fl_underflow a \<or> fl_underflow b,
      fl_inexact = fl_inexact a \<or> fl_inexact b, fl_invalid = fl_invalid a \<or> fl_invalid b,
      fl_nan = fl_nan a \<or> fl_nan b, fl_denormal = fl_denormal a \<or> fl_denormal b,
      fl_diff = fl_diff a \<or> fl_diff b\<rparr>"

record Packed =
  pk_bits :: u64
  pk_flags :: Flags

section \<open>Operands\<close>

datatype Operand =
    Op_Zero (op_negative: bool)
  | Op_Finite (op_exact: Exact)
  | Op_Infinity (op_negative: bool)
  | Op_NaN (op_quiet: bool)

definition exponent_field :: "Format \<Rightarrow> u64 \<Rightarrow> u32" where
  "exponent_field F bits = ucast (shr bits (FRAC_BITS F)) AND EXP_MAX F"

definition unpack :: "Format \<Rightarrow> Policy \<Rightarrow> u64 \<Rightarrow> Operand \<times> Flags" where
  "unpack F policy bits =
     (let negative = (shr bits (SIGN_SHIFT F) AND 1 = 1);
          exponent = exponent_field F bits;
          fraction = bits AND FRAC_MASK F;
          normal = (\<lambda>biased :: u32. Op_Finite
            \<lparr>ex_negative = negative,
             ex_significand = ucast (fraction OR shl 1 (FRAC_BITS F)),
             ex_exponent = wrap_i32 (wrap_i32 (wrap_i32 (uint biased) - BIAS F) - int (FRAC_BITS F)),
             ex_sticky = False\<rparr>)
      in case policy of
           SpuExtended \<Rightarrow>
             (if exponent = 0 then (Op_Zero negative, Flags_default\<lparr>fl_diff := fraction \<noteq> 0\<rparr>)
              else (normal exponent, Flags_default\<lparr>fl_diff := (exponent = EXP_MAX F)\<rparr>))
         | Ieee754Cbe \<Rightarrow>
             (if exponent = 0 then (Op_Zero negative, Flags_default\<lparr>fl_denormal := fraction \<noteq> 0\<rparr>)
              else if exponent = EXP_MAX F \<and> fraction = 0 then (Op_Infinity negative, Flags_default)
              else if exponent = EXP_MAX F
                then (Op_NaN (shr fraction (FRAC_BITS F - 1) AND 1 = 1), Flags_default\<lparr>fl_nan := True\<rparr>)
              else (normal exponent, Flags_default))
         | PowerPc \<Rightarrow>
             (if exponent = 0 \<and> fraction = 0 then (Op_Zero negative, Flags_default)
              else if exponent = 0
                then (Op_Finite
                       \<lparr>ex_negative = negative,
                        ex_significand = ucast fraction,
                        ex_exponent = wrap_i32 (wrap_i32 (1 - BIAS F) - int (FRAC_BITS F)),
                        ex_sticky = False\<rparr>, Flags_default)
              else if exponent = EXP_MAX F \<and> fraction = 0 then (Op_Infinity negative, Flags_default)
              else if exponent = EXP_MAX F
                then (Op_NaN (shr fraction (FRAC_BITS F - 1) AND 1 = 1), Flags_default\<lparr>fl_nan := True\<rparr>)
              else (normal exponent, Flags_default)))"

definition unpack_extended :: "Format \<Rightarrow> u64 \<Rightarrow> Exact \<times> Flags" where
  "unpack_extended F bits =
     (let (operand, flags) = unpack F SpuExtended bits;
          exact = (case operand of
              Op_Finite exact \<Rightarrow> exact
            | Op_Zero negative \<Rightarrow> Exact_from_parts negative 0 0 False
            | Op_Infinity negative \<Rightarrow> Exact_from_parts negative 0 0 False
            | Op_NaN _ \<Rightarrow> Exact_from_parts False 0 0 False)
      in (exact, flags))"

definition extended_magnitude_key :: "u32 \<Rightarrow> u32" where
  "extended_magnitude_key bits = (if drop_bit 23 bits AND 0xFF = 0 then 0 else bits AND 0x7FFFFFFF)"

definition extended_order_key :: "u32 \<Rightarrow> int" where
  "extended_order_key bits =
     (let magnitude = uint (extended_magnitude_key bits)
      in if drop_bit 31 bits = 1 then - magnitude else magnitude)"

definition default_nan :: "Format \<Rightarrow> u64" where
  "default_nan F = shl (ucast (EXP_MAX F)) (FRAC_BITS F) OR shl 1 (FRAC_BITS F - 1)"

section \<open>Lemmas on the integer operations\<close>

declare of_nat_unat [simp del]

lemma wrap_i32_id [simp]: "- (2 ^ 31) \<le> x \<Longrightarrow> x < 2 ^ 31 \<Longrightarrow> wrap_i32 x = x"
  by (simp add: wrap_i32_def mod_pos_pos_trivial)

lemma as_u32_id [simp]: "0 \<le> x \<Longrightarrow> x < 2 ^ 32 \<Longrightarrow> as_u32 x = nat x"
  by (simp add: as_u32_def mod_pos_pos_trivial)

lemma bit_length_0 [simp]: "bit_length 0 = 0"
  by (simp add: bit_length.simps)

lemma bit_length_le_iff: "bit_length n \<le> k \<longleftrightarrow> n < 2 ^ k"
proof (induction n arbitrary: k rule: bit_length.induct)
  case (1 n)
  show ?case
  proof (cases "n = 0")
    case False
    then show ?thesis
      using 1 by (cases k) (auto simp: bit_length.simps [of n] div_less_iff_less_mult mult.commute)
  qed simp
qed

lemma bit_length_bounds: "n < 2 ^ bit_length n" "n \<noteq> 0 \<Longrightarrow> 2 ^ (bit_length n - 1) \<le> n"
proof -
  show "n < 2 ^ bit_length n" using bit_length_le_iff [of n "bit_length n"] by simp
  assume "n \<noteq> 0"
  then have "\<not> bit_length n \<le> bit_length n - 1" by (simp add: bit_length.simps [of n])
  then show "2 ^ (bit_length n - 1) \<le> n" by (simp add: bit_length_le_iff)
qed

lemma bit_length_pos [simp]: "0 < bit_length n \<longleftrightarrow> n \<noteq> 0"
  by (simp add: bit_length.simps [of n])

lemma bit_length_unat: "bit_length (unat (x :: 'a::len word)) \<le> LENGTH('a)"
  by (simp add: bit_length_le_iff unat_lt_2p)

lemma width_minus_leading_zeros [simp]:
  "LENGTH('a) - leading_zeros (x :: 'a::len word) = bit_length (unat x)"
  using bit_length_unat [of x] by (simp add: leading_zeros_def)

lemma unat_shr: "k < LENGTH('a) \<Longrightarrow> unat (shr (x :: 'a::len word) k) = unat x div 2 ^ k"
  unfolding shr_def by (simp only: unat_drop_bit_eq mod_less) (simp add: drop_bit_eq_div)

lemma unat_drop_bit_div: "unat (drop_bit k x) = unat (x :: 'a::len word) div 2 ^ k"
  unfolding unat_drop_bit_eq by (rule drop_bit_eq_div)

lemma unat_shl:
  assumes "k < LENGTH('a)" and "unat x * 2 ^ k < 2 ^ LENGTH('a)"
  shows "unat (shl (x :: 'a::len word) k) = unat x * 2 ^ k"
proof -
  have "unat (push_bit k x) = take_bit LENGTH('a) (push_bit k (unat x))" by (rule unsigned_push_bit_eq)
  also have "\<dots> = unat x * 2 ^ k" using assms(2) by (simp add: push_bit_eq_mult take_bit_nat_eq_self)
  finally show ?thesis using assms(1) by (simp only: shl_def mod_less)
qed

lemma unat_shl_1: "k < LENGTH('a) \<Longrightarrow> unat (shl (1 :: 'a::len word) k) = 2 ^ k"
  by (subst unat_shl) simp_all

lemma unat_and_mask:
  assumes "k < LENGTH('a)"
  shows "unat (x AND (shl 1 k - 1) :: 'a::len word) = unat x mod 2 ^ k"
proof -
  have "shl 1 k - 1 = (mask k :: 'a word)" using assms by (simp add: shl_def mask_eq_exp_minus_1 push_bit_eq_mult)
  then have "unat (x AND (shl 1 k - 1)) = unat (take_bit k x)" by (simp only: take_bit_eq_mask)
  also have "\<dots> = take_bit k (unat x)" using assms by (simp only: unsigned_take_bit_eq)
  finally show ?thesis by (simp only: take_bit_eq_mod)
qed

lemma nat_or_disjoint:
  fixes m n :: nat
  assumes "2 ^ k dvd m" and "n < 2 ^ k"
  shows "m OR n = m + n"
proof -
  obtain a where m: "m = push_bit k a" using assms(1) by (auto simp: push_bit_eq_mult mult.commute elim: dvdE)
  have n: "n = take_bit k n" using assms(2) by (simp add: take_bit_nat_eq_self)
  have "push_bit k a AND take_bit k n = 0" by (rule bit_eqI) (auto simp: bit_simps)
  then have "m AND n = 0" using m n by simp
  then show ?thesis by (simp add: disjunctive_add_eq_or)
qed

lemma unat_or_disjoint:
  fixes x y :: "'a::len word"
  shows "2 ^ k dvd unat x \<Longrightarrow> unat y < 2 ^ k \<Longrightarrow> unat (x OR y) = unat x + unat y"
  by (simp only: unsigned_or_eq nat_or_disjoint)

section \<open>The values of encodings\<close>

text \<open>The formats the arithmetic below is written for: every field fits its word.\<close>

definition format_ok :: "Format \<Rightarrow> bool" where
  "format_ok F \<longleftrightarrow> 2 \<le> EXP_BITS F \<and> EXP_BITS F \<le> 29 \<and> 1 \<le> FRAC_BITS F \<and> SIGN_SHIFT F \<le> 63"

definition emin :: "Format \<Rightarrow> int" where
  "emin F = 1 - BIAS F"

definition signed_real :: "bool \<Rightarrow> real \<Rightarrow> real" where
  "signed_real negative a = (if negative then - a else a)"

definition enc_frac :: "Format \<Rightarrow> u64 \<Rightarrow> nat" where
  "enc_frac F bits = unat bits mod 2 ^ FRAC_BITS F"

definition enc_exp :: "Format \<Rightarrow> u64 \<Rightarrow> nat" where
  "enc_exp F bits = unat bits div 2 ^ FRAC_BITS F mod 2 ^ EXP_BITS F"

definition enc_neg :: "Format \<Rightarrow> u64 \<Rightarrow> bool" where
  "enc_neg F bits = odd (unat bits div 2 ^ SIGN_SHIFT F)"

definition enc_finite :: "Format \<Rightarrow> u64 \<Rightarrow> bool" where
  "enc_finite F bits \<longleftrightarrow> unat bits < 2 ^ (SIGN_SHIFT F + 1) \<and> enc_exp F bits < 2 ^ EXP_BITS F - 1"

definition mag_of_fields :: "Format \<Rightarrow> nat \<Rightarrow> nat \<Rightarrow> real" where
  "mag_of_fields F e f =
     (if e = 0 then real f * 2 powi (emin F - int (FRAC_BITS F))
      else (2 ^ FRAC_BITS F + real f) * 2 powi (int e - BIAS F - int (FRAC_BITS F)))"

definition enc_value :: "Format \<Rightarrow> u64 \<Rightarrow> real" where
  "enc_value F bits = signed_real (enc_neg F bits) (mag_of_fields F (enc_exp F bits) (enc_frac F bits))"

text \<open>
  What an exact value stands for: its significand at its scale, or, when bits were dropped,
  some real strictly between that and the next significand.
\<close>

definition represents :: "Exact \<Rightarrow> real \<Rightarrow> bool" where
  "represents x a \<longleftrightarrow>
     (\<exists>f. a = (real (unat (ex_significand x)) + f) * 2 powi ex_exponent x \<and>
          (if ex_sticky x then 0 < f \<and> f < 1 else f = 0))"

lemma signed_real_0 [simp]: "signed_real negative 0 = 0"
  by (simp add: signed_real_def)

lemma format_ok_Binary [simp]: "format_ok Binary32" "format_ok Binary64"
  by (simp_all add: format_ok_def Binary32_def Binary64_def SIGN_SHIFT_def)

lemma BIAS_bounds:
  assumes "format_ok F"
  shows "1 \<le> BIAS F" and "BIAS F < 2 ^ 28" and "2 ^ EXP_BITS F = 2 * BIAS F + 2"
proof -
  have e: "EXP_BITS F = Suc (EXP_BITS F - 1)" using assms by (simp add: format_ok_def)
  have "(2 :: int) ^ 1 \<le> 2 ^ (EXP_BITS F - 1)" using assms by (intro power_increasing) (auto simp: format_ok_def)
  then show "1 \<le> BIAS F" by (simp add: BIAS_def)
  have "(2 :: int) ^ (EXP_BITS F - 1) \<le> 2 ^ 28" using assms by (intro power_increasing) (auto simp: format_ok_def)
  then show "BIAS F < 2 ^ 28" by (simp add: BIAS_def)
  show "2 ^ EXP_BITS F = 2 * BIAS F + 2" by (subst e) (simp add: BIAS_def)
qed

lemma EXP_MAX_unat:
  assumes "format_ok F"
  shows "unat (EXP_MAX F) = 2 ^ EXP_BITS F - 1"
proof -
  have "unat (shl (1 :: u32) (EXP_BITS F)) = 2 ^ EXP_BITS F" using assms by (intro unat_shl_1) (simp add: format_ok_def)
  moreover have "(1 :: u32) \<le> shl 1 (EXP_BITS F)" using calculation by (simp add: word_le_nat_alt)
  ultimately show ?thesis by (simp add: EXP_MAX_def unat_minus_no_wrap)
qed

lemma frac_lt_63: "format_ok F \<Longrightarrow> FRAC_BITS F < 63"
  by (simp add: format_ok_def SIGN_SHIFT_def)

lemma unat_and_FRAC_MASK: "format_ok F \<Longrightarrow> unat (bits AND FRAC_MASK F) = enc_frac F bits"
  using frac_lt_63 [of F] by (simp add: FRAC_MASK_def enc_frac_def unat_and_mask)

end
