(* ===== verification/Float_Round.thy ===== *)
theory Float_Round
  imports Float_Format
begin

text \<open>
  \<^verbatim>\<open>cellgov_float/src/round.rs\<close>: the one routine that rounds an exact value into a format, under the
  SPU's extended-range policy and under the IEEE policies.
\<close>

definition significant_bits :: "u128 \<Rightarrow> nat" where
  "significant_bits x = 128 - leading_zeros x"

definition binade :: "Exact \<Rightarrow> int" where
  "binade exact =
     wrap_i32 (wrap_i32 (ex_exponent exact + int (significant_bits (ex_significand exact))) - 1)"

definition shift_right_sticky :: "u128 \<Rightarrow> nat \<Rightarrow> u128 \<times> bool" where
  "shift_right_sticky x k =
     (if k = 0 then (x, False)
      else if k \<ge> 128 then (0, x \<noteq> 0)
      else (shr x k, x AND (shl 1 k - 1) \<noteq> 0))"

definition sign_bit :: "Format \<Rightarrow> bool \<Rightarrow> u64" where
  "sign_bit F negative = shl (if negative then 1 else 0) (SIGN_SHIFT F)"

definition exp_max_i32 :: "Format \<Rightarrow> int" where
  "exp_max_i32 F = wrap_i32 (uint (EXP_MAX F))"

definition round_spu_extended :: "Format \<Rightarrow> Exact \<Rightarrow> Packed" where
  "round_spu_extended F exact =
     (if ex_significand exact = 0 then \<lparr>pk_bits = 0, pk_flags = Flags_default\<rparr>
      else
        let biased = wrap_i32 (binade exact + BIAS F);
            sign = sign_bit F (ex_negative exact);
            all_ones = sign OR (shl 1 (SIGN_SHIFT F) - 1)
        in if biased > exp_max_i32 F
           then \<lparr>pk_bits = all_ones, pk_flags = Flags_default\<lparr>fl_overflow := True, fl_diff := True\<rparr>\<rparr>
           else if biased < 1
           then \<lparr>pk_bits = 0, pk_flags = Flags_default\<lparr>fl_underflow := True, fl_diff := True\<rparr>\<rparr>
           else
             let drop = wrap_i32 (int (significant_bits (ex_significand exact)) - (int (FRAC_BITS F) + 1));
                 kept = (if drop \<ge> 0 then fst (shift_right_sticky (ex_significand exact) (as_u32 drop))
                         else shl (ex_significand exact) (as_u32 (wrap_i32 (- drop))));
                 bits = sign OR shl (of_int biased) (FRAC_BITS F) OR (ucast kept AND FRAC_MASK F)
             in \<lparr>pk_bits = bits, pk_flags = Flags_default\<lparr>fl_diff := (biased = exp_max_i32 F)\<rparr>\<rparr>)"

record Traced =
  tr_packed :: Packed
  tr_incremented :: bool
  tr_tiny :: bool

text \<open>
  The significand cut at the weight \<open>lsb\<close>, and whether the remainder is one half, above one
  half, or anything at all.
\<close>

definition keep_and_remainder :: "Exact \<Rightarrow> int \<Rightarrow> u128 \<times> bool \<times> bool \<times> bool" where
  "keep_and_remainder exact lsb =
     (if ex_exponent exact \<ge> lsb
      then (shl (ex_significand exact) (as_u32 (wrap_i32 (ex_exponent exact - lsb))), False, False, False)
      else
        let drop = as_u32 (wrap_i32 (lsb - ex_exponent exact));
            (kept, below_guard) = shift_right_sticky (ex_significand exact) drop;
            guard = (drop \<le> 128 \<and> shr (ex_significand exact) (drop - 1) AND 1 = 1);
            lower = (snd (shift_right_sticky (ex_significand exact) (drop - 1)) \<or> ex_sticky exact);
            inexact = (below_guard \<or> ex_sticky exact)
        in (kept, guard \<and> \<not> lower, guard \<and> lower, inexact))"

definition round_increment :: "Rounding \<Rightarrow> bool \<Rightarrow> bool \<Rightarrow> bool \<Rightarrow> bool \<Rightarrow> bool \<Rightarrow> bool" where
  "round_increment rounding negative half above_half inexact is_odd =
     (case rounding of
        NearestEven \<Rightarrow> above_half \<or> (half \<and> is_odd)
      | TowardZero \<Rightarrow> False
      | TowardPositive \<Rightarrow> inexact \<and> \<not> negative
      | TowardNegative \<Rightarrow> inexact \<and> negative)"

definition overflow_magnitude :: "Format \<Rightarrow> Rounding \<Rightarrow> bool \<Rightarrow> u64" where
  "overflow_magnitude F rounding negative =
     (let toward_zero = (case rounding of
            NearestEven \<Rightarrow> False
          | TowardZero \<Rightarrow> True
          | TowardPositive \<Rightarrow> negative
          | TowardNegative \<Rightarrow> \<not> negative)
      in if toward_zero then shl (ucast (EXP_MAX F) - 1) (FRAC_BITS F) OR FRAC_MASK F
         else shl (ucast (EXP_MAX F)) (FRAC_BITS F))"

text \<open>The biased exponent with the carry of the increment, the overflow result and the packed field.\<close>

definition ieee_pack :: "Format \<Rightarrow> Rounding \<Rightarrow> bool \<Rightarrow> int \<Rightarrow> bool \<Rightarrow> bool \<Rightarrow> bool \<Rightarrow> u128 \<Rightarrow> Traced" where
  "ieee_pack F rounding negative b tiny inexact increment kept =
     (let sign = sign_bit F negative;
          biased = (if tiny then 0 else wrap_i32 (b + BIAS F));
          carry = (\<not> tiny \<and> shr kept (FRAC_BITS F + 1) \<noteq> 0);
          kept = (if carry then shr kept 1 else kept);
          biased = (if carry then wrap_i32 (biased + 1) else biased);
          flags = Flags_default\<lparr>fl_inexact := inexact, fl_underflow := tiny \<and> inexact\<rparr>
      in if biased \<ge> exp_max_i32 F
         then \<lparr>tr_packed = \<lparr>pk_bits = sign OR overflow_magnitude F rounding negative,
                            pk_flags = flags\<lparr>fl_overflow := True, fl_inexact := True\<rparr>\<rparr>,
               tr_incremented = increment, tr_tiny = tiny\<rparr>
         else
           let field = (if tiny then ucast kept
                        else shl (of_int biased) (FRAC_BITS F) OR (ucast kept AND FRAC_MASK F))
           in \<lparr>tr_packed = \<lparr>pk_bits = sign OR field, pk_flags = flags\<rparr>,
               tr_incremented = increment, tr_tiny = tiny\<rparr>)"

definition round_ieee_traced :: "Format \<Rightarrow> Rounding \<Rightarrow> Exact \<Rightarrow> Traced" where
  "round_ieee_traced F rounding exact =
     (if ex_significand exact = 0
      then \<lparr>tr_packed = \<lparr>pk_bits = sign_bit F (ex_negative exact), pk_flags = Flags_default\<rparr>,
            tr_incremented = False, tr_tiny = False\<rparr>
      else
        let emin = wrap_i32 (1 - BIAS F);
            b = binade exact;
            tiny = (b < emin);
            lsb = wrap_i32 (max b emin - int (FRAC_BITS F));
            (kept, remainder_half, remainder_above_half, inexact) = keep_and_remainder exact lsb;
            is_odd = (kept AND 1 = 1);
            increment = round_increment rounding (ex_negative exact) remainder_half remainder_above_half inexact is_odd
        in ieee_pack F rounding (ex_negative exact) b tiny inexact increment (kept + (if increment then 1 else 0)))"

definition round_ieee :: "Format \<Rightarrow> Rounding \<Rightarrow> Exact \<Rightarrow> Packed" where
  "round_ieee F rounding exact = tr_packed (round_ieee_traced F rounding exact)"

definition round_pack :: "Format \<Rightarrow> Policy \<Rightarrow> Rounding \<Rightarrow> Exact \<Rightarrow> Packed" where
  "round_pack F policy rounding exact =
     (case policy of
        SpuExtended \<Rightarrow> round_spu_extended F exact
      | Ieee754Cbe \<Rightarrow> round_ieee F rounding exact
      | PowerPc \<Rightarrow> round_ieee F rounding exact)"

end
