(* ===== verification/Float_Rounding.thy ===== *)
theory Float_Rounding
  imports Float_Round
begin

text \<open>
  The IEEE rounding is correct: \<open>rounds_to\<close> says which member of the format's grid a real number
  rounds to in each mode, with the exponent range open above, and \<open>ieee_rounded\<close> which bits, flags
  and trace an implementation owes for it. \<^verbatim>\<open>round_ieee_traced\<close> delivers them for every real that its
  exact argument stands for.
\<close>

section \<open>The specification\<close>

definition grid :: "Format \<Rightarrow> real set" where
  "grid F = {g. \<exists>m e. \<bar>m\<bar> < 2 ^ (FRAC_BITS F + 1) \<and> emin F - int (FRAC_BITS F) \<le> e \<and> g = of_int m * 2 powi e}"

text \<open>The members whose significand is even where it has full precision.\<close>

definition even_grid :: "Format \<Rightarrow> real set" where
  "even_grid F =
     {g. \<exists>m e. even m \<and> \<bar>m\<bar> < 2 ^ (FRAC_BITS F + 1) \<and> emin F - int (FRAC_BITS F) \<le> e \<and>
         (2 ^ FRAC_BITS F \<le> \<bar>m\<bar> \<or> e = emin F - int (FRAC_BITS F)) \<and> g = of_int m * 2 powi e}"

definition rounds_down :: "Format \<Rightarrow> real \<Rightarrow> real \<Rightarrow> bool" where
  "rounds_down F v r \<longleftrightarrow> r \<in> grid F \<and> r \<le> v \<and> (\<forall>g \<in> grid F. g \<le> v \<longrightarrow> g \<le> r)"

definition rounds_up :: "Format \<Rightarrow> real \<Rightarrow> real \<Rightarrow> bool" where
  "rounds_up F v r \<longleftrightarrow> r \<in> grid F \<and> v \<le> r \<and> (\<forall>g \<in> grid F. v \<le> g \<longrightarrow> r \<le> g)"

definition rounds_nearest :: "Format \<Rightarrow> real \<Rightarrow> real \<Rightarrow> bool" where
  "rounds_nearest F v r \<longleftrightarrow>
     r \<in> grid F \<and> (\<forall>g \<in> grid F. \<bar>r - v\<bar> \<le> \<bar>g - v\<bar>) \<and>
     (\<forall>g \<in> grid F. g \<noteq> r \<and> \<bar>g - v\<bar> = \<bar>r - v\<bar> \<longrightarrow> r \<in> even_grid F)"

definition rounds_to :: "Format \<Rightarrow> Rounding \<Rightarrow> real \<Rightarrow> real \<Rightarrow> bool" where
  "rounds_to F rounding v r =
     (case rounding of
        NearestEven \<Rightarrow> rounds_nearest F v r
      | TowardZero \<Rightarrow> (if 0 \<le> v then rounds_down F v r else rounds_up F v r)
      | TowardPositive \<Rightarrow> rounds_up F v r
      | TowardNegative \<Rightarrow> rounds_down F v r)"

text \<open>The largest finite magnitude, and the results beyond it.\<close>

definition huge :: "Format \<Rightarrow> real \<Rightarrow> bool" where
  "huge F r \<longleftrightarrow> 2 powi (BIAS F + 1) \<le> \<bar>r\<bar>"

definition overflow_exp_frac :: "Format \<Rightarrow> Rounding \<Rightarrow> bool \<Rightarrow> nat \<times> nat" where
  "overflow_exp_frac F rounding negative =
     (if rounding = TowardZero \<or> rounding = TowardPositive \<and> negative \<or> rounding = TowardNegative \<and> \<not> negative
      then (2 ^ EXP_BITS F - 2, 2 ^ FRAC_BITS F - 1) else (2 ^ EXP_BITS F - 1, 0))"

definition ieee_rounded :: "Format \<Rightarrow> Rounding \<Rightarrow> bool \<Rightarrow> real \<Rightarrow> Traced \<Rightarrow> bool" where
  "ieee_rounded F rounding negative a t \<longleftrightarrow>
     (\<exists>r. rounds_to F rounding (signed_real negative a) r \<and>
          (let bits = pk_bits (tr_packed t); over = huge F r; tiny = (0 < a \<and> a < 2 powi emin F)
           in unat bits < 2 ^ (SIGN_SHIFT F + 1) \<and> enc_neg F bits = negative \<and>
              (if over then (enc_exp F bits, enc_frac F bits) = overflow_exp_frac F rounding negative
               else enc_finite F bits \<and> enc_value F bits = r) \<and>
              pk_flags (tr_packed t) =
                Flags_default\<lparr>fl_overflow := over, fl_underflow := tiny \<and> \<bar>r\<bar> \<noteq> a,
                              fl_inexact := \<bar>r\<bar> \<noteq> a \<or> over\<rparr> \<and>
              tr_incremented t = (a < \<bar>r\<bar>) \<and> tr_tiny t = tiny))"

section \<open>Neighbours on the grid\<close>

lemma grid_uminus: "g \<in> grid F \<Longrightarrow> - g \<in> grid F"
proof -
  assume "g \<in> grid F"
  then obtain m e where "\<bar>m\<bar> < 2 ^ (FRAC_BITS F + 1)" "emin F - int (FRAC_BITS F) \<le> e" "g = of_int m * 2 powi e"
    by (auto simp: grid_def)
  then show "- g \<in> grid F" unfolding grid_def by (intro CollectI exI [of _ "- m"] exI [of _ e]) simp
qed

lemma even_grid_uminus: "g \<in> even_grid F \<Longrightarrow> - g \<in> even_grid F"
proof -
  assume "g \<in> even_grid F"
  then obtain m e where "even m" "\<bar>m\<bar> < 2 ^ (FRAC_BITS F + 1)" "emin F - int (FRAC_BITS F) \<le> e"
    "2 ^ FRAC_BITS F \<le> \<bar>m\<bar> \<or> e = emin F - int (FRAC_BITS F)" "g = of_int m * 2 powi e"
    by (auto simp: even_grid_def)
  then show "- g \<in> even_grid F" unfolding even_grid_def by (intro CollectI exI [of _ "- m"] exI [of _ e]) simp
qed

lemma grid_abs: "g \<in> grid F \<Longrightarrow> \<bar>g\<bar> \<in> grid F"
  by (cases "0 \<le> g") (auto simp: grid_uminus)

lemma powi_not_neg [simp]: "\<not> (2 :: real) powi e < 0" "\<not> (2 :: real) powi e \<le> 0"
  by (simp_all add: not_less not_le)

lemma powi_split: "e \<le> e' \<Longrightarrow> (2 :: real) powi e' = 2 ^ nat (e' - e) * 2 powi e"
proof -
  assume "e \<le> e'"
  then have "(2 :: real) powi e' = 2 powi (e' - e) * 2 powi e" by (subst power_int_add [symmetric]) simp_all
  then show ?thesis using \<open>e \<le> e'\<close> by (simp add: power_int_nonneg_exp)
qed

text \<open>No member lies strictly between \<open>q\<close> and \<open>q + 1\<close> units of the last place.\<close>

lemma grid_gap:
  assumes "g \<in> grid F" and "0 \<le> g"
    and "emin F - int (FRAC_BITS F) \<le> lsb" and "2 ^ FRAC_BITS F \<le> q \<or> lsb = emin F - int (FRAC_BITS F)"
  shows "g \<le> real q * 2 powi lsb \<or> real (q + 1) * 2 powi lsb \<le> g"
proof -
  obtain m e where m: "\<bar>m\<bar> < 2 ^ (FRAC_BITS F + 1)" and e: "emin F - int (FRAC_BITS F) \<le> e" and g: "g = of_int m * 2 powi e"
    using assms(1) by (auto simp: grid_def)
  have pos: "(0 :: real) < 2 powi e" "(0 :: real) < 2 powi lsb" by simp_all
  have m0: "0 \<le> m" using assms(2) pos(1) by (simp add: g zero_le_mult_iff)
  show ?thesis
  proof (cases "lsb \<le> e")
    case True
    define k where "k = m * 2 ^ nat (e - lsb)"
    have gk: "g = of_int k * 2 powi lsb" by (simp add: g k_def powi_split [OF True])
    have "k \<le> int q \<or> int q + 1 \<le> k" by linarith
    then have "real_of_int k \<le> real q \<or> real (q + 1) \<le> real_of_int k" by linarith
    then show ?thesis using pos(2) by (auto simp: gk)
  next
    case False
    then have q: "2 ^ FRAC_BITS F \<le> q" using assms(4) e by linarith
    have "real_of_int m \<le> real_of_int (2 ^ (FRAC_BITS F + 1))" using m by linarith
    then have "g \<le> 2 ^ (FRAC_BITS F + 1) * 2 powi e" using pos(1) by (simp add: g)
    also have "\<dots> = 2 ^ FRAC_BITS F * 2 powi (e + 1)" by (simp add: power_int_add)
    also have "\<dots> \<le> 2 ^ FRAC_BITS F * 2 powi lsb"
      using False by (intro mult_left_mono power_int_increasing) simp_all
    also have "\<dots> \<le> real q * 2 powi lsb"
      using pos(2) q by (intro mult_right_mono) (simp_all flip: of_nat_power)
    finally show ?thesis by simp
  qed
qed

lemma grid_member:
  assumes "emin F - int (FRAC_BITS F) \<le> lsb" and "q \<le> 2 ^ (FRAC_BITS F + 1)"
  shows "real q * 2 powi lsb \<in> grid F"
proof (cases "q = 2 ^ (FRAC_BITS F + 1)")
  case True
  then have "real q * 2 powi lsb = of_int (2 ^ FRAC_BITS F) * 2 powi (lsb + 1)" by (simp add: power_int_add)
  then show ?thesis unfolding grid_def
    using assms(1) by (intro CollectI exI [of _ "2 ^ FRAC_BITS F"] exI [of _ "lsb + 1"]) simp
next
  case False
  then have "int q < 2 ^ (FRAC_BITS F + 1)" using assms(2) by (metis le_neq_implies_less of_nat_less_numeral_power_cancel_iff)
  then show ?thesis unfolding grid_def
    using assms(1) by (intro CollectI exI [of _ "int q"] exI [of _ lsb]) simp
qed

lemma even_grid_member:
  assumes "emin F - int (FRAC_BITS F) \<le> lsb" and "q \<le> 2 ^ (FRAC_BITS F + 1)" and "even q"
    and "2 ^ FRAC_BITS F \<le> q \<or> lsb = emin F - int (FRAC_BITS F)" and "1 \<le> FRAC_BITS F"
  shows "real q * 2 powi lsb \<in> even_grid F"
proof (cases "q = 2 ^ (FRAC_BITS F + 1)")
  case True
  then have "real q * 2 powi lsb = of_int (2 ^ FRAC_BITS F) * 2 powi (lsb + 1)" by (simp add: power_int_add)
  then show ?thesis unfolding even_grid_def
    using assms(1,5) by (intro CollectI exI [of _ "2 ^ FRAC_BITS F"] exI [of _ "lsb + 1"]) simp
next
  case False
  then have "int q < 2 ^ (FRAC_BITS F + 1)" using assms(2) by (metis le_neq_implies_less of_nat_less_numeral_power_cancel_iff)
  moreover have "2 ^ FRAC_BITS F \<le> \<bar>int q\<bar> \<or> lsb = emin F - int (FRAC_BITS F)" using assms(4) by auto
  ultimately show ?thesis unfolding even_grid_def
    using assms(1,3) by (intro CollectI exI [of _ "int q"] exI [of _ lsb]) simp
qed

text \<open>A magnitude cut at \<open>q\<close> units of weight \<open>2 powi lsb\<close>, at the precision its binade has.\<close>

definition cut :: "Format \<Rightarrow> nat \<Rightarrow> int \<Rightarrow> real \<Rightarrow> bool" where
  "cut F q lsb a \<longleftrightarrow>
     emin F - int (FRAC_BITS F) \<le> lsb \<and> q < 2 ^ (FRAC_BITS F + 1) \<and>
     (2 ^ FRAC_BITS F \<le> q \<or> lsb = emin F - int (FRAC_BITS F)) \<and>
     real q * 2 powi lsb \<le> a \<and> a < real (q + 1) * 2 powi lsb"

lemma cut_gap:
  assumes "cut F q lsb a" and "g \<in> grid F"
  shows "g \<le> real q * 2 powi lsb \<or> real (q + 1) * 2 powi lsb \<le> g"
proof (cases "0 \<le> g")
  case True
  then show ?thesis using grid_gap [of g F lsb q] assms by (simp add: cut_def)
next
  case False
  have "0 \<le> real q * 2 powi lsb" by simp
  with False show ?thesis by linarith
qed

lemma cut_members: "cut F q lsb a \<Longrightarrow> real q * 2 powi lsb \<in> grid F" "cut F q lsb a \<Longrightarrow> real (q + 1) * 2 powi lsb \<in> grid F"
  by (rule grid_member; simp add: cut_def)+

lemma cut_down: "cut F q lsb a \<Longrightarrow> rounds_down F a (real q * 2 powi lsb)"
  unfolding rounds_down_def using cut_gap [of F q lsb a] cut_members [of F q lsb a] by (force simp: cut_def)

lemma cut_up:
  assumes "cut F q lsb a"
  shows "rounds_up F a (real (if a = real q * 2 powi lsb then q else q + 1) * 2 powi lsb)"
  unfolding rounds_up_def using cut_gap [OF assms] cut_members [OF assms] assms by (force simp: cut_def)

lemma cut_nearest:
  assumes "cut F q lsb a" and "1 \<le> FRAC_BITS F"
  shows "rounds_nearest F a
    (real (if (real q + 1 / 2) * 2 powi lsb < a \<or> a = (real q + 1 / 2) * 2 powi lsb \<and> odd q then q + 1 else q) * 2 powi lsb)"
proof -
  define u where "u = (2 :: real) powi lsb"
  define r where "r = real (if (real q + 1 / 2) * u < a \<or> a = (real q + 1 / 2) * u \<and> odd q then q + 1 else q) * u"
  have c: "real q * u \<le> a" "a < real (q + 1) * u" using assms(1) by (simp_all add: cut_def u_def)
  have q1: "real (q + 1) * u = real q * u + u" and qh: "(real q + 1 / 2) * u = real q * u + u / 2" by (simp_all add: algebra_simps)
  have u: "0 < u" by (simp add: u_def)
  have gap: "g \<le> real q * u \<or> real q * u + u \<le> g" if "g \<in> grid F" for g
    using cut_gap [OF assms(1) that] q1 by (simp add: u_def)
  have mem: "r \<in> grid F" using cut_members [OF assms(1)] by (simp add: r_def u_def)
  have rc: "r = (if real q * u + u / 2 < a \<or> a = real q * u + u / 2 \<and> odd q then real q * u + u else real q * u)"
    unfolding r_def qh using q1 by simp
  have near: "\<bar>r - a\<bar> \<le> \<bar>g - a\<bar>" if "g \<in> grid F" for g
    using gap [OF that] c u unfolding rc q1 by (auto split: if_splits)
  have tie: "r \<in> even_grid F" if g: "g \<in> grid F" "g \<noteq> r" "\<bar>g - a\<bar> = \<bar>r - a\<bar>" for g
  proof -
    define b where "b = real q * u"
    have "a = b + u / 2"
      using gap [OF g(1)] g(2,3) c u unfolding rc q1 b_def [symmetric] by (auto split: if_splits)
    then have "a = real q * u + u / 2" by (simp add: b_def)
    then have "r = real (if odd q then q + 1 else q) * 2 powi lsb" unfolding r_def qh by (simp add: u_def)
    then show ?thesis
      using assms by (auto intro!: even_grid_member simp: cut_def simp del: of_nat_Suc of_nat_add)
  qed
  show ?thesis unfolding rounds_nearest_def using mem near tie unfolding r_def u_def by blast
qed

lemma rounds_uminus:
  "rounds_down F v r \<Longrightarrow> rounds_up F (- v) (- r)" "rounds_up F v r \<Longrightarrow> rounds_down F (- v) (- r)"
  "rounds_nearest F v r \<Longrightarrow> rounds_nearest F (- v) (- r)"
proof -
  have n: "g \<in> grid F \<Longrightarrow> \<exists>h \<in> grid F. g = - h" for g using grid_uminus [of g F] by force
  show "rounds_down F v r \<Longrightarrow> rounds_up F (- v) (- r)" "rounds_up F v r \<Longrightarrow> rounds_down F (- v) (- r)"
    unfolding rounds_down_def rounds_up_def using n grid_uminus by (metis neg_le_iff_le)+
  show "rounds_nearest F (- v) (- r)" if "rounds_nearest F v r"
    unfolding rounds_nearest_def
  proof (intro conjI ballI impI)
    show "- r \<in> grid F" using that grid_uminus by (simp add: rounds_nearest_def)
  next
    fix g assume g: "g \<in> grid F"
    have "\<bar>r - v\<bar> \<le> \<bar>- g - v\<bar>" using that grid_uminus [OF g] by (simp add: rounds_nearest_def)
    then show "\<bar>- r - - v\<bar> \<le> \<bar>g - - v\<bar>" by linarith
  next
    fix g assume g: "g \<in> grid F" and t: "g \<noteq> - r \<and> \<bar>g - - v\<bar> = \<bar>- r - - v\<bar>"
    have "- g \<noteq> r \<and> \<bar>- g - v\<bar> = \<bar>r - v\<bar>" using t by linarith
    then have "r \<in> even_grid F" using that grid_uminus [OF g] unfolding rounds_nearest_def by blast
    then show "- r \<in> even_grid F" by (rule even_grid_uminus)
  qed
qed

text \<open>The increment the code computes picks the right neighbour in every mode.\<close>

lemma cut_rounds:
  assumes "cut F q lsb a" and "1 \<le> FRAC_BITS F"
    and "inc = round_increment rounding negative (a = (real q + 1 / 2) * 2 powi lsb)
                 ((real q + 1 / 2) * 2 powi lsb < a) (a \<noteq> real q * 2 powi lsb) (odd q)"
  shows "rounds_to F rounding (signed_real negative a) (signed_real negative (real (if inc then q + 1 else q) * 2 powi lsb))"
proof -
  have a: "0 \<le> a" using assms(1) by (auto simp: cut_def intro: order_trans [rotated])
  have z: "- a \<ge> 0 \<longleftrightarrow> a = 0" using a by linarith
  have "0 \<le> real q * 2 powi lsb" by simp
  then have zq: "a = 0 \<Longrightarrow> real q * 2 powi lsb = 0" using assms(1) unfolding cut_def by linarith
  note d = cut_down [OF assms(1)] and u = cut_up [OF assms(1)] and n = cut_nearest [OF assms(1,2)]
  have zero: "rounds_down F 0 0" if "a = 0" using d zq [OF that] that by simp
  show ?thesis
    using d u n rounds_uminus(1) [OF d] rounds_uminus(2) [OF u] rounds_uminus(3) [OF n] zero a z zq
    unfolding assms(3) rounds_to_def signed_real_def round_increment_def
    by (cases rounding; cases negative) (auto split: if_splits simp: disj_commute)
qed

section \<open>Cutting the significand\<close>

definition exact_ok :: "Format \<Rightarrow> Exact \<Rightarrow> bool" where
  "exact_ok F x \<longleftrightarrow> \<bar>ex_exponent x\<bar> \<le> 2 ^ 29 \<and> (ex_sticky x \<longrightarrow> FRAC_BITS F + 3 \<le> significant_bits (ex_significand x))"

lemma significant_bits_eq: "significant_bits x = bit_length (unat x)"
  using width_minus_leading_zeros [of x] by (simp add: significant_bits_def)

lemma significant_bits_le: "significant_bits x \<le> 128"
  using bit_length_unat [of x] by (simp add: significant_bits_eq)

lemma binade_eq:
  "\<bar>ex_exponent x\<bar> \<le> 2 ^ 29 \<Longrightarrow> binade x = ex_exponent x + int (significant_bits (ex_significand x)) - 1"
  using significant_bits_le [of "ex_significand x"] by (simp add: binade_def)

lemma unat_shift_right_sticky: "unat (fst (shift_right_sticky x k)) = unat x div 2 ^ k"
  and shift_right_sticky_drops: "snd (shift_right_sticky x k) = (unat x mod 2 ^ k \<noteq> 0)"
proof -
  have x: "unat x < 2 ^ k" if "128 \<le> k"
    using unat_lt_2p [of x] power_increasing [OF that, of "2 :: nat"] by simp
  show "unat (fst (shift_right_sticky x k)) = unat x div 2 ^ k"
    using x by (auto simp: shift_right_sticky_def unat_shr)
  have "x AND (shl 1 k - 1) \<noteq> 0 \<longleftrightarrow> unat x mod 2 ^ k \<noteq> 0" if "k < 128"
    unfolding unat_0_iff [symmetric] using unat_and_mask [of k x] that by simp
  then show "snd (shift_right_sticky x k) = (unat x mod 2 ^ k \<noteq> 0)"
    using x by (auto simp: shift_right_sticky_def unat_gt_0)
qed

lemma and_1_odd: "(x :: 'a::len word) AND 1 = 1 \<longleftrightarrow> odd (unat x)"
proof -
  have "x AND 1 = 1 \<longleftrightarrow> odd x" by (simp add: and_one_eq odd_iff_mod_2_eq_one)
  also have "\<dots> \<longleftrightarrow> bit (unat x) 0" by (subst bit_unsigned_iff) (simp add: bit_0)
  finally show ?thesis by (simp only: bit_0)
qed

lemma guard_bit: "k \<le> 128 \<and> shr (x :: u128) (k - 1) AND 1 = 1 \<longleftrightarrow> odd (unat x div 2 ^ (k - 1))"
proof (cases "k \<le> 128")
  case True
  then show ?thesis by (simp add: and_1_odd unat_shr)
next
  case False
  then have "unat x < 2 ^ (k - 1)"
    using order_less_le_trans [OF unat_lt_2p [of x] power_increasing [of "LENGTH(128)" "k - 1" "2 :: nat"]] by simp
  with False show ?thesis by simp
qed

text \<open>The remainder below the cut, in units of half the last place.\<close>

lemma cut_remainder:
  fixes S d :: nat and f :: real
  assumes "0 < d" and "0 \<le> f" and "f < 1"
  defines "K \<equiv> S div 2 ^ d" and "D \<equiv> (2 :: real) ^ d"
  shows "real K * D \<le> real S + f" and "real S + f < real (K + 1) * D"
    and "(S mod 2 ^ d \<noteq> 0 \<or> f \<noteq> 0) = (real S + f \<noteq> real K * D)"
    and "(odd (S div 2 ^ (d - 1)) \<and> \<not> (S mod 2 ^ (d - 1) \<noteq> 0 \<or> f \<noteq> 0)) = (real S + f = (real K + 1 / 2) * D)"
    and "(odd (S div 2 ^ (d - 1)) \<and> (S mod 2 ^ (d - 1) \<noteq> 0 \<or> f \<noteq> 0)) = ((real K + 1 / 2) * D < real S + f)"
proof -
  define H where "H = (2 :: nat) ^ (d - 1)"
  define Q where "Q = S div H"
  define L where "L = S mod H"
  have H: "0 < H" "(2 :: nat) ^ d = 2 * H" using assms(1) by (cases d; simp add: H_def)+
  have D: "D = 2 * real H" using arg_cong [OF H(2), of real] by (simp add: D_def)
  have S: "S = Q * H + L" and L: "L < H" using H(1) by (simp_all add: Q_def L_def)
  have K: "K = Q div 2" by (simp add: K_def H(2) Q_def div_mult2_eq mult.commute)
  have Q2: "Q = 2 * K + (if odd Q then 1 else 0)" by (simp add: K)
  have QH: "Q * H = 2 * (K * H) + (if odd Q then H else 0)"
    using arg_cong [OF Q2, of "\<lambda>q. q * H"] by (simp only: add_mult_distrib mult.assoc if_distrib [of "\<lambda>q. q * H"] mult_1 mult_zero_left)
  have S2: "S = 2 * (K * H) + (if odd Q then H else 0) + L"
    unfolding S QH by (rule refl)
  have rS: "real S = real K * D + (if odd Q then real H else 0) + real L"
    using arg_cong [OF S2, of real] by (simp add: D)
  have Lf: "real L + f < real H" using L assms(3) by (simp add: nat_less_real_le)
  have m: "S mod 2 ^ d = (if odd Q then H else 0) + L"
  proof -
    have "S mod 2 ^ d = S - K * (2 * H)" by (simp add: K_def H(2) minus_div_mult_eq_mod)
    then show ?thesis using S2 by simp
  qed
  have k1: "real (K + 1) * D = real K * D + 2 * real H" and kh: "(real K + 1 / 2) * D = real K * D + real H"
    by (simp_all add: D algebra_simps)
  have Hr: "0 < real H" using H(1) by simp
  have Lr: "0 \<le> real L" "L = 0 \<longleftrightarrow> real L = 0" by simp_all
  note facts = rS Lf Hr Lr assms(2)
  show "real K * D \<le> real S + f" "real S + f < real (K + 1) * D" using facts k1 by (auto split: if_splits)
  show "(S mod 2 ^ d \<noteq> 0 \<or> f \<noteq> 0) = (real S + f \<noteq> real K * D)" using facts m H(1) by (auto split: if_splits)
  show "(odd (S div 2 ^ (d - 1)) \<and> \<not> (S mod 2 ^ (d - 1) \<noteq> 0 \<or> f \<noteq> 0)) = (real S + f = (real K + 1 / 2) * D)"
    "(odd (S div 2 ^ (d - 1)) \<and> (S mod 2 ^ (d - 1) \<noteq> 0 \<or> f \<noteq> 0)) = ((real K + 1 / 2) * D < real S + f)"
    unfolding kh H_def [symmetric] Q_def [symmetric] L_def [symmetric] using facts by (auto split: if_splits)
qed

lemma keep_sound:
  assumes "represents x a" and "\<bar>ex_exponent x\<bar> \<le> 2 ^ 29" and "\<bar>lsb\<bar> \<le> 2 ^ 30"
    and "lsb \<le> ex_exponent x \<Longrightarrow> \<not> ex_sticky x \<and> ex_exponent x - lsb < 128 \<and>
           unat (ex_significand x) * 2 ^ nat (ex_exponent x - lsb) < 2 ^ 128"
    and "keep_and_remainder x lsb = (kept, half, abv, inexact)"
  shows "real (unat kept) * 2 powi lsb \<le> a" and "a < real (unat kept + 1) * 2 powi lsb"
    and "half = (a = (real (unat kept) + 1 / 2) * 2 powi lsb)"
    and "abv = ((real (unat kept) + 1 / 2) * 2 powi lsb < a)"
    and "inexact = (a \<noteq> real (unat kept) * 2 powi lsb)"
proof -
  define e where "e = ex_exponent x"
  define S where "S = unat (ex_significand x)"
  obtain f where a: "a = (real S + f) * 2 powi e" and f: "if ex_sticky x then 0 < f \<and> f < 1 else f = 0"
    using assms(1) by (auto simp: represents_def S_def e_def)
  have goal: "real (unat kept) * 2 powi lsb \<le> a \<and> a < real (unat kept + 1) * 2 powi lsb \<and>
    half = (a = (real (unat kept) + 1 / 2) * 2 powi lsb) \<and> abv = ((real (unat kept) + 1 / 2) * 2 powi lsb < a) \<and>
    inexact = (a \<noteq> real (unat kept) * 2 powi lsb)"
  proof (cases "lsb \<le> e")
    case True
    then have k: "unat kept = S * 2 ^ nat (e - lsb)" and r: "\<not> half" "\<not> abv" "\<not> inexact" and f0: "f = 0"
      using assms(2-5) f by (auto simp: keep_and_remainder_def e_def S_def unat_shl)
    have "a = real (unat kept) * 2 powi lsb" by (simp add: a f0 k powi_split [OF True])
    with r show ?thesis by simp
  next
    case False
    define d where "d = nat (lsb - e)"
    have d: "0 < d" "as_u32 (wrap_i32 (lsb - e)) = d" using False assms(2,3) by (simp_all add: d_def e_def)
    have st: "ex_sticky x = (f \<noteq> 0)" using f by (auto split: if_splits)
    have "keep_and_remainder x lsb =
      (fst (shift_right_sticky (ex_significand x) d),
       (d \<le> 128 \<and> shr (ex_significand x) (d - 1) AND 1 = 1) \<and> \<not> (snd (shift_right_sticky (ex_significand x) (d - 1)) \<or> ex_sticky x),
       (d \<le> 128 \<and> shr (ex_significand x) (d - 1) AND 1 = 1) \<and> (snd (shift_right_sticky (ex_significand x) (d - 1)) \<or> ex_sticky x),
       snd (shift_right_sticky (ex_significand x) d) \<or> ex_sticky x)"
      unfolding keep_and_remainder_def e_def [symmetric] Let_def case_prod_beta d(2) using False by (simp only: if_False)
    then have eqs: "kept = fst (shift_right_sticky (ex_significand x) d)"
      "half = (odd (S div 2 ^ (d - 1)) \<and> \<not> (S mod 2 ^ (d - 1) \<noteq> 0 \<or> f \<noteq> 0))"
      "abv = (odd (S div 2 ^ (d - 1)) \<and> (S mod 2 ^ (d - 1) \<noteq> 0 \<or> f \<noteq> 0))"
      "inexact = (S mod 2 ^ d \<noteq> 0 \<or> f \<noteq> 0)"
      unfolding guard_bit shift_right_sticky_drops st S_def using assms(5) by (simp_all only: prod.inject)
    have k: "unat kept = S div 2 ^ d" and i: "inexact = (S mod 2 ^ d \<noteq> 0 \<or> f \<noteq> 0)"
      and h: "half = (odd (S div 2 ^ (d - 1)) \<and> \<not> (S mod 2 ^ (d - 1) \<noteq> 0 \<or> f \<noteq> 0))"
      and ab: "abv = (odd (S div 2 ^ (d - 1)) \<and> (S mod 2 ^ (d - 1) \<noteq> 0 \<or> f \<noteq> 0))"
      using eqs by (simp_all only: unat_shift_right_sticky S_def)
    have u: "(2 :: real) powi lsb = 2 ^ d * 2 powi e" using powi_split [of e lsb] False by (simp add: d_def)
    have f': "0 \<le> f" "f < 1" using f by (auto split: if_splits)
    have p: "(0 :: real) < 2 powi e" by simp
    have c: "(t * 2 powi lsb \<le> a) = (t * 2 ^ d \<le> real S + f)" "(a < t * 2 powi lsb) = (real S + f < t * 2 ^ d)"
      "(a = t * 2 powi lsb) = (real S + f = t * 2 ^ d)" "(t * 2 powi lsb < a) = (t * 2 ^ d < real S + f)" for t
      using p by (simp_all add: u a flip: mult.assoc)
    show ?thesis unfolding c k i h ab using cut_remainder [OF d(1) f', of S] by blast
  qed
  then show "real (unat kept) * 2 powi lsb \<le> a" "a < real (unat kept + 1) * 2 powi lsb"
    "half = (a = (real (unat kept) + 1 / 2) * 2 powi lsb)" "abv = ((real (unat kept) + 1 / 2) * 2 powi lsb < a)"
    "inexact = (a \<noteq> real (unat kept) * 2 powi lsb)" by blast+
qed

section \<open>The cut of an exact value\<close>

lemma powi_mono: "e \<le> e' \<Longrightarrow> (2 :: real) powi e \<le> 2 powi e'"
  by (rule power_int_increasing) simp_all

lemma powi_add_nat: "(2 :: real) powi (e + int n) = 2 ^ n * 2 powi e"
  by (simp add: power_int_add)

lemma binade_bounds:
  assumes "represents x a" and "ex_significand x \<noteq> 0" and "\<bar>ex_exponent x\<bar> \<le> 2 ^ 29"
  shows "2 powi binade x \<le> a" and "a < 2 powi (binade x + 1)"
proof -
  define n where "n = significant_bits (ex_significand x)"
  define S where "S = unat (ex_significand x)"
  obtain f where a: "a = (real S + f) * 2 powi ex_exponent x" and f: "0 \<le> f" "f < 1"
    using assms(1) by (auto simp: represents_def S_def split: if_splits)
  have S0: "S \<noteq> 0" using assms(2) by (simp add: S_def unat_0_iff)
  have "2 ^ (n - 1) \<le> S" and "S + 1 \<le> 2 ^ n" and n: "0 < n"
    using bit_length_bounds [of S] S0 by (simp_all add: n_def S_def significant_bits_eq)
  then have "real (2 ^ (n - 1)) \<le> real S" "real (S + 1) \<le> real (2 ^ n)" by (simp_all only: of_nat_le_iff)
  then have "2 ^ (n - 1) \<le> real S" "real S + 1 \<le> 2 ^ n" by (simp_all only: of_nat_power of_nat_add of_nat_numeral of_nat_1)
  then have S: "2 ^ (n - 1) \<le> real S + f" "real S + f < 2 ^ n" using f by linarith+
  have b: "binade x = ex_exponent x + int (n - 1)" "binade x + 1 = ex_exponent x + int n"
    using binade_eq [OF assms(3)] n by (simp_all add: n_def [symmetric])
  show "2 powi binade x \<le> a" "a < 2 powi (binade x + 1)"
    unfolding b(2) unfolding b(1) powi_add_nat a using S by (simp_all add: mult_right_mono)
qed

lemma ieee_cut:
  assumes F: "format_ok F" and x: "exact_ok F x" "represents x a" "ex_significand x \<noteq> 0"
    and lsb: "lsb = max (binade x) (emin F) - int (FRAC_BITS F)"
    and keep: "keep_and_remainder x lsb = (kept, half, abv, inexact)"
  shows "cut F (unat kept) lsb a" and "half = (a = (real (unat kept) + 1 / 2) * 2 powi lsb)"
    and "abv = ((real (unat kept) + 1 / 2) * 2 powi lsb < a)" and "inexact = (a \<noteq> real (unat kept) * 2 powi lsb)"
    and "(binade x < emin F) = (a < 2 powi emin F)"
    and "binade x < emin F \<Longrightarrow> unat kept < 2 ^ FRAC_BITS F"
    and "\<not> binade x < emin F \<Longrightarrow> 2 ^ FRAC_BITS F \<le> unat kept"
proof -
  define n where "n = significant_bits (ex_significand x)"
  define e where "e = ex_exponent x"
  have e: "\<bar>ex_exponent x\<bar> \<le> 2 ^ 29" using x(1) by (simp add: exact_ok_def)
  have n: "1 \<le> n" "n \<le> 128" using x(3) significant_bits_le by (simp_all add: n_def significant_bits_eq unat_0_iff Suc_le_eq)
  have b: "binade x = e + int n - 1" using binade_eq [OF e] by (simp add: n_def e_def)
  have fr: "FRAC_BITS F < 63" by (rule frac_lt_63 [OF F])
  have lr: "\<bar>lsb\<bar> \<le> 2 ^ 30" using e BIAS_bounds [OF F] n fr unfolding lsb b emin_def e_def by simp
  have low: "e + int n - 1 - int (FRAC_BITS F) \<le> lsb" by (simp add: lsb b)
  have left: "\<not> ex_sticky x \<and> ex_exponent x - lsb < 128 \<and> unat (ex_significand x) * 2 ^ nat (ex_exponent x - lsb) < 2 ^ 128"
    if "lsb \<le> ex_exponent x"
  proof -
    have d: "n + nat (e - lsb) \<le> FRAC_BITS F + 1" using low that by (simp add: e_def)
    have "unat (ex_significand x) * 2 ^ nat (e - lsb) < 2 ^ n * 2 ^ nat (e - lsb)"
      using bit_length_bounds(1) [of "unat (ex_significand x)"] by (simp add: n_def significant_bits_eq)
    also have "\<dots> \<le> 2 ^ 128" using d fr by (simp only: power_add [symmetric]) (rule power_increasing, simp_all)
    finally show ?thesis using x(1) d that low fr by (auto simp: exact_ok_def n_def [symmetric] e_def)
  qed
  note k = keep_sound [OF x(2) e lr left keep]
  show "half = (a = (real (unat kept) + 1 / 2) * 2 powi lsb)" by (rule k(3))
  show "abv = ((real (unat kept) + 1 / 2) * 2 powi lsb < a)" by (rule k(4))
  show "inexact = (a \<noteq> real (unat kept) * 2 powi lsb)" by (rule k(5))
  note bb = binade_bounds [OF x(2,3) e]
  show tiny: "(binade x < emin F) = (a < 2 powi emin F)"
    using bb powi_mono [of "binade x + 1" "emin F"] powi_mono [of "emin F" "binade x"] by (cases "binade x < emin F") auto
  have u: "(0 :: real) < 2 powi lsb" by simp
  have ub: "2 powi (max (binade x) (emin F)) = 2 ^ FRAC_BITS F * (2 :: real) powi lsb"
    using powi_add_nat [of lsb "FRAC_BITS F"] by (simp add: lsb)
  have lt: "real (unat kept) < t \<longleftrightarrow> real (unat kept) * 2 powi lsb < t * 2 powi lsb" for t using u by simp
  have "a < 2 powi (max (binade x) (emin F) + 1)" using bb(2) powi_mono [of "binade x + 1" "max (binade x) (emin F) + 1"] by simp
  also have "\<dots> = 2 ^ (FRAC_BITS F + 1) * 2 powi lsb" using ub by (simp add: power_int_add)
  finally have "real (unat kept) < 2 ^ (FRAC_BITS F + 1)" unfolding lt using k(1) by linarith
  then have q: "unat kept < 2 ^ (FRAC_BITS F + 1)" by (metis of_nat_less_numeral_power_cancel_iff)
  show sm: "unat kept < 2 ^ FRAC_BITS F" if "binade x < emin F"
  proof -
    have "a < 2 ^ FRAC_BITS F * 2 powi lsb" using tiny that ub by (simp add: max_def)
    then have "real (unat kept) < 2 ^ FRAC_BITS F" unfolding lt using k(1) by linarith
    then show ?thesis by (metis of_nat_less_numeral_power_cancel_iff)
  qed
  show big: "2 ^ FRAC_BITS F \<le> unat kept" if "\<not> binade x < emin F"
  proof -
    have "2 ^ FRAC_BITS F * 2 powi lsb \<le> a" using bb(1) that ub by (simp add: max_def split: if_splits)
    then have "2 ^ FRAC_BITS F * 2 powi lsb < real (unat kept + 1) * 2 powi lsb" using k(2) by linarith
    then have "2 ^ FRAC_BITS F < real (unat kept + 1)" using u by simp
    then have "real (2 ^ FRAC_BITS F) < real (unat kept + 1)" by simp
    then show ?thesis by (simp only: of_nat_less_iff)
  qed
  have m: "2 ^ FRAC_BITS F \<le> unat kept \<or> lsb = emin F - int (FRAC_BITS F)" using big lsb by (cases "binade x < emin F") auto
  show "cut F (unat kept) lsb a" unfolding cut_def using q m k(1,2) by (simp add: lsb)
qed

section \<open>Packing\<close>

lemma enc_sign_or:
  assumes "format_ok F" and "unat field < 2 ^ SIGN_SHIFT F" and bits_def: "bits = sign_bit F negative OR field"
  shows "unat bits < 2 ^ (SIGN_SHIFT F + 1)" and "enc_neg F bits = negative"
    and "enc_exp F bits = unat field div 2 ^ FRAC_BITS F" and "enc_frac F bits = unat field mod 2 ^ FRAC_BITS F"
proof -
  have s: "unat (sign_bit F negative) = (if negative then 2 ^ SIGN_SHIFT F else 0)"
    using assms(1) unat_shl_1 [of "SIGN_SHIFT F", where 'a = 64] by (simp add: sign_bit_def format_ok_def unat_shl shl_def)
  have b: "unat bits = (if negative then 2 ^ SIGN_SHIFT F else 0) + unat field"
    unfolding bits_def using unat_or_disjoint [of "SIGN_SHIFT F" "sign_bit F negative" field] assms(2) s by simp
  show "unat bits < 2 ^ (SIGN_SHIFT F + 1)" "enc_neg F bits = negative"
    using assms(2) by (auto simp: b enc_neg_def)
  have sh: "(2 :: nat) ^ SIGN_SHIFT F = 2 ^ EXP_BITS F * 2 ^ FRAC_BITS F" by (simp add: SIGN_SHIFT_def power_add)
  have f: "unat field div 2 ^ FRAC_BITS F < 2 ^ EXP_BITS F" using assms(2) sh by (simp add: less_mult_imp_div_less)
  show "enc_exp F bits = unat field div 2 ^ FRAC_BITS F" "enc_frac F bits = unat field mod 2 ^ FRAC_BITS F"
    using f by (auto simp: enc_exp_def enc_frac_def b sh)
qed

lemma exp_max_i32_eq: "format_ok F \<Longrightarrow> exp_max_i32 F = 2 * BIAS F + 1"
proof -
  assume F: "format_ok F"
  have "uint (EXP_MAX F) = int (2 ^ EXP_BITS F - 1)" using EXP_MAX_unat [OF F] by (simp only: uint_nat)
  also have "\<dots> = 2 * BIAS F + 1" using BIAS_bounds(3) [OF F] by (simp add: of_nat_diff)
  finally show ?thesis using BIAS_bounds [OF F] by (simp add: exp_max_i32_def)
qed

text \<open>The field of a normal number, from its biased exponent and its full significand.\<close>

lemma normal_field:
  assumes F: "format_ok F" and b: "0 \<le> biased" "biased \<le> 2 * BIAS F + 1"
    and f: "unat (fw :: u64) < 2 ^ FRAC_BITS F"
  shows "unat (shl (of_int biased) (FRAC_BITS F) OR fw) = nat biased * 2 ^ FRAC_BITS F + unat fw"
    and "nat biased * 2 ^ FRAC_BITS F + unat fw < 2 ^ SIGN_SHIFT F"
proof -
  have "int (nat biased + 1) \<le> int (2 ^ EXP_BITS F)" using b BIAS_bounds(3) [OF F] by simp
  then have e: "nat biased + 1 \<le> 2 ^ EXP_BITS F" by (simp only: of_nat_le_iff)
  have "nat biased * 2 ^ FRAC_BITS F + unat fw < (nat biased + 1) * 2 ^ FRAC_BITS F" using f by simp
  also have "\<dots> \<le> 2 ^ EXP_BITS F * 2 ^ FRAC_BITS F" using e by (rule mult_le_mono1)
  finally show s: "nat biased * 2 ^ FRAC_BITS F + unat fw < 2 ^ SIGN_SHIFT F" by (simp add: SIGN_SHIFT_def power_add)
  have "(2 :: nat) ^ SIGN_SHIFT F \<le> 2 ^ 63" using F by (intro power_increasing) (simp_all add: format_ok_def)
  then have m: "nat biased * 2 ^ FRAC_BITS F < 2 ^ 64" using s by simp
  have "nat biased < 2 ^ LENGTH(64)" using order_le_less_trans [OF _ m, of "nat biased"] by simp
  then have "unat (of_nat (nat biased) :: u64) = nat biased" by (rule unat_of_nat_no_wrap)
  then have w: "unat (of_int biased :: u64) = nat biased" using b(1) by (simp only: of_nat_nat)
  then have "unat (shl (of_int biased :: u64) (FRAC_BITS F)) = nat biased * 2 ^ FRAC_BITS F"
    using m frac_lt_63 [OF F] by (subst unat_shl) simp_all
  then show "unat (shl (of_int biased) (FRAC_BITS F) OR fw) = nat biased * 2 ^ FRAC_BITS F + unat fw"
    using unat_or_disjoint [of "FRAC_BITS F" "shl (of_int biased) (FRAC_BITS F)" fw] f by simp
qed

lemma div_mod_field: "f < m \<Longrightarrow> (q * m + f) div m = q" "f < m \<Longrightarrow> (q * m + f) mod m = (f :: nat)"
  by simp_all

lemma normal_huge:
  assumes "2 ^ FRAC_BITS F \<le> k" and "k < 2 ^ (FRAC_BITS F + 1)"
  shows "huge F (real k * 2 powi (B - BIAS F - int (FRAC_BITS F))) \<longleftrightarrow> 2 * BIAS F + 1 \<le> B"
proof -
  define u where "u = (2 :: real) powi (B - BIAS F - int (FRAC_BITS F))"
  have e: "2 powi (B - BIAS F) = 2 ^ FRAC_BITS F * u" "2 powi (B - BIAS F + 1) = 2 ^ (FRAC_BITS F + 1) * u"
    using powi_add_nat [of "B - BIAS F - int (FRAC_BITS F)" "FRAC_BITS F"] by (simp_all add: u_def power_int_add)
  have u: "0 < u" by (simp add: u_def)
  have "2 ^ FRAC_BITS F \<le> real k" using assms(1) by (metis of_nat_le_iff of_nat_numeral of_nat_power)
  moreover have "real k < 2 ^ (FRAC_BITS F + 1)" using assms(2) by (metis of_nat_less_iff of_nat_numeral of_nat_power)
  ultimately have r: "2 powi (B - BIAS F) \<le> real k * u" "real k * u < 2 powi (B - BIAS F + 1)" unfolding e using u by simp_all
  have a: "\<bar>real k * u\<bar> = real k * u" using u by simp
  show ?thesis unfolding huge_def u_def [symmetric] a
    using r powi_mono [of "B - BIAS F + 1" "BIAS F + 1"] powi_mono [of "BIAS F + 1" "B - BIAS F"] by (cases "2 * BIAS F + 1 \<le> B") auto
qed

lemma unat_ucast_kept:
  assumes F: "format_ok F" and k: "unat (kept :: u128) < 2 ^ (FRAC_BITS F + 1)"
  shows "unat (ucast kept :: u64) = unat kept" and "unat (ucast kept AND FRAC_MASK F) = unat kept mod 2 ^ FRAC_BITS F"
proof -
  have "(2 :: nat) ^ (FRAC_BITS F + 1) \<le> 2 ^ 63" using frac_lt_63 [OF F] by (intro power_increasing) simp_all
  then have "unat kept < 2 ^ 64" using k by simp
  then show u: "unat (ucast kept :: u64) = unat kept" by (simp add: unsigned_ucast_eq take_bit_nat_eq_self)
  then show "unat (ucast kept AND FRAC_MASK F) = unat kept mod 2 ^ FRAC_BITS F"
    by (simp add: unat_and_FRAC_MASK [OF F] enc_frac_def)
qed

lemma overflow_bits:
  assumes F: "format_ok F"
  shows "unat (overflow_magnitude F rounding negative) < 2 ^ SIGN_SHIFT F"
    and "(unat (overflow_magnitude F rounding negative) div 2 ^ FRAC_BITS F, unat (overflow_magnitude F rounding negative) mod 2 ^ FRAC_BITS F) =
      overflow_exp_frac F rounding negative"
proof -
  define E where "E = 2 * BIAS F + 1"
  have E: "0 \<le> E - 1" "0 \<le> E" "E \<le> 2 * BIAS F + 1" "nat E = 2 ^ EXP_BITS F - 1"
    using BIAS_bounds [OF F] by (simp_all add: E_def nat_eq_iff of_nat_diff)
  have "uint (EXP_MAX F) = E" using EXP_MAX_unat [OF F] BIAS_bounds(3) [OF F] by (simp add: E_def uint_nat of_nat_diff)
  then have x: "(ucast (EXP_MAX F) :: u64) = of_int E" by (metis of_int_uint)
  have x1: "(ucast (EXP_MAX F) :: u64) - 1 = of_int (E - 1)" by (simp add: x)
  have fm: "unat (FRAC_MASK F) = 2 ^ FRAC_BITS F - 1"
    using frac_lt_63 [OF F] unat_shl_1 [of "FRAC_BITS F", where 'a = 64]
    by (simp add: FRAC_MASK_def unat_minus_no_wrap word_le_nat_alt)
  define A :: u64 where "A = shl (ucast (EXP_MAX F) - 1) (FRAC_BITS F) OR FRAC_MASK F"
  define B :: u64 where "B = shl (ucast (EXP_MAX F)) (FRAC_BITS F)"
  have a: "unat A = nat (E - 1) * 2 ^ FRAC_BITS F + (2 ^ FRAC_BITS F - 1)" "unat A < 2 ^ SIGN_SHIFT F"
    unfolding A_def x1 using normal_field [OF F E(1), of "FRAC_MASK F"] E(3) fm by simp_all
  have b: "unat B = nat E * 2 ^ FRAC_BITS F" "unat B < 2 ^ SIGN_SHIFT F"
    unfolding B_def x using normal_field [OF F E(2), of 0] E(3) by simp_all
  have "nat (E - 1) = 2 ^ EXP_BITS F - 2" using E by (simp add: nat_diff_distrib)
  then have av: "unat A div 2 ^ FRAC_BITS F = 2 ^ EXP_BITS F - 2" "unat A mod 2 ^ FRAC_BITS F = 2 ^ FRAC_BITS F - 1"
    unfolding a(1) by (subst div_mod_field, simp_all del: add_diff_assoc)+
  have bv: "unat B div 2 ^ FRAC_BITS F = 2 ^ EXP_BITS F - 1" "unat B mod 2 ^ FRAC_BITS F = 0" unfolding b E(4) by simp_all
  define tz where "tz \<longleftrightarrow> rounding = TowardZero \<or> rounding = TowardPositive \<and> negative \<or> rounding = TowardNegative \<and> \<not> negative"
  have m: "overflow_magnitude F rounding negative = (if tz then A else B)"
    unfolding overflow_magnitude_def Let_def A_def [symmetric] B_def [symmetric] tz_def by (cases rounding) simp_all
  show "unat (overflow_magnitude F rounding negative) < 2 ^ SIGN_SHIFT F" unfolding m using a(2) b(2) by (cases tz) simp_all
  show "(unat (overflow_magnitude F rounding negative) div 2 ^ FRAC_BITS F, unat (overflow_magnitude F rounding negative) mod 2 ^ FRAC_BITS F) =
      overflow_exp_frac F rounding negative"
    unfolding m overflow_exp_frac_def tz_def [symmetric] by (cases tz) (simp_all only: if_True if_False av bv)
qed

lemma tiny_field_value:
  assumes F: "format_ok F" and k: "k \<le> 2 ^ FRAC_BITS F"
  shows "mag_of_fields F (k div 2 ^ FRAC_BITS F) (k mod 2 ^ FRAC_BITS F) = real k * 2 powi (emin F - int (FRAC_BITS F))"
    and "k div 2 ^ FRAC_BITS F < 2 ^ EXP_BITS F - 1" and "k < 2 ^ SIGN_SHIFT F"
    and "\<not> huge F (real k * 2 powi (emin F - int (FRAC_BITS F)))"
proof -
  have e4: "(4 :: nat) \<le> 2 ^ EXP_BITS F" using power_increasing [of 2 "EXP_BITS F" "2 :: nat"] F by (simp add: format_ok_def)
  show "mag_of_fields F (k div 2 ^ FRAC_BITS F) (k mod 2 ^ FRAC_BITS F) = real k * 2 powi (emin F - int (FRAC_BITS F))"
    using k by (cases "k = 2 ^ FRAC_BITS F") (simp_all add: mag_of_fields_def emin_def)
  show "k div 2 ^ FRAC_BITS F < 2 ^ EXP_BITS F - 1" using k e4 by (cases "k = 2 ^ FRAC_BITS F") simp_all
  have "k < 4 * 2 ^ FRAC_BITS F" using k by (simp add: order_le_less_trans)
  also have "\<dots> \<le> 2 ^ EXP_BITS F * 2 ^ FRAC_BITS F" using e4 by (rule mult_le_mono1)
  finally show "k < 2 ^ SIGN_SHIFT F" by (simp add: SIGN_SHIFT_def power_add)
  have "real k \<le> 2 ^ FRAC_BITS F" using k by (metis of_nat_le_iff of_nat_numeral of_nat_power)
  then have "real k * 2 powi (emin F - int (FRAC_BITS F)) \<le> 2 ^ FRAC_BITS F * 2 powi (emin F - int (FRAC_BITS F))" by simp
  also have "\<dots> = 2 powi emin F" using powi_add_nat [of "emin F - int (FRAC_BITS F)" "FRAC_BITS F"] by simp
  also have "\<dots> < 2 powi (BIAS F + 1)" using BIAS_bounds [OF F] by (intro power_int_strict_increasing) (simp_all add: emin_def)
  finally show "\<not> huge F (real k * 2 powi (emin F - int (FRAC_BITS F)))" by (simp add: huge_def)
qed

lemma normal_field_value:
  assumes F: "format_ok F" and B: "1 \<le> B" "B \<le> 2 * BIAS F" and k: "2 ^ FRAC_BITS F \<le> k" "k < 2 ^ (FRAC_BITS F + 1)"
  shows "mag_of_fields F (nat B) (k mod 2 ^ FRAC_BITS F) = real k * 2 powi (B - BIAS F - int (FRAC_BITS F))"
    and "nat B < 2 ^ EXP_BITS F - 1"
proof -
  have "k = 2 ^ FRAC_BITS F + k mod 2 ^ FRAC_BITS F" using k by (simp add: le_mod_geq)
  then have "real k = 2 ^ FRAC_BITS F + real (k mod 2 ^ FRAC_BITS F)" by (metis of_nat_add of_nat_numeral of_nat_power)
  then show "mag_of_fields F (nat B) (k mod 2 ^ FRAC_BITS F) = real k * 2 powi (B - BIAS F - int (FRAC_BITS F))"
    using B(1) by (simp add: mag_of_fields_def)
  have "int (2 ^ EXP_BITS F - 1) = 2 * BIAS F + 1" using BIAS_bounds(3) [OF F] by (simp add: of_nat_diff)
  then show "nat B < 2 ^ EXP_BITS F - 1" using B by linarith
qed

lemma ieee_pack_sound:
  assumes F: "format_ok F" and b: "\<bar>b\<bar> \<le> 2 ^ 30" and tiny: "tiny = (b < emin F)"
    and kt: "tiny \<Longrightarrow> unat kept \<le> 2 ^ FRAC_BITS F"
    and kn: "\<not> tiny \<Longrightarrow> 2 ^ FRAC_BITS F \<le> unat kept \<and> unat kept \<le> 2 ^ (FRAC_BITS F + 1)"
    and r_def: "r = real (unat kept) * 2 powi (max b (emin F) - int (FRAC_BITS F))"
    and t_def: "t = ieee_pack F rounding negative b tiny inexact increment kept"
  shows "unat (pk_bits (tr_packed t)) < 2 ^ (SIGN_SHIFT F + 1)" and "enc_neg F (pk_bits (tr_packed t)) = negative"
    and "if huge F r
         then (enc_exp F (pk_bits (tr_packed t)), enc_frac F (pk_bits (tr_packed t))) = overflow_exp_frac F rounding negative
         else enc_finite F (pk_bits (tr_packed t)) \<and> enc_value F (pk_bits (tr_packed t)) = signed_real negative r"
    and "pk_flags (tr_packed t) =
           Flags_default\<lparr>fl_overflow := huge F r, fl_underflow := tiny \<and> inexact, fl_inexact := inexact \<or> huge F r\<rparr>"
    and "tr_incremented t = increment" and "tr_tiny t = tiny"
proof -
  define carry where "carry \<longleftrightarrow> \<not> tiny \<and> unat kept = 2 ^ (FRAC_BITS F + 1)"
  define k :: u128 where "k = (if carry then shr kept 1 else kept)"
  define B where "B = (if tiny then 0 else b + BIAS F + (if carry then 1 else 0))"
  define field :: u64 where "field = (if tiny then ucast k else shl (of_int B) (FRAC_BITS F) OR (ucast k AND FRAC_MASK F))"
  have fr: "FRAC_BITS F + 1 < 128" using frac_lt_63 [OF F] by simp
  have c: "(\<not> tiny \<and> shr kept (FRAC_BITS F + 1) \<noteq> 0) = carry"
    using kn fr by (auto simp: carry_def unat_0_iff [symmetric] unat_shr div_eq_0_iff)
  have wB: "(if carry then wrap_i32 ((if tiny then 0 else wrap_i32 (b + BIAS F)) + 1) else if tiny then 0 else wrap_i32 (b + BIAS F)) = B"
    using b BIAS_bounds [OF F] by (auto simp: B_def carry_def)
  have t: "t = (if 2 * BIAS F + 1 \<le> B
      then \<lparr>tr_packed = \<lparr>pk_bits = sign_bit F negative OR overflow_magnitude F rounding negative,
              pk_flags = Flags_default\<lparr>fl_inexact := True, fl_underflow := tiny \<and> inexact, fl_overflow := True\<rparr>\<rparr>,
            tr_incremented = increment, tr_tiny = tiny\<rparr>
      else \<lparr>tr_packed = \<lparr>pk_bits = sign_bit F negative OR field,
              pk_flags = Flags_default\<lparr>fl_inexact := inexact, fl_underflow := tiny \<and> inexact\<rparr>\<rparr>,
            tr_incremented = increment, tr_tiny = tiny\<rparr>)"
    unfolding t_def ieee_pack_def Let_def c k_def [symmetric] wB exp_max_i32_eq [OF F] field_def by simp
  have k2: "2 ^ FRAC_BITS F \<le> unat k" "unat k < 2 ^ (FRAC_BITS F + 1)" if "\<not> tiny"
    using kn [OF that] that by (auto simp: k_def carry_def unat_shr)
  have r: "r = real (unat k) * 2 powi (B - BIAS F - int (FRAC_BITS F))" if "\<not> tiny"
  proof (cases carry)
    case True
    have "unat k = 2 ^ FRAC_BITS F" using True by (simp add: k_def carry_def unat_shr)
    moreover have "(2 :: real) powi (B - BIAS F - int (FRAC_BITS F)) = 2 * 2 powi (b - int (FRAC_BITS F))"
      using True power_int_add_1' [of "2 :: real" "b - int (FRAC_BITS F)"] by (simp add: B_def carry_def algebra_simps)
    ultimately show ?thesis using True that tiny by (simp add: r_def carry_def max_def)
  next
    case False
    then show ?thesis using that tiny by (simp add: r_def k_def B_def max_def)
  qed
  have rt: "r = real (unat k) * 2 powi (emin F - int (FRAC_BITS F))" if tiny
    using that tiny by (simp add: r_def k_def carry_def max_def)
  have B1: "1 \<le> B" if "\<not> tiny" using that tiny by (auto simp: B_def emin_def)
  have over: "huge F r = (2 * BIAS F + 1 \<le> B)"
  proof (cases tiny)
    case True
    then show ?thesis using tiny_field_value(4) [OF F] kt rt BIAS_bounds [OF F] by (simp add: B_def k_def carry_def)
  qed (use normal_huge [OF k2] r in simp)
  show "tr_incremented t = increment" "tr_tiny t = tiny"
    "pk_flags (tr_packed t) =
       Flags_default\<lparr>fl_overflow := huge F r, fl_underflow := tiny \<and> inexact, fl_inexact := inexact \<or> huge F r\<rparr>"
    by (simp_all add: t over Flags_default_def)
  have fld: "unat field < 2 ^ SIGN_SHIFT F \<and> unat field div 2 ^ FRAC_BITS F < 2 ^ EXP_BITS F - 1 \<and>
      mag_of_fields F (unat field div 2 ^ FRAC_BITS F) (unat field mod 2 ^ FRAC_BITS F) = r" if "\<not> huge F r"
  proof (cases tiny)
    case True
    then have "unat field = unat kept" using unat_ucast_kept(1) [OF F, of kept] kt
      by (simp add: field_def k_def carry_def order_le_less_trans)
    with True show ?thesis using tiny_field_value [OF F kt] rt by (simp add: k_def carry_def)
  next
    case False
    have "unat (ucast k AND FRAC_MASK F) = unat k mod 2 ^ FRAC_BITS F" by (rule unat_ucast_kept(2) [OF F k2(2) [OF False]])
    then have "unat field = nat B * 2 ^ FRAC_BITS F + unat k mod 2 ^ FRAC_BITS F" "unat field < 2 ^ SIGN_SHIFT F"
      using normal_field [OF F, of B "ucast k AND FRAC_MASK F"] B1 [OF False] that over False by (simp_all add: field_def)
    with False show ?thesis
      using normal_field_value [OF F B1 [OF False] _ k2 [OF False]] that over r by simp
  qed
  show "unat (pk_bits (tr_packed t)) < 2 ^ (SIGN_SHIFT F + 1)" "enc_neg F (pk_bits (tr_packed t)) = negative"
    "if huge F r
     then (enc_exp F (pk_bits (tr_packed t)), enc_frac F (pk_bits (tr_packed t))) = overflow_exp_frac F rounding negative
     else enc_finite F (pk_bits (tr_packed t)) \<and> enc_value F (pk_bits (tr_packed t)) = signed_real negative r"
    using fld overflow_bits [OF F] enc_sign_or [OF F _ refl] by (auto simp: t over enc_finite_def enc_value_def)
qed

section \<open>Correct rounding\<close>

lemma round_ieee_sound:
  assumes F: "format_ok F" and x: "exact_ok F x" "represents x a"
  shows "ieee_rounded F rounding (ex_negative x) a (round_ieee_traced F rounding x)"
proof (cases "ex_significand x = 0")
  case True
  have "\<not> ex_sticky x" using x(1) True by (auto simp: exact_ok_def significant_bits_eq)
  then have a: "a = 0" using x(2) True by (simp add: represents_def)
  have "cut F 0 (emin F - int (FRAC_BITS F)) 0" by (simp add: cut_def)
  then have r: "rounds_to F rounding (signed_real (ex_negative x) 0) 0"
    using cut_rounds [of F 0 "emin F - int (FRAC_BITS F)" 0 False rounding "ex_negative x"] F
    by (cases rounding) (auto simp: format_ok_def round_increment_def)
  have f: "enc_exp F (sign_bit F (ex_negative x)) = 0" "enc_frac F (sign_bit F (ex_negative x)) = 0"
    "enc_neg F (sign_bit F (ex_negative x)) = ex_negative x" "unat (sign_bit F (ex_negative x)) < 2 ^ (SIGN_SHIFT F + 1)"
    using enc_sign_or [OF F, of 0 "sign_bit F (ex_negative x)" "ex_negative x"] by simp_all
  have "\<not> huge F 0" by (simp add: huge_def not_le)
  then show ?thesis unfolding ieee_rounded_def
    using a r f tiny_field_value(2) [OF F, of 0] True
    by (intro exI [of _ 0]) (simp add: round_ieee_traced_def Let_def enc_finite_def enc_value_def mag_of_fields_def
        Flags_default_def)
next
  case False
  define lsb where "lsb = max (binade x) (emin F) - int (FRAC_BITS F)"
  obtain kept half abv inexact where keep: "keep_and_remainder x lsb = (kept, half, abv, inexact)"
    by (cases "keep_and_remainder x lsb") auto
  note c = ieee_cut [OF F x False lsb_def keep]
  define inc where "inc = round_increment rounding (ex_negative x) half abv inexact (odd (unat kept))"
  define k where "k = kept + (if inc then 1 else 0)"
  define r where "r = real (unat k) * 2 powi lsb"
  have e: "\<bar>ex_exponent x\<bar> \<le> 2 ^ 29" using x(1) by (simp add: exact_ok_def)
  have bb: "\<bar>binade x\<bar> \<le> 2 ^ 30"
    using binade_eq [OF e] e significant_bits_le [of "ex_significand x"] by simp
  have q: "unat kept < 2 ^ (FRAC_BITS F + 1)" using c(1) by (simp add: cut_def)
  moreover have "(2 :: nat) ^ (FRAC_BITS F + 1) \<le> 2 ^ 64" using frac_lt_63 [OF F] by (intro power_increasing) simp_all
  ultimately have k: "unat k = (if inc then unat kept + 1 else unat kept)"
    by (simp add: k_def unat_plus_no_wrap)
  have w: "wrap_i32 (1 - BIAS F) = emin F" "wrap_i32 lsb = lsb"
    using BIAS_bounds [OF F] bb frac_lt_63 [OF F] by (simp_all add: emin_def lsb_def)
  have t: "round_ieee_traced F rounding x =
      ieee_pack F rounding (ex_negative x) (binade x) (binade x < emin F) inexact inc k"
    using False keep by (simp add: round_ieee_traced_def Let_def w lsb_def [symmetric] and_1_odd inc_def k_def)
  note p = ieee_pack_sound [OF F bb refl _ _ r_def [unfolded lsb_def] t]
  have kb: "binade x < emin F \<Longrightarrow> unat k \<le> 2 ^ FRAC_BITS F"
    "\<not> binade x < emin F \<Longrightarrow> 2 ^ FRAC_BITS F \<le> unat k \<and> unat k \<le> 2 ^ (FRAC_BITS F + 1)"
    using c(6,7) q by (auto simp: k)
  have r0: "\<bar>signed_real (ex_negative x) r\<bar> = r" by (simp add: signed_real_def r_def)
  have hu: "huge F (signed_real (ex_negative x) r) = huge F r" by (simp add: huge_def r0) (simp add: r_def)
  have rt: "rounds_to F rounding (signed_real (ex_negative x) a) (signed_real (ex_negative x) r)"
    using cut_rounds [OF c(1), of inc rounding "ex_negative x"] F unfolding inc_def c(2-4) r_def k
    by (simp add: format_ok_def)
  have "inc \<Longrightarrow> inexact" unfolding inc_def c(2-4) round_increment_def
    by (cases rounding) (auto simp: algebra_simps)
  then have rel: "inexact = (r \<noteq> a)" "inc = (a < r)"
    using c(1) unfolding c(4) r_def k cut_def by (auto simp: algebra_simps)
  have a0: "0 < a" using binade_bounds(1) [OF x(2) False e] by (rule order_less_le_trans [rotated]) simp
  show ?thesis unfolding ieee_rounded_def
    using rt p [OF kb] r0 hu rel a0 c(5) by (intro exI [of _ "signed_real (ex_negative x) r"]) (simp add: Let_def)
qed

text \<open>
  C5: The IEEE rounding is correct in all four modes. For every format, every exact value and
  every real number it stands for (with a sticky bit: any real strictly between two
  significands), \<^verbatim>\<open>round_ieee_traced\<close> delivers the sign, the encoding of the correctly rounded
  value or the overflow result of the mode, and exactly the overflow, underflow, inexact,
  increment and tiny indications that rounding calls for.
\<close>
theorem round_ieee_correct:
  assumes "format_ok F" and "exact_ok F x" and "represents x a"
  shows "ieee_rounded F rounding (ex_negative x) a (round_ieee_traced F rounding x)"
  using assms by (rule round_ieee_sound)

theorem round_ieee_correct_witness:
  "ieee_rounded Binary32 NearestEven True (2 ^ 26 + 3 / 2)
     (round_ieee_traced Binary32 NearestEven (Exact_from_parts True (2 ^ 26 + 1) 0 True))"
proof -
  let ?x = "Exact_from_parts True (2 ^ 26 + 1) 0 True"
  have "exact_ok Binary32 ?x"
    by (simp add: exact_ok_def Exact_from_parts_def Binary32_def significant_bits_eq bit_length.simps)
  moreover have "represents ?x (2 ^ 26 + 3 / 2)"
    unfolding represents_def Exact_from_parts_def by (intro exI [of _ "1 / 2"]) simp
  ultimately show ?thesis
    using round_ieee_correct [of Binary32 ?x "2 ^ 26 + 3 / 2" NearestEven] by (simp add: Exact_from_parts_def)
qed

end
