(* ===== verification/Float_Arith.thy ===== *)
theory Float_Arith
  imports Float_Rounding "HOL-Library.Signed_Division"
begin

text \<open>
  \<^verbatim>\<open>cellgov_float/src/arith.rs\<close>: exact products and sums, and quotients and square roots that are
  exact up to a sticky bit. Each is proved to represent the real result, with enough bits
  above a sticky one for the rounding to be correct.
\<close>

section \<open>Operations\<close>

definition ALIGN_BITS :: nat where
  "ALIGN_BITS = 126"

definition OPERAND_BITS :: nat where
  "OPERAND_BITS = MAX_SIGNIFICAND_BITS"

definition operand :: "Exact \<Rightarrow> bool" where
  "operand x \<longleftrightarrow> \<not> ex_sticky x \<and> significant_bits (ex_significand x) \<le> OPERAND_BITS"

definition mul :: "Exact \<Rightarrow> Exact \<Rightarrow> Exact option" where
  "mul a b =
     (if \<not> operand a \<or> \<not> operand b then None
      else if significant_bits (ex_significand a) + significant_bits (ex_significand b) > OPERAND_BITS then None
      else Exact_new (ex_negative a \<noteq> ex_negative b) (ex_significand a * ex_significand b)
             (wrap_i32 (ex_exponent a + ex_exponent b)))"

definition product :: "Exact \<Rightarrow> Exact \<Rightarrow> Exact" where
  "product a b =
     Exact_from_parts (ex_negative a \<noteq> ex_negative b) (ex_significand a * ex_significand b)
       (wrap_i32 (ex_exponent a + ex_exponent b)) False"

definition quotient :: "Exact \<Rightarrow> Exact \<Rightarrow> Exact" where
  "quotient a b =
     (let shift_a = as_u32 (115 - int (significant_bits (ex_significand a)));
          shift_b = as_u32 (53 - int (significant_bits (ex_significand b)));
          dividend = shl (ex_significand a) shift_a;
          divisor = shl (ex_significand b) shift_b
      in Exact_from_parts (ex_negative a \<noteq> ex_negative b) (dividend div divisor)
           (wrap_i32 (wrap_i32 (ex_exponent a - wrap_i32 (int shift_a)) - wrap_i32 (ex_exponent b - wrap_i32 (int shift_b))))
           (dividend mod divisor \<noteq> 0))"

text \<open>\<^verbatim>\<open>u128::isqrt\<close>: the integer square root, two bits at a time.\<close>

fun isqrt :: "nat \<Rightarrow> nat" where
  "isqrt n = (if n = 0 then 0 else let r = 2 * isqrt (n div 4) in if (r + 1) * (r + 1) \<le> n then r + 1 else r)"

declare isqrt.simps [simp del]

definition square_root :: "Exact \<Rightarrow> Exact" where
  "square_root a =
     (let shift = as_u32 (120 - int (significant_bits (ex_significand a)));
          shift = (if wrap_i32 (ex_exponent a - wrap_i32 (int shift)) smod 2 \<noteq> 0 then as_u32 (int shift + 1) else shift);
          widened = shl (ex_significand a) shift;
          root = of_nat (isqrt (unat widened))
      in Exact_from_parts False root (wrap_i32 (ex_exponent a - wrap_i32 (int shift)) sdiv 2) (root * root \<noteq> widened))"

definition sum_binade :: "Exact \<Rightarrow> int" where
  "sum_binade x = ex_exponent x + int (significant_bits (ex_significand x))"

text \<open>The sum of two nonzero operands, the first of the higher binade.\<close>

definition sum_aligned :: "Exact \<Rightarrow> Exact \<Rightarrow> Exact" where
  "sum_aligned big small =
     (let shift = ALIGN_BITS - significant_bits (ex_significand big);
          big_sig = shl (ex_significand big) shift;
          big_exp = ex_exponent big - int shift;
          gap = big_exp - ex_exponent small;
          (small_sig, sticky) =
            (if gap \<le> 0 then (shl (ex_significand small) (as_u32 (- gap)), False)
             else shift_right_sticky (ex_significand small) (nat gap));
          exponent = wrap_i32 big_exp
      in if ex_negative big = ex_negative small
         then Exact_from_parts (ex_negative big) (big_sig + small_sig) exponent sticky
         else if big_sig > small_sig
         then Exact_from_parts (ex_negative big) (big_sig - small_sig - (if sticky then 1 else 0)) exponent sticky
         else if big_sig = small_sig then Exact_from_parts False 0 exponent False
         else Exact_from_parts (ex_negative small) (small_sig - big_sig) exponent False)"

definition sum :: "Exact \<Rightarrow> Exact \<Rightarrow> Exact" where
  "sum a b =
     (if ex_significand a = 0 \<and> ex_significand b = 0
      then Exact_from_parts (ex_negative a \<and> ex_negative b) 0 (min (ex_exponent a) (ex_exponent b)) False
      else if ex_significand b = 0 then a
      else if ex_significand a = 0 then b
      else if sum_binade a \<ge> sum_binade b then sum_aligned a b else sum_aligned b a)"

definition add :: "Exact \<Rightarrow> Exact \<Rightarrow> Exact option" where
  "add a b = (if \<not> operand a \<or> \<not> operand b then None else Some (sum a b))"

section \<open>Products\<close>

lemma parts [simp]:
  "ex_negative (Exact_from_parts n s e k) = n" "ex_significand (Exact_from_parts n s e k) = s"
  "ex_exponent (Exact_from_parts n s e k) = e" "ex_sticky (Exact_from_parts n s e k) = k"
  by (simp_all add: Exact_from_parts_def)

lemma represents_exact: "\<not> ex_sticky x \<Longrightarrow> represents x a \<longleftrightarrow> a = real (unat (ex_significand x)) * 2 powi ex_exponent x"
  by (simp add: represents_def)

lemma significant_bits_le_iff: "significant_bits x \<le> k \<longleftrightarrow> unat x < 2 ^ k"
  by (simp add: significant_bits_eq bit_length_le_iff)

lemma unat_mult_bits:
  assumes "significant_bits a + significant_bits b \<le> 128"
  shows "unat (a * b) = unat a * unat b"
proof -
  have "unat a * unat b < 2 ^ significant_bits a * 2 ^ significant_bits b"
    using significant_bits_le_iff [of a "significant_bits a"] significant_bits_le_iff [of b "significant_bits b"]
    by (simp add: mult_strict_mono')
  also have "\<dots> \<le> 2 ^ 128" using assms by (simp only: power_add [symmetric]) (rule power_increasing, simp_all)
  finally show ?thesis by (simp add: unat_word_ariths)
qed

lemma product_represents:
  assumes "\<not> ex_sticky a" and "\<not> ex_sticky b" and "represents a x" and "represents b y"
    and "significant_bits (ex_significand a) + significant_bits (ex_significand b) \<le> 128"
    and "\<bar>ex_exponent a\<bar> \<le> 2 ^ 29" and "\<bar>ex_exponent b\<bar> \<le> 2 ^ 29"
  shows "represents (product a b) (x * y)" and "ex_exponent (product a b) = ex_exponent a + ex_exponent b"
    and "unat (ex_significand (product a b)) = unat (ex_significand a) * unat (ex_significand b)"
proof -
  show e: "ex_exponent (product a b) = ex_exponent a + ex_exponent b" using assms(6,7) by (simp add: product_def)
  show u: "unat (ex_significand (product a b)) = unat (ex_significand a) * unat (ex_significand b)"
    by (simp add: product_def unat_mult_bits [OF assms(5)])
  have "\<not> ex_sticky (product a b)" by (simp add: product_def)
  then show "represents (product a b) (x * y)"
    using assms(1-4) e u by (simp add: represents_exact power_int_add)
qed

section \<open>Quotients\<close>

lemma normalized_bounds:
  assumes "s \<noteq> 0" and "significant_bits s \<le> n" and "n \<le> 128"
  shows "unat (shl s (n - significant_bits s)) = unat s * 2 ^ (n - significant_bits s)"
    and "2 ^ (n - 1) \<le> unat s * 2 ^ (n - significant_bits s)" and "unat s * 2 ^ (n - significant_bits s) < 2 ^ n"
proof -
  define k where "k = significant_bits s"
  have k: "0 < k" "2 ^ (k - 1) \<le> unat s" "unat s < 2 ^ k"
    using bit_length_bounds [of "unat s"] assms(1) by (simp_all add: k_def significant_bits_eq unat_0_iff)
  have "2 ^ (n - 1) = (2 :: nat) ^ (k - 1) * 2 ^ (n - k)" "2 ^ n = (2 :: nat) ^ k * 2 ^ (n - k)"
    using k(1) assms(2) by (simp_all add: k_def flip: power_add)
  then show b: "2 ^ (n - 1) \<le> unat s * 2 ^ (n - significant_bits s)" "unat s * 2 ^ (n - significant_bits s) < 2 ^ n"
    using k by (simp_all add: k_def)
  have "(2 :: nat) ^ n \<le> 2 ^ 128" using assms(3) by (rule power_increasing) simp
  then show "unat (shl s (n - significant_bits s)) = unat s * 2 ^ (n - significant_bits s)"
    using b(2) k(1) assms(3) by (intro unat_shl) (simp_all add: k_def)
qed

lemma len_of_u128: "LENGTH(128) = 128"
  by simp

lemma quotient_represents:
  assumes "\<not> ex_sticky a" and "\<not> ex_sticky b" and "represents a x" and "represents b y"
    and "ex_significand a \<noteq> 0" and "ex_significand b \<noteq> 0"
    and "significant_bits (ex_significand a) \<le> 115" and "significant_bits (ex_significand b) \<le> 53"
    and "\<bar>ex_exponent a\<bar> \<le> 2 ^ 28 - 200" and "\<bar>ex_exponent b\<bar> \<le> 2 ^ 28 - 200"
  shows "represents (quotient a b) (x / y)" and "\<bar>ex_exponent (quotient a b)\<bar> \<le> 2 ^ 29"
    and "62 \<le> significant_bits (ex_significand (quotient a b))"
proof -
  define sa where "sa = 115 - significant_bits (ex_significand a)"
  define sb where "sb = 53 - significant_bits (ex_significand b)"
  define N where "N = unat (ex_significand a) * 2 ^ sa"
  define D where "D = unat (ex_significand b) * 2 ^ sb"
  have s: "as_u32 (115 - int (significant_bits (ex_significand a))) = sa" "as_u32 (53 - int (significant_bits (ex_significand b))) = sb"
    using assms(7,8) by (simp_all add: sa_def sb_def nat_diff_distrib)
  have N: "unat (shl (ex_significand a) sa) = N" "2 ^ 114 \<le> N" "N < 2 ^ 115"
    using normalized_bounds [OF assms(5,7)] by (simp_all add: N_def sa_def)
  have D: "unat (shl (ex_significand b) sb) = D" "2 ^ 52 \<le> D" "D < 2 ^ 53"
    using normalized_bounds [OF assms(6,8)] by (simp_all add: D_def sb_def)
  have w: "wrap_i32 (int sa) = int sa" "wrap_i32 (int sb) = int sb" by (simp_all add: sa_def sb_def)
  have ND: "N div D < 2 ^ 128" "2 ^ 61 \<le> N div D"
  proof -
    show "N div D < 2 ^ 128" by (rule order_le_less_trans [OF div_le_dividend]) (use N(3) in simp)
    have "2 ^ 61 * D \<le> N" using N(2) D(3) by simp
    then show "2 ^ 61 \<le> N div D" using D(2) by (simp add: less_eq_div_iff_mult_less_eq)
  qed
  have dv: "shl (ex_significand a) sa div shl (ex_significand b) sb = of_nat (N div D)"
    by (rule unat_eqI) (use ND(1) in \<open>simp only: unat_div_distrib N(1) D(1) unat_of_nat_no_wrap len_of_u128\<close>)
  have md: "shl (ex_significand a) sa mod shl (ex_significand b) sb \<noteq> 0 \<longleftrightarrow> N mod D \<noteq> 0"
    by (simp add: unat_mod_distrib N(1) D(1) flip: unat_0_iff)
  have sab: "sa \<le> 115" "sb \<le> 53" by (simp_all add: sa_def sb_def)
  have q: "quotient a b = Exact_from_parts (ex_negative a \<noteq> ex_negative b) (of_nat (N div D))
      ((ex_exponent a - int sa) - (ex_exponent b - int sb)) (N mod D \<noteq> 0)"
    using assms(9,10) sab by (simp add: quotient_def Let_def s w dv md)
  show "\<bar>ex_exponent (quotient a b)\<bar> \<le> 2 ^ 29" using assms(9,10) sab by (simp add: q)
  have u: "unat (of_nat (N div D) :: u128) = N div D" by (rule unat_of_nat_no_wrap) (simp only: len_of_u128 ND(1))
  show "62 \<le> significant_bits (ex_significand (quotient a b))"
    using ND(2) significant_bits_le_iff [of "of_nat (N div D)" 61] by (simp add: q u)
  have xy: "x = real N * 2 powi (ex_exponent a - int sa)" "y = real D * 2 powi (ex_exponent b - int sb)"
    using assms(1-4) powi_add_nat [of "ex_exponent a - int sa" sa] powi_add_nat [of "ex_exponent b - int sb" sb]
    by (simp_all add: represents_exact N_def D_def)
  have D0: "0 < real D" using D(2) by simp
  have "real N = real (N div D) * real D + real (N mod D)" 
    using arg_cong [OF div_mult_mod_eq [of N D, symmetric], of real] by (simp only: of_nat_add of_nat_mult)
  then have nd: "real N / real D = real (N div D) + real (N mod D) / real D" using D0 by (simp add: field_simps)
  have "x / y = real N / real D * (2 powi (ex_exponent a - int sa) / 2 powi (ex_exponent b - int sb))" unfolding xy by simp
  then have "x / y = (real (N div D) + real (N mod D) / real D) * 2 powi ((ex_exponent a - int sa) - (ex_exponent b - int sb))"
    unfolding nd by (subst power_int_diff) simp_all
  moreover have "real (N mod D) / real D < 1" using D(2) D0 by simp
  ultimately show "represents (quotient a b) (x / y)"
    unfolding represents_def q using D0 by (intro exI [of _ "real (N mod D) / real D"]) (simp add: u)
qed

section \<open>Square roots\<close>

lemma isqrt_bounds: "isqrt n * isqrt n \<le> n" "n < (isqrt n + 1) * (isqrt n + 1)"
proof (induction n rule: isqrt.induct)
  case (1 n)
  define r where "r = isqrt (n div 4)"
  have IH: "n \<noteq> 0 \<Longrightarrow> r * r \<le> n div 4" "n \<noteq> 0 \<Longrightarrow> n div 4 + 1 \<le> (r + 1) * (r + 1)"
    using 1 by (simp_all add: r_def)
  have n: "n = 4 * (n div 4) + n mod 4" "n mod 4 < 4" by simp_all
  have e: "(2 * r) * (2 * r) = 4 * (r * r)" "(2 * r + 2) * (2 * r + 2) = 4 * ((r + 1) * (r + 1))" by (simp_all add: algebra_simps)
  have "n \<noteq> 0 \<Longrightarrow> (2 * r) * (2 * r) \<le> n \<and> n < (2 * r + 2) * (2 * r + 2)" unfolding e using IH n by linarith
  then show "isqrt n * isqrt n \<le> n" "n < (isqrt n + 1) * (isqrt n + 1)"
    by (auto simp: isqrt.simps [of n] Let_def r_def [symmetric])
qed

lemma isqrt_le_iff: "isqrt n \<le> k \<longleftrightarrow> n < (k + 1) * (k + 1)"
proof
  assume "isqrt n \<le> k"
  then have "(isqrt n + 1) * (isqrt n + 1) \<le> (k + 1) * (k + 1)" by (intro mult_le_mono) simp_all
  with isqrt_bounds(2) [of n] show "n < (k + 1) * (k + 1)" by linarith
next
  assume n: "n < (k + 1) * (k + 1)"
  show "isqrt n \<le> k"
  proof (rule ccontr)
    assume "\<not> isqrt n \<le> k"
    then have "(k + 1) * (k + 1) \<le> isqrt n * isqrt n" by (intro mult_le_mono) simp_all
    with isqrt_bounds(1) [of n] n show False by linarith
  qed
qed

lemma isqrt_real: "real (isqrt n) \<le> sqrt (real n)" "sqrt (real n) < real (isqrt n) + 1"
proof -
  have "real (isqrt n) = sqrt (real (isqrt n * isqrt n))" by simp
  also have "\<dots> \<le> sqrt (real n)" using isqrt_bounds(1) [of n] by (simp only: real_sqrt_le_iff of_nat_le_iff)
  finally show "real (isqrt n) \<le> sqrt (real n)" .
  have "sqrt (real n) < sqrt (real ((isqrt n + 1) * (isqrt n + 1)))"
    using isqrt_bounds(2) [of n] by (simp only: real_sqrt_less_iff of_nat_less_iff)
  also have "\<dots> = real (isqrt n + 1)" by (simp only: of_nat_mult real_sqrt_mult real_sqrt_mult_self abs_of_nat)
  finally show "sqrt (real n) < real (isqrt n) + 1" by simp
qed

lemma isqrt_exact: "isqrt n * isqrt n = n \<longleftrightarrow> real (isqrt n) = sqrt (real n)"
proof
  assume "isqrt n * isqrt n = n"
  then have "real n = real (isqrt n) * real (isqrt n)" by (metis of_nat_mult)
  then show "real (isqrt n) = sqrt (real n)" by simp
next
  assume "real (isqrt n) = sqrt (real n)"
  then have "real (isqrt n * isqrt n) = real n" by simp
  then show "isqrt n * isqrt n = n" by (simp only: of_nat_eq_iff)
qed

lemma smod_2: "(k :: int) smod 2 \<noteq> 0 \<longleftrightarrow> odd k"
  by (simp add: signed_modulo_int_def sgn_if) presburger

lemma square_root_represents:
  assumes "\<not> ex_sticky a" and "represents a x" and "ex_significand a \<noteq> 0"
    and "significant_bits (ex_significand a) \<le> 53" and "\<bar>ex_exponent a\<bar> \<le> 2 ^ 28"
  shows "represents (square_root a) (sqrt x)" and "\<bar>ex_exponent (square_root a)\<bar> \<le> 2 ^ 29"
    and "60 \<le> significant_bits (ex_significand (square_root a))" and "\<not> ex_negative (square_root a)"
proof -
  define n where "n = significant_bits (ex_significand a)"
  define s0 where "s0 = 120 - n"
  define s where "s = (if odd (ex_exponent a - int s0) then s0 + 1 else s0)"
  define W where "W = unat (ex_significand a) * 2 ^ s"
  define E where "E = (ex_exponent a - int s) div 2"
  have n: "n \<le> 53" "0 < n" using assms(3,4) by (simp_all add: n_def significant_bits_eq unat_0_iff)
  have s: "67 \<le> s0" "s0 \<le> 120" "s0 \<le> s" "s \<le> s0 + 1" using n by (auto simp: s0_def s_def)
  have ev: "even (ex_exponent a - int s)" by (auto simp: s_def)
  then have E: "ex_exponent a - int s = 2 * E" by (simp add: E_def)
  have "wrap_i32 (ex_exponent a - wrap_i32 (int s0)) = ex_exponent a - int s0" using assms(5) s by simp
  then have od: "wrap_i32 (ex_exponent a - wrap_i32 (int s0)) smod 2 \<noteq> 0 \<longleftrightarrow> odd (ex_exponent a - int s0)"
    by (simp only: smod_2)
  have "wrap_i32 (ex_exponent a - wrap_i32 (int s)) = 2 * E" using assms(5) s E by simp
  then have sd: "wrap_i32 (ex_exponent a - wrap_i32 (int s)) sdiv 2 = E"
    by (simp add: signed_divide_int_eq_divide_int)
  have W0: "2 ^ 119 \<le> unat (ex_significand a) * 2 ^ s0" "unat (ex_significand a) * 2 ^ s0 < 2 ^ 120"
    using normalized_bounds [of "ex_significand a" 120] assms(3) n by (simp_all add: n_def s0_def)
  have W: "2 ^ 119 \<le> W" "W < 2 ^ 121" using W0 by (auto simp: W_def s_def)
  have sh: "unat (shl (ex_significand a) s) = W" using W(2) s by (subst unat_shl) (simp_all add: W_def)
  define R where "R = isqrt W"
  have R: "R \<le> 2 ^ 61 - 1" "\<not> R \<le> 2 ^ 59 - 1" using W by (simp_all only: R_def isqrt_le_iff) simp_all
  have uR: "unat (of_nat R :: u128) = R" using R by (intro unat_of_nat_no_wrap) simp
  have "R * R < 2 ^ 128" using isqrt_bounds(1) [of W] W(2) by (simp add: R_def)
  then have "unat (of_nat R * of_nat R :: u128) = R * R" by (simp add: unat_word_ariths uR)
  then have st: "of_nat R * of_nat R \<noteq> shl (ex_significand a) s \<longleftrightarrow> R * R \<noteq> W" using sh by (metis unat_eqI)
  have a1: "as_u32 (int s0 + 1) = s0 + 1" using s by (simp add: nat_add_distrib)
  have "as_u32 (120 - int n) = s0" using n by (simp add: s0_def nat_diff_distrib)
  then have as: "as_u32 (120 - int (significant_bits (ex_significand a))) = s0"
    "(if odd (ex_exponent a - int s0) then as_u32 (int s0 + 1) else s0) = s"
    by (simp_all only: a1 n_def s_def)
  have q: "square_root a = Exact_from_parts False (of_nat R) E (R * R \<noteq> W)"
    unfolding square_root_def Let_def as(1) od as(2) sd sh R_def [symmetric] st by (rule refl)
  show "\<bar>ex_exponent (square_root a)\<bar> \<le> 2 ^ 29" "\<not> ex_negative (square_root a)" using assms(5) E s by (simp_all add: q)
  show "60 \<le> significant_bits (ex_significand (square_root a))"
    using R(2) significant_bits_le_iff [of "of_nat R" 59] by (simp add: q uR)
  have "x = real W * 2 powi (2 * E)"
    using assms(1,2) powi_add_nat [of "ex_exponent a - int s" s] unfolding E [symmetric] by (simp add: represents_exact W_def)
  moreover have "(2 :: real) powi (2 * E) = 2 powi E * 2 powi E" using power_int_add [of "2 :: real" E E] by simp
  ultimately have "sqrt x = sqrt (real W) * \<bar>2 powi E\<bar>" by (simp only: real_sqrt_mult real_sqrt_mult_self)
  then have "sqrt x = sqrt (real W) * 2 powi E" by simp
  then show "represents (square_root a) (sqrt x)"
    unfolding represents_def q using isqrt_real [of W, folded R_def] isqrt_exact [of W, folded R_def]
    by (intro exI [of _ "sqrt (real W) - real R"]) (auto simp: uR)
qed

section \<open>Sums\<close>

text \<open>What rounding needs of a sum: it stands for \<open>v\<close>, and a sticky one keeps at least 124 bits.\<close>

definition stands_for :: "Exact \<Rightarrow> real \<Rightarrow> bool" where
  "stands_for x v \<longleftrightarrow>
     (\<exists>m. represents x m \<and> signed_real (ex_negative x) m = v) \<and> \<bar>ex_exponent x\<bar> \<le> 2 ^ 29 \<and>
     (ex_sticky x \<longrightarrow> 124 \<le> significant_bits (ex_significand x))"

lemma stands_forI:
  assumes "m = (real k + f) * 2 powi e" and "if st then 0 < f \<and> f < 1 else f = 0" and "signed_real n m = v"
    and "\<bar>e\<bar> \<le> 2 ^ 29" and "k < 2 ^ 128" and "st \<Longrightarrow> 2 ^ 123 \<le> k" and "unat s = k"
  shows "stands_for (Exact_from_parts n s e st) v"
proof -
  have "represents (Exact_from_parts n s e st) m" using assms(1,2,7) by (auto simp: represents_def)
  moreover have "st \<longrightarrow> 124 \<le> significant_bits s" using assms(6,7) significant_bits_le_iff [of s 123] by auto
  ultimately show ?thesis using assms(3,4) by (auto simp: stands_for_def)
qed

lemma aligned_small:
  assumes "operand big" and "operand small" and "ex_significand big \<noteq> 0" and "ex_significand small \<noteq> 0"
    and "sum_binade small \<le> sum_binade big" and "\<bar>ex_exponent big\<bar> \<le> 2 ^ 28" and "\<bar>ex_exponent small\<bar> \<le> 2 ^ 28"
    and shift: "shift = ALIGN_BITS - significant_bits (ex_significand big)"
    and gap: "gap = ex_exponent big - int shift - ex_exponent small"
    and aligned: "(if gap \<le> 0 then (shl (ex_significand small) (as_u32 (- gap)), False)
                   else shift_right_sticky (ex_significand small) (nat gap)) = (small_sig, sticky)"
  shows "\<exists>f. real (unat (ex_significand small)) * 2 powi ex_exponent small =
               (real (unat small_sig) + f) * 2 powi (ex_exponent big - int shift) \<and>
             (if sticky then 0 < f \<and> f < 1 else f = 0) \<and> unat small_sig < 2 ^ 126 \<and>
             (sticky \<longrightarrow> unat small_sig < 2 ^ 124)"
proof (cases "gap \<le> 0")
  case True
  define ns where "ns = significant_bits (ex_significand small)"
  have bits: "significant_bits (ex_significand big) \<le> 125" using assms(1) by (simp add: operand_def OPERAND_BITS_def MAX_SIGNIFICAND_BITS_def)
  have ns: "1 \<le> ns" "unat (ex_significand small) < 2 ^ ns"
    using assms(4) bit_length_bounds(1) by (simp_all add: ns_def significant_bits_eq unat_0_iff Suc_le_eq)
  have sb: "int ns - gap \<le> 126"
    using assms(5) bits by (simp add: sum_binade_def gap shift ns_def ALIGN_BITS_def)
  have g: "as_u32 (- gap) = nat (- gap)" "nat (- gap) < 128" "ns + nat (- gap) \<le> 126" using True sb ns(1) by simp_all
  have "unat (ex_significand small) * 2 ^ nat (- gap) < 2 ^ ns * 2 ^ nat (- gap)" using ns(2) by simp
  also have "\<dots> \<le> 2 ^ 126" using g(3) by (simp only: power_add [symmetric]) (rule power_increasing, simp_all)
  finally have lt: "unat (ex_significand small) * 2 ^ nat (- gap) < 2 ^ 126" .
  have u: "unat small_sig = unat (ex_significand small) * 2 ^ nat (- gap)" "\<not> sticky"
    using aligned True g lt by (auto simp: unat_shl)
  have "(2 :: real) powi ex_exponent small = 2 ^ nat (- gap) * 2 powi (ex_exponent big - int shift)"
    using powi_split [of "ex_exponent big - int shift" "ex_exponent small"] True by (simp add: gap algebra_simps)
  with u lt show ?thesis by (intro exI [of _ 0]) simp
next
  case False
  define d where "d = nat gap"
  define S where "S = unat (ex_significand small)"
  have S: "S < 2 ^ 125" using assms(2) by (simp add: S_def operand_def OPERAND_BITS_def MAX_SIGNIFICAND_BITS_def significant_bits_le_iff)
  have u: "unat small_sig = S div 2 ^ d" "sticky = (S mod 2 ^ d \<noteq> 0)"
    using aligned False unat_shift_right_sticky [of "ex_significand small" d] shift_right_sticky_drops [of "ex_significand small" d]
    by (simp_all add: d_def S_def)
  have "S div 2 ^ d \<le> S div 2 ^ 1" using False by (intro div_le_mono2 power_increasing) (simp_all add: d_def)
  then have lt: "S div 2 ^ d < 2 ^ 124" using S by simp
  have "real S = real (S div 2 ^ d) * 2 ^ d + real (S mod 2 ^ d)" 
    using arg_cong [OF div_mult_mod_eq [of S "2 ^ d", symmetric], of real] by (simp only: of_nat_add of_nat_mult of_nat_power of_nat_numeral)
  then have r: "real S = (real (S div 2 ^ d) + real (S mod 2 ^ d) / 2 ^ d) * 2 ^ d" by (simp add: field_simps)
  have p: "(2 :: real) powi (ex_exponent big - int shift) = 2 ^ d * 2 powi ex_exponent small"
    using powi_split [of "ex_exponent small" "ex_exponent big - int shift"] False by (simp add: gap d_def)
  have "S mod 2 ^ d < 2 ^ d" by simp
  then have "real (S mod 2 ^ d) < 2 ^ d" by (metis of_nat_less_iff of_nat_numeral of_nat_power)
  then have f: "0 \<le> real (S mod 2 ^ d) / 2 ^ d" "real (S mod 2 ^ d) / 2 ^ d < 1" by simp_all
  show ?thesis
    using r p f lt by (intro exI [of _ "real (S mod 2 ^ d) / 2 ^ d"]) (simp add: u S_def [symmetric])
qed

lemma sum_aligned_stands_for:
  assumes ops: "operand big" "operand small" "ex_significand big \<noteq> 0" "ex_significand small \<noteq> 0"
    and b: "sum_binade small \<le> sum_binade big" and e: "\<bar>ex_exponent big\<bar> \<le> 2 ^ 28" "\<bar>ex_exponent small\<bar> \<le> 2 ^ 28"
    and r: "represents big x" "represents small y"
  shows "stands_for (sum_aligned big small) (signed_real (ex_negative big) x + signed_real (ex_negative small) y)"
proof -
  define shift where "shift = ALIGN_BITS - significant_bits (ex_significand big)"
  define E where "E = ex_exponent big - int shift"
  define gap where "gap = E - ex_exponent small"
  define B where "B = unat (shl (ex_significand big) shift)"
  obtain small_sig sticky where al: "(if gap \<le> 0 then (shl (ex_significand small) (as_u32 (- gap)), False)
      else shift_right_sticky (ex_significand small) (nat gap)) = (small_sig, sticky)" by fastforce
  define S where "S = unat small_sig"
  obtain f where y: "real (unat (ex_significand small)) * 2 powi ex_exponent small = (real S + f) * 2 powi E"
    and f: "if sticky then 0 < f \<and> f < 1 else f = 0" and S: "S < 2 ^ 126" "sticky \<longrightarrow> S < 2 ^ 124"
    using aligned_small [OF ops b e shift_def gap_def [unfolded E_def] al] by (auto simp: E_def S_def)
  have ns: "\<not> ex_sticky big" "\<not> ex_sticky small" "significant_bits (ex_significand big) \<le> 125"
    using ops(1,2) by (simp_all add: operand_def OPERAND_BITS_def MAX_SIGNIFICAND_BITS_def)
  have B: "2 ^ 125 \<le> B" "B < 2 ^ 126" "B = unat (ex_significand big) * 2 ^ shift"
    using normalized_bounds [OF ops(3), of 126] ns(3) by (simp_all add: B_def shift_def ALIGN_BITS_def)
  have sh: "shift \<le> 126" by (simp add: shift_def ALIGN_BITS_def)
  have w: "wrap_i32 E = E" "\<bar>E\<bar> \<le> 2 ^ 29" using e sh by (simp_all add: E_def)
  have x: "x = real B * 2 powi E" using r(1) ns(1) powi_add_nat [of E shift] B(3) by (simp add: represents_exact E_def)
  have y': "y = (real S + f) * 2 powi E" using r(2) ns(2) y by (simp add: represents_exact)
  have sm: "sum_aligned big small =
     (if ex_negative big = ex_negative small
      then Exact_from_parts (ex_negative big) (shl (ex_significand big) shift + small_sig) E sticky
      else if S < B
      then Exact_from_parts (ex_negative big) (shl (ex_significand big) shift - small_sig - (if sticky then 1 else 0)) E sticky
      else if shl (ex_significand big) shift = small_sig then Exact_from_parts False 0 E False
      else Exact_from_parts (ex_negative small) (small_sig - shl (ex_significand big) shift) E False)"
    unfolding sum_aligned_def Let_def shift_def [symmetric] E_def [symmetric] gap_def [symmetric] al prod.case w(1)
      B_def S_def word_less_nat_alt by (rule refl)
  show ?thesis
  proof (cases "ex_negative big = ex_negative small")
    case True
    have "unat (shl (ex_significand big) shift + small_sig) = B + S"
      using B(2) S(1) by (subst unat_plus_no_wrap) (simp_all add: B_def S_def)
    moreover have "sum_aligned big small = Exact_from_parts (ex_negative big) (shl (ex_significand big) shift + small_sig) E sticky"
      using sm True by simp
    moreover have "B + S < 2 ^ 128" "2 ^ 123 \<le> B + S" using B(1,2) S(1) by simp_all
    moreover have "x + y = (real (B + S) + f) * 2 powi E" by (simp add: x y' algebra_simps)
    ultimately show ?thesis using True w(2) f
      by (auto intro!: stands_forI [of "x + y" "B + S" f] simp: signed_real_def)
  next
    case False
    show ?thesis
    proof (cases "S < B")
      case True
      define d where "d = B - S - (if sticky then 1 else 0)"
      have "S + 2 ^ 124 < B" if sticky using that S(2) B(1) by simp
      then have d: "real d = real B - real S - (if sticky then 1 else 0)" "sticky \<Longrightarrow> 2 ^ 123 \<le> d" "d < 2 ^ 128"
        using True B(2) by (auto simp: d_def of_nat_diff)
      have "small_sig \<le> shl (ex_significand big) shift" using True by (simp add: word_le_nat_alt B_def S_def)
      then have m1: "unat (shl (ex_significand big) shift - small_sig) = B - S" by (simp add: unat_minus_no_wrap B_def S_def)
      moreover have "(if sticky then 1 else 0 :: u128) \<le> shl (ex_significand big) shift - small_sig"
        using True m1 by (auto simp: word_le_nat_alt)
      ultimately have "unat (shl (ex_significand big) shift - small_sig - (if sticky then 1 else 0)) = d"
        by (simp add: unat_minus_no_wrap d_def)
      moreover have "sum_aligned big small =
          Exact_from_parts (ex_negative big) (shl (ex_significand big) shift - small_sig - (if sticky then 1 else 0)) E sticky"
        using sm False True by (simp only: if_True if_False)
      moreover have "x - y = (real d + (if sticky then 1 - f else 0)) * 2 powi E" using f by (simp add: x y' d(1) algebra_simps)
      ultimately show ?thesis using False w(2) f d(2,3)
        by (auto intro!: stands_forI [of "x - y" d "if sticky then 1 - f else 0"] simp: signed_real_def split: if_splits)
    next
      case nb: False
      then have f0: "f = 0" using f S(2) B(1) by (auto split: if_splits)
      show ?thesis
      proof (cases "shl (ex_significand big) shift = small_sig")
        case True
        then have "x = y" using x y' f0 by (simp add: B_def S_def)
        moreover have "sum_aligned big small = Exact_from_parts False 0 E False" using sm False nb True by simp
        ultimately show ?thesis using False w(2) by (auto intro!: stands_forI [of 0 0 0] simp: signed_real_def)
      next
        case ne: False
        have "shl (ex_significand big) shift \<le> small_sig" using nb by (simp add: word_le_nat_alt B_def S_def)
        then have "unat (small_sig - shl (ex_significand big) shift) = S - B" by (simp add: unat_minus_no_wrap B_def S_def)
        moreover have "sum_aligned big small = Exact_from_parts (ex_negative small) (small_sig - shl (ex_significand big) shift) E False"
          using sm False nb ne by simp
        moreover have "y - x = (real (S - B) + 0) * 2 powi E" using nb by (simp add: x y' f0 of_nat_diff algebra_simps)
        moreover have "S - B < 2 ^ 128" using S(1) by simp
        ultimately show ?thesis using False w(2)
          by (auto intro!: stands_forI [of "y - x" "S - B" 0] simp: signed_real_def)
      qed
    qed
  qed
qed

lemma sum_stands_for:
  assumes ops: "operand a" "operand b" and e: "\<bar>ex_exponent a\<bar> \<le> 2 ^ 28" "\<bar>ex_exponent b\<bar> \<le> 2 ^ 28"
    and r: "represents a x" "represents b y"
  shows "stands_for (sum a b) (signed_real (ex_negative a) x + signed_real (ex_negative b) y)"
proof -
  have ns: "\<not> ex_sticky a" "\<not> ex_sticky b" using ops by (simp_all add: operand_def)
  have zero: "ex_significand a = 0 \<Longrightarrow> x = 0" "ex_significand b = 0 \<Longrightarrow> y = 0"
    using r ns by (simp_all add: represents_exact)
  consider (z) "ex_significand a = 0" "ex_significand b = 0" | (za) "ex_significand a = 0" "ex_significand b \<noteq> 0"
    | (zb) "ex_significand a \<noteq> 0" "ex_significand b = 0" | (nz) "ex_significand a \<noteq> 0" "ex_significand b \<noteq> 0" by blast
  then show ?thesis
  proof cases
    case z
    have "stands_for (Exact_from_parts n 0 (min (ex_exponent a) (ex_exponent b)) False) 0" for n
      using e by (intro stands_forI [of 0 0 0]) simp_all
    with z zero show ?thesis by (simp add: sum_def)
  next
    case za
    with zero r ns e show ?thesis by (auto simp: sum_def stands_for_def)
  next
    case zb
    with zero r ns e show ?thesis by (auto simp: sum_def stands_for_def)
  next
    case nz
    then show ?thesis using sum_aligned_stands_for [OF ops nz _ e r] sum_aligned_stands_for [OF ops(2,1) nz(2,1) _ e(2,1) r(2,1)]
      by (auto simp: sum_def add.commute)
  qed
qed

end
