(* ===== verification/Float_Operand.thy ===== *)
theory Float_Operand
  imports Float_Arith
begin

text \<open>
  What \<^verbatim>\<open>unpack\<close> of \<^verbatim>\<open>cellgov_float/src/operand.rs\<close> reads from an encoding under each policy, and the two
  comparison keys of the extended single-precision format.
\<close>

section \<open>Fields\<close>

lemma unat_exponent_field:
  assumes "format_ok F"
  shows "unat (exponent_field F bits) = enc_exp F bits"
proof -
  have x: "EXP_BITS F < 32" "FRAC_BITS F < 64" using assms frac_lt_63 [OF assms] by (simp_all add: format_ok_def)
  have "unat (exponent_field F bits) = unat (ucast (shr bits (FRAC_BITS F)) :: u32) mod 2 ^ EXP_BITS F"
    unfolding exponent_field_def EXP_MAX_def using x(1) by (subst unat_and_mask) simp_all
  also have "unat (ucast (shr bits (FRAC_BITS F)) :: u32) = (unat bits div 2 ^ FRAC_BITS F) mod 2 ^ 32"
    using x(2) by (simp add: unsigned_ucast_eq take_bit_eq_mod unat_shr)
  also have "\<dots> mod 2 ^ EXP_BITS F = enc_exp F bits"
    unfolding enc_exp_def by (rule mod_mod_cancel, rule le_imp_power_dvd) (use x(1) in simp)
  finally show ?thesis .
qed

lemma sign_field:
  assumes "format_ok F"
  shows "shr bits (SIGN_SHIFT F) AND 1 = 1 \<longleftrightarrow> enc_neg F bits"
  using assms by (simp add: and_1_odd unat_shr enc_neg_def format_ok_def)

lemma exponent_field_eq:
  assumes "format_ok F"
  shows "exponent_field F bits = 0 \<longleftrightarrow> enc_exp F bits = 0"
    and "exponent_field F bits = EXP_MAX F \<longleftrightarrow> enc_exp F bits = 2 ^ EXP_BITS F - 1"
  using unat_exponent_field [OF assms, of bits] EXP_MAX_unat [OF assms] by (metis unat_0_iff, metis unat_eqI)

lemma fraction_field_eq: "format_ok F \<Longrightarrow> bits AND FRAC_MASK F = 0 \<longleftrightarrow> enc_frac F bits = 0"
  by (metis unat_and_FRAC_MASK unat_0_iff)

lemma enc_frac_lt: "enc_frac F bits < 2 ^ FRAC_BITS F" "enc_exp F bits < 2 ^ EXP_BITS F"
  by (simp_all add: enc_frac_def enc_exp_def)

lemma unat_ucast_u128: "unat (ucast (x :: u64) :: u128) = unat x"
  by (rule unat_ucast_up) simp

lemma normal_significand:
  assumes "format_ok F"
  shows "unat (ucast (bits AND FRAC_MASK F OR shl 1 (FRAC_BITS F)) :: u128) = 2 ^ FRAC_BITS F + enc_frac F bits"
proof -
  have f: "FRAC_BITS F < 64" using frac_lt_63 [OF assms] by simp
  have "unat (shl 1 (FRAC_BITS F) OR (bits AND FRAC_MASK F)) = unat (shl (1 :: u64) (FRAC_BITS F)) + unat (bits AND FRAC_MASK F)"
    using f enc_frac_lt(1) [of F bits] unat_shl_1 [of "FRAC_BITS F", where 'a = 64]
    by (intro unat_or_disjoint [of "FRAC_BITS F"]) (simp_all add: unat_and_FRAC_MASK [OF assms])
  then show ?thesis using f by (simp add: unat_ucast_u128 or.commute unat_and_FRAC_MASK [OF assms] unat_shl_1)
qed

text \<open>The exact value of a nonzero finite encoding.\<close>

definition decoded :: "Format \<Rightarrow> u64 \<Rightarrow> Exact \<Rightarrow> bool" where
  "decoded F bits x \<longleftrightarrow>
     ex_negative x = enc_neg F bits \<and> \<not> ex_sticky x \<and> unat (ex_significand x) < 2 ^ (FRAC_BITS F + 1) \<and>
     \<bar>ex_exponent x\<bar> < 2 ^ 28 + 64 \<and>
     represents x (mag_of_fields F (enc_exp F bits) (enc_frac F bits))"

lemma unpack_normal:
  assumes F: "format_ok F" and e: "enc_exp F bits \<noteq> 0"
    and x: "x = \<lparr>ex_negative = (shr bits (SIGN_SHIFT F) AND 1 = 1),
                 ex_significand = ucast (bits AND FRAC_MASK F OR shl 1 (FRAC_BITS F)),
                 ex_exponent = wrap_i32 (wrap_i32 (wrap_i32 (uint (exponent_field F bits)) - BIAS F) - int (FRAC_BITS F)),
                 ex_sticky = False\<rparr>"
  shows "decoded F bits x" and "ex_significand x \<noteq> 0"
proof -
  have "int (enc_exp F bits) < int (2 ^ EXP_BITS F)" using enc_frac_lt(2) by (simp only: of_nat_less_iff)
  then have ub: "int (enc_exp F bits) < 2 * BIAS F + 2" using BIAS_bounds(3) [OF F] by simp
  have u: "uint (exponent_field F bits) = int (enc_exp F bits)" using unat_exponent_field [OF F] by (simp only: uint_nat)
  have ex: "ex_exponent x = int (enc_exp F bits) - BIAS F - int (FRAC_BITS F)"
    using ub BIAS_bounds [OF F] frac_lt_63 [OF F] by (simp add: x u)
  have s: "unat (ex_significand x) = 2 ^ FRAC_BITS F + enc_frac F bits" using normal_significand [OF F] by (simp add: x)
  have "\<bar>ex_exponent x\<bar> < 2 ^ 28 + 64" using ub BIAS_bounds [OF F] frac_lt_63 [OF F] by (simp add: ex)
  moreover have ns: "\<not> ex_sticky x" by (simp add: x)
  moreover have "represents x (mag_of_fields F (enc_exp F bits) (enc_frac F bits))"
    using e ns by (simp add: represents_exact s ex mag_of_fields_def)
  ultimately show "decoded F bits x"
    using s enc_frac_lt(1) [of F bits] sign_field [OF F, of bits] by (simp add: decoded_def x)
  show "ex_significand x \<noteq> 0" using s by (simp add: unat_0_iff [symmetric])
qed

lemma unpack_denormal:
  assumes F: "format_ok F" and e: "enc_exp F bits = 0"
    and x: "x = \<lparr>ex_negative = (shr bits (SIGN_SHIFT F) AND 1 = 1), ex_significand = ucast (bits AND FRAC_MASK F),
                 ex_exponent = wrap_i32 (wrap_i32 (1 - BIAS F) - int (FRAC_BITS F)), ex_sticky = False\<rparr>"
  shows "decoded F bits x"
proof -
  have s: "unat (ex_significand x) = enc_frac F bits" by (simp add: x unat_ucast_u128 unat_and_FRAC_MASK [OF F])
  have ex: "ex_exponent x = emin F - int (FRAC_BITS F)"
    using BIAS_bounds [OF F] frac_lt_63 [OF F] by (simp add: x emin_def)
  have "\<bar>ex_exponent x\<bar> < 2 ^ 28 + 64" using BIAS_bounds [OF F] frac_lt_63 [OF F] by (simp add: ex emin_def)
  moreover have ns: "\<not> ex_sticky x" by (simp add: x)
  moreover have "represents x (mag_of_fields F (enc_exp F bits) (enc_frac F bits))"
    using e ns by (simp add: represents_exact s ex mag_of_fields_def)
  ultimately show ?thesis
    using s enc_frac_lt(1) [of F bits] sign_field [OF F, of bits] by (simp add: decoded_def x)
qed

lemma unpack_PowerPc_finite:
  assumes F: "format_ok F" and e: "enc_exp F bits < 2 ^ EXP_BITS F - 1" "enc_exp F bits \<noteq> 0 \<or> enc_frac F bits \<noteq> 0"
  shows "\<exists>x. unpack F PowerPc bits = (Op_Finite x, Flags_default) \<and> decoded F bits x \<and> ex_significand x \<noteq> 0"
proof (cases "enc_exp F bits = 0")
  case True
  then have "enc_frac F bits \<noteq> 0" using e(2) by simp
  then have "unat (ucast (bits AND FRAC_MASK F) :: u128) \<noteq> 0" by (simp add: unat_ucast_u128 unat_and_FRAC_MASK [OF F])
  then show ?thesis using True e unpack_denormal [OF F True refl]
    by (auto simp: unpack_def Let_def exponent_field_eq [OF F] fraction_field_eq [OF F] unat_0_iff)
next
  case False
  then show ?thesis using e unpack_normal [OF F False refl]
    by (auto simp: unpack_def Let_def exponent_field_eq [OF F] fraction_field_eq [OF F])
qed

lemma unpack_PowerPc_zero:
  assumes F: "format_ok F" and e: "enc_exp F bits = 0" "enc_frac F bits = 0"
  shows "unpack F PowerPc bits = (Op_Zero (enc_neg F bits), Flags_default)"
  using e by (simp add: unpack_def Let_def exponent_field_eq [OF F] fraction_field_eq [OF F] sign_field [OF F])

lemma unpack_PowerPc_special:
  assumes F: "format_ok F" and e: "enc_exp F bits = 2 ^ EXP_BITS F - 1"
  shows "fst (unpack F PowerPc bits) =
    (if enc_frac F bits = 0 then Op_Infinity (enc_neg F bits) else Op_NaN (odd (enc_frac F bits div 2 ^ (FRAC_BITS F - 1))))"
proof -
  have "(2 :: nat) ^ 1 < 2 ^ EXP_BITS F" using F by (intro power_strict_increasing) (simp_all add: format_ok_def)
  then have z: "enc_exp F bits \<noteq> 0" using e by simp
  have "shr (bits AND FRAC_MASK F) (FRAC_BITS F - 1) AND 1 = 1 \<longleftrightarrow> odd (enc_frac F bits div 2 ^ (FRAC_BITS F - 1))"
    using frac_lt_63 [OF F] by (simp add: and_1_odd unat_shr unat_and_FRAC_MASK [OF F])
  then show ?thesis using e z
    by (simp add: unpack_def Let_def exponent_field_eq [OF F] fraction_field_eq [OF F] sign_field [OF F])
qed

section \<open>Encodings are ordered as their values\<close>

lemma mag_mono_exp:
  assumes "f < 2 ^ FRAC_BITS F" and "e < e'"
  shows "mag_of_fields F e f < mag_of_fields F e' f'"
proof -
  define u where "u = (2 :: real) powi (int e' - BIAS F - int (FRAC_BITS F))"
  have u: "0 < u" by (simp add: u_def)
  have f: "real f < 2 ^ FRAC_BITS F" using assms(1) by (metis of_nat_less_iff of_nat_numeral of_nat_power)
  have "mag_of_fields F e f < 2 ^ FRAC_BITS F * u"
  proof (cases "e = 0")
    case True
    have "real f * 2 powi (emin F - int (FRAC_BITS F)) < 2 ^ FRAC_BITS F * 2 powi (emin F - int (FRAC_BITS F))" using f by simp
    also have "\<dots> \<le> 2 ^ FRAC_BITS F * u"
      unfolding u_def using assms(2) True by (intro mult_left_mono powi_mono) (simp_all add: emin_def)
    finally show ?thesis using True by (simp add: mag_of_fields_def)
  next
    case False
    have "(2 ^ FRAC_BITS F + real f) * 2 powi (int e - BIAS F - int (FRAC_BITS F)) < (2 ^ FRAC_BITS F * 2) * 2 powi (int e - BIAS F - int (FRAC_BITS F))"
      using f by simp
    also have "\<dots> = 2 ^ FRAC_BITS F * 2 powi (int e + 1 - BIAS F - int (FRAC_BITS F))"
      using power_int_add_1' [of "2 :: real" "int e - BIAS F - int (FRAC_BITS F)"] by (simp add: algebra_simps)
    also have "\<dots> \<le> 2 ^ FRAC_BITS F * u" unfolding u_def using assms(2) by (intro mult_left_mono powi_mono) simp_all
    finally show ?thesis using False by (simp add: mag_of_fields_def)
  qed
  also have "\<dots> \<le> mag_of_fields F e' f'" using assms(2) u by (simp add: mag_of_fields_def u_def)
  finally show ?thesis .
qed

lemma mag_mono_frac: "mag_of_fields F e f < mag_of_fields F e f' \<longleftrightarrow> f < f'"
  by (simp add: mag_of_fields_def)

lemma mag_less_iff:
  assumes "f < 2 ^ FRAC_BITS F" and "f' < 2 ^ FRAC_BITS F"
  shows "mag_of_fields F e f < mag_of_fields F e' f' \<longleftrightarrow> e * 2 ^ FRAC_BITS F + f < e' * 2 ^ FRAC_BITS F + f'"
proof -
  have lt: "e * 2 ^ FRAC_BITS F + f < e' * 2 ^ FRAC_BITS F + f'" if "e < e'" "f < 2 ^ FRAC_BITS F" for e e' f f' :: nat
  proof -
    have "e * 2 ^ FRAC_BITS F + f < (e + 1) * 2 ^ FRAC_BITS F" using that by simp
    also have "\<dots> \<le> e' * 2 ^ FRAC_BITS F" using that by (intro mult_le_mono1) simp
    finally show ?thesis by simp
  qed
  consider "e < e'" | "e = e'" | "e' < e" by linarith
  then show ?thesis
  proof cases
    case 1 then show ?thesis using mag_mono_exp [OF assms(1) 1] lt [OF 1 assms(1)] by simp
  next
    case 2 then show ?thesis by (simp add: mag_mono_frac)
  next
    case 3 then show ?thesis using mag_mono_exp [OF assms(2) 3, of f] lt [OF 3 assms(2), of f] by simp
  qed
qed

lemma mag_inject:
  assumes "f < 2 ^ FRAC_BITS F" and "f' < 2 ^ FRAC_BITS F" and "mag_of_fields F e f = mag_of_fields F e' f'"
  shows "e = e' \<and> f = f'"
proof -
  have "e * 2 ^ FRAC_BITS F + f = e' * 2 ^ FRAC_BITS F + f'"
    using mag_less_iff [OF assms(1,2), of e e'] mag_less_iff [OF assms(2,1), of e' e] assms(3) by linarith
  then show ?thesis using div_mod_field [OF assms(1), of e] div_mod_field [OF assms(2), of e'] by metis
qed

lemma unat_fields:
  assumes "unat bits < 2 ^ (SIGN_SHIFT F + 1)"
  shows "unat bits = (if enc_neg F bits then 2 ^ SIGN_SHIFT F else 0) + (enc_exp F bits * 2 ^ FRAC_BITS F + enc_frac F bits)"
proof -
  define n where "n = unat bits"
  have sh: "(2 :: nat) ^ SIGN_SHIFT F = 2 ^ FRAC_BITS F * 2 ^ EXP_BITS F" by (simp add: SIGN_SHIFT_def power_add)
  have "n div 2 ^ SIGN_SHIFT F < 2" using assms by (simp add: n_def div_less_iff_less_mult)
  then have s: "n div 2 ^ SIGN_SHIFT F = (if enc_neg F bits then 1 else 0)" by (auto simp: enc_neg_def n_def elim: oddE)
  have "n mod 2 ^ SIGN_SHIFT F = enc_exp F bits * 2 ^ FRAC_BITS F + enc_frac F bits"
    by (simp add: sh mod_mult2_eq enc_exp_def enc_frac_def n_def)
  then show ?thesis using s div_mult_mod_eq [of n "2 ^ SIGN_SHIFT F"] by (auto simp: n_def split: if_splits)
qed

lemma enc_inject:
  assumes "unat a < 2 ^ (SIGN_SHIFT F + 1)" and "unat b < 2 ^ (SIGN_SHIFT F + 1)" and "enc_neg F a = enc_neg F b"
    and "enc_value F a = enc_value F b"
  shows "a = b"
proof -
  have "mag_of_fields F (enc_exp F a) (enc_frac F a) = mag_of_fields F (enc_exp F b) (enc_frac F b)"
    using assms(3,4) by (auto simp: enc_value_def signed_real_def split: if_splits)
  then have "enc_exp F a = enc_exp F b \<and> enc_frac F a = enc_frac F b" by (rule mag_inject [OF enc_frac_lt(1) enc_frac_lt(1)])
  then show ?thesis using unat_fields [OF assms(1)] unat_fields [OF assms(2)] assms(3) unat_eqI by metis
qed

section \<open>Decoding and encoding are inverse\<close>

lemma mag_in_grid:
  assumes "format_ok F" and "f < 2 ^ FRAC_BITS F"
  shows "mag_of_fields F e f \<in> grid F"
proof (cases "e = 0")
  case True
  have "real f * 2 powi (emin F - int (FRAC_BITS F)) \<in> grid F" using assms(2) by (intro grid_member) simp_all
  with True show ?thesis by (simp add: mag_of_fields_def)
next
  case False
  have "real (2 ^ FRAC_BITS F + f) * 2 powi (int e - BIAS F - int (FRAC_BITS F)) \<in> grid F"
    using assms(2) False by (intro grid_member) (simp_all add: emin_def)
  with False show ?thesis by (simp add: mag_of_fields_def)
qed

lemma rounds_to_member: "v \<in> grid F \<Longrightarrow> rounds_to F rounding v r \<Longrightarrow> r = v"
  unfolding rounds_to_def rounds_down_def rounds_up_def rounds_nearest_def
  by (cases rounding) (force split: if_splits)+

lemma finite_not_huge:
  assumes F: "format_ok F" and e: "e < 2 ^ EXP_BITS F - 1" and f: "f < 2 ^ FRAC_BITS F"
  shows "\<not> huge F (mag_of_fields F e f)"
proof -
  have m: "int (2 ^ EXP_BITS F - 1) = 2 * BIAS F + 1" using BIAS_bounds(3) [OF F] by (simp add: of_nat_diff)
  have "mag_of_fields F e f < mag_of_fields F (2 ^ EXP_BITS F - 1) 0" using f e by (rule mag_mono_exp)
  also have "\<dots> = 2 ^ FRAC_BITS F * 2 powi (BIAS F + 1 - int (FRAC_BITS F))"
    using m e by (simp add: mag_of_fields_def del: of_nat_diff)
  also have "\<dots> = 2 powi (BIAS F + 1)" using powi_add_nat [of "BIAS F + 1 - int (FRAC_BITS F)" "FRAC_BITS F"] by simp
  finally show ?thesis by (simp add: huge_def mag_of_fields_def)
qed

lemma decoded_exact_ok: "decoded F bits x \<Longrightarrow> exact_ok F x"
  by (simp add: decoded_def exact_ok_def)

lemma rounding_of_representable:
  assumes F: "format_ok F" and x: "exact_ok F x" "represents x (mag_of_fields F e f)" and f: "f < 2 ^ FRAC_BITS F"
    and e: "e < 2 ^ EXP_BITS F - 1" and t: "t = round_ieee_traced F rounding x"
  shows "enc_neg F (pk_bits (tr_packed t)) = ex_negative x" and "unat (pk_bits (tr_packed t)) < 2 ^ (SIGN_SHIFT F + 1)"
    and "enc_value F (pk_bits (tr_packed t)) = signed_real (ex_negative x) (mag_of_fields F e f)"
    and "pk_flags (tr_packed t) = Flags_default" and "\<not> tr_incremented t"
proof -
  let ?v = "signed_real (ex_negative x) (mag_of_fields F e f)"
  have v: "?v \<in> grid F" using mag_in_grid [OF F f] by (simp add: signed_real_def grid_uminus)
  have m: "\<bar>?v\<bar> = mag_of_fields F e f" by (auto simp: signed_real_def mag_of_fields_def)
  have h: "\<not> huge F ?v" using finite_not_huge [OF F e f] by (simp add: huge_def signed_real_def)
  have "ieee_rounded F rounding (ex_negative x) (mag_of_fields F e f) t" unfolding t by (rule round_ieee_sound [OF F x])
  then obtain r where r: "rounds_to F rounding ?v r"
    and s: "unat (pk_bits (tr_packed t)) < 2 ^ (SIGN_SHIFT F + 1)" "enc_neg F (pk_bits (tr_packed t)) = ex_negative x"
      "if huge F r then (enc_exp F (pk_bits (tr_packed t)), enc_frac F (pk_bits (tr_packed t))) = overflow_exp_frac F rounding (ex_negative x)
       else enc_finite F (pk_bits (tr_packed t)) \<and> enc_value F (pk_bits (tr_packed t)) = r"
    and q: "pk_flags (tr_packed t) =
        Flags_default\<lparr>fl_overflow := huge F r, fl_underflow := (0 < mag_of_fields F e f \<and> mag_of_fields F e f < 2 powi emin F) \<and> \<bar>r\<bar> \<noteq> mag_of_fields F e f,
          fl_inexact := \<bar>r\<bar> \<noteq> mag_of_fields F e f \<or> huge F r\<rparr>"
      "tr_incremented t = (mag_of_fields F e f < \<bar>r\<bar>)"
    unfolding ieee_rounded_def Let_def by blast
  have rv: "r = ?v" using v r by (rule rounds_to_member)
  show "enc_neg F (pk_bits (tr_packed t)) = ex_negative x" "unat (pk_bits (tr_packed t)) < 2 ^ (SIGN_SHIFT F + 1)"
    by (rule s(2), rule s(1))
  show "enc_value F (pk_bits (tr_packed t)) = ?v" using s(3) h by (simp add: rv)
  show "pk_flags (tr_packed t) = Flags_default" "\<not> tr_incremented t" using q h m by (simp_all add: rv Flags_default_def)
qed

text \<open>
  Decoding and rounding are inverse: every finite nonzero encoding of every format decodes,
  under the policy that keeps denormals, to an exact value that each rounding mode packs back
  into the same bits without raising a flag.
\<close>
theorem unpack_round_pack:
  assumes F: "format_ok F" and bits: "enc_finite F bits" "enc_value F bits \<noteq> 0"
  shows "\<exists>x. unpack F PowerPc bits = (Op_Finite x, Flags_default) \<and>
    round_pack F PowerPc rounding x = \<lparr>pk_bits = bits, pk_flags = Flags_default\<rparr>"
proof -
  have nz: "enc_exp F bits \<noteq> 0 \<or> enc_frac F bits \<noteq> 0"
    using bits(2) by (cases "enc_exp F bits = 0"; cases "enc_frac F bits = 0") (simp_all add: enc_value_def mag_of_fields_def)
  have e: "enc_exp F bits < 2 ^ EXP_BITS F - 1" and n: "unat bits < 2 ^ (SIGN_SHIFT F + 1)"
    using bits(1) by (simp_all add: enc_finite_def)
  obtain x where x: "unpack F PowerPc bits = (Op_Finite x, Flags_default)" "decoded F bits x"
    using unpack_PowerPc_finite [OF F e nz] by blast
  have r: "represents x (mag_of_fields F (enc_exp F bits) (enc_frac F bits))" "ex_negative x = enc_neg F bits"
    using x(2) by (simp_all add: decoded_def)
  note t = rounding_of_representable [OF F decoded_exact_ok [OF x(2)] r(1) enc_frac_lt(1) e refl, of rounding]
  have "pk_bits (tr_packed (round_ieee_traced F rounding x)) = bits"
    using t(2) n t(1) [unfolded r(2)] t(3) [unfolded r(2), folded enc_value_def] by (rule enc_inject)
  then have "round_pack F PowerPc rounding x = \<lparr>pk_bits = bits, pk_flags = Flags_default\<rparr>"
    using t(4) by (simp add: round_pack_def round_ieee_def)
  with x(1) show ?thesis by blast
qed

theorem unpack_round_pack_witness:
  "\<exists>x. unpack Binary64 PowerPc 0x3FF8000000000000 = (Op_Finite x, Flags_default) \<and>
     round_pack Binary64 PowerPc TowardPositive x = \<lparr>pk_bits = 0x3FF8000000000000, pk_flags = Flags_default\<rparr>"
  by (rule unpack_round_pack [of Binary64])
     (simp_all add: enc_finite_def enc_value_def enc_exp_def enc_frac_def enc_neg_def Binary64_def SIGN_SHIFT_def
        mag_of_fields_def signed_real_def format_ok_def)

section \<open>Comparison keys\<close>

lemma len_of_u32: "LENGTH(32) = 32"
  by simp

definition spu_value :: "u32 \<Rightarrow> real" where
  "spu_value bits =
     (let x = fst (unpack_extended Binary32 (ucast bits))
      in signed_real (ex_negative x) (real (unat (ex_significand x)) * 2 powi ex_exponent x))"

lemma spu_value_fields:
  "spu_value bits =
     signed_real (enc_neg Binary32 (ucast bits))
       (if enc_exp Binary32 (ucast bits) = 0 then 0
        else mag_of_fields Binary32 (enc_exp Binary32 (ucast bits)) (enc_frac Binary32 (ucast bits)))"
proof (cases "enc_exp Binary32 (ucast bits) = 0")
  case True
  then show ?thesis
    by (simp add: spu_value_def unpack_extended_def unpack_def Let_def exponent_field_eq)
next
  case False
  define x where "x = fst (unpack_extended Binary32 (ucast bits))"
  have "decoded Binary32 (ucast bits) x" 
    unfolding x_def using False
    by (simp add: unpack_extended_def unpack_def Let_def exponent_field_eq unpack_normal [OF _ _ refl])
  then have "ex_negative x = enc_neg Binary32 (ucast bits)"
    "mag_of_fields Binary32 (enc_exp Binary32 (ucast bits)) (enc_frac Binary32 (ucast bits)) = real (unat (ex_significand x)) * 2 powi ex_exponent x"
    by (auto simp: decoded_def represents_exact)
  then show ?thesis using False by (simp add: spu_value_def x_def [symmetric] Let_def)
qed

text \<open>
  C40: The integer key by which the SPU compares extended-range single-precision words orders them
  as the numbers they stand for, with every zero and denormal equal to zero and no unordered
  pair.
\<close>
theorem extended_order_key_exact:
  "extended_order_key a < extended_order_key b \<longleftrightarrow> spu_value a < spu_value b"
proof -
  define m where "m w = (if enc_exp Binary32 (ucast w) = 0 then 0
      else mag_of_fields Binary32 (enc_exp Binary32 (ucast w)) (enc_frac Binary32 (ucast w)))" for w :: u32
  define k where "k w = (if enc_exp Binary32 (ucast w) = 0 then 0
      else enc_exp Binary32 (ucast w) * 2 ^ 23 + enc_frac Binary32 (ucast w))" for w :: u32
  have u: "unat (ucast w :: u64) = unat w" for w :: u32 by (rule unat_ucast_up) simp
  have f: "enc_frac Binary32 (ucast w) < 2 ^ FRAC_BITS Binary32" for w :: u32 by (rule enc_frac_lt)
  have pos: "0 < mag_of_fields Binary32 e g" if "e \<noteq> 0" for e g using that by (simp add: mag_of_fields_def add_pos_nonneg)
  have less: "m v < m w \<longleftrightarrow> k v < k w" for v w
  proof -
    have "FRAC_BITS Binary32 = 23" by (simp add: Binary32_def)
    then show ?thesis unfolding m_def k_def
      using mag_less_iff [OF f [of v] f [of w], of "enc_exp Binary32 (ucast v)" "enc_exp Binary32 (ucast w)"]
        pos [of "enc_exp Binary32 (ucast v)" "enc_frac Binary32 (ucast v)"]
        pos [of "enc_exp Binary32 (ucast w)" "enc_frac Binary32 (ucast w)"]
      by (cases "enc_exp Binary32 (ucast v) = 0"; cases "enc_exp Binary32 (ucast w) = 0") (simp_all add: not_less less_imp_le)
  qed
  have key: "extended_order_key w = (if enc_neg Binary32 (ucast w) then - int (k w) else int (k w))" for w
  proof -
    have b: "unat w < 2 ^ 32" using unat_lt_2p [of w] by simp
    have w: "unat w = (if enc_neg Binary32 (ucast w) then 2 ^ 31 else 0) + (enc_exp Binary32 (ucast w) * 2 ^ 23 + enc_frac Binary32 (ucast w))"
      using unat_fields [of "ucast w" Binary32] b by (simp add: u SIGN_SHIFT_def Binary32_def)
    have lt: "enc_exp Binary32 (ucast w) * 2 ^ 23 + enc_frac Binary32 (ucast w) < 2 ^ 31"
      using enc_frac_lt [of Binary32 "ucast w"] by (simp add: Binary32_def)
    have "unat (drop_bit 23 w AND 0xFF) = unat w div 2 ^ 23 mod 2 ^ 8"
    proof -
      have "(0xFF :: u32) = shl 1 8 - 1" by (simp add: shl_def)
      then have "unat (drop_bit 23 w AND 0xFF) = unat (drop_bit 23 w) mod 2 ^ 8"
        using unat_and_mask [of 8 "drop_bit 23 w"] by (simp only: len_of_u32)
      then show ?thesis by (simp only: unat_drop_bit_div)
    qed
    then have e: "drop_bit 23 w AND 0xFF = 0 \<longleftrightarrow> enc_exp Binary32 (ucast w) = 0"
      by (simp add: enc_exp_def u Binary32_def flip: unat_0_iff)
    have "unat (w AND 0x7FFFFFFF) = unat w mod 2 ^ 31" using unat_and_mask [of 31 w] by (simp add: shl_def)
    then have m: "unat (w AND 0x7FFFFFFF) = enc_exp Binary32 (ucast w) * 2 ^ 23 + enc_frac Binary32 (ucast w)"
      using w lt by auto
    have "unat (drop_bit 31 w) = unat w div 2 ^ 31" by (rule unat_drop_bit_div)
    then have "unat (drop_bit 31 w) = (if enc_neg Binary32 (ucast w) then 1 else 0)" using w lt by auto
    then have n: "drop_bit 31 w = 1 \<longleftrightarrow> enc_neg Binary32 (ucast w)" by (metis unat_1 unat_eqI zero_neq_one)
    show ?thesis unfolding extended_order_key_def extended_magnitude_key_def k_def Let_def e n
      by (simp add: uint_nat m)
  qed
  have val: "spu_value w = (if enc_neg Binary32 (ucast w) then - m w else m w)" for w
    by (simp add: spu_value_fields signed_real_def m_def)
  have nn: "0 \<le> m w" "m w = 0 \<longleftrightarrow> k w = 0" for w
    using pos [of "enc_exp Binary32 (ucast w)" "enc_frac Binary32 (ucast w)"] by (auto simp: m_def k_def less_imp_le)
  show ?thesis unfolding key val using less [of a b] less [of b a] nn [of a] nn [of b]
    by (auto split: if_splits)
qed

end
