(* ===== verification/Float_Vmx.thy ===== *)
theory Float_Vmx
  imports Float_Operand
begin

text \<open>
  \<^verbatim>\<open>cellgov_float/src/vmx.rs\<close>: the vector unit's single-precision add, subtract, multiply-add,
  comparison, rounding to an integer and conversions, in Java mode and in the non-Java mode
  that reads denormals as zeros and flushes tiny results. An \<^verbatim>\<open>i128\<close> is a 128-bit word read with
  \<^const>\<open>sint\<close>.
\<close>

section \<open>Operations\<close>

datatype VmxMode = Java | NonJava

definition VmxMode_from_nj :: "bool \<Rightarrow> VmxMode" where
  "VmxMode_from_nj nj = (if nj then NonJava else Java)"

definition VMX_DEFAULT_NAN :: u32 where
  "VMX_DEFAULT_NAN = 0x7FC00000"

definition unpack_in :: "Format \<Rightarrow> VmxMode \<Rightarrow> u64 \<Rightarrow> Operand" where
  "unpack_in F mode bits =
     (let denormal = (ucast (shr bits (FRAC_BITS F)) AND EXP_MAX F = 0)
      in case fst (unpack F PowerPc bits) of
           Op_Finite x \<Rightarrow> if mode = NonJava \<and> denormal then Op_Zero (ex_negative x) else Op_Finite x
         | other \<Rightarrow> other)"

definition vmx_unpack :: "VmxMode \<Rightarrow> u32 \<Rightarrow> Operand" where
  "vmx_unpack mode bits = unpack_in Binary32 mode (ucast bits)"

definition vmx_nan :: "u32 list \<Rightarrow> u32 option" where
  "vmx_nan operands =
     map_option (\<lambda>x. x OR 0x00400000)
       (List.find (\<lambda>x. x AND 0x7F800000 = 0x7F800000 \<and> x AND 0x007FFFFF \<noteq> 0) operands)"

definition u32_from :: "bool \<Rightarrow> u32" where
  "u32_from b = (if b then 1 else 0)"

definition vmx_flush :: "VmxMode \<Rightarrow> u32 \<Rightarrow> u32" where
  "vmx_flush mode bits =
     (case vmx_unpack mode bits of
        Op_Zero negative \<Rightarrow> push_bit 31 (u32_from negative)
      | _ \<Rightarrow> bits)"

datatype Ordering = Less | Equal | Greater

definition i64_cmp :: "int \<Rightarrow> int \<Rightarrow> Ordering" where
  "i64_cmp a b = (if a < b then Less else if a = b then Equal else Greater)"

definition compare_key :: "VmxMode \<Rightarrow> u32 \<Rightarrow> int option" where
  "compare_key mode bits =
     (case vmx_unpack mode bits of
        Op_NaN _ \<Rightarrow> None
      | Op_Zero _ \<Rightarrow> Some 0
      | _ \<Rightarrow>
          (let magnitude = uint (bits AND 0x7FFFFFFF)
           in Some (if drop_bit 31 bits = 1 then - magnitude else magnitude)))"

definition vmx_compare :: "VmxMode \<Rightarrow> u32 \<Rightarrow> u32 \<Rightarrow> Ordering option" where
  "vmx_compare mode a b =
     (case compare_key mode a of
        None \<Rightarrow> None
      | Some ka \<Rightarrow> (case compare_key mode b of None \<Rightarrow> None | Some kb \<Rightarrow> Some (i64_cmp ka kb)))"

text \<open>\<^verbatim>\<open>Term\<close>: an operand or product other than a NaN.\<close>

datatype Term = Term_Infinity bool | Term_Exact Exact

definition operand_term :: "Operand \<Rightarrow> Term option" where
  "operand_term x =
     (case x of
        Op_Zero negative \<Rightarrow> Some (Term_Exact (Exact_from_parts negative 0 0 False))
      | Op_Finite v \<Rightarrow> Some (Term_Exact v)
      | Op_Infinity negative \<Rightarrow> Some (Term_Infinity negative)
      | Op_NaN _ \<Rightarrow> None)"

fun product_term :: "Term \<Rightarrow> Term \<Rightarrow> Term option" where
  "product_term (Term_Infinity p) (Term_Infinity q) = Some (Term_Infinity (p \<noteq> q))"
| "product_term (Term_Infinity p) (Term_Exact z) =
     (if ex_significand z \<noteq> 0 then Some (Term_Infinity (p \<noteq> ex_negative z)) else None)"
| "product_term (Term_Exact z) (Term_Infinity p) =
     (if ex_significand z \<noteq> 0 then Some (Term_Infinity (p \<noteq> ex_negative z)) else None)"
| "product_term (Term_Exact x) (Term_Exact y) = Some (Term_Exact (product x y))"

definition round_in :: "Format \<Rightarrow> VmxMode \<Rightarrow> Rounding \<Rightarrow> Exact \<Rightarrow> u64" where
  "round_in F mode rounding exact =
     (let tiny = (ex_significand exact \<noteq> 0 \<and> binade exact < wrap_i32 (1 - BIAS F))
      in if mode = NonJava \<and> tiny then shl (if ex_negative exact then 1 else 0) (SIGN_SHIFT F)
         else pk_bits (round_pack F PowerPc rounding exact))"

definition vmx_round :: "VmxMode \<Rightarrow> Rounding \<Rightarrow> Exact \<Rightarrow> u32" where
  "vmx_round mode rounding exact = ucast (round_in Binary32 mode rounding exact)"

fun sum_terms :: "VmxMode \<Rightarrow> Term \<Rightarrow> Term \<Rightarrow> u32" where
  "sum_terms mode (Term_Infinity p) (Term_Infinity q) =
     (if p \<noteq> q then VMX_DEFAULT_NAN else 0x7F800000 OR push_bit 31 (u32_from p))"
| "sum_terms mode (Term_Infinity negative) (Term_Exact y) = 0x7F800000 OR push_bit 31 (u32_from negative)"
| "sum_terms mode (Term_Exact x) (Term_Infinity negative) = 0x7F800000 OR push_bit 31 (u32_from negative)"
| "sum_terms mode (Term_Exact x) (Term_Exact y) = vmx_round mode NearestEven (sum x y)"

definition add_in :: "VmxMode \<Rightarrow> u32 \<Rightarrow> u32 \<Rightarrow> u32" where
  "add_in mode a b =
     (case (operand_term (vmx_unpack mode a), operand_term (vmx_unpack mode b)) of
        (Some x, Some y) \<Rightarrow> sum_terms mode x y
      | _ \<Rightarrow> VMX_DEFAULT_NAN)"

definition madd_in :: "VmxMode \<Rightarrow> u32 \<Rightarrow> u32 \<Rightarrow> u32 \<Rightarrow> u32" where
  "madd_in mode a b c =
     (let unpacked = (\<lambda>x. operand_term (vmx_unpack mode x))
      in case (unpacked a, unpacked b, unpacked c) of
           (Some x, Some y, Some z) \<Rightarrow>
             (case product_term x z of None \<Rightarrow> VMX_DEFAULT_NAN | Some p \<Rightarrow> sum_terms mode p y)
         | _ \<Rightarrow> VMX_DEFAULT_NAN)"

definition vmx_add :: "VmxMode \<Rightarrow> u32 \<Rightarrow> u32 \<Rightarrow> u32" where
  "vmx_add mode a b = (case vmx_nan [a, b] of Some nan \<Rightarrow> nan | None \<Rightarrow> add_in mode a b)"

definition vmx_sub :: "VmxMode \<Rightarrow> u32 \<Rightarrow> u32 \<Rightarrow> u32" where
  "vmx_sub mode a b = (case vmx_nan [a, b] of Some nan \<Rightarrow> nan | None \<Rightarrow> add_in mode a (b XOR 0x80000000))"

definition vmx_madd :: "VmxMode \<Rightarrow> u32 \<Rightarrow> u32 \<Rightarrow> u32 \<Rightarrow> u32" where
  "vmx_madd mode a b c = (case vmx_nan [a, b, c] of Some nan \<Rightarrow> nan | None \<Rightarrow> madd_in mode a b c)"

definition vmx_nmsub :: "VmxMode \<Rightarrow> u32 \<Rightarrow> u32 \<Rightarrow> u32 \<Rightarrow> u32" where
  "vmx_nmsub mode a b c =
     (case vmx_nan [a, b, c] of
        Some nan \<Rightarrow> nan
      | None \<Rightarrow>
          (let difference = madd_in mode a (b XOR 0x80000000) c
           in if vmx_nan [difference] \<noteq> None then difference else difference XOR 0x80000000))"

text \<open>The whole part, the fraction and one half at the scale of the fraction.\<close>

definition integer_parts :: "u128 \<Rightarrow> nat \<Rightarrow> u128 \<times> u128 \<times> u128" where
  "integer_parts significand shift =
     (let width = 128 - leading_zeros significand
      in if shift > width then (0, significand, - 1)
         else (let mask = shl 1 shift - 1
               in (shr significand shift, significand AND mask, shl 1 (shift - 1))))"

definition vmx_round_integer :: "VmxMode \<Rightarrow> Rounding \<Rightarrow> u32 \<Rightarrow> u32" where
  "vmx_round_integer mode rounding b =
     (case vmx_nan [b] of
        Some nan \<Rightarrow> nan
      | None \<Rightarrow>
          (case vmx_unpack mode b of
             Op_Zero negative \<Rightarrow> push_bit 31 (u32_from negative)
           | Op_Finite x \<Rightarrow>
               if ex_exponent x < 0
               then let shift = nat \<bar>ex_exponent x\<bar>;
                        (whole, fraction, half) = integer_parts (ex_significand x) shift;
                        up = (case rounding of
                                NearestEven \<Rightarrow> fraction > half \<or> (fraction = half \<and> whole AND 1 = 1)
                              | TowardZero \<Rightarrow> False
                              | TowardPositive \<Rightarrow> fraction \<noteq> 0 \<and> \<not> ex_negative x
                              | TowardNegative \<Rightarrow> fraction \<noteq> 0 \<and> ex_negative x);
                        magnitude = whole + (if up then 1 else 0)
                    in if magnitude = 0 then push_bit 31 (u32_from (ex_negative x))
                       else vmx_round mode NearestEven (Exact_from_parts (ex_negative x) magnitude 0 False)
               else b
           | _ \<Rightarrow> b))"

definition vmx_from_integer :: "u64 \<Rightarrow> u32 \<Rightarrow> u32" where
  "vmx_from_integer value scale =
     (let v = sint value
      in if v = 0 then 0
         else vmx_round Java NearestEven
                (Exact_from_parts (v < 0) (of_int \<bar>v\<bar>) (wrap_i32 (- sint scale)) False))"

definition BEYOND :: u128 where
  "BEYOND = push_bit 64 1"

definition truncated_magnitude :: "u128 \<Rightarrow> int \<Rightarrow> u128" where
  "truncated_magnitude significand exponent =
     (let width = int (128 - leading_zeros significand)
      in if exponent \<ge> 0 \<and> wrap_i32 (width + exponent) > 64 then BEYOND
         else if exponent \<ge> 0 then shl significand (as_u32 exponent)
         else if wrap_i32 (- exponent) \<ge> width then 0
         else shr significand (as_u32 (wrap_i32 (- exponent))))"

definition scaled_toward_zero :: "VmxMode \<Rightarrow> u32 \<Rightarrow> u32 \<Rightarrow> u128 option" where
  "scaled_toward_zero mode b scale =
     (let signed = (\<lambda>negative magnitude. Some (if negative then - magnitude else magnitude))
      in case vmx_unpack mode b of
           Op_NaN _ \<Rightarrow> None
         | Op_Zero _ \<Rightarrow> Some 0
         | Op_Infinity negative \<Rightarrow> signed negative BEYOND
         | Op_Finite x \<Rightarrow>
             signed (ex_negative x) (truncated_magnitude (ex_significand x) (wrap_i32 (ex_exponent x + sint scale))))"

definition vmx_to_signed :: "VmxMode \<Rightarrow> u32 \<Rightarrow> u32 \<Rightarrow> u32 \<times> bool" where
  "vmx_to_signed mode b scale =
     (case scaled_toward_zero mode b scale of
        None \<Rightarrow> (0, False)
      | Some value \<Rightarrow>
          (let clamped = max (- (2 ^ 31)) (min (2 ^ 31 - 1) (sint value))
           in (of_int clamped, clamped \<noteq> sint value)))"

definition vmx_to_unsigned :: "VmxMode \<Rightarrow> u32 \<Rightarrow> u32 \<Rightarrow> u32 \<times> bool" where
  "vmx_to_unsigned mode b scale =
     (case scaled_toward_zero mode b scale of
        None \<Rightarrow> (0, False)
      | Some value \<Rightarrow>
          (let clamped = max 0 (min (2 ^ 32 - 1) (sint value))
           in (of_int clamped, clamped \<noteq> sint value)))"

end
