(* ===== verification/Float_Ppc.thy ===== *)
theory Float_Ppc
  imports Float_Operand
begin

text \<open>
  \<^verbatim>\<open>cellgov_float/src/ppc.rs\<close>, \<^verbatim>\<open>ppc_arith.rs\<close> and \<^verbatim>\<open>ppc_convert.rs\<close>: the scalar unit's status bits, enables and NaN
  selection, and its add, subtract, multiply, divide, square root, multiply-add and
  conversions. A double-format register value is a \<^typ>\<open>u64\<close>.
\<close>

section \<open>Status and control\<close>

definition PPC_GENERATED_NAN :: u64 where "PPC_GENERATED_NAN = 0x7FF8000000000000"
definition PPC_SIGN :: u64 where "PPC_SIGN = push_bit 63 1"
definition PPC_INFINITY :: u64 where "PPC_INFINITY = 0x7FF0000000000000"
definition PPC_FRACTION :: u64 where "PPC_FRACTION = push_bit 52 1 - 1"
definition PPC_QUIET :: u64 where "PPC_QUIET = push_bit 51 1"

datatype PpcPrecision = Prec_Double | Prec_Single

record PpcEnables =
  en_invalid :: bool
  en_overflow :: bool
  en_underflow :: bool
  en_zero_divide :: bool
  en_inexact :: bool

definition PpcEnables_default :: PpcEnables where
  "PpcEnables_default =
     \<lparr>en_invalid = False, en_overflow = False, en_underflow = False, en_zero_divide = False, en_inexact = False\<rparr>"

record PpcControl =
  ct_rounding :: Rounding
  ct_enables :: PpcEnables

definition PpcControl_from :: "Rounding \<Rightarrow> PpcControl" where
  "PpcControl_from rounding = \<lparr>ct_rounding = rounding, ct_enables = PpcEnables_default\<rparr>"

datatype PpcEnabled = En_Invalid | En_ZeroDivide

record PpcInvalid =
  vx_snan :: bool
  vx_inf_minus_inf :: bool
  vx_inf_div_inf :: bool
  vx_zero_div_zero :: bool
  vx_inf_times_zero :: bool
  vx_compare :: bool
  vx_sqrt :: bool
  vx_convert :: bool

definition PpcInvalid_default :: PpcInvalid where
  "PpcInvalid_default =
     \<lparr>vx_snan = False, vx_inf_minus_inf = False, vx_inf_div_inf = False, vx_zero_div_zero = False,
      vx_inf_times_zero = False, vx_compare = False, vx_sqrt = False, vx_convert = False\<rparr>"

definition PpcInvalid_any :: "PpcInvalid \<Rightarrow> bool" where
  "PpcInvalid_any v \<longleftrightarrow>
     vx_snan v \<or> vx_inf_minus_inf v \<or> vx_inf_div_inf v \<or> vx_zero_div_zero v \<or> vx_inf_times_zero v \<or>
     vx_compare v \<or> vx_sqrt v \<or> vx_convert v"

definition PpcInvalid_or :: "PpcInvalid \<Rightarrow> PpcInvalid \<Rightarrow> PpcInvalid" where
  "PpcInvalid_or v w =
     \<lparr>vx_snan = vx_snan v \<or> vx_snan w, vx_inf_minus_inf = vx_inf_minus_inf v \<or> vx_inf_minus_inf w,
      vx_inf_div_inf = vx_inf_div_inf v \<or> vx_inf_div_inf w, vx_zero_div_zero = vx_zero_div_zero v \<or> vx_zero_div_zero w,
      vx_inf_times_zero = vx_inf_times_zero v \<or> vx_inf_times_zero w, vx_compare = vx_compare v \<or> vx_compare w,
      vx_sqrt = vx_sqrt v \<or> vx_sqrt w, vx_convert = vx_convert v \<or> vx_convert w\<rparr>"

definition ppc_is_nan :: "u64 \<Rightarrow> bool" where
  "ppc_is_nan bits \<longleftrightarrow> bits AND PPC_INFINITY = PPC_INFINITY \<and> bits AND PPC_FRACTION \<noteq> 0"

definition ppc_is_snan :: "u64 \<Rightarrow> bool" where
  "ppc_is_snan bits \<longleftrightarrow> ppc_is_nan bits \<and> bits AND PPC_QUIET = 0"

definition PpcInvalid_signaling :: "u64 list \<Rightarrow> PpcInvalid" where
  "PpcInvalid_signaling operands = PpcInvalid_default\<lparr>vx_snan := list_ex ppc_is_snan operands\<rparr>"

record PpcStatus =
  st_fr :: bool
  st_fi :: bool
  st_ox :: bool
  st_ux :: bool
  st_zx :: bool
  st_invalid :: PpcInvalid

definition PpcStatus_default :: PpcStatus where
  "PpcStatus_default =
     \<lparr>st_fr = False, st_fi = False, st_ox = False, st_ux = False, st_zx = False, st_invalid = PpcInvalid_default\<rparr>"

definition PpcStatus_refusal :: "PpcStatus \<Rightarrow> PpcEnables \<Rightarrow> PpcEnabled option" where
  "PpcStatus_refusal s enables =
     (if en_invalid enables \<and> PpcInvalid_any (st_invalid s) then Some En_Invalid
      else if en_zero_divide enables \<and> st_zx s then Some En_ZeroDivide else None)"

definition PpcStatus_scaled :: "PpcStatus \<Rightarrow> PpcEnables \<Rightarrow> bool" where
  "PpcStatus_scaled s enables \<longleftrightarrow> (en_overflow enables \<and> st_ox s) \<or> (en_underflow enables \<and> st_ux s)"

record PpcResult =
  pr_bits :: u64
  pr_status :: PpcStatus

definition exponent_adjustment :: "PpcPrecision \<Rightarrow> int" where
  "exponent_adjustment precision = (case precision of Prec_Double \<Rightarrow> 1536 | Prec_Single \<Rightarrow> 192)"

definition SingleSignificand :: Format where
  "SingleSignificand = \<lparr>EXP_BITS = 11, FRAC_BITS = 23\<rparr>"

section \<open>Rounding to a precision\<close>

definition round_disabled_in :: "Format \<Rightarrow> Rounding \<Rightarrow> Exact \<Rightarrow> PpcResult \<times> bool" where
  "round_disabled_in F rounding exact =
     (let traced = round_ieee_traced F rounding exact;
          flags = pk_flags (tr_packed traced);
          result = \<lparr>pr_bits = pk_bits (tr_packed traced),
                    pr_status = PpcStatus_default\<lparr>st_fr := tr_incremented traced \<or> fl_overflow flags,
                      st_fi := fl_inexact flags, st_ox := fl_overflow flags, st_ux := fl_underflow flags\<rparr>\<rparr>
      in (result, tr_tiny traced))"

definition widen_single :: "u64 \<Rightarrow> u64" where
  "widen_single bits =
     (let sign = shl (shr bits 31 AND 1) 63
      in case fst (unpack Binary32 PowerPc bits) of
           Op_Zero _ \<Rightarrow> sign
         | Op_Infinity _ \<Rightarrow> sign OR PPC_INFINITY
         | Op_NaN _ \<Rightarrow> sign OR PPC_INFINITY OR shl (bits AND 0x7FFFFF) 29
         | Op_Finite x \<Rightarrow> pk_bits (tr_packed (round_ieee_traced Binary64 NearestEven x)))"

definition round_adjusted :: "PpcPrecision \<Rightarrow> Rounding \<Rightarrow> Exact \<Rightarrow> PpcStatus \<Rightarrow> PpcResult" where
  "round_adjusted precision rounding exact status =
     (let (traced, bits) =
            (case precision of
               Prec_Double \<Rightarrow>
                 (let traced = round_ieee_traced Binary64 rounding exact in (traced, pk_bits (tr_packed traced)))
             | Prec_Single \<Rightarrow>
                 (let traced = round_ieee_traced SingleSignificand rounding exact;
                      packed = pk_bits (tr_packed traced);
                      sign = shl (shr packed (SIGN_SHIFT SingleSignificand)) 63;
                      magnitude = packed AND (shl 1 (SIGN_SHIFT SingleSignificand) - 1)
                  in (traced, sign OR shl magnitude 29)))
      in \<lparr>pr_bits = bits,
          pr_status = status\<lparr>st_fr := tr_incremented traced, st_fi := fl_inexact (pk_flags (tr_packed traced))\<rparr>\<rparr>)"

definition ppc_round :: "PpcPrecision \<Rightarrow> PpcControl \<Rightarrow> Exact \<Rightarrow> PpcResult" where
  "ppc_round precision control exact =
     (let rounding = ct_rounding control;
          enables = ct_enables control;
          (result, tiny) =
            (case precision of
               Prec_Double \<Rightarrow> round_disabled_in Binary64 rounding exact
             | Prec_Single \<Rightarrow>
                 (let (r, tiny) = round_disabled_in Binary32 rounding exact
                  in (r\<lparr>pr_bits := widen_single (pr_bits r)\<rparr>, tiny)));
          adjusted = (\<lambda>status.
            let adjustment = exponent_adjustment precision;
                shift = (if st_ox status then - adjustment else adjustment)
            in round_adjusted precision rounding
                 (Exact_from_parts (ex_negative exact) (ex_significand exact) (wrap_i32 (ex_exponent exact + shift)) (ex_sticky exact))
                 status)
      in if en_overflow enables \<and> st_ox (pr_status result) then adjusted (PpcStatus_default\<lparr>st_ox := True\<rparr>)
         else if en_underflow enables \<and> tiny then adjusted (PpcStatus_default\<lparr>st_ux := True\<rparr>)
         else result)"

section \<open>Sums, NaNs and invalid operations\<close>

definition signed_zero_sum :: "Rounding \<Rightarrow> Exact \<Rightarrow> Exact \<Rightarrow> Exact \<Rightarrow> Exact" where
  "signed_zero_sum rounding a b s =
     (if ex_significand s \<noteq> 0 then s
      else Exact_from_parts
             (if ex_negative a = ex_negative b then ex_negative a else rounding = TowardNegative) 0 (ex_exponent s) False)"

definition ppc_sum :: "Rounding \<Rightarrow> Exact \<Rightarrow> Exact \<Rightarrow> Exact option" where
  "ppc_sum rounding a b = map_option (signed_zero_sum rounding a b) (add a b)"

definition ppc_nan_result :: "u64 option \<Rightarrow> u64 option \<Rightarrow> u64 option \<Rightarrow> u64 option" where
  "ppc_nan_result fra frb frc =
     map_option (\<lambda>b. b OR PPC_QUIET)
       (find ppc_is_nan (concat (map (\<lambda>r. case r of None \<Rightarrow> [] | Some b \<Rightarrow> [b]) [fra, frb, frc])))"

definition ppc_frsp_nan :: "u64 \<Rightarrow> u64" where
  "ppc_frsp_nan frb = (frb OR PPC_QUIET) AND NOT (push_bit 29 1 - 1)"

definition is_infinity :: "u64 \<Rightarrow> bool" where
  "is_infinity bits \<longleftrightarrow> bits AND NOT PPC_SIGN = PPC_INFINITY"

definition is_zero :: "u64 \<Rightarrow> bool" where
  "is_zero bits \<longleftrightarrow> bits AND NOT PPC_SIGN = 0"

definition ppc_invalid_sum :: "u64 \<Rightarrow> u64 \<Rightarrow> PpcInvalid" where
  "ppc_invalid_sum a b =
     PpcInvalid_default\<lparr>vx_inf_minus_inf := is_infinity a \<and> is_infinity b \<and> (a XOR b) AND PPC_SIGN \<noteq> 0\<rparr>"

definition ppc_invalid_product :: "u64 \<Rightarrow> u64 \<Rightarrow> PpcInvalid" where
  "ppc_invalid_product a c =
     PpcInvalid_default\<lparr>vx_inf_times_zero := (is_infinity a \<and> is_zero c) \<or> (is_zero a \<and> is_infinity c)\<rparr>"

definition ppc_invalid_quotient :: "u64 \<Rightarrow> u64 \<Rightarrow> PpcInvalid" where
  "ppc_invalid_quotient a b =
     PpcInvalid_default\<lparr>vx_inf_div_inf := is_infinity a \<and> is_infinity b, vx_zero_div_zero := is_zero a \<and> is_zero b\<rparr>"

definition ppc_invalid_sqrt :: "u64 \<Rightarrow> PpcInvalid" where
  "ppc_invalid_sqrt b = PpcInvalid_default\<lparr>vx_sqrt := b AND PPC_SIGN \<noteq> 0 \<and> \<not> is_zero b \<and> \<not> ppc_is_nan b\<rparr>"

section \<open>Arithmetic\<close>

definition finite_operand :: "u64 \<Rightarrow> Exact" where
  "finite_operand bits =
     (case fst (unpack Binary64 PowerPc bits) of
        Op_Finite x \<Rightarrow> x
      | _ \<Rightarrow> Exact_from_parts (bits AND PPC_SIGN \<noteq> 0) 0 0 False)"

definition ppc_single_operand_out_of_range :: "u64 \<Rightarrow> bool" where
  "ppc_single_operand_out_of_range bits =
     (let biased = uint (drop_bit 52 bits AND 0x7FF)
      in if bits AND NOT PPC_SIGN = 0 \<or> biased = 0x7FF then False
         else biased = 0 \<or> \<not> (- 149 \<le> biased - 1023 \<and> biased - 1023 \<le> 127))"

datatype Combine = Comb_Sum | Comb_Product

definition infinite_result :: "Combine \<Rightarrow> u64 \<Rightarrow> u64 \<Rightarrow> u64 option" where
  "infinite_result combine x y =
     (case combine of
        Comb_Sum \<Rightarrow> (if is_infinity x then Some x else if is_infinity y then Some y else None)
      | Comb_Product \<Rightarrow>
          (if is_infinity x \<or> is_infinity y then Some (PPC_INFINITY OR ((x XOR y) AND PPC_SIGN)) else None))"

definition arith :: "PpcPrecision \<Rightarrow> PpcControl \<Rightarrow> Combine \<Rightarrow> u64 \<times> u64 \<Rightarrow> u64 \<times> u64 \<Rightarrow> PpcResult" where
  "arith precision control combine raw xy =
     (let (x, y) = xy;
          cause = (case combine of Comb_Sum \<Rightarrow> ppc_invalid_sum x y | Comb_Product \<Rightarrow> ppc_invalid_product x y);
          invalid = PpcInvalid_or (PpcInvalid_signaling [fst raw, snd raw]) cause;
          status = PpcStatus_default\<lparr>st_invalid := invalid\<rparr>
      in case ppc_nan_result (Some (fst raw)) (Some (snd raw)) None of
           Some nan \<Rightarrow> \<lparr>pr_bits = nan, pr_status = status\<rparr>
         | None \<Rightarrow>
             if PpcInvalid_any invalid then \<lparr>pr_bits = PPC_GENERATED_NAN, pr_status = status\<rparr>
             else (case infinite_result combine x y of
                 Some bits \<Rightarrow> \<lparr>pr_bits = bits, pr_status = status\<rparr>
               | None \<Rightarrow>
                   if precision = Prec_Single \<and> (ppc_single_operand_out_of_range x \<or> ppc_single_operand_out_of_range y)
                   then \<lparr>pr_bits = PPC_GENERATED_NAN, pr_status = status\<rparr>
                   else
                     let ex = finite_operand x; ey = finite_operand y;
                         v = (case combine of
                                Comb_Sum \<Rightarrow> signed_zero_sum (ct_rounding control) ex ey (sum ex ey)
                              | Comb_Product \<Rightarrow> product ex ey)
                     in ppc_round precision control v))"

definition ppc_add :: "PpcPrecision \<Rightarrow> PpcControl \<Rightarrow> u64 \<Rightarrow> u64 \<Rightarrow> PpcResult" where
  "ppc_add precision control a b = arith precision control Comb_Sum (a, b) (a, b)"

definition ppc_sub :: "PpcPrecision \<Rightarrow> PpcControl \<Rightarrow> u64 \<Rightarrow> u64 \<Rightarrow> PpcResult" where
  "ppc_sub precision control a b = arith precision control Comb_Sum (a, b) (a, b XOR PPC_SIGN)"

definition ppc_mul :: "PpcPrecision \<Rightarrow> PpcControl \<Rightarrow> u64 \<Rightarrow> u64 \<Rightarrow> PpcResult" where
  "ppc_mul precision control a c = arith precision control Comb_Product (a, c) (a, c)"

definition ppc_div :: "PpcPrecision \<Rightarrow> PpcControl \<Rightarrow> u64 \<Rightarrow> u64 \<Rightarrow> PpcResult" where
  "ppc_div precision control a b =
     (let invalid = PpcInvalid_or (PpcInvalid_signaling [a, b]) (ppc_invalid_quotient a b);
          status = PpcStatus_default\<lparr>st_invalid := invalid\<rparr>
      in case ppc_nan_result (Some a) (Some b) None of
           Some nan \<Rightarrow> \<lparr>pr_bits = nan, pr_status = status\<rparr>
         | None \<Rightarrow>
             if PpcInvalid_any invalid then \<lparr>pr_bits = PPC_GENERATED_NAN, pr_status = status\<rparr>
             else
               let sign = (a XOR b) AND PPC_SIGN
               in if is_zero b \<and> \<not> is_infinity a \<and> \<not> is_zero a
                  then \<lparr>pr_bits = sign OR PPC_INFINITY, pr_status = status\<lparr>st_zx := True\<rparr>\<rparr>
                  else if is_infinity a then \<lparr>pr_bits = sign OR PPC_INFINITY, pr_status = status\<rparr>
                  else if is_infinity b \<or> is_zero a then \<lparr>pr_bits = sign, pr_status = status\<rparr>
                  else ppc_round precision control (quotient (finite_operand a) (finite_operand b)))"

definition ppc_sqrt :: "PpcPrecision \<Rightarrow> PpcControl \<Rightarrow> u64 \<Rightarrow> PpcResult" where
  "ppc_sqrt precision control b =
     (let invalid = PpcInvalid_or (PpcInvalid_signaling [b]) (ppc_invalid_sqrt b);
          status = PpcStatus_default\<lparr>st_invalid := invalid\<rparr>
      in case ppc_nan_result None (Some b) None of
           Some nan \<Rightarrow> \<lparr>pr_bits = nan, pr_status = status\<rparr>
         | None \<Rightarrow>
             if PpcInvalid_any invalid then \<lparr>pr_bits = PPC_GENERATED_NAN, pr_status = status\<rparr>
             else if b AND NOT PPC_SIGN = 0 \<or> b = PPC_INFINITY then \<lparr>pr_bits = b, pr_status = status\<rparr>
             else ppc_round precision control (square_root (finite_operand b)))"

definition infinite_product :: "u64 \<Rightarrow> u64 \<Rightarrow> u64 option" where
  "infinite_product a c =
     (let zero_or_nan = (\<lambda>v. v AND NOT PPC_SIGN = 0 \<or> ppc_is_nan v)
      in if (is_infinity a \<and> \<not> zero_or_nan c) \<or> (is_infinity c \<and> \<not> zero_or_nan a)
         then Some (PPC_INFINITY OR ((a XOR c) AND PPC_SIGN)) else None)"

definition multiply_add :: "PpcPrecision \<Rightarrow> PpcControl \<Rightarrow> u64 \<times> u64 \<times> u64 \<Rightarrow> bool \<Rightarrow> PpcResult" where
  "multiply_add precision control abc subtract =
     (let (a, b, c) = abc;
          addend = (if subtract then b XOR PPC_SIGN else b);
          infinite = infinite_product a c;
          invalid = PpcInvalid_or (PpcInvalid_or (PpcInvalid_signaling [a, b, c]) (ppc_invalid_product a c))
                      (ppc_invalid_sum (case infinite of Some v \<Rightarrow> v | None \<Rightarrow> 0) addend);
          status = PpcStatus_default\<lparr>st_invalid := invalid\<rparr>
      in case ppc_nan_result (Some a) (Some b) (Some c) of
           Some nan \<Rightarrow> \<lparr>pr_bits = nan, pr_status = status\<rparr>
         | None \<Rightarrow>
             if PpcInvalid_any invalid then \<lparr>pr_bits = PPC_GENERATED_NAN, pr_status = status\<rparr>
             else (case (case infinite of
                           Some v \<Rightarrow> Some v
                         | None \<Rightarrow> if addend AND NOT PPC_SIGN = PPC_INFINITY then Some addend else None) of
                 Some bits \<Rightarrow> \<lparr>pr_bits = bits, pr_status = status\<rparr>
               | None \<Rightarrow>
                   if precision = Prec_Single \<and> list_ex ppc_single_operand_out_of_range [a, b, c]
                   then \<lparr>pr_bits = PPC_GENERATED_NAN, pr_status = status\<rparr>
                   else
                     let p = product (finite_operand a) (finite_operand c); e = finite_operand addend
                     in ppc_round precision control (signed_zero_sum (ct_rounding control) p e (sum p e))))"

definition negate_unless_nan :: "PpcResult \<Rightarrow> PpcResult" where
  "negate_unless_nan r = (if ppc_is_nan (pr_bits r) then r else r\<lparr>pr_bits := pr_bits r XOR PPC_SIGN\<rparr>)"

definition ppc_madd :: "PpcPrecision \<Rightarrow> PpcControl \<Rightarrow> u64 \<Rightarrow> u64 \<Rightarrow> u64 \<Rightarrow> PpcResult" where
  "ppc_madd precision control a b c = multiply_add precision control (a, b, c) False"

definition ppc_msub :: "PpcPrecision \<Rightarrow> PpcControl \<Rightarrow> u64 \<Rightarrow> u64 \<Rightarrow> u64 \<Rightarrow> PpcResult" where
  "ppc_msub precision control a b c = multiply_add precision control (a, b, c) True"

definition ppc_nmadd :: "PpcPrecision \<Rightarrow> PpcControl \<Rightarrow> u64 \<Rightarrow> u64 \<Rightarrow> u64 \<Rightarrow> PpcResult" where
  "ppc_nmadd precision control a b c = negate_unless_nan (ppc_madd precision control a b c)"

definition ppc_nmsub :: "PpcPrecision \<Rightarrow> PpcControl \<Rightarrow> u64 \<Rightarrow> u64 \<Rightarrow> u64 \<Rightarrow> PpcResult" where
  "ppc_nmsub precision control a b c = negate_unless_nan (ppc_msub precision control a b c)"

definition ppc_div_sqrt_precision :: "PpcPrecision \<Rightarrow> u64 list \<Rightarrow> PpcPrecision" where
  "ppc_div_sqrt_precision precision operands =
     (if list_ex ppc_single_operand_out_of_range operands then Prec_Double else precision)"

section \<open>Conversions\<close>

datatype PpcInteger = Int_Word | Int_Doubleword

definition PpcInteger_limits :: "PpcInteger \<Rightarrow> u128 \<times> u128" where
  "PpcInteger_limits width =
     (case width of
        Int_Word \<Rightarrow> (0x7FFFFFFF, 0x80000000)
      | Int_Doubleword \<Rightarrow> (0x7FFFFFFFFFFFFFFF, 0x8000000000000000))"

definition PpcInteger_saturated :: "PpcInteger \<Rightarrow> bool \<Rightarrow> u64" where
  "PpcInteger_saturated width negative =
     (case width of
        Int_Word \<Rightarrow> (if negative then 0xFFFFFFFF80000000 else 0x7FFFFFFF)
      | Int_Doubleword \<Rightarrow> (if negative then 0x8000000000000000 else 0x7FFFFFFFFFFFFFFF))"

definition round_to_integer :: "Rounding \<Rightarrow> Exact \<Rightarrow> u128 \<times> bool \<times> bool" where
  "round_to_integer rounding x =
     (let significand = ex_significand x; exponent = ex_exponent x
      in if exponent \<ge> 0
         then (if exponent > 70 then - 1 else shl significand (as_u32 exponent), False, False)
         else
           let shift = nat \<bar>exponent\<bar>;
               (whole, half, rest) =
                 (if shift > 120 then (0, False, significand \<noteq> 0)
                  else (shr significand shift, shr significand (shift - 1) AND 1 = 1,
                        significand AND (shl 1 (shift - 1) - 1) \<noteq> 0));
               inexact = (half \<or> rest);
               up = (case rounding of
                       NearestEven \<Rightarrow> half \<and> (rest \<or> whole AND 1 = 1)
                     | TowardZero \<Rightarrow> False
                     | TowardPositive \<Rightarrow> inexact \<and> \<not> ex_negative x
                     | TowardNegative \<Rightarrow> inexact \<and> ex_negative x)
           in (whole + (if up then 1 else 0), inexact, up))"

definition ppc_convert_to_integer :: "PpcInteger \<Rightarrow> Rounding \<Rightarrow> u64 \<Rightarrow> PpcResult" where
  "ppc_convert_to_integer width rounding b =
     (let negative = (drop_bit 63 b = 1);
          invalid = (\<lambda>nan snan.
            \<lparr>pr_bits = PpcInteger_saturated width (negative \<or> nan),
             pr_status = PpcStatus_default\<lparr>st_invalid := PpcInvalid_default\<lparr>vx_convert := True, vx_snan := snan\<rparr>\<rparr>\<rparr>)
      in case fst (unpack Binary64 PowerPc b) of
           Op_NaN quiet \<Rightarrow> invalid True (\<not> quiet)
         | Op_Infinity _ \<Rightarrow> invalid False False
         | Op_Zero _ \<Rightarrow> \<lparr>pr_bits = 0, pr_status = PpcStatus_default\<rparr>
         | Op_Finite x \<Rightarrow>
             (let (magnitude, inexact, incremented) = round_to_integer rounding x;
                  (most_positive, most_negative) = PpcInteger_limits width;
                  limit = (if negative then most_negative else most_positive)
              in if magnitude > limit then invalid False False
                 else \<lparr>pr_bits = ucast (if negative then - magnitude else magnitude),
                       pr_status = PpcStatus_default\<lparr>st_fr := incremented, st_fi := inexact\<rparr>\<rparr>))"

definition ppc_from_integer :: "Rounding \<Rightarrow> u64 \<Rightarrow> PpcResult" where
  "ppc_from_integer rounding b =
     (let v = sint b
      in ppc_round Prec_Double (PpcControl_from rounding)
           (Exact_from_parts (v < 0) (of_int \<bar>v\<bar>) 0 False))"

definition ppc_round_to_single :: "PpcControl \<Rightarrow> u64 \<Rightarrow> PpcResult" where
  "ppc_round_to_single control b =
     (let status = PpcStatus_default\<lparr>st_invalid := PpcInvalid_signaling [b]\<rparr>
      in case fst (unpack Binary64 PowerPc b) of
           Op_NaN _ \<Rightarrow> \<lparr>pr_bits = ppc_frsp_nan b, pr_status = status\<rparr>
         | Op_Finite x \<Rightarrow> ppc_round Prec_Single control x
         | Op_Zero _ \<Rightarrow> \<lparr>pr_bits = b, pr_status = status\<rparr>
         | Op_Infinity _ \<Rightarrow> \<lparr>pr_bits = b, pr_status = status\<rparr>)"

end
