(* ===== verification/Float_Ppc_Proofs.thy ===== *)
theory Float_Ppc_Proofs
  imports Float_Ppc
begin

text \<open>
  The scalar operations are correctly rounded: on finite operands, and with the overflow and
  underflow exceptions disabled, each delivers the real result rounded once, with its status
  bits. Non-finite operands follow the architecture's table.
\<close>

section \<open>Classes of double-format values\<close>

lemma and_push_mask:
  "unat (w AND push_bit k (mask n)) = unat (w :: 'a::len word) div 2 ^ k mod 2 ^ n * 2 ^ k" if "k + n \<le> LENGTH('a)"
proof -
  have "unat w AND push_bit k (mask n) = push_bit k (take_bit n (drop_bit k (unat w)))"
    by (rule bit_eqI) (auto simp: bit_simps)
  moreover have "unat (push_bit k (mask n) :: 'a word) = push_bit k (mask n)"
  proof (rule bit_eqI)
    fix i
    show "bit (unat (push_bit k (mask n) :: 'a word)) i = bit (push_bit k (mask n) :: nat) i"
      using that by (auto simp: bit_simps)
  qed
  ultimately show ?thesis
    by (simp add: unsigned_and_eq push_bit_eq_mult take_bit_eq_mod drop_bit_eq_div)
qed

lemma B64 [simp]:
  "EXP_BITS Binary64 = 11" "FRAC_BITS Binary64 = 52" "SIGN_SHIFT Binary64 = 63" "BIAS Binary64 = 1023" "emin Binary64 = - 1022"
  by (simp_all add: Binary64_def SIGN_SHIFT_def BIAS_def emin_def)

lemma B32 [simp]:
  "EXP_BITS Binary32 = 8" "FRAC_BITS Binary32 = 23" "SIGN_SHIFT Binary32 = 31" "BIAS Binary32 = 127" "emin Binary32 = - 126"
  by (simp_all add: Binary32_def SIGN_SHIFT_def BIAS_def emin_def)

abbreviation exp64 :: "u64 \<Rightarrow> nat" where "exp64 \<equiv> enc_exp Binary64"
abbreviation frac64 :: "u64 \<Rightarrow> nat" where "frac64 \<equiv> enc_frac Binary64"
abbreviation neg64 :: "u64 \<Rightarrow> bool" where "neg64 \<equiv> enc_neg Binary64"
abbreviation value64 :: "u64 \<Rightarrow> real" where "value64 \<equiv> enc_value Binary64"

lemma len_of_u64: "LENGTH(64) = 64" "11 < (64 :: nat) = True"
  by simp_all

lemma fields64: "unat bits = (if neg64 bits then 2 ^ 63 else 0) + (exp64 bits * 2 ^ 52 + frac64 bits)"
  using unat_fields [of bits Binary64] unat_lt_2p [of bits] by simp

lemma fields64_lt: "exp64 bits < 2048" "frac64 bits < 2 ^ 52" "exp64 bits * 2 ^ 52 + frac64 bits < 2 ^ 63"
  using enc_frac_lt [of Binary64 bits] by simp_all

lemma unat_and_not_sign: "unat (bits AND NOT PPC_SIGN) = exp64 bits * 2 ^ 52 + frac64 bits"
proof -
  have "NOT PPC_SIGN = push_bit 0 (mask 63)" by (simp add: PPC_SIGN_def mask_eq_exp_minus_1)
  then have "unat (bits AND NOT PPC_SIGN) = unat bits mod 2 ^ 63" using and_push_mask [where k = 0 and n = 63 and w = bits] by simp
  then show ?thesis using fields64 [of bits] fields64_lt(3) [of bits] by auto
qed

lemma sign_set: "bits AND PPC_SIGN \<noteq> 0 \<longleftrightarrow> neg64 bits"
proof -
  have "PPC_SIGN = push_bit 63 (mask 1)" by (simp add: PPC_SIGN_def)
  then have "unat (bits AND PPC_SIGN) = unat bits div 2 ^ 63 mod 2 * 2 ^ 63"
    using and_push_mask [where k = 63 and n = 1 and w = bits] by simp
  then have "bits AND PPC_SIGN \<noteq> 0 \<longleftrightarrow> unat bits div 2 ^ 63 mod 2 \<noteq> 0" by (simp flip: unat_0_iff)
  then show ?thesis by (simp add: enc_neg_def odd_iff_mod_2_eq_one)
qed

lemma field_eq_iff:
  assumes "f < 2 ^ 52" and "f' < 2 ^ 52"
  shows "e * 2 ^ 52 + f = e' * 2 ^ 52 + (f' :: nat) \<longleftrightarrow> e = e' \<and> f = f'"
  using div_mod_field [OF assms(1), of e] div_mod_field [OF assms(2), of e'] by metis

lemma is_infinity_iff: "is_infinity bits \<longleftrightarrow> exp64 bits = 2047 \<and> frac64 bits = 0"
proof -
  have "is_infinity bits \<longleftrightarrow> unat (bits AND NOT PPC_SIGN) = 2047 * 2 ^ 52 + 0"
    unfolding is_infinity_def using unat_eqI [of "bits AND NOT PPC_SIGN" PPC_INFINITY] by (auto simp: PPC_INFINITY_def)
  then show ?thesis using fields64_lt(2) [of bits] by (simp only: unat_and_not_sign) (subst field_eq_iff, simp_all)
qed

lemma is_zero_iff: "is_zero bits \<longleftrightarrow> exp64 bits = 0 \<and> frac64 bits = 0"
  unfolding is_zero_def unat_0_iff [symmetric] unat_and_not_sign by simp

lemma ppc_is_nan_iff: "ppc_is_nan bits \<longleftrightarrow> exp64 bits = 2047 \<and> frac64 bits \<noteq> 0"
proof -
  have "PPC_INFINITY = push_bit 52 (mask 11)" by (simp add: PPC_INFINITY_def mask_eq_exp_minus_1)
  then have "unat (bits AND PPC_INFINITY) = exp64 bits * 2 ^ 52"
    using and_push_mask [where k = 52 and n = 11 and w = bits] by (simp add: enc_exp_def)
  then have i: "bits AND PPC_INFINITY = PPC_INFINITY \<longleftrightarrow> exp64 bits = 2047"
    using unat_eqI [of "bits AND PPC_INFINITY" PPC_INFINITY] by (auto simp: PPC_INFINITY_def)
  have "PPC_FRACTION = push_bit 0 (mask 52)" by (simp add: PPC_FRACTION_def mask_eq_exp_minus_1)
  then have "unat (bits AND PPC_FRACTION) = frac64 bits"
    using and_push_mask [where k = 0 and n = 52 and w = bits] by (simp add: enc_frac_def)
  then show ?thesis unfolding ppc_is_nan_def i by (simp flip: unat_0_iff)
qed

lemma neg64_bit: "neg64 w \<longleftrightarrow> bit w 63"
proof -
  have "PPC_SIGN = 2 ^ 63" by (simp add: PPC_SIGN_def)
  then show ?thesis using sign_set [of w] and_exp_eq_0_iff_not_bit [of w 63] by simp
qed

lemma xor_sign: "neg64 (bits XOR PPC_SIGN) = (\<not> neg64 bits)" "exp64 (bits XOR PPC_SIGN) = exp64 bits" "frac64 (bits XOR PPC_SIGN) = frac64 bits"
proof -
  have "(bits XOR PPC_SIGN) AND NOT PPC_SIGN = bits AND NOT PPC_SIGN" by (rule bit_word_eqI) (auto simp: bit_simps PPC_SIGN_def)
  then have "exp64 (bits XOR PPC_SIGN) * 2 ^ 52 + frac64 (bits XOR PPC_SIGN) = exp64 bits * 2 ^ 52 + frac64 bits"
    unfolding unat_and_not_sign [symmetric] by simp
  then show "exp64 (bits XOR PPC_SIGN) = exp64 bits" "frac64 (bits XOR PPC_SIGN) = frac64 bits"
    using field_eq_iff [OF fields64_lt(2) fields64_lt(2)] by blast+
  have "bit PPC_SIGN 63" by (simp add: PPC_SIGN_def bit_push_bit_iff)
  then show "neg64 (bits XOR PPC_SIGN) = (\<not> neg64 bits)" by (simp add: neg64_bit bit_xor_iff)
qed

section \<open>Finite operands\<close>

lemma finite_operand_decoded:
  assumes "exp64 bits < 2047"
  shows "ex_negative (finite_operand bits) = neg64 bits" and "\<not> ex_sticky (finite_operand bits)"
    and "significant_bits (ex_significand (finite_operand bits)) \<le> 53" and "\<bar>ex_exponent (finite_operand bits)\<bar> < 1200"
    and "represents (finite_operand bits) (mag_of_fields Binary64 (exp64 bits) (frac64 bits))"
    and "ex_significand (finite_operand bits) = 0 \<longleftrightarrow> exp64 bits = 0 \<and> frac64 bits = 0"
proof -
  have "ex_negative (finite_operand bits) = neg64 bits \<and> \<not> ex_sticky (finite_operand bits) \<and>
    significant_bits (ex_significand (finite_operand bits)) \<le> 53 \<and> \<bar>ex_exponent (finite_operand bits)\<bar> < 1200 \<and>
    represents (finite_operand bits) (mag_of_fields Binary64 (exp64 bits) (frac64 bits)) \<and>
    (ex_significand (finite_operand bits) = 0 \<longleftrightarrow> exp64 bits = 0 \<and> frac64 bits = 0)"
  proof (cases "exp64 bits = 0 \<and> frac64 bits = 0")
    case True
    then show ?thesis using unpack_PowerPc_zero [of Binary64 bits] sign_set [of bits]
      by (simp add: finite_operand_def represents_def mag_of_fields_def significant_bits_eq)
  next
    case False
    then obtain x where x: "unpack Binary64 PowerPc bits = (Op_Finite x, Flags_default)" "decoded Binary64 bits x" "ex_significand x \<noteq> 0"
      using unpack_PowerPc_finite [of Binary64 bits] assms by auto
    have "\<bar>ex_exponent x\<bar> < 1200"
    proof -
      define e where "e = uint (exponent_field Binary64 bits)"
      have e: "0 \<le> e" "e < 2048" using unat_exponent_field [of Binary64 bits] fields64_lt(1) [of bits] by (simp_all add: e_def uint_nat)
      have "ex_exponent x = wrap_i32 (wrap_i32 (wrap_i32 e - 1023) - 52) \<or> ex_exponent x = wrap_i32 (wrap_i32 (1 - 1023) - 52)"
        using x(1) by (auto simp: unpack_def Let_def e_def split: if_splits)
      then show ?thesis using e by auto
    qed
    then show ?thesis using x False by (simp add: finite_operand_def decoded_def significant_bits_le_iff)
  qed
  then show "ex_negative (finite_operand bits) = neg64 bits" "\<not> ex_sticky (finite_operand bits)"
    "significant_bits (ex_significand (finite_operand bits)) \<le> 53" "\<bar>ex_exponent (finite_operand bits)\<bar> < 1200"
    "represents (finite_operand bits) (mag_of_fields Binary64 (exp64 bits) (frac64 bits))"
    "ex_significand (finite_operand bits) = 0 \<longleftrightarrow> exp64 bits = 0 \<and> frac64 bits = 0"
    by blast+
qed

lemma value64_finite: "exp64 bits < 2047 \<Longrightarrow> value64 bits = signed_real (ex_negative (finite_operand bits)) (mag_of_fields Binary64 (exp64 bits) (frac64 bits))"
  by (simp add: enc_value_def finite_operand_decoded(1))

section \<open>Single precision in double format\<close>

lemma grid32_in_grid64: "g \<in> grid Binary32 \<Longrightarrow> g \<in> grid Binary64"
proof -
  assume "g \<in> grid Binary32"
  then obtain m e where m: "\<bar>m\<bar> < 2 ^ 24" "- 149 \<le> e" "g = of_int m * 2 powi e" by (auto simp: grid_def)
  then show ?thesis unfolding grid_def by (intro CollectI exI [of _ m] exI [of _ e]) simp
qed

lemma not_huge_64:
  assumes "format_ok F" and "exact_ok F x" and "represents x a" and "signed_real (ex_negative x) a \<in> grid F" and "\<not> huge F a"
  shows "enc_neg F (pk_bits (tr_packed (round_ieee_traced F rounding x))) = ex_negative x"
    and "enc_exp F (pk_bits (tr_packed (round_ieee_traced F rounding x))) < 2 ^ EXP_BITS F - 1"
    and "enc_value F (pk_bits (tr_packed (round_ieee_traced F rounding x))) = signed_real (ex_negative x) a"
proof -
  have h: "\<not> huge F (signed_real (ex_negative x) a)" using assms(5) by (simp add: huge_def signed_real_def)
  show "enc_neg F (pk_bits (tr_packed (round_ieee_traced F rounding x))) = ex_negative x"
    "enc_exp F (pk_bits (tr_packed (round_ieee_traced F rounding x))) < 2 ^ EXP_BITS F - 1"
    "enc_value F (pk_bits (tr_packed (round_ieee_traced F rounding x))) = signed_real (ex_negative x) a"
    using round_ieee_sound [OF assms(1-3), of rounding] rounds_to_member [OF assms(4)] h
    unfolding ieee_rounded_def Let_def by (metis enc_finite_def)+
qed

lemma widen_single_finite:
  assumes "enc_exp Binary32 bits < 255"
  shows "neg64 (widen_single bits) = enc_neg Binary32 bits" and "exp64 (widen_single bits) < 2047"
    and "value64 (widen_single bits) = enc_value Binary32 bits"
proof -
  let ?m = "mag_of_fields Binary32 (enc_exp Binary32 bits) (enc_frac Binary32 bits)"
  have sgn: "shl (shr bits 31 AND 1) 63 = sign_bit Binary64 (enc_neg Binary32 bits)"
    using sign_field [of Binary32 bits] by (cases "enc_neg Binary32 bits") (auto simp: sign_bit_def and_one_eq)
  have "neg64 (widen_single bits) = enc_neg Binary32 bits \<and> exp64 (widen_single bits) < 2047 \<and> value64 (widen_single bits) = enc_value Binary32 bits"
  proof (cases "enc_exp Binary32 bits = 0 \<and> enc_frac Binary32 bits = 0")
    case True
    then have "widen_single bits = sign_bit Binary64 (enc_neg Binary32 bits)"
      using unpack_PowerPc_zero [of Binary32 bits] sgn by (simp add: widen_single_def Let_def)
    with True show ?thesis
      using enc_sign_or [of Binary64 0 "sign_bit Binary64 (enc_neg Binary32 bits)" "enc_neg Binary32 bits"]
      by (simp add: enc_value_def mag_of_fields_def)
  next
    case False
    then obtain x where x: "unpack Binary32 PowerPc bits = (Op_Finite x, Flags_default)" "decoded Binary32 bits x"
      using unpack_PowerPc_finite [of Binary32 bits] assms by auto
    have n: "ex_negative x = enc_neg Binary32 bits" and r: "represents x ?m" and ok: "exact_ok Binary64 x"
      using x(2) by (simp_all add: decoded_def exact_ok_def)
    have "?m \<in> grid Binary32" using enc_frac_lt(1) [of Binary32 bits] by (intro mag_in_grid) simp_all
    then have g: "signed_real (ex_negative x) ?m \<in> grid Binary64" by (simp add: signed_real_def grid32_in_grid64 grid_uminus)
    have "\<not> huge Binary32 ?m" using assms enc_frac_lt(1) [of Binary32 bits] by (intro finite_not_huge) simp_all
    then have "\<bar>?m\<bar> < 2 powi 128" by (simp add: huge_def)
    also have "\<dots> \<le> 2 powi 1024" by (rule powi_mono) simp
    finally have h: "\<not> huge Binary64 ?m" by (simp add: huge_def not_le)
    show ?thesis using not_huge_64 [OF _ ok r g h, of NearestEven] n x(1)
      by (simp add: widen_single_def Let_def enc_value_def [of Binary32])
  qed
  then show "neg64 (widen_single bits) = enc_neg Binary32 bits" "exp64 (widen_single bits) < 2047"
    "value64 (widen_single bits) = enc_value Binary32 bits" by blast+
qed

lemma widen_single_infinite:
  assumes "enc_exp Binary32 bits = 255" and "enc_frac Binary32 bits = 0"
  shows "neg64 (widen_single bits) = enc_neg Binary32 bits" and "exp64 (widen_single bits) = 2047" and "frac64 (widen_single bits) = 0"
proof -
  have sgn: "shl (shr bits 31 AND 1) 63 = sign_bit Binary64 (enc_neg Binary32 bits)"
    using sign_field [of Binary32 bits] by (cases "enc_neg Binary32 bits") (auto simp: sign_bit_def and_one_eq)
  have w: "widen_single bits = sign_bit Binary64 (enc_neg Binary32 bits) OR PPC_INFINITY"
    using unpack_PowerPc_special [of Binary32 bits] assms sgn by (simp add: widen_single_def Let_def)
  show "neg64 (widen_single bits) = enc_neg Binary32 bits" "exp64 (widen_single bits) = 2047" "frac64 (widen_single bits) = 0"
    using enc_sign_or [OF _ _ w] by (simp_all add: PPC_INFINITY_def)
qed

section \<open>What a rounded result owes\<close>

definition ppc_format :: "PpcPrecision \<Rightarrow> Format" where
  "ppc_format precision = (case precision of Prec_Double \<Rightarrow> Binary64 | Prec_Single \<Rightarrow> Binary32)"

text \<open>
  The double-format result of rounding \<open>v\<close> with every exception disabled: the rounded value, or
  beyond the range an infinity or the largest number of the precision, and the status bits. A
  zero \<open>v\<close> has the sign \<open>zero_neg\<close>.
\<close>

definition ppc_delivers :: "PpcPrecision \<Rightarrow> Rounding \<Rightarrow> bool \<Rightarrow> real \<Rightarrow> PpcResult \<Rightarrow> bool" where
  "ppc_delivers precision rounding zero_neg v res \<longleftrightarrow>
     (let F = ppc_format precision; negative = (v < 0 \<or> v = 0 \<and> zero_neg); bits = pr_bits res;
          (oe, ofr) = overflow_exp_frac F rounding negative
      in \<exists>r. rounds_to F rounding v r \<and> neg64 bits = negative \<and>
           (if \<not> huge F r then exp64 bits < 2047 \<and> value64 bits = r
            else if ofr = 0 then exp64 bits = 2047 \<and> frac64 bits = 0
            else exp64 bits < 2047 \<and> value64 bits = signed_real negative (mag_of_fields F oe ofr)) \<and>
           pr_status res = PpcStatus_default\<lparr>st_fr := \<bar>v\<bar> < \<bar>r\<bar> \<or> huge F r, st_fi := \<bar>r\<bar> \<noteq> \<bar>v\<bar> \<or> huge F r,
             st_ox := huge F r, st_ux := 0 < \<bar>v\<bar> \<and> \<bar>v\<bar> < 2 powi emin F \<and> \<bar>r\<bar> \<noteq> \<bar>v\<bar>\<rparr>)"

definition exceptions_disabled :: "PpcControl \<Rightarrow> bool" where
  "exceptions_disabled control \<longleftrightarrow> \<not> en_overflow (ct_enables control) \<and> \<not> en_underflow (ct_enables control)"

lemma format_ok_ppc_format [simp]: "format_ok (ppc_format precision)"
  by (simp add: ppc_format_def split: PpcPrecision.split)

lemma ppc_round_disabled:
  assumes "exceptions_disabled control"
  shows "pr_bits (ppc_round precision control x) =
      (case precision of
         Prec_Double \<Rightarrow> pk_bits (tr_packed (round_ieee_traced Binary64 (ct_rounding control) x))
       | Prec_Single \<Rightarrow> widen_single (pk_bits (tr_packed (round_ieee_traced Binary32 (ct_rounding control) x))))"
    and "pr_status (ppc_round precision control x) =
      (let t = round_ieee_traced (ppc_format precision) (ct_rounding control) x; flags = pk_flags (tr_packed t)
       in PpcStatus_default\<lparr>st_fr := tr_incremented t \<or> fl_overflow flags, st_fi := fl_inexact flags,
            st_ox := fl_overflow flags, st_ux := fl_underflow flags\<rparr>)"
  using assms
  by (simp_all add: ppc_round_def exceptions_disabled_def Let_def case_prod_beta round_disabled_in_def ppc_format_def split: PpcPrecision.split)

lemma represents_nonneg: "represents x a \<Longrightarrow> 0 \<le> a"
  by (auto simp: represents_def split: if_splits)

lemma overflow_fields_cases:
  "format_ok F \<Longrightarrow> overflow_exp_frac F rounding negative = (oe, ofr) \<Longrightarrow>
     (ofr = 0 \<and> oe = 2 ^ EXP_BITS F - 1) \<or> (ofr \<noteq> 0 \<and> oe = 2 ^ EXP_BITS F - 2 \<and> ofr = 2 ^ FRAC_BITS F - 1)"
proof -
  assume F: "format_ok F" and o: "overflow_exp_frac F rounding negative = (oe, ofr)"
  have "(2 :: nat) ^ 1 \<le> 2 ^ FRAC_BITS F" using F by (intro power_increasing) (simp_all add: format_ok_def)
  with o show ?thesis by (auto simp: overflow_exp_frac_def split: if_splits)
qed

text \<open>The encoding of the format itself, or widened, has the value and class that rounding asks for.\<close>

definition result_bits :: "PpcPrecision \<Rightarrow> u64 \<Rightarrow> u64" where
  "result_bits precision bits = (case precision of Prec_Double \<Rightarrow> bits | Prec_Single \<Rightarrow> widen_single bits)"

lemma result_bits_finite:
  assumes "enc_exp (ppc_format precision) bits < 2 ^ EXP_BITS (ppc_format precision) - 1"
  shows "neg64 (result_bits precision bits) = enc_neg (ppc_format precision) bits \<and> exp64 (result_bits precision bits) < 2047 \<and>
    value64 (result_bits precision bits) = enc_value (ppc_format precision) bits"
  using assms widen_single_finite [of bits] by (cases precision) (simp_all add: result_bits_def ppc_format_def)

lemma result_bits_infinite:
  assumes "enc_exp (ppc_format precision) bits = 2 ^ EXP_BITS (ppc_format precision) - 1" and "enc_frac (ppc_format precision) bits = 0"
  shows "neg64 (result_bits precision bits) = enc_neg (ppc_format precision) bits \<and> exp64 (result_bits precision bits) = 2047 \<and>
    frac64 (result_bits precision bits) = 0"
  using assms widen_single_infinite [of bits] by (cases precision) (simp_all add: result_bits_def ppc_format_def)

lemma ppc_round_delivers:
  assumes dis: "exceptions_disabled control" and ok: "exact_ok Binary64 x" and rep: "represents x m"
    and v: "v = signed_real (ex_negative x) m"
  shows "ppc_delivers precision (ct_rounding control) (ex_negative x) v (ppc_round precision control x)"
proof -
  define F where "F = ppc_format precision"
  define t where "t = round_ieee_traced F (ct_rounding control) x"
  define bits where "bits = pk_bits (tr_packed t)"
  have F: "format_ok F" "FRAC_BITS F \<le> 52" by (simp_all add: F_def ppc_format_def split: PpcPrecision.split)
  have okF: "exact_ok F x" using ok F(2) by (auto simp: exact_ok_def)
  have m0: "0 \<le> m" using rep by (rule represents_nonneg)
  have abs: "\<bar>v\<bar> = m" and neg: "(v < 0 \<or> v = 0 \<and> ex_negative x) = ex_negative x" using m0 by (auto simp: v signed_real_def)
  obtain r where r: "rounds_to F (ct_rounding control) v r" and n: "enc_neg F bits = ex_negative x"
    and val: "if huge F r then (enc_exp F bits, enc_frac F bits) = overflow_exp_frac F (ct_rounding control) (ex_negative x)
       else enc_finite F bits \<and> enc_value F bits = r"
    and fl: "pk_flags (tr_packed t) = Flags_default\<lparr>fl_overflow := huge F r, fl_underflow := (0 < m \<and> m < 2 powi emin F) \<and> \<bar>r\<bar> \<noteq> m,
         fl_inexact := \<bar>r\<bar> \<noteq> m \<or> huge F r\<rparr>" "tr_incremented t = (m < \<bar>r\<bar>)"
    using round_ieee_sound [OF F(1) okF rep, of "ct_rounding control"]
    unfolding ieee_rounded_def Let_def t_def [symmetric] bits_def [symmetric] v [symmetric] by blast
  obtain oe ofr where o: "overflow_exp_frac F (ct_rounding control) (ex_negative x) = (oe, ofr)" by fastforce
  have b: "pr_bits (ppc_round precision control x) = result_bits precision bits"
    unfolding ppc_round_disabled(1) [OF dis] result_bits_def bits_def t_def F_def ppc_format_def by (simp split: PpcPrecision.split)
  have st: "pr_status (ppc_round precision control x) = PpcStatus_default\<lparr>st_fr := m < \<bar>r\<bar> \<or> huge F r, st_fi := \<bar>r\<bar> \<noteq> m \<or> huge F r,
      st_ox := huge F r, st_ux := 0 < m \<and> m < 2 powi emin F \<and> \<bar>r\<bar> \<noteq> m\<rparr>"
    unfolding ppc_round_disabled(2) [OF dis] Let_def t_def [symmetric] F_def [symmetric] fl by (simp add: Flags_default_def)
  have fin: "neg64 (result_bits precision bits) = ex_negative x \<and> exp64 (result_bits precision bits) < 2047 \<and>
      value64 (result_bits precision bits) = enc_value F bits" if "enc_exp F bits < 2 ^ EXP_BITS F - 1"
    using result_bits_finite [of precision bits] that n by (simp add: F_def)
  have inf: "neg64 (result_bits precision bits) = ex_negative x \<and> exp64 (result_bits precision bits) = 2047 \<and> frac64 (result_bits precision bits) = 0"
    if "enc_exp F bits = 2 ^ EXP_BITS F - 1" "enc_frac F bits = 0"
    using result_bits_infinite [of precision bits] that n by (simp add: F_def)
  have "(2 :: nat) ^ 1 < 2 ^ EXP_BITS F" using F(1) by (intro power_strict_increasing) (simp_all add: format_ok_def)
  then have e2: "(2 :: nat) ^ EXP_BITS F - 2 < 2 ^ EXP_BITS F - 1" by simp
  have "neg64 (result_bits precision bits) = ex_negative x \<and>
      (if \<not> huge F r then exp64 (result_bits precision bits) < 2047 \<and> value64 (result_bits precision bits) = r
       else if ofr = 0 then exp64 (result_bits precision bits) = 2047 \<and> frac64 (result_bits precision bits) = 0
       else exp64 (result_bits precision bits) < 2047 \<and> value64 (result_bits precision bits) = signed_real (ex_negative x) (mag_of_fields F oe ofr))"
    using val o fin inf overflow_fields_cases [OF F(1) o] e2 n by (auto simp: enc_finite_def enc_value_def [of F] split: if_splits)
  then show ?thesis unfolding ppc_delivers_def Let_def F_def [symmetric] neg o prod.case b st abs using r by blast
qed

section \<open>Sums and products\<close>

lemma delivers_nonzero: "v \<noteq> 0 \<Longrightarrow> ppc_delivers precision rounding z v res \<Longrightarrow> ppc_delivers precision rounding z' v res"
  by (simp add: ppc_delivers_def)

lemma signed_sum_delivers:
  assumes dis: "exceptions_disabled control" and ops: "operand x" "operand y"
    and e: "\<bar>ex_exponent x\<bar> \<le> 2 ^ 28" "\<bar>ex_exponent y\<bar> \<le> 2 ^ 28" and r: "represents x a" "represents y b"
  shows "ppc_delivers precision (ct_rounding control)
    (if ex_negative x = ex_negative y then ex_negative x else ct_rounding control = TowardNegative)
    (signed_real (ex_negative x) a + signed_real (ex_negative y) b)
    (ppc_round precision control (signed_zero_sum (ct_rounding control) x y (sum x y)))"
proof -
  define s where "s = sum x y"
  define v where "v = signed_real (ex_negative x) a + signed_real (ex_negative y) b"
  define z where "z = (if ex_negative x = ex_negative y then ex_negative x else ct_rounding control = TowardNegative)"
  have "stands_for s v" unfolding s_def v_def by (rule sum_stands_for [OF ops e r])
  then obtain m where m: "represents s m" "signed_real (ex_negative s) m = v" and ex: "\<bar>ex_exponent s\<bar> \<le> 2 ^ 29"
    and st: "ex_sticky s \<longrightarrow> 124 \<le> significant_bits (ex_significand s)" by (auto simp: stands_for_def)
  have ok: "exact_ok Binary64 s" using ex st by (auto simp: exact_ok_def)
  show ?thesis
  proof (cases "ex_significand s = 0")
    case True
    then have "\<not> ex_sticky s" using st by (auto simp: significant_bits_eq)
    then have v0: "v = 0" using m True by (auto simp: represents_def)
    let ?p = "Exact_from_parts z 0 (ex_exponent s) False"
    have "signed_zero_sum (ct_rounding control) x y s = ?p" using True by (simp add: signed_zero_sum_def z_def)
    moreover have "exact_ok Binary64 ?p" "represents ?p 0" using ex by (simp_all add: exact_ok_def represents_def)
    ultimately show ?thesis
      using ppc_round_delivers [OF dis, of ?p 0 v precision] v0 unfolding s_def [symmetric] v_def [symmetric] z_def [symmetric] by simp
  next
    case False
    then have "0 < m" using m(1) by (auto simp: represents_def unat_0_iff [symmetric] intro!: add_pos_nonneg mult_pos_pos split: if_splits)
    then have "v \<noteq> 0" using m(2) by (auto simp: signed_real_def split: if_splits)
    moreover have "signed_zero_sum (ct_rounding control) x y s = s" using False by (simp add: signed_zero_sum_def)
    ultimately show ?thesis using ppc_round_delivers [OF dis ok m(1) m(2) [symmetric], of precision]
      unfolding s_def [symmetric] v_def [symmetric] z_def [symmetric] by (auto intro: delivers_nonzero)
  qed
qed

lemma finite_operand_operand:
  assumes "exp64 bits < 2047"
  shows "operand (finite_operand bits)" and "\<bar>ex_exponent (finite_operand bits)\<bar> \<le> 2 ^ 28"
  using finite_operand_decoded [OF assms] by (simp_all add: operand_def OPERAND_BITS_def MAX_SIGNIFICAND_BITS_def)

lemma product_operand:
  assumes a: "exp64 a < 2047" and c: "exp64 c < 2047"
  defines "p \<equiv> product (finite_operand a) (finite_operand c)"
  shows "operand p" and "\<bar>ex_exponent p\<bar> \<le> 2 ^ 28" and "ex_negative p = (neg64 a \<noteq> neg64 c)" and "\<not> ex_sticky p"
    and "\<exists>m. represents p m \<and> signed_real (ex_negative p) m = value64 a * value64 c"
proof -
  note fa = finite_operand_decoded [OF a] and fc = finite_operand_decoded [OF c]
  have r: "represents p (mag_of_fields Binary64 (exp64 a) (frac64 a) * mag_of_fields Binary64 (exp64 c) (frac64 c))"
    "ex_exponent p = ex_exponent (finite_operand a) + ex_exponent (finite_operand c)"
    "unat (ex_significand p) = unat (ex_significand (finite_operand a)) * unat (ex_significand (finite_operand c))"
    unfolding p_def using fa fc by (intro product_represents; simp)+
  show n: "ex_negative p = (neg64 a \<noteq> neg64 c)" and st: "\<not> ex_sticky p" using fa(1) fc(1) by (simp_all add: p_def product_def)
  show "\<bar>ex_exponent p\<bar> \<le> 2 ^ 28" using r(2) fa(4) fc(4) by simp
  have "unat (ex_significand (finite_operand a)) < 2 ^ 53" "unat (ex_significand (finite_operand c)) < 2 ^ 53"
    using fa(3) fc(3) by (simp_all add: significant_bits_le_iff)
  then have "unat (ex_significand p) < 2 ^ 53 * 2 ^ 53" unfolding r(3) by (intro mult_strict_mono') simp_all
  then have "unat (ex_significand p) < 2 ^ 125" by simp
  then show "operand p" using st by (simp add: operand_def OPERAND_BITS_def MAX_SIGNIFICAND_BITS_def significant_bits_le_iff)
  show "\<exists>m. represents p m \<and> signed_real (ex_negative p) m = value64 a * value64 c"
    using r(1) by (intro exI conjI, assumption) (auto simp: n enc_value_def signed_real_def)
qed

text \<open>The guards of the operations let finite operands through.\<close>

definition single_in_range :: "PpcPrecision \<Rightarrow> u64 list \<Rightarrow> bool" where
  "single_in_range precision operands \<longleftrightarrow> (precision = Prec_Single \<longrightarrow> \<not> list_ex ppc_single_operand_out_of_range operands)"

lemma out_of_range_iff:
  "ppc_single_operand_out_of_range bits \<longleftrightarrow>
     \<not> (exp64 bits = 0 \<and> frac64 bits = 0) \<and> exp64 bits \<noteq> 2047 \<and> (exp64 bits < 874 \<or> 1150 < exp64 bits)"
proof -
  have "(0x7FF :: u64) = shl 1 11 - 1" by (simp add: shl_def)
  then have "unat (drop_bit 52 bits AND 0x7FF) = unat (drop_bit 52 bits) mod 2 ^ 11"
    using unat_and_mask [where k = 11 and x = "drop_bit 52 bits"] by (simp only: len_of_u64)
  then have "uint (drop_bit 52 bits AND 0x7FF) = int (exp64 bits)" by (simp only: unat_drop_bit_div enc_exp_def B64 uint_nat)
  then show ?thesis
    unfolding ppc_single_operand_out_of_range_def Let_def is_zero_def [symmetric] is_zero_iff by auto
qed

lemma finite_not_special:
  "exp64 bits < 2047 \<Longrightarrow> \<not> ppc_is_nan bits" "exp64 bits < 2047 \<Longrightarrow> \<not> ppc_is_snan bits" "exp64 bits < 2047 \<Longrightarrow> \<not> is_infinity bits"
  by (simp_all add: ppc_is_nan_iff ppc_is_snan_def is_infinity_iff)

lemmas ppc_guards =
  PpcInvalid_signaling_def PpcInvalid_or_def PpcInvalid_any_def PpcInvalid_default_def ppc_nan_result_def
  ppc_invalid_sum_def ppc_invalid_product_def ppc_invalid_quotient_def ppc_invalid_sqrt_def finite_not_special

lemma arith_finite:
  assumes "exp64 (fst raw) < 2047" "exp64 (snd raw) < 2047" "exp64 x < 2047" "exp64 y < 2047" "single_in_range precision [x, y]"
  shows "arith precision control combine raw (x, y) = ppc_round precision control
    (case combine of
       Comb_Sum \<Rightarrow> signed_zero_sum (ct_rounding control) (finite_operand x) (finite_operand y) (sum (finite_operand x) (finite_operand y))
     | Comb_Product \<Rightarrow> product (finite_operand x) (finite_operand y))"
  using assms by (cases combine) (auto simp: arith_def Let_def ppc_guards infinite_result_def single_in_range_def)

lemma sum_of_finite_delivers:
  assumes "exceptions_disabled control" and "exp64 x < 2047" and "exp64 y < 2047"
  shows "ppc_delivers precision (ct_rounding control) (if neg64 x = neg64 y then neg64 x else ct_rounding control = TowardNegative)
    (value64 x + value64 y)
    (ppc_round precision control
      (signed_zero_sum (ct_rounding control) (finite_operand x) (finite_operand y) (sum (finite_operand x) (finite_operand y))))"
  using signed_sum_delivers [OF assms(1) finite_operand_operand(1) [OF assms(2)] finite_operand_operand(1) [OF assms(3)]
      finite_operand_operand(2) [OF assms(2)] finite_operand_operand(2) [OF assms(3)]
      finite_operand_decoded(5) [OF assms(2)] finite_operand_decoded(5) [OF assms(3)], of precision]
  unfolding value64_finite [OF assms(2)] value64_finite [OF assms(3)] unfolding finite_operand_decoded(1) [OF assms(2)] finite_operand_decoded(1) [OF assms(3)] .

text \<open>
  C29: The scalar add, subtract and multiply are correctly rounded. On finite double-format
  operands, and with the overflow and underflow exceptions disabled, each delivers the real
  sum, difference or product rounded once to its precision, with the architecture's sign for
  a zero and exactly the FR, FI, OX and UX bits; a single-precision form needs its operands
  in the single exponent range.
\<close>
theorem ppc_add_sub_mul_correct:
  assumes "exceptions_disabled control" and "exp64 a < 2047" and "exp64 b < 2047" and "single_in_range precision [a, b]"
  shows "ppc_delivers precision (ct_rounding control) (if neg64 a = neg64 b then neg64 a else ct_rounding control = TowardNegative)
      (value64 a + value64 b) (ppc_add precision control a b) \<and>
    ppc_delivers precision (ct_rounding control) (if neg64 a \<noteq> neg64 b then neg64 a else ct_rounding control = TowardNegative)
      (value64 a - value64 b) (ppc_sub precision control a b) \<and>
    ppc_delivers precision (ct_rounding control) (neg64 a \<noteq> neg64 b) (value64 a * value64 b) (ppc_mul precision control a b)"
proof (intro conjI)
  show "ppc_delivers precision (ct_rounding control) (if neg64 a = neg64 b then neg64 a else ct_rounding control = TowardNegative)
      (value64 a + value64 b) (ppc_add precision control a b)"
    using assms sum_of_finite_delivers by (simp add: ppc_add_def arith_finite)
  have x: "exp64 (b XOR PPC_SIGN) < 2047" "value64 (b XOR PPC_SIGN) = - value64 b"
    using assms(3) by (simp_all add: xor_sign enc_value_def signed_real_def)
  have sr: "single_in_range precision [a, b XOR PPC_SIGN]"
    using assms(4) by (simp add: single_in_range_def out_of_range_iff xor_sign)
  show "ppc_delivers precision (ct_rounding control) (if neg64 a \<noteq> neg64 b then neg64 a else ct_rounding control = TowardNegative)
      (value64 a - value64 b) (ppc_sub precision control a b)"
    using sum_of_finite_delivers [OF assms(1,2) x(1), of precision] assms(2,3) x sr
    by (simp add: ppc_sub_def arith_finite xor_sign(1))
  obtain m where m: "represents (product (finite_operand a) (finite_operand b)) m"
      "value64 a * value64 b = signed_real (ex_negative (product (finite_operand a) (finite_operand b))) m"
    using product_operand(5) [OF assms(2,3)] by metis
  have "exact_ok Binary64 (product (finite_operand a) (finite_operand b))"
    using product_operand(2,4) [OF assms(2,3)] by (simp add: exact_ok_def)
  then show "ppc_delivers precision (ct_rounding control) (neg64 a \<noteq> neg64 b) (value64 a * value64 b) (ppc_mul precision control a b)"
    using ppc_round_delivers [OF assms(1) _ m, of precision] assms product_operand(3) [OF assms(2,3)]
    by (simp add: ppc_mul_def arith_finite)
qed

lemma PpcControl_from_simps [simp]: "exceptions_disabled (PpcControl_from rounding)" "ct_rounding (PpcControl_from rounding) = rounding"
  by (simp_all add: exceptions_disabled_def PpcControl_from_def PpcEnables_default_def)

lemma neg64_sample [simp]: "\<not> neg64 0x3FF8000000000000" "\<not> neg64 0x4008000000000000" "neg64 0xC00C000000000000"
  by (simp_all add: enc_neg_def)

lemma exp64_sample [simp]: "exp64 0x3FF8000000000000 = 1023" "exp64 0x4008000000000000 = 1024" "exp64 0xC00C000000000000 = 1024"
  by (simp_all add: enc_exp_def)

lemma in_range_sample [simp]:
  "\<not> ppc_single_operand_out_of_range 0x3FF8000000000000" "\<not> ppc_single_operand_out_of_range 0x4008000000000000"
  "\<not> ppc_single_operand_out_of_range 0xC00C000000000000"
  by (simp_all add: out_of_range_iff)

theorem ppc_add_sub_mul_correct_witness:
  "ppc_delivers Prec_Single TowardZero False (value64 0x3FF8000000000000 + value64 0x4008000000000000)
     (ppc_add Prec_Single (PpcControl_from TowardZero) 0x3FF8000000000000 0x4008000000000000)"
  using ppc_add_sub_mul_correct [of "PpcControl_from TowardZero" "0x3FF8000000000000" "0x4008000000000000" Prec_Single]
  by (simp add: single_in_range_def)

section \<open>Multiply-add\<close>

lemma multiply_add_finite:
  assumes "exp64 a < 2047" "exp64 b < 2047" "exp64 c < 2047" "single_in_range precision [a, b, c]"
  shows "multiply_add precision control (a, b, c) subtract = ppc_round precision control
    (let p = product (finite_operand a) (finite_operand c); e = finite_operand (if subtract then b XOR PPC_SIGN else b)
     in signed_zero_sum (ct_rounding control) p e (sum p e))"
proof -
  define addend where "addend = (if subtract then b XOR PPC_SIGN else b)"
  have ad: "exp64 addend < 2047" using assms(2) by (simp add: addend_def xor_sign)
  have ip: "infinite_product a c = None" using assms by (simp add: infinite_product_def Let_def finite_not_special)
  have "addend AND NOT PPC_SIGN \<noteq> PPC_INFINITY" using finite_not_special(3) [OF ad] by (simp add: is_infinity_def)
  then show ?thesis unfolding multiply_add_def Let_def prod.case addend_def [symmetric] ip
    using assms ad by (auto simp: ppc_guards single_in_range_def)
qed

lemma fused_sum_delivers:
  assumes "exceptions_disabled control" and "exp64 a < 2047" and y: "exp64 y < 2047" and "exp64 c < 2047"
  shows "ppc_delivers precision (ct_rounding control)
      (if (neg64 a \<noteq> neg64 c) = neg64 y then neg64 y else ct_rounding control = TowardNegative) (value64 a * value64 c + value64 y)
      (let p = product (finite_operand a) (finite_operand c); e = finite_operand y
       in ppc_round precision control (signed_zero_sum (ct_rounding control) p e (sum p e)))"
proof -
  let ?p = "product (finite_operand a) (finite_operand c)"
  note p = product_operand [OF assms(2,4)]
  obtain m where m: "represents ?p m" "signed_real (ex_negative ?p) m = value64 a * value64 c" using p(5) by blast
  show ?thesis
    using signed_sum_delivers [OF assms(1) p(1) finite_operand_operand(1) [OF y] p(2) finite_operand_operand(2) [OF y] m(1)
        finite_operand_decoded(5) [OF y], of precision]
    unfolding m(2) value64_finite [OF y, symmetric] unfolding p(3) finite_operand_decoded(1) [OF y] by (auto simp: Let_def split: if_splits)
qed

text \<open>
  C6: The fused multiply-add rounds once. On finite double-format operands, with the overflow
  and underflow exceptions disabled, fmadd and fmsub deliver the real product plus or minus
  the addend, rounded a single time to the precision, however far apart or however close to
  cancelling the two terms are.
\<close>
theorem ppc_fused_multiply_add_correct:
  assumes "exceptions_disabled control" and "exp64 a < 2047" and "exp64 b < 2047" and "exp64 c < 2047"
    and "single_in_range precision [a, b, c]"
  shows "ppc_delivers precision (ct_rounding control)
      (if (neg64 a \<noteq> neg64 c) = neg64 b then neg64 b else ct_rounding control = TowardNegative)
      (value64 a * value64 c + value64 b) (ppc_madd precision control a b c) \<and>
    ppc_delivers precision (ct_rounding control)
      (if (neg64 a \<noteq> neg64 c) = (\<not> neg64 b) then \<not> neg64 b else ct_rounding control = TowardNegative)
      (value64 a * value64 c - value64 b) (ppc_msub precision control a b c)"
proof -
  note * = fused_sum_delivers [OF assms(1,2) _ assms(4)]
  have x: "exp64 (b XOR PPC_SIGN) < 2047" "value64 (b XOR PPC_SIGN) = - value64 b"
    using assms(3) by (simp_all add: xor_sign enc_value_def signed_real_def)
  show ?thesis
    using * [OF assms(3)] * [OF x(1)]
    unfolding ppc_madd_def ppc_msub_def multiply_add_finite [OF assms(2-5)] Let_def xor_sign(1) x(2) if_True if_False by simp
qed

theorem ppc_fused_multiply_add_correct_witness:
  "ppc_delivers Prec_Double NearestEven False
     (value64 0x3FF8000000000000 * value64 0x4008000000000000 + value64 0xC00C000000000000)
     (ppc_madd Prec_Double (PpcControl_from NearestEven) 0x3FF8000000000000 0xC00C000000000000 0x4008000000000000)"
  using ppc_fused_multiply_add_correct
    [of "PpcControl_from NearestEven" "0x3FF8000000000000" "0xC00C000000000000" "0x4008000000000000" Prec_Double]
  by (simp add: single_in_range_def)

section \<open>Quotients and square roots\<close>

lemma finite_nonzero:
  assumes "exp64 b < 2047" and "value64 b \<noteq> 0"
  shows "\<not> is_zero b" and "ex_significand (finite_operand b) \<noteq> 0"
proof -
  show z: "\<not> is_zero b" using assms(2) unfolding is_zero_iff by (cases "exp64 b = 0"; cases "frac64 b = 0") (simp_all add: enc_value_def mag_of_fields_def)
  then show "ex_significand (finite_operand b) \<noteq> 0" using finite_operand_decoded(6) [OF assms(1)] by (simp add: is_zero_iff)
qed

text \<open>
  C7: Division and square root are correctly rounded from an inexact quotient and root. On
  finite operands with a nonzero dividend and divisor, and on a positive radicand, the
  truncated integer quotient and root with their sticky bit round to the same result as the
  infinitely precise real ones, in every mode and both precisions.
\<close>
theorem ppc_div_sqrt_correct:
  assumes "exceptions_disabled control" and "exp64 a < 2047" and "exp64 b < 2047" and "value64 a \<noteq> 0" and "value64 b \<noteq> 0"
  shows "ppc_delivers precision (ct_rounding control) (neg64 a \<noteq> neg64 b) (value64 a / value64 b) (ppc_div precision control a b) \<and>
    (0 < value64 b \<longrightarrow> ppc_delivers precision (ct_rounding control) False (sqrt (value64 b)) (ppc_sqrt precision control b))"
proof (intro conjI impI)
  note fa = finite_operand_decoded [OF assms(2)] and fb = finite_operand_decoded [OF assms(3)]
  note za = finite_nonzero [OF assms(2,4)] and zb = finite_nonzero [OF assms(3,5)]
  let ?q = "quotient (finite_operand a) (finite_operand b)"
  have e: "\<bar>ex_exponent (finite_operand a)\<bar> \<le> 2 ^ 28 - 200" "\<bar>ex_exponent (finite_operand b)\<bar> \<le> 2 ^ 28 - 200"
    "significant_bits (ex_significand (finite_operand a)) \<le> 115" using fa(3,4) fb(4) by simp_all
  note q = quotient_represents [OF fa(2) fb(2) fa(5) fb(5) za(2) zb(2) e(3) fb(3) e(1,2)]
  have ok: "exact_ok Binary64 ?q" using q(2,3) by (simp add: exact_ok_def)
  have n: "ex_negative ?q = (neg64 a \<noteq> neg64 b)" using fa(1) fb(1) by (simp add: quotient_def Let_def)
  have "value64 a / value64 b = signed_real (ex_negative ?q) (mag_of_fields Binary64 (exp64 a) (frac64 a) / mag_of_fields Binary64 (exp64 b) (frac64 b))"
    unfolding n by (auto simp: enc_value_def signed_real_def)
  moreover have "ppc_div precision control a b = ppc_round precision control ?q"
    using assms za(1) zb(1) by (simp add: ppc_div_def Let_def ppc_guards)
  ultimately show "ppc_delivers precision (ct_rounding control) (neg64 a \<noteq> neg64 b) (value64 a / value64 b) (ppc_div precision control a b)"
    using ppc_round_delivers [OF assms(1) ok q(1)] unfolding n [symmetric] by metis
  assume pos: "0 < value64 b"
  have m0: "0 \<le> mag_of_fields Binary64 (exp64 b) (frac64 b)" by (simp add: mag_of_fields_def)
  have nb: "\<not> neg64 b" using pos m0 by (auto simp: enc_value_def signed_real_def)
  let ?r = "square_root (finite_operand b)"
  have eb: "\<bar>ex_exponent (finite_operand b)\<bar> \<le> 2 ^ 28" using fb(4) by simp
  note r = square_root_represents [OF fb(2) fb(5) zb(2) fb(3) eb]
  have okr: "exact_ok Binary64 ?r" using r(2,3) by (simp add: exact_ok_def)
  have nz: "b AND NOT PPC_SIGN \<noteq> 0" "b \<noteq> PPC_INFINITY"
    using zb(1) finite_not_special(3) [OF assms(3)] by (auto simp: is_zero_def is_infinity_def PPC_INFINITY_def PPC_SIGN_def)
  have "ppc_sqrt precision control b = ppc_round precision control ?r"
    using assms nz nb sign_set [of b] by (simp add: ppc_sqrt_def Let_def ppc_guards)
  then show "ppc_delivers precision (ct_rounding control) False (sqrt (value64 b)) (ppc_sqrt precision control b)"
    using ppc_round_delivers [OF assms(1) okr r(1) refl, of precision] r(4) nb by (simp add: signed_real_def enc_value_def)
qed

theorem ppc_div_sqrt_correct_witness:
  "ppc_delivers Prec_Double NearestEven False (value64 0x3FF8000000000000 / value64 0x4008000000000000)
     (ppc_div Prec_Double (PpcControl_from NearestEven) 0x3FF8000000000000 0x4008000000000000)"
proof -
  have "value64 0x3FF8000000000000 \<noteq> 0" "value64 0x4008000000000000 \<noteq> 0"
    by (simp_all add: enc_value_def mag_of_fields_def signed_real_def add_nonneg_eq_0_iff)
  then show ?thesis
    using ppc_div_sqrt_correct [of "PpcControl_from NearestEven" "0x3FF8000000000000" "0x4008000000000000" Prec_Double] by simp
qed

end
