(* ===== verification/Float_Convert_Proofs.thy ===== *)
theory Float_Convert_Proofs
  imports Float_Ppc_Proofs
begin

text \<open>
  The conversions of \<^verbatim>\<open>ppc_convert.rs\<close> between double-format values and integers, and the results
  of operations on NaNs, infinities and zeros.
\<close>

section \<open>Rounding to an integer\<close>

definition int_rounded :: "Rounding \<Rightarrow> real \<Rightarrow> int \<Rightarrow> bool" where
  "int_rounded rounding v k =
     (case rounding of
        NearestEven \<Rightarrow> \<bar>v - of_int k\<bar> \<le> 1 / 2 \<and> (\<bar>v - of_int k\<bar> = 1 / 2 \<longrightarrow> even k)
      | TowardZero \<Rightarrow> k = (if 0 \<le> v then \<lfloor>v\<rfloor> else \<lceil>v\<rceil>)
      | TowardPositive \<Rightarrow> k = \<lceil>v\<rceil>
      | TowardNegative \<Rightarrow> k = \<lfloor>v\<rfloor>)"

lemma int_rounded_cut:
  assumes m: "real K \<le> m" "m < real K + 1"
    and up: "up = round_increment rounding negative (m = real K + 1 / 2) (real K + 1 / 2 < m) (m \<noteq> real K) (odd K)"
    and k: "k = int (K + (if up then 1 else 0))"
  shows "int_rounded rounding (signed_real negative m) (if negative then - k else k)"
proof -
  have fl: "\<lfloor>m\<rfloor> = int K" using m by (intro floor_unique) simp_all
  have ce: "\<lceil>m\<rceil> = (if m = real K then int K else int K + 1)" using m by (auto intro: ceiling_unique)
  have nfl: "\<lfloor>- m\<rfloor> = - (if m = real K then int K else int K + 1)" "\<lceil>- m\<rceil> = - int K" using ce fl by (simp_all add: floor_minus ceiling_minus)
  have z: "m = 0 \<Longrightarrow> K = 0" "0 \<le> m" using m by auto
  show ?thesis
  proof (cases rounding)
    case NearestEven
    then show ?thesis using m up k unfolding int_rounded_def round_increment_def signed_real_def
      by (cases negative) (auto split: if_splits simp: abs_if)
  next
    case TowardZero
    then show ?thesis using up k fl nfl z unfolding int_rounded_def round_increment_def signed_real_def
      by (cases negative) (auto simp: not_le)
  next
    case TowardPositive
    then show ?thesis using up k ce nfl unfolding int_rounded_def round_increment_def signed_real_def by (cases negative) auto
  next
    case TowardNegative
    then show ?thesis using up k fl nfl unfolding int_rounded_def round_increment_def signed_real_def by (cases negative) auto
  qed
qed

lemma round_to_integer_eq:
  assumes S: "unat (ex_significand x) < 2 ^ 53" and e: "ex_exponent x < 0" "\<bar>ex_exponent x\<bar> < 1200"
    and d: "d = nat (- ex_exponent x)" and SS: "s = unat (ex_significand x)"
    and half: "half = odd (s div 2 ^ (d - 1))" and rest: "rest = (s mod 2 ^ (d - 1) \<noteq> 0)"
    and up: "up = round_increment rounding (ex_negative x) (half \<and> \<not> rest) (half \<and> rest) (half \<or> rest) (odd (s div 2 ^ d))"
  shows "unat (fst (round_to_integer rounding x)) = s div 2 ^ d + (if up then 1 else 0)"
    and "snd (round_to_integer rounding x) = (half \<or> rest, up)"
proof -
  have d0: "0 < d" "nat \<bar>ex_exponent x\<bar> = d" using e d by simp_all
  define whole :: u128 where "whole = (if d > 120 then 0 else shr (ex_significand x) d)"
  define h where "h = (if d > 120 then False else shr (ex_significand x) (d - 1) AND 1 = 1)"
  define r where "r = (if d > 120 then ex_significand x \<noteq> 0 else ex_significand x AND (shl 1 (d - 1) - 1) \<noteq> 0)"
  have small: "s < 2 ^ (d - 1)" "s < 2 ^ d" if "120 < d"
  proof -
    have "(2 :: nat) ^ 53 \<le> 2 ^ (d - 1)" "(2 :: nat) ^ 53 \<le> 2 ^ d" using that by (intro power_increasing; simp)+
    then show "s < 2 ^ (d - 1)" "s < 2 ^ d" using S SS by linarith+
  qed
  have w: "unat whole = s div 2 ^ d" using small by (cases "120 < d") (simp_all add: whole_def unat_shr SS)
  have hh: "h = half" using small by (cases "120 < d") (simp_all add: h_def half and_1_odd unat_shr SS)
  have rr: "r = rest"
  proof (cases "120 < d")
    case True
    then show ?thesis using small by (simp add: r_def rest SS unat_0_iff)
  next
    case False
    then have "unat (ex_significand x AND (shl 1 (d - 1) - 1)) = s mod 2 ^ (d - 1)" by (subst unat_and_mask) (simp_all add: SS)
    with False show ?thesis by (simp add: r_def rest flip: unat_0_iff)
  qed
  have tr: "(if d > 120 then (0, False, ex_significand x \<noteq> 0)
       else (shr (ex_significand x) d, shr (ex_significand x) (d - 1) AND 1 = 1, ex_significand x AND (shl 1 (d - 1) - 1) \<noteq> 0))
      = (whole, half, rest)" using hh rr by (simp add: whole_def h_def r_def split: if_splits)
  have u: "(case rounding of NearestEven \<Rightarrow> half \<and> (rest \<or> whole AND 1 = 1) | TowardZero \<Rightarrow> False
      | TowardPositive \<Rightarrow> (half \<or> rest) \<and> \<not> ex_negative x | TowardNegative \<Rightarrow> (half \<or> rest) \<and> ex_negative x) = up"
    unfolding up round_increment_def and_1_odd w by (cases rounding) auto
  have eq: "round_to_integer rounding x = (whole + (if up then 1 else 0), half \<or> rest, up)"
    unfolding round_to_integer_def Let_def d0(2) tr prod.case u using e(1) by simp
  have "s div 2 ^ d < 2 ^ 53" using S unfolding SS by (rule order_le_less_trans [OF div_le_dividend])
  then have "s div 2 ^ d + 1 < 2 ^ 128" by simp
  then show "unat (fst (round_to_integer rounding x)) = s div 2 ^ d + (if up then 1 else 0)"
    unfolding eq using w by (auto simp: unat_plus_no_wrap)
  show "snd (round_to_integer rounding x) = (half \<or> rest, up)" unfolding eq by simp
qed

lemma round_to_integer_exact:
  assumes S: "unat (ex_significand x) < 2 ^ 53" "ex_significand x \<noteq> 0" and e: "\<bar>ex_exponent x\<bar> < 1200"
    and st: "\<not> ex_sticky x" and rep: "represents x m"
  shows "\<exists>k. int_rounded rounding (signed_real (ex_negative x) m) (if ex_negative x then - int k else int k) \<and>
    snd (round_to_integer rounding x) = (m \<noteq> real k, m < real k) \<and>
    (if 70 < ex_exponent x then 2 ^ 71 \<le> k \<and> fst (round_to_integer rounding x) = - 1
     else k < 2 ^ 124 \<and> unat (fst (round_to_integer rounding x)) = k)"
proof (cases "0 \<le> ex_exponent x")
  case True
  define k where "k = unat (ex_significand x) * 2 ^ nat (ex_exponent x)"
  have m: "m = real k" using rep st True by (simp add: represents_exact k_def power_int_nonneg_exp)
  have ir: "int_rounded rounding (signed_real (ex_negative x) m) (if ex_negative x then - int k else int k)"
    using int_rounded_cut [of k m False rounding "ex_negative x" "int k"] by (simp add: m round_increment_def split: Rounding.split)
  have sn: "snd (round_to_integer rounding x) = (m \<noteq> real k, m < real k)" using True by (simp add: round_to_integer_def Let_def m)
  have "if 70 < ex_exponent x then 2 ^ 71 \<le> k \<and> fst (round_to_integer rounding x) = - 1
     else k < 2 ^ 124 \<and> unat (fst (round_to_integer rounding x)) = k"
  proof (cases "70 < ex_exponent x")
    case big: True
    have "(2 :: nat) ^ 71 \<le> 1 * 2 ^ nat (ex_exponent x)" using big by (simp only: mult_1) (rule power_increasing, simp_all)
    also have "\<dots> \<le> k" unfolding k_def using S(2) by (intro mult_le_mono1) (simp add: Suc_le_eq unat_gt_0)
    finally show ?thesis using big by (simp add: round_to_integer_def Let_def)
  next
    case small: False
    have "k < 2 ^ 53 * 2 ^ nat (ex_exponent x)" unfolding k_def using S(1) by simp
    also have "\<dots> \<le> 2 ^ 53 * 2 ^ 70" using small by (intro mult_le_mono2 power_increasing) simp_all
    finally have k: "k < 2 ^ 124" by simp
    then have "unat (shl (ex_significand x) (nat (ex_exponent x))) = k" using small True by (subst unat_shl) (simp_all add: k_def)
    with k small True show ?thesis by (simp add: round_to_integer_def Let_def)
  qed
  with ir sn show ?thesis by blast
next
  case False
  define s where "s = unat (ex_significand x)"
  define d where "d = nat (- ex_exponent x)"
  define half where "half = odd (s div 2 ^ (d - 1))"
  define rest where "rest = (s mod 2 ^ (d - 1) \<noteq> 0)"
  define up where "up = round_increment rounding (ex_negative x) (half \<and> \<not> rest) (half \<and> rest) (half \<or> rest) (odd (s div 2 ^ d))"
  define K where "K = s div 2 ^ d"
  define k where "k = K + (if up then 1 else 0)"
  have d: "0 < d" using False by (simp add: d_def)
  have neg: "ex_exponent x < 0" using False by simp
  note r = round_to_integer_eq [OF S(1) neg e d_def s_def half_def rest_def up_def]
  have "ex_exponent x = - int d" using False by (simp add: d_def)
  then have m: "m = real s / 2 ^ d" using rep st by (simp add: represents_exact s_def power_int_minus divide_inverse)
  note c = cut_remainder [OF d, of 0 s, simplified, folded K_def]
  have cm: "real K \<le> m" "m < real K + 1" using c(1,2) by (simp_all add: m field_simps)
  have hr: "(half \<and> \<not> rest) = (m = real K + 1 / 2)" "(half \<and> rest) = (real K + 1 / 2 < m)"
    using c(4,5) by (simp_all add: half_def rest_def m field_simps)
  have ix: "(half \<or> rest) = (m \<noteq> real K)"
  proof -
    have "(2 :: nat) ^ d = 2 ^ (d - 1) * 2" using d by (cases d) simp_all
    then have "s mod 2 ^ d = 2 ^ (d - 1) * (s div 2 ^ (d - 1) mod 2) + s mod 2 ^ (d - 1)" by (simp add: mod_mult2_eq)
    then have "(half \<or> rest) = (s mod 2 ^ d \<noteq> 0)" by (auto simp: half_def rest_def odd_iff_mod_2_eq_one)
    then show ?thesis using c(3) by (simp add: m field_simps)
  qed
  have upe: "up = round_increment rounding (ex_negative x) (m = real K + 1 / 2) (real K + 1 / 2 < m) (m \<noteq> real K) (odd K)"
    unfolding up_def hr ix K_def ..
  have ir: "int_rounded rounding (signed_real (ex_negative x) m) (if ex_negative x then - int k else int k)"
    using int_rounded_cut [OF cm upe, of "int k"] by (simp add: k_def)
  have "up \<Longrightarrow> m \<noteq> real K" unfolding upe round_increment_def by (cases rounding) auto
  then have sn: "snd (round_to_integer rounding x) = (m \<noteq> real k, m < real k)"
    using r(2) cm by (auto simp: ix k_def)
  have "K < 2 ^ 53" using S(1) unfolding K_def s_def by (rule order_le_less_trans [OF div_le_dividend])
  then show ?thesis using ir sn r(1) neg by (intro exI [of _ k]) (auto simp: k_def K_def)
qed

definition int_range :: "PpcInteger \<Rightarrow> int set" where
  "int_range width = (case width of Int_Word \<Rightarrow> {- (2 ^ 31) .. 2 ^ 31 - 1} | Int_Doubleword \<Rightarrow> {- (2 ^ 63) .. 2 ^ 63 - 1})"

lemma ucast_of_int_down: "(ucast (of_int k :: u128) :: u64) = of_int k"
  by (rule bit_word_eqI) (simp add: bit_unsigned_iff bit_word_of_int_iff)

text \<open>
  C30: The conversion of a double to an integer rounds in the requested mode and never wraps:
  on every finite operand it delivers the two's complement of the correctly rounded integer
  with FR and FI set when rounding raised the magnitude and when it was inexact, or, when that
  integer is outside the target's range, the saturated bound with VXCVI and no other bit.
\<close>
theorem ppc_convert_to_integer_exact:
  assumes "exp64 b < 2047"
  shows "\<exists>k. int_rounded rounding (value64 b) k \<and>
    ppc_convert_to_integer width rounding b =
      (if k \<in> int_range width
       then \<lparr>pr_bits = of_int k, pr_status = PpcStatus_default\<lparr>st_fr := \<bar>value64 b\<bar> < \<bar>of_int k\<bar>, st_fi := value64 b \<noteq> of_int k\<rparr>\<rparr>
       else \<lparr>pr_bits = PpcInteger_saturated width (value64 b < 0),
             pr_status = PpcStatus_default\<lparr>st_invalid := PpcInvalid_default\<lparr>vx_convert := True\<rparr>\<rparr>\<rparr>)"
proof (cases "exp64 b = 0 \<and> frac64 b = 0")
  case True
  then have v: "value64 b = 0" by (simp add: enc_value_def mag_of_fields_def)
  have "int_rounded rounding (value64 b) 0" by (cases rounding) (simp_all add: v int_rounded_def)
  moreover have "0 \<in> int_range width" by (cases width) (simp_all add: int_range_def)
  ultimately show ?thesis using True unpack_PowerPc_zero [of Binary64 b]
    by (intro exI [of _ 0]) (simp add: ppc_convert_to_integer_def Let_def v PpcStatus_default_def)
next
  case False
  obtain x where x: "unpack Binary64 PowerPc b = (Op_Finite x, Flags_default)" "decoded Binary64 b x" "ex_significand x \<noteq> 0"
    using unpack_PowerPc_finite [of Binary64 b] assms False by auto
  have fx: "finite_operand b = x" using x(1) by (simp add: finite_operand_def)
  note f = finite_operand_decoded [OF assms, unfolded fx]
  have S: "unat (ex_significand x) < 2 ^ 53" using f(3) by (simp add: significant_bits_le_iff)
  define m where "m = mag_of_fields Binary64 (exp64 b) (frac64 b)"
  obtain n where n: "int_rounded rounding (signed_real (ex_negative x) m) (if ex_negative x then - int n else int n)"
    and sn: "snd (round_to_integer rounding x) = (m \<noteq> real n, m < real n)"
    and fs: "if 70 < ex_exponent x then 2 ^ 71 \<le> n \<and> fst (round_to_integer rounding x) = - 1
       else n < 2 ^ 124 \<and> unat (fst (round_to_integer rounding x)) = n"
    using round_to_integer_exact [OF S x(3) f(4,2) f(5) [folded m_def], of rounding] by blast
  define k where "k = (if neg64 b then - int n else int n)"
  define mg where "mg = fst (round_to_integer rounding x)"
  have rt: "round_to_integer rounding x = (mg, m \<noteq> real n, m < real n)" using sn by (simp add: mg_def prod_eq_iff)
  have v: "value64 b = signed_real (neg64 b) m" by (simp add: enc_value_def m_def)
  have m0: "0 < m" using f(5) x(3) f(2) unfolding m_def [symmetric] by (simp add: represents_exact unat_gt_0)
  have vn: "(value64 b < 0) = neg64 b" using m0 by (simp add: v signed_real_def)
  have dn: "(drop_bit 63 b = 1) = neg64 b"
  proof -
    have "unat (drop_bit 63 b) = (if neg64 b then 1 else 0)"
      using fields64 [of b] fields64_lt(3) [of b] by (simp only: unat_drop_bit_div) auto
    then show ?thesis by (metis unat_1 unat_eqI zero_neq_one)
  qed
  define lim where "lim = (if neg64 b then snd (PpcInteger_limits width) else fst (PpcInteger_limits width))"
  have lim: "unat lim \<le> 2 ^ 63" "k \<in> int_range width \<longleftrightarrow> n \<le> unat lim"
    by (cases width; cases "neg64 b"; simp add: lim_def PpcInteger_limits_def int_range_def k_def)+
  have inr: "\<not> lim < mg \<longleftrightarrow> k \<in> int_range width"
  proof (cases "70 < ex_exponent x")
    case True
    then have "unat mg = 2 ^ 128 - 1" "2 ^ 71 \<le> n" using fs by (simp_all add: mg_def unsigned_minus_1_eq_mask mask_eq_exp_minus_1)
    then show ?thesis using lim by (simp add: word_less_nat_alt)
  next
    case False
    then show ?thesis using fs lim(2) by (simp add: word_less_nat_alt mg_def not_less)
  qed
  have bits: "(ucast (if neg64 b then - mg else mg) :: u64) = of_int k" if "k \<in> int_range width"
  proof -
    have "unat mg = n" using fs inr that lim by (auto simp: mg_def unsigned_minus_1_eq_mask mask_eq_exp_minus_1 split: if_splits)
    moreover have "unat (of_nat n :: u128) = n" using that lim by (intro unat_of_nat_no_wrap) simp
    ultimately have "mg = of_nat n" by (intro unat_eqI) simp
    then have "mg = of_int (int n)" by simp
    then have "(if neg64 b then - mg else mg) = of_int k" by (simp add: k_def)
    then show ?thesis by (simp only: ucast_of_int_down)
  qed
  have fl: "(\<bar>value64 b\<bar> < \<bar>real_of_int k\<bar>) = (m < real n)" "(value64 b \<noteq> real_of_int k) = (m \<noteq> real n)"
    using m0 by (auto simp: v signed_real_def k_def)
  have "ppc_convert_to_integer width rounding b =
      (if lim < mg then \<lparr>pr_bits = PpcInteger_saturated width (neg64 b),
             pr_status = PpcStatus_default\<lparr>st_invalid := PpcInvalid_default\<lparr>vx_convert := True\<rparr>\<rparr>\<rparr>
       else \<lparr>pr_bits = ucast (if neg64 b then - mg else mg), pr_status = PpcStatus_default\<lparr>st_fr := m < real n, st_fi := m \<noteq> real n\<rparr>\<rparr>)"
    using x(1) by (simp add: ppc_convert_to_integer_def Let_def dn rt lim_def case_prod_beta PpcInvalid_default_def)
  moreover have "int_rounded rounding (value64 b) k" using n f(1) by (simp add: v k_def)
  ultimately show ?thesis using inr bits by (intro exI [of _ k], cases "lim < mg") (simp_all add: vn fl)
qed

theorem ppc_convert_to_integer_exact_witness:
  "\<exists>k. int_rounded TowardZero (value64 0xC00C000000000000) k \<and>
    ppc_convert_to_integer Int_Word TowardZero 0xC00C000000000000 =
      (if k \<in> int_range Int_Word
       then \<lparr>pr_bits = of_int k, pr_status = PpcStatus_default\<lparr>st_fr := \<bar>value64 0xC00C000000000000\<bar> < \<bar>of_int k\<bar>,
               st_fi := value64 0xC00C000000000000 \<noteq> of_int k\<rparr>\<rparr>
       else \<lparr>pr_bits = PpcInteger_saturated Int_Word (value64 0xC00C000000000000 < 0),
             pr_status = PpcStatus_default\<lparr>st_invalid := PpcInvalid_default\<lparr>vx_convert := True\<rparr>\<rparr>\<rparr>)"
  by (rule ppc_convert_to_integer_exact) simp

section \<open>Where a NaN comes from\<close>

lemma quieted_is_nan: "ppc_is_nan b \<Longrightarrow> ppc_is_nan (b OR PPC_QUIET)"
proof -
  assume "ppc_is_nan b"
  have "bit (PPC_QUIET AND PPC_FRACTION) 51"
    by (simp add: PPC_QUIET_def PPC_FRACTION_def bit_and_iff)
  then have "bit ((b OR PPC_QUIET) AND PPC_FRACTION) 51" by (simp add: bit_and_iff bit_or_iff)
  then have "(b OR PPC_QUIET) AND PPC_FRACTION \<noteq> 0" by (metis bit_0_eq bot_apply bot_bool_def)
  moreover have "PPC_QUIET AND PPC_INFINITY = 0" by (simp add: PPC_QUIET_def PPC_INFINITY_def)
  ultimately show ?thesis using \<open>ppc_is_nan b\<close> by (simp add: ppc_is_nan_def bit.conj_disj_distrib2)
qed

lemma ppc_nan_result_cases:
  "ppc_nan_result (Some a) (Some b) (Some c) =
     (if ppc_is_nan a then Some (a OR PPC_QUIET) else if ppc_is_nan b then Some (b OR PPC_QUIET)
      else if ppc_is_nan c then Some (c OR PPC_QUIET) else None)"
  by (simp add: ppc_nan_result_def)

lemma delivers_not_nan: "ppc_delivers precision rounding z v res \<Longrightarrow> \<not> ppc_is_nan (pr_bits res)"
  by (auto simp: ppc_delivers_def Let_def ppc_is_nan_iff case_prod_beta split: if_splits)

lemma finite_or_special: "exp64 w < 2047 \<or> is_infinity w \<or> ppc_is_nan w"
  using fields64_lt(1) [of w] by (auto simp: is_infinity_iff ppc_is_nan_iff)

lemma xor_neg: "(a XOR b) AND PPC_SIGN \<noteq> 0 \<longleftrightarrow> neg64 a \<noteq> neg64 b"
  unfolding sign_set neg64_bit by (simp add: bit_xor_iff)

lemma signed_infinity:
  "is_infinity (PPC_INFINITY OR (w AND PPC_SIGN))" "neg64 (PPC_INFINITY OR (w AND PPC_SIGN)) = neg64 w"
proof -
  have d: "PPC_INFINITY AND NOT PPC_SIGN = PPC_INFINITY" "PPC_INFINITY AND PPC_SIGN = 0"
    by (simp_all add: PPC_INFINITY_def PPC_SIGN_def)
  have "(w AND PPC_SIGN) AND NOT PPC_SIGN = 0" by (simp add: and.assoc)
  then show "is_infinity (PPC_INFINITY OR (w AND PPC_SIGN))" by (simp add: is_infinity_def bit.conj_disj_distrib2 d)
  have "(PPC_INFINITY OR (w AND PPC_SIGN)) AND PPC_SIGN = w AND PPC_SIGN"
    by (simp add: bit.conj_disj_distrib2 d and.assoc)
  then show "neg64 (PPC_INFINITY OR (w AND PPC_SIGN)) = neg64 w" unfolding sign_set [symmetric] by simp
qed

definition madd_invalid :: "u64 \<Rightarrow> u64 \<Rightarrow> u64 \<Rightarrow> bool" where
  "madd_invalid a b c \<longleftrightarrow>
     is_infinity a \<and> is_zero c \<or> is_zero a \<and> is_infinity c \<or>
     (is_infinity a \<or> is_infinity c) \<and> is_infinity b \<and> (neg64 a \<noteq> neg64 c) \<noteq> neg64 b"

lemma special_disjoint:
  "is_infinity w \<Longrightarrow> \<not> is_zero w" "is_infinity w \<Longrightarrow> \<not> ppc_is_nan w" "is_zero w \<Longrightarrow> \<not> ppc_is_nan w"
  by (simp_all add: is_infinity_iff is_zero_iff ppc_is_nan_iff)

lemma madd_infinite_product:
  assumes "\<not> ppc_is_nan a" "\<not> ppc_is_nan c" "\<not> (is_infinity a \<and> is_zero c \<or> is_zero a \<and> is_infinity c)"
  shows "infinite_product a c =
    (if is_infinity a \<or> is_infinity c then Some (PPC_INFINITY OR ((a XOR c) AND PPC_SIGN)) else None)"
  using assms by (auto simp: infinite_product_def Let_def is_zero_def [symmetric])

text \<open>
  C31: A fused multiply-add produces a NaN exactly when it must. With the overflow and underflow
  exceptions disabled and single-precision operands in range, the result of fmadd is a NaN if
  and only if an operand is a NaN, an infinity is multiplied by a zero, or an infinite product
  meets the opposite infinity; in every other case it is a number or an infinity.
\<close>
theorem ppc_madd_nan_iff:
  assumes "exceptions_disabled control" and "single_in_range precision [a, b, c]"
  shows "ppc_is_nan (pr_bits (ppc_madd precision control a b c)) \<longleftrightarrow>
    ppc_is_nan a \<or> ppc_is_nan b \<or> ppc_is_nan c \<or> madd_invalid a b c"
proof (cases "ppc_is_nan a \<or> ppc_is_nan b \<or> ppc_is_nan c")
  case True
  then show ?thesis by (auto simp: ppc_madd_def multiply_add_def Let_def ppc_nan_result_cases quieted_is_nan)
next
  case nn: False
  then have sn: "\<not> ppc_is_snan a" "\<not> ppc_is_snan b" "\<not> ppc_is_snan c" by (auto simp: ppc_is_snan_def)
  have g: "ppc_is_nan PPC_GENERATED_NAN" by (simp add: ppc_is_nan_def PPC_GENERATED_NAN_def PPC_INFINITY_def PPC_FRACTION_def)
  consider (zero) "is_infinity a \<and> is_zero c \<or> is_zero a \<and> is_infinity c"
    | (inf) "\<not> (is_infinity a \<and> is_zero c \<or> is_zero a \<and> is_infinity c)" "is_infinity a \<or> is_infinity c"
    | (addend) "\<not> is_infinity a" "\<not> is_infinity c" "is_infinity b"
    | (finite) "exp64 a < 2047" "exp64 b < 2047" "exp64 c < 2047"
    using nn finite_or_special by blast
  then show ?thesis
  proof cases
    case zero
    then have "madd_invalid a b c" and "PpcInvalid_any (PpcInvalid_or (PpcInvalid_or v (ppc_invalid_product a c)) w)" for v w
      by (auto simp: madd_invalid_def PpcInvalid_or_def PpcInvalid_any_def ppc_invalid_product_def)
    then show ?thesis using nn g by (simp add: ppc_madd_def multiply_add_def Let_def ppc_nan_result_cases)
  next
    case inf
    then show ?thesis using nn sn g special_disjoint signed_infinity [of "a XOR c"]
      by (simp add: madd_invalid_def ppc_madd_def multiply_add_def Let_def ppc_nan_result_cases madd_infinite_product
          PpcInvalid_or_def PpcInvalid_any_def ppc_invalid_product_def ppc_invalid_sum_def PpcInvalid_signaling_def PpcInvalid_default_def
          xor_neg neg64_bit bit_xor_iff)
  next
    case addend
    have "\<not> is_infinity 0" by (simp add: is_infinity_def PPC_INFINITY_def)
    with addend show ?thesis using nn sn special_disjoint
      by (simp add: madd_invalid_def ppc_madd_def multiply_add_def Let_def ppc_nan_result_cases madd_infinite_product
          PpcInvalid_or_def PpcInvalid_any_def ppc_invalid_product_def ppc_invalid_sum_def PpcInvalid_signaling_def PpcInvalid_default_def
          is_infinity_def [symmetric])
  next
    case finite
    have "\<not> madd_invalid a b c" using finite by (simp add: madd_invalid_def finite_not_special)
    moreover have "ppc_madd precision control a b c = (let p = product (finite_operand a) (finite_operand c); e = finite_operand b
        in ppc_round precision control (signed_zero_sum (ct_rounding control) p e (sum p e)))"
      by (simp add: ppc_madd_def multiply_add_finite [OF finite assms(2)] Let_def)
    ultimately show ?thesis using nn delivers_not_nan [OF fused_sum_delivers [OF assms(1) finite, of precision]] by simp
  qed
qed

theorem ppc_madd_nan_iff_witness:
  "ppc_is_nan (pr_bits (ppc_madd Prec_Double (PpcControl_from NearestEven) 0x7FF0000000000000 0xFFF0000000000000 0x4008000000000000)) =
     True"
  using ppc_madd_nan_iff [of "PpcControl_from NearestEven" Prec_Double "0x7FF0000000000000" "0xFFF0000000000000" "0x4008000000000000"]
  by (simp add: single_in_range_def madd_invalid_def is_infinity_def PPC_INFINITY_def PPC_SIGN_def neg64_bit)

end
