(* ===== verification/Float_Vmx_Proofs.thy ===== *)
theory Float_Vmx_Proofs
  imports Float_Vmx Float_Convert_Proofs
begin

text \<open>
  The vector unit's arithmetic rounds the exact real result once to nearest, its comparison
  orders words as numbers, and its conversions round and saturate as stated, in both modes.
\<close>

section \<open>Single-precision words\<close>

abbreviation exp32 :: "u32 \<Rightarrow> nat" where "exp32 w \<equiv> enc_exp Binary32 (ucast w)"
abbreviation frac32 :: "u32 \<Rightarrow> nat" where "frac32 w \<equiv> enc_frac Binary32 (ucast w)"
abbreviation neg32 :: "u32 \<Rightarrow> bool" where "neg32 w \<equiv> enc_neg Binary32 (ucast w)"
abbreviation value32 :: "u32 \<Rightarrow> real" where "value32 w \<equiv> enc_value Binary32 (ucast w)"

definition vmx_value :: "VmxMode \<Rightarrow> u32 \<Rightarrow> real" where
  "vmx_value mode w = (if mode = NonJava \<and> exp32 w = 0 then 0 else value32 w)"

lemma unat_ucast_u64: "unat (ucast (w :: u32) :: u64) = unat w"
  by (rule unat_ucast_up) simp

lemma fields32: "unat w = (if neg32 w then 2 ^ 31 else 0) + (exp32 w * 2 ^ 23 + frac32 w)"
  using unat_fields [of "ucast w" Binary32] unat_lt_2p [of w] by (simp add: unat_ucast_u64)

lemma fields32_lt: "exp32 w < 256" "frac32 w < 2 ^ 23" "exp32 w * 2 ^ 23 + frac32 w < 2 ^ 31"
  using enc_frac_lt [of Binary32 "ucast w"] by simp_all

lemma ucast_ucast_low: "unat (bits :: u64) < 2 ^ 32 \<Longrightarrow> ucast (ucast bits :: u32) = bits"
  by (intro unat_eqI) (simp add: unat_ucast_u64 unsigned_ucast_eq unsigned_take_bit_eq take_bit_nat_eq_self)

lemma magnitude32: "unat (w AND 0x7FFFFFFF) = exp32 w * 2 ^ 23 + frac32 w"
proof -
  have "unat (w AND 0x7FFFFFFF) = unat w mod 2 ^ 31" using unat_and_mask [of 31 w] by (simp add: shl_def)
  then show ?thesis using fields32 [of w] fields32_lt(3) [of w] by auto
qed

lemma sign32: "drop_bit 31 w = 1 \<longleftrightarrow> neg32 w"
proof -
  have "unat (drop_bit 31 w) = (if neg32 w then 1 else 0)"
    using fields32 [of w] fields32_lt(3) [of w] by (simp only: unat_drop_bit_div) auto
  then show ?thesis by (metis unat_1 unat_eqI zero_neq_one)
qed

lemma nan32: "x AND 0x7F800000 = 0x7F800000 \<and> x AND 0x007FFFFF \<noteq> 0 \<longleftrightarrow> exp32 x = 255 \<and> frac32 x \<noteq> 0"
proof -
  have "(0x7F800000 :: u32) = push_bit 23 (mask 8)" by (simp add: mask_eq_exp_minus_1)
  then have "unat (x AND 0x7F800000) = unat x div 2 ^ 23 mod 2 ^ 8 * 2 ^ 23"
    using and_push_mask [where k = 23 and n = 8 and w = x] by simp
  then have e: "x AND 0x7F800000 = 0x7F800000 \<longleftrightarrow> exp32 x = 255"
    using unat_eqI [of "x AND 0x7F800000" "0x7F800000"] by (auto simp: enc_exp_def unat_ucast_u64)
  have "unat (x AND 0x007FFFFF) = unat x mod 2 ^ 23" using unat_and_mask [of 23 x] by (simp add: shl_def)
  then have "x AND 0x007FFFFF = 0 \<longleftrightarrow> frac32 x = 0" by (simp add: enc_frac_def unat_ucast_u64 flip: unat_0_iff)
  with e show ?thesis by simp
qed

lemma vmx_nan_None: "vmx_nan ws = None \<longleftrightarrow> (\<forall>w\<in>set ws. \<not> (exp32 w = 255 \<and> frac32 w \<noteq> 0))"
  by (auto simp: vmx_nan_def find_None_iff nan32)

lemma sign_flip32: "neg32 (w XOR 0x80000000) = (\<not> neg32 w)" "exp32 (w XOR 0x80000000) = exp32 w" "frac32 (w XOR 0x80000000) = frac32 w"
proof -
  have "(w XOR 0x80000000) AND 0x7FFFFFFF = w AND 0x7FFFFFFF" by (simp add: bit.conj_xor_distrib2)
  then have "exp32 (w XOR 0x80000000) * 2 ^ 23 + frac32 (w XOR 0x80000000) = exp32 w * 2 ^ 23 + frac32 w"
    unfolding magnitude32 [symmetric] by simp
  then show "exp32 (w XOR 0x80000000) = exp32 w" "frac32 (w XOR 0x80000000) = frac32 w"
    using div_mod_field [OF fields32_lt(2)] by metis+
  have n: "neg32 v \<longleftrightarrow> bit v 31" for v
  proof -
    have "bit v 31 \<longleftrightarrow> bit (unat v) 31" by (simp add: bit_unsigned_iff)
    then show ?thesis by (simp add: enc_neg_def unat_ucast_u64 bit_iff_odd)
  qed
  show "neg32 (w XOR 0x80000000) = (\<not> neg32 w)" by (simp add: n bit_xor_iff)
qed

section \<open>Decoding\<close>

lemma vmx_unpack_zero: "exp32 w = 0 \<Longrightarrow> frac32 w = 0 \<or> mode = NonJava \<Longrightarrow> vmx_unpack mode w = Op_Zero (neg32 w)"
proof -
  assume e: "exp32 w = 0" and m: "frac32 w = 0 \<or> mode = NonJava"
  have d: "ucast (shr (ucast w :: u64) 23) AND EXP_MAX Binary32 = 0"
    using e exponent_field_eq(1) [of Binary32 "ucast w"] by (simp add: exponent_field_def)
  show ?thesis
  proof (cases "frac32 w = 0")
    case True
    then show ?thesis using e unpack_PowerPc_zero [of Binary32 "ucast w"] by (simp add: vmx_unpack_def unpack_in_def Let_def)
  next
    case False
    then obtain x where "unpack Binary32 PowerPc (ucast w) = (Op_Finite x, Flags_default)" "decoded Binary32 (ucast w) x"
      using unpack_PowerPc_finite [of Binary32 "ucast w"] e by auto
    then show ?thesis using m False d by (simp add: vmx_unpack_def unpack_in_def Let_def decoded_def)
  qed
qed

lemma vmx_unpack_special:
  assumes "exp32 w = 255"
  shows "vmx_unpack mode w = (if frac32 w = 0 then Op_Infinity (neg32 w) else Op_NaN (odd (frac32 w div 2 ^ 22)))"
  using unpack_PowerPc_special [of Binary32 "ucast w"] assms by (simp add: vmx_unpack_def unpack_in_def Let_def)

lemma vmx_unpack_finite:
  assumes "exp32 w < 255" and "exp32 w \<noteq> 0 \<or> frac32 w \<noteq> 0 \<and> mode = Java"
  shows "\<exists>x. vmx_unpack mode w = Op_Finite x \<and> ex_negative x = neg32 w \<and> \<not> ex_sticky x \<and> ex_significand x \<noteq> 0 \<and>
    unat (ex_significand x) < 2 ^ 24 \<and> - 150 < ex_exponent x \<and> ex_exponent x < 106 \<and>
    represents x (mag_of_fields Binary32 (exp32 w) (frac32 w))"
proof -
  obtain x where x: "unpack Binary32 PowerPc (ucast w) = (Op_Finite x, Flags_default)" "decoded Binary32 (ucast w) x" "ex_significand x \<noteq> 0"
    using unpack_PowerPc_finite [of Binary32 "ucast w"] assms by auto
  have d: "ucast (shr (ucast w :: u64) 23) AND EXP_MAX Binary32 = 0 \<longleftrightarrow> exp32 w = 0"
    using exponent_field_eq(1) [of Binary32 "ucast w"] by (simp add: exponent_field_def)
  define e where "e = uint (exponent_field Binary32 (ucast w))"
  have e: "0 \<le> e" "e < 255" "e = 0 \<longleftrightarrow> exp32 w = 0" using unat_exponent_field [of Binary32 "ucast w"] assms(1) by (auto simp: e_def uint_nat)
  have "ex_exponent x = (if e = 0 then wrap_i32 (wrap_i32 (1 - 127) - 23) else wrap_i32 (wrap_i32 (wrap_i32 e - 127) - 23))"
    using x(1) by (auto simp: unpack_def Let_def e_def uint_0_iff split: if_splits)
  then have "- 150 < ex_exponent x \<and> ex_exponent x < 106" using e(1,2) by auto
  then show ?thesis using x d assms(2) by (auto simp: vmx_unpack_def unpack_in_def Let_def decoded_def)
qed

lemma mag_zero [simp]: "mag_of_fields Binary32 0 0 = 0"
  by (simp add: mag_of_fields_def)

lemma word_classes:
  "exp32 w = 255 \<or> (exp32 w = 0 \<and> (frac32 w = 0 \<or> mode = NonJava)) \<or>
   (exp32 w < 255 \<and> (exp32 w \<noteq> 0 \<or> frac32 w \<noteq> 0 \<and> mode = Java))"
proof -
  have "exp32 w = 255 \<or> exp32 w < 255" using fields32_lt(1) [of w] by linarith
  then show ?thesis by (cases mode) auto
qed

text \<open>Every finite operand is an exact term of the value its mode reads.\<close>

lemma finite_term:
  assumes "exp32 w < 255"
  shows "\<exists>x. operand_term (vmx_unpack mode w) = Some (Term_Exact x) \<and> ex_negative x = neg32 w \<and> \<not> ex_sticky x \<and>
    significant_bits (ex_significand x) \<le> 24 \<and> \<bar>ex_exponent x\<bar> < 150 \<and>
    (\<exists>m. represents x m \<and> signed_real (neg32 w) m = vmx_value mode w)"
proof (cases "exp32 w = 0 \<and> (frac32 w = 0 \<or> mode = NonJava)")
  case True
  then have v: "vmx_value mode w = 0" by (auto simp: vmx_value_def enc_value_def)
  have "represents (Exact_from_parts (neg32 w) 0 0 False) 0" by (simp add: represents_def)
  then show ?thesis using True vmx_unpack_zero [of w mode] v
    by (intro exI [of _ "Exact_from_parts (neg32 w) 0 0 False"]) (auto simp: operand_term_def significant_bits_eq intro!: exI [of _ 0])
next
  case False
  then have n: "exp32 w \<noteq> 0 \<or> frac32 w \<noteq> 0 \<and> mode = Java" by (cases mode) auto
  obtain x where x: "vmx_unpack mode w = Op_Finite x" "ex_negative x = neg32 w" "\<not> ex_sticky x" "unat (ex_significand x) < 2 ^ 24"
      "- 150 < ex_exponent x" "ex_exponent x < 106" "represents x (mag_of_fields Binary32 (exp32 w) (frac32 w))"
    using vmx_unpack_finite [OF assms n] by blast
  have "vmx_value mode w = signed_real (neg32 w) (mag_of_fields Binary32 (exp32 w) (frac32 w))"
    using n by (auto simp: vmx_value_def enc_value_def)
  then show ?thesis using x
    by (intro exI [of _ x]) (auto simp: operand_term_def significant_bits_le_iff intro!: exI [of _ "mag_of_fields Binary32 (exp32 w) (frac32 w)"])
qed

section \<open>Rounding and arithmetic\<close>

text \<open>
  What the vector unit delivers for a real \<open>v\<close>: in non-Java mode a signed zero for a tiny one,
  else \<open>v\<close> rounded to nearest, an infinity beyond the range.
\<close>

definition vmx_delivers :: "VmxMode \<Rightarrow> bool \<Rightarrow> real \<Rightarrow> u32 \<Rightarrow> bool" where
  "vmx_delivers mode zero_neg v w \<longleftrightarrow>
     neg32 w = (v < 0 \<or> v = 0 \<and> zero_neg) \<and>
     (if mode = NonJava \<and> 0 < \<bar>v\<bar> \<and> \<bar>v\<bar> < 2 powi (- 126) then exp32 w = 0 \<and> frac32 w = 0
      else \<exists>r. rounds_to Binary32 NearestEven v r \<and>
             (if huge Binary32 r then exp32 w = 255 \<and> frac32 w = 0 else exp32 w < 255 \<and> value32 w = r))"

lemma tiny_iff:
  assumes "exact_ok Binary32 x" and "represents x m"
  shows "(ex_significand x \<noteq> 0 \<and> binade x < - 126) = (0 < m \<and> m < 2 powi (- 126))"
proof -
  have "tr_tiny (round_ieee_traced Binary32 NearestEven x) = (0 < m \<and> m < 2 powi (- 126))"
    using round_ieee_sound [OF format_ok_Binary(1) assms, of NearestEven] unfolding ieee_rounded_def Let_def B32 by blast
  moreover have "tr_tiny (round_ieee_traced Binary32 NearestEven x) = (ex_significand x \<noteq> 0 \<and> binade x < - 126)"
    by (simp add: round_ieee_traced_def Let_def ieee_pack_def case_prod_beta)
  ultimately show ?thesis by simp
qed

lemma sign_word32: "neg32 (push_bit 31 (u32_from n)) = n" "exp32 (push_bit 31 (u32_from n)) = 0" "frac32 (push_bit 31 (u32_from n)) = 0"
  by (cases n; simp add: u32_from_def enc_neg_def enc_exp_def enc_frac_def)+

lemma vmx_round_delivers:
  assumes ok: "exact_ok Binary32 x" and r: "represents x m"
  shows "vmx_delivers mode (ex_negative x) (signed_real (ex_negative x) m) (vmx_round mode NearestEven x)"
proof -
  define v where "v = signed_real (ex_negative x) m"
  have m0: "0 \<le> m" using r by (rule represents_nonneg)
  have v: "\<bar>v\<bar> = m" "ex_negative x = (v < 0 \<or> v = 0 \<and> ex_negative x)" using m0 by (auto simp: v_def signed_real_def)
  show ?thesis
  proof (cases "mode = NonJava \<and> 0 < m \<and> m < 2 powi (- 126)")
    case True
    then have "vmx_round mode NearestEven x = push_bit 31 (u32_from (ex_negative x))"
      using tiny_iff [OF ok r] by (auto simp: vmx_round_def round_in_def Let_def u32_from_def shl_def)
    then show ?thesis using True v unfolding v_def [symmetric] vmx_delivers_def by (simp add: sign_word32)
  next
    case False
    define bits where "bits = pk_bits (tr_packed (round_ieee_traced Binary32 NearestEven x))"
    have "vmx_round mode NearestEven x = ucast bits"
      using tiny_iff [OF ok r] False by (auto simp: vmx_round_def round_in_def Let_def round_pack_def round_ieee_def bits_def)
    moreover obtain rr where "rounds_to Binary32 NearestEven v rr" "unat bits < 2 ^ 32" "enc_neg Binary32 bits = ex_negative x"
        "if huge Binary32 rr then (enc_exp Binary32 bits, enc_frac Binary32 bits) = overflow_exp_frac Binary32 NearestEven (ex_negative x)
         else enc_finite Binary32 bits \<and> enc_value Binary32 bits = rr"
      using round_ieee_sound [OF format_ok_Binary(1) ok r, of NearestEven]
      unfolding ieee_rounded_def Let_def bits_def [symmetric] v_def [symmetric] by (auto simp del: power_int_minus)
    ultimately show ?thesis using False v ucast_ucast_low [of bits]
      unfolding v_def [symmetric] vmx_delivers_def by (auto simp: overflow_exp_frac_def enc_finite_def split: if_splits)
  qed
qed

text \<open>An exact zero sum is negative only when both terms are.\<close>

lemma sum_aligned_zero_sign:
  assumes "ex_significand (sum_aligned x y) = 0" and "\<not> ex_sticky (sum_aligned x y)" and "ex_negative x \<noteq> ex_negative y"
  shows "\<not> ex_negative (sum_aligned x y)"
  using assms by (auto simp: sum_aligned_def Let_def split: if_splits prod.splits)

lemma sum_zero_sign:
  assumes ops: "operand x" "operand y" and e: "\<bar>ex_exponent x\<bar> \<le> 2 ^ 28" "\<bar>ex_exponent y\<bar> \<le> 2 ^ 28"
    and r: "represents x a" "represents y b" and z: "signed_real (ex_negative x) a + signed_real (ex_negative y) b = 0"
  shows "ex_negative (sum x y) = (ex_negative x \<and> ex_negative y)"
proof -
  have st: "stands_for (sum x y) 0" using sum_stands_for [OF ops e r] by (simp only: z)
  then obtain m where "represents (sum x y) m" "m = 0" by (auto simp: stands_for_def signed_real_def split: if_splits)
  then have s0: "ex_significand (sum x y) = 0" "\<not> ex_sticky (sum x y)"
    by (auto simp: represents_def add_nonneg_eq_0_iff unat_0_iff split: if_splits)
  have ns: "\<not> ex_sticky x" "\<not> ex_sticky y" using ops by (simp_all add: operand_def)
  have pos: "ex_significand x \<noteq> 0 \<Longrightarrow> 0 < a" "ex_significand y \<noteq> 0 \<Longrightarrow> 0 < b" "0 \<le> a" "0 \<le> b"
    using r ns by (auto simp: represents_exact unat_gt_0)
  show ?thesis
  proof (cases "ex_negative x = ex_negative y")
    case True
    then have "a = 0" "b = 0" using z pos(3,4) by (auto simp: signed_real_def split: if_splits)
    then have "ex_significand x = 0" "ex_significand y = 0" using pos(1,2) by auto
    with True show ?thesis by (simp add: sum_def)
  next
    case False
    then have "a = b" using z by (auto simp: signed_real_def split: if_splits)
    then have "ex_significand x = 0 \<longleftrightarrow> ex_significand y = 0" using r ns by (auto simp: represents_exact unat_0_iff)
    then show ?thesis using False s0 sum_aligned_zero_sign [of x y] sum_aligned_zero_sign [of y x]
      by (auto simp: sum_def split: if_splits)
  qed
qed

lemma vmx_delivers_nonzero: "v \<noteq> 0 \<Longrightarrow> vmx_delivers mode z v w \<Longrightarrow> vmx_delivers mode z' v w"
  by (simp only: vmx_delivers_def) simp

lemma sum_terms_deliver:
  assumes ops: "operand x" "operand y" and e: "\<bar>ex_exponent x\<bar> \<le> 2 ^ 28" "\<bar>ex_exponent y\<bar> \<le> 2 ^ 28"
    and r: "represents x a" "represents y b"
  shows "vmx_delivers mode (ex_negative x \<and> ex_negative y) (signed_real (ex_negative x) a + signed_real (ex_negative y) b)
    (sum_terms mode (Term_Exact x) (Term_Exact y))"
proof -
  define v where "v = signed_real (ex_negative x) a + signed_real (ex_negative y) b"
  have "stands_for (sum x y) v" unfolding v_def by (rule sum_stands_for [OF ops e r])
  then obtain m where m: "represents (sum x y) m" "signed_real (ex_negative (sum x y)) m = v" and ok: "exact_ok Binary32 (sum x y)"
    by (auto simp: stands_for_def exact_ok_def)
  have "vmx_delivers mode (ex_negative (sum x y)) v (vmx_round mode NearestEven (sum x y))"
    using vmx_round_delivers [OF ok m(1)] unfolding m(2) .
  then show ?thesis using sum_zero_sign [OF ops e r, folded v_def] unfolding v_def [symmetric]
    by (cases "v = 0") (auto intro: vmx_delivers_nonzero)
qed

lemma finite_product_term:
  assumes "exp32 a < 255" "exp32 c < 255"
  shows "\<exists>x y p m. operand_term (vmx_unpack mode a) = Some (Term_Exact x) \<and> operand_term (vmx_unpack mode c) = Some (Term_Exact y) \<and>
    product_term (Term_Exact x) (Term_Exact y) = Some (Term_Exact p) \<and> ex_negative p = (neg32 a \<noteq> neg32 c) \<and>
    operand p \<and> \<bar>ex_exponent p\<bar> \<le> 2 ^ 28 \<and> represents p m \<and> signed_real (ex_negative p) m = vmx_value mode a * vmx_value mode c"
proof -
  obtain x m where x: "operand_term (vmx_unpack mode a) = Some (Term_Exact x)" "ex_negative x = neg32 a" "\<not> ex_sticky x"
      "significant_bits (ex_significand x) \<le> 24" "\<bar>ex_exponent x\<bar> < 150" "represents x m" "signed_real (neg32 a) m = vmx_value mode a"
    using finite_term [OF assms(1)] by blast
  obtain y n where y: "operand_term (vmx_unpack mode c) = Some (Term_Exact y)" "ex_negative y = neg32 c" "\<not> ex_sticky y"
      "significant_bits (ex_significand y) \<le> 24" "\<bar>ex_exponent y\<bar> < 150" "represents y n" "signed_real (neg32 c) n = vmx_value mode c"
    using finite_term [OF assms(2)] by blast
  note p = product_represents [OF x(3) y(3) x(6) y(6)]
  have "unat (ex_significand x) * unat (ex_significand y) < 2 ^ 24 * 2 ^ 24"
    using x(4) y(4) by (intro mult_strict_mono) (simp_all add: significant_bits_le_iff)
  then have "unat (ex_significand (product x y)) < 2 ^ 125" using p(3) x(4,5) y(4,5) by simp
  then have "operand (product x y)" by (simp add: operand_def OPERAND_BITS_def MAX_SIGNIFICAND_BITS_def significant_bits_le_iff product_def)
  moreover have "signed_real (ex_negative (product x y)) (m * n) = vmx_value mode a * vmx_value mode c"
    unfolding x(7) [symmetric] y(7) [symmetric] by (auto simp: product_def x(2) y(2) signed_real_def)
  moreover have "\<bar>ex_exponent (product x y)\<bar> \<le> 2 ^ 28" "represents (product x y) (m * n)" using p x(4,5) y(4,5) by simp_all
  moreover have "ex_negative (product x y) = (neg32 a \<noteq> neg32 c)" by (simp add: product_def x(2) y(2))
  ultimately show ?thesis using x(1) y(1) by (intro exI [of _ x] exI [of _ y] exI [of _ "product x y"] exI [of _ "m * n"]) simp
qed

lemma vmx_value_flip: "vmx_value mode (w XOR 0x80000000) = - vmx_value mode w"
  by (simp add: vmx_value_def sign_flip32 enc_value_def signed_real_def)

lemma add_in_delivers:
  assumes "exp32 a < 255" "exp32 b < 255"
  shows "vmx_delivers mode (neg32 a \<and> neg32 b) (vmx_value mode a + vmx_value mode b) (add_in mode a b)"
proof -
  obtain x m where x: "operand_term (vmx_unpack mode a) = Some (Term_Exact x)" "ex_negative x = neg32 a" "\<not> ex_sticky x"
      "significant_bits (ex_significand x) \<le> 24" "\<bar>ex_exponent x\<bar> < 150" "represents x m" "signed_real (neg32 a) m = vmx_value mode a"
    using finite_term [OF assms(1)] by blast
  obtain y n where y: "operand_term (vmx_unpack mode b) = Some (Term_Exact y)" "ex_negative y = neg32 b" "\<not> ex_sticky y"
      "significant_bits (ex_significand y) \<le> 24" "\<bar>ex_exponent y\<bar> < 150" "represents y n" "signed_real (neg32 b) n = vmx_value mode b"
    using finite_term [OF assms(2)] by blast
  have "operand x" "operand y" using x(3,4) y(3,4) by (simp_all add: operand_def OPERAND_BITS_def MAX_SIGNIFICAND_BITS_def)
  from sum_terms_deliver [OF this _ _ x(6) y(6), of mode] x y show ?thesis by (simp add: add_in_def)
qed

lemma madd_in_delivers:
  assumes "exp32 a < 255" "exp32 b < 255" "exp32 c < 255"
  shows "vmx_delivers mode ((neg32 a \<noteq> neg32 c) \<and> neg32 b) (vmx_value mode a * vmx_value mode c + vmx_value mode b) (madd_in mode a b c)"
proof -
  obtain y n where y: "operand_term (vmx_unpack mode b) = Some (Term_Exact y)" "ex_negative y = neg32 b" "\<not> ex_sticky y"
      "significant_bits (ex_significand y) \<le> 24" "\<bar>ex_exponent y\<bar> < 150" "represents y n" "signed_real (neg32 b) n = vmx_value mode b"
    using finite_term [OF assms(2)] by blast
  obtain x z p m where p: "operand_term (vmx_unpack mode a) = Some (Term_Exact x)" "operand_term (vmx_unpack mode c) = Some (Term_Exact z)"
      "product_term (Term_Exact x) (Term_Exact z) = Some (Term_Exact p)" "ex_negative p = (neg32 a \<noteq> neg32 c)"
      "operand p" "\<bar>ex_exponent p\<bar> \<le> 2 ^ 28" "represents p m" "signed_real (ex_negative p) m = vmx_value mode a * vmx_value mode c"
    using finite_product_term [OF assms(1,3)] by blast
  have "operand y" using y(3,4) by (simp add: operand_def OPERAND_BITS_def MAX_SIGNIFICAND_BITS_def)
  from sum_terms_deliver [OF p(5) this p(6) _ p(7) y(6), of mode] p(8) y p(1-4) show ?thesis
    by (simp add: madd_in_def del: product_term.simps sum_terms.simps)
qed

text \<open>
  C16: The vector unit's add, subtract, multiply-add and negative multiply-subtract round once.
  On finite words, in both modes, each delivers the exact real sum, difference or fused result
  of the operands as the mode reads them, rounded to nearest even; a zero result has the IEEE
  sign, a result beyond the range is an infinity, and in non-Java mode a result that is tiny
  before rounding is a zero of its sign.
\<close>
theorem vmx_arithmetic_correct:
  assumes "exp32 a < 255" and "exp32 b < 255" and "exp32 c < 255"
  shows "vmx_delivers mode (neg32 a \<and> neg32 b) (vmx_value mode a + vmx_value mode b) (vmx_add mode a b) \<and>
    vmx_delivers mode (neg32 a \<and> \<not> neg32 b) (vmx_value mode a - vmx_value mode b) (vmx_sub mode a b) \<and>
    vmx_delivers mode ((neg32 a \<noteq> neg32 c) \<and> neg32 b) (vmx_value mode a * vmx_value mode c + vmx_value mode b) (vmx_madd mode a b c) \<and>
    vmx_delivers mode ((neg32 a \<noteq> neg32 c) \<and> \<not> neg32 b) (vmx_value mode a * vmx_value mode c - vmx_value mode b)
      (vmx_nmsub mode a b c XOR 0x80000000)"
proof -
  have n: "vmx_nan [a, b] = None" "vmx_nan [a, b, c] = None" using assms by (simp_all add: vmx_nan_None)
  have b: "exp32 (b XOR 0x80000000) < 255" using assms(2) by (simp add: sign_flip32)
  note d = add_in_delivers [OF assms(1,2), of mode] add_in_delivers [OF assms(1) b, of mode]
    madd_in_delivers [OF assms, of mode] madd_in_delivers [OF assms(1) b assms(3), of mode]
  have "vmx_nan [madd_in mode a (b XOR 0x80000000) c] = None"
    using d(4) unfolding vmx_nan_None vmx_delivers_def by (auto split: if_splits)
  then show ?thesis using d n
    by (simp add: vmx_add_def vmx_sub_def vmx_madd_def vmx_nmsub_def Let_def vmx_value_flip sign_flip32 xor.assoc)
qed

theorem vmx_arithmetic_correct_witness:
  "vmx_delivers NonJava False (vmx_value NonJava 0x3FC00000 * vmx_value NonJava 0x40400000 + vmx_value NonJava 0xC0600000)
     (vmx_madd NonJava 0x3FC00000 0xC0600000 0x40400000)"
  using vmx_arithmetic_correct [of "0x3FC00000" "0xC0600000" "0x40400000" NonJava] by (simp add: enc_exp_def enc_neg_def)

section \<open>Comparison\<close>

definition nan_word :: "u32 \<Rightarrow> bool" where
  "nan_word w \<longleftrightarrow> exp32 w = 255 \<and> frac32 w \<noteq> 0"

text \<open>The fields as the mode reads them, and the integer they make.\<close>

definition read_fields :: "VmxMode \<Rightarrow> u32 \<Rightarrow> nat \<times> nat" where
  "read_fields mode w = (if mode = NonJava \<and> exp32 w = 0 then (0, 0) else (exp32 w, frac32 w))"

definition read_key :: "VmxMode \<Rightarrow> u32 \<Rightarrow> int" where
  "read_key mode w = int (fst (read_fields mode w) * 2 ^ 23 + snd (read_fields mode w))"

lemma vmx_value_fields: "vmx_value mode w = signed_real (neg32 w) (mag_of_fields Binary32 (fst (read_fields mode w)) (snd (read_fields mode w)))"
  by (simp add: vmx_value_def enc_value_def read_fields_def)

lemma read_fields_lt: "snd (read_fields mode w) < 2 ^ FRAC_BITS Binary32"
  using fields32_lt(2) [of w] by (simp add: read_fields_def)

lemma compare_key_eq:
  "compare_key mode w = (if nan_word w then None else Some (if neg32 w then - read_key mode w else read_key mode w))"
proof -
  consider "exp32 w = 255" | "exp32 w = 0 \<and> (frac32 w = 0 \<or> mode = NonJava)" | "exp32 w < 255" "exp32 w \<noteq> 0 \<or> frac32 w \<noteq> 0 \<and> mode = Java"
    using word_classes by blast
  then show ?thesis
  proof cases
    case 1
    then show ?thesis
      by (auto simp: compare_key_def vmx_unpack_special nan_word_def Let_def sign32 uint_nat magnitude32 read_key_def read_fields_def)
  next
    case 2
    then show ?thesis by (auto simp: compare_key_def vmx_unpack_zero nan_word_def read_key_def read_fields_def)
  next
    case 3
    obtain x where "vmx_unpack mode w = Op_Finite x" using vmx_unpack_finite [OF 3] by blast
    then show ?thesis using 3 by (auto simp: compare_key_def nan_word_def Let_def sign32 uint_nat magnitude32 read_key_def read_fields_def)
  qed
qed

text \<open>
  C39: The vector comparison orders words as the numbers they stand for. It answers unordered
  exactly when an operand is a NaN; otherwise it is the order of the two values as the mode
  reads them, with both zeros equal, a denormal equal to zero in non-Java mode, and an infinity
  (the value its fields would have, two to the 128) beyond every finite word.
\<close>
theorem vmx_compare_exact:
  "vmx_compare mode a b =
     (if nan_word a \<or> nan_word b then None
      else Some (if vmx_value mode a < vmx_value mode b then Less
                 else if vmx_value mode a = vmx_value mode b then Equal else Greater))"
proof -
  define m where "m w = mag_of_fields Binary32 (fst (read_fields mode w)) (snd (read_fields mode w))" for w
  have less: "m v < m w \<longleftrightarrow> read_key mode v < read_key mode w" for v w
    using mag_less_iff [OF read_fields_lt [of mode v] read_fields_lt [of mode w], of "fst (read_fields mode v)" "fst (read_fields mode w)"]
    unfolding m_def read_key_def of_nat_less_iff B32 .
  have eq: "m v = m w \<longleftrightarrow> read_key mode v = read_key mode w" for v w
    using less [of v w] less [of w v] by linarith
  have z: "read_key mode w = 0 \<longleftrightarrow> m w = 0" "0 \<le> m w" "0 \<le> read_key mode w" for w
    by (auto simp: m_def read_key_def mag_of_fields_def add_pos_nonneg pos_add_strict)
  have v: "vmx_value mode w = (if neg32 w then - m w else m w)" for w by (simp add: vmx_value_fields m_def signed_real_def)
  have "i64_cmp (if neg32 a then - read_key mode a else read_key mode a) (if neg32 b then - read_key mode b else read_key mode b) =
      (if vmx_value mode a < vmx_value mode b then Less else if vmx_value mode a = vmx_value mode b then Equal else Greater)"
    unfolding i64_cmp_def v using less [of a b] less [of b a] eq [of a b] z [of a] z [of b] by (auto split: if_splits)
  then show ?thesis by (simp add: vmx_compare_def compare_key_eq)
qed

end
