(* ===== verification/Float_Vmx_Convert.thy ===== *)
theory Float_Vmx_Convert
  imports Float_Vmx_Proofs
begin

text \<open>The vector unit's rounding to an integer and its saturating conversions.\<close>

section \<open>Rounding to an integer\<close>

lemma integer_parts_exact:
  assumes s: "unat sig < 2 ^ 24" and d: "0 < d" and K: "K = unat sig div 2 ^ d" and m: "m = real (unat sig) / 2 ^ d"
    and p: "integer_parts sig d = (whole, fraction, half)"
  shows "unat whole = K" and "(half < fraction) = (real K + 1 / 2 < m)" and "(fraction = half) = (m = real K + 1 / 2)"
    and "(fraction \<noteq> 0) = (m \<noteq> real K)" and "real K \<le> m" and "m < real K + 1"
proof -
  have w: "128 - leading_zeros sig = bit_length (unat sig)" using width_minus_leading_zeros [of sig] by simp
  define f where "f = unat sig mod 2 ^ d"
  have split: "unat sig = K * 2 ^ d + f" by (simp only: K f_def div_mult_mod_eq)
  have f: "f < 2 ^ d" by (simp add: f_def)
  have mf: "m = real K + real f / 2 ^ d" using split by (simp add: m field_simps)
  have fr: "(real f / 2 ^ d = 1 / 2) = (2 * f = 2 ^ d)" "(1 / 2 < real f / 2 ^ d) = (2 ^ d < 2 * f)"
    using of_nat_eq_iff [of "2 * f" "2 ^ d", where 'a = real] of_nat_less_iff [of "2 ^ d" "2 * f", where 'a = real]
    by (auto simp: field_simps)
  have "real f / 2 ^ d < 1" using f by simp
  then show "real K \<le> m" "m < real K + 1" by (simp_all add: mf)
  have "unat whole = K \<and> (half < fraction) = (2 ^ d < 2 * f) \<and> (fraction = half) = (2 * f = 2 ^ d) \<and> (fraction \<noteq> 0) = (f \<noteq> 0)"
  proof (cases "bit_length (unat sig) < d")
    case True
    have lt: "unat sig < 2 ^ (d - 1)" using True bit_length_le_iff [of "unat sig" "d - 1"] by linarith
    have dd: "(2 :: nat) ^ d = 2 * 2 ^ (d - 1)" using d by (cases d) simp_all
    have fs: "f = unat sig" "K = 0" using lt dd by (simp_all add: f_def K)
    have e: "whole = 0" "fraction = sig" "half = - 1" using p True by (auto simp: integer_parts_def Let_def w)
    have "unat half = 2 ^ 128 - 1" by (simp add: e unsigned_minus_1_eq_mask mask_eq_exp_minus_1)
    then have "unat sig < unat half" using s by simp
    then have "\<not> half < fraction" "fraction \<noteq> half" by (auto simp: e(2) word_less_nat_alt)
    then show ?thesis using e fs lt dd by (simp add: unat_0_iff)
  next
    case False
    have d24: "d \<le> 24" using False s bit_length_le_iff [of "unat sig" 24] by simp
    have e: "whole = shr sig d" "fraction = sig AND (shl 1 d - 1)" "half = shl 1 (d - 1)" using p False by (auto simp: integer_parts_def Let_def w)
    have u: "unat whole = K" "unat fraction = f" "unat half = 2 ^ (d - 1)"
      using d24 by (simp_all add: e unat_shr unat_and_mask unat_shl_1 K f_def)
    have dd: "(2 :: nat) ^ d = 2 * 2 ^ (d - 1)" using d by (cases d) simp_all
    have "fraction = half \<longleftrightarrow> unat fraction = unat half" "fraction = 0 \<longleftrightarrow> unat fraction = 0" by (auto intro: unat_eqI simp: unat_0_iff)
    then show ?thesis using u dd by (simp add: word_less_nat_alt)
  qed
  then show "unat whole = K" "(half < fraction) = (real K + 1 / 2 < m)" "(fraction = half) = (m = real K + 1 / 2)"
    "(fraction \<noteq> 0) = (m \<noteq> real K)" using fr by (simp_all add: mf)
qed

lemma vmx_round_small_integer:
  assumes "0 < n" and "n \<le> 2 ^ 23"
  shows "value32 (vmx_round mode NearestEven (Exact_from_parts negative (of_nat n) 0 False)) = signed_real negative (real n)"
    and "exp32 (vmx_round mode NearestEven (Exact_from_parts negative (of_nat n) 0 False)) < 255"
    and "neg32 (vmx_round mode NearestEven (Exact_from_parts negative (of_nat n) 0 False)) = negative"
proof -
  define v where "v = signed_real negative (real n)"
  define w where "w = vmx_round mode NearestEven (Exact_from_parts negative (of_nat n) 0 False)"
  have u: "unat (of_nat n :: u128) = n" using assms(2) by (simp add: unsigned_of_nat take_bit_nat_eq_self)
  have "represents (Exact_from_parts negative (of_nat n) 0 False) (real n)" by (simp add: represents_exact u)
  then have d: "vmx_delivers mode negative v w"
    using vmx_round_delivers [of "Exact_from_parts negative (of_nat n) 0 False" "real n" mode] by (simp add: exact_ok_def v_def w_def)
  have big: "1 \<le> \<bar>v\<bar>" "\<bar>v\<bar> \<le> 2 ^ 23" using assms by (simp_all add: v_def signed_real_def)
  have "real n * 2 powi 0 \<in> grid Binary32" using assms by (intro grid_member) simp_all
  then have g: "v \<in> grid Binary32" by (simp add: v_def signed_real_def grid_uminus)
  have nt: "\<not> (mode = NonJava \<and> 0 < \<bar>v\<bar> \<and> \<bar>v\<bar> < 2 powi (- 126))"
  proof -
    have "(2 :: real) powi (- 126) \<le> 1" by simp
    then show ?thesis using big(1) by linarith
  qed
  have nh: "\<not> huge Binary32 v" using big(2) by (simp add: huge_def)
  obtain r where r: "rounds_to Binary32 NearestEven v r"
      "if huge Binary32 r then exp32 w = 255 \<and> frac32 w = 0 else exp32 w < 255 \<and> value32 w = r" and "neg32 w = (v < 0 \<or> v = 0 \<and> negative)"
    using d unfolding vmx_delivers_def if_not_P [OF nt] by blast
  moreover have "r = v" using rounds_to_member [OF g r(1)] .
  ultimately have "exp32 w < 255 \<and> value32 w = v" "neg32 w = (v < 0 \<or> v = 0 \<and> negative)" using nh by simp_all
  then show "value32 w = v" "exp32 w < 255" "neg32 w = negative" using assms(1) by (auto simp: v_def signed_real_def)
qed

lemma vmx_round_integer_fraction:
  assumes b: "exp32 b < 255" and u: "vmx_unpack mode b = Op_Finite x" and n: "ex_negative x = neg32 b" and st: "\<not> ex_sticky x"
    and s: "unat (ex_significand x) < 2 ^ 24" and e: "ex_exponent x < 0" and r: "represents x m"
  shows "\<exists>k. int_rounded rounding (signed_real (neg32 b) m) k \<and> value32 (vmx_round_integer mode rounding b) = of_int k \<and>
    neg32 (vmx_round_integer mode rounding b) = neg32 b \<and> exp32 (vmx_round_integer mode rounding b) < 255"
proof -
  define d where "d = nat \<bar>ex_exponent x\<bar>"
  define K where "K = unat (ex_significand x) div 2 ^ d"
  obtain whole fraction half where p: "integer_parts (ex_significand x) d = (whole, fraction, half)" by (metis prod_cases3)
  have d: "0 < d" "ex_exponent x = - int d" using e by (simp_all add: d_def)
  have m: "m = real (unat (ex_significand x)) / 2 ^ d" using r st d(2) by (simp add: represents_exact power_int_minus divide_inverse)
  note i = integer_parts_exact [OF s d(1) K_def m p]
  define up where "up = round_increment rounding (neg32 b) (m = real K + 1 / 2) (real K + 1 / 2 < m) (m \<noteq> real K) (odd K)"
  define N where "N = K + (if up then 1 else 0)"
  have up: "(case rounding of NearestEven \<Rightarrow> half < fraction \<or> fraction = half \<and> whole AND 1 = 1 | TowardZero \<Rightarrow> False
      | TowardPositive \<Rightarrow> fraction \<noteq> 0 \<and> \<not> neg32 b | TowardNegative \<Rightarrow> fraction \<noteq> 0 \<and> neg32 b) = up"
    unfolding up_def round_increment_def i(2-4) and_1_odd i(1) by (cases rounding) auto
  have "unat (ex_significand x) div 2 ^ d \<le> unat (ex_significand x) div 2 ^ 1" using d(1) by (intro div_le_mono2 power_increasing) simp_all
  then have K: "K < 2 ^ 23" using s by (simp add: K_def)
  have N: "whole + (if up then 1 else 0) = of_nat N"
    using i(1) K by (intro unat_eqI) (auto simp: N_def unsigned_of_nat take_bit_nat_eq_self unat_plus_no_wrap)
  have "N < 2 ^ 128" using K by (simp add: N_def)
  then have "unat (of_nat N :: u128) = N" by (simp add: unsigned_of_nat take_bit_nat_eq_self)
  then have N0: "(of_nat N :: u128) = 0 \<longleftrightarrow> N = 0" unfolding unat_0_iff [symmetric] by simp
  have nan: "vmx_nan [b] = None" using b by (simp add: vmx_nan_None)
  have res: "vmx_round_integer mode rounding b = (if N = 0 then push_bit 31 (u32_from (neg32 b))
      else vmx_round mode NearestEven (Exact_from_parts (neg32 b) (of_nat N) 0 False))"
    unfolding vmx_round_integer_def nan u option.case Operand.case if_P [OF e] Let_def d_def [symmetric] p prod.case n up N N0 ..
  have "int_rounded rounding (signed_real (neg32 b) m) (if neg32 b then - int N else int N)"
    by (rule int_rounded_cut [OF i(5,6) up_def]) (simp add: N_def)
  moreover have "real_of_int (if neg32 b then - int N else int N) = signed_real (neg32 b) (real N)" by (simp add: signed_real_def)
  moreover have "N \<le> 2 ^ 23" using K by (simp add: N_def)
  ultimately show ?thesis using vmx_round_small_integer [of N mode "neg32 b"] sign_word32 [of "neg32 b"]
    by (intro exI [of _ "if neg32 b then - int N else int N"], cases "N = 0") (simp_all add: res enc_value_def)
qed

text \<open>
  C?: Rounding a vector word to an integer is exact: on every finite word, in either mode and
  under each of the four rounding modes, the result is the finite encoding, with the sign of
  the operand, of the correctly rounded integer of the value the mode reads.
\<close>
theorem vmx_round_integer_exact:
  assumes "exp32 b < 255"
  shows "\<exists>k. int_rounded rounding (vmx_value mode b) k \<and> value32 (vmx_round_integer mode rounding b) = of_int k \<and>
    neg32 (vmx_round_integer mode rounding b) = neg32 b \<and> exp32 (vmx_round_integer mode rounding b) < 255"
proof -
  have nan: "vmx_nan [b] = None" using assms by (simp add: vmx_nan_None)
  consider (zero) "exp32 b = 0 \<and> (frac32 b = 0 \<or> mode = NonJava)" | (fin) "exp32 b \<noteq> 0 \<or> frac32 b \<noteq> 0 \<and> mode = Java"
    using word_classes [of b mode] assms by auto
  then show ?thesis
  proof cases
    case zero
    then have "vmx_value mode b = 0" by (auto simp: vmx_value_def enc_value_def)
    moreover have "int_rounded rounding 0 0" by (cases rounding) (simp_all add: int_rounded_def)
    moreover have "vmx_round_integer mode rounding b = push_bit 31 (u32_from (neg32 b))"
      using zero nan vmx_unpack_zero [of b mode] by (simp add: vmx_round_integer_def)
    ultimately show ?thesis using sign_word32 [of "neg32 b"] by (intro exI [of _ 0]) (simp add: enc_value_def)
  next
    case fin
    define m where "m = mag_of_fields Binary32 (exp32 b) (frac32 b)"
    obtain x where x: "vmx_unpack mode b = Op_Finite x" "ex_negative x = neg32 b" "\<not> ex_sticky x" "unat (ex_significand x) < 2 ^ 24" "represents x m"
      using vmx_unpack_finite [OF assms fin] unfolding m_def by blast
    have v: "vmx_value mode b = signed_real (neg32 b) m" "value32 b = signed_real (neg32 b) m"
      using fin by (auto simp: vmx_value_def enc_value_def m_def)
    show ?thesis
    proof (cases "ex_exponent x < 0")
      case True
      show ?thesis using vmx_round_integer_fraction [OF assms x(1-4) True x(5)] by (simp add: v(1))
    next
      case False
      define N where "N = unat (ex_significand x) * 2 ^ nat (ex_exponent x)"
      have "m = real N" using x(3,5) False by (simp add: represents_exact N_def power_int_nonneg_exp)
      moreover have "int_rounded rounding (signed_real (neg32 b) (real N)) (if neg32 b then - int N else int N)"
        using int_rounded_cut [of N "real N" False rounding "neg32 b" "int N"] by (simp add: round_increment_def split: Rounding.split)
      moreover have "vmx_round_integer mode rounding b = b" using False nan by (simp add: vmx_round_integer_def x(1))
      ultimately show ?thesis using assms v
        by (intro exI [of _ "if neg32 b then - int N else int N"]) (simp add: signed_real_def)
    qed
  qed
qed

theorem vmx_round_integer_exact_witness:
  "\<exists>k. int_rounded TowardPositive (vmx_value Java 0xC0200000) k \<and> value32 (vmx_round_integer Java TowardPositive 0xC0200000) = of_int k \<and>
    neg32 (vmx_round_integer Java TowardPositive 0xC0200000) = neg32 0xC0200000 \<and> exp32 (vmx_round_integer Java TowardPositive 0xC0200000) < 255"
  by (rule vmx_round_integer_exact) (simp add: enc_exp_def)

section \<open>Saturating conversions\<close>

definition toward_zero :: "real \<Rightarrow> int" where
  "toward_zero v = (if 0 \<le> v then \<lfloor>v\<rfloor> else \<lceil>v\<rceil>)"

lemma toward_zero_signed: "0 \<le> t \<Longrightarrow> toward_zero (signed_real negative t) = (if negative then - \<lfloor>t\<rfloor> else \<lfloor>t\<rfloor>)"
  by (auto simp: toward_zero_def signed_real_def ceiling_minus)

lemma sint_small:
  assumes "unat (x :: u128) \<le> 2 ^ 64"
  shows "sint (if negative then - x else x) = (if negative then - int (unat x) else int (unat x))"
proof -
  have x: "x = of_int (int (unat x))" by (simp add: of_nat_unat)
  have s: "sint (of_int k :: u128) = k" if "- (2 ^ 127) \<le> k" "k < 2 ^ 127" for k
    using that by (simp add: signed_of_int signed_take_bit_int_eq_self)
  have "int (unat x) \<le> 2 ^ 64" using assms by (simp only: of_nat_le_numeral_power_cancel_iff)
  then have "sint (of_int (- int (unat x)) :: u128) = - int (unat x)" "sint (of_int (int (unat x)) :: u128) = int (unat x)"
    by (intro s; simp)+
  then have "sint (- x) = - int (unat x)" "sint x = int (unat x)" unfolding of_int_minus x [symmetric] by blast+
  then show ?thesis by (cases negative) (simp_all only: if_True if_False)
qed

text \<open>Two integers that every clamp into 64 bits takes for the same.\<close>

definition same_when_clamped :: "int \<Rightarrow> int \<Rightarrow> bool" where
  "same_when_clamped j k \<longleftrightarrow> j = k \<or> j = 2 ^ 64 \<and> 2 ^ 64 \<le> k \<or> j = - (2 ^ 64) \<and> k \<le> - (2 ^ 64)"

lemma same_when_clampedD:
  assumes "same_when_clamped j k" and "- (2 ^ 63) \<le> lo" and "lo \<le> hi" and "hi < 2 ^ 63"
  shows "max lo (min hi j) = max lo (min hi k)" and "max lo (min hi j) \<noteq> j \<longleftrightarrow> k \<notin> {lo .. hi}"
  using assms unfolding same_when_clamped_def by (auto simp: max_def min_def)

lemma truncated_magnitude_exact:
  assumes s: "unat sig < 2 ^ 24" "sig \<noteq> 0" and e: "\<bar>e\<bar> \<le> 2 ^ 30 + 200"
  shows "unat (truncated_magnitude sig e) \<le> 2 ^ 64"
    and "same_when_clamped (int (unat (truncated_magnitude sig e))) \<lfloor>real (unat sig) * 2 powi e\<rfloor>"
proof -
  define w where "w = bit_length (unat sig)"
  have w: "128 - leading_zeros sig = w" using width_minus_leading_zeros [of sig] by (simp add: w_def)
  have w24: "w \<le> 24" "1 \<le> w" using s bit_length_le_iff [of "unat sig" 24] by (auto simp: w_def unat_0_iff Suc_le_eq)
  have wb: "unat sig < 2 ^ w" "2 ^ (w - 1) \<le> unat sig" using bit_length_bounds [of "unat sig"] s(2) by (simp_all add: w_def unat_0_iff)
  have i: "wrap_i32 (int w + e) = int w + e" "wrap_i32 (- e) = - e" using e w24 by simp_all
  have "unat (truncated_magnitude sig e) \<le> 2 ^ 64 \<and> same_when_clamped (int (unat (truncated_magnitude sig e))) \<lfloor>real (unat sig) * 2 powi e\<rfloor>"
  proof (cases "0 \<le> e")
    case True
    have t: "\<lfloor>real (unat sig) * 2 powi e\<rfloor> = int (unat sig * 2 ^ nat e)"
    proof -
      have "real (unat sig) * 2 powi e = real_of_int (int (unat sig * 2 ^ nat e))" using True by (simp add: power_int_nonneg_exp)
      then show ?thesis by (simp only: floor_of_int)
    qed
    show ?thesis
    proof (cases "64 < int w + e")
      case big: True
      have "(2 :: nat) ^ 64 \<le> 2 ^ (w - 1 + nat e)" using big w24 True by (intro power_increasing) linarith+
      also have "\<dots> \<le> unat sig * 2 ^ nat e" using wb(2) by (simp add: power_add)
      finally have "2 ^ 64 \<le> int (unat sig * 2 ^ nat e)" using of_nat_le_iff [of "2 ^ 64" "unat sig * 2 ^ nat e", where 'a = int] by simp
      moreover have "unat (truncated_magnitude sig e) = 2 ^ 64" using big True by (simp add: truncated_magnitude_def w i BEYOND_def)
      ultimately show ?thesis by (simp add: same_when_clamped_def t)
    next
      case small: False
      have "unat sig * 2 ^ nat e < 2 ^ w * 2 ^ nat e" using wb(1) by simp
      also have "\<dots> \<le> 2 ^ 64" using small True by (simp only: power_add [symmetric]) (rule power_increasing, linarith, simp)
      finally have lt: "unat sig * 2 ^ nat e < 2 ^ 64" .
      have "unat (truncated_magnitude sig e) = unat sig * 2 ^ nat e"
        using small True lt w24 by (simp add: truncated_magnitude_def w i) (subst unat_shl, simp_all)
      then show ?thesis using lt by (simp add: same_when_clamped_def t)
    qed
  next
    case False
    define k where "k = nat (- e)"
    have k: "e = - int k" "0 < k" using False by (simp_all add: k_def)
    have t: "\<lfloor>real (unat sig) * 2 powi e\<rfloor> = int (unat sig div 2 ^ k)"
      using floor_divide_of_nat_eq [of "unat sig" "2 ^ k"] by (simp add: k(1) power_int_minus divide_inverse)
    have "unat (truncated_magnitude sig e) = unat sig div 2 ^ k"
    proof (cases "int w \<le> int k")
      case True
      then have "(2 :: nat) ^ w \<le> 2 ^ k" by (intro power_increasing) simp_all
      then have "unat sig < 2 ^ k" using wb(1) by linarith
      then show ?thesis using True False i(2) by (simp add: truncated_magnitude_def w k(1))
    next
      case lt: False
      then show ?thesis using False i(2) w24 by (simp add: truncated_magnitude_def w k(1) unat_shr)
    qed
    moreover have "unat sig div 2 ^ k < 2 ^ 24" using s(1) by (rule order_le_less_trans [OF div_le_dividend])
    ultimately show ?thesis by (simp add: same_when_clamped_def t)
  qed
  then show "unat (truncated_magnitude sig e) \<le> 2 ^ 64" "same_when_clamped (int (unat (truncated_magnitude sig e))) \<lfloor>real (unat sig) * 2 powi e\<rfloor>"
    by blast+
qed

lemma scaled_toward_zero_exact:
  assumes sc: "unat scale < 2 ^ 30" and nn: "\<not> nan_word b"
  shows "\<exists>value. scaled_toward_zero mode b scale = Some value \<and>
    same_when_clamped (sint value) (toward_zero (vmx_value mode b * 2 ^ unat scale))"
proof -
  have ss: "sint scale = int (unat scale)"
    using sc by (simp add: sint_uint uint_nat signed_take_bit_int_eq_self)
  have signed: "same_when_clamped (if neg32 b then - int j else int j) (toward_zero (signed_real (neg32 b) t))"
    if "same_when_clamped (int j) \<lfloor>t\<rfloor>" "0 \<le> t" for j t
    using that by (auto simp: same_when_clamped_def toward_zero_signed)
  consider (inf) "exp32 b = 255" | (zero) "exp32 b = 0 \<and> (frac32 b = 0 \<or> mode = NonJava)"
    | (fin) "exp32 b < 255" "exp32 b \<noteq> 0 \<or> frac32 b \<noteq> 0 \<and> mode = Java" using word_classes by blast
  then show ?thesis
  proof cases
    case inf
    then have f: "frac32 b = 0" using nn by (simp add: nan_word_def)
    define t :: real where "t = 2 ^ 128 * 2 ^ unat scale"
    have v: "vmx_value mode b * 2 ^ unat scale = signed_real (neg32 b) t"
      using inf f by (simp add: vmx_value_def enc_value_def mag_of_fields_def signed_real_def t_def)
    have "(2 :: real) ^ 128 * 1 \<le> t" unfolding t_def by (intro mult_left_mono) simp_all
    then have t: "same_when_clamped (int (2 ^ 64)) \<lfloor>t\<rfloor>" "0 \<le> t" by (simp_all add: le_floor_iff same_when_clamped_def)
    have B: "unat BEYOND = 2 ^ 64" "unat BEYOND \<le> 2 ^ 64" by (simp_all add: BEYOND_def)
    have "same_when_clamped (sint (if neg32 b then - BEYOND else BEYOND)) (toward_zero (signed_real (neg32 b) t))"
      unfolding sint_small [OF B(2)] B(1) by (rule signed [OF t])
    then show ?thesis using vmx_unpack_special [OF inf, of mode] f
      by (simp add: scaled_toward_zero_def Let_def v)
  next
    case zero
    then have "vmx_value mode b = 0" by (auto simp: vmx_value_def enc_value_def)
    then show ?thesis using vmx_unpack_zero [of b mode] zero
      by (simp add: scaled_toward_zero_def Let_def same_when_clamped_def toward_zero_def)
  next
    case fin
    obtain x where x: "vmx_unpack mode b = Op_Finite x" "ex_negative x = neg32 b" "\<not> ex_sticky x" "ex_significand x \<noteq> 0"
        "unat (ex_significand x) < 2 ^ 24" "- 150 < ex_exponent x" "ex_exponent x < 106" "represents x (mag_of_fields Binary32 (exp32 b) (frac32 b))"
      using vmx_unpack_finite [OF fin] by blast
    define e where "e = ex_exponent x + int (unat scale)"
    define t where "t = real (unat (ex_significand x)) * 2 powi e"
    have e: "\<bar>e\<bar> \<le> 2 ^ 30 + 200" "wrap_i32 (ex_exponent x + sint scale) = e" using sc x(6,7) by (simp_all add: e_def ss)
    have v: "vmx_value mode b * 2 ^ unat scale = signed_real (neg32 b) t"
      using fin x(3,8) by (auto simp: vmx_value_def enc_value_def represents_exact signed_real_def t_def e_def power_int_add)
    note tm = truncated_magnitude_exact [OF x(5,4) e(1)]
    have "same_when_clamped (sint (if neg32 b then - truncated_magnitude (ex_significand x) e else truncated_magnitude (ex_significand x) e))
        (toward_zero (signed_real (neg32 b) t))"
      using signed [OF tm(2)] by (subst sint_small [OF tm(1)]) (simp add: t_def)
    then show ?thesis by (simp add: scaled_toward_zero_def Let_def v x(1,2) e(2))
  qed
qed

text \<open>
  The conversions of a vector word to a signed or unsigned word truncate toward zero and
  saturate. For every word that is not a NaN, infinities included, the result is the scaled
  value truncated and clamped to the target's range, and the saturation bit is set exactly when
  the truncated value is outside that range; a NaN converts to zero without saturation.
\<close>
theorem vmx_to_integer_saturates:
  assumes "unat scale < 2 ^ 30"
  shows "vmx_to_signed mode b scale =
      (if nan_word b then (0, False)
       else let k = toward_zero (vmx_value mode b * 2 ^ unat scale)
            in (of_int (max (- (2 ^ 31)) (min (2 ^ 31 - 1) k)), k \<notin> {- (2 ^ 31) .. 2 ^ 31 - 1})) \<and>
    vmx_to_unsigned mode b scale =
      (if nan_word b then (0, False)
       else let k = toward_zero (vmx_value mode b * 2 ^ unat scale)
            in (of_int (max 0 (min (2 ^ 32 - 1) k)), k \<notin> {0 .. 2 ^ 32 - 1}))"
proof (cases "nan_word b")
  case True
  then have "scaled_toward_zero mode b scale = None"
    using vmx_unpack_special [of b mode] by (simp add: nan_word_def scaled_toward_zero_def Let_def)
  with True show ?thesis by (simp add: vmx_to_signed_def vmx_to_unsigned_def)
next
  case False
  define k where "k = toward_zero (vmx_value mode b * 2 ^ unat scale)"
  obtain j where j: "scaled_toward_zero mode b scale = Some j" "same_when_clamped (sint j) k"
    using scaled_toward_zero_exact [OF assms False, of mode] unfolding k_def by blast
  have r: "- (2 ^ 63) \<le> (- (2 ^ 31) :: int)" "(- (2 ^ 31) :: int) \<le> 2 ^ 31 - 1" "(2 ^ 31 - 1 :: int) < 2 ^ 63"
    "- (2 ^ 63) \<le> (0 :: int)" "(0 :: int) \<le> 2 ^ 32 - 1" "(2 ^ 32 - 1 :: int) < 2 ^ 63" by simp_all
  note s = same_when_clampedD [OF j(2) r(1-3)] same_when_clampedD [OF j(2) r(4-6)]
  show ?thesis unfolding vmx_to_signed_def vmx_to_unsigned_def j(1) option.case Let_def k_def [symmetric] s(2,4) unfolding s(1,3)
    using False by simp
qed

theorem vmx_to_integer_saturates_witness:
  "vmx_to_signed Java 0xCF800000 1 =
      (if nan_word 0xCF800000 then (0, False)
       else let k = toward_zero (vmx_value Java 0xCF800000 * 2 ^ unat (1 :: u32))
            in (of_int (max (- (2 ^ 31)) (min (2 ^ 31 - 1) k)), k \<notin> {- (2 ^ 31) .. 2 ^ 31 - 1}))"
  using vmx_to_integer_saturates [of 1 Java "0xCF800000"] by simp

end
