(* ===== verification/Float_Estimate.thy ===== *)
theory Float_Estimate
  imports Float_Vmx Float_Ppc
begin

text \<open>
  \<^verbatim>\<open>cellgov_float/src/fp_estimate.rs\<close> and \<^verbatim>\<open>vmx_estimate.rs\<close>: the reciprocal, reciprocal square root,
  exponential and logarithm estimates of the scalar and vector units, with their tables. An
  index out of a table's range is a panic, \<^const>\<open>None\<close>.
\<close>

section \<open>Scalar estimates\<close>

definition index_table :: "'a list \<Rightarrow> nat \<Rightarrow> 'a option" where
  "index_table xs i = (if i < length xs then Some (xs ! i) else None)"

definition RECIPROCAL :: "u64 list" where
  "RECIPROCAL =
     [0x7F0000, 0x7D0800, 0x7B1800, 0x793000, 0x775000, 0x757000, 0x73A000, 0x71E000,
      0x700000, 0x6E4000, 0x6CA000, 0x6AE000, 0x694000, 0x678000, 0x660000, 0x646000,
      0x62C000, 0x614000, 0x5FC000, 0x5E4000, 0x5CC000, 0x5B4000, 0x59C000, 0x584000,
      0x570000, 0x558000, 0x540000, 0x52C000, 0x518000, 0x500000, 0x4EC000, 0x4D8000,
      0x4C0000, 0x4B0000, 0x498000, 0x488000, 0x474000, 0x460000, 0x44C000, 0x438000,
      0x428000, 0x418000, 0x400000, 0x3F0000, 0x3E0000, 0x3D0000, 0x3BC000, 0x3AC000,
      0x398000, 0x388000, 0x378000, 0x368000, 0x358000, 0x348000, 0x338000, 0x328000,
      0x318000, 0x308000, 0x2F8000, 0x2EC000, 0x2E0000, 0x2D0000, 0x2C0000, 0x2B0000,
      0x2A0000, 0x298000, 0x288000, 0x278000, 0x26C000, 0x260000, 0x250000, 0x244000,
      0x238000, 0x228000, 0x220000, 0x210000, 0x200000, 0x1F8000, 0x1E8000, 0x1E0000,
      0x1D0000, 0x1C8000, 0x1B8000, 0x1B0000, 0x1A0000, 0x198000, 0x190000, 0x180000,
      0x178000, 0x168000, 0x160000, 0x158000, 0x148000, 0x140000, 0x138000, 0x128000,
      0x120000, 0x118000, 0x108000, 0x100000, 0x0F8000, 0x0F0000, 0x0E0000, 0x0D8000,
      0x0D0000, 0x0C8000, 0x0B8000, 0x0B0000, 0x0A8000, 0x0A0000, 0x098000, 0x090000,
      0x080000, 0x078000, 0x070000, 0x068000, 0x060000, 0x058000, 0x050000, 0x048000,
      0x040000, 0x038000, 0x030000, 0x028000, 0x020000, 0x018000, 0x010000, 0x000000]"

definition RSQRT_EVEN_POWER :: "u64 list" where
  "RSQRT_EVEN_POWER =
     [0x788000, 0x6C0000, 0x600000, 0x540000, 0x4C0000, 0x440000, 0x400000, 0x380000]"

definition RSQRT_ODD_POWER :: "u64 list" where
  "RSQRT_ODD_POWER =
     [0x300000, 0x260000, 0x1E0000, 0x180000, 0x100000, 0x0C0000, 0x080000, 0x040000]"

text \<open>The unbiased exponent and fraction of a nonzero finite double, a denormal normalized first.\<close>

definition normalized :: "u64 \<Rightarrow> int \<times> u64" where
  "normalized b =
     (let biased = uint (drop_bit 52 b AND 0x7FF);
          fraction = b AND PPC_FRACTION
      in if biased \<noteq> 0 then (biased - 1023, fraction)
         else let top_bit = as_u32 (63 - int (leading_zeros fraction))
              in (wrap_i32 (wrap_i32 (int top_bit) - 1074), shl fraction (as_u32 (52 - int top_bit)) AND PPC_FRACTION))"

definition fres_estimate :: "u64 \<Rightarrow> u64 option" where
  "fres_estimate b =
     (if ppc_is_nan b then Some (b OR PPC_QUIET)
      else
        let sign = b AND PPC_SIGN;
            biased = uint (drop_bit 52 b AND 0x7FF)
        in if b AND NOT PPC_SIGN = PPC_INFINITY then Some sign
           else if biased = 0 then Some (sign OR PPC_INFINITY)
           else
             let pow2 = 1022 - biased
             in if pow2 > 127 then Some (sign OR PPC_INFINITY)
                else if pow2 < - 150 then Some sign
                else map_option (\<lambda>t. sign OR push_bit 52 (of_int (pow2 + 1023)) OR push_bit 29 t)
                       (index_table RECIPROCAL (unat (drop_bit 45 b AND 0x7F))))"

definition fres_scaled_estimate :: "u64 \<Rightarrow> PpcStatus \<Rightarrow> u64 option" where
  "fres_scaled_estimate b status =
     (let adjustment = exponent_adjustment Prec_Single;
          shift = (if st_ox status then - adjustment else adjustment);
          (exponent, fraction) = normalized b;
          pow2 = wrap_i32 (wrap_i32 (wrap_i32 (- exponent) - 1) + shift)
      in map_option (\<lambda>t. b AND PPC_SIGN OR push_bit 52 (of_int (wrap_i32 (pow2 + 1023))) OR push_bit 29 t)
           (index_table RECIPROCAL (unat (drop_bit 45 fraction))))"

definition rsqrt_power :: "int \<Rightarrow> int" where
  "rsqrt_power exponent =
     (if exponent smod 2 = 0 then wrap_i32 (- (exponent sdiv 2)) - 1
      else wrap_i32 (- (wrap_i32 (exponent - 1) div 2)) - 1)"

definition frsqrte_estimate :: "u64 \<Rightarrow> u64 option" where
  "frsqrte_estimate b =
     (if ppc_is_nan b then Some (b OR PPC_QUIET)
      else if b AND NOT PPC_SIGN = 0 then Some (b OR PPC_INFINITY)
      else if b AND PPC_SIGN \<noteq> 0 then Some PPC_GENERATED_NAN
      else if b = PPC_INFINITY then Some 0
      else
        let (exponent, fraction) = normalized b;
            table = (if exponent smod 2 = 0 then RSQRT_EVEN_POWER else RSQRT_ODD_POWER)
        in map_option (\<lambda>t. push_bit 52 (of_int (wrap_i32 (rsqrt_power exponent + 1023))) OR push_bit 29 t)
             (index_table table (unat (drop_bit 49 fraction))))"

section \<open>Vector estimates\<close>

definition VMX_RECIPROCAL :: "(u32 \<times> u32) list" where
  "VMX_RECIPROCAL =
     [(0x7FF800, 3972), (0x783800, 3740), (0x70EA00, 3524), (0x6A0800, 3328), (0x638800, 3148), (0x5D6200, 2984),
      (0x579000, 2832), (0x520800, 2688), (0x4CC800, 2556), (0x47CA00, 2436), (0x430800, 2324), (0x3E8000, 2216),
      (0x3A2C00, 2120), (0x360800, 2028), (0x321400, 1940), (0x2E4A00, 1860), (0x2AA800, 1784), (0x272C00, 1712),
      (0x23D600, 1644), (0x209E00, 1580), (0x1D8800, 1520), (0x1A9000, 1464), (0x17AE00, 1388), (0x14F800, 1388),
      (0x124400, 1292), (0x0FBE00, 1292), (0x0D3800, 1204), (0x0ADE00, 1204), (0x088400, 1128), (0x065000, 1128),
      (0x041C00, 1056), (0x020C00, 1048)]"

definition VMX_RSQRT_EVEN_POWER :: "(u32 \<times> u32) list" where
  "VMX_RSQRT_EVEN_POWER =
     [(0x7FF400, 1956), (0x785200, 1792), (0x715400, 1648), (0x6AE400, 1522), (0x64F200, 1412), (0x5F6E00, 1316),
      (0x5A4C00, 1228), (0x558000, 1150), (0x510200, 1082), (0x4CCA00, 1018), (0x48D000, 962), (0x450E00, 910),
      (0x418200, 862), (0x3E2400, 818), (0x3AF200, 778), (0x37E800, 742)]"

definition VMX_RSQRT_ODD_POWER :: "(u32 \<times> u32) list" where
  "VMX_RSQRT_ODD_POWER =
     [(0x34FD00, 1384), (0x2F9700, 1267), (0x2AA500, 1165), (0x261800, 1077), (0x21E400, 999), (0x1DFE00, 930),
      (0x1A5C00, 869), (0x16F800, 814), (0x13CA00, 764), (0x10CE00, 720), (0x0DFE00, 680), (0x0B5700, 643),
      (0x08D400, 609), (0x067300, 579), (0x043100, 550), (0x020B00, 523)]"

definition LOG2 :: "(u32 \<times> nat \<times> u32 \<times> u32) list" where
  "LOG2 =
     [(0, 1, 3, 0), (192, 2, 5, 0), (352, 2, 5, 0), (512, 3, 9, 0), (656, 3, 9, 0), (800, 3, 9, 0),
      (944, 0, 1, 0), (1072, 0, 1, 0), (1200, 0, 1, 0), (1327, 3, 7, 7), (1439, 3, 7, 7), (1551, 3, 7, 7),
      (1663, 2, 3, 3), (1759, 2, 3, 3), (1855, 2, 3, 3), (1951, 2, 3, 3)]"

definition VMX_SIGN :: u32 where "VMX_SIGN = 0x80000000"
definition VMX_INFINITY :: u32 where "VMX_INFINITY = 0x7F800000"
definition VMX_ONE :: u32 where "VMX_ONE = 0x3F800000"
definition MIN_NORMAL :: u32 where "MIN_NORMAL = 0x00800000"
definition MINUS_126_MAGNITUDE :: u32 where "MINUS_126_MAGNITUDE = 0x42FC0000"

definition reads_as_zero :: "VmxMode \<Rightarrow> u32 \<Rightarrow> bool" where
  "reads_as_zero mode b \<longleftrightarrow> b AND NOT VMX_SIGN = 0 \<or> (mode = NonJava \<and> b AND VMX_INFINITY = 0)"

definition vmx_normalized :: "u32 \<Rightarrow> int \<times> u32" where
  "vmx_normalized b =
     (let biased = uint (drop_bit 23 b AND 0xFF);
          fraction = b AND 0x7FFFFF
      in if biased \<noteq> 0 then (biased - 127, fraction)
         else let top_bit = as_u32 (31 - int (leading_zeros fraction))
              in (wrap_i32 (wrap_i32 (int top_bit) - 149), shl fraction (as_u32 (23 - int top_bit)) AND 0x7FFFFF))"

definition estimate_pack :: "VmxMode \<Rightarrow> u32 \<Rightarrow> int \<Rightarrow> u32 \<Rightarrow> u32" where
  "estimate_pack mode sign pow2 fraction =
     (let biased = wrap_i32 (pow2 + 127)
      in if biased \<ge> 255 then sign OR VMX_INFINITY
         else if biased \<ge> 1 then sign OR push_bit 23 (of_int biased) OR fraction
         else
           let shift = as_u32 (wrap_i32 (1 - biased))
           in if mode = NonJava \<or> shift > 24 then sign
              else
                let significand = fraction OR 0x800000;
                    kept = shr significand shift;
                    rest = significand AND (shl 1 shift - 1);
                    half = shl 1 (shift - 1)
                in sign OR (kept + u32_from (rest > half \<or> (rest = half \<and> kept AND 1 = 1))))"

definition vmx_reciprocal_estimate :: "VmxMode \<Rightarrow> u32 \<Rightarrow> u32 option" where
  "vmx_reciprocal_estimate mode b =
     (case vmx_nan [b] of
        Some nan \<Rightarrow> Some nan
      | None \<Rightarrow>
          (let sign = b AND VMX_SIGN
           in if reads_as_zero mode b then Some (sign OR VMX_INFINITY)
              else if b AND NOT VMX_SIGN = VMX_INFINITY then Some sign
              else
                let (exponent, fraction) = vmx_normalized b
                in if exponent = 126 \<and> fraction = 0 then Some (sign OR MIN_NORMAL)
                   else map_option
                     (\<lambda>(start, slope).
                        let step = drop_bit 9 (fraction AND 0x3FFFF)
                        in estimate_pack mode sign (wrap_i32 (wrap_i32 (- exponent) - 1)) (start - slope * step div 4))
                     (index_table VMX_RECIPROCAL (unat (drop_bit 18 fraction)))))"

definition vmx_rsqrt_estimate :: "VmxMode \<Rightarrow> u32 \<Rightarrow> u32 option" where
  "vmx_rsqrt_estimate mode b =
     (case vmx_nan [b] of
        Some nan \<Rightarrow> Some nan
      | None \<Rightarrow>
          if reads_as_zero mode b then Some (b AND VMX_SIGN OR VMX_INFINITY)
          else if b AND VMX_SIGN \<noteq> 0 then Some VMX_DEFAULT_NAN
          else if b = VMX_INFINITY then Some 0
          else
            let (exponent, fraction) = vmx_normalized b;
                table = (if exponent smod 2 = 0 then VMX_RSQRT_EVEN_POWER else VMX_RSQRT_ODD_POWER)
            in map_option
                 (\<lambda>(start, slope).
                    let step = drop_bit 9 (fraction AND 0x7FFFF);
                        quarters = 4 * start - slope * step;
                        whole = drop_bit 2 quarters;
                        rest = quarters AND 3;
                        rounded = whole + u32_from (rest > 2 \<or> (rest = 2 \<and> whole AND 1 = 1))
                    in estimate_pack mode 0 (rsqrt_power exponent) rounded)
                 (index_table table (unat (drop_bit 19 fraction))))"

text \<open>The table fraction of two to the power \<open>f / 2 ^ 15\<close>, in units of \<open>2 ^ -11\<close>.\<close>

definition exp2_fraction :: "u32 \<Rightarrow> u32" where
  "exp2_fraction f =
     (if f < 8192 then drop_bit 4 f - drop_bit 6 f
      else if f < 14336 then drop_bit 4 f - drop_bit 7 f - 64
      else if f < 20480 then drop_bit 4 f - 176
      else if f < 26624 then drop_bit 4 f + drop_bit 7 f - 335
      else if f < 30720 then drop_bit 4 f + drop_bit 6 f - 543
      else drop_bit 4 f + drop_bit 5 f - 1023)"

text \<open>The magnitude as a fixed-point number with 15 fraction bits, truncated.\<close>

definition exp2_fixed :: "int \<Rightarrow> u32 \<Rightarrow> int" where
  "exp2_fixed exponent fraction =
     (let shift = wrap_i32 (wrap_i32 (exponent + 15) - 23);
          magnitude = uint (fraction OR 0x800000)
      in if shift \<ge> 8 then 2 ^ 30
         else if shift \<ge> 0 then magnitude * 2 ^ nat shift
         else if shift \<ge> - 63 then magnitude div 2 ^ nat (- shift)
         else 0)"

definition vmx_exp2_estimate :: "VmxMode \<Rightarrow> u32 \<Rightarrow> u32" where
  "vmx_exp2_estimate mode b =
     (case vmx_nan [b] of
        Some nan \<Rightarrow> nan
      | None \<Rightarrow>
          if b = VMX_SIGN OR VMX_INFINITY then 0
          else if b = VMX_INFINITY then VMX_INFINITY
          else if reads_as_zero mode b then VMX_ONE
          else if b AND VMX_SIGN \<noteq> 0 \<and> b AND NOT VMX_SIGN > MINUS_126_MAGNITUDE then 0
          else
            let (exponent, fraction) = vmx_normalized b;
                fixed = exp2_fixed exponent fraction
            in if fixed \<ge> 2 ^ 30 then (if b AND VMX_SIGN \<noteq> 0 then 0 else VMX_INFINITY)
               else
                 let fixed = (if b AND VMX_SIGN \<noteq> 0 then - fixed else fixed);
                     pow2 = fixed div 2 ^ 15
                 in if pow2 < - 126 then 0
                    else estimate_pack mode 0 pow2 (push_bit 12 (exp2_fraction (of_int (fixed mod 2 ^ 15)))))"

definition vmx_log2_estimate :: "VmxMode \<Rightarrow> u32 \<Rightarrow> u32 option" where
  "vmx_log2_estimate mode b =
     (case vmx_nan [b] of
        Some nan \<Rightarrow> Some nan
      | None \<Rightarrow>
          if reads_as_zero mode b then Some (VMX_SIGN OR VMX_INFINITY)
          else if b AND VMX_SIGN \<noteq> 0 then Some VMX_DEFAULT_NAN
          else if b = VMX_INFINITY then Some VMX_INFINITY
          else
            let (exponent, fraction) = vmx_normalized b;
                index = drop_bit 12 fraction
            in map_option
                 (\<lambda>(start, shift, slope, offset).
                    let entry = start + shr (slope * (index AND 127) + offset) shift;
                        val = wrap_i32 (wrap_i32 (exponent * 2048) + sint entry)
                    in if val = 0 then 0
                       else
                         let magnitude = (of_int \<bar>val\<bar> :: u32);
                             top_bit = as_u32 (31 - int (leading_zeros magnitude));
                             fraction = shl magnitude (as_u32 (23 - int top_bit)) AND 0x7FFFFF
                         in push_bit 31 (u32_from (val < 0)) OR push_bit 23 (of_nat top_bit + 116) OR fraction)
                 (index_table LOG2 (unat (drop_bit 7 index))))"

end
