(* ===== verification/Float_Estimate_Proofs.thy ===== *)
theory Float_Estimate_Proofs
  imports Float_Estimate Float_Convert_Proofs
begin

text \<open>
  The scalar estimates are within the architecture's error bounds of the real reciprocal and
  reciprocal square root, by a check of each table entry over its whole interval, and no
  estimate indexes a table out of its range.
\<close>

section \<open>Tables\<close>

definition fres_entry_ok :: "nat \<Rightarrow> nat \<Rightarrow> bool" where
  "fres_entry_ok i t \<longleftrightarrow> t < 2 ^ 23 \<and> 255 * 2 ^ 23 \<le> (2 ^ 23 + t) * (128 + i) \<and> (2 ^ 23 + t) * (129 + i) \<le> 257 * 2 ^ 23"

definition rsqrt_entry_ok :: "nat \<Rightarrow> nat \<Rightarrow> nat \<Rightarrow> bool" where
  "rsqrt_entry_ok k i t \<longleftrightarrow> t < 2 ^ 23 \<and> 961 * 2 ^ k \<le> (2 ^ 23 + t)\<^sup>2 * (8 + i) \<and> (2 ^ 23 + t)\<^sup>2 * (9 + i) \<le> 1089 * 2 ^ k"

lemma enumerate_nth: "list_all (\<lambda>(i, x). P i x) (enumerate n xs) \<Longrightarrow> i < length xs \<Longrightarrow> P (n + i) (xs ! i)"
  by (auto simp: list_all_length nth_enumerate_eq)

lemma RECIPROCAL_ok: "i < 128 \<Longrightarrow> fres_entry_ok i (unat (RECIPROCAL ! i))" and length_RECIPROCAL: "length RECIPROCAL = 128"
proof -
  show l: "length RECIPROCAL = 128" by (simp add: RECIPROCAL_def)
  have "list_all (\<lambda>(i, x). fres_entry_ok i (unat x)) (enumerate 0 RECIPROCAL)"
    by (simp add: RECIPROCAL_def fres_entry_ok_def)
  then show "i < 128 \<Longrightarrow> fres_entry_ok i (unat (RECIPROCAL ! i))" using enumerate_nth [of "\<lambda>i x. fres_entry_ok i (unat x)" 0 RECIPROCAL i] l by simp
qed

lemma RSQRT_ok:
  "i < 8 \<Longrightarrow> rsqrt_entry_ok 41 i (unat (RSQRT_EVEN_POWER ! i))" "i < 8 \<Longrightarrow> rsqrt_entry_ok 40 i (unat (RSQRT_ODD_POWER ! i))"
  and length_RSQRT: "length RSQRT_EVEN_POWER = 8" "length RSQRT_ODD_POWER = 8"
proof -
  show l: "length RSQRT_EVEN_POWER = 8" "length RSQRT_ODD_POWER = 8" by (simp_all add: RSQRT_EVEN_POWER_def RSQRT_ODD_POWER_def)
  have "list_all (\<lambda>(i, x). rsqrt_entry_ok 41 i (unat x)) (enumerate 0 RSQRT_EVEN_POWER)"
    "list_all (\<lambda>(i, x). rsqrt_entry_ok 40 i (unat x)) (enumerate 0 RSQRT_ODD_POWER)"
    by (simp_all add: RSQRT_EVEN_POWER_def RSQRT_ODD_POWER_def rsqrt_entry_ok_def)
  then show "i < 8 \<Longrightarrow> rsqrt_entry_ok 41 i (unat (RSQRT_EVEN_POWER ! i))" "i < 8 \<Longrightarrow> rsqrt_entry_ok 40 i (unat (RSQRT_ODD_POWER ! i))"
    using enumerate_nth [of "\<lambda>i x. rsqrt_entry_ok 41 i (unat x)" 0 RSQRT_EVEN_POWER i]
      enumerate_nth [of "\<lambda>i x. rsqrt_entry_ok 40 i (unat x)" 0 RSQRT_ODD_POWER i] l by simp_all
qed

section \<open>Fields\<close>

lemma exponent_bits: "uint (drop_bit 52 b AND 0x7FF) = int (exp64 b)"
proof -
  have "unat (drop_bit 52 b AND (shl 1 11 - 1)) = unat (drop_bit 52 b) mod 2 ^ 11" by (rule unat_and_mask) simp
  then have "unat (drop_bit 52 b AND 0x7FF) = exp64 b" by (simp add: shl_def unat_drop_bit_div enc_exp_def)
  then show ?thesis by (simp add: uint_nat)
qed

lemma index_bits: "unat (drop_bit 45 b AND 0x7F) = frac64 b div 2 ^ 45"
proof -
  have "unat (drop_bit 45 b AND (shl 1 7 - 1)) = unat (drop_bit 45 b) mod 2 ^ 7" by (rule unat_and_mask) simp
  then have "unat (drop_bit 45 b AND 0x7F) = unat b div 2 ^ 45 mod 2 ^ 7" by (simp add: shl_def unat_drop_bit_div)
  also have "\<dots> = frac64 b div 2 ^ 45"
  proof -
    have "unat b mod (2 ^ 45 * 2 ^ 7) = unat b div 2 ^ 45 mod 2 ^ 7 * 2 ^ 45 + unat b mod 2 ^ 45" using mod_mult2_eq [of "unat b" "2 ^ 45" "2 ^ 7"] by simp
    then show ?thesis using div_mod_field(1) [of "unat b mod 2 ^ 45" "2 ^ 45" "unat b div 2 ^ 45 mod 2 ^ 7"] by (simp add: enc_frac_def)
  qed
  finally show ?thesis .
qed

lemma fraction_bits: "unat (b AND PPC_FRACTION) = frac64 b"
proof -
  have "PPC_FRACTION = shl 1 52 - 1" by (simp add: PPC_FRACTION_def shl_def)
  moreover have "unat (b AND (shl 1 52 - 1)) = unat b mod 2 ^ 52" by (rule unat_and_mask) simp
  ultimately show ?thesis by (simp add: enc_frac_def)
qed

text \<open>The word a table entry and an exponent make.\<close>

lemma sign_of: "b AND PPC_SIGN = sign_bit Binary64 (neg64 b)"
proof -
  have "PPC_SIGN = push_bit 63 (mask 1)" by (simp add: PPC_SIGN_def)
  then have "unat (b AND PPC_SIGN) = unat b div 2 ^ 63 mod 2 * 2 ^ 63"
    using and_push_mask [where k = 63 and n = 1 and w = b] by simp
  then show ?thesis by (intro unat_eqI) (auto simp: sign_bit_def enc_neg_def shl_def odd_iff_mod_2_eq_one)
qed

lemma estimate_word:
  assumes E: "0 < E" "E < 2047" and t: "unat t < 2 ^ 23" and w: "w = sign_bit Binary64 negative OR push_bit 52 (of_int E) OR push_bit 29 t"
  shows "exp64 w = nat E" and "value64 w = signed_real negative (real (2 ^ 23 + unat t) * 2 powi (E - 1046))"
proof -
  have u: "unat (push_bit 29 t) = unat t * 2 ^ 29"
    using t unat_shl [of 29 t] by (simp add: shl_def)
  note nf = normal_field [of Binary64 E "push_bit 29 t", simplified, unfolded u]
  have lt: "unat t * 2 ^ 29 < 2 ^ 52" using t by simp
  have f: "unat (push_bit 52 (of_int E) OR push_bit 29 t :: u64) = nat E * 2 ^ 52 + unat t * 2 ^ 29" "nat E * 2 ^ 52 + unat t * 2 ^ 29 < 2 ^ 63"
    using nf E t by (simp_all add: shl_def)
  note s = enc_sign_or [of Binary64 "push_bit 52 (of_int E) OR push_bit 29 t" w negative, simplified, OF f(2) [folded f(1), simplified]]
  have e: "exp64 w = nat E" "frac64 w = unat t * 2 ^ 29" "neg64 w = negative"
    using s w lt unfolding f(1) by (simp_all add: or.assoc)
  then show "exp64 w = nat E" by simp
  have "2 ^ 52 + real (unat t * 2 ^ 29) = real (2 ^ 23 + unat t) * 2 ^ 29" by simp
  moreover have "(2 :: real) powi (E - 1046) = 2 ^ 29 * 2 powi (E - 1023 - 52)" using powi_add_nat [of "E - 1023 - 52" 29] by simp
  ultimately show "value64 w = signed_real negative (real (2 ^ 23 + unat t) * 2 powi (E - 1046))"
    unfolding enc_value_def mag_of_fields_def e using E(1) by (simp add: algebra_simps)
qed

section \<open>Accuracy of the scalar estimates\<close>

lemma fres_bound:
  assumes "v = real n * 2 powi (- 76)" "255 * 2 ^ 68 \<le> n" "n \<le> 257 * 2 ^ 68"
  shows "\<bar>v - 1\<bar> \<le> 1 / 256"
proof -
  have "real (255 * 2 ^ 68) \<le> real n" "real n \<le> real (257 * 2 ^ 68)" using assms(2,3) by (simp_all only: of_nat_le_iff)
  then have n: "255 * 2 ^ 68 \<le> real n" "real n \<le> 257 * 2 ^ 68" by (simp_all only: of_nat_mult of_nat_power of_nat_numeral)
  have "v = real n / 2 ^ 76" unfolding assms(1) divide_inverse by simp
  with n have "255 / 256 \<le> v" "v \<le> 257 / 256" by simp_all
  then show ?thesis by linarith
qed

lemma fres_accurate:
  assumes "895 \<le> exp64 b" "exp64 b \<le> 1172"
  shows "\<exists>r. fres_estimate b = Some r \<and> exp64 r < 2047 \<and> \<bar>value64 r * value64 b - 1\<bar> \<le> 1 / 256"
proof -
  define i where "i = frac64 b div 2 ^ 45"
  define A where "A = 2 ^ 52 + frac64 b"
  define t where "t = RECIPROCAL ! i"
  define E where "E = 2045 - int (exp64 b)"
  define r where "r = sign_bit Binary64 (neg64 b) OR push_bit 52 (of_int E) OR push_bit 29 t"
  have i: "i < 128" using fields64_lt(2) [of b] by (simp add: i_def div_less_iff_less_mult)
  have t: "unat t < 2 ^ 23" "255 * 2 ^ 23 \<le> (2 ^ 23 + unat t) * (128 + i)" "(2 ^ 23 + unat t) * (129 + i) \<le> 257 * 2 ^ 23"
    using RECIPROCAL_ok [OF i] by (simp_all add: fres_entry_ok_def t_def)
  have "frac64 b = i * 2 ^ 45 + frac64 b mod 2 ^ 45" unfolding i_def by (simp only: div_mult_mod_eq)
  then have A: "2 ^ 45 * (128 + i) \<le> A" "A \<le> 2 ^ 45 * (129 + i)" using mod_less_divisor [of "2 ^ 45" "frac64 b"] by (simp_all add: A_def)
  have "255 * 2 ^ 23 * 2 ^ 45 \<le> (2 ^ 23 + unat t) * (2 ^ 45 * (128 + i))" using mult_le_mono1 [OF t(2), of "2 ^ 45"] by (simp only: ac_simps)
  also have "\<dots> \<le> (2 ^ 23 + unat t) * A" by (rule mult_le_mono2 [OF A(1)])
  finally have lo: "255 * 2 ^ 68 \<le> (2 ^ 23 + unat t) * A" by simp
  have "(2 ^ 23 + unat t) * A \<le> (2 ^ 23 + unat t) * (2 ^ 45 * (129 + i))" by (rule mult_le_mono2 [OF A(2)])
  also have "\<dots> \<le> 257 * 2 ^ 23 * 2 ^ 45" using mult_le_mono1 [OF t(3), of "2 ^ 45"] by (simp only: ac_simps)
  finally have hi: "(2 ^ 23 + unat t) * A \<le> 257 * 2 ^ 68" by simp
  have E: "0 < E" "E < 2047" using assms by (simp_all add: E_def)
  note w = estimate_word [OF E t(1) r_def]
  have vb: "value64 b = signed_real (neg64 b) (real A * 2 powi (int (exp64 b) - 1075))"
    using assms by (simp add: enc_value_def mag_of_fields_def A_def)
  have p: "(2 :: real) powi (E - 1046) * 2 powi (int (exp64 b) - 1075) = 2 powi (- 76)"
    by (simp add: E_def flip: power_int_add)
  have "value64 r * value64 b = real (2 ^ 23 + unat t) * real A * (2 powi (E - 1046) * 2 powi (int (exp64 b) - 1075))"
    unfolding w(2) vb by (cases "neg64 b") (simp_all add: signed_real_def)
  then have "value64 r * value64 b = real ((2 ^ 23 + unat t) * A) * 2 powi (- 76)" unfolding p by simp
  then have "\<bar>value64 r * value64 b - 1\<bar> \<le> 1 / 256" using lo hi by (rule fres_bound)
  moreover have "fres_estimate b = Some r"
  proof -
    have "\<not> ppc_is_nan b" "\<not> b AND NOT PPC_SIGN = PPC_INFINITY"
      using finite_not_special(1,3) [of b] assms(2) by (simp_all add: is_infinity_def)
    then show ?thesis using assms i
      unfolding fres_estimate_def Let_def exponent_bits index_bits i_def [symmetric]
      by (simp add: index_table_def length_RECIPROCAL sign_of r_def t_def E_def algebra_simps)
  qed
  ultimately show ?thesis using w(1) E by auto
qed

lemma normalized_value:
  assumes "exp64 b < 2047" "exp64 b \<noteq> 0 \<or> frac64 b \<noteq> 0" and n: "normalized b = (e, fraction)"
  shows "unat fraction < 2 ^ 52" and "- 1074 \<le> e" and "e \<le> 1023"
    and "mag_of_fields Binary64 (exp64 b) (frac64 b) = real (2 ^ 52 + unat fraction) * 2 powi (e - 52)"
proof -
  have "unat fraction < 2 ^ 52 \<and> - 1074 \<le> e \<and> e \<le> 1023 \<and>
    mag_of_fields Binary64 (exp64 b) (frac64 b) = real (2 ^ 52 + unat fraction) * 2 powi (e - 52)"
  proof (cases "exp64 b = 0")
    case False
    then have "e = int (exp64 b) - 1023" "fraction = b AND PPC_FRACTION" using n by (simp_all add: normalized_def Let_def exponent_bits)
    then show ?thesis using False assms(1) fields64_lt(2) [of b] fraction_bits [of b] by (simp add: mag_of_fields_def)
  next
    case True
    define f where "f = frac64 b"
    define tp where "tp = bit_length f - 1"
    have f: "f \<noteq> 0" "f < 2 ^ 52" using True assms(2) fields64_lt(2) [of b] by (simp_all add: f_def)
    have tp: "tp \<le> 51" "bit_length f = tp + 1"
      using f bit_length_le_iff [of f 52] bit_length_pos [of f] by (simp_all add: tp_def)
    have fb: "2 ^ tp \<le> f" "f < 2 ^ (tp + 1)" using bit_length_bounds [of f] f(1) tp(2) by simp_all
    have lz: "leading_zeros (b AND PPC_FRACTION) = 63 - tp" using tp by (simp add: leading_zeros_def fraction_bits f_def)
    have ef: "e = int tp - 1074" "fraction = shl (b AND PPC_FRACTION) (52 - tp) AND PPC_FRACTION"
      using n True tp(1) by (simp_all add: normalized_def Let_def exponent_bits lz of_nat_diff nat_diff_distrib)
    define g where "g = f * 2 ^ (52 - tp)"
    have pw: "(2 :: nat) ^ tp * 2 ^ (52 - tp) = 2 ^ 52" using tp(1) by (simp flip: power_add)
    have "2 ^ tp * 2 ^ (52 - tp) \<le> g" "g < 2 ^ (tp + 1) * 2 ^ (52 - tp)" unfolding g_def using fb by simp_all
    then have g: "2 ^ 52 \<le> g" "g < 2 * 2 ^ 52" using pw by simp_all
    have "unat (shl (b AND PPC_FRACTION) (52 - tp)) = g"
      using g(2) tp(1) by (subst unat_shl) (simp_all add: fraction_bits f_def g_def)
    then have fr: "unat fraction = g - 2 ^ 52" unfolding ef(2) fraction_bits using g by (simp add: enc_frac_def mod_if)
    have "real g * 2 powi (int tp - 1074 - 52) = real f * (2 powi (int (52 - tp)) * 2 powi (int tp - 1074 - 52))"
      by (simp add: g_def)
    also have "\<dots> = real f * 2 powi (- 1074)" using tp(1) by (simp add: of_nat_diff flip: power_int_add)
    finally have "real (2 ^ 52 + unat fraction) * 2 powi (e - 52) = real f * 2 powi (- 1074)"
      using g(1) fr ef(1) by simp
    then show ?thesis using True tp(1) g fr ef(1) by (simp add: mag_of_fields_def f_def)
  qed
  then show "unat fraction < 2 ^ 52" "- 1074 \<le> e" "e \<le> 1023"
    "mag_of_fields Binary64 (exp64 b) (frac64 b) = real (2 ^ 52 + unat fraction) * 2 powi (e - 52)" by blast+
qed

lemma rsqrt_power_eq:
  assumes "- 1074 \<le> e" "e \<le> 1023"
  shows "2 * rsqrt_power e + e = (if even e then - 2 else - 1)" and "- 513 \<le> rsqrt_power e" "rsqrt_power e \<le> 536"
proof -
  have sm: "e smod 2 = 0 \<longleftrightarrow> even e" using smod_2 [of e] by blast
  have "2 * rsqrt_power e + e = (if even e then - 2 else - 1) \<and> - 513 \<le> rsqrt_power e \<and> rsqrt_power e \<le> 536"
  proof (cases "even e")
    case True
    then obtain k where k: "e = 2 * k" by (rule evenE)
    then have "e sdiv 2 = k" unfolding signed_divide_int_def sgn_if by (simp add: abs_if) presburger
    then have "rsqrt_power e = - k - 1" using True assms k unfolding rsqrt_power_def sm [THEN iffD2, OF True] by simp
    then show ?thesis using True assms k by simp
  next
    case False
    then obtain k where k: "e = 2 * k + 1" by (rule oddE)
    then have "rsqrt_power e = - k - 1" using False assms sm unfolding rsqrt_power_def by simp
    then show ?thesis using False assms k by simp
  qed
  then show "2 * rsqrt_power e + e = (if even e then - 2 else - 1)" "- 513 \<le> rsqrt_power e" "rsqrt_power e \<le> 536" by blast+
qed

lemma rsqrt_bound:
  assumes x: "x * x = real n * 2 powi (- int (k + 59))" "0 \<le> x" and n: "961 * 2 ^ (k + 49) \<le> n" "n \<le> 1089 * 2 ^ (k + 49)"
  shows "\<bar>x - 1\<bar> \<le> 1 / 32"
proof -
  define c :: real where "c = 2 ^ (k + 49)"
  have c: "0 < c" by (simp add: c_def)
  have "real (961 * 2 ^ (k + 49)) \<le> real n" "real n \<le> real (1089 * 2 ^ (k + 49))" using n by (simp_all only: of_nat_le_iff)
  then have rn: "961 * c \<le> real n" "real n \<le> 1089 * c" by (simp_all add: c_def)
  have "(2 :: real) powi (- int (k + 59)) = inverse (2 ^ (k + 59))" by (simp only: power_int_minus power_int_of_nat)
  then have "(2 :: real) powi (- int (k + 59)) = inverse (c * 1024)" by (simp only: c_def power_add) simp
  then have "x * x = real n / (c * 1024)" unfolding x(1) divide_inverse by (simp only:)
  moreover have "961 / 1024 \<le> real n / (c * 1024)" "real n / (c * 1024) \<le> 1089 / 1024" using rn c by (simp_all add: field_simps)
  ultimately have "961 / 1024 \<le> x * x" "x * x \<le> 1089 / 1024" by (simp_all only:)
  then have "(31 / 32)\<^sup>2 \<le> x\<^sup>2" "x\<^sup>2 \<le> (33 / 32)\<^sup>2" by (simp_all add: power2_eq_square)
  then have "31 / 32 \<le> x" "x \<le> 33 / 32" using x(2) by (simp_all add: power2_le_iff_abs_le abs_le_square_iff [symmetric])
  then show ?thesis by linarith
qed

lemma rsqrt_table_entry:
  assumes t: "rsqrt_entry_ok k (unat fraction div 2 ^ 49) (unat t)"
  shows "961 * 2 ^ (k + 49) \<le> (2 ^ 23 + unat t)\<^sup>2 * (2 ^ 52 + unat (fraction :: u64))"
    and "(2 ^ 23 + unat t)\<^sup>2 * (2 ^ 52 + unat fraction) \<le> 1089 * 2 ^ (k + 49)"
proof -
  define i where "i = unat fraction div 2 ^ 49"
  define a where "a = (2 ^ 23 + unat t)\<^sup>2"
  have a: "961 * 2 ^ k \<le> a * (8 + i)" "a * (9 + i) \<le> 1089 * 2 ^ k" using t by (simp_all add: rsqrt_entry_ok_def a_def i_def)
  have "unat fraction = i * 2 ^ 49 + unat fraction mod 2 ^ 49" unfolding i_def by (simp only: div_mult_mod_eq)
  then have A: "2 ^ 49 * (8 + i) \<le> 2 ^ 52 + unat fraction" "2 ^ 52 + unat fraction \<le> 2 ^ 49 * (9 + i)"
    using mod_less_divisor [of "2 ^ 49" "unat fraction"] by simp_all
  have "961 * 2 ^ (k + 49) = (961 * 2 ^ k * 2 ^ 49 :: nat)" by (simp add: power_add)
  also have "\<dots> \<le> a * (2 ^ 49 * (8 + i))" using mult_le_mono1 [OF a(1), of "2 ^ 49"] by (simp only: ac_simps)
  also have "\<dots> \<le> a * (2 ^ 52 + unat fraction)" by (rule mult_le_mono2 [OF A(1)])
  finally show "961 * 2 ^ (k + 49) \<le> (2 ^ 23 + unat t)\<^sup>2 * (2 ^ 52 + unat fraction)" by (simp only: a_def)
  have "a * (2 ^ 52 + unat fraction) \<le> a * (2 ^ 49 * (9 + i))" by (rule mult_le_mono2 [OF A(2)])
  also have "\<dots> \<le> 1089 * 2 ^ k * 2 ^ 49" using mult_le_mono1 [OF a(2), of "2 ^ 49"] by (simp only: ac_simps)
  also have "\<dots> = 1089 * 2 ^ (k + 49)" by (simp add: power_add)
  finally show "(2 ^ 23 + unat t)\<^sup>2 * (2 ^ 52 + unat fraction) \<le> 1089 * 2 ^ (k + 49)" by (simp only: a_def)
qed

lemma frsqrte_accurate:
  assumes b: "exp64 b < 2047" "0 < value64 b"
  shows "\<exists>r. frsqrte_estimate b = Some r \<and> exp64 r < 2047 \<and> \<bar>value64 r * sqrt (value64 b) - 1\<bar> \<le> 1 / 32"
proof -
  have m0: "0 \<le> mag_of_fields Binary64 (exp64 b) (frac64 b)" by (simp add: mag_of_fields_def)
  have neg: "\<not> neg64 b" using b(2) m0 by (auto simp: enc_value_def signed_real_def)
  have nz: "exp64 b \<noteq> 0 \<or> frac64 b \<noteq> 0" using b(2) by (rule contrapos_pp) (simp add: enc_value_def mag_of_fields_def)
  obtain e fraction where n: "normalized b = (e, fraction)" by (cases "normalized b")
  note nv = normalized_value [OF b(1) nz n]
  note p = rsqrt_power_eq [OF nv(2,3)]
  define k where "k = (if even e then 41 else 40 :: nat)"
  define i where "i = unat fraction div 2 ^ 49"
  define t where "t = (if even e then RSQRT_EVEN_POWER else RSQRT_ODD_POWER) ! i"
  define r where "r = sign_bit Binary64 False OR push_bit 52 (of_int (rsqrt_power e + 1023)) OR push_bit 29 t"
  have i: "i < 8" using nv(1) by (simp add: i_def div_less_iff_less_mult)
  have t: "rsqrt_entry_ok k i (unat t)" using RSQRT_ok [OF i] by (simp add: t_def k_def)
  have E: "0 < rsqrt_power e + 1023" "rsqrt_power e + 1023 < 2047" using p(2,3) by simp_all
  have t23: "unat t < 2 ^ 23" using t by (simp add: rsqrt_entry_ok_def)
  note w = estimate_word [OF E t23 r_def]
  define a where "a = 2 ^ 23 + unat t"
  define A where "A = 2 ^ 52 + unat fraction"
  have vb: "value64 b = real A * 2 powi (e - 52)" using nv(4) neg by (simp add: enc_value_def signed_real_def A_def)
  have vr: "value64 r = real a * 2 powi (rsqrt_power e - 23)" using w(2) by (simp add: signed_real_def a_def)
  have "value64 r * sqrt (value64 b) * (value64 r * sqrt (value64 b)) = value64 r * value64 r * value64 b"
    using b(2) by (simp add: algebra_simps)
  also have "\<dots> = real (a\<^sup>2 * A) * (2 powi (rsqrt_power e - 23) * 2 powi (rsqrt_power e - 23) * 2 powi (e - 52))"
    unfolding vr vb by (simp add: power2_eq_square)
  also have "(2 :: real) powi (rsqrt_power e - 23) * 2 powi (rsqrt_power e - 23) * 2 powi (e - 52) = 2 powi (2 * rsqrt_power e + e - 98)"
    by (simp add: algebra_simps flip: power_int_add)
  also have "2 * rsqrt_power e + e - 98 = - int (k + 59)" using p(1) by (simp add: k_def)
  finally have sq: "value64 r * sqrt (value64 b) * (value64 r * sqrt (value64 b)) = real (a\<^sup>2 * A) * 2 powi (- int (k + 59))" .
  have "0 \<le> value64 r * sqrt (value64 b)" using b(2) by (simp add: vr)
  from rsqrt_bound [OF sq this] have acc: "\<bar>value64 r * sqrt (value64 b) - 1\<bar> \<le> 1 / 32"
    using rsqrt_table_entry [OF t [unfolded i_def]] by (simp only: a_def A_def)
  have "frsqrte_estimate b = Some r"
  proof -
    have "\<not> ppc_is_nan b" "b AND NOT PPC_SIGN \<noteq> 0" "b AND PPC_SIGN = 0" "b \<noteq> PPC_INFINITY"
      using finite_not_special(1,3) [OF b(1)] nz neg sign_set [of b] is_zero_iff [of b] by (auto simp: is_zero_def is_infinity_def PPC_INFINITY_def PPC_SIGN_def)
    moreover have "e smod 2 = 0 \<longleftrightarrow> even e" using smod_2 [of e] by blast
    moreover have "unat (drop_bit 49 fraction) = i" by (simp only: unat_drop_bit_div i_def)
    moreover have "wrap_i32 (rsqrt_power e + 1023) = rsqrt_power e + 1023" using E by simp
    ultimately show ?thesis using i unfolding frsqrte_estimate_def n Let_def
      by (simp add: index_table_def length_RSQRT r_def t_def sign_bit_def shl_def)
  qed
  then show ?thesis using acc w(1) E by auto
qed

text \<open>
  C17: The scalar estimates are as accurate as the architecture asks. For every double whose
  reciprocal the estimate does not replace by its range edges, the product of the reciprocal
  estimate and the operand is within 1/256 of one; for every positive finite double, denormals
  included, the reciprocal square root estimate times the real root is within 1/32 of one.
\<close>
theorem scalar_estimates_accurate:
  "(895 \<le> exp64 b \<and> exp64 b \<le> 1172 \<longrightarrow>
      (\<exists>r. fres_estimate b = Some r \<and> exp64 r < 2047 \<and> \<bar>value64 r * value64 b - 1\<bar> \<le> 1 / 256)) \<and>
   (exp64 b < 2047 \<and> 0 < value64 b \<longrightarrow>
      (\<exists>r. frsqrte_estimate b = Some r \<and> exp64 r < 2047 \<and> \<bar>value64 r * sqrt (value64 b) - 1\<bar> \<le> 1 / 32))"
  using fres_accurate frsqrte_accurate by blast

theorem scalar_estimates_accurate_witness:
  "\<exists>r. fres_estimate 0x4008000000000000 = Some r \<and> exp64 r < 2047 \<and> \<bar>value64 r * value64 0x4008000000000000 - 1\<bar> \<le> 1 / 256"
  using scalar_estimates_accurate [of "0x4008000000000000"] by (simp add: enc_exp_def)

section \<open>No index is out of range\<close>

lemma index_table_some: "i < length xs \<Longrightarrow> index_table xs i = Some (xs ! i)"
  by (simp add: index_table_def)

lemma normalized_index:
  "unat (drop_bit 45 (snd (normalized b))) < 128" "unat (drop_bit 49 (snd (normalized b))) < 8"
proof -
  have "\<exists>w. snd (normalized b) = w AND PPC_FRACTION" by (auto simp: normalized_def Let_def)
  then have "unat (snd (normalized b)) < 2 ^ 52" using fields64_lt(2) by (auto simp: fraction_bits)
  then show "unat (drop_bit 45 (snd (normalized b))) < 128" "unat (drop_bit 49 (snd (normalized b))) < 8"
    by (simp_all add: unat_drop_bit_div div_less_iff_less_mult)
qed

lemma vmx_normalized_index:
  "unat (drop_bit 18 (snd (vmx_normalized b))) < 32" "unat (drop_bit 19 (snd (vmx_normalized b))) < 16"
  "unat (drop_bit 7 (drop_bit 12 (snd (vmx_normalized b)))) < 16"
proof -
  have "unat (w AND 0x7FFFFF) = unat w mod 2 ^ 23" for w :: u32 using unat_and_mask [of 23 w] by (simp add: shl_def)
  moreover have "\<exists>w. snd (vmx_normalized b) = w AND 0x7FFFFF" by (auto simp: vmx_normalized_def Let_def)
  ultimately have "unat (snd (vmx_normalized b)) < 2 ^ 23" by auto
  then show "unat (drop_bit 18 (snd (vmx_normalized b))) < 32" "unat (drop_bit 19 (snd (vmx_normalized b))) < 16"
    "unat (drop_bit 7 (drop_bit 12 (snd (vmx_normalized b)))) < 16"
    by (simp_all add: unat_drop_bit_div div_less_iff_less_mult)
qed

lemma length_vmx_tables:
  "length VMX_RECIPROCAL = 32" "length VMX_RSQRT_EVEN_POWER = 16" "length VMX_RSQRT_ODD_POWER = 16" "length LOG2 = 16"
  by (simp_all add: VMX_RECIPROCAL_def VMX_RSQRT_EVEN_POWER_def VMX_RSQRT_ODD_POWER_def LOG2_def)

text \<open>
  C40: No estimate ever panics. Whatever the operand word, the mode and the status, every table
  the scalar and vector estimates read is indexed within its length, so each returns a word.
\<close>
theorem estimates_total:
  "(\<exists>r. fres_estimate b = Some r) \<and> (\<exists>r. fres_scaled_estimate b status = Some r) \<and> (\<exists>r. frsqrte_estimate b = Some r) \<and>
   (\<exists>r. vmx_reciprocal_estimate mode w = Some r) \<and> (\<exists>r. vmx_rsqrt_estimate mode w = Some r) \<and>
   (\<exists>r. vmx_log2_estimate mode w = Some r)"
proof -
  have i: "unat (drop_bit 45 b AND 0x7F) < 128" using fields64_lt(2) [of b] by (simp add: index_bits div_less_iff_less_mult)
  note idx = index_table_some length_RECIPROCAL length_RSQRT length_vmx_tables normalized_index vmx_normalized_index
  have "\<exists>r. fres_estimate b = Some r" using i by (simp add: fres_estimate_def Let_def idx)
  moreover have "\<exists>r. fres_scaled_estimate b status = Some r" by (simp add: fres_scaled_estimate_def Let_def idx case_prod_beta)
  moreover have "\<exists>r. frsqrte_estimate b = Some r" by (simp add: frsqrte_estimate_def Let_def idx case_prod_beta)
  moreover have "\<exists>r. vmx_reciprocal_estimate mode w = Some r"
    by (simp add: vmx_reciprocal_estimate_def Let_def idx case_prod_beta split: option.split)
  moreover have "\<exists>r. vmx_rsqrt_estimate mode w = Some r"
    by (simp add: vmx_rsqrt_estimate_def Let_def idx case_prod_beta split: option.split)
  moreover have "\<exists>r. vmx_log2_estimate mode w = Some r"
    using vmx_normalized_index(3) [of w]
    by (simp add: vmx_log2_estimate_def Let_def index_table_def length_vmx_tables case_prod_beta split: option.split)
  ultimately show ?thesis by blast
qed

end
