(* ===== verification/Explore_Footprint.thy ===== *)
theory Explore_Footprint
  imports Effects Reservation
begin

text \<open>
  The dependency relation of the schedule explorer (\<^verbatim>\<open>cellgov_explore/src/dependency.rs\<close>):
  the footprint of a step, the shared resources its effects touch, and the six clauses of
  \<^verbatim>\<open>conflicts\<close> that decide whether a swap of two steps could change what either observes. A
  footprint is a record of vectors; a vector is a list.
\<close>

section \<open>The footprint\<close>

record StepFootprint =
  fp_shared_writes :: "ByteRange list"
  fp_shared_reads :: "ByteRange list"
  fp_mailbox_sends :: "MailboxId list"
  fp_mailbox_receives :: "MailboxId list"
  fp_mailbox_counts :: "MailboxId list"
  fp_dma_writes :: "ByteRange list"
  fp_dma_reads :: "ByteRange list"
  fp_dma_local_stores :: "(UnitId \<times> ByteRange) list"
  fp_signal_updates :: "SignalId list"
  fp_wait_mailboxes :: "MailboxId list"
  fp_wait_signals :: "SignalId list"
  fp_wait_barriers :: "BarrierId list"
  fp_wake_targets :: "UnitId list"
  fp_wait_units :: "UnitId list"
  fp_signal_writes :: "UnitId list"
  fp_local_store_accesses :: "(UnitId \<times> ByteRange) list"
  fp_reservation_lines :: "u64 list"
  fp_held_reservation_lines :: "u64 list"
  fp_inflight_dma_ranges :: "ByteRange list"
  fp_inflight_local_stores :: "(UnitId \<times> ByteRange) list"
  fp_local_store_owner :: "UnitId option"
  fp_reads_clock :: bool
  fp_ppe_sibling_reader :: "UnitId option"
  fp_ppe_status_changes :: "UnitId list"
  fp_ppe_pressure_changer :: "UnitId option"

definition StepFootprint_default :: StepFootprint where
  "StepFootprint_default =
     \<lparr>fp_shared_writes = [],
      fp_shared_reads = [],
      fp_mailbox_sends = [],
      fp_mailbox_receives = [],
      fp_mailbox_counts = [],
      fp_dma_writes = [],
      fp_dma_reads = [],
      fp_dma_local_stores = [],
      fp_signal_updates = [],
      fp_wait_mailboxes = [],
      fp_wait_signals = [],
      fp_wait_barriers = [],
      fp_wake_targets = [],
      fp_wait_units = [],
      fp_signal_writes = [],
      fp_local_store_accesses = [],
      fp_reservation_lines = [],
      fp_held_reservation_lines = [],
      fp_inflight_dma_ranges = [],
      fp_inflight_local_stores = [],
      fp_local_store_owner = None,
      fp_reads_clock = False,
      fp_ppe_sibling_reader = None,
      fp_ppe_status_changes = [],
      fp_ppe_pressure_changer = None\<rparr>"

definition option_or :: "'a option \<Rightarrow> 'a option \<Rightarrow> 'a option" where
  "option_or a b = (case a of Some x \<Rightarrow> Some x | None \<Rightarrow> b)"

abbreviation extend_opt :: "'a list \<Rightarrow> 'a option \<Rightarrow> 'a list" where
  "extend_opt xs o' \<equiv> xs @ (case o' of None \<Rightarrow> [] | Some x \<Rightarrow> [x])"

definition StepFootprint_merge :: "StepFootprint \<Rightarrow> StepFootprint \<Rightarrow> StepFootprint" where
  "StepFootprint_merge other f =
     \<lparr>fp_shared_writes = fp_shared_writes f @ fp_shared_writes other,
      fp_shared_reads = fp_shared_reads f @ fp_shared_reads other,
      fp_mailbox_sends = fp_mailbox_sends f @ fp_mailbox_sends other,
      fp_mailbox_receives = fp_mailbox_receives f @ fp_mailbox_receives other,
      fp_mailbox_counts = fp_mailbox_counts f @ fp_mailbox_counts other,
      fp_dma_writes = fp_dma_writes f @ fp_dma_writes other,
      fp_dma_reads = fp_dma_reads f @ fp_dma_reads other,
      fp_dma_local_stores = fp_dma_local_stores f @ fp_dma_local_stores other,
      fp_signal_updates = fp_signal_updates f @ fp_signal_updates other,
      fp_wait_mailboxes = fp_wait_mailboxes f @ fp_wait_mailboxes other,
      fp_wait_signals = fp_wait_signals f @ fp_wait_signals other,
      fp_wait_barriers = fp_wait_barriers f @ fp_wait_barriers other,
      fp_wake_targets = fp_wake_targets f @ fp_wake_targets other,
      fp_wait_units = fp_wait_units f @ fp_wait_units other,
      fp_signal_writes = fp_signal_writes f @ fp_signal_writes other,
      fp_local_store_accesses = fp_local_store_accesses f @ fp_local_store_accesses other,
      fp_reservation_lines = fp_reservation_lines f @ fp_reservation_lines other,
      fp_held_reservation_lines = fp_held_reservation_lines f @ fp_held_reservation_lines other,
      fp_inflight_dma_ranges = fp_inflight_dma_ranges f @ fp_inflight_dma_ranges other,
      fp_inflight_local_stores = fp_inflight_local_stores f @ fp_inflight_local_stores other,
      fp_local_store_owner = option_or (fp_local_store_owner f) (fp_local_store_owner other),
      fp_reads_clock = (fp_reads_clock f \<or> fp_reads_clock other),
      fp_ppe_sibling_reader = option_or (fp_ppe_sibling_reader f) (fp_ppe_sibling_reader other),
      fp_ppe_status_changes = fp_ppe_status_changes f @ fp_ppe_status_changes other,
      fp_ppe_pressure_changer = option_or (fp_ppe_pressure_changer f) (fp_ppe_pressure_changer other)\<rparr>"


section \<open>From a step's effects\<close>

definition note_wait_target :: "WaitTarget \<Rightarrow> StepFootprint \<Rightarrow> StepFootprint" where
  "note_wait_target target f =
     (case target of
        Wait_Mailbox i \<Rightarrow> f\<lparr>fp_wait_mailboxes := fp_wait_mailboxes f @ [i]\<rparr>
      | Wait_Signal i \<Rightarrow> f\<lparr>fp_wait_signals := fp_wait_signals f @ [i]\<rparr>
      | Wait_Barrier i \<Rightarrow> f\<lparr>fp_wait_barriers := fp_wait_barriers f @ [i]\<rparr>)"

definition note_effect :: "Effect \<Rightarrow> StepFootprint \<Rightarrow> StepFootprint" where
  "note_effect e f =
     (case e of
        SharedWriteIntent rng _ _ _ \<Rightarrow> f\<lparr>fp_shared_writes := fp_shared_writes f @ [rng]\<rparr>
      | SharedReadIntent rng _ \<Rightarrow> f\<lparr>fp_shared_reads := fp_shared_reads f @ [rng]\<rparr>
      | ClockRead _ \<Rightarrow> f\<lparr>fp_reads_clock := True\<rparr>
      | MailboxSend mailbox _ _ \<Rightarrow> f\<lparr>fp_mailbox_sends := fp_mailbox_sends f @ [mailbox]\<rparr>
      | MailboxReceiveAttempt mailbox src \<Rightarrow>
          f\<lparr>fp_mailbox_receives := fp_mailbox_receives f @ [mailbox], fp_wait_units := fp_wait_units f @ [src]\<rparr>
      | MfcInvalidCommand _ _ \<Rightarrow> f
      | MailboxPop mailbox _ _ \<Rightarrow> f\<lparr>fp_mailbox_receives := fp_mailbox_receives f @ [mailbox]\<rparr>
      | DmaEnqueue request payload \<Rightarrow>
          f\<lparr>fp_dma_writes := extend_opt (fp_dma_writes f) (DmaRequest_main_storage_write request),
            fp_dma_reads := extend_opt (fp_dma_reads f) (DmaRequest_main_storage_read (payload \<noteq> None) request),
            fp_dma_local_stores := extend_opt (fp_dma_local_stores f)
              (map_option (\<lambda>rng. (dr_issuer request, rng)) (DmaRequest_local_store_range request))\<rparr>
      | WaitOnEvent target src \<Rightarrow> note_wait_target target (f\<lparr>fp_wait_units := fp_wait_units f @ [src]\<rparr>)
      | WakeUnit target _ \<Rightarrow> f\<lparr>fp_wake_targets := fp_wake_targets f @ [target]\<rparr>
      | SignalUpdate signal _ _ \<Rightarrow> f\<lparr>fp_signal_updates := fp_signal_updates f @ [signal]\<rparr>
      | SpuSignalWrite target _ _ _ \<Rightarrow> f\<lparr>fp_signal_writes := fp_signal_writes f @ [target]\<rparr>
      | SpuLocalStoreWrite target lsa bs _ \<Rightarrow>
          f\<lparr>fp_local_store_accesses := extend_opt (fp_local_store_accesses f)
              (map_option (\<lambda>rng. (target, rng)) (ByteRange_new (GuestAddr (ucast lsa)) (of_nat (length bs))))\<rparr>
      | SpuLocalStoreRead target lsa len _ \<Rightarrow>
          f\<lparr>fp_local_store_accesses := extend_opt (fp_local_store_accesses f)
              (map_option (\<lambda>rng. (target, rng)) (ByteRange_new (GuestAddr (ucast lsa)) (ucast len)))\<rparr>
      | ReservationAcquire line_addr _ \<Rightarrow>
          f\<lparr>fp_reservation_lines := fp_reservation_lines f @ [line_addr AND NOT (RESERVATION_LINE_BYTES - 1)]\<rparr>
      | ConditionalStore rng _ _ _ \<Rightarrow> f\<lparr>fp_shared_writes := fp_shared_writes f @ [rng]\<rparr>
      | FaultRaised _ _ \<Rightarrow> f
      | TraceMarker _ _ \<Rightarrow> f
      | RsxLabelWrite _ _ \<Rightarrow> f
      | RsxFlipRequest _ \<Rightarrow> f)"

definition StepFootprint_from_effects :: "Effect list \<Rightarrow> StepFootprint" where
  "StepFootprint_from_effects effects = fold note_effect effects StepFootprint_default"

definition StepFootprint_from_step :: "UnitId \<Rightarrow> YieldReason \<Rightarrow> Effect list \<Rightarrow> StepFootprint" where
  "StepFootprint_from_step u yielded effects =
     (let f = StepFootprint_from_effects effects
      in if YieldReason_parks_without_an_effect yielded then f\<lparr>fp_wait_units := fp_wait_units f @ [u]\<rparr> else f)"

section \<open>Overlap\<close>

definition ranges_overlap :: "ByteRange list \<Rightarrow> ByteRange list \<Rightarrow> bool" where
  "ranges_overlap a b \<longleftrightarrow> (\<exists>ra \<in> set a. \<exists>rb \<in> set b. ByteRange_overlaps ra rb)"

definition ids_overlap :: "'a list \<Rightarrow> 'a list \<Rightarrow> bool" where
  "ids_overlap a b \<longleftrightarrow> (\<exists>x \<in> set a. \<exists>y \<in> set b. x = y)"

definition local_stores_overlap :: "(UnitId \<times> ByteRange) list \<Rightarrow> (UnitId \<times> ByteRange) list \<Rightarrow> bool" where
  "local_stores_overlap a b \<longleftrightarrow> (\<exists>(ua, ra) \<in> set a. \<exists>(ub, rb) \<in> set b. ua = ub \<and> ByteRange_overlaps ra rb)"

definition write_covers_line :: "ByteRange \<Rightarrow> u64 \<Rightarrow> bool" where
  "write_covers_line w line_addr \<longleftrightarrow>
     (let w_start = GuestAddr_raw (br_start w); w_len = br_length w
      in if w_len = 0 then False
         else let w_end = saturating_add w_start (w_len - 1);
                  line_end = saturating_add line_addr (RESERVATION_LINE_BYTES - 1)
              in w_start \<le> line_end \<and> line_addr \<le> w_end)"

definition write_covers_any_line :: "ByteRange list \<Rightarrow> u64 list \<Rightarrow> bool" where
  "write_covers_any_line writes lines \<longleftrightarrow> (\<exists>w \<in> set writes. \<exists>line_addr \<in> set lines. write_covers_line w line_addr)"

definition lines_overlap :: "u64 list \<Rightarrow> u64 list \<Rightarrow> bool" where
  "lines_overlap a b \<longleftrightarrow> (\<exists>x \<in> set a. \<exists>y \<in> set b. x = y)"

definition owns_inflight_local_store :: "StepFootprint \<Rightarrow> StepFootprint \<Rightarrow> bool" where
  "owns_inflight_local_store during accessor =
     (case fp_local_store_owner accessor of
        None \<Rightarrow> False
      | Some u \<Rightarrow> \<exists>(owner, _) \<in> set (fp_inflight_local_stores during). owner = u)"

definition touches_inflight :: "StepFootprint \<Rightarrow> StepFootprint \<Rightarrow> bool" where
  "touches_inflight during accessor \<longleftrightarrow>
     ranges_overlap (fp_inflight_dma_ranges during) (fp_shared_writes accessor) \<or>
     ranges_overlap (fp_inflight_dma_ranges during) (fp_shared_reads accessor) \<or>
     ranges_overlap (fp_inflight_dma_ranges during) (fp_dma_writes accessor) \<or>
     ranges_overlap (fp_inflight_dma_ranges during) (fp_dma_reads accessor) \<or>
     write_covers_any_line (fp_inflight_dma_ranges during) (fp_reservation_lines accessor) \<or>
     write_covers_any_line (fp_inflight_dma_ranges during) (fp_held_reservation_lines accessor) \<or>
     local_stores_overlap (fp_inflight_local_stores during) (fp_dma_local_stores accessor) \<or>
     local_stores_overlap (fp_inflight_local_stores during) (fp_local_store_accesses accessor) \<or>
     owns_inflight_local_store during accessor"

section \<open>The six clauses\<close>

definition memory_conflict :: "StepFootprint \<Rightarrow> StepFootprint \<Rightarrow> bool" where
  "memory_conflict f other \<longleftrightarrow>
     ranges_overlap (fp_shared_writes f) (fp_shared_writes other) \<or>
     ranges_overlap (fp_shared_reads f) (fp_shared_writes other) \<or>
     ranges_overlap (fp_shared_reads other) (fp_shared_writes f) \<or>
     ranges_overlap (fp_shared_writes f) (fp_dma_writes other) \<or>
     ranges_overlap (fp_shared_writes other) (fp_dma_writes f) \<or>
     ranges_overlap (fp_shared_writes f) (fp_dma_reads other) \<or>
     ranges_overlap (fp_shared_writes other) (fp_dma_reads f) \<or>
     ranges_overlap (fp_shared_reads f) (fp_dma_writes other) \<or>
     ranges_overlap (fp_shared_reads other) (fp_dma_writes f) \<or>
     ranges_overlap (fp_dma_writes f) (fp_dma_writes other) \<or>
     ranges_overlap (fp_dma_writes f) (fp_dma_reads other) \<or>
     ranges_overlap (fp_dma_writes other) (fp_dma_reads f)"

definition mailbox_conflict :: "StepFootprint \<Rightarrow> StepFootprint \<Rightarrow> bool" where
  "mailbox_conflict f other \<longleftrightarrow>
     ids_overlap (fp_mailbox_sends f) (fp_mailbox_receives other) \<or>
     ids_overlap (fp_mailbox_sends other) (fp_mailbox_receives f) \<or>
     ids_overlap (fp_mailbox_sends f) (fp_mailbox_sends other) \<or>
     ids_overlap (fp_mailbox_counts f) (fp_mailbox_sends other) \<or>
     ids_overlap (fp_mailbox_counts other) (fp_mailbox_sends f) \<or>
     ids_overlap (fp_mailbox_counts f) (fp_mailbox_receives other) \<or>
     ids_overlap (fp_mailbox_counts other) (fp_mailbox_receives f) \<or>
     ids_overlap (fp_mailbox_receives f) (fp_mailbox_receives other)"

definition owner_in :: "UnitId option \<Rightarrow> UnitId list \<Rightarrow> bool" where
  "owner_in owner us = (case owner of None \<Rightarrow> False | Some u \<Rightarrow> u \<in> set us)"

definition signal_conflict :: "StepFootprint \<Rightarrow> StepFootprint \<Rightarrow> bool" where
  "signal_conflict f other \<longleftrightarrow>
     ids_overlap (fp_signal_updates f) (fp_signal_updates other) \<or>
     ids_overlap (fp_signal_updates f) (fp_wait_signals other) \<or>
     ids_overlap (fp_signal_updates other) (fp_wait_signals f) \<or>
     ids_overlap (fp_wake_targets f) (fp_wait_units other) \<or>
     ids_overlap (fp_wake_targets other) (fp_wait_units f) \<or>
     ids_overlap (fp_signal_writes f) (fp_signal_writes other) \<or>
     owner_in (fp_local_store_owner other) (fp_signal_writes f) \<or>
     owner_in (fp_local_store_owner f) (fp_signal_writes other) \<or>
     ids_overlap (fp_wait_barriers f) (fp_wait_barriers other)"

definition reaches_owner :: "StepFootprint \<Rightarrow> StepFootprint \<Rightarrow> bool" where
  "reaches_owner access stepper =
     (case fp_local_store_owner stepper of
        None \<Rightarrow> False
      | Some u \<Rightarrow> \<exists>(owner, _) \<in> set (fp_local_store_accesses access). owner = u)"

definition local_store_conflict :: "StepFootprint \<Rightarrow> StepFootprint \<Rightarrow> bool" where
  "local_store_conflict f other \<longleftrightarrow>
     reaches_owner f other \<or> reaches_owner other f \<or>
     local_stores_overlap (fp_local_store_accesses f) (fp_local_store_accesses other)"

definition clears_held :: "StepFootprint \<Rightarrow> StepFootprint \<Rightarrow> bool" where
  "clears_held writer holder \<longleftrightarrow>
     write_covers_any_line (fp_shared_writes writer) (fp_held_reservation_lines holder) \<or>
     write_covers_any_line (fp_dma_writes writer) (fp_held_reservation_lines holder)"

definition reservation_conflict :: "StepFootprint \<Rightarrow> StepFootprint \<Rightarrow> bool" where
  "reservation_conflict f other \<longleftrightarrow>
     write_covers_any_line (fp_shared_writes f) (fp_reservation_lines other) \<or>
     write_covers_any_line (fp_shared_writes other) (fp_reservation_lines f) \<or>
     write_covers_any_line (fp_dma_writes f) (fp_reservation_lines other) \<or>
     write_covers_any_line (fp_dma_writes other) (fp_reservation_lines f) \<or>
     lines_overlap (fp_reservation_lines f) (fp_reservation_lines other) \<or>
     clears_held f other \<or> clears_held other f"

definition rides_a_landing :: "StepFootprint \<Rightarrow> bool" where
  "rides_a_landing f \<longleftrightarrow>
     ranges_overlap (fp_inflight_dma_ranges f) (fp_shared_writes f) \<or>
     ranges_overlap (fp_inflight_dma_ranges f) (fp_shared_reads f) \<or>
     write_covers_any_line (fp_inflight_dma_ranges f) (fp_reservation_lines f) \<or>
     write_covers_any_line (fp_inflight_dma_ranges f) (fp_held_reservation_lines f) \<or>
     local_stores_overlap (fp_inflight_local_stores f) (fp_local_store_accesses f) \<or>
     owns_inflight_local_store f f"

definition sibling_moved :: "StepFootprint \<Rightarrow> StepFootprint \<Rightarrow> bool" where
  "sibling_moved reader changer =
     (case fp_ppe_sibling_reader reader of
        None \<Rightarrow> False | Some r \<Rightarrow> \<exists>u \<in> set (fp_ppe_status_changes changer). u \<noteq> r)"

definition pressure_moved :: "StepFootprint \<Rightarrow> StepFootprint \<Rightarrow> bool" where
  "pressure_moved reader changer =
     (case (fp_ppe_sibling_reader reader, fp_ppe_pressure_changer changer) of
        (Some r, Some c) \<Rightarrow> r \<noteq> c | _ \<Rightarrow> False)"

definition timing_conflict :: "StepFootprint \<Rightarrow> StepFootprint \<Rightarrow> bool" where
  "timing_conflict f other \<longleftrightarrow>
     touches_inflight f other \<or> touches_inflight other f \<or>
     rides_a_landing f \<or> rides_a_landing other \<or>
     fp_reads_clock f \<or> fp_reads_clock other \<or>
     sibling_moved f other \<or> sibling_moved other f \<or>
     pressure_moved f other \<or> pressure_moved other f \<or>
     (fp_ppe_status_changes f \<noteq> [] \<and> fp_ppe_status_changes other \<noteq> [])"

definition StepFootprint_conflicts :: "StepFootprint \<Rightarrow> StepFootprint \<Rightarrow> bool" where
  "StepFootprint_conflicts f other \<longleftrightarrow>
     memory_conflict f other \<or> mailbox_conflict f other \<or> signal_conflict f other \<or>
     local_store_conflict f other \<or> reservation_conflict f other \<or> timing_conflict f other"

definition StepFootprint_is_local_only :: "StepFootprint \<Rightarrow> bool" where
  "StepFootprint_is_local_only f \<longleftrightarrow>
     fp_shared_writes f = [] \<and>
     fp_shared_reads f = [] \<and>
     fp_mailbox_sends f = [] \<and>
     fp_mailbox_receives f = [] \<and>
     fp_mailbox_counts f = [] \<and>
     fp_dma_writes f = [] \<and>
     fp_dma_reads f = [] \<and>
     fp_dma_local_stores f = [] \<and>
     fp_signal_updates f = [] \<and>
     fp_wait_mailboxes f = [] \<and>
     fp_wait_signals f = [] \<and>
     fp_wait_barriers f = [] \<and>
     fp_wake_targets f = [] \<and>
     fp_wait_units f = [] \<and>
     fp_signal_writes f = [] \<and>
     fp_local_store_accesses f = [] \<and>
     fp_reservation_lines f = [] \<and>
     fp_held_reservation_lines f = [] \<and>
     fp_inflight_dma_ranges f = [] \<and>
     fp_inflight_local_stores f = [] \<and>
     \<not> fp_reads_clock f \<and>
     fp_ppe_sibling_reader f = None \<and>
     fp_ppe_status_changes f = [] \<and>
     fp_ppe_pressure_changer f = None"

section \<open>Symmetry\<close>

named_theorems overlap_sym "the overlap tests do not depend on the order of their arguments"

lemma ByteRange_overlaps_sym: "ByteRange_overlaps r s \<longleftrightarrow> ByteRange_overlaps s r"
  by (auto simp: ByteRange_overlaps_def)

lemma overlap_tests_sym [overlap_sym]:
  "ranges_overlap a b \<longleftrightarrow> ranges_overlap b a"
  "ids_overlap xs ys \<longleftrightarrow> ids_overlap ys xs"
  "lines_overlap us vs \<longleftrightarrow> lines_overlap vs us"
  unfolding ranges_overlap_def ids_overlap_def lines_overlap_def using ByteRange_overlaps_sym by blast+

lemma local_stores_overlap_sym [overlap_sym]: "local_stores_overlap a b \<longleftrightarrow> local_stores_overlap b a"
proof -
  have "local_stores_overlap b a" if "local_stores_overlap a b" for a b
    using that ByteRange_overlaps_sym by (fastforce simp: local_stores_overlap_def)
  then show ?thesis by blast
qed

lemma conflict_clauses_sym [overlap_sym]:
  "memory_conflict f g \<longleftrightarrow> memory_conflict g f"
  "mailbox_conflict f g \<longleftrightarrow> mailbox_conflict g f"
  "signal_conflict f g \<longleftrightarrow> signal_conflict g f"
  "local_store_conflict f g \<longleftrightarrow> local_store_conflict g f"
  "reservation_conflict f g \<longleftrightarrow> reservation_conflict g f"
  "timing_conflict f g \<longleftrightarrow> timing_conflict g f"
  by (simp_all only: memory_conflict_def mailbox_conflict_def signal_conflict_def local_store_conflict_def
      reservation_conflict_def timing_conflict_def overlap_tests_sym local_stores_overlap_sym ac_simps)

lemma StepFootprint_conflicts_sym: "StepFootprint_conflicts f g \<longleftrightarrow> StepFootprint_conflicts g f"
  using conflict_clauses_sym by (auto simp: StepFootprint_conflicts_def)

section \<open>A larger footprint conflicts with more\<close>

definition footprint_le :: "StepFootprint \<Rightarrow> StepFootprint \<Rightarrow> bool" where
  "footprint_le f g \<longleftrightarrow>
     set (fp_shared_writes f) \<subseteq> set (fp_shared_writes g) \<and>
     set (fp_shared_reads f) \<subseteq> set (fp_shared_reads g) \<and>
     set (fp_mailbox_sends f) \<subseteq> set (fp_mailbox_sends g) \<and>
     set (fp_mailbox_receives f) \<subseteq> set (fp_mailbox_receives g) \<and>
     set (fp_mailbox_counts f) \<subseteq> set (fp_mailbox_counts g) \<and>
     set (fp_dma_writes f) \<subseteq> set (fp_dma_writes g) \<and>
     set (fp_dma_reads f) \<subseteq> set (fp_dma_reads g) \<and>
     set (fp_dma_local_stores f) \<subseteq> set (fp_dma_local_stores g) \<and>
     set (fp_signal_updates f) \<subseteq> set (fp_signal_updates g) \<and>
     set (fp_wait_mailboxes f) \<subseteq> set (fp_wait_mailboxes g) \<and>
     set (fp_wait_signals f) \<subseteq> set (fp_wait_signals g) \<and>
     set (fp_wait_barriers f) \<subseteq> set (fp_wait_barriers g) \<and>
     set (fp_wake_targets f) \<subseteq> set (fp_wake_targets g) \<and>
     set (fp_wait_units f) \<subseteq> set (fp_wait_units g) \<and>
     set (fp_signal_writes f) \<subseteq> set (fp_signal_writes g) \<and>
     set (fp_local_store_accesses f) \<subseteq> set (fp_local_store_accesses g) \<and>
     set (fp_reservation_lines f) \<subseteq> set (fp_reservation_lines g) \<and>
     set (fp_held_reservation_lines f) \<subseteq> set (fp_held_reservation_lines g) \<and>
     set (fp_inflight_dma_ranges f) \<subseteq> set (fp_inflight_dma_ranges g) \<and>
     set (fp_inflight_local_stores f) \<subseteq> set (fp_inflight_local_stores g) \<and>
     (fp_local_store_owner f = None \<or> fp_local_store_owner g = fp_local_store_owner f) \<and>
     (fp_reads_clock f \<longrightarrow> fp_reads_clock g) \<and>
     (fp_ppe_sibling_reader f = None \<or> fp_ppe_sibling_reader g = fp_ppe_sibling_reader f) \<and>
     set (fp_ppe_status_changes f) \<subseteq> set (fp_ppe_status_changes g) \<and>
     (fp_ppe_pressure_changer f = None \<or> fp_ppe_pressure_changer g = fp_ppe_pressure_changer f)"

lemma footprint_le_refl [simp]: "footprint_le f f"
  by (simp add: footprint_le_def)

named_theorems overlap_mono "a test keeps its answer when a footprint grows"

lemma footprint_le_fields [overlap_mono]:
  "footprint_le f g \<Longrightarrow> set (fp_shared_writes f) \<subseteq> set (fp_shared_writes g)"
  "footprint_le f g \<Longrightarrow> set (fp_shared_reads f) \<subseteq> set (fp_shared_reads g)"
  "footprint_le f g \<Longrightarrow> set (fp_mailbox_sends f) \<subseteq> set (fp_mailbox_sends g)"
  "footprint_le f g \<Longrightarrow> set (fp_mailbox_receives f) \<subseteq> set (fp_mailbox_receives g)"
  "footprint_le f g \<Longrightarrow> set (fp_mailbox_counts f) \<subseteq> set (fp_mailbox_counts g)"
  "footprint_le f g \<Longrightarrow> set (fp_dma_writes f) \<subseteq> set (fp_dma_writes g)"
  "footprint_le f g \<Longrightarrow> set (fp_dma_reads f) \<subseteq> set (fp_dma_reads g)"
  "footprint_le f g \<Longrightarrow> set (fp_dma_local_stores f) \<subseteq> set (fp_dma_local_stores g)"
  "footprint_le f g \<Longrightarrow> set (fp_signal_updates f) \<subseteq> set (fp_signal_updates g)"
  "footprint_le f g \<Longrightarrow> set (fp_wait_mailboxes f) \<subseteq> set (fp_wait_mailboxes g)"
  "footprint_le f g \<Longrightarrow> set (fp_wait_signals f) \<subseteq> set (fp_wait_signals g)"
  "footprint_le f g \<Longrightarrow> set (fp_wait_barriers f) \<subseteq> set (fp_wait_barriers g)"
  "footprint_le f g \<Longrightarrow> set (fp_wake_targets f) \<subseteq> set (fp_wake_targets g)"
  "footprint_le f g \<Longrightarrow> set (fp_wait_units f) \<subseteq> set (fp_wait_units g)"
  "footprint_le f g \<Longrightarrow> set (fp_signal_writes f) \<subseteq> set (fp_signal_writes g)"
  "footprint_le f g \<Longrightarrow> set (fp_local_store_accesses f) \<subseteq> set (fp_local_store_accesses g)"
  "footprint_le f g \<Longrightarrow> set (fp_reservation_lines f) \<subseteq> set (fp_reservation_lines g)"
  "footprint_le f g \<Longrightarrow> set (fp_held_reservation_lines f) \<subseteq> set (fp_held_reservation_lines g)"
  "footprint_le f g \<Longrightarrow> set (fp_inflight_dma_ranges f) \<subseteq> set (fp_inflight_dma_ranges g)"
  "footprint_le f g \<Longrightarrow> set (fp_inflight_local_stores f) \<subseteq> set (fp_inflight_local_stores g)"
  "footprint_le f g \<Longrightarrow> set (fp_ppe_status_changes f) \<subseteq> set (fp_ppe_status_changes g)"
  by (simp_all add: footprint_le_def)

lemma footprint_le_marks:
  "footprint_le f g \<Longrightarrow> fp_local_store_owner f = None \<or> fp_local_store_owner g = fp_local_store_owner f"
  "footprint_le f g \<Longrightarrow> fp_ppe_sibling_reader f = None \<or> fp_ppe_sibling_reader g = fp_ppe_sibling_reader f"
  "footprint_le f g \<Longrightarrow> fp_ppe_pressure_changer f = None \<or> fp_ppe_pressure_changer g = fp_ppe_pressure_changer f"
  "footprint_le f g \<Longrightarrow> fp_reads_clock f \<longrightarrow> fp_reads_clock g"
  by (simp_all add: footprint_le_def)

lemma footprint_le_trans:
  assumes "footprint_le f g" and "footprint_le g h"
  shows "footprint_le f h"
  unfolding footprint_le_def
  by (intro conjI; (rule subset_trans, rule footprint_le_fields [OF assms(1)], rule footprint_le_fields [OF assms(2)])?;
      use footprint_le_marks [OF assms(1)] footprint_le_marks [OF assms(2)] in auto)

lemma overlap_tests_mono [overlap_mono]:
  "set a \<subseteq> set a' \<Longrightarrow> set b \<subseteq> set b' \<Longrightarrow> ranges_overlap a b \<longrightarrow> ranges_overlap a' b'"
  "set xs \<subseteq> set xs' \<Longrightarrow> set ys \<subseteq> set ys' \<Longrightarrow> ids_overlap xs ys \<longrightarrow> ids_overlap xs' ys'"
  "set us \<subseteq> set us' \<Longrightarrow> set vs \<subseteq> set vs' \<Longrightarrow> lines_overlap us vs \<longrightarrow> lines_overlap us' vs'"
  "set ws \<subseteq> set ws' \<Longrightarrow> set ls \<subseteq> set ls' \<Longrightarrow> write_covers_any_line ws ls \<longrightarrow> write_covers_any_line ws' ls'"
  "set ms \<subseteq> set ms' \<Longrightarrow> set ns \<subseteq> set ns' \<Longrightarrow> local_stores_overlap ms ns \<longrightarrow> local_stores_overlap ms' ns'"
  unfolding ranges_overlap_def ids_overlap_def lines_overlap_def write_covers_any_line_def local_stores_overlap_def
  by blast+

lemma owner_tests_mono [overlap_mono]:
  assumes "footprint_le f f'" and "footprint_le g g'"
  shows "owns_inflight_local_store f g \<longrightarrow> owns_inflight_local_store f' g'"
    and "reaches_owner f g \<longrightarrow> reaches_owner f' g'"
    and "owner_in (fp_local_store_owner f) (fp_signal_writes g) \<longrightarrow> owner_in (fp_local_store_owner f') (fp_signal_writes g')"
    and "sibling_moved f g \<longrightarrow> sibling_moved f' g'"
    and "pressure_moved f g \<longrightarrow> pressure_moved f' g'"
proof -
  note l = footprint_le_fields [OF assms(1)] and m = footprint_le_fields [OF assms(2)]
  note marks = footprint_le_marks [OF assms(1)] footprint_le_marks [OF assms(2)]
  show "owns_inflight_local_store f g \<longrightarrow> owns_inflight_local_store f' g'"
    using l(20) marks(5) by (fastforce simp: owns_inflight_local_store_def split: option.splits)
  show "reaches_owner f g \<longrightarrow> reaches_owner f' g'"
    using l(16) marks(5) by (fastforce simp: reaches_owner_def split: option.splits)
  show "owner_in (fp_local_store_owner f) (fp_signal_writes g) \<longrightarrow> owner_in (fp_local_store_owner f') (fp_signal_writes g')"
    using m(15) marks(1) by (auto simp: owner_in_def split: option.splits)
  show "sibling_moved f g \<longrightarrow> sibling_moved f' g'"
    using m(21) marks(2) by (auto simp: sibling_moved_def split: option.splits)
  show "pressure_moved f g \<longrightarrow> pressure_moved f' g'"
    using marks(2,7) by (auto simp: pressure_moved_def split: option.splits)
qed

lemma flag_tests_mono [overlap_mono]:
  "footprint_le f f' \<Longrightarrow> fp_reads_clock f \<longrightarrow> fp_reads_clock f'"
  "footprint_le f f' \<Longrightarrow> fp_ppe_status_changes f \<noteq> [] \<longrightarrow> fp_ppe_status_changes f' \<noteq> []"
  by (auto dest: footprint_le_fields(21) footprint_le_marks(4))

lemma conflict_parts_mono [overlap_mono]:
  assumes "footprint_le f f'" and "footprint_le g g'"
  shows "clears_held f g \<longrightarrow> clears_held f' g'"
    and "touches_inflight f g \<longrightarrow> touches_inflight f' g'"
  unfolding clears_held_def touches_inflight_def by (intro disj_mono overlap_mono assms)+

lemma rides_a_landing_mono [overlap_mono]: "footprint_le f f' \<Longrightarrow> rides_a_landing f \<longrightarrow> rides_a_landing f'"
  unfolding rides_a_landing_def by (intro disj_mono overlap_mono)

lemma conflict_clauses_mono [overlap_mono]:
  assumes "footprint_le f f'" and "footprint_le g g'"
  shows "memory_conflict f g \<longrightarrow> memory_conflict f' g'" and "mailbox_conflict f g \<longrightarrow> mailbox_conflict f' g'"
    and "signal_conflict f g \<longrightarrow> signal_conflict f' g'" and "local_store_conflict f g \<longrightarrow> local_store_conflict f' g'"
    and "reservation_conflict f g \<longrightarrow> reservation_conflict f' g'" and "timing_conflict f g \<longrightarrow> timing_conflict f' g'"
  unfolding memory_conflict_def mailbox_conflict_def signal_conflict_def local_store_conflict_def
    reservation_conflict_def timing_conflict_def
  by (intro disj_mono conj_mono overlap_mono assms)+

lemma StepFootprint_conflicts_mono:
  assumes "footprint_le f f'" and "footprint_le g g'" and "StepFootprint_conflicts f g"
  shows "StepFootprint_conflicts f' g'"
  using assms(3) conflict_clauses_mono [OF assms(1,2)] by (auto simp: StepFootprint_conflicts_def)

end
