(* ===== verification/Space_Table.thy ===== *)
theory Space_Table
  imports Guest_Memory Reservation
begin

text \<open>
  The address-space table of the runtime (\<^verbatim>\<open>cellgov_core/src/runtime/spaces/table.rs\<close>): the
  space ids, the shared segments with their views, the tag of each unit, the resolvers that
  pick a unit's or a space's memory, and the alias ranges of \<^verbatim>\<open>spaces/shared.rs\<close>: the bytes a
  range reaches through the other views of a segment.
\<close>

section \<open>Spaces and segments\<close>

datatype AddressSpaceId = AddressSpaceId (AddressSpaceId_raw: u32)

instantiation AddressSpaceId :: linorder
begin

definition less_eq_AddressSpaceId :: "AddressSpaceId \<Rightarrow> AddressSpaceId \<Rightarrow> bool" where
  "less_eq_AddressSpaceId a b \<longleftrightarrow> AddressSpaceId_raw a \<le> AddressSpaceId_raw b"

definition less_AddressSpaceId :: "AddressSpaceId \<Rightarrow> AddressSpaceId \<Rightarrow> bool" where
  "less_AddressSpaceId a b \<longleftrightarrow> AddressSpaceId_raw a < AddressSpaceId_raw b"

instance
  by standard (auto simp: less_eq_AddressSpaceId_def less_AddressSpaceId_def intro: AddressSpaceId.expand)

end

definition BOOT :: AddressSpaceId where "BOOT = AddressSpaceId 0"

definition AddressSpaceId_lanes :: "AddressSpaceId lane_value" where
  "AddressSpaceId_lanes s lanes = ObjectLanes_lane 1 0 (ucast (AddressSpaceId_raw s)) lanes"

type_synonym View = "AddressSpaceId \<times> u64"

record SharedMapping =
  sm_size :: u64
  sm_views :: "View list"

definition SharedMapping_lanes :: "SharedMapping lane_value" where
  "SharedMapping_lanes m lanes =
     (let lanes = ObjectLanes_lane 1 0 (sm_size m) lanes;
          lanes = ObjectLanes_lane 2 0 (of_nat (length (sm_views m))) lanes
      in fold (\<lambda>(i, space, base) lanes.
                 ObjectLanes_lane 4 (of_nat i) base
                   (ObjectLanes_lane 3 (of_nat i) (ucast (AddressSpaceId_raw space)) lanes))
           (enumerate 0 (sm_views m)) lanes)"

definition source_SPACE_TAG :: u8 where "source_SPACE_TAG = 9"
definition source_SPACE_SHARED :: u8 where "source_SPACE_SHARED = 10"
definition source_SPACE :: u8 where "source_SPACE = 11"

record SpaceTable =
  sp_extra :: "(AddressSpaceId, GuestMemory) btree"
  sp_shared :: "(u64, SharedMapping) LaneMap"
  sp_unit_spaces :: "(UnitId, AddressSpaceId) LaneMap"
  sp_keyed_installs :: "(u64, u64 \<times> View list) btree"
  sp_extra_reservations :: "(AddressSpaceId, ReservationTable) btree"

datatype SpaceError =
    SpaceExists u32
  | UnknownSpace u32
  | KeyExists u64
  | ViewInstall MemError

definition SpaceTable_default :: SpaceTable where
  "SpaceTable_default =
     \<lparr>sp_extra = [], sp_shared = LaneMap_new source_SPACE_SHARED (\<lambda>key. key),
      sp_unit_spaces = LaneMap_new source_SPACE_TAG UnitId_raw, sp_keyed_installs = [],
      sp_extra_reservations = []\<rparr>"

definition SpaceTable_space_of :: "SpaceTable \<Rightarrow> UnitId \<Rightarrow> AddressSpaceId" where
  "SpaceTable_space_of t u = (case LaneMap_get (sp_unit_spaces t) u of Some s \<Rightarrow> s | None \<Rightarrow> BOOT)"

definition SpaceTable_spaces_term :: "SpaceTable \<Rightarrow> u128" where
  "SpaceTable_spaces_term t =
     fold (\<lambda>space acc. acc + value_term unit_lanes source_SPACE (ucast (AddressSpaceId_raw space)) ())
       (map fst (sp_extra t)) 0"

definition SpaceTable_sync_partial :: "SpaceTable \<Rightarrow> u128" where
  "SpaceTable_sync_partial t = SpaceTable_spaces_term t + lm_partial (sp_unit_spaces t) + lm_partial (sp_shared t)"

definition SpaceTable_sync_partial_from_scratch :: "SpaceTable \<Rightarrow> u128" where
  "SpaceTable_sync_partial_from_scratch t =
     SpaceTable_spaces_term t + LaneMap_partial_from_scratch AddressSpaceId_lanes (sp_unit_spaces t)
     + LaneMap_partial_from_scratch SharedMapping_lanes (sp_shared t)"

section \<open>Resolving a space\<close>

definition resolve_space_memory :: "GuestMemory \<Rightarrow> SpaceTable \<Rightarrow> AddressSpaceId \<Rightarrow> GuestMemory option" where
  "resolve_space_memory memory spaces space = (if space = BOOT then Some memory else map_of (sp_extra spaces) space)"

definition resolve_unit_memory :: "GuestMemory \<Rightarrow> SpaceTable \<Rightarrow> UnitId \<Rightarrow> GuestMemory option" where
  "resolve_unit_memory memory spaces u =
     (let s = SpaceTable_space_of spaces u in if s = BOOT then Some memory else map_of (sp_extra spaces) s)"

definition resolve_unit_reservations :: "ReservationTable \<Rightarrow> SpaceTable \<Rightarrow> UnitId \<Rightarrow> ReservationTable option" where
  "resolve_unit_reservations reservations spaces u =
     (let s = SpaceTable_space_of spaces u
      in if s = BOOT then Some reservations else map_of (sp_extra_reservations spaces) s)"

definition resolve_commit_targets ::
    "GuestMemory \<Rightarrow> ReservationTable \<Rightarrow> SpaceTable \<Rightarrow> AddressSpaceId \<Rightarrow> (GuestMemory \<times> ReservationTable) option" where
  "resolve_commit_targets memory reservations spaces space =
     (if space = BOOT then Some (memory, reservations)
      else case map_of (sp_extra spaces) space of
             None \<Rightarrow> None
           | Some mem \<Rightarrow>
               (case map_of (sp_extra_reservations spaces) space of
                  None \<Rightarrow> None
                | Some res \<Rightarrow> Some (mem, res)))"

section \<open>Views of a segment\<close>

definition pieces_in_views :: "ByteRange \<Rightarrow> AddressSpaceId \<Rightarrow> View list \<Rightarrow> u64 \<Rightarrow> (u64 \<times> ByteRange) list" where
  "pieces_in_views rng space views sz =
     (let start = GuestAddr_raw (br_start rng); stop = GuestAddr_raw (ByteRange_end rng)
      in List.map_filter
           (\<lambda>(view_space, base).
              let lo = max start base; hi = min stop (saturating_add base sz)
              in if view_space = space \<and> lo < hi
                 then map_option (\<lambda>piece. (base, piece)) (ByteRange_new (GuestAddr lo) (hi - lo))
                 else None)
           views)"

definition sibling_views :: "View list \<Rightarrow> AddressSpaceId \<Rightarrow> u64 \<Rightarrow> View list" where
  "sibling_views views space base =
     filter (\<lambda>(view_space, view_base). \<not> (view_space = space \<and> view_base = base)) views"

definition mapping_alias_ranges :: "AddressSpaceId \<Rightarrow> ByteRange \<Rightarrow> SharedMapping \<Rightarrow> ByteRange list" where
  "mapping_alias_ranges space rng mapping =
     concat (map (\<lambda>(source_base, piece).
                    let offset = GuestAddr_raw (br_start piece) - source_base
                    in List.map_filter (\<lambda>(_, other_base). ByteRange_new (GuestAddr (other_base + offset)) (br_length piece))
                         (sibling_views (sm_views mapping) space source_base))
               (pieces_in_views rng space (sm_views mapping) (sm_size mapping)))"

definition shared_alias_ranges_in :: "SpaceTable \<Rightarrow> AddressSpaceId \<Rightarrow> ByteRange \<Rightarrow> ByteRange list" where
  "shared_alias_ranges_in spaces space rng =
     concat (map (\<lambda>(_, mapping). mapping_alias_ranges space rng mapping) (lm_entries (sp_shared spaces)))"

definition shared_alias_ranges :: "SpaceTable \<Rightarrow> UnitId \<Rightarrow> ByteRange \<Rightarrow> ByteRange list" where
  "shared_alias_ranges spaces u rng = shared_alias_ranges_in spaces (SpaceTable_space_of spaces u) rng"

definition range_intersects_shared_view :: "SpaceTable \<Rightarrow> AddressSpaceId \<Rightarrow> ByteRange \<Rightarrow> bool" where
  "range_intersects_shared_view spaces space rng =
     (let start = GuestAddr_raw (br_start rng); len = br_length rng
      in \<exists>(_, mapping) \<in> set (lm_entries (sp_shared spaces)).
           \<exists>(view_space, base) \<in> set (sm_views mapping).
             view_space = space \<and> start < base + sm_size mapping \<and> saturating_add start len > base)"

section \<open>The aliases are exactly the shared bytes\<close>

text \<open>Registration refuses a view whose end does not fit the address space.\<close>

definition views_fit :: "SharedMapping \<Rightarrow> bool" where
  "views_fit m \<longleftrightarrow> (\<forall>(_, base) \<in> set (sm_views m). unat base + unat (sm_size m) < 2 ^ 64)"

lemma set_map_filter: "set (List.map_filter f xs) = {y. \<exists>x \<in> set xs. f x = Some y}"
  by (force simp: List.map_filter_def)

lemma range_bytes_unat: "range_ok r \<Longrightarrow>
    a \<in> range_bytes r \<longleftrightarrow> unat (GuestAddr_raw (br_start r)) \<le> unat a \<and> unat a < unat (GuestAddr_raw (br_start r)) + unat (br_length r)"
  by (auto simp: range_bytes_def)

text \<open>A piece holds the bytes of the range that lie inside the view.\<close>

lemma pieces_in_views_iff:
  assumes "views_fit m"
  shows "(base, piece) \<in> set (pieces_in_views rng space (sm_views m) (sm_size m)) \<longleftrightarrow>
    (space, base) \<in> set (sm_views m) \<and>
    (let lo = max (GuestAddr_raw (br_start rng)) base; hi = min (ByteRange_end_raw rng) (base + sm_size m)
     in lo < hi \<and> piece = ByteRange (GuestAddr lo) (hi - lo))"
proof -
  define f where "f b = (let lo = max (GuestAddr_raw (br_start rng)) b; hi = min (ByteRange_end_raw rng) (b + sm_size m)
      in if lo < hi then Some (b, ByteRange (GuestAddr lo) (hi - lo)) else None)" for b
  have new: "ByteRange_new (GuestAddr lo) (hi - lo) = Some (ByteRange (GuestAddr lo) (hi - lo))" if "lo < hi" for lo hi :: u64
  proof -
    have "unat lo + unat (hi - lo) = unat hi" using that by (simp add: unat_minus_no_wrap word_less_nat_alt less_imp_le word_le_nat_alt)
    then show ?thesis using unat_lt_2p [of hi] by (simp add: ByteRange_new_def checked_add_def)
  qed
  have "pieces_in_views rng space (sm_views m) (sm_size m) =
      List.map_filter (\<lambda>(s, b). if s = space then f b else None) (sm_views m)"
    unfolding pieces_in_views_def Let_def List.map_filter_def
    using assms
    by (intro arg_cong2 [where f = map] filter_cong arg_cong [where f = "\<lambda>g. the \<circ> g"] refl map_cong)
       (auto simp: f_def views_fit_def saturating_add_def new ByteRange_end_def Let_def split: prod.splits)
  then show ?thesis
    by (auto simp: set_map_filter f_def Let_def split: if_splits intro!: bexI [of _ "(space, base)"])
qed

text \<open>Byte \<open>b\<close> of the segment is seen at \<open>base + b\<close> through each view.\<close>

definition aliased :: "SharedMapping \<Rightarrow> AddressSpaceId \<Rightarrow> ByteRange \<Rightarrow> u64 \<Rightarrow> bool" where
  "aliased m space rng a \<longleftrightarrow>
     (\<exists>base other k. (space, base) \<in> set (sm_views m) \<and> other \<in> set (sm_views m) \<and> other \<noteq> (space, base) \<and>
        k < unat (sm_size m) \<and> base + of_nat k \<in> range_bytes rng \<and> a = snd other + of_nat k)"

lemma unat_view_byte:
  assumes "unat b + unat sz < 2 ^ 64" and "k < unat (sz :: u64)"
  shows "unat (b + of_nat k :: u64) = unat b + k"
proof -
  have "unat (of_nat k :: u64) = k" using assms unat_lt_2p [of sz] by (intro unat_of_nat_no_wrap) simp
  then show ?thesis using assms by (simp add: unat_plus_no_wrap)
qed

lemma sibling_piece_bytes:
  assumes ok: "range_ok rng" and b: "unat b + unat sz < 2 ^ 64" and o: "unat b' + unat sz < 2 ^ 64"
    and lo: "lo = max (GuestAddr_raw (br_start rng)) b" and hi: "hi = min (ByteRange_end_raw rng) (b + sz)" and "lo < hi"
  shows "\<exists>r. ByteRange_new (GuestAddr (b' + (lo - b))) (hi - lo) = Some r \<and>
    (a \<in> range_bytes r \<longleftrightarrow> (\<exists>k < unat sz. b + of_nat k \<in> range_bytes rng \<and> a = b' + of_nat k))"
proof -
  have u: "unat lo = max (unat (GuestAddr_raw (br_start rng))) (unat b)"
    "unat hi = min (unat (GuestAddr_raw (br_start rng)) + unat (br_length rng)) (unat b + unat sz)"
    using unat_end_raw [OF ok] unat_plus_no_wrap [of b sz] b
    by (auto simp: lo hi max_def min_def word_le_nat_alt)
  have l: "unat lo < unat hi" using assms(6) by (simp add: word_less_nat_alt)
  have off: "unat (lo - b) = unat lo - unat b" "unat (hi - lo) = unat hi - unat lo"
    using l by (auto simp: unat_minus_no_wrap word_le_nat_alt u)
  have start: "unat (b' + (lo - b)) = unat b' + (unat lo - unat b)"
    using l o u off by (subst unat_plus_no_wrap) auto
  define r where "r = ByteRange (GuestAddr (b' + (lo - b))) (hi - lo)"
  have rok: "range_ok r" using l o u by (auto simp: r_def range_ok_def start off)
  then have "ByteRange_new (GuestAddr (b' + (lo - b))) (hi - lo) = Some r" by (simp add: ByteRange_new_iff r_def)
  moreover have "a \<in> range_bytes r \<longleftrightarrow> (\<exists>k < unat sz. b + of_nat k \<in> range_bytes rng \<and> a = b' + of_nat k)"
  proof
    assume "a \<in> range_bytes r"
    then have a: "unat b' + (unat lo - unat b) \<le> unat a" "unat a < unat b' + (unat lo - unat b) + (unat hi - unat lo)"
      by (simp_all add: range_bytes_unat [OF rok]) (simp_all add: r_def start off)
    define k where "k = unat a - unat b'"
    have k: "k < unat sz" "unat a = unat b' + k" using a u l by (auto simp: k_def)
    moreover have "b + of_nat k \<in> range_bytes rng"
      using a u l k by (auto simp: range_bytes_unat [OF ok] unat_view_byte [OF b k(1)])
    moreover have "a = b' + of_nat k" using k by (intro unat_eqI) (simp add: unat_view_byte [OF o])
    ultimately show "\<exists>k < unat sz. b + of_nat k \<in> range_bytes rng \<and> a = b' + of_nat k" by blast
  next
    assume "\<exists>k < unat sz. b + of_nat k \<in> range_bytes rng \<and> a = b' + of_nat k"
    then obtain k where k: "k < unat sz" "b + of_nat k \<in> range_bytes rng" "a = b' + of_nat k" by blast
    then have "unat (GuestAddr_raw (br_start rng)) \<le> unat b + k" "unat b + k < unat (GuestAddr_raw (br_start rng)) + unat (br_length rng)"
      by (simp_all add: range_bytes_unat [OF ok] unat_view_byte [OF b])
    then show "a \<in> range_bytes r"
      using k(1,3) u l by (simp only: range_bytes_unat [OF rok] unat_view_byte [OF o]) (auto simp: r_def start off)
  qed
  ultimately show ?thesis by blast
qed

lemma mapping_alias_iff:
  assumes "range_ok rng" and "views_fit m"
  shows "(\<exists>r \<in> set (mapping_alias_ranges space rng m). a \<in> range_bytes r) \<longleftrightarrow> aliased m space rng a"
proof -
  let ?lo = "\<lambda>b. max (GuestAddr_raw (br_start rng)) b" and ?hi = "\<lambda>b. min (ByteRange_end_raw rng) (b + sm_size m)"
  have fit: "unat b + unat (sm_size m) < 2 ^ 64" if "(s, b) \<in> set (sm_views m)" for s b
    using that assms(2) by (auto simp: views_fit_def)
  have empty: "\<not> b + of_nat k \<in> range_bytes rng"
    if "(s, b) \<in> set (sm_views m)" "\<not> ?lo b < ?hi b" "k < unat (sm_size m)" for s b k
  proof -
    have "unat (?hi b) \<le> unat (?lo b)" using that(2) by (simp add: word_less_nat_alt)
    moreover have "unat (?hi b) = min (unat (ByteRange_end_raw rng)) (unat b + unat (sm_size m))"
      using unat_plus_no_wrap [of b "sm_size m"] fit [OF that(1)] by (auto simp: min_def word_le_nat_alt)
    moreover have "unat (?lo b) = max (unat (GuestAddr_raw (br_start rng))) (unat b)" by (auto simp: max_def word_le_nat_alt)
    ultimately show ?thesis
      using that(3) by (auto simp: range_bytes_unat [OF assms(1)] unat_view_byte [OF fit [OF that(1)] that(3)] unat_end_raw [OF assms(1)])
  qed
  have "(\<exists>r \<in> set (mapping_alias_ranges space rng m). a \<in> range_bytes r) \<longleftrightarrow>
      (\<exists>b other. (space, b) \<in> set (sm_views m) \<and> ?lo b < ?hi b \<and> other \<in> set (sm_views m) \<and> other \<noteq> (space, b) \<and>
        (\<exists>r. ByteRange_new (GuestAddr (snd other + (?lo b - b))) (?hi b - ?lo b) = Some r \<and> a \<in> range_bytes r))"
    by (force simp: mapping_alias_ranges_def set_map_filter pieces_in_views_iff [OF assms(2)] sibling_views_def Let_def)
  also have "\<dots> \<longleftrightarrow> aliased m space rng a"
  proof -
    have "(\<exists>r. ByteRange_new (GuestAddr (snd other + (?lo b - b))) (?hi b - ?lo b) = Some r \<and> a \<in> range_bytes r) \<longleftrightarrow>
        (\<exists>k < unat (sm_size m). b + of_nat k \<in> range_bytes rng \<and> a = snd other + of_nat k)"
      if "(space, b) \<in> set (sm_views m)" "other \<in> set (sm_views m)" "?lo b < ?hi b" for b other
      using sibling_piece_bytes [OF assms(1) fit [OF that(1)], of "snd other" "?lo b" "?hi b" a] fit [of "fst other" "snd other"] that
      by auto
    then show ?thesis using empty unfolding aliased_def by blast
  qed
  finally show ?thesis .
qed

lemma alias_ranges_iff:
  assumes "range_ok rng" and "\<forall>(_, m) \<in> set (lm_entries (sp_shared spaces)). views_fit m"
  shows "(\<exists>r \<in> set (shared_alias_ranges_in spaces space rng). a \<in> range_bytes r) \<longleftrightarrow>
    (\<exists>(_, m) \<in> set (lm_entries (sp_shared spaces)). aliased m space rng a)"
proof -
  have "(\<exists>r \<in> set (shared_alias_ranges_in spaces space rng). a \<in> range_bytes r) \<longleftrightarrow>
      (\<exists>(_, m) \<in> set (lm_entries (sp_shared spaces)). \<exists>r \<in> set (mapping_alias_ranges space rng m). a \<in> range_bytes r)"
    by (force simp: shared_alias_ranges_in_def)
  also have "\<dots> \<longleftrightarrow> (\<exists>(_, m) \<in> set (lm_entries (sp_shared spaces)). aliased m space rng a)"
    using assms(2) mapping_alias_iff [OF assms(1)] by (intro bex_cong refl) (fastforce split: prod.splits)
  finally show ?thesis .
qed

text \<open>
  C24: a byte is in an alias range of an access exactly when it is the same byte of a shared
  segment as one the access covers, seen through another view of that segment. So the
  dependency analysis and the replication after a commit reach every alias and nothing else.
\<close>

theorem shared_alias_ranges_exact:
  assumes "range_ok rng" and "\<forall>(_, m) \<in> set (lm_entries (sp_shared spaces)). views_fit m"
  shows "(\<exists>r \<in> set (shared_alias_ranges_in spaces space rng). a \<in> range_bytes r) \<longleftrightarrow>
    (\<exists>(_, m) \<in> set (lm_entries (sp_shared spaces)). aliased m space rng a)"
  by (rule alias_ranges_iff [OF assms])

definition two_view_table :: SpaceTable where
  "two_view_table = SpaceTable_default\<lparr>sp_shared :=
     (LaneMap_new source_SPACE_SHARED (\<lambda>key. key))\<lparr>lm_entries :=
       [(7, \<lparr>sm_size = 0x100, sm_views = [(BOOT, 0x1000), (AddressSpaceId 1, 0x8000)]\<rparr>)]\<rparr>\<rparr>"

theorem shared_alias_ranges_exact_witness:
  "\<exists>r \<in> set (shared_alias_ranges_in two_view_table BOOT (ByteRange (GuestAddr 0xFF0) 0x20)). 0x8004 \<in> range_bytes r"
proof -
  have "range_ok (ByteRange (GuestAddr 0xFF0) 0x20)" by (simp add: range_ok_def)
  moreover have "\<forall>(_, m) \<in> set (lm_entries (sp_shared two_view_table)). views_fit m"
    by (simp add: two_view_table_def views_fit_def)
  moreover have "\<exists>(_, m) \<in> set (lm_entries (sp_shared two_view_table)). aliased m BOOT (ByteRange (GuestAddr 0xFF0) 0x20) 0x8004"
    by (simp add: two_view_table_def aliased_def BOOT_def range_bytes_def)
       (intro exI [of _ "AddressSpaceId 1"] exI [of _ "0x8000"] exI [of _ "4 :: nat"] conjI; simp)
  ultimately show ?thesis using shared_alias_ranges_exact by blast
qed

end
