(* ===== verification/Spu_Window.thy ===== *)
theory Spu_Window
  imports Dma_Request Lanes
begin

text \<open>
  Where an MFC transfer through the SPU thread window lands
  (\<^verbatim>\<open>cellgov_core/src/runtime/spu_window.rs\<close>), and the local-store ends of a transfer
  (\<^verbatim>\<open>Runtime::dma_local_store_ends\<close>). Of LV2's thread-group table the window reads the three
  maps that name a unit's group and a thread's unit.
\<close>

definition thread_window_BASE :: u64 where "thread_window_BASE = 0xF0000000"
definition thread_window_STRIDE :: u64 where "thread_window_STRIDE = 0x100000"
definition thread_window_PROBLEM_STATE :: u64 where "thread_window_PROBLEM_STATE = 0x40000"
definition MAX_SLOTS_PER_GROUP :: u32 where "MAX_SLOTS_PER_GROUP = 256"
definition SPU_LS_SIZE :: nat where "SPU_LS_SIZE = 256 * 1024"
definition SPU_IN_MBOX_OFFSET :: u32 where "SPU_IN_MBOX_OFFSET = 0x0400C"
definition SPU_SIG_NOTIFY_1_OFFSET :: u32 where "SPU_SIG_NOTIFY_1_OFFSET = 0x1400C"
definition SPU_SIG_NOTIFY_2_OFFSET :: u32 where "SPU_SIG_NOTIFY_2_OFFSET = 0x1C00C"

definition checked_mul :: "'a::len word \<Rightarrow> 'a word \<Rightarrow> 'a word option" where
  "checked_mul a b = (if unat a * unat b < 2 ^ LENGTH('a) then Some (a * b) else None)"

record ThreadGroupTable =
  tg_unit_to_group :: "(UnitId, u32) LaneMap"
  tg_finished_units :: "(UnitId, u32) LaneMap"
  tg_thread_id_to_unit :: "(u32, u64) LaneMap"

definition ThreadGroupTable_unit_for_thread :: "ThreadGroupTable \<Rightarrow> u32 \<Rightarrow> UnitId option" where
  "ThreadGroupTable_unit_for_thread t thread_id = map_option UnitId (LaneMap_get (tg_thread_id_to_unit t) thread_id)"

definition ThreadGroupTable_group_of :: "ThreadGroupTable \<Rightarrow> UnitId \<Rightarrow> u32 option" where
  "ThreadGroupTable_group_of t u =
     (case LaneMap_get (tg_unit_to_group t) u of
        Some g \<Rightarrow> Some g
      | None \<Rightarrow> LaneMap_get (tg_finished_units t) u)"

datatype SignalNotifier = Notifier_One | Notifier_Two

datatype WindowTarget =
    Window_LocalStore UnitId u32
  | Window_Signal UnitId SignalNotifier
  | Window_InboundMailbox UnitId

definition window_target :: "ThreadGroupTable \<Rightarrow> DmaCompletion \<Rightarrow> (MfcCommandError + WindowTarget) option" where
  "window_target groups c =
     (let rng = (case DmaCompletion_direction c of Put \<Rightarrow> DmaCompletion_destination c | Get \<Rightarrow> DmaCompletion_source c);
          ea = GuestAddr_raw (br_start rng); len = br_length rng;
          stop = thread_window_BASE + ucast MAX_SLOTS_PER_GROUP * thread_window_STRIDE
      in if len = 0 \<or> \<not> (thread_window_BASE \<le> ea \<and> ea < stop) then None
         else case ThreadGroupTable_group_of groups (DmaCompletion_issuer c) of
                None \<Rightarrow> None
              | Some grp \<Rightarrow>
                  (let refused = Some (Inl (DataStorage ea));
                       slot = (ea - thread_window_BASE) div thread_window_STRIDE;
                       offset = (ea - thread_window_BASE) mod thread_window_STRIDE;
                       thread = Option.bind (checked_mul grp MAX_SLOTS_PER_GROUP) (\<lambda>base. checked_add base (ucast slot))
                   in case Option.bind thread (ThreadGroupTable_unit_for_thread groups) of
                        None \<Rightarrow> refused
                      | Some u \<Rightarrow>
                          (if offset + len \<le> of_nat SPU_LS_SIZE then Some (Inr (Window_LocalStore u (ucast offset)))
                          else if DmaCompletion_direction c \<noteq> Put \<or> len \<noteq> 4 then refused
                          else case checked_sub offset thread_window_PROBLEM_STATE of
                                 None \<Rightarrow> refused
                               | Some r \<Rightarrow>
                                   (let register = (ucast r :: u32)
                                    in if register = SPU_SIG_NOTIFY_1_OFFSET then Some (Inr (Window_Signal u Notifier_One))
                                       else if register = SPU_SIG_NOTIFY_2_OFFSET then Some (Inr (Window_Signal u Notifier_Two))
                                       else if register = SPU_IN_MBOX_OFFSET then Some (Inr (Window_InboundMailbox u))
                                       else refused))))"

definition dma_local_store_ends :: "ThreadGroupTable \<Rightarrow> DmaCompletion \<Rightarrow> (UnitId \<times> ByteRange) list" where
  "dma_local_store_ends groups c =
     (let own = map_option (\<lambda>rng. (DmaCompletion_issuer c, rng)) (DmaRequest_local_store_range (dc_request c));
          window = (case window_target groups c of
                      Some (Inr (Window_LocalStore u lsa)) \<Rightarrow>
                        map_option (\<lambda>rng. (u, rng)) (ByteRange_new (GuestAddr (ucast lsa)) (DmaCompletion_length c))
                    | _ \<Rightarrow> None)
      in (case own of None \<Rightarrow> [] | Some e \<Rightarrow> [e]) @ (case window of None \<Rightarrow> [] | Some e \<Rightarrow> [e]))"

text \<open>
  A transfer that resolves to a local store through the thread window stays inside it,
  and the two local-store ends of a transfer name the bytes the window's slot starts at: no
  wrap-around of the offset check lets a long transfer past the local store.
\<close>

theorem window_local_store_in_bounds:
  assumes "range_ok (DmaCompletion_source c)" and "range_ok (DmaCompletion_destination c)"
    and "window_target groups c = Some (Inr (Window_LocalStore u lsa))"
  shows "\<exists>rng. rng \<in> {DmaCompletion_source c, DmaCompletion_destination c} \<and>
    unat lsa + unat (br_length rng) \<le> SPU_LS_SIZE \<and> 0 < unat (br_length rng) \<and>
    (\<exists>slot < 256. unat (GuestAddr_raw (br_start rng)) = 0xF0000000 + slot * 0x100000 + unat lsa)"
proof -
  define rng where "rng = (case DmaCompletion_direction c of Put \<Rightarrow> DmaCompletion_destination c | Get \<Rightarrow> DmaCompletion_source c)"
  define ea where "ea = GuestAddr_raw (br_start rng)"
  define d where "d = ea - thread_window_BASE"
  have ok: "range_ok rng" using assms(1,2) by (simp add: rng_def split: DmaDirection.splits)
  have t: "br_length rng \<noteq> 0" "thread_window_BASE \<le> ea" "ea < thread_window_BASE + ucast MAX_SLOTS_PER_GROUP * thread_window_STRIDE"
    "d mod thread_window_STRIDE + br_length rng \<le> of_nat SPU_LS_SIZE" "lsa = ucast (d mod thread_window_STRIDE)"
    using assms(3)
    by (auto simp: window_target_def Let_def rng_def [symmetric] ea_def [symmetric] d_def [symmetric]
        split: if_splits option.splits)
  have ud: "unat d = unat ea - 0xF0000000" "0xF0000000 \<le> unat ea"
    using t(2) by (simp_all add: d_def unat_minus_no_wrap thread_window_BASE_def word_le_nat_alt)
  have e: "unat ea < 0x100000000"
    using t(3) by (simp add: thread_window_BASE_def thread_window_STRIDE_def MAX_SLOTS_PER_GROUP_def word_less_nat_alt)
  have m: "unat (d mod thread_window_STRIDE) = unat d mod 0x100000"
    by (simp add: unat_mod thread_window_STRIDE_def)
  have "unat (d mod thread_window_STRIDE) + unat (br_length rng) < 2 ^ 64"
    using ok mod_less_eq_dividend [of "unat d" "0x100000"] ud unfolding m by (simp add: range_ok_def ea_def)
  then have l: "unat d mod 0x100000 + unat (br_length rng) \<le> SPU_LS_SIZE"
    using t(4) m by (simp add: word_le_nat_alt unat_plus_no_wrap SPU_LS_SIZE_def)
  have "unat d mod 0x100000 < 0x100000" by simp
  then have u: "unat lsa = unat d mod 0x100000"
    using t(5) m by (simp add: unsigned_ucast_eq take_bit_nat_eq_self)
  have "unat ea = 0xF0000000 + (unat d div 0x100000) * 0x100000 + unat lsa" using ud u by simp
  moreover have "unat d div 0x100000 < 256" using ud e by (simp add: div_less_iff_less_mult)
  moreover have "rng \<in> {DmaCompletion_source c, DmaCompletion_destination c}" by (simp add: rng_def split: DmaDirection.splits)
  moreover have "0 < unat (br_length rng)" using t(1) by (simp add: unat_gt_0)
  ultimately show ?thesis using l u ea_def by metis
qed

end
