(* ===== verification/Explore_Note.thy ===== *)
theory Explore_Note
  imports Explore_Footprint Space_Table Spu_Window Units Trace_Record
begin

text \<open>
  What a step's commit adds to its footprint (\<^verbatim>\<open>StepFootprint::note_commit\<close> and the passes it
  runs, \<^verbatim>\<open>cellgov_explore/src/dependency.rs\<close>), over the records the runtime publishes for the
  step (\<^verbatim>\<open>runtime/observations.rs\<close>). The passes read the runtime and change the footprint
  alone, so the model hands them the parts of the runtime they read: the observations, the
  DMA queue, the thread groups, the unit registry and the space table. Two questions about a
  registered unit, whether it shares the PPE's issue and its issue pressure, are methods of
  the unit and parameters here.
\<close>

section \<open>What the runtime publishes\<close>

datatype StepIndex = StepIndex (StepIndex_raw: u64)

record HostWrite =
  hw_writer :: HostWriter
  hw_space :: AddressSpaceId
  hw_range :: ByteRange

record StepObservations =
  ob_step :: StepIndex
  ob_host_writes :: "HostWrite list"
  ob_lv2_effects :: "Effect list"
  ob_problem_state_accesses :: "(UnitId \<times> ByteRange) list"
  ob_dma_completions :: "(DmaCompletion \<times> bool) list"

definition StepObservations_reset :: "StepIndex \<Rightarrow> StepObservations \<Rightarrow> StepObservations" where
  "StepObservations_reset step ob =
     \<lparr>ob_step = step, ob_host_writes = [], ob_lv2_effects = [], ob_problem_state_accesses = [], ob_dma_completions = []\<rparr>"





section \<open>The passes\<close>














section \<open>The footprint only grows\<close>























section \<open>Accesses that share a byte conflict\<close>















section \<open>What the step does to main storage\<close>














section \<open>Witness\<close>






end
