(* ===== verification/Explore_Commute.thy ===== *)
theory Explore_Commute
  imports Commit_Proofs Explore_Footprint
begin

text \<open>
  Why the schedule explorer may skip a swap: two steps of different units whose footprints do
  not conflict commit to the same shared state in either order. The state is what the commit
  pipeline changes at a step's commit: the bytes of memory, the mailboxes, the signals, the
  reservations, and the status overrides and pending receives of the units.
\<close>

section \<open>Folds that commute\<close>

lemma fold_swap:
  assumes "\<And>x y. x \<in> set xs \<Longrightarrow> y \<in> set ys \<Longrightarrow> f x \<circ> f y = f y \<circ> f x"
  shows "fold f ys (fold f xs s) = fold f xs (fold f ys s)"
proof -
  have "fold f ys \<circ> f x = f x \<circ> fold f ys" if "x \<in> set xs" for x
    using assms [OF that]
  proof (induction ys)
    case (Cons y ys)
    then have "fold f ys (f x t) = f x (fold f ys t)" "f y (f x t) = f x (f y t)" for t
      by (simp_all add: fun_eq_iff)
    then show ?case by (simp add: fun_eq_iff)
  qed simp
  then show ?thesis by (intro fold_commute_apply) auto
qed

lemma fold_concat_map: "fold f (concat (map g xs)) s = fold (\<lambda>x. fold f (g x)) xs s"
  by (induction xs arbitrary: s) auto

section \<open>The footprint of one effect is inside the footprint of its batch\<close>

definition effect_footprint :: "Effect \<Rightarrow> StepFootprint" where
  "effect_footprint e = StepFootprint_from_effects [e]"

lemma note_effect_grows: "footprint_le f (note_effect e f)"
  by (cases e) (simp_all add: note_effect_def note_wait_target_def footprint_le_def subset_insertI split: WaitTarget.splits)

lemma note_effect_covers: "footprint_le (effect_footprint e) (note_effect e f)"
  by (cases e)
     (auto simp: effect_footprint_def StepFootprint_from_effects_def StepFootprint_default_def note_effect_def
       note_wait_target_def footprint_le_def split: WaitTarget.splits)

lemma effect_footprint_le:
  assumes "e \<in> set es"
  shows "footprint_le (effect_footprint e) (StepFootprint_from_effects es)"
proof -
  have grow: "footprint_le f (fold note_effect es f)" for es f
    by (induction es arbitrary: f) (auto intro: footprint_le_trans note_effect_grows)
  obtain xs ys where "es = xs @ e # ys" using assms by (meson split_list)
  then have "StepFootprint_from_effects es = fold note_effect ys (note_effect e (fold note_effect xs StepFootprint_default))"
    by (simp add: StepFootprint_from_effects_def)
  then show ?thesis using footprint_le_trans [OF note_effect_covers grow] by simp
qed

definition independent :: "Effect list \<Rightarrow> Effect list \<Rightarrow> bool" where
  "independent es es' \<longleftrightarrow> \<not> StepFootprint_conflicts (StepFootprint_from_effects es) (StepFootprint_from_effects es')"

lemma independent_effects:
  "independent es es' \<Longrightarrow> e \<in> set es \<Longrightarrow> e' \<in> set es' \<Longrightarrow> \<not> StepFootprint_conflicts (effect_footprint e) (effect_footprint e')"
  unfolding independent_def using StepFootprint_conflicts_mono [OF effect_footprint_le effect_footprint_le] by blast

lemmas effect_footprint_simps = effect_footprint_def StepFootprint_from_effects_def StepFootprint_default_def note_effect_def

section \<open>Mailboxes and signals\<close>

definition mailbox_of :: "Effect \<Rightarrow> MailboxId option" where
  "mailbox_of e =
     (case e of
        MailboxSend m _ _ \<Rightarrow> Some m | MailboxReceiveAttempt m _ \<Rightarrow> Some m | MailboxPop m _ _ \<Rightarrow> Some m | _ \<Rightarrow> None)"

lemma mailbox_action_other: "mailbox_of e \<noteq> Some m \<Longrightarrow> mailbox_action m e = id"
  by (cases e) (auto simp: mailbox_of_def mailbox_action_def fun_eq_iff)

lemma independent_mailboxes:
  assumes "\<not> StepFootprint_conflicts (effect_footprint e) (effect_footprint e')" and "mailbox_of e = Some m"
  shows "mailbox_of e' \<noteq> Some m"
  using assms
  by (cases e; cases e') (auto simp: mailbox_of_def effect_footprint_simps StepFootprint_conflicts_def mailbox_conflict_def ids_overlap_def)

lemma mailbox_actions_commute:
  assumes "\<not> StepFootprint_conflicts (effect_footprint e) (effect_footprint e')"
  shows "mailbox_action m e \<circ> mailbox_action m e' = mailbox_action m e' \<circ> mailbox_action m e"
proof (cases "mailbox_of e = Some m")
  case True
  then show ?thesis using mailbox_action_other independent_mailboxes [OF assms] by simp
qed (simp add: mailbox_action_other)

lemma signal_actions_commute:
  assumes "\<not> StepFootprint_conflicts (effect_footprint e) (effect_footprint e')"
  shows "signal_action s e \<circ> signal_action s e' = signal_action s e' \<circ> signal_action s e"
proof (cases "\<exists>v u. e = SignalUpdate s v u")
  case True
  then have "signal_action s e' = id"
    using assms
    by (cases e') (auto simp: effect_footprint_simps StepFootprint_conflicts_def signal_conflict_def ids_overlap_def
      signal_action_def fun_eq_iff)
  then show ?thesis by simp
next
  case False
  then have "signal_action s e = id" by (cases e) (auto simp: signal_action_def fun_eq_iff)
  then show ?thesis by simp
qed

section \<open>Reservations\<close>

definition clear_lines :: "ByteRange \<Rightarrow> UnitId option \<Rightarrow> (UnitId \<Rightarrow> ReservedLine option) \<Rightarrow> UnitId \<Rightarrow> ReservedLine option" where
  "clear_lines rng except g u =
     (case g u of
        None \<Rightarrow> None
      | Some l \<Rightarrow> if Some u = except \<or> \<not> ReservedLine_overlaps_range l (GuestAddr_raw (br_start rng)) (br_length rng) then Some l else None)"

definition line_action :: "Effect \<Rightarrow> (UnitId \<Rightarrow> ReservedLine option) \<Rightarrow> UnitId \<Rightarrow> ReservedLine option" where
  "line_action e g =
     (case e of
        SharedWriteIntent rng _ src _ \<Rightarrow> clear_lines rng (Some src) g
      | ReservationAcquire line src \<Rightarrow> g(src \<mapsto> ReservedLine_containing line)
      | ConditionalStore rng _ src _ \<Rightarrow> clear_lines rng None (g(src := None))
      | _ \<Rightarrow> g)"

definition rsx_effect :: "Effect \<Rightarrow> bool" where
  "rsx_effect e = (case e of RsxLabelWrite _ _ \<Rightarrow> True | RsxFlipRequest _ \<Rightarrow> True | _ \<Rightarrow> False)"

lemma reservation_action_lines:
  assumes "rt_inv t" and "\<not> rsx_effect e"
  shows "rt_inv (reservation_action base e t) \<and> ReservationTable_get (reservation_action base e t) = line_action e (ReservationTable_get t)"
  using assms
  by (cases e)
     (auto simp: reservation_action_def line_action_def clear_lines_def rsx_effect_def fun_eq_iff rt_get_insert rt_get_remove
       rt_get_clear_covering rt_inv_clear_covering rt_inv_insert rt_inv_remove split: option.splits)

lemma reservation_fold_lines:
  assumes "rt_inv t" and "\<forall>e \<in> set es. \<not> rsx_effect e"
  shows "rt_inv (fold (reservation_action base) es t) \<and>
    ReservationTable_get (fold (reservation_action base) es t) = fold line_action es (ReservationTable_get t)"
  using assms
proof (induction es arbitrary: t)
  case (Cons e es)
  then show ?case using reservation_action_lines [of t e base] Cons.IH [of "reservation_action base e t"] by simp
qed simp

text \<open>The line test of the dependency relation is the one the reservation table applies.\<close>

lemma write_covers_line_iff:
  "write_covers_line w (line AND NOT (RESERVATION_LINE_BYTES - 1)) \<longleftrightarrow>
     ReservedLine_overlaps_range (ReservedLine_containing line) (GuestAddr_raw (br_start w)) (br_length w)"
  by (auto simp: write_covers_line_def ReservedLine_overlaps_range_def ReservedLine_end_inclusive_def ReservedLine_containing_def Let_def)

definition line_source :: "Effect \<Rightarrow> UnitId option" where
  "line_source e =
     (case e of
        SharedWriteIntent _ _ src _ \<Rightarrow> Some src | ReservationAcquire _ src \<Rightarrow> Some src
      | ConditionalStore _ _ src _ \<Rightarrow> Some src | _ \<Rightarrow> None)"

lemma clear_lines_swap: "clear_lines r x (clear_lines s y g) = clear_lines s y (clear_lines r x g)"
  by (auto simp: clear_lines_def fun_eq_iff split: option.splits)

lemma clear_lines_drop: "clear_lines r x (g(u := None)) = (clear_lines r x g)(u := None)"
  by (auto simp: clear_lines_def fun_eq_iff)

lemma clear_lines_keep:
  "\<not> ReservedLine_overlaps_range l (GuestAddr_raw (br_start r)) (br_length r) \<Longrightarrow> clear_lines r x (g(u \<mapsto> l)) = (clear_lines r x g)(u \<mapsto> l)"
  by (auto simp: clear_lines_def fun_eq_iff)

lemma line_actions_commute:
  assumes "\<not> StepFootprint_conflicts (effect_footprint e) (effect_footprint e')"
    and "line_source e \<noteq> None \<Longrightarrow> line_source e \<noteq> line_source e'"
  shows "line_action e \<circ> line_action e' = line_action e' \<circ> line_action e"
proof (cases "line_source e = None \<or> line_source e' = None")
  case True
  then have "line_action e = id \<or> line_action e' = id"
    by (cases e; cases e') (auto simp: line_source_def line_action_def fun_eq_iff)
  then show ?thesis by auto
next
  case False
  have r: "\<not> reservation_conflict (effect_footprint e) (effect_footprint e')"
    using assms(1) by (simp add: StepFootprint_conflicts_def)
  have "line_action e (line_action e' g) = line_action e' (line_action e g)" for g
    using False assms(2) r
    by (cases e; simp add: line_source_def; cases e'; simp add: line_action_def clear_lines_drop clear_lines_keep
          effect_footprint_simps reservation_conflict_def write_covers_any_line_def write_covers_line_iff clears_held_def fun_upd_twist;
        simp add: clear_lines_swap)
  then show ?thesis by (simp add: fun_eq_iff)
qed

section \<open>Bytes\<close>

text \<open>What validation has checked of a write: its payload fills its range, which does not wrap.\<close>

definition write_ok :: "Effect \<Rightarrow> bool" where
  "write_ok e =
     (case e of
        SharedWriteIntent rng payload _ _ \<Rightarrow> length (WritePayload_bytes payload) = unat (br_length rng) \<and> range_ok rng
      | ConditionalStore rng payload _ _ \<Rightarrow> length (WritePayload_bytes payload) = unat (br_length rng) \<and> range_ok rng
      | _ \<Rightarrow> True)"

definition byte_action :: "Effect \<Rightarrow> (nat \<Rightarrow> u8 option) \<Rightarrow> nat \<Rightarrow> u8 option" where
  "byte_action e = fold overlay (effect_writes 0 e)"

lemma batch_bytes:
  assumes "\<forall>e \<in> set es. \<not> rsx_effect e"
  shows "fold overlay (batch_writes base es) m = fold byte_action es m"
proof -
  have "effect_writes base e = effect_writes 0 e" if "e \<in> set es" for e
    using assms that by (cases e) (auto simp: effect_writes_def rsx_effect_def)
  then show ?thesis
    by (simp add: batch_writes_def fold_concat_map byte_action_def cong: fold_cong)
qed

lemma overlays_commute:
  assumes "length bs = unat (br_length r)" and "length bs' = unat (br_length r')" and "range_ok r" and "range_ok r'"
    and "\<not> ByteRange_overlaps r r'"
  shows "overlay (StagedWrite_new r bs) \<circ> overlay (StagedWrite_new r' bs') = overlay (StagedWrite_new r' bs') \<circ> overlay (StagedWrite_new r bs)"
proof -
  let ?s = "unat (GuestAddr_raw (br_start r))" and ?s' = "unat (GuestAddr_raw (br_start r'))"
  have "br_length r = 0 \<or> br_length r' = 0 \<or> ?s' + unat (br_length r') \<le> ?s \<or> ?s + unat (br_length r) \<le> ?s'"
    using assms(5) unat_end_raw [OF assms(3)] unat_end_raw [OF assms(4)]
    by (auto simp: ByteRange_overlaps_def word_less_nat_alt split: if_splits)
  then show ?thesis
    by (auto simp: overlay_def fun_eq_iff StagedWrite_new_def StagedBytes_roundtrip Let_def assms(1,2))
qed

lemma byte_actions_commute:
  assumes "\<not> StepFootprint_conflicts (effect_footprint e) (effect_footprint e')" and "write_ok e" and "write_ok e'"
    and "\<not> rsx_effect e" and "\<not> rsx_effect e'"
  shows "byte_action e \<circ> byte_action e' = byte_action e' \<circ> byte_action e"
proof -
  have r: "\<not> memory_conflict (effect_footprint e) (effect_footprint e')"
    using assms(1) by (simp add: StepFootprint_conflicts_def)
  consider "effect_writes 0 e = []" | "effect_writes 0 e' = []"
    | rng bs rng' bs' where "effect_writes 0 e = [StagedWrite_new rng bs]" "effect_writes 0 e' = [StagedWrite_new rng' bs']"
      "length bs = unat (br_length rng)" "length bs' = unat (br_length rng')" "range_ok rng" "range_ok rng'" "\<not> ByteRange_overlaps rng rng'"
    using assms(2-5) r
    by (cases e; simp add: effect_writes_def rsx_effect_def write_ok_def; cases e';
        simp add: effect_writes_def rsx_effect_def write_ok_def effect_footprint_simps memory_conflict_def ranges_overlap_def)
  then show ?thesis
  proof cases
    case 3
    with overlays_commute [OF 3(3-7)] show ?thesis by (simp add: byte_action_def)
  qed (simp_all add: byte_action_def)
qed

section \<open>Parks, wakes and deliveries\<close>

text \<open>
  A receive attempt takes the head of its mailbox or parks its source, so the status
  overrides and the pending receives change together with the mailboxes.
\<close>

type_synonym park_state =
  "(MailboxId \<Rightarrow> Mailbox option) \<times> (UnitId \<Rightarrow> UnitStatus option) \<times> (UnitId \<Rightarrow> u32 list)"

definition attempt_result :: "Effect \<Rightarrow> (MailboxId \<Rightarrow> Mailbox option) \<Rightarrow> u32 option" where
  "attempt_result e mbs =
     (case e of MailboxReceiveAttempt m _ \<Rightarrow> Option.bind (mbs m) (\<lambda>q. fst (Mailbox_try_receive q)) | _ \<Rightarrow> None)"

definition unit_change :: "Effect \<Rightarrow> u32 option \<Rightarrow> (UnitId \<times> (UnitStatus + u32)) option" where
  "unit_change e taken =
     (case e of
        MailboxReceiveAttempt _ src \<Rightarrow> Some (src, case taken of Some msg \<Rightarrow> Inr msg | None \<Rightarrow> Inl Blocked)
      | WakeUnit target _ \<Rightarrow> Some (target, Inl Runnable)
      | WaitOnEvent _ src \<Rightarrow> Some (src, Inl Blocked)
      | _ \<Rightarrow> None)"

definition change_unit ::
    "(UnitId \<Rightarrow> bool) \<Rightarrow> (UnitId \<times> (UnitStatus + u32)) option \<Rightarrow>
      (UnitId \<Rightarrow> UnitStatus option) \<times> (UnitId \<Rightarrow> u32 list) \<Rightarrow> (UnitId \<Rightarrow> UnitStatus option) \<times> (UnitId \<Rightarrow> u32 list)" where
  "change_unit registered change = (\<lambda>(overrides, receives).
     case change of
       None \<Rightarrow> (overrides, receives)
     | Some (u, Inl status) \<Rightarrow> (if registered u then overrides(u \<mapsto> status) else overrides, receives)
     | Some (u, Inr msg) \<Rightarrow> (overrides, if registered u then receives(u := receives u @ [msg]) else receives))"

definition park_action :: "(UnitId \<Rightarrow> bool) \<Rightarrow> Effect \<Rightarrow> park_state \<Rightarrow> park_state" where
  "park_action registered e = (\<lambda>(mbs, us).
     (\<lambda>m. map_option (mailbox_action m e) (mbs m), change_unit registered (unit_change e (attempt_result e mbs)) us))"

definition receives_of :: "'u UnitRegistry \<Rightarrow> UnitId \<Rightarrow> u32 list" where
  "receives_of r u = (case map_of (ur_pending_receives r) u of None \<Rightarrow> [] | Some xs \<Rightarrow> xs)"

definition park_view :: "('u, 'o) CommitContext \<Rightarrow> park_state" where
  "park_view ctx = (MailboxRegistry_get (cx_mailboxes ctx), UnitRegistry_status_override (cx_units ctx), receives_of (cx_units ctx))"

definition units_ready :: "'u UnitRegistry \<Rightarrow> bool" where
  "units_ready r \<longleftrightarrow> btree_wf (ur_status_overrides r) \<and> btree_wf (ur_pending_receives r)"

lemma set_override_view:
  assumes "units_ready r"
  shows "UnitRegistry_status_override (UnitRegistry_set_status_override u s r) =
      (if btree_contains (ur_units r) u then (UnitRegistry_status_override r)(u \<mapsto> s) else UnitRegistry_status_override r)"
    and "receives_of (UnitRegistry_set_status_override u s r) = receives_of r"
    and "units_ready (UnitRegistry_set_status_override u s r)"
    and "ur_units (UnitRegistry_set_status_override u s r) = ur_units r"
  using assms
  by (simp_all add: UnitRegistry_status_override_def UnitRegistry_set_status_override_def UnitRegistry_mark_status_def
      fun_eq_iff btree_get_insert units_ready_def btree_wf_insert receives_of_def)

lemma push_receive_view:
  assumes "units_ready r"
  shows "receives_of (UnitRegistry_push_receive u msg r) =
      (if btree_contains (ur_units r) u then (receives_of r)(u := receives_of r u @ [msg]) else receives_of r)"
    and "UnitRegistry_status_override (UnitRegistry_push_receive u msg r) = UnitRegistry_status_override r"
    and "units_ready (UnitRegistry_push_receive u msg r)"
    and "ur_units (UnitRegistry_push_receive u msg r) = ur_units r"
  using assms
  by (auto simp: UnitRegistry_status_override_def UnitRegistry_push_receive_def or_default_push_def
      fun_eq_iff btree_get_insert units_ready_def btree_wf_insert receives_of_def split: option.splits)

lemma receive_attempt_result:
  assumes "reg_inv Mailbox_lanes r" and "MailboxRegistry_get_mut m Mailbox_try_receive r = Some (res, r')"
  shows "res = Option.bind (MailboxRegistry_get r m) (\<lambda>q. fst (Mailbox_try_receive q))"
  using Registry_get_mut_effect(1) [OF assms(1) assms(2) [unfolded MailboxRegistry_get_mut_def]]
  by (auto simp: MailboxRegistry_get_def)

lemma apply_effect_parks:
  assumes "apply_ready ctx" and "units_ready (cx_units ctx)" and "apply_effect e (ctx, o1) = Some (ctx', o2)"
  shows "park_view ctx' = park_action (btree_contains (ur_units (cx_units ctx))) e (park_view ctx) \<and>
    units_ready (cx_units ctx') \<and> ur_units (cx_units ctx') = ur_units (cx_units ctx)"
proof -
  have m: "MailboxRegistry_get (cx_mailboxes ctx') = (\<lambda>m. map_option (mailbox_action m e) (MailboxRegistry_get (cx_mailboxes ctx) m))"
    using apply_effect_mailboxes [OF assms(1,3)] by (simp add: fun_eq_iff)
  have r: "reg_inv Mailbox_lanes (cx_mailboxes ctx)" using assms(1) by (simp add: apply_ready_def)
  show ?thesis
  proof (cases e)
    case (MailboxReceiveAttempt mid src)
    then obtain res mbs where g: "MailboxRegistry_get_mut mid Mailbox_try_receive (cx_mailboxes ctx) = Some (res, mbs)"
      using assms(3) by (auto simp: apply_effect_def split: option.splits)
    note res = receive_attempt_result [OF r g]
    show ?thesis
      using assms(3) g res m MailboxReceiveAttempt set_override_view [OF assms(2)] push_receive_view [OF assms(2)]
      by (auto simp: apply_effect_def park_view_def park_action_def change_unit_def unit_change_def attempt_result_def Let_def split: option.splits)
  qed (use assms(2,3) m set_override_view [OF assms(2)] in
      \<open>auto simp: apply_effect_def park_view_def park_action_def change_unit_def unit_change_def attempt_result_def Let_def split: option.splits prod.splits\<close>)
qed

lemma apply_batch_parks:
  assumes "apply_ready ctx" and "units_ready (cx_units ctx)" and "apply_batch es (ctx, o1) = Some (ctx', o2)"
  shows "park_view ctx' = fold (park_action (btree_contains (ur_units (cx_units ctx)))) es (park_view ctx) \<and>
    units_ready (cx_units ctx') \<and> ur_units (cx_units ctx') = ur_units (cx_units ctx) \<and> apply_ready ctx'"
  using assms
proof (induction es arbitrary: ctx o1)
  case (Cons e es)
  obtain c oc where one: "apply_effect e (ctx, o1) = Some (c, oc)" and rest: "apply_batch es (c, oc) = Some (ctx', o2)"
    using Cons.prems(3) by (auto split: option.splits)
  from apply_effect_parks [OF Cons.prems(1,2) one] apply_effect_keeps [OF Cons.prems(1) one] Cons.IH [OF _ _ rest]
  show ?case by simp
qed simp

text \<open>The unit whose status or deliveries an effect of its own can change.\<close>

definition parked_source :: "Effect \<Rightarrow> UnitId option" where
  "parked_source e = (case e of MailboxReceiveAttempt _ src \<Rightarrow> Some src | WaitOnEvent _ src \<Rightarrow> Some src | _ \<Rightarrow> None)"

lemma change_unit_swap:
  assumes "\<And>u x y. c = Some (u, x) \<Longrightarrow> c' = Some (u, y) \<Longrightarrow> x = y \<and> isl x"
  shows "change_unit reg c (change_unit reg c' us) = change_unit reg c' (change_unit reg c us)"
proof (cases "c = None \<or> c' = None")
  case True
  then show ?thesis by (auto simp: change_unit_def split: prod.splits)
next
  case False
  then obtain u x v y where c: "c = Some (u, x)" "c' = Some (v, y)" by auto
  show ?thesis
  proof (cases "u = v")
    case True
    then have "c' = c" using assms [of u x y] c by simp
    then show ?thesis by simp
  next
    case False
    then show ?thesis using c by (cases us; cases x; cases y) (simp_all add: change_unit_def fun_upd_twist)
  qed
qed

lemma independent_changes:
  assumes "\<not> StepFootprint_conflicts (effect_footprint e) (effect_footprint e')"
    and "parked_source e \<noteq> None \<Longrightarrow> parked_source e \<noteq> parked_source e'"
    and "unit_change e h = Some (u, x)" and "unit_change e' h' = Some (u, y)"
  shows "x = y \<and> isl x"
proof -
  have s: "\<not> signal_conflict (effect_footprint e) (effect_footprint e')" using assms(1) by (simp add: StepFootprint_conflicts_def)
  have k: "parked_source d = Some u \<and> u \<in> set (fp_wait_units (effect_footprint d)) \<or>
      z = Inl Runnable \<and> u \<in> set (fp_wake_targets (effect_footprint d))" if "unit_change d j = Some (u, z)" for d j z
    using that by (cases d) (auto simp: unit_change_def parked_source_def effect_footprint_simps note_wait_target_def split: WaitTarget.splits)
  show ?thesis
    using k [OF assms(3)] k [OF assms(4)] assms(2) s by (auto simp: signal_conflict_def ids_overlap_def)
qed

lemma park_actions_commute:
  assumes c: "\<not> StepFootprint_conflicts (effect_footprint e) (effect_footprint e')"
    and src: "parked_source e \<noteq> None \<Longrightarrow> parked_source e \<noteq> parked_source e'"
  shows "park_action reg e \<circ> park_action reg e' = park_action reg e' \<circ> park_action reg e"
proof -
  have swap: "map_option (mailbox_action m e) (map_option (mailbox_action m e') x) = map_option (mailbox_action m e') (map_option (mailbox_action m e) x)" for m x
    using mailbox_actions_commute [OF c, of m] by (simp add: option.map_comp)
  have keep: "attempt_result d (\<lambda>m. map_option (mailbox_action m d') (mbs m)) = attempt_result d mbs"
    if "\<not> StepFootprint_conflicts (effect_footprint d) (effect_footprint d')" for d d' mbs
  proof (cases d)
    case (MailboxReceiveAttempt m u)
    then have "mailbox_action m d' = id"
      using independent_mailboxes [OF that, of m] by (intro mailbox_action_other) (simp add: mailbox_of_def)
    then show ?thesis using MailboxReceiveAttempt by (simp add: attempt_result_def option.map_id)
  qed (simp_all add: attempt_result_def)
  have c': "\<not> StepFootprint_conflicts (effect_footprint e') (effect_footprint e)" using c StepFootprint_conflicts_sym by blast
  have "change_unit reg (unit_change e h) (change_unit reg (unit_change e' h') us) =
      change_unit reg (unit_change e' h') (change_unit reg (unit_change e h) us)" for h h' us
    by (rule change_unit_swap) (rule independent_changes [OF c src])
  then show ?thesis
    unfolding park_action_def fun_eq_iff by (auto simp: keep [OF c] keep [OF c'] swap)
qed

section \<open>A commit as a fold over its effects\<close>

text \<open>
  The effects a unit's step emits: no RSX effect (only the FIFO advance pass emits them), and
  payloads as their constructors build them.
\<close>

definition unit_effect :: "Effect \<Rightarrow> bool" where
  "unit_effect e \<longleftrightarrow> \<not> rsx_effect e \<and>
     (case e of
        SharedWriteIntent _ p _ _ \<Rightarrow> payload_ok p \<and> length (WritePayload_bytes p) < 2 ^ 64
      | ConditionalStore _ p _ _ \<Rightarrow> payload_ok p \<and> length (WritePayload_bytes p) < 2 ^ 64
      | _ \<Rightarrow> True)"

lemma unit_effect_writes: "unit_effect e \<Longrightarrow> w \<in> set (effect_writes base e) \<Longrightarrow> sw_ok w"
  by (cases e) (auto simp: effect_writes_def unit_effect_def rsx_effect_def sw_ok_def StagedWrite_new_def StagedBytes_len_def
      StagedBytes_roundtrip)

lemma of_nat_length: "(of_nat n :: u64) = w \<Longrightarrow> n < 2 ^ 64 \<Longrightarrow> n = unat w"
  using unat_of_nat_no_wrap [of n, where 'a = 64] by simp

lemma validated_writes:
  assumes "validate_from idx es v = (Inr u, v')" and "\<forall>e \<in> set es. unit_effect e"
  shows "\<forall>e \<in> set es. write_ok e"
  using assms
proof (induction es arbitrary: idx v)
  case (Cons e es)
  obtain v1 where one: "validate_effect idx e v = (Inr (), v1)" and rest: "validate_from (idx + 1) es v1 = (Inr u, v')"
    using Cons.prems(1) by (auto split: prod.splits sum.splits)
  have "write_ok e"
    using one Cons.prems(2)
    by (cases e) (auto simp: write_ok_def validate_effect_def check_write_target_def payload_ok_def unit_effect_def Let_def rbind_def
        range_ok_def checked_add_def split: if_splits option.splits sum.splits dest: of_nat_length)
  with Cons.IH [OF rest] Cons.prems(2) show ?case by simp
qed simp

definition commit_ready :: "('u, 'o) CommitContext \<Rightarrow> bool" where
  "commit_ready ctx \<longleftrightarrow> hash_inv (cx_memory ctx) \<and> apply_ready ctx \<and> units_ready (cx_units ctx) \<and> rt_inv (cx_reservations ctx)"

lemma accepted_commit:
  assumes "commit_ready ctx" and "\<forall>e \<in> set es. unit_effect e" and "sr_yield_reason result \<noteq> Fault"
    and "CommitPipeline_process tap_write result es ctx = Some (Inr outcome, ctx')"
  shows "commit_ready ctx'" and "ur_units (cx_units ctx') = ur_units (cx_units ctx)" and "\<forall>e \<in> set es. write_ok e"
    and "mem_byte (cx_memory ctx') = fold byte_action es (mem_byte (cx_memory ctx))"
    and "SignalRegistry_get (cx_signals ctx') sid = map_option (fold (signal_action sid) es) (SignalRegistry_get (cx_signals ctx) sid)"
    and "ReservationTable_get (cx_reservations ctx') = fold line_action es (ReservationTable_get (cx_reservations ctx))"
    and "park_view ctx' = fold (park_action (btree_contains (ur_units (cx_units ctx)))) es (park_view ctx)"
proof -
  have rsx: "\<forall>e \<in> set es. \<not> rsx_effect e" using assms(2) by (simp add: unit_effect_def)
  have sw: "\<forall>w \<in> set (batch_writes base es). sw_ok w" for base
    using assms(2) unit_effect_writes by (fastforce simp: batch_writes_def)
  have inv: "hash_inv (cx_memory ctx)" "apply_ready ctx" "units_ready (cx_units ctx)" "rt_inv (cx_reservations ctx)"
    using assms(1) by (simp_all add: commit_ready_def)
  show "\<forall>e \<in> set es. write_ok e"
  proof (cases "es = []")
    case False
    then obtain u v where "validate_batch es ctx StagingMemory_new CommitOutcome_default = (Inr u, v)"
      using assms(3,4) by (auto simp: CommitPipeline_process_def split: prod.splits sum.splits)
    then show ?thesis using validated_writes assms(2) by (simp add: validate_batch_def)
  qed simp
  have "commit_ready ctx' \<and> ur_units (cx_units ctx') = ur_units (cx_units ctx) \<and>
    mem_byte (cx_memory ctx') = fold byte_action es (mem_byte (cx_memory ctx)) \<and>
    (\<forall>sid. SignalRegistry_get (cx_signals ctx') sid = map_option (fold (signal_action sid) es) (SignalRegistry_get (cx_signals ctx) sid)) \<and>
    ReservationTable_get (cx_reservations ctx') = fold line_action es (ReservationTable_get (cx_reservations ctx)) \<and>
    park_view ctx' = fold (park_action (btree_contains (ur_units (cx_units ctx)))) es (park_view ctx)"
  proof (cases "es = []")
    case True
    then show ?thesis using assms(1,3,4) by (simp add: CommitPipeline_process_def option.map_id0)
  next
    case False
    show ?thesis
    proof (rule process_cases [OF inv(1,2) sw assms(3) False, where tap_write = tap_write])
      fix e c
      assume "CommitPipeline_process tap_write result es ctx = Some (Inl e, c)"
      with assms(4) show ?thesis by simp
    next
      fix c d oa ob
      assume p: "CommitPipeline_process tap_write result es ctx = Some (Inr ob, d)" and ap: "apply_batch es (c, oa) = Some (d, ob)"
        and f: "apply_frame c d" "apply_ready c" "hash_inv (cx_memory c)"
        "mem_byte (cx_memory c) = fold overlay (batch_writes (cx_rsx_label_base ctx) es) (mem_byte (cx_memory ctx))"
        and same: "cx_units c = cx_units ctx" "cx_mailboxes c = cx_mailboxes ctx" "cx_signals c = cx_signals ctx"
          "cx_reservations c = cx_reservations ctx"
      have d: "d = ctx'" using p assms(4) by simp
      have u: "units_ready (cx_units c)" using inv(3) same by simp
      note o1 = apply_batch_in_order [OF f(2) ap] and o2 = apply_batch_parks [OF f(2) u ap]
        and o3 = reservation_fold_lines [OF inv(4) rsx, of "cx_rsx_label_base c"]
      have "park_view c = park_view ctx" using same by (simp add: park_view_def)
      then show ?thesis
        using o1 o2 o3 f same batch_bytes [OF rsx] unfolding d by (simp add: commit_ready_def apply_frame_def)
    qed
  qed
  then show "commit_ready ctx'" "ur_units (cx_units ctx') = ur_units (cx_units ctx)"
    "mem_byte (cx_memory ctx') = fold byte_action es (mem_byte (cx_memory ctx))"
    "SignalRegistry_get (cx_signals ctx') sid = map_option (fold (signal_action sid) es) (SignalRegistry_get (cx_signals ctx) sid)"
    "ReservationTable_get (cx_reservations ctx') = fold line_action es (ReservationTable_get (cx_reservations ctx))"
    "park_view ctx' = fold (park_action (btree_contains (ur_units (cx_units ctx)))) es (park_view ctx)"
    by simp_all
qed

section \<open>Independent steps commute\<close>

definition emitted_by :: "UnitId \<Rightarrow> Effect \<Rightarrow> bool" where
  "emitted_by u e \<longleftrightarrow> unit_effect e \<and> line_source e \<in> {None, Some u} \<and> parked_source e \<in> {None, Some u}"

lemma independent_folds:
  assumes "u1 \<noteq> u2" and "\<forall>e \<in> set es1. emitted_by u1 e \<and> write_ok e" and "\<forall>e \<in> set es2. emitted_by u2 e \<and> write_ok e"
    and "independent es1 es2"
  shows "fold byte_action es2 (fold byte_action es1 b) = fold byte_action es1 (fold byte_action es2 b)"
    and "fold (signal_action s) es2 (fold (signal_action s) es1 r) = fold (signal_action s) es1 (fold (signal_action s) es2 r)"
    and "fold line_action es2 (fold line_action es1 g) = fold line_action es1 (fold line_action es2 g)"
    and "fold (park_action reg) es2 (fold (park_action reg) es1 p) = fold (park_action reg) es1 (fold (park_action reg) es2 p)"
proof -
  note i = independent_effects [OF assms(4)]
  have src: "line_source x \<noteq> None \<Longrightarrow> line_source x \<noteq> line_source y" "parked_source x \<noteq> None \<Longrightarrow> parked_source x \<noteq> parked_source y"
    if "x \<in> set es1" "y \<in> set es2" for x y
    using that assms(1-3) by (fastforce simp: emitted_by_def)+
  show "fold byte_action es2 (fold byte_action es1 b) = fold byte_action es1 (fold byte_action es2 b)"
    using assms(2,3) by (intro fold_swap byte_actions_commute i) (auto simp: emitted_by_def unit_effect_def)
  show "fold (signal_action s) es2 (fold (signal_action s) es1 r) = fold (signal_action s) es1 (fold (signal_action s) es2 r)"
    by (intro fold_swap signal_actions_commute i)
  show "fold line_action es2 (fold line_action es1 g) = fold line_action es1 (fold line_action es2 g)"
    by (intro fold_swap line_actions_commute i src)
  show "fold (park_action reg) es2 (fold (park_action reg) es1 p) = fold (park_action reg) es1 (fold (park_action reg) es2 p)"
    by (intro fold_swap park_actions_commute i src)
qed

text \<open>
  C4: the independence the schedule explorer prunes by is sound for the commit pipeline. When
  two steps of different units have footprints that do not conflict and the pipeline accepts
  their batches in both orders, the order does not matter: memory holds the same bytes, every
  mailbox, signal and reservation is the same, and every unit has the same status override
  and the same messages to receive.
\<close>

theorem independent_steps_commute:
  assumes "commit_ready ctx" and "u1 \<noteq> u2"
    and "\<forall>e \<in> set es1. emitted_by u1 e" and "\<forall>e \<in> set es2. emitted_by u2 e"
    and "\<not> StepFootprint_conflicts (StepFootprint_from_effects es1) (StepFootprint_from_effects es2)"
    and "sr_yield_reason r1 \<noteq> Fault" and "sr_yield_reason r2 \<noteq> Fault"
    and "CommitPipeline_process tap_write r1 es1 ctx = Some (Inr o1, c1)"
    and "CommitPipeline_process tap_write r2 es2 c1 = Some (Inr o12, c12)"
    and "CommitPipeline_process tap_write r2 es2 ctx = Some (Inr o2, c2)"
    and "CommitPipeline_process tap_write r1 es1 c2 = Some (Inr o21, c21)"
  shows "mem_byte (cx_memory c12) = mem_byte (cx_memory c21) \<and>
    MailboxRegistry_get (cx_mailboxes c12) = MailboxRegistry_get (cx_mailboxes c21) \<and>
    SignalRegistry_get (cx_signals c12) = SignalRegistry_get (cx_signals c21) \<and>
    ReservationTable_get (cx_reservations c12) = ReservationTable_get (cx_reservations c21) \<and>
    UnitRegistry_status_override (cx_units c12) = UnitRegistry_status_override (cx_units c21) \<and>
    receives_of (cx_units c12) = receives_of (cx_units c21)"
proof -
  have ue: "\<forall>e \<in> set es1. unit_effect e" "\<forall>e \<in> set es2. unit_effect e" using assms(3,4) by (simp_all add: emitted_by_def)
  note a1 = accepted_commit [OF assms(1) ue(1) assms(6,8)] and a2 = accepted_commit [OF assms(1) ue(2) assms(7,10)]
  note a12 = accepted_commit [OF a1(1) ue(2) assms(7,9)] and a21 = accepted_commit [OF a2(1) ue(1) assms(6,11)]
  have ok: "\<forall>e \<in> set es1. emitted_by u1 e \<and> write_ok e" "\<forall>e \<in> set es2. emitted_by u2 e \<and> write_ok e"
    using assms(3,4) a1(3) a2(3) by simp_all
  note f = independent_folds [OF assms(2) ok assms(5) [folded independent_def]]
  have p: "park_view c12 = park_view c21" by (simp add: a12(7) a21(7) a1(2,7) a2(2,7) f(4))
  have "SignalRegistry_get (cx_signals c12) = SignalRegistry_get (cx_signals c21)"
    by (simp add: fun_eq_iff a12(5) a21(5) a1(5) a2(5) option.map_comp comp_def f(2))
  then show ?thesis using p by (simp add: park_view_def a12(4,6) a21(4,6) a1(4,6) a2(4,6) f(1,3))
qed

section \<open>Witness\<close>

lemma wait_commit:
  assumes "UnitRegistry_get (cx_units ctx) u \<noteq> None"
  shows "\<exists>oc. CommitPipeline_process tw sample_result [WaitOnEvent t u] ctx =
    Some (Inr oc, ctx\<lparr>cx_units := UnitRegistry_set_status_override u Blocked (cx_units ctx)\<rparr>)"
  using assms
  by (simp add: CommitPipeline_process_def sample_result_def validate_batch_def validate_effect_def require_unit_def Let_def
      StagingMemory_drain_into_observed_def StagingMemory_validate_pending_def StagingMemory_new_def apply_effect_def)

lemma acquire_commit:
  assumes "UnitRegistry_get (cx_units ctx) u \<noteq> None"
  shows "\<exists>oc. CommitPipeline_process tw sample_result [ReservationAcquire line u] ctx =
    Some (Inr oc, ctx\<lparr>cx_reservations := snd (ReservationTable_insert_or_replace u (ReservedLine_containing line) (cx_reservations ctx))\<rparr>)"
  using assms
  by (simp add: CommitPipeline_process_def sample_result_def validate_batch_def validate_effect_def require_unit_def Let_def
      StagingMemory_drain_into_observed_def StagingMemory_validate_pending_def StagingMemory_new_def apply_effect_def split: prod.splits)

lemma sample_context_commit_ready: "commit_ready sample_context"
proof -
  have "units_inv fst (cx_units sample_context)"
    using registry_reachable_inv [OF two_units_reachable] by (simp add: sample_context_def)
  moreover have "btree_wf (ur_pending_receives two_units)" by code_simp
  moreover have "rt_inv ReservationTable_new" using rt_inv_in_space by (simp add: ReservationTable_new_def)
  ultimately show ?thesis
    using sample_context_ready by (simp add: commit_ready_def units_ready_def units_inv_def) (simp add: sample_context_def)
qed

theorem independent_steps_commute_witness:
  "\<exists>c12 c21 oa ob. CommitPipeline_process (\<lambda>_ _ _ x. x) sample_result [ReservationAcquire 0x100 (UnitId 1)]
       (sample_context\<lparr>cx_units := UnitRegistry_set_status_override (UnitId 0) Blocked two_units\<rparr>) = Some (Inr oa, c12) \<and>
     CommitPipeline_process (\<lambda>_ _ _ x. x) sample_result [WaitOnEvent (Wait_Barrier (BarrierId 0)) (UnitId 0)]
       (sample_context\<lparr>cx_reservations := snd (ReservationTable_insert_or_replace (UnitId 1) (ReservedLine_containing 0x100) ReservationTable_new)\<rparr>)
       = Some (Inr ob, c21) \<and>
     UnitRegistry_status_override (cx_units c12) = UnitRegistry_status_override (cx_units c21) \<and>
     ReservationTable_get (cx_reservations c12) = ReservationTable_get (cx_reservations c21)"
proof -
  let ?w = "[WaitOnEvent (Wait_Barrier (BarrierId 0)) (UnitId 0)]" and ?a = "[ReservationAcquire 0x100 (UnitId 1)]"
  have u: "UnitRegistry_get two_units (UnitId 0) \<noteq> None" "UnitRegistry_get two_units (UnitId 1) \<noteq> None"
    using two_units_status by (auto simp: effective_status_eq UnitRegistry_get_def)
  have cx: "cx_units sample_context = two_units" "cx_reservations sample_context = ReservationTable_new" by (simp_all add: sample_context_def)
  have u': "UnitRegistry_get (UnitRegistry_set_status_override (UnitId 0) Blocked two_units) (UnitId 1) \<noteq> None"
    using u(2) by (simp add: UnitRegistry_get_def UnitRegistry_set_status_override_def)
  let ?c1 = "sample_context\<lparr>cx_units := UnitRegistry_set_status_override (UnitId 0) Blocked two_units\<rparr>"
  let ?c2 = "sample_context\<lparr>cx_reservations := snd (ReservationTable_insert_or_replace (UnitId 1) (ReservedLine_containing 0x100) ReservationTable_new)\<rparr>"
  obtain o1 where p1: "CommitPipeline_process (\<lambda>_ _ _ x. x) sample_result ?w sample_context = Some (Inr o1, ?c1)"
    using wait_commit [of sample_context "UnitId 0"] u(1) cx by metis
  obtain o2 where p2: "CommitPipeline_process (\<lambda>_ _ _ x. x) sample_result ?a sample_context = Some (Inr o2, ?c2)"
    using acquire_commit [of sample_context "UnitId 1"] u(2) cx by metis
  obtain o12 c12 where p12: "CommitPipeline_process (\<lambda>_ _ _ x. x) sample_result ?a ?c1 = Some (Inr o12, c12)"
    using acquire_commit [of ?c1 "UnitId 1" "\<lambda>_ _ _ x. x" "0x100"] u' by fastforce
  obtain o21 c21 where p21: "CommitPipeline_process (\<lambda>_ _ _ x. x) sample_result ?w ?c2 = Some (Inr o21, c21)"
    using wait_commit [of ?c2 "UnitId 0" "\<lambda>_ _ _ x. x"] u(1) cx by fastforce
  have i: "\<not> StepFootprint_conflicts (StepFootprint_from_effects ?w) (StepFootprint_from_effects ?a)" by code_simp
  have e: "\<forall>e \<in> set ?w. emitted_by (UnitId 0) e" "\<forall>e \<in> set ?a. emitted_by (UnitId 1) e"
    by (simp_all add: emitted_by_def unit_effect_def rsx_effect_def line_source_def parked_source_def)
  have nf: "sr_yield_reason sample_result \<noteq> Fault" "UnitId 0 \<noteq> UnitId 1" by (simp_all add: sample_result_def)
  show ?thesis
    using independent_steps_commute [OF sample_context_commit_ready nf(2) e i nf(1) nf(1) p1 p12 p2 p21] p12 p21 by blast
qed

end
