(* ===== verification/Spec2Isabelle.thy ===== *)
theory Spec2Isabelle
  imports Trace_Stream Lanes Mailbox Signal Reservation Staging Guest_Window Guest_Run Provisional Dma_Latency Commit_Proofs
    Lv2_Mutex Lv2_Semaphore Lv2_Event_Flag Lv2_Event_Queue Lv2_Cond Ppu_Stack Ppu_Threads Float_Vmx_Convert Float_Estimate_Proofs
    Explore_Note Explore_Commute
begin

text \<open>
  CellGov is a deterministic emulator of the PlayStation 3: PPU and SPU units run one step at
  a time under a scheduler, every step emits effects, and a commit pipeline applies a step's
  effects to the committed state at one point. Every kept state has a hash that is maintained
  incrementally. This development models the layers below the instruction sets and proves the
  promises the rest of the program builds on: commits are all or nothing, the cached hashes
  equal the ones computed from scratch, ids are never reused, transfers complete in their
  order, and no wake of a blocked thread is lost.

  \<^bold>\<open>Reading the model.\<close> A Rust \<^verbatim>\<open>Type::method\<close> is the definition \<open>Type_method\<close>; a struct is a record whose
  fields carry a short prefix, an enum is a datatype. Fixed-width integers are words of their
  width, \<^verbatim>\<open>usize\<close> lengths and indices are natural numbers, \<^verbatim>\<open>i32\<close>/\<^verbatim>\<open>i64\<close> are words read with \<^const>\<open>sint\<close> or
  integers with the wrap written out. \<^verbatim>\<open>Result<T, E>\<close> is \<open>'e + 'a\<close> and \<^verbatim>\<open>?\<close> is \<open>rbind\<close>; a panic is \<^const>\<open>None\<close>. The model is
  the release build: a \<^verbatim>\<open>debug_assert!\<close> is not evaluated and \<open>+\<close> wraps. A \<^verbatim>\<open>&mut self\<close> method returns the new
  state. Trait objects (the unit behind a \<^verbatim>\<open>RegisteredUnit\<close>, the scheduler) are parameters or locales.

  \<^bold>\<open>Shared vocabulary.\<close> \<open>Prelude\<close>: checked, saturating and rounding integer operations, results, slices, big-
  and little-endian codecs. \<open>BTree\<close>: the ordered map of the standard library as a sorted association list, with
  the locale of an ordered map and its interpretation. \<open>State_Hash\<close> (\<^verbatim>\<open>cellgov_mem/src/hash.rs\<close>): FNV-1a,
  SplitMix64 and the indexed key stream. \<open>Lanes\<close> (\<^verbatim>\<open>lanes.rs\<close>): object lanes, digests and \<^verbatim>\<open>LaneMap\<close>, whose
  running digest is proved equal to the one recomputed from its entries after any sequence of
  operations and any mutation through its guard.

  \<^bold>\<open>Time and events.\<close> \<open>Guest_Time\<close> (\<^verbatim>\<open>cellgov_time\<close>): ticks, epochs, budgets, the rational conversions. \<open>Events\<close>
  (\<^verbatim>\<open>cellgov_event\<close>): ids, priority classes and the total order of events.

  \<^bold>\<open>Guest memory\<close> (\<^verbatim>\<open>cellgov_mem\<close>). \<open>Guest_Range\<close>, \<open>Dirty_Pages\<close>, \<open>Guest_Memory\<close>: addresses, ranges, the page
  bitmaps and every operation of \<^verbatim>\<open>guest.rs\<close>. \<open>Guest_Layout\<close>: region changes keep the map sorted and disjoint.
  \<open>Guest_Access\<close>: reads and writes against the byte map, on every error branch, and which ranges resolve.
  \<open>Guest_Hash\<close>: the incremental content hash and the digest of the bytes it stands for. \<open>Guest_Window\<close>: windows
  over memory and the instruction fetch. \<open>Guest_Run\<close>: the histories of a memory over all these operations,
  along which the cached hash is always that digest. \<open>Provisional\<close>: the log of provisional reads.
  \<open>Staging\<close>: the staged batch drains atomically.

  \<^bold>\<open>Synchronisation state\<close> (\<^verbatim>\<open>cellgov_sync\<close>). \<open>Registry\<close>, \<open>Mailbox\<close>, \<open>Signal\<close>, \<open>Reservation\<close>.

  \<^bold>\<open>DMA\<close> (\<^verbatim>\<open>cellgov_dma\<close>). \<open>Dma_Command\<close>, \<open>Dma_Request\<close>: command words, parameters, bus requests that partition
  a transfer. \<open>Dma_Queue\<close>, \<open>Dma_Processing\<close>: the queue, its processing loop as a step relation, the
  fence and barrier floors. \<open>Dma_Latency\<close>: the fixed and the measured latency models.

  \<^bold>\<open>Units, scheduling and commit\<close> (\<^verbatim>\<open>cellgov_effects\<close>, \<^verbatim>\<open>cellgov_exec\<close>, \<^verbatim>\<open>cellgov_core\<close>). \<open>Effects\<close>: effect packets and step
  results. \<open>Units\<close>, \<open>Unit_Views\<close>, \<open>Unit_Reach\<close>: the unit registry and its two caches, correct on every
  reachable registry. \<open>Scheduler\<close>: round robin and lowest clock, with fairness. \<open>Dispatch_Lanes\<close>: block reasons
  and pending responses. \<open>Timer_Queue\<close>: wake deadlines. \<open>Rsx_Flip\<close>: the flip-status machine. \<open>Commit\<close>,
  \<open>Commit_Proofs\<close>: validation, the staged drain and the apply pass; what a refused batch leaves behind, the
  fault override of its issuer and the count of label writes, is stated exactly.

  \<^bold>\<open>Traces\<close> (\<^verbatim>\<open>cellgov_trace\<close>). \<open>Trace_Record\<close>: the records, their tags, levels and lengths, the encoder and decoder, over the
  derived enum conversions as a parameter. \<open>Trace_Codec\<close>: those conversions as a locale with its
  interpretations, the round trip of every record and what a successful decode says. \<open>Trace_Stream\<close>: the
  writer refines the list of accepted records, which the reader gives back.

  \<^bold>\<open>LV2 objects\<close> (\<^verbatim>\<open>cellgov_lv2\<close>). \<open>Block_Reason\<close>, \<open>Waiters\<close>: thread ids, the waiter queue and the locale of an
  object that parks threads. \<open>Lv2_Mutex\<close>, \<open>Lv2_Semaphore\<close>, \<open>Lv2_Event_Flag\<close>, \<open>Lv2_Event_Queue\<close>, \<open>Lv2_Cond\<close>: the tables of
  synchronisation objects; an event queue's run keeps a log of what its calls reported. \<open>Ppu_Stack\<close>, \<open>Ppu_Threads\<close>: stack placement and the thread table.

  \<^bold>\<open>Schedule exploration\<close> (\<^verbatim>\<open>cellgov_explore\<close>). \<open>Space_Table\<close> (\<^verbatim>\<open>cellgov_core/src/runtime/spaces\<close>): address spaces and the alias
  ranges of a shared segment, exactly the bytes another view shows. \<open>Spu_Window\<close>: where a transfer
  through the SPU thread window lands. \<open>Explore_Footprint\<close> (\<^verbatim>\<open>dependency.rs\<close>): the footprint of a step and the
  conflict test, symmetric and monotone. \<open>Explore_Note\<close>: what the commit adds to a footprint, and that no
  main-storage dependency of the committed step is missed. \<open>Explore_Commute\<close>:
  steps whose footprints do not conflict commute in the commit pipeline.
  \<^bold>\<open>Floating point\<close> (\<^verbatim>\<open>cellgov_float\<close>, integer-only). \<open>Float_Format\<close>, \<open>Float_Round\<close>: formats by their field widths, exact
  values with a sticky bit, decoding, and the rounding routine. \<open>Float_Rounding\<close>: that routine delivers the
  correctly rounded value, with exact flags, of every real its argument stands for, in any
  format with fields that fit a word (\<open>format_ok\<close>) and for exponents up to \<open>2 ^ 29\<close> (\<open>exact_ok\<close>), far beyond
  what an operation produces. \<open>Float_Arith\<close>: products, sums, quotients and roots stand for the real results.
  \<open>Float_Operand\<close>: decoding and packing are inverse. \<open>Float_Ppc\<close>, \<open>Float_Ppc_Proofs\<close>, \<open>Float_Convert_Proofs\<close>: the scalar
  unit's arithmetic, conversions and NaN rules. \<open>Float_Vmx\<close>, \<open>Float_Vmx_Proofs\<close>, \<open>Float_Vmx_Convert\<close>: the vector unit in
  Java and non-Java mode. \<open>Float_Estimate\<close>, \<open>Float_Estimate_Proofs\<close>: the estimate tables and the accuracy of the
  scalar estimates. An \<^verbatim>\<open>i32\<close> here is an integer that \<open>wrap_i32\<close> brings back to its range.

  \<^bold>\<open>Loops.\<close> Loops over a collection recurse on it; the drain loops of the timer and DMA queues and the
  placement loop carry a measure (the number of entries left), so no definition needs fuel.

  \<^bold>\<open>Not modelled.\<close> The PPU and SPU instruction sets and their timing, the rest of the RSX front end, the LV2
  syscall dispatch over the tables above, the runtime's step loop and the searches that drive it, the boot, comparison and fuzzing tools,
  and generated tables (the syscall census, the NID table): they are clients of the
  layers modelled here or data without behaviour. Host I/O is outside the model throughout.
\<close>

end
